(* ===== verification/Prelude.thy ===== *)
theory Prelude
  imports Main "HOL-Library.Word"
begin

text \<open>
  Shared vocabulary of the development: exceptions as values, the error monad every
  fallible operation is written in, little-endian byte strings, and slices of byte
  buffers. Every other theory imports this one.
\<close>

named_theorems result_simps \<open>rewriting of the error monad\<close>
named_theorems buffer_simps \<open>slices and slice assignment of byte buffers\<close>

section \<open>Exceptions as values\<close>

text \<open>
  One constructor per Python exception class the modelled code raises; the string is the
  message of the raise statement, without the run-time values an f-string inserts.
\<close>

datatype py_error =
    ValueError string
  | TypeError string
  | RuntimeError string
  | KeyError string
  | IndexError string
  | StructError string
  | OverflowError string
  | NotImplementedError string
  | AttributeError string
  | AssertionError string
  | CommandBackpressure string
  | StaleWorkerGeneration string
  | HostKVCapacityError string
  | TokenArenaError string
  | GenerationConfigArenaError string
  | ProposalArenaError string
  | AdmissionRejected string
  | AdmissionCapacityError string
  | TableProtocolError string
  | StableReadConflict string
  | DispatchPlanePoisoned string
  | DraftSessionError string
  | FatalDraftSessionError string
  | TimeoutError string

type_synonym 'a result = "py_error + 'a"

definition bind_r :: "'a result \<Rightarrow> ('a \<Rightarrow> 'b result) \<Rightarrow> 'b result" where
  "bind_r m f = (case m of Inl e \<Rightarrow> Inl e | Inr x \<Rightarrow> f x)"

lemma bind_r_simps [simp, result_simps]:
  "bind_r (Inl e) f = Inl e"
  "bind_r (Inr x) f = f x"
  by (simp_all add: bind_r_def)

lemma bind_r_eq_Inr [result_simps]:
  "bind_r m f = Inr y \<longleftrightarrow> (\<exists>x. m = Inr x \<and> f x = Inr y)"
  by (cases m) simp_all

lemma bind_r_eq_Inl [result_simps]:
  "bind_r m f = Inl e \<longleftrightarrow> m = Inl e \<or> (\<exists>x. m = Inr x \<and> f x = Inl e)"
  by (cases m) simp_all

lemma bind_r_cong [fundef_cong]:
  "m = m' \<Longrightarrow> (\<And>x. m' = Inr x \<Longrightarrow> f x = g x) \<Longrightarrow> bind_r m f = bind_r m' g"
  by (cases m') simp_all

text \<open>The evaluation returns.\<close>

definition returns :: "'a result \<Rightarrow> bool" where
  "returns m = (case m of Inl e \<Rightarrow> False | Inr x \<Rightarrow> True)"

lemma returns_iff [simp]: "returns m \<longleftrightarrow> (\<exists>x. m = Inr x)"
  by (cases m) (simp_all add: returns_def)

text \<open>A guard of the code: \<open>if not cond: raise e\<close>.\<close>

definition require :: "bool \<Rightarrow> py_error \<Rightarrow> unit result" where
  "require b e = (if b then Inr () else Inl e)"

lemma require_simps [simp, result_simps]:
  "require True e = Inr ()"
  "require False e = Inl e"
  "require b e = Inr u \<longleftrightarrow> b"
  "require b e = Inl e' \<longleftrightarrow> \<not> b \<and> e = e'"
  by (simp_all add: require_def)

text \<open>A sequence of pure checks: the first one that raises decides.\<close>

fun checks :: "unit result list \<Rightarrow> unit result" where
  "checks [] = Inr ()"
| "checks (c # cs) = bind_r c (\<lambda>_. checks cs)"

lemma checks_ok [simp, result_simps]: "checks cs = Inr u \<longleftrightarrow> (\<forall>c \<in> set cs. c = Inr ())"
  by (induction cs) (auto simp: bind_r_eq_Inr)

lemma checks_pass [simp]: "\<forall>c \<in> set cs. c = Inr () \<Longrightarrow> checks cs = Inr ()"
  by simp

declare checks.simps(2) [simp del]

lemma result_unit_cases: "(c :: unit result) = Inr () \<or> (\<exists>e. c = Inl e)"
  by (cases c) auto

text \<open>Left-to-right evaluation of a comprehension whose body may raise.\<close>

fun map_r :: "('a \<Rightarrow> 'b result) \<Rightarrow> 'a list \<Rightarrow> 'b list result" where
  "map_r f [] = Inr []"
| "map_r f (x # xs) = bind_r (f x) (\<lambda>y. bind_r (map_r f xs) (\<lambda>ys. Inr (y # ys)))"

fun iter_r :: "('a \<Rightarrow> 's \<Rightarrow> 's result) \<Rightarrow> 'a list \<Rightarrow> 's \<Rightarrow> 's result" where
  "iter_r f [] s = Inr s"
| "iter_r f (x # xs) s = bind_r (f x s) (iter_r f xs)"

lemma map_r_Inr: "map_r f xs = Inr ys \<longleftrightarrow> list_all2 (\<lambda>x y. f x = Inr y) xs ys"
  by (induction xs arbitrary: ys) (auto simp: bind_r_eq_Inr list_all2_Cons1)

lemma iter_r_append: "iter_r f (xs @ ys) s = bind_r (iter_r f xs s) (iter_r f ys)"
proof (induction xs arbitrary: s)
  case (Cons x xs)
  then show ?case by (cases "f x s") simp_all
qed simp

lemma iter_r_invariant:
  assumes "iter_r f xs s = Inr s'" and "P s"
    and "\<And>x s s'. x \<in> set xs \<Longrightarrow> P s \<Longrightarrow> f x s = Inr s' \<Longrightarrow> P s'"
  shows "P s'"
  using assms
proof (induction xs arbitrary: s)
  case (Cons x xs)
  then obtain t where "f x s = Inr t" and t: "iter_r f xs t = Inr s'"
    by (auto simp: bind_r_eq_Inr)
  with Cons.prems have "P t" by (metis list.set_intros(1))
  with Cons.IH [OF t] Cons.prems(3) show ?case by (metis list.set_intros(2))
qed simp

section \<open>Bytes\<close>

type_synonym byte = "8 word"
type_synonym bytes = "byte list"

text \<open>\<open>v.to_bytes(n, 'little')\<close> of a value that fits, and \<open>int.from_bytes\<close>.\<close>

fun le_bytes :: "nat \<Rightarrow> int \<Rightarrow> bytes" where
  "le_bytes 0 v = []"
| "le_bytes (Suc n) v = word_of_int v # le_bytes n (v div 256)"

fun le_int :: "bytes \<Rightarrow> int" where
  "le_int [] = 0"
| "le_int (b # bs) = uint b + 256 * le_int bs"

lemma length_le_bytes [simp]: "length (le_bytes n v) = n"
  by (induction n arbitrary: v) simp_all

lemma le_int_le_bytes [simp]: "0 \<le> v \<Longrightarrow> v < 256 ^ n \<Longrightarrow> le_int (le_bytes n v) = v"
proof (induction n arbitrary: v)
  case (Suc n)
  then have "v div 256 < 256 ^ n" by (simp add: div_less_iff_less_mult mult.commute)
  with Suc show ?case
    by (simp add: uint_word_of_int take_bit_eq_mod)
qed simp

lemma le_int_bounds: "0 \<le> le_int bs" "le_int bs < 256 ^ length bs"
proof (induction bs)
  case (Cons b bs)
  have b: "0 \<le> uint b" "uint b < 256"
    using uint_ge_0 [of b] uint_lt2p [of b] by simp_all
  { case 1 with b Cons.IH show ?case by simp }
  { case 2
    have "le_int bs + 1 \<le> 256 ^ length bs" using Cons.IH(2) by simp
    with b show ?case by simp }
qed simp_all

lemma le_bytes_le_int [simp]: "le_bytes (length bs) (le_int bs) = bs"
proof (induction bs)
  case (Cons b bs)
  have "uint b < 256" "0 \<le> uint b" using uint_lt2p [of b] by simp_all
  then have "(uint b + 256 * le_int bs) div 256 = le_int bs" by simp
  moreover have "(word_of_int (uint b + 256 * le_int bs) :: byte) = b"
  proof (rule word_uint_eqI)
    show "uint (word_of_int (uint b + 256 * le_int bs) :: byte) = uint b"
      using \<open>uint b < 256\<close> \<open>0 \<le> uint b\<close> by (subst uint_word_of_int) simp
  qed
  ultimately show ?case using Cons.IH by simp
qed simp

lemma le_bytes_inject:
  "0 \<le> v \<Longrightarrow> v < 256 ^ n \<Longrightarrow> 0 \<le> w \<Longrightarrow> w < 256 ^ n \<Longrightarrow> le_bytes n v = le_bytes n w \<longleftrightarrow> v = w"
  by (metis le_int_le_bytes)

declare le_bytes.simps(2) [simp del]

section \<open>Byte buffers\<close>

text \<open>\<open>buf[off:off+n]\<close> and the slice assignment \<open>buf[off:off+len(raw)] = raw\<close>.\<close>

definition subbuf :: "nat \<Rightarrow> nat \<Rightarrow> 'a list \<Rightarrow> 'a list" where
  "subbuf off n buf = take n (drop off buf)"

definition overwrite :: "nat \<Rightarrow> 'a list \<Rightarrow> 'a list \<Rightarrow> 'a list" where
  "overwrite off raw buf = take off buf @ raw @ drop (off + length raw) buf"

lemma length_overwrite [simp, buffer_simps]:
  "off + length raw \<le> length buf \<Longrightarrow> length (overwrite off raw buf) = length buf"
  by (simp add: overwrite_def)

lemma length_subbuf [simp, buffer_simps]:
  "off + n \<le> length buf \<Longrightarrow> length (subbuf off n buf) = n"
  by (simp add: subbuf_def)

lemma subbuf_overwrite_same [simp, buffer_simps]:
  "off \<le> length buf \<Longrightarrow> n = length raw \<Longrightarrow> subbuf off n (overwrite off raw buf) = raw"
  by (simp add: subbuf_def overwrite_def)

lemma subbuf_overwrite_before [buffer_simps]:
  "off' + n \<le> off \<Longrightarrow> off \<le> length buf \<Longrightarrow> subbuf off' n (overwrite off raw buf) = subbuf off' n buf"
  by (simp add: subbuf_def overwrite_def drop_take min_absorb1)

lemma subbuf_overwrite_after [buffer_simps]:
  assumes "off + length raw \<le> off'" "off + length raw \<le> length buf"
  shows "subbuf off' n (overwrite off raw buf) = subbuf off' n buf"
proof -
  have "drop off' (overwrite off raw buf) = drop (off' - (off + length raw)) (drop (off + length raw) buf)"
    using assms by (simp add: overwrite_def)
  then show ?thesis using assms by (simp add: subbuf_def)
qed

lemma subbuf_overwrite_disjoint:
  assumes "off' + n \<le> off \<or> off + length raw \<le> off'" "off + length raw \<le> length buf"
  shows "subbuf off' n (overwrite off raw buf) = subbuf off' n buf"
  using assms subbuf_overwrite_before subbuf_overwrite_after
  by (metis add_leD1)

lemma subbuf_all [simp]: "subbuf 0 (length buf) buf = buf"
  by (simp add: subbuf_def)

lemma subbuf_0 [simp]: "subbuf off 0 buf = []"
  by (simp add: subbuf_def)

end
