(* ===== verification/Ids.thy ===== *)
theory Ids
  imports Prelude
begin

text \<open>
  \<open>core/ids.py\<close>: unsigned identity domains with an all-ones sentinel, their circular
  sequence order, and the request and operation fences. The arithmetic is modulo
  \<open>2 ^ bits - 1\<close> (the sentinel is not a value), which makes the half range exact: of two
  distinct valid values one and only one is newer.
\<close>

section \<open>Domains\<close>

record uint_domain =
  dom_name :: string
  dom_bits :: nat

definition modulus :: "uint_domain \<Rightarrow> int" where
  "modulus d = 2 ^ dom_bits d"

definition max_value :: "uint_domain \<Rightarrow> int" where
  "max_value d = modulus d - 1"

definition invalid :: "uint_domain \<Rightarrow> int" where
  "invalid d = max_value d"

definition max_valid :: "uint_domain \<Rightarrow> int" where
  "max_valid d = max_value d - 1"

definition half_range :: "uint_domain \<Rightarrow> int" where
  "half_range d = max_value d div 2"

definition is_valid :: "uint_domain \<Rightarrow> int \<Rightarrow> bool" where
  "is_valid d v \<longleftrightarrow> 0 \<le> v \<and> v \<le> max_valid d"

definition validate :: "uint_domain \<Rightarrow> int \<Rightarrow> int result" where
  "validate d v = (if v < 0 \<or> v > max_valid d then Inl (ValueError (dom_name d @ '' out of domain'')) else Inr v)"

definition next_id :: "uint_domain \<Rightarrow> int \<Rightarrow> int result" where
  "next_id d v = bind_r (validate d v) (\<lambda>_. Inr ((v + 1) mod max_value d))"

definition distance :: "uint_domain \<Rightarrow> int \<Rightarrow> int \<Rightarrow> int result" where
  "distance d newer older =
     bind_r (validate d newer) (\<lambda>_. bind_r (validate d older) (\<lambda>_. Inr ((newer - older) mod max_value d)))"

definition is_newer :: "uint_domain \<Rightarrow> int \<Rightarrow> int \<Rightarrow> bool result" where
  "is_newer d candidate baseline =
     bind_r (distance d candidate baseline) (\<lambda>n. Inr (0 < n \<and> n \<le> half_range d))"

definition is_newer_or_equal :: "uint_domain \<Rightarrow> int \<Rightarrow> int \<Rightarrow> bool result" where
  "is_newer_or_equal d candidate baseline =
     (if candidate = baseline then Inr True else is_newer d candidate baseline)"

definition U8 :: uint_domain where "U8 = \<lparr>dom_name = ''u8'', dom_bits = 8\<rparr>"
definition U16 :: uint_domain where "U16 = \<lparr>dom_name = ''u16'', dom_bits = 16\<rparr>"
definition U32 :: uint_domain where "U32 = \<lparr>dom_name = ''u32'', dom_bits = 32\<rparr>"
definition U64 :: uint_domain where "U64 = \<lparr>dom_name = ''u64'', dom_bits = 64\<rparr>"

abbreviation "REQUEST_SLOT \<equiv> U32"
abbreviation "REQUEST_EPOCH \<equiv> U64"
abbreviation "ROUND_ID \<equiv> U64"
abbreviation "OP_SEQ \<equiv> U64"
abbreviation "COMMAND_SEQ \<equiv> U64"
abbreviation "BATCH_SEQ \<equiv> U64"
abbreviation "WORKER_ID \<equiv> U32"
abbreviation "WORKER_GENERATION \<equiv> U64"
abbreviation "BANK_ID \<equiv> U8"
abbreviation "BANK_EPOCH \<equiv> U64"
abbreviation "HOST_SLOT \<equiv> U32"
abbreviation "HOST_SLOT_GENERATION \<equiv> U64"
abbreviation "WRITER_LEASE_GENERATION \<equiv> U64"
abbreviation "KV_VERSION \<equiv> U64"
abbreviation "ARENA_OFFSET \<equiv> U64"
abbreviation "ARENA_LENGTH \<equiv> U32"
abbreviation "ARENA_GENERATION \<equiv> U32"

lemmas domain_defs = modulus_def max_value_def invalid_def max_valid_def half_range_def

lemma dom_bits_simps [simp]:
  "dom_bits U8 = 8" "dom_bits U16 = 16" "dom_bits U32 = 32" "dom_bits U64 = 64"
  by (simp_all add: U8_def U16_def U32_def U64_def)

lemma validate_Inr [simp]: "validate d v = Inr w \<longleftrightarrow> is_valid d v \<and> w = v"
  by (auto simp: validate_def is_valid_def)

lemma validate_valid [simp]: "is_valid d v \<Longrightarrow> validate d v = Inr v"
  by simp

text \<open>The check a \<open>__post_init__\<close> makes of one field.\<close>

definition check_id :: "uint_domain \<Rightarrow> int \<Rightarrow> unit result" where
  "check_id d v = bind_r (validate d v) (\<lambda>_. Inr ())"

lemma check_id_ok [simp]: "check_id d v = Inr u \<longleftrightarrow> is_valid d v"
  by (auto simp: check_id_def bind_r_eq_Inr)

lemma check_id_valid [simp]: "is_valid d v \<Longrightarrow> check_id d v = Inr ()"
  by simp

lemma valid_U8 [simp]: "is_valid U8 v \<longleftrightarrow> 0 \<le> v \<and> v < 255"
  by (auto simp: is_valid_def domain_defs)

lemma valid_U32 [simp]: "is_valid U32 v \<longleftrightarrow> 0 \<le> v \<and> v < 4294967295"
  by (auto simp: is_valid_def domain_defs)

lemma valid_U64 [simp]: "is_valid U64 v \<longleftrightarrow> 0 \<le> v \<and> v < 18446744073709551615"
  by (auto simp: is_valid_def domain_defs)

section \<open>The circular order\<close>

text \<open>
  The contract a client of the sequence order relies on. \<open>win\<close> is the size of the window
  within which the order is linear.
\<close>

locale serial_order =
  fixes valid :: "int \<Rightarrow> bool"
    and advance :: "nat \<Rightarrow> int \<Rightarrow> int"
    and newer :: "int \<Rightarrow> int \<Rightarrow> bool"
    and win :: nat
  assumes newer_trichotomy: "valid a \<Longrightarrow> valid b \<Longrightarrow> a \<noteq> b \<Longrightarrow> newer a b \<longleftrightarrow> \<not> newer b a"
    and newer_irrefl: "valid a \<Longrightarrow> \<not> newer a a"
    and newer_advance: "valid a \<Longrightarrow> 0 < k \<Longrightarrow> k \<le> win \<Longrightarrow> newer (advance k a) a"
    and valid_advance: "valid a \<Longrightarrow> valid (advance k a)"
    and advance_add: "valid a \<Longrightarrow> advance k (advance l a) = advance (k + l) a"
begin

lemma newer_window:
  assumes "valid a" "k < l" "l - k \<le> win"
  shows "newer (advance l a) (advance k a)" "\<not> newer (advance k a) (advance l a)"
proof -
  have "advance l a = advance (l - k) (advance k a)"
    using assms by (simp add: advance_add)
  then show *: "newer (advance l a) (advance k a)"
    using assms newer_advance [of "advance k a" "l - k"] by (simp add: valid_advance)
  then show "\<not> newer (advance k a) (advance l a)"
    using newer_trichotomy newer_irrefl valid_advance assms(1) by metis
qed

end

definition newer_id :: "uint_domain \<Rightarrow> int \<Rightarrow> int \<Rightarrow> bool" where
  "newer_id d a b = (is_newer d a b = Inr True)"

definition advance_id :: "uint_domain \<Rightarrow> nat \<Rightarrow> int \<Rightarrow> int" where
  "advance_id d k a = (a + int k) mod max_value d"

lemma is_newer_valid:
  "is_valid d a \<Longrightarrow> is_valid d b \<Longrightarrow>
   is_newer d a b = Inr (0 < (a - b) mod max_value d \<and> (a - b) mod max_value d \<le> half_range d)"
  by (simp add: is_newer_def distance_def validate_valid)

lemma is_newer_invalid:
  "\<not> is_valid d a \<or> \<not> is_valid d b \<Longrightarrow> \<exists>e. is_newer d a b = Inl e"
  by (auto simp: is_newer_def distance_def validate_def is_valid_def)

lemma max_value_odd: "0 < dom_bits d \<Longrightarrow> max_value d = 2 * half_range d + 1"
proof -
  assume "0 < dom_bits d"
  then have "even ((2::int) ^ dom_bits d)" by simp
  then have "odd ((2::int) ^ dom_bits d - 1)" by simp
  then show ?thesis by (simp add: domain_defs)
qed

lemma half_range_nonneg: "0 < dom_bits d \<Longrightarrow> 0 \<le> half_range d"
proof -
  assume "0 < dom_bits d"
  have "(1::int) \<le> 2 ^ dom_bits d" by simp
  then show ?thesis by (simp add: domain_defs)
qed

lemma mod_neg_complement:
  fixes x m :: int
  assumes "0 < m" "x mod m \<noteq> 0"
  shows "(- x) mod m = m - x mod m"
  using assms by (simp add: zmod_zminus1_eq_if)

lemma newer_id_trichotomy:
  assumes d: "0 < dom_bits d" and ab: "is_valid d a" "is_valid d b" "a \<noteq> b"
  shows "newer_id d a b \<longleftrightarrow> \<not> newer_id d b a"
proof -
  let ?m = "max_value d" and ?h = "half_range d"
  have m: "?m = 2 * ?h + 1" "0 \<le> ?h" using d max_value_odd half_range_nonneg by blast+
  have "\<bar>a - b\<bar> < ?m" using ab by (auto simp: is_valid_def max_valid_def)
  then have nz: "(a - b) mod ?m \<noteq> 0"
    using ab(3) by (metis dvd_eq_mod_eq_0 dvd_imp_le_int eq_iff_diff_eq_0 abs_of_nonneg
        linorder_not_less m zero_le_mult_iff add_nonneg_nonneg zero_le_numeral zero_le_one)
  have mpos: "0 < ?m" using m by simp
  have bnd: "0 \<le> (a - b) mod ?m" "(a - b) mod ?m < ?m"
    using pos_mod_sign [OF mpos] pos_mod_bound [OF mpos] by blast+
  have "(b - a) mod ?m = ?m - (a - b) mod ?m"
    using mod_neg_complement [of ?m "a - b"] m nz by simp
  then show ?thesis
    using ab m nz bnd by (auto simp: newer_id_def is_newer_valid)
qed

lemma valid_mod: "0 < max_value d \<Longrightarrow> is_valid d (x mod max_value d)"
  using pos_mod_bound [of "max_value d" x] by (simp add: is_valid_def max_valid_def)

lemma next_id_advance: "is_valid d v \<Longrightarrow> next_id d v = Inr (advance_id d 1 v)"
  by (simp add: next_id_def validate_valid advance_id_def)

lemma newer_id_advance_iff:
  assumes d: "0 < dom_bits d" and a: "is_valid d a" and k: "int k < max_value d"
  shows "newer_id d (advance_id d k a) a \<longleftrightarrow> 0 < k \<and> int k \<le> half_range d"
proof -
  have m: "0 < max_value d" using max_value_odd [OF d] half_range_nonneg [OF d] by simp
  have "((a + int k) mod max_value d - a) mod max_value d = (a + int k - a) mod max_value d"
    by (rule mod_diff_left_eq)
  also have "\<dots> = int k" using k by simp
  finally show ?thesis
    using a valid_mod [OF m] by (simp add: newer_id_def advance_id_def is_newer_valid)
qed

lemma serial_order_domain:
  assumes d: "2 \<le> dom_bits d"
  shows "serial_order (is_valid d) (advance_id d) (newer_id d) (nat (half_range d))"
proof
  have d0: "0 < dom_bits d" using d by simp
  have m: "max_value d = 2 * half_range d + 1" "0 \<le> half_range d"
    using max_value_odd [OF d0] half_range_nonneg [OF d0] by auto
  fix a b k l
  show "is_valid d a \<Longrightarrow> is_valid d b \<Longrightarrow> a \<noteq> b \<Longrightarrow> newer_id d a b \<longleftrightarrow> \<not> newer_id d b a"
    using newer_id_trichotomy [OF d0] by blast
  show "is_valid d a \<Longrightarrow> \<not> newer_id d a a"
    by (simp add: newer_id_def is_newer_valid)
  show "is_valid d a \<Longrightarrow> 0 < k \<Longrightarrow> k \<le> nat (half_range d) \<Longrightarrow> newer_id d (advance_id d k a) a"
    using m by (subst newer_id_advance_iff [OF d0]) auto
  show "is_valid d (advance_id d k a)" if "is_valid d a"
    unfolding advance_id_def using m by (intro valid_mod) simp
  show "is_valid d a \<Longrightarrow> advance_id d k (advance_id d l a) = advance_id d (k + l) a"
    by (simp add: advance_id_def mod_simps algebra_simps)
qed

interpretation u32_order: serial_order "is_valid U32" "advance_id U32" "newer_id U32" "nat (half_range U32)"
  by (rule serial_order_domain) simp

interpretation u64_order: serial_order "is_valid U64" "advance_id U64" "newer_id U64" "nat (half_range U64)"
  by (rule serial_order_domain) simp

section \<open>Fences\<close>

record request_fence =
  rf_slot :: int
  rf_epoch :: int

definition check_request_fence :: "request_fence \<Rightarrow> unit result" where
  "check_request_fence f = checks [check_id REQUEST_SLOT (rf_slot f), check_id REQUEST_EPOCH (rf_epoch f)]"

definition matches :: "request_fence \<Rightarrow> request_fence \<Rightarrow> bool" where
  "matches f other \<longleftrightarrow> rf_slot f = rf_slot other \<and> rf_epoch f = rf_epoch other"

record operation_fence =
  of_request :: request_fence
  of_round_id :: int
  of_op_seq :: int
  of_worker_id :: int
  of_worker_generation :: int

definition check_operation_fence :: "operation_fence \<Rightarrow> unit result" where
  "check_operation_fence f = checks
     [check_id ROUND_ID (of_round_id f), check_id OP_SEQ (of_op_seq f),
      check_id WORKER_ID (of_worker_id f), check_id WORKER_GENERATION (of_worker_generation f)]"

definition applies_to :: "operation_fence \<Rightarrow> operation_fence \<Rightarrow> bool" where
  "applies_to f intent \<longleftrightarrow>
     matches (of_request f) (of_request intent)
     \<and> of_round_id f = of_round_id intent
     \<and> of_op_seq f = of_op_seq intent
     \<and> of_worker_id f = of_worker_id intent
     \<and> of_worker_generation f = of_worker_generation intent"

definition is_stale_request_fact :: "request_fence \<Rightarrow> request_fence \<Rightarrow> bool" where
  "is_stale_request_fact current seen \<longleftrightarrow>
     rf_slot current = rf_slot seen \<and> rf_epoch current \<noteq> rf_epoch seen"

lemma applies_to_equiv: "equivp applies_to"
  by (rule equivpI) (auto simp: applies_to_def matches_def intro!: reflpI sympI transpI)

lemma applies_to_iff_eq: "applies_to f g \<longleftrightarrow> f = g"
  by (cases f; cases g; cases "of_request f"; cases "of_request g")
    (auto simp: applies_to_def matches_def)

lemma stale_or_matches:
  "rf_slot f = rf_slot g \<Longrightarrow> is_stale_request_fact f g \<longleftrightarrow> \<not> matches f g"
  by (auto simp: is_stale_request_fact_def matches_def)

section \<open>Properties\<close>

text \<open>\<open>next\<close> applied \<open>k\<close> times.\<close>

fun next_many :: "uint_domain \<Rightarrow> nat \<Rightarrow> int \<Rightarrow> int result" where
  "next_many d 0 a = Inr a"
| "next_many d (Suc k) a = bind_r (next_id d a) (next_many d k)"

lemma next_many_advance:
  "2 \<le> dom_bits d \<Longrightarrow> is_valid d a \<Longrightarrow> next_many d k a = Inr (advance_id d k a)"
proof (induction k arbitrary: a)
  case 0
  then have "a mod max_value d = a" by (auto simp: is_valid_def max_valid_def)
  then show ?case by (simp add: advance_id_def)
next
  case (Suc k)
  note so = serial_order_domain [OF Suc.prems(1)]
  show ?case
    using Suc serial_order.valid_advance [OF so, of a 1] serial_order.advance_add [OF so, of a k 1]
    by (simp add: next_id_advance)
qed

text \<open>Of two distinct valid values of a domain exactly one is newer than the other, so the
  freshness tests of epochs, rounds and command sequences never accept both of a stale and a
  fresh value and never reject both.\<close>

theorem sequence_trichotomy:
  assumes "0 < dom_bits d" "is_valid d a" "is_valid d b" "a \<noteq> b"
  shows "(is_newer d a b = Inr True \<and> is_newer d b a = Inr False)
       \<or> (is_newer d a b = Inr False \<and> is_newer d b a = Inr True)"
  using newer_id_trichotomy [OF assms] assms by (auto simp: newer_id_def is_newer_valid)

theorem sequence_trichotomy_witness:
  "(is_newer U8 3 253 = Inr True \<and> is_newer U8 253 3 = Inr False)
   \<or> (is_newer U8 3 253 = Inr False \<and> is_newer U8 253 3 = Inr True)"
  by (rule sequence_trichotomy) simp_all

text \<open>Values produced by \<open>next\<close> are ordered by \<open>is_newer\<close> across the wrap-around as long as they
  are at most half the range apart, stay valid and never hit the sentinel.\<close>

theorem sequence_window:
  assumes "2 \<le> dom_bits d" "is_valid d a" "next_many d k a = Inr b" "next_many d l a = Inr c"
    and "k < l" "int (l - k) \<le> half_range d"
  shows "is_newer d c b = Inr True \<and> is_newer d b c = Inr False
       \<and> is_valid d b \<and> is_valid d c \<and> b \<noteq> invalid d \<and> c \<noteq> invalid d"
proof -
  note so = serial_order_domain [OF assms(1)]
  have bc: "b = advance_id d k a" "c = advance_id d l a"
    using assms(3,4) next_many_advance [OF assms(1,2)] by simp_all
  then have v: "is_valid d b" "is_valid d c"
    using serial_order.valid_advance [OF so assms(2)] by simp_all
  have "newer_id d c b" "\<not> newer_id d b c"
    using serial_order.newer_window [OF so assms(2,5)] assms(6) bc by simp_all
  with v show ?thesis
    by (auto simp: newer_id_def is_newer_valid) (auto simp: is_valid_def max_valid_def invalid_def)
qed

theorem sequence_window_witness:
  "is_newer U8 3 253 = Inr True \<and> is_newer U8 253 3 = Inr False
   \<and> is_valid U8 253 \<and> is_valid U8 3 \<and> 253 \<noteq> invalid U8 \<and> 3 \<noteq> invalid U8"
  by (rule sequence_window [of U8 250 3 253 8 3])
    (simp_all add: next_many_advance advance_id_def domain_defs)

end
