(* ===== verification/Handles.thy ===== *)
theory Handles
  imports Ids
begin

text \<open>
  \<open>core/handles.py\<close>: the numeric triples that name a payload inside an arena. A value of
  the Python classes has passed \<open>__post_init__\<close>; here the record is the raw triple and
  \<open>check_handle\<close> and \<open>check_hostkv_handle\<close> are the constructor's validation.
\<close>

record arena_handle =
  h_offset :: int
  h_length :: int
  h_generation :: int

definition check_handle :: "arena_handle \<Rightarrow> unit result" where
  "check_handle h = checks
     [check_id ARENA_OFFSET (h_offset h), check_id ARENA_LENGTH (h_length h),
      check_id ARENA_GENERATION (h_generation h)]"

definition mk_handle :: "int \<Rightarrow> int \<Rightarrow> int \<Rightarrow> arena_handle result" where
  "mk_handle off len gen =
     (let h = \<lparr>h_offset = off, h_length = len, h_generation = gen\<rparr>
      in bind_r (check_handle h) (\<lambda>_. Inr h))"

definition null_handle :: arena_handle where
  "null_handle = \<lparr>h_offset = 0, h_length = 0, h_generation = 0\<rparr>"

definition end_offset :: "arena_handle \<Rightarrow> int" where
  "end_offset h = h_offset h + h_length h"

definition handle_is_empty :: "arena_handle \<Rightarrow> bool" where
  "handle_is_empty h \<longleftrightarrow> h_length h = 0"

definition handle_within :: "arena_handle \<Rightarrow> int \<Rightarrow> bool result" where
  "handle_within h capacity = bind_r (validate ARENA_OFFSET capacity) (\<lambda>_. Inr (end_offset h \<le> capacity))"

record hostkv_handle =
  hk_offset_blocks :: int
  hk_block_count :: int
  hk_generation :: int

definition check_hostkv_handle :: "hostkv_handle \<Rightarrow> unit result" where
  "check_hostkv_handle h = checks
     [check_id ARENA_OFFSET (hk_offset_blocks h), check_id ARENA_LENGTH (hk_block_count h),
      check_id ARENA_GENERATION (hk_generation h)]"

definition mk_hostkv_handle :: "int \<Rightarrow> int \<Rightarrow> int \<Rightarrow> hostkv_handle result" where
  "mk_hostkv_handle off cnt gen =
     (let h = \<lparr>hk_offset_blocks = off, hk_block_count = cnt, hk_generation = gen\<rparr>
      in bind_r (check_hostkv_handle h) (\<lambda>_. Inr h))"

definition null_hostkv_handle :: hostkv_handle where
  "null_hostkv_handle = \<lparr>hk_offset_blocks = 0, hk_block_count = 0, hk_generation = 0\<rparr>"

definition end_block :: "hostkv_handle \<Rightarrow> int" where
  "end_block h = hk_offset_blocks h + hk_block_count h"

definition within_blocks :: "hostkv_handle \<Rightarrow> int \<Rightarrow> bool result" where
  "within_blocks h total_blocks =
     bind_r (validate ARENA_OFFSET total_blocks) (\<lambda>_. Inr (end_block h \<le> total_blocks))"

abbreviation handle_ok :: "arena_handle \<Rightarrow> bool" where
  "handle_ok h \<equiv> check_handle h = Inr ()"

abbreviation hostkv_handle_ok :: "hostkv_handle \<Rightarrow> bool" where
  "hostkv_handle_ok h \<equiv> check_hostkv_handle h = Inr ()"

lemma handle_ok_iff:
  "handle_ok h \<longleftrightarrow> is_valid U64 (h_offset h) \<and> is_valid U32 (h_length h) \<and> is_valid U32 (h_generation h)"
  by (simp add: check_handle_def del: valid_U32 valid_U64)

lemma hostkv_handle_ok_iff:
  "hostkv_handle_ok h \<longleftrightarrow>
   is_valid U64 (hk_offset_blocks h) \<and> is_valid U32 (hk_block_count h) \<and> is_valid U32 (hk_generation h)"
  by (simp add: check_hostkv_handle_def del: valid_U32 valid_U64)

lemma mk_handle_Inr:
  "mk_handle off len gen = Inr h \<longleftrightarrow>
   h = \<lparr>h_offset = off, h_length = len, h_generation = gen\<rparr> \<and> handle_ok h"
  by (auto simp: mk_handle_def Let_def bind_r_eq_Inr)

lemma mk_hostkv_handle_Inr:
  "mk_hostkv_handle off cnt gen = Inr h \<longleftrightarrow>
   h = \<lparr>hk_offset_blocks = off, hk_block_count = cnt, hk_generation = gen\<rparr> \<and> hostkv_handle_ok h"
  by (auto simp: mk_hostkv_handle_def Let_def bind_r_eq_Inr)

lemma handle_within_Inr:
  "handle_within h c = Inr b \<longleftrightarrow> is_valid U64 c \<and> (b \<longleftrightarrow> end_offset h \<le> c)"
  by (auto simp: handle_within_def bind_r_eq_Inr)

lemma null_handle_ok [simp]: "handle_ok null_handle" "hostkv_handle_ok null_hostkv_handle"
  by (simp_all add: null_handle_def null_hostkv_handle_def handle_ok_iff hostkv_handle_ok_iff)

end
