(* ===== verification/Wire.thy ===== *)
theory Wire
  imports Handles
begin

text \<open>
  The byte level of the command protocol: the encoders \<open>_u8\<close>, \<open>_u32\<close>, \<open>_u64\<close>, \<open>_handle\<close>,
  \<open>_hostkv_handle\<close> and the \<open>_PayloadReader\<close> of \<open>ipc/protocol.py\<close>, and \<open>struct\<close> packing of
  unsigned fields. \<open>codec\<close> is the contract between an encoder and the reader method that takes
  the same bytes back; lists of rows are handled once, inside it.
\<close>

named_theorems wire_simps \<open>rewriting of encoders and of reads at a known position\<close>

section \<open>Encoders\<close>

definition enc_u8 :: "int \<Rightarrow> bytes result" where
  "enc_u8 v = bind_r (validate BANK_ID v) (\<lambda>_. Inr (le_bytes (Suc 0) v))"

definition enc_u32 :: "int \<Rightarrow> bytes result" where
  "enc_u32 v = bind_r (validate U32 v) (\<lambda>_. Inr (le_bytes 4 v))"

definition enc_u64 :: "int \<Rightarrow> bytes result" where
  "enc_u64 v = bind_r (validate U64 v) (\<lambda>_. Inr (le_bytes 8 v))"

text \<open>One unsigned field of \<open>n\<close> bytes of a \<open>struct\<close> format, and \<open>int.to_bytes\<close>.\<close>

definition pack_uint :: "nat \<Rightarrow> int \<Rightarrow> bytes result" where
  "pack_uint n v = (if 0 \<le> v \<and> v < 256 ^ n then Inr (le_bytes n v)
                    else Inl (StructError ''argument out of range''))"

fun concat_r :: "bytes result list \<Rightarrow> bytes result" where
  "concat_r [] = Inr []"
| "concat_r (c # cs) = bind_r c (\<lambda>b. bind_r (concat_r cs) (\<lambda>bs. Inr (b @ bs)))"

definition enc_handle :: "arena_handle \<Rightarrow> bytes result" where
  "enc_handle h = concat_r [enc_u64 (h_offset h), enc_u32 (h_length h), enc_u32 (h_generation h)]"

definition enc_hostkv_handle :: "hostkv_handle \<Rightarrow> bytes result" where
  "enc_hostkv_handle h =
     concat_r [enc_u64 (hk_offset_blocks h), enc_u32 (hk_block_count h), enc_u32 (hk_generation h)]"

lemma enc_uint_Inr [wire_simps]:
  "enc_u8 v = Inr bs \<longleftrightarrow> is_valid U8 v \<and> bs = le_bytes (Suc 0) v"
  "enc_u32 v = Inr bs \<longleftrightarrow> is_valid U32 v \<and> bs = le_bytes 4 v"
  "enc_u64 v = Inr bs \<longleftrightarrow> is_valid U64 v \<and> bs = le_bytes 8 v"
  "pack_uint n v = Inr bs \<longleftrightarrow> 0 \<le> v \<and> v < 256 ^ n \<and> bs = le_bytes n v"
  by (auto simp: enc_u8_def enc_u32_def enc_u64_def pack_uint_def bind_r_eq_Inr simp del: valid_U8 valid_U32 valid_U64)

lemma pack_valid [wire_simps]:
  "is_valid U32 v \<Longrightarrow> pack_uint 4 v = Inr (le_bytes 4 v)"
  "is_valid U64 v \<Longrightarrow> pack_uint 8 v = Inr (le_bytes 8 v)"
  by (auto simp: pack_uint_def)

lemma concat_r_Inr [wire_simps]:
  "concat_r [] = Inr bs \<longleftrightarrow> bs = []"
  "concat_r (c # cs) = Inr bs \<longleftrightarrow> (\<exists>b bs'. c = Inr b \<and> concat_r cs = Inr bs' \<and> bs = b @ bs')"
  by (auto simp: bind_r_eq_Inr)

section \<open>The payload reader\<close>

record payload_reader =
  pr_raw :: bytes
  pr_offset :: nat

definition new_reader :: "bytes \<Rightarrow> payload_reader" where
  "new_reader raw = \<lparr>pr_raw = raw, pr_offset = 0\<rparr>"

definition rd_require :: "nat \<Rightarrow> payload_reader \<Rightarrow> unit result" where
  "rd_require n r =
     require (pr_offset r + n \<le> length (pr_raw r)) (ValueError ''truncated command payload'')"

definition skip :: "nat \<Rightarrow> payload_reader \<Rightarrow> payload_reader" where
  "skip n r = r\<lparr>pr_offset := pr_offset r + n\<rparr>"

definition peek :: "nat \<Rightarrow> payload_reader \<Rightarrow> int" where
  "peek n r = le_int (subbuf (pr_offset r) n (pr_raw r))"

definition rd_raw :: "nat \<Rightarrow> payload_reader \<Rightarrow> (bytes \<times> payload_reader) result" where
  "rd_raw n r = bind_r (rd_require n r)
     (\<lambda>_. Inr (subbuf (pr_offset r) n (pr_raw r), skip n r))"

definition rd_uint :: "nat \<Rightarrow> payload_reader \<Rightarrow> (int \<times> payload_reader) result" where
  "rd_uint n r = bind_r (rd_require n r) (\<lambda>_. Inr (peek n r, skip n r))"

definition rd_u8 :: "payload_reader \<Rightarrow> (int \<times> payload_reader) result" where "rd_u8 = rd_uint (Suc 0)"
definition rd_u32 :: "payload_reader \<Rightarrow> (int \<times> payload_reader) result" where "rd_u32 = rd_uint 4"
definition rd_u64 :: "payload_reader \<Rightarrow> (int \<times> payload_reader) result" where "rd_u64 = rd_uint 8"

definition rd_handle :: "payload_reader \<Rightarrow> (arena_handle \<times> payload_reader) result" where
  "rd_handle r = bind_r (rd_u64 r) (\<lambda>(off, r). bind_r (rd_u32 r) (\<lambda>(len, r). bind_r (rd_u32 r) (\<lambda>(gen, r).
     bind_r (mk_handle off len gen) (\<lambda>h. Inr (h, r)))))"

definition rd_hostkv_handle :: "payload_reader \<Rightarrow> (hostkv_handle \<times> payload_reader) result" where
  "rd_hostkv_handle r = bind_r (rd_u64 r) (\<lambda>(off, r). bind_r (rd_u32 r) (\<lambda>(cnt, r). bind_r (rd_u32 r) (\<lambda>(gen, r).
     bind_r (mk_hostkv_handle off cnt gen) (\<lambda>h. Inr (h, r)))))"

definition rd_finish :: "payload_reader \<Rightarrow> unit result" where
  "rd_finish r = require (pr_offset r = length (pr_raw r)) (ValueError ''payload has trailing bytes'')"

text \<open>\<open>tuple(read(reader) for _ in range(count))\<close>\<close>

fun rd_list :: "(payload_reader \<Rightarrow> ('a \<times> payload_reader) result) \<Rightarrow> nat \<Rightarrow> payload_reader \<Rightarrow> ('a list \<times> payload_reader) result" where
  "rd_list rd 0 r = Inr ([], r)"
| "rd_list rd (Suc n) r = bind_r (rd r) (\<lambda>(x, r). bind_r (rd_list rd n r) (\<lambda>(xs, r). Inr (x # xs, r)))"

section \<open>Reading back\<close>

text \<open>\<open>sees r bs\<close>: the next bytes of the reader are \<open>bs\<close>.\<close>

definition avail :: "nat \<Rightarrow> payload_reader \<Rightarrow> bool" where
  "avail n r \<longleftrightarrow> pr_offset r + n \<le> length (pr_raw r)"

definition sees :: "payload_reader \<Rightarrow> bytes \<Rightarrow> bool" where
  "sees r bs \<longleftrightarrow> avail (length bs) r \<and> subbuf (pr_offset r) (length bs) (pr_raw r) = bs"

lemma skip_skip [simp]: "skip m (skip n r) = skip (n + m) r"
  by (simp add: skip_def)

lemma skip_0 [simp]: "skip 0 r = r"
  by (simp add: skip_def)

lemma sees_Nil [simp]: "sees r [] \<longleftrightarrow> avail 0 r"
  by (simp add: sees_def)

lemma avail_mono: "avail n r \<Longrightarrow> m \<le> n \<Longrightarrow> avail m r"
  by (simp add: avail_def)

lemma sees_append: "sees r (as @ bs) \<longleftrightarrow> sees r as \<and> sees (skip (length as) r) bs"
proof -
  have *: "subbuf n (length as + length bs) raw = as @ bs
        \<longleftrightarrow> subbuf n (length as) raw = as \<and> subbuf (n + length as) (length bs) raw = bs"
    if "n + length as + length bs \<le> length raw" for n and raw :: bytes
    using that by (simp add: subbuf_def take_add append_eq_append_conv add.commute)
  show ?thesis
    using * [of "pr_offset r" "pr_raw r"] by (auto simp: sees_def avail_def skip_def add.assoc)
qed

lemma sees_le_bytes:
  assumes "0 \<le> v" "v < 256 ^ n"
  shows "sees r (le_bytes n v) \<longleftrightarrow> avail n r \<and> peek n r = v"
proof (cases "avail n r")
  case True
  then have len: "length (subbuf (pr_offset r) n (pr_raw r)) = n" by (simp add: avail_def)
  have "subbuf (pr_offset r) n (pr_raw r) = le_bytes n v \<longleftrightarrow> le_int (subbuf (pr_offset r) n (pr_raw r)) = v"
    using assms len le_bytes_le_int by (metis le_int_le_bytes)
  with True show ?thesis by (simp add: sees_def peek_def)
qed (simp add: sees_def)

lemma sees_word_bytes [wire_simps]:
  "is_valid U8 v \<Longrightarrow> sees r (le_bytes (Suc 0) v) \<longleftrightarrow> avail (Suc 0) r \<and> peek (Suc 0) r = v"
  "is_valid U32 v \<Longrightarrow> sees r (le_bytes 4 v) \<longleftrightarrow> avail 4 r \<and> peek 4 r = v"
  "is_valid U64 v \<Longrightarrow> sees r (le_bytes 8 v) \<longleftrightarrow> avail 8 r \<and> peek 8 r = v"
  by (auto simp: sees_le_bytes)

lemma sees_new_reader: "sees (new_reader bs) bs"
  by (simp add: sees_def avail_def new_reader_def)

lemma rd_uint_avail [wire_simps]:
  "avail (Suc 0) r \<Longrightarrow> rd_u8 r = Inr (peek (Suc 0) r, skip (Suc 0) r)"
  "avail 4 r \<Longrightarrow> rd_u32 r = Inr (peek 4 r, skip 4 r)"
  "avail 8 r \<Longrightarrow> rd_u64 r = Inr (peek 8 r, skip 8 r)"
  by (simp_all add: rd_u8_def rd_u32_def rd_u64_def rd_uint_def rd_require_def avail_def)

definition peek_raw :: "nat \<Rightarrow> payload_reader \<Rightarrow> bytes" where
  "peek_raw n r = subbuf (pr_offset r) n (pr_raw r)"

lemma rd_raw_avail: "avail n r \<Longrightarrow> rd_raw n r = Inr (peek_raw n r, skip n r)"
  by (simp add: rd_raw_def rd_require_def avail_def peek_raw_def)

lemma sees_peek_raw: "length bs = n \<Longrightarrow> sees r bs \<longleftrightarrow> avail n r \<and> peek_raw n r = bs"
  by (auto simp: sees_def peek_raw_def)

lemma rd_finish_skip: "rd_finish (skip (length bs) (new_reader bs)) = Inr ()"
  by (simp add: rd_finish_def skip_def new_reader_def)

lemma handle_eta [simp]:
  "\<lparr>h_offset = h_offset h, h_length = h_length h, h_generation = h_generation h\<rparr> = h"
  by (cases h) simp

lemma hostkv_handle_eta [simp]:
  "\<lparr>hk_offset_blocks = hk_offset_blocks h, hk_block_count = hk_block_count h, hk_generation = hk_generation h\<rparr> = h"
  by (cases h) simp

section \<open>The contract of a codec\<close>

locale codec =
  fixes ok :: "'a \<Rightarrow> bool"
    and enc :: "'a \<Rightarrow> bytes result"
    and dec :: "payload_reader \<Rightarrow> ('a \<times> payload_reader) result"
  assumes encodes: "ok x \<Longrightarrow> \<exists>bs. enc x = Inr bs"
    and decodes: "ok x \<Longrightarrow> enc x = Inr bs \<Longrightarrow> sees r bs \<Longrightarrow> dec r = Inr (x, skip (length bs) r)"
begin

lemma encodes_list: "\<forall>x \<in> set xs. ok x \<Longrightarrow> \<exists>bs. concat_r (map enc xs) = Inr bs"
proof (induction xs)
  case (Cons x xs)
  then obtain b bs where "enc x = Inr b" "concat_r (map enc xs) = Inr bs"
    using encodes [of x] by (meson list.set_intros)
  then show ?case by simp
qed simp

lemma decodes_list:
  "\<forall>x \<in> set xs. ok x \<Longrightarrow> concat_r (map enc xs) = Inr bs \<Longrightarrow> sees r bs
   \<Longrightarrow> rd_list dec (length xs) r = Inr (xs, skip (length bs) r)"
proof (induction xs arbitrary: r bs)
  case (Cons x xs)
  from Cons.prems(2) obtain b bs' where b: "enc x = Inr b" "concat_r (map enc xs) = Inr bs'" "bs = b @ bs'"
    by (auto simp: concat_r_Inr simp del: concat_r.simps)
  with Cons.prems have s: "sees r b" "sees (skip (length b) r) bs'" by (simp_all add: sees_append)
  have "dec r = Inr (x, skip (length b) r)" using decodes Cons.prems(1) b s by simp
  with Cons.IH [OF _ b(2) s(2)] Cons.prems(1) b show ?case by simp
qed simp

lemma encoding_injective:
  "ok x \<Longrightarrow> ok y \<Longrightarrow> enc x = Inr bs \<Longrightarrow> enc y = Inr bs \<Longrightarrow> x = y"
  using decodes [of x bs "new_reader bs"] decodes [of y bs "new_reader bs"] sees_new_reader by simp

end

text \<open>A handle occupies 16 bytes; \<open>peek_handle\<close> is the triple at the reader's position.\<close>

definition handle_bytes :: "arena_handle \<Rightarrow> bytes" where
  "handle_bytes h = le_bytes 8 (h_offset h) @ le_bytes 4 (h_length h) @ le_bytes 4 (h_generation h)"

definition hostkv_handle_bytes :: "hostkv_handle \<Rightarrow> bytes" where
  "hostkv_handle_bytes h =
     le_bytes 8 (hk_offset_blocks h) @ le_bytes 4 (hk_block_count h) @ le_bytes 4 (hk_generation h)"

definition peek_handle :: "payload_reader \<Rightarrow> arena_handle" where
  "peek_handle r = \<lparr>h_offset = peek 8 r, h_length = peek 4 (skip 8 r), h_generation = peek 4 (skip 12 r)\<rparr>"

definition peek_hostkv_handle :: "payload_reader \<Rightarrow> hostkv_handle" where
  "peek_hostkv_handle r =
     \<lparr>hk_offset_blocks = peek 8 r, hk_block_count = peek 4 (skip 8 r), hk_generation = peek 4 (skip 12 r)\<rparr>"

lemma length_handle_bytes [simp]:
  "length (handle_bytes h) = 16" "length (hostkv_handle_bytes k) = 16"
  by (simp_all add: handle_bytes_def hostkv_handle_bytes_def)

lemma enc_handle_Inr [wire_simps]:
  "enc_handle h = Inr bs \<longleftrightarrow> handle_ok h \<and> bs = handle_bytes h"
  "enc_hostkv_handle k = Inr bs \<longleftrightarrow> hostkv_handle_ok k \<and> bs = hostkv_handle_bytes k"
  by (auto simp: enc_handle_def enc_hostkv_handle_def handle_ok_iff hostkv_handle_ok_iff wire_simps
      handle_bytes_def hostkv_handle_bytes_def simp del: concat_r.simps valid_U32 valid_U64)

lemma avail_16: "avail 16 r \<longleftrightarrow> avail 8 r \<and> avail 4 (skip 8 r) \<and> avail 4 (skip 12 r)"
  by (auto simp: avail_def skip_def)

lemma sees_handle_bytes [wire_simps]:
  "handle_ok h \<Longrightarrow> sees r (handle_bytes h) \<longleftrightarrow> avail 16 r \<and> peek_handle r = h"
  "hostkv_handle_ok k \<Longrightarrow> sees r (hostkv_handle_bytes k) \<longleftrightarrow> avail 16 r \<and> peek_hostkv_handle r = k"
  by (cases h, cases k, auto simp: handle_ok_iff hostkv_handle_ok_iff handle_bytes_def hostkv_handle_bytes_def
      sees_append wire_simps peek_handle_def peek_hostkv_handle_def avail_16 simp del: valid_U32 valid_U64)

lemma rd_handle_avail [wire_simps]:
  "avail 16 r \<Longrightarrow> handle_ok (peek_handle r) \<Longrightarrow> rd_handle r = Inr (peek_handle r, skip 16 r)"
  "avail 16 r \<Longrightarrow> hostkv_handle_ok (peek_hostkv_handle r)
     \<Longrightarrow> rd_hostkv_handle r = Inr (peek_hostkv_handle r, skip 16 r)"
  by (simp_all add: rd_handle_def rd_hostkv_handle_def avail_16 wire_simps mk_handle_def mk_hostkv_handle_def
      flip: peek_handle_def peek_hostkv_handle_def)


lemmas wire_del = concat_r.simps valid_U8 valid_U32 valid_U64

interpretation u32_codec: codec "is_valid U32" enc_u32 rd_u32
  by unfold_locales (auto simp: wire_simps sees_append simp del: wire_del)

interpretation handle_codec: codec handle_ok enc_handle rd_handle
  by unfold_locales (auto simp: wire_simps sees_append simp del: wire_del)

interpretation hostkv_handle_codec: codec hostkv_handle_ok enc_hostkv_handle rd_hostkv_handle
  by unfold_locales (auto simp: wire_simps sees_append simp del: wire_del)

end
