(* ===== verification/DraftContracts.thy ===== *)
theory DraftContracts
  imports Wire
begin

text \<open>
  \<open>core/draft_contracts.py\<close>: the fixed wire identity of a Draft snapshot. A record is the raw
  field tuple; \<open>check_...\<close> is the \<open>__post_init__\<close> of the class. The nested \<open>from_bytes\<close> of an
  allocation reads the tail of the same buffer, which here is the same reader further on.
\<close>

section \<open>Shared handles\<close>

definition require_handle :: "arena_handle \<Rightarrow> unit result" where
  "require_handle h = require (\<not> handle_is_empty h) (ValueError ''shared handle must not be empty'')"

definition pack_handle :: "arena_handle \<Rightarrow> bytes result" where
  "pack_handle h = bind_r (require_handle h) (\<lambda>_.
     concat_r [pack_uint 8 (h_offset h), pack_uint 4 (h_length h), pack_uint 4 (h_generation h)])"

definition shared_handle_ok :: "arena_handle \<Rightarrow> bool" where
  "shared_handle_ok h \<longleftrightarrow> handle_ok h \<and> require_handle h = Inr ()"

lemma pack_handle_ok [wire_simps]:
  "handle_ok h \<Longrightarrow> require_handle h = Inr () \<Longrightarrow> pack_handle h = Inr (handle_bytes h)"
  by (auto simp: pack_handle_def handle_ok_iff handle_bytes_def wire_simps
      simp del: valid_U32 valid_U64)

interpretation shared_handle_codec: codec shared_handle_ok pack_handle rd_handle
  by unfold_locales (auto simp: wire_simps sees_append shared_handle_ok_def simp del: wire_del)

section \<open>Host allocation\<close>

record draft_host_allocation =
  dha_arena_id :: int
  dha_arena_generation :: int
  dha_layout_id :: int
  dha_host_slot_generation :: int
  dha_writer_lease_generation :: int
  dha_offset_blocks :: int
  dha_host_slot :: int
  dha_capacity_blocks :: int
  dha_block_size :: int

definition check_draft_host_allocation :: "draft_host_allocation \<Rightarrow> unit result" where
  "check_draft_host_allocation x = checks
     [check_id U32 (dha_arena_id x), check_id U32 (dha_arena_generation x),
      check_id U32 (dha_host_slot x), check_id U32 (dha_capacity_blocks x),
      check_id U64 (dha_layout_id x), check_id U64 (dha_host_slot_generation x),
      check_id U64 (dha_writer_lease_generation x), check_id U64 (dha_offset_blocks x),
      check_id U64 (dha_block_size x),
      require (dha_capacity_blocks x \<noteq> 0 \<and> dha_block_size x \<noteq> 0) (ValueError ''HostKV capacity and block size must be positive'')]"

definition draft_host_allocation_ok :: "draft_host_allocation \<Rightarrow> bool" where
  "draft_host_allocation_ok x \<longleftrightarrow> check_draft_host_allocation x = Inr ()"

definition allocation_to_bytes :: "draft_host_allocation \<Rightarrow> bytes result" where
  "allocation_to_bytes x = concat_r
     [pack_uint 4 (dha_arena_id x), pack_uint 4 (dha_arena_generation x),
      pack_uint 8 (dha_layout_id x), pack_uint 8 (dha_host_slot_generation x),
      pack_uint 8 (dha_writer_lease_generation x), pack_uint 8 (dha_offset_blocks x),
      pack_uint 4 (dha_host_slot x), pack_uint 4 (dha_capacity_blocks x),
      pack_uint 8 (dha_block_size x)]"

definition rd_allocation :: "payload_reader \<Rightarrow> (draft_host_allocation \<times> payload_reader) result" where
  "rd_allocation r =
     bind_r (rd_u32 r) (\<lambda>(v1, r). bind_r (rd_u32 r) (\<lambda>(v2, r). bind_r (rd_u64 r) (\<lambda>(v3, r).
     bind_r (rd_u64 r) (\<lambda>(v4, r). bind_r (rd_u64 r) (\<lambda>(v5, r). bind_r (rd_u64 r) (\<lambda>(v6, r).
     bind_r (rd_u32 r) (\<lambda>(v7, r). bind_r (rd_u32 r) (\<lambda>(v8, r). bind_r (rd_u64 r) (\<lambda>(v9, r).
       let x = \<lparr>dha_arena_id = v1, dha_arena_generation = v2, dha_layout_id = v3,
               dha_host_slot_generation = v4, dha_writer_lease_generation = v5,
               dha_offset_blocks = v6, dha_host_slot = v7, dha_capacity_blocks = v8,
               dha_block_size = v9\<rparr>
       in bind_r (check_draft_host_allocation x) (\<lambda>_. Inr (x, r)))))))))))"

definition allocation_from_bytes :: "bytes \<Rightarrow> draft_host_allocation result" where
  "allocation_from_bytes raw = bind_r (require (length raw = 56) (StructError ''unpack requires a buffer of 56 bytes''))
     (\<lambda>_. bind_r (rd_allocation (new_reader raw)) (\<lambda>(x, _). Inr x))"

interpretation draft_host_allocation_codec: codec draft_host_allocation_ok allocation_to_bytes rd_allocation
proof
  fix x :: draft_host_allocation and bs r
  assume ok: "draft_host_allocation_ok x"
  then show "\<exists>bs. allocation_to_bytes x = Inr bs"
    by (auto simp: allocation_to_bytes_def draft_host_allocation_ok_def check_draft_host_allocation_def wire_simps sees_append simp del: wire_del)
  show "allocation_to_bytes x = Inr bs \<Longrightarrow> sees r bs \<Longrightarrow> rd_allocation r = Inr (x, skip (length bs) r)"
    using ok by (cases x) (auto simp: allocation_to_bytes_def rd_allocation_def draft_host_allocation_ok_def check_draft_host_allocation_def wire_simps sees_append Let_def
      simp del: wire_del)
qed

lemma length_allocation_bytes: "allocation_to_bytes x = Inr bs \<Longrightarrow> length bs = 56"
  by (auto simp: allocation_to_bytes_def wire_simps simp del: concat_r.simps)

lemma allocation_roundtrip:
  "draft_host_allocation_ok x \<Longrightarrow> allocation_to_bytes x = Inr bs \<Longrightarrow> allocation_from_bytes bs = Inr x"
  using draft_host_allocation_codec.decodes [of x bs "new_reader bs"] sees_new_reader length_allocation_bytes
  by (simp add: allocation_from_bytes_def)

section \<open>Snapshot identity\<close>

record draft_snapshot_identity =
  dsi_request_slot :: int
  dsi_request_epoch :: int
  dsi_round_id :: int
  dsi_op_seq :: int
  dsi_worker_id :: int
  dsi_worker_generation :: int
  dsi_owner_epoch :: int
  dsi_snapshot_version :: int
  dsi_logical_kv_len :: int
  dsi_valid_blocks :: int
  dsi_allocation :: draft_host_allocation

definition valid_blocks_match :: "draft_snapshot_identity \<Rightarrow> bool" where
  "valid_blocks_match x \<longleftrightarrow> dsi_valid_blocks x =
     (dsi_logical_kv_len x + dha_block_size (dsi_allocation x) - 1) div dha_block_size (dsi_allocation x)"

definition check_draft_snapshot_identity :: "draft_snapshot_identity \<Rightarrow> unit result" where
  "check_draft_snapshot_identity x = checks
     [check_id U32 (dsi_request_slot x), check_id U32 (dsi_worker_id x),
      check_id U32 (dsi_logical_kv_len x), check_id U32 (dsi_valid_blocks x),
      check_id U64 (dsi_request_epoch x), check_id U64 (dsi_round_id x),
      check_id U64 (dsi_op_seq x), check_id U64 (dsi_worker_generation x),
      check_id U64 (dsi_owner_epoch x), check_id U64 (dsi_snapshot_version x),
      require (valid_blocks_match x) (ValueError ''snapshot valid blocks do not match actual KV length''),
      require (dsi_valid_blocks x \<le> dha_capacity_blocks (dsi_allocation x)) (ValueError ''snapshot exceeds HostKV allocation'')]"

definition validate_expected :: "draft_snapshot_identity \<Rightarrow> draft_snapshot_identity \<Rightarrow> unit result" where
  "validate_expected x expected =
     require (x = expected) (ValueError ''stale Draft snapshot/request/owner/allocation identity'')"

definition draft_snapshot_identity_ok :: "draft_snapshot_identity \<Rightarrow> bool" where
  "draft_snapshot_identity_ok x \<longleftrightarrow>
     check_draft_snapshot_identity x = Inr () \<and> draft_host_allocation_ok (dsi_allocation x)"

definition identity_to_bytes :: "draft_snapshot_identity \<Rightarrow> bytes result" where
  "identity_to_bytes x = concat_r
     [pack_uint 4 (dsi_request_slot x), pack_uint 8 (dsi_request_epoch x),
      pack_uint 8 (dsi_round_id x), pack_uint 8 (dsi_op_seq x), pack_uint 4 (dsi_worker_id x),
      pack_uint 8 (dsi_worker_generation x), pack_uint 8 (dsi_owner_epoch x),
      pack_uint 8 (dsi_snapshot_version x), pack_uint 4 (dsi_logical_kv_len x),
      pack_uint 4 (dsi_valid_blocks x), allocation_to_bytes (dsi_allocation x)]"

definition rd_identity :: "payload_reader \<Rightarrow> (draft_snapshot_identity \<times> payload_reader) result" where
  "rd_identity r =
     bind_r (rd_u32 r) (\<lambda>(v1, r). bind_r (rd_u64 r) (\<lambda>(v2, r). bind_r (rd_u64 r) (\<lambda>(v3, r).
     bind_r (rd_u64 r) (\<lambda>(v4, r). bind_r (rd_u32 r) (\<lambda>(v5, r). bind_r (rd_u64 r) (\<lambda>(v6, r).
     bind_r (rd_u64 r) (\<lambda>(v7, r). bind_r (rd_u64 r) (\<lambda>(v8, r). bind_r (rd_u32 r) (\<lambda>(v9, r).
     bind_r (rd_u32 r) (\<lambda>(v10, r). bind_r (rd_allocation r) (\<lambda>(v11, r).
       let x = \<lparr>dsi_request_slot = v1, dsi_request_epoch = v2, dsi_round_id = v3,
               dsi_op_seq = v4, dsi_worker_id = v5, dsi_worker_generation = v6,
               dsi_owner_epoch = v7, dsi_snapshot_version = v8, dsi_logical_kv_len = v9,
               dsi_valid_blocks = v10, dsi_allocation = v11\<rparr>
       in bind_r (check_draft_snapshot_identity x) (\<lambda>_. Inr (x, r)))))))))))))"

definition identity_from_bytes :: "bytes \<Rightarrow> draft_snapshot_identity result" where
  "identity_from_bytes raw = bind_r (require (length raw = 120) (ValueError ''invalid snapshot identity size''))
     (\<lambda>_. bind_r (rd_identity (new_reader raw)) (\<lambda>(x, _). Inr x))"

text \<open>The abstraction of an encoding by what the reader sees, as for handles.\<close>

lemma rd_allocation_sees:
  assumes "draft_host_allocation_ok a" "allocation_to_bytes a = Inr bs" "sees r bs"
  shows "rd_allocation r = Inr (a, skip 56 r)"
  using draft_host_allocation_codec.decodes [OF assms] length_allocation_bytes [OF assms(2)] by simp

interpretation draft_snapshot_identity_codec: codec draft_snapshot_identity_ok identity_to_bytes rd_identity
proof
  fix x :: draft_snapshot_identity and bs r
  assume ok: "draft_snapshot_identity_ok x"
  then obtain ab where ab: "allocation_to_bytes (dsi_allocation x) = Inr ab"
    and aok: "draft_host_allocation_ok (dsi_allocation x)"
    using draft_host_allocation_codec.encodes by (auto simp: draft_snapshot_identity_ok_def)
  from ok ab show "\<exists>bs. identity_to_bytes x = Inr bs"
    by (auto simp: identity_to_bytes_def draft_snapshot_identity_ok_def check_draft_snapshot_identity_def
        wire_simps sees_append simp del: wire_del)
  show "identity_to_bytes x = Inr bs \<Longrightarrow> sees r bs \<Longrightarrow> rd_identity r = Inr (x, skip (length bs) r)"
    using ok ab aok rd_allocation_sees [OF aok ab] length_allocation_bytes [OF ab]
    by (cases x) (auto simp: identity_to_bytes_def rd_identity_def draft_snapshot_identity_ok_def
        check_draft_snapshot_identity_def wire_simps sees_append Let_def simp del: wire_del)
qed

lemma length_identity_bytes: "identity_to_bytes x = Inr bs \<Longrightarrow> length bs = 120"
  by (auto simp: identity_to_bytes_def wire_simps length_allocation_bytes simp del: concat_r.simps)

lemma identity_roundtrip:
  "draft_snapshot_identity_ok x \<Longrightarrow> identity_to_bytes x = Inr bs \<Longrightarrow> identity_from_bytes bs = Inr x"
  using draft_snapshot_identity_codec.decodes [of x bs "new_reader bs"] sees_new_reader length_identity_bytes
  by (simp add: identity_from_bytes_def)

section \<open>Snapshot\<close>

record draft_snapshot =
  ds_identity :: draft_snapshot_identity
  ds_prompt_handle :: arena_handle
  ds_generation_config_handle :: arena_handle
  ds_committed_output_handle :: arena_handle
  ds_proposal_handle :: arena_handle
  ds_prompt_count :: int
  ds_committed_output_count :: int
  ds_proposal_count :: int

definition check_draft_snapshot :: "draft_snapshot \<Rightarrow> unit result" where
  "check_draft_snapshot x = checks
     [check_id U32 (ds_prompt_count x),
      require (ds_prompt_count x \<noteq> 0) (ValueError ''completed Draft snapshot requires prompt, output anchor and proposal''),
      check_id U32 (ds_committed_output_count x),
      require (ds_committed_output_count x \<noteq> 0) (ValueError ''completed Draft snapshot requires prompt, output anchor and proposal''),
      check_id U32 (ds_proposal_count x),
      require (ds_proposal_count x \<noteq> 0) (ValueError ''completed Draft snapshot requires prompt, output anchor and proposal''),
      require_handle (ds_prompt_handle x), require_handle (ds_generation_config_handle x),
      require_handle (ds_committed_output_handle x), require_handle (ds_proposal_handle x),
      require (h_length (ds_prompt_handle x) = ds_prompt_count x * 4
               \<and> h_length (ds_committed_output_handle x) = ds_committed_output_count x * 4)
        (ValueError ''snapshot token handle/count mismatch''),
      require (dsi_logical_kv_len (ds_identity x) =
               ds_prompt_count x + ds_committed_output_count x + ds_proposal_count x - 1)
        (ValueError ''snapshot must describe P + C + Q[:-1]'')]"

definition draft_snapshot_ok :: "draft_snapshot \<Rightarrow> bool" where
  "draft_snapshot_ok x \<longleftrightarrow> check_draft_snapshot x = Inr () \<and> draft_snapshot_identity_ok (ds_identity x)
     \<and> handle_ok (ds_prompt_handle x) \<and> handle_ok (ds_generation_config_handle x)
     \<and> handle_ok (ds_committed_output_handle x) \<and> handle_ok (ds_proposal_handle x)"

definition snapshot_to_bytes :: "draft_snapshot \<Rightarrow> bytes result" where
  "snapshot_to_bytes x = concat_r
     [pack_uint 4 1, pack_uint 4 (ds_prompt_count x), pack_uint 4 (ds_committed_output_count x),
      pack_uint 4 (ds_proposal_count x), identity_to_bytes (ds_identity x),
      pack_handle (ds_prompt_handle x), pack_handle (ds_generation_config_handle x),
      pack_handle (ds_committed_output_handle x), pack_handle (ds_proposal_handle x)]"

definition rd_snapshot :: "payload_reader \<Rightarrow> (draft_snapshot \<times> payload_reader) result" where
  "rd_snapshot r =
     bind_r (rd_u32 r) (\<lambda>(version, r). bind_r (rd_u32 r) (\<lambda>(prompt, r). bind_r (rd_u32 r) (\<lambda>(committed, r).
     bind_r (rd_u32 r) (\<lambda>(proposal, r).
     bind_r (require (version = 1) (ValueError ''invalid Draft snapshot version'')) (\<lambda>_.
     bind_r (rd_identity r) (\<lambda>(identity, r).
     bind_r (rd_handle r) (\<lambda>(h1, r). bind_r (rd_handle r) (\<lambda>(h2, r).
     bind_r (rd_handle r) (\<lambda>(h3, r). bind_r (rd_handle r) (\<lambda>(h4, r).
       let x = \<lparr>ds_identity = identity, ds_prompt_handle = h1, ds_generation_config_handle = h2,
                ds_committed_output_handle = h3, ds_proposal_handle = h4, ds_prompt_count = prompt,
                ds_committed_output_count = committed, ds_proposal_count = proposal\<rparr>
       in bind_r (check_draft_snapshot x) (\<lambda>_. Inr (x, r))))))))))))"

definition snapshot_from_bytes :: "bytes \<Rightarrow> draft_snapshot result" where
  "snapshot_from_bytes raw = bind_r (require (length raw = 200) (ValueError ''invalid Draft snapshot size''))
     (\<lambda>_. bind_r (rd_snapshot (new_reader raw)) (\<lambda>(x, _). Inr x))"

definition require_snapshot_handle :: "arena_handle \<Rightarrow> unit result" where
  "require_snapshot_handle h = checks
     [require_handle h,
      require (h_length h = 200) (ValueError ''snapshot handle must reference exactly one fixed metadata record'')]"

lemma rd_identity_sees:
  assumes "draft_snapshot_identity_ok a" "identity_to_bytes a = Inr bs" "sees r bs"
  shows "rd_identity r = Inr (a, skip 120 r)"
  using draft_snapshot_identity_codec.decodes [OF assms] length_identity_bytes [OF assms(2)] by simp

interpretation draft_snapshot_codec: codec draft_snapshot_ok snapshot_to_bytes rd_snapshot
proof
  fix x :: draft_snapshot and bs r
  assume ok: "draft_snapshot_ok x"
  then obtain ib where ib: "identity_to_bytes (ds_identity x) = Inr ib"
    and iok: "draft_snapshot_identity_ok (ds_identity x)"
    using draft_snapshot_identity_codec.encodes by (auto simp: draft_snapshot_ok_def)
  have one: "is_valid U32 1" by simp
  from ok ib one show "\<exists>bs. snapshot_to_bytes x = Inr bs"
    by (auto simp: snapshot_to_bytes_def draft_snapshot_ok_def check_draft_snapshot_def
        wire_simps sees_append simp del: wire_del)
  show "snapshot_to_bytes x = Inr bs \<Longrightarrow> sees r bs \<Longrightarrow> rd_snapshot r = Inr (x, skip (length bs) r)"
    using ok ib iok one rd_identity_sees [OF iok ib] length_identity_bytes [OF ib]
    by (cases x) (auto simp: snapshot_to_bytes_def rd_snapshot_def draft_snapshot_ok_def
        check_draft_snapshot_def wire_simps sees_append Let_def simp del: wire_del)
qed

lemma length_snapshot_bytes: "draft_snapshot_ok x \<Longrightarrow> snapshot_to_bytes x = Inr bs \<Longrightarrow> length bs = 200"
  by (auto simp: snapshot_to_bytes_def draft_snapshot_ok_def check_draft_snapshot_def
      wire_simps length_identity_bytes simp del: wire_del)

end
