(* ===== verification/ProtocolRows.thy ===== *)
theory ProtocolRows
  imports Wire
begin

text \<open>
  The rows of \<open>ipc/protocol.py\<close>: one record per frozen dataclass, its \<open>__post_init__\<close> as
  \<open>check_...\<close>, and the pair of encoder and reader of each row. Every pair interprets the codec
  contract of \<open>Wire\<close> on the rows that pass their checks.
\<close>

text \<open>\<open>_request_key\<close> of any row is the pair of slot and epoch.\<close>

type_synonym request_key = "int \<times> int"

section \<open>Owned handles\<close>

record owned_arena_handle =
  oh_owner_worker_id :: int
  oh_owner_generation :: int
  oh_handle :: arena_handle

definition check_owned_arena_handle :: "owned_arena_handle \<Rightarrow> unit result" where
  "check_owned_arena_handle x = checks
     [check_id U32 (oh_owner_worker_id x), check_id U64 (oh_owner_generation x)]"

definition owned_handle_ok :: "owned_arena_handle \<Rightarrow> bool" where
  "owned_handle_ok x \<longleftrightarrow> check_owned_arena_handle x = Inr ()
     \<and> handle_ok (oh_handle x)"

definition enc_owned_handle :: "owned_arena_handle \<Rightarrow> bytes result" where
  "enc_owned_handle x = concat_r
     [enc_u32 (oh_owner_worker_id x), enc_u64 (oh_owner_generation x), enc_handle (oh_handle x)]"

definition rd_owned_handle :: "payload_reader \<Rightarrow> (owned_arena_handle \<times> payload_reader) result" where
  "rd_owned_handle r =
     bind_r (rd_u32 r) (\<lambda>(v1, r). bind_r (rd_u64 r) (\<lambda>(v2, r). bind_r (rd_handle r) (\<lambda>(v3, r).
       let x = \<lparr>oh_owner_worker_id = v1, oh_owner_generation = v2, oh_handle = v3\<rparr>
       in bind_r (check_owned_arena_handle x) (\<lambda>_. Inr (x, r)))))"

interpretation owned_arena_handle_codec: codec owned_handle_ok enc_owned_handle rd_owned_handle
proof
  fix x :: owned_arena_handle and bs r
  assume ok: "owned_handle_ok x"
  then show "\<exists>bs. enc_owned_handle x = Inr bs"
    by (auto simp: enc_owned_handle_def owned_handle_ok_def check_owned_arena_handle_def wire_simps sees_append simp del: wire_del)
  show "enc_owned_handle x = Inr bs \<Longrightarrow> sees r bs \<Longrightarrow> rd_owned_handle r = Inr (x, skip (length bs) r)"
    using ok by (cases x) (auto simp: enc_owned_handle_def rd_owned_handle_def owned_handle_ok_def check_owned_arena_handle_def wire_simps sees_append Let_def
      simp del: wire_del)
qed

section \<open>Removed requests\<close>

record removed_request =
  rr_request_slot :: int
  rr_request_epoch :: int

definition check_removed_request :: "removed_request \<Rightarrow> unit result" where
  "check_removed_request x = checks
     [check_id U32 (rr_request_slot x), check_id U64 (rr_request_epoch x)]"

definition removed_request_ok :: "removed_request \<Rightarrow> bool" where
  "removed_request_ok x \<longleftrightarrow> check_removed_request x = Inr ()"

definition enc_removed_request :: "removed_request \<Rightarrow> bytes result" where
  "enc_removed_request x = concat_r
     [enc_u32 (rr_request_slot x), enc_u64 (rr_request_epoch x)]"

definition rd_removed_request :: "payload_reader \<Rightarrow> (removed_request \<times> payload_reader) result" where
  "rd_removed_request r =
     bind_r (rd_u32 r) (\<lambda>(v1, r). bind_r (rd_u64 r) (\<lambda>(v2, r).
       let x = \<lparr>rr_request_slot = v1, rr_request_epoch = v2\<rparr>
       in bind_r (check_removed_request x) (\<lambda>_. Inr (x, r))))"

interpretation removed_request_codec: codec removed_request_ok enc_removed_request rd_removed_request
proof
  fix x :: removed_request and bs r
  assume ok: "removed_request_ok x"
  then show "\<exists>bs. enc_removed_request x = Inr bs"
    by (auto simp: enc_removed_request_def removed_request_ok_def check_removed_request_def wire_simps sees_append simp del: wire_del)
  show "enc_removed_request x = Inr bs \<Longrightarrow> sees r bs \<Longrightarrow> rd_removed_request r = Inr (x, skip (length bs) r)"
    using ok by (cases x) (auto simp: enc_removed_request_def rd_removed_request_def removed_request_ok_def check_removed_request_def wire_simps sees_append Let_def
      simp del: wire_del)
qed

section \<open>New requests\<close>

record new_request_data =
  nr_request_slot :: int
  nr_request_epoch :: int
  nr_round_id :: int
  nr_op_seq :: int
  nr_scheduled_token_count :: int
  nr_input_tokens_handle :: arena_handle
  nr_initial_output_tokens_handle :: arena_handle
  nr_generation_config_handle :: arena_handle
  nr_initial_kv_handle :: arena_handle

definition check_new_request_data :: "new_request_data \<Rightarrow> unit result" where
  "check_new_request_data x = checks
     [check_id U32 (nr_request_slot x), check_id U64 (nr_request_epoch x),
      check_id U64 (nr_round_id x), check_id U64 (nr_op_seq x),
      check_id U32 (nr_scheduled_token_count x)]"

definition new_request_data_ok :: "new_request_data \<Rightarrow> bool" where
  "new_request_data_ok x \<longleftrightarrow> check_new_request_data x = Inr ()
     \<and> handle_ok (nr_input_tokens_handle x) \<and> handle_ok (nr_initial_output_tokens_handle x)
     \<and> handle_ok (nr_generation_config_handle x) \<and> handle_ok (nr_initial_kv_handle x)"

definition enc_new_request :: "new_request_data \<Rightarrow> bytes result" where
  "enc_new_request x = concat_r
     [enc_u32 (nr_request_slot x), enc_u64 (nr_request_epoch x), enc_u64 (nr_round_id x),
      enc_u64 (nr_op_seq x), enc_u32 (nr_scheduled_token_count x),
      enc_handle (nr_input_tokens_handle x), enc_handle (nr_initial_output_tokens_handle x),
      enc_handle (nr_generation_config_handle x), enc_handle (nr_initial_kv_handle x)]"

definition rd_new_request :: "payload_reader \<Rightarrow> (new_request_data \<times> payload_reader) result" where
  "rd_new_request r =
     bind_r (rd_u32 r) (\<lambda>(v1, r). bind_r (rd_u64 r) (\<lambda>(v2, r). bind_r (rd_u64 r) (\<lambda>(v3, r).
     bind_r (rd_u64 r) (\<lambda>(v4, r). bind_r (rd_u32 r) (\<lambda>(v5, r). bind_r (rd_handle r) (\<lambda>(v6, r).
     bind_r (rd_handle r) (\<lambda>(v7, r). bind_r (rd_handle r) (\<lambda>(v8, r). bind_r (rd_handle r) (\<lambda>(v9, r).
       let x = \<lparr>nr_request_slot = v1, nr_request_epoch = v2, nr_round_id = v3, nr_op_seq = v4,
               nr_scheduled_token_count = v5, nr_input_tokens_handle = v6,
               nr_initial_output_tokens_handle = v7, nr_generation_config_handle = v8,
               nr_initial_kv_handle = v9\<rparr>
       in bind_r (check_new_request_data x) (\<lambda>_. Inr (x, r)))))))))))"

interpretation new_request_data_codec: codec new_request_data_ok enc_new_request rd_new_request
proof
  fix x :: new_request_data and bs r
  assume ok: "new_request_data_ok x"
  then show "\<exists>bs. enc_new_request x = Inr bs"
    by (auto simp: enc_new_request_def new_request_data_ok_def check_new_request_data_def wire_simps sees_append simp del: wire_del)
  show "enc_new_request x = Inr bs \<Longrightarrow> sees r bs \<Longrightarrow> rd_new_request r = Inr (x, skip (length bs) r)"
    using ok by (cases x) (auto simp: enc_new_request_def rd_new_request_def new_request_data_ok_def check_new_request_data_def wire_simps sees_append Let_def
      simp del: wire_del)
qed

section \<open>Cached deltas\<close>

record cached_request_delta =
  cd_request_slot :: int
  cd_request_epoch :: int
  cd_round_id :: int
  cd_op_seq :: int
  cd_token_delta_handle :: arena_handle
  cd_proposal_handle :: arena_handle
  cd_hostkv_handle :: hostkv_handle
  cd_target_bank_mapping_handle :: arena_handle
  cd_scheduled_token_count :: int

definition check_cached_request_delta :: "cached_request_delta \<Rightarrow> unit result" where
  "check_cached_request_delta x = checks
     [check_id U32 (cd_request_slot x), check_id U64 (cd_request_epoch x),
      check_id U64 (cd_round_id x), check_id U64 (cd_op_seq x),
      check_id U32 (cd_scheduled_token_count x)]"

definition cached_request_delta_ok :: "cached_request_delta \<Rightarrow> bool" where
  "cached_request_delta_ok x \<longleftrightarrow> check_cached_request_delta x = Inr ()
     \<and> handle_ok (cd_token_delta_handle x) \<and> handle_ok (cd_proposal_handle x)
     \<and> hostkv_handle_ok (cd_hostkv_handle x) \<and> handle_ok (cd_target_bank_mapping_handle x)"

definition enc_cached_delta :: "cached_request_delta \<Rightarrow> bytes result" where
  "enc_cached_delta x = concat_r
     [enc_u32 (cd_request_slot x), enc_u64 (cd_request_epoch x), enc_u64 (cd_round_id x),
      enc_u64 (cd_op_seq x), enc_handle (cd_token_delta_handle x),
      enc_handle (cd_proposal_handle x), enc_hostkv_handle (cd_hostkv_handle x),
      enc_handle (cd_target_bank_mapping_handle x), enc_u32 (cd_scheduled_token_count x)]"

definition rd_cached_delta :: "payload_reader \<Rightarrow> (cached_request_delta \<times> payload_reader) result" where
  "rd_cached_delta r =
     bind_r (rd_u32 r) (\<lambda>(v1, r). bind_r (rd_u64 r) (\<lambda>(v2, r). bind_r (rd_u64 r) (\<lambda>(v3, r).
     bind_r (rd_u64 r) (\<lambda>(v4, r). bind_r (rd_handle r) (\<lambda>(v5, r). bind_r (rd_handle r) (\<lambda>(v6, r).
     bind_r (rd_hostkv_handle r) (\<lambda>(v7, r). bind_r (rd_handle r) (\<lambda>(v8, r). bind_r (rd_u32 r) (\<lambda>(v9, r).
       let x = \<lparr>cd_request_slot = v1, cd_request_epoch = v2, cd_round_id = v3, cd_op_seq = v4,
               cd_token_delta_handle = v5, cd_proposal_handle = v6, cd_hostkv_handle = v7,
               cd_target_bank_mapping_handle = v8, cd_scheduled_token_count = v9\<rparr>
       in bind_r (check_cached_request_delta x) (\<lambda>_. Inr (x, r)))))))))))"

interpretation cached_request_delta_codec: codec cached_request_delta_ok enc_cached_delta rd_cached_delta
proof
  fix x :: cached_request_delta and bs r
  assume ok: "cached_request_delta_ok x"
  then show "\<exists>bs. enc_cached_delta x = Inr bs"
    by (auto simp: enc_cached_delta_def cached_request_delta_ok_def check_cached_request_delta_def wire_simps sees_append simp del: wire_del)
  show "enc_cached_delta x = Inr bs \<Longrightarrow> sees r bs \<Longrightarrow> rd_cached_delta r = Inr (x, skip (length bs) r)"
    using ok by (cases x) (auto simp: enc_cached_delta_def rd_cached_delta_def cached_request_delta_ok_def check_cached_request_delta_def wire_simps sees_append Let_def
      simp del: wire_del)
qed

section \<open>Target prefill\<close>

record target_prefill_request =
  tp_request_slot :: int
  tp_request_epoch :: int
  tp_round_id :: int
  tp_run_seq :: int
  tp_input_tokens_handle :: arena_handle
  tp_generation_config_handle :: arena_handle
  tp_scheduled_token_count :: int
  tp_max_output_len :: int
  tp_bank_id :: int
  tp_bank_epoch :: int
  tp_bank_offset_blocks :: int
  tp_block_count :: int

definition check_target_prefill_request :: "target_prefill_request \<Rightarrow> unit result" where
  "check_target_prefill_request x = checks
     [check_id U32 (tp_request_slot x), check_id U64 (tp_request_epoch x),
      check_id U64 (tp_round_id x), check_id U64 (tp_run_seq x),
      check_id U32 (tp_scheduled_token_count x), check_id U32 (tp_max_output_len x),
      check_id U8 (tp_bank_id x), check_id U64 (tp_bank_epoch x),
      check_id U32 (tp_bank_offset_blocks x), check_id U32 (tp_block_count x),
      require (tp_block_count x \<noteq> 0) (ValueError ''TargetPrefillRequest.block_count must be positive''),
      require (tp_max_output_len x \<noteq> 0) (ValueError ''TargetPrefillRequest.max_output_len must be positive'')]"

definition target_prefill_request_ok :: "target_prefill_request \<Rightarrow> bool" where
  "target_prefill_request_ok x \<longleftrightarrow> check_target_prefill_request x = Inr ()
     \<and> handle_ok (tp_input_tokens_handle x) \<and> handle_ok (tp_generation_config_handle x)"

definition enc_target_prefill_request :: "target_prefill_request \<Rightarrow> bytes result" where
  "enc_target_prefill_request x = concat_r
     [enc_u32 (tp_request_slot x), enc_u64 (tp_request_epoch x), enc_u64 (tp_round_id x),
      enc_u64 (tp_run_seq x), enc_handle (tp_input_tokens_handle x),
      enc_handle (tp_generation_config_handle x), enc_u32 (tp_scheduled_token_count x),
      enc_u32 (tp_max_output_len x), enc_u8 (tp_bank_id x), enc_u64 (tp_bank_epoch x),
      enc_u32 (tp_bank_offset_blocks x), enc_u32 (tp_block_count x)]"

definition rd_target_prefill_request :: "payload_reader \<Rightarrow> (target_prefill_request \<times> payload_reader) result" where
  "rd_target_prefill_request r =
     bind_r (rd_u32 r) (\<lambda>(v1, r). bind_r (rd_u64 r) (\<lambda>(v2, r). bind_r (rd_u64 r) (\<lambda>(v3, r).
     bind_r (rd_u64 r) (\<lambda>(v4, r). bind_r (rd_handle r) (\<lambda>(v5, r). bind_r (rd_handle r) (\<lambda>(v6, r).
     bind_r (rd_u32 r) (\<lambda>(v7, r). bind_r (rd_u32 r) (\<lambda>(v8, r). bind_r (rd_u8 r) (\<lambda>(v9, r).
     bind_r (rd_u64 r) (\<lambda>(v10, r). bind_r (rd_u32 r) (\<lambda>(v11, r). bind_r (rd_u32 r) (\<lambda>(v12, r).
       let x = \<lparr>tp_request_slot = v1, tp_request_epoch = v2, tp_round_id = v3, tp_run_seq = v4,
               tp_input_tokens_handle = v5, tp_generation_config_handle = v6,
               tp_scheduled_token_count = v7, tp_max_output_len = v8, tp_bank_id = v9,
               tp_bank_epoch = v10, tp_bank_offset_blocks = v11, tp_block_count = v12\<rparr>
       in bind_r (check_target_prefill_request x) (\<lambda>_. Inr (x, r))))))))))))))"

interpretation target_prefill_request_codec: codec target_prefill_request_ok enc_target_prefill_request rd_target_prefill_request
proof
  fix x :: target_prefill_request and bs r
  assume ok: "target_prefill_request_ok x"
  then show "\<exists>bs. enc_target_prefill_request x = Inr bs"
    by (auto simp: enc_target_prefill_request_def target_prefill_request_ok_def check_target_prefill_request_def wire_simps sees_append simp del: wire_del)
  show "enc_target_prefill_request x = Inr bs \<Longrightarrow> sees r bs \<Longrightarrow> rd_target_prefill_request r = Inr (x, skip (length bs) r)"
    using ok by (cases x) (auto simp: enc_target_prefill_request_def rd_target_prefill_request_def target_prefill_request_ok_def check_target_prefill_request_def wire_simps sees_append Let_def
      simp del: wire_del)
qed

section \<open>Bank allocations\<close>

record bank_allocation =
  ba_request_slot :: int
  ba_request_epoch :: int
  ba_bank_id :: int
  ba_bank_epoch :: int
  ba_offset_blocks :: int
  ba_block_count :: int

definition check_bank_allocation :: "bank_allocation \<Rightarrow> unit result" where
  "check_bank_allocation x = checks
     [check_id U32 (ba_request_slot x), check_id U64 (ba_request_epoch x),
      check_id U8 (ba_bank_id x), check_id U64 (ba_bank_epoch x),
      check_id U32 (ba_offset_blocks x), check_id U32 (ba_block_count x)]"

definition bank_allocation_ok :: "bank_allocation \<Rightarrow> bool" where
  "bank_allocation_ok x \<longleftrightarrow> check_bank_allocation x = Inr ()"

definition enc_bank_allocation :: "bank_allocation \<Rightarrow> bytes result" where
  "enc_bank_allocation x = concat_r
     [enc_u32 (ba_request_slot x), enc_u64 (ba_request_epoch x), enc_u8 (ba_bank_id x),
      enc_u64 (ba_bank_epoch x), enc_u32 (ba_offset_blocks x), enc_u32 (ba_block_count x)]"

definition rd_bank_allocation :: "payload_reader \<Rightarrow> (bank_allocation \<times> payload_reader) result" where
  "rd_bank_allocation r =
     bind_r (rd_u32 r) (\<lambda>(v1, r). bind_r (rd_u64 r) (\<lambda>(v2, r). bind_r (rd_u8 r) (\<lambda>(v3, r).
     bind_r (rd_u64 r) (\<lambda>(v4, r). bind_r (rd_u32 r) (\<lambda>(v5, r). bind_r (rd_u32 r) (\<lambda>(v6, r).
       let x = \<lparr>ba_request_slot = v1, ba_request_epoch = v2, ba_bank_id = v3, ba_bank_epoch = v4,
               ba_offset_blocks = v5, ba_block_count = v6\<rparr>
       in bind_r (check_bank_allocation x) (\<lambda>_. Inr (x, r))))))))"

interpretation bank_allocation_codec: codec bank_allocation_ok enc_bank_allocation rd_bank_allocation
proof
  fix x :: bank_allocation and bs r
  assume ok: "bank_allocation_ok x"
  then show "\<exists>bs. enc_bank_allocation x = Inr bs"
    by (auto simp: enc_bank_allocation_def bank_allocation_ok_def check_bank_allocation_def wire_simps sees_append simp del: wire_del)
  show "enc_bank_allocation x = Inr bs \<Longrightarrow> sees r bs \<Longrightarrow> rd_bank_allocation r = Inr (x, skip (length bs) r)"
    using ok by (cases x) (auto simp: enc_bank_allocation_def rd_bank_allocation_def bank_allocation_ok_def check_bank_allocation_def wire_simps sees_append Let_def
      simp del: wire_del)
qed

section \<open>HostKV sources\<close>

record hostkv_source =
  hs_request_slot :: int
  hs_request_epoch :: int
  hs_host_slot :: int
  hs_host_slot_generation :: int
  hs_source_host_version :: int

definition check_hostkv_source :: "hostkv_source \<Rightarrow> unit result" where
  "check_hostkv_source x = checks
     [check_id U32 (hs_request_slot x), check_id U64 (hs_request_epoch x),
      check_id U32 (hs_host_slot x), check_id U64 (hs_host_slot_generation x),
      check_id U64 (hs_source_host_version x)]"

definition hostkv_source_ok :: "hostkv_source \<Rightarrow> bool" where
  "hostkv_source_ok x \<longleftrightarrow> check_hostkv_source x = Inr ()"

definition enc_hostkv_source :: "hostkv_source \<Rightarrow> bytes result" where
  "enc_hostkv_source x = concat_r
     [enc_u32 (hs_request_slot x), enc_u64 (hs_request_epoch x), enc_u32 (hs_host_slot x),
      enc_u64 (hs_host_slot_generation x), enc_u64 (hs_source_host_version x)]"

definition rd_hostkv_source :: "payload_reader \<Rightarrow> (hostkv_source \<times> payload_reader) result" where
  "rd_hostkv_source r =
     bind_r (rd_u32 r) (\<lambda>(v1, r). bind_r (rd_u64 r) (\<lambda>(v2, r). bind_r (rd_u32 r) (\<lambda>(v3, r).
     bind_r (rd_u64 r) (\<lambda>(v4, r). bind_r (rd_u64 r) (\<lambda>(v5, r).
       let x = \<lparr>hs_request_slot = v1, hs_request_epoch = v2, hs_host_slot = v3,
               hs_host_slot_generation = v4, hs_source_host_version = v5\<rparr>
       in bind_r (check_hostkv_source x) (\<lambda>_. Inr (x, r)))))))"

interpretation hostkv_source_codec: codec hostkv_source_ok enc_hostkv_source rd_hostkv_source
proof
  fix x :: hostkv_source and bs r
  assume ok: "hostkv_source_ok x"
  then show "\<exists>bs. enc_hostkv_source x = Inr bs"
    by (auto simp: enc_hostkv_source_def hostkv_source_ok_def check_hostkv_source_def wire_simps sees_append simp del: wire_del)
  show "enc_hostkv_source x = Inr bs \<Longrightarrow> sees r bs \<Longrightarrow> rd_hostkv_source r = Inr (x, skip (length bs) r)"
    using ok by (cases x) (auto simp: enc_hostkv_source_def rd_hostkv_source_def hostkv_source_ok_def check_hostkv_source_def wire_simps sees_append Let_def
      simp del: wire_del)
qed

section \<open>Target prepare\<close>

record target_prepare_request =
  pp_request_slot :: int
  pp_request_epoch :: int
  pp_round_id :: int
  pp_op_seq :: int
  pp_committed_output_handle :: arena_handle
  pp_committed_output_count :: int
  pp_prompt_token_count :: int
  pp_generation_config_handle :: arena_handle
  pp_hostkv_handle :: hostkv_handle
  pp_host_slot :: int
  pp_host_slot_generation :: int
  pp_host_writer_lease_generation :: int
  pp_source_host_version :: int
  pp_logical_kv_len :: int
  pp_committed_blocks :: int
  pp_valid_blocks :: int
  pp_destination_bank_id :: int
  pp_destination_bank_epoch :: int
  pp_destination_bank_offset_blocks :: int
  pp_destination_capacity_blocks :: int

definition check_target_prepare_request :: "target_prepare_request \<Rightarrow> unit result" where
  "check_target_prepare_request x = checks
     [check_id U32 (pp_request_slot x), check_id U64 (pp_request_epoch x),
      check_id U64 (pp_round_id x), check_id U64 (pp_op_seq x),
      check_id U32 (pp_committed_output_count x), check_id U32 (pp_prompt_token_count x),
      check_id U32 (pp_host_slot x), check_id U64 (pp_host_slot_generation x),
      check_id U64 (pp_host_writer_lease_generation x), check_id U64 (pp_source_host_version x),
      check_id U32 (pp_logical_kv_len x), check_id U32 (pp_committed_blocks x),
      check_id U32 (pp_valid_blocks x), check_id U8 (pp_destination_bank_id x),
      check_id U64 (pp_destination_bank_epoch x),
      check_id U32 (pp_destination_bank_offset_blocks x),
      check_id U32 (pp_destination_capacity_blocks x),
      require (pp_destination_capacity_blocks x \<noteq> 0) (ValueError ''destination_capacity_blocks must be positive''),
      require (pp_valid_blocks x \<le> pp_destination_capacity_blocks x) (ValueError ''valid_blocks cannot exceed destination capacity''),
      require (pp_committed_blocks x \<le> pp_valid_blocks x) (ValueError ''committed_blocks cannot exceed valid_blocks''),
      require (pp_committed_blocks x \<le> hk_block_count (pp_hostkv_handle x)) (ValueError ''hostkv_handle is shorter than committed blocks'')]"

definition target_prepare_request_ok :: "target_prepare_request \<Rightarrow> bool" where
  "target_prepare_request_ok x \<longleftrightarrow> check_target_prepare_request x = Inr ()
     \<and> handle_ok (pp_committed_output_handle x) \<and> handle_ok (pp_generation_config_handle x)
     \<and> hostkv_handle_ok (pp_hostkv_handle x)"

definition enc_target_prepare_request :: "target_prepare_request \<Rightarrow> bytes result" where
  "enc_target_prepare_request x = concat_r
     [enc_u32 (pp_request_slot x), enc_u64 (pp_request_epoch x), enc_u64 (pp_round_id x),
      enc_u64 (pp_op_seq x), enc_handle (pp_committed_output_handle x),
      enc_u32 (pp_committed_output_count x), enc_u32 (pp_prompt_token_count x),
      enc_handle (pp_generation_config_handle x), enc_hostkv_handle (pp_hostkv_handle x),
      enc_u32 (pp_host_slot x), enc_u64 (pp_host_slot_generation x),
      enc_u64 (pp_host_writer_lease_generation x), enc_u64 (pp_source_host_version x),
      enc_u32 (pp_logical_kv_len x), enc_u32 (pp_committed_blocks x),
      enc_u32 (pp_valid_blocks x), enc_u8 (pp_destination_bank_id x),
      enc_u64 (pp_destination_bank_epoch x), enc_u32 (pp_destination_bank_offset_blocks x),
      enc_u32 (pp_destination_capacity_blocks x)]"

definition rd_target_prepare_request :: "payload_reader \<Rightarrow> (target_prepare_request \<times> payload_reader) result" where
  "rd_target_prepare_request r =
     bind_r (rd_u32 r) (\<lambda>(v1, r). bind_r (rd_u64 r) (\<lambda>(v2, r). bind_r (rd_u64 r) (\<lambda>(v3, r).
     bind_r (rd_u64 r) (\<lambda>(v4, r). bind_r (rd_handle r) (\<lambda>(v5, r). bind_r (rd_u32 r) (\<lambda>(v6, r).
     bind_r (rd_u32 r) (\<lambda>(v7, r). bind_r (rd_handle r) (\<lambda>(v8, r). bind_r (rd_hostkv_handle r) (\<lambda>(v9, r).
     bind_r (rd_u32 r) (\<lambda>(v10, r). bind_r (rd_u64 r) (\<lambda>(v11, r). bind_r (rd_u64 r) (\<lambda>(v12, r).
     bind_r (rd_u64 r) (\<lambda>(v13, r). bind_r (rd_u32 r) (\<lambda>(v14, r). bind_r (rd_u32 r) (\<lambda>(v15, r).
     bind_r (rd_u32 r) (\<lambda>(v16, r). bind_r (rd_u8 r) (\<lambda>(v17, r). bind_r (rd_u64 r) (\<lambda>(v18, r).
     bind_r (rd_u32 r) (\<lambda>(v19, r). bind_r (rd_u32 r) (\<lambda>(v20, r).
       let x = \<lparr>pp_request_slot = v1, pp_request_epoch = v2, pp_round_id = v3, pp_op_seq = v4,
               pp_committed_output_handle = v5, pp_committed_output_count = v6,
               pp_prompt_token_count = v7, pp_generation_config_handle = v8,
               pp_hostkv_handle = v9, pp_host_slot = v10, pp_host_slot_generation = v11,
               pp_host_writer_lease_generation = v12, pp_source_host_version = v13,
               pp_logical_kv_len = v14, pp_committed_blocks = v15, pp_valid_blocks = v16,
               pp_destination_bank_id = v17, pp_destination_bank_epoch = v18,
               pp_destination_bank_offset_blocks = v19, pp_destination_capacity_blocks = v20\<rparr>
       in bind_r (check_target_prepare_request x) (\<lambda>_. Inr (x, r))))))))))))))))))))))"

interpretation target_prepare_request_codec: codec target_prepare_request_ok enc_target_prepare_request rd_target_prepare_request
proof
  fix x :: target_prepare_request and bs r
  assume ok: "target_prepare_request_ok x"
  then show "\<exists>bs. enc_target_prepare_request x = Inr bs"
    by (auto simp: enc_target_prepare_request_def target_prepare_request_ok_def check_target_prepare_request_def wire_simps sees_append simp del: wire_del)
  show "enc_target_prepare_request x = Inr bs \<Longrightarrow> sees r bs \<Longrightarrow> rd_target_prepare_request r = Inr (x, skip (length bs) r)"
    using ok by (cases x) (auto simp: enc_target_prepare_request_def rd_target_prepare_request_def target_prepare_request_ok_def check_target_prepare_request_def wire_simps sees_append Let_def
      simp del: wire_del)
qed

section \<open>Target run rows\<close>

record run_target_request =
  rt_request_slot :: int
  rt_request_epoch :: int
  rt_round_id :: int
  rt_run_seq :: int
  rt_proposal_handle :: arena_handle
  rt_output_handle :: arena_handle

definition check_run_target_request :: "run_target_request \<Rightarrow> unit result" where
  "check_run_target_request x = checks
     [check_id U32 (rt_request_slot x), check_id U64 (rt_request_epoch x),
      check_id U64 (rt_round_id x), check_id U64 (rt_run_seq x)]"

definition run_target_request_ok :: "run_target_request \<Rightarrow> bool" where
  "run_target_request_ok x \<longleftrightarrow> check_run_target_request x = Inr ()
     \<and> handle_ok (rt_proposal_handle x) \<and> handle_ok (rt_output_handle x)"

definition enc_run_target_row :: "run_target_request \<Rightarrow> bytes result" where
  "enc_run_target_row x = concat_r
     [enc_u32 (rt_request_slot x), enc_u64 (rt_request_epoch x), enc_u64 (rt_round_id x),
      enc_u64 (rt_run_seq x), enc_handle (rt_proposal_handle x), enc_handle (rt_output_handle x)]"

definition rd_run_target_row :: "payload_reader \<Rightarrow> (run_target_request \<times> payload_reader) result" where
  "rd_run_target_row r =
     bind_r (rd_u32 r) (\<lambda>(v1, r). bind_r (rd_u64 r) (\<lambda>(v2, r). bind_r (rd_u64 r) (\<lambda>(v3, r).
     bind_r (rd_u64 r) (\<lambda>(v4, r). bind_r (rd_handle r) (\<lambda>(v5, r). bind_r (rd_handle r) (\<lambda>(v6, r).
       let x = \<lparr>rt_request_slot = v1, rt_request_epoch = v2, rt_round_id = v3, rt_run_seq = v4,
               rt_proposal_handle = v5, rt_output_handle = v6\<rparr>
       in bind_r (check_run_target_request x) (\<lambda>_. Inr (x, r))))))))"

interpretation run_target_request_codec: codec run_target_request_ok enc_run_target_row rd_run_target_row
proof
  fix x :: run_target_request and bs r
  assume ok: "run_target_request_ok x"
  then show "\<exists>bs. enc_run_target_row x = Inr bs"
    by (auto simp: enc_run_target_row_def run_target_request_ok_def check_run_target_request_def wire_simps sees_append simp del: wire_del)
  show "enc_run_target_row x = Inr bs \<Longrightarrow> sees r bs \<Longrightarrow> rd_run_target_row r = Inr (x, skip (length bs) r)"
    using ok by (cases x) (auto simp: enc_run_target_row_def rd_run_target_row_def run_target_request_ok_def check_run_target_request_def wire_simps sees_append Let_def
      simp del: wire_del)
qed

section \<open>Target verify rows\<close>

record target_verify_request =
  tv_request_slot :: int
  tv_request_epoch :: int
  tv_round_id :: int
  tv_run_seq :: int
  tv_proposal_handle :: owned_arena_handle
  tv_committed_output_handle :: arena_handle
  tv_committed_output_count :: int
  tv_prompt_token_count :: int
  tv_generation_config_handle :: arena_handle
  tv_bank_id :: int
  tv_bank_epoch :: int
  tv_bank_offset_blocks :: int
  tv_block_count :: int

definition check_target_verify_request :: "target_verify_request \<Rightarrow> unit result" where
  "check_target_verify_request x = checks
     [check_id U32 (tv_request_slot x), check_id U64 (tv_request_epoch x),
      check_id U64 (tv_round_id x), check_id U64 (tv_run_seq x),
      check_id U32 (tv_committed_output_count x), check_id U32 (tv_prompt_token_count x),
      check_id U8 (tv_bank_id x), check_id U64 (tv_bank_epoch x),
      check_id U32 (tv_bank_offset_blocks x), check_id U32 (tv_block_count x),
      require (tv_block_count x \<noteq> 0) (ValueError ''TargetVerifyRequest.block_count must be positive'')]"

definition target_verify_request_ok :: "target_verify_request \<Rightarrow> bool" where
  "target_verify_request_ok x \<longleftrightarrow> check_target_verify_request x = Inr ()
     \<and> owned_handle_ok (tv_proposal_handle x) \<and> handle_ok (tv_committed_output_handle x)
     \<and> handle_ok (tv_generation_config_handle x)"

definition enc_target_verify_row :: "target_verify_request \<Rightarrow> bytes result" where
  "enc_target_verify_row x = concat_r
     [enc_u32 (tv_request_slot x), enc_u64 (tv_request_epoch x), enc_u64 (tv_round_id x),
      enc_u64 (tv_run_seq x), enc_owned_handle (tv_proposal_handle x),
      enc_handle (tv_committed_output_handle x), enc_u32 (tv_committed_output_count x),
      enc_u32 (tv_prompt_token_count x), enc_handle (tv_generation_config_handle x),
      enc_u8 (tv_bank_id x), enc_u64 (tv_bank_epoch x), enc_u32 (tv_bank_offset_blocks x),
      enc_u32 (tv_block_count x)]"

definition rd_target_verify_row :: "payload_reader \<Rightarrow> (target_verify_request \<times> payload_reader) result" where
  "rd_target_verify_row r =
     bind_r (rd_u32 r) (\<lambda>(v1, r). bind_r (rd_u64 r) (\<lambda>(v2, r). bind_r (rd_u64 r) (\<lambda>(v3, r).
     bind_r (rd_u64 r) (\<lambda>(v4, r). bind_r (rd_owned_handle r) (\<lambda>(v5, r). bind_r (rd_handle r) (\<lambda>(v6, r).
     bind_r (rd_u32 r) (\<lambda>(v7, r). bind_r (rd_u32 r) (\<lambda>(v8, r). bind_r (rd_handle r) (\<lambda>(v9, r).
     bind_r (rd_u8 r) (\<lambda>(v10, r). bind_r (rd_u64 r) (\<lambda>(v11, r). bind_r (rd_u32 r) (\<lambda>(v12, r).
     bind_r (rd_u32 r) (\<lambda>(v13, r).
       let x = \<lparr>tv_request_slot = v1, tv_request_epoch = v2, tv_round_id = v3, tv_run_seq = v4,
               tv_proposal_handle = v5, tv_committed_output_handle = v6,
               tv_committed_output_count = v7, tv_prompt_token_count = v8,
               tv_generation_config_handle = v9, tv_bank_id = v10, tv_bank_epoch = v11,
               tv_bank_offset_blocks = v12, tv_block_count = v13\<rparr>
       in bind_r (check_target_verify_request x) (\<lambda>_. Inr (x, r)))))))))))))))"

lemma length_owned_handle: "enc_owned_handle x = Inr bs \<Longrightarrow> length bs = 28"
  by (auto simp: enc_owned_handle_def wire_simps simp del: wire_del)

interpretation target_verify_request_codec: codec target_verify_request_ok enc_target_verify_row rd_target_verify_row
proof
  fix x :: target_verify_request and bs r
  assume ok: "target_verify_request_ok x"
  then have oh: "owned_handle_ok (tv_proposal_handle x)" by (simp add: target_verify_request_ok_def)
  then obtain ob where ob: "enc_owned_handle (tv_proposal_handle x) = Inr ob"
    using owned_arena_handle_codec.encodes by blast
  have rd: "rd_owned_handle r' = Inr (tv_proposal_handle x, skip 28 r')" if "sees r' ob" for r'
    using owned_arena_handle_codec.decodes [OF oh ob that] length_owned_handle [OF ob] by simp
  from ok ob show "\<exists>bs. enc_target_verify_row x = Inr bs"
    by (auto simp: enc_target_verify_row_def target_verify_request_ok_def check_target_verify_request_def
      wire_simps sees_append simp del: wire_del)
  show "enc_target_verify_row x = Inr bs \<Longrightarrow> sees r bs \<Longrightarrow> rd_target_verify_row r = Inr (x, skip (length bs) r)"
    using ok oh ob rd length_owned_handle [OF ob]
    by (cases x) (auto simp: enc_target_verify_row_def rd_target_verify_row_def target_verify_request_ok_def
      check_target_verify_request_def wire_simps sees_append Let_def simp del: wire_del)
qed

section \<open>The union of run rows\<close>

text \<open>The variant byte is 1 for a \<open>TargetVerifyRequest\<close> and 0 for a \<open>RunTargetRequest\<close>.\<close>

datatype run_request = RunTargetRow run_target_request | TargetVerifyRow target_verify_request

fun run_request_ok :: "run_request \<Rightarrow> bool" where
  "run_request_ok (RunTargetRow x) = run_target_request_ok x"
| "run_request_ok (TargetVerifyRow x) = target_verify_request_ok x"

fun enc_run_target_request :: "run_request \<Rightarrow> bytes result" where
  "enc_run_target_request (TargetVerifyRow x) = concat_r [enc_u8 1, enc_target_verify_row x]"
| "enc_run_target_request (RunTargetRow x) = concat_r [enc_u8 0, enc_run_target_row x]"

definition rd_run_target_request :: "payload_reader \<Rightarrow> (run_request \<times> payload_reader) result" where
  "rd_run_target_request r = bind_r (rd_u8 r) (\<lambda>(variant, r).
     if variant = 0 then bind_r (rd_run_target_row r) (\<lambda>(x, r). Inr (RunTargetRow x, r))
     else if variant = 1 then bind_r (rd_target_verify_row r) (\<lambda>(x, r). Inr (TargetVerifyRow x, r))
     else Inl (ValueError ''unknown RunTargetRequest variant''))"

interpretation run_request_codec: codec run_request_ok enc_run_target_request rd_run_target_request
proof
  have v: "is_valid U8 0" "is_valid U8 1" by simp_all
  fix x bs r
  assume ok: "run_request_ok x"
  show "\<exists>bs. enc_run_target_request x = Inr bs"
    using ok v run_target_request_codec.encodes target_verify_request_codec.encodes
    by (cases x) (auto simp: wire_simps simp del: wire_del)
  assume "enc_run_target_request x = Inr bs" "sees r bs"
  then show "rd_run_target_request r = Inr (x, skip (length bs) r)"
    using ok v run_target_request_codec.decodes target_verify_request_codec.decodes
    by (cases x) (auto simp: rd_run_target_request_def wire_simps sees_append simp del: wire_del)
qed

end
