(* ===== verification/CommandArena.thy ===== *)
theory CommandArena
  imports Handles
begin

text \<open>
  \<open>ipc/command_arena.py\<close>: the byte arena the command payloads live in, a circular buffer
  reclaimed by consumed command sequence. \<open>payload_store\<close> is the contract the command ring
  and the dispatcher rely on; the arena of the code is its interpretation.
\<close>

section \<open>The arena\<close>

record allocation =
  al_seq :: int
  al_offset :: nat
  al_length :: nat

definition al_end :: "allocation \<Rightarrow> nat" where
  "al_end al = al_offset al + al_length al"

record command_arena =
  ca_bytes :: bytes
  ca_generation :: int
  ca_head :: nat
  ca_tail :: nat
  ca_allocations :: "allocation list"

definition capacity_bytes :: "command_arena \<Rightarrow> nat" where
  "capacity_bytes a = length (ca_bytes a)"

definition new_command_arena :: "int \<Rightarrow> int \<Rightarrow> command_arena result" where
  "new_command_arena capacity generation =
     bind_r (checks [check_id U32 capacity, check_id U32 generation,
                     require (capacity > 0) (ValueError ''capacity_bytes must be positive'')])
       (\<lambda>_. Inr \<lparr>ca_bytes = replicate (nat capacity) 0, ca_generation = generation,
                ca_head = 0, ca_tail = 0, ca_allocations = []\<rparr>)"

definition reserve :: "command_arena \<Rightarrow> nat \<Rightarrow> (nat \<times> command_arena) result" where
  "reserve a len =
     (if ca_allocations a = [] then
        Inr (0, a\<lparr>ca_head := len mod capacity_bytes a, ca_tail := 0\<rparr>)
      else if ca_head a = ca_tail a then
        Inl (CommandBackpressure ''command arena has insufficient free space'')
      else if ca_head a \<ge> ca_tail a then
        (if len \<le> capacity_bytes a - ca_head a then
           Inr (ca_head a, a\<lparr>ca_head := (ca_head a + len) mod capacity_bytes a\<rparr>)
         else if len \<le> ca_tail a then
           Inr (0, a\<lparr>ca_head := len\<rparr>)
         else Inl (CommandBackpressure ''command arena has insufficient free space''))
      else if len \<le> ca_tail a - ca_head a then
        Inr (ca_head a, a\<lparr>ca_head := ca_head a + len\<rparr>)
      else Inl (CommandBackpressure ''command arena has insufficient free space''))"

definition allocate :: "command_arena \<Rightarrow> int \<Rightarrow> bytes \<Rightarrow> (arena_handle \<times> command_arena) result" where
  "allocate a seq payload =
     bind_r (checks
       [check_id COMMAND_SEQ seq,
        check_id U32 (int (length payload)),
        require (length payload > 0) (ValueError ''payload must be non-empty''),
        require (length payload \<le> capacity_bytes a)
          (CommandBackpressure ''command payload is larger than arena capacity'')]) (\<lambda>_.
     bind_r (if ca_allocations a = [] then Inr True
             else is_newer COMMAND_SEQ seq (al_seq (last (ca_allocations a)))) (\<lambda>newer.
     bind_r (require newer (ValueError ''command arena allocation sequence must increase monotonically'')) (\<lambda>_.
     bind_r (reserve a (length payload)) (\<lambda>(offset, a').
     bind_r (mk_handle (int offset) (int (length payload)) (ca_generation a)) (\<lambda>handle.
       Inr (handle, a'\<lparr>ca_bytes := overwrite offset payload (ca_bytes a'),
                      ca_allocations := ca_allocations a' @
                        [\<lparr>al_seq = seq, al_offset = offset, al_length = length payload\<rparr>]\<rparr>))))))"

definition read_arena :: "command_arena \<Rightarrow> arena_handle \<Rightarrow> bytes result" where
  "read_arena a h =
     bind_r (require (h_generation h = ca_generation a) (ValueError ''stale command arena generation'')) (\<lambda>_.
     bind_r (handle_within h (int (capacity_bytes a))) (\<lambda>inside.
     bind_r (require inside (ValueError ''command arena handle outside capacity'')) (\<lambda>_.
       Inr (subbuf (nat (h_offset h)) (nat (h_length h)) (ca_bytes a)))))"

text \<open>The \<open>while\<close> loop of \<open>release_through\<close> over the deque and the tail.\<close>

fun release_loop :: "int \<Rightarrow> nat \<Rightarrow> allocation list \<Rightarrow> nat \<Rightarrow> (allocation list \<times> nat) result" where
  "release_loop consumer cap [] tail = Inr ([], tail)"
| "release_loop consumer cap (al # als) tail =
     bind_r (if al_seq al = consumer then Inr True else is_newer_or_equal COMMAND_SEQ consumer (al_seq al))
       (\<lambda>reached. if \<not> reached then Inr (al # als, tail)
                  else release_loop consumer cap als (al_end al mod cap))"

definition release_through :: "command_arena \<Rightarrow> int \<Rightarrow> command_arena result" where
  "release_through a consumer =
     bind_r (check_id COMMAND_SEQ consumer) (\<lambda>_.
     bind_r (release_loop consumer (capacity_bytes a) (ca_allocations a) (ca_tail a)) (\<lambda>(als, tail).
       Inr (if als = [] then a\<lparr>ca_allocations := [], ca_head := 0, ca_tail := 0\<rparr>
            else a\<lparr>ca_allocations := als, ca_tail := tail\<rparr>)))"

definition discard_last :: "command_arena \<Rightarrow> int \<Rightarrow> command_arena result" where
  "discard_last a seq =
     bind_r (check_id COMMAND_SEQ seq) (\<lambda>_.
     bind_r (require (ca_allocations a \<noteq> [] \<and> al_seq (last (ca_allocations a)) = seq)
               (ValueError ''only the most recent allocation can be discarded'')) (\<lambda>_.
       let als = butlast (ca_allocations a)
       in Inr (if als = [] then a\<lparr>ca_allocations := [], ca_head := 0, ca_tail := 0\<rparr>
               else a\<lparr>ca_allocations := als, ca_head := al_end (last als) mod capacity_bytes a\<rparr>)))"

section \<open>Layout of the live allocations\<close>

text \<open>
  The live allocations are two runs: the first goes up from the tail, the second, after a
  wrap, up from 0 to at most the tail. Bytes between the end of the first run and the end of
  the buffer are the padding a wrap leaves.
\<close>

fun contiguous :: "nat \<Rightarrow> allocation list \<Rightarrow> bool" where
  "contiguous s [] = True"
| "contiguous s (al # als) \<longleftrightarrow> al_offset al = s \<and> 0 < al_length al \<and> contiguous (al_end al) als"

fun span_end :: "nat \<Rightarrow> allocation list \<Rightarrow> nat" where
  "span_end s [] = s"
| "span_end s (al # als) = span_end (al_end al) als"

definition first_lap :: "nat \<Rightarrow> allocation list \<Rightarrow> allocation list" where
  "first_lap tail als = takeWhile (\<lambda>al. tail \<le> al_offset al) als"

definition second_lap :: "nat \<Rightarrow> allocation list \<Rightarrow> allocation list" where
  "second_lap tail als = dropWhile (\<lambda>al. tail \<le> al_offset al) als"

definition laps_ok :: "nat \<Rightarrow> nat \<Rightarrow> nat \<Rightarrow> allocation list \<Rightarrow> allocation list \<Rightarrow> bool" where
  "laps_ok cap head tail low high \<longleftrightarrow>
     tail < cap \<and> contiguous tail low \<and> contiguous 0 high \<and> span_end tail low \<le> cap
     \<and> (if high = [] then head = span_end tail low mod cap
        else head = span_end 0 high \<and> span_end 0 high \<le> tail)"

definition arena_layout :: "nat \<Rightarrow> nat \<Rightarrow> nat \<Rightarrow> allocation list \<Rightarrow> bool" where
  "arena_layout cap head tail als \<longleftrightarrow>
     (if als = [] then head = 0 \<and> tail = 0
      else laps_ok cap head tail (first_lap tail als) (second_lap tail als))"

fun ascending :: "int list \<Rightarrow> bool" where
  "ascending (x # y # ys) \<longleftrightarrow> newer_id U64 y x \<and> ascending (y # ys)"
| "ascending _ = True"

definition arena_inv :: "command_arena \<Rightarrow> bool" where
  "arena_inv a \<longleftrightarrow>
     0 < capacity_bytes a \<and> is_valid U32 (int (capacity_bytes a)) \<and> is_valid U32 (ca_generation a)
     \<and> (\<forall>al \<in> set (ca_allocations a). is_valid U64 (al_seq al))
     \<and> ascending (map al_seq (ca_allocations a))
     \<and> arena_layout (capacity_bytes a) (ca_head a) (ca_tail a) (ca_allocations a)"

definition al_handle :: "int \<Rightarrow> allocation \<Rightarrow> arena_handle" where
  "al_handle gen al = \<lparr>h_offset = int (al_offset al), h_length = int (al_length al), h_generation = gen\<rparr>"

text \<open>The abstract content: the live commands in order, each with its handle and its bytes.\<close>

definition arena_view :: "command_arena \<Rightarrow> (int \<times> arena_handle \<times> bytes) list" where
  "arena_view a = map (\<lambda>al. (al_seq al, al_handle (ca_generation a) al,
                            subbuf (al_offset al) (al_length al) (ca_bytes a))) (ca_allocations a)"

lemma contiguous_append:
  "contiguous s (xs @ ys) \<longleftrightarrow> contiguous s xs \<and> contiguous (span_end s xs) ys"
  by (induction xs arbitrary: s) auto

lemma span_end_append: "span_end s (xs @ ys) = span_end (span_end s xs) ys"
  by (induction xs arbitrary: s) auto

lemma span_end_ge: "contiguous s xs \<Longrightarrow> s \<le> span_end s xs"
proof (induction xs arbitrary: s)
  case (Cons x xs)
  then have "al_end x \<le> span_end (al_end x) xs" "s < al_end x" by (auto simp: al_end_def)
  then show ?case by simp
qed simp

lemma contiguous_mem:
  "contiguous s xs \<Longrightarrow> x \<in> set xs \<Longrightarrow> s \<le> al_offset x \<and> 0 < al_length x \<and> al_end x \<le> span_end s xs"
proof (induction xs arbitrary: s)
  case (Cons y ys)
  then have "al_end y \<le> span_end (al_end y) ys" "s < al_end y" "al_offset y = s" "0 < al_length y"
    using span_end_ge by (auto simp: al_end_def)
  with Cons show ?case by fastforce
qed simp

lemma span_end_gt: "contiguous s xs \<Longrightarrow> xs \<noteq> [] \<Longrightarrow> s < span_end s xs"
  using contiguous_mem [of s xs "hd xs"] by (cases xs) (auto simp: al_end_def)

lemma span_end_last: "xs \<noteq> [] \<Longrightarrow> span_end s xs = al_end (last xs)"
  by (induction xs arbitrary: s) auto

lemma lap_split:
  assumes "contiguous tail low" "contiguous 0 high" "high \<noteq> [] \<Longrightarrow> span_end 0 high \<le> tail"
  shows "first_lap tail (low @ high) = low" "second_lap tail (low @ high) = high"
proof -
  have "\<forall>al \<in> set low. tail \<le> al_offset al" using contiguous_mem assms(1) by blast
  moreover have "high \<noteq> [] \<Longrightarrow> \<not> tail \<le> al_offset (hd high)"
    using contiguous_mem [OF assms(2), of "hd high"] assms(3) by (auto simp: al_end_def)
  ultimately show "first_lap tail (low @ high) = low" "second_lap tail (low @ high) = high"
    by (cases high; simp add: first_lap_def second_lap_def takeWhile_append2 dropWhile_append2)+
qed

lemma arena_layoutI:
  "low @ high \<noteq> [] \<Longrightarrow> laps_ok cap head tail low high \<Longrightarrow> arena_layout cap head tail (low @ high)"
  using lap_split [of tail low high] by (simp add: arena_layout_def laps_ok_def split: if_splits)

lemma arena_layoutE:
  assumes "arena_layout cap head tail als" "als \<noteq> []"
  obtains low high where "als = low @ high" "laps_ok cap head tail low high"
  using assms by (metis arena_layout_def first_lap_def second_lap_def takeWhile_dropWhile_id)

lemma layout_mem:
  assumes "arena_layout cap head tail als" "al \<in> set als"
  shows "0 < al_length al" "al_end al \<le> cap"
proof -
  obtain low high where als: "als = low @ high" and ok: "laps_ok cap head tail low high"
    using assms by (auto elim: arena_layoutE)
  have "0 < al_length al \<and> al_end al \<le> cap"
    using ok assms(2) contiguous_mem [of tail low al] contiguous_mem [of 0 high al]
    unfolding als laps_ok_def by (auto split: if_splits)
  then show "0 < al_length al" "al_end al \<le> cap" by auto
qed

lemma layout_single:
  "0 < n \<Longrightarrow> n \<le> cap \<Longrightarrow>
   arena_layout cap (n mod cap) 0 [\<lparr>al_seq = s, al_offset = 0, al_length = n\<rparr>]"
  using arena_layoutI [of "[\<lparr>al_seq = s, al_offset = 0, al_length = n\<rparr>]" "[]" cap "n mod cap" 0]
  by (simp add: laps_ok_def al_end_def)

section \<open>Operations keep the layout\<close>

lemma laps_extend_low:
  assumes "laps_ok cap head tail low []" "span_end tail low = off" "0 < n" "off + n \<le> cap"
  shows "laps_ok cap ((off + n) mod cap) tail (low @ [\<lparr>al_seq = s, al_offset = off, al_length = n\<rparr>]) []"
  using assms by (simp add: laps_ok_def contiguous_append span_end_append al_end_def)

lemma laps_extend_high:
  assumes "laps_ok cap head tail low high" "span_end 0 high = off" "0 < n" "off + n \<le> tail"
  shows "laps_ok cap (off + n) tail low (high @ [\<lparr>al_seq = s, al_offset = off, al_length = n\<rparr>])"
  using assms by (simp add: laps_ok_def contiguous_append span_end_append al_end_def split: if_splits)

lemma laps_low_disjoint:
  "laps_ok cap head tail low high \<Longrightarrow> al \<in> set low \<Longrightarrow> tail \<le> al_offset al \<and> al_end al \<le> span_end tail low"
  using contiguous_mem by (auto simp: laps_ok_def)

lemma laps_high_disjoint:
  "laps_ok cap head tail low high \<Longrightarrow> al \<in> set high \<Longrightarrow> al_end al \<le> span_end 0 high"
  using contiguous_mem by (auto simp: laps_ok_def)

definition free_for :: "nat \<Rightarrow> nat \<Rightarrow> allocation list \<Rightarrow> bool" where
  "free_for off n als \<longleftrightarrow> (\<forall>al \<in> set als. al_end al \<le> off \<or> off + n \<le> al_offset al)"

definition placed :: "command_arena \<Rightarrow> nat \<Rightarrow> int \<Rightarrow> nat \<Rightarrow> command_arena \<Rightarrow> bool" where
  "placed a n s off a' \<longleftrightarrow>
     (\<exists>h t. a' = a\<lparr>ca_head := h, ca_tail := t\<rparr> \<and> off + n \<le> capacity_bytes a
        \<and> free_for off n (ca_allocations a)
        \<and> arena_layout (capacity_bytes a) h t
            (ca_allocations a @ [\<lparr>al_seq = s, al_offset = off, al_length = n\<rparr>]))"

lemma placedI:
  assumes "a' = a\<lparr>ca_head := h, ca_tail := t\<rparr>" "off + n \<le> capacity_bytes a"
    and "free_for off n (low @ high)" "ca_allocations a = low @ high"
    and "laps_ok (capacity_bytes a) h t low' high'"
    and "low' @ high' = ca_allocations a @ [\<lparr>al_seq = s, al_offset = off, al_length = n\<rparr>]"
  shows "placed a n s off a'"
  using assms arena_layoutI [of low' high' "capacity_bytes a" h t]
  unfolding placed_def by (intro exI [of _ h] exI [of _ t]) simp

lemma reserve_one_lap:
  assumes r: "reserve a n = Inr (off, a')" and n: "0 < n" and ne: "low \<noteq> []"
    and als: "ca_allocations a = low" and ok: "laps_ok (capacity_bytes a) (ca_head a) (ca_tail a) low []"
  shows "placed a n s off a'"
proof -
  let ?cap = "capacity_bytes a" and ?h = "ca_head a" and ?t = "ca_tail a"
  let ?e = "span_end ?t low" and ?new = "\<lparr>al_seq = s, al_offset = off, al_length = n\<rparr>"
  have e: "?t < ?e" "?e \<le> ?cap" "?h = ?e mod ?cap" "?t < ?cap"
    using ok ne span_end_gt by (auto simp: laps_ok_def)
  have cong_a: "a = a\<lparr>ca_head := ?h, ca_tail := ?t\<rparr>" by simp
  have wrap: "placed a n s off a'" if "off = 0" "n \<le> ?t" "a' = a\<lparr>ca_head := n\<rparr>"
  proof (rule placedI [where low = low and high = "[]" and low' = low and high' = "[?new]" and h = n and t = ?t])
    show "a' = a\<lparr>ca_head := n, ca_tail := ?t\<rparr>" using that by simp
    show "free_for off n (low @ [])"
      using that laps_low_disjoint [OF ok] by (simp add: free_for_def) (meson le_trans)
    show "laps_ok ?cap n ?t low [?new]"
      using that n ok by (simp add: laps_ok_def al_end_def)
  qed (use that e als in simp_all)
  show ?thesis
  proof (cases "?e < ?cap")
    case True
    then have h: "?h = ?e" using e by simp
    consider "n \<le> ?cap - ?e" "off = ?e" "a' = a\<lparr>ca_head := (?e + n) mod ?cap\<rparr>"
      | "off = 0" "n \<le> ?t" "a' = a\<lparr>ca_head := n\<rparr>"
      using r ne als h e by (auto simp: reserve_def split: if_splits)
    then show ?thesis
    proof cases
      case 1
      show ?thesis
      proof (rule placedI [where low = low and high = "[]" and low' = "low @ [?new]" and high' = "[]"
            and h = "(?e + n) mod ?cap" and t = ?t])
        show "free_for off n (low @ [])"
          using 1 laps_low_disjoint [OF ok] by (auto simp: free_for_def)
        show "laps_ok ?cap ((?e + n) mod ?cap) ?t (low @ [?new]) []"
          using laps_extend_low [OF ok, of ?e n s] 1 n True by simp
      qed (use 1 True als in simp_all)
    next
      case 2
      then show ?thesis by (rule wrap)
    qed
  next
    case False
    then have "?e = ?cap" "?h = 0" using e by simp_all
    then have "off = 0" "n \<le> ?t" "a' = a\<lparr>ca_head := n\<rparr>"
      using r ne als by (auto simp: reserve_def split: if_splits)
    then show ?thesis by (rule wrap)
  qed
qed

lemma reserve_two_laps:
  assumes r: "reserve a n = Inr (off, a')" and n: "0 < n" and ne: "high \<noteq> []"
    and als: "ca_allocations a = low @ high"
    and ok: "laps_ok (capacity_bytes a) (ca_head a) (ca_tail a) low high"
  shows "placed a n s off a'"
proof -
  let ?cap = "capacity_bytes a" and ?h = "ca_head a" and ?t = "ca_tail a"
  let ?new = "\<lparr>al_seq = s, al_offset = off, al_length = n\<rparr>"
  have h: "?h = span_end 0 high" "?h \<le> ?t" "?t < ?cap" using ok ne by (auto simp: laps_ok_def)
  have *: "off = ?h" "n \<le> ?t - ?h" "?h < ?t" "a' = a\<lparr>ca_head := ?h + n\<rparr>"
    using r ne als h by (auto simp: reserve_def split: if_splits)
  show ?thesis
  proof (rule placedI [where low = low and high = high and low' = low and high' = "high @ [?new]"
        and h = "?h + n" and t = ?t])
    show "free_for off n (low @ high)"
      using * h laps_low_disjoint [OF ok] laps_high_disjoint [OF ok] by (fastforce simp: free_for_def)
    show "laps_ok ?cap (?h + n) ?t low (high @ [?new])"
      using laps_extend_high [OF ok, of off n s] * n h by simp
  qed (use * h als in simp_all)
qed

lemma reserve_placed:
  assumes r: "reserve a n = Inr (off, a')" and n: "0 < n" "n \<le> capacity_bytes a"
    and lay: "arena_layout (capacity_bytes a) (ca_head a) (ca_tail a) (ca_allocations a)"
  shows "placed a n s off a'"
proof (cases "ca_allocations a = []")
  case True
  then have "off = 0" "a' = a\<lparr>ca_head := n mod capacity_bytes a, ca_tail := 0\<rparr>"
    using r by (simp_all add: reserve_def)
  with True n layout_single show ?thesis
    unfolding placed_def by (intro exI [of _ "n mod capacity_bytes a"] exI [of _ 0]) (simp add: free_for_def)
next
  case False
  then obtain low high where als: "ca_allocations a = low @ high"
    and ok: "laps_ok (capacity_bytes a) (ca_head a) (ca_tail a) low high"
    using lay by (auto elim: arena_layoutE)
  show ?thesis
  proof (cases "high = []")
    case True
    with als ok False show ?thesis using reserve_one_lap [OF r n(1), of low s] by simp
  next
    case False
    with als ok show ?thesis using reserve_two_laps [OF r n(1), of high low s] by simp
  qed
qed

lemma ascending_snoc:
  "ascending (xs @ [y]) \<longleftrightarrow> ascending xs \<and> (xs \<noteq> [] \<longrightarrow> newer_id U64 y (last xs))"
  by (induction xs rule: ascending.induct) auto

lemma ascending_butlast: "ascending xs \<Longrightarrow> ascending (butlast xs)"
  by (cases xs rule: rev_cases) (auto simp: ascending_snoc)

lemma ascending_tl: "ascending (x # xs) \<Longrightarrow> ascending xs"
  by (cases xs) auto

lemma view_update:
  assumes "free_for off (length p) als" "off + length p \<le> length buf"
    and "al \<in> set als"
  shows "subbuf (al_offset al) (al_length al) (overwrite off p buf) = subbuf (al_offset al) (al_length al) buf"
  using assms by (intro subbuf_overwrite_disjoint) (auto simp: free_for_def al_end_def)

text \<open>What an allocation did, as one equation over the old arena.\<close>

lemma allocate_Inr:
  assumes "allocate a s p = Inr (h, a')" and inv: "arena_inv a"
  obtains off t' h' where
    "a' = a\<lparr>ca_bytes := overwrite off p (ca_bytes a), ca_head := h', ca_tail := t',
            ca_allocations := ca_allocations a @ [\<lparr>al_seq = s, al_offset = off, al_length = length p\<rparr>]\<rparr>"
    "h = \<lparr>h_offset = int off, h_length = int (length p), h_generation = ca_generation a\<rparr>"
    "off + length p \<le> capacity_bytes a" "0 < length p" "is_valid U64 s"
    "free_for off (length p) (ca_allocations a)"
    "ca_allocations a \<noteq> [] \<Longrightarrow> newer_id U64 s (al_seq (last (ca_allocations a)))"
    "arena_layout (capacity_bytes a) h' t'
       (ca_allocations a @ [\<lparr>al_seq = s, al_offset = off, al_length = length p\<rparr>])"
proof -
  from assms(1) obtain off a1 where
    s: "is_valid U64 s" and p: "0 < length p" "length p \<le> capacity_bytes a"
    and newer: "ca_allocations a \<noteq> [] \<Longrightarrow> newer_id U64 s (al_seq (last (ca_allocations a)))"
    and r: "reserve a (length p) = Inr (off, a1)"
    and h: "h = \<lparr>h_offset = int off, h_length = int (length p), h_generation = ca_generation a\<rparr>"
    and a': "a' = a1\<lparr>ca_bytes := overwrite off p (ca_bytes a1),
              ca_allocations := ca_allocations a1 @ [\<lparr>al_seq = s, al_offset = off, al_length = length p\<rparr>]\<rparr>"
    by (auto simp: allocate_def bind_r_eq_Inr mk_handle_Inr newer_id_def simp del: valid_U64 split: if_splits)
  from inv have lay: "arena_layout (capacity_bytes a) (ca_head a) (ca_tail a) (ca_allocations a)"
    by (simp add: arena_inv_def)
  from reserve_placed [OF r p lay, of s] obtain h1 t1 where
    "a1 = a\<lparr>ca_head := h1, ca_tail := t1\<rparr>" "off + length p \<le> capacity_bytes a"
    "free_for off (length p) (ca_allocations a)"
    "arena_layout (capacity_bytes a) h1 t1
       (ca_allocations a @ [\<lparr>al_seq = s, al_offset = off, al_length = length p\<rparr>])"
    by (auto simp: placed_def)
  with s p newer h a' show ?thesis by (intro that [of off t1 h1]) simp_all
qed

lemma allocate_inv:
  assumes "allocate a s p = Inr (h, a')" "arena_inv a"
  shows "arena_inv a'"
  by (rule allocate_Inr [OF assms], use assms(2) in
    \<open>auto simp: arena_inv_def capacity_bytes_def ascending_snoc last_map simp del: valid_U64 valid_U32\<close>)

lemma allocate_view:
  assumes "allocate a s p = Inr (h, a')" "arena_inv a"
  shows "arena_view a' = arena_view a @ [(s, h, p)]"
proof (rule allocate_Inr [OF assms])
  fix off t' h'
  assume a': "a' = a\<lparr>ca_bytes := overwrite off p (ca_bytes a), ca_head := h', ca_tail := t',
            ca_allocations := ca_allocations a @ [\<lparr>al_seq = s, al_offset = off, al_length = length p\<rparr>]\<rparr>"
    and h: "h = \<lparr>h_offset = int off, h_length = int (length p), h_generation = ca_generation a\<rparr>"
    and fits: "off + length p \<le> capacity_bytes a" and free: "free_for off (length p) (ca_allocations a)"
  show ?thesis
    using view_update [OF free, of "ca_bytes a"] fits
    by (simp add: a' h arena_view_def al_handle_def capacity_bytes_def)
qed

lemma layout_pop:
  assumes lay: "arena_layout cap head tail (al # als)" and ne: "als \<noteq> []"
  shows "arena_layout cap head (al_end al mod cap) als"
proof -
  obtain low high where split: "al # als = low @ high" and ok: "laps_ok cap head tail low high"
    using lay by (auto elim: arena_layoutE)
  show ?thesis
  proof (cases low)
    case Nil
    with split ok have *: "al_offset al = 0" "contiguous (al_end al) als" "head = span_end (al_end al) als"
      "head \<le> tail" "tail < cap"
      by (auto simp: laps_ok_def)
    moreover have "al_end al < cap" using span_end_ge [OF *(2)] * by simp
    ultimately show ?thesis using arena_layoutI [of als "[]" cap head "al_end al"] ne
      by (simp add: laps_ok_def)
  next
    case (Cons x low')
    with split have x: "x = al" and als: "als = low' @ high" by auto
    from ok Cons x have *: "contiguous (al_end al) low'" "span_end (al_end al) low' \<le> cap" "contiguous 0 high"
      "tail < al_end al" "high \<noteq> [] \<Longrightarrow> head = span_end 0 high \<and> head \<le> tail"
      "high = [] \<Longrightarrow> head = span_end (al_end al) low' mod cap" "tail < cap"
      by (auto simp: laps_ok_def al_end_def split: if_splits)
    show ?thesis
    proof (cases "al_end al < cap")
      case True
      with * have "laps_ok cap head (al_end al) low' high" by (auto simp: laps_ok_def)
      with arena_layoutI [of low' high] ne als True show ?thesis by simp
    next
      case False
      with * span_end_ge [OF *(1)] have e: "al_end al = cap" by simp
      have "low' = []"
      proof (rule ccontr)
        assume "low' \<noteq> []"
        with span_end_gt [OF *(1)] * e show False by simp
      qed
      with als ne have h: "als = high" "high \<noteq> []" by simp_all
      with * e have "laps_ok cap head 0 high []" by (auto simp: laps_ok_def)
      with arena_layoutI [of high "[]"] h e show ?thesis by simp
    qed
  qed
qed

lemma layout_unpush:
  assumes lay: "arena_layout cap head tail (als @ [al])" and ne: "als \<noteq> []"
  shows "arena_layout cap (al_end (last als) mod cap) tail als"
proof -
  obtain low high where split: "als @ [al] = low @ high" and ok: "laps_ok cap head tail low high"
    using lay by (auto elim: arena_layoutE)
  show ?thesis
  proof (cases high rule: rev_cases)
    case Nil
    have "al_offset al \<le> al_end al" by (simp add: al_end_def)
    with Nil split ok have "laps_ok cap (al_end (last als) mod cap) tail als []"
      using span_end_last [OF ne, of tail]
      by (auto simp: laps_ok_def contiguous_append span_end_append dest: span_end_ge)
    then show ?thesis using arena_layoutI [of als "[]"] ne by simp
  next
    case (snoc high' x)
    with split have als: "als = low @ high'" and x: "x = al" by auto
    from ok snoc x have *: "contiguous tail low" "span_end tail low \<le> cap" "contiguous 0 high'" "tail < cap"
      "al_offset al = span_end 0 high'" "0 < al_length al" "al_end al \<le> tail"
      by (auto simp: laps_ok_def contiguous_append span_end_append)
    have "laps_ok cap (al_end (last als) mod cap) tail low high'"
    proof (cases "high' = []")
      case True
      with als ne have "span_end tail low = al_end (last als)" by (simp add: span_end_last)
      with True * show ?thesis by (simp add: laps_ok_def)
    next
      case False
      then have "span_end 0 high' = al_end (last als)" using als by (simp add: span_end_last)
      moreover have "span_end 0 high' < tail" using * by (simp add: al_end_def)
      ultimately show ?thesis using * False by (simp add: laps_ok_def)
    qed
    then show ?thesis using arena_layoutI als ne by metis
  qed
qed

text \<open>A sequence is released by the consumer once the consumer has reached it.\<close>

definition reached :: "int \<Rightarrow> int \<Rightarrow> bool" where
  "reached consumer seq \<longleftrightarrow> seq = consumer \<or> newer_id U64 consumer seq"

lemma reached_test:
  assumes "is_valid U64 c" "is_valid U64 s"
  shows "(if s = c then Inr True else is_newer_or_equal COMMAND_SEQ c s) = Inr (reached c s)"
  using assms by (auto simp: is_newer_or_equal_def reached_def newer_id_def is_newer_valid simp del: valid_U64)

lemma release_loop_result:
  assumes "is_valid U64 c" "\<forall>al \<in> set als. is_valid U64 (al_seq al)" "arena_layout cap head tail als"
  shows "\<exists>tail'. release_loop c cap als tail = Inr (dropWhile (\<lambda>al. reached c (al_seq al)) als, tail')
           \<and> (dropWhile (\<lambda>al. reached c (al_seq al)) als \<noteq> [] \<longrightarrow>
               arena_layout cap head tail' (dropWhile (\<lambda>al. reached c (al_seq al)) als))"
  using assms
proof (induction als arbitrary: tail)
  case (Cons al als)
  note test = reached_test [OF Cons.prems(1), of "al_seq al"]
  show ?case
  proof (cases "reached c (al_seq al)")
    case False
    with Cons test show ?thesis by (auto simp del: valid_U64)
  next
    case True
    show ?thesis
    proof (cases "als = []")
      case True
      with \<open>reached c (al_seq al)\<close> Cons.prems test show ?thesis by (auto simp del: valid_U64)
    next
      case False
      with Cons.IH [of "al_end al mod cap"] Cons.prems layout_pop test True
      show ?thesis by (auto simp del: valid_U64)
    qed
  qed
qed simp

lemma ascending_dropWhile: "ascending (map f xs) \<Longrightarrow> ascending (map f (dropWhile P xs))"
  by (induction xs) (auto dest: ascending_tl)

lemma release_through_result:
  assumes inv: "arena_inv a" and c: "is_valid U64 c"
  obtains a' where "release_through a c = Inr a'" "arena_inv a'"
    "arena_view a' = dropWhile (\<lambda>(s, _). reached c s) (arena_view a)"
proof -
  let ?als = "dropWhile (\<lambda>al. reached c (al_seq al)) (ca_allocations a)"
  from inv c obtain tail' where
    r: "release_loop c (capacity_bytes a) (ca_allocations a) (ca_tail a) = Inr (?als, tail')"
    and lay: "?als \<noteq> [] \<longrightarrow> arena_layout (capacity_bytes a) (ca_head a) tail' ?als"
    using release_loop_result [of c "ca_allocations a" "capacity_bytes a" "ca_head a" "ca_tail a"]
    by (auto simp: arena_inv_def simp del: valid_U64)
  define a' where "a' = (if ?als = [] then a\<lparr>ca_allocations := [], ca_head := 0, ca_tail := 0\<rparr>
            else a\<lparr>ca_allocations := ?als, ca_tail := tail'\<rparr>)"
  have cap: "capacity_bytes a' = capacity_bytes a" and als: "ca_allocations a' = ?als"
    and byt: "ca_bytes a' = ca_bytes a" and gen: "ca_generation a' = ca_generation a"
    by (cases "?als = []"; simp add: a'_def capacity_bytes_def del: dropWhile_eq_Nil_conv)+
  show ?thesis
  proof (rule that)
    show "release_through a c = Inr a'" using r c by (simp add: release_through_def a'_def)
    have "arena_layout (capacity_bytes a) (ca_head a') (ca_tail a') ?als"
      using lay by (auto simp: a'_def arena_layout_def)
    with inv show "arena_inv a'"
      by (auto simp: arena_inv_def cap als gen ascending_dropWhile dest: set_dropWhileD simp del: valid_U64 valid_U32)
    show "arena_view a' = dropWhile (\<lambda>(s, _). reached c s) (arena_view a)"
      by (simp add: arena_view_def als byt gen dropWhile_map comp_def)
  qed
qed

lemma discard_last_result:
  assumes "discard_last a s = Inr a'" and inv: "arena_inv a"
  shows "arena_inv a'" "arena_view a' = butlast (arena_view a)" "arena_view a \<noteq> []"
    "fst (last (arena_view a)) = s"
proof -
  from assms(1) have ne: "ca_allocations a \<noteq> []" and s: "al_seq (last (ca_allocations a)) = s"
    and a': "a' = (if butlast (ca_allocations a) = [] then a\<lparr>ca_allocations := [], ca_head := 0, ca_tail := 0\<rparr>
       else a\<lparr>ca_allocations := butlast (ca_allocations a),
              ca_head := al_end (last (butlast (ca_allocations a))) mod capacity_bytes a\<rparr>)"
    by (auto simp: discard_last_def bind_r_eq_Inr Let_def)
  let ?b = "butlast (ca_allocations a)" and ?l = "last (ca_allocations a)"
  have split: "ca_allocations a = ?b @ [?l]" using ne by simp
  have asc: "ascending (map al_seq ?b)"
    using inv ascending_butlast [of "map al_seq (ca_allocations a)"] by (simp add: arena_inv_def map_butlast)
  have "?b \<noteq> [] \<Longrightarrow> arena_layout (capacity_bytes a) (al_end (last ?b) mod capacity_bytes a) (ca_tail a) ?b"
    using inv split layout_unpush [of "capacity_bytes a" "ca_head a" "ca_tail a" ?b ?l] by (simp add: arena_inv_def)
  with inv asc show "arena_inv a'"
    by (auto simp: arena_inv_def a' capacity_bytes_def arena_layout_def [of _ 0 0 "[]"]
        dest: in_set_butlastD simp del: valid_U64 valid_U32)
  have "ca_allocations a' = ?b" "ca_bytes a' = ca_bytes a" "ca_generation a' = ca_generation a"
    by (cases "?b = []"; simp add: a')+
  then show "arena_view a' = butlast (arena_view a)"
    by (simp add: arena_view_def map_butlast)
  show "arena_view a \<noteq> []" using ne by (simp add: arena_view_def)
  show "fst (last (arena_view a)) = s" using ne s by (simp add: arena_view_def last_map)
qed

lemma read_live:
  assumes inv: "arena_inv a" and v: "(s, h, p) \<in> set (arena_view a)"
  shows "read_arena a h = Inr p"
proof -
  from v obtain al where al: "al \<in> set (ca_allocations a)"
    and h: "h = al_handle (ca_generation a) al" and p: "p = subbuf (al_offset al) (al_length al) (ca_bytes a)"
    by (auto simp: arena_view_def)
  have "al_end al \<le> capacity_bytes a" using inv al layout_mem by (auto simp: arena_inv_def)
  with inv show ?thesis
    by (simp add: h p read_arena_def handle_within_def al_handle_def end_offset_def al_end_def
        arena_inv_def validate_valid flip: of_nat_add)
qed

lemma new_arena_inv: "new_command_arena cap gen = Inr a \<Longrightarrow> arena_inv a \<and> arena_view a = []"
  by (auto simp: new_command_arena_def bind_r_eq_Inr arena_inv_def capacity_bytes_def arena_layout_def arena_view_def)

section \<open>The contract of a payload store\<close>

locale payload_store =
  fixes inv :: "'a \<Rightarrow> bool"
    and view :: "'a \<Rightarrow> (int \<times> arena_handle \<times> bytes) list"
    and alloc :: "'a \<Rightarrow> int \<Rightarrow> bytes \<Rightarrow> (arena_handle \<times> 'a) result"
    and fetch :: "'a \<Rightarrow> arena_handle \<Rightarrow> bytes result"
    and release :: "'a \<Rightarrow> int \<Rightarrow> 'a result"
    and discard :: "'a \<Rightarrow> int \<Rightarrow> 'a result"
  assumes alloc_inv: "alloc a s p = Inr (h, a') \<Longrightarrow> inv a \<Longrightarrow> inv a'"
    and alloc_view: "alloc a s p = Inr (h, a') \<Longrightarrow> inv a \<Longrightarrow> view a' = view a @ [(s, h, p)]"
    and fetch_live: "inv a \<Longrightarrow> (s, h, p) \<in> set (view a) \<Longrightarrow> fetch a h = Inr p"
    and release_ok: "inv a \<Longrightarrow> is_valid U64 c \<Longrightarrow> \<exists>a'. release a c = Inr a' \<and> inv a' \<and>
                       view a' = dropWhile (\<lambda>(s, _). reached c s) (view a)"
    and discard_inv: "discard a s = Inr a' \<Longrightarrow> inv a \<Longrightarrow> inv a'"
    and discard_view: "discard a s = Inr a' \<Longrightarrow> inv a \<Longrightarrow> view a' = butlast (view a)"
begin

lemma fetch_new: "alloc a s p = Inr (h, a') \<Longrightarrow> inv a \<Longrightarrow> fetch a' h = Inr p"
  by (rule fetch_live [OF alloc_inv, where s = s]) (simp_all add: alloc_view)

lemma alloc_keeps:
  "alloc a s p = Inr (h, a') \<Longrightarrow> inv a \<Longrightarrow> (s', h', p') \<in> set (view a) \<Longrightarrow> fetch a' h' = Inr p'"
  by (rule fetch_live [OF alloc_inv, where s = s']) (simp_all add: alloc_view)

lemma release_keeps:
  assumes "release a c = Inr a'" "inv a" "is_valid U64 c" "(s, h, p) \<in> set (view a)" "\<not> reached c s"
  shows "fetch a' h = Inr p"
proof -
  obtain a'' where r: "release a c = Inr a''" "inv a''" "view a'' = dropWhile (\<lambda>(s, _). reached c s) (view a)"
    using release_ok assms(2,3) by blast
  have "(s, h, p) \<in> set (dropWhile (\<lambda>(s, _). reached c s) (view a))"
    using assms(4,5) by (induction "view a" arbitrary: a rule: list.induct)
      (metis (mono_tags, lifting) Un_iff case_prod_conv set_append set_takeWhileD takeWhile_dropWhile_id)+
  with r assms(1) show ?thesis by (auto intro: fetch_live)
qed

lemma alloc_then_discard:
  "alloc a s p = Inr (h, a') \<Longrightarrow> inv a \<Longrightarrow> discard a' s = Inr a'' \<Longrightarrow> view a'' = view a"
  using alloc_inv alloc_view discard_view by simp

end

interpretation command_store: payload_store arena_inv arena_view allocate read_arena release_through discard_last
proof
  fix a c
  assume "arena_inv a" "is_valid U64 c"
  then show "\<exists>a'. release_through a c = Inr a' \<and> arena_inv a' \<and>
      arena_view a' = dropWhile (\<lambda>(s, _). reached c s) (arena_view a)"
    by (rule release_through_result) blast
qed (auto intro: allocate_inv allocate_view read_live discard_last_result)

section \<open>Histories\<close>

text \<open>A history of calls on one arena; a call that raises leaves the arena as it was.\<close>

datatype arena_op = Put int bytes | Free int | Undo int

fun arena_step :: "command_arena \<Rightarrow> arena_op \<Rightarrow> command_arena" where
  "arena_step a (Put s p) = (case allocate a s p of Inl _ \<Rightarrow> a | Inr (_, a') \<Rightarrow> a')"
| "arena_step a (Free c) = (case release_through a c of Inl _ \<Rightarrow> a | Inr a' \<Rightarrow> a')"
| "arena_step a (Undo s) = (case discard_last a s of Inl _ \<Rightarrow> a | Inr a' \<Rightarrow> a')"

lemma release_through_inv: "release_through a c = Inr a' \<Longrightarrow> arena_inv a \<Longrightarrow> arena_inv a'"
  by (rule release_through_result [of a c]) (auto simp: release_through_def bind_r_eq_Inr)

lemma arena_step_inv: "arena_inv a \<Longrightarrow> arena_inv (arena_step a x)"
  by (cases x) (auto intro: allocate_inv release_through_inv discard_last_result split: sum.splits prod.splits)

lemma arena_history_inv: "arena_inv a \<Longrightarrow> arena_inv (foldl arena_step a ops)"
  by (induction ops arbitrary: a) (simp_all add: arena_step_inv)

definition disjoint_ranges :: "arena_handle \<Rightarrow> arena_handle \<Rightarrow> bool" where
  "disjoint_ranges h h' \<longleftrightarrow> end_offset h \<le> h_offset h' \<or> end_offset h' \<le> h_offset h"

lemma contiguous_sorted: "contiguous s xs \<Longrightarrow> sorted_wrt (\<lambda>x y. al_end x \<le> al_offset y) xs"
  by (induction xs arbitrary: s) (auto dest: contiguous_mem)

lemma layout_disjoint:
  assumes "arena_layout cap head tail als"
  shows "sorted_wrt (\<lambda>x y. al_end x \<le> al_offset y \<or> al_end y \<le> al_offset x) als"
proof (cases "als = []")
  case False
  obtain low high where als: "als = low @ high" and ok: "laps_ok cap head tail low high"
    by (rule arena_layoutE [OF assms False])
  have "sorted_wrt (\<lambda>x y. al_end x \<le> al_offset y) low" "sorted_wrt (\<lambda>x y. al_end x \<le> al_offset y) high"
    using ok contiguous_sorted by (auto simp: laps_ok_def)
  moreover have "al_end y \<le> al_offset x" if "x \<in> set low" "y \<in> set high" for x y
    using laps_low_disjoint [OF ok that(1)] laps_high_disjoint [OF ok that(2)] ok that(2)
    by (auto simp: laps_ok_def split: if_splits)
  ultimately show ?thesis
    unfolding als by (auto simp: sorted_wrt_append elim: sorted_wrt_mono_rel [rotated])
qed simp

lemma view_disjoint: "arena_inv a \<Longrightarrow> sorted_wrt disjoint_ranges (map (fst \<circ> snd) (arena_view a))"
  using layout_disjoint [of "capacity_bytes a" "ca_head a" "ca_tail a" "ca_allocations a"]
  by (auto simp: arena_inv_def arena_view_def sorted_wrt_map disjoint_ranges_def al_handle_def end_offset_def
      al_end_def elim!: sorted_wrt_mono_rel [rotated])

lemma allocate_into_empty:
  assumes "arena_inv a" "ca_allocations a = []" "is_valid U64 s" "0 < length p" "length p \<le> capacity_bytes a"
  shows "\<exists>h a'. allocate a s p = Inr (h, a')"
  using assms
  by (auto simp: allocate_def reserve_def arena_inv_def mk_handle_def check_handle_def Let_def)

section \<open>Properties\<close>



text \<open>A successful allocation appends one entry to the queue of live payloads and disturbs none:
  the new handle reads the new payload and every older live handle reads what it read before.\<close>

theorem allocate_preserves_live:
  assumes "arena_inv a" "allocate a s p = Inr (h, a')"
  shows "arena_inv a' \<and> arena_view a' = arena_view a @ [(s, h, p)] \<and> read_arena a' h = Inr p
     \<and> (\<forall>(s', h', p') \<in> set (arena_view a). read_arena a' h' = Inr p')"
  using command_store.alloc_keeps [OF assms(2,1)] command_store.fetch_new [OF assms(2,1)]
    allocate_inv [OF assms(2,1)] allocate_view [OF assms(2,1)] by auto

definition arena_example :: command_arena where
  "arena_example = foldl arena_step \<lparr>ca_bytes = replicate 8 0, ca_generation = 1, ca_head = 0, ca_tail = 0,
     ca_allocations = []\<rparr> [Put 1 [7, 7, 7], Put 2 [8, 8, 8], Free 1]"

theorem allocate_preserves_live_witness:
  "arena_view (snd (projr (allocate arena_example 3 [9, 9]))) =
   arena_view arena_example @ [(3, fst (projr (allocate arena_example 3 [9, 9])), [9, 9])]"
proof -
  have "arena_inv arena_example" by code_simp
  moreover have "allocate arena_example 3 [9, 9] =
      Inr (fst (projr (allocate arena_example 3 [9, 9])), snd (projr (allocate arena_example 3 [9, 9])))"
    by code_simp
  ultimately show ?thesis using allocate_preserves_live by blast
qed

text \<open>Releasing through a valid consumer sequence never fails and frees exactly the longest prefix
  of live payloads the consumer has reached; every payload behind it stays live and readable.\<close>

theorem release_through_prefix:
  assumes "arena_inv a" "is_valid U64 c"
  shows "\<exists>a'. release_through a c = Inr a' \<and> arena_inv a'
     \<and> arena_view a' = dropWhile (\<lambda>(s, _). s = c \<or> is_newer U64 c s = Inr True) (arena_view a)
     \<and> (\<forall>(s, h, p) \<in> set (arena_view a'). read_arena a' h = Inr p)"
proof -
  obtain a' where "release_through a c = Inr a'" "arena_inv a'"
    "arena_view a' = dropWhile (\<lambda>(s, _). reached c s) (arena_view a)"
    using release_through_result [OF assms] .
  then show ?thesis using read_live by (auto simp: reached_def newer_id_def)
qed

theorem release_through_prefix_witness:
  "\<exists>a'. release_through arena_example 2 = Inr a' \<and> arena_inv a'
     \<and> arena_view a' = dropWhile (\<lambda>(s, _). s = 2 \<or> is_newer U64 2 s = Inr True) (arena_view arena_example)
     \<and> (\<forall>(s, h, p) \<in> set (arena_view a'). read_arena a' h = Inr p)"
proof -
  have "arena_inv arena_example" by code_simp
  then show ?thesis by (rule release_through_prefix) simp
qed

text \<open>The circular arena never wedges: once the consumer has caught up with the last live command,
  any non-empty payload up to the whole capacity is accepted again, wherever the head stood.\<close>

theorem drained_arena_accepts:
  assumes "arena_inv a" "arena_view a \<noteq> []" "c = fst (last (arena_view a))"
    and "\<forall>(s, _) \<in> set (arena_view a). s = c \<or> is_newer U64 c s = Inr True"
    and "is_valid U64 s" "0 < length p" "length p \<le> capacity_bytes a"
  shows "\<exists>a1 h a2. release_through a c = Inr a1 \<and> allocate a1 s p = Inr (h, a2)"
proof -
  have c: "is_valid U64 c"
    using assms(1-3) by (auto simp: arena_inv_def arena_view_def last_map simp del: valid_U64)
  obtain a1 where r: "release_through a c = Inr a1" and inv: "arena_inv a1"
    and view: "arena_view a1 = dropWhile (\<lambda>(s, _). reached c s) (arena_view a)"
    using release_through_result [OF assms(1) c] .
  have "arena_view a1 = []" using assms(4) view by (auto simp: reached_def newer_id_def)
  then have "ca_allocations a1 = []" by (simp add: arena_view_def)
  moreover have "capacity_bytes a1 = capacity_bytes a"
    using r by (auto simp: release_through_def bind_r_eq_Inr capacity_bytes_def split: prod.splits)
  ultimately show ?thesis
    using r inv allocate_into_empty [of a1 s p] assms(5-7) by auto
qed

theorem drained_arena_accepts_witness:
  "\<exists>a1 h a2. release_through arena_example 2 = Inr a1 \<and> allocate a1 3 (replicate 8 5) = Inr (h, a2)"
proof -
  have "arena_inv arena_example" "arena_view arena_example \<noteq> []" "2 = fst (last (arena_view arena_example))"
    "\<forall>(s, _) \<in> set (arena_view arena_example). s = 2 \<or> is_newer U64 2 s = Inr True"
    "length (replicate 8 (5::byte)) \<le> capacity_bytes arena_example"
    by code_simp+
  then show ?thesis by (intro drained_arena_accepts) simp_all
qed

end
