(* ===== verification/ArrayRing.thy ===== *)
theory ArrayRing
  imports Prelude
begin

text \<open>
  The array ring that \<open>ipc/command_ring.py\<close> and \<open>ipc/state_change_ring.py\<close> share: a list of
  optional entries with head, tail and size. \<open>ring_put\<close> and \<open>ring_drop\<close> are the three
  assignments both classes make; \<open>ring_holds\<close> relates the array to the queue it stands for.
  \<open>bounded_fifo\<close> is the contract of a bounded queue and what follows for every history of it.
\<close>

section \<open>The array\<close>

record 'e ring =
  rg_entries :: "'e option list"
  rg_head :: nat
  rg_tail :: nat
  rg_size :: nat

definition ring_capacity :: "'e ring \<Rightarrow> nat" where
  "ring_capacity r = length (rg_entries r)"

definition new_ring :: "nat \<Rightarrow> 'e ring" where
  "new_ring n = \<lparr>rg_entries = replicate n None, rg_head = 0, rg_tail = 0, rg_size = 0\<rparr>"

definition ring_put :: "'e \<Rightarrow> 'e ring \<Rightarrow> 'e ring" where
  "ring_put x r = r\<lparr>rg_entries := (rg_entries r)[rg_tail r := Some x],
                    rg_tail := (rg_tail r + 1) mod ring_capacity r,
                    rg_size := rg_size r + 1\<rparr>"

definition ring_peek :: "'e ring \<Rightarrow> 'e option" where
  "ring_peek r = rg_entries r ! rg_head r"

definition ring_drop :: "'e ring \<Rightarrow> 'e ring" where
  "ring_drop r = r\<lparr>rg_entries := (rg_entries r)[rg_head r := None],
                   rg_head := (rg_head r + 1) mod ring_capacity r,
                   rg_size := rg_size r - 1\<rparr>"

section \<open>The queue it stands for\<close>

definition ring_holds :: "'e ring \<Rightarrow> 'e list \<Rightarrow> bool" where
  "ring_holds r xs \<longleftrightarrow>
     rg_head r < ring_capacity r \<and> rg_size r = length xs \<and> length xs \<le> ring_capacity r
     \<and> rg_tail r = (rg_head r + length xs) mod ring_capacity r
     \<and> (\<forall>i < ring_capacity r. rg_entries r ! ((rg_head r + i) mod ring_capacity r) =
                              (if i < length xs then Some (xs ! i) else None))"

definition ring_items :: "'e ring \<Rightarrow> 'e list" where
  "ring_items r = map (\<lambda>i. the (rg_entries r ! ((rg_head r + i) mod ring_capacity r))) [0..<rg_size r]"

definition ring_wf :: "'e ring \<Rightarrow> bool" where
  "ring_wf r \<longleftrightarrow> ring_holds r (ring_items r)"

lemma ring_capacity_simps [simp]:
  "ring_capacity (ring_put x r) = ring_capacity r"
  "ring_capacity (ring_drop r) = ring_capacity r"
  "ring_capacity (new_ring n) = n"
  by (simp_all add: ring_capacity_def ring_put_def ring_drop_def new_ring_def)

lemma ring_size_simps [simp]:
  "rg_size (ring_put x r) = rg_size r + 1"
  "rg_size (ring_drop r) = rg_size r - 1"
  "rg_size (new_ring n) = 0"
  by (simp_all add: ring_put_def ring_drop_def new_ring_def)

lemma ring_holds_items: "ring_holds r xs \<Longrightarrow> ring_items r = xs"
  by (rule nth_equalityI) (simp_all add: ring_holds_def ring_items_def)

lemma ring_holds_wf: "ring_holds r xs \<Longrightarrow> ring_wf r"
  using ring_holds_items by (metis ring_wf_def)

lemma shift_inj:
  assumes "i < (n::nat)" "j < n" "(h + i) mod n = (h + j) mod n" shows "i = j"
proof -
  have *: "a = b" if "a < n" "b < n" "(h + a) mod n = (h + b) mod n" "a \<le> b" for a b :: nat
  proof -
    have "n dvd (h + b) - (h + a)"
      using that(3,4) mod_eq_dvd_iff_nat [of "h + a" "h + b" n] by simp
    then have "n dvd b - a" by simp
    moreover have "b - a < n" using that(2) by simp
    ultimately have "b - a = 0" using dvd_imp_le by fastforce
    with that(4) show ?thesis by simp
  qed
  show ?thesis using assms * [of i j] * [of j i] by (cases "i \<le> j") simp_all
qed

lemma ring_new_holds: "0 < n \<Longrightarrow> ring_holds (new_ring n) []"
  by (simp add: ring_holds_def new_ring_def ring_capacity_def)

lemma ring_put_holds:
  assumes h: "ring_holds r xs" and room: "rg_size r \<noteq> ring_capacity r"
  shows "ring_holds (ring_put x r) (xs @ [x])"
proof -
  let ?n = "ring_capacity r" and ?h = "rg_head r"
  have len: "length xs < ?n" and t: "rg_tail r = (?h + length xs) mod ?n"
    using h room by (auto simp: ring_holds_def)
  have upd: "(rg_entries r)[rg_tail r := Some x] ! ((?h + i) mod ?n) =
      (if i = length xs then Some x else rg_entries r ! ((?h + i) mod ?n))" if "i < ?n" for i
  proof -
    have "(?h + i) mod ?n < length (rg_entries r)" "rg_tail r < length (rg_entries r)"
      using len t by (simp_all add: ring_capacity_def mod_less_divisor [OF le_less_trans [OF le0 len], unfolded ring_capacity_def])
    then show ?thesis using shift_inj [OF that len, of ?h] t by (auto simp: nth_list_update)
  qed
  from h len t upd show ?thesis
    by (auto simp: ring_holds_def ring_put_def ring_capacity_def nth_append mod_Suc_eq)
qed

lemma ring_peek_holds: "ring_holds r (x # xs) \<Longrightarrow> ring_peek r = Some x"
  by (auto simp: ring_holds_def ring_peek_def dest: spec [of _ 0])

lemma ring_drop_holds:
  assumes h: "ring_holds r (x # xs)"
  shows "ring_holds (ring_drop r) xs"
proof -
  let ?n = "ring_capacity r" and ?h = "rg_head r"
  have len: "length xs < ?n" and hd: "?h < ?n" using h by (auto simp: ring_holds_def)
  have next_ix: "((?h + 1) mod ?n + i) mod ?n = (?h + Suc i) mod ?n" for i
    by (simp add: mod_add_left_eq)
  have entry: "(rg_entries r)[?h := None] ! ((?h + Suc i) mod ?n) = (if i < length xs then Some (xs ! i) else None)"
    if "i < ?n" for i
  proof (cases "Suc i = ?n")
    case True
    then show ?thesis using len hd by (simp add: ring_capacity_def)
  next
    case False
    then have si: "Suc i < ?n" using that by simp
    have "(?h + Suc i) mod ?n \<noteq> ?h" using shift_inj [OF si, of 0 ?h] hd by auto
    moreover have "rg_entries r ! ((?h + Suc i) mod ?n) = (if i < length xs then Some (xs ! i) else None)"
      using h si by (auto simp: ring_holds_def)
    ultimately show ?thesis by simp
  qed
  have cap: "ring_capacity (ring_drop r) = ?n" by simp
  show ?thesis
    unfolding ring_holds_def cap
  proof (intro conjI allI impI)
    show "rg_tail (ring_drop r) = (rg_head (ring_drop r) + length xs) mod ?n"
      using h next_ix [of "length xs"] by (simp add: ring_holds_def ring_drop_def)
    fix i assume "i < ?n"
    then show "rg_entries (ring_drop r) ! ((rg_head (ring_drop r) + i) mod ?n) =
        (if i < length xs then Some (xs ! i) else None)"
      using entry next_ix by (simp add: ring_drop_def)
  qed (use h len hd in \<open>simp_all add: ring_holds_def ring_drop_def\<close>)
qed

lemma ring_wf_put:
  "ring_wf r \<Longrightarrow> rg_size r \<noteq> ring_capacity r \<Longrightarrow> ring_wf (ring_put x r) \<and> ring_items (ring_put x r) = ring_items r @ [x]"
  using ring_put_holds ring_holds_wf ring_holds_items unfolding ring_wf_def by metis

lemma ring_wf_peek:
  assumes "ring_wf r" "rg_size r \<noteq> 0"
  obtains x where "ring_peek r = Some x" "ring_items r = x # ring_items (ring_drop r)" "ring_wf (ring_drop r)"
proof -
  from assms obtain x xs where i: "ring_items r = x # xs"
    by (cases "ring_items r") (auto simp: ring_wf_def ring_holds_def)
  with assms(1) have h: "ring_holds r (x # xs)" by (simp add: ring_wf_def)
  have "ring_items (ring_drop r) = xs" using ring_holds_items [OF ring_drop_holds [OF h]] .
  then show ?thesis
    using that ring_peek_holds [OF h] i ring_holds_wf [OF ring_drop_holds [OF h]] by simp
qed

lemma ring_wf_new: "0 < n \<Longrightarrow> ring_wf (new_ring n) \<and> ring_items (new_ring n) = []"
  using ring_new_holds ring_holds_wf ring_holds_items by metis

lemma ring_wf_size: "ring_wf r \<Longrightarrow> rg_size r = length (ring_items r) \<and> rg_size r \<le> ring_capacity r"
  by (simp add: ring_wf_def ring_holds_def)

section \<open>The contract of a bounded queue\<close>

text \<open>
  \<open>put x q\<close> accepts or raises; \<open>get k q\<close> takes some entries off (\<open>k\<close> is whatever argument the
  operation has) or raises; neither reorders, drops or duplicates.
\<close>

locale bounded_fifo =
  fixes inv :: "'q \<Rightarrow> bool"
    and items :: "'q \<Rightarrow> 'e list"
    and capacity :: "'q \<Rightarrow> nat"
    and put :: "'e \<Rightarrow> 'q \<Rightarrow> 'q result"
    and get :: "'k \<Rightarrow> 'q \<Rightarrow> ('e list \<times> 'q) result"
  assumes put_law: "inv q \<Longrightarrow> put x q = Inr q' \<Longrightarrow>
        inv q' \<and> items q' = items q @ [x] \<and> capacity q' = capacity q"
    and get_law: "inv q \<Longrightarrow> get k q = Inr (xs, q') \<Longrightarrow>
        inv q' \<and> items q = xs @ items q' \<and> capacity q' = capacity q"
    and bounded: "inv q \<Longrightarrow> length (items q) \<le> capacity q"
begin

text \<open>A history: puts (\<open>Inl\<close>) and gets (\<open>Inr\<close>) in any order; a raising call changes nothing.
  The second component collects what was accepted, the third what was delivered.\<close>

definition step :: "'q \<times> 'e list \<times> 'e list \<Rightarrow> 'e + 'k \<Rightarrow> 'q \<times> 'e list \<times> 'e list" where
  "step = (\<lambda>(q, ins, outs) a. case a of
      Inl x \<Rightarrow> (case put x q of Inl _ \<Rightarrow> (q, ins, outs) | Inr q' \<Rightarrow> (q', ins @ [x], outs))
    | Inr k \<Rightarrow> (case get k q of Inl _ \<Rightarrow> (q, ins, outs) | Inr (xs, q') \<Rightarrow> (q', ins, outs @ xs)))"

lemma step_keeps:
  assumes "inv q" "ins = outs @ items q" "step (q, ins, outs) a = (q', ins', outs')"
  shows "inv q' \<and> ins' = outs' @ items q' \<and> capacity q' = capacity q"
proof (cases a)
  case (Inl x)
  then show ?thesis using assms put_law [of q x] by (auto simp: step_def split: sum.splits)
next
  case (Inr k)
  then show ?thesis using assms get_law [of q k] by (auto simp: step_def split: sum.splits)
qed

lemma history:
  assumes "inv q" "ins = outs @ items q" "foldl step (q, ins, outs) as = (q', ins', outs')"
  shows "inv q' \<and> ins' = outs' @ items q' \<and> capacity q' = capacity q \<and> length (items q') \<le> capacity q"
  using assms
proof (induction "as" arbitrary: q ins outs)
  case Nil
  then show ?case using bounded by auto
next
  case (Cons a "as")
  obtain q1 ins1 outs1 where s: "step (q, ins, outs) a = (q1, ins1, outs1)" by (metis prod.exhaust)
  with step_keeps [OF Cons.prems(1,2) s] Cons.IH [of q1 ins1 outs1] Cons.prems(3) show ?case by simp
qed

end

end
