(* ===== verification/CommandRing.thy ===== *)
theory CommandRing
  imports CommandArena Wire ArrayRing
begin

text \<open>
  \<open>ipc/command_kinds.py\<close>, the \<open>CommandHeader\<close> of \<open>ipc/protocol.py\<close> and the single-producer
  single-consumer ring of \<open>ipc/command_ring.py\<close>, whose \<open>consume\<close> also reads and releases the
  payload in the arena. The ring interprets the bounded queue of \<open>ArrayRing\<close>.
\<close>

section \<open>Command kinds\<close>

datatype command_kind =
    WORK | DRAFT_BATCH | PREPARE_TARGET_BANK | RUN_TARGET_BATCH | TARGET_PREFILL_BATCH
  | PREPARE_DRAFT_BANK | RUN_DRAFT_BATCH

fun kind_int :: "command_kind \<Rightarrow> int" where
  "kind_int WORK = 7"
| "kind_int DRAFT_BATCH = 1"
| "kind_int PREPARE_TARGET_BANK = 2"
| "kind_int RUN_TARGET_BATCH = 3"
| "kind_int TARGET_PREFILL_BATCH = 4"
| "kind_int PREPARE_DRAFT_BANK = 5"
| "kind_int RUN_DRAFT_BATCH = 6"

text \<open>\<open>CommandKind(v)\<close> and \<open>validate_enum(CommandKind, v)\<close>: the member with that value.\<close>

definition kind_of_int :: "int \<Rightarrow> command_kind result" where
  "kind_of_int v =
     (if v = 1 then Inr DRAFT_BATCH else if v = 2 then Inr PREPARE_TARGET_BANK
      else if v = 3 then Inr RUN_TARGET_BATCH else if v = 4 then Inr TARGET_PREFILL_BATCH
      else if v = 5 then Inr PREPARE_DRAFT_BANK else if v = 6 then Inr RUN_DRAFT_BATCH
      else if v = 7 then Inr WORK else Inl (ValueError ''unknown CommandKind''))"

lemma kind_int_inject: "kind_int k = kind_int k' \<longleftrightarrow> k = k'"
  by (cases k; cases k'; simp)

lemma kind_of_kind_int [simp]: "kind_of_int (kind_int k) = Inr k"
  by (cases k) (simp_all add: kind_of_int_def)

lemma kind_int_bounds: "1 \<le> kind_int k" "kind_int k \<le> 7"
  by (cases k; simp)+

lemma kind_int_valid [simp]: "is_valid U32 (kind_int k)"
  using kind_int_bounds [of k] by simp

text \<open>An \<open>IntEnum\<close> is ordered by its values.\<close>

instantiation command_kind :: linorder
begin

definition less_eq_command_kind :: "command_kind \<Rightarrow> command_kind \<Rightarrow> bool" where
  "less_eq_command_kind k k' \<longleftrightarrow> kind_int k \<le> kind_int k'"

definition less_command_kind :: "command_kind \<Rightarrow> command_kind \<Rightarrow> bool" where
  "less_command_kind k k' \<longleftrightarrow> kind_int k < kind_int k'"

instance
  by standard (auto simp: less_eq_command_kind_def less_command_kind_def kind_int_inject)

end

section \<open>Headers\<close>

record command_header =
  ch_command_seq :: int
  ch_worker_generation :: int
  ch_command_kind :: command_kind
  ch_payload_offset :: int
  ch_payload_length :: int
  ch_flags :: int

definition check_header :: "command_header \<Rightarrow> unit result" where
  "check_header h = checks
     [check_id COMMAND_SEQ (ch_command_seq h), check_id WORKER_GENERATION (ch_worker_generation h),
      check_id ARENA_OFFSET (ch_payload_offset h), check_id ARENA_LENGTH (ch_payload_length h),
      check_id U32 (ch_flags h)]"

definition mk_header :: "int \<Rightarrow> int \<Rightarrow> command_kind \<Rightarrow> int \<Rightarrow> int \<Rightarrow> int \<Rightarrow> command_header result" where
  "mk_header seq gen kind off len flags =
     (let h = \<lparr>ch_command_seq = seq, ch_worker_generation = gen, ch_command_kind = kind,
               ch_payload_offset = off, ch_payload_length = len, ch_flags = flags\<rparr>
      in bind_r (check_header h) (\<lambda>_. Inr h))"

definition header_ok :: "command_header \<Rightarrow> bool" where
  "header_ok h \<longleftrightarrow> check_header h = Inr ()"

text \<open>The \<open>struct\<close> format \<open><QQIQII\<close>: 36 bytes.\<close>

definition header_to_bytes :: "command_header \<Rightarrow> bytes result" where
  "header_to_bytes h = concat_r
     [pack_uint 8 (ch_command_seq h), pack_uint 8 (ch_worker_generation h),
      pack_uint 4 (kind_int (ch_command_kind h)), pack_uint 8 (ch_payload_offset h),
      pack_uint 4 (ch_payload_length h), pack_uint 4 (ch_flags h)]"

definition header_from_bytes :: "bytes \<Rightarrow> command_header result" where
  "header_from_bytes raw =
     bind_r (require (length raw = 36) (ValueError ''command header must be 36 bytes'')) (\<lambda>_.
     bind_r (rd_u64 (new_reader raw)) (\<lambda>(seq, r). bind_r (rd_u64 r) (\<lambda>(gen, r). bind_r (rd_u32 r) (\<lambda>(kind, r).
     bind_r (rd_u64 r) (\<lambda>(off, r). bind_r (rd_u32 r) (\<lambda>(len, r). bind_r (rd_u32 r) (\<lambda>(flags, r).
     bind_r (kind_of_int kind) (\<lambda>k. mk_header seq gen k off len flags))))))))"

definition header_payload_handle :: "command_header \<Rightarrow> int \<Rightarrow> arena_handle result" where
  "header_payload_handle h gen = mk_handle (ch_payload_offset h) (ch_payload_length h) gen"

section \<open>The ring\<close>

record command_ring =
  cr_ring :: "command_header ring"
  cr_last_produced :: "int option"
  cr_last_consumed :: "int option"
  cr_producer_closed :: bool

record command_envelope =
  env_header :: command_header
  env_payload :: bytes

definition new_command_ring :: "int \<Rightarrow> command_ring result" where
  "new_command_ring capacity =
     bind_r (require (capacity > 0) (ValueError ''capacity must be positive'')) (\<lambda>_.
       Inr \<lparr>cr_ring = new_ring (nat capacity), cr_last_produced = None, cr_last_consumed = None,
            cr_producer_closed = False\<rparr>)"

definition can_push :: "command_ring \<Rightarrow> bool" where
  "can_push r \<longleftrightarrow> rg_size (cr_ring r) < ring_capacity (cr_ring r)"

definition ring_is_empty :: "command_ring \<Rightarrow> bool" where
  "ring_is_empty r \<longleftrightarrow> rg_size (cr_ring r) = 0"

definition ring_is_full :: "command_ring \<Rightarrow> bool" where
  "ring_is_full r \<longleftrightarrow> rg_size (cr_ring r) = ring_capacity (cr_ring r)"

definition close_producer :: "command_ring \<Rightarrow> command_ring" where
  "close_producer r = r\<lparr>cr_producer_closed := True\<rparr>"

text \<open>\<open>last is not None and not COMMAND_SEQ.is_newer(seq, last)\<close> raises.\<close>

definition require_newer :: "int \<Rightarrow> int option \<Rightarrow> string \<Rightarrow> unit result" where
  "require_newer seq prev msg = (case prev of
       None \<Rightarrow> Inr ()
     | Some p \<Rightarrow> bind_r (is_newer COMMAND_SEQ seq p) (\<lambda>newer. require newer (ValueError msg)))"

definition ring_publish :: "command_header \<Rightarrow> command_ring \<Rightarrow> command_ring result" where
  "ring_publish h r =
     bind_r (require (\<not> cr_producer_closed r) (RuntimeError ''command ring producer is closed'')) (\<lambda>_.
     bind_r (require (\<not> ring_is_full r) (CommandBackpressure ''command ring is full'')) (\<lambda>_.
     bind_r (require_newer (ch_command_seq h) (cr_last_produced r) ''command_seq must increase monotonically'') (\<lambda>_.
       Inr (r\<lparr>cr_ring := ring_put h (cr_ring r), cr_last_produced := Some (ch_command_seq h)\<rparr>))))"

text \<open>The first half of \<open>consume\<close>: the checks and the removal of the header.\<close>

definition take_header :: "int \<Rightarrow> command_ring \<Rightarrow> (command_header option \<times> command_ring) result" where
  "take_header generation r =
     bind_r (check_id WORKER_GENERATION generation) (\<lambda>_.
     if rg_size (cr_ring r) = 0 then Inr (None, r)
     else (case ring_peek (cr_ring r) of
         None \<Rightarrow> Inl (RuntimeError ''command ring corruption'')
       | Some h \<Rightarrow>
           bind_r (require (ch_worker_generation h = generation)
                     (StaleWorkerGeneration ''command worker_generation does not match consumer'')) (\<lambda>_.
           bind_r (require_newer (ch_command_seq h) (cr_last_consumed r)
                     ''consumed command_seq must increase monotonically'') (\<lambda>_.
             Inr (Some h, r\<lparr>cr_ring := ring_drop (cr_ring r), cr_last_consumed := Some (ch_command_seq h)\<rparr>)))))"

text \<open>
  The whole of \<open>consume\<close> with what it leaves behind: a failing check leaves both as they were,
  a failing read has already removed the header.
\<close>

definition consume :: "int \<Rightarrow> command_ring \<Rightarrow> command_arena \<Rightarrow>
    command_envelope option result \<times> command_ring \<times> command_arena" where
  "consume generation r a = (case take_header generation r of
       Inl e \<Rightarrow> (Inl e, r, a)
     | Inr (None, r') \<Rightarrow> (Inr None, r', a)
     | Inr (Some h, r') \<Rightarrow>
         (case bind_r (header_payload_handle h (ca_generation a)) (read_arena a) of
            Inl e \<Rightarrow> (Inl e, r', a)
          | Inr payload \<Rightarrow>
              (case release_through a (ch_command_seq h) of
                 Inl e \<Rightarrow> (Inl e, r', a)
               | Inr a' \<Rightarrow> (Inr (Some \<lparr>env_header = h, env_payload = payload\<rparr>), r', a'))))"

section \<open>Invariant\<close>

text \<open>
  The headers in the ring continue the consumed sequence and end with the last one produced,
  each newer than the one before.
\<close>

definition pending_headers :: "command_ring \<Rightarrow> command_header list" where
  "pending_headers r = ring_items (cr_ring r)"

definition consumed_prefix :: "command_ring \<Rightarrow> int list" where
  "consumed_prefix r = (case cr_last_consumed r of None \<Rightarrow> [] | Some c \<Rightarrow> [c])"

definition ring_inv :: "command_ring \<Rightarrow> bool" where
  "ring_inv r \<longleftrightarrow> ring_wf (cr_ring r)
     \<and> (\<forall>s \<in> set (consumed_prefix r @ map ch_command_seq (pending_headers r)). is_valid U64 s)
     \<and> ascending (consumed_prefix r @ map ch_command_seq (pending_headers r))
     \<and> cr_last_produced r =
         (if consumed_prefix r @ map ch_command_seq (pending_headers r) = [] then None
          else Some (last (consumed_prefix r @ map ch_command_seq (pending_headers r))))"

lemma new_command_ring_inv:
  "new_command_ring n = Inr r \<Longrightarrow> ring_inv r \<and> pending_headers r = [] \<and> ring_capacity (cr_ring r) = nat n"
  using ring_wf_new [of "nat n"]
  by (auto simp: new_command_ring_def bind_r_eq_Inr ring_inv_def pending_headers_def consumed_prefix_def)

lemma require_newer_Inr:
  "require_newer s p msg = Inr u \<longleftrightarrow> (case p of None \<Rightarrow> True | Some q \<Rightarrow> newer_id U64 s q)"
  by (auto simp: require_newer_def newer_id_def bind_r_eq_Inr split: option.splits)

lemma publish_inv:
  assumes "ring_inv r" "ring_publish h r = Inr r'" "header_ok h"
  shows "ring_inv r' \<and> pending_headers r' = pending_headers r @ [h] \<and> ring_capacity (cr_ring r') = ring_capacity (cr_ring r)"
proof -
  have r': "r' = r\<lparr>cr_ring := ring_put h (cr_ring r), cr_last_produced := Some (ch_command_seq h)\<rparr>"
    and room: "rg_size (cr_ring r) \<noteq> ring_capacity (cr_ring r)"
    and newer: "case cr_last_produced r of None \<Rightarrow> True | Some q \<Rightarrow> newer_id U64 (ch_command_seq h) q"
    using assms(2) by (auto simp: ring_publish_def bind_r_eq_Inr ring_is_full_def require_newer_Inr)
  have wf: "ring_wf (ring_put h (cr_ring r))"
    and it: "ring_items (ring_put h (cr_ring r)) = ring_items (cr_ring r) @ [h]"
    using ring_wf_put [OF _ room, of h] assms(1) by (auto simp: ring_inv_def)
  let ?old = "consumed_prefix r @ map ch_command_seq (pending_headers r)"
  have new: "consumed_prefix r' @ map ch_command_seq (pending_headers r') = ?old @ [ch_command_seq h]"
    using it by (simp add: r' pending_headers_def consumed_prefix_def)
  have "is_valid U64 (ch_command_seq h)"
    using assms(3) by (simp add: header_ok_def check_header_def del: valid_U64 valid_U32)
  moreover have "ascending (?old @ [ch_command_seq h])"
    unfolding ascending_snoc using assms(1) newer by (auto simp: ring_inv_def split: if_splits)
  ultimately have "ring_inv r'"
    using assms(1) wf unfolding ring_inv_def new by (auto simp: r' simp del: valid_U64)
  then show ?thesis using it by (simp add: r' pending_headers_def)
qed

lemma take_header_some:
  assumes "ring_inv r" "pending_headers r = h # hs" "is_valid U64 gen" "ch_worker_generation h = gen"
  obtains r' where "take_header gen r = Inr (Some h, r')" "ring_inv r'" "pending_headers r' = hs"
    "ring_capacity (cr_ring r') = ring_capacity (cr_ring r)" "cr_last_consumed r' = Some (ch_command_seq h)"
proof -
  define r' where "r' = r\<lparr>cr_ring := ring_drop (cr_ring r), cr_last_consumed := Some (ch_command_seq h)\<rparr>"
  have size: "rg_size (cr_ring r) \<noteq> 0"
    using assms(1,2) ring_wf_size [of "cr_ring r"] by (auto simp: ring_inv_def pending_headers_def)
  obtain x where x: "ring_peek (cr_ring r) = Some x" "pending_headers r = x # ring_items (ring_drop (cr_ring r))"
    "ring_wf (ring_drop (cr_ring r))"
    using ring_wf_peek [of "cr_ring r"] size assms(1) unfolding ring_inv_def pending_headers_def by metis
  then have eq: "x = h" "ring_items (ring_drop (cr_ring r)) = hs" using assms(2) by simp_all
  have asc: "ascending (consumed_prefix r @ ch_command_seq h # map ch_command_seq hs)"
    using assms(1,2) by (simp add: ring_inv_def)
  then have newer: "require_newer (ch_command_seq h) (cr_last_consumed r) msg = Inr ()" for msg
    unfolding require_newer_Inr by (auto simp: consumed_prefix_def split: option.splits)
  have "ascending (ch_command_seq h # map ch_command_seq hs)"
    using asc by (auto simp: consumed_prefix_def split: option.splits)
  then have inv: "ring_inv r'"
    using assms(1,2) x(3) eq
    by (auto simp: ring_inv_def r'_def pending_headers_def consumed_prefix_def simp del: valid_U64)
  show ?thesis
    by (rule that [of r'])
      (use assms(3,4) x eq size newer inv in \<open>simp_all add: take_header_def r'_def pending_headers_def\<close>)
qed

lemma take_header_stale:
  assumes "ring_inv r" "pending_headers r = h # hs" "is_valid U64 gen" "ch_worker_generation h \<noteq> gen"
  shows "take_header gen r = Inl (StaleWorkerGeneration ''command worker_generation does not match consumer'')"
proof -
  have size: "rg_size (cr_ring r) \<noteq> 0"
    using assms(1,2) ring_wf_size [of "cr_ring r"] by (auto simp: ring_inv_def pending_headers_def)
  then obtain x where "ring_peek (cr_ring r) = Some x" "pending_headers r = x # ring_items (ring_drop (cr_ring r))"
    using ring_wf_peek [of "cr_ring r"] assms(1) unfolding ring_inv_def pending_headers_def by metis
  with assms size show ?thesis by (simp add: take_header_def)
qed

lemma take_header_empty:
  assumes "ring_inv r" "pending_headers r = []" "is_valid U64 gen"
  shows "take_header gen r = Inr (None, r)"
  using assms ring_wf_size [of "cr_ring r"] by (simp add: take_header_def ring_inv_def pending_headers_def)

text \<open>A take that returns took the head of the queue, or found it empty.\<close>

lemma take_header_Inr:
  assumes "ring_inv r" "take_header gen r = Inr (oh, r')"
  shows "ring_inv r' \<and> pending_headers r = (case oh of None \<Rightarrow> [] | Some h \<Rightarrow> [h]) @ pending_headers r'
     \<and> ring_capacity (cr_ring r') = ring_capacity (cr_ring r)"
proof -
  have gen: "is_valid U64 gen" using assms(2) by (auto simp: take_header_def bind_r_eq_Inr)
  show ?thesis
  proof (cases "pending_headers r")
    case Nil
    with take_header_empty [OF assms(1) Nil gen] assms show ?thesis by simp
  next
    case (Cons h hs)
    have "ch_worker_generation h = gen"
      using take_header_stale [OF assms(1) Cons gen] assms(2) by fastforce
    with take_header_some [OF assms(1) Cons gen] assms(2) Cons show ?thesis by fastforce
  qed
qed

section \<open>The ring is a bounded queue\<close>

definition put_header :: "command_header \<Rightarrow> command_ring \<Rightarrow> command_ring result" where
  "put_header h r = bind_r (check_header h) (\<lambda>_. ring_publish h r)"

definition get_headers :: "int \<Rightarrow> command_ring \<Rightarrow> (command_header list \<times> command_ring) result" where
  "get_headers gen r = bind_r (take_header gen r)
     (\<lambda>(oh, r'). Inr (case oh of None \<Rightarrow> [] | Some h \<Rightarrow> [h], r'))"

interpretation command_queue: bounded_fifo ring_inv pending_headers "ring_capacity \<circ> cr_ring" put_header get_headers
proof
  fix r r' h
  assume "ring_inv r" "put_header h r = Inr r'"
  then show "ring_inv r' \<and> pending_headers r' = pending_headers r @ [h] \<and> (ring_capacity \<circ> cr_ring) r' = (ring_capacity \<circ> cr_ring) r"
    using publish_inv [of r h r'] by (auto simp: put_header_def bind_r_eq_Inr header_ok_def)
next
  fix r r' gen hs
  assume "ring_inv r" "get_headers gen r = Inr (hs, r')"
  then show "ring_inv r' \<and> pending_headers r = hs @ pending_headers r' \<and> (ring_capacity \<circ> cr_ring) r' = (ring_capacity \<circ> cr_ring) r"
    using take_header_Inr by (auto simp: get_headers_def bind_r_eq_Inr)
next
  fix r
  assume "ring_inv r"
  then show "length (pending_headers r) \<le> (ring_capacity \<circ> cr_ring) r"
    using ring_wf_size [of "cr_ring r"] by (simp add: ring_inv_def pending_headers_def)
qed

section \<open>Header round trip\<close>

lemma header_bytes:
  "header_ok h \<Longrightarrow> header_to_bytes h = Inr
     (le_bytes 8 (ch_command_seq h) @ le_bytes 8 (ch_worker_generation h) @ le_bytes 4 (kind_int (ch_command_kind h))
      @ le_bytes 8 (ch_payload_offset h) @ le_bytes 4 (ch_payload_length h) @ le_bytes 4 (ch_flags h))"
  by (simp add: header_to_bytes_def header_ok_def check_header_def wire_simps del: wire_del)

lemma header_roundtrip:
  assumes "header_ok h" "header_to_bytes h = Inr bs"
  shows "header_from_bytes bs = Inr h" "length bs = 36"
proof -
  show len: "length bs = 36" using assms header_bytes by auto
  have "sees (new_reader bs) bs" by (rule sees_new_reader)
  with assms header_bytes [OF assms(1)] len show "header_from_bytes bs = Inr h"
    by (cases h) (auto simp: header_from_bytes_def header_ok_def check_header_def mk_header_def sees_append wire_simps
        simp del: wire_del)
qed

section \<open>Properties\<close>

text \<open>A header survives its 36-byte encoding: every valid header encodes, to exactly 36 bytes, and
  decoding them gives the same header back.\<close>

theorem command_header_roundtrip:
  assumes "check_header h = Inr ()"
  shows "\<exists>bs. header_to_bytes h = Inr bs \<and> length bs = 36 \<and> header_from_bytes bs = Inr h"
  using assms header_bytes header_roundtrip unfolding header_ok_def by metis

definition header_example :: command_header where
  "header_example = \<lparr>ch_command_seq = 9, ch_worker_generation = 3, ch_command_kind = RUN_DRAFT_BATCH,
     ch_payload_offset = 4096, ch_payload_length = 77, ch_flags = 0\<rparr>"

theorem command_header_roundtrip_witness:
  "\<exists>bs. header_to_bytes header_example = Inr bs \<and> length bs = 36 \<and> header_from_bytes bs = Inr header_example"
  by (rule command_header_roundtrip) code_simp

text \<open>In every history of publishes and consumes on a fresh ring, refused ones included, the accepted
  headers are the delivered ones followed by the ones still in the ring: nothing is lost, duplicated
  or reordered, and the ring never holds more than its capacity.\<close>

theorem command_ring_history:
  assumes "new_command_ring n = Inr r0"
    and "foldl command_queue.step (r0, [], []) history = (r, accepted, delivered)"
  shows "ring_inv r \<and> accepted = delivered @ pending_headers r \<and> length (pending_headers r) \<le> nat n"
  using command_queue.history [of r0 "[]" "[]" history r accepted delivered] assms new_command_ring_inv [OF assms(1)]
  by auto

theorem command_ring_history_witness:
  "\<exists>r0 r accepted delivered. new_command_ring 2 = Inr r0
     \<and> foldl command_queue.step (r0, [], [])
          [Inl header_example, Inl (header_example\<lparr>ch_command_seq := 8\<rparr>), Inr 3] = (r, accepted, delivered)
     \<and> accepted = delivered @ pending_headers r"
proof -
  obtain r0 where r0: "new_command_ring 2 = Inr r0" by (simp add: new_command_ring_def)
  obtain r accepted delivered where
    "foldl command_queue.step (r0, [], [])
      [Inl header_example, Inl (header_example\<lparr>ch_command_seq := 8\<rparr>), Inr 3] = (r, accepted, delivered)"
    by (metis prod.exhaust)
  with r0 command_ring_history [OF r0 this] show ?thesis by blast
qed

text \<open>Under the ring invariant, which every history keeps, the consumer side is decided by the head of
  the queue alone: an empty ring gives None, a head of another worker generation is refused and stays
  in the ring, any other head is delivered. The corruption check and the consumer's own order check
  never fire.\<close>

theorem take_header_decided:
  assumes "ring_inv r" "is_valid U64 gen"
  shows "(case pending_headers r of
       [] \<Rightarrow> take_header gen r = Inr (None, r)
     | h # hs \<Rightarrow>
         if ch_worker_generation h = gen
         then \<exists>r'. take_header gen r = Inr (Some h, r') \<and> ring_inv r' \<and> pending_headers r' = hs
         else take_header gen r = Inl (StaleWorkerGeneration ''command worker_generation does not match consumer''))"
proof (cases "pending_headers r")
  case Nil
  with take_header_empty assms show ?thesis by simp
next
  case (Cons h hs)
  then show ?thesis
    using take_header_some [OF assms(1) Cons assms(2)] take_header_stale [OF assms(1) Cons assms(2)]
    by (cases "ch_worker_generation h = gen") auto
qed

definition ring_example :: command_ring where
  "ring_example = projr (put_header header_example (projr (new_command_ring 2)))"

lemma ring_example_inv: "ring_inv ring_example \<and> pending_headers ring_example = [header_example]"
proof -
  have p: "put_header header_example (projr (new_command_ring 2)) = Inr ring_example"
    "check_header header_example = Inr ()"
    by code_simp+
  have n: "new_command_ring 2 = Inr (projr (new_command_ring 2))" by (simp add: new_command_ring_def)
  show ?thesis
    using command_queue.put_law [OF _ p(1)] new_command_ring_inv [OF n] by simp
qed

theorem take_header_decided_witness:
  "\<exists>r'. take_header 3 ring_example = Inr (Some header_example, r') \<and> ring_inv r' \<and> pending_headers r' = []"
proof -
  have "ch_worker_generation header_example = 3" by (simp add: header_example_def)
  then show ?thesis using take_header_decided [of ring_example 3] ring_example_inv by simp
qed

end
