(* ===== verification/DraftProtocol.thy ===== *)
theory DraftProtocol
  imports DraftContracts ProtocolRows CommandRing
begin

text \<open>
  \<open>ipc/draft_protocol.py\<close>: the Draft prepare and run batches, the initial bank reservation and
  \<open>DraftPreparedContract\<close>, the one-place protocol that a run must answer the pending prepare.
\<close>

definition check_bank_id :: "int \<Rightarrow> unit result" where
  "check_bank_id v = checks [check_id U32 v, require (v = 0 \<or> v = 1) (ValueError ''Draft requires bank 0 or 1'')]"

section \<open>Prepare rows\<close>

record draft_prepare_request =
  dp_source :: draft_snapshot_identity
  dp_snapshot_handle :: arena_handle
  dp_prepare_seq :: int
  dp_next_round_id :: int
  dp_next_owner_epoch :: int
  dp_destination_offset_blocks :: int
  dp_destination_capacity_blocks :: int
  dp_growth_token_budget :: int

definition prepare_required_blocks :: "draft_prepare_request \<Rightarrow> int" where
  "prepare_required_blocks x =
     (dsi_logical_kv_len (dp_source x) + dp_growth_token_budget x + dha_block_size (dsi_allocation (dp_source x)) - 1)
       div dha_block_size (dsi_allocation (dp_source x))"

definition check_next_id :: "int \<Rightarrow> int \<Rightarrow> string \<Rightarrow> unit result" where
  "check_next_id new old msg = bind_r (next_id U64 old) (\<lambda>n. require (new = n) (ValueError msg))"

definition check_draft_prepare_request :: "draft_prepare_request \<Rightarrow> unit result" where
  "check_draft_prepare_request x = checks
     [require_snapshot_handle (dp_snapshot_handle x),
      check_id U64 (dp_prepare_seq x), check_id U64 (dp_next_round_id x), check_id U64 (dp_next_owner_epoch x),
      check_id U32 (dp_destination_offset_blocks x), check_id U32 (dp_destination_capacity_blocks x),
      check_id U32 (dp_growth_token_budget x),
      check_next_id (dp_next_round_id x) (dsi_round_id (dp_source x)) ''prepare must name the round after snapshot'',
      check_next_id (dp_next_owner_epoch x) (dsi_owner_epoch (dp_source x))
        ''prepare must advance owner epoch exactly once'',
      require (prepare_required_blocks x \<le> dp_destination_capacity_blocks x)
        (ValueError ''Draft destination must reserve reconcile/proposal growth'')]"

definition draft_prepare_request_ok :: "draft_prepare_request \<Rightarrow> bool" where
  "draft_prepare_request_ok x \<longleftrightarrow> check_draft_prepare_request x = Inr ()
     \<and> draft_snapshot_identity_ok (dp_source x) \<and> handle_ok (dp_snapshot_handle x)"

definition enc_draft_prepare :: "draft_prepare_request \<Rightarrow> bytes result" where
  "enc_draft_prepare x = concat_r
     [identity_to_bytes (dp_source x), pack_handle (dp_snapshot_handle x), pack_uint 8 (dp_prepare_seq x),
      pack_uint 8 (dp_next_round_id x), pack_uint 8 (dp_next_owner_epoch x),
      pack_uint 4 (dp_destination_offset_blocks x), pack_uint 4 (dp_destination_capacity_blocks x),
      pack_uint 4 (dp_growth_token_budget x)]"

definition rd_draft_prepare :: "payload_reader \<Rightarrow> (draft_prepare_request \<times> payload_reader) result" where
  "rd_draft_prepare r =
     bind_r (rd_raw 120 r) (\<lambda>(raw, r). bind_r (identity_from_bytes raw) (\<lambda>source.
     bind_r (rd_handle r) (\<lambda>(handle, r). bind_r (rd_u64 r) (\<lambda>(seq, r). bind_r (rd_u64 r) (\<lambda>(round, r).
     bind_r (rd_u64 r) (\<lambda>(owner, r). bind_r (rd_u32 r) (\<lambda>(offset, r). bind_r (rd_u32 r) (\<lambda>(cap, r).
     bind_r (rd_u32 r) (\<lambda>(growth, r).
       let x = \<lparr>dp_source = source, dp_snapshot_handle = handle, dp_prepare_seq = seq,
                dp_next_round_id = round, dp_next_owner_epoch = owner, dp_destination_offset_blocks = offset,
                dp_destination_capacity_blocks = cap, dp_growth_token_budget = growth\<rparr>
       in bind_r (check_draft_prepare_request x) (\<lambda>_. Inr (x, r)))))))))))"

lemma rd_raw_sees: "sees r bs \<Longrightarrow> length bs = n \<Longrightarrow> rd_raw n r = Inr (bs, skip n r)"
  by (simp add: rd_raw_avail sees_peek_raw)

interpretation draft_prepare_request_codec: codec draft_prepare_request_ok enc_draft_prepare rd_draft_prepare
proof
  fix x :: draft_prepare_request and bs r
  assume ok: "draft_prepare_request_ok x"
  then have iok: "draft_snapshot_identity_ok (dp_source x)"
    by (simp add: draft_prepare_request_ok_def)
  then obtain ib where ib: "identity_to_bytes (dp_source x) = Inr ib"
    using draft_snapshot_identity_codec.encodes by blast
  note len = length_identity_bytes [OF ib]
  have src: "identity_from_bytes ib = Inr (dp_source x)" using identity_roundtrip [OF iok ib] .
  have raw: "sees r' ib \<Longrightarrow> rd_raw 120 r' = Inr (ib, skip 120 r')" for r' using rd_raw_sees [OF _ len] by simp
  from ok ib show "\<exists>bs. enc_draft_prepare x = Inr bs"
    by (auto simp: enc_draft_prepare_def draft_prepare_request_ok_def check_draft_prepare_request_def
        require_snapshot_handle_def wire_simps sees_append simp del: wire_del)
  show "enc_draft_prepare x = Inr bs \<Longrightarrow> sees r bs \<Longrightarrow> rd_draft_prepare r = Inr (x, skip (length bs) r)"
    using ok ib len src raw
    by (cases x) (auto simp: enc_draft_prepare_def rd_draft_prepare_def draft_prepare_request_ok_def
        check_draft_prepare_request_def require_snapshot_handle_def wire_simps sees_append Let_def simp del: wire_del)
qed

section \<open>Run rows\<close>

record draft_run_request =
  dr_request_slot :: int
  dr_request_epoch :: int
  dr_round_id :: int
  dr_run_seq :: int
  dr_owner_epoch :: int
  dr_snapshot_version :: int
  dr_scheduled_token_count :: int
  dr_token_delta_handle :: arena_handle

definition check_draft_run_request :: "draft_run_request \<Rightarrow> unit result" where
  "check_draft_run_request x = checks
     [check_id U32 (dr_request_slot x), check_id U32 (dr_scheduled_token_count x),
      check_id U64 (dr_request_epoch x), check_id U64 (dr_round_id x),
      check_id U64 (dr_run_seq x), check_id U64 (dr_owner_epoch x),
      check_id U64 (dr_snapshot_version x), require_handle (dr_token_delta_handle x),
      require (dr_scheduled_token_count x \<noteq> 0) (ValueError ''Draft run requires a positive token budget'')]"

definition draft_run_request_ok :: "draft_run_request \<Rightarrow> bool" where
  "draft_run_request_ok x \<longleftrightarrow> check_draft_run_request x = Inr ()
     \<and> handle_ok (dr_token_delta_handle x)"

definition enc_draft_run :: "draft_run_request \<Rightarrow> bytes result" where
  "enc_draft_run x = concat_r
     [pack_uint 4 (dr_request_slot x), pack_uint 8 (dr_request_epoch x),
      pack_uint 8 (dr_round_id x), pack_uint 8 (dr_run_seq x), pack_uint 8 (dr_owner_epoch x),
      pack_uint 8 (dr_snapshot_version x), pack_uint 4 (dr_scheduled_token_count x),
      pack_handle (dr_token_delta_handle x)]"

definition rd_draft_run :: "payload_reader \<Rightarrow> (draft_run_request \<times> payload_reader) result" where
  "rd_draft_run r =
     bind_r (rd_u32 r) (\<lambda>(v1, r). bind_r (rd_u64 r) (\<lambda>(v2, r). bind_r (rd_u64 r) (\<lambda>(v3, r).
     bind_r (rd_u64 r) (\<lambda>(v4, r). bind_r (rd_u64 r) (\<lambda>(v5, r). bind_r (rd_u64 r) (\<lambda>(v6, r).
     bind_r (rd_u32 r) (\<lambda>(v7, r). bind_r (rd_handle r) (\<lambda>(v8, r).
       let x = \<lparr>dr_request_slot = v1, dr_request_epoch = v2, dr_round_id = v3, dr_run_seq = v4,
               dr_owner_epoch = v5, dr_snapshot_version = v6, dr_scheduled_token_count = v7,
               dr_token_delta_handle = v8\<rparr>
       in bind_r (check_draft_run_request x) (\<lambda>_. Inr (x, r))))))))))"

interpretation draft_run_request_codec: codec draft_run_request_ok enc_draft_run rd_draft_run
proof
  fix x :: draft_run_request and bs r
  assume ok: "draft_run_request_ok x"
  then show "\<exists>bs. enc_draft_run x = Inr bs"
    by (auto simp: enc_draft_run_def draft_run_request_ok_def check_draft_run_request_def wire_simps sees_append simp del: wire_del)
  show "enc_draft_run x = Inr bs \<Longrightarrow> sees r bs \<Longrightarrow> rd_draft_run r = Inr (x, skip (length bs) r)"
    using ok by (cases x) (auto simp: enc_draft_run_def rd_draft_run_def draft_run_request_ok_def check_draft_run_request_def wire_simps sees_append Let_def
      simp del: wire_del)
qed

section \<open>Batches\<close>

record prepare_draft_bank_command =
  pd_worker_id :: int
  pd_worker_generation :: int
  pd_command_seq :: int
  pd_batch_seq :: int
  pd_standby_bank_id :: int
  pd_next_bank_epoch :: int
  pd_requests :: "draft_prepare_request list"

record run_draft_batch_command =
  rb_worker_id :: int
  rb_worker_generation :: int
  rb_command_seq :: int
  rb_expected_batch_seq :: int
  rb_active_bank_id :: int
  rb_active_bank_epoch :: int
  rb_requests :: "draft_run_request list"

definition prepare_slot :: "draft_prepare_request \<Rightarrow> int" where
  "prepare_slot p = dsi_request_slot (dp_source p)"

definition prepare_epoch :: "draft_prepare_request \<Rightarrow> int" where
  "prepare_epoch p = dsi_request_epoch (dp_source p)"

definition validate_batch :: "int \<Rightarrow> int \<Rightarrow> int \<Rightarrow> int list \<Rightarrow> unit result" where
  "validate_batch worker generation seq slots = checks
     [check_id U32 worker, check_id U64 generation, check_id U64 seq,
      require (slots \<noteq> []) (ValueError ''Draft batch requires immutable non-empty membership''),
      require (length (remdups slots) = length slots) (ValueError ''duplicate Draft request slot'')]"

text \<open>The loop over the destination ranges; the result is the total capacity.\<close>

fun prepare_ranges :: "int \<Rightarrow> draft_prepare_request list \<Rightarrow> int result" where
  "prepare_ranges offset [] = Inr offset"
| "prepare_ranges offset (row # rows) =
     bind_r (require (dp_destination_offset_blocks row = offset)
               (ValueError ''Draft prepare ranges must be contiguous in member order'')) (\<lambda>_.
       prepare_ranges (offset + dp_destination_capacity_blocks row) rows)"

definition check_prepare_draft_bank :: "prepare_draft_bank_command \<Rightarrow> unit result" where
  "check_prepare_draft_bank c = checks
     [validate_batch (pd_worker_id c) (pd_worker_generation c) (pd_command_seq c) (map prepare_slot (pd_requests c)),
      check_id U64 (pd_batch_seq c), check_id U64 (pd_next_bank_epoch c), check_bank_id (pd_standby_bank_id c),
      bind_r (prepare_ranges 0 (pd_requests c)) (check_id U32)]"

definition check_run_draft_batch :: "run_draft_batch_command \<Rightarrow> unit result" where
  "check_run_draft_batch c = checks
     [validate_batch (rb_worker_id c) (rb_worker_generation c) (rb_command_seq c) (map dr_request_slot (rb_requests c)),
      check_id U64 (rb_expected_batch_seq c), check_id U64 (rb_active_bank_epoch c), check_bank_id (rb_active_bank_id c)]"

definition prepare_draft_bank_ok :: "prepare_draft_bank_command \<Rightarrow> bool" where
  "prepare_draft_bank_ok c \<longleftrightarrow> check_prepare_draft_bank c = Inr ()
     \<and> (\<forall>p \<in> set (pd_requests c). draft_prepare_request_ok p)"

definition run_draft_batch_ok :: "run_draft_batch_command \<Rightarrow> bool" where
  "run_draft_batch_ok c \<longleftrightarrow> check_run_draft_batch c = Inr ()
     \<and> (\<forall>p \<in> set (rb_requests c). draft_run_request_ok p)"

definition enc_draft_batch :: "int \<Rightarrow> int \<Rightarrow> int \<Rightarrow> nat \<Rightarrow> bytes result list \<Rightarrow> bytes result" where
  "enc_draft_batch batch bank epoch count rows = concat_r
     [pack_uint 8 batch, pack_uint (Suc 0) bank, pack_uint 8 epoch, pack_uint 4 (int count), concat_r rows]"

definition encode_prepare_draft :: "prepare_draft_bank_command \<Rightarrow> bytes result" where
  "encode_prepare_draft c = enc_draft_batch (pd_batch_seq c) (pd_standby_bank_id c) (pd_next_bank_epoch c)
     (length (pd_requests c)) (map enc_draft_prepare (pd_requests c))"

definition encode_run_draft :: "run_draft_batch_command \<Rightarrow> bytes result" where
  "encode_run_draft c = enc_draft_batch (rb_expected_batch_seq c) (rb_active_bank_id c) (rb_active_bank_epoch c)
     (length (rb_requests c)) (map enc_draft_run (rb_requests c))"

definition rd_draft_batch ::
  "(payload_reader \<Rightarrow> ('a \<times> payload_reader) result) \<Rightarrow> payload_reader \<Rightarrow>
   ((int \<times> int \<times> int \<times> 'a list) \<times> payload_reader) result" where
  "rd_draft_batch rd r =
     bind_r (rd_u64 r) (\<lambda>(batch, r). bind_r (rd_u8 r) (\<lambda>(bank, r). bind_r (rd_u64 r) (\<lambda>(epoch, r).
     bind_r (rd_u32 r) (\<lambda>(count, r). bind_r (rd_list rd (nat count) r) (\<lambda>(rows, r).
       Inr ((batch, bank, epoch, rows), r))))))"

definition decode_prepare_draft :: "int \<Rightarrow> int \<Rightarrow> int \<Rightarrow> payload_reader \<Rightarrow>
    (prepare_draft_bank_command \<times> payload_reader) result" where
  "decode_prepare_draft worker generation seq r =
     bind_r (rd_draft_batch rd_draft_prepare r) (\<lambda>((batch, bank, epoch, rows), r).
       let c = \<lparr>pd_worker_id = worker, pd_worker_generation = generation, pd_command_seq = seq,
                pd_batch_seq = batch, pd_standby_bank_id = bank, pd_next_bank_epoch = epoch, pd_requests = rows\<rparr>
       in bind_r (check_prepare_draft_bank c) (\<lambda>_. Inr (c, r)))"

definition decode_run_draft :: "int \<Rightarrow> int \<Rightarrow> int \<Rightarrow> payload_reader \<Rightarrow>
    (run_draft_batch_command \<times> payload_reader) result" where
  "decode_run_draft worker generation seq r =
     bind_r (rd_draft_batch rd_draft_run r) (\<lambda>((batch, bank, epoch, rows), r).
       let c = \<lparr>rb_worker_id = worker, rb_worker_generation = generation, rb_command_seq = seq,
                rb_expected_batch_seq = batch, rb_active_bank_id = bank, rb_active_bank_epoch = epoch,
                rb_requests = rows\<rparr>
       in bind_r (check_run_draft_batch c) (\<lambda>_. Inr (c, r)))"

context codec
begin

lemma enc_draft_batch_some:
  assumes "\<forall>x \<in> set xs. ok x" "is_valid U64 batch" "is_valid U64 epoch" "bank = 0 \<or> bank = 1"
    and "is_valid U32 (int (length xs))"
  shows "\<exists>bs. enc_draft_batch batch bank epoch (length xs) (map enc xs) = Inr bs"
  using assms encodes_list [OF assms(1)]
  by (auto simp: enc_draft_batch_def wire_simps simp del: wire_del)

lemma rd_draft_batch_sees:
  assumes "\<forall>x \<in> set xs. ok x" "is_valid U64 batch" "is_valid U64 epoch" "bank = 0 \<or> bank = 1"
    and "is_valid U32 (int (length xs))"
    and e: "enc_draft_batch batch bank epoch (length xs) (map enc xs) = Inr bs" and s: "sees r bs"
  shows "rd_draft_batch dec r = Inr ((batch, bank, epoch, xs), skip (length bs) r)"
proof -
  obtain rows where rows: "concat_r (map enc xs) = Inr rows"
    using encodes_list [OF assms(1)] by blast
  have v: "is_valid U8 bank" using assms(4) by auto
  have bs: "bs = le_bytes 8 batch @ le_bytes (Suc 0) bank @ le_bytes 8 epoch @ le_bytes 4 (int (length xs)) @ rows"
    using e rows by (auto simp: enc_draft_batch_def wire_simps simp del: wire_del)
  with s assms v have "avail 8 r" "peek 8 r = batch" "avail 1 (skip 8 r)" "peek 1 (skip 8 r) = bank"
    "avail 8 (skip 9 r)" "peek 8 (skip 9 r) = epoch" "avail 4 (skip 17 r)" "peek 4 (skip 17 r) = int (length xs)"
    "sees (skip 21 r) rows"
    by (simp_all add: wire_simps sees_append del: wire_del)
  with decodes_list [OF assms(1) rows] bs show ?thesis
    by (simp add: rd_draft_batch_def wire_simps del: wire_del)
qed

end

lemma check_bank_id_ok: "check_bank_id v = Inr () \<longleftrightarrow> v = 0 \<or> v = 1"
  by (auto simp: check_bank_id_def)

lemma prepare_draft_roundtrip:
  assumes ok: "prepare_draft_bank_ok c" and n: "is_valid U32 (int (length (pd_requests c)))"
  shows "\<exists>bs. encode_prepare_draft c = Inr bs \<and> (\<forall>r. sees r bs \<longrightarrow>
     decode_prepare_draft (pd_worker_id c) (pd_worker_generation c) (pd_command_seq c) r = Inr (c, skip (length bs) r))"
proof -
  have rows: "\<forall>p \<in> set (pd_requests c). draft_prepare_request_ok p"
    and v: "is_valid U64 (pd_batch_seq c)" "is_valid U64 (pd_next_bank_epoch c)"
      "pd_standby_bank_id c = 0 \<or> pd_standby_bank_id c = 1"
    using ok by (simp_all add: prepare_draft_bank_ok_def check_prepare_draft_bank_def check_bank_id_ok
        del: valid_U64 valid_U32)
  from draft_prepare_request_codec.enc_draft_batch_some [OF rows v n] obtain bs where
    bs: "encode_prepare_draft c = Inr bs" by (auto simp: encode_prepare_draft_def)
  moreover have "decode_prepare_draft (pd_worker_id c) (pd_worker_generation c) (pd_command_seq c) r
      = Inr (c, skip (length bs) r)" if "sees r bs" for r
    using draft_prepare_request_codec.rd_draft_batch_sees [OF rows v n bs [unfolded encode_prepare_draft_def] that] ok
    by (cases c) (simp add: decode_prepare_draft_def prepare_draft_bank_ok_def del: checks_ok)
  ultimately show ?thesis by blast
qed

lemma run_draft_roundtrip:
  assumes ok: "run_draft_batch_ok c" and n: "is_valid U32 (int (length (rb_requests c)))"
  shows "\<exists>bs. encode_run_draft c = Inr bs \<and> (\<forall>r. sees r bs \<longrightarrow>
     decode_run_draft (rb_worker_id c) (rb_worker_generation c) (rb_command_seq c) r = Inr (c, skip (length bs) r))"
proof -
  have rows: "\<forall>p \<in> set (rb_requests c). draft_run_request_ok p"
    and v: "is_valid U64 (rb_expected_batch_seq c)" "is_valid U64 (rb_active_bank_epoch c)"
      "rb_active_bank_id c = 0 \<or> rb_active_bank_id c = 1"
    using ok by (simp_all add: run_draft_batch_ok_def check_run_draft_batch_def check_bank_id_ok
        del: valid_U64 valid_U32)
  from draft_run_request_codec.enc_draft_batch_some [OF rows v n] obtain bs where
    bs: "encode_run_draft c = Inr bs" by (auto simp: encode_run_draft_def)
  moreover have "decode_run_draft (rb_worker_id c) (rb_worker_generation c) (rb_command_seq c) r
      = Inr (c, skip (length bs) r)" if "sees r bs" for r
    using draft_run_request_codec.rd_draft_batch_sees [OF rows v n bs [unfolded encode_run_draft_def] that] ok
    by (cases c) (simp add: decode_run_draft_def run_draft_batch_ok_def del: checks_ok)
  ultimately show ?thesis by blast
qed

section \<open>A run answers its prepare\<close>

datatype draft_command = PrepareDraft prepare_draft_bank_command | RunDraft run_draft_batch_command

fun validate_members :: "draft_prepare_request list \<Rightarrow> draft_run_request list \<Rightarrow> unit result" where
  "validate_members (p # ps) (r # rs) =
     bind_r (require ((prepare_slot p, prepare_epoch p, dp_next_round_id p, dp_next_owner_epoch p,
                       dsi_snapshot_version (dp_source p)) =
                      (dr_request_slot r, dr_request_epoch r, dr_round_id r, dr_owner_epoch r, dr_snapshot_version r))
               (ValueError ''Draft run ordered member/owner/snapshot fence mismatch'')) (\<lambda>_.
     bind_r (is_newer OP_SEQ (dr_run_seq r) (dsi_op_seq (dp_source p))) (\<lambda>newer.
     bind_r (require newer (ValueError ''Draft run sequence must advance source compute sequence'')) (\<lambda>_.
       validate_members ps rs)))"
| "validate_members _ _ = Inr ()"

definition validate_prepared_run :: "prepare_draft_bank_command \<Rightarrow> run_draft_batch_command \<Rightarrow> unit result" where
  "validate_prepared_run p r =
     bind_r (require ((pd_worker_id p, pd_worker_generation p, pd_batch_seq p, pd_standby_bank_id p, pd_next_bank_epoch p) =
                      (rb_worker_id r, rb_worker_generation r, rb_expected_batch_seq r, rb_active_bank_id r,
                       rb_active_bank_epoch r))
               (ValueError ''Draft run Bank/batch/worker fence mismatch'')) (\<lambda>_.
     bind_r (require (length (pd_requests p) = length (rb_requests r)) (ValueError ''Draft run membership mismatch'')) (\<lambda>_.
       validate_members (pd_requests p) (rb_requests r)))"

text \<open>The state of a \<open>DraftPreparedContract\<close> is its \<open>pending\<close> command.\<close>

type_synonym draft_prepared = "prepare_draft_bank_command option"

fun accept :: "draft_prepared \<Rightarrow> draft_command \<Rightarrow> draft_prepared result" where
  "accept pending (PrepareDraft p) =
     bind_r (require (pending = None) (ValueError ''unconsumed Draft prepare cannot be overwritten'')) (\<lambda>_. Inr (Some p))"
| "accept None (RunDraft r) = Inl (ValueError ''Draft run requires an unconsumed prepare'')"
| "accept (Some p) (RunDraft r) = bind_r (validate_prepared_run p r) (\<lambda>_. Inr None)"

definition discard_prepare :: "draft_prepared \<Rightarrow> int \<Rightarrow> int \<Rightarrow> int \<Rightarrow> bool \<times> draft_prepared" where
  "discard_prepare pending bank epoch batch = (case pending of
       None \<Rightarrow> (False, None)
     | Some p \<Rightarrow> if (pd_standby_bank_id p, pd_next_bank_epoch p, pd_batch_seq p) = (bank, epoch, batch)
                 then (True, None) else (False, Some p))"

text \<open>What it means for a run to answer a prepare, member by member and in order.\<close>

definition member_answers :: "draft_prepare_request \<Rightarrow> draft_run_request \<Rightarrow> bool" where
  "member_answers p r \<longleftrightarrow>
     dr_request_slot r = prepare_slot p \<and> dr_request_epoch r = prepare_epoch p
     \<and> dr_round_id r = dp_next_round_id p \<and> dr_owner_epoch r = dp_next_owner_epoch p
     \<and> dr_snapshot_version r = dsi_snapshot_version (dp_source p)
     \<and> newer_id OP_SEQ (dr_run_seq r) (dsi_op_seq (dp_source p))"

definition answers :: "prepare_draft_bank_command \<Rightarrow> run_draft_batch_command \<Rightarrow> bool" where
  "answers p r \<longleftrightarrow>
     rb_worker_id r = pd_worker_id p \<and> rb_worker_generation r = pd_worker_generation p
     \<and> rb_expected_batch_seq r = pd_batch_seq p \<and> rb_active_bank_id r = pd_standby_bank_id p
     \<and> rb_active_bank_epoch r = pd_next_bank_epoch p
     \<and> list_all2 member_answers (pd_requests p) (rb_requests r)"

lemma validate_members_ok:
  "length ps = length rs \<Longrightarrow> validate_members ps rs = Inr u \<longleftrightarrow> list_all2 member_answers ps rs"
  by (induction ps rs rule: list_induct2)
    (auto simp: bind_r_eq_Inr member_answers_def newer_id_def)

lemma validate_prepared_run_ok: "validate_prepared_run p r = Inr u \<longleftrightarrow> answers p r"
  using validate_members_ok [of "pd_requests p" "rb_requests r" u]
  by (auto simp: validate_prepared_run_def answers_def bind_r_eq_Inr dest: list_all2_lengthD)

text \<open>
  A history of calls with the log of the calls that took effect; a raising call and a
  discard that returns False change nothing.
\<close>

datatype contract_op = Accept draft_command | Discard int int int
datatype contract_event = Prepared prepare_draft_bank_command | Ran run_draft_batch_command | Dropped prepare_draft_bank_command

fun event_of :: "draft_command \<Rightarrow> contract_event" where
  "event_of (PrepareDraft p) = Prepared p"
| "event_of (RunDraft r) = Ran r"

fun contract_step :: "draft_prepared \<times> contract_event list \<Rightarrow> contract_op \<Rightarrow> draft_prepared \<times> contract_event list" where
  "contract_step (pending, log) (Accept c) = (case accept pending c of
       Inl _ \<Rightarrow> (pending, log) | Inr pending' \<Rightarrow> (pending', log @ [event_of c]))"
| "contract_step (pending, log) (Discard bank epoch batch) = (case discard_prepare pending bank epoch batch of
       (done, pending') \<Rightarrow> (pending', if done then log @ [Dropped (the pending)] else log))"

definition last_prepared :: "contract_event list \<Rightarrow> draft_prepared" where
  "last_prepared log = (if log = [] then None else (case last log of Prepared p \<Rightarrow> Some p | _ \<Rightarrow> None))"

text \<open>Every event of the log fits the prepare, if any, that stands right before it.\<close>

definition event_fits :: "draft_prepared \<Rightarrow> contract_event \<Rightarrow> bool" where
  "event_fits before e = (case e of
       Prepared p \<Rightarrow> before = None
     | Ran r \<Rightarrow> (\<exists>p. before = Some p \<and> answers p r)
     | Dropped p \<Rightarrow> before = Some p)"

definition contract_log_ok :: "contract_event list \<Rightarrow> bool" where
  "contract_log_ok log \<longleftrightarrow> (\<forall>i < length log. event_fits (last_prepared (take i log)) (log ! i))"

lemma contract_log_snoc:
  "contract_log_ok (log @ [e]) \<longleftrightarrow> contract_log_ok log \<and> event_fits (last_prepared log) e"
  by (auto simp: contract_log_ok_def nth_append less_Suc_eq)

lemma last_prepared_simps [simp]:
  "last_prepared [] = None"
  "last_prepared (log @ [Prepared p]) = Some p"
  "last_prepared (log @ [Ran r]) = None"
  "last_prepared (log @ [Dropped p]) = None"
  by (simp_all add: last_prepared_def)

lemma contract_step_inv:
  assumes "contract_log_ok log" "pending = last_prepared log" "contract_step (pending, log) a = (pending', log')"
  shows "contract_log_ok log' \<and> pending' = last_prepared log'"
proof (cases a)
  case (Accept c)
  show ?thesis
  proof (cases "accept pending c")
    case (Inr q)
    then have "event_fits pending (event_of c) \<and> q = last_prepared (log @ [event_of c])"
      by (cases "(pending, c)" rule: accept.cases)
        (auto simp: bind_r_eq_Inr validate_prepared_run_ok event_fits_def)
    with Inr Accept assms show ?thesis by (auto simp: contract_log_snoc)
  qed (use Accept assms in auto)
next
  case (Discard bank epoch batch)
  with assms show ?thesis
    by (cases "last_prepared log")
      (auto simp: discard_prepare_def contract_log_snoc event_fits_def split: if_splits)
qed

lemma contract_history_inv:
  "contract_log_ok log \<Longrightarrow> pending = last_prepared log \<Longrightarrow>
   foldl contract_step (pending, log) ops = (pending', log') \<Longrightarrow> contract_log_ok log' \<and> pending' = last_prepared log'"
proof (induction ops arbitrary: pending log)
  case (Cons a ops)
  obtain p l where s: "contract_step (pending, log) a = (p, l)" by (metis prod.exhaust)
  from contract_step_inv [OF Cons.prems(1,2) s] Cons.prems(3) s show ?case
    by (intro Cons.IH [of l p]) auto
qed simp

section \<open>Properties\<close>

text \<open>C3: in every history of prepares, runs and discards, refused ones included, each run that is accepted
  answers the prepare accepted right before it: same worker, batch, bank and epochs, same members in
  the same order with a newer run sequence each. No prepare is overwritten, none is run twice, and a
  discarded prepare is never run.\<close>

theorem draft_runs_answer_prepares:
  assumes "foldl contract_step (None, []) ops = (pending, log)"
  shows "pending = last_prepared log
     \<and> (\<forall>i < length log. \<forall>r. log ! i = Ran r \<longrightarrow>
          0 < i \<and> (\<exists>p. log ! (i - 1) = Prepared p \<and> answers p r))
     \<and> (\<forall>i < length log. \<forall>p. log ! i = Prepared p \<longrightarrow> i = 0 \<or> (\<forall>q. log ! (i - 1) \<noteq> Prepared q))"
proof -
  have ok: "contract_log_ok log" and p: "pending = last_prepared log"
    using contract_history_inv [OF _ _ assms] by (simp_all add: contract_log_ok_def last_prepared_def)
  have fits: "event_fits (last_prepared (take i log)) (log ! i)" if "i < length log" for i
    using ok that by (simp add: contract_log_ok_def)
  have prev: "last_prepared (take i log) = (if i = 0 then None else case log ! (i - 1) of Prepared p \<Rightarrow> Some p | _ \<Rightarrow> None)"
    if "i < length log" for i
    using that by (cases i) (auto simp: last_prepared_def take_Suc_conv_app_nth)
  have "0 < i \<and> (\<exists>p. log ! (i - 1) = Prepared p \<and> answers p r)" if "i < length log" "log ! i = Ran r" for i r
    using fits [OF that(1)] prev [OF that(1)] that(2)
    by (cases "i = 0"; cases "log ! (i - 1)") (simp_all add: event_fits_def)
  moreover have "i = 0 \<or> (\<forall>q. log ! (i - 1) \<noteq> Prepared q)" if "i < length log" "log ! i = Prepared p" for i p
    using fits [OF that(1)] prev [OF that(1)] that(2)
    by (cases "i = 0"; cases "log ! (i - 1)") (simp_all add: event_fits_def)
  ultimately show ?thesis using p by blast
qed

definition identity_example :: draft_snapshot_identity where
  "identity_example = \<lparr>dsi_request_slot = 4, dsi_request_epoch = 1, dsi_round_id = 6, dsi_op_seq = 20,
     dsi_worker_id = 2, dsi_worker_generation = 3, dsi_owner_epoch = 5, dsi_snapshot_version = 9,
     dsi_logical_kv_len = 30, dsi_valid_blocks = 2,
     dsi_allocation = \<lparr>dha_arena_id = 0, dha_arena_generation = 1, dha_layout_id = 2, dha_host_slot_generation = 3,
       dha_writer_lease_generation = 4, dha_offset_blocks = 0, dha_host_slot = 7, dha_capacity_blocks = 4,
       dha_block_size = 16\<rparr>\<rparr>"

definition prepare_example :: prepare_draft_bank_command where
  "prepare_example = \<lparr>pd_worker_id = 2, pd_worker_generation = 3, pd_command_seq = 11, pd_batch_seq = 8,
     pd_standby_bank_id = 1, pd_next_bank_epoch = 12,
     pd_requests = [\<lparr>dp_source = identity_example,
       dp_snapshot_handle = \<lparr>h_offset = 0, h_length = 200, h_generation = 1\<rparr>, dp_prepare_seq = 21,
       dp_next_round_id = 7, dp_next_owner_epoch = 6, dp_destination_offset_blocks = 0,
       dp_destination_capacity_blocks = 3, dp_growth_token_budget = 4\<rparr>]\<rparr>"

definition run_example :: run_draft_batch_command where
  "run_example = \<lparr>rb_worker_id = 2, rb_worker_generation = 3, rb_command_seq = 12, rb_expected_batch_seq = 8,
     rb_active_bank_id = 1, rb_active_bank_epoch = 12,
     rb_requests = [\<lparr>dr_request_slot = 4, dr_request_epoch = 1, dr_round_id = 7, dr_run_seq = 22,
       dr_owner_epoch = 6, dr_snapshot_version = 9, dr_scheduled_token_count = 4,
       dr_token_delta_handle = \<lparr>h_offset = 0, h_length = 8, h_generation = 1\<rparr>\<rparr>]\<rparr>"

theorem draft_runs_answer_prepares_witness:
  "answers prepare_example run_example"
proof -
  let ?log = "[Prepared prepare_example, Ran run_example]"
  have "foldl contract_step (None, [])
      [Accept (RunDraft run_example), Accept (PrepareDraft prepare_example), Accept (PrepareDraft prepare_example),
       Accept (RunDraft run_example)] = (None, ?log)"
    by code_simp
  from draft_runs_answer_prepares [OF this] have
    "\<exists>p. ?log ! (1 - 1) = Prepared p \<and> answers p run_example"
    by (metis One_nat_def lessI length_Cons list.size(3) nth_Cons_0 nth_Cons_Suc)
  then show ?thesis by simp
qed

text \<open>A valid Draft prepare batch survives its wire encoding: it encodes, and decoding the bytes with the
  header's worker, generation and sequence gives the same command and consumes exactly those bytes.\<close>

theorem prepare_draft_wire_roundtrip:
  assumes "check_prepare_draft_bank c = Inr ()" "\<forall>p \<in> set (pd_requests c). draft_prepare_request_ok p"
    and "is_valid U32 (int (length (pd_requests c)))"
  shows "\<exists>bs. encode_prepare_draft c = Inr bs \<and>
     decode_prepare_draft (pd_worker_id c) (pd_worker_generation c) (pd_command_seq c) (new_reader bs)
       = Inr (c, skip (length bs) (new_reader bs))"
  using prepare_draft_roundtrip [of c] assms sees_new_reader by (auto simp: prepare_draft_bank_ok_def)

theorem prepare_draft_wire_roundtrip_witness:
  "\<exists>bs. encode_prepare_draft prepare_example = Inr bs \<and>
     decode_prepare_draft 2 3 11 (new_reader bs) = Inr (prepare_example, skip (length bs) (new_reader bs))"
proof -
  have ids: "pd_worker_id prepare_example = 2" "pd_worker_generation prepare_example = 3"
    "pd_command_seq prepare_example = 11" by (simp_all add: prepare_example_def)
  have "check_prepare_draft_bank prepare_example = Inr ()" by code_simp
  moreover have "\<forall>p \<in> set (pd_requests prepare_example). draft_prepare_request_ok p" by code_simp
  moreover have "is_valid U32 (int (length (pd_requests prepare_example)))" by code_simp
  ultimately show ?thesis using prepare_draft_wire_roundtrip [of prepare_example] unfolding ids by blast
qed

end
