(* ===== verification/WorkWire.thy ===== *)
theory WorkWire
  imports CommandRing
begin

text \<open>
  \<open>workers/work.py\<close>: the versioned WORK message, its structural rules and its fixed-stride wire
  format. The fields of \<open>Work\<close> and its rows are plain integers, so packing may raise; the decoder
  reads the same byte positions in order, which the byte count test makes equivalent to the
  \<open>unpack_from\<close> offsets of the code.
\<close>

section \<open>Enumerations\<close>

datatype work_kind = TARGET_PREFILL | DRAFT_INITIAL | TARGET_VERIFY | DRAFT_DECODE

fun work_kind_int :: "work_kind \<Rightarrow> int" where
  "work_kind_int TARGET_PREFILL = 1"
| "work_kind_int DRAFT_INITIAL = 2"
| "work_kind_int TARGET_VERIFY = 3"
| "work_kind_int DRAFT_DECODE = 4"

definition work_kind_of_int :: "int \<Rightarrow> work_kind result" where
  "work_kind_of_int v = (if v = 1 then Inr TARGET_PREFILL else if v = 2 then Inr DRAFT_INITIAL
     else if v = 3 then Inr TARGET_VERIFY else if v = 4 then Inr DRAFT_DECODE
     else Inl (ValueError ''not a valid WorkKind''))"

datatype selector = TARGET_HOST | DRAFT_HOST | PROPOSAL | DELTA | CLASSIFIED | TARGET_DECISION

fun selector_int :: "selector \<Rightarrow> int" where
  "selector_int TARGET_HOST = 1"
| "selector_int DRAFT_HOST = 2"
| "selector_int PROPOSAL = 3"
| "selector_int DELTA = 4"
| "selector_int CLASSIFIED = 5"
| "selector_int TARGET_DECISION = 6"

definition selector_of_int :: "int \<Rightarrow> selector result" where
  "selector_of_int v = (if v = 1 then Inr TARGET_HOST else if v = 2 then Inr DRAFT_HOST
     else if v = 3 then Inr PROPOSAL else if v = 4 then Inr DELTA else if v = 5 then Inr CLASSIFIED
     else if v = 6 then Inr TARGET_DECISION else Inl (ValueError ''not a valid Selector''))"

lemma work_kind_roundtrip [simp]: "work_kind_of_int (work_kind_int k) = Inr k"
  by (cases k) (simp_all add: work_kind_of_int_def)

lemma selector_roundtrip [simp]: "selector_of_int (selector_int s) = Inr s"
  by (cases s) (simp_all add: selector_of_int_def)

lemma selector_int_pos [simp]: "selector_int s \<noteq> 0"
  by (cases s) simp_all

section \<open>Rows and dependencies\<close>

record table_dependency =
  td_kind :: int
  td_slot :: int
  td_request_epoch :: int
  td_expected_ticket :: int
  td_selector :: selector

record row_work =
  rw_slot :: int
  rw_epoch :: int
  rw_round_id :: int
  rw_run_seq :: int
  rw_destination_offset :: int
  rw_capacity_blocks :: int
  rw_host_offset :: int
  rw_host_capacity :: int
  rw_host_arena :: int
  rw_host_generation :: int
  rw_host_slot :: int
  rw_writer_generation :: int
  rw_prompt :: arena_handle
  rw_config :: arena_handle
  rw_output :: arena_handle
  rw_token_budget :: int
  rw_max_new_tokens :: int
  rw_prompt_count :: int
  rw_source :: "table_dependency option"
  rw_predecessor :: "table_dependency option"
  rw_classified :: "table_dependency option"
  rw_owner_epoch :: "int option"
  rw_layout_id :: "int option"

definition enc_dependency :: "table_dependency \<Rightarrow> bytes result" where
  "enc_dependency d = concat_r
     [pack_uint 4 (td_kind d), pack_uint 4 (td_slot d), pack_uint 8 (td_request_epoch d),
      pack_uint 8 (td_expected_ticket d), pack_uint 4 (selector_int (td_selector d)), Inr (replicate 4 0)]"

definition enc_dependency_slot :: "table_dependency option \<Rightarrow> bytes result" where
  "enc_dependency_slot od = (case od of None \<Rightarrow> Inr (replicate 32 0) | Some d \<Rightarrow> enc_dependency d)"

definition enc_optional_id :: "int option \<Rightarrow> bytes result" where
  "enc_optional_id v = pack_uint 8 (case v of None \<Rightarrow> 2 ^ 64 - 1 | Some x \<Rightarrow> x)"

definition enc_row_work :: "row_work \<Rightarrow> bytes result" where
  "enc_row_work x = concat_r
     [pack_uint 4 (rw_slot x), pack_uint 8 (rw_epoch x), pack_uint 8 (rw_round_id x),
      pack_uint 8 (rw_run_seq x), pack_uint 4 (rw_destination_offset x),
      pack_uint 4 (rw_capacity_blocks x), pack_uint 8 (rw_host_offset x),
      pack_uint 8 (rw_host_capacity x), pack_uint 4 (rw_host_arena x),
      pack_uint 8 (rw_host_generation x), pack_uint 4 (rw_host_slot x),
      pack_uint 8 (rw_writer_generation x), pack_uint 8 (h_offset (rw_prompt x)),
      pack_uint 4 (h_length (rw_prompt x)), pack_uint 4 (h_generation (rw_prompt x)),
      pack_uint 8 (h_offset (rw_config x)), pack_uint 4 (h_length (rw_config x)),
      pack_uint 4 (h_generation (rw_config x)), pack_uint 8 (h_offset (rw_output x)),
      pack_uint 4 (h_length (rw_output x)), pack_uint 4 (h_generation (rw_output x)),
      pack_uint 4 (rw_token_budget x), pack_uint 4 (rw_max_new_tokens x),
      pack_uint 4 (rw_prompt_count x), enc_dependency_slot (rw_source x),
      enc_dependency_slot (rw_predecessor x), enc_dependency_slot (rw_classified x),
      enc_optional_id (rw_owner_epoch x), enc_optional_id (rw_layout_id x)]"

definition rd_dependency_slot :: "payload_reader \<Rightarrow> (table_dependency option \<times> payload_reader) result" where
  "rd_dependency_slot r =
     bind_r (rd_u32 r) (\<lambda>(kind, r). bind_r (rd_u32 r) (\<lambda>(slot, r). bind_r (rd_u64 r) (\<lambda>(epoch, r).
     bind_r (rd_u64 r) (\<lambda>(ticket, r). bind_r (rd_u32 r) (\<lambda>(sel, r). bind_r (rd_raw 4 r) (\<lambda>(_, r).
       if (kind, slot, epoch, ticket, sel) = (0, 0, 0, 0, 0) then Inr (None, r)
       else bind_r (selector_of_int sel) (\<lambda>s.
         Inr (Some \<lparr>td_kind = kind, td_slot = slot, td_request_epoch = epoch,
                    td_expected_ticket = ticket, td_selector = s\<rparr>, r))))))))"

definition rd_optional_id :: "payload_reader \<Rightarrow> (int option \<times> payload_reader) result" where
  "rd_optional_id r = bind_r (rd_u64 r) (\<lambda>(v, r). Inr (if v = 2 ^ 64 - 1 then None else Some v, r))"

definition rd_row_work :: "payload_reader \<Rightarrow> (row_work \<times> payload_reader) result" where
  "rd_row_work r =
     bind_r (rd_u32 r) (\<lambda>(slot', r). bind_r (rd_u64 r) (\<lambda>(epoch', r). bind_r (rd_u64 r) (\<lambda>(round_id', r).
     bind_r (rd_u64 r) (\<lambda>(run_seq', r). bind_r (rd_u32 r) (\<lambda>(destination_offset', r).
     bind_r (rd_u32 r) (\<lambda>(capacity_blocks', r). bind_r (rd_u64 r) (\<lambda>(host_offset', r).
     bind_r (rd_u64 r) (\<lambda>(host_capacity', r). bind_r (rd_u32 r) (\<lambda>(host_arena', r).
     bind_r (rd_u64 r) (\<lambda>(host_generation', r). bind_r (rd_u32 r) (\<lambda>(host_slot', r).
     bind_r (rd_u64 r) (\<lambda>(writer_generation', r). bind_r (rd_u64 r) (\<lambda>(prompt_o', r).
     bind_r (rd_u32 r) (\<lambda>(prompt_l', r). bind_r (rd_u32 r) (\<lambda>(prompt_g', r). bind_r (rd_u64 r) (\<lambda>(config_o', r).
     bind_r (rd_u32 r) (\<lambda>(config_l', r). bind_r (rd_u32 r) (\<lambda>(config_g', r). bind_r (rd_u64 r) (\<lambda>(output_o', r).
     bind_r (rd_u32 r) (\<lambda>(output_l', r). bind_r (rd_u32 r) (\<lambda>(output_g', r).
     bind_r (rd_u32 r) (\<lambda>(token_budget', r). bind_r (rd_u32 r) (\<lambda>(max_new_tokens', r).
     bind_r (rd_u32 r) (\<lambda>(prompt_count', r). bind_r (rd_dependency_slot r) (\<lambda>(source', r).
     bind_r (rd_dependency_slot r) (\<lambda>(predecessor', r). bind_r (rd_dependency_slot r) (\<lambda>(classified', r).
     bind_r (rd_optional_id r) (\<lambda>(owner_epoch', r). bind_r (rd_optional_id r) (\<lambda>(layout_id', r).
     bind_r (mk_handle prompt_o' prompt_l' prompt_g') (\<lambda>prompt'. bind_r (mk_handle config_o' config_l' config_g') (\<lambda>config'. bind_r (mk_handle output_o' output_l' output_g') (\<lambda>output'.
       Inr (\<lparr>rw_slot = slot', rw_epoch = epoch', rw_round_id = round_id', rw_run_seq = run_seq',
             rw_destination_offset = destination_offset', rw_capacity_blocks = capacity_blocks',
             rw_host_offset = host_offset', rw_host_capacity = host_capacity',
             rw_host_arena = host_arena', rw_host_generation = host_generation',
             rw_host_slot = host_slot', rw_writer_generation = writer_generation',
             rw_prompt = prompt', rw_config = config', rw_output = output',
             rw_token_budget = token_budget', rw_max_new_tokens = max_new_tokens',
             rw_prompt_count = prompt_count', rw_source = source',
             rw_predecessor = predecessor', rw_classified = classified',
             rw_owner_epoch = owner_epoch', rw_layout_id = layout_id'\<rparr>, r)))))))))))))))))))))))))))))))))"

section \<open>WORK\<close>

record work =
  wk_worker_id :: int
  wk_worker_generation :: int
  wk_work_seq :: int
  wk_operation :: work_kind
  wk_bank_id :: int
  wk_bank_epoch :: int
  wk_completion_offset :: int
  wk_result_bytes :: int
  wk_rows :: "row_work list"

definition is_draft_kind :: "work_kind \<Rightarrow> bool" where
  "is_draft_kind k \<longleftrightarrow> k = DRAFT_INITIAL \<or> k = DRAFT_DECODE"

definition opt_all :: "('a \<Rightarrow> bool) \<Rightarrow> 'a option \<Rightarrow> bool" where
  "opt_all P ov = (case ov of None \<Rightarrow> True | Some v \<Rightarrow> P v)"

definition opt_is :: "('a \<Rightarrow> bool) \<Rightarrow> 'a option \<Rightarrow> bool" where
  "opt_is P ov = (case ov of None \<Rightarrow> False | Some v \<Rightarrow> P v)"

text \<open>The Draft part of the loop body of \<open>Work.__post_init__\<close>, in the order of the code.\<close>

definition check_draft_row :: "work_kind \<Rightarrow> row_work \<Rightarrow> unit result" where
  "check_draft_row op r = checks
     [require (rw_owner_epoch r \<noteq> None \<and> rw_layout_id r \<noteq> None \<and> rw_predecessor r \<noteq> None)
        (ValueError ''Draft WORK requires explicit owner/layout and Target delta''),
      require (opt_is (\<lambda>d. td_selector d = DELTA) (rw_predecessor r)
               \<and> opt_is (\<lambda>d. td_selector d = CLASSIFIED \<or> td_selector d = TARGET_DECISION) (rw_classified r))
        (ValueError ''Draft requires Target delta and a completion decision''),
      require (opt_all (\<lambda>d. td_selector d = DRAFT_HOST) (rw_source r))
        (ValueError ''Draft source must be a Draft HOST_READY selector''),
      require (op = DRAFT_INITIAL \<longrightarrow> rw_source r = None) (ValueError ''Draft initial cannot import a source'')]"

definition check_work_row :: "work_kind \<Rightarrow> int \<Rightarrow> row_work \<Rightarrow> unit result" where
  "check_work_row op end r = checks
     [require (rw_destination_offset r = end \<and> rw_capacity_blocks r > 0)
        (ValueError ''WORK layout must be positive contiguous frozen ranges''),
      if is_draft_kind op then check_draft_row op r else Inr (),
      require (rw_capacity_blocks r \<le> rw_host_capacity r) (ValueError ''HostKV reservation smaller than layout''),
      require (\<forall>od \<in> set [rw_source r, rw_predecessor r, rw_classified r].
                 opt_all (\<lambda>d. (td_slot d, td_request_epoch d) = (rw_slot r, rw_epoch r)) od)
        (ValueError ''dependency request mismatch''),
      require (op \<noteq> TARGET_PREFILL \<longrightarrow> rw_classified r \<noteq> None) (ValueError ''compute requires a completion decision''),
      require (op = TARGET_VERIFY \<or> op = DRAFT_DECODE \<longrightarrow> rw_source r \<noteq> None)
        (ValueError ''continuation requires HostKV source'')]"

fun check_work_rows :: "work_kind \<Rightarrow> int \<Rightarrow> row_work list \<Rightarrow> unit result" where
  "check_work_rows op end [] = Inr ()"
| "check_work_rows op end (r # rs) =
     bind_r (check_work_row op end r) (\<lambda>_. check_work_rows op (end + rw_capacity_blocks r) rs)"

definition check_work :: "work \<Rightarrow> unit result" where
  "check_work w = checks
     [require ((wk_bank_id w = 0 \<or> wk_bank_id w = 1) \<and> 0 < length (wk_rows w) \<and> length (wk_rows w) \<le> 256)
        (ValueError ''WORK requires Bank 0/1 and 1..256 rows''),
      require (length (remdups (map rw_slot (wk_rows w))) = length (wk_rows w)) (ValueError ''duplicate WORK request''),
      check_work_rows (wk_operation w) 0 (wk_rows w),
      require (wk_result_bytes w > 0) (ValueError ''WORK requires pre-reserved result storage'')]"

text \<open>\<open>b'SDWO'\<close>, \<open>WORK_VERSION\<close> and \<open>ROW_BYTES\<close>.\<close>

definition work_magic :: bytes where "work_magic = [83, 68, 87, 79]"
definition work_version :: int where "work_version = 4"
definition row_bytes :: nat where "row_bytes = 248"
definition work_header_bytes :: nat where "work_header_bytes = 64"

definition work_to_bytes :: "work \<Rightarrow> bytes result" where
  "work_to_bytes w = concat_r
     [Inr work_magic, pack_uint 2 work_version, pack_uint 2 (work_kind_int (wk_operation w)),
      pack_uint 4 (wk_worker_id w), pack_uint 8 (wk_worker_generation w), pack_uint 8 (wk_work_seq w),
      pack_uint (Suc 0) (wk_bank_id w), Inr (replicate 7 0), pack_uint 8 (wk_bank_epoch w),
      pack_uint 8 (wk_completion_offset w), pack_uint 4 (wk_result_bytes w), pack_uint 4 (int (length (wk_rows w))),
      pack_uint 4 (int row_bytes), concat_r (map enc_row_work (wk_rows w))]"

definition work_from_bytes :: "bytes \<Rightarrow> work result" where
  "work_from_bytes raw =
     bind_r (require (work_header_bytes \<le> length raw) (ValueError ''truncated WORK'')) (\<lambda>_.
     bind_r (rd_raw 4 (new_reader raw)) (\<lambda>(magic, r). bind_r (rd_uint 2 r) (\<lambda>(version, r).
     bind_r (rd_uint 2 r) (\<lambda>(op, r). bind_r (rd_u32 r) (\<lambda>(wid, r). bind_r (rd_u64 r) (\<lambda>(gen, r).
     bind_r (rd_u64 r) (\<lambda>(seq, r). bind_r (rd_u8 r) (\<lambda>(bank, r). bind_r (rd_raw 7 r) (\<lambda>(_, r).
     bind_r (rd_u64 r) (\<lambda>(epoch, r). bind_r (rd_u64 r) (\<lambda>(completion, r). bind_r (rd_u32 r) (\<lambda>(budget, r).
     bind_r (rd_u32 r) (\<lambda>(count, r). bind_r (rd_u32 r) (\<lambda>(stride, r).
     bind_r (require (magic = work_magic \<and> version = work_version \<and> stride = int row_bytes)
               (ValueError ''unsupported WORK ABI'')) (\<lambda>_.
     bind_r (require (0 < count \<and> count \<le> 256 \<and> int (length raw) = int work_header_bytes + count * stride)
               (ValueError ''invalid WORK byte count'')) (\<lambda>_.
     bind_r (rd_list rd_row_work (nat count) r) (\<lambda>(rows, r).
     bind_r (work_kind_of_int op) (\<lambda>kind.
       let w = \<lparr>wk_worker_id = wid, wk_worker_generation = gen, wk_work_seq = seq, wk_operation = kind,
                wk_bank_id = bank, wk_bank_epoch = epoch, wk_completion_offset = completion,
                wk_result_bytes = budget, wk_rows = rows\<rparr>
       in bind_r (check_work w) (\<lambda>_. Inr w)))))))))))))))))))"

section \<open>Round trip\<close>

lemma rd_any [wire_simps]: "avail n r \<Longrightarrow> rd_uint n r = Inr (peek n r, skip n r)"
  by (simp add: rd_uint_def rd_require_def avail_def)

lemma sees_pack: "pack_uint n v = Inr bs \<Longrightarrow> sees r bs \<longleftrightarrow> avail n r \<and> peek n r = v"
  using sees_le_bytes by (auto simp: wire_simps)

lemma pack_length: "pack_uint n v = Inr bs \<Longrightarrow> length bs = n"
  by (auto simp: wire_simps)

lemma rd_raw_sees_any: "sees r bs \<Longrightarrow> n = length bs \<Longrightarrow> rd_raw n r = Inr (bs, skip n r)"
  by (simp add: rd_raw_avail sees_peek_raw)

text \<open>A slot of a row is fine when it packs; an empty one reads as zeros.\<close>

definition dependency_ok :: "table_dependency option \<Rightarrow> bool" where
  "dependency_ok od \<longleftrightarrow> returns (enc_dependency_slot od)"

interpretation dependency_codec: codec dependency_ok enc_dependency_slot rd_dependency_slot
proof
  fix od bs r
  show "dependency_ok od \<Longrightarrow> \<exists>bs. enc_dependency_slot od = Inr bs" by (simp add: dependency_ok_def)
  assume e: "enc_dependency_slot od = Inr bs" and s: "sees r bs"
  show "rd_dependency_slot r = Inr (od, skip (length bs) r)"
  proof (cases od)
    case None
    have z: "replicate 32 (0::byte) = le_bytes 4 0 @ le_bytes 4 0 @ le_bytes 8 0 @ le_bytes 8 0 @ le_bytes 4 0 @ replicate 4 0"
      by code_simp
    have *: "sees r (le_bytes n 0) \<longleftrightarrow> avail n r \<and> peek n r = 0" for n r by (simp add: sees_le_bytes)
    from e None have bs: "bs = replicate 32 0" by (simp add: enc_dependency_slot_def)
    have p: "sees (skip 28 r) (replicate 4 0)" "avail 4 r" "peek 4 r = 0" "avail 4 (skip 4 r)" "peek 4 (skip 4 r) = 0"
      "avail 8 (skip 8 r)" "peek 8 (skip 8 r) = 0" "avail 8 (skip 16 r)" "peek 8 (skip 16 r) = 0"
      "avail 4 (skip 24 r)" "peek 4 (skip 24 r) = 0"
      using s unfolding bs z by (simp_all add: sees_append *)
    then show ?thesis using None bs
      by (simp add: rd_dependency_slot_def wire_simps rd_raw_sees_any [OF p(1)])
  next
    case (Some d)
    then obtain b1 b2 b3 b4 b5 where b: "pack_uint 4 (td_kind d) = Inr b1" "pack_uint 4 (td_slot d) = Inr b2"
      "pack_uint 8 (td_request_epoch d) = Inr b3" "pack_uint 8 (td_expected_ticket d) = Inr b4"
      "pack_uint 4 (selector_int (td_selector d)) = Inr b5" "bs = b1 @ b2 @ b3 @ b4 @ b5 @ replicate 4 0"
      using e by (auto simp: enc_dependency_slot_def enc_dependency_def concat_r_Inr simp del: concat_r.simps)
    have p: "sees (skip 28 r) (replicate 4 0)" "avail 4 r" "peek 4 r = td_kind d"
      "avail 4 (skip 4 r)" "peek 4 (skip 4 r) = td_slot d"
      "avail 8 (skip 8 r)" "peek 8 (skip 8 r) = td_request_epoch d" "avail 8 (skip 16 r)"
      "peek 8 (skip 16 r) = td_expected_ticket d"
      "avail 4 (skip 24 r)" "peek 4 (skip 24 r) = selector_int (td_selector d)"
      using s unfolding b(6) by (simp_all add: sees_append sees_pack [OF b(1)] sees_pack [OF b(2)] sees_pack [OF b(3)]
        sees_pack [OF b(4)] sees_pack [OF b(5)] pack_length [OF b(1)] pack_length [OF b(2)] pack_length [OF b(3)]
        pack_length [OF b(4)] pack_length [OF b(5)])
    then show ?thesis using Some b(6)
      by (simp add: rd_dependency_slot_def wire_simps rd_raw_sees_any [OF p(1)] pack_length [OF b(1)] pack_length [OF b(2)]
        pack_length [OF b(3)] pack_length [OF b(4)] pack_length [OF b(5)])
  qed
qed

lemma length_dependency: "enc_dependency_slot od = Inr bs \<Longrightarrow> length bs = 32"
  by (cases od) (auto simp: enc_dependency_slot_def enc_dependency_def wire_simps simp del: wire_del)

definition optional_ok :: "int option \<Rightarrow> bool" where
  "optional_ok v \<longleftrightarrow> opt_all (\<lambda>x. 0 \<le> x \<and> x < 2 ^ 64 - 1) v"

interpretation optional_codec: codec optional_ok enc_optional_id rd_optional_id
proof
  fix v bs r
  assume ok: "optional_ok v"
  then show "\<exists>bs. enc_optional_id v = Inr bs"
    by (cases v) (simp_all add: optional_ok_def opt_all_def enc_optional_id_def pack_uint_def)
  assume e: "enc_optional_id v = Inr bs" and s: "sees r bs"
  from e have p: "pack_uint 8 (case v of None \<Rightarrow> 2 ^ 64 - 1 | Some x \<Rightarrow> x) = Inr bs" by (simp add: enc_optional_id_def)
  with s ok show "rd_optional_id r = Inr (v, skip (length bs) r)"
    by (cases v) (auto simp: sees_pack [OF p] pack_length [OF p] rd_optional_id_def wire_simps optional_ok_def opt_all_def)
qed

lemma length_optional: "enc_optional_id v = Inr bs \<Longrightarrow> length bs = 8"
  by (auto simp: enc_optional_id_def dest: pack_length)

text \<open>A row is fine when its fields fit the format and no optional id is the all-ones sentinel.\<close>

definition row_work_ok :: "row_work \<Rightarrow> bool" where
  "row_work_ok x \<longleftrightarrow> handle_ok (rw_prompt x) \<and> handle_ok (rw_config x) \<and> handle_ok (rw_output x)
     \<and> optional_ok (rw_owner_epoch x) \<and> optional_ok (rw_layout_id x) \<and> returns (enc_row_work x)"

lemma pack_handle_fields [simp]:
  "handle_ok h \<Longrightarrow> pack_uint 8 (h_offset h) = Inr (le_bytes 8 (h_offset h))"
  "handle_ok h \<Longrightarrow> pack_uint 4 (h_length h) = Inr (le_bytes 4 (h_length h))"
  "handle_ok h \<Longrightarrow> pack_uint 4 (h_generation h) = Inr (le_bytes 4 (h_generation h))"
  by (simp_all add: handle_ok_iff pack_uint_def)

lemma sees_handle_fields:
  assumes "handle_ok h"
  shows "sees r (le_bytes 8 (h_offset h)) \<longleftrightarrow> avail 8 r \<and> peek 8 r = h_offset h"
    "sees r (le_bytes 4 (h_length h)) \<longleftrightarrow> avail 4 r \<and> peek 4 r = h_length h"
    "sees r (le_bytes 4 (h_generation h)) \<longleftrightarrow> avail 4 r \<and> peek 4 r = h_generation h"
  using assms by (simp_all add: handle_ok_iff sees_le_bytes)

lemma mk_handle_fields [simp]: "handle_ok h \<Longrightarrow> mk_handle (h_offset h) (h_length h) (h_generation h) = Inr h"
  by (cases h) (simp add: mk_handle_def)

lemma length_row_work: "enc_row_work x = Inr bs \<Longrightarrow> length bs = row_bytes"
  by (auto simp: enc_row_work_def wire_simps row_bytes_def length_dependency length_optional simp del: wire_del)

lemma rd_slot_sees:
  assumes "enc_dependency_slot d = Inr b" shows "sees r b \<Longrightarrow> rd_dependency_slot r = Inr (d, skip 32 r)"
  using dependency_codec.decodes [of d b r] assms length_dependency [OF assms] by (auto simp: dependency_ok_def)

lemma rd_optional_sees:
  assumes "optional_ok v" "enc_optional_id v = Inr b" shows "sees r b \<Longrightarrow> rd_optional_id r = Inr (v, skip 8 r)"
  using optional_codec.decodes [OF assms] length_optional [OF assms(2)] by simp

interpretation row_work_codec: codec row_work_ok enc_row_work rd_row_work
proof
  fix x bs r
  assume ok: "row_work_ok x"
  then show "\<exists>bs. enc_row_work x = Inr bs" by (simp add: row_work_ok_def)
  assume e: "enc_row_work x = Inr bs" and s: "sees r bs"
  obtain b1 b2 b3 b4 b5 where
    d: "enc_dependency_slot (rw_source x) = Inr b1" "enc_dependency_slot (rw_predecessor x) = Inr b2"
      "enc_dependency_slot (rw_classified x) = Inr b3"
    and v: "enc_optional_id (rw_owner_epoch x) = Inr b4" "enc_optional_id (rw_layout_id x) = Inr b5"
    using e unfolding enc_row_work_def by (auto simp: concat_r_Inr simp del: concat_r.simps)
  have o: "optional_ok (rw_owner_epoch x)" "optional_ok (rw_layout_id x)" and
    h: "handle_ok (rw_prompt x)" "handle_ok (rw_config x)" "handle_ok (rw_output x)"
    using ok by (simp_all add: row_work_ok_def)
  note rd = d [THEN rd_slot_sees] rd_optional_sees [OF o(1) v(1)] rd_optional_sees [OF o(2) v(2)]
  note len = d [THEN length_dependency] v [THEN length_optional]
  from e s d v h rd len show "rd_row_work r = Inr (x, skip (length bs) r)"
    by (cases x) (auto simp: enc_row_work_def rd_row_work_def concat_r_Inr sees_append sees_handle_fields wire_simps
        sees_le_bytes simp del: wire_del)
qed

lemma length_rows: "\<forall>x \<in> set xs. row_work_ok x \<Longrightarrow> concat_r (map enc_row_work xs) = Inr bs \<Longrightarrow> length bs = length xs * row_bytes"
  by (induction xs arbitrary: bs) (auto simp: concat_r_Inr length_row_work simp del: concat_r.simps(2))

lemma length_work_magic [simp]: "length work_magic = 4"
  by (simp add: work_magic_def)

lemma work_roundtrip:
  assumes ok: "check_work w = Inr ()" and rows: "\<forall>x \<in> set (wk_rows w). row_work_ok x"
    and e: "work_to_bytes w = Inr bs"
  shows "work_from_bytes bs = Inr w" "length bs = work_header_bytes + length (wk_rows w) * row_bytes"
proof -
  let ?n = "length (wk_rows w)"
  have n: "0 < ?n" "?n \<le> 256" using ok by (simp_all add: check_work_def)
  obtain rb where rb: "concat_r (map enc_row_work (wk_rows w)) = Inr rb"
    using row_work_codec.encodes_list [OF rows] by blast
  have lrb: "length rb = ?n * row_bytes" using length_rows [OF rows rb] .
  have c: "pack_uint 4 (int ?n) = Inr (le_bytes 4 (int ?n))" using n by (simp add: pack_uint_def)
  have kb: "0 \<le> work_kind_int (wk_operation w)" "work_kind_int (wk_operation w) < 256 ^ 2"
    by (cases "wk_operation w"; simp)+
  have bs: "bs = work_magic @ le_bytes 2 work_version @ le_bytes 2 (work_kind_int (wk_operation w))
      @ le_bytes 4 (wk_worker_id w) @ le_bytes 8 (wk_worker_generation w) @ le_bytes 8 (wk_work_seq w)
      @ le_bytes (Suc 0) (wk_bank_id w) @ replicate 7 0 @ le_bytes 8 (wk_bank_epoch w) @ le_bytes 8 (wk_completion_offset w)
      @ le_bytes 4 (wk_result_bytes w) @ le_bytes 4 (int ?n) @ le_bytes 4 (int row_bytes) @ rb"
    and fits: "0 \<le> wk_worker_id w" "wk_worker_id w < 256 ^ 4" "0 \<le> wk_worker_generation w" "wk_worker_generation w < 256 ^ 8"
      "0 \<le> wk_work_seq w" "wk_work_seq w < 256 ^ 8" "0 \<le> wk_bank_id w" "wk_bank_id w < 256"
      "0 \<le> wk_bank_epoch w" "wk_bank_epoch w < 256 ^ 8" "0 \<le> wk_completion_offset w" "wk_completion_offset w < 256 ^ 8"
      "0 \<le> wk_result_bytes w" "wk_result_bytes w < 256 ^ 4"
    using e rb c by (auto simp: work_to_bytes_def concat_r_Inr wire_simps simp del: wire_del)
  show len: "length bs = work_header_bytes + ?n * row_bytes"
    unfolding bs by (simp add: lrb work_header_bytes_def)
  define r where "r = new_reader bs"
  have "sees r bs" unfolding r_def by (rule sees_new_reader)
  then have s: "sees r work_magic" "avail 2 (skip 4 r)" "peek 2 (skip 4 r) = work_version" "avail 2 (skip 6 r)"
      "peek 2 (skip 6 r) = work_kind_int (wk_operation w)" "avail 4 (skip 8 r)" "peek 4 (skip 8 r) = wk_worker_id w"
      "avail 8 (skip 12 r)" "peek 8 (skip 12 r) = wk_worker_generation w" "avail 8 (skip 20 r)"
      "peek 8 (skip 20 r) = wk_work_seq w" "avail (Suc 0) (skip 28 r)" "peek (Suc 0) (skip 28 r) = wk_bank_id w"
      "sees (skip 29 r) (replicate 7 0)" "avail 8 (skip 36 r)" "peek 8 (skip 36 r) = wk_bank_epoch w"
      "avail 8 (skip 44 r)" "peek 8 (skip 44 r) = wk_completion_offset w"
      "avail 4 (skip 52 r)" "peek 4 (skip 52 r) = wk_result_bytes w" "avail 4 (skip 56 r)" "peek 4 (skip 56 r) = int ?n"
      "avail 4 (skip 60 r)" "peek 4 (skip 60 r) = int row_bytes" "sees (skip 64 r) rb"
    using fits kb n unfolding bs
    by (simp_all add: sees_append sees_le_bytes work_version_def row_bytes_def)
  have m: "rd_raw 4 r = Inr (work_magic, skip 4 r)" "rd_raw 7 (skip 29 r) = Inr (replicate 7 0, skip 36 r)"
    using rd_raw_sees_any [OF s(1)] rd_raw_sees_any [OF s(14)] by simp_all
  have "rd_list rd_row_work ?n (skip 64 r) = Inr (wk_rows w, skip (64 + length rb) r)"
    using row_work_codec.decodes_list [OF rows rb s(25)] by simp
  with s m n ok len show "work_from_bytes bs = Inr w"
    by (cases w) (simp add: work_from_bytes_def wire_simps work_header_bytes_def row_bytes_def work_version_def Let_def
        flip: r_def del: checks_ok)
qed

section \<open>Structure\<close>

lemma check_work_rows_layout:
  "check_work_rows op end rs = Inr () \<Longrightarrow> i < length rs \<Longrightarrow>
   rw_destination_offset (rs ! i) = end + sum_list (map rw_capacity_blocks (take i rs))
   \<and> check_work_row op (end + sum_list (map rw_capacity_blocks (take i rs))) (rs ! i) = Inr ()"
proof (induction rs arbitrary: "end" i)
  case (Cons r rs)
  show ?case
  proof (cases i)
    case 0
    with Cons.prems show ?thesis by (auto simp: bind_r_eq_Inr check_work_row_def)
  next
    case (Suc j)
    with Cons.prems have "check_work_rows op (end + rw_capacity_blocks r) rs = Inr ()" "j < length rs"
      by (auto simp: bind_r_eq_Inr)
    from Cons.IH [OF this] Suc show ?thesis by (simp add: add.assoc)
  qed
qed simp

definition own_dependencies :: "row_work \<Rightarrow> bool" where
  "own_dependencies r \<longleftrightarrow> (\<forall>d. rw_source r = Some d \<or> rw_predecessor r = Some d \<or> rw_classified r = Some d \<longrightarrow>
     td_slot d = rw_slot r \<and> td_request_epoch d = rw_epoch r)"

lemma check_work_row_meaning:
  assumes "check_work_row op end r = Inr ()"
  shows "0 < rw_capacity_blocks r \<and> rw_capacity_blocks r \<le> rw_host_capacity r \<and> own_dependencies r
     \<and> (op \<noteq> TARGET_PREFILL \<longrightarrow> rw_classified r \<noteq> None)
     \<and> (op = TARGET_VERIFY \<or> op = DRAFT_DECODE \<longrightarrow> rw_source r \<noteq> None)
     \<and> (is_draft_kind op \<longrightarrow> (\<exists>p. rw_predecessor r = Some p \<and> td_selector p = DELTA)
          \<and> rw_owner_epoch r \<noteq> None \<and> rw_layout_id r \<noteq> None)
     \<and> (op = DRAFT_INITIAL \<longrightarrow> rw_source r = None)"
  using assms
  by (auto simp: check_work_row_def check_draft_row_def own_dependencies_def opt_all_def opt_is_def is_draft_kind_def
      split: option.splits if_splits)

section \<open>Properties\<close>

text \<open>C24: every valid WORK whose fields fit the wire format survives it: the message has the fixed
  length 64 + 248 per row, and decoding gives back the same work.\<close>

theorem work_wire_roundtrip:
  assumes "check_work w = Inr ()" "\<forall>x \<in> set (wk_rows w). row_work_ok x" "work_to_bytes w = Inr bs"
  shows "work_from_bytes bs = Inr w \<and> length bs = 64 + 248 * length (wk_rows w)"
  using work_roundtrip [OF assms] by (simp add: work_header_bytes_def row_bytes_def)

definition dependency_example :: "selector \<Rightarrow> table_dependency" where
  "dependency_example s = \<lparr>td_kind = 3, td_slot = 4, td_request_epoch = 1, td_expected_ticket = 17, td_selector = s\<rparr>"

definition row_work_example :: row_work where
  "row_work_example = \<lparr>rw_slot = 4, rw_epoch = 1, rw_round_id = 6, rw_run_seq = 20, rw_destination_offset = 0,
     rw_capacity_blocks = 3, rw_host_offset = 64, rw_host_capacity = 4, rw_host_arena = 0, rw_host_generation = 1,
     rw_host_slot = 2, rw_writer_generation = 5,
     rw_prompt = \<lparr>h_offset = 0, h_length = 40, h_generation = 1\<rparr>,
     rw_config = \<lparr>h_offset = 0, h_length = 64, h_generation = 1\<rparr>,
     rw_output = \<lparr>h_offset = 40, h_length = 8, h_generation = 1\<rparr>,
     rw_token_budget = 4, rw_max_new_tokens = 128, rw_prompt_count = 10,
     rw_source = Some (dependency_example DRAFT_HOST), rw_predecessor = Some (dependency_example DELTA),
     rw_classified = Some (dependency_example CLASSIFIED), rw_owner_epoch = Some 5, rw_layout_id = Some 2\<rparr>"

definition work_example :: work where
  "work_example = \<lparr>wk_worker_id = 2, wk_worker_generation = 3, wk_work_seq = 11, wk_operation = DRAFT_DECODE,
     wk_bank_id = 1, wk_bank_epoch = 7, wk_completion_offset = 256, wk_result_bytes = 4096,
     wk_rows = [row_work_example]\<rparr>"

theorem work_wire_roundtrip_witness:
  "work_from_bytes (projr (work_to_bytes work_example)) = Inr work_example
     \<and> length (projr (work_to_bytes work_example)) = 64 + 248 * length (wk_rows work_example)"
proof -
  have "work_to_bytes work_example = Inr (projr (work_to_bytes work_example))" by code_simp
  moreover have "check_work work_example = Inr ()" by code_simp
  moreover have "enc_row_work row_work_example = Inr (projr (enc_row_work row_work_example))" by code_simp
  then have "\<forall>x \<in> set (wk_rows work_example). row_work_ok x"
    by (auto simp: work_example_def row_work_ok_def row_work_example_def optional_ok_def opt_all_def handle_ok_iff)
  ultimately show ?thesis by (intro work_wire_roundtrip)
qed

text \<open>C25: a WORK that passes its checks has a sound layout and sound dependencies: row \<open>i\<close> starts where
  the first \<open>i\<close> rows end, no request occurs twice, every dependency names the row's own request,
  every continuation has a source, and every Draft row waits for a Target delta.\<close>

theorem work_rows_sound:
  assumes "check_work w = Inr ()" "i < length (wk_rows w)"
  shows "rw_destination_offset (wk_rows w ! i) = sum_list (map rw_capacity_blocks (take i (wk_rows w)))
     \<and> distinct (map rw_slot (wk_rows w)) \<and> own_dependencies (wk_rows w ! i)
     \<and> 0 < rw_capacity_blocks (wk_rows w ! i) \<and> rw_capacity_blocks (wk_rows w ! i) \<le> rw_host_capacity (wk_rows w ! i)
     \<and> (wk_operation w = TARGET_VERIFY \<or> wk_operation w = DRAFT_DECODE \<longrightarrow> rw_source (wk_rows w ! i) \<noteq> None)
     \<and> (is_draft_kind (wk_operation w) \<longrightarrow>
          (\<exists>p. rw_predecessor (wk_rows w ! i) = Some p \<and> td_selector p = DELTA))"
proof -
  have rows: "check_work_rows (wk_operation w) 0 (wk_rows w) = Inr ()"
    and "length (remdups (map rw_slot (wk_rows w))) = length (map rw_slot (wk_rows w))"
    using assms(1) by (simp_all add: check_work_def)
  then have "distinct (map rw_slot (wk_rows w))" by (metis length_remdups_eq distinct_remdups)
  moreover note lay = check_work_rows_layout [OF rows assms(2)]
  moreover note check_work_row_meaning [OF lay [THEN conjunct2]]
  ultimately show ?thesis by simp
qed

theorem work_rows_sound_witness:
  "own_dependencies (wk_rows work_example ! 0) \<and> rw_destination_offset (wk_rows work_example ! 0) = 0"
proof -
  have "check_work work_example = Inr ()" "0 < length (wk_rows work_example)" by code_simp+
  from work_rows_sound [OF this] show ?thesis by simp
qed

end
