(* ===== verification/ProtocolCodec.thy ===== *)
theory ProtocolCodec
  imports DraftProtocol WorkWire
begin

text \<open>
  The commands of \<open>ipc/protocol.py\<close> with their cross-row checks, and the payload codec:
  \<open>encode_command_payload\<close> and \<open>decode_command_payload\<close>. The initial Draft bank of
  \<open>ipc/draft_protocol.py\<close> stands here because it checks request rows.
\<close>

section \<open>The initial Draft bank\<close>

record draft_initial_bank =
  ib_bank_id :: int
  ib_bank_epoch :: int
  ib_batch_seq :: int
  ib_block_size :: int
  ib_capacity_blocks :: "int list"

definition check_draft_initial_bank :: "draft_initial_bank \<Rightarrow> unit result" where
  "check_draft_initial_bank b = checks
     ([check_bank_id (ib_bank_id b), check_id U64 (ib_bank_epoch b), check_id U64 (ib_batch_seq b),
       check_id U32 (ib_block_size b),
       require (ib_block_size b \<noteq> 0 \<and> ib_capacity_blocks b \<noteq> [])
         (ValueError ''initial Draft Bank requires block size and frozen capacities'')]
      @ map (\<lambda>n. checks [check_id U32 n, require (n \<noteq> 0) (ValueError ''initial Draft reservation must be positive'')])
          (ib_capacity_blocks b)
      @ [check_id U32 (sum_list (ib_capacity_blocks b))])"

definition check_reservation :: "draft_initial_bank \<Rightarrow> new_request_data \<Rightarrow> int \<Rightarrow> unit result" where
  "check_reservation b request capacity =
     (let tokens = (h_length (nr_input_tokens_handle request) + h_length (nr_initial_output_tokens_handle request)) div 4
      in require (nr_scheduled_token_count request \<noteq> 0
                  \<and> tokens + nr_scheduled_token_count request - 1 \<le> capacity * ib_block_size b)
           (ValueError ''initial Draft reservation does not cover proposal growth''))"

definition bank_validate_requests ::
  "draft_initial_bank \<Rightarrow> new_request_data list \<Rightarrow> cached_request_delta list \<Rightarrow> removed_request list \<Rightarrow> unit result" where
  "bank_validate_requests b new_requests deltas removed =
     bind_r (require (deltas = [] \<and> removed = [] \<and> length new_requests = length (ib_capacity_blocks b))
               (ValueError ''initial Draft Bank must exactly match new-request membership'')) (\<lambda>_.
       checks (map2 (check_reservation b) new_requests (ib_capacity_blocks b)))"

definition enc_initial_bank :: "draft_initial_bank \<Rightarrow> bytes result" where
  "enc_initial_bank b = concat_r
     [pack_uint (Suc 0) (ib_bank_id b), pack_uint 8 (ib_bank_epoch b), pack_uint 8 (ib_batch_seq b),
      pack_uint 4 (ib_block_size b), pack_uint 4 (int (length (ib_capacity_blocks b))),
      concat_r (map (pack_uint 4) (ib_capacity_blocks b))]"

definition rd_initial_bank :: "payload_reader \<Rightarrow> (draft_initial_bank \<times> payload_reader) result" where
  "rd_initial_bank r =
     bind_r (rd_u8 r) (\<lambda>(bank, r). bind_r (rd_u64 r) (\<lambda>(epoch, r). bind_r (rd_u64 r) (\<lambda>(batch, r).
     bind_r (rd_u32 r) (\<lambda>(size, r). bind_r (rd_u32 r) (\<lambda>(count, r). bind_r (rd_list rd_u32 (nat count) r) (\<lambda>(caps, r).
       let b = \<lparr>ib_bank_id = bank, ib_bank_epoch = epoch, ib_batch_seq = batch, ib_block_size = size,
                ib_capacity_blocks = caps\<rparr>
       in bind_r (check_draft_initial_bank b) (\<lambda>_. Inr (b, r))))))))"

definition initial_bank_ok :: "draft_initial_bank \<Rightarrow> bool" where
  "initial_bank_ok b \<longleftrightarrow> check_draft_initial_bank b = Inr () \<and> is_valid U32 (int (length (ib_capacity_blocks b)))"

interpretation pack32_codec: codec "is_valid U32" "pack_uint 4" rd_u32
  by unfold_locales (auto simp: wire_simps sees_append simp del: wire_del)

interpretation initial_bank_codec: codec initial_bank_ok enc_initial_bank rd_initial_bank
proof
  fix b bs r
  assume ok: "initial_bank_ok b"
  then have caps: "\<forall>n \<in> set (ib_capacity_blocks b). is_valid U32 n"
    and v: "ib_bank_id b = 0 \<or> ib_bank_id b = 1" "is_valid U64 (ib_bank_epoch b)" "is_valid U64 (ib_batch_seq b)"
      "is_valid U32 (ib_block_size b)" "is_valid U32 (int (length (ib_capacity_blocks b)))"
    by (auto simp: initial_bank_ok_def check_draft_initial_bank_def check_bank_id_ok simp del: valid_U32 valid_U64)
  then have v8: "is_valid U8 (ib_bank_id b)" by auto
  obtain cb where cb: "concat_r (map (pack_uint 4) (ib_capacity_blocks b)) = Inr cb"
    using pack32_codec.encodes_list [OF caps] by blast
  have b0: "pack_uint (Suc 0) (ib_bank_id b) = Inr (le_bytes (Suc 0) (ib_bank_id b))"
    using v(1) by (auto simp: pack_uint_def)
  show "\<exists>bs. enc_initial_bank b = Inr bs"
    using v cb b0 by (simp add: enc_initial_bank_def concat_r_Inr wire_simps del: wire_del)
  assume "enc_initial_bank b = Inr bs" and s: "sees r bs"
  then have bs: "bs = le_bytes (Suc 0) (ib_bank_id b) @ le_bytes 8 (ib_bank_epoch b) @ le_bytes 8 (ib_batch_seq b)
      @ le_bytes 4 (ib_block_size b) @ le_bytes 4 (int (length (ib_capacity_blocks b))) @ cb"
    using v cb b0 by (auto simp: enc_initial_bank_def concat_r_Inr wire_simps simp del: wire_del)
  with s v v8 have p: "avail (Suc 0) r" "peek (Suc 0) r = ib_bank_id b" "avail 8 (skip 1 r)" "peek 8 (skip 1 r) = ib_bank_epoch b"
    "avail 8 (skip 9 r)" "peek 8 (skip 9 r) = ib_batch_seq b" "avail 4 (skip 17 r)" "peek 4 (skip 17 r) = ib_block_size b"
    "avail 4 (skip 21 r)" "peek 4 (skip 21 r) = int (length (ib_capacity_blocks b))" "sees (skip 25 r) cb"
    by (simp_all add: sees_append wire_simps del: wire_del)
  from pack32_codec.decodes_list [OF caps cb p(11)]
  have "rd_list rd_u32 (length (ib_capacity_blocks b)) (skip 25 r) = Inr (ib_capacity_blocks b, skip (25 + length cb) r)"
    by simp
  with p bs ok show "rd_initial_bank r = Inr (b, skip (length bs) r)"
    by (cases b) (simp add: rd_initial_bank_def initial_bank_ok_def wire_simps del: wire_del checks_ok)
qed

section \<open>Request keys\<close>

text \<open>\<open>_unique_keys\<close>: the loop with its two accumulating sets.\<close>

fun unique_keys :: "request_key set \<Rightarrow> int set \<Rightarrow> request_key list \<Rightarrow> unit result" where
  "unique_keys keys slots [] = Inr ()"
| "unique_keys keys slots (k # ks) =
     (if k \<in> keys then Inl (ValueError ''duplicate request slot/epoch'')
      else if fst k \<in> slots then Inl (ValueError ''duplicate request slot'')
      else unique_keys (insert k keys) (insert (fst k) slots) ks)"

definition ensure_unique_request_keys :: "request_key list \<Rightarrow> unit result" where
  "ensure_unique_request_keys ks = unique_keys {} {} ks"

lemma unique_keys_ok:
  "fst ` keys = slots \<Longrightarrow> unique_keys keys slots ks = Inr () \<longleftrightarrow> distinct (map fst ks) \<and> fst ` set ks \<inter> slots = {}"
proof (induction ks arbitrary: keys slots)
  case (Cons k ks)
  have sub: "k \<in> keys \<Longrightarrow> fst k \<in> slots" using Cons.prems by auto
  have "fst ` insert k keys = insert (fst k) slots" using Cons.prems by simp
  from Cons.IH [OF this] sub show ?case by auto
qed simp

lemma ensure_unique_ok: "ensure_unique_request_keys ks = Inr () \<longleftrightarrow> distinct (map fst ks)"
  by (simp add: ensure_unique_request_keys_def unique_keys_ok)

definition new_key :: "new_request_data \<Rightarrow> request_key" where "new_key x = (nr_request_slot x, nr_request_epoch x)"
definition delta_key :: "cached_request_delta \<Rightarrow> request_key" where "delta_key x = (cd_request_slot x, cd_request_epoch x)"
definition removed_key :: "removed_request \<Rightarrow> request_key" where "removed_key x = (rr_request_slot x, rr_request_epoch x)"
definition prefill_key :: "target_prefill_request \<Rightarrow> request_key" where "prefill_key x = (tp_request_slot x, tp_request_epoch x)"
definition prepare_key :: "target_prepare_request \<Rightarrow> request_key" where "prepare_key x = (pp_request_slot x, pp_request_epoch x)"

fun run_key :: "run_request \<Rightarrow> request_key" where
  "run_key (RunTargetRow x) = (rt_request_slot x, rt_request_epoch x)"
| "run_key (TargetVerifyRow x) = (tv_request_slot x, tv_request_epoch x)"

definition validate_request_lists ::
  "new_request_data list \<Rightarrow> cached_request_delta list \<Rightarrow> removed_request list \<Rightarrow> unit result" where
  "validate_request_lists new_requests deltas removed =
     (let new_keys = map new_key new_requests; delta_keys = map delta_key deltas; removed_keys = map removed_key removed
      in checks
        [ensure_unique_request_keys new_keys, ensure_unique_request_keys delta_keys,
         ensure_unique_request_keys removed_keys,
         require (set new_keys \<inter> set delta_keys = {})
           (ValueError ''new_requests and cached_request_deltas cannot contain the same request''),
         require (fst ` set new_keys \<inter> fst ` set delta_keys = {})
           (ValueError ''new_requests and cached_request_deltas cannot contain the same request slot''),
         require ((set new_keys \<union> set delta_keys) \<inter> set removed_keys = {})
           (ValueError ''removed_requests cannot overlap active request payloads''),
         require ((fst ` set new_keys \<union> fst ` set delta_keys) \<inter> fst ` set removed_keys = {})
           (ValueError ''removed_requests cannot overlap active request slots'')])"

lemma disjoint_keys:
  fixes xs ys zs :: "request_key list"
  shows "distinct (map fst xs) \<and> distinct (map fst ys) \<and> distinct (map fst zs)
     \<and> set xs \<inter> set ys = {} \<and> fst ` set xs \<inter> fst ` set ys = {}
     \<and> (set xs \<union> set ys) \<inter> set zs = {} \<and> (fst ` set xs \<union> fst ` set ys) \<inter> fst ` set zs = {}
   \<longleftrightarrow> distinct (map fst xs @ map fst ys @ map fst zs)"
proof -
  have "fst ` A \<inter> fst ` B = {} \<Longrightarrow> A \<inter> B = {}" for A B :: "request_key set" by auto
  from this [of "set xs" "set ys"] this [of "set xs" "set zs"] this [of "set ys" "set zs"]
  show ?thesis
    unfolding distinct_append set_append set_map Int_Un_distrib Int_Un_distrib2 Un_empty by argo
qed

text \<open>Together the tests say that no slot is named twice in the whole command.\<close>

lemma validate_request_lists_ok:
  "validate_request_lists new_requests deltas removed = Inr () \<longleftrightarrow>
   distinct (map nr_request_slot new_requests @ map cd_request_slot deltas @ map rr_request_slot removed)"
proof -
  have m: "map nr_request_slot new_requests = map fst (map new_key new_requests)"
    "map cd_request_slot deltas = map fst (map delta_key deltas)"
    "map rr_request_slot removed = map fst (map removed_key removed)"
    by (simp_all add: new_key_def delta_key_def removed_key_def)
  show ?thesis
    unfolding m disjoint_keys [symmetric] by (simp add: validate_request_lists_def Let_def ensure_unique_ok)
qed

section \<open>Commands\<close>

record draft_batch_command =
  db_worker_id :: int
  db_worker_generation :: int
  db_command_seq :: int
  db_new_requests :: "new_request_data list"
  db_cached_request_deltas :: "cached_request_delta list"
  db_removed_requests :: "removed_request list"
  db_bank :: "draft_initial_bank option"

definition check_draft_batch :: "draft_batch_command \<Rightarrow> unit result" where
  "check_draft_batch c = checks
     ([check_id WORKER_ID (db_worker_id c), check_id WORKER_GENERATION (db_worker_generation c),
       check_id COMMAND_SEQ (db_command_seq c),
       validate_request_lists (db_new_requests c) (db_cached_request_deltas c) (db_removed_requests c),
       (case db_bank c of None \<Rightarrow> Inr ()
        | Some b \<Rightarrow> bank_validate_requests b (db_new_requests c) (db_cached_request_deltas c) (db_removed_requests c))]
      @ map (\<lambda>row. require (\<not> handle_is_empty (nr_initial_output_tokens_handle row))
               (ValueError ''new_requests require a non-empty initial_output_tokens_handle'')) (db_new_requests c))"

record target_prefill_batch_command =
  tb_worker_id :: int
  tb_target_generation :: int
  tb_command_seq :: int
  tb_batch_seq :: int
  tb_bank_id :: int
  tb_bank_epoch :: int
  tb_requests :: "target_prefill_request list"

definition check_target_prefill_batch :: "target_prefill_batch_command \<Rightarrow> unit result" where
  "check_target_prefill_batch c = checks
     ([check_id WORKER_ID (tb_worker_id c), check_id WORKER_GENERATION (tb_target_generation c),
       check_id COMMAND_SEQ (tb_command_seq c), check_id BATCH_SEQ (tb_batch_seq c),
       check_id BANK_ID (tb_bank_id c), check_id BANK_EPOCH (tb_bank_epoch c),
       ensure_unique_request_keys (map prefill_key (tb_requests c))]
      @ map (\<lambda>r. checks
               [require (tp_bank_id r = tb_bank_id c) (ValueError ''bank_id must match command bank_id''),
                require (tp_bank_epoch r = tb_bank_epoch c) (ValueError ''bank_epoch must match command bank_epoch'')])
          (tb_requests c))"

record prepare_target_bank_command =
  pt_worker_id :: int
  pt_target_generation :: int
  pt_command_seq :: int
  pt_batch_seq :: int
  pt_standby_bank_id :: int
  pt_next_bank_epoch :: int
  pt_requests :: "target_prepare_request list"

fun check_prepare_rows :: "int \<Rightarrow> int \<Rightarrow> int \<Rightarrow> target_prepare_request list \<Rightarrow> unit result" where
  "check_prepare_rows bank epoch expected [] = Inr ()"
| "check_prepare_rows bank epoch expected (r # rs) =
     bind_r (checks
       [require (pp_destination_bank_id r = bank) (ValueError ''destination_bank_id must match standby_bank_id''),
        require (pp_destination_bank_epoch r = epoch) (ValueError ''destination_bank_epoch must match next_bank_epoch''),
        require (pp_destination_bank_offset_blocks r = expected)
          (ValueError ''destination ranges must be contiguous in request order'')]) (\<lambda>_.
     check_prepare_rows bank epoch (expected + pp_destination_capacity_blocks r) rs)"

definition check_prepare_target_bank :: "prepare_target_bank_command \<Rightarrow> unit result" where
  "check_prepare_target_bank c = checks
     [check_id WORKER_ID (pt_worker_id c), check_id WORKER_GENERATION (pt_target_generation c),
      check_id COMMAND_SEQ (pt_command_seq c), check_id BATCH_SEQ (pt_batch_seq c),
      check_id BANK_ID (pt_standby_bank_id c), check_id BANK_EPOCH (pt_next_bank_epoch c),
      ensure_unique_request_keys (map prepare_key (pt_requests c)),
      check_prepare_rows (pt_standby_bank_id c) (pt_next_bank_epoch c) 0 (pt_requests c)]"

record run_target_batch_command =
  rn_worker_id :: int
  rn_target_generation :: int
  rn_command_seq :: int
  rn_expected_batch_seq :: int
  rn_active_bank_id :: int
  rn_active_bank_epoch :: int
  rn_standby_bank_epoch :: int
  rn_requests :: "run_request list"

definition check_run_target_batch :: "run_target_batch_command \<Rightarrow> unit result" where
  "check_run_target_batch c = checks
     [check_id WORKER_ID (rn_worker_id c), check_id WORKER_GENERATION (rn_target_generation c),
      check_id COMMAND_SEQ (rn_command_seq c), check_id BATCH_SEQ (rn_expected_batch_seq c),
      check_id BANK_ID (rn_active_bank_id c), check_id BANK_EPOCH (rn_active_bank_epoch c),
      check_id BANK_EPOCH (rn_standby_bank_epoch c),
      ensure_unique_request_keys (map run_key (rn_requests c))]"

datatype hot_command =
    WorkCommand work
  | PrepareDraftBank prepare_draft_bank_command
  | RunDraftBatch run_draft_batch_command
  | DraftBatch draft_batch_command
  | TargetPrefillBatch target_prefill_batch_command
  | PrepareTargetBank prepare_target_bank_command
  | RunTargetBatch run_target_batch_command

fun command_kind_of :: "hot_command \<Rightarrow> command_kind" where
  "command_kind_of (WorkCommand _) = WORK"
| "command_kind_of (PrepareDraftBank _) = PREPARE_DRAFT_BANK"
| "command_kind_of (RunDraftBatch _) = RUN_DRAFT_BATCH"
| "command_kind_of (DraftBatch _) = DRAFT_BATCH"
| "command_kind_of (TargetPrefillBatch _) = TARGET_PREFILL_BATCH"
| "command_kind_of (PrepareTargetBank _) = PREPARE_TARGET_BANK"
| "command_kind_of (RunTargetBatch _) = RUN_TARGET_BATCH"

fun command_worker_id :: "hot_command \<Rightarrow> int" where
  "command_worker_id (WorkCommand c) = wk_worker_id c"
| "command_worker_id (PrepareDraftBank c) = pd_worker_id c"
| "command_worker_id (RunDraftBatch c) = rb_worker_id c"
| "command_worker_id (DraftBatch c) = db_worker_id c"
| "command_worker_id (TargetPrefillBatch c) = tb_worker_id c"
| "command_worker_id (PrepareTargetBank c) = pt_worker_id c"
| "command_worker_id (RunTargetBatch c) = rn_worker_id c"

fun command_generation :: "hot_command \<Rightarrow> int" where
  "command_generation (WorkCommand c) = wk_worker_generation c"
| "command_generation (PrepareDraftBank c) = pd_worker_generation c"
| "command_generation (RunDraftBatch c) = rb_worker_generation c"
| "command_generation (DraftBatch c) = db_worker_generation c"
| "command_generation (TargetPrefillBatch c) = tb_target_generation c"
| "command_generation (PrepareTargetBank c) = pt_target_generation c"
| "command_generation (RunTargetBatch c) = rn_target_generation c"

fun command_seq_of :: "hot_command \<Rightarrow> int" where
  "command_seq_of (WorkCommand c) = wk_work_seq c"
| "command_seq_of (PrepareDraftBank c) = pd_command_seq c"
| "command_seq_of (RunDraftBatch c) = rb_command_seq c"
| "command_seq_of (DraftBatch c) = db_command_seq c"
| "command_seq_of (TargetPrefillBatch c) = tb_command_seq c"
| "command_seq_of (PrepareTargetBank c) = pt_command_seq c"
| "command_seq_of (RunTargetBatch c) = rn_command_seq c"

text \<open>A command that could be constructed: its own checks and those of its parts.\<close>

fun command_ok :: "hot_command \<Rightarrow> bool" where
  "command_ok (WorkCommand c) \<longleftrightarrow> check_work c = Inr () \<and> (\<forall>x \<in> set (wk_rows c). row_work_ok x)
     \<and> returns (work_to_bytes c)"
| "command_ok (PrepareDraftBank c) \<longleftrightarrow> prepare_draft_bank_ok c"
| "command_ok (RunDraftBatch c) \<longleftrightarrow> run_draft_batch_ok c"
| "command_ok (DraftBatch c) \<longleftrightarrow> check_draft_batch c = Inr ()
     \<and> (\<forall>x \<in> set (db_new_requests c). new_request_data_ok x)
     \<and> (\<forall>x \<in> set (db_cached_request_deltas c). cached_request_delta_ok x)
     \<and> (\<forall>x \<in> set (db_removed_requests c). removed_request_ok x)
     \<and> opt_all initial_bank_ok (db_bank c)"
| "command_ok (TargetPrefillBatch c) \<longleftrightarrow> check_target_prefill_batch c = Inr ()
     \<and> (\<forall>x \<in> set (tb_requests c). target_prefill_request_ok x)"
| "command_ok (PrepareTargetBank c) \<longleftrightarrow> check_prepare_target_bank c = Inr ()
     \<and> (\<forall>x \<in> set (pt_requests c). target_prepare_request_ok x)"
| "command_ok (RunTargetBatch c) \<longleftrightarrow> check_run_target_batch c = Inr ()
     \<and> (\<forall>x \<in> set (rn_requests c). run_request_ok x)"

text \<open>Row counts that fit the 32-bit count fields.\<close>

fun command_counts_ok :: "hot_command \<Rightarrow> bool" where
  "command_counts_ok (WorkCommand c) = True"
| "command_counts_ok (PrepareDraftBank c) \<longleftrightarrow> is_valid U32 (int (length (pd_requests c)))"
| "command_counts_ok (RunDraftBatch c) \<longleftrightarrow> is_valid U32 (int (length (rb_requests c)))"
| "command_counts_ok (DraftBatch c) \<longleftrightarrow> is_valid U32 (int (length (db_new_requests c)))
     \<and> is_valid U32 (int (length (db_cached_request_deltas c))) \<and> is_valid U32 (int (length (db_removed_requests c)))"
| "command_counts_ok (TargetPrefillBatch c) \<longleftrightarrow> is_valid U32 (int (length (tb_requests c)))"
| "command_counts_ok (PrepareTargetBank c) \<longleftrightarrow> is_valid U32 (int (length (pt_requests c)))"
| "command_counts_ok (RunTargetBatch c) \<longleftrightarrow> is_valid U32 (int (length (rn_requests c)))"

section \<open>Payloads\<close>

definition command_payload_magic :: int where "command_payload_magic = 1396982605"
definition command_protocol_version :: int where "command_protocol_version = 5"

fun encode_body :: "hot_command \<Rightarrow> bytes result" where
  "encode_body (WorkCommand c) = work_to_bytes c"
| "encode_body (PrepareDraftBank c) = encode_prepare_draft c"
| "encode_body (RunDraftBatch c) = encode_run_draft c"
| "encode_body (DraftBatch c) = concat_r
     [enc_u32 (int (length (db_new_requests c))), enc_u32 (int (length (db_cached_request_deltas c))),
      enc_u32 (int (length (db_removed_requests c))),
      concat_r (map enc_new_request (db_new_requests c)), concat_r (map enc_cached_delta (db_cached_request_deltas c)),
      concat_r (map enc_removed_request (db_removed_requests c)),
      enc_u8 (if db_bank c = None then 0 else 1),
      (case db_bank c of None \<Rightarrow> Inr [] | Some b \<Rightarrow> enc_initial_bank b)]"
| "encode_body (TargetPrefillBatch c) = concat_r
     [enc_u64 (tb_batch_seq c), enc_u8 (tb_bank_id c), enc_u64 (tb_bank_epoch c), enc_u32 (int (length (tb_requests c))),
      concat_r (map enc_target_prefill_request (tb_requests c))]"
| "encode_body (PrepareTargetBank c) = concat_r
     [enc_u64 (pt_batch_seq c), enc_u8 (pt_standby_bank_id c), enc_u64 (pt_next_bank_epoch c),
      enc_u32 (int (length (pt_requests c))), concat_r (map enc_target_prepare_request (pt_requests c))]"
| "encode_body (RunTargetBatch c) = concat_r
     [enc_u64 (rn_expected_batch_seq c), enc_u8 (rn_active_bank_id c), enc_u64 (rn_active_bank_epoch c),
      enc_u64 (rn_standby_bank_epoch c), enc_u32 (int (length (rn_requests c))),
      concat_r (map enc_run_target_request (rn_requests c))]"

definition encode_command_payload :: "hot_command \<Rightarrow> bytes result" where
  "encode_command_payload c =
     (if command_kind_of c = WORK then encode_body c
      else concat_r [enc_u32 command_payload_magic, enc_u32 command_protocol_version,
                     enc_u32 (kind_int (command_kind_of c)), encode_body c])"

definition decode_draft_batch :: "int \<Rightarrow> int \<Rightarrow> int \<Rightarrow> payload_reader \<Rightarrow> (draft_batch_command \<times> payload_reader) result" where
  "decode_draft_batch worker generation seq r =
     bind_r (rd_u32 r) (\<lambda>(new_count, r). bind_r (rd_u32 r) (\<lambda>(delta_count, r). bind_r (rd_u32 r) (\<lambda>(removed_count, r).
     bind_r (rd_list rd_new_request (nat new_count) r) (\<lambda>(new_requests, r).
     bind_r (rd_list rd_cached_delta (nat delta_count) r) (\<lambda>(deltas, r).
     bind_r (rd_list rd_removed_request (nat removed_count) r) (\<lambda>(removed, r).
       let c = \<lparr>db_worker_id = worker, db_worker_generation = generation, db_command_seq = seq,
                db_new_requests = new_requests, db_cached_request_deltas = deltas, db_removed_requests = removed,
                db_bank = None\<rparr>
       in bind_r (check_draft_batch c) (\<lambda>_. bind_r (rd_u8 r) (\<lambda>(variant, r).
          if variant = 0 then Inr (c, r)
          else if variant = 1 then bind_r (rd_initial_bank r) (\<lambda>(bank, r).
            let c' = c\<lparr>db_bank := Some bank\<rparr> in bind_r (check_draft_batch c') (\<lambda>_. Inr (c', r)))
          else Inl (ValueError ''invalid initial Draft Bank variant'')))))))))"

definition decode_target_prefill :: "int \<Rightarrow> int \<Rightarrow> int \<Rightarrow> payload_reader \<Rightarrow> (target_prefill_batch_command \<times> payload_reader) result" where
  "decode_target_prefill worker generation seq r =
     bind_r (rd_u64 r) (\<lambda>(batch, r). bind_r (rd_u8 r) (\<lambda>(bank, r). bind_r (rd_u64 r) (\<lambda>(epoch, r).
     bind_r (rd_u32 r) (\<lambda>(count, r). bind_r (rd_list rd_target_prefill_request (nat count) r) (\<lambda>(rows, r).
       let c = \<lparr>tb_worker_id = worker, tb_target_generation = generation, tb_command_seq = seq, tb_batch_seq = batch,
                tb_bank_id = bank, tb_bank_epoch = epoch, tb_requests = rows\<rparr>
       in bind_r (check_target_prefill_batch c) (\<lambda>_. Inr (c, r)))))))"

definition decode_prepare_target :: "int \<Rightarrow> int \<Rightarrow> int \<Rightarrow> payload_reader \<Rightarrow> (prepare_target_bank_command \<times> payload_reader) result" where
  "decode_prepare_target worker generation seq r =
     bind_r (rd_u64 r) (\<lambda>(batch, r). bind_r (rd_u8 r) (\<lambda>(bank, r). bind_r (rd_u64 r) (\<lambda>(epoch, r).
     bind_r (rd_u32 r) (\<lambda>(count, r). bind_r (rd_list rd_target_prepare_request (nat count) r) (\<lambda>(rows, r).
       let c = \<lparr>pt_worker_id = worker, pt_target_generation = generation, pt_command_seq = seq, pt_batch_seq = batch,
                pt_standby_bank_id = bank, pt_next_bank_epoch = epoch, pt_requests = rows\<rparr>
       in bind_r (check_prepare_target_bank c) (\<lambda>_. Inr (c, r)))))))"

definition decode_run_target :: "int \<Rightarrow> int \<Rightarrow> int \<Rightarrow> payload_reader \<Rightarrow> (run_target_batch_command \<times> payload_reader) result" where
  "decode_run_target worker generation seq r =
     bind_r (rd_u64 r) (\<lambda>(batch, r). bind_r (rd_u8 r) (\<lambda>(bank, r). bind_r (rd_u64 r) (\<lambda>(active, r).
     bind_r (rd_u64 r) (\<lambda>(standby, r). bind_r (rd_u32 r) (\<lambda>(count, r).
     bind_r (rd_list rd_run_target_request (nat count) r) (\<lambda>(rows, r).
       let c = \<lparr>rn_worker_id = worker, rn_target_generation = generation, rn_command_seq = seq,
                rn_expected_batch_seq = batch, rn_active_bank_id = bank, rn_active_bank_epoch = active,
                rn_standby_bank_epoch = standby, rn_requests = rows\<rparr>
       in bind_r (check_run_target_batch c) (\<lambda>_. Inr (c, r))))))))"

definition lift_command :: "('a \<Rightarrow> hot_command) \<Rightarrow> ('a \<times> payload_reader) result \<Rightarrow> (hot_command \<times> payload_reader) result" where
  "lift_command f m = bind_r m (\<lambda>(c, r). Inr (f c, r))"

fun decode_body :: "command_kind \<Rightarrow> int \<Rightarrow> int \<Rightarrow> int \<Rightarrow> payload_reader \<Rightarrow> (hot_command \<times> payload_reader) result" where
  "decode_body PREPARE_DRAFT_BANK w g s r = lift_command PrepareDraftBank (decode_prepare_draft w g s r)"
| "decode_body RUN_DRAFT_BATCH w g s r = lift_command RunDraftBatch (decode_run_draft w g s r)"
| "decode_body DRAFT_BATCH w g s r = lift_command DraftBatch (decode_draft_batch w g s r)"
| "decode_body TARGET_PREFILL_BATCH w g s r = lift_command TargetPrefillBatch (decode_target_prefill w g s r)"
| "decode_body PREPARE_TARGET_BANK w g s r = lift_command PrepareTargetBank (decode_prepare_target w g s r)"
| "decode_body _ w g s r = lift_command RunTargetBatch (decode_run_target w g s r)"

definition decode_command_payload :: "command_kind \<Rightarrow> bytes \<Rightarrow> int \<Rightarrow> int \<Rightarrow> int \<Rightarrow> hot_command result" where
  "decode_command_payload kind raw worker generation seq =
     (if kind = WORK then
        bind_r (work_from_bytes raw) (\<lambda>w.
        bind_r (require ((wk_worker_id w, wk_worker_generation w, wk_work_seq w) = (worker, generation, seq))
                  (ValueError ''WORK header identity mismatch'')) (\<lambda>_. Inr (WorkCommand w)))
      else
        bind_r (rd_u32 (new_reader raw)) (\<lambda>(magic, r).
        bind_r (require (magic = command_payload_magic) (ValueError ''invalid command payload magic'')) (\<lambda>_.
        bind_r (rd_u32 r) (\<lambda>(version, r).
        bind_r (require (version = command_protocol_version) (ValueError ''invalid command payload version'')) (\<lambda>_.
        bind_r (rd_u32 r) (\<lambda>(k, r). bind_r (kind_of_int k) (\<lambda>encoded.
        bind_r (require (encoded = kind) (ValueError ''command payload kind does not match header'')) (\<lambda>_.
        bind_r (decode_body kind worker generation seq r) (\<lambda>(c, r).
        bind_r (rd_finish r) (\<lambda>_. Inr c))))))))))"

end
