(* ===== verification/ProtocolRoundtrip.thy ===== *)
theory ProtocolRoundtrip
  imports ProtocolCodec
begin

text \<open>
  Every command survives \<open>encode_command_payload\<close> and \<open>decode_command_payload\<close>: one lemma per
  command body, over the row codecs, and the property of the whole payload.
\<close>

context codec
begin

lemma list_roundtrip:
  assumes "\<forall>x \<in> set xs. ok x"
  obtains bs where "concat_r (map enc xs) = Inr bs"
    "\<And>r. sees r bs \<Longrightarrow> rd_list dec (length xs) r = Inr (xs, skip (length bs) r)"
  using encodes_list [OF assms] decodes_list [OF assms] by blast

end

text \<open>What a body lemma states.\<close>

definition body_survives :: "hot_command \<Rightarrow> bool" where
  "body_survives c \<longleftrightarrow> (\<exists>bs. encode_body c = Inr bs \<and> (\<forall>r. sees r bs \<longrightarrow>
     decode_body (command_kind_of c) (command_worker_id c) (command_generation c) (command_seq_of c) r
       = Inr (c, skip (length bs) r)))"

lemma prefill_survives:
  assumes ok: "command_ok (TargetPrefillBatch c)" and n: "command_counts_ok (TargetPrefillBatch c)"
  shows "body_survives (TargetPrefillBatch c)"
proof -
  have rows: "\<forall>x \<in> set (tb_requests c). target_prefill_request_ok x" using ok by simp
  obtain rb where rb: "concat_r (map enc_target_prefill_request (tb_requests c)) = Inr rb"
    and rd: "\<And>r. sees r rb \<Longrightarrow> rd_list rd_target_prefill_request (length (tb_requests c)) r = Inr (tb_requests c, skip (length rb) r)"
    using target_prefill_request_codec.list_roundtrip [OF rows] by blast
  have v: "is_valid U64 (tb_batch_seq c)" "is_valid U8 (tb_bank_id c)" "is_valid U64 (tb_bank_epoch c)"
    "is_valid U32 (int (length (tb_requests c)))" and ck: "check_target_prefill_batch c = Inr ()"
    using ok n by (simp_all add: check_target_prefill_batch_def del: valid_U8 valid_U32 valid_U64)
  define bs where "bs = le_bytes 8 (tb_batch_seq c) @ le_bytes (Suc 0) (tb_bank_id c) @ le_bytes 8 (tb_bank_epoch c)
    @ le_bytes 4 (int (length (tb_requests c))) @ rb"
  have "encode_body (TargetPrefillBatch c) = Inr bs"
    using v rb by (simp add: bs_def wire_simps del: wire_del)
  moreover have "decode_target_prefill (tb_worker_id c) (tb_target_generation c) (tb_command_seq c) r
      = Inr (c, skip (length bs) r)" if "sees r bs" for r
  proof -
    from that v have p: "avail 8 r" "peek 8 r = tb_batch_seq c" "avail (Suc 0) (skip 8 r)" "peek (Suc 0) (skip 8 r) = tb_bank_id c"
      "avail 8 (skip 9 r)" "peek 8 (skip 9 r) = tb_bank_epoch c"
      "avail 4 (skip 17 r)" "peek 4 (skip 17 r) = int (length (tb_requests c))" "sees (skip 21 r) rb"
      by (simp_all add: bs_def sees_append wire_simps del: wire_del)
    with rd ck show ?thesis
      by (cases c) (simp add: decode_target_prefill_def bs_def wire_simps del: wire_del)
  qed
  ultimately show ?thesis by (auto simp: body_survives_def lift_command_def)
qed

lemma prepare_target_survives:
  assumes ok: "command_ok (PrepareTargetBank c)" and n: "command_counts_ok (PrepareTargetBank c)"
  shows "body_survives (PrepareTargetBank c)"
proof -
  have rows: "\<forall>x \<in> set (pt_requests c). target_prepare_request_ok x" using ok by simp
  obtain rb where rb: "concat_r (map enc_target_prepare_request (pt_requests c)) = Inr rb"
    and rd: "\<And>r. sees r rb \<Longrightarrow> rd_list rd_target_prepare_request (length (pt_requests c)) r = Inr (pt_requests c, skip (length rb) r)"
    using target_prepare_request_codec.list_roundtrip [OF rows] by blast
  have v: "is_valid U64 (pt_batch_seq c)" "is_valid U8 (pt_standby_bank_id c)" "is_valid U64 (pt_next_bank_epoch c)"
    "is_valid U32 (int (length (pt_requests c)))" and ck: "check_prepare_target_bank c = Inr ()"
    using ok n by (simp_all add: check_prepare_target_bank_def del: valid_U8 valid_U32 valid_U64)
  define bs where "bs = le_bytes 8 (pt_batch_seq c) @ le_bytes (Suc 0) (pt_standby_bank_id c) @ le_bytes 8 (pt_next_bank_epoch c)
    @ le_bytes 4 (int (length (pt_requests c))) @ rb"
  have "encode_body (PrepareTargetBank c) = Inr bs"
    using v rb by (simp add: bs_def wire_simps del: wire_del)
  moreover have "decode_prepare_target (pt_worker_id c) (pt_target_generation c) (pt_command_seq c) r
      = Inr (c, skip (length bs) r)" if "sees r bs" for r
  proof -
    from that v have p: "avail 8 r" "peek 8 r = pt_batch_seq c" "avail (Suc 0) (skip 8 r)"
      "peek (Suc 0) (skip 8 r) = pt_standby_bank_id c" "avail 8 (skip 9 r)" "peek 8 (skip 9 r) = pt_next_bank_epoch c"
      "avail 4 (skip 17 r)" "peek 4 (skip 17 r) = int (length (pt_requests c))" "sees (skip 21 r) rb"
      by (simp_all add: bs_def sees_append wire_simps del: wire_del)
    with rd ck show ?thesis
      by (cases c) (simp add: decode_prepare_target_def bs_def wire_simps del: wire_del)
  qed
  ultimately show ?thesis by (auto simp: body_survives_def lift_command_def)
qed

lemma run_target_survives:
  assumes ok: "command_ok (RunTargetBatch c)" and n: "command_counts_ok (RunTargetBatch c)"
  shows "body_survives (RunTargetBatch c)"
proof -
  have rows: "\<forall>x \<in> set (rn_requests c). run_request_ok x" using ok by simp
  obtain rb where rb: "concat_r (map enc_run_target_request (rn_requests c)) = Inr rb"
    and rd: "\<And>r. sees r rb \<Longrightarrow> rd_list rd_run_target_request (length (rn_requests c)) r = Inr (rn_requests c, skip (length rb) r)"
    using run_request_codec.list_roundtrip [OF rows] by blast
  have v: "is_valid U64 (rn_expected_batch_seq c)" "is_valid U8 (rn_active_bank_id c)" "is_valid U64 (rn_active_bank_epoch c)"
    "is_valid U64 (rn_standby_bank_epoch c)" "is_valid U32 (int (length (rn_requests c)))"
    and ck: "check_run_target_batch c = Inr ()"
    using ok n by (simp_all add: check_run_target_batch_def del: valid_U8 valid_U32 valid_U64)
  define bs where "bs = le_bytes 8 (rn_expected_batch_seq c) @ le_bytes (Suc 0) (rn_active_bank_id c)
    @ le_bytes 8 (rn_active_bank_epoch c) @ le_bytes 8 (rn_standby_bank_epoch c)
    @ le_bytes 4 (int (length (rn_requests c))) @ rb"
  have "encode_body (RunTargetBatch c) = Inr bs"
    using v rb by (simp add: bs_def wire_simps del: wire_del)
  moreover have "decode_run_target (rn_worker_id c) (rn_target_generation c) (rn_command_seq c) r
      = Inr (c, skip (length bs) r)" if "sees r bs" for r
  proof -
    from that v have p: "avail 8 r" "peek 8 r = rn_expected_batch_seq c" "avail (Suc 0) (skip 8 r)"
      "peek (Suc 0) (skip 8 r) = rn_active_bank_id c" "avail 8 (skip 9 r)" "peek 8 (skip 9 r) = rn_active_bank_epoch c"
      "avail 8 (skip 17 r)" "peek 8 (skip 17 r) = rn_standby_bank_epoch c"
      "avail 4 (skip 25 r)" "peek 4 (skip 25 r) = int (length (rn_requests c))" "sees (skip 29 r) rb"
      by (simp_all add: bs_def sees_append wire_simps del: wire_del)
    with rd ck show ?thesis
      by (cases c) (simp add: decode_run_target_def bs_def wire_simps del: wire_del)
  qed
  ultimately show ?thesis by (auto simp: body_survives_def lift_command_def)
qed

text \<open>A Draft batch is checked twice by the decoder, first without its bank.\<close>

lemma check_draft_batch_no_bank: "check_draft_batch c = Inr () \<Longrightarrow> check_draft_batch (c\<lparr>db_bank := None\<rparr>) = Inr ()"
  by (simp add: check_draft_batch_def del: valid_U32 valid_U64)

lemma draft_batch_survives:
  assumes ok: "command_ok (DraftBatch c)" and n: "command_counts_ok (DraftBatch c)"
  shows "body_survives (DraftBatch c)"
proof -
  have rows: "\<forall>x \<in> set (db_new_requests c). new_request_data_ok x"
    "\<forall>x \<in> set (db_cached_request_deltas c). cached_request_delta_ok x"
    "\<forall>x \<in> set (db_removed_requests c). removed_request_ok x" using ok by simp_all
  obtain nb where nb: "concat_r (map enc_new_request (db_new_requests c)) = Inr nb"
    and rn: "\<And>r. sees r nb \<Longrightarrow> rd_list rd_new_request (length (db_new_requests c)) r = Inr (db_new_requests c, skip (length nb) r)"
    using new_request_data_codec.list_roundtrip [OF rows(1)] by blast
  obtain cb where cb: "concat_r (map enc_cached_delta (db_cached_request_deltas c)) = Inr cb"
    and rc: "\<And>r. sees r cb \<Longrightarrow> rd_list rd_cached_delta (length (db_cached_request_deltas c)) r = Inr (db_cached_request_deltas c, skip (length cb) r)"
    using cached_request_delta_codec.list_roundtrip [OF rows(2)] by blast
  obtain eb where eb: "concat_r (map enc_removed_request (db_removed_requests c)) = Inr eb"
    and re: "\<And>r. sees r eb \<Longrightarrow> rd_list rd_removed_request (length (db_removed_requests c)) r = Inr (db_removed_requests c, skip (length eb) r)"
    using removed_request_codec.list_roundtrip [OF rows(3)] by blast
  obtain kb where kb: "(case db_bank c of None \<Rightarrow> Inr [] | Some b \<Rightarrow> enc_initial_bank b) = Inr kb"
    and rk: "\<And>r b. sees r kb \<Longrightarrow> db_bank c = Some b \<Longrightarrow> rd_initial_bank r = Inr (b, skip (length kb) r)"
    and k0: "db_bank c = None \<Longrightarrow> kb = []"
  proof (cases "db_bank c")
    case None
    then show ?thesis by (intro that [of "[]"]) simp_all
  next
    case (Some b)
    then have bok: "initial_bank_ok b" using ok by (simp add: opt_all_def)
    then obtain x where "enc_initial_bank b = Inr x" using initial_bank_codec.encodes by blast
    with Some initial_bank_codec.decodes [OF bok] show ?thesis by (intro that [of x]) simp_all
  qed
  have v: "is_valid U32 (int (length (db_new_requests c)))" "is_valid U32 (int (length (db_cached_request_deltas c)))"
    "is_valid U32 (int (length (db_removed_requests c)))" "is_valid U8 0" "is_valid U8 1"
    and ck: "check_draft_batch c = Inr ()" using ok n by simp_all
  note ck0 = check_draft_batch_no_bank [OF ck]
  let ?f = "if db_bank c = None then 0 else 1 :: int"
  have f: "is_valid U8 ?f" by simp
  define bs where "bs = le_bytes 4 (int (length (db_new_requests c))) @ le_bytes 4 (int (length (db_cached_request_deltas c)))
    @ le_bytes 4 (int (length (db_removed_requests c))) @ nb @ cb @ eb @ le_bytes (Suc 0) ?f @ kb"
  have "encode_body (DraftBatch c) = Inr bs"
    using v f nb cb eb kb by (simp add: bs_def concat_r_Inr wire_simps del: wire_del)
  moreover have "decode_draft_batch (db_worker_id c) (db_worker_generation c) (db_command_seq c) r
      = Inr (c, skip (length bs) r)" if "sees r bs" for r
  proof -
    let ?r3 = "skip (12 + length nb + length cb + length eb) r"
    from that v f have p: "avail 4 r" "peek 4 r = int (length (db_new_requests c))"
      "avail 4 (skip 4 r)" "peek 4 (skip 4 r) = int (length (db_cached_request_deltas c))"
      "avail 4 (skip 8 r)" "peek 4 (skip 8 r) = int (length (db_removed_requests c))"
      "sees (skip 12 r) nb" "sees (skip (12 + length nb) r) cb" "sees (skip (12 + length nb + length cb) r) eb"
      "avail (Suc 0) ?r3" "peek (Suc 0) ?r3 = ?f" "sees (skip (Suc 0) ?r3) kb"
      by (simp_all add: bs_def sees_append wire_simps add.assoc del: wire_del)
    have e: "rd_list rd_new_request (length (db_new_requests c)) (skip 12 r) = Inr (db_new_requests c, skip (12 + length nb) r)"
      "rd_list rd_cached_delta (length (db_cached_request_deltas c)) (skip (12 + length nb) r) =
         Inr (db_cached_request_deltas c, skip (12 + length nb + length cb) r)"
      "rd_list rd_removed_request (length (db_removed_requests c)) (skip (12 + length nb + length cb) r) =
         Inr (db_removed_requests c, ?r3)"
      using rn [OF p(7)] rc [OF p(8)] re [OF p(9)] by simp_all
    define c0 where "c0 = c\<lparr>db_bank := None\<rparr>"
    have c0: "\<lparr>db_worker_id = db_worker_id c, db_worker_generation = db_worker_generation c, db_command_seq = db_command_seq c,
        db_new_requests = db_new_requests c, db_cached_request_deltas = db_cached_request_deltas c,
        db_removed_requests = db_removed_requests c, db_bank = None\<rparr> = c0"
      by (simp add: c0_def)
    have "decode_draft_batch (db_worker_id c) (db_worker_generation c) (db_command_seq c) r =
        bind_r (check_draft_batch c0) (\<lambda>_. bind_r (rd_u8 ?r3) (\<lambda>(variant, r).
          if variant = 0 then Inr (c0, r)
          else if variant = 1 then bind_r (rd_initial_bank r) (\<lambda>(bank, r).
            let c' = c0\<lparr>db_bank := Some bank\<rparr> in bind_r (check_draft_batch c') (\<lambda>_. Inr (c', r)))
          else Inl (ValueError ''invalid initial Draft Bank variant'')))"
      using p e c0 by (simp add: decode_draft_batch_def wire_simps Let_def del: wire_del)
    also have "\<dots> = Inr (c, skip (length bs) r)"
    proof (cases "db_bank c")
      case None
      then have "c0 = c" by (simp add: c0_def)
      with None p k0 ck show ?thesis by (simp add: bs_def wire_simps add.assoc del: wire_del)
    next
      case (Some b)
      have "c0\<lparr>db_bank := Some b\<rparr> = c" using Some by (simp add: c0_def)
      with Some p ck ck0 rk [OF p(12) Some] show ?thesis
        by (simp add: bs_def wire_simps add.assoc c0_def [symmetric] del: wire_del)
    qed
    finally show ?thesis .
  qed
  ultimately show ?thesis by (auto simp: body_survives_def lift_command_def)
qed

lemma body_survives_all:
  "command_ok c \<Longrightarrow> command_counts_ok c \<Longrightarrow> command_kind_of c \<noteq> WORK \<Longrightarrow> body_survives c"
proof (cases c)
  case (PrepareDraftBank d)
  then show "command_ok c \<Longrightarrow> command_counts_ok c \<Longrightarrow> ?thesis"
    using prepare_draft_roundtrip [of d] by (fastforce simp: body_survives_def lift_command_def)
next
  case (RunDraftBatch d)
  then show "command_ok c \<Longrightarrow> command_counts_ok c \<Longrightarrow> ?thesis"
    using run_draft_roundtrip [of d] by (fastforce simp: body_survives_def lift_command_def)
qed (use draft_batch_survives prefill_survives prepare_target_survives run_target_survives in simp_all)

lemma payload_roundtrip:
  assumes ok: "command_ok c" "command_counts_ok c"
  shows "\<exists>bs. encode_command_payload c = Inr bs \<and>
    decode_command_payload (command_kind_of c) bs (command_worker_id c) (command_generation c) (command_seq_of c) = Inr c"
proof (cases "command_kind_of c = WORK")
  case True
  then obtain w where w: "c = WorkCommand w" by (cases c) simp_all
  then obtain bs where "work_to_bytes w = Inr bs" using ok by auto
  with w ok work_roundtrip(1) [of w bs] show ?thesis
    by (auto simp: encode_command_payload_def decode_command_payload_def)
next
  case False
  from body_survives_all [OF ok False] obtain bs where e: "encode_body c = Inr bs"
    and d: "\<And>r. sees r bs \<Longrightarrow> decode_body (command_kind_of c) (command_worker_id c) (command_generation c) (command_seq_of c) r
       = Inr (c, skip (length bs) r)"
    by (auto simp: body_survives_def)
  have v: "is_valid U32 command_payload_magic" "is_valid U32 command_protocol_version"
    by (simp_all add: command_payload_magic_def command_protocol_version_def)
  define all where "all = le_bytes 4 command_payload_magic @ le_bytes 4 command_protocol_version
    @ le_bytes 4 (kind_int (command_kind_of c)) @ bs"
  define r where "r = new_reader all"
  have "encode_command_payload c = Inr all"
    using False v e by (simp add: encode_command_payload_def all_def wire_simps del: wire_del)
  moreover have "sees r all" unfolding r_def by (rule sees_new_reader)
  then have p: "avail 4 r" "peek 4 r = command_payload_magic" "avail 4 (skip 4 r)" "peek 4 (skip 4 r) = command_protocol_version"
    "avail 4 (skip 8 r)" "peek 4 (skip 8 r) = kind_int (command_kind_of c)" "sees (skip 12 r) bs"
    using v by (simp_all add: all_def sees_append wire_simps del: wire_del)
  have "rd_finish (skip (12 + length bs) r) = Inr ()"
    using rd_finish_skip [of all] by (simp add: r_def all_def)
  with p d [OF p(7)] False have "decode_command_payload (command_kind_of c) all (command_worker_id c) (command_generation c) (command_seq_of c) = Inr c"
    by (simp add: decode_command_payload_def wire_simps flip: r_def del: wire_del)
  ultimately show ?thesis by blast
qed

text \<open>So a payload is never ambiguous.\<close>

lemma payload_unambiguous:
  assumes "command_ok c" "command_counts_ok c" "command_ok c'" "command_counts_ok c'"
    and "encode_command_payload c = encode_command_payload c'"
    and "command_kind_of c = command_kind_of c'" "command_worker_id c = command_worker_id c'"
    and "command_generation c = command_generation c'" "command_seq_of c = command_seq_of c'"
  shows "c = c'"
  using payload_roundtrip [OF assms(1,2)] payload_roundtrip [OF assms(3,4)] assms(5-9) by auto

section \<open>Properties\<close>

text \<open>C4: the command protocol loses nothing: every well-formed command of every kind encodes, and the worker
  that decodes the payload under the header's kind, worker, generation and sequence gets exactly the
  command the scheduler built, rows in order and bank included.\<close>

theorem command_payload_roundtrip:
  assumes "command_ok c" "command_counts_ok c"
  shows "\<exists>bs. encode_command_payload c = Inr bs \<and>
    decode_command_payload (command_kind_of c) bs (command_worker_id c) (command_generation c) (command_seq_of c) = Inr c"
  using assms by (rule payload_roundtrip)

definition draft_batch_example :: hot_command where
  "draft_batch_example = DraftBatch \<lparr>db_worker_id = 2, db_worker_generation = 3, db_command_seq = 5,
     db_new_requests = [\<lparr>nr_request_slot = 4, nr_request_epoch = 1, nr_round_id = 0, nr_op_seq = 9,
       nr_scheduled_token_count = 4, nr_input_tokens_handle = \<lparr>h_offset = 0, h_length = 40, h_generation = 1\<rparr>,
       nr_initial_output_tokens_handle = \<lparr>h_offset = 40, h_length = 4, h_generation = 1\<rparr>,
       nr_generation_config_handle = \<lparr>h_offset = 0, h_length = 64, h_generation = 1\<rparr>,
       nr_initial_kv_handle = null_handle\<rparr>],
     db_cached_request_deltas = [], db_removed_requests = [],
     db_bank = Some \<lparr>ib_bank_id = 0, ib_bank_epoch = 1, ib_batch_seq = 1, ib_block_size = 16, ib_capacity_blocks = [2]\<rparr>\<rparr>"

theorem command_payload_roundtrip_witness:
  "\<exists>bs. encode_command_payload draft_batch_example = Inr bs \<and>
    decode_command_payload DRAFT_BATCH bs 2 3 5 = Inr draft_batch_example"
proof -
  have "command_ok draft_batch_example" "command_counts_ok draft_batch_example"
    unfolding draft_batch_example_def by (simp_all, code_simp)
  then show ?thesis
    using command_payload_roundtrip [of draft_batch_example] by (simp add: draft_batch_example_def)
qed

end
