(* ===== verification/CommandPlane.thy ===== *)
theory CommandPlane
  imports ProtocolRoundtrip CommandRing
begin

text \<open>
  The command path from the dispatcher to a worker: the transmission part of
  \<open>DispatchPlane.dispatch\<close> (\<open>scheduler/commands.py\<close>) onto one \<open>WorkerCommandEndpoint\<close>, and
  \<open>CommandEnvelope.decode\<close> (\<open>ipc/command_ring.py\<close>) after \<open>consume\<close>. The table facts that
  \<open>dispatch\<close> reads before and publishes after the transmission are not part of this theory.
\<close>

section \<open>Both ends\<close>

record endpoint =
  ep_worker_id :: int
  ep_worker_generation :: int
  ep_ring :: command_ring
  ep_arena :: command_arena

definition new_endpoint :: "int \<Rightarrow> int \<Rightarrow> int \<Rightarrow> int \<Rightarrow> int \<Rightarrow> endpoint result" where
  "new_endpoint worker generation slots bytes arena_generation =
     bind_r (new_command_ring slots) (\<lambda>r. bind_r (new_command_arena bytes arena_generation) (\<lambda>a.
       Inr \<lparr>ep_worker_id = worker, ep_worker_generation = generation, ep_ring = r, ep_arena = a\<rparr>))"

text \<open>\<open>_endpoint_for\<close> and \<open>_validate_worker_generation\<close> at this endpoint.\<close>

definition endpoint_accepts :: "hot_command \<Rightarrow> endpoint \<Rightarrow> unit result" where
  "endpoint_accepts c e =
     bind_r (require (command_worker_id c = ep_worker_id e) (KeyError ''no command endpoint for worker'')) (\<lambda>_.
     bind_r (require (command_kind_of c \<noteq> WORK) (AttributeError ''target_generation'')) (\<lambda>_.
     require (command_generation c = ep_worker_generation e) (ValueError ''stale worker_generation in scheduler command'')))"

text \<open>
  The header, or the error, with the endpoint that is left behind: a ring that refuses the
  header undoes the allocation.
\<close>

definition transmit :: "hot_command \<Rightarrow> endpoint \<Rightarrow> command_header result \<times> endpoint" where
  "transmit c e =
     (case bind_r (endpoint_accepts c e) (\<lambda>_.
           bind_r (require (can_push (ep_ring e)) (CommandBackpressure ''command ring is full'')) (\<lambda>_.
           bind_r (encode_command_payload c) (\<lambda>payload. allocate (ep_arena e) (command_seq_of c) payload))) of
        Inl err \<Rightarrow> (Inl err, e)
      | Inr (handle, a) \<Rightarrow>
          (case mk_header (command_seq_of c) (ep_worker_generation e) (command_kind_of c) (h_offset handle) (h_length handle) 0 of
             Inl err \<Rightarrow> (Inl err, e\<lparr>ep_arena := a\<rparr>)
           | Inr header \<Rightarrow>
               (case ring_publish header (ep_ring e) of
                  Inr r \<Rightarrow> (Inr header, e\<lparr>ep_ring := r, ep_arena := a\<rparr>)
                | Inl err \<Rightarrow>
                    (case discard_last a (command_seq_of c) of
                       Inl err' \<Rightarrow> (Inl err', e\<lparr>ep_arena := a\<rparr>)
                     | Inr a' \<Rightarrow> (Inl err, e\<lparr>ep_arena := a'\<rparr>)))))"

definition envelope_decode :: "command_envelope \<Rightarrow> int \<Rightarrow> hot_command result" where
  "envelope_decode env worker =
     decode_command_payload (ch_command_kind (env_header env)) (env_payload env) worker
       (ch_worker_generation (env_header env)) (ch_command_seq (env_header env))"

text \<open>One turn of the worker: consume, then decode what was consumed.\<close>

definition receive :: "endpoint \<Rightarrow> hot_command option result \<times> endpoint" where
  "receive e = (case consume (ep_worker_generation e) (ep_ring e) (ep_arena e) of
       (Inl err, r, a) \<Rightarrow> (Inl err, e\<lparr>ep_ring := r, ep_arena := a\<rparr>)
     | (Inr None, r, a) \<Rightarrow> (Inr None, e\<lparr>ep_ring := r, ep_arena := a\<rparr>)
     | (Inr (Some env), r, a) \<Rightarrow>
         (map_sum id Some (envelope_decode env (ep_worker_id e)), e\<lparr>ep_ring := r, ep_arena := a\<rparr>))"

section \<open>Commands in flight\<close>

text \<open>A header in the ring and a live payload in the arena carry a command.\<close>

definition carries :: "endpoint \<Rightarrow> hot_command \<Rightarrow> command_header \<times> int \<times> arena_handle \<times> bytes \<Rightarrow> bool" where
  "carries e c = (\<lambda>(h, s, hd, p).
     command_ok c \<and> command_counts_ok c \<and> endpoint_accepts c e = Inr ()
     \<and> ch_command_seq h = command_seq_of c \<and> s = command_seq_of c \<and> ch_worker_generation h = ep_worker_generation e
     \<and> ch_command_kind h = command_kind_of c \<and> header_payload_handle h (ca_generation (ep_arena e)) = Inr hd
     \<and> encode_command_payload c = Inr p)"

definition in_flight :: "endpoint \<Rightarrow> hot_command list \<Rightarrow> bool" where
  "in_flight e cs \<longleftrightarrow> is_valid WORKER_GENERATION (ep_worker_generation e) \<and> ring_inv (ep_ring e) \<and> arena_inv (ep_arena e)
     \<and> (\<exists>xs. pending_headers (ep_ring e) = map fst xs \<and> arena_view (ep_arena e) = map snd xs
            \<and> list_all2 (carries e) cs xs)"

lemma carries_cong:
  "ep_worker_id e' = ep_worker_id e \<Longrightarrow> ep_worker_generation e' = ep_worker_generation e \<Longrightarrow>
   ca_generation (ep_arena e') = ca_generation (ep_arena e) \<Longrightarrow> carries e' = carries e"
  by (simp add: carries_def endpoint_accepts_def fun_eq_iff)

lemma allocate_generation: "allocate a s p = Inr (h, a') \<Longrightarrow> ca_generation a' = ca_generation a"
  by (auto simp: allocate_def reserve_def bind_r_eq_Inr split: if_splits)

lemma release_generation: "release_through a c = Inr a' \<Longrightarrow> ca_generation a' = ca_generation a"
  by (auto simp: release_through_def bind_r_eq_Inr split: prod.splits)

lemma discard_generation: "discard_last a c = Inr a' \<Longrightarrow> ca_generation a' = ca_generation a"
  by (auto simp: discard_last_def bind_r_eq_Inr Let_def)

lemma allocate_seq_valid: "allocate a s p = Inr (h, a') \<Longrightarrow> is_valid U64 s"
  by (auto simp: allocate_def bind_r_eq_Inr simp del: valid_U64)

lemma discard_new:
  assumes "allocate a s p = Inr (h, a')" "arena_inv a"
  obtains a'' where "discard_last a' s = Inr a''" "arena_inv a''" "arena_view a'' = arena_view a"
    "ca_generation a'' = ca_generation a"
proof -
  have inv: "arena_inv a'" and v: "arena_view a' = arena_view a @ [(s, h, p)]"
    using allocate_inv [OF assms] allocate_view [OF assms] by simp_all
  have "ca_allocations a' \<noteq> []" using v by (auto simp: arena_view_def)
  moreover have "al_seq (last (ca_allocations a')) = s"
  proof -
    have "fst (last (arena_view a')) = s" using v by simp
    with \<open>ca_allocations a' \<noteq> []\<close> show ?thesis by (simp add: arena_view_def last_map)
  qed
  ultimately obtain a'' where d: "discard_last a' s = Inr a''"
    using allocate_seq_valid [OF assms(1)] by (auto simp: discard_last_def Let_def)
  show ?thesis
    using that [OF d] discard_last_result [OF d inv] v discard_generation [OF d] allocate_generation [OF assms(1)] by simp
qed

lemma transmit_header:
  assumes "allocate a s p = Inr (h, a')" "arena_inv a" "is_valid U64 g"
  obtains hd where "mk_header s g k (h_offset h) (h_length h) 0 = Inr hd" "header_ok hd" "ch_command_seq hd = s"
    "ch_worker_generation hd = g" "ch_command_kind hd = k" "header_payload_handle hd (ca_generation a) = Inr h"
proof -
  have h: "handle_ok h" "h_generation h = ca_generation a"
    using assms(1) by (auto simp: allocate_def bind_r_eq_Inr mk_handle_def Let_def)
  then have "is_valid U64 (h_offset h)" "is_valid U32 (h_length h)" by (simp_all add: handle_ok_iff)
  then show ?thesis
    using allocate_seq_valid [OF assms(1)] assms(3) h
    by (intro that [of "\<lparr>ch_command_seq = s, ch_worker_generation = g, ch_command_kind = k,
        ch_payload_offset = h_offset h, ch_payload_length = h_length h, ch_flags = 0\<rparr>"])
      (simp_all add: mk_header_def check_header_def header_ok_def header_payload_handle_def flip: h(2))
qed

lemma transmit_in_flight:
  assumes fl: "in_flight e cs" and c: "command_ok c" "command_counts_ok c" and t: "transmit c e = (res, e')"
  shows "in_flight e' (case res of Inl _ \<Rightarrow> cs | Inr _ \<Rightarrow> cs @ [c])"
    and "ep_worker_id e' = ep_worker_id e" "ep_worker_generation e' = ep_worker_generation e"
proof -
  let ?pre = "bind_r (endpoint_accepts c e) (\<lambda>_.
           bind_r (require (can_push (ep_ring e)) (CommandBackpressure ''command ring is full'')) (\<lambda>_.
           bind_r (encode_command_payload c) (\<lambda>payload. allocate (ep_arena e) (command_seq_of c) payload)))"
  from fl obtain xs where g: "is_valid U64 (ep_worker_generation e)" and ri: "ring_inv (ep_ring e)" and ai: "arena_inv (ep_arena e)"
    and xs: "pending_headers (ep_ring e) = map fst xs" "arena_view (ep_arena e) = map snd xs" "list_all2 (carries e) cs xs"
    by (auto simp: in_flight_def simp del: valid_U64)
  have "in_flight e' (case res of Inl _ \<Rightarrow> cs | Inr _ \<Rightarrow> cs @ [c]) \<and> ep_worker_id e' = ep_worker_id e
     \<and> ep_worker_generation e' = ep_worker_generation e"
  proof (cases ?pre)
    case (Inl err)
    with t fl show ?thesis by (auto simp: transmit_def)
  next
    case (Inr y)
    then obtain handle a p where y: "y = (handle, a)" and p: "encode_command_payload c = Inr p"
      and al: "allocate (ep_arena e) (command_seq_of c) p = Inr (handle, a)" and ok: "endpoint_accepts c e = Inr ()"
      by (cases y) (auto simp: bind_r_eq_Inr)
    obtain h where h: "mk_header (command_seq_of c) (ep_worker_generation e) (command_kind_of c) (h_offset handle) (h_length handle) 0 = Inr h"
      "header_ok h" "ch_command_seq h = command_seq_of c" "ch_worker_generation h = ep_worker_generation e"
      "ch_command_kind h = command_kind_of c" "header_payload_handle h (ca_generation (ep_arena e)) = Inr handle"
      using transmit_header [OF al ai g] .
    show ?thesis
    proof (cases "ring_publish h (ep_ring e)")
      case (Inl err)
      obtain a' where d: "discard_last a (command_seq_of c) = Inr a'" "arena_inv a'" "arena_view a' = arena_view (ep_arena e)"
        "ca_generation a' = ca_generation (ep_arena e)"
        using discard_new [OF al ai] .
      have "e' = e\<lparr>ep_arena := a'\<rparr>" "res = Inl err" using t Inr y h Inl d by (auto simp: transmit_def)
      moreover have "carries (e\<lparr>ep_arena := a'\<rparr>) = carries e" by (rule carries_cong) (simp_all add: d)
      ultimately show ?thesis using g ri d xs by (auto simp: in_flight_def simp del: valid_U64)
    next
      case (Inr r)
      have e': "e' = e\<lparr>ep_ring := r, ep_arena := a\<rparr>" "res = Inr h" using t \<open>?pre = Inr y\<close> y h Inr by (auto simp: transmit_def)
      have r: "ring_inv r" "pending_headers r = pending_headers (ep_ring e) @ [h]"
        using publish_inv [OF ri Inr h(2)] by simp_all
      have same: "carries e' = carries e" by (rule carries_cong) (simp_all add: e' allocate_generation [OF al])
      let ?x = "(h, command_seq_of c, handle, p)"
      have "carries e c ?x" using c ok h p by (simp add: carries_def)
      then have "list_all2 (carries e') (cs @ [c]) (xs @ [?x])"
        using xs(3) by (simp add: same list_all2_appendI)
      with g r xs allocate_inv [OF al ai] allocate_view [OF al ai] show ?thesis
        unfolding in_flight_def by (auto simp: e' intro!: exI [of _ "xs @ [?x]"] simp del: valid_U64)
    qed
  qed
  then show "in_flight e' (case res of Inl _ \<Rightarrow> cs | Inr _ \<Rightarrow> cs @ [c])"
    "ep_worker_id e' = ep_worker_id e" "ep_worker_generation e' = ep_worker_generation e" by simp_all
qed

lemma release_head:
  assumes "arena_inv a" "arena_view a = (s, h, p) # vs"
  obtains a' where "release_through a s = Inr a'" "arena_inv a'" "arena_view a' = vs"
proof -
  have seqs: "map al_seq (ca_allocations a) = s # map fst vs"
    using arg_cong [OF assms(2), of "map fst"] by (simp add: arena_view_def comp_def)
  have "\<forall>x \<in> set (map al_seq (ca_allocations a)). is_valid U64 x" "ascending (map al_seq (ca_allocations a))"
    using assms(1) by (simp_all add: arena_inv_def del: valid_U64)
  then have v: "\<forall>x \<in> set (s # map fst vs). is_valid U64 x" and asc: "ascending (s # map fst vs)"
    unfolding seqs .
  from v have s: "is_valid U64 s" by (simp del: valid_U64)
  obtain a' where a': "release_through a s = Inr a'" "arena_inv a'"
    "arena_view a' = dropWhile (\<lambda>(s', _). reached s s') (arena_view a)"
    using release_through_result [OF assms(1) s] .
  have "dropWhile (\<lambda>(s', _). reached s s') (arena_view a) = vs"
  proof (cases vs)
    case Nil
    then show ?thesis using assms(2) by (simp add: reached_def)
  next
    case (Cons w ws)
    have n: "newer_id U64 (fst w) s" using asc Cons by simp
    have "fst w \<noteq> s" using n s by (auto simp: newer_id_def is_newer_valid simp del: valid_U64)
    moreover have "\<not> newer_id U64 s (fst w)"
      using newer_id_trichotomy [of U64 "fst w" s] n v Cons \<open>fst w \<noteq> s\<close> by (simp add: U64_def del: valid_U64)
    ultimately show ?thesis using assms(2) Cons by (cases w) (simp add: reached_def)
  qed
  with a' that show ?thesis by simp
qed

lemma receive_in_flight:
  assumes fl: "in_flight e (c # cs)"
  obtains e' where "receive e = (Inr (Some c), e')" "in_flight e' cs" "ep_worker_id e' = ep_worker_id e"
    "ep_worker_generation e' = ep_worker_generation e"
proof -
  from fl obtain h s hd p xs where g: "is_valid U64 (ep_worker_generation e)" and ri: "ring_inv (ep_ring e)"
    and ai: "arena_inv (ep_arena e)"
    and xs: "pending_headers (ep_ring e) = h # map fst xs" "arena_view (ep_arena e) = (s, hd, p) # map snd xs"
      "list_all2 (carries e) cs xs" and ca: "carries e c (h, s, hd, p)"
    by (auto simp: in_flight_def list_all2_Cons1 simp del: valid_U64)
  have k: "ch_worker_generation h = ep_worker_generation e" "ch_command_seq h = s" "s = command_seq_of c"
    "header_payload_handle h (ca_generation (ep_arena e)) = Inr hd" "command_ok c" "command_counts_ok c"
    "encode_command_payload c = Inr p" "ch_command_kind h = command_kind_of c"
    "command_worker_id c = ep_worker_id e" "command_generation c = ep_worker_generation e"
    using ca by (auto simp: carries_def endpoint_accepts_def bind_r_eq_Inr)
  obtain r where r: "take_header (ep_worker_generation e) (ep_ring e) = Inr (Some h, r)" "ring_inv r" "pending_headers r = map fst xs"
    using take_header_some [OF ri xs(1) g k(1)] by metis
  have rd: "read_arena (ep_arena e) hd = Inr p"
    using command_store.fetch_live [OF ai, of s hd p] xs(2) by simp
  obtain a where a: "release_through (ep_arena e) s = Inr a" "arena_inv a" "arena_view a = map snd xs"
    using release_head [OF ai xs(2)] .
  define e' where "e' = e\<lparr>ep_ring := r, ep_arena := a\<rparr>"
  have "envelope_decode \<lparr>env_header = h, env_payload = p\<rparr> (ep_worker_id e) = Inr c"
    using payload_roundtrip [OF k(5,6)] k by (simp add: envelope_decode_def)
  moreover have "consume (ep_worker_generation e) (ep_ring e) (ep_arena e) =
      (Inr (Some \<lparr>env_header = h, env_payload = p\<rparr>), r, a)"
    using r(1) rd a(1) k(2,4) by (simp add: consume_def)
  ultimately have "receive e = (Inr (Some c), e')" by (simp add: receive_def e'_def)
  moreover have "carries e' = carries e" by (rule carries_cong) (simp_all add: e'_def release_generation [OF a(1)])
  then have "in_flight e' cs"
    using g r a xs(3) unfolding in_flight_def by (auto simp: e'_def simp del: valid_U64)
  ultimately show ?thesis by (intro that [of e']) (simp_all add: e'_def)
qed

lemma receive_empty:
  assumes "in_flight e []" shows "receive e = (Inr None, e)"
  using assms take_header_empty [of "ep_ring e" "ep_worker_generation e"]
  by (auto simp: in_flight_def receive_def consume_def simp del: valid_U64)

section \<open>Histories\<close>

datatype plane_op = Send hot_command | Receive

text \<open>What was accepted for sending, and what each successful receive handed over.\<close>

record plane_log =
  pl_endpoint :: endpoint
  pl_sent :: "hot_command list"
  pl_received :: "hot_command list"
  pl_receive_errors :: "py_error list"

fun plane_step :: "plane_log \<Rightarrow> plane_op \<Rightarrow> plane_log" where
  "plane_step l (Send c) = (case transmit c (pl_endpoint l) of
      (Inl _, e) \<Rightarrow> l\<lparr>pl_endpoint := e\<rparr>
    | (Inr _, e) \<Rightarrow> l\<lparr>pl_endpoint := e, pl_sent := pl_sent l @ [c]\<rparr>)"
| "plane_step l Receive = (case receive (pl_endpoint l) of
      (Inl err, e) \<Rightarrow> l\<lparr>pl_endpoint := e, pl_receive_errors := pl_receive_errors l @ [err]\<rparr>
    | (Inr None, e) \<Rightarrow> l\<lparr>pl_endpoint := e\<rparr>
    | (Inr (Some c), e) \<Rightarrow> l\<lparr>pl_endpoint := e, pl_received := pl_received l @ [c]\<rparr>)"

definition well_formed_op :: "plane_op \<Rightarrow> bool" where
  "well_formed_op op = (case op of Send c \<Rightarrow> command_ok c \<and> command_counts_ok c | Receive \<Rightarrow> True)"

definition plane_inv :: "plane_log \<Rightarrow> bool" where
  "plane_inv l \<longleftrightarrow> pl_receive_errors l = []
     \<and> (\<exists>cs. in_flight (pl_endpoint l) cs \<and> pl_sent l = pl_received l @ cs)"

lemma plane_step_inv:
  assumes inv: "plane_inv l" and wf: "well_formed_op op"
  shows "plane_inv (plane_step l op)"
proof -
  from inv obtain cs where fl: "in_flight (pl_endpoint l) cs" and s: "pl_sent l = pl_received l @ cs" "pl_receive_errors l = []"
    by (auto simp: plane_inv_def)
  show ?thesis
  proof (cases op)
    case (Send c)
    obtain res e where t: "transmit c (pl_endpoint l) = (res, e)" by (metis prod.exhaust)
    from transmit_in_flight(1) [OF fl _ _ t] wf Send have "in_flight e (case res of Inl _ \<Rightarrow> cs | Inr _ \<Rightarrow> cs @ [c])"
      by (simp add: well_formed_op_def)
    with Send t s show ?thesis by (auto simp: plane_inv_def split: sum.splits)
  next
    case Receive
    show ?thesis
    proof (cases cs)
      case Nil
      with receive_empty fl Receive s show ?thesis by (auto simp: plane_inv_def)
    next
      case (Cons c cs')
      with fl obtain e where "receive (pl_endpoint l) = (Inr (Some c), e)" "in_flight e cs'"
        by (auto elim: receive_in_flight)
      with Receive Cons s show ?thesis by (auto simp: plane_inv_def)
    qed
  qed
qed

lemma plane_history_inv: "plane_inv l \<Longrightarrow> \<forall>op \<in> set ops. well_formed_op op \<Longrightarrow> plane_inv (foldl plane_step l ops)"
  by (induction ops arbitrary: l) (simp_all add: plane_step_inv)

definition fresh_log :: "endpoint \<Rightarrow> plane_log" where
  "fresh_log e = \<lparr>pl_endpoint = e, pl_sent = [], pl_received = [], pl_receive_errors = []\<rparr>"

lemma new_endpoint_inv:
  assumes "new_endpoint worker gen slots bytes agen = Inr e" "is_valid WORKER_GENERATION gen"
  shows "plane_inv (fresh_log e)"
  using assms new_command_ring_inv new_arena_inv
  by (fastforce simp: new_endpoint_def bind_r_eq_Inr plane_inv_def fresh_log_def in_flight_def simp del: valid_U64)

section \<open>Properties\<close>

text \<open>C1: end-to-end delivery: in every interleaving of dispatches of well-formed commands and worker turns
  on a fresh endpoint, refused dispatches included, no worker turn fails, and the commands the worker
  decodes are exactly the accepted ones, complete, in order and without duplicates; the ones accepted
  and not yet received are all still in flight.\<close>

theorem commands_delivered_in_order:
  assumes "new_endpoint worker gen slots bytes agen = Inr e" "is_valid WORKER_GENERATION gen"
    and "\<forall>op \<in> set ops. well_formed_op op" and "l = foldl plane_step (fresh_log e) ops"
  shows "pl_receive_errors l = [] \<and> (\<exists>cs. in_flight (pl_endpoint l) cs \<and> pl_sent l = pl_received l @ cs)"
  using plane_history_inv [OF new_endpoint_inv [OF assms(1,2)] assms(3)] unfolding assms(4) plane_inv_def .

theorem commands_delivered_in_order_witness:
  "\<exists>e l cs. new_endpoint 2 3 2 512 1 = Inr e
     \<and> l = foldl plane_step (fresh_log e) [Send draft_batch_example, Receive, Send draft_batch_example]
     \<and> pl_receive_errors l = [] \<and> pl_sent l = pl_received l @ cs"
proof -
  obtain e where e: "new_endpoint 2 3 2 512 1 = Inr e"
    by (simp add: new_endpoint_def new_command_ring_def new_command_arena_def)
  have "\<forall>op \<in> set [Send draft_batch_example, Receive, Send draft_batch_example]. well_formed_op op" by code_simp
  from commands_delivered_in_order [OF e _ this refl] e show ?thesis by auto
qed


definition closed_endpoint :: endpoint where
  "closed_endpoint = (let e = projr (new_endpoint 2 3 2 512 1) in e\<lparr>ep_ring := close_producer (ep_ring e)\<rparr>)"


end
