(* ===== verification/CommandCache.thy ===== *)
theory CommandCache
  imports ProtocolCodec "HOL-Library.AList"
begin

text \<open>
  \<open>WorkerCommandCache\<close> of \<open>ipc/protocol.py\<close>: the worker's record of its requests and of the batch
  prepared in each bank. The code applies a command to copies of its dictionaries and installs
  them at the end, so a raising \<open>apply\<close> leaves the cache as it was. The request dictionary is a
  map, the batch dictionary, which the code iterates over, an association list.
\<close>

section \<open>State\<close>

record cache_entry =
  ce_request_slot :: int
  ce_request_epoch :: int
  ce_last_round_id :: int
  ce_last_op_seq :: int
  ce_input_tokens_handle :: arena_handle
  ce_initial_output_tokens_handle :: arena_handle
  ce_generation_config_handle :: arena_handle
  ce_token_delta_handle :: arena_handle
  ce_proposal_handle :: arena_handle
  ce_hostkv_handle :: hostkv_handle
  ce_target_bank_mapping_handle :: arena_handle
  ce_prepared_batch_seq :: "int option"
  ce_prepared_bank_id :: "int option"
  ce_prepared_bank_epoch :: "int option"

record prepared_batch =
  pb_batch_seq :: int
  pb_bank_id :: int
  pb_bank_epoch :: int
  pb_ordered_request_keys :: "request_key list"
  pb_consumed :: bool

fun check_batch_keys :: "int set \<Rightarrow> request_key list \<Rightarrow> unit result" where
  "check_batch_keys seen [] = Inr ()"
| "check_batch_keys seen ((slot, epoch) # ks) =
     bind_r (checks [check_id REQUEST_SLOT slot, check_id REQUEST_EPOCH epoch,
                     require (slot \<notin> seen) (ValueError ''prepared batch contains duplicate request slot'')])
       (\<lambda>_. check_batch_keys (insert slot seen) ks)"

definition mk_prepared_batch :: "int \<Rightarrow> int \<Rightarrow> int \<Rightarrow> request_key list \<Rightarrow> bool \<Rightarrow> prepared_batch result" where
  "mk_prepared_batch seq bank epoch keys consumed =
     bind_r (checks [check_id BATCH_SEQ seq, check_id BANK_ID bank, check_id BANK_EPOCH epoch, check_batch_keys {} keys])
       (\<lambda>_. Inr \<lparr>pb_batch_seq = seq, pb_bank_id = bank, pb_bank_epoch = epoch,
                 pb_ordered_request_keys = keys, pb_consumed = consumed\<rparr>)"

definition mark_consumed :: "prepared_batch \<Rightarrow> prepared_batch result" where
  "mark_consumed b = mk_prepared_batch (pb_batch_seq b) (pb_bank_id b) (pb_bank_epoch b) (pb_ordered_request_keys b) True"

type_synonym entries = "int \<rightharpoonup> cache_entry"
type_synonym batches = "(int \<times> prepared_batch) list"

record command_cache =
  cc_worker_id :: int
  cc_worker_generation :: int
  cc_draft_prepared :: draft_prepared
  cc_last_command_seq :: "int option"
  cc_entries :: entries
  cc_prepared_batches :: batches

definition new_command_cache :: "int \<Rightarrow> int \<Rightarrow> command_cache result" where
  "new_command_cache worker generation =
     bind_r (checks [check_id WORKER_ID worker, check_id WORKER_GENERATION generation]) (\<lambda>_.
       Inr \<lparr>cc_worker_id = worker, cc_worker_generation = generation, cc_draft_prepared = None,
            cc_last_command_seq = None, cc_entries = Map.empty, cc_prepared_batches = []\<rparr>)"

section \<open>Rows\<close>

definition operation_is_newer :: "int \<Rightarrow> int \<Rightarrow> int \<Rightarrow> int \<Rightarrow> bool result" where
  "operation_is_newer round op prev_round prev_op =
     bind_r (is_newer ROUND_ID round prev_round) (\<lambda>a.
       if a then Inr True
       else if round = prev_round then is_newer OP_SEQ op prev_op else Inr False)"

definition null_hostkv :: hostkv_handle where
  "null_hostkv = \<lparr>hk_offset_blocks = 0, hk_block_count = 0, hk_generation = 0\<rparr>"

definition apply_new :: "new_request_data \<Rightarrow> entries \<Rightarrow> entries result" where
  "apply_new row es =
     bind_r (require (es (nr_request_slot row) = None)
               (ValueError ''NewRequestData cannot overwrite an initialized worker cache entry'')) (\<lambda>_.
       Inr (es(nr_request_slot row \<mapsto>
         \<lparr>ce_request_slot = nr_request_slot row, ce_request_epoch = nr_request_epoch row,
          ce_last_round_id = nr_round_id row, ce_last_op_seq = nr_op_seq row,
          ce_input_tokens_handle = nr_input_tokens_handle row,
          ce_initial_output_tokens_handle = nr_initial_output_tokens_handle row,
          ce_generation_config_handle = nr_generation_config_handle row,
          ce_token_delta_handle = null_handle, ce_proposal_handle = null_handle, ce_hostkv_handle = null_hostkv,
          ce_target_bank_mapping_handle = null_handle, ce_prepared_batch_seq = None, ce_prepared_bank_id = None,
          ce_prepared_bank_epoch = None\<rparr>)))"

definition require_newer_op :: "int \<Rightarrow> int \<Rightarrow> cache_entry \<Rightarrow> string \<Rightarrow> unit result" where
  "require_newer_op round op current msg =
     bind_r (operation_is_newer round op (ce_last_round_id current) (ce_last_op_seq current))
       (\<lambda>newer. require newer (ValueError msg))"

definition apply_delta :: "cached_request_delta \<Rightarrow> entries \<Rightarrow> entries result" where
  "apply_delta row es = (case es (cd_request_slot row) of
       None \<Rightarrow> Inl (ValueError ''CachedRequestDelta requires an initialized worker cache entry'')
     | Some current \<Rightarrow>
         bind_r (require (ce_request_epoch current = cd_request_epoch row)
                   (ValueError ''CachedRequestDelta request_epoch does not match worker cache'')) (\<lambda>_.
         bind_r (require_newer_op (cd_round_id row) (cd_op_seq row) current
                   ''CachedRequestDelta round/op must move forward'') (\<lambda>_.
           Inr (es(cd_request_slot row \<mapsto> current
             \<lparr>ce_request_slot := cd_request_slot row, ce_request_epoch := cd_request_epoch row,
              ce_last_round_id := cd_round_id row, ce_last_op_seq := cd_op_seq row,
              ce_token_delta_handle := cd_token_delta_handle row, ce_proposal_handle := cd_proposal_handle row,
              ce_hostkv_handle := cd_hostkv_handle row,
              ce_target_bank_mapping_handle := cd_target_bank_mapping_handle row\<rparr>)))))"

definition remove_request :: "batches \<Rightarrow> removed_request \<Rightarrow> entries \<Rightarrow> entries result" where
  "remove_request bs row es =
     bind_r (case es (rr_request_slot row) of None \<Rightarrow> Inr ()
             | Some current \<Rightarrow> require (ce_request_epoch current = rr_request_epoch row)
                 (ValueError ''RemovedRequest request_epoch does not match worker cache'')) (\<lambda>_.
     bind_r (require (\<forall>(_, b) \<in> set bs. removed_key row \<in> set (pb_ordered_request_keys b) \<longrightarrow> pb_consumed b)
               (ValueError ''RemovedRequest cannot remove a request from an unconsumed prepared batch'')) (\<lambda>_.
       Inr (es(rr_request_slot row := None))))"

definition apply_target_prefill :: "target_prefill_batch_command \<Rightarrow> target_prefill_request \<Rightarrow> entries \<Rightarrow> entries result" where
  "apply_target_prefill c row es =
     bind_r (require (es (tp_request_slot row) = None)
               (ValueError ''TargetPrefillRequest cannot overwrite an initialized worker cache entry'')) (\<lambda>_.
       Inr (es(tp_request_slot row \<mapsto>
         \<lparr>ce_request_slot = tp_request_slot row, ce_request_epoch = tp_request_epoch row,
          ce_last_round_id = tp_round_id row, ce_last_op_seq = tp_run_seq row,
          ce_input_tokens_handle = tp_input_tokens_handle row, ce_initial_output_tokens_handle = null_handle,
          ce_generation_config_handle = tp_generation_config_handle row,
          ce_token_delta_handle = null_handle, ce_proposal_handle = null_handle, ce_hostkv_handle = null_hostkv,
          ce_target_bank_mapping_handle = null_handle, ce_prepared_batch_seq = Some (tb_batch_seq c),
          ce_prepared_bank_id = Some (tb_bank_id c), ce_prepared_bank_epoch = Some (tb_bank_epoch c)\<rparr>)))"

definition apply_target_prepare :: "prepare_target_bank_command \<Rightarrow> target_prepare_request \<Rightarrow> entries \<Rightarrow> entries result" where
  "apply_target_prepare c row es = (case es (pp_request_slot row) of
       None \<Rightarrow> Inr (es(pp_request_slot row \<mapsto>
         \<lparr>ce_request_slot = pp_request_slot row, ce_request_epoch = pp_request_epoch row,
          ce_last_round_id = pp_round_id row, ce_last_op_seq = pp_op_seq row,
          ce_input_tokens_handle = null_handle, ce_initial_output_tokens_handle = pp_committed_output_handle row,
          ce_generation_config_handle = pp_generation_config_handle row,
          ce_token_delta_handle = null_handle, ce_proposal_handle = null_handle,
          ce_hostkv_handle = pp_hostkv_handle row, ce_target_bank_mapping_handle = null_handle,
          ce_prepared_batch_seq = Some (pt_batch_seq c), ce_prepared_bank_id = Some (pt_standby_bank_id c),
          ce_prepared_bank_epoch = Some (pt_next_bank_epoch c)\<rparr>))
     | Some current \<Rightarrow>
         bind_r (require (ce_request_epoch current = pp_request_epoch row)
                   (ValueError ''TargetPrepareRequest request_epoch does not match worker cache'')) (\<lambda>_.
         bind_r (require_newer_op (pp_round_id row) (pp_op_seq row) current
                   ''TargetPrepareRequest round/op must move forward'') (\<lambda>_.
           Inr (es(pp_request_slot row \<mapsto> current
             \<lparr>ce_request_slot := pp_request_slot row, ce_request_epoch := pp_request_epoch row,
              ce_last_round_id := pp_round_id row, ce_last_op_seq := pp_op_seq row,
              ce_generation_config_handle := pp_generation_config_handle row,
              ce_hostkv_handle := pp_hostkv_handle row,
              ce_prepared_batch_seq := Some (pt_batch_seq c), ce_prepared_bank_id := Some (pt_standby_bank_id c),
              ce_prepared_bank_epoch := Some (pt_next_bank_epoch c)\<rparr>)))))"

fun run_round :: "run_request \<Rightarrow> int" where
  "run_round (RunTargetRow x) = rt_round_id x"
| "run_round (TargetVerifyRow x) = tv_round_id x"

fun run_seq :: "run_request \<Rightarrow> int" where
  "run_seq (RunTargetRow x) = rt_run_seq x"
| "run_seq (TargetVerifyRow x) = tv_run_seq x"

fun run_proposal :: "run_request \<Rightarrow> arena_handle" where
  "run_proposal (RunTargetRow x) = rt_proposal_handle x"
| "run_proposal (TargetVerifyRow x) = oh_handle (tv_proposal_handle x)"

definition apply_run :: "run_target_batch_command \<Rightarrow> run_request \<Rightarrow> entries \<Rightarrow> entries result" where
  "apply_run c row es = (case es (fst (run_key row)) of
       None \<Rightarrow> Inl (ValueError ''RunTargetRequest requires prepared worker cache entry'')
     | Some current \<Rightarrow>
         bind_r (checks
           [require (ce_request_epoch current = snd (run_key row))
              (ValueError ''RunTargetRequest request_epoch does not match worker cache''),
            require (ce_prepared_batch_seq current = Some (rn_expected_batch_seq c))
              (ValueError ''RunTargetRequest batch_seq does not match prepared batch''),
            require (ce_prepared_bank_id current = Some (rn_active_bank_id c))
              (ValueError ''RunTargetRequest bank_id does not match prepared bank''),
            require (ce_prepared_bank_epoch current = Some (rn_active_bank_epoch c))
              (ValueError ''RunTargetRequest bank_epoch does not match prepared bank''),
            require_newer_op (run_round row) (run_seq row) current
              ''RunTargetRequest round/run_seq must move forward'']) (\<lambda>_.
         Inr (es(fst (run_key row) \<mapsto> current
           \<lparr>ce_request_slot := fst (run_key row), ce_request_epoch := snd (run_key row),
            ce_last_round_id := run_round row, ce_last_op_seq := run_seq row,
            ce_proposal_handle := run_proposal row\<rparr>))))"

section \<open>Commands\<close>

definition validate_command :: "command_cache \<Rightarrow> hot_command \<Rightarrow> unit result" where
  "validate_command cache c =
     bind_r (require (command_worker_id c = cc_worker_id cache)
               (ValueError ''command worker_id does not match cache owner'')) (\<lambda>_.
     bind_r (require (command_kind_of c \<noteq> WORK) (AttributeError ''target_generation'')) (\<lambda>_.
     bind_r (require (command_generation c = cc_worker_generation cache)
               (ValueError ''command worker_generation does not match cache owner'')) (\<lambda>_.
     require_newer (command_seq_of c) (cc_last_command_seq cache) ''command_seq must increase monotonically'')))"

definition bank_free :: "batches \<Rightarrow> int \<Rightarrow> bool" where
  "bank_free bs bank = (case map_of bs bank of None \<Rightarrow> True | Some b \<Rightarrow> pb_consumed b)"

fun apply_batches :: "hot_command \<Rightarrow> entries \<Rightarrow> batches \<Rightarrow> (entries \<times> batches) result" where
  "apply_batches (DraftBatch c) es bs =
     bind_r (validate_request_lists (db_new_requests c) (db_cached_request_deltas c) (db_removed_requests c)) (\<lambda>_.
     bind_r (iter_r apply_new (db_new_requests c) es) (\<lambda>es.
     bind_r (iter_r apply_delta (db_cached_request_deltas c) es) (\<lambda>es.
     bind_r (iter_r (remove_request bs) (db_removed_requests c) es) (\<lambda>es. Inr (es, bs)))))"
| "apply_batches (TargetPrefillBatch c) es bs =
     bind_r (require (bank_free bs (tb_bank_id c)) (ValueError ''Target prefill bank already has an unconsumed batch'')) (\<lambda>_.
     bind_r (iter_r (apply_target_prefill c) (tb_requests c) es) (\<lambda>es.
     bind_r (mk_prepared_batch (tb_batch_seq c) (tb_bank_id c) (tb_bank_epoch c) (map prefill_key (tb_requests c)) True) (\<lambda>b.
       Inr (es, AList.update (tb_bank_id c) b bs))))"
| "apply_batches (PrepareTargetBank c) es bs =
     bind_r (require (bank_free bs (pt_standby_bank_id c))
               (ValueError ''prepared Target bank already has an unconsumed batch'')) (\<lambda>_.
     bind_r (iter_r (apply_target_prepare c) (pt_requests c) es) (\<lambda>es.
     bind_r (mk_prepared_batch (pt_batch_seq c) (pt_standby_bank_id c) (pt_next_bank_epoch c)
               (map prepare_key (pt_requests c)) False) (\<lambda>b.
       Inr (es, AList.update (pt_standby_bank_id c) b bs))))"
| "apply_batches (RunTargetBatch c) es bs = (case map_of bs (rn_active_bank_id c) of
       None \<Rightarrow> Inl (ValueError ''RunTargetBatchCommand requires a prepared batch'')
     | Some b \<Rightarrow>
         bind_r (checks
           [require (pb_batch_seq b = rn_expected_batch_seq c) (ValueError ''batch_seq does not match prepared batch''),
            require (pb_bank_epoch b = rn_active_bank_epoch c) (ValueError ''bank_epoch does not match prepared batch''),
            require (\<not> pb_consumed b) (ValueError ''cannot execute a consumed prepared batch''),
            require (map run_key (rn_requests c) = pb_ordered_request_keys b)
              (ValueError ''requests must exactly match prepared batch order'')]) (\<lambda>_.
         bind_r (iter_r (apply_run c) (rn_requests c) es) (\<lambda>es.
         bind_r (mark_consumed b) (\<lambda>b'. Inr (es, AList.update (rn_active_bank_id c) b' bs)))))"
| "apply_batches _ es bs = Inr (es, bs)"

fun draft_command_of :: "hot_command \<Rightarrow> draft_command option" where
  "draft_command_of (PrepareDraftBank c) = Some (PrepareDraft c)"
| "draft_command_of (RunDraftBatch c) = Some (RunDraft c)"
| "draft_command_of _ = None"

definition cache_apply :: "hot_command \<Rightarrow> command_cache \<Rightarrow> command_cache result" where
  "cache_apply c cache =
     bind_r (validate_command cache c) (\<lambda>_.
     case draft_command_of c of
       Some d \<Rightarrow> bind_r (accept (cc_draft_prepared cache) d) (\<lambda>p.
         Inr (cache\<lparr>cc_draft_prepared := p, cc_last_command_seq := Some (command_seq_of c)\<rparr>))
     | None \<Rightarrow> bind_r (apply_batches c (cc_entries cache) (cc_prepared_batches cache)) (\<lambda>(es, bs).
         Inr (cache\<lparr>cc_entries := es, cc_prepared_batches := bs, cc_last_command_seq := Some (command_seq_of c)\<rparr>)))"

definition cache_get :: "command_cache \<Rightarrow> int \<Rightarrow> cache_entry option result" where
  "cache_get cache slot = bind_r (check_id REQUEST_SLOT slot) (\<lambda>_. Inr (cc_entries cache slot))"

definition discard_prepared :: "int \<Rightarrow> int \<Rightarrow> int \<Rightarrow> command_cache \<Rightarrow> command_cache result" where
  "discard_prepared bank epoch seq cache = (case map_of (cc_prepared_batches cache) bank of
       None \<Rightarrow> Inl (ValueError ''discard does not match an unconsumed prepared batch'')
     | Some b \<Rightarrow>
         bind_r (require ((pb_bank_epoch b, pb_batch_seq b) = (epoch, seq) \<and> \<not> pb_consumed b)
                   (ValueError ''discard does not match an unconsumed prepared batch'')) (\<lambda>_.
         bind_r (mark_consumed b) (\<lambda>b'.
           Inr (cache\<lparr>cc_prepared_batches := AList.update bank b' (cc_prepared_batches cache)\<rparr>))))"

definition discard_draft_prepare :: "int \<Rightarrow> int \<Rightarrow> int \<Rightarrow> command_cache \<Rightarrow> bool \<times> command_cache" where
  "discard_draft_prepare bank epoch seq cache =
     (case discard_prepare (cc_draft_prepared cache) bank epoch seq of
        (done, p) \<Rightarrow> (done, cache\<lparr>cc_draft_prepared := p\<rparr>))"

end
