(* ===== verification/CommandCacheSafety.thy ===== *)
theory CommandCacheSafety
  imports CommandCache
begin

text \<open>
  What the worker command cache guarantees: the requests of a waiting batch stay cached, a
  request only moves forward, and every Target run executes the batch prepared last in its bank.
\<close>

section \<open>Loops over rows with distinct slots\<close>

text \<open>A row operation touches its own slot only.\<close>

definition local_at :: "('r \<Rightarrow> int) \<Rightarrow> ('r \<Rightarrow> entries \<Rightarrow> entries result) \<Rightarrow> bool" where
  "local_at slot f \<longleftrightarrow> (\<forall>row es es'. f row es = Inr es' \<longrightarrow> (\<forall>s. s \<noteq> slot row \<longrightarrow> es' s = es s))"

lemma iter_r_outside:
  "local_at slot f \<Longrightarrow> iter_r f rows es = Inr es' \<Longrightarrow> s \<notin> slot ` set rows \<Longrightarrow> es' s = es s"
proof (induction rows arbitrary: es)
  case (Cons row rows)
  then obtain es1 where f: "f row es = Inr es1" and r: "iter_r f rows es1 = Inr es'"
    by (auto simp: bind_r_eq_Inr)
  have "es1 s = es s" using Cons.prems(1,3) f by (auto simp: local_at_def)
  with Cons.IH [OF Cons.prems(1) r] Cons.prems(3) show ?case by simp
qed simp

lemma iter_r_inside:
  assumes "local_at slot f" "iter_r f rows es = Inr es'" "distinct (map slot rows)" "row \<in> set rows"
  shows "\<exists>es1 es2. es1 (slot row) = es (slot row) \<and> f row es1 = Inr es2 \<and> es' (slot row) = es2 (slot row)"
  using assms
proof (induction rows arbitrary: es)
  case (Cons r rows)
  then obtain es1 where f: "f r es = Inr es1" and i: "iter_r f rows es1 = Inr es'"
    by (auto simp: bind_r_eq_Inr)
  show ?case
  proof (cases "row = r")
    case True
    with iter_r_outside [OF Cons.prems(1) i, of "slot r"] Cons.prems(3) f show ?thesis by auto
  next
    case False
    with Cons.prems have row: "row \<in> set rows" "slot row \<noteq> slot r" by (auto simp: image_iff)
    then have "es1 (slot row) = es (slot row)" using Cons.prems(1) f by (auto simp: local_at_def)
    with Cons.IH [OF Cons.prems(1) i _ row(1)] Cons.prems(3) show ?thesis by simp
  qed
qed simp

lemma rows_local:
  "local_at nr_request_slot apply_new" "local_at cd_request_slot apply_delta"
  "local_at rr_request_slot (remove_request bs)" "local_at tp_request_slot (apply_target_prefill cp)"
  "local_at pp_request_slot (apply_target_prepare ct)" "local_at (fst \<circ> run_key) (apply_run cr)"
  by (auto simp: local_at_def apply_new_def apply_delta_def remove_request_def apply_target_prefill_def
      apply_target_prepare_def apply_run_def bind_r_eq_Inr split: option.splits)

section \<open>A request only moves forward\<close>

definition op_forward :: "cache_entry \<Rightarrow> cache_entry \<Rightarrow> bool" where
  "op_forward e e' \<longleftrightarrow> operation_is_newer (ce_last_round_id e') (ce_last_op_seq e') (ce_last_round_id e) (ce_last_op_seq e) = Inr True"

text \<open>What one command may do to one cached request.\<close>

definition entry_step :: "cache_entry option \<Rightarrow> cache_entry option \<Rightarrow> bool" where
  "entry_step old new = (case old of None \<Rightarrow> True
     | Some e \<Rightarrow> (case new of None \<Rightarrow> True
         | Some e' \<Rightarrow> e' = e \<or> ce_request_epoch e' = ce_request_epoch e \<and> op_forward e e'))"

lemma entry_step_refl [simp]: "entry_step old old"
  by (simp add: entry_step_def split: option.splits)

definition steps_forward :: "('r \<Rightarrow> int) \<Rightarrow> ('r \<Rightarrow> entries \<Rightarrow> entries result) \<Rightarrow> bool" where
  "steps_forward slot f \<longleftrightarrow> (\<forall>row es es'. f row es = Inr es' \<longrightarrow> entry_step (es (slot row)) (es' (slot row)))"

lemma rows_forward:
  "steps_forward nr_request_slot apply_new" "steps_forward cd_request_slot apply_delta"
  "steps_forward rr_request_slot (remove_request bs)" "steps_forward tp_request_slot (apply_target_prefill cp)"
  "steps_forward pp_request_slot (apply_target_prepare ct)" "steps_forward (fst \<circ> run_key) (apply_run cr)"
  by (auto simp: steps_forward_def entry_step_def op_forward_def require_newer_op_def apply_new_def apply_delta_def
      remove_request_def apply_target_prefill_def apply_target_prepare_def apply_run_def bind_r_eq_Inr
      split: option.splits)

lemma iter_r_forward:
  assumes "local_at slot f" "steps_forward slot f" "iter_r f rows es = Inr es'" "distinct (map slot rows)"
  shows "entry_step (es s) (es' s)"
proof (cases "s \<in> slot ` set rows")
  case True
  then obtain row where "row \<in> set rows" "s = slot row" by auto
  with iter_r_inside [OF assms(1,3,4)] assms(2) show ?thesis unfolding steps_forward_def by metis
next
  case False
  then show ?thesis using iter_r_outside [OF assms(1,3)] by simp
qed

text \<open>Two loops over disjoint slots compose.\<close>

lemma entry_step_disjoint:
  assumes "entry_step (a s) (b s)" "entry_step (b s) (c s)" "a s = b s \<or> b s = c s"
  shows "entry_step (a s) (c s)"
  using assms by auto

text \<open>The slot sets of a command are disjoint: the uniqueness checks of its constructor.\<close>

fun distinct_slots :: "hot_command \<Rightarrow> bool" where
  "distinct_slots (DraftBatch c) \<longleftrightarrow> distinct (map nr_request_slot (db_new_requests c)
      @ map cd_request_slot (db_cached_request_deltas c) @ map rr_request_slot (db_removed_requests c))"
| "distinct_slots (TargetPrefillBatch c) \<longleftrightarrow> distinct (map tp_request_slot (tb_requests c))"
| "distinct_slots (PrepareTargetBank c) \<longleftrightarrow> distinct (map pp_request_slot (pt_requests c))"
| "distinct_slots (RunTargetBatch c) \<longleftrightarrow> distinct (map (fst \<circ> run_key) (rn_requests c))"
| "distinct_slots _ \<longleftrightarrow> True"

lemma command_ok_distinct: "command_ok c \<Longrightarrow> distinct_slots c"
proof (cases c)
  case (DraftBatch d)
  then show "command_ok c \<Longrightarrow> ?thesis"
    using validate_request_lists_ok [of "db_new_requests d" "db_cached_request_deltas d" "db_removed_requests d"]
    by (simp add: check_draft_batch_def del: valid_U32 valid_U64)
qed (auto simp: check_target_prefill_batch_def check_prepare_target_bank_def check_run_target_batch_def
    ensure_unique_ok comp_def prefill_key_def prepare_key_def)

lemma apply_batches_forward:
  assumes d: "distinct_slots c" and a: "apply_batches c es bs = Inr (es', bs')"
  shows "entry_step (es s) (es' s)"
proof (cases c)
  case (DraftBatch b)
  let ?n = "map nr_request_slot (db_new_requests b)" and ?d = "map cd_request_slot (db_cached_request_deltas b)"
    and ?r = "map rr_request_slot (db_removed_requests b)"
  from a DraftBatch obtain es1 es2 where
    i: "iter_r apply_new (db_new_requests b) es = Inr es1"
      "iter_r apply_delta (db_cached_request_deltas b) es1 = Inr es2"
      "iter_r (remove_request bs) (db_removed_requests b) es2 = Inr es'"
    by (auto simp: bind_r_eq_Inr)
  from d DraftBatch have dis: "distinct ?n" "distinct ?d" "distinct ?r"
    "set ?n \<inter> set ?d = {}" "set ?n \<inter> set ?r = {}" "set ?d \<inter> set ?r = {}" by auto
  note f1 = iter_r_forward [OF rows_local(1) rows_forward(1) i(1) dis(1), of s]
  note f2 = iter_r_forward [OF rows_local(2) rows_forward(2) i(2) dis(2), of s]
  note f3 = iter_r_forward [OF rows_local(3) rows_forward(3) i(3) dis(3), of s]
  note o1 = iter_r_outside [OF rows_local(1) i(1), of s] and o2 = iter_r_outside [OF rows_local(2) i(2), of s]
    and o3 = iter_r_outside [OF rows_local(3) i(3), of s]
  consider "s \<in> set ?n" | "s \<in> set ?d" | "s \<notin> set ?n" "s \<notin> set ?d" by blast
  then show ?thesis
  proof cases
    case 1
    then have "s \<notin> cd_request_slot ` set (db_cached_request_deltas b)" "s \<notin> rr_request_slot ` set (db_removed_requests b)"
      using dis(4,5) by auto
    with o2 o3 f1 show ?thesis by simp
  next
    case 2
    then have "s \<notin> nr_request_slot ` set (db_new_requests b)" "s \<notin> rr_request_slot ` set (db_removed_requests b)"
      using dis(4,6) by auto
    with o1 o3 f2 show ?thesis by simp
  next
    case 3
    with o1 o2 f3 show ?thesis by simp
  qed
next
  case (TargetPrefillBatch b)
  with a d show ?thesis
    using iter_r_forward [OF rows_local(4) rows_forward(4), of b "tb_requests b" es es' s] by (auto simp: bind_r_eq_Inr)
next
  case (PrepareTargetBank b)
  with a d show ?thesis
    using iter_r_forward [OF rows_local(5) rows_forward(5), of b "pt_requests b" es es' s] by (auto simp: bind_r_eq_Inr)
next
  case (RunTargetBatch b)
  with a d show ?thesis
    using iter_r_forward [OF rows_local(6) rows_forward(6), of b "rn_requests b" es es' s]
    by (auto simp: bind_r_eq_Inr split: option.splits)
qed (use a in auto)

lemma cache_apply_Inr:
  assumes "cache_apply c cache = Inr cache'"
  obtains "validate_command cache c = Inr ()" "cc_last_command_seq cache' = Some (command_seq_of c)"
    "draft_command_of c = None \<Longrightarrow> apply_batches c (cc_entries cache) (cc_prepared_batches cache)
        = Inr (cc_entries cache', cc_prepared_batches cache')"
    "draft_command_of c \<noteq> None \<Longrightarrow> cc_entries cache' = cc_entries cache \<and> cc_prepared_batches cache' = cc_prepared_batches cache"
  using assms by (auto simp: cache_apply_def bind_r_eq_Inr split: option.splits)

section \<open>Requests of a waiting batch stay cached\<close>

definition holds_key :: "entries \<Rightarrow> request_key \<Rightarrow> bool" where
  "holds_key es k \<longleftrightarrow> (\<exists>e. es (fst k) = Some e \<and> ce_request_epoch e = snd k)"

definition waiting_cached :: "entries \<Rightarrow> batches \<Rightarrow> bool" where
  "waiting_cached es bs \<longleftrightarrow> (\<forall>(bank, b) \<in> set bs. \<not> pb_consumed b \<longrightarrow> (\<forall>k \<in> set (pb_ordered_request_keys b). holds_key es k))"

lemma holds_key_step: "entry_step (es (fst k)) (es' (fst k)) \<Longrightarrow> holds_key es k \<Longrightarrow> es' (fst k) \<noteq> None \<Longrightarrow> holds_key es' k"
  by (auto simp: holds_key_def entry_step_def)

text \<open>No row but a removal takes an entry away, and a removal spares the waiting requests.\<close>

definition keeps_cached :: "('r \<Rightarrow> entries \<Rightarrow> entries result) \<Rightarrow> bool" where
  "keeps_cached f \<longleftrightarrow> (\<forall>row es es' k. f row es = Inr es' \<longrightarrow> holds_key es k \<longrightarrow> holds_key es' k)"

lemma rows_keep:
  "keeps_cached apply_new" "keeps_cached apply_delta" "keeps_cached (apply_target_prefill cp)"
  "keeps_cached (apply_target_prepare ct)" "keeps_cached (apply_run cr)"
  by (auto simp: keeps_cached_def holds_key_def apply_new_def apply_delta_def apply_target_prefill_def
      apply_target_prepare_def apply_run_def bind_r_eq_Inr split: option.splits)

lemma iter_r_keeps: "keeps_cached f \<Longrightarrow> iter_r f rows es = Inr es' \<Longrightarrow> holds_key es k \<Longrightarrow> holds_key es' k"
  by (erule iter_r_invariant [where P = "\<lambda>es. holds_key es k"]) (auto simp: keeps_cached_def simp del: split_paired_All)

lemma remove_keeps:
  assumes "remove_request bs row es = Inr es'" "(bank, b) \<in> set bs" "\<not> pb_consumed b"
    and "k \<in> set (pb_ordered_request_keys b)" "holds_key es k"
  shows "holds_key es' k"
proof -
  have "removed_key row \<noteq> k" using assms by (auto simp: remove_request_def bind_r_eq_Inr)
  moreover have "fst k = rr_request_slot row \<Longrightarrow> snd k = rr_request_epoch row"
    using assms(1,5) by (auto simp: remove_request_def bind_r_eq_Inr holds_key_def split: option.splits)
  ultimately have "fst k \<noteq> rr_request_slot row" by (metis removed_key_def prod.collapse)
  with assms(1,5) show ?thesis by (auto simp: remove_request_def bind_r_eq_Inr holds_key_def)
qed

lemma prepare_rows_held:
  assumes "iter_r (apply_target_prepare c) rows es = Inr es'" "row \<in> set rows"
  shows "holds_key es' (prepare_key row)"
  using assms
proof (induction rows arbitrary: es)
  case (Cons r rows)
  then obtain es1 where f: "apply_target_prepare c r es = Inr es1" and i: "iter_r (apply_target_prepare c) rows es1 = Inr es'"
    by (auto simp: bind_r_eq_Inr)
  have "holds_key es1 (prepare_key r)"
    using f by (auto simp: apply_target_prepare_def bind_r_eq_Inr holds_key_def prepare_key_def split: option.splits)
  with iter_r_keeps [OF rows_keep(4) i, of "prepare_key r"] Cons.IH [OF i] Cons.prems(2) show ?case by auto
qed simp

lemma set_AList_update: "(k, v) \<in> set (AList.update a b xs) \<Longrightarrow> (k, v) = (a, b) \<or> (k, v) \<in> set xs"
  by (induction xs) (auto split: if_splits)

lemma mk_prepared_batch_Inr:
  "mk_prepared_batch s bank e ks cons = Inr b \<Longrightarrow>
   b = \<lparr>pb_batch_seq = s, pb_bank_id = bank, pb_bank_epoch = e, pb_ordered_request_keys = ks, pb_consumed = cons\<rparr>"
  by (auto simp: mk_prepared_batch_def bind_r_eq_Inr)

lemma mark_consumed_Inr: "mark_consumed b = Inr b' \<Longrightarrow> b' = b\<lparr>pb_consumed := True\<rparr>"
  by (cases b) (auto simp: mark_consumed_def dest: mk_prepared_batch_Inr)

lemma waiting_update_consumed:
  "waiting_cached es bs \<Longrightarrow> pb_consumed b \<Longrightarrow> waiting_cached es (AList.update bank b bs)"
  by (auto simp: waiting_cached_def dest!: set_AList_update)

lemma waiting_mono: "waiting_cached es bs \<Longrightarrow> (\<And>k. holds_key es k \<Longrightarrow> holds_key es' k) \<Longrightarrow> waiting_cached es' bs"
  by (fastforce simp: waiting_cached_def)

lemma iter_remove_waiting:
  "iter_r (remove_request bs) rows es = Inr es' \<Longrightarrow> waiting_cached es bs \<Longrightarrow> waiting_cached es' bs"
proof (erule iter_r_invariant [where P = "\<lambda>es. waiting_cached es bs"])
  fix row es es'
  assume "waiting_cached es bs" "remove_request bs row es = Inr es'"
  then show "waiting_cached es' bs" using remove_keeps [of bs row es es'] by (fastforce simp: waiting_cached_def)
qed

lemma apply_batches_waiting:
  assumes w: "waiting_cached es bs" and a: "apply_batches c es bs = Inr (es', bs')"
  shows "waiting_cached es' bs'"
proof (cases c)
  case (DraftBatch b)
  from a DraftBatch obtain es1 es2 where bs: "bs' = bs" and
    i: "iter_r apply_new (db_new_requests b) es = Inr es1"
      "iter_r apply_delta (db_cached_request_deltas b) es1 = Inr es2"
      "iter_r (remove_request bs) (db_removed_requests b) es2 = Inr es'"
    by (auto simp: bind_r_eq_Inr)
  have "waiting_cached es2 bs"
    using w iter_r_keeps [OF rows_keep(1) i(1)] iter_r_keeps [OF rows_keep(2) i(2)] by (auto intro: waiting_mono)
  with iter_remove_waiting [OF i(3)] bs show ?thesis by simp
next
  case (TargetPrefillBatch b)
  with a obtain p where "iter_r (apply_target_prefill b) (tb_requests b) es = Inr es'"
    "bs' = AList.update (tb_bank_id b) p bs" "pb_consumed p"
    by (auto simp: bind_r_eq_Inr dest: mk_prepared_batch_Inr)
  with w iter_r_keeps [OF rows_keep(3)] show ?thesis by (auto intro!: waiting_update_consumed intro: waiting_mono)
next
  case (PrepareTargetBank b)
  with a obtain p where i: "iter_r (apply_target_prepare b) (pt_requests b) es = Inr es'"
    and bs: "bs' = AList.update (pt_standby_bank_id b) p bs" and p: "pb_ordered_request_keys p = map prepare_key (pt_requests b)"
    by (auto simp: bind_r_eq_Inr dest: mk_prepared_batch_Inr)
  have "waiting_cached es' bs" using w iter_r_keeps [OF rows_keep(4) i] by (rule waiting_mono)
  moreover have "\<forall>k \<in> set (pb_ordered_request_keys p). holds_key es' k"
    using p prepare_rows_held [OF i] by auto
  ultimately show ?thesis unfolding bs by (fastforce simp: waiting_cached_def dest!: set_AList_update)
next
  case (RunTargetBatch b)
  with a obtain p where "iter_r (apply_run b) (rn_requests b) es = Inr es'"
    "bs' = AList.update (rn_active_bank_id b) p bs" "pb_consumed p"
    by (auto simp: bind_r_eq_Inr dest: mark_consumed_Inr split: option.splits)
  with w iter_r_keeps [OF rows_keep(5)] show ?thesis by (auto intro!: waiting_update_consumed intro: waiting_mono)
qed (use a w in auto)

section \<open>Histories\<close>

datatype cache_op = Apply hot_command | DiscardBatch int int int | DiscardDraftBatch int int int

fun cache_run :: "cache_op \<Rightarrow> command_cache \<Rightarrow> command_cache result" where
  "cache_run (Apply c) cache = cache_apply c cache"
| "cache_run (DiscardBatch bank epoch seq) cache = discard_prepared bank epoch seq cache"
| "cache_run (DiscardDraftBatch bank epoch seq) cache = Inr (snd (discard_draft_prepare bank epoch seq cache))"

text \<open>A call that raises leaves the cache as it was; the log keeps the calls that returned.\<close>

definition cache_step :: "command_cache \<times> cache_op list \<Rightarrow> cache_op \<Rightarrow> command_cache \<times> cache_op list" where
  "cache_step = (\<lambda>(cache, log) op. case cache_run op cache of
      Inl _ \<Rightarrow> (cache, log) | Inr cache' \<Rightarrow> (cache', log @ [op]))"

fun bank_of :: "cache_op \<Rightarrow> int option" where
  "bank_of (Apply (TargetPrefillBatch c)) = Some (tb_bank_id c)"
| "bank_of (Apply (PrepareTargetBank c)) = Some (pt_standby_bank_id c)"
| "bank_of (Apply (RunTargetBatch c)) = Some (rn_active_bank_id c)"
| "bank_of (DiscardBatch bank _ _) = Some bank"
| "bank_of _ = None"

definition last_on :: "int \<Rightarrow> cache_op list \<Rightarrow> cache_op option" where
  "last_on bank log = (let ops = filter (\<lambda>op. bank_of op = Some bank) log in if ops = [] then None else Some (last ops))"

lemma last_on_simps [simp]:
  "last_on bank [] = None"
  "last_on bank (log @ [op]) = (if bank_of op = Some bank then Some op else last_on bank log)"
  by (simp_all add: last_on_def)

text \<open>The batch a Target run executes is the one prepared last in its bank.\<close>

definition runs_prepare :: "prepare_target_bank_command \<Rightarrow> run_target_batch_command \<Rightarrow> bool" where
  "runs_prepare p r \<longleftrightarrow> pt_standby_bank_id p = rn_active_bank_id r \<and> pt_batch_seq p = rn_expected_batch_seq r
     \<and> pt_next_bank_epoch p = rn_active_bank_epoch r \<and> map prepare_key (pt_requests p) = map run_key (rn_requests r)"

definition batch_of :: "prepare_target_bank_command \<Rightarrow> prepared_batch" where
  "batch_of p = \<lparr>pb_batch_seq = pt_batch_seq p, pb_bank_id = pt_standby_bank_id p, pb_bank_epoch = pt_next_bank_epoch p,
     pb_ordered_request_keys = map prepare_key (pt_requests p), pb_consumed = False\<rparr>"

definition bank_state_ok :: "prepared_batch option \<Rightarrow> cache_op option \<Rightarrow> bool" where
  "bank_state_ok ob op = (case ob of
       None \<Rightarrow> op = None
     | Some b \<Rightarrow> if pb_consumed b then \<forall>p. op \<noteq> Some (Apply (PrepareTargetBank p))
                 else \<exists>p. op = Some (Apply (PrepareTargetBank p)) \<and> b = batch_of p)"

definition op_fits :: "cache_op list \<Rightarrow> cache_op \<Rightarrow> bool" where
  "op_fits before op \<longleftrightarrow> (\<forall>r. op = Apply (RunTargetBatch r) \<longrightarrow>
     (\<exists>p. last_on (rn_active_bank_id r) before = Some (Apply (PrepareTargetBank p)) \<and> runs_prepare p r))"

definition accepted_seqs :: "cache_op list \<Rightarrow> int list" where
  "accepted_seqs log = List.map_filter (\<lambda>op. case op of Apply c \<Rightarrow> Some (command_seq_of c) | _ \<Rightarrow> None) log"

definition cache_log_ok :: "command_cache \<Rightarrow> cache_op list \<Rightarrow> bool" where
  "cache_log_ok cache log \<longleftrightarrow>
     waiting_cached (cc_entries cache) (cc_prepared_batches cache)
     \<and> (\<forall>bank. bank_state_ok (map_of (cc_prepared_batches cache) bank) (last_on bank log))
     \<and> (\<forall>i < length log. op_fits (take i log) (log ! i))
     \<and> ascending (accepted_seqs log)
     \<and> cc_last_command_seq cache = (if accepted_seqs log = [] then None else Some (last (accepted_seqs log)))"

lemma accepted_seqs_simps [simp]:
  "accepted_seqs [] = []"
  "accepted_seqs (log @ [Apply c]) = accepted_seqs log @ [command_seq_of c]"
  "accepted_seqs (log @ [DiscardBatch a b d]) = accepted_seqs log"
  "accepted_seqs (log @ [DiscardDraftBatch a b d]) = accepted_seqs log"
  by (simp_all add: accepted_seqs_def List.map_filter_def)

lemma op_fits_snoc:
  "(\<forall>i < length (log @ [op]). op_fits (take i (log @ [op])) ((log @ [op]) ! i))
   \<longleftrightarrow> (\<forall>i < length log. op_fits (take i log) (log ! i)) \<and> op_fits log op"
  by (auto simp: nth_append less_Suc_eq)

lemma bank_state_update:
  assumes "\<forall>bank. bank_state_ok (map_of bs bank) (last_on bank log)" "bank_of op = Some k"
    and "bank_state_ok (Some b) (Some op)"
  shows "\<forall>bank. bank_state_ok (map_of (AList.update k b bs) bank) (last_on bank (log @ [op]))"
  using assms by (simp add: update_conv')

lemma apply_batches_banks:
  assumes st: "\<forall>bank. bank_state_ok (map_of bs bank) (last_on bank log)"
    and a: "apply_batches c es bs = Inr (es', bs')" and n: "draft_command_of c = None" "command_kind_of c \<noteq> WORK"
  shows "(\<forall>bank. bank_state_ok (map_of bs' bank) (last_on bank (log @ [Apply c]))) \<and> op_fits log (Apply c)"
proof (cases c)
  case (DraftBatch b)
  with a st show ?thesis by (auto simp: bind_r_eq_Inr op_fits_def)
next
  case (TargetPrefillBatch b)
  with a obtain p where "bs' = AList.update (tb_bank_id b) p bs" "pb_consumed p"
    by (auto simp: bind_r_eq_Inr dest: mk_prepared_batch_Inr)
  with TargetPrefillBatch bank_state_update [OF st, of "Apply c" "tb_bank_id b" p] show ?thesis
    by (simp add: bank_state_ok_def op_fits_def)
next
  case (PrepareTargetBank b)
  with a have "bs' = AList.update (pt_standby_bank_id b) (batch_of b) bs"
    by (auto simp: bind_r_eq_Inr batch_of_def dest: mk_prepared_batch_Inr)
  with PrepareTargetBank bank_state_update [OF st, of "Apply c" "pt_standby_bank_id b" "batch_of b"] show ?thesis
    by (simp add: bank_state_ok_def op_fits_def batch_of_def)
next
  case (RunTargetBatch b)
  with a obtain q q' where q: "map_of bs (rn_active_bank_id b) = Some q" "\<not> pb_consumed q"
    "pb_batch_seq q = rn_expected_batch_seq b" "pb_bank_epoch q = rn_active_bank_epoch b"
    "map run_key (rn_requests b) = pb_ordered_request_keys q"
    and bs: "bs' = AList.update (rn_active_bank_id b) q' bs" "pb_consumed q'"
    by (auto simp: bind_r_eq_Inr dest: mark_consumed_Inr split: option.splits)
  from st [rule_format, of "rn_active_bank_id b"] q(1,2) obtain p where
    p: "last_on (rn_active_bank_id b) log = Some (Apply (PrepareTargetBank p))" "q = batch_of p"
    by (auto simp: bank_state_ok_def)
  then have "bank_of (Apply (PrepareTargetBank p)) = Some (rn_active_bank_id b)"
    by (auto simp: last_on_def Let_def split: if_splits dest!: last_in_set [of "filter _ _"])
  with p q have "op_fits log (Apply c)" using RunTargetBatch by (simp add: op_fits_def runs_prepare_def batch_of_def)
  with RunTargetBatch bs bank_state_update [OF st, of "Apply c" "rn_active_bank_id b" q'] show ?thesis
    by (simp add: bank_state_ok_def)
qed (use n in auto)

lemma cache_log_step:
  assumes inv: "cache_log_ok cache log" and run: "cache_run op cache = Inr cache'"
  shows "cache_log_ok cache' (log @ [op])"
proof (cases op)
  case (Apply c)
  then have a: "cache_apply c cache = Inr cache'" using run by simp
  then have kind: "command_kind_of c \<noteq> WORK" and newer: "require_newer (command_seq_of c) (cc_last_command_seq cache) msg = Inr ()" for msg
    by (auto simp: cache_apply_def validate_command_def bind_r_eq_Inr require_newer_Inr split: option.splits)
  have seqs: "ascending (accepted_seqs (log @ [op]))"
    using inv newer Apply by (auto simp: cache_log_ok_def ascending_snoc require_newer_Inr split: if_splits)
  show ?thesis
  proof (cases "draft_command_of c")
    case None
    then have b: "apply_batches c (cc_entries cache) (cc_prepared_batches cache) = Inr (cc_entries cache', cc_prepared_batches cache')"
      and l: "cc_last_command_seq cache' = Some (command_seq_of c)"
      using a by (auto elim: cache_apply_Inr)
    from inv have st: "\<forall>bank. bank_state_ok (map_of (cc_prepared_batches cache) bank) (last_on bank log)"
      by (simp add: cache_log_ok_def)
    from apply_batches_banks [OF st b None kind] apply_batches_waiting [OF _ b] inv seqs l Apply show ?thesis
      unfolding cache_log_ok_def op_fits_snoc by simp
  next
    case (Some d)
    then have "bank_of op = None" "\<And>r. op \<noteq> Apply (RunTargetBatch r)" using Apply by (cases c; auto)+
    with a Some inv seqs Apply show ?thesis
      unfolding cache_log_ok_def op_fits_snoc by (auto elim!: cache_apply_Inr simp: op_fits_def)
  qed
next
  case (DiscardBatch bank epoch seq)
  with run obtain b b' where m: "mark_consumed b = Inr b'"
    and c': "cache' = cache\<lparr>cc_prepared_batches := AList.update bank b' (cc_prepared_batches cache)\<rparr>"
    by (auto simp: discard_prepared_def bind_r_eq_Inr split: option.splits)
  have b: "pb_consumed b'" using mark_consumed_Inr [OF m] by simp
  from inv have st: "\<forall>bank. bank_state_ok (map_of (cc_prepared_batches cache) bank) (last_on bank log)"
    by (simp add: cache_log_ok_def)
  from inv b c' DiscardBatch bank_state_update [OF st, of op bank b'] show ?thesis
    unfolding cache_log_ok_def op_fits_snoc by (auto simp: op_fits_def bank_state_ok_def intro: waiting_update_consumed)
next
  case (DiscardDraftBatch bank epoch seq)
  with run have "cc_entries cache' = cc_entries cache" "cc_prepared_batches cache' = cc_prepared_batches cache"
    "cc_last_command_seq cache' = cc_last_command_seq cache"
    by (auto simp: discard_draft_prepare_def split: prod.splits)
  with inv DiscardDraftBatch show ?thesis
    unfolding cache_log_ok_def op_fits_snoc by (simp add: op_fits_def)
qed

lemma cache_history_ok:
  "cache_log_ok cache log \<Longrightarrow> foldl cache_step (cache, log) ops = (cache', log') \<Longrightarrow> cache_log_ok cache' log'"
proof (induction ops arbitrary: cache log)
  case (Cons op ops)
  show ?case
  proof (cases "cache_run op cache")
    case (Inl e)
    with Cons.IH [OF Cons.prems(1)] Cons.prems(2) show ?thesis by (simp add: cache_step_def)
  next
    case (Inr c)
    with Cons.IH [OF cache_log_step [OF Cons.prems(1) Inr]] Cons.prems(2) show ?thesis by (simp add: cache_step_def)
  qed
qed simp

lemma new_cache_ok: "new_command_cache w g = Inr cache \<Longrightarrow> cache_log_ok cache []"
  by (auto simp: new_command_cache_def bind_r_eq_Inr cache_log_ok_def waiting_cached_def bank_state_ok_def)

section \<open>Properties\<close>

text \<open>C2: in every history of commands and discards on a fresh cache, refused ones included, each accepted
  Target run executes the batch prepared last in its bank: same batch sequence, bank epoch and
  requests in the same order, with no run, prefill or discard of that bank in between. So no
  prepared batch runs twice, and a discarded one never runs.\<close>

theorem target_runs_execute_last_prepare:
  assumes "new_command_cache w g = Inr cache0" "foldl cache_step (cache0, []) ops = (cache, log)"
    and "i < length log" "log ! i = Apply (RunTargetBatch r)"
  shows "\<exists>p. last_on (rn_active_bank_id r) (take i log) = Some (Apply (PrepareTargetBank p))
     \<and> pt_standby_bank_id p = rn_active_bank_id r \<and> pt_batch_seq p = rn_expected_batch_seq r
     \<and> pt_next_bank_epoch p = rn_active_bank_epoch r \<and> map prepare_key (pt_requests p) = map run_key (rn_requests r)"
proof -
  have "cache_log_ok cache log" using cache_history_ok [OF new_cache_ok [OF assms(1)] assms(2)] .
  with assms(3,4) show ?thesis by (auto simp: cache_log_ok_def op_fits_def runs_prepare_def)
qed

definition target_prepare_example :: hot_command where
  "target_prepare_example = PrepareTargetBank \<lparr>pt_worker_id = 2, pt_target_generation = 3, pt_command_seq = 10,
     pt_batch_seq = 6, pt_standby_bank_id = 1, pt_next_bank_epoch = 4,
     pt_requests = [\<lparr>pp_request_slot = 9, pp_request_epoch = 1, pp_round_id = 2, pp_op_seq = 5,
       pp_committed_output_handle = \<lparr>h_offset = 0, h_length = 8, h_generation = 1\<rparr>, pp_committed_output_count = 2,
       pp_prompt_token_count = 10, pp_generation_config_handle = \<lparr>h_offset = 0, h_length = 64, h_generation = 1\<rparr>,
       pp_hostkv_handle = \<lparr>hk_offset_blocks = 0, hk_block_count = 2, hk_generation = 1\<rparr>, pp_host_slot = 0,
       pp_host_slot_generation = 1, pp_host_writer_lease_generation = 1, pp_source_host_version = 1,
       pp_logical_kv_len = 12, pp_committed_blocks = 1, pp_valid_blocks = 1, pp_destination_bank_id = 1,
       pp_destination_bank_epoch = 4, pp_destination_bank_offset_blocks = 0, pp_destination_capacity_blocks = 2\<rparr>]\<rparr>"

definition target_run_example :: run_target_batch_command where
  "target_run_example = \<lparr>rn_worker_id = 2, rn_target_generation = 3, rn_command_seq = 11, rn_expected_batch_seq = 6,
     rn_active_bank_id = 1, rn_active_bank_epoch = 4, rn_standby_bank_epoch = 5,
     rn_requests = [RunTargetRow \<lparr>rt_request_slot = 9, rt_request_epoch = 1, rt_round_id = 2, rt_run_seq = 6,
       rt_proposal_handle = \<lparr>h_offset = 64, h_length = 16, h_generation = 1\<rparr>,
       rt_output_handle = \<lparr>h_offset = 8, h_length = 16, h_generation = 1\<rparr>\<rparr>]\<rparr>"

definition cache_example :: command_cache where
  "cache_example = projr (new_command_cache 2 3)"

definition cache_example_ops :: "cache_op list" where
  "cache_example_ops = [Apply (RunTargetBatch target_run_example), Apply target_prepare_example,
     Apply (RunTargetBatch target_run_example), Apply (RunTargetBatch target_run_example)]"

lemma cache_example_new: "new_command_cache 2 3 = Inr cache_example"
  by (simp add: cache_example_def new_command_cache_def)

lemma cache_example_log:
  "snd (foldl cache_step (cache_example, []) cache_example_ops) =
     [Apply target_prepare_example, Apply (RunTargetBatch target_run_example)]"
  by code_simp

theorem target_runs_execute_last_prepare_witness:
  "\<exists>p. last_on 1 [Apply target_prepare_example] = Some (Apply (PrepareTargetBank p)) \<and> pt_batch_seq p = 6"
proof -
  obtain cache where h: "foldl cache_step (cache_example, []) cache_example_ops =
      (cache, [Apply target_prepare_example, Apply (RunTargetBatch target_run_example)])"
    using cache_example_log by (metis prod.collapse)
  have "rn_active_bank_id target_run_example = 1" "rn_expected_batch_seq target_run_example = 6"
    by (simp_all add: target_run_example_def)
  then show ?thesis
    using target_runs_execute_last_prepare [OF cache_example_new h, of 1 target_run_example] by auto
qed

text \<open>Whatever the history, every request of a batch still waiting to run has a cache entry of the
  epoch it was prepared for, and the accepted commands came in strictly increasing sequence.\<close>

theorem waiting_requests_stay_cached:
  assumes "new_command_cache w g = Inr cache0" "foldl cache_step (cache0, []) ops = (cache, log)"
  shows "(\<forall>bank b. map_of (cc_prepared_batches cache) bank = Some b \<longrightarrow> \<not> pb_consumed b \<longrightarrow>
            (\<forall>(slot, epoch) \<in> set (pb_ordered_request_keys b).
               \<exists>e. cc_entries cache slot = Some e \<and> ce_request_epoch e = epoch))
     \<and> ascending (accepted_seqs log)"
proof -
  have "cache_log_ok cache log" using cache_history_ok [OF new_cache_ok [OF assms(1)] assms(2)] .
  then show ?thesis
    by (fastforce simp: cache_log_ok_def waiting_cached_def holds_key_def dest!: map_of_SomeD)
qed

theorem waiting_requests_stay_cached_witness:
  "ascending (accepted_seqs (snd (foldl cache_step (cache_example, []) cache_example_ops)))"
  using waiting_requests_stay_cached [OF cache_example_new, of cache_example_ops]
  by (metis prod.collapse)

text \<open>A command never moves a cached request back: if an entry is there before and after an accepted
  well-formed command, it is unchanged, or it keeps its epoch and its round and operation advance.
  A command for another worker or generation, or one that is not newer, is refused.\<close>

theorem cached_requests_move_forward:
  assumes "command_ok c" "cache_apply c cache = Inr cache'"
    and "cc_entries cache slot = Some e" "cc_entries cache' slot = Some e'"
  shows "(e' = e \<or> ce_request_epoch e' = ce_request_epoch e
           \<and> operation_is_newer (ce_last_round_id e') (ce_last_op_seq e') (ce_last_round_id e) (ce_last_op_seq e) = Inr True)
     \<and> command_worker_id c = cc_worker_id cache \<and> command_generation c = cc_worker_generation cache
     \<and> (\<forall>last. cc_last_command_seq cache = Some last \<longrightarrow> is_newer COMMAND_SEQ (command_seq_of c) last = Inr True)"
proof -
  have v: "validate_command cache c = Inr ()" using assms(2) by (rule cache_apply_Inr)
  have "entry_step (cc_entries cache slot) (cc_entries cache' slot)"
  proof (cases "draft_command_of c")
    case None
    with assms(2) have "apply_batches c (cc_entries cache) (cc_prepared_batches cache)
        = Inr (cc_entries cache', cc_prepared_batches cache')" by (auto elim: cache_apply_Inr)
    with command_ok_distinct [OF assms(1)] show ?thesis by (rule apply_batches_forward)
  next
    case (Some d)
    with assms(2) have "cc_entries cache' = cc_entries cache" by (auto elim: cache_apply_Inr)
    then show ?thesis by simp
  qed
  with assms(3,4) v show ?thesis
    by (auto simp: entry_step_def op_forward_def validate_command_def bind_r_eq_Inr require_newer_Inr newer_id_def
        split: option.splits)
qed

definition prepared_example :: command_cache where
  "prepared_example = projr (cache_apply target_prepare_example cache_example)"

theorem cached_requests_move_forward_witness:
  "\<exists>e e'. cc_entries prepared_example 9 = Some e
     \<and> cc_entries (projr (cache_apply (RunTargetBatch target_run_example) prepared_example)) 9 = Some e'
     \<and> ce_request_epoch e' = ce_request_epoch e"
proof -
  let ?after = "projr (cache_apply (RunTargetBatch target_run_example) prepared_example)"
  have ok: "command_ok (RunTargetBatch target_run_example)" by code_simp
  have p: "cc_entries prepared_example 9 = Some (the (cc_entries prepared_example 9))" by code_simp
  have "returns (cache_apply (RunTargetBatch target_run_example) prepared_example)" by code_simp
  then have r: "cache_apply (RunTargetBatch target_run_example) prepared_example = Inr ?after" by auto
  have q: "cc_entries ?after 9 = Some (the (cc_entries ?after 9))" by code_simp
  show ?thesis using cached_requests_move_forward [OF ok r p q] p q by metis
qed

end
