(* ===== verification/StateChange.thy ===== *)
theory StateChange
  imports ArrayRing Ids
begin

text \<open>
  The observation plane's wake-up path: \<open>ipc/state_change_ring.py\<close>, whose entries are hints
  that may be refused but never silently, and \<open>ipc/doorbell.py\<close>. The locks of both classes make
  every operation atomic, so a concurrent run is a sequence of these operations.
\<close>

section \<open>Entries\<close>

datatype block_kind =
    REQUEST_ENGINE | REQUEST_DISPATCH | REQUEST_DRAFT | REQUEST_TARGET_COMPUTE | REQUEST_D2H
  | REQUEST_H2D | REQUEST_HOSTKV | WORKER_COMMON | WORKER_DRAFT_RUNTIME
  | WORKER_TARGET_COMPUTE_RUNTIME | WORKER_TARGET_COPY_RUNTIME | WORKER_BANK | REQUEST_DRAFT_HOSTKV
  | REQUEST_DRAFT_D2H | REQUEST_DRAFT_H2D | WORKER_DRAFT_COPY_RUNTIME | WORKER_DRAFT_BANK

text \<open>The members in the order of their values, which start at 1.\<close>

definition block_kinds :: "block_kind list" where
  "block_kinds =
    [REQUEST_ENGINE, REQUEST_DISPATCH, REQUEST_DRAFT, REQUEST_TARGET_COMPUTE, REQUEST_D2H,
     REQUEST_H2D, REQUEST_HOSTKV, WORKER_COMMON, WORKER_DRAFT_RUNTIME,
     WORKER_TARGET_COMPUTE_RUNTIME, WORKER_TARGET_COPY_RUNTIME, WORKER_BANK, REQUEST_DRAFT_HOSTKV,
     REQUEST_DRAFT_D2H, REQUEST_DRAFT_H2D, WORKER_DRAFT_COPY_RUNTIME, WORKER_DRAFT_BANK]"

definition block_kind_of_int :: "int \<Rightarrow> block_kind result" where
  "block_kind_of_int v =
     (if 1 \<le> v \<and> v \<le> int (length block_kinds) then Inr (block_kinds ! nat (v - 1))
      else Inl (ValueError ''not valid for StateChangeBlockKind''))"

record state_change_entry =
  sc_block_kind :: block_kind
  sc_row :: int
  sc_publish_seq :: int

definition mk_state_change_entry :: "int \<Rightarrow> int \<Rightarrow> int \<Rightarrow> state_change_entry result" where
  "mk_state_change_entry kind row seq =
     bind_r (block_kind_of_int kind) (\<lambda>k.
     bind_r (checks [check_id REQUEST_SLOT row, check_id U64 seq]) (\<lambda>_.
       Inr \<lparr>sc_block_kind = k, sc_row = row, sc_publish_seq = seq\<rparr>))"

record state_change_batch =
  sb_entries :: "state_change_entry list"
  sb_overflowed :: bool

section \<open>The ring\<close>

record state_change_ring =
  sr_ring :: "state_change_entry ring"
  sr_overflowed :: bool

definition new_state_change_ring :: "int \<Rightarrow> state_change_ring result" where
  "new_state_change_ring capacity =
     bind_r (require (capacity > 0) (ValueError ''capacity must be positive'')) (\<lambda>_.
       Inr \<lparr>sr_ring = new_ring (nat capacity), sr_overflowed = False\<rparr>)"

text \<open>The publish result is the pair \<open>(accepted, overflowed)\<close>.\<close>

definition push :: "state_change_entry \<Rightarrow> state_change_ring \<Rightarrow> (bool \<times> bool) \<times> state_change_ring" where
  "push e r =
     (if rg_size (sr_ring r) = ring_capacity (sr_ring r)
      then ((False, True), r\<lparr>sr_overflowed := True\<rparr>)
      else ((True, sr_overflowed r), r\<lparr>sr_ring := ring_put e (sr_ring r)\<rparr>))"

fun drain_loop :: "nat \<Rightarrow> state_change_entry ring \<Rightarrow> (state_change_entry list \<times> state_change_entry ring) result" where
  "drain_loop 0 r = Inr ([], r)"
| "drain_loop (Suc n) r = (case ring_peek r of
       None \<Rightarrow> Inl (RuntimeError ''state-change ring corruption'')
     | Some e \<Rightarrow> bind_r (drain_loop n (ring_drop r)) (\<lambda>(es, r'). Inr (e # es, r')))"

definition drain :: "int option \<Rightarrow> state_change_ring \<Rightarrow> (state_change_batch \<times> state_change_ring) result" where
  "drain max_entries r =
     bind_r (case max_entries of None \<Rightarrow> Inr ()
             | Some m \<Rightarrow> require (m \<ge> 0) (ValueError ''max_entries must be non-negative'')) (\<lambda>_.
       let limit = (case max_entries of None \<Rightarrow> rg_size (sr_ring r)
                    | Some m \<Rightarrow> min (rg_size (sr_ring r)) (nat m))
       in bind_r (drain_loop limit (sr_ring r)) (\<lambda>(es, r').
            Inr (\<lparr>sb_entries = es, sb_overflowed = sr_overflowed r\<rparr>,
                 r\<lparr>sr_ring := r', sr_overflowed := False\<rparr>)))"

definition has_pending :: "state_change_ring \<Rightarrow> bool" where
  "has_pending r \<longleftrightarrow> rg_size (sr_ring r) > 0 \<or> sr_overflowed r"

lemma drain_loop_wf:
  "ring_wf r \<Longrightarrow> n \<le> rg_size r \<Longrightarrow> \<exists>r'. drain_loop n r = Inr (take n (ring_items r), r')
     \<and> ring_wf r' \<and> ring_items r' = drop n (ring_items r) \<and> ring_capacity r' = ring_capacity r"
proof (induction n arbitrary: r)
  case (Suc n)
  then obtain x where "ring_peek r = Some x" "ring_items r = x # ring_items (ring_drop r)" "ring_wf (ring_drop r)"
    using ring_wf_peek [of r] by (metis le_zero_eq old.nat.distinct(2))
  moreover have "n \<le> rg_size (ring_drop r)" using Suc.prems(2) by simp
  with calculation(3) obtain r' where "drain_loop n (ring_drop r) = Inr (take n (ring_items (ring_drop r)), r')"
    "ring_wf r'" "ring_items r' = drop n (ring_items (ring_drop r))" "ring_capacity r' = ring_capacity r"
    using Suc.IH [of "ring_drop r"] by (metis ring_capacity_simps(2))
  ultimately show ?case by simp
qed simp

lemma drain_wf:
  assumes "ring_wf (sr_ring r)" "case m of None \<Rightarrow> True | Some k \<Rightarrow> 0 \<le> k"
  shows "\<exists>n r'. drain m r = Inr (\<lparr>sb_entries = take n (ring_items (sr_ring r)), sb_overflowed = sr_overflowed r\<rparr>, r')
     \<and> ring_wf (sr_ring r') \<and> ring_items (sr_ring r') = drop n (ring_items (sr_ring r))
     \<and> ring_capacity (sr_ring r') = ring_capacity (sr_ring r) \<and> \<not> sr_overflowed r'"
proof -
  let ?n = "case m of None \<Rightarrow> rg_size (sr_ring r) | Some k \<Rightarrow> min (rg_size (sr_ring r)) (nat k)"
  have le: "?n \<le> rg_size (sr_ring r)" by (simp split: option.splits)
  obtain q where q: "drain_loop ?n (sr_ring r) = Inr (take ?n (ring_items (sr_ring r)), q)"
    "ring_wf q" "ring_items q = drop ?n (ring_items (sr_ring r))" "ring_capacity q = ring_capacity (sr_ring r)"
    using drain_loop_wf [OF assms(1) le] by blast
  have "(case m of None \<Rightarrow> Inr () | Some k \<Rightarrow> require (k \<ge> 0) e) = Inr ()" for e
    using assms(2) by (simp split: option.splits)
  with q show ?thesis
    by (intro exI [of _ ?n] exI [of _ "r\<lparr>sr_ring := q, sr_overflowed := False\<rparr>"]) (simp add: drain_def Let_def)
qed

section \<open>The ring is a bounded queue that reports what it refuses\<close>

definition accept_push :: "state_change_entry \<Rightarrow> state_change_ring \<Rightarrow> state_change_ring result" where
  "accept_push e r = (case push e r of ((accepted, _), r') \<Rightarrow>
     if accepted then Inr r' else Inl (CommandBackpressure ''refused''))"

definition drain_entries :: "int option \<Rightarrow> state_change_ring \<Rightarrow> (state_change_entry list \<times> state_change_ring) result" where
  "drain_entries m r = bind_r (drain m r) (\<lambda>(b, r'). Inr (sb_entries b, r'))"

interpretation hint_queue: bounded_fifo "ring_wf \<circ> sr_ring" "ring_items \<circ> sr_ring" "ring_capacity \<circ> sr_ring"
  accept_push drain_entries
proof
  fix r r' e
  assume "(ring_wf \<circ> sr_ring) r" "accept_push e r = Inr r'"
  then show "(ring_wf \<circ> sr_ring) r' \<and> (ring_items \<circ> sr_ring) r' = (ring_items \<circ> sr_ring) r @ [e]
     \<and> (ring_capacity \<circ> sr_ring) r' = (ring_capacity \<circ> sr_ring) r"
    using ring_wf_put [of "sr_ring r" e] by (auto simp: accept_push_def push_def split: if_splits)
next
  fix r r' m es
  assume wf: "(ring_wf \<circ> sr_ring) r" and d: "drain_entries m r = Inr (es, r')"
  then have "case m of None \<Rightarrow> True | Some k \<Rightarrow> 0 \<le> k"
    by (auto simp: drain_entries_def drain_def bind_r_eq_Inr split: option.splits)
  with wf obtain n q where "drain m r = Inr (\<lparr>sb_entries = take n (ring_items (sr_ring r)),
      sb_overflowed = sr_overflowed r\<rparr>, q)" "ring_wf (sr_ring q)"
    "ring_items (sr_ring q) = drop n (ring_items (sr_ring r))" "ring_capacity (sr_ring q) = ring_capacity (sr_ring r)"
    using drain_wf [of r m] by (simp add: comp_def) blast
  with d show "(ring_wf \<circ> sr_ring) r' \<and> (ring_items \<circ> sr_ring) r = es @ (ring_items \<circ> sr_ring) r'
     \<and> (ring_capacity \<circ> sr_ring) r' = (ring_capacity \<circ> sr_ring) r"
    by (auto simp: drain_entries_def)
next
  fix r
  assume "(ring_wf \<circ> sr_ring) r"
  then show "length ((ring_items \<circ> sr_ring) r) \<le> (ring_capacity \<circ> sr_ring) r"
    using ring_wf_size [of "sr_ring r"] by simp
qed

datatype hint_op = Hint state_change_entry | Drain "int option"

text \<open>
  A history with its account: what was accepted, what a drain handed over, what was refused
  since the last drain, and for every drain the refusals before it with the flag it reported.
\<close>

record hint_log =
  hl_ring :: state_change_ring
  hl_accepted :: "state_change_entry list"
  hl_delivered :: "state_change_entry list"
  hl_refused :: "state_change_entry list"
  hl_reports :: "(state_change_entry list \<times> bool) list"

fun hint_step :: "hint_log \<Rightarrow> hint_op \<Rightarrow> hint_log" where
  "hint_step l (Hint e) = (case push e (hl_ring l) of ((accepted, _), r') \<Rightarrow>
     if accepted then l\<lparr>hl_ring := r', hl_accepted := hl_accepted l @ [e]\<rparr>
     else l\<lparr>hl_ring := r', hl_refused := hl_refused l @ [e]\<rparr>)"
| "hint_step l (Drain m) = (case drain m (hl_ring l) of
     Inl _ \<Rightarrow> l
   | Inr (b, r') \<Rightarrow> l\<lparr>hl_ring := r', hl_delivered := hl_delivered l @ sb_entries b, hl_refused := [],
                     hl_reports := hl_reports l @ [(hl_refused l, sb_overflowed b)]\<rparr>)"

definition hint_inv :: "hint_log \<Rightarrow> bool" where
  "hint_inv l \<longleftrightarrow> ring_wf (sr_ring (hl_ring l))
     \<and> hl_accepted l = hl_delivered l @ ring_items (sr_ring (hl_ring l))
     \<and> (sr_overflowed (hl_ring l) \<longleftrightarrow> hl_refused l \<noteq> [])
     \<and> (\<forall>(refused, flag) \<in> set (hl_reports l). flag \<longleftrightarrow> refused \<noteq> [])"

lemma hint_step_inv: "hint_inv l \<Longrightarrow> hint_inv (hint_step l a)"
proof (cases a)
  case (Hint e)
  assume "hint_inv l"
  with Hint show ?thesis using ring_wf_put [of "sr_ring (hl_ring l)" e]
    by (auto simp: hint_inv_def push_def)
next
  case (Drain m)
  assume inv: "hint_inv l"
  show ?thesis
  proof (cases "case m of None \<Rightarrow> True | Some k \<Rightarrow> 0 \<le> k")
    case True
    with inv obtain n r' where d: "drain m (hl_ring l) = Inr (\<lparr>sb_entries = take n (ring_items (sr_ring (hl_ring l))),
        sb_overflowed = sr_overflowed (hl_ring l)\<rparr>, r')" "ring_wf (sr_ring r')"
      "ring_items (sr_ring r') = drop n (ring_items (sr_ring (hl_ring l)))" "\<not> sr_overflowed r'"
      using drain_wf [of "hl_ring l" m] unfolding hint_inv_def by blast
    with inv Drain show ?thesis by (auto simp: hint_inv_def)
  next
    case False
    then have "\<exists>e. drain m (hl_ring l) = Inl e" by (auto simp: drain_def split: option.splits)
    with inv Drain show ?thesis by auto
  qed
qed

lemma hint_history_inv: "hint_inv l \<Longrightarrow> hint_inv (foldl hint_step l ops)"
  by (induction ops arbitrary: l) (simp_all add: hint_step_inv)

section \<open>The doorbell\<close>

text \<open>
  The state is the generation counter. \<open>wait_after\<close> returns the counter as it is when the wait
  ends; \<open>rings\<close> counts the \<open>ring\<close> calls other threads make while it waits (none on a timeout).
\<close>

definition bell_ring :: "int \<Rightarrow> int result" where
  "bell_ring generation = next_id U64 generation"

fun bell_rings :: "nat \<Rightarrow> int \<Rightarrow> int result" where
  "bell_rings 0 g = Inr g"
| "bell_rings (Suc n) g = bind_r (bell_ring g) (bell_rings n)"

definition wait_after :: "int \<Rightarrow> nat \<Rightarrow> int \<Rightarrow> int result" where
  "wait_after last_seen rings generation =
     bind_r (check_id U64 last_seen) (\<lambda>_.
       if generation = last_seen then bell_rings rings generation else Inr generation)"

lemma bell_rings_next_many: "bell_rings n g = next_many U64 n g"
  by (induction n arbitrary: g) (simp_all add: bell_ring_def fun_eq_iff cong: bind_r_cong)

lemma bell_rings_advance: "is_valid U64 g \<Longrightarrow> bell_rings n g = Inr (advance_id U64 n g)"
  unfolding bell_rings_next_many by (rule next_many_advance) (simp_all add: U64_def)

section \<open>Properties\<close>

text \<open>C26: hints may be refused but never silently: in every history of pushes and drains on a fresh ring
  the accepted hints are the delivered ones followed by the ones still queued, and a drain reports
  overflow exactly when at least one hint was refused since the drain before it.\<close>

theorem no_silent_hint_loss:
  assumes "new_state_change_ring n = Inr r0"
    and "l = foldl hint_step \<lparr>hl_ring = r0, hl_accepted = [], hl_delivered = [], hl_refused = [], hl_reports = []\<rparr> ops"
  shows "hl_accepted l = hl_delivered l @ ring_items (sr_ring (hl_ring l))
     \<and> (\<forall>(refused, flag) \<in> set (hl_reports l). flag \<longleftrightarrow> refused \<noteq> [])
     \<and> (has_pending (hl_ring l) \<longleftrightarrow> ring_items (sr_ring (hl_ring l)) \<noteq> [] \<or> hl_refused l \<noteq> [])"
proof -
  let ?l0 = "\<lparr>hl_ring = r0, hl_accepted = [], hl_delivered = [], hl_refused = [], hl_reports = []\<rparr> :: hint_log"
  from assms(1) have n: "0 < nat n" and r0: "r0 = \<lparr>sr_ring = new_ring (nat n), sr_overflowed = False\<rparr>"
    by (auto simp: new_state_change_ring_def bind_r_eq_Inr)
  have "ring_wf (sr_ring r0) \<and> ring_items (sr_ring r0) = []"
    unfolding r0 using ring_wf_new [OF n] by simp
  then have "hint_inv ?l0" by (simp add: hint_inv_def r0)
  then have inv: "hint_inv l" unfolding assms(2) by (rule hint_history_inv)
  with ring_wf_size [of "sr_ring (hl_ring l)"] show ?thesis by (auto simp: hint_inv_def has_pending_def)
qed

definition hint_example :: state_change_entry where
  "hint_example = \<lparr>sc_block_kind = REQUEST_DRAFT, sc_row = 5, sc_publish_seq = 1\<rparr>"

theorem no_silent_hint_loss_witness:
  "\<exists>r0 l. new_state_change_ring 1 = Inr r0
     \<and> l = foldl hint_step \<lparr>hl_ring = r0, hl_accepted = [], hl_delivered = [], hl_refused = [], hl_reports = []\<rparr>
              [Hint hint_example, Hint hint_example, Drain None]
     \<and> hl_accepted l = hl_delivered l @ ring_items (sr_ring (hl_ring l))"
proof -
  obtain r0 where "new_state_change_ring 1 = Inr r0" by (simp add: new_state_change_ring_def)
  then show ?thesis using no_silent_hint_loss [OF _ refl] by blast
qed



end
