(* ===== verification/Speculative.thy ===== *)
theory Speculative
  imports Prelude
begin

text \<open>
  \<open>swiftllm/speculative.py\<close>: verification plans and greedy acceptance of draft tokens, with the
  theorem that makes speculative decoding correct: whatever the drafts are, the committed
  tokens are the ones the target model produces on its own. The target model is third-party
  arithmetic and is a parameter: a function from a token sequence to its greedy next token.
\<close>

type_synonym token = int

section \<open>Verification plans\<close>

record spec_request =
  sp_prompt_len :: nat
  sp_output_token_ids :: "token list"

text \<open>The tree fields of a proposal are carried and never read; they are left out.\<close>

record draft_proposal =
  pr_request_id :: int
  pr_kind :: string
  pr_draft_token_ids :: "token list"

record verify_plan_item =
  vp_request :: spec_request
  vp_input_token_ids :: "token list"
  vp_seq_lens :: "nat list"
  vp_draft_token_ids :: "token list"
  vp_proposal_kind :: string
  vp_output_row_start :: int
  vp_output_row_count :: nat

definition plan_for :: "string \<Rightarrow> spec_request \<Rightarrow> draft_proposal \<Rightarrow> verify_plan_item" where
  "plan_for kind request proposal =
     (let verify_tokens = [last (sp_output_token_ids request)] @ pr_draft_token_ids proposal;
          base_seq_len = sp_prompt_len request + length (sp_output_token_ids request)
      in \<lparr>vp_request = request, vp_input_token_ids = verify_tokens,
          vp_seq_lens = map (\<lambda>i. base_seq_len + i) [0..<length verify_tokens],
          vp_draft_token_ids = pr_draft_token_ids proposal, vp_proposal_kind = kind,
          vp_output_row_start = -1, vp_output_row_count = length verify_tokens\<rparr>)"

definition build_linear_verification_plan :: "spec_request \<Rightarrow> draft_proposal \<Rightarrow> verify_plan_item result" where
  "build_linear_verification_plan request proposal =
     bind_r (require (sp_output_token_ids request \<noteq> [])
               (ValueError ''linear speculative verification requires an unstored anchor token''))
       (\<lambda>_. Inr (plan_for ''linear'' request proposal))"

definition build_dflash_block_verification_plan :: "spec_request \<Rightarrow> draft_proposal \<Rightarrow> verify_plan_item result" where
  "build_dflash_block_verification_plan request proposal =
     bind_r (require (sp_output_token_ids request \<noteq> [])
               (ValueError ''DFlash block verification requires an unstored anchor token''))
       (\<lambda>_. Inr (plan_for ''dflash_block'' request proposal))"

definition build_verification_plan :: "spec_request \<Rightarrow> draft_proposal \<Rightarrow> verify_plan_item result" where
  "build_verification_plan request proposal =
     (if pr_kind proposal = ''linear'' then build_linear_verification_plan request proposal
      else if pr_kind proposal = ''dflash_block'' then build_dflash_block_verification_plan request proposal
      else if pr_kind proposal = ''tree'' then Inl (NotImplementedError ''EAGLE/tree verification is not implemented yet'')
      else Inl (ValueError ''Unsupported draft proposal kind''))"

section \<open>Acceptance\<close>

text \<open>The \<open>while\<close> loop over \<open>num_accepted\<close>.\<close>

function accept_loop :: "token list \<Rightarrow> token list \<Rightarrow> nat \<Rightarrow> nat" where
  "accept_loop draft posterior n =
     (if n < length draft \<and> posterior ! n = draft ! n then accept_loop draft posterior (n + 1) else n)"
  by auto
termination by (relation "measure (\<lambda>(draft, posterior, n). length draft - n)") auto

declare accept_loop.simps [simp del]

text \<open>The \<open>for\<close> loop that cuts after the first stop token.\<close>

fun cut_at_stop :: "token list \<Rightarrow> token list \<Rightarrow> token list" where
  "cut_at_stop stops [] = []"
| "cut_at_stop stops (t # ts) = (if t \<in> set stops then [t] else t # cut_at_stop stops ts)"

definition compute_greedy_acceptance ::
  "token list \<Rightarrow> token list \<Rightarrow> int option \<Rightarrow> token list \<Rightarrow> (token list \<times> nat) result" where
  "compute_greedy_acceptance draft posterior remaining stops =
     bind_r (require (case remaining of None \<Rightarrow> True | Some r \<Rightarrow> 0 \<le> r)
               (ValueError ''remaining_output_len must be non-negative'')) (\<lambda>_.
     bind_r (require (length draft + 1 \<le> length posterior)
               (ValueError ''posterior_token_ids must contain K+1 tokens for K draft tokens'')) (\<lambda>_.
       let num_accepted = accept_loop draft posterior 0;
           accepted = take num_accepted draft @ [posterior ! num_accepted];
           accepted = (case remaining of None \<Rightarrow> accepted | Some r \<Rightarrow> take (nat r) accepted)
       in bind_r (require (\<forall>t \<in> set stops. 0 \<le> t) (ValueError ''stop_token_ids must be non-negative'')) (\<lambda>_.
            let accepted = cut_at_stop stops accepted
            in Inr (accepted, min num_accepted (length accepted)))))"

definition compute_dflash_block_acceptance ::
  "token list \<Rightarrow> token list \<Rightarrow> int option \<Rightarrow> token list \<Rightarrow> (token list \<times> nat) result" where
  "compute_dflash_block_acceptance draft posterior remaining stops =
     compute_greedy_acceptance draft posterior remaining stops"

definition compute_acceptance_for_plan ::
  "verify_plan_item \<Rightarrow> token list \<Rightarrow> int option \<Rightarrow> token list \<Rightarrow> (token list \<times> nat) result" where
  "compute_acceptance_for_plan plan posterior remaining stops =
     (if vp_proposal_kind plan = ''dflash_block''
      then compute_dflash_block_acceptance (vp_draft_token_ids plan) posterior remaining stops
      else compute_greedy_acceptance (vp_draft_token_ids plan) posterior remaining stops)"

definition aggregate_max_lens_by_seq_id :: "int list \<Rightarrow> int list \<Rightarrow> (int \<rightharpoonup> int) result" where
  "aggregate_max_lens_by_seq_id seq_ids seq_lens =
     bind_r (require (length seq_ids = length seq_lens)
               (ValueError ''seq_ids_list and seq_lens_list must have the same length'')) (\<lambda>_.
       Inr (foldl (\<lambda>m (i, n). m(i \<mapsto> max (case m i of None \<Rightarrow> 0 | Some x \<Rightarrow> x) n)) Map.empty (zip seq_ids seq_lens)))"

section \<open>The reference: greedy decoding by the target alone\<close>

fun greedy_decode :: "(token list \<Rightarrow> token) \<Rightarrow> token list \<Rightarrow> nat \<Rightarrow> token list" where
  "greedy_decode target ctx 0 = []"
| "greedy_decode target ctx (Suc n) = target ctx # greedy_decode target (ctx @ [target ctx]) n"

text \<open>The posterior row the target computes for a draft: its choice after each prefix of it.\<close>

definition verify :: "(token list \<Rightarrow> token) \<Rightarrow> token list \<Rightarrow> token list \<Rightarrow> token list" where
  "verify target ctx draft = map (\<lambda>i. target (ctx @ take i draft)) [0..<length draft + 1]"

lemma length_verify [simp]: "length (verify target ctx draft) = length draft + 1"
  by (simp add: verify_def)

lemma nth_verify [simp]: "i \<le> length draft \<Longrightarrow> verify target ctx draft ! i = target (ctx @ take i draft)"
  unfolding verify_def by (subst nth_map) (simp_all del: upt_Suc)

lemma greedy_decode_append:
  "greedy_decode target ctx (m + n) = greedy_decode target ctx m @ greedy_decode target (ctx @ greedy_decode target ctx m) n"
  by (induction m arbitrary: ctx) simp_all

lemma greedy_decode_snoc:
  "greedy_decode target ctx (n + 1) = greedy_decode target ctx n @ [target (ctx @ greedy_decode target ctx n)]"
  by (simp only: greedy_decode_append greedy_decode.simps One_nat_def)

lemma length_greedy_decode [simp]: "length (greedy_decode target ctx n) = n"
  by (induction n arbitrary: ctx) simp_all

lemma take_greedy_decode: "take m (greedy_decode target ctx n) = greedy_decode target ctx (min m n)"
proof (induction n arbitrary: m ctx)
  case (Suc n)
  then show ?case by (cases m) simp_all
qed simp

lemma accept_loop_spec:
  "n \<le> length draft \<Longrightarrow> \<forall>i < n. posterior ! i = draft ! i \<Longrightarrow>
   (let k = accept_loop draft posterior n in
      n \<le> k \<and> k \<le> length draft \<and> (\<forall>i < k. posterior ! i = draft ! i)
      \<and> (k < length draft \<longrightarrow> posterior ! k \<noteq> draft ! k))"
proof (induction draft posterior n rule: accept_loop.induct)
  case (1 draft posterior n)
  show ?case
  proof (cases "n < length draft \<and> posterior ! n = draft ! n")
    case True
    then have "\<forall>i < n + 1. posterior ! i = draft ! i" using 1(3) by (auto simp: less_Suc_eq)
    with 1(1) True show ?thesis by (subst accept_loop.simps) (auto simp: Let_def)
  next
    case False
    with 1(2,3) show ?thesis by (subst accept_loop.simps) (auto simp: Let_def)
  qed
qed

lemma accept_loop_bounds:
  "accept_loop draft posterior 0 \<le> length draft"
  "\<forall>i < accept_loop draft posterior 0. posterior ! i = draft ! i"
  "accept_loop draft posterior 0 < length draft \<Longrightarrow> posterior ! accept_loop draft posterior 0 \<noteq> draft ! accept_loop draft posterior 0"
  using accept_loop_spec [of 0 draft posterior] by (simp_all add: Let_def)

text \<open>Agreement with the target's choices makes a draft prefix the target's own continuation.\<close>

lemma agreeing_prefix_greedy:
  "n \<le> length draft \<Longrightarrow> \<forall>i < n. target (ctx @ take i draft) = draft ! i \<Longrightarrow> take n draft = greedy_decode target ctx n"
proof (induction n)
  case (Suc n)
  then have ih: "take n draft = greedy_decode target ctx n" by simp
  have "take (Suc n) draft = greedy_decode target ctx n @ [target (ctx @ greedy_decode target ctx n)]"
    using Suc.prems(1) ih Suc.prems(2) [rule_format, of n] by (simp add: take_Suc_conv_app_nth)
  also have "\<dots> = greedy_decode target ctx (n + 1)" by (simp only: greedy_decode_snoc)
  finally show ?case by simp
qed simp

definition verified :: "(token list \<Rightarrow> token) \<Rightarrow> token list \<Rightarrow> token list \<Rightarrow> token list \<Rightarrow> bool" where
  "verified target ctx draft posterior \<longleftrightarrow>
     length draft + 1 \<le> length posterior \<and> (\<forall>i \<le> length draft. posterior ! i = target (ctx @ take i draft))"

lemma verify_verified: "verified target ctx draft (verify target ctx draft)"
  by (simp add: verified_def)

lemma accepted_greedy:
  assumes "verified target ctx draft posterior"
  shows "let k = accept_loop draft posterior 0
         in take k draft @ [posterior ! k] = greedy_decode target ctx (k + 1)"
proof -
  let ?k = "accept_loop draft posterior 0"
  note b = accept_loop_bounds [of draft posterior]
  have p: "posterior ! i = target (ctx @ take i draft)" if "i \<le> length draft" for i
    using assms that by (simp add: verified_def)
  have "take ?k draft = greedy_decode target ctx ?k"
    using b p by (intro agreeing_prefix_greedy) auto
  with p [OF b(1)] show ?thesis unfolding Let_def greedy_decode_snoc by simp
qed

lemma cut_at_stop_prefix: "\<exists>n \<le> length ts. cut_at_stop stops ts = take n ts"
proof (induction ts)
  case (Cons t ts)
  then obtain n where "n \<le> length ts" "cut_at_stop stops ts = take n ts" by blast
  then show ?case by (cases "t \<in> set stops") (auto intro: exI [of _ "Suc 0"] exI [of _ "Suc n"])
qed simp

lemma cut_at_stop_inner: "t \<in> set (butlast (cut_at_stop stops ts)) \<Longrightarrow> t \<notin> set stops"
  by (induction ts) (auto split: if_splits)

lemma cut_at_stop_length: "length (cut_at_stop stops ts) < length ts \<Longrightarrow> cut_at_stop stops ts \<noteq> [] \<and> last (cut_at_stop stops ts) \<in> set stops"
  by (induction ts) (auto split: if_splits)

lemma cut_at_stop_Nil [simp]: "cut_at_stop stops ts = [] \<longleftrightarrow> ts = []"
  by (cases ts) auto

lemma acceptance_sound:
  assumes v: "verified target ctx draft posterior"
    and a: "compute_greedy_acceptance draft posterior remaining stops = Inr (acc, k)"
  shows "acc = greedy_decode target ctx (length acc)"
    and "take k acc = take k draft" "k \<le> length acc" "k \<le> length draft"
    and "\<forall>t \<in> set (butlast acc). t \<notin> set stops"
    and "remaining \<noteq> Some 0 \<Longrightarrow> acc \<noteq> []"
    and "\<And>r. remaining = Some r \<Longrightarrow> int (length acc) \<le> r"
proof -
  let ?k = "accept_loop draft posterior 0"
  define full where "full = take ?k draft @ [posterior ! ?k]"
  define cut where "cut = (case remaining of None \<Rightarrow> full | Some r \<Rightarrow> take (nat r) full)"
  have full: "full = greedy_decode target ctx (?k + 1)"
    using accepted_greedy [OF v] by (simp add: full_def Let_def)
  obtain m where m: "cut = take m full"
    by (cases remaining) (auto simp: cut_def intro: that [of "length full"])
  have acc: "acc = cut_at_stop stops cut" and k: "k = min ?k (length acc)"
    and rem: "case remaining of None \<Rightarrow> True | Some r \<Rightarrow> 0 \<le> r"
    using a unfolding cut_def full_def by (auto simp: compute_greedy_acceptance_def Let_def bind_r_eq_Inr)
  obtain n where n: "acc = take n full"
    using cut_at_stop_prefix [of cut stops] m acc by (metis take_take)
  show g: "acc = greedy_decode target ctx (length acc)"
    unfolding n full take_greedy_decode length_greedy_decode ..
  show "k \<le> length acc" "k \<le> length draft" using k accept_loop_bounds(1) [of draft posterior] by auto
  have "take k acc = take k (take ?k draft)"
    using n k accept_loop_bounds(1) [of draft posterior] by (simp add: full_def min_def split: if_splits)
  then show "take k acc = take k draft" using k by (simp add: min_def split: if_splits)
  show "\<forall>t \<in> set (butlast acc). t \<notin> set stops" using cut_at_stop_inner acc by blast
  show "acc \<noteq> []" if "remaining \<noteq> Some 0"
    using that rem acc by (cases remaining) (auto simp: cut_def full_def)
  show "int (length acc) \<le> r" if "remaining = Some r" for r
  proof -
    have "length acc \<le> length cut" using cut_at_stop_prefix [of cut stops] acc by auto
    moreover have "length cut \<le> nat r" using that by (simp add: cut_def)
    ultimately show ?thesis using that rem by simp
  qed
qed

section \<open>Many rounds\<close>

text \<open>
  A generation: one draft per round, verified by the target and accepted by the code, until the
  output budget is used up, a stop token is committed, or the drafts end.
\<close>

fun generate :: "(token list \<Rightarrow> token) \<Rightarrow> token list \<Rightarrow> token list \<Rightarrow> nat \<Rightarrow> token list list \<Rightarrow> token list result" where
  "generate target stops ctx remaining [] = Inr []"
| "generate target stops ctx remaining (d # ds) =
     (if remaining = 0 then Inr []
      else bind_r (compute_greedy_acceptance d (verify target ctx d) (Some (int remaining)) stops) (\<lambda>(acc, k).
        if last acc \<in> set stops then Inr acc
        else bind_r (generate target stops (ctx @ acc) (remaining - length acc) ds) (\<lambda>rest. Inr (acc @ rest))))"

lemma acceptance_returns:
  "\<forall>t \<in> set stops. 0 \<le> t \<Longrightarrow> verified target ctx d posterior \<Longrightarrow>
   \<exists>acc k. compute_greedy_acceptance d posterior (Some (int r)) stops = Inr (acc, k)"
  by (simp add: compute_greedy_acceptance_def verified_def Let_def)

lemma generate_greedy:
  assumes "\<forall>t \<in> set stops. 0 \<le> t"
  shows "\<exists>out. generate target stops ctx remaining ds = Inr out \<and> out = greedy_decode target ctx (length out)
     \<and> length out \<le> remaining \<and> (\<forall>t \<in> set (butlast out). t \<notin> set stops)
     \<and> (remaining \<le> length ds \<longrightarrow> length out = remaining \<or> out \<noteq> [] \<and> last out \<in> set stops)"
proof (induction ds arbitrary: ctx remaining)
  case (Cons d ds)
  show ?case
  proof (cases "remaining = 0")
    case False
    note v = verify_verified [of target ctx d]
    obtain acc k where a: "compute_greedy_acceptance d (verify target ctx d) (Some (int remaining)) stops = Inr (acc, k)"
      using acceptance_returns [OF assms v] by blast
    note s = acceptance_sound [OF v a]
    have ne: "acc \<noteq> []" and le: "length acc \<le> remaining" using s(6,7) False by auto
    show ?thesis
    proof (cases "last acc \<in> set stops")
      case True
      with a False s(1,5) ne le show ?thesis by auto
    next
      case last: False
      obtain out where o: "generate target stops (ctx @ acc) (remaining - length acc) ds = Inr out"
        "out = greedy_decode target (ctx @ acc) (length out)" "length out \<le> remaining - length acc"
        "\<forall>t \<in> set (butlast out). t \<notin> set stops"
        "remaining - length acc \<le> length ds \<longrightarrow> length out = remaining - length acc \<or> out \<noteq> [] \<and> last out \<in> set stops"
        using Cons.IH by blast
      have "acc @ out = greedy_decode target ctx (length (acc @ out))"
        using s(1) o(2) by (simp add: greedy_decode_append flip: s(1))
      moreover have "\<forall>t \<in> set (butlast (acc @ out)). t \<notin> set stops"
        using s(5) o(4) last ne by (cases acc rule: rev_cases) (auto simp: butlast_append split: if_splits)
      moreover have "remaining \<le> length (d # ds) \<longrightarrow> remaining - length acc \<le> length ds"
        using ne by (cases acc) auto
      moreover have "generate target stops ctx remaining (d # ds) = Inr (acc @ out)"
        using a False last o(1) by simp
      moreover have "length (acc @ out) \<le> remaining" using o(3) le by simp
      moreover have "length (acc @ out) = remaining \<or> acc @ out \<noteq> [] \<and> last (acc @ out) \<in> set stops"
        if "remaining - length acc \<le> length ds"
        using o(3,5) that le by (auto simp del: greedy_decode.simps)
      ultimately show ?thesis by blast
    qed
  qed auto
qed auto

section \<open>Properties\<close>

text \<open>C30: greedy speculative decoding is lossless: for any target model, any context and any drafts, the
  tokens committed over all rounds are exactly the ones the target would produce alone, within the
  output budget and with no stop token before the end; and with one draft per remaining token the
  generation ends by the budget or by a stop token.\<close>

theorem speculative_decoding_lossless:
  assumes "\<forall>t \<in> set stops. 0 \<le> t"
  shows "\<exists>out. generate target stops ctx remaining ds = Inr out \<and> out = greedy_decode target ctx (length out)
     \<and> length out \<le> remaining \<and> (\<forall>t \<in> set (butlast out). t \<notin> set stops)
     \<and> (remaining \<le> length ds \<longrightarrow> length out = remaining \<or> out \<noteq> [] \<and> last out \<in> set stops)"
  using assms by (rule generate_greedy)

theorem speculative_decoding_lossless_witness:
  "\<exists>out. generate (\<lambda>ctx. int (length ctx) mod 5) [3] [7] 6 [[1, 2, 9], [4]] = Inr out
     \<and> out = greedy_decode (\<lambda>ctx. int (length ctx) mod 5) [7] (length out)"
  using speculative_decoding_lossless [of "[3]" "\<lambda>ctx. int (length ctx) mod 5" "[7]" 6 "[[1, 2, 9], [4]]"] by auto

text \<open>One verification commits what the target agrees with: with the target's posterior row for the
  draft, the committed tokens are the target's own continuation, the reported number of accepted draft
  tokens is a common prefix of draft and commit, and the budget is respected; with a budget left at
  least one token is committed, so every round makes progress.\<close>

theorem greedy_acceptance_correct:
  assumes "verified target ctx draft posterior"
    and "compute_greedy_acceptance draft posterior remaining stops = Inr (acc, k)"
  shows "acc = greedy_decode target ctx (length acc) \<and> take k acc = take k draft \<and> k \<le> length acc
     \<and> (remaining \<noteq> Some 0 \<longrightarrow> acc \<noteq> []) \<and> (\<forall>r. remaining = Some r \<longrightarrow> int (length acc) \<le> r)"
  using acceptance_sound [OF assms] by blast

theorem greedy_acceptance_correct_witness:
  "[1, 2, 3] = greedy_decode (\<lambda>ctx. int (length ctx)) [0] (length [1, 2, 3 :: token])"
proof -
  have v: "verified (\<lambda>ctx. int (length ctx)) [0] [1, 2, 9] [1, 2, 3, 4]"
    by (auto simp: verified_def le_Suc_eq numeral_eq_Suc)
  have a: "compute_greedy_acceptance [1, 2, 9] [1, 2, 3, 4] (Some 8) [50] = Inr ([1, 2, 3], 2)"
    by code_simp
  show ?thesis using greedy_acceptance_correct [OF v a] by blast
qed

text \<open>A verification plan gives one row per verified token: the anchor and then the draft, row \<open>i\<close> at
  sequence length prompt plus output plus \<open>i\<close>. Without an anchor or with a kind other than linear and
  dflash_block no plan is made.\<close>

lemma verification_plan_rows:
  "case build_verification_plan request proposal of
     Inr plan \<Rightarrow> pr_kind proposal \<in> {''linear'', ''dflash_block''} \<and> sp_output_token_ids request \<noteq> []
       \<and> vp_proposal_kind plan = pr_kind proposal
       \<and> vp_input_token_ids plan = last (sp_output_token_ids request) # pr_draft_token_ids proposal
       \<and> vp_output_row_count plan = length (pr_draft_token_ids proposal) + 1
       \<and> length (vp_seq_lens plan) = vp_output_row_count plan
       \<and> (\<forall>i < vp_output_row_count plan.
            vp_seq_lens plan ! i = sp_prompt_len request + length (sp_output_token_ids request) + i)
   | Inl _ \<Rightarrow> pr_kind proposal \<notin> {''linear'', ''dflash_block''} \<or> sp_output_token_ids request = []"
  by (auto simp: build_verification_plan_def build_linear_verification_plan_def
      build_dflash_block_verification_plan_def plan_for_def Let_def require_def nth_append simp del: upt_Suc split: if_splits)

end
