(* ===== verification/HostArena.thy ===== *)
theory HostArena
  imports Handles
begin

text \<open>
  \<open>kv/arena.py\<close>: the shared HostKV payload arena. The shared-memory mapping is a byte list with
  the K plane, the V plane and the padding the system rounds the mapping up by; an extent is
  the process-local record of a slot, and a write goes through a lease that names its version.
\<close>

section \<open>Extents and leases\<close>

record host_kv_extent =
  hx_request_slot :: int
  hx_request_epoch :: int
  hx_host_slot :: int
  hx_host_slot_generation :: int
  hx_writer_lease_generation :: int
  hx_arena :: hostkv_handle
  hx_capacity_blocks :: int
  hx_committed_blocks :: int
  hx_kv_version :: int

definition non_negative :: "int \<Rightarrow> unit result" where
  "non_negative v = require (0 \<le> v) (ValueError ''must be non-negative'')"

definition positive :: "int \<Rightarrow> unit result" where
  "positive v = checks [non_negative v, require (0 < v) (ValueError ''must be positive'')]"

definition check_extent :: "host_kv_extent \<Rightarrow> unit result" where
  "check_extent x = checks
     [check_id REQUEST_SLOT (hx_request_slot x), check_id REQUEST_EPOCH (hx_request_epoch x),
      check_id HOST_SLOT (hx_host_slot x), check_id HOST_SLOT_GENERATION (hx_host_slot_generation x),
      check_id WRITER_LEASE_GENERATION (hx_writer_lease_generation x), check_id KV_VERSION (hx_kv_version x),
      non_negative (hx_capacity_blocks x), non_negative (hx_committed_blocks x),
      require (hx_capacity_blocks x \<noteq> 0) (HostKVCapacityError ''capacity_blocks must be positive''),
      require (hx_committed_blocks x \<le> hx_capacity_blocks x)
        (HostKVCapacityError ''committed_blocks exceeds capacity_blocks'')]"

definition extent_offset :: "host_kv_extent \<Rightarrow> int" where
  "extent_offset x = hk_offset_blocks (hx_arena x)"

definition next_version :: "host_kv_extent \<Rightarrow> int \<Rightarrow> host_kv_extent result" where
  "next_version x committed =
     bind_r (checks [non_negative committed,
                     require (committed \<le> hx_capacity_blocks x) (HostKVCapacityError ''committed_blocks exceeds capacity_blocks'')]) (\<lambda>_.
     bind_r (next_id KV_VERSION (hx_kv_version x)) (\<lambda>version.
       let x' = x\<lparr>hx_committed_blocks := committed, hx_kv_version := version\<rparr>
       in bind_r (check_extent x') (\<lambda>_. Inr x')))"

record write_lease =
  wl_request_slot :: int
  wl_request_epoch :: int
  wl_host_slot :: int
  wl_host_slot_generation :: int
  wl_writer_lease_generation :: int
  wl_expected_version :: int
  wl_dirty_begin_block :: int
  wl_dirty_block_count :: int

definition check_write_lease :: "write_lease \<Rightarrow> unit result" where
  "check_write_lease l = checks
     [check_id REQUEST_SLOT (wl_request_slot l), check_id REQUEST_EPOCH (wl_request_epoch l),
      check_id HOST_SLOT (wl_host_slot l), check_id HOST_SLOT_GENERATION (wl_host_slot_generation l),
      check_id WRITER_LEASE_GENERATION (wl_writer_lease_generation l), check_id KV_VERSION (wl_expected_version l),
      non_negative (wl_dirty_begin_block l), non_negative (wl_dirty_block_count l)]"

definition lease_for_extent :: "host_kv_extent \<Rightarrow> int \<Rightarrow> int \<Rightarrow> write_lease result" where
  "lease_for_extent x begin_block count =
     (let l = \<lparr>wl_request_slot = hx_request_slot x, wl_request_epoch = hx_request_epoch x,
               wl_host_slot = hx_host_slot x, wl_host_slot_generation = hx_host_slot_generation x,
               wl_writer_lease_generation = hx_writer_lease_generation x, wl_expected_version = hx_kv_version x,
               wl_dirty_begin_block = begin_block, wl_dirty_block_count = count\<rparr>
      in bind_r (check_write_lease l) (\<lambda>_. Inr l))"

section \<open>The arena\<close>

record arena_descriptor =
  ad_arena_id :: string
  ad_shm_name :: string
  ad_total_bytes :: int
  ad_block_bytes :: int
  ad_total_blocks :: int
  ad_k_plane_offset :: int
  ad_v_plane_offset :: int
  ad_plane_bytes :: int
  ad_dtype :: string
  ad_kv_block_shape :: "int list"
  ad_descriptor_generation :: int

definition check_descriptor :: "arena_descriptor \<Rightarrow> unit result" where
  "check_descriptor d = checks
     ([require (ad_arena_id d \<noteq> [] \<and> ad_shm_name d \<noteq> [] \<and> ad_dtype d \<noteq> [])
         (ValueError ''arena_id, shm_name, and dtype must be non-empty'')]
      @ map positive (ad_kv_block_shape d)
      @ [positive (ad_total_bytes d), positive (ad_block_bytes d), positive (ad_total_blocks d),
         positive (ad_plane_bytes d), positive (ad_descriptor_generation d),
         non_negative (ad_k_plane_offset d), non_negative (ad_v_plane_offset d),
         require (ad_k_plane_offset d = 0) (ValueError ''K plane must start at offset 0''),
         require (ad_plane_bytes d = ad_total_blocks d * ad_block_bytes d)
           (ValueError ''plane_bytes must equal total_blocks * block_bytes''),
         require (ad_v_plane_offset d = ad_plane_bytes d) (ValueError ''V plane must start immediately after K plane''),
         require (ad_v_plane_offset d + ad_plane_bytes d = ad_total_bytes d)
           (ValueError ''V plane must fit exactly in total_bytes'')])"

record host_arena =
  ha_descriptor :: arena_descriptor
  ha_buf :: bytes

definition open_host_arena :: "arena_descriptor \<Rightarrow> bytes \<Rightarrow> host_arena result" where
  "open_host_arena d buf =
     bind_r (require (ad_total_bytes d \<le> int (length buf)) (ValueError ''shared memory size does not match descriptor''))
       (\<lambda>_. Inr \<lparr>ha_descriptor = d, ha_buf = buf\<rparr>)"

definition validate_extent :: "host_arena \<Rightarrow> host_kv_extent \<Rightarrow> unit result" where
  "validate_extent a x =
     bind_r (require (hk_generation (hx_arena x) = ad_descriptor_generation (ha_descriptor a))
               (ValueError ''HostKV extent generation does not match arena descriptor'')) (\<lambda>_.
     bind_r (require (hk_block_count (hx_arena x) = hx_capacity_blocks x)
               (HostKVCapacityError ''HostKV handle block count must match extent capacity'')) (\<lambda>_.
     bind_r (within_blocks (hx_arena x) (ad_total_blocks (ha_descriptor a))) (\<lambda>inside.
     require inside (HostKVCapacityError ''HostKV extent exceeds arena capacity''))))"

definition make_extent :: "host_arena \<Rightarrow> int \<Rightarrow> int \<Rightarrow> int \<Rightarrow> int \<Rightarrow> int \<Rightarrow> int \<Rightarrow> int \<Rightarrow> host_kv_extent result" where
  "make_extent a slot epoch host_slot host_gen writer_gen offset cap =
     bind_r (mk_hostkv_handle offset cap (ad_descriptor_generation (ha_descriptor a))) (\<lambda>handle.
       let x = \<lparr>hx_request_slot = slot, hx_request_epoch = epoch, hx_host_slot = host_slot,
                hx_host_slot_generation = host_gen, hx_writer_lease_generation = writer_gen, hx_arena = handle,
                hx_capacity_blocks = cap, hx_committed_blocks = 0, hx_kv_version = 0\<rparr>
       in bind_r (check_extent x) (\<lambda>_. bind_r (validate_extent a x) (\<lambda>_. Inr x)))"

definition validate_write_lease :: "host_arena \<Rightarrow> host_kv_extent \<Rightarrow> write_lease \<Rightarrow> unit result" where
  "validate_write_lease a x l = checks
     [validate_extent a x,
      require (wl_request_slot l = hx_request_slot x \<and> wl_request_epoch l = hx_request_epoch x
               \<and> wl_host_slot l = hx_host_slot x \<and> wl_host_slot_generation l = hx_host_slot_generation x
               \<and> wl_writer_lease_generation l = hx_writer_lease_generation x)
        (ValueError ''HostKV write lease does not match extent identity''),
      require (wl_expected_version l = hx_kv_version x)
        (ValueError ''HostKV write lease expected_version does not match extent version''),
      require (wl_dirty_begin_block l \<le> hx_committed_blocks x)
        (HostKVCapacityError ''HostKV write lease cannot skip over uncommitted blocks''),
      require (wl_dirty_begin_block l + wl_dirty_block_count l \<le> hx_capacity_blocks x)
        (HostKVCapacityError ''HostKV write lease dirty range exceeds extent capacity'')]"

text \<open>A slot view is the pair of its byte offsets in the K and V planes and its length.\<close>

definition slot_view :: "host_arena \<Rightarrow> host_kv_extent \<Rightarrow> int \<Rightarrow> int \<Rightarrow> nat \<times> nat \<times> nat" where
  "slot_view a x begin_block count =
     (let rel_begin = (extent_offset x + begin_block) * ad_block_bytes (ha_descriptor a);
          nbytes = count * ad_block_bytes (ha_descriptor a)
      in (nat (ad_k_plane_offset (ha_descriptor a) + rel_begin), nat (ad_v_plane_offset (ha_descriptor a) + rel_begin), nat nbytes))"

definition read_kv :: "host_arena \<Rightarrow> host_kv_extent \<Rightarrow> int \<Rightarrow> int \<Rightarrow> (bytes \<times> bytes) result" where
  "read_kv a x begin_block count =
     bind_r (checks [validate_extent a x, non_negative begin_block, non_negative count,
                     require (begin_block + count \<le> hx_capacity_blocks x)
                       (HostKVCapacityError ''HostKV view range exceeds extent capacity'')]) (\<lambda>_.
       case slot_view a x begin_block count of (k, v, n) \<Rightarrow> Inr (subbuf k n (ha_buf a), subbuf v n (ha_buf a)))"

definition write_kv ::
  "host_arena \<Rightarrow> host_kv_extent \<Rightarrow> write_lease \<Rightarrow> bytes \<Rightarrow> bytes \<Rightarrow> (host_kv_extent \<times> host_arena) result" where
  "write_kv a x l kp vp =
     bind_r (checks
       [require (length kp = length vp) (ValueError ''K and V payloads must have equal byte length''),
        require (int (length kp) = wl_dirty_block_count l * ad_block_bytes (ha_descriptor a))
          (ValueError ''payload size must match lease dirty range''),
        validate_write_lease a x l]) (\<lambda>_.
     if wl_dirty_block_count l = 0 then Inr (x, a)
     else case slot_view a x (wl_dirty_begin_block l) (wl_dirty_block_count l) of (k, v, n) \<Rightarrow>
       bind_r (next_version x (max (hx_committed_blocks x) (wl_dirty_begin_block l + wl_dirty_block_count l))) (\<lambda>x'.
         Inr (x', a\<lparr>ha_buf := overwrite v vp (overwrite k kp (ha_buf a))\<rparr>)))"

section \<open>Planes\<close>

definition arena_ok :: "host_arena \<Rightarrow> bool" where
  "arena_ok a \<longleftrightarrow> check_descriptor (ha_descriptor a) = Inr () \<and> ad_total_bytes (ha_descriptor a) \<le> int (length (ha_buf a))"

definition extent_ok :: "host_kv_extent \<Rightarrow> bool" where
  "extent_ok x \<longleftrightarrow> check_extent x = Inr () \<and> hostkv_handle_ok (hx_arena x)"

lemma arena_ok_facts:
  assumes "arena_ok a"
  shows "0 < ad_block_bytes (ha_descriptor a)" "0 < ad_total_blocks (ha_descriptor a)"
    "ad_k_plane_offset (ha_descriptor a) = 0"
    "ad_v_plane_offset (ha_descriptor a) = ad_total_blocks (ha_descriptor a) * ad_block_bytes (ha_descriptor a)"
    "2 * (ad_total_blocks (ha_descriptor a) * ad_block_bytes (ha_descriptor a)) \<le> int (length (ha_buf a))"
  using assms by (auto simp: arena_ok_def check_descriptor_def positive_def)

lemma validate_extent_inside:
  "validate_extent a x = Inr () \<Longrightarrow> extent_offset x + hx_capacity_blocks x \<le> ad_total_blocks (ha_descriptor a)"
  by (auto simp: validate_extent_def bind_r_eq_Inr within_blocks_def end_block_def extent_offset_def)

text \<open>The byte range of blocks \<open>b\<close> to \<open>b + c\<close> of the arena in either plane.\<close>

definition plane_range :: "host_arena \<Rightarrow> nat \<Rightarrow> int \<Rightarrow> int \<Rightarrow> nat \<times> nat" where
  "plane_range a plane b c = (nat (int plane * (ad_total_blocks (ha_descriptor a) * ad_block_bytes (ha_descriptor a))
      + b * ad_block_bytes (ha_descriptor a)), nat (c * ad_block_bytes (ha_descriptor a)))"

lemma slot_view_ranges:
  "arena_ok a \<Longrightarrow> slot_view a x b c =
     (fst (plane_range a 0 (extent_offset x + b) c), fst (plane_range a 1 (extent_offset x + b) c), snd (plane_range a 0 0 c))"
  using arena_ok_facts [of a] by (simp add: slot_view_def plane_range_def Let_def)

lemma plane_range_end:
  assumes "arena_ok a" "0 \<le> b" "0 \<le> c" "b + c \<le> ad_total_blocks (ha_descriptor a)" "p \<le> 1"
  shows "fst (plane_range a p b c) + snd (plane_range a p b c) \<le> length (ha_buf a)"
proof -
  let ?B = "ad_block_bytes (ha_descriptor a)" and ?T = "ad_total_blocks (ha_descriptor a)"
  note f = arena_ok_facts [OF assms(1)]
  have "(b + c) * ?B \<le> ?T * ?B" using assms(4) f(1) by (intro mult_right_mono) simp_all
  moreover have "int p * (?T * ?B) \<le> 1 * (?T * ?B)" using assms(5) f by (intro mult_right_mono) simp_all
  ultimately have "int p * (?T * ?B) + b * ?B + c * ?B \<le> int (length (ha_buf a))"
    using f(5) by (simp add: distrib_right)
  moreover have "0 \<le> int p * (?T * ?B) + b * ?B" "0 \<le> c * ?B" using assms f by simp_all
  ultimately show ?thesis by (simp add: plane_range_def flip: nat_add_distrib)
qed

lemma plane_ranges_apart:
  assumes "arena_ok a" "0 \<le> b" "0 \<le> c" "b + c \<le> ad_total_blocks (ha_descriptor a)"
    "0 \<le> b'" "0 \<le> c'" "b' + c' \<le> ad_total_blocks (ha_descriptor a)"
    "p \<noteq> p' \<or> b + c \<le> b' \<or> b' + c' \<le> b" "p \<le> 1" "p' \<le> 1"
  shows "fst (plane_range a p b c) + snd (plane_range a p b c) \<le> fst (plane_range a p' b' c')
     \<or> fst (plane_range a p' b' c') + snd (plane_range a p' b' c') \<le> fst (plane_range a p b c)"
proof -
  let ?B = "ad_block_bytes (ha_descriptor a)" and ?T = "ad_total_blocks (ha_descriptor a)"
  note f = arena_ok_facts [OF assms(1)]
  have m: "(x + y) * ?B \<le> z * ?B" if "x + y \<le> z" for x y z using that f(1) by (intro mult_right_mono) simp_all
  have nn: "0 \<le> int q * (?T * ?B) + x * ?B" "0 \<le> x * ?B" if "0 \<le> x" for q x using that f by simp_all
  have "int p * (?T * ?B) + b * ?B + c * ?B \<le> int p' * (?T * ?B) + b' * ?B
      \<or> int p' * (?T * ?B) + b' * ?B + c' * ?B \<le> int p * (?T * ?B) + b * ?B"
  proof (cases "p = p'")
    case True
    with assms(8) m show ?thesis by (auto simp: distrib_right add.assoc)
  next
    case False
    with assms(9,10) consider "p = 0" "p' = 1" | "p = 1" "p' = 0" by linarith
    then show ?thesis
    proof cases
      case 1
      with m [OF assms(4)] nn(2) [OF assms(5)] show ?thesis by (simp add: distrib_right)
    next
      case 2
      with m [OF assms(7)] nn(2) [OF assms(2)] show ?thesis by (simp add: distrib_right)
    qed
  qed
  with nn [OF assms(2)] nn [OF assms(3)] nn [OF assms(5)] nn [OF assms(6)] show ?thesis
    unfolding plane_range_def fst_conv snd_conv by (auto simp: nat_mono simp flip: nat_add_distrib)
qed

section \<open>What a write does\<close>

lemma write_kv_Inr:
  assumes "write_kv a x l kp vp = Inr (x', a')" "wl_dirty_block_count l \<noteq> 0"
  obtains k v n where "validate_write_lease a x l = Inr ()" "length kp = length vp"
    "int (length kp) = wl_dirty_block_count l * ad_block_bytes (ha_descriptor a)"
    "slot_view a x (wl_dirty_begin_block l) (wl_dirty_block_count l) = (k, v, n)"
    "next_version x (max (hx_committed_blocks x) (wl_dirty_begin_block l + wl_dirty_block_count l)) = Inr x'"
    "a' = a\<lparr>ha_buf := overwrite v vp (overwrite k kp (ha_buf a))\<rparr>"
  using assms by (auto simp: write_kv_def bind_r_eq_Inr split: prod.splits)

lemma next_version_Inr:
  assumes "next_version x c = Inr x'"
  shows "x' = x\<lparr>hx_committed_blocks := c, hx_kv_version := advance_id U64 1 (hx_kv_version x)\<rparr>"
    "is_valid U64 (hx_kv_version x)" "check_extent x' = Inr ()"
  using assms next_id_advance [of U64 "hx_kv_version x"]
  by (auto simp: next_version_def bind_r_eq_Inr Let_def next_id_def simp del: valid_U64)

text \<open>A write fills its dirty range in both planes and leaves every other block of the arena alone.\<close>

lemma write_kv_effect:
  assumes w: "write_kv a x l kp vp = Inr (x', a')" and n: "wl_dirty_block_count l \<noteq> 0"
    and ok: "arena_ok a" "extent_ok x" "check_write_lease l = Inr ()"
  defines "lo \<equiv> extent_offset x + wl_dirty_begin_block l"
  defines "cnt \<equiv> wl_dirty_block_count l"
  shows "length (ha_buf a') = length (ha_buf a)" "ha_descriptor a' = ha_descriptor a"
    and "subbuf (fst (plane_range a 0 lo cnt)) (snd (plane_range a 0 lo cnt)) (ha_buf a') = kp"
    and "subbuf (fst (plane_range a 1 lo cnt)) (snd (plane_range a 1 lo cnt)) (ha_buf a') = vp"
    and "\<And>p b c. p \<le> 1 \<Longrightarrow> 0 \<le> b \<Longrightarrow> 0 \<le> c \<Longrightarrow> b + c \<le> ad_total_blocks (ha_descriptor a) \<Longrightarrow>
           b + c \<le> lo \<or> lo + cnt \<le> b \<Longrightarrow>
           subbuf (fst (plane_range a p b c)) (snd (plane_range a p b c)) (ha_buf a') =
           subbuf (fst (plane_range a p b c)) (snd (plane_range a p b c)) (ha_buf a)"
proof -
  obtain k v m where v: "validate_write_lease a x l = Inr ()" and len: "length kp = length vp"
      "int (length kp) = wl_dirty_block_count l * ad_block_bytes (ha_descriptor a)"
    and sv: "slot_view a x (wl_dirty_begin_block l) (wl_dirty_block_count l) = (k, v, m)"
    and a': "a' = a\<lparr>ha_buf := overwrite v vp (overwrite k kp (ha_buf a))\<rparr>"
    using w n by (rule write_kv_Inr)
  have kv: "k = fst (plane_range a 0 lo cnt)" "v = fst (plane_range a 1 lo cnt)"
    using sv by (simp_all add: slot_view_ranges [OF ok(1)] lo_def cnt_def)
  have sz: "snd (plane_range a p lo cnt) = length kp" for p using len(2) by (simp add: plane_range_def cnt_def)
  have lo: "0 \<le> lo" "0 \<le> cnt" and hi: "lo + cnt \<le> ad_total_blocks (ha_descriptor a)"
    using ok(2,3) v validate_extent_inside [of a x]
    by (auto simp: extent_ok_def hostkv_handle_ok_iff extent_offset_def check_write_lease_def non_negative_def
        validate_write_lease_def lo_def cnt_def)
  have fk: "k + length kp \<le> length (ha_buf a)" and fv: "v + length vp \<le> length (ha_buf a)"
    using plane_range_end [OF ok(1) lo hi, of 0] plane_range_end [OF ok(1) lo hi, of 1] len(1)
    by (simp_all add: kv sz)
  show "length (ha_buf a') = length (ha_buf a)" "ha_descriptor a' = ha_descriptor a"
    using fk fv by (simp_all add: a')
  have apart: "k + length kp \<le> v \<or> v + length vp \<le> k"
    using plane_ranges_apart [OF ok(1) lo hi lo hi, of 0 1] len(1) by (simp add: kv sz)
  show "subbuf (fst (plane_range a 0 lo cnt)) (snd (plane_range a 0 lo cnt)) (ha_buf a') = kp"
    using apart fk fv len(1) by (simp add: a' sz subbuf_overwrite_disjoint flip: kv)
  show "subbuf (fst (plane_range a 1 lo cnt)) (snd (plane_range a 1 lo cnt)) (ha_buf a') = vp"
    unfolding sz kv(2) [symmetric] using fk fv len(1) by (simp add: a')
  fix p :: nat and b c :: int
  assume p: "p \<le> 1" "0 \<le> b" "0 \<le> c" "b + c \<le> ad_total_blocks (ha_descriptor a)" "b + c \<le> lo \<or> lo + cnt \<le> b"
  have "fst (plane_range a p b c) + snd (plane_range a p b c) \<le> k \<or> k + length kp \<le> fst (plane_range a p b c)"
    using plane_ranges_apart [OF ok(1) p(2-4) lo hi, of p 0] p(1,5) by (auto simp: kv sz)
  moreover have "fst (plane_range a p b c) + snd (plane_range a p b c) \<le> v \<or> v + length vp \<le> fst (plane_range a p b c)"
    using plane_ranges_apart [OF ok(1) p(2-4) lo hi, of p 1] p(1,5) len(1) by (auto simp: kv sz)
  ultimately show "subbuf (fst (plane_range a p b c)) (snd (plane_range a p b c)) (ha_buf a') =
      subbuf (fst (plane_range a p b c)) (snd (plane_range a p b c)) (ha_buf a)"
    using fk fv by (simp add: a' subbuf_overwrite_disjoint)
qed

lemma read_kv_ranges:
  assumes "arena_ok a"
  shows "read_kv a x b c = bind_r (checks [validate_extent a x, non_negative b, non_negative c,
                     require (b + c \<le> hx_capacity_blocks x)
                       (HostKVCapacityError ''HostKV view range exceeds extent capacity'')])
     (\<lambda>_. Inr (subbuf (fst (plane_range a 0 (extent_offset x + b) c)) (snd (plane_range a 0 (extent_offset x + b) c)) (ha_buf a),
               subbuf (fst (plane_range a 1 (extent_offset x + b) c)) (snd (plane_range a 1 (extent_offset x + b) c)) (ha_buf a)))"
  by (simp add: read_kv_def slot_view_ranges [OF assms] plane_range_def)

lemma plane_range_descriptor: "ha_descriptor a' = ha_descriptor a \<Longrightarrow> plane_range a' = plane_range a"
  by (simp add: plane_range_def fun_eq_iff)

lemma validate_extent_descriptor: "ha_descriptor a' = ha_descriptor a \<Longrightarrow> validate_extent a' = validate_extent a"
  by (simp add: validate_extent_def fun_eq_iff)

text \<open>A read depends only on the descriptor and on the bytes of its own range.\<close>

lemma read_kv_same:
  assumes "arena_ok a" "arena_ok a'" "ha_descriptor a' = ha_descriptor a"
    and keep: "\<And>p::nat. validate_extent a y = Inr () \<Longrightarrow> 0 \<le> b \<Longrightarrow> 0 \<le> c \<Longrightarrow> b + c \<le> hx_capacity_blocks y \<Longrightarrow> p \<le> 1 \<Longrightarrow>
      subbuf (fst (plane_range a p (extent_offset y + b) c)) (snd (plane_range a p (extent_offset y + b) c)) (ha_buf a') =
      subbuf (fst (plane_range a p (extent_offset y + b) c)) (snd (plane_range a p (extent_offset y + b) c)) (ha_buf a)"
  shows "read_kv a' y b c = read_kv a y b c"
  unfolding read_kv_ranges [OF assms(1)] read_kv_ranges [OF assms(2)]
    plane_range_descriptor [OF assms(3)] validate_extent_descriptor [OF assms(3)]
proof (rule bind_r_cong [OF refl], goal_cases)
  case (1 u)
  then have g: "validate_extent a y = Inr ()" "0 \<le> b" "0 \<le> c" "b + c \<le> hx_capacity_blocks y"
    by (simp_all add: non_negative_def)
  show ?case by (simp only: keep [OF g, of 0] keep [OF g, of 1] le_refl zero_le)
qed

lemma extent_offset_nonneg: "extent_ok y \<Longrightarrow> 0 \<le> extent_offset y"
  by (simp add: extent_ok_def hostkv_handle_ok_iff extent_offset_def)

lemma lease_range:
  assumes "validate_write_lease a x l = Inr ()" "check_write_lease l = Inr ()"
  shows "0 \<le> wl_dirty_begin_block l" "0 \<le> wl_dirty_block_count l"
    "wl_dirty_begin_block l + wl_dirty_block_count l \<le> hx_capacity_blocks x" "validate_extent a x = Inr ()"
  using assms by (simp_all add: validate_write_lease_def check_write_lease_def non_negative_def)

lemma write_kv_reads_elsewhere:
  assumes w: "write_kv a x l kp vp = Inr (x', a')" and n: "wl_dirty_block_count l \<noteq> 0"
    and ok: "arena_ok a" "extent_ok x" "check_write_lease l = Inr ()" and ok': "arena_ok a'"
    and vl: "validate_write_lease a x l = Inr ()" and y: "extent_ok y"
    and d: "extent_offset y + hx_capacity_blocks y \<le> extent_offset x \<or> extent_offset x + hx_capacity_blocks x \<le> extent_offset y"
  shows "read_kv a' y b c = read_kv a y b c"
proof (rule read_kv_same [OF ok(1) ok' write_kv_effect(2) [OF w n ok]])
  fix p :: nat
  assume g: "validate_extent a y = Inr ()" "0 \<le> b" "0 \<le> c" "b + c \<le> hx_capacity_blocks y" and p: "p \<le> 1"
  note range = lease_range [OF vl ok(3)]
  have in_range: "0 \<le> extent_offset y + b" "extent_offset y + b + c \<le> ad_total_blocks (ha_descriptor a)"
    using g extent_offset_nonneg [OF y] validate_extent_inside [OF g(1)] by linarith+
  have "extent_offset y + b + c \<le> extent_offset x + wl_dirty_begin_block l
      \<or> extent_offset x + wl_dirty_begin_block l + wl_dirty_block_count l \<le> extent_offset y + b"
    using d g range by linarith
  from write_kv_effect(5) [OF w n ok p in_range(1) g(3) in_range(2) this]
  show "subbuf (fst (plane_range a p (extent_offset y + b) c)) (snd (plane_range a p (extent_offset y + b) c)) (ha_buf a') =
      subbuf (fst (plane_range a p (extent_offset y + b) c)) (snd (plane_range a p (extent_offset y + b) c)) (ha_buf a)" .
qed

lemma write_kv_reads_back:
  assumes w: "write_kv a x l kp vp = Inr (x', a')" and n: "wl_dirty_block_count l \<noteq> 0"
    and ok: "arena_ok a" "extent_ok x" "check_write_lease l = Inr ()" and ok': "arena_ok a'"
    and vl: "validate_write_lease a x l = Inr ()"
    and x': "x' = x\<lparr>hx_committed_blocks := cb, hx_kv_version := ver\<rparr>"
  shows "read_kv a' x' (wl_dirty_begin_block l) (wl_dirty_block_count l) = Inr (kp, vp)"
proof -
  note e = write_kv_effect [OF w n ok]
  note range = lease_range [OF vl ok(3)]
  have xs: "validate_extent a x' = Inr ()" "extent_offset x' = extent_offset x" "hx_capacity_blocks x' = hx_capacity_blocks x"
    using range(4) by (simp_all add: x' validate_extent_def extent_offset_def)
  have guard: "checks [validate_extent a' x', non_negative (wl_dirty_begin_block l), non_negative (wl_dirty_block_count l),
      require (wl_dirty_begin_block l + wl_dirty_block_count l \<le> hx_capacity_blocks x')
        (HostKVCapacityError ''HostKV view range exceeds extent capacity'')] = Inr ()"
    using range xs by (simp add: validate_extent_descriptor [OF e(2)] non_negative_def)
  show ?thesis
    unfolding read_kv_ranges [OF ok'] guard bind_r_simps plane_range_descriptor [OF e(2)] xs(2) e(3,4) ..
qed

section \<open>Properties\<close>

text \<open>A leased write does what it says and nothing else: the new extent reads the payloads back from the
  dirty range, its version is one newer and its committed prefix covers the range, the arena stays well formed,
  and every extent whose blocks are disjoint from it reads exactly what it read before.\<close>

theorem leased_write_isolated:
  assumes w: "write_kv a x l kp vp = Inr (x', a')" and n: "wl_dirty_block_count l \<noteq> 0"
    and ok: "arena_ok a" "extent_ok x" "check_write_lease l = Inr ()"
  shows "read_kv a' x' (wl_dirty_begin_block l) (wl_dirty_block_count l) = Inr (kp, vp)
     \<and> is_newer KV_VERSION (hx_kv_version x') (hx_kv_version x) = Inr True
     \<and> hx_committed_blocks x' = max (hx_committed_blocks x) (wl_dirty_begin_block l + wl_dirty_block_count l)
     \<and> arena_ok a'
     \<and> (\<forall>y b c. extent_ok y \<longrightarrow>
          extent_offset y + hx_capacity_blocks y \<le> extent_offset x \<or> extent_offset x + hx_capacity_blocks x \<le> extent_offset y \<longrightarrow>
          read_kv a' y b c = read_kv a y b c)"
proof -
  have ok': "arena_ok a'" using ok(1) write_kv_effect(1,2) [OF w n ok] by (simp add: arena_ok_def)
  obtain k v m where vl: "validate_write_lease a x l = Inr ()"
    and nv: "next_version x (max (hx_committed_blocks x) (wl_dirty_begin_block l + wl_dirty_block_count l)) = Inr x'"
    using w n by (rule write_kv_Inr)
  note x' = next_version_Inr [OF nv]
  have "is_newer KV_VERSION (hx_kv_version x') (hx_kv_version x) = Inr True"
    using newer_id_advance_iff [of U64 "hx_kv_version x" 1] x'(1,2)
    by (simp add: newer_id_def U64_def max_value_def modulus_def half_range_def)
  with write_kv_reads_back [OF w n ok ok' vl x'(1)] write_kv_reads_elsewhere [OF w n ok ok' vl] ok' x'(1)
  show ?thesis by simp
qed

definition demo_arena :: host_arena where
  "demo_arena = \<lparr>ha_descriptor = \<lparr>ad_arena_id = ''a'', ad_shm_name = ''s'', ad_total_bytes = 16, ad_block_bytes = 2,
     ad_total_blocks = 4, ad_k_plane_offset = 0, ad_v_plane_offset = 8, ad_plane_bytes = 8, ad_dtype = ''d'',
     ad_kv_block_shape = [2], ad_descriptor_generation = 1\<rparr>, ha_buf = replicate 16 0\<rparr>"

definition demo_extent :: host_kv_extent where
  "demo_extent = \<lparr>hx_request_slot = 1, hx_request_epoch = 1, hx_host_slot = 1, hx_host_slot_generation = 1,
     hx_writer_lease_generation = 1, hx_arena = \<lparr>hk_offset_blocks = 1, hk_block_count = 2, hk_generation = 1\<rparr>,
     hx_capacity_blocks = 2, hx_committed_blocks = 0, hx_kv_version = 0\<rparr>"

definition demo_lease :: write_lease where
  "demo_lease = \<lparr>wl_request_slot = 1, wl_request_epoch = 1, wl_host_slot = 1, wl_host_slot_generation = 1,
     wl_writer_lease_generation = 1, wl_expected_version = 0, wl_dirty_begin_block = 0, wl_dirty_block_count = 1\<rparr>"

theorem leased_write_isolated_witness:
  "read_kv (demo_arena\<lparr>ha_buf := [0, 0, 7, 8, 0, 0, 0, 0, 0, 0, 9, 6, 0, 0, 0, 0]\<rparr>)
     (demo_extent\<lparr>hx_committed_blocks := 1, hx_kv_version := 1\<rparr>) 0 1 = Inr ([7, 8], [9, 6])"
proof -
  have "write_kv demo_arena demo_extent demo_lease [7, 8] [9, 6]
      = Inr (demo_extent\<lparr>hx_committed_blocks := 1, hx_kv_version := 1\<rparr>,
             demo_arena\<lparr>ha_buf := [0, 0, 7, 8, 0, 0, 0, 0, 0, 0, 9, 6, 0, 0, 0, 0]\<rparr>)" by code_simp
  moreover have "wl_dirty_block_count demo_lease \<noteq> 0" by code_simp
  moreover have "arena_ok demo_arena" by code_simp
  moreover have "extent_ok demo_extent" by code_simp
  moreover have "check_write_lease demo_lease = Inr ()" by code_simp
  ultimately show ?thesis using leased_write_isolated by (fastforce simp: demo_lease_def)
qed

end
