(* ===== verification/HostAllocator.thy ===== *)
theory HostAllocator
  imports HostArena "HOL-Library.Product_Lexorder"
begin

text \<open>
  \<open>kv/host_allocator.py\<close>: admission-time allocation of HostKV blocks (first fit over a coalesced
  free list) and the reader and writer pins that protect an extent while a copy runs. Every operation
  runs under one lock, so a history is a sequence of whole operations.
\<close>

record host_allocation =
  al_extent :: host_kv_extent
  al_readers :: int
  al_writing :: bool

record host_allocator =
  hl_arena :: host_arena
  hl_free :: "(int \<times> int) list"
  hl_allocations :: "int \<rightharpoonup> host_allocation"
  hl_generations :: "int \<rightharpoonup> int"

section \<open>Operations\<close>

definition init_host_allocator :: "host_arena \<Rightarrow> host_allocator" where
  "init_host_allocator a = \<lparr>hl_arena = a, hl_free = [(0, ad_total_blocks (ha_descriptor a))],
     hl_allocations = Map.empty, hl_generations = Map.empty\<rparr>"

text \<open>The search of \<open>allocate\<close>: the first run that is long enough, and the list with its front cut off.\<close>

fun take_fit :: "int \<Rightarrow> (int \<times> int) list \<Rightarrow> (int \<times> (int \<times> int) list) option" where
  "take_fit c [] = None"
| "take_fit c ((off, available) # runs) =
     (if available < c then map_option (\<lambda>(o', runs'). (o', (off, available) # runs')) (take_fit c runs)
      else Some (off, (if available > c then [(off + c, available - c)] else []) @ runs))"

definition slot_generation :: "host_allocator \<Rightarrow> int \<Rightarrow> int" where
  "slot_generation h slot = (case hl_generations h slot of None \<Rightarrow> 1 | Some g \<Rightarrow> g)"

definition host_allocate :: "host_allocator \<Rightarrow> int \<Rightarrow> int \<Rightarrow> int \<Rightarrow> (host_kv_extent \<times> host_allocator) result" where
  "host_allocate h slot epoch capacity =
     (if hl_allocations h slot \<noteq> None then Inl (ValueError ''request already has a HostKV allocation'')
      else if capacity \<le> 0 then Inl (ValueError ''HostKV capacity must be positive'')
      else case take_fit capacity (hl_free h) of
        None \<Rightarrow> Inl (HostKVCapacityError ''HostKV arena capacity exhausted'')
      | Some (offset, free') \<Rightarrow>
          let generation = slot_generation h slot
          in bind_r (make_extent (hl_arena h) slot epoch slot generation generation offset capacity) (\<lambda>extent.
             Inr (extent, h\<lparr>hl_free := free',
                 hl_allocations := (hl_allocations h)(slot \<mapsto> \<lparr>al_extent = extent, al_readers = 0, al_writing = False\<rparr>)\<rparr>)))"

definition require_allocation :: "host_allocator \<Rightarrow> int \<Rightarrow> int \<Rightarrow> host_allocation result" where
  "require_allocation h slot epoch =
     (case hl_allocations h slot of
        None \<Rightarrow> Inl (ValueError ''stale or missing HostKV request allocation'')
      | Some al \<Rightarrow> if hx_request_epoch (al_extent al) \<noteq> epoch
                  then Inl (ValueError ''stale or missing HostKV request allocation'') else Inr al)"

definition require_extent :: "host_allocator \<Rightarrow> int \<Rightarrow> int \<Rightarrow> host_kv_extent result" where
  "require_extent h slot epoch = bind_r (require_allocation h slot epoch) (\<lambda>al. Inr (al_extent al))"

definition store_allocation :: "host_allocator \<Rightarrow> int \<Rightarrow> host_allocation \<Rightarrow> host_allocator" where
  "store_allocation h slot al = h\<lparr>hl_allocations := (hl_allocations h)(slot \<mapsto> al)\<rparr>"

definition host_pin :: "host_allocator \<Rightarrow> host_kv_extent \<Rightarrow> bool \<Rightarrow> (bool \<times> host_allocator) result" where
  "host_pin h x write =
     bind_r (require_allocation h (hx_request_slot x) (hx_request_epoch x)) (\<lambda>al.
     bind_r (require (al_extent al = x) (ValueError ''stale HostKV extent/slot/writer lease'')) (\<lambda>_.
     if al_writing al \<or> write \<and> al_readers al \<noteq> 0 then Inr (False, h)
     else Inr (True, store_allocation h (hx_request_slot x)
            (if write then al\<lparr>al_writing := True\<rparr> else al\<lparr>al_readers := al_readers al + 1\<rparr>))))"

definition host_unpin :: "host_allocator \<Rightarrow> host_kv_extent \<Rightarrow> bool \<Rightarrow> host_allocator result" where
  "host_unpin h x write =
     bind_r (require_allocation h (hx_request_slot x) (hx_request_epoch x)) (\<lambda>al.
     bind_r (require (al_extent al = x) (ValueError ''stale HostKV unpin'')) (\<lambda>_.
     if write then
       bind_r (require (al_writing al) (ValueError ''HostKV writer pin is not held'')) (\<lambda>_.
         Inr (store_allocation h (hx_request_slot x) (al\<lparr>al_writing := False\<rparr>)))
     else
       bind_r (require (al_readers al \<noteq> 0) (ValueError ''HostKV reader pin is not held'')) (\<lambda>_.
         Inr (store_allocation h (hx_request_slot x) (al\<lparr>al_readers := al_readers al - 1\<rparr>)))))"

fun merge_step :: "(int \<times> int) list \<Rightarrow> int \<times> int \<Rightarrow> (int \<times> int) list" where
  "merge_step merged (off, len) =
     (if merged \<noteq> [] \<and> fst (last merged) + snd (last merged) = off
      then butlast merged @ [(fst (last merged), snd (last merged) + len)]
      else merged @ [(off, len)])"

definition merge_runs :: "(int \<times> int) list \<Rightarrow> (int \<times> int) list" where
  "merge_runs runs = foldl merge_step [] (sort runs)"

definition host_recycle :: "host_allocator \<Rightarrow> int \<Rightarrow> int \<Rightarrow> bool \<Rightarrow> host_allocator result" where
  "host_recycle h slot epoch quiescent =
     bind_r (require_allocation h slot epoch) (\<lambda>al.
     bind_r (require (quiescent \<and> \<not> al_writing al \<and> al_readers al = 0)
               (RuntimeError ''cannot recycle HostKV with live request/copy ownership'')) (\<lambda>_.
     bind_r (next_id HOST_SLOT_GENERATION (hx_host_slot_generation (al_extent al))) (\<lambda>generation.
     bind_r (validate WRITER_LEASE_GENERATION generation) (\<lambda>_.
       Inr (h\<lparr>hl_generations := (hl_generations h)(slot \<mapsto> generation),
             hl_allocations := (hl_allocations h)(slot := None),
             hl_free := merge_runs (hl_free h @ [(extent_offset (al_extent al), hx_capacity_blocks (al_extent al))])\<rparr>)))))"

section \<open>Runs of blocks\<close>

definition holds :: "int \<times> int \<Rightarrow> int \<Rightarrow> bool" where
  "holds p i \<longleftrightarrow> fst p \<le> i \<and> i < fst p + snd p"

definition apart :: "int \<times> int \<Rightarrow> int \<times> int \<Rightarrow> bool" where
  "apart p q \<longleftrightarrow> fst p + snd p \<le> fst q \<or> fst q + snd q \<le> fst p"

definition in_runs :: "(int \<times> int) list \<Rightarrow> int \<Rightarrow> bool" where
  "in_runs runs i \<longleftrightarrow> (\<exists>p \<in> set runs. holds p i)"

definition coalesced :: "(int \<times> int) list \<Rightarrow> bool" where
  "coalesced runs \<longleftrightarrow> sorted_wrt (\<lambda>p q. fst p + snd p < fst q) runs \<and> (\<forall>p \<in> set runs. 0 < snd p)"

lemma in_runs_simps [simp]:
  "in_runs [] i \<longleftrightarrow> False" "in_runs (p # ps) i \<longleftrightarrow> holds p i \<or> in_runs ps i"
  "in_runs (ps @ qs) i \<longleftrightarrow> in_runs ps i \<or> in_runs qs i"
  by (auto simp: in_runs_def)

lemma coalesced_Cons:
  "coalesced (p # ps) \<longleftrightarrow> 0 < snd p \<and> (\<forall>q \<in> set ps. fst p + snd p < fst q) \<and> coalesced ps"
  by (auto simp: coalesced_def)

lemma coalesced_snoc:
  "coalesced (ps @ [p]) \<longleftrightarrow> 0 < snd p \<and> (\<forall>q \<in> set ps. fst q + snd q < fst p) \<and> coalesced ps"
  by (auto simp: coalesced_def sorted_wrt_append)

lemma apart_commute: "apart p q \<longleftrightarrow> apart q p" by (auto simp: apart_def)

lemma apart_iff: "0 < snd p \<Longrightarrow> 0 < snd q \<Longrightarrow> apart p q \<longleftrightarrow> (\<forall>i. \<not> (holds p i \<and> holds q i))"
proof
  assume "0 < snd p" "0 < snd q" "\<forall>i. \<not> (holds p i \<and> holds q i)"
  then have "\<not> (holds p (max (fst p) (fst q)) \<and> holds q (max (fst p) (fst q)))" by blast
  with \<open>0 < snd p\<close> \<open>0 < snd q\<close> show "apart p q" by (auto simp: holds_def apart_def max_def split: if_splits)
qed (auto simp: holds_def apart_def)

text \<open>Cutting \<open>c\<close> blocks off the first run that has them.\<close>

lemma take_fit_Some:
  assumes "take_fit c runs = Some (off, runs')" "coalesced runs" "0 < c"
  shows "coalesced runs' \<and> (\<exists>available. (off, available) \<in> set runs \<and> c \<le> available)
    \<and> (\<forall>i. in_runs runs i \<longleftrightarrow> in_runs runs' i \<or> holds (off, c) i)
    \<and> (\<forall>q \<in> set runs'. apart q (off, c) \<and> (\<exists>p \<in> set runs. fst p \<le> fst q \<and> fst q + snd q = fst p + snd p))"
  using assms
proof (induction c runs arbitrary: off runs' rule: take_fit.induct)
  case (2 c a n runs)
  show ?case
  proof (cases "n < c")
    case True
    with 2(2) obtain rest where rest: "take_fit c runs = Some (off, rest)" "runs' = (a, n) # rest" by auto
    have co: "coalesced runs" "\<forall>q \<in> set runs. a + n < fst q" "0 < n" using 2(3) by (auto simp: coalesced_Cons)
    from 2(1) [OF True rest(1) co(1) 2(4)] obtain m where IH: "coalesced rest" "(off, m) \<in> set runs" "c \<le> m"
      "\<forall>i. in_runs runs i \<longleftrightarrow> in_runs rest i \<or> holds (off, c) i"
      "\<forall>q \<in> set rest. apart q (off, c) \<and> (\<exists>p \<in> set runs. fst p \<le> fst q \<and> fst q + snd q = fst p + snd p)" by blast
    have "a + n < fst q" if "q \<in> set rest" for q using IH(5) co(2) that by fastforce
    moreover have "a + n \<le> off" using co(2) IH(2) by fastforce
    ultimately show ?thesis using IH co rest(2) by (auto simp: coalesced_Cons apart_def)
  next
    case False
    with 2 show ?thesis by (auto simp: coalesced_Cons apart_def holds_def in_runs_def split: if_splits) force+
  qed
qed simp

lemma take_fit_None: "take_fit c runs = None \<longleftrightarrow> (\<forall>p \<in> set runs. snd p < c)"
  by (induction c runs rule: take_fit.induct) auto

text \<open>In a coalesced list a contiguous range of free blocks lies inside one run.\<close>

lemma coalesced_contiguous:
  assumes "coalesced runs" "0 < c" "\<forall>i. o' \<le> i \<and> i < o' + c \<longrightarrow> in_runs runs i"
  shows "\<exists>p \<in> set runs. fst p \<le> o' \<and> o' + c \<le> fst p + snd p"
  using assms
proof (induction runs)
  case (Cons p ps)
  show ?case
  proof (cases "holds p o'")
    case True
    have "o' + c \<le> fst p + snd p"
    proof (rule ccontr)
      assume "\<not> ?thesis"
      with True have "o' \<le> fst p + snd p \<and> fst p + snd p < o' + c" by (simp add: holds_def)
      with Cons.prems(3) have "in_runs (p # ps) (fst p + snd p)" by blast
      then show False using Cons.prems(1) by (auto simp: coalesced_Cons holds_def in_runs_def)
    qed
    with True show ?thesis by (auto simp: holds_def)
  next
    case False
    have "in_runs ps i" if i: "o' \<le> i \<and> i < o' + c" for i
    proof -
      have "in_runs (p # ps) i" "in_runs (p # ps) o'" using Cons.prems(2,3) i by auto
      with False obtain q where "q \<in> set ps" "holds q o'" by (auto simp: in_runs_def)
      then have "fst p + snd p < i" using Cons.prems(1) i by (auto simp: coalesced_Cons holds_def)
      with \<open>in_runs (p # ps) i\<close> show ?thesis by (auto simp: holds_def)
    qed
    with Cons show ?thesis by (auto simp: coalesced_Cons)
  qed
qed (use assms in auto)

lemma coalesced_apart: "coalesced runs \<Longrightarrow> p \<in> set runs \<Longrightarrow> q \<in> set runs \<Longrightarrow> apart p q \<or> p = q"
  by (induction runs) (auto simp: coalesced_Cons apart_def)

section \<open>Coalescing\<close>

lemma sort_snoc_insort: "sorted xs \<Longrightarrow> sort (xs @ [x]) = insort x xs"
proof (induction xs)
  case (Cons y ys)
  then have "sort ((y # ys) @ [x]) = insort y (insort x ys)" by simp
  also have "\<dots> = insort x (insort y ys)" by (rule insort_left_comm)
  finally show ?case using Cons.prems by (simp add: insort_is_Cons)
qed simp

lemma coalesced_sorted: "coalesced runs \<Longrightarrow> sorted runs"
proof (induction runs)
  case (Cons p ps)
  then have "p \<le> q" if "q \<in> set ps" for q using that by (force simp: coalesced_Cons less_eq_prod_def)
  with Cons show ?case by (simp add: coalesced_Cons)
qed simp

definition ordered :: "(int \<times> int) list \<Rightarrow> bool" where
  "ordered runs \<longleftrightarrow> sorted_wrt (\<lambda>p q. fst p + snd p \<le> fst q) runs \<and> (\<forall>p \<in> set runs. 0 < snd p)"

lemma insort_ordered:
  assumes "coalesced runs" "0 < snd x" "\<forall>p \<in> set runs. apart p x"
  shows "ordered (insort x runs)"
  using assms
proof (induction runs)
  case (Cons p ps)
  then have IH: "ordered (insort x ps)" and p: "0 < snd p" "\<forall>q \<in> set ps. fst p + snd p < fst q" "apart p x"
    by (auto simp: coalesced_Cons)
  show ?case
  proof (cases "x \<le> p")
    case True
    then have xp: "fst x + snd x \<le> fst p" using p(1,3) Cons.prems(2) by (auto simp: apart_def less_eq_prod_def)
    have xq: "\<forall>q \<in> set (p # ps). fst x + snd x \<le> fst q"
    proof
      fix q
      assume "q \<in> set (p # ps)"
      then have "q = p \<or> fst p + snd p < fst q" using p(2) by auto
      with xp p(1) show "fst x + snd x \<le> fst q" by auto
    qed
    have sorted: "sorted_wrt (\<lambda>p q. fst p + snd p \<le> fst q) ps"
      using Cons.prems(1) sorted_wrt_mono_rel [of ps "\<lambda>p q. fst p + snd p < fst q"] by (simp add: coalesced_def less_imp_le)
    have "sorted_wrt (\<lambda>p q. fst p + snd p \<le> fst q) (p # ps)"
      using p(2) sorted by (simp add: less_imp_le)
    moreover have "insort x (p # ps) = x # p # ps" using True by simp
    moreover have "\<forall>q \<in> set (p # ps). 0 < snd q" using Cons.prems(1) by (simp add: coalesced_def)
    ultimately show ?thesis using xq Cons.prems(2) by (simp add: ordered_def del: insort_key.simps)
  next
    case False
    then have "fst p + snd p \<le> fst x" using p(1,3) Cons.prems(2) by (auto simp: apart_def less_eq_prod_def)
    moreover have "insort x (p # ps) = p # insort x ps" using False by simp
    ultimately show ?thesis using IH p(1,2) by (auto simp: ordered_def set_insort_key)
  qed
qed (simp add: ordered_def)

lemma merge_step_facts:
  assumes "coalesced acc" "\<forall>p \<in> set acc. fst p + snd p \<le> fst x" "0 < snd x"
  shows "coalesced (merge_step acc x)" "in_runs (merge_step acc x) i \<longleftrightarrow> in_runs acc i \<or> holds x i"
    "\<forall>p \<in> set (merge_step acc x). fst p + snd p \<le> fst x + snd x"
proof -
  obtain off len where x: "x = (off, len)" by (cases x)
  have "coalesced (merge_step acc x) \<and> (in_runs (merge_step acc x) i \<longleftrightarrow> in_runs acc i \<or> holds x i)
    \<and> (\<forall>p \<in> set (merge_step acc x). fst p + snd p \<le> fst x + snd x)"
  proof (cases acc rule: rev_cases)
    case (snoc ps p)
    have "coalesced (ps @ [p, (off, len)])" if "fst p + snd p \<noteq> off"
      using coalesced_snoc [of "ps @ [p]" "(off, len)"] assms that unfolding snoc x by (auto simp: coalesced_snoc)
    then show ?thesis using assms unfolding snoc x by (cases p) (auto simp: coalesced_snoc holds_def)
  qed (use assms x in \<open>simp add: coalesced_Cons coalesced_def\<close>)
  then show "coalesced (merge_step acc x)" "in_runs (merge_step acc x) i \<longleftrightarrow> in_runs acc i \<or> holds x i"
    "\<forall>p \<in> set (merge_step acc x). fst p + snd p \<le> fst x + snd x" by blast+
qed

lemma foldl_merge:
  assumes "coalesced acc" "ordered xs" "\<forall>p \<in> set acc. \<forall>q \<in> set xs. fst p + snd p \<le> fst q"
  shows "coalesced (foldl merge_step acc xs) \<and> (in_runs (foldl merge_step acc xs) i \<longleftrightarrow> in_runs acc i \<or> in_runs xs i)"
  using assms
proof (induction xs arbitrary: acc)
  case (Cons x xs)
  then have x: "\<forall>p \<in> set acc. fst p + snd p \<le> fst x" "0 < snd x" "ordered xs" "\<forall>q \<in> set xs. fst x + snd x \<le> fst q"
    by (auto simp: ordered_def)
  note m = merge_step_facts [OF Cons.prems(1) x(1,2)]
  have "\<forall>p \<in> set (merge_step acc x). \<forall>q \<in> set xs. fst p + snd p \<le> fst q" using m(3) x(4) by force
  from Cons.IH [OF m(1) x(3) this] show ?case by (auto simp: m(2))
qed simp

lemma merge_runs_facts:
  assumes "coalesced runs" "0 < snd x" "\<forall>p \<in> set runs. apart p x"
  shows "coalesced (merge_runs (runs @ [x]))" "in_runs (merge_runs (runs @ [x])) i \<longleftrightarrow> in_runs runs i \<or> holds x i"
proof -
  have "in_runs (insort x runs) i \<longleftrightarrow> in_runs runs i \<or> holds x i" by (auto simp: in_runs_def set_insort_key)
  with foldl_merge [of "[]" "insort x runs" i] insort_ordered [OF assms]
  show "coalesced (merge_runs (runs @ [x]))" "in_runs (merge_runs (runs @ [x])) i \<longleftrightarrow> in_runs runs i \<or> holds x i"
    by (simp_all add: merge_runs_def sort_snoc_insort [OF coalesced_sorted [OF assms(1)]] coalesced_def)
qed

section \<open>Invariant\<close>

definition al_run :: "host_allocation \<Rightarrow> int \<times> int" where
  "al_run al = (extent_offset (al_extent al), hx_capacity_blocks (al_extent al))"

definition allocation_ok :: "host_allocator \<Rightarrow> int \<Rightarrow> host_allocation \<Rightarrow> bool" where
  "allocation_ok h slot al \<longleftrightarrow> extent_ok (al_extent al) \<and> validate_extent (hl_arena h) (al_extent al) = Inr ()
     \<and> 0 < hx_capacity_blocks (al_extent al) \<and> hx_request_slot (al_extent al) = slot
     \<and> hx_host_slot_generation (al_extent al) = slot_generation h slot
     \<and> 0 \<le> al_readers al \<and> (al_writing al \<longrightarrow> al_readers al = 0)"

definition allocations_ok :: "host_allocator \<Rightarrow> bool" where
  "allocations_ok h \<longleftrightarrow> (\<forall>slot al. hl_allocations h slot = Some al \<longrightarrow> allocation_ok h slot al)"

definition runs_apart :: "host_allocator \<Rightarrow> bool" where
  "runs_apart h \<longleftrightarrow>
     (\<forall>slot al. hl_allocations h slot = Some al \<longrightarrow> (\<forall>p \<in> set (hl_free h). apart p (al_run al)))
     \<and> (\<forall>s t al bl. s \<noteq> t \<longrightarrow> hl_allocations h s = Some al \<longrightarrow> hl_allocations h t = Some bl \<longrightarrow> apart (al_run al) (al_run bl))"

definition owned :: "host_allocator \<Rightarrow> int \<Rightarrow> bool" where
  "owned h i \<longleftrightarrow> (\<exists>slot al. hl_allocations h slot = Some al \<and> holds (al_run al) i)"

definition covers :: "host_allocator \<Rightarrow> bool" where
  "covers h \<longleftrightarrow> (\<forall>i. in_runs (hl_free h) i \<or> owned h i \<longleftrightarrow> 0 \<le> i \<and> i < ad_total_blocks (ha_descriptor (hl_arena h)))"

definition generations_ok :: "host_allocator \<Rightarrow> bool" where
  "generations_ok h \<longleftrightarrow> (\<forall>slot g. hl_generations h slot = Some g \<longrightarrow> is_valid U64 g)"

definition host_inv :: "host_allocator \<Rightarrow> bool" where
  "host_inv h \<longleftrightarrow> arena_ok (hl_arena h) \<and> coalesced (hl_free h) \<and> allocations_ok h \<and> runs_apart h \<and> covers h
     \<and> generations_ok h"

lemma make_extent_Inr:
  assumes "make_extent a slot epoch hs hg wg off cap = Inr x"
  shows "extent_ok x" "validate_extent a x = Inr ()" "hx_request_slot x = slot" "hx_host_slot_generation x = hg"
    "hx_capacity_blocks x = cap" "extent_offset x = off" "hx_request_epoch x = epoch"
  using assms by (auto simp: make_extent_def bind_r_eq_Inr Let_def mk_hostkv_handle_Inr extent_ok_def extent_offset_def)

lemma host_allocate_Inr:
  assumes "host_allocate h slot epoch cap = Inr (x, h')"
  obtains off free' where "hl_allocations h slot = None" "0 < cap" "take_fit cap (hl_free h) = Some (off, free')"
    "make_extent (hl_arena h) slot epoch slot (slot_generation h slot) (slot_generation h slot) off cap = Inr x"
    "h' = h\<lparr>hl_free := free', hl_allocations := (hl_allocations h)(slot \<mapsto> \<lparr>al_extent = x, al_readers = 0, al_writing = False\<rparr>)\<rparr>"
  using assms by (auto simp: host_allocate_def Let_def bind_r_eq_Inr split: if_splits option.splits prod.splits)

lemma init_host_inv: "arena_ok a \<Longrightarrow> host_inv (init_host_allocator a)"
  using arena_ok_facts(2) [of a]
  by (auto simp: host_inv_def init_host_allocator_def coalesced_def allocations_ok_def runs_apart_def covers_def owned_def holds_def
      generations_ok_def)

lemma host_allocate_inv:
  assumes inv: "host_inv h" and al: "host_allocate h slot epoch cap = Inr (x, h')"
  shows "host_inv h'"
proof -
  obtain off free' where a: "hl_allocations h slot = None" "0 < cap" "take_fit cap (hl_free h) = Some (off, free')"
    "make_extent (hl_arena h) slot epoch slot (slot_generation h slot) (slot_generation h slot) off cap = Inr x"
    and h': "h' = h\<lparr>hl_free := free', hl_allocations := (hl_allocations h)(slot \<mapsto> \<lparr>al_extent = x, al_readers = 0, al_writing = False\<rparr>)\<rparr>"
    using al by (rule host_allocate_Inr)
  have co: "coalesced (hl_free h)" using inv by (simp add: host_inv_def)
  note x = make_extent_Inr [OF a(4)]
  from take_fit_Some [OF a(3) co a(2)] obtain m where
    f: "coalesced free'" "(off, m) \<in> set (hl_free h)" "cap \<le> m"
      "\<And>i. in_runs (hl_free h) i \<longleftrightarrow> in_runs free' i \<or> holds (off, cap) i"
    and q: "\<And>q. q \<in> set free' \<Longrightarrow> apart q (off, cap)
      \<and> (\<exists>p \<in> set (hl_free h). fst p \<le> fst q \<and> fst q + snd q = fst p + snd p)" by blast
  let ?al = "\<lparr>al_extent = x, al_readers = 0, al_writing = False\<rparr>"
  have run: "al_run ?al = (off, cap)" by (simp add: al_run_def x)
  have gen: "slot_generation h' = slot_generation h" by (simp add: h' slot_generation_def fun_eq_iff)
  have old: "apart p (al_run bl)" if "hl_allocations h t = Some bl" "p \<in> set (hl_free h)" for t bl p
    using inv that by (simp add: host_inv_def runs_apart_def)
  have "allocations_ok h'"
    unfolding allocations_ok_def
  proof (intro allI impI)
    fix t bl
    assume t: "hl_allocations h' t = Some bl"
    show "allocation_ok h' t bl"
    proof (cases "t = slot")
      case True
      with t have "bl = ?al" by (simp add: h')
      with True x a(2) show ?thesis by (simp add: allocation_ok_def gen) (simp add: h')
    next
      case False
      with t have "allocation_ok h t bl" using inv by (simp add: host_inv_def allocations_ok_def h')
      then show ?thesis by (simp add: allocation_ok_def gen) (simp add: h')
    qed
  qed
  moreover have "runs_apart h'"
  proof -
    have 1: "apart (off, cap) (al_run bl)" if "hl_allocations h t = Some bl" for t bl
      using old [OF that f(2)] f(3) by (auto simp: apart_def)
    have 2: "apart p (al_run bl)" if "hl_allocations h t = Some bl" "p \<in> set free'" for t bl p
      using q [OF that(2)] old [OF that(1)] by (fastforce simp: apart_def)
    have 3: "apart (al_run bl) (al_run cl)" if "s \<noteq> t" "hl_allocations h s = Some bl" "hl_allocations h t = Some cl" for s t bl cl
      using inv that by (simp add: host_inv_def runs_apart_def)
    show ?thesis unfolding runs_apart_def h' using 1 2 3 q run by (auto simp: apart_commute)
  qed
  moreover have "covers h'"
  proof -
    have "in_runs free' i \<or> owned h' i \<longleftrightarrow> in_runs (hl_free h) i \<or> owned h i" for i
    proof -
      have "owned h' i \<longleftrightarrow> owned h i \<or> holds (off, cap) i"
        unfolding owned_def h' using a(1) run by (auto simp del: al_run_def) (metis option.distinct(1))
      then show ?thesis by (auto simp: f(4))
    qed
    then show ?thesis using inv by (simp add: host_inv_def covers_def) (simp add: h')
  qed
  moreover have "generations_ok h'" using inv by (simp add: host_inv_def generations_ok_def h')
  ultimately show ?thesis using inv f(1) by (simp add: host_inv_def) (simp add: h')
qed

lemma require_allocation_Inr:
  "require_allocation h slot epoch = Inr al \<longleftrightarrow>
   hl_allocations h slot = Some al \<and> hx_request_epoch (al_extent al) = epoch"
  by (auto simp: require_allocation_def split: option.splits)

text \<open>Pins and unpins replace one allocation by one with the same extent.\<close>

lemma store_allocation_inv:
  assumes inv: "host_inv h" and al: "hl_allocations h slot = Some al" and same: "al_extent bl = al_extent al"
    and cnt: "0 \<le> al_readers bl" "al_writing bl \<longrightarrow> al_readers bl = 0"
  shows "host_inv (store_allocation h slot bl)"
proof -
  let ?h = "store_allocation h slot bl"
  have run: "al_run bl = al_run al" by (simp add: al_run_def same)
  have look: "hl_allocations ?h t = Some cl \<Longrightarrow> \<exists>dl. hl_allocations h t = Some dl \<and> al_run cl = al_run dl" for t cl
    using al run by (auto simp: store_allocation_def split: if_splits)
  have fields: "hl_arena ?h = hl_arena h" "hl_free ?h = hl_free h" "slot_generation ?h = slot_generation h"
    by (simp_all add: store_allocation_def slot_generation_def fun_eq_iff)
  have "allocation_ok h slot al" using inv al by (simp add: host_inv_def allocations_ok_def)
  then have "allocation_ok h slot bl" using same cnt by (simp add: allocation_ok_def)
  then have "allocations_ok ?h"
    unfolding allocations_ok_def
  proof (intro allI impI)
    fix t cl
    assume "hl_allocations ?h t = Some cl"
    then have "t = slot \<and> cl = bl \<or> hl_allocations h t = Some cl" by (auto simp: store_allocation_def split: if_splits)
    then have "allocation_ok h t cl"
      using inv \<open>allocation_ok h slot bl\<close> by (auto simp only: host_inv_def allocations_ok_def)
    then show "allocation_ok ?h t cl" by (simp add: allocation_ok_def fields)
  qed
  moreover have "runs_apart ?h"
  proof -
    have 1: "apart p (al_run cl)" if t: "hl_allocations ?h t = Some cl" and p: "p \<in> set (hl_free h)" for t cl p
    proof -
      obtain dl where "hl_allocations h t = Some dl" "al_run cl = al_run dl" using look [OF t] by blast
      with inv p show ?thesis by (simp add: host_inv_def runs_apart_def)
    qed
    have 2: "apart (al_run cl) (al_run cl')"
      if st: "s \<noteq> t" and s: "hl_allocations ?h s = Some cl" and t: "hl_allocations ?h t = Some cl'" for s t cl cl'
    proof -
      obtain dl dl' where "hl_allocations h s = Some dl" "al_run cl = al_run dl"
        "hl_allocations h t = Some dl'" "al_run cl' = al_run dl'" using look [OF s] look [OF t] by blast
      with inv st show ?thesis by (simp add: host_inv_def runs_apart_def)
    qed
    show ?thesis unfolding runs_apart_def fields using 1 2 by blast
  qed
  moreover have "owned ?h i \<longleftrightarrow> owned h i" for i
  proof
    assume "owned ?h i"
    then show "owned h i" using look by (fastforce simp: owned_def)
  next
    assume "owned h i"
    then obtain t cl where "hl_allocations h t = Some cl" "holds (al_run cl) i" by (auto simp: owned_def)
    then show "owned ?h i" unfolding owned_def store_allocation_def using al run by (cases "t = slot") auto
  qed
  moreover have "generations_ok ?h" using inv by (simp add: host_inv_def generations_ok_def store_allocation_def)
  ultimately show ?thesis using inv by (simp add: host_inv_def covers_def fields)
qed

lemma host_pin_Inr:
  assumes "host_pin h x write = Inr (ok, h')"
  obtains al where "hl_allocations h (hx_request_slot x) = Some al" "al_extent al = x"
    "if al_writing al \<or> write \<and> al_readers al \<noteq> 0 then \<not> ok \<and> h' = h
     else ok \<and> h' = store_allocation h (hx_request_slot x)
            (if write then al\<lparr>al_writing := True\<rparr> else al\<lparr>al_readers := al_readers al + 1\<rparr>)"
  using assms by (auto simp: host_pin_def bind_r_eq_Inr require_allocation_Inr split: if_splits)

lemma host_pin_inv:
  assumes inv: "host_inv h" and pin: "host_pin h x write = Inr (ok, h')"
  shows "host_inv h'"
proof -
  obtain al where al: "hl_allocations h (hx_request_slot x) = Some al" and
    h': "if al_writing al \<or> write \<and> al_readers al \<noteq> 0 then \<not> ok \<and> h' = h
     else ok \<and> h' = store_allocation h (hx_request_slot x)
            (if write then al\<lparr>al_writing := True\<rparr> else al\<lparr>al_readers := al_readers al + 1\<rparr>)"
    using pin by (rule host_pin_Inr)
  have "0 \<le> al_readers al" using inv al by (simp add: host_inv_def allocations_ok_def allocation_ok_def)
  then show ?thesis using h' inv store_allocation_inv [OF inv al] by (auto split: if_splits)
qed

lemma host_unpin_Inr:
  assumes "host_unpin h x write = Inr h'"
  obtains al where "hl_allocations h (hx_request_slot x) = Some al" "al_extent al = x"
    "if write then al_writing al else al_readers al \<noteq> 0"
    "h' = store_allocation h (hx_request_slot x)
            (if write then al\<lparr>al_writing := False\<rparr> else al\<lparr>al_readers := al_readers al - 1\<rparr>)"
  using assms by (auto simp: host_unpin_def bind_r_eq_Inr require_allocation_Inr split: if_splits)

lemma host_unpin_inv:
  assumes inv: "host_inv h" and unpin: "host_unpin h x write = Inr h'"
  shows "host_inv h'"
proof -
  obtain al where al: "hl_allocations h (hx_request_slot x) = Some al" and held: "if write then al_writing al else al_readers al \<noteq> 0"
    and h': "h' = store_allocation h (hx_request_slot x)
            (if write then al\<lparr>al_writing := False\<rparr> else al\<lparr>al_readers := al_readers al - 1\<rparr>)"
    using unpin by (rule host_unpin_Inr)
  have "0 \<le> al_readers al" "al_writing al \<longrightarrow> al_readers al = 0"
    using inv al by (simp_all add: host_inv_def allocations_ok_def allocation_ok_def)
  then show ?thesis using h' held by (auto intro!: store_allocation_inv [OF inv al] split: if_splits)
qed

lemma host_recycle_Inr:
  assumes "host_recycle h slot epoch quiescent = Inr h'"
  obtains al where "hl_allocations h slot = Some al" "\<not> al_writing al" "al_readers al = 0" "quiescent"
    "is_valid U64 (hx_host_slot_generation (al_extent al))"
    "h' = h\<lparr>hl_generations := (hl_generations h)(slot \<mapsto> advance_id U64 1 (hx_host_slot_generation (al_extent al))),
            hl_allocations := (hl_allocations h)(slot := None), hl_free := merge_runs (hl_free h @ [al_run al])\<rparr>"
proof -
  obtain al g where "hl_allocations h slot = Some al" "\<not> al_writing al" "al_readers al = 0" "quiescent"
    and g: "next_id U64 (hx_host_slot_generation (al_extent al)) = Inr g"
    and "h' = h\<lparr>hl_generations := (hl_generations h)(slot \<mapsto> g),
            hl_allocations := (hl_allocations h)(slot := None), hl_free := merge_runs (hl_free h @ [al_run al])\<rparr>"
    using assms by (auto simp: host_recycle_def bind_r_eq_Inr require_allocation_Inr al_run_def simp del: valid_U64)
  moreover have "is_valid U64 (hx_host_slot_generation (al_extent al))" using g by (simp add: next_id_def bind_r_eq_Inr del: valid_U64)
  moreover from this have "g = advance_id U64 1 (hx_host_slot_generation (al_extent al))" using g by (simp add: next_id_advance del: valid_U64)
  ultimately show ?thesis using that by blast
qed

lemma advance_valid: "is_valid U64 (advance_id U64 k g)"
  unfolding advance_id_def by (rule valid_mod) (simp add: max_value_def modulus_def)

lemma host_recycle_inv:
  assumes inv: "host_inv h" and rec: "host_recycle h slot epoch quiescent = Inr h'"
  shows "host_inv h'"
proof -
  obtain al where al: "hl_allocations h slot = Some al" and
    h': "h' = h\<lparr>hl_generations := (hl_generations h)(slot \<mapsto> advance_id U64 1 (hx_host_slot_generation (al_extent al))),
            hl_allocations := (hl_allocations h)(slot := None), hl_free := merge_runs (hl_free h @ [al_run al])\<rparr>"
    using rec by (rule host_recycle_Inr)
  have co: "coalesced (hl_free h)" and ok: "allocation_ok h slot al" and ap: "\<forall>p \<in> set (hl_free h). apart p (al_run al)"
    using inv al by (auto simp: host_inv_def allocations_ok_def runs_apart_def)
  have pos: "0 < snd (al_run al)" using ok by (simp add: allocation_ok_def al_run_def)
  note m = merge_runs_facts [OF co pos ap]
  have old: "apart p (al_run bl)" if "hl_allocations h t = Some bl" "p \<in> set (hl_free h)" for t bl p
    using inv that by (simp add: host_inv_def runs_apart_def)
  have pair: "apart (al_run bl) (al_run cl)" if "s \<noteq> t" "hl_allocations h s = Some bl" "hl_allocations h t = Some cl" for s t bl cl
    using inv that by (simp add: host_inv_def runs_apart_def)
  have gen: "slot_generation h' t = slot_generation h t" if "t \<noteq> slot" for t using that by (simp add: h' slot_generation_def)
  have kept: "hl_allocations h t = Some bl \<and> t \<noteq> slot" if "hl_allocations h' t = Some bl" for t bl
    using that by (auto simp: h' split: if_splits)
  have "allocations_ok h'"
    unfolding allocations_ok_def
  proof (intro allI impI)
    fix t bl
    assume "hl_allocations h' t = Some bl"
    with kept have t: "hl_allocations h t = Some bl" "t \<noteq> slot" by blast+
    then have "allocation_ok h t bl" using inv by (simp add: host_inv_def allocations_ok_def)
    with gen [OF t(2)] show "allocation_ok h' t bl" by (simp add: allocation_ok_def) (simp add: h')
  qed
  moreover have "runs_apart h'"
  proof -
    have "apart p (al_run bl)" if p: "p \<in> set (hl_free h')" and b: "hl_allocations h t = Some bl" "t \<noteq> slot" for p t bl
    proof -
      have b0: "0 < snd (al_run bl)" using inv b(1) by (simp add: host_inv_def allocations_ok_def allocation_ok_def al_run_def)
      have p0: "0 < snd p" using m(1) p by (simp add: h' coalesced_def)
      show ?thesis unfolding apart_iff [OF p0 b0]
      proof (intro allI notI)
        fix i
        assume i: "holds p i \<and> holds (al_run bl) i"
        with p have "in_runs (hl_free h) i \<or> holds (al_run al) i" using m(2) [of i] by (auto simp: h' in_runs_def)
        then show False
        proof
          assume "in_runs (hl_free h) i"
          then obtain q where q: "q \<in> set (hl_free h)" "holds q i" by (auto simp: in_runs_def)
          with old [OF b(1) q(1)] i show False by (auto simp: apart_def holds_def)
        qed (use pair [OF b(2) b(1) al] i in \<open>auto simp: apart_def holds_def\<close>)
      qed
    qed
    then show ?thesis unfolding runs_apart_def using kept pair by blast
  qed
  moreover have "covers h'"
  proof -
    have "owned h i \<longleftrightarrow> owned h' i \<or> holds (al_run al) i" for i
    proof
      assume "owned h i"
      then obtain t bl where "hl_allocations h t = Some bl" "holds (al_run bl) i" by (auto simp: owned_def)
      then show "owned h' i \<or> holds (al_run al) i" using al unfolding owned_def h' by (cases "t = slot") auto
    qed (use al kept in \<open>auto simp: owned_def\<close>)
    then have "in_runs (hl_free h') i \<or> owned h' i \<longleftrightarrow> in_runs (hl_free h) i \<or> owned h i" for i
      using m(2) [of i] by (auto simp: h')
    then show ?thesis using inv by (simp add: host_inv_def covers_def) (simp add: h')
  qed
  moreover have "generations_ok h'"
    using inv advance_valid by (auto simp: host_inv_def generations_ok_def h' simp del: valid_U64 split: if_splits)
  ultimately show ?thesis using inv m(1) by (simp add: host_inv_def) (simp add: h')
qed

section \<open>Histories\<close>

datatype host_op =
    HAllocate int int int
  | HPin host_kv_extent bool
  | HUnpin host_kv_extent bool
  | HRecycle int int bool

text \<open>An operation that raises leaves the allocator as it was.\<close>

fun host_step :: "host_allocator \<Rightarrow> host_op \<Rightarrow> host_allocator" where
  "host_step h (HAllocate slot epoch cap) = (case host_allocate h slot epoch cap of Inl _ \<Rightarrow> h | Inr (_, h') \<Rightarrow> h')"
| "host_step h (HPin x write) = (case host_pin h x write of Inl _ \<Rightarrow> h | Inr (_, h') \<Rightarrow> h')"
| "host_step h (HUnpin x write) = (case host_unpin h x write of Inl _ \<Rightarrow> h | Inr h' \<Rightarrow> h')"
| "host_step h (HRecycle slot epoch quiescent) = (case host_recycle h slot epoch quiescent of Inl _ \<Rightarrow> h | Inr h' \<Rightarrow> h')"

definition host_run :: "host_allocator \<Rightarrow> host_op list \<Rightarrow> host_allocator" where
  "host_run = foldl host_step"

lemma host_step_inv: "host_inv h \<Longrightarrow> host_inv (host_step h op)"
  by (cases op) (auto split: sum.splits dest: host_allocate_inv host_pin_inv host_unpin_inv host_recycle_inv)

lemma host_run_inv: "host_inv h \<Longrightarrow> host_inv (host_run h ops)"
  unfolding host_run_def by (induction ops arbitrary: h) (simp_all add: host_step_inv)

lemma host_step_arena: "hl_arena (host_step h op) = hl_arena h"
proof (cases op)
  case (HAllocate slot epoch cap)
  then show ?thesis by (auto split: sum.splits elim!: host_allocate_Inr)
next
  case (HPin x w)
  then show ?thesis by (auto split: sum.splits if_splits elim!: host_pin_Inr simp: store_allocation_def)
next
  case (HUnpin x w)
  then show ?thesis by (auto split: sum.splits elim!: host_unpin_Inr simp: store_allocation_def)
next
  case (HRecycle slot epoch q)
  then show ?thesis by (auto split: sum.splits elim!: host_recycle_Inr)
qed

lemma host_run_arena [simp]: "hl_arena (host_run h ops) = hl_arena h"
  unfolding host_run_def by (induction ops arbitrary: h) (simp_all add: host_step_arena)

text \<open>An operation touches only the slot it names.\<close>

fun op_slot :: "host_op \<Rightarrow> int" where
  "op_slot (HAllocate slot epoch cap) = slot"
| "op_slot (HPin x write) = hx_request_slot x"
| "op_slot (HUnpin x write) = hx_request_slot x"
| "op_slot (HRecycle slot epoch quiescent) = slot"

lemma host_step_untouched: "s \<noteq> op_slot op \<Longrightarrow> hl_allocations (host_step h op) s = hl_allocations h s"
  by (cases op) (auto split: sum.splits if_splits
      elim!: host_allocate_Inr host_pin_Inr host_unpin_Inr host_recycle_Inr simp: store_allocation_def)

text \<open>The generation of a slot: how far it has advanced after a history.\<close>

definition advanced :: "int \<Rightarrow> nat \<Rightarrow> int \<Rightarrow> host_allocator \<Rightarrow> bool" where
  "advanced slot n g h \<longleftrightarrow> (\<exists>k. 1 \<le> k \<and> k \<le> n \<and> hl_generations h slot = Some (advance_id U64 k g))"

lemma advance_one: "is_valid U64 g \<Longrightarrow> advance_id U64 1 (advance_id U64 k g) = advance_id U64 (Suc k) g"
  by (simp add: advance_id_def mod_simps algebra_simps)

lemma host_step_advanced:
  assumes inv: "host_inv h" and adv: "advanced slot n g h" and g: "is_valid U64 g"
  shows "advanced slot (Suc n) g (host_step h op)"
proof -
  obtain k where k: "1 \<le> k" "k \<le> n" "hl_generations h slot = Some (advance_id U64 k g)"
    using adv by (auto simp: advanced_def)
  have "hl_generations (host_step h op) slot = hl_generations h slot
      \<or> hl_generations (host_step h op) slot = Some (advance_id U64 (Suc k) g)"
  proof (cases op)
    case (HAllocate s epoch cap)
    then show ?thesis by (auto split: sum.splits elim!: host_allocate_Inr)
  next
    case (HPin x w)
    then show ?thesis by (auto split: sum.splits if_splits elim!: host_pin_Inr simp: store_allocation_def)
  next
    case (HUnpin x w)
    then show ?thesis by (auto split: sum.splits elim!: host_unpin_Inr simp: store_allocation_def)
  next
    case (HRecycle s epoch q)
    show ?thesis
    proof (cases "host_recycle h s epoch q")
      case (Inr h')
      then obtain al where al: "hl_allocations h s = Some al"
        and h': "h' = h\<lparr>hl_generations := (hl_generations h)(s \<mapsto> advance_id U64 1 (hx_host_slot_generation (al_extent al))),
            hl_allocations := (hl_allocations h)(s := None), hl_free := merge_runs (hl_free h @ [al_run al])\<rparr>"
        by (rule host_recycle_Inr)
      have "hx_host_slot_generation (al_extent al) = advance_id U64 k g" if "s = slot"
        using inv al k(3) that by (simp add: host_inv_def allocations_ok_def allocation_ok_def slot_generation_def)
      then show ?thesis using HRecycle Inr h' advance_one [OF g, of k] by simp
    qed (simp add: HRecycle)
  qed
  then show ?thesis using k by (auto simp: advanced_def intro: exI [of _ k] exI [of _ "Suc k"])
qed

lemma host_run_advanced:
  "host_inv h \<Longrightarrow> advanced slot n g h \<Longrightarrow> is_valid U64 g \<Longrightarrow> advanced slot (n + length ops) g (host_run h ops)"
  unfolding host_run_def
proof (induction ops arbitrary: h n)
  case (Cons op ops)
  from Cons.IH [OF host_step_inv [OF Cons.prems(1)] host_step_advanced [OF Cons.prems] Cons.prems(3), of op]
  show ?case by (simp del: valid_U64)
qed simp

lemma advance_distinct:
  assumes "is_valid U64 g" "1 \<le> k" "int k < max_value U64"
  shows "advance_id U64 k g \<noteq> g"
proof
  assume "advance_id U64 k g = g"
  then have "(g + int k) mod max_value U64 = g mod max_value U64"
    using assms(1) by (simp add: advance_id_def is_valid_def max_valid_def del: valid_U64)
  then have "max_value U64 dvd int k" by (simp add: mod_eq_dvd_iff)
  then show False using assms(2,3) zdvd_imp_le [of "max_value U64" "int k"] by simp
qed

lemma slot_generation_valid: "host_inv h \<Longrightarrow> is_valid U64 (slot_generation h slot)"
  by (auto simp: host_inv_def generations_ok_def slot_generation_def simp del: valid_U64 split: option.splits) simp

lemma fits_iff_contiguous:
  assumes "coalesced runs" "0 < cap"
  shows "(\<exists>p \<in> set runs. cap \<le> snd p) \<longleftrightarrow> (\<exists>o'. \<forall>i. o' \<le> i \<and> i < o' + cap \<longrightarrow> in_runs runs i)"
proof
  assume "\<exists>p \<in> set runs. cap \<le> snd p"
  then obtain p where "p \<in> set runs" "cap \<le> snd p" by blast
  then have "\<forall>i. fst p \<le> i \<and> i < fst p + cap \<longrightarrow> in_runs runs i"
    unfolding in_runs_def holds_def by (intro allI impI bexI [of _ p]) auto
  then show "\<exists>o'. \<forall>i. o' \<le> i \<and> i < o' + cap \<longrightarrow> in_runs runs i" by blast
next
  assume "\<exists>o'. \<forall>i. o' \<le> i \<and> i < o' + cap \<longrightarrow> in_runs runs i"
  then obtain o' where "\<forall>i. o' \<le> i \<and> i < o' + cap \<longrightarrow> in_runs runs i" by blast
  from coalesced_contiguous [OF assms this] obtain p where "p \<in> set runs" "fst p \<le> o'" "o' + cap \<le> fst p + snd p" by blast
  then show "\<exists>p \<in> set runs. cap \<le> snd p" by (intro bexI [of _ p]) auto
qed

lemma free_run_inside:
  assumes "host_inv h" "(off, m) \<in> set (hl_free h)"
  shows "0 \<le> off" "off + m \<le> ad_total_blocks (ha_descriptor (hl_arena h))"
proof -
  have m: "0 < m" and cov: "\<And>i. in_runs (hl_free h) i \<Longrightarrow> 0 \<le> i \<and> i < ad_total_blocks (ha_descriptor (hl_arena h))"
    using assms by (auto simp: host_inv_def coalesced_def covers_def)
  have "in_runs (hl_free h) off" "in_runs (hl_free h) (off + m - 1)"
    unfolding in_runs_def holds_def using assms(2) m by (auto intro!: bexI [of _ "(off, m)"])
  from cov [OF this(1)] cov [OF this(2)] show "0 \<le> off" "off + m \<le> ad_total_blocks (ha_descriptor (hl_arena h))" by simp_all
qed

lemma make_extent_returns:
  assumes "0 < cap" "is_valid ARENA_LENGTH cap" "is_valid REQUEST_SLOT slot" "is_valid REQUEST_EPOCH epoch"
    and "is_valid ARENA_OFFSET (ad_total_blocks (ha_descriptor a))"
    and "is_valid ARENA_GENERATION (ad_descriptor_generation (ha_descriptor a))"
    and "0 \<le> off" "off + cap \<le> ad_total_blocks (ha_descriptor a)" "is_valid U64 g"
  shows "returns (make_extent a slot epoch slot g g off cap)"
proof -
  have "mk_hostkv_handle off cap (ad_descriptor_generation (ha_descriptor a))
      = Inr \<lparr>hk_offset_blocks = off, hk_block_count = cap, hk_generation = ad_descriptor_generation (ha_descriptor a)\<rparr>"
    using assms by (simp add: mk_hostkv_handle_Inr hostkv_handle_ok_iff)
  then show ?thesis
    using assms by (simp add: make_extent_def Let_def check_extent_def non_negative_def validate_extent_def within_blocks_def
        end_block_def validate_valid bind_r_eq_Inr)
qed

text \<open>A four-block arena and a history of it, for the concrete instances below.\<close>

definition demo_history :: host_allocator where
  "demo_history = host_run (init_host_allocator demo_arena) [HAllocate 1 1 1, HAllocate 2 1 2]"

definition demo_taken :: "int \<Rightarrow> int \<Rightarrow> int \<Rightarrow> host_kv_extent" where
  "demo_taken slot off cap = \<lparr>hx_request_slot = slot, hx_request_epoch = 1, hx_host_slot = slot, hx_host_slot_generation = 1,
     hx_writer_lease_generation = 1, hx_arena = \<lparr>hk_offset_blocks = off, hk_block_count = cap, hk_generation = 1\<rparr>,
     hx_capacity_blocks = cap, hx_committed_blocks = 0, hx_kv_version = 0\<rparr>"

lemma demo_arena_ok: "arena_ok demo_arena"
  by code_simp

lemma demo_history_allocations:
  "hl_allocations demo_history 1 = Some \<lparr>al_extent = demo_taken 1 0 1, al_readers = 0, al_writing = False\<rparr>"
  "hl_allocations demo_history 2 = Some \<lparr>al_extent = demo_taken 2 1 2, al_readers = 0, al_writing = False\<rparr>"
  "hl_allocations demo_history 3 = None"
  by code_simp+

section \<open>Properties\<close>

text \<open>C29: in every history of the allocator, whatever is asked in whatever order, each block of the arena is either
  free or belongs to exactly one live extent, no extent reaches outside the arena, and an extent that is
  being written has no reader.\<close>

theorem host_blocks_partitioned:
  assumes "arena_ok a" "h = host_run (init_host_allocator a) ops"
  shows "(\<forall>i. 0 \<le> i \<and> i < ad_total_blocks (ha_descriptor a) \<longleftrightarrow>
            in_runs (hl_free h) i \<or> (\<exists>slot al. hl_allocations h slot = Some al \<and> holds (al_run al) i))
     \<and> (\<forall>slot al i. hl_allocations h slot = Some al \<longrightarrow> holds (al_run al) i \<longrightarrow> \<not> in_runs (hl_free h) i)
     \<and> (\<forall>s t al bl i. hl_allocations h s = Some al \<longrightarrow> hl_allocations h t = Some bl \<longrightarrow>
            holds (al_run al) i \<longrightarrow> holds (al_run bl) i \<longrightarrow> s = t)
     \<and> (\<forall>slot al. hl_allocations h slot = Some al \<longrightarrow> al_writing al \<longrightarrow> al_readers al = 0)"
proof -
  have inv: "host_inv h" and ar: "hl_arena h = a" using assms host_run_inv init_host_inv by (auto simp: init_host_allocator_def)
  have "\<not> in_runs (hl_free h) i" if "hl_allocations h slot = Some al" "holds (al_run al) i" for slot al i
    using inv that by (fastforce simp: host_inv_def runs_apart_def in_runs_def apart_def holds_def)
  moreover have "s = t" if "hl_allocations h s = Some al" "hl_allocations h t = Some bl" "holds (al_run al) i" "holds (al_run bl) i" for s t al bl i
    using inv that by (fastforce simp: host_inv_def runs_apart_def apart_def holds_def)
  moreover have "al_readers al = 0" if "hl_allocations h slot = Some al" "al_writing al" for slot al
    using inv that by (simp add: host_inv_def allocations_ok_def allocation_ok_def)
  moreover have "0 \<le> i \<and> i < ad_total_blocks (ha_descriptor a) \<longleftrightarrow> in_runs (hl_free h) i \<or> owned h i" for i
    using inv ar by (simp add: host_inv_def covers_def)
  ultimately show ?thesis unfolding owned_def by blast
qed

theorem host_blocks_partitioned_witness:
  "\<not> in_runs (hl_free demo_history) 0"
proof -
  have "holds (al_run \<lparr>al_extent = demo_taken 1 0 1, al_readers = 0, al_writing = False\<rparr>) 0" by code_simp
  with host_blocks_partitioned [OF demo_arena_ok demo_history_def] demo_history_allocations(1) show ?thesis by blast
qed

text \<open>The allocator never fails for fragmentation it could have merged away: a valid request without an
  allocation is served exactly when some contiguous range of that many free blocks exists, and otherwise
  the arena is reported exhausted.\<close>

theorem allocates_iff_contiguous:
  assumes "arena_ok a" "h = host_run (init_host_allocator a) ops" "hl_allocations h slot = None"
    and "0 < cap" "is_valid ARENA_LENGTH cap" "is_valid REQUEST_SLOT slot" "is_valid REQUEST_EPOCH epoch"
    and "is_valid ARENA_OFFSET (ad_total_blocks (ha_descriptor a))"
    and "is_valid ARENA_GENERATION (ad_descriptor_generation (ha_descriptor a))"
  shows "if \<exists>o'. \<forall>i. o' \<le> i \<and> i < o' + cap \<longrightarrow> in_runs (hl_free h) i
     then returns (host_allocate h slot epoch cap)
     else host_allocate h slot epoch cap = Inl (HostKVCapacityError ''HostKV arena capacity exhausted'')"
proof -
  have inv: "host_inv h" and ar: "hl_arena h = a" using assms(1,2) host_run_inv init_host_inv by (auto simp: init_host_allocator_def)
  then have co: "coalesced (hl_free h)" by (simp add: host_inv_def)
  have fits: "(\<exists>p \<in> set (hl_free h). cap \<le> snd p) \<longleftrightarrow> (\<exists>o'. \<forall>i. o' \<le> i \<and> i < o' + cap \<longrightarrow> in_runs (hl_free h) i)"
    using fits_iff_contiguous [OF co assms(4)] .
  show ?thesis
  proof (cases "take_fit cap (hl_free h)")
    case None
    then have "\<not> (\<exists>p \<in> set (hl_free h). cap \<le> snd p)" by (auto simp: take_fit_None)
    with None fits assms(3,4) show ?thesis by (simp add: host_allocate_def)
  next
    case (Some r)
    then obtain off free' where r: "take_fit cap (hl_free h) = Some (off, free')" by (cases r) auto
    from take_fit_Some [OF r co assms(4)] obtain m where m: "(off, m) \<in> set (hl_free h)" "cap \<le> m" by blast
    have off: "0 \<le> off" "off + cap \<le> ad_total_blocks (ha_descriptor a)"
      using free_run_inside [OF inv m(1)] m(2) ar assms(4) by simp_all
    have "is_valid U64 (slot_generation h slot)" by (rule slot_generation_valid [OF inv])
    then have "returns (make_extent a slot epoch slot (slot_generation h slot) (slot_generation h slot) off cap)"
      by (intro make_extent_returns assms off)
    then have "returns (host_allocate h slot epoch cap)"
      using r ar assms(3,4) by (auto simp: host_allocate_def Let_def)
    moreover have "\<exists>p \<in> set (hl_free h). cap \<le> snd p" using m by force
    ultimately show ?thesis using fits by simp
  qed
qed

theorem allocates_iff_contiguous_witness:
  "if \<exists>o'. \<forall>i. o' \<le> i \<and> i < o' + (2 :: int) \<longrightarrow> in_runs (hl_free demo_history) i
   then returns (host_allocate demo_history 3 1 2)
   else host_allocate demo_history 3 1 2 = Inl (HostKVCapacityError ''HostKV arena capacity exhausted'')"
  by (rule allocates_iff_contiguous [OF demo_arena_ok demo_history_def demo_history_allocations(3)])
    (simp_all add: demo_arena_def)

text \<open>C31: a recycled extent is fenced for good: after a request's extent is recycled, no later history of
  fewer than 2^64 - 2 operations, re-allocations of the same slot and epoch included, makes a pin or an
  unpin of the old extent succeed.\<close>

theorem recycled_extent_fenced:
  assumes "host_inv h" "hl_allocations h slot = Some al" "host_recycle h slot epoch True = Inr h'"
    and "int (length ops) < max_value U64 - 1"
  shows "(\<exists>e. host_pin (host_run h' ops) (al_extent al) write = Inl e)
     \<and> (\<exists>e. host_unpin (host_run h' ops) (al_extent al) write = Inl e)"
proof -
  let ?g = "hx_host_slot_generation (al_extent al)" and ?h = "host_run h' ops"
  have "allocation_ok h slot al" using assms(1,2) by (simp add: host_inv_def allocations_ok_def)
  then have g: "is_valid U64 ?g" and slot: "hx_request_slot (al_extent al) = slot"
    using slot_generation_valid [OF assms(1)] unfolding allocation_ok_def by simp_all
  have inv: "host_inv h'" using host_recycle_inv [OF assms(1,3)] .
  have "hl_generations h' slot = Some (advance_id U64 1 ?g)"
    using assms(2,3) by (auto elim!: host_recycle_Inr)
  then have "advanced slot 1 ?g h'" by (auto simp: advanced_def)
  from host_run_advanced [OF inv this g] obtain k
    where k: "1 \<le> k" "k \<le> 1 + length ops" "hl_generations ?h slot = Some (advance_id U64 k ?g)"
    by (auto simp: advanced_def)
  have ne: "advance_id U64 k ?g \<noteq> ?g" using advance_distinct [OF g k(1)] k(2) assms(4) by simp
  have "al_extent bl \<noteq> al_extent al" if "hl_allocations ?h slot = Some bl" for bl
  proof -
    have "allocation_ok ?h slot bl" using host_run_inv [OF inv, of ops] that by (simp add: host_inv_def allocations_ok_def)
    then have "hx_host_slot_generation (al_extent bl) = advance_id U64 k ?g"
      by (simp add: allocation_ok_def slot_generation_def k(3))
    with ne show ?thesis by auto
  qed
  then show ?thesis
    by (auto simp: slot host_pin_def host_unpin_def require_allocation_def split: option.splits)
qed

theorem recycled_extent_fenced_witness:
  "case host_recycle demo_history 2 1 True of Inl _ \<Rightarrow> False
   | Inr h' \<Rightarrow> \<exists>e. host_pin (host_run h' [HAllocate 2 1 2]) (demo_taken 2 1 2) True = Inl e"
proof -
  have inv: "host_inv demo_history" unfolding demo_history_def by (intro host_run_inv init_host_inv demo_arena_ok)
  have "returns (host_recycle demo_history 2 1 True)" unfolding returns_def by code_simp
  then obtain h' where r: "host_recycle demo_history 2 1 True = Inr h'" by auto
  have "int (length [HAllocate 2 1 2]) < max_value U64 - 1" by code_simp
  from recycled_extent_fenced [OF inv demo_history_allocations(2) r this, of True] r show ?thesis by simp
qed

text \<open>C28: writing one request's KV never disturbs another: in every history, a write through a lease on the current
  version of one live extent leaves every block range another live request can read as it was.\<close>

theorem live_extents_isolated:
  assumes "arena_ok a" "h = host_run (init_host_allocator a) ops"
    and "hl_allocations h s = Some al" "hl_allocations h t = Some bl" "s \<noteq> t"
    and "x = (al_extent al)\<lparr>hx_committed_blocks := m, hx_kv_version := v\<rparr>" "extent_ok x"
    and "y = (al_extent bl)\<lparr>hx_committed_blocks := m', hx_kv_version := v'\<rparr>" "extent_ok y"
    and "check_write_lease l = Inr ()" "write_kv a x l kp vp = Inr (x', a')"
  shows "read_kv a' y b c = read_kv a y b c"
proof (cases "wl_dirty_block_count l = 0")
  case True
  then show ?thesis using assms(11) by (auto simp: write_kv_def bind_r_eq_Inr)
next
  case False
  have inv: "host_inv h" using assms(1,2) host_run_inv init_host_inv by auto
  then have "apart (al_run al) (al_run bl)" using assms(3-5) by (simp add: host_inv_def runs_apart_def)
  then have "extent_offset y + hx_capacity_blocks y \<le> extent_offset x \<or> extent_offset x + hx_capacity_blocks x \<le> extent_offset y"
    using assms(6,8) by (auto simp: apart_def al_run_def extent_offset_def)
  moreover have "arena_ok a'"
    using assms(1) write_kv_effect(1,2) [OF assms(11) False assms(1,7,10)] by (simp add: arena_ok_def)
  moreover have "validate_write_lease a x l = Inr ()" using assms(11) False by (elim write_kv_Inr)
  ultimately show ?thesis using write_kv_reads_elsewhere [OF assms(11) False assms(1,7,10) _ _ assms(9)] by blast
qed

theorem live_extents_isolated_witness:
  "case write_kv demo_arena (demo_taken 2 1 2) (demo_lease\<lparr>wl_request_slot := 2, wl_host_slot := 2\<rparr>) [7, 8] [9, 6] of
     Inl _ \<Rightarrow> False | Inr (x', a') \<Rightarrow> read_kv a' (demo_taken 1 0 1) 0 1 = read_kv demo_arena (demo_taken 1 0 1) 0 1"
proof -
  let ?l = "demo_lease\<lparr>wl_request_slot := 2, wl_host_slot := 2\<rparr>"
  have "returns (write_kv demo_arena (demo_taken 2 1 2) ?l [7, 8] [9, 6])" unfolding returns_def by code_simp
  then obtain x' a' where w: "write_kv demo_arena (demo_taken 2 1 2) ?l [7, 8] [9, 6] = Inr (x', a')" by auto
  have ok: "extent_ok (demo_taken 2 1 2)" "extent_ok (demo_taken 1 0 1)" "check_write_lease ?l = Inr ()" by code_simp+
  have same: "demo_taken 2 1 2 = (demo_taken 2 1 2)\<lparr>hx_committed_blocks := 0, hx_kv_version := 0\<rparr>"
    "demo_taken 1 0 1 = (demo_taken 1 0 1)\<lparr>hx_committed_blocks := 0, hx_kv_version := 0\<rparr>"
    by (simp_all add: demo_taken_def)
  have "read_kv a' (demo_taken 1 0 1) 0 1 = read_kv demo_arena (demo_taken 1 0 1) 0 1"
    by (rule live_extents_isolated [OF demo_arena_ok demo_history_def demo_history_allocations(2,1) _ _ ok(1) _ ok(2,3) w])
      (use same in simp_all)
  then show ?thesis using w by simp
qed

text \<open>An allocator that holds nothing has one free run: the whole arena.\<close>

lemma idle_free:
  assumes inv: "host_inv h" and idle: "hl_allocations h = Map.empty"
  shows "hl_free h = [(0, ad_total_blocks (ha_descriptor (hl_arena h)))]"
proof -
  let ?T = "ad_total_blocks (ha_descriptor (hl_arena h))"
  have T: "0 < ?T" using inv arena_ok_facts(2) by (simp add: host_inv_def)
  have co: "coalesced (hl_free h)" and cov: "in_runs (hl_free h) i \<longleftrightarrow> 0 \<le> i \<and> i < ?T" for i
    using inv idle by (auto simp: host_inv_def covers_def owned_def)
  from coalesced_contiguous [OF co T, of 0] cov
  obtain p where p: "p \<in> set (hl_free h)" "fst p \<le> 0" "?T \<le> fst p + snd p" by auto
  have only: "q = (0, ?T)" if q: "q \<in> set (hl_free h)" for q
  proof -
    have inside: "holds r i \<Longrightarrow> 0 \<le> i \<and> i < ?T" if "r \<in> set (hl_free h)" for r i
      using cov [of i] that by (auto simp: in_runs_def)
    have pos: "0 < snd r" if "r \<in> set (hl_free h)" for r using co that by (simp add: coalesced_def)
    have p0: "p = (0, ?T)"
      using inside [OF p(1), of "fst p"] inside [OF p(1), of "fst p + snd p - 1"] pos [OF p(1)] p(2,3)
      by (cases p) (simp add: holds_def)
    have "\<not> apart p q \<or> p = q" using inside [OF q, of "fst q"] pos [OF q] p0 T by (auto simp: apart_def holds_def)
    then show ?thesis using co p(1) q p0 coalesced_apart by blast
  qed
  show ?thesis
  proof (cases "hl_free h")
    case Nil
    then show ?thesis using p(1) by simp
  next
    case (Cons q qs)
    have "qs = []"
    proof (cases qs)
      case (Cons r rs)
      with \<open>hl_free h = q # qs\<close> only [of q] only [of r] co T show ?thesis by (auto simp: coalesced_Cons)
    qed simp
    with Cons only [of q] show ?thesis by simp
  qed
qed

text \<open>C33: no block is ever leaked: when the last request has been recycled, whatever the order, the free
  list is the single run it started as.\<close>

theorem host_blocks_all_return:
  assumes "arena_ok a" "h = host_run (init_host_allocator a) ops" "hl_allocations h = Map.empty"
  shows "hl_free h = [(0, ad_total_blocks (ha_descriptor a))]"
proof -
  have "host_inv h" "hl_arena h = a" using assms(1,2) host_run_inv init_host_inv by (auto simp: init_host_allocator_def)
  with idle_free [OF _ assms(3)] show ?thesis by simp
qed

theorem host_blocks_all_return_witness:
  "hl_free (host_run (init_host_allocator demo_arena) [HAllocate 1 1 1, HAllocate 2 1 2, HRecycle 1 1 True, HRecycle 2 1 True]) = [(0, 4)]"
proof -
  let ?h = "host_run demo_history [HRecycle 1 1 True, HRecycle 2 1 True]"
  have h: "?h = host_run (init_host_allocator demo_arena) [HAllocate 1 1 1, HAllocate 2 1 2, HRecycle 1 1 True, HRecycle 2 1 True]"
    by (simp add: demo_history_def host_run_def)
  have "hl_allocations demo_history s = None" if "s \<noteq> 1" "s \<noteq> 2" for s
    using that by (simp add: demo_history_def host_run_def host_step_untouched init_host_allocator_def del: host_step.simps)
  moreover have "hl_allocations ?h 1 = None" "hl_allocations ?h 2 = None" by code_simp+
  ultimately have "hl_allocations ?h s = None" for s
    by (cases "s = 1"; cases "s = 2") (simp_all add: host_run_def host_step_untouched del: host_step.simps)
  then have "hl_allocations ?h = Map.empty" by (simp add: fun_eq_iff)
  from host_blocks_all_return [OF demo_arena_ok h this] show ?thesis unfolding h by (simp add: demo_arena_def)
qed

end
