(* ===== verification/AppendArenas.thy ===== *)
theory AppendArenas
  imports Wire
begin

text \<open>
  \<open>data/token_arena.py\<close> and \<open>data/generation_config_arena.py\<close>: the append-only payload arenas. Both keep
  a byte buffer, a generation and a head; a payload is named by a handle with the generation it was written in.
  The locale \<open>payload_store\<close> is their contract with the workers that read them.
\<close>

section \<open>Little-endian u32 sequences\<close>

text \<open>The store loop \<open>buf[start : start + 4] = token.to_bytes(4, 'little')\<close> and the loop that reads it back.\<close>

fun write_u32s :: "nat \<Rightarrow> int list \<Rightarrow> bytes \<Rightarrow> bytes" where
  "write_u32s pos [] buf = buf"
| "write_u32s pos (t # ts) buf = write_u32s (pos + 4) ts (overwrite pos (le_bytes 4 t) buf)"

fun read_u32s :: "nat \<Rightarrow> nat \<Rightarrow> bytes \<Rightarrow> int list" where
  "read_u32s pos 0 buf = []"
| "read_u32s pos (Suc n) buf = le_int (subbuf pos 4 buf) # read_u32s (pos + 4) n buf"

definition u32_bytes :: "int list \<Rightarrow> bytes" where
  "u32_bytes ts = concat (map (le_bytes 4) ts)"

lemma u32_bytes_simps [simp]: "u32_bytes [] = []" "u32_bytes (t # ts) = le_bytes 4 t @ u32_bytes ts"
  by (simp_all add: u32_bytes_def)

lemma length_u32_bytes [simp]: "length (u32_bytes ts) = 4 * length ts"
  by (induction ts) simp_all

lemma overwrite_overwrite:
  assumes "pos + length a + length b \<le> length buf"
  shows "overwrite (pos + length a) b (overwrite pos a buf) = overwrite pos (a @ b) buf"
  using assms by (simp add: overwrite_def add.commute add.left_commute)

lemma write_u32s_overwrite:
  "pos + 4 * length ts \<le> length buf \<Longrightarrow> write_u32s pos ts buf = overwrite pos (u32_bytes ts) buf"
proof (induction ts arbitrary: pos buf)
  case (Cons t ts)
  then show ?case using overwrite_overwrite [of pos "le_bytes 4 t" "u32_bytes ts" buf] by simp
qed (simp add: overwrite_def)

lemma subbuf_inside: "i + k \<le> m \<Longrightarrow> subbuf i k (subbuf p m buf) = subbuf (p + i) k buf"
  by (simp add: subbuf_def drop_take min_absorb1 add.commute)

lemma read_u32s_inside: "4 * n + i \<le> m \<Longrightarrow> read_u32s i n (subbuf p m buf) = read_u32s (p + i) n buf"
  by (induction n arbitrary: i) (simp_all add: subbuf_inside add.assoc)

lemma read_u32s_bytes: "\<forall>t \<in> set ts. is_valid U32 t \<Longrightarrow> read_u32s (length pre) (length ts) (pre @ u32_bytes ts @ post) = ts"
proof (induction ts arbitrary: pre)
  case (Cons t ts)
  from Cons.IH [of "pre @ le_bytes 4 t"] Cons.prems show ?case by (auto simp: subbuf_def)
qed simp

lemma read_u32s_subbuf:
  assumes "subbuf pos m buf = pre @ u32_bytes ts" "\<forall>t \<in> set ts. is_valid U32 t" "m = length pre + 4 * length ts"
  shows "read_u32s (pos + length pre) (length ts) buf = ts"
  using read_u32s_inside [of "length ts" "length pre" m pos buf] read_u32s_bytes [OF assms(2), of pre "[]"] assms(1,3)
  by simp

section \<open>The contract of a payload arena\<close>

locale payload_store =
  fixes store_ok :: "'s \<Rightarrow> bool" and good :: "'v \<Rightarrow> bool"
    and live :: "'s \<Rightarrow> 'h \<Rightarrow> bool"
    and wr :: "'s \<Rightarrow> 'v \<Rightarrow> ('h \<times> 's) result" and rd :: "'s \<Rightarrow> 'h \<Rightarrow> 'v result"
  assumes wr_ok: "store_ok s \<Longrightarrow> good v \<Longrightarrow> wr s v = Inr (h, s') \<Longrightarrow> store_ok s'"
    and wr_live: "store_ok s \<Longrightarrow> good v \<Longrightarrow> wr s v = Inr (h, s') \<Longrightarrow> live s' h"
    and wr_reads: "store_ok s \<Longrightarrow> good v \<Longrightarrow> wr s v = Inr (h, s') \<Longrightarrow> rd s' h = Inr v"
    and wr_keeps: "store_ok s \<Longrightarrow> good v \<Longrightarrow> wr s v = Inr (h, s') \<Longrightarrow> live s g \<Longrightarrow> live s' g \<and> rd s' g = rd s g"
begin

fun write_all :: "'s \<Rightarrow> 'v list \<Rightarrow> ('h list \<times> 's) result" where
  "write_all s [] = Inr ([], s)"
| "write_all s (v # vs) = bind_r (wr s v) (\<lambda>(h, s'). bind_r (write_all s' vs) (\<lambda>(hs, s''). Inr (h # hs, s'')))"

lemma write_all_facts:
  assumes "store_ok s" "\<forall>v \<in> set vs. good v" "write_all s vs = Inr (hs, s')"
  shows "store_ok s'" "list_all2 (\<lambda>h v. live s' h \<and> rd s' h = Inr v) hs vs"
    "live s g \<Longrightarrow> live s' g \<and> rd s' g = rd s g"
proof -
  have "store_ok s' \<and> list_all2 (\<lambda>h v. live s' h \<and> rd s' h = Inr v) hs vs
      \<and> (\<forall>g. live s g \<longrightarrow> live s' g \<and> rd s' g = rd s g)"
    using assms
  proof (induction vs arbitrary: s hs)
    case (Cons v vs)
    then obtain h t hs' where w: "wr s v = Inr (h, t)" and ws: "write_all t vs = Inr (hs', s')" and hs: "hs = h # hs'"
      by (auto simp: bind_r_eq_Inr)
    have v: "good v" and ok: "store_ok s" using Cons.prems by auto
    from Cons.IH [OF wr_ok [OF ok v w] _ ws] Cons.prems(2)
    have IH: "store_ok s'" "list_all2 (\<lambda>h v. live s' h \<and> rd s' h = Inr v) hs' vs"
      "\<And>g. live t g \<Longrightarrow> live s' g \<and> rd s' g = rd t g" by auto
    show ?case using IH(1,2) IH(3) [OF wr_live [OF ok v w]] wr_reads [OF ok v w] wr_keeps [OF ok v w] IH(3)
      by (auto simp: hs)
  qed simp
  then show "store_ok s'" "list_all2 (\<lambda>h v. live s' h \<and> rd s' h = Inr v) hs vs"
    "live s g \<Longrightarrow> live s' g \<and> rd s' g = rd s g" by blast+
qed

lemma write_all_reads:
  assumes "store_ok s" "\<forall>v \<in> set vs. good v" "write_all s vs = Inr (hs, s')"
  shows "map_r (rd s') hs = Inr vs"
  using write_all_facts(2) [OF assms] unfolding map_r_Inr by (rule list.rel_mono_strong) simp

end

lemma advance_differs:
  assumes "is_valid d g" "0 < k" "int k < max_value d"
  shows "advance_id d k g \<noteq> g"
proof
  assume "advance_id d k g = g"
  then have "(g + int k) mod max_value d = g mod max_value d"
    using assms(1) by (simp add: advance_id_def is_valid_def max_valid_def)
  then have "max_value d dvd int k" by (simp add: mod_eq_dvd_iff)
  then show False using assms(2,3) zdvd_imp_le [of "max_value d" "int k"] by simp
qed

section \<open>The token arena\<close>

record append_arena =
  aa_bytes :: bytes
  aa_generation :: int
  aa_head :: nat

definition open_arena :: "int \<Rightarrow> int \<Rightarrow> append_arena result" where
  "open_arena capacity_bytes generation =
     bind_r (checks [check_id U32 capacity_bytes, check_id ARENA_GENERATION generation,
                     require (0 < capacity_bytes) (ValueError ''capacity_bytes must be positive'')])
       (\<lambda>_. Inr \<lparr>aa_bytes = replicate (nat capacity_bytes) 0, aa_generation = generation, aa_head = 0\<rparr>)"

definition reset_quiescent :: "append_arena \<Rightarrow> append_arena result" where
  "reset_quiescent a = bind_r (next_id ARENA_GENERATION (aa_generation a))
     (\<lambda>g. Inr (a\<lparr>aa_head := 0, aa_generation := g\<rparr>))"

definition validate_handle :: "(string \<Rightarrow> py_error) \<Rightarrow> ('x) append_arena_scheme \<Rightarrow> arena_handle \<Rightarrow> unit result" where
  "validate_handle err a h =
     bind_r (require (h_generation h = aa_generation a) (err ''stale arena generation'')) (\<lambda>_.
     bind_r (handle_within h (int (length (aa_bytes a)))) (\<lambda>inside.
     require inside (err ''handle outside capacity'')))"

definition write_tokens :: "append_arena \<Rightarrow> int list \<Rightarrow> (arena_handle \<times> append_arena) result" where
  "write_tokens a tokens =
     bind_r (checks (map (check_id U32) tokens)) (\<lambda>_.
     bind_r (check_id ARENA_LENGTH (int (length tokens * 4))) (\<lambda>_.
     if aa_head a + length tokens * 4 > length (aa_bytes a) then Inl (TokenArenaError ''token arena capacity exhausted'')
     else bind_r (mk_handle (int (aa_head a)) (int (length tokens * 4)) (aa_generation a)) (\<lambda>h.
       Inr (h, a\<lparr>aa_bytes := write_u32s (aa_head a) tokens (aa_bytes a), aa_head := aa_head a + length tokens * 4\<rparr>))))"

fun token_batch_loop :: "append_arena \<Rightarrow> int list list \<Rightarrow> (arena_handle list \<times> append_arena) result" where
  "token_batch_loop a [] = Inr ([], a)"
| "token_batch_loop a (tokens # batches) =
     (let a' = a\<lparr>aa_bytes := write_u32s (aa_head a) tokens (aa_bytes a), aa_head := aa_head a + length tokens * 4\<rparr>
      in bind_r (mk_handle (int (aa_head a)) (int (length tokens * 4)) (aa_generation a)) (\<lambda>h.
         bind_r (token_batch_loop a' batches) (\<lambda>(hs, a''). Inr (h # hs, a''))))"

definition write_token_batches :: "append_arena \<Rightarrow> int list list \<Rightarrow> (arena_handle list \<times> append_arena) result" where
  "write_token_batches a batches =
     bind_r (checks (concat (map (map (check_id U32)) batches))) (\<lambda>_.
     bind_r (checks (map (\<lambda>batch. check_id ARENA_LENGTH (int (length batch * 4))) batches)) (\<lambda>_.
     if aa_head a + sum_list (map (\<lambda>batch. length batch * 4) batches) > length (aa_bytes a)
     then Inl (TokenArenaError ''token arena capacity exhausted'')
     else token_batch_loop a batches))"

definition read_tokens :: "append_arena \<Rightarrow> arena_handle \<Rightarrow> int list result" where
  "read_tokens a h =
     bind_r (validate_handle TokenArenaError a h) (\<lambda>_.
     if h_length h mod 4 \<noteq> 0 then Inl (TokenArenaError ''token arena handle length must be a multiple of 4'')
     else Inr (read_u32s (nat (h_offset h)) (nat (h_length h div 4)) (aa_bytes a)))"

definition arena_inv :: "('x) append_arena_scheme \<Rightarrow> bool" where
  "arena_inv a \<longleftrightarrow> aa_head a \<le> length (aa_bytes a) \<and> int (length (aa_bytes a)) < 4294967295 \<and> is_valid U32 (aa_generation a)"

definition handle_live :: "('x) append_arena_scheme \<Rightarrow> arena_handle \<Rightarrow> bool" where
  "handle_live a h \<longleftrightarrow> handle_ok h \<and> h_generation h = aa_generation a \<and> end_offset h \<le> int (aa_head a)"

lemma validate_handle_Inr:
  "validate_handle err a h = Inr u \<longleftrightarrow> h_generation h = aa_generation a \<and> is_valid U64 (int (length (aa_bytes a)))
     \<and> end_offset h \<le> int (length (aa_bytes a))"
  by (auto simp: validate_handle_def bind_r_eq_Inr handle_within_Inr simp del: valid_U64)

lemma validate_handle_live: "arena_inv a \<Longrightarrow> handle_live a h \<Longrightarrow> validate_handle err a h = Inr ()"
  by (auto simp: validate_handle_Inr arena_inv_def handle_live_def)

lemma validate_handle_stale: "h_generation h \<noteq> aa_generation a \<Longrightarrow> validate_handle err a h = Inl (err ''stale arena generation'')"
  by (simp add: validate_handle_def)

text \<open>The bytes a live handle names, and what appending at the head does to them.\<close>

definition slot_bytes :: "('x) append_arena_scheme \<Rightarrow> arena_handle \<Rightarrow> bytes" where
  "slot_bytes a h = subbuf (nat (h_offset h)) (nat (h_length h)) (aa_bytes a)"

definition appended :: "bytes \<Rightarrow> ('x) append_arena_scheme \<Rightarrow> ('x) append_arena_scheme" where
  "appended raw a = a\<lparr>aa_bytes := overwrite (aa_head a) raw (aa_bytes a), aa_head := aa_head a + length raw\<rparr>"

lemma appended_sel [simp]:
  "aa_bytes (appended raw a) = overwrite (aa_head a) raw (aa_bytes a)" "aa_head (appended raw a) = aa_head a + length raw"
  "aa_generation (appended raw a) = aa_generation a"
  by (simp_all add: appended_def)

lemma appended_facts:
  assumes "arena_inv a" "aa_head a + length raw \<le> length (aa_bytes a)"
    and h: "h = \<lparr>h_offset = int (aa_head a), h_length = int (length raw), h_generation = aa_generation a\<rparr>"
  shows "arena_inv (appended raw a)" "handle_live (appended raw a) h" "slot_bytes (appended raw a) h = raw"
    "handle_live a g \<Longrightarrow> handle_live (appended raw a) g \<and> slot_bytes (appended raw a) g = slot_bytes a g"
proof -
  show "arena_inv (appended raw a)" using assms(1,2) by (simp add: arena_inv_def)
  show "handle_live (appended raw a) h"
    using assms(1,2) by (simp add: h handle_live_def arena_inv_def handle_ok_iff end_offset_def)
  show "slot_bytes (appended raw a) h = raw" using assms by (simp add: slot_bytes_def)
  assume g: "handle_live a g"
  then have "nat (h_offset g) + nat (h_length g) \<le> aa_head a" by (auto simp: handle_live_def handle_ok_iff end_offset_def)
  then show "handle_live (appended raw a) g \<and> slot_bytes (appended raw a) g = slot_bytes a g"
    using g assms(2) by (auto simp: handle_live_def slot_bytes_def subbuf_overwrite_before)
qed

lemma read_tokens_slot:
  assumes "arena_inv a" "handle_live a h" "slot_bytes a h = u32_bytes ts" "h_length h = 4 * int (length ts)"
    "\<forall>t \<in> set ts. is_valid U32 t"
  shows "read_tokens a h = Inr ts"
  using assms(4) validate_handle_live [OF assms(1,2)] read_u32s_subbuf [of "nat (h_offset h)" "nat (h_length h)" "aa_bytes a" "[]" ts]
    assms(3,5) by (simp add: read_tokens_def slot_bytes_def nat_mult_distrib)

lemma read_tokens_same:
  assumes "arena_inv a" "arena_inv a'" "handle_live a h" "handle_live a' h" "slot_bytes a' h = slot_bytes a h"
  shows "read_tokens a' h = read_tokens a h"
proof -
  have n: "4 * nat (h_length h div 4) + 0 \<le> nat (h_length h)"
    using assms(3) by (simp add: handle_live_def handle_ok_iff nat_div_distrib)
  show ?thesis
    using validate_handle_live [OF assms(1,3)] validate_handle_live [OF assms(2,4)] assms(5)
      read_u32s_inside [OF n, of "nat (h_offset h)" "aa_bytes a"] read_u32s_inside [OF n, of "nat (h_offset h)" "aa_bytes a'"]
    by (simp add: read_tokens_def slot_bytes_def)
qed

lemma write_tokens_Inr:
  assumes "write_tokens a ts = Inr (h, a')"
  shows "\<forall>t \<in> set ts. is_valid U32 t" "aa_head a + length (u32_bytes ts) \<le> length (aa_bytes a)"
    "h = \<lparr>h_offset = int (aa_head a), h_length = int (length (u32_bytes ts)), h_generation = aa_generation a\<rparr>"
    "a' = appended (u32_bytes ts) a"
  using assms by (auto simp: write_tokens_def bind_r_eq_Inr mk_handle_Inr appended_def write_u32s_overwrite mult.commute
      simp del: valid_U32 split: if_splits)

interpretation token_store: payload_store arena_inv "\<lambda>ts. \<forall>t \<in> set ts. is_valid U32 t" handle_live write_tokens read_tokens
proof
  fix a ts h a'
  assume inv: "arena_inv a" and w: "write_tokens a ts = Inr (h, a')"
  note f = write_tokens_Inr [OF w] and app = appended_facts [OF inv write_tokens_Inr(2,3) [OF w]]
  show "arena_inv a'" "handle_live a' h" using app(1,2) by (simp_all add: f(4))
  show "read_tokens a' h = Inr ts" using read_tokens_slot [OF app(1,2,3) _ f(1)] by (simp add: f(3,4))
  show "handle_live a' g \<and> read_tokens a' g = read_tokens a g" if "handle_live a g" for g
    using app(4) [OF that] read_tokens_same [OF inv app(1) that] by (simp add: f(4))
qed

text \<open>A client that writes its batches one by one.\<close>

fun write_tokens_each :: "append_arena \<Rightarrow> int list list \<Rightarrow> (arena_handle list \<times> append_arena) result" where
  "write_tokens_each a [] = Inr ([], a)"
| "write_tokens_each a (ts # batches) =
     bind_r (write_tokens a ts) (\<lambda>(h, a'). bind_r (write_tokens_each a' batches) (\<lambda>(hs, a''). Inr (h # hs, a'')))"

lemma write_tokens_each_all: "write_tokens_each a batches = token_store.write_all a batches"
  by (induction batches arbitrary: a) simp_all

definition tokens_valid :: "int list \<Rightarrow> bool" where
  "tokens_valid ts \<longleftrightarrow> (\<forall>t \<in> set ts. is_valid U32 t)"

definition batch_bytes :: "int list list \<Rightarrow> nat" where
  "batch_bytes batches = sum_list (map (\<lambda>batch. length batch * 4) batches)"

lemma batch_bytes_simps [simp]: "batch_bytes [] = 0" "batch_bytes (b # bs) = length b * 4 + batch_bytes bs"
  by (simp_all add: batch_bytes_def)

lemma batch_bytes_member: "b \<in> set bs \<Longrightarrow> length b * 4 \<le> batch_bytes bs"
  by (induction bs) auto

lemma write_tokens_eq:
  assumes "arena_inv a" "tokens_valid ts" "aa_head a + length ts * 4 \<le> length (aa_bytes a)"
  shows "write_tokens a ts = bind_r (mk_handle (int (aa_head a)) (int (length ts * 4)) (aa_generation a)) (\<lambda>h.
       Inr (h, a\<lparr>aa_bytes := write_u32s (aa_head a) ts (aa_bytes a), aa_head := aa_head a + length ts * 4\<rparr>))"
    "returns (write_tokens a ts)"
  using assms by (auto simp: write_tokens_def tokens_valid_def arena_inv_def mk_handle_Inr handle_ok_iff bind_r_eq_Inr)

lemma token_batch_loop_each:
  assumes "arena_inv a" "\<forall>b \<in> set bs. tokens_valid b" "aa_head a + batch_bytes bs \<le> length (aa_bytes a)"
  shows "token_batch_loop a bs = write_tokens_each a bs \<and> returns (write_tokens_each a bs)"
  using assms
proof (induction bs arbitrary: a)
  case (Cons b bs)
  have fits: "aa_head a + length b * 4 \<le> length (aa_bytes a)" and b: "tokens_valid b" using Cons.prems by auto
  obtain h a' where w: "write_tokens a b = Inr (h, a')" using write_tokens_eq(2) [OF Cons.prems(1) b fits] by auto
  have a': "a' = a\<lparr>aa_bytes := write_u32s (aa_head a) b (aa_bytes a), aa_head := aa_head a + length b * 4\<rparr>"
    and h: "mk_handle (int (aa_head a)) (int (length b * 4)) (aa_generation a) = Inr h"
    using w unfolding write_tokens_eq(1) [OF Cons.prems(1) b fits] by (auto simp: bind_r_eq_Inr)
  have "arena_inv a'" using token_store.wr_ok [OF Cons.prems(1) _ w] b by (simp add: tokens_valid_def)
  moreover have "aa_head a' + batch_bytes bs \<le> length (aa_bytes a')"
    using Cons.prems(3) fits by (simp add: a' write_u32s_overwrite mult.commute)
  ultimately have "token_batch_loop a' bs = write_tokens_each a' bs \<and> returns (write_tokens_each a' bs)"
    using Cons by simp
  then show ?case using w h by (auto simp: a')
qed simp

lemma write_tokens_each_Inr:
  "write_tokens_each a bs = Inr r \<Longrightarrow> arena_inv a \<Longrightarrow>
   (\<forall>b \<in> set bs. tokens_valid b) \<and> aa_head a + batch_bytes bs \<le> length (aa_bytes a)"
proof (induction bs arbitrary: a r)
  case (Cons b bs)
  then obtain h a' r' where w: "write_tokens a b = Inr (h, a')" and ws: "write_tokens_each a' bs = Inr r'"
    by (auto simp: bind_r_eq_Inr)
  note f = write_tokens_Inr [OF w]
  have "arena_inv a'" using token_store.wr_ok [OF Cons.prems(2) f(1) w] .
  from Cons.IH [OF ws this] f show ?case by (auto simp: tokens_valid_def)
qed (simp add: arena_inv_def)

section \<open>Generation configurations\<close>

record draft_generation_config =
  gc_max_new_tokens :: int
  gc_proposal_depth :: int
  gc_stop_token_ids :: "int list"
  gc_eos_token_id :: "int option"

definition check_config :: "draft_generation_config \<Rightarrow> unit result" where
  "check_config c = checks
     ([check_id U32 (gc_max_new_tokens c), check_id U32 (gc_proposal_depth c),
       require (0 < gc_max_new_tokens c) (ValueError ''max_new_tokens must be positive''),
       require (0 < gc_proposal_depth c) (ValueError ''proposal_depth must be positive'')]
      @ map (check_id U32) (gc_stop_token_ids c)
      @ (case gc_eos_token_id c of None \<Rightarrow> [] | Some t \<Rightarrow> [check_id U32 t]))"

definition all_stop_token_ids :: "draft_generation_config \<Rightarrow> int set" where
  "all_stop_token_ids c = set (gc_stop_token_ids c) \<union> (case gc_eos_token_id c of None \<Rightarrow> {} | Some t \<Rightarrow> {t})"

definition config_bytes :: "draft_generation_config \<Rightarrow> bytes result" where
  "config_bytes c = bind_r (concat_r
     [pack_uint 4 (gc_max_new_tokens c), pack_uint 4 (gc_proposal_depth c),
      pack_uint 4 (case gc_eos_token_id c of None \<Rightarrow> invalid U32 | Some t \<Rightarrow> t),
      pack_uint 4 (int (length (gc_stop_token_ids c)))]) (\<lambda>header. Inr (header @ u32_bytes (gc_stop_token_ids c)))"

definition write_config :: "append_arena \<Rightarrow> draft_generation_config \<Rightarrow> (arena_handle \<times> append_arena) result" where
  "write_config a c =
     bind_r (config_bytes c) (\<lambda>raw.
     if aa_head a + length raw > length (aa_bytes a)
     then Inl (GenerationConfigArenaError ''generation config arena capacity exhausted'')
     else bind_r (mk_handle (int (aa_head a)) (int (length raw)) (aa_generation a)) (\<lambda>h.
       Inr (h, a\<lparr>aa_bytes := overwrite (aa_head a) raw (aa_bytes a), aa_head := aa_head a + length raw\<rparr>)))"

definition read_config :: "append_arena \<Rightarrow> arena_handle \<Rightarrow> draft_generation_config result" where
  "read_config a h =
     bind_r (validate_handle GenerationConfigArenaError a h) (\<lambda>_.
     if h_length h < 16 then Inl (GenerationConfigArenaError ''generation config handle is too short'')
     else let start = nat (h_offset h);
              field = (\<lambda>i. le_int (subbuf (start + 4 * i) 4 (aa_bytes a)))
       in if h_length h \<noteq> 16 + field 3 * 4 then Inl (GenerationConfigArenaError ''generation config handle length mismatch'')
          else let c = \<lparr>gc_max_new_tokens = field 0, gc_proposal_depth = field 1,
                        gc_stop_token_ids = read_u32s (start + 16) (nat (field 3)) (aa_bytes a),
                        gc_eos_token_id = (if field 2 = invalid U32 then None else Some (field 2))\<rparr>
               in bind_r (check_config c) (\<lambda>_. Inr c))"

definition config_fields :: "draft_generation_config \<Rightarrow> int list" where
  "config_fields c = [gc_max_new_tokens c, gc_proposal_depth c,
     case gc_eos_token_id c of None \<Rightarrow> invalid U32 | Some t \<Rightarrow> t, int (length (gc_stop_token_ids c))]"

lemma config_bytes_Inr:
  "config_bytes c = Inr raw \<Longrightarrow> raw = u32_bytes (config_fields c) @ u32_bytes (gc_stop_token_ids c)
     \<and> (\<forall>v \<in> set (config_fields c). 0 \<le> v \<and> v < 4294967296)"
  by (auto simp: config_bytes_def config_fields_def bind_r_eq_Inr wire_simps)

lemma le_int_field:
  assumes "subbuf p m buf = pre @ le_bytes 4 v @ post" "0 \<le> v" "v < 4294967296" "length pre + 4 \<le> m"
  shows "le_int (subbuf (p + length pre) 4 buf) = v"
proof -
  have "subbuf (length pre) 4 (subbuf p m buf) = le_bytes 4 v" unfolding assms(1) by (simp add: subbuf_def)
  then show ?thesis using assms(2-4) by (simp add: subbuf_inside)
qed

lemma read_config_slot:
  assumes inv: "arena_inv a" and live: "handle_live a h" and raw: "slot_bytes a h = raw" "config_bytes c = Inr raw"
    and len: "h_length h = int (length raw)" and c: "check_config c = Inr ()"
  shows "read_config a h = Inr c"
proof -
  let ?s = "nat (h_offset h)" and ?stops = "gc_stop_token_ids c"
  let ?eos = "case gc_eos_token_id c of None \<Rightarrow> invalid U32 | Some t \<Rightarrow> t"
  note b = config_bytes_Inr [OF raw(2)]
  have sb: "subbuf ?s (nat (h_length h)) (aa_bytes a) =
      le_bytes 4 (gc_max_new_tokens c) @ le_bytes 4 (gc_proposal_depth c) @ le_bytes 4 ?eos
      @ le_bytes 4 (int (length ?stops)) @ u32_bytes ?stops"
    using raw(1) b by (simp add: slot_bytes_def config_fields_def)
  have n: "nat (h_length h) = 16 + 4 * length ?stops" using len b by (simp add: config_fields_def)
  have f0: "le_int (subbuf (?s + 4 * 0) 4 (aa_bytes a)) = gc_max_new_tokens c"
    using le_int_field [of ?s _ "aa_bytes a" "[]"] sb b n by (simp add: config_fields_def)
  have f1: "le_int (subbuf (?s + 4 * 1) 4 (aa_bytes a)) = gc_proposal_depth c"
    using le_int_field [OF sb] b n by (simp add: config_fields_def)
  have f2: "le_int (subbuf (?s + 4 * 2) 4 (aa_bytes a)) = ?eos"
    using le_int_field [of ?s _ "aa_bytes a" "le_bytes 4 (gc_max_new_tokens c) @ le_bytes 4 (gc_proposal_depth c)"] sb b n
    by (simp add: config_fields_def)
  have f3: "le_int (subbuf (?s + 4 * 3) 4 (aa_bytes a)) = int (length ?stops)"
    using le_int_field [of ?s _ "aa_bytes a" "le_bytes 4 (gc_max_new_tokens c) @ le_bytes 4 (gc_proposal_depth c) @ le_bytes 4 ?eos"] sb b n
    by (simp add: config_fields_def)
  have st: "read_u32s (?s + 16) (length ?stops) (aa_bytes a) = ?stops"
  proof -
    have "\<forall>t \<in> set ?stops. check_id U32 t = Inr ()" using c by (simp add: check_config_def del: check_id_ok)
    then have "\<forall>t \<in> set ?stops. is_valid U32 t" by (simp only: check_id_ok)
    from read_u32s_subbuf [OF _ this, of ?s "nat (h_length h)" "aa_bytes a" "u32_bytes (config_fields c)"]
    show ?thesis using sb n by (simp add: config_fields_def)
  qed
  have eos: "(if ?eos = invalid U32 then None else Some ?eos) = gc_eos_token_id c"
    using c by (auto simp: check_config_def domain_defs split: option.splits)
  have same: "\<lparr>gc_max_new_tokens = gc_max_new_tokens c, gc_proposal_depth = gc_proposal_depth c, gc_stop_token_ids = ?stops,
      gc_eos_token_id = (if ?eos = invalid U32 then None else Some ?eos)\<rparr> = c" unfolding eos by simp
  show ?thesis
    unfolding read_config_def validate_handle_live [OF inv live] bind_r_simps Let_def f0 f1 f2 f3 nat_int st same
    using len b c by (simp add: config_fields_def)
qed

lemma read_config_same:
  assumes "arena_inv a" "arena_inv a'" "handle_live a h" "handle_live a' h" "slot_bytes a' h = slot_bytes a h"
  shows "read_config a' h = read_config a h"
proof (cases "h_length h < 16")
  case True
  then show ?thesis using validate_handle_live [OF assms(1,3)] validate_handle_live [OF assms(2,4)] by (simp add: read_config_def)
next
  case False
  let ?s = "nat (h_offset h)"
  have field: "subbuf (?s + i) 4 (aa_bytes a') = subbuf (?s + i) 4 (aa_bytes a)" if "i + 4 \<le> 16" for i
    using subbuf_inside [of i 4 "nat (h_length h)" ?s "aa_bytes a"] subbuf_inside [of i 4 "nat (h_length h)" ?s "aa_bytes a'"]
      False that assms(5) by (simp add: slot_bytes_def)
  have stops: "read_u32s (?s + 16) n (aa_bytes a') = read_u32s (?s + 16) n (aa_bytes a)" if "int (4 * n + 16) \<le> h_length h" for n
    using read_u32s_inside [of n 16 "nat (h_length h)" ?s "aa_bytes a"] read_u32s_inside [of n 16 "nat (h_length h)" ?s "aa_bytes a'"]
      that assms(5) by (simp add: slot_bytes_def)
  have f: "subbuf ?s 4 (aa_bytes a') = subbuf ?s 4 (aa_bytes a)" "subbuf (?s + 4) 4 (aa_bytes a') = subbuf (?s + 4) 4 (aa_bytes a)"
    "subbuf (?s + 8) 4 (aa_bytes a') = subbuf (?s + 8) 4 (aa_bytes a)" "subbuf (?s + 12) 4 (aa_bytes a') = subbuf (?s + 12) 4 (aa_bytes a)"
    using field [of 0] field [of 4] field [of 8] field [of 12] by simp_all
  have n: "read_u32s (?s + 16) (nat v) (aa_bytes a') = read_u32s (?s + 16) (nat v) (aa_bytes a)"
    if "h_length h = 16 + v * 4" for v
    using stops [of "nat v"] that False by simp
  show ?thesis
    using validate_handle_live [OF assms(1,3)] validate_handle_live [OF assms(2,4)] n
    by (simp add: read_config_def Let_def f)
qed

lemma write_config_Inr:
  assumes "write_config a c = Inr (h, a')"
  obtains raw where "config_bytes c = Inr raw" "aa_head a + length raw \<le> length (aa_bytes a)"
    "h = \<lparr>h_offset = int (aa_head a), h_length = int (length raw), h_generation = aa_generation a\<rparr>"
    "a' = appended raw a"
  using assms by (auto simp: write_config_def bind_r_eq_Inr mk_handle_Inr appended_def split: if_splits)

interpretation config_store: payload_store arena_inv "\<lambda>c. check_config c = Inr ()" handle_live write_config read_config
proof
  fix a c h a'
  assume inv: "arena_inv a" and c: "check_config c = Inr ()" and w: "write_config a c = Inr (h, a')"
  obtain raw where raw: "config_bytes c = Inr raw" and fits: "aa_head a + length raw \<le> length (aa_bytes a)"
    and h: "h = \<lparr>h_offset = int (aa_head a), h_length = int (length raw), h_generation = aa_generation a\<rparr>"
    and a': "a' = appended raw a" using w by (rule write_config_Inr)
  note app = appended_facts [OF inv fits h]
  show "arena_inv a'" "handle_live a' h" using app(1,2) by (simp_all add: a')
  show "read_config a' h = Inr c" using read_config_slot [OF app(1-3) raw _ c] by (simp add: h a')
  show "handle_live a' g \<and> read_config a' g = read_config a g" if "handle_live a g" for g
    using app(4) [OF that] read_config_same [OF inv app(1) that] by (simp add: a')
qed

fun write_configs_each :: "append_arena \<Rightarrow> draft_generation_config list \<Rightarrow> (arena_handle list \<times> append_arena) result" where
  "write_configs_each a [] = Inr ([], a)"
| "write_configs_each a (c # cs) =
     bind_r (write_config a c) (\<lambda>(h, a'). bind_r (write_configs_each a' cs) (\<lambda>(hs, a''). Inr (h # hs, a'')))"

lemma write_configs_each_all: "write_configs_each a cs = config_store.write_all a cs"
  by (induction cs arbitrary: a) simp_all

lemma open_arena_inv: "open_arena cap gen = Inr a \<Longrightarrow> arena_inv a"
  by (auto simp: open_arena_def bind_r_eq_Inr arena_inv_def)

text \<open>Resetting \<open>k\<close> times.\<close>

fun reset_times :: "nat \<Rightarrow> append_arena \<Rightarrow> append_arena result" where
  "reset_times 0 a = Inr a"
| "reset_times (Suc k) a = bind_r (reset_quiescent a) (reset_times k)"

lemma reset_times_Inr:
  "arena_inv a \<Longrightarrow> reset_times k a = Inr a' \<Longrightarrow> arena_inv a' \<and> aa_generation a' = advance_id U32 k (aa_generation a)"
proof (induction k arbitrary: a)
  case 0
  then show ?case by (simp add: advance_id_def arena_inv_def domain_defs)
next
  case (Suc k)
  then obtain b where b: "reset_quiescent a = Inr b" "reset_times k b = Inr a'" by (auto simp: bind_r_eq_Inr)
  have v: "is_valid U32 (aa_generation a)" using Suc.prems(1) by (simp add: arena_inv_def)
  then have b': "b = a\<lparr>aa_head := 0, aa_generation := advance_id U32 1 (aa_generation a)\<rparr>"
    using b(1) by (simp add: reset_quiescent_def next_id_advance)
  have "is_valid U32 (advance_id U32 1 (aa_generation a))"
    unfolding advance_id_def by (rule valid_mod) (simp add: max_value_def modulus_def)
  then have "arena_inv b" using Suc.prems(1) by (simp add: b' arena_inv_def)
  from Suc.IH [OF this b(2)] show ?case by (simp add: b' advance_id_def mod_simps algebra_simps)
qed

section \<open>Properties\<close>

text \<open>Token payloads written one after another to a well-formed arena all read back, in order, from the
  arena at the end, and so does everything written before them.\<close>

theorem tokens_read_back:
  assumes "arena_inv a" "write_tokens_each a batches = Inr (hs, a')"
  shows "map_r (read_tokens a') hs = Inr batches \<and> arena_inv a'
     \<and> (\<forall>g. handle_live a g \<longrightarrow> handle_live a' g \<and> read_tokens a' g = read_tokens a g)"
proof -
  have v: "\<forall>ts \<in> set batches. \<forall>t \<in> set ts. is_valid U32 t"
    using write_tokens_each_Inr [OF assms(2,1)] by (simp add: tokens_valid_def)
  note w = assms(2) [unfolded write_tokens_each_all]
  show ?thesis using token_store.write_all_reads [OF assms(1) v w] token_store.write_all_facts [OF assms(1) v w] by blast
qed

theorem tokens_read_back_witness:
  "case open_arena 40 7 of Inl _ \<Rightarrow> False | Inr a \<Rightarrow>
   (case write_tokens_each a [[1, 2], [], [70000]] of Inl _ \<Rightarrow> False
    | Inr (hs, a') \<Rightarrow> map_r (read_tokens a') hs = Inr [[1, 2], [], [70000]])"
proof -
  have "returns (open_arena 40 7)" unfolding returns_def by code_simp
  then obtain a where a: "open_arena 40 7 = Inr a" by auto
  have "returns (bind_r (open_arena 40 7) (\<lambda>a. write_tokens_each a [[1, 2], [], [70000]]))" unfolding returns_def by code_simp
  then obtain hs a' where w: "write_tokens_each a [[1, 2], [], [70000]] = Inr (hs, a')" using a by auto
  from tokens_read_back [OF open_arena_inv [OF a] w] show ?thesis using a w by simp
qed



text \<open>Generation configurations written one after another all read back equal, the empty stop list and a missing
  end-of-sequence token included.\<close>

theorem configs_read_back:
  assumes "arena_inv a" "\<forall>c \<in> set cs. check_config c = Inr ()" "write_configs_each a cs = Inr (hs, a')"
  shows "map_r (read_config a') hs = Inr cs \<and> arena_inv a'
     \<and> (\<forall>g. handle_live a g \<longrightarrow> handle_live a' g \<and> read_config a' g = read_config a g)"
proof -
  note w = assms(3) [unfolded write_configs_each_all]
  show ?thesis using config_store.write_all_reads [OF assms(1,2) w] config_store.write_all_facts [OF assms(1,2) w] by blast
qed

definition demo_config :: draft_generation_config where
  "demo_config = \<lparr>gc_max_new_tokens = 64, gc_proposal_depth = 3, gc_stop_token_ids = [2, 9], gc_eos_token_id = None\<rparr>"

theorem configs_read_back_witness:
  "case open_arena 80 1 of Inl _ \<Rightarrow> False | Inr a \<Rightarrow>
   (case write_configs_each a [demo_config, demo_config\<lparr>gc_eos_token_id := Some 5\<rparr>] of Inl _ \<Rightarrow> False
    | Inr (hs, a') \<Rightarrow> map_r (read_config a') hs = Inr [demo_config, demo_config\<lparr>gc_eos_token_id := Some 5\<rparr>])"
proof -
  let ?cs = "[demo_config, demo_config\<lparr>gc_eos_token_id := Some 5\<rparr>]"
  have "returns (open_arena 80 1)" unfolding returns_def by code_simp
  then obtain a where a: "open_arena 80 1 = Inr a" by auto
  have "returns (bind_r (open_arena 80 1) (\<lambda>a. write_configs_each a ?cs))" unfolding returns_def by code_simp
  then obtain hs a' where w: "write_configs_each a ?cs = Inr (hs, a')" using a by auto
  have c: "check_config demo_config = Inr ()" "check_config (demo_config\<lparr>gc_eos_token_id := Some 5\<rparr>) = Inr ()" by code_simp+
  from configs_read_back [OF open_arena_inv [OF a] _ w] c show ?thesis using a w by simp
qed

text \<open>A handle never outlives its generation: after between 1 and 2^32 - 2 resets, reading a token or configuration
  handle of the generation before is refused, whatever the arena holds now.\<close>

theorem stale_handles_refused:
  assumes "arena_inv a" "h_generation h = aa_generation a" "reset_times k a = Inr a'" "0 < k" "int k < max_value U32"
  shows "read_tokens a' h = Inl (TokenArenaError ''stale arena generation'')
     \<and> read_config a' h = Inl (GenerationConfigArenaError ''stale arena generation'')"
proof -
  let ?g = "aa_generation a"
  have g: "is_valid U32 ?g" using assms(1) by (simp add: arena_inv_def)
  have "advance_id U32 k ?g \<noteq> ?g" using advance_differs [OF g assms(4,5)] .
  then have "h_generation h \<noteq> aa_generation a'" using reset_times_Inr [OF assms(1,3)] assms(2) by simp
  then show ?thesis by (simp add: read_tokens_def read_config_def validate_handle_stale)
qed

theorem stale_handles_refused_witness:
  "case reset_times 2 \<lparr>aa_bytes = replicate 12 0, aa_generation = 4294967294, aa_head = 8\<rparr> of Inl _ \<Rightarrow> False
   | Inr a' \<Rightarrow> read_tokens a' \<lparr>h_offset = 0, h_length = 8, h_generation = 4294967294\<rparr> = Inl (TokenArenaError ''stale arena generation'')"
proof -
  let ?a = "\<lparr>aa_bytes = replicate 12 0, aa_generation = 4294967294, aa_head = 8\<rparr> :: append_arena"
  have "returns (reset_times 2 ?a)" unfolding returns_def by code_simp
  then obtain a' where r: "reset_times 2 ?a = Inr a'" by auto
  have "arena_inv ?a" "(2 :: int) < max_value U32" by code_simp+
  with stale_handles_refused [OF _ _ r, of "\<lparr>h_offset = 0, h_length = 8, h_generation = 4294967294\<rparr>"] r show ?thesis by simp
qed

end
