(* ===== verification/ProposalArena.thy ===== *)
theory ProposalArena
  imports AppendArenas
begin

text \<open>
  \<open>data/proposal_arena.py\<close>: the arena of Draft proposals. Payloads are appended like the other arenas' and
  must be released in the order they were written; a payload can only be read while it is live. The
  abstract view of an arena is the queue of the live handles with their payloads.
\<close>

section \<open>Payloads\<close>

datatype proposal_kind = LINEAR | DFLASH_BLOCK | TREE

fun proposal_kind_int :: "proposal_kind \<Rightarrow> int" where
  "proposal_kind_int LINEAR = 1"
| "proposal_kind_int DFLASH_BLOCK = 2"
| "proposal_kind_int TREE = 3"

definition proposal_kind_of_int :: "int \<Rightarrow> proposal_kind result" where
  "proposal_kind_of_int v = (if v = 1 then Inr LINEAR else if v = 2 then Inr DFLASH_BLOCK else if v = 3 then Inr TREE
     else Inl (ValueError ''not a valid ProposalKind''))"

record proposal_payload =
  pl_kind :: proposal_kind
  pl_draft_token_ids :: "int list"

definition check_proposal :: "proposal_payload \<Rightarrow> unit result" where
  "check_proposal p = checks (map (check_id U32) (pl_draft_token_ids p))"

definition encode_proposal :: "proposal_payload \<Rightarrow> bytes result" where
  "encode_proposal p = bind_r (concat_r [pack_uint 4 (proposal_kind_int (pl_kind p)),
     pack_uint 4 (int (length (pl_draft_token_ids p)))]) (\<lambda>header. Inr (header @ u32_bytes (pl_draft_token_ids p)))"

section \<open>The arena\<close>

record proposal_allocation =
  po_offset :: nat
  po_length :: nat
  po_generation :: int

definition po_end :: "proposal_allocation \<Rightarrow> nat" where
  "po_end al = po_offset al + po_length al"

record proposal_arena = append_arena +
  pa_tail :: nat
  pa_allocations :: "proposal_allocation list"
  pa_live_handles :: "arena_handle set"

definition open_proposal_arena :: "int \<Rightarrow> int \<Rightarrow> proposal_arena result" where
  "open_proposal_arena capacity_bytes generation =
     bind_r (checks [check_id U32 capacity_bytes, check_id ARENA_GENERATION generation,
                     require (0 < capacity_bytes) (ValueError ''capacity_bytes must be positive'')])
       (\<lambda>_. Inr \<lparr>aa_bytes = replicate (nat capacity_bytes) 0, aa_generation = generation, aa_head = 0,
                pa_tail = 0, pa_allocations = [], pa_live_handles = {}\<rparr>)"

fun prefix_offsets :: "nat \<Rightarrow> nat list \<Rightarrow> nat list" where
  "prefix_offsets offset [] = []"
| "prefix_offsets offset (n # ns) = offset # prefix_offsets (offset + n) ns"

definition reserve_many :: "proposal_arena \<Rightarrow> nat list \<Rightarrow> (nat list \<times> proposal_arena) result" where
  "reserve_many a lengths =
     bind_r (checks (map (\<lambda>n. require (0 < n) (ProposalArenaError ''proposal payload must be non-empty'')) lengths)) (\<lambda>_.
     if aa_head a + sum_list lengths > length (aa_bytes a)
     then Inl (ProposalArenaError ''proposal arena capacity exhausted; reset_quiescent is required before reuse'')
     else Inr (prefix_offsets (aa_head a) lengths, a\<lparr>aa_head := aa_head a + sum_list lengths\<rparr>))"

fun store_proposals :: "proposal_arena \<Rightarrow> (nat \<times> bytes) list \<Rightarrow> (arena_handle list \<times> proposal_arena) result" where
  "store_proposals a [] = Inr ([], a)"
| "store_proposals a ((offset, raw) # rest) =
     bind_r (mk_handle (int offset) (int (length raw)) (aa_generation a)) (\<lambda>h.
     bind_r (store_proposals
       (a\<lparr>aa_bytes := overwrite offset raw (aa_bytes a),
          pa_allocations := pa_allocations a @ [\<lparr>po_offset = offset, po_length = length raw, po_generation = aa_generation a\<rparr>],
          pa_live_handles := insert h (pa_live_handles a)\<rparr>) rest) (\<lambda>(hs, a'). Inr (h # hs, a')))"

definition write_proposals :: "proposal_arena \<Rightarrow> proposal_payload list \<Rightarrow> (arena_handle list \<times> proposal_arena) result" where
  "write_proposals a payloads =
     (if payloads = [] then Inr ([], a) else
      bind_r (map_r encode_proposal payloads) (\<lambda>raws.
      bind_r (checks (map (\<lambda>raw. require (length raw \<le> length (aa_bytes a))
                 (ProposalArenaError ''proposal payload is larger than arena capacity'')) raws)) (\<lambda>_.
      bind_r (reserve_many a (map length raws)) (\<lambda>(offsets, a'). store_proposals a' (zip offsets raws)))))"

definition write_proposal :: "proposal_arena \<Rightarrow> proposal_payload \<Rightarrow> (arena_handle \<times> proposal_arena) result" where
  "write_proposal a payload = bind_r (write_proposals a [payload]) (\<lambda>(hs, a'). Inr (hd hs, a'))"

definition handle_matches :: "arena_handle \<Rightarrow> proposal_allocation \<Rightarrow> bool" where
  "handle_matches h al \<longleftrightarrow> h_offset h = int (po_offset al) \<and> h_length h = int (po_length al) \<and> h_generation h = po_generation al"

fun check_releases :: "proposal_arena \<Rightarrow> (arena_handle \<times> proposal_allocation) list \<Rightarrow> unit result" where
  "check_releases a [] = Inr ()"
| "check_releases a ((h, al) # rest) =
     bind_r (validate_handle ProposalArenaError a h) (\<lambda>_.
     bind_r (require (handle_matches h al) (ProposalArenaError ''proposal arena releases must follow FIFO order'')) (\<lambda>_.
     check_releases a rest))"

text \<open>The second loop of \<open>release_many\<close>: \<open>popleft\<close> and \<open>set.remove\<close>, which raises on a missing handle.\<close>

fun pop_releases :: "proposal_arena \<Rightarrow> arena_handle list \<Rightarrow> proposal_arena result" where
  "pop_releases a [] = Inr a"
| "pop_releases a (h # hs) =
     (case pa_allocations a of
        [] \<Rightarrow> Inl (IndexError ''pop from an empty deque'')
      | al # als \<Rightarrow>
          if h \<notin> pa_live_handles a then Inl (KeyError ''live handle'')
          else pop_releases (a\<lparr>pa_allocations := als, pa_live_handles := pa_live_handles a - {h}, pa_tail := po_end al\<rparr>) hs)"

definition release_many :: "proposal_arena \<Rightarrow> arena_handle list \<Rightarrow> proposal_arena result" where
  "release_many a handles =
     (if handles = [] then Inr a
      else if length handles > length (pa_allocations a)
      then Inl (ProposalArenaError ''proposal arena has fewer live allocations than requested releases'')
      else bind_r (check_releases a (zip handles (pa_allocations a))) (\<lambda>_.
           bind_r (pop_releases a handles) (\<lambda>a'.
             Inr (if pa_allocations a' = [] then a'\<lparr>pa_tail := aa_head a'\<rparr> else a'))))"

definition reset_proposals :: "proposal_arena \<Rightarrow> proposal_arena result" where
  "reset_proposals a =
     bind_r (require (pa_allocations a = []) (ProposalArenaError ''cannot reset proposal arena with live allocations'')) (\<lambda>_.
     bind_r (next_id ARENA_GENERATION (aa_generation a)) (\<lambda>g.
       Inr (a\<lparr>aa_head := 0, pa_tail := 0, pa_live_handles := {}, aa_generation := g\<rparr>)))"

definition read_proposal :: "proposal_arena \<Rightarrow> arena_handle \<Rightarrow> proposal_payload result" where
  "read_proposal a h =
     bind_r (validate_handle ProposalArenaError a h) (\<lambda>_.
     bind_r (require (h \<in> pa_live_handles a) (ProposalArenaError ''proposal handle does not match a live allocation'')) (\<lambda>_.
     if h_length h < 8 then Inl (ProposalArenaError ''proposal handle is too short'')
     else let start = nat (h_offset h); count = le_int (subbuf (start + 4) 4 (aa_bytes a))
       in if h_length h \<noteq> 8 + count * 4 then Inl (ProposalArenaError ''proposal handle length mismatch'')
          else bind_r (proposal_kind_of_int (le_int (subbuf start 4 (aa_bytes a)))) (\<lambda>kind.
               let p = \<lparr>pl_kind = kind, pl_draft_token_ids = read_u32s (start + 8) (nat count) (aa_bytes a)\<rparr>
               in bind_r (check_proposal p) (\<lambda>_. Inr p))))"

section \<open>The queue an arena stands for\<close>

type_synonym live_queue = "(arena_handle \<times> proposal_payload) list"

definition allocation_of :: "arena_handle \<Rightarrow> proposal_allocation" where
  "allocation_of h = \<lparr>po_offset = nat (h_offset h), po_length = nat (h_length h), po_generation = h_generation h\<rparr>"

text \<open>A live entry: its handle lies below the head and the bytes it names are the payload's.\<close>

definition entry_ok :: "proposal_arena \<Rightarrow> arena_handle \<times> proposal_payload \<Rightarrow> bool" where
  "entry_ok a e \<longleftrightarrow> handle_live a (fst e) \<and> 0 < h_length (fst e) \<and> check_proposal (snd e) = Inr ()
     \<and> encode_proposal (snd e) = Inr (slot_bytes a (fst e))"

definition represents :: "proposal_arena \<Rightarrow> live_queue \<Rightarrow> bool" where
  "represents a q \<longleftrightarrow> arena_inv a \<and> pa_allocations a = map (\<lambda>e. allocation_of (fst e)) q \<and> pa_live_handles a = fst ` set q
     \<and> sorted_wrt (\<lambda>e f. end_offset (fst e) \<le> h_offset (fst f)) q \<and> (\<forall>e \<in> set q. entry_ok a e)"

lemma encode_proposal_Inr:
  "encode_proposal p = Inr raw \<Longrightarrow>
   raw = le_bytes 4 (proposal_kind_int (pl_kind p)) @ le_bytes 4 (int (length (pl_draft_token_ids p))) @ u32_bytes (pl_draft_token_ids p)
   \<and> length (pl_draft_token_ids p) < 4294967296"
  by (auto simp: encode_proposal_def bind_r_eq_Inr wire_simps)

lemma proposal_kind_roundtrip [simp]: "proposal_kind_of_int (proposal_kind_int k) = Inr k"
  by (cases k) (simp_all add: proposal_kind_of_int_def)

lemma proposal_kind_range [simp]: "0 \<le> proposal_kind_int k" "proposal_kind_int k < 4294967296"
  by (cases k; simp)+

lemma read_proposal_entry:
  assumes "represents a q" "e \<in> set q"
  shows "read_proposal a (fst e) = Inr (snd e)"
proof -
  obtain h p where e: "e = (h, p)" by (cases e)
  have inv: "arena_inv a" and live: "handle_live a h" and c: "check_proposal p = Inr ()"
    and enc: "encode_proposal p = Inr (slot_bytes a h)" and mem: "h \<in> pa_live_handles a" and hl: "handle_ok h"
    using assms by (force simp: represents_def entry_ok_def e handle_live_def)+
  let ?s = "nat (h_offset h)" and ?ts = "pl_draft_token_ids p"
  note raw = encode_proposal_Inr [OF enc]
  have sb: "subbuf ?s (nat (h_length h)) (aa_bytes a) =
      le_bytes 4 (proposal_kind_int (pl_kind p)) @ le_bytes 4 (int (length ?ts)) @ u32_bytes ?ts"
    using raw by (simp add: slot_bytes_def)
  have "?s + nat (h_length h) \<le> length (aa_bytes a)"
    using inv live by (auto simp: arena_inv_def handle_live_def end_offset_def handle_ok_iff)
  then have nl: "nat (h_length h) = 8 + 4 * length ?ts" using arg_cong [OF sb, of length] by simp
  with hl have n: "h_length h = 8 + 4 * int (length ?ts)" by (simp add: handle_ok_iff)
  have f0: "le_int (subbuf ?s 4 (aa_bytes a)) = proposal_kind_int (pl_kind p)"
    using le_int_field [of ?s _ "aa_bytes a" "[]"] sb n by simp
  have f1: "le_int (subbuf (?s + 4) 4 (aa_bytes a)) = int (length ?ts)"
    using le_int_field [OF sb] n raw by simp
  have "\<forall>t \<in> set ?ts. check_id U32 t = Inr ()" using c by (simp add: check_proposal_def del: check_id_ok)
  then have valid: "\<forall>t \<in> set ?ts. is_valid U32 t" by (simp only: check_id_ok)
  let ?pre = "le_bytes 4 (proposal_kind_int (pl_kind p)) @ le_bytes 4 (int (length ?ts))"
  have pre: "length ?pre = 8" by simp
  have "subbuf ?s (8 + 4 * length ?ts) (aa_bytes a) = ?pre @ u32_bytes ?ts" using sb unfolding nl append_assoc .
  then have ts: "read_u32s (?s + 8) (length ?ts) (aa_bytes a) = ?ts"
    using read_u32s_subbuf [OF _ valid, of ?s "8 + 4 * length ?ts" "aa_bytes a" ?pre] unfolding pre by blast
  have same: "\<lparr>pl_kind = pl_kind p, pl_draft_token_ids = ?ts\<rparr> = p" by simp
  show ?thesis
    using validate_handle_live [OF inv live] mem n c
    by (simp add: e read_proposal_def Let_def f0 f1 ts same)
qed

lemma read_proposal_dead:
  assumes "represents a q" "h \<notin> fst ` set q"
  shows "\<exists>e. read_proposal a h = Inl e"
  using assms result_unit_cases [of "validate_handle ProposalArenaError a h"]
  by (auto simp: read_proposal_def represents_def)

section \<open>Writing\<close>

text \<open>The loop stores one payload after another at the offsets reserved for them.\<close>

definition stored :: "proposal_arena \<Rightarrow> nat \<Rightarrow> bytes \<Rightarrow> arena_handle \<Rightarrow> proposal_arena" where
  "stored a offset raw h = a\<lparr>aa_bytes := overwrite offset raw (aa_bytes a),
     pa_allocations := pa_allocations a @ [\<lparr>po_offset = offset, po_length = length raw, po_generation = aa_generation a\<rparr>],
     pa_live_handles := insert h (pa_live_handles a)\<rparr>"

lemma stored_represents:
  assumes rep: "represents a q" and below: "\<forall>e \<in> set q. end_offset (fst e) \<le> int offset"
    and fits: "offset + length raw \<le> aa_head a" and raw: "encode_proposal p = Inr raw" "check_proposal p = Inr ()"
    and h: "h = \<lparr>h_offset = int offset, h_length = int (length raw), h_generation = aa_generation a\<rparr>"
  shows "represents (stored a offset raw h) (q @ [(h, p)])" "end_offset h = int (offset + length raw)"
    "aa_head (stored a offset raw h) = aa_head a" "aa_generation (stored a offset raw h) = aa_generation a"
    "length (aa_bytes (stored a offset raw h)) = length (aa_bytes a)"
proof -
  let ?a = "stored a offset raw h"
  have inv: "arena_inv a" using rep by (simp add: represents_def)
  then have room: "offset + length raw \<le> length (aa_bytes a)" using fits by (simp add: arena_inv_def)
  show facts: "aa_head ?a = aa_head a" "aa_generation ?a = aa_generation a" "length (aa_bytes ?a) = length (aa_bytes a)"
    and eh: "end_offset h = int (offset + length raw)"
    using room by (simp_all add: stored_def h end_offset_def)
  have inv': "arena_inv ?a" using inv facts by (simp add: arena_inv_def)
  have live: "handle_live ?a h"
    using inv fits room facts eh by (simp add: handle_live_def arena_inv_def handle_ok_iff h)
  have bytes: "slot_bytes ?a h = raw" using room by (simp add: slot_bytes_def stored_def h)
  have keep: "entry_ok ?a e" if "e \<in> set q" for e
  proof -
    have e: "entry_ok a e" and le: "end_offset (fst e) \<le> int offset" using rep below that by (auto simp: represents_def)
    then have "nat (h_offset (fst e)) + nat (h_length (fst e)) \<le> offset"
      by (auto simp: entry_ok_def handle_live_def handle_ok_iff end_offset_def)
    then have "slot_bytes ?a (fst e) = slot_bytes a (fst e)"
      using room by (simp add: slot_bytes_def stored_def subbuf_overwrite_before)
    with e show ?thesis using facts by (simp add: entry_ok_def handle_live_def)
  qed
  have "0 < length raw" using encode_proposal_Inr [OF raw(1)] by simp
  then have new: "entry_ok ?a (h, p)" using live bytes raw by (simp add: entry_ok_def h)
  have al: "allocation_of h = \<lparr>po_offset = offset, po_length = length raw, po_generation = aa_generation a\<rparr>"
    by (simp add: allocation_of_def h)
  show "represents ?a (q @ [(h, p)])"
    unfolding represents_def
  proof (intro conjI)
    show "pa_allocations ?a = map (\<lambda>e. allocation_of (fst e)) (q @ [(h, p)])" "pa_live_handles ?a = fst ` set (q @ [(h, p)])"
      using rep by (simp_all add: represents_def stored_def al)
    show "sorted_wrt (\<lambda>e f. end_offset (fst e) \<le> h_offset (fst f)) (q @ [(h, p)])"
      using rep below by (simp add: represents_def sorted_wrt_append h)
  qed (use inv' keep new in auto)
qed

lemma store_proposals_represents:
  assumes "represents a q" "\<forall>e \<in> set q. end_offset (fst e) \<le> int offset"
    and "offset + sum_list (map length raws) \<le> aa_head a"
    and "list_all2 (\<lambda>p raw. encode_proposal p = Inr raw) ps raws" "\<forall>p \<in> set ps. check_proposal p = Inr ()"
    and "store_proposals a (zip (prefix_offsets offset (map length raws)) raws) = Inr (hs, a')"
  shows "represents a' (q @ zip hs ps) \<and> length hs = length ps"
  using assms
proof (induction raws arbitrary: a q offset ps hs)
  case (Cons raw raws)
  then obtain p ps' where ps: "ps = p # ps'" and p: "encode_proposal p = Inr raw" "check_proposal p = Inr ()"
    and rest: "list_all2 (\<lambda>p raw. encode_proposal p = Inr raw) ps' raws" "\<forall>p \<in> set ps'. check_proposal p = Inr ()"
    by (cases ps) auto
  from Cons.prems(6) obtain h hs' where mk: "mk_handle (int offset) (int (length raw)) (aa_generation a) = Inr h"
    and st: "store_proposals (stored a offset raw h) (zip (prefix_offsets (offset + length raw) (map length raws)) raws) = Inr (hs', a')"
    and hs: "hs = h # hs'" by (auto simp: bind_r_eq_Inr stored_def)
  have h: "h = \<lparr>h_offset = int offset, h_length = int (length raw), h_generation = aa_generation a\<rparr>"
    using mk by (simp add: mk_handle_Inr)
  have fits: "offset + length raw \<le> aa_head a" using Cons.prems(3) by simp
  note s = stored_represents [OF Cons.prems(1,2) fits p h]
  have "\<forall>e \<in> set (q @ [(h, p)]). end_offset (fst e) \<le> int (offset + length raw)"
    using Cons.prems(2) s(2) by auto
  from Cons.IH [OF s(1) this _ rest st] Cons.prems(3) s(3) show ?case by (simp add: ps hs)
qed simp

lemma write_proposals_represents:
  assumes rep: "represents a q" and c: "\<forall>p \<in> set ps. check_proposal p = Inr ()" and w: "write_proposals a ps = Inr (hs, a')"
  shows "represents a' (q @ zip hs ps)" "length hs = length ps"
proof -
  have "represents a' (q @ zip hs ps) \<and> length hs = length ps"
  proof (cases "ps = []")
    case False
    then obtain raws offsets b where raws: "map_r encode_proposal ps = Inr raws"
      and r: "reserve_many a (map length raws) = Inr (offsets, b)" and st: "store_proposals b (zip offsets raws) = Inr (hs, a')"
      using w by (auto simp: write_proposals_def bind_r_eq_Inr)
    have b: "b = a\<lparr>aa_head := aa_head a + sum_list (map length raws)\<rparr>" "offsets = prefix_offsets (aa_head a) (map length raws)"
      and room: "aa_head a + sum_list (map length raws) \<le> length (aa_bytes a)"
      using r by (auto simp: reserve_many_def bind_r_eq_Inr split: if_splits)
    have "entry_ok b e" if "entry_ok a e" for e using that by (auto simp: b entry_ok_def handle_live_def slot_bytes_def)
    then have repb: "represents b q" using rep room by (auto simp: represents_def arena_inv_def b)
    have below: "\<forall>e \<in> set q. end_offset (fst e) \<le> int (aa_head a)"
      using rep by (auto simp: represents_def entry_ok_def handle_live_def)
    from store_proposals_represents [OF repb below _ _ c, of raws hs a'] raws st b
    show ?thesis by (auto simp: map_r_Inr)
  qed (use w rep in \<open>auto simp: write_proposals_def\<close>)
  then show "represents a' (q @ zip hs ps)" "length hs = length ps" by blast+
qed

section \<open>Releasing\<close>

lemma handle_matches_iff: "handle_ok h' \<Longrightarrow> handle_matches h (allocation_of h') \<longleftrightarrow> h = h'"
  by (cases h; cases h') (auto simp: handle_matches_def allocation_of_def handle_ok_iff)

lemma represents_Cons:
  assumes "represents a (e # q)"
  shows "handle_ok (fst e)" "handle_live a (fst e)" "fst e \<notin> fst ` set q" "pa_allocations a = allocation_of (fst e) # map (\<lambda>e. allocation_of (fst e)) q"
    "fst e \<in> pa_live_handles a"
    "represents (a\<lparr>pa_allocations := map (\<lambda>e. allocation_of (fst e)) q, pa_live_handles := pa_live_handles a - {fst e}, pa_tail := t\<rparr>) q"
proof -
  have ok: "entry_ok a e" and later: "\<forall>f \<in> set q. end_offset (fst e) \<le> h_offset (fst f)"
    using assms by (auto simp: represents_def)
  then show "handle_ok (fst e)" "handle_live a (fst e)" by (simp_all add: entry_ok_def handle_live_def)
  have "h_offset (fst e) < end_offset (fst e)" using ok by (simp add: entry_ok_def end_offset_def)
  then show notin: "fst e \<notin> fst ` set q" using later by force
  show "pa_allocations a = allocation_of (fst e) # map (\<lambda>e. allocation_of (fst e)) q" "fst e \<in> pa_live_handles a"
    using assms by (simp_all add: represents_def)
  have "entry_ok (a\<lparr>pa_allocations := als, pa_live_handles := hs, pa_tail := t\<rparr>) f = entry_ok a f" for als hs f
    by (simp add: entry_ok_def handle_live_def slot_bytes_def)
  then show "represents (a\<lparr>pa_allocations := map (\<lambda>e. allocation_of (fst e)) q, pa_live_handles := pa_live_handles a - {fst e}, pa_tail := t\<rparr>) q"
    using assms notin by (auto simp: represents_def arena_inv_def)
qed

lemma check_releases_ok:
  assumes "represents a q" "length hs \<le> length q" "\<forall>e \<in> set q. handle_live b (fst e)" "arena_inv b"
  shows "check_releases b (zip hs (map (\<lambda>e. allocation_of (fst e)) q)) = Inr () \<longleftrightarrow> hs = map fst (take (length hs) q)"
  using assms(2,3)
proof (induction hs arbitrary: q)
  case (Cons h hs)
  then obtain e q' where q: "q = e # q'" by (cases q) auto
  have ok: "handle_ok (fst e)" and live: "handle_live b (fst e)" using Cons.prems(2) by (auto simp: q handle_live_def)
  have "check_releases b (zip (h # hs) (map (\<lambda>e. allocation_of (fst e)) q)) = Inr ()
      \<longleftrightarrow> h = fst e \<and> check_releases b (zip hs (map (\<lambda>e. allocation_of (fst e)) q')) = Inr ()"
    using validate_handle_live [OF assms(4) live] handle_matches_iff [OF ok]
    by (auto simp: q bind_r_eq_Inr)
  then show ?case using Cons.IH [of q'] Cons.prems by (simp add: q)
qed simp

lemma pop_releases_prefix:
  assumes "represents a q" "n \<le> length q"
  shows "\<exists>a'. pop_releases a (map fst (take n q)) = Inr a' \<and> represents a' (drop n q)"
  using assms
proof (induction n arbitrary: a q)
  case (Suc n)
  then obtain e q' where q: "q = e # q'" by (cases q) auto
  note c = represents_Cons [OF Suc.prems(1) [unfolded q]]
  from Suc.IH [OF c(6) [of "po_end (allocation_of (fst e))"]] Suc.prems(2)
  show ?case by (simp add: q c(4,5))
qed simp

lemma release_many_prefix:
  assumes "represents a q"
  shows "if hs = map fst (take (length hs) q)
         then \<exists>a'. release_many a hs = Inr a' \<and> represents a' (drop (length hs) q)
         else \<exists>e. release_many a hs = Inl e"
proof (cases "hs = [] \<or> length q < length hs")
  case True
  moreover have "pa_allocations a = map (\<lambda>e. allocation_of (fst e)) q" using assms by (simp add: represents_def)
  moreover have "hs \<noteq> map fst (take (length hs) q)" if "length q < length hs"
    using that by (metis length_map length_take min_less_iff_conj not_less_iff_gr_or_eq)
  ultimately show ?thesis using assms by (auto simp: release_many_def)
next
  case False
  have al: "pa_allocations a = map (\<lambda>e. allocation_of (fst e)) q" and inv: "arena_inv a"
    and live: "\<forall>e \<in> set q. handle_live a (fst e)" using assms by (auto simp: represents_def entry_ok_def)
  have n: "length hs \<le> length q" using False by simp
  note c = check_releases_ok [OF assms n live inv]
  show ?thesis
  proof (cases "hs = map fst (take (length hs) q)")
    case True
    obtain b where b: "pop_releases a hs = Inr b" "represents b (drop (length hs) q)"
      using pop_releases_prefix [OF assms n] True by auto
    have "represents (b\<lparr>pa_tail := t\<rparr>) (drop (length hs) q)" for t
      using b(2) by (auto simp: represents_def arena_inv_def entry_ok_def handle_live_def slot_bytes_def)
    then show ?thesis using True False c b al by (simp add: release_many_def)
  next
    case no: False
    then have "\<exists>e. check_releases a (zip hs (map (\<lambda>e. allocation_of (fst e)) q)) = Inl e"
      using c result_unit_cases [of "check_releases a (zip hs (map (\<lambda>e. allocation_of (fst e)) q))"] by blast
    then show ?thesis using no False al by (auto simp: release_many_def)
  qed
qed

lemma reset_proposals_represents:
  assumes "represents a q"
  shows "case reset_proposals a of Inr a' \<Rightarrow> q = [] \<and> represents a' [] \<and> aa_generation a' = advance_id U32 1 (aa_generation a)
         | Inl e \<Rightarrow> q \<noteq> []"
proof -
  have al: "pa_allocations a = map (\<lambda>e. allocation_of (fst e)) q" and inv: "arena_inv a" using assms by (auto simp: represents_def)
  have g: "is_valid U32 (aa_generation a)" using inv by (simp add: arena_inv_def)
  have "is_valid U32 (advance_id U32 1 (aa_generation a))"
    unfolding advance_id_def by (rule valid_mod) (simp add: max_value_def modulus_def)
  then show ?thesis using al inv next_id_advance [OF g]
    by (simp add: reset_proposals_def require_def represents_def arena_inv_def)
qed

section \<open>Histories\<close>

datatype proposal_op =
    PWrite "proposal_payload list"
  | PRelease "arena_handle list"
  | PReset

text \<open>One step of an arena beside the queue of what it returned and was given back; an operation that raises
  changes neither.\<close>

fun proposal_step :: "proposal_arena \<times> live_queue \<Rightarrow> proposal_op \<Rightarrow> proposal_arena \<times> live_queue" where
  "proposal_step (a, q) (PWrite ps) = (case write_proposals a ps of Inl _ \<Rightarrow> (a, q) | Inr (hs, a') \<Rightarrow> (a', q @ zip hs ps))"
| "proposal_step (a, q) (PRelease hs) = (case release_many a hs of Inl _ \<Rightarrow> (a, q) | Inr a' \<Rightarrow> (a', drop (length hs) q))"
| "proposal_step (a, q) PReset = (case reset_proposals a of Inl _ \<Rightarrow> (a, q) | Inr a' \<Rightarrow> (a', q))"

fun op_payloads_ok :: "proposal_op \<Rightarrow> bool" where
  "op_payloads_ok (PWrite ps) \<longleftrightarrow> (\<forall>p \<in> set ps. check_proposal p = Inr ())"
| "op_payloads_ok _ \<longleftrightarrow> True"

definition proposal_run :: "proposal_arena \<Rightarrow> proposal_op list \<Rightarrow> proposal_arena \<times> live_queue" where
  "proposal_run a ops = foldl proposal_step (a, []) ops"

lemma proposal_step_represents:
  assumes "represents a q" "op_payloads_ok op" "proposal_step (a, q) op = (a', q')"
  shows "represents a' q'"
proof (cases op)
  case (PWrite ps)
  then show ?thesis using assms write_proposals_represents [OF assms(1)] by (auto split: sum.splits)
next
  case (PRelease hs)
  then show ?thesis using assms release_many_prefix [OF assms(1), of hs] by (auto split: sum.splits if_splits)
next
  case PReset
  then show ?thesis using assms reset_proposals_represents [OF assms(1)] by (auto split: sum.splits)
qed

lemma proposal_run_represents:
  assumes "open_proposal_arena cap gen = Inr a" "\<forall>op \<in> set ops. op_payloads_ok op" "proposal_run a ops = (a', q)"
  shows "represents a' q"
proof -
  have init: "represents a []"
    using assms(1) by (auto simp: open_proposal_arena_def bind_r_eq_Inr represents_def arena_inv_def)
  have "represents b r \<Longrightarrow> \<forall>op \<in> set ops. op_payloads_ok op \<Longrightarrow> foldl proposal_step (b, r) ops = (a', q) \<Longrightarrow> represents a' q" for b r
  proof (induction ops arbitrary: b r)
    case (Cons op ops)
    obtain b' r' where s: "proposal_step (b, r) op = (b', r')" by (cases "proposal_step (b, r) op")
    from Cons.IH [OF proposal_step_represents [OF Cons.prems(1) _ s]] Cons.prems s show ?case by simp
  qed simp
  then show ?thesis using init assms(2,3) by (simp add: proposal_run_def)
qed

section \<open>Properties\<close>

text \<open>C36: the proposal arena is a FIFO queue of payloads: in every history of writes, releases and resets, a live
  handle reads back the payload it was returned for, every other handle is refused, a release succeeds
  exactly for a prefix of the live handles in the order they were written, and a reset exactly when
  nothing is live.\<close>

theorem proposal_arena_fifo:
  assumes "open_proposal_arena cap gen = Inr a" "\<forall>op \<in> set ops. op_payloads_ok op" "proposal_run a ops = (a', q)"
  shows "(\<forall>(h, p) \<in> set q. read_proposal a' h = Inr p)
     \<and> (\<forall>h. h \<notin> fst ` set q \<longrightarrow> (\<exists>e. read_proposal a' h = Inl e))
     \<and> (\<forall>hs. returns (release_many a' hs) \<longleftrightarrow> hs = map fst (take (length hs) q))
     \<and> (returns (reset_proposals a') \<longleftrightarrow> q = [])"
proof -
  note rep = proposal_run_represents [OF assms]
  have "returns (release_many a' hs) \<longleftrightarrow> hs = map fst (take (length hs) q)" for hs
    using release_many_prefix [OF rep, of hs] by (auto split: if_splits)
  moreover have "returns (reset_proposals a') \<longleftrightarrow> q = []"
    using reset_proposals_represents [OF rep] by (auto split: sum.splits)
  ultimately show ?thesis using read_proposal_entry [OF rep] read_proposal_dead [OF rep] by fastforce
qed

definition demo_proposal :: proposal_payload where
  "demo_proposal = \<lparr>pl_kind = LINEAR, pl_draft_token_ids = [11, 12]\<rparr>"

theorem proposal_arena_fifo_witness:
  "case open_proposal_arena 64 3 of Inl _ \<Rightarrow> False | Inr a \<Rightarrow>
   (case proposal_run a [PWrite [demo_proposal], PWrite [demo_proposal\<lparr>pl_kind := TREE\<rparr>], PRelease [\<lparr>h_offset = 0, h_length = 16, h_generation = 3\<rparr>]] of
      (a', q) \<Rightarrow> \<forall>(h, p) \<in> set q. read_proposal a' h = Inr p)"
proof -
  let ?ops = "[PWrite [demo_proposal], PWrite [demo_proposal\<lparr>pl_kind := TREE\<rparr>], PRelease [\<lparr>h_offset = 0, h_length = 16, h_generation = 3\<rparr>]]"
  have "returns (open_proposal_arena 64 3)" unfolding returns_def by code_simp
  then obtain a where a: "open_proposal_arena 64 3 = Inr a" by auto
  obtain a' q where r: "proposal_run a ?ops = (a', q)" by (cases "proposal_run a ?ops")
  have "\<forall>op \<in> set ?ops. op_payloads_ok op" by (simp add: check_proposal_def demo_proposal_def)
  from proposal_arena_fifo [OF a this r] show ?thesis using a r by simp
qed

end
