(* ===== verification/SwiftBatch.thy ===== *)
theory SwiftBatch
  imports Speculative
begin

text \<open>
  \<open>swiftLLM/swiftllm/server/structs.py\<close>, \<open>backend_local.py\<close>: the requests of the SwiftLLM engine, the manager of
  their block-table rows and the plan of one forward pass. Requests are mutable objects shared by
  queues, batches and plans; here a request is a reference into a store and the queues hold references.
\<close>

section \<open>Requests\<close>

record swift_request = spec_request +
  rq_prompt_token_ids :: "token list"
  rq_output_len :: int
  rq_stop_token_ids :: "token list"
  rq_request_id :: int
  rq_spec_proposal :: "draft_proposal option"
  rq_output_q :: "token list"
  rq_finished_event :: bool
  rq_num_draft_tokens :: int
  rq_num_accepted_tokens :: int
  rq_num_spec_steps :: int

type_synonym request_ref = nat
type_synonym request_store = "request_ref \<Rightarrow> swift_request"

definition new_swift_request :: "int \<Rightarrow> token list \<Rightarrow> swift_request result" where
  "new_swift_request output_len stops =
     bind_r (require (\<forall>t \<in> set stops. 0 \<le> t) (ValueError ''stop_token_ids must be non-negative'')) (\<lambda>_.
     Inr \<lparr>sp_prompt_len = 0, sp_output_token_ids = [], rq_prompt_token_ids = [], rq_output_len = output_len,
          rq_stop_token_ids = stops, rq_request_id = -1, rq_spec_proposal = None, rq_output_q = [],
          rq_finished_event = False, rq_num_draft_tokens = 0, rq_num_accepted_tokens = 0, rq_num_spec_steps = 0\<rparr>)"

text \<open>What the tokenizer loop of the engine sets before the scheduler sees the request.\<close>

definition tokenized :: "token list \<Rightarrow> swift_request \<Rightarrow> swift_request" where
  "tokenized prompt r = r\<lparr>rq_prompt_token_ids := prompt, sp_prompt_len := length prompt\<rparr>"

definition is_finished :: "swift_request \<Rightarrow> bool" where
  "is_finished r \<longleftrightarrow> int (length (sp_output_token_ids r)) \<ge> rq_output_len r
     \<or> (sp_output_token_ids r \<noteq> [] \<and> last (sp_output_token_ids r) \<in> set (rq_stop_token_ids r))"

definition is_prefill_stage :: "swift_request \<Rightarrow> bool" where
  "is_prefill_stage r \<longleftrightarrow> sp_output_token_ids r = []"

definition next_input_token :: "swift_request \<Rightarrow> token result" where
  "next_input_token r = (if sp_output_token_ids r = [] then Inl (RuntimeError ''Request has no output token anchor yet'')
     else Inr (last (sp_output_token_ids r)))"

definition logical_decode_seq_len :: "swift_request \<Rightarrow> nat" where
  "logical_decode_seq_len r = sp_prompt_len r + length (sp_output_token_ids r)"

definition logical_kv_len_after_current_state :: "swift_request \<Rightarrow> nat" where
  "logical_kv_len_after_current_state r = sp_prompt_len r + max 0 (length (sp_output_token_ids r) - 1)"

section \<open>Block-table rows\<close>

text \<open>\<open>RequestIdManager\<close>: the free rows, taken from the end of the list.\<close>

record id_manager =
  im_max_id :: int
  im_available :: "int list"

definition new_id_manager :: "int \<Rightarrow> id_manager" where
  "new_id_manager max_id = \<lparr>im_max_id = max_id, im_available = rev (map int [0..<nat max_id])\<rparr>"

definition get_id :: "id_manager \<Rightarrow> (int \<times> id_manager) result" where
  "get_id m = (if im_available m = [] then Inl (RuntimeError ''No more available request ids. Please increase max_seqs_in_block_table'')
     else Inr (last (im_available m), m\<lparr>im_available := butlast (im_available m)\<rparr>))"

definition free_id :: "id_manager \<Rightarrow> int \<Rightarrow> id_manager result" where
  "free_id m i = (if i < 0 \<or> im_max_id m \<le> i then Inl (ValueError ''request id is out of range'')
     else if i \<in> set (im_available m) then Inl (RuntimeError ''request id is already free'')
     else Inr (m\<lparr>im_available := im_available m @ [i]\<rparr>))"

text \<open>\<open>free_ids\<close> frees one by one; what was freed before an error stays freed.\<close>

fun free_ids :: "id_manager \<Rightarrow> int list \<Rightarrow> unit result \<times> id_manager" where
  "free_ids m [] = (Inr (), m)"
| "free_ids m (i # is) = (case free_id m i of Inl e \<Rightarrow> (Inl e, m) | Inr m' \<Rightarrow> free_ids m' is)"

definition taken_ids :: "id_manager \<Rightarrow> int set \<Rightarrow> bool" where
  "taken_ids m used \<longleftrightarrow> distinct (im_available m) \<and> set (im_available m) \<inter> used = {}
     \<and> set (im_available m) \<union> used = {0..<im_max_id m}"

lemma new_id_manager_taken: "taken_ids (new_id_manager n) {}"
  by (cases "0 \<le> n") (simp_all add: taken_ids_def new_id_manager_def distinct_map image_int_atLeastLessThan)

lemma get_id_taken:
  assumes "taken_ids m used" "get_id m = Inr (i, m')"
  shows "i \<notin> used" "taken_ids m' (insert i used)"
proof -
  obtain xs where xs: "im_available m = xs @ [i]" and m': "m' = m\<lparr>im_available := xs\<rparr>"
    using assms(2) by (auto simp: get_id_def split: if_splits) (metis append_butlast_last_id)
  show "i \<notin> used" using assms(1) by (auto simp: taken_ids_def xs)
  show "taken_ids m' (insert i used)" using assms(1) by (auto simp: taken_ids_def xs m')
qed

lemma free_id_taken:
  assumes "taken_ids m used" "i \<in> used"
  shows "\<exists>m'. free_id m i = Inr m' \<and> taken_ids m' (used - {i})"
proof -
  have "0 \<le> i" "i < im_max_id m" "i \<notin> set (im_available m)" using assms by (auto simp: taken_ids_def)
  then show ?thesis using assms by (auto simp: free_id_def taken_ids_def)
qed

lemma free_ids_taken:
  "taken_ids m used \<Longrightarrow> distinct is \<Longrightarrow> set is \<subseteq> used \<Longrightarrow>
   \<exists>m'. free_ids m is = (Inr (), m') \<and> taken_ids m' (used - set is)"
proof (induction "is" arbitrary: m used)
  case (Cons i "is")
  obtain m' where m': "free_id m i = Inr m'" "taken_ids m' (used - {i})" using free_id_taken [OF Cons.prems(1)] Cons.prems(3) by auto
  have "distinct is" "set is \<subseteq> used - {i}" using Cons.prems by auto
  from Cons.IH [OF m'(2) this] obtain m'' where "free_ids m' is = (Inr (), m'')" "taken_ids m'' (used - {i} - set is)" by blast
  moreover have "used - {i} - set is = used - set (i # is)" by auto
  ultimately show ?case by (simp add: m'(1))
qed simp

section \<open>The plan of one forward pass\<close>

datatype row_kind = PREFILL | SPEC_VERIFY | NORMAL_DECODE

record forward_row =
  fr_request :: request_ref
  fr_input_ids :: "token list"
  fr_seq_id :: int
  fr_seq_len :: "nat option"
  fr_kind :: row_kind
  fr_output_row_start :: int

record batch_plan =
  bp_prefill_rows :: "forward_row list"
  bp_decode_rows :: "forward_row list"
  bp_normal_decode_rows :: "forward_row list"
  bp_verify_plan_items :: "(request_ref \<times> verify_plan_item) list"

definition bp_rows :: "batch_plan \<Rightarrow> forward_row list" where
  "bp_rows p = bp_prefill_rows p @ bp_decode_rows p"

definition input_ids_list :: "batch_plan \<Rightarrow> token list list" where
  "input_ids_list p = map fr_input_ids (bp_rows p)"

definition seq_ids_list :: "batch_plan \<Rightarrow> int list" where
  "seq_ids_list p = map fr_seq_id (bp_rows p)"

definition decoding_seq_lens_list :: "batch_plan \<Rightarrow> nat list" where
  "decoding_seq_lens_list p = List.map_filter fr_seq_len (bp_decode_rows p)"

definition prefill_row :: "request_store \<Rightarrow> request_ref \<Rightarrow> forward_row" where
  "prefill_row st q = \<lparr>fr_request = q, fr_input_ids = rq_prompt_token_ids (st q), fr_seq_id = rq_request_id (st q),
     fr_seq_len = None, fr_kind = PREFILL, fr_output_row_start = -1\<rparr>"

definition verify_row :: "request_store \<Rightarrow> request_ref \<Rightarrow> token \<times> nat \<Rightarrow> forward_row" where
  "verify_row st q row = \<lparr>fr_request = q, fr_input_ids = [fst row], fr_seq_id = rq_request_id (st q),
     fr_seq_len = Some (snd row), fr_kind = SPEC_VERIFY, fr_output_row_start = -1\<rparr>"

fun plan_request :: "request_store \<Rightarrow> batch_plan \<Rightarrow> request_ref \<Rightarrow> batch_plan result" where
  "plan_request st p q =
     (if is_prefill_stage (st q) then Inr p
      else let start = int (length (bp_prefill_rows p) + length (bp_decode_rows p)) in
        case rq_spec_proposal (st q) of
          Some proposal \<Rightarrow>
            bind_r (build_verification_plan (spec_request.truncate (st q)) proposal) (\<lambda>item.
              let item' = item\<lparr>vp_output_row_start := start, vp_output_row_count := length (vp_input_token_ids item)\<rparr>
              in Inr (p\<lparr>bp_decode_rows := bp_decode_rows p @ map (verify_row st q) (zip (vp_input_token_ids item') (vp_seq_lens item')),
                        bp_verify_plan_items := bp_verify_plan_items p @ [(q, item')]\<rparr>))
        | None \<Rightarrow>
            bind_r (next_input_token (st q)) (\<lambda>token.
              let row = \<lparr>fr_request = q, fr_input_ids = [token], fr_seq_id = rq_request_id (st q),
                         fr_seq_len = Some (logical_decode_seq_len (st q)), fr_kind = NORMAL_DECODE, fr_output_row_start = start\<rparr>
              in Inr (p\<lparr>bp_decode_rows := bp_decode_rows p @ [row], bp_normal_decode_rows := bp_normal_decode_rows p @ [row]\<rparr>)))"

definition build_batch_plan :: "request_store \<Rightarrow> request_ref list \<Rightarrow> batch_plan result" where
  "build_batch_plan st cur_batch =
     iter_r (\<lambda>q p. plan_request st p q) cur_batch
       \<lparr>bp_prefill_rows = map (prefill_row st) (filter (\<lambda>q. is_prefill_stage (st q)) cur_batch),
        bp_decode_rows = [], bp_normal_decode_rows = [], bp_verify_plan_items = []\<rparr>"

text \<open>Each verification item and each plain row names the rows of the forward pass that are its own.\<close>

definition plan_ok :: "request_store \<Rightarrow> batch_plan \<Rightarrow> bool" where
  "plan_ok st p \<longleftrightarrow>
     (\<forall>(q, item) \<in> set (bp_verify_plan_items p). \<exists>s. vp_output_row_start item = int s
        \<and> vp_output_row_count item = length (vp_input_token_ids item)
        \<and> s + vp_output_row_count item \<le> length (bp_rows p)
        \<and> (\<forall>i < vp_output_row_count item. bp_rows p ! (s + i) = verify_row st q (vp_input_token_ids item ! i, vp_seq_lens item ! i)))
     \<and> (\<forall>row \<in> set (bp_normal_decode_rows p). \<exists>s. fr_output_row_start row = int s \<and> s < length (bp_rows p) \<and> bp_rows p ! s = row)"

lemma verification_plan_lengths:
  "build_verification_plan r pr = Inr item \<Longrightarrow> length (vp_seq_lens item) = length (vp_input_token_ids item)"
  by (auto simp: build_verification_plan_def build_linear_verification_plan_def build_dflash_block_verification_plan_def
      plan_for_def Let_def bind_r_eq_Inr split: if_splits)

text \<open>The rows a plan already has keep their places when rows are added.\<close>

lemma nth_rows_grow:
  "s < length (bp_rows p) \<Longrightarrow> bp_rows (p\<lparr>bp_decode_rows := bp_decode_rows p @ new\<rparr>) ! s = bp_rows p ! s"
  "length (bp_rows (p\<lparr>bp_decode_rows := bp_decode_rows p @ new\<rparr>)) = length (bp_rows p) + length new"
  "i < length new \<Longrightarrow> bp_rows (p\<lparr>bp_decode_rows := bp_decode_rows p @ new\<rparr>) ! (length (bp_rows p) + i) = new ! i"
  by (simp_all add: bp_rows_def nth_append)

lemma plan_ok_grow:
  assumes "plan_ok st p"
  shows "plan_ok st (p\<lparr>bp_decode_rows := bp_decode_rows p @ new\<rparr>)"
  unfolding plan_ok_def
proof (intro conjI ballI)
  let ?p = "p\<lparr>bp_decode_rows := bp_decode_rows p @ new\<rparr>"
  fix e
  assume "e \<in> set (bp_verify_plan_items ?p)"
  then obtain q item s where e: "e = (q, item)" and s: "vp_output_row_start item = int s"
    "vp_output_row_count item = length (vp_input_token_ids item)" "s + vp_output_row_count item \<le> length (bp_rows p)"
    "\<forall>i < vp_output_row_count item. bp_rows p ! (s + i) = verify_row st q (vp_input_token_ids item ! i, vp_seq_lens item ! i)"
    using assms by (fastforce simp: plan_ok_def)
  then show "case e of (q, item) \<Rightarrow> \<exists>s. vp_output_row_start item = int s
        \<and> vp_output_row_count item = length (vp_input_token_ids item) \<and> s + vp_output_row_count item \<le> length (bp_rows ?p)
        \<and> (\<forall>i < vp_output_row_count item. bp_rows ?p ! (s + i) = verify_row st q (vp_input_token_ids item ! i, vp_seq_lens item ! i))"
    by (auto simp: nth_rows_grow intro!: exI [of _ s])
next
  let ?p = "p\<lparr>bp_decode_rows := bp_decode_rows p @ new\<rparr>"
  fix row
  assume "row \<in> set (bp_normal_decode_rows ?p)"
  then obtain s where "fr_output_row_start row = int s" "s < length (bp_rows p)" "bp_rows p ! s = row"
    using assms by (fastforce simp: plan_ok_def)
  then show "\<exists>s. fr_output_row_start row = int s \<and> s < length (bp_rows ?p) \<and> bp_rows ?p ! s = row"
    by (auto simp: nth_rows_grow intro!: exI [of _ s])
qed

lemma plan_ok_item:
  assumes "plan_ok st p" "vp_output_row_start item = int (length (bp_rows p) - length new)"
    and "vp_output_row_count item = length (vp_input_token_ids item)" "length new = length (vp_input_token_ids item)"
    and "length new \<le> length (bp_rows p)" "length (vp_seq_lens item) = length (vp_input_token_ids item)"
    and "\<forall>i < length new. bp_rows p ! (length (bp_rows p) - length new + i) = verify_row st q (vp_input_token_ids item ! i, vp_seq_lens item ! i)"
  shows "plan_ok st (p\<lparr>bp_verify_plan_items := bp_verify_plan_items p @ [(q, item)]\<rparr>)"
proof -
  have rows: "bp_rows (p\<lparr>bp_verify_plan_items := x\<rparr>) = bp_rows p" for x by (simp add: bp_rows_def)
  have "\<exists>s. vp_output_row_start item = int s \<and> vp_output_row_count item = length (vp_input_token_ids item)
      \<and> s + vp_output_row_count item \<le> length (bp_rows p)
      \<and> (\<forall>i < vp_output_row_count item. bp_rows p ! (s + i) = verify_row st q (vp_input_token_ids item ! i, vp_seq_lens item ! i))"
    using assms(2-7) by (intro exI [of _ "length (bp_rows p) - length new"]) simp
  with assms(1) show ?thesis unfolding plan_ok_def rows by simp
qed

lemma plan_ok_normal:
  assumes "plan_ok st p" "fr_output_row_start row = int s" "s < length (bp_rows p)" "bp_rows p ! s = row"
  shows "plan_ok st (p\<lparr>bp_normal_decode_rows := bp_normal_decode_rows p @ [row]\<rparr>)"
proof -
  have rows: "bp_rows (p\<lparr>bp_normal_decode_rows := x\<rparr>) = bp_rows p" for x by (simp add: bp_rows_def)
  show ?thesis using assms unfolding plan_ok_def rows by auto
qed

lemma plan_request_ok:
  assumes "plan_ok st p" "plan_request st p q = Inr p'"
  shows "plan_ok st p'"
proof (cases "is_prefill_stage (st q)")
  case False
  show ?thesis
  proof (cases "rq_spec_proposal (st q)")
    case (Some proposal)
    then obtain item where b: "build_verification_plan (spec_request.truncate (st q)) proposal = Inr item"
      using assms(2) False by (auto simp: bind_r_eq_Inr Let_def)
    let ?item = "item\<lparr>vp_output_row_start := int (length (bp_rows p)), vp_output_row_count := length (vp_input_token_ids item)\<rparr>"
    let ?new = "map (verify_row st q) (zip (vp_input_token_ids item) (vp_seq_lens item))"
    let ?p = "p\<lparr>bp_decode_rows := bp_decode_rows p @ ?new\<rparr>"
    have p': "p' = ?p\<lparr>bp_verify_plan_items := bp_verify_plan_items ?p @ [(q, ?item)]\<rparr>"
      using assms(2) False Some b by (simp add: Let_def bp_rows_def)
    note len = verification_plan_lengths [OF b]
    show ?thesis
      unfolding p' by (rule plan_ok_item [OF plan_ok_grow [OF assms(1)], where new = ?new])
        (use len in \<open>auto simp: nth_rows_grow\<close>)
  next
    case None
    then obtain token where t: "next_input_token (st q) = Inr token" using assms(2) False by (auto simp: bind_r_eq_Inr Let_def)
    let ?row = "\<lparr>fr_request = q, fr_input_ids = [token], fr_seq_id = rq_request_id (st q),
        fr_seq_len = Some (logical_decode_seq_len (st q)), fr_kind = NORMAL_DECODE, fr_output_row_start = int (length (bp_rows p))\<rparr>"
    let ?p = "p\<lparr>bp_decode_rows := bp_decode_rows p @ [?row]\<rparr>"
    have p': "p' = ?p\<lparr>bp_normal_decode_rows := bp_normal_decode_rows ?p @ [?row]\<rparr>"
      using assms(2) False None t by (simp add: Let_def bp_rows_def)
    have "plan_ok st ?p" using plan_ok_grow [OF assms(1)] .
    moreover have "bp_rows ?p ! length (bp_rows p) = ?row" "length (bp_rows p) < length (bp_rows ?p)"
      using nth_rows_grow(3) [of 0 "[?row]" p] by (simp_all add: bp_rows_def)
    ultimately show ?thesis unfolding p' by (intro plan_ok_normal) simp_all
  qed
qed (use assms in simp)

lemma build_batch_plan_ok:
  assumes "build_batch_plan st batch = Inr p"
  shows "plan_ok st p"
proof -
  have init: "plan_ok st \<lparr>bp_prefill_rows = rows, bp_decode_rows = [], bp_normal_decode_rows = [], bp_verify_plan_items = []\<rparr>" for rows
    by (simp add: plan_ok_def)
  show ?thesis
    by (rule iter_r_invariant [where P = "plan_ok st", OF assms [unfolded build_batch_plan_def] init]) (erule plan_request_ok)
qed

end
