(* ===== verification/SwiftScheduler.thy ===== *)
theory SwiftScheduler
  imports SwiftBatch "HOL-Library.Sublist"
begin

text \<open>
  \<open>swiftLLM/swiftllm/server/scheduler.py\<close>: the strict first-come-first-served scheduler of the SwiftLLM engine,
  and the part of \<open>engine.py\<close> that commits the output of a forward pass. An operation gives the state it
  leaves beside its outcome, because an exception leaves what was changed before it.
\<close>

section \<open>State\<close>

record sched_config =
  sc_block_size :: int
  sc_max_batch_size :: int
  sc_max_tokens_in_batch :: int
  sc_num_gpu_blocks :: int

record sched =
  sd_store :: request_store
  sd_waiting_q :: "request_ref list"
  sd_running_q :: "request_ref list"
  sd_swapped_q :: "request_ref list"
  sd_num_decoding_gpu_blocks :: int
  sd_ids :: id_manager

definition new_sched :: "request_store \<Rightarrow> int \<Rightarrow> sched" where
  "new_sched st max_seqs = \<lparr>sd_store = st, sd_waiting_q = [], sd_running_q = [], sd_swapped_q = [],
     sd_num_decoding_gpu_blocks = 0, sd_ids = new_id_manager max_seqs\<rparr>"

definition cdiv :: "int \<Rightarrow> int \<Rightarrow> int" where
  "cdiv a b = (a + b - 1) div b"

section \<open>What a request needs\<close>

text \<open>The draft tokens of a linear proposal, if the request carries one.\<close>

definition linear_draft :: "swift_request \<Rightarrow> token list option" where
  "linear_draft r = (case rq_spec_proposal r of None \<Rightarrow> None
     | Some p \<Rightarrow> if pr_kind p = ''linear'' then Some (pr_draft_token_ids p) else None)"

definition block_needed :: "sched_config \<Rightarrow> swift_request \<Rightarrow> int" where
  "block_needed c r =
     (let max_len_this_iter = (case linear_draft r of
            Some draft \<Rightarrow> sp_prompt_len r + length (sp_output_token_ids r) + length draft
          | None \<Rightarrow> sp_prompt_len r + length (sp_output_token_ids r))
      in cdiv (int max_len_this_iter) (sc_block_size c))"

definition iter_width :: "swift_request \<Rightarrow> int" where
  "iter_width r = (if is_prefill_stage r then int (sp_prompt_len r)
     else case linear_draft r of Some draft \<Rightarrow> 1 + int (length draft) | None \<Rightarrow> 1)"

definition row_count :: "swift_request \<Rightarrow> int" where
  "row_count r = (if is_prefill_stage r then 1
     else case linear_draft r of Some draft \<Rightarrow> 1 + int (length draft) | None \<Rightarrow> 1)"

definition total :: "(swift_request \<Rightarrow> int) \<Rightarrow> request_store \<Rightarrow> request_ref list \<Rightarrow> int" where
  "total f st qs = sum_list (map (\<lambda>q. f (st q)) qs)"

lemma total_simps [simp]:
  "total f st [] = 0" "total f st (q # qs) = f (st q) + total f st qs" "total f st (qs @ qs') = total f st qs + total f st qs'"
  by (simp_all add: total_def)

section \<open>Operations\<close>

definition on_requests_arrival :: "sched \<Rightarrow> request_ref list \<Rightarrow> sched" where
  "on_requests_arrival s qs = s\<lparr>sd_waiting_q := sd_waiting_q s @ qs\<rparr>"

text \<open>The prefill loop: requests taken from the front of the waiting queue, and their blocks.\<close>

fun admit :: "sched_config \<Rightarrow> request_store \<Rightarrow> int \<Rightarrow> int \<Rightarrow> request_ref list \<Rightarrow> int \<Rightarrow> int \<Rightarrow> int \<Rightarrow> request_ref list \<times> int \<times> request_ref list" where
  "admit c st running_rows decoding [] blocks tokens rows = ([], blocks, [])"
| "admit c st running_rows decoding (q # waiting) blocks tokens rows =
     (if rows + row_count (st q) \<le> sc_max_batch_size c
         \<and> running_rows + rows + row_count (st q) \<le> sc_max_batch_size c
         \<and> blocks + block_needed c (st q) + decoding \<le> sc_num_gpu_blocks c
         \<and> tokens + iter_width (st q) \<le> sc_max_tokens_in_batch c
      then case admit c st running_rows decoding waiting (blocks + block_needed c (st q)) (tokens + iter_width (st q)) (rows + row_count (st q))
           of (batch, blocks', rest) \<Rightarrow> (q # batch, blocks', rest)
      else ([], blocks, q # waiting))"

text \<open>\<open>for req in cur_batch: req.request_id = get_id()\<close>\<close>

fun assign_ids :: "request_ref list \<Rightarrow> request_store \<Rightarrow> id_manager \<Rightarrow> unit result \<times> request_store \<times> id_manager" where
  "assign_ids [] st ids = (Inr (), st, ids)"
| "assign_ids (q # qs) st ids = (case get_id ids of
      Inl e \<Rightarrow> (Inl e, st, ids)
    | Inr (i, ids') \<Rightarrow> assign_ids qs (st(q := (st q)\<lparr>rq_request_id := i\<rparr>)) ids')"

definition over_limits :: "sched_config \<Rightarrow> request_store \<Rightarrow> request_ref list \<Rightarrow> int \<Rightarrow> bool" where
  "over_limits c st running blocks \<longleftrightarrow> total row_count st running > sc_max_batch_size c
     \<or> total iter_width st running > sc_max_tokens_in_batch c \<or> blocks > sc_num_gpu_blocks c"

text \<open>The preemption loop, which pops the last running request; on an empty list \<open>pop\<close> raises.\<close>

function preempt :: "sched_config \<Rightarrow> request_store \<Rightarrow> request_ref list \<Rightarrow> int \<Rightarrow> request_ref list \<Rightarrow>
    unit result \<times> request_ref list \<times> int \<times> request_ref list" where
  "preempt c st running blocks out =
     (if over_limits c st running blocks then
        if running = [] then (Inl (IndexError ''pop from empty list''), running, blocks, out)
        else preempt c st (butlast running) (blocks - block_needed c (st (last running))) (out @ [last running])
      else (Inr (), running, blocks, out))"
  by pat_completeness auto
termination by (relation "measure (\<lambda>(c, st, running, blocks, out). length running)") auto

declare preempt.simps [simp del]

fun swap_in :: "sched_config \<Rightarrow> request_store \<Rightarrow> request_ref list \<Rightarrow> int \<Rightarrow> request_ref list \<Rightarrow> request_ref list \<times> int \<times> request_ref list \<times> request_ref list" where
  "swap_in c st running blocks [] = (running, blocks, [], [])"
| "swap_in c st running blocks (q # swapped) =
     (if total row_count st running + row_count (st q) \<le> sc_max_batch_size c
         \<and> total iter_width st running + iter_width (st q) \<le> sc_max_tokens_in_batch c
         \<and> blocks + block_needed c (st q) \<le> sc_num_gpu_blocks c
      then case swap_in c st (running @ [q]) (blocks + block_needed c (st q)) swapped of
             (running', blocks', rest, moved) \<Rightarrow> (running', blocks', rest, q # moved)
      else (running, blocks, q # swapped, []))"

record scheduled =
  sl_batch :: "request_ref list"
  sl_swapped_in :: "request_ref list"
  sl_swapped_out :: "request_ref list"

definition decode_batch :: "sched_config \<Rightarrow> sched \<Rightarrow> scheduled result \<times> sched" where
  "decode_batch c s =
     (let st = sd_store s; blocks = total (block_needed c) st (sd_running_q s)
      in case preempt c st (sd_running_q s) blocks [] of
           (Inl e, running, blocks', out) \<Rightarrow> (Inl e, s\<lparr>sd_running_q := running, sd_num_decoding_gpu_blocks := blocks'\<rparr>)
         | (Inr _, running, blocks', out) \<Rightarrow>
             if out \<noteq> [] then
               (Inr \<lparr>sl_batch = running, sl_swapped_in = [], sl_swapped_out = rev out\<rparr>,
                s\<lparr>sd_running_q := running, sd_num_decoding_gpu_blocks := blocks', sd_swapped_q := rev out @ sd_swapped_q s\<rparr>)
             else (case swap_in c st running blocks' (sd_swapped_q s) of (running', blocks'', rest, moved) \<Rightarrow>
               (Inr \<lparr>sl_batch = running', sl_swapped_in = moved, sl_swapped_out = []\<rparr>,
                s\<lparr>sd_running_q := running', sd_num_decoding_gpu_blocks := blocks'', sd_swapped_q := rest\<rparr>)))"

definition get_next_batch :: "sched_config \<Rightarrow> sched \<Rightarrow> scheduled result \<times> sched" where
  "get_next_batch c s =
     (let st = sd_store s in
      case (if sd_swapped_q s = [] then admit c st (total row_count st (sd_running_q s)) (sd_num_decoding_gpu_blocks s) (sd_waiting_q s) 0 0 0
            else ([], 0, sd_waiting_q s)) of (batch, blocks, rest) \<Rightarrow>
      if batch \<noteq> [] then
        (case assign_ids batch st (sd_ids s) of
           (Inl e, st', ids) \<Rightarrow> (Inl e, s\<lparr>sd_store := st', sd_ids := ids, sd_waiting_q := rest\<rparr>)
         | (Inr _, st', ids) \<Rightarrow>
             (Inr \<lparr>sl_batch = batch, sl_swapped_in = [], sl_swapped_out = []\<rparr>,
              s\<lparr>sd_store := st', sd_ids := ids, sd_waiting_q := rest, sd_running_q := sd_running_q s @ batch,
                sd_num_decoding_gpu_blocks := sd_num_decoding_gpu_blocks s + blocks\<rparr>))
      else decode_batch c s)"

definition on_batch_finish :: "sched \<Rightarrow> request_ref list \<Rightarrow> unit result \<times> sched" where
  "on_batch_finish s batch =
     (case free_ids (sd_ids s) (map (\<lambda>q. rq_request_id (sd_store s q)) (filter (\<lambda>q. is_finished (sd_store s q)) batch)) of
        (Inl e, ids) \<Rightarrow> (Inl e, s\<lparr>sd_ids := ids\<rparr>)
      | (Inr _, ids) \<Rightarrow> (Inr (), s\<lparr>sd_ids := ids, sd_running_q := filter (\<lambda>q. \<not> is_finished (sd_store s q)) (sd_running_q s)\<rparr>))"

section \<open>The loops\<close>

text \<open>Every request of the scheduler in order of arrival.\<close>

definition line :: "sched \<Rightarrow> request_ref list" where
  "line s = sd_running_q s @ sd_swapped_q s @ sd_waiting_q s"

lemma admit_facts:
  assumes "admit c st running_rows decoding waiting blocks tokens rows = (batch, blocks', rest)"
  shows "waiting = batch @ rest" "blocks' = blocks + total (block_needed c) st batch"
    "batch \<noteq> [] \<Longrightarrow> rows + total row_count st batch \<le> sc_max_batch_size c
       \<and> running_rows + rows + total row_count st batch \<le> sc_max_batch_size c
       \<and> blocks' + decoding \<le> sc_num_gpu_blocks c \<and> tokens + total iter_width st batch \<le> sc_max_tokens_in_batch c"
proof -
  have "waiting = batch @ rest \<and> blocks' = blocks + total (block_needed c) st batch
    \<and> (batch \<noteq> [] \<longrightarrow> rows + total row_count st batch \<le> sc_max_batch_size c
       \<and> running_rows + rows + total row_count st batch \<le> sc_max_batch_size c
       \<and> blocks' + decoding \<le> sc_num_gpu_blocks c \<and> tokens + total iter_width st batch \<le> sc_max_tokens_in_batch c)"
    using assms
  proof (induction waiting arbitrary: blocks tokens rows batch)
    case (Cons q waiting)
    show ?case
    proof (cases "rows + row_count (st q) \<le> sc_max_batch_size c
         \<and> running_rows + rows + row_count (st q) \<le> sc_max_batch_size c
         \<and> blocks + block_needed c (st q) + decoding \<le> sc_num_gpu_blocks c
         \<and> tokens + iter_width (st q) \<le> sc_max_tokens_in_batch c")
      case True
      with Cons.prems obtain batch' where r: "admit c st running_rows decoding waiting (blocks + block_needed c (st q))
          (tokens + iter_width (st q)) (rows + row_count (st q)) = (batch', blocks', rest)" and b: "batch = q # batch'"
        by (auto split: prod.splits)
      from Cons.IH [OF r] True show ?thesis by (cases "batch' = []") (auto simp: b algebra_simps)
    next
      case False
      with Cons.prems show ?thesis by (simp split: if_splits)
    qed
  qed simp
  then show "waiting = batch @ rest" "blocks' = blocks + total (block_needed c) st batch"
    "batch \<noteq> [] \<Longrightarrow> rows + total row_count st batch \<le> sc_max_batch_size c
       \<and> running_rows + rows + total row_count st batch \<le> sc_max_batch_size c
       \<and> blocks' + decoding \<le> sc_num_gpu_blocks c \<and> tokens + total iter_width st batch \<le> sc_max_tokens_in_batch c" by blast+
qed

lemma preempt_facts:
  assumes "preempt c st running blocks out = (res, running', blocks', out')" "blocks = total (block_needed c) st running"
  shows "running @ rev out = running' @ rev out'" "blocks' = total (block_needed c) st running'"
    "res = Inr () \<Longrightarrow> \<not> over_limits c st running' blocks'" "res = Inr () \<or> running' = [] \<and> over_limits c st [] 0"
proof -
  have "running @ rev out = running' @ rev out' \<and> blocks' = total (block_needed c) st running'
    \<and> (res = Inr () \<longrightarrow> \<not> over_limits c st running' blocks') \<and> (res = Inr () \<or> running' = [] \<and> over_limits c st [] 0)"
    using assms
  proof (induction c st running blocks out rule: preempt.induct)
    case (1 c st running blocks out)
    show ?case
    proof (cases "over_limits c st running blocks \<and> running \<noteq> []")
      case True
      then obtain qs q where run: "running = qs @ [q]" by (metis rev_exhaust)
      from True 1(2) have "preempt c st (butlast running) (blocks - block_needed c (st (last running))) (out @ [last running]) = (res, running', blocks', out')"
        by (subst (asm) preempt.simps) simp
      from 1(1) [OF _ _ this] True 1(3) show ?thesis by (auto simp: run)
    next
      case False
      with 1(2,3) show ?thesis by (subst (asm) preempt.simps) (auto split: if_splits)
    qed
  qed
  then show "running @ rev out = running' @ rev out'" "blocks' = total (block_needed c) st running'"
    "res = Inr () \<Longrightarrow> \<not> over_limits c st running' blocks'" "res = Inr () \<or> running' = [] \<and> over_limits c st [] 0" by blast+
qed

lemma swap_in_facts:
  assumes "swap_in c st running blocks swapped = (running', blocks', rest, moved)"
    and "blocks = total (block_needed c) st running" "\<not> over_limits c st running blocks"
  shows "running' = running @ moved" "swapped = moved @ rest" "blocks' = total (block_needed c) st running'" "\<not> over_limits c st running' blocks'"
proof -
  have "running' = running @ moved \<and> swapped = moved @ rest \<and> blocks' = total (block_needed c) st running' \<and> \<not> over_limits c st running' blocks'"
    using assms
  proof (induction swapped arbitrary: running blocks moved)
    case (Cons q swapped)
    show ?case
    proof (cases "total row_count st running + row_count (st q) \<le> sc_max_batch_size c
         \<and> total iter_width st running + iter_width (st q) \<le> sc_max_tokens_in_batch c
         \<and> blocks + block_needed c (st q) \<le> sc_num_gpu_blocks c")
      case True
      with Cons.prems(1) obtain moved' where r: "swap_in c st (running @ [q]) (blocks + block_needed c (st q)) swapped = (running', blocks', rest, moved')"
        and m: "moved = q # moved'" by (auto split: prod.splits)
      have "\<not> over_limits c st (running @ [q]) (blocks + block_needed c (st q))" using True by (simp add: over_limits_def)
      from Cons.IH [OF r _ this] Cons.prems(2) show ?thesis by (auto simp: m)
    next
      case False
      with Cons.prems show ?thesis by (auto split: if_splits)
    qed
  qed simp
  then show "running' = running @ moved" "swapped = moved @ rest" "blocks' = total (block_needed c) st running'" "\<not> over_limits c st running' blocks'" by blast+
qed

lemma assign_ids_facts:
  assumes "assign_ids qs st ids = (res, st', ids')" "distinct qs" "taken_ids ids used"
  shows "\<And>q. (st' q)\<lparr>rq_request_id := i\<rparr> = (st q)\<lparr>rq_request_id := i\<rparr>" "\<And>q. q \<notin> set qs \<Longrightarrow> st' q = st q"
    "res = Inr () \<Longrightarrow> taken_ids ids' (used \<union> (\<lambda>q. rq_request_id (st' q)) ` set qs)
       \<and> inj_on (\<lambda>q. rq_request_id (st' q)) (set qs) \<and> (\<lambda>q. rq_request_id (st' q)) ` set qs \<inter> used = {}"
proof -
  have "(\<forall>q. (st' q)\<lparr>rq_request_id := i\<rparr> = (st q)\<lparr>rq_request_id := i\<rparr>) \<and> (\<forall>q. q \<notin> set qs \<longrightarrow> st' q = st q)
    \<and> (res = Inr () \<longrightarrow> taken_ids ids' (used \<union> (\<lambda>q. rq_request_id (st' q)) ` set qs)
       \<and> inj_on (\<lambda>q. rq_request_id (st' q)) (set qs) \<and> (\<lambda>q. rq_request_id (st' q)) ` set qs \<inter> used = {})"
    using assms
  proof (induction qs arbitrary: st ids used)
    case (Cons q qs)
    show ?case
    proof (cases "get_id ids")
      case (Inl e)
      then show ?thesis using Cons.prems by auto
    next
      case (Inr r)
      then obtain j ids'' where g: "get_id ids = Inr (j, ids'')" by (cases r) auto
      note t = get_id_taken [OF Cons.prems(3) g]
      let ?st = "st(q := (st q)\<lparr>rq_request_id := j\<rparr>)"
      have a: "assign_ids qs ?st ids'' = (res, st', ids')" using Cons.prems(1) g by simp
      have IH: "(\<forall>q. (st' q)\<lparr>rq_request_id := i\<rparr> = (?st q)\<lparr>rq_request_id := i\<rparr>) \<and> (\<forall>q. q \<notin> set qs \<longrightarrow> st' q = ?st q)
        \<and> (res = Inr () \<longrightarrow> taken_ids ids' (insert j used \<union> (\<lambda>q. rq_request_id (st' q)) ` set qs)
           \<and> inj_on (\<lambda>q. rq_request_id (st' q)) (set qs) \<and> (\<lambda>q. rq_request_id (st' q)) ` set qs \<inter> insert j used = {})"
        using Cons.IH [OF a _ t(2)] Cons.prems(2) by auto
      have q: "q \<notin> set qs" using Cons.prems(2) by simp
      then have j: "rq_request_id (st' q) = j" using IH by simp
      have "(st' r)\<lparr>rq_request_id := i\<rparr> = (st r)\<lparr>rq_request_id := i\<rparr>" for r using IH by (cases "r = q") auto
      moreover have "st' r = st r" if "r \<notin> set (q # qs)" for r using IH that by auto
      moreover have "used \<union> (\<lambda>q. rq_request_id (st' q)) ` set (q # qs) = insert j used \<union> (\<lambda>q. rq_request_id (st' q)) ` set qs"
        using j by auto
      ultimately show ?thesis using IH j t(1) by auto
    qed
  qed simp
  then show "\<And>q. (st' q)\<lparr>rq_request_id := i\<rparr> = (st q)\<lparr>rq_request_id := i\<rparr>" "\<And>q. q \<notin> set qs \<Longrightarrow> st' q = st q"
    "res = Inr () \<Longrightarrow> taken_ids ids' (used \<union> (\<lambda>q. rq_request_id (st' q)) ` set qs)
       \<and> inj_on (\<lambda>q. rq_request_id (st' q)) (set qs) \<and> (\<lambda>q. rq_request_id (st' q)) ` set qs \<inter> used = {}" by blast+
qed

lemma assign_ids_same:
  "assign_ids qs st ids = (res, st', ids') \<Longrightarrow> (st' q)\<lparr>rq_request_id := i\<rparr> = (st q)\<lparr>rq_request_id := i\<rparr>"
proof (induction qs arbitrary: st ids)
  case (Cons r qs)
  show ?case
  proof (cases "get_id ids")
    case (Inr x)
    then obtain j ids'' where "assign_ids qs (st(r := (st r)\<lparr>rq_request_id := j\<rparr>)) ids'' = (res, st', ids')"
      using Cons.prems by (cases x) auto
    from Cons.IH [OF this] show ?thesis by (cases "q = r") simp_all
  qed (use Cons.prems in simp)
qed simp

text \<open>A request without its row: what the needs of a request depend on.\<close>

lemma needs_update [simp]:
  "row_count (r\<lparr>rq_request_id := j\<rparr>) = row_count r" "iter_width (r\<lparr>rq_request_id := j\<rparr>) = iter_width r"
  "block_needed c (r\<lparr>rq_request_id := j\<rparr>) = block_needed c r" "is_finished (r\<lparr>rq_request_id := j\<rparr>) = is_finished r"
  by (simp_all add: row_count_def iter_width_def block_needed_def is_finished_def is_prefill_stage_def linear_draft_def split: option.splits)

lemma needs_same:
  assumes "\<And>q. (st' q)\<lparr>rq_request_id := i\<rparr> = (st q)\<lparr>rq_request_id := i\<rparr>"
  shows "row_count (st' q) = row_count (st q)" "iter_width (st' q) = iter_width (st q)" "block_needed c (st' q) = block_needed c (st q)"
    "is_finished (st' q) = is_finished (st q)" "total row_count st' qs = total row_count st qs"
    "total iter_width st' qs = total iter_width st qs" "total (block_needed c) st' qs = total (block_needed c) st qs"
proof -
  have one: "row_count (st' q) = row_count (st q) \<and> iter_width (st' q) = iter_width (st q)
      \<and> block_needed c (st' q) = block_needed c (st q) \<and> is_finished (st' q) = is_finished (st q)" for q
  proof -
    have "st' q = ((st' q)\<lparr>rq_request_id := i\<rparr>)\<lparr>rq_request_id := rq_request_id (st' q)\<rparr>" by simp
    then have "st' q = (st q)\<lparr>rq_request_id := rq_request_id (st' q)\<rparr>" unfolding assms by simp
    then show ?thesis by (metis needs_update)
  qed
  then show "row_count (st' q) = row_count (st q)" "iter_width (st' q) = iter_width (st q)"
    "block_needed c (st' q) = block_needed c (st q)" "is_finished (st' q) = is_finished (st q)" by blast+
  show "total row_count st' qs = total row_count st qs"
    "total iter_width st' qs = total iter_width st qs" "total (block_needed c) st' qs = total (block_needed c) st qs"
    by (simp_all add: total_def one)
qed

section \<open>One scheduling decision\<close>

text \<open>The two ways \<open>get_next_batch\<close> returns.\<close>

lemma get_next_batch_cases:
  assumes "get_next_batch c s = (Inr sl, s')"
  obtains (prefill) batch blocks rest st' ids where "sd_swapped_q s = []" "batch \<noteq> []"
      "admit c (sd_store s) (total row_count (sd_store s) (sd_running_q s)) (sd_num_decoding_gpu_blocks s) (sd_waiting_q s) 0 0 0 = (batch, blocks, rest)"
      "assign_ids batch (sd_store s) (sd_ids s) = (Inr (), st', ids)"
      "sl = \<lparr>sl_batch = batch, sl_swapped_in = [], sl_swapped_out = []\<rparr>"
      "s' = s\<lparr>sd_store := st', sd_ids := ids, sd_waiting_q := rest, sd_running_q := sd_running_q s @ batch,
                sd_num_decoding_gpu_blocks := sd_num_decoding_gpu_blocks s + blocks\<rparr>"
  | (decode) running blocks swapped where "line s = running @ swapped @ sd_waiting_q s"
      "blocks = total (block_needed c) (sd_store s) running" "\<not> over_limits c (sd_store s) running blocks"
      "sl_batch sl = running" "set running \<union> set swapped = set (sd_running_q s) \<union> set (sd_swapped_q s)"
      "s' = s\<lparr>sd_running_q := running, sd_num_decoding_gpu_blocks := blocks, sd_swapped_q := swapped\<rparr>"
proof -
  let ?st = "sd_store s"
  let ?adm = "if sd_swapped_q s = [] then admit c ?st (total row_count ?st (sd_running_q s)) (sd_num_decoding_gpu_blocks s) (sd_waiting_q s) 0 0 0
            else ([], 0, sd_waiting_q s)"
  obtain batch blocks rest where t: "?adm = (batch, blocks, rest)" by (cases ?adm)
  show ?thesis
  proof (cases "batch = []")
    case False
    then have sw: "sd_swapped_q s = []" using t by (auto split: if_splits)
    obtain res st' ids where a: "assign_ids batch ?st (sd_ids s) = (res, st', ids)" by (cases "assign_ids batch ?st (sd_ids s)")
    have "res = Inr ()" using assms t False a by (cases res) (auto simp: get_next_batch_def Let_def)
    then show ?thesis using prefill [OF sw False _ _, of blocks rest st' ids] assms t False a sw
      by (simp add: get_next_batch_def Let_def)
  next
    case True
    then have d: "decode_batch c s = (Inr sl, s')" using assms t by (simp add: get_next_batch_def Let_def)
    obtain res running blocks' out where p: "preempt c ?st (sd_running_q s) (total (block_needed c) ?st (sd_running_q s)) [] = (res, running, blocks', out)"
      by (cases "preempt c ?st (sd_running_q s) (total (block_needed c) ?st (sd_running_q s)) []")
    have res: "res = Inr ()" using d p by (cases res) (auto simp: decode_batch_def Let_def)
    note f = preempt_facts [OF p refl] and lim = preempt_facts(3) [OF p refl res]
    show ?thesis
    proof (cases "out = []")
      case False
      have "set (sd_running_q s) = set running \<union> set out" using arg_cong [OF f(1), of set] by simp
      then show ?thesis using decode [of running "rev out @ sd_swapped_q s" blocks'] d p res False f(1,2) lim
        by (auto simp: decode_batch_def Let_def line_def Un_assoc)
    next
      case True
      obtain running' blocks'' rest' moved where w: "swap_in c ?st running blocks' (sd_swapped_q s) = (running', blocks'', rest', moved)"
        by (cases "swap_in c ?st running blocks' (sd_swapped_q s)")
      note g = swap_in_facts [OF w f(2) lim]
      have run: "sd_running_q s = running" using f(1) True by simp
      have set: "set running' \<union> set rest' = set (sd_running_q s) \<union> set (sd_swapped_q s)" unfolding g(1,2) run by auto
      show ?thesis using decode [OF _ g(3,4) _ set] d p res True w g(1,2) run
        by (auto simp: decode_batch_def Let_def line_def)
    qed
  qed
qed

lemma get_next_batch_line: "get_next_batch c s = (Inr sl, s') \<Longrightarrow> line s' = line s"
  by (erule get_next_batch_cases) (auto simp: line_def dest: admit_facts(1))

section \<open>Serving\<close>

text \<open>
  The engine around the scheduler: requests arrive at any time; a batch is scheduled, the forward pass and the
  output processing change the batch's requests (never their rows), and the batch is finished.
\<close>

inductive serving :: "sched_config \<Rightarrow> int \<Rightarrow> sched \<Rightarrow> request_ref list option \<Rightarrow> request_ref list \<Rightarrow> bool" for c n where
  serving_init: "serving c n (new_sched st n) None []"
| serving_arrive: "serving c n s b arrived \<Longrightarrow> distinct qs \<Longrightarrow> set qs \<inter> set arrived = {} \<Longrightarrow> \<forall>q \<in> set arrived. st' q = sd_store s q \<Longrightarrow>
    serving c n (on_requests_arrival (s\<lparr>sd_store := st'\<rparr>) qs) b (arrived @ qs)"
| serving_next: "serving c n s None arrived \<Longrightarrow> get_next_batch c s = (Inr sl, s') \<Longrightarrow> serving c n s' (Some (sl_batch sl)) arrived"
| serving_forward: "serving c n s (Some b) arrived \<Longrightarrow> \<forall>q. rq_request_id (st' q) = rq_request_id (sd_store s q) \<Longrightarrow>
    \<forall>q. q \<notin> set b \<longrightarrow> st' q = sd_store s q \<Longrightarrow> serving c n (s\<lparr>sd_store := st'\<rparr>) (Some b) arrived"
| serving_finish: "serving c n s (Some b) arrived \<Longrightarrow> on_batch_finish s b = (res, s') \<Longrightarrow> serving c n s' None arrived"

definition resident :: "sched \<Rightarrow> request_ref set" where
  "resident s = set (sd_running_q s) \<union> set (sd_swapped_q s)"

definition row_of :: "sched \<Rightarrow> request_ref \<Rightarrow> int" where
  "row_of s q = rq_request_id (sd_store s q)"

definition rows_ok :: "sched \<Rightarrow> bool" where
  "rows_ok s \<longleftrightarrow> taken_ids (sd_ids s) (row_of s ` resident s) \<and> inj_on (row_of s) (resident s)"

text \<open>Who is left: the line is a subsequence of the arrivals, and whoever left it has finished; a resident
  request that has finished is in the batch in flight.\<close>

definition serving_inv :: "sched \<Rightarrow> request_ref list option \<Rightarrow> request_ref list \<Rightarrow> bool" where
  "serving_inv s b arrived \<longleftrightarrow> distinct arrived \<and> subseq (line s) arrived \<and> rows_ok s
     \<and> (\<forall>q \<in> set arrived. q \<notin> set (line s) \<longrightarrow> is_finished (sd_store s q))
     \<and> (\<forall>q \<in> resident s. is_finished (sd_store s q) \<longrightarrow> (\<exists>batch. b = Some batch \<and> q \<in> set batch))
     \<and> (\<forall>batch. b = Some batch \<longrightarrow> set batch \<subseteq> set (sd_running_q s) \<and> distinct batch)"

lemma line_resident: "set (line s) = resident s \<union> set (sd_waiting_q s)" by (auto simp: line_def resident_def)

lemma subseq_members: "subseq xs ys \<Longrightarrow> x \<in> set xs \<Longrightarrow> x \<in> set ys"
  by (metis set_nths_subset subseq_conv_nths subsetD)

lemma subseq_distinct: "subseq xs ys \<Longrightarrow> distinct ys \<Longrightarrow> distinct xs"
  by (metis subseq_conv_nths distinct_nthsI)

lemma next_inv:
  assumes inv: "serving_inv s None arrived" and nb: "get_next_batch c s = (Inr sl, s')"
  shows "serving_inv s' (Some (sl_batch sl)) arrived"
proof -
  have line: "line s' = line s" by (rule get_next_batch_line [OF nb])
  have dl: "distinct (line s)" using inv subseq_distinct by (auto simp: serving_inv_def)
  have rows: "taken_ids (sd_ids s) (row_of s ` resident s)" "inj_on (row_of s) (resident s)"
    using inv by (simp_all add: serving_inv_def rows_ok_def)
  from nb show ?thesis
  proof (cases rule: get_next_batch_cases)
    case (prefill batch blocks rest st' ids)
    have w: "sd_waiting_q s = batch @ rest" using admit_facts(1) [OF prefill(3)] .
    have db: "distinct batch" "set batch \<inter> resident s = {}" using dl w by (auto simp: line_def resident_def)
    note a = assign_ids_facts [OF prefill(4) db(1) rows(1)]
    have res': "resident s' = resident s \<union> set batch" by (auto simp: resident_def prefill(6))
    have st': "sd_store s' = st'" and ids: "sd_ids s' = ids" by (simp_all add: prefill(6))
    have old: "row_of s' q = row_of s q" if "q \<in> resident s" for q 
    proof -
      have "q \<notin> set batch" using that db(2) by blast
      then show ?thesis using a(2) by (simp add: row_of_def st')
    qed
    have new: "row_of s' q = rq_request_id (st' q)" for q by (simp add: row_of_def st')
    have img: "row_of s' ` resident s' = row_of s ` resident s \<union> (\<lambda>q. rq_request_id (st' q)) ` set batch"
      using old new by (auto simp: res' image_Un)
    have inj: "inj_on (row_of s') (resident s')"
    proof -
      have "inj_on (row_of s') (resident s)" using rows(2) old by (simp add: inj_on_def)
      moreover have "inj_on (row_of s') (set batch)" using a(3) new by (simp add: inj_on_def)
      moreover have "row_of s' ` resident s \<inter> row_of s' ` set batch = {}" using a(3) old new by (auto simp: image_def)
      ultimately show ?thesis using db(2) by (auto simp: res' inj_on_Un)
    qed
    have fin: "is_finished (sd_store s' q) = is_finished (sd_store s q)" for q using needs_same(4) [OF a(1)] by (simp add: st')
    have "rows_ok s'" using a(3) inj img by (simp add: rows_ok_def ids)
    moreover have "sl_batch sl = batch" "set batch \<subseteq> set (sd_running_q s')" using prefill(5,6) by auto
    moreover have "q \<in> set batch" if "q \<in> resident s'" "is_finished (sd_store s' q)" for q
      using inv that fin by (auto simp: serving_inv_def res')
    ultimately show ?thesis using inv db(1) line fin by (simp add: serving_inv_def)
  next
    case (decode running blocks swapped)
    have res': "resident s' = resident s" using decode(5) by (simp add: resident_def decode(6))
    have st': "sd_store s' = sd_store s" "sd_ids s' = sd_ids s" "row_of s' = row_of s" by (simp_all add: decode(6) row_of_def fun_eq_iff)
    have "rows_ok s'" using rows by (simp add: rows_ok_def res' st')
    moreover have "distinct running" using dl decode(1) by simp
    moreover have "set running \<subseteq> set (sd_running_q s')" by (simp add: decode(6))
    ultimately show ?thesis using inv line by (auto simp: serving_inv_def res' st' decode(4))
  qed
qed

lemma finish_inv:
  assumes inv: "serving_inv s (Some b) arrived" and of: "on_batch_finish s b = (res, s')"
  shows "serving_inv s' None arrived" "res = Inr ()"
proof -
  let ?done = "filter (\<lambda>q. is_finished (sd_store s q)) b"
  let ?ids = "map (row_of s) ?done"
  have b: "set b \<subseteq> set (sd_running_q s)" "distinct b" and fin: "\<forall>q \<in> resident s. is_finished (sd_store s q) \<longrightarrow> q \<in> set b"
    and rows: "taken_ids (sd_ids s) (row_of s ` resident s)" "inj_on (row_of s) (resident s)"
    using inv by (auto simp: serving_inv_def rows_ok_def)
  have dl: "distinct (line s)" using inv subseq_distinct by (auto simp: serving_inv_def)
  have sub: "set ?done \<subseteq> resident s" using b(1) by (auto simp: resident_def)
  have "distinct ?ids" unfolding distinct_map using b(2) inj_on_subset [OF rows(2) sub] by simp
  moreover have "set ?ids \<subseteq> row_of s ` resident s" using sub by auto
  ultimately obtain ids where ids: "free_ids (sd_ids s) ?ids = (Inr (), ids)" "taken_ids ids (row_of s ` resident s - set ?ids)"
    using free_ids_taken [OF rows(1)] by blast
  have keep: "map (\<lambda>q. rq_request_id (sd_store s q)) ?done = ?ids" by (simp add: row_of_def)
  have r: "res = Inr () \<and> s' = s\<lparr>sd_ids := ids, sd_running_q := filter (\<lambda>q. \<not> is_finished (sd_store s q)) (sd_running_q s)\<rparr>"
    using of ids(1) unfolding on_batch_finish_def keep by simp
  then show "res = Inr ()" by simp
  have s': "sd_store s' = sd_store s" "sd_ids s' = ids" "row_of s' = row_of s" using r by (simp_all add: row_of_def fun_eq_iff)
  have swapped: "\<not> is_finished (sd_store s q)" if "q \<in> set (sd_swapped_q s)" for q
    using fin that dl b(1) by (auto simp: resident_def line_def)
  have res': "resident s' = resident s - set ?done"
    using r fin swapped by (auto simp: resident_def)
  have "row_of s ` (resident s - set ?done) = row_of s ` resident s - set ?ids"
    using inj_on_image_set_diff [OF rows(2), of "resident s" "set ?done"] sub by simp
  then have "rows_ok s'" using ids(2) inj_on_subset [OF rows(2), of "resident s - set ?done"] by (simp add: rows_ok_def res' s')
  moreover have "subseq (line s') arrived"
  proof -
    have "subseq (line s') (line s)" using r by (auto simp: line_def intro!: list_emb_append_mono subseq_filter_left)
    then show ?thesis using inv by (auto simp: serving_inv_def intro: subseq_order.trans)
  qed
  moreover have "is_finished (sd_store s' q)" if "q \<in> set arrived" "q \<notin> set (line s')" for q
    using inv that r by (auto simp: serving_inv_def line_def)
  moreover have "\<not> is_finished (sd_store s' q)" if "q \<in> resident s'" for q using that fin by (auto simp: res' s')
  ultimately show "serving_inv s' None arrived" using inv by (simp add: serving_inv_def)
qed

lemma serving_invariant: "serving c n s b arrived \<Longrightarrow> serving_inv s b arrived"
proof (induction rule: serving.induct)
  case (serving_init st)
  then show ?case using new_id_manager_taken by (simp add: serving_inv_def new_sched_def line_def rows_ok_def resident_def)
next
  case (serving_arrive s b arrived qs st')
  let ?s = "on_requests_arrival (s\<lparr>sd_store := st'\<rparr>) qs"
  have line: "line ?s = line s @ qs" and res: "resident ?s = resident s" by (simp_all add: line_def on_requests_arrival_def resident_def)
  have sub: "set (line s) \<subseteq> set arrived" using serving_arrive by (auto simp: serving_inv_def dest: subseq_members)
  then have same: "q \<in> resident s \<Longrightarrow> sd_store ?s q = sd_store s q" for q
    using serving_arrive by (auto simp: line_resident on_requests_arrival_def)
  then have row: "q \<in> resident s \<Longrightarrow> row_of ?s q = row_of s q" for q by (simp add: row_of_def)
  have "row_of ?s ` resident s = row_of s ` resident s" using row by (simp add: image_def)
  moreover have "inj_on (row_of ?s) (resident s) = inj_on (row_of s) (resident s)" using row by (simp add: inj_on_def)
  ultimately have "rows_ok ?s" using serving_arrive by (simp add: serving_inv_def rows_ok_def res) (simp add: on_requests_arrival_def)
  moreover have "subseq (line ?s) (arrived @ qs)" using serving_arrive line by (auto simp: serving_inv_def intro: list_emb_append_mono)
  moreover have "is_finished (sd_store ?s q)" if "q \<in> set arrived" "q \<notin> set (line s)" for q
    using serving_arrive that by (simp add: serving_inv_def on_requests_arrival_def)
  ultimately show ?case using serving_arrive same by (auto simp: serving_inv_def line res) (auto simp: on_requests_arrival_def)
next
  case (serving_next s arrived sl s')
  then show ?case by (rule_tac next_inv)
next
  case (serving_forward s b arrived st')
  let ?s = "s\<lparr>sd_store := st'\<rparr>"
  have "row_of ?s = row_of s" using serving_forward by (simp add: row_of_def fun_eq_iff)
  moreover have "line ?s = line s" "resident ?s = resident s" by (simp_all add: line_def resident_def)
  moreover have "set b \<subseteq> set (line s)" using serving_forward by (auto simp: serving_inv_def line_def)
  ultimately show ?case using serving_forward by (auto simp: serving_inv_def rows_ok_def)
next
  case (serving_finish s b arrived res s')
  then show ?case using finish_inv by blast
qed

section \<open>Committing a forward pass\<close>

text \<open>The middle of \<open>_main_event_loop\<close>: every output token goes to the request whose row computed it.\<close>

definition py_index :: "'a list \<Rightarrow> int \<Rightarrow> 'a result" where
  "py_index xs i = (if 0 \<le> i \<and> i < int (length xs) then Inr (xs ! nat i)
     else if i < 0 \<and> - int (length xs) \<le> i then Inr (xs ! nat (int (length xs) + i))
     else Inl (IndexError ''list index out of range''))"

record commit_state =
  cs_store :: request_store
  cs_finished_req_ids :: "int list"
  cs_crops :: "(int \<times> nat) list"

definition append_output_token :: "request_ref \<Rightarrow> token \<Rightarrow> commit_state \<Rightarrow> commit_state" where
  "append_output_token q token cs =
     (let r = (cs_store cs q)\<lparr>sp_output_token_ids := sp_output_token_ids (cs_store cs q) @ [token],
                              rq_output_q := rq_output_q (cs_store cs q) @ [token]\<rparr>
      in if is_finished r \<and> rq_request_id r \<notin> set (cs_finished_req_ids cs)
         then cs\<lparr>cs_store := (cs_store cs)(q := r\<lparr>rq_finished_event := True\<rparr>),
                cs_finished_req_ids := cs_finished_req_ids cs @ [rq_request_id r]\<rparr>
         else cs\<lparr>cs_store := (cs_store cs)(q := r)\<rparr>)"

fun commit_prefill :: "token list \<Rightarrow> int \<Rightarrow> forward_row list \<Rightarrow> commit_state \<Rightarrow> commit_state result" where
  "commit_prefill outs i [] cs = Inr cs"
| "commit_prefill outs i (row # rows) cs =
     bind_r (py_index outs i) (\<lambda>token. commit_prefill outs (i + 1) rows (append_output_token (fr_request row) token cs))"

fun commit_decode :: "token list \<Rightarrow> forward_row list \<Rightarrow> commit_state \<Rightarrow> commit_state result" where
  "commit_decode outs [] cs = Inr cs"
| "commit_decode outs (row # rows) cs =
     bind_r (py_index outs (fr_output_row_start row)) (\<lambda>token. commit_decode outs rows (append_output_token (fr_request row) token cs))"

fun commit_verify :: "token list \<Rightarrow> (request_ref \<times> verify_plan_item) list \<Rightarrow> commit_state \<Rightarrow> commit_state result" where
  "commit_verify outs [] cs = Inr cs"
| "commit_verify outs ((q, item) # items) cs =
     (let posterior = subbuf (nat (vp_output_row_start item)) (vp_output_row_count item) outs;
          remaining = rq_output_len (cs_store cs q) - int (length (sp_output_token_ids (cs_store cs q)))
      in bind_r (compute_acceptance_for_plan item posterior (Some remaining) []) (\<lambda>(accepted, num_accepted).
         let cs' = fold (append_output_token q) accepted cs;
             r = cs_store cs' q;
             r' = r\<lparr>rq_num_draft_tokens := rq_num_draft_tokens r + int (length (vp_draft_token_ids item)),
                    rq_num_accepted_tokens := rq_num_accepted_tokens r + int num_accepted,
                    rq_num_spec_steps := rq_num_spec_steps r + 1, rq_spec_proposal := None\<rparr>
         in commit_verify outs items (cs'\<lparr>cs_store := (cs_store cs')(q := r'),
              cs_crops := cs_crops cs' @ [(rq_request_id r', logical_kv_len_after_current_state r')]\<rparr>)))"

definition commit_outputs :: "request_store \<Rightarrow> batch_plan \<Rightarrow> token list \<Rightarrow> commit_state result" where
  "commit_outputs st plan outs =
     bind_r (commit_prefill outs 0 (bp_prefill_rows plan) \<lparr>cs_store = st, cs_finished_req_ids = [], cs_crops = []\<rparr>) (\<lambda>cs.
     bind_r (commit_decode outs (bp_normal_decode_rows plan) cs) (commit_verify outs (bp_verify_plan_items plan)))"

text \<open>
  The loop passes no stop tokens to the acceptance, unlike the target worker, and judges a request finished by its
  last token. A stop token inside the accepted tokens therefore marks the request finished, its KV rows are
  freed and its waiters woken, yet tokens follow the stop token and the scheduler goes on running it.
\<close>

definition overrun_store :: request_store where
  "overrun_store q = \<lparr>sp_prompt_len = 2, sp_output_token_ids = [5], rq_prompt_token_ids = [1, 2], rq_output_len = 10,
     rq_stop_token_ids = [7], rq_request_id = int q, rq_spec_proposal = Some \<lparr>pr_request_id = 0, pr_kind = ''linear'', pr_draft_token_ids = [7, 9]\<rparr>,
     rq_output_q = [5], rq_finished_event = False, rq_num_draft_tokens = 0, rq_num_accepted_tokens = 0, rq_num_spec_steps = 0\<rparr>"

theorem engine_runs_past_stop_token:
  "case bind_r (build_batch_plan overrun_store [0]) (\<lambda>plan. commit_outputs overrun_store plan [7, 9, 4]) of
     Inl _ \<Rightarrow> False
   | Inr cs \<Rightarrow> sp_output_token_ids (cs_store cs 0) = [5, 7, 9, 4] \<and> rq_finished_event (cs_store cs 0)
       \<and> cs_finished_req_ids cs = [0] \<and> \<not> is_finished (cs_store cs 0)"
  by code_simp

section \<open>Properties\<close>

text \<open>C34: the scheduler is strictly first come first served and loses nobody: in every serving history the running,
  swapped and waiting requests, read in that order, are a subsequence of the arrivals, and whoever left
  the line has finished. Preemption and swapping in never let a request overtake another.\<close>

theorem strict_fcfs:
  assumes "serving c n s b arrived"
  shows "subseq (sd_running_q s @ sd_swapped_q s @ sd_waiting_q s) arrived
     \<and> (\<forall>q \<in> set arrived. q \<notin> set (sd_running_q s @ sd_swapped_q s @ sd_waiting_q s) \<longrightarrow> is_finished (sd_store s q))"
  using serving_invariant [OF assms] by (simp add: serving_inv_def line_def)

definition demo_sched_config :: sched_config where
  "demo_sched_config = \<lparr>sc_block_size = 4, sc_max_batch_size = 2, sc_max_tokens_in_batch = 20, sc_num_gpu_blocks = 3\<rparr>"

definition demo_requests :: request_store where
  "demo_requests q = \<lparr>sp_prompt_len = 3, sp_output_token_ids = [], rq_prompt_token_ids = [1, 2, 3], rq_output_len = 5,
     rq_stop_token_ids = [], rq_request_id = -1, rq_spec_proposal = None, rq_output_q = [], rq_finished_event = False,
     rq_num_draft_tokens = 0, rq_num_accepted_tokens = 0, rq_num_spec_steps = 0\<rparr>"

definition demo_arrived :: sched where
  "demo_arrived = on_requests_arrival ((new_sched demo_requests 8)\<lparr>sd_store := demo_requests\<rparr>) [4, 5, 6]"

lemma demo_serving: "serving demo_sched_config 8 demo_arrived None [4, 5, 6]"
  unfolding demo_arrived_def
  using serving_arrive [OF serving_init [of demo_sched_config 8 demo_requests], of "[4, 5, 6]" demo_requests] by simp

lemma demo_next: "\<exists>sl s'. get_next_batch demo_sched_config demo_arrived = (Inr sl, s') \<and> sl_batch sl = [4, 5]"
proof -
  have "case get_next_batch demo_sched_config demo_arrived of (Inl _, _) \<Rightarrow> False | (Inr sl, _) \<Rightarrow> sl_batch sl = [4, 5]" by code_simp
  then show ?thesis by (auto split: prod.splits sum.splits)
qed

theorem strict_fcfs_witness:
  "\<exists>sl s'. get_next_batch demo_sched_config demo_arrived = (Inr sl, s') \<and> sl_batch sl = [4, 5]
     \<and> subseq (sd_running_q s' @ sd_swapped_q s' @ sd_waiting_q s') [4, 5, 6]"
proof -
  obtain sl s' where n: "get_next_batch demo_sched_config demo_arrived = (Inr sl, s')" "sl_batch sl = [4, 5]" using demo_next by blast
  from strict_fcfs [OF serving_next [OF demo_serving n(1)]] n show ?thesis by blast
qed

text \<open>C37: block-table rows are never shared: in every serving history each running or swapped request has a row of
  its own, in range and not among the free rows, every row is free or taken, and finishing a batch never
  fails.\<close>

theorem rows_never_shared:
  assumes "serving c n s b arrived"
  shows "inj_on (\<lambda>q. rq_request_id (sd_store s q)) (set (sd_running_q s) \<union> set (sd_swapped_q s))
     \<and> distinct (im_available (sd_ids s))
     \<and> set (im_available (sd_ids s)) \<inter> (\<lambda>q. rq_request_id (sd_store s q)) ` (set (sd_running_q s) \<union> set (sd_swapped_q s)) = {}
     \<and> set (im_available (sd_ids s)) \<union> (\<lambda>q. rq_request_id (sd_store s q)) ` (set (sd_running_q s) \<union> set (sd_swapped_q s)) = {0..<im_max_id (sd_ids s)}
     \<and> (\<forall>batch. b = Some batch \<longrightarrow> fst (on_batch_finish s batch) = Inr ())"
proof -
  have inv: "serving_inv s b arrived" by (rule serving_invariant [OF assms])
  have "fst (on_batch_finish s batch) = Inr ()" if "b = Some batch" for batch
    using finish_inv(2) [OF inv [unfolded that], of "fst (on_batch_finish s batch)" "snd (on_batch_finish s batch)"] by simp
  then show ?thesis using inv by (simp add: serving_inv_def rows_ok_def taken_ids_def resident_def row_of_def [abs_def])
qed

theorem rows_never_shared_witness:
  "\<exists>sl s'. get_next_batch demo_sched_config demo_arrived = (Inr sl, s')
     \<and> inj_on (\<lambda>q. rq_request_id (sd_store s' q)) (set (sd_running_q s') \<union> set (sd_swapped_q s'))
     \<and> fst (on_batch_finish s' [4, 5]) = Inr ()"
proof -
  obtain sl s' where n: "get_next_batch demo_sched_config demo_arrived = (Inr sl, s')" "sl_batch sl = [4, 5]" using demo_next by blast
  from rows_never_shared [OF serving_next [OF demo_serving n(1)]] n show ?thesis by auto
qed



end
