(* ===== verification/BitmapBlocks.thy ===== *)
theory BitmapBlocks
  imports Prelude "HOL-Library.Multiset"
begin

text \<open>
  The bitmap path of \<open>swiftLLM/swiftllm/worker/block_manager.py\<close> and the kernels of \<open>worker/kernels/block_mgmt.py\<close>:
  the KV blocks of the GPU, the sequences that hold them and the block table the attention kernel reads.
  Tensors are lists; the block table is the flat memory the kernels address, row after row. A kernel's
  programs run one per sequence and touch different sequences, so their order is that of the batch.
\<close>

section \<open>State\<close>

record block_manager =
  bm_num_free_blocks :: int
  bm_block_size :: nat
  bm_max_blocks_per_seq :: nat
  bm_num_seq_allocated :: "nat list"
  bm_block_table :: "nat list"
  bm_is_block_free :: "bool list"

definition new_block_manager :: "nat \<Rightarrow> nat \<Rightarrow> nat \<Rightarrow> nat list \<Rightarrow> nat \<Rightarrow> block_manager" where
  "new_block_manager num_blocks max_seqs max_blocks table block_size =
     \<lparr>bm_num_free_blocks = int num_blocks, bm_block_size = block_size, bm_max_blocks_per_seq = max_blocks,
      bm_num_seq_allocated = replicate max_seqs 0, bm_block_table = table, bm_is_block_free = replicate num_blocks True\<rparr>"

section \<open>The bitmap\<close>

fun mark_blocks :: "bool \<Rightarrow> nat list \<Rightarrow> bool list \<Rightarrow> bool list" where
  "mark_blocks v [] bits = bits"
| "mark_blocks v (b # bs) bits = mark_blocks v bs (bits[b := v])"

text \<open>\<open>torch.nonzero(is_block_free)\<close>\<close>

definition free_ids_of :: "bool list \<Rightarrow> nat list" where
  "free_ids_of bits = filter (\<lambda>b. bits ! b) [0..<length bits]"

definition allocate_blocks :: "block_manager \<Rightarrow> nat \<Rightarrow> (nat list \<times> block_manager) result" where
  "allocate_blocks m n =
     (if int n > bm_num_free_blocks m then Inl (RuntimeError ''No enough free blocks available'')
      else let selected = take n (free_ids_of (bm_is_block_free m))
           in Inr (selected, m\<lparr>bm_num_free_blocks := bm_num_free_blocks m - int n,
                               bm_is_block_free := mark_blocks False selected (bm_is_block_free m)\<rparr>))"

definition free_blocks :: "block_manager \<Rightarrow> nat list \<Rightarrow> block_manager" where
  "free_blocks m ids = m\<lparr>bm_num_free_blocks := bm_num_free_blocks m + int (length ids),
     bm_is_block_free := mark_blocks True ids (bm_is_block_free m)\<rparr>"

section \<open>The kernels\<close>

fun store_blocks :: "nat \<Rightarrow> nat list \<Rightarrow> nat list \<Rightarrow> nat list" where
  "store_blocks pos [] table = table"
| "store_blocks pos (b # bs) table = store_blocks (pos + 1) bs (table[pos := b])"

text \<open>One program of \<open>set_block_table_and_num_seq_alloc_blocks\<close>: it appends the candidate blocks to the row
  of its sequence, without looking where the row ends.\<close>

definition append_to_row :: "block_manager \<Rightarrow> nat \<Rightarrow> nat list \<Rightarrow> block_manager" where
  "append_to_row m s blocks =
     m\<lparr>bm_block_table := store_blocks (s * bm_max_blocks_per_seq m + bm_num_seq_allocated m ! s) blocks (bm_block_table m),
       bm_num_seq_allocated := (bm_num_seq_allocated m)[s := bm_num_seq_allocated m ! s + length blocks]\<rparr>"

fun set_block_table :: "block_manager \<Rightarrow> nat list \<Rightarrow> (nat \<times> nat) list \<Rightarrow> block_manager" where
  "set_block_table m candidates [] = m"
| "set_block_table m candidates ((s, n) # rest) = set_block_table (append_to_row m s (take n candidates)) (drop n candidates) rest"

definition row_blocks :: "block_manager \<Rightarrow> nat \<Rightarrow> nat list" where
  "row_blocks m s = subbuf (s * bm_max_blocks_per_seq m) (bm_num_seq_allocated m ! s) (bm_block_table m)"

definition unset_row :: "block_manager \<Rightarrow> nat \<Rightarrow> block_manager" where
  "unset_row m s = m\<lparr>bm_is_block_free := mark_blocks True (row_blocks m s) (bm_is_block_free m),
     bm_num_seq_allocated := (bm_num_seq_allocated m)[s := 0]\<rparr>"

section \<open>Operations on sequences\<close>

definition blocks_for :: "block_manager \<Rightarrow> nat \<Rightarrow> nat" where
  "blocks_for m len = (len + (bm_block_size m - 1)) div bm_block_size m"

definition allocate_blocks_for_seqs :: "block_manager \<Rightarrow> (nat \<times> nat) list \<Rightarrow> (nat list \<times> block_manager) result" where
  "allocate_blocks_for_seqs m targets =
     (if \<exists>t \<in> set targets. length (bm_num_seq_allocated m) \<le> fst t then Inl (IndexError ''index out of range'')
      else if \<exists>t \<in> set targets. blocks_for m (snd t) < bm_num_seq_allocated m ! fst t
      then Inl (AssertionError ''Logic error: Some sequences have more blocks already allocated than needed.'')
      else let needed = map (\<lambda>t. (fst t, blocks_for m (snd t) - bm_num_seq_allocated m ! fst t)) targets
           in bind_r (allocate_blocks m (sum_list (map snd needed))) (\<lambda>(blocks, m').
              Inr (blocks, set_block_table m' blocks needed)))"

definition free_blocks_for_seqs :: "block_manager \<Rightarrow> nat list \<Rightarrow> block_manager" where
  "free_blocks_for_seqs m ss =
     fold (\<lambda>s m. unset_row m s) ss
       (m\<lparr>bm_num_free_blocks := bm_num_free_blocks m + int (sum_list (map (\<lambda>s. bm_num_seq_allocated m ! s) ss))\<rparr>)"

definition crop_seq :: "block_manager \<Rightarrow> nat \<Rightarrow> nat \<Rightarrow> block_manager result" where
  "crop_seq m s len =
     (let target = blocks_for m len; current = bm_num_seq_allocated m ! s in
      if target > current then Inl (RuntimeError ''Cannot crop seq up'')
      else if target = current then Inr m
      else Inr ((free_blocks m (drop target (row_blocks m s)))
             \<lparr>bm_num_seq_allocated := (bm_num_seq_allocated m)[s := target]\<rparr>))"

text \<open>The sequences before one that cannot be cropped stay cropped.\<close>

fun crop_blocks_for_seqs :: "block_manager \<Rightarrow> (nat \<times> nat) list \<Rightarrow> unit result \<times> block_manager" where
  "crop_blocks_for_seqs m [] = (Inr (), m)"
| "crop_blocks_for_seqs m (target # rest) = (case crop_seq m (fst target) (snd target) of
      Inl e \<Rightarrow> (Inl e, m) | Inr m' \<Rightarrow> crop_blocks_for_seqs m' rest)"

text \<open>\<open>gather_allocated_blocks_and_free\<close> lists the blocks of the batch and frees them.\<close>

fun gather_and_unset :: "block_manager \<Rightarrow> nat list \<Rightarrow> nat list \<times> block_manager" where
  "gather_and_unset m [] = ([], m)"
| "gather_and_unset m (s # ss) = (case gather_and_unset (unset_row m s) ss of (ids, m') \<Rightarrow> (row_blocks m s @ ids, m'))"

definition gather_allocated_blocks_and_free :: "block_manager \<Rightarrow> nat list \<Rightarrow> nat list \<times> block_manager" where
  "gather_allocated_blocks_and_free m ss =
     (case gather_and_unset m ss of (ids, m') \<Rightarrow> (ids, m'\<lparr>bm_num_free_blocks := bm_num_free_blocks m' + int (length ids)\<rparr>))"

definition get_allocated_block_ids :: "block_manager \<Rightarrow> nat \<Rightarrow> nat list result" where
  "get_allocated_block_ids m s = bind_r (require (s < length (bm_num_seq_allocated m)) (IndexError ''seq_id is out of block table range''))
     (\<lambda>_. Inr (row_blocks m s))"

section \<open>Bits and rows\<close>

lemma length_mark_blocks [simp]: "length (mark_blocks v bs bits) = length bits"
  by (induction bs arbitrary: bits) simp_all

lemma nth_mark_blocks:
  "b < length bits \<Longrightarrow> mark_blocks v bs bits ! b = (if b \<in> set bs then v else bits ! b)"
  by (induction bs arbitrary: bits) (auto simp: nth_list_update)

lemma set_free_ids [simp]: "set (free_ids_of bits) = {b. b < length bits \<and> bits ! b}"
  by (auto simp: free_ids_of_def)

lemma distinct_free_ids [simp]: "distinct (free_ids_of bits)"
  by (simp add: free_ids_of_def)

lemma length_store_blocks [simp]: "length (store_blocks pos bs table) = length table"
  by (induction bs arbitrary: pos table) simp_all

lemma store_blocks_overwrite: "pos + length bs \<le> length table \<Longrightarrow> store_blocks pos bs table = overwrite pos bs table"
proof (induction bs arbitrary: pos table)
  case (Cons b bs)
  then show ?case by (simp add: overwrite_def upd_conv_take_nth_drop take_Suc_conv_app_nth min_absorb1 add.commute)
qed (simp add: overwrite_def)

section \<open>Ownership\<close>

definition taken :: "block_manager \<Rightarrow> nat set" where
  "taken m = {b. b < length (bm_is_block_free m) \<and> \<not> bm_is_block_free m ! b}"

definition seqs :: "block_manager \<Rightarrow> nat" where
  "seqs m = length (bm_num_seq_allocated m)"

definition held :: "block_manager \<Rightarrow> nat multiset" where
  "held m = (\<Sum>s < seqs m. mset (row_blocks m s))"

text \<open>
  \<open>pending\<close> blocks have been taken from the bitmap and are not in a row yet; \<open>d\<close> is what the free counter is
  ahead of the bitmap. Between operations there are none and it is 0.
\<close>

definition shape_ok :: "block_manager \<Rightarrow> bool" where
  "shape_ok m \<longleftrightarrow> length (bm_block_table m) = seqs m * bm_max_blocks_per_seq m
     \<and> (\<forall>s < seqs m. bm_num_seq_allocated m ! s \<le> bm_max_blocks_per_seq m)"

definition blocks_inv :: "block_manager \<Rightarrow> nat list \<Rightarrow> int \<Rightarrow> bool" where
  "blocks_inv m pending d \<longleftrightarrow> shape_ok m \<and> mset pending + held m = mset_set (taken m)
     \<and> bm_num_free_blocks m = int (length (bm_is_block_free m)) - int (card (taken m)) + d"

lemma finite_taken [simp]: "finite (taken m)" by (simp add: taken_def)

lemma row_end: "shape_ok m \<Longrightarrow> s < seqs m \<Longrightarrow> n \<le> bm_max_blocks_per_seq m \<Longrightarrow> s * bm_max_blocks_per_seq m + n \<le> length (bm_block_table m)"
proof -
  assume "shape_ok m" "s < seqs m" "n \<le> bm_max_blocks_per_seq m"
  then have "s * bm_max_blocks_per_seq m + n \<le> Suc s * bm_max_blocks_per_seq m" by simp
  also have "\<dots> \<le> seqs m * bm_max_blocks_per_seq m" using \<open>s < seqs m\<close> by (intro mult_right_mono) simp_all
  finally show ?thesis using \<open>shape_ok m\<close> by (simp add: shape_ok_def)
qed

lemma rows_apart: "(s :: nat) \<noteq> t \<Longrightarrow> n \<le> w \<Longrightarrow> k \<le> w \<Longrightarrow> s * w + n \<le> t * w \<or> t * w + k \<le> s * w"
proof (cases "s < t")
  case True
  assume "n \<le> w"
  then have "s * w + n \<le> Suc s * w" by simp
  also have "\<dots> \<le> t * w" using True by (intro mult_right_mono) simp_all
  finally show ?thesis ..
next
  case False
  assume "s \<noteq> t" "k \<le> w"
  then have "t * w + k \<le> Suc t * w" by simp
  also have "\<dots> \<le> s * w" using False \<open>s \<noteq> t\<close> by (intro mult_right_mono) simp_all
  finally show ?thesis ..
qed

lemma length_row_blocks: "shape_ok m \<Longrightarrow> s < seqs m \<Longrightarrow> length (row_blocks m s) = bm_num_seq_allocated m ! s"
  using row_end [of m s "bm_num_seq_allocated m ! s"] by (simp add: row_blocks_def shape_ok_def)

text \<open>Changing one row changes the blocks held by that row's difference.\<close>

lemma held_update:
  assumes "s < seqs m" "seqs m' = seqs m" "\<And>t. t < seqs m \<Longrightarrow> t \<noteq> s \<Longrightarrow> row_blocks m' t = row_blocks m t"
  shows "held m' + mset (row_blocks m s) = held m + mset (row_blocks m' s)"
proof -
  have "held n = (\<Sum>t \<in> {..<seqs m} - {s}. mset (row_blocks n t)) + mset (row_blocks n s)" if "seqs n = seqs m" for n
    unfolding held_def that using assms(1) by (simp add: sum.remove [of "{..<seqs m}" s] add.commute)
  moreover have "(\<Sum>t \<in> {..<seqs m} - {s}. mset (row_blocks m' t)) = (\<Sum>t \<in> {..<seqs m} - {s}. mset (row_blocks m t))"
    using assms(3) by (intro sum.cong) auto
  ultimately show ?thesis using assms(2) by (simp add: add.commute add.left_commute)
qed

lemma row_subset: "blocks_inv m pending d \<Longrightarrow> s < seqs m \<Longrightarrow> mset (row_blocks m s) \<subseteq># mset_set (taken m)"
proof -
  assume inv: "blocks_inv m pending d" and s: "s < seqs m"
  have "held m = mset (row_blocks m s) + (\<Sum>t \<in> {..<seqs m} - {s}. mset (row_blocks m t))"
    unfolding held_def using s by (simp add: sum.remove [of "{..<seqs m}" s])
  then have "mset (row_blocks m s) \<subseteq># mset pending + held m" by simp
  then show ?thesis using inv by (simp add: blocks_inv_def)
qed

lemma row_distinct: "blocks_inv m pending d \<Longrightarrow> s < seqs m \<Longrightarrow> distinct (row_blocks m s) \<and> set (row_blocks m s) \<subseteq> taken m"
proof -
  assume a: "blocks_inv m pending d" "s < seqs m"
  note sub = row_subset [OF a]
  have "count (mset (row_blocks m s)) b \<le> 1" for b
  proof -
    have "count (mset_set (taken m)) b \<le> 1" by (simp add: count_mset_set')
    then show ?thesis using mset_subset_eq_count [OF sub, of b] by simp
  qed
  then have "distinct (row_blocks m s)"
    unfolding distinct_count_atmost_1 by (auto simp: count_mset_0_iff intro!: le_antisym Suc_leI)
  moreover have "set (row_blocks m s) \<subseteq> taken m" using set_mset_mono [OF sub] by simp
  ultimately show ?thesis by simp
qed

section \<open>What the operations do to ownership\<close>

lemma append_to_row_inv:
  assumes inv: "blocks_inv m (bs @ pending) d" and s: "s < seqs m"
    and fits: "bm_num_seq_allocated m ! s + length bs \<le> bm_max_blocks_per_seq m"
  shows "blocks_inv (append_to_row m s bs) pending d" "row_blocks (append_to_row m s bs) s = row_blocks m s @ bs"
    "\<And>t. t < seqs m \<Longrightarrow> t \<noteq> s \<Longrightarrow> row_blocks (append_to_row m s bs) t = row_blocks m t"
    "seqs (append_to_row m s bs) = seqs m" "bm_max_blocks_per_seq (append_to_row m s bs) = bm_max_blocks_per_seq m"
    "\<And>t. t \<noteq> s \<Longrightarrow> bm_num_seq_allocated (append_to_row m s bs) ! t = bm_num_seq_allocated m ! t"
proof -
  let ?m = "append_to_row m s bs" and ?w = "bm_max_blocks_per_seq m" and ?c = "bm_num_seq_allocated m ! s"
  have sh: "shape_ok m" using inv by (simp add: blocks_inv_def)
  have room: "s * ?w + ?c + length bs \<le> length (bm_block_table m)" using row_end [OF sh s fits] by simp
  show facts: "seqs ?m = seqs m" "bm_max_blocks_per_seq ?m = ?w"
    and other: "\<And>t. t \<noteq> s \<Longrightarrow> bm_num_seq_allocated ?m ! t = bm_num_seq_allocated m ! t"
    by (simp_all add: append_to_row_def seqs_def)
  have own: "bm_num_seq_allocated ?m ! s = ?c + length bs" using s by (simp add: append_to_row_def seqs_def)
  have table: "bm_block_table ?m = overwrite (s * ?w + ?c) bs (bm_block_table m)"
    using room by (simp add: append_to_row_def store_blocks_overwrite)
  have "subbuf (s * ?w) (?c + length bs) (overwrite (s * ?w + ?c) bs (bm_block_table m)) = subbuf (s * ?w) ?c (bm_block_table m) @ bs"
    using room by (simp add: subbuf_def overwrite_def drop_take min_absorb1)
  then show row: "row_blocks ?m s = row_blocks m s @ bs" by (simp add: row_blocks_def facts own table)
  show rest: "\<And>t. t < seqs m \<Longrightarrow> t \<noteq> s \<Longrightarrow> row_blocks ?m t = row_blocks m t"
  proof -
    fix t
    assume t: "t < seqs m" "t \<noteq> s"
    then have "bm_num_seq_allocated m ! t \<le> ?w" using sh by (simp add: shape_ok_def)
    from rows_apart [OF t(2) this fits] show "row_blocks ?m t = row_blocks m t"
      using room other [OF t(2)] by (simp add: row_blocks_def facts table subbuf_overwrite_disjoint add.assoc disj_forward)
  qed
  have "shape_ok ?m" using sh s fits room by (auto simp: shape_ok_def facts own table nth_list_update append_to_row_def seqs_def)
  moreover have "held ?m = held m + mset bs" using held_update [OF s facts(1) rest] by (simp add: row add.commute add.left_commute)
  moreover have "taken ?m = taken m" "bm_num_free_blocks ?m = bm_num_free_blocks m" "bm_is_block_free ?m = bm_is_block_free m"
    by (simp_all add: taken_def append_to_row_def)
  ultimately show "blocks_inv ?m pending d" using inv by (simp add: blocks_inv_def add.commute add.left_commute)
qed

lemma set_block_table_inv:
  assumes "blocks_inv m blocks d" "distinct (map fst needed)" "sum_list (map snd needed) = length blocks"
    and "\<forall>(s, n) \<in> set needed. s < seqs m \<and> bm_num_seq_allocated m ! s + n \<le> bm_max_blocks_per_seq m"
  shows "blocks_inv (set_block_table m blocks needed) [] d \<and> seqs (set_block_table m blocks needed) = seqs m"
  using assms
proof (induction m blocks needed rule: set_block_table.induct)
  case (2 m blocks s n rest)
  let ?m = "append_to_row m s (take n blocks)"
  have inv: "blocks_inv m (take n blocks @ drop n blocks) d" and s: "s < seqs m"
    and fits: "bm_num_seq_allocated m ! s + length (take n blocks) \<le> bm_max_blocks_per_seq m" using 2 by auto
  note a = append_to_row_inv [OF inv s fits]
  have "\<forall>(t, k) \<in> set rest. t < seqs ?m \<and> bm_num_seq_allocated ?m ! t + k \<le> bm_max_blocks_per_seq ?m"
  proof (intro ballI, clarify)
    fix t k
    assume "(t, k) \<in> set rest"
    moreover from this have "t \<noteq> s" using 2(3) by force
    ultimately show "t < seqs ?m \<and> bm_num_seq_allocated ?m ! t + k \<le> bm_max_blocks_per_seq ?m" using 2(5) a(4-6) by auto
  qed
  with 2(1) [OF a(1)] 2(3,4) a(4) show ?case by simp
qed simp

lemma allocate_blocks_inv:
  assumes inv: "blocks_inv m [] 0" and a: "allocate_blocks m n = Inr (blocks, m')"
  shows "blocks_inv m' blocks 0" "length blocks = n" "seqs m' = seqs m" "bm_max_blocks_per_seq m' = bm_max_blocks_per_seq m"
    "bm_num_seq_allocated m' = bm_num_seq_allocated m" "set blocks \<inter> taken m = {}" "bm_block_size m' = bm_block_size m"
proof -
  let ?free = "free_ids_of (bm_is_block_free m)"
  have blocks: "blocks = take n ?free" and m': "m' = m\<lparr>bm_num_free_blocks := bm_num_free_blocks m - int n,
      bm_is_block_free := mark_blocks False blocks (bm_is_block_free m)\<rparr>" and n: "int n \<le> bm_num_free_blocks m"
    using a by (auto simp: allocate_blocks_def Let_def split: if_splits)
  have "card (set ?free) + card (taken m) = length (bm_is_block_free m)"
  proof -
    have "set ?free \<union> taken m = {..<length (bm_is_block_free m)}" "set ?free \<inter> taken m = {}" by (auto simp: taken_def)
    then show ?thesis using card_Un_disjoint [of "set ?free" "taken m"] by simp
  qed
  then have "n \<le> length ?free" using n inv distinct_card [of ?free] by (simp add: blocks_inv_def)
  then show len: "length blocks = n" by (simp add: blocks)
  have d: "distinct blocks" "set blocks \<subseteq> set ?free" by (auto simp: blocks dest: in_set_takeD)
  then show disj: "set blocks \<inter> taken m = {}" by (auto simp: taken_def)
  show same: "seqs m' = seqs m" "bm_max_blocks_per_seq m' = bm_max_blocks_per_seq m"
    "bm_num_seq_allocated m' = bm_num_seq_allocated m" "bm_block_size m' = bm_block_size m" by (simp_all add: m' seqs_def)
  have held: "held m' = held m" by (simp add: held_def m' row_blocks_def seqs_def)
  have tk: "taken m' = set blocks \<union> taken m" using d by (auto simp: taken_def m' nth_mark_blocks split: if_splits)
  have "mset_set (taken m') = mset blocks + mset_set (taken m)"
    unfolding tk using disj d(1) by (simp add: mset_set_Union mset_set_set)
  moreover have "card (taken m') = n + card (taken m)"
    unfolding tk using disj d(1) len by (simp add: card_Un_disjoint distinct_card)
  ultimately show "blocks_inv m' blocks 0" using inv held by (simp add: blocks_inv_def shape_ok_def same) (simp add: m')
qed

lemma allocate_for_seqs_inv:
  assumes inv: "blocks_inv m [] 0" and dist: "distinct (map fst targets)"
    and fits: "\<forall>t \<in> set targets. blocks_for m (snd t) \<le> bm_max_blocks_per_seq m"
    and a: "allocate_blocks_for_seqs m targets = Inr (blocks, m')"
  shows "blocks_inv m' [] 0" "seqs m' = seqs m"
proof -
  let ?needed = "map (\<lambda>t. (fst t, blocks_for m (snd t) - bm_num_seq_allocated m ! fst t)) targets"
  obtain m1 where al: "allocate_blocks m (sum_list (map snd ?needed)) = Inr (blocks, m1)"
    and m': "m' = set_block_table m1 blocks ?needed"
    and ok: "\<forall>t \<in> set targets. fst t < seqs m \<and> bm_num_seq_allocated m ! fst t \<le> blocks_for m (snd t)"
    using a by (auto simp: allocate_blocks_for_seqs_def Let_def bind_r_eq_Inr seqs_def not_le not_less split: if_splits)
  note i = allocate_blocks_inv [OF inv al]
  have fst: "map fst ?needed = map fst targets" by (induction targets) auto
  have need: "\<forall>(s, n) \<in> set ?needed. s < seqs m1 \<and> bm_num_seq_allocated m1 ! s + n \<le> bm_max_blocks_per_seq m1"
    using ok fits i(3-5) by fastforce
  have "distinct (map fst ?needed)" unfolding fst by (rule dist)
  from set_block_table_inv [OF i(1) this i(2) [symmetric] need]
  show "blocks_inv m' [] 0" "seqs m' = seqs m" using i(3) by (simp_all add: m')
qed

lemma unset_row_inv:
  assumes inv: "blocks_inv m [] d" and s: "s < seqs m"
  shows "blocks_inv (unset_row m s) [] (d - int (bm_num_seq_allocated m ! s))" "seqs (unset_row m s) = seqs m"
    "\<And>t. t \<noteq> s \<Longrightarrow> bm_num_seq_allocated (unset_row m s) ! t = bm_num_seq_allocated m ! t"
proof -
  let ?m = "unset_row m s"
  have sh: "shape_ok m" using inv by (simp add: blocks_inv_def)
  show seqs: "seqs ?m = seqs m" and other: "\<And>t. t \<noteq> s \<Longrightarrow> bm_num_seq_allocated ?m ! t = bm_num_seq_allocated m ! t"
    by (simp_all add: unset_row_def seqs_def)
  have own: "bm_num_seq_allocated ?m ! s = 0" using s by (simp add: unset_row_def seqs_def)
  have rows: "row_blocks ?m s = []" "\<And>t. t \<noteq> s \<Longrightarrow> row_blocks ?m t = row_blocks m t"
    by (simp_all add: row_blocks_def own other) (simp_all add: unset_row_def)
  have held: "held ?m + mset (row_blocks m s) = held m" using held_update [OF s seqs rows(2)] by (simp add: rows(1))
  note r = row_distinct [OF inv s]
  have tk: "taken ?m = taken m - set (row_blocks m s)" by (auto simp: taken_def unset_row_def nth_mark_blocks split: if_splits)
  have "mset_set (taken ?m) = mset_set (taken m) - mset (row_blocks m s)"
    unfolding tk using r by (simp add: mset_set_Diff mset_set_set)
  moreover have "card (taken ?m) + bm_num_seq_allocated m ! s = card (taken m)"
  proof -
    have c: "card (set (row_blocks m s)) = bm_num_seq_allocated m ! s" using distinct_card r length_row_blocks [OF sh s] by metis
    have "card (set (row_blocks m s)) \<le> card (taken m)" using r by (intro card_mono) auto
    then show ?thesis unfolding tk using r c by (simp add: card_Diff_subset)
  qed
  moreover have "shape_ok ?m" 
  proof -
    have "bm_num_seq_allocated ?m ! t \<le> bm_max_blocks_per_seq m" if "t < seqs m" for t
      using sh that own other by (cases "t = s") (simp_all add: shape_ok_def)
    then show ?thesis using sh by (simp add: shape_ok_def seqs) (simp add: unset_row_def)
  qed
  moreover have "held ?m = mset_set (taken m) - mset (row_blocks m s)"
    using held inv by (simp add: blocks_inv_def) (metis add_diff_cancel_right')
  ultimately show "blocks_inv ?m [] (d - int (bm_num_seq_allocated m ! s))"
    using inv by (simp add: blocks_inv_def) (simp add: unset_row_def)
qed

lemma unset_rows_inv:
  assumes "blocks_inv m [] (d + int (sum_list (map (\<lambda>s. bm_num_seq_allocated m ! s) ss)))" "distinct ss" "\<forall>s \<in> set ss. s < seqs m"
  shows "blocks_inv (fold (\<lambda>s m. unset_row m s) ss m) [] d \<and> seqs (fold (\<lambda>s m. unset_row m s) ss m) = seqs m"
  using assms
proof (induction ss arbitrary: m)
  case (Cons s ss)
  have s: "s < seqs m" using Cons.prems by simp
  note u = unset_row_inv [OF Cons.prems(1) s]
  have same: "map (\<lambda>t. bm_num_seq_allocated (unset_row m s) ! t) ss = map (\<lambda>t. bm_num_seq_allocated m ! t) ss"
    using Cons.prems(2) by (intro map_cong refl u(3)) auto
  have "d + int (sum_list (map (\<lambda>s. bm_num_seq_allocated m ! s) (s # ss))) - int (bm_num_seq_allocated m ! s)
      = d + int (sum_list (map (\<lambda>t. bm_num_seq_allocated (unset_row m s) ! t) ss))" unfolding same by simp
  with u(1) have "blocks_inv (unset_row m s) [] (d + int (sum_list (map (\<lambda>t. bm_num_seq_allocated (unset_row m s) ! t) ss)))" by simp
  from Cons.IH [OF this] Cons.prems(2,3) u(2) show ?case by simp
qed simp

lemma blocks_inv_counter:
  "blocks_inv m pending d \<Longrightarrow> blocks_inv (m\<lparr>bm_num_free_blocks := bm_num_free_blocks m + k\<rparr>) pending (d + k)"
  "seqs (m\<lparr>bm_num_free_blocks := n\<rparr>) = seqs m"
proof -
  let ?m = "m\<lparr>bm_num_free_blocks := bm_num_free_blocks m + k\<rparr>"
  show seqs: "seqs (m\<lparr>bm_num_free_blocks := n\<rparr>) = seqs m" for n by (simp add: seqs_def)
  have "held ?m = held m" by (simp add: held_def seqs row_blocks_def)
  then show "blocks_inv m pending d \<Longrightarrow> blocks_inv ?m pending (d + k)"
    by (simp add: blocks_inv_def shape_ok_def seqs taken_def)
qed

lemma free_blocks_for_seqs_inv:
  assumes "blocks_inv m [] 0" "distinct ss" "\<forall>s \<in> set ss. s < seqs m"
  shows "blocks_inv (free_blocks_for_seqs m ss) [] 0" "seqs (free_blocks_for_seqs m ss) = seqs m"
proof -
  let ?n = "int (sum_list (map (\<lambda>s. bm_num_seq_allocated m ! s) ss))"
  have "blocks_inv (m\<lparr>bm_num_free_blocks := bm_num_free_blocks m + ?n\<rparr>) [] (0 + ?n)"
    by (rule blocks_inv_counter(1) [OF assms(1)])
  from unset_rows_inv [of "m\<lparr>bm_num_free_blocks := bm_num_free_blocks m + ?n\<rparr>" 0 ss] this assms(2,3)
  show "blocks_inv (free_blocks_for_seqs m ss) [] 0" "seqs (free_blocks_for_seqs m ss) = seqs m"
    by (simp_all add: free_blocks_for_seqs_def seqs_def)
qed

lemma crop_seq_inv:
  assumes inv: "blocks_inv m [] 0" and s: "s < seqs m" and c: "crop_seq m s len = Inr m'"
  shows "blocks_inv m' [] 0" "seqs m' = seqs m"
proof -
  let ?t = "blocks_for m len" and ?c = "bm_num_seq_allocated m ! s" and ?row = "row_blocks m s"
  have sh: "shape_ok m" using inv by (simp add: blocks_inv_def)
  show seqs: "seqs m' = seqs m" using c by (auto simp: crop_seq_def Let_def free_blocks_def seqs_def split: if_splits)
  show "blocks_inv m' [] 0"
  proof (cases "?t < ?c")
    case False
    then have "m' = m" using c by (auto simp: crop_seq_def Let_def split: if_splits)
    with inv show ?thesis by simp
  next
    case True
    then have m': "m' = (free_blocks m (drop ?t ?row))\<lparr>bm_num_seq_allocated := (bm_num_seq_allocated m)[s := ?t]\<rparr>"
      using c by (auto simp: crop_seq_def Let_def split: if_splits)
    have own: "bm_num_seq_allocated m' ! s = ?t" and other: "\<And>t. t \<noteq> s \<Longrightarrow> bm_num_seq_allocated m' ! t = bm_num_seq_allocated m ! t"
      using s by (simp_all add: m' seqs_def)
    have rows: "row_blocks m' s = take ?t ?row" "\<And>t. t \<noteq> s \<Longrightarrow> row_blocks m' t = row_blocks m t"
      using True by (simp_all add: row_blocks_def own other subbuf_def min_absorb1) (simp_all add: m' free_blocks_def)
    note r = row_distinct [OF inv s]
    let ?gone = "drop ?t ?row"
    have gone: "distinct ?gone" "set ?gone \<subseteq> taken m" "length ?gone = ?c - ?t"
      using r length_row_blocks [OF sh s] by (auto dest: in_set_dropD)
    have "mset ?row = mset (take ?t ?row) + mset ?gone" by (metis append_take_drop_id mset_append)
    then have held: "held m' + mset ?gone = held m"
      using held_update [OF s seqs rows(2)] by (simp add: rows(1) add.commute add.left_commute)
    have tk: "taken m' = taken m - set ?gone" by (auto simp: taken_def m' free_blocks_def nth_mark_blocks split: if_splits)
    have "mset_set (taken m') = mset_set (taken m) - mset ?gone" unfolding tk using gone by (simp add: mset_set_Diff mset_set_set)
    moreover have "card (taken m') + (?c - ?t) = card (taken m)"
    proof -
      have k: "card (set ?gone) = ?c - ?t" using distinct_card [OF gone(1)] gone(3) by simp
      have "card (set ?gone) \<le> card (taken m)" using gone(2) by (intro card_mono) auto
      then show ?thesis unfolding tk using gone(2) k by (simp add: card_Diff_subset)
    qed
    moreover have "shape_ok m'"
    proof -
      have "bm_num_seq_allocated m' ! t \<le> bm_max_blocks_per_seq m" if "t < seqs m" for t
        using sh that own other True s by (cases "t = s") (auto simp: shape_ok_def intro: le_trans less_imp_le)
      then show ?thesis using sh by (simp add: shape_ok_def seqs) (simp add: m' free_blocks_def)
    qed
    moreover have "held m' = mset_set (taken m) - mset ?gone"
      using held inv by (simp add: blocks_inv_def) (metis add_diff_cancel_right')
    ultimately show ?thesis using inv gone(3) True by (simp add: blocks_inv_def) (simp add: m' free_blocks_def)
  qed
qed

lemma crop_blocks_inv:
  assumes "blocks_inv m [] 0" "\<forall>t \<in> set targets. fst t < seqs m"
  shows "blocks_inv (snd (crop_blocks_for_seqs m targets)) [] 0 \<and> seqs (snd (crop_blocks_for_seqs m targets)) = seqs m"
  using assms
proof (induction m targets rule: crop_blocks_for_seqs.induct)
  case (2 m t rest)
  show ?case
  proof (cases "crop_seq m (fst t) (snd t)")
    case (Inr m')
    with 2 crop_seq_inv [OF 2(2) _ Inr] show ?thesis by simp
  qed (use 2 in simp)
qed simp

lemma gather_and_unset_fold:
  "gather_and_unset m ss = (ids, m') \<Longrightarrow> blocks_inv m [] d \<Longrightarrow> distinct ss \<Longrightarrow> \<forall>s \<in> set ss. s < seqs m \<Longrightarrow>
   m' = fold (\<lambda>s m. unset_row m s) ss m \<and> length ids = sum_list (map (\<lambda>s. bm_num_seq_allocated m ! s) ss)"
proof (induction ss arbitrary: m ids d)
  case (Cons s ss)
  have s: "s < seqs m" using Cons.prems by simp
  note u = unset_row_inv [OF Cons.prems(2) s]
  obtain ids' where g: "gather_and_unset (unset_row m s) ss = (ids', m')" and ids: "ids = row_blocks m s @ ids'"
    using Cons.prems(1) by (auto split: prod.splits)
  have same: "map (\<lambda>t. bm_num_seq_allocated (unset_row m s) ! t) ss = map (\<lambda>t. bm_num_seq_allocated m ! t) ss"
    using Cons.prems(3) by (intro map_cong refl u(3)) auto
  have "length (row_blocks m s) = bm_num_seq_allocated m ! s"
    using Cons.prems(2) s by (simp add: blocks_inv_def length_row_blocks)
  then show ?case using Cons.IH [OF g u(1)] Cons.prems(3,4) u(2) unfolding same by (simp add: ids)
qed simp

lemma gather_inv:
  assumes inv: "blocks_inv m [] 0" and ss: "distinct ss" "\<forall>s \<in> set ss. s < seqs m"
    and g: "gather_allocated_blocks_and_free m ss = (ids, m')"
  shows "blocks_inv m' [] 0" "seqs m' = seqs m"
proof -
  obtain m1 where g1: "gather_and_unset m ss = (ids, m1)" and m': "m' = m1\<lparr>bm_num_free_blocks := bm_num_free_blocks m1 + int (length ids)\<rparr>"
    using g by (auto simp: gather_allocated_blocks_and_free_def split: prod.splits)
  note f = gather_and_unset_fold [OF g1 inv ss]
  have "blocks_inv m [] (- int (length ids) + int (sum_list (map (\<lambda>s. bm_num_seq_allocated m ! s) ss)))" using inv f by simp
  from unset_rows_inv [OF this ss] have "blocks_inv m1 [] (- int (length ids)) \<and> seqs m1 = seqs m" using f by simp
  then show "blocks_inv m' [] 0" "seqs m' = seqs m"
    using blocks_inv_counter(1) [of m1 "[]" "- int (length ids)" "int (length ids)"] by (simp_all add: m' blocks_inv_counter(2))
qed

section \<open>Histories\<close>

datatype block_op =
    BAllocate "(nat \<times> nat) list"
  | BFree "nat list"
  | BCrop "(nat \<times> nat) list"
  | BGather "nat list"

text \<open>The callers name each sequence once, name rows of the table, and never ask for more blocks than a row has.\<close>

fun block_op_ok :: "block_manager \<Rightarrow> block_op \<Rightarrow> bool" where
  "block_op_ok m (BAllocate targets) \<longleftrightarrow> distinct (map fst targets) \<and> (\<forall>t \<in> set targets. blocks_for m (snd t) \<le> bm_max_blocks_per_seq m)"
| "block_op_ok m (BFree ss) \<longleftrightarrow> distinct ss \<and> (\<forall>s \<in> set ss. s < seqs m)"
| "block_op_ok m (BCrop targets) \<longleftrightarrow> (\<forall>t \<in> set targets. fst t < seqs m)"
| "block_op_ok m (BGather ss) \<longleftrightarrow> distinct ss \<and> (\<forall>s \<in> set ss. s < seqs m)"

fun block_step :: "block_manager \<Rightarrow> block_op \<Rightarrow> block_manager" where
  "block_step m (BAllocate targets) = (case allocate_blocks_for_seqs m targets of Inl _ \<Rightarrow> m | Inr (_, m') \<Rightarrow> m')"
| "block_step m (BFree ss) = free_blocks_for_seqs m ss"
| "block_step m (BCrop targets) = snd (crop_blocks_for_seqs m targets)"
| "block_step m (BGather ss) = snd (gather_allocated_blocks_and_free m ss)"

inductive block_reach :: "block_manager \<Rightarrow> block_manager \<Rightarrow> bool" for m0 where
  block_start: "block_reach m0 m0"
| block_next: "block_reach m0 m \<Longrightarrow> block_op_ok m op \<Longrightarrow> block_reach m0 (block_step m op)"

inductive_cases block_reachE: "block_reach m0 m"

lemma block_step_inv: "blocks_inv m [] 0 \<Longrightarrow> block_op_ok m op \<Longrightarrow> blocks_inv (block_step m op) [] 0"
proof (cases op)
  case (BAllocate targets)
  assume "blocks_inv m [] 0" "block_op_ok m op"
  then show ?thesis using BAllocate allocate_for_seqs_inv(1) [of m targets] by (auto split: sum.splits)
next
  case (BGather ss)
  assume "blocks_inv m [] 0" "block_op_ok m op"
  then show ?thesis using BGather gather_inv(1) [of m ss "fst (gather_allocated_blocks_and_free m ss)" "snd (gather_allocated_blocks_and_free m ss)"] by simp
qed (use free_blocks_for_seqs_inv crop_blocks_inv in auto)

lemma new_block_manager_inv:
  assumes "length table = max_seqs * max_blocks"
  shows "blocks_inv (new_block_manager num_blocks max_seqs max_blocks table block_size) [] 0"
proof -
  let ?m = "new_block_manager num_blocks max_seqs max_blocks table block_size"
  have "row_blocks ?m s = []" if "s < seqs ?m" for s using that by (simp add: row_blocks_def new_block_manager_def seqs_def)
  then have "held ?m = {#}" by (simp add: held_def)
  moreover have "taken ?m = {}" by (auto simp: taken_def new_block_manager_def)
  ultimately show ?thesis using assms by (simp add: blocks_inv_def shape_ok_def) (simp add: new_block_manager_def seqs_def)
qed

lemma block_reach_inv: "block_reach m0 m \<Longrightarrow> blocks_inv m0 [] 0 \<Longrightarrow> blocks_inv m [] 0"
  by (induction rule: block_reach.induct) (auto intro: block_step_inv)

lemma rows_disjoint:
  assumes inv: "blocks_inv m [] 0" and st: "s < seqs m" "t < seqs m" "s \<noteq> t"
  shows "set (row_blocks m s) \<inter> set (row_blocks m t) = {}"
proof -
  have "held m = mset (row_blocks m s) + (mset (row_blocks m t) + (\<Sum>u \<in> {..<seqs m} - {s} - {t}. mset (row_blocks m u)))"
    unfolding held_def using st by (simp add: sum.remove [of "{..<seqs m}" s] sum.remove [of "{..<seqs m} - {s}" t])
  then have "mset (row_blocks m s) + mset (row_blocks m t) \<subseteq># held m" by (simp add: add.assoc [symmetric])
  then have sub: "mset (row_blocks m s) + mset (row_blocks m t) \<subseteq># mset_set (taken m)" using inv by (simp add: blocks_inv_def)
  have "count (mset (row_blocks m s)) b + count (mset (row_blocks m t)) b \<le> 1" for b
  proof -
    have "count (mset_set (taken m)) b \<le> 1" by (simp add: count_mset_set')
    then show ?thesis using mset_subset_eq_count [OF sub, of b] by simp
  qed
  note one = this
  show ?thesis
  proof (intro equals0I, elim IntE)
    fix b
    assume "b \<in> set (row_blocks m s)" "b \<in> set (row_blocks m t)"
    then have "0 < count (mset (row_blocks m s)) b" "0 < count (mset (row_blocks m t)) b" by simp_all
    with one [of b] show False by linarith
  qed
qed

lemma held_member: "b \<in># held m \<longleftrightarrow> (\<exists>s < seqs m. b \<in> set (row_blocks m s))"
  by (auto simp: held_def set_mset_sum)

section \<open>Properties\<close>


definition demo_blocks :: block_manager where
  "demo_blocks = new_block_manager 6 2 3 [0, 0, 0, 0, 0, 0] 4"


text \<open>
  Nothing in the bitmap path keeps a caller within a row of the table: a sequence that needs one block more than a
  row has writes it into the row of the next sequence, whose next allocation overwrites it; the long
  sequence then reads a block that belongs to the other.
\<close>

theorem long_sequence_corrupts_next_row:
  "case bind_r (allocate_blocks_for_seqs (new_block_manager 8 2 2 [0, 0, 0, 0] 1) [(0, 3)])
          (\<lambda>(_, m). allocate_blocks_for_seqs m [(1, 1)]) of
     Inl _ \<Rightarrow> False
   | Inr (_, m) \<Rightarrow> row_blocks m 0 = [0, 1, 3] \<and> row_blocks m 1 = [3]"
  by code_simp

end
