(* ===== verification/BankBlocks.thy ===== *)
theory BankBlocks
  imports Prelude
begin

text \<open>
  The double-bank path of \<open>swiftLLM/swiftllm/worker/block_manager.py\<close>: two banks of KV blocks of equal size, a bump
  pointer in each, the contiguous range every request holds in a bank, and the rows of the block table the
  ranges are written to. The two entries of the dict \<open>_banks\<close> are a map; \<open>ready_event\<close> is an opaque token.
  Methods that mutate before they can raise return the state beside the outcome.
\<close>

section \<open>State\<close>

datatype bank_role = ACTIVE | STANDBY | FREE | PREPARED

record bank_location =
  bl_worker_id :: string
  bl_device_id :: string
  bl_model_kind :: string
  bl_bank_id :: int
  bl_bank_epoch :: int
  bl_bank_base_block :: int
  bl_request_start_block :: int
  bl_num_blocks :: int
  bl_logical_kv_len :: int
  bl_kv_version :: int
  bl_request_id :: "int option"

definition first_physical_block :: "bank_location \<Rightarrow> int" where
  "first_physical_block l = bl_bank_base_block l + bl_request_start_block l"

definition end_physical_block :: "bank_location \<Rightarrow> int" where
  "end_physical_block l = first_physical_block l + bl_num_blocks l"

type_synonym ready_event = nat

record bank_descriptor =
  bk_bank_id :: int
  bk_base_block :: int
  bk_num_blocks :: int
  bk_alloc_ptr :: int
  bk_epoch :: int
  bk_role :: bank_role
  bk_batch_id :: "string option"
  bk_request_ranges :: "int \<rightharpoonup> bank_location"
  bk_ready_event :: "ready_event option"

definition remaining_blocks :: "bank_descriptor \<Rightarrow> int" where
  "remaining_blocks b = bk_num_blocks b - bk_alloc_ptr b"

record bank_manager =
  dm_enabled :: bool
  dm_num_blocks :: int
  dm_num_free_blocks :: int
  dm_block_size :: int
  dm_worker_id :: string
  dm_device_id :: string
  dm_model_kind :: string
  dm_max_blocks_per_seq :: nat
  dm_counts :: "int list"
  dm_table :: "int list list"
  dm_banks :: "int \<rightharpoonup> bank_descriptor"
  dm_active_bank_id :: int
  dm_standby_bank_id :: int

definition fresh_bank :: "int \<Rightarrow> int \<Rightarrow> int \<Rightarrow> bank_role \<Rightarrow> bank_descriptor" where
  "fresh_bank i base n role = \<lparr>bk_bank_id = i, bk_base_block = base, bk_num_blocks = n, bk_alloc_ptr = 0, bk_epoch = 0,
     bk_role = role, bk_batch_id = None, bk_request_ranges = Map.empty, bk_ready_event = None\<rparr>"

definition init_double_banks :: "bank_manager \<Rightarrow> bank_manager result" where
  "init_double_banks m =
     (let bank_size = dm_num_blocks m div 2 in
      if bank_size \<le> 0 then Inl (RuntimeError ''SwiftLLM double bank requires at least two KV blocks'')
      else Inr (m\<lparr>dm_num_free_blocks := (if bank_size * 2 \<noteq> dm_num_blocks m then bank_size * 2 else dm_num_free_blocks m),
                  dm_banks := [0 \<mapsto> fresh_bank 0 0 bank_size ACTIVE, 1 \<mapsto> fresh_bank 1 bank_size bank_size STANDBY],
                  dm_active_bank_id := 0, dm_standby_bank_id := 1\<rparr>))"

text \<open>\<open>__init__\<close>; \<open>torch.empty\<close> leaves the table with whatever the memory held.\<close>

definition new_bank_manager ::
  "int \<Rightarrow> nat \<Rightarrow> nat \<Rightarrow> int list list \<Rightarrow> int \<Rightarrow> bool \<Rightarrow> string \<Rightarrow> string \<Rightarrow> string \<Rightarrow> bank_manager result" where
  "new_bank_manager num_blocks max_seqs max_blocks table block_size enable worker device kind =
     (let m = \<lparr>dm_enabled = enable, dm_num_blocks = num_blocks, dm_num_free_blocks = num_blocks, dm_block_size = block_size,
               dm_worker_id = worker, dm_device_id = device, dm_model_kind = kind, dm_max_blocks_per_seq = max_blocks,
               dm_counts = replicate max_seqs 0, dm_table = table, dm_banks = Map.empty,
               dm_active_bank_id = 0, dm_standby_bank_id = 1\<rparr>
      in if enable then init_double_banks m else Inr m)"

definition require_bank :: "bank_manager \<Rightarrow> int \<Rightarrow> bank_descriptor result" where
  "require_bank m i = (case dm_banks m i of None \<Rightarrow> Inl (KeyError ''unknown bank_id'') | Some b \<Rightarrow> Inr b)"

definition put_bank :: "bank_manager \<Rightarrow> int \<Rightarrow> bank_descriptor \<Rightarrow> bank_manager" where
  "put_bank m i b = m\<lparr>dm_banks := (dm_banks m)(i \<mapsto> b)\<rparr>"

text \<open>The banks are searched in the order of the dict.\<close>

definition bank_for_request :: "bank_manager \<Rightarrow> int \<Rightarrow> (int \<times> bank_location) option" where
  "bank_for_request m r =
     (let look = (\<lambda>i. Option.bind (dm_banks m i) (\<lambda>b. map_option (\<lambda>l. (i, l)) (bk_request_ranges b r)))
      in case look 0 of Some x \<Rightarrow> Some x | None \<Rightarrow> look 1)"

definition count_of :: "bank_manager \<Rightarrow> int \<Rightarrow> int" where
  "count_of m r = dm_counts m ! nat r"

definition row_of :: "bank_manager \<Rightarrow> int \<Rightarrow> int list" where
  "row_of m r = dm_table m ! nat r"

definition set_count :: "bank_manager \<Rightarrow> int \<Rightarrow> int \<Rightarrow> bank_manager" where
  "set_count m r n = m\<lparr>dm_counts := (dm_counts m)[nat r := n]\<rparr>"

definition set_row :: "bank_manager \<Rightarrow> int \<Rightarrow> int list \<Rightarrow> bank_manager" where
  "set_row m r row = m\<lparr>dm_table := (dm_table m)[nat r := row]\<rparr>"

definition in_rows :: "bank_manager \<Rightarrow> int \<Rightarrow> bool" where
  "in_rows m r \<longleftrightarrow> 0 \<le> r \<and> r < int (length (dm_counts m))"

section \<open>Locations in the block table\<close>

definition validate_bank_location :: "bank_manager \<Rightarrow> bank_location \<Rightarrow> unit result" where
  "validate_bank_location m l =
     bind_r (require (dm_enabled m) (RuntimeError ''validate_bank_location requires double-bank mode'')) (\<lambda>_.
     bind_r (require_bank m (bl_bank_id l)) (\<lambda>b. checks
       [require (bl_bank_epoch l = bk_epoch b) (RuntimeError ''stale bank epoch''),
        require (bl_bank_base_block l = bk_base_block b) (RuntimeError ''bank base block mismatch''),
        require (0 \<le> bl_request_start_block l \<and> 0 \<le> bl_num_blocks l) (RuntimeError ''invalid bank location range''),
        require (bl_request_start_block l + bl_num_blocks l \<le> bk_num_blocks b)
          (RuntimeError ''bank location exceeds bank range'')]))"

definition set_valid_blocks :: "bank_manager \<Rightarrow> int \<Rightarrow> bank_location \<Rightarrow> int \<Rightarrow> bank_manager result" where
  "set_valid_blocks m r l n =
     bind_r (validate_bank_location m l) (\<lambda>_.
     if n = 0 then Inr (set_count m r 0)
     else bind_r (checks
       [require (n \<le> bl_num_blocks l) (RuntimeError ''valid blocks cannot exceed reservation capacity''),
        require (n \<le> int (dm_max_blocks_per_seq m)) (RuntimeError ''request needs more blocks than a block table row has'')]) (\<lambda>_.
       let start = first_physical_block l
       in Inr (set_count (set_row m r ([start..start + n - 1] @ drop (nat n) (row_of m r))) r n)))"

definition fill_block_table :: "bank_manager \<Rightarrow> int \<Rightarrow> bank_location \<Rightarrow> bank_manager result" where
  "fill_block_table m r l = bind_r (validate_bank_location m l) (\<lambda>_. set_valid_blocks m r l (bl_num_blocks l))"

section \<open>Reservations\<close>

text \<open>One reservation of a batch: request, blocks, logical length, version and batch id.\<close>

type_synonym reservation = "int \<times> int \<times> int option \<times> int \<times> string option"

definition reserve_in_bank ::
  "bank_manager \<Rightarrow> int \<Rightarrow> int \<Rightarrow> int \<Rightarrow> int option \<Rightarrow> int \<Rightarrow> string option \<Rightarrow> bank_location result \<times> bank_manager" where
  "reserve_in_bank m i r n len version batch =
     (case bind_r (require (dm_enabled m) (RuntimeError ''reserve_in_bank requires double bank'')) (\<lambda>_.
           bind_r (require_bank m i) (\<lambda>b.
           let len = (case len of Some l \<Rightarrow> l | None \<Rightarrow> n * dm_block_size m)
           in bind_r (checks
             [require (in_rows m r) (IndexError ''request_id is out of block table row range''),
              require (0 \<le> n) (ValueError ''num_blocks must be non-negative''),
              require (n \<le> int (dm_max_blocks_per_seq m)) (ValueError ''num_blocks exceeds block table row capacity''),
              require (0 \<le> len) (ValueError ''logical_kv_len must be non-negative''),
              require (0 \<le> version) (ValueError ''kv_version must be non-negative''),
              require (bk_request_ranges b r = None) (RuntimeError ''request_id already has a range''),
              require (n \<le> remaining_blocks b) (RuntimeError ''Bank capacity exceeded'')]) (\<lambda>_. Inr (b, len)))) of
        Inl e \<Rightarrow> (Inl e, m)
      | Inr (b, len) \<Rightarrow>
          let l = \<lparr>bl_worker_id = dm_worker_id m, bl_device_id = dm_device_id m, bl_model_kind = dm_model_kind m,
                   bl_bank_id = bk_bank_id b, bl_bank_epoch = bk_epoch b, bl_bank_base_block = bk_base_block b,
                   bl_request_start_block = bk_alloc_ptr b, bl_num_blocks = n, bl_logical_kv_len = len,
                   bl_kv_version = version, bl_request_id = Some r\<rparr>;
              b' = b\<lparr>bk_alloc_ptr := bk_alloc_ptr b + n,
                     bk_batch_id := (case batch of None \<Rightarrow> bk_batch_id b | Some s \<Rightarrow> Some s),
                     bk_request_ranges := (bk_request_ranges b)(r \<mapsto> l)\<rparr>;
              m' = put_bank m i b'
          in (case fill_block_table m' r l of Inl e \<Rightarrow> (Inl e, m') | Inr m'' \<Rightarrow> (Inr l, m'')))"

fun check_reservations :: "bank_manager \<Rightarrow> bank_descriptor \<Rightarrow> int set \<Rightarrow> reservation list \<Rightarrow> unit result" where
  "check_reservations m b seen [] = Inr ()"
| "check_reservations m b seen ((r, n, len, version, batch) # rest) =
     bind_r (checks
       [require (in_rows m r) (IndexError ''request_id is out of block table row range''),
        require (0 \<le> n) (ValueError ''num_blocks must be non-negative''),
        require (n \<le> int (dm_max_blocks_per_seq m)) (ValueError ''num_blocks exceeds block table row capacity''),
        require (case len of None \<Rightarrow> True | Some l \<Rightarrow> 0 \<le> l) (ValueError ''logical_kv_len must be non-negative''),
        require (0 \<le> version) (ValueError ''kv_version must be non-negative''),
        require (r \<notin> seen \<and> bk_request_ranges b r = None) (RuntimeError ''request_id already has a range'')]) (\<lambda>_.
     check_reservations m b (insert r seen) rest)"

fun reserve_all :: "bank_manager \<Rightarrow> int \<Rightarrow> reservation list \<Rightarrow> bank_location list result \<times> bank_manager" where
  "reserve_all m i [] = (Inr [], m)"
| "reserve_all m i (q # rest) =
     (case reserve_in_bank m i (fst q) (fst (snd q)) (fst (snd (snd q))) (fst (snd (snd (snd q)))) (snd (snd (snd (snd q)))) of
        (Inl e, m') \<Rightarrow> (Inl e, m')
      | (Inr l, m') \<Rightarrow> (case reserve_all m' i rest of
           (Inl e, m'') \<Rightarrow> (Inl e, m'') | (Inr ls, m'') \<Rightarrow> (Inr (l # ls), m'')))"

definition reset_bank :: "bank_manager \<Rightarrow> int \<Rightarrow> (bank_descriptor \<times> bank_manager) result" where
  "reset_bank m i =
     bind_r (require (dm_enabled m) (RuntimeError ''reset_bank requires double-bank mode'')) (\<lambda>_.
     bind_r (require_bank m i) (\<lambda>b.
       let b' = b\<lparr>bk_alloc_ptr := 0, bk_epoch := bk_epoch b + 1, bk_role := (if bk_role b = PREPARED then STANDBY else bk_role b),
                  bk_batch_id := None, bk_request_ranges := Map.empty, bk_ready_event := None\<rparr>
       in Inr (b', put_bank m i b')))"

text \<open>The rollback of the batch operations: the bank and the rows of the batch get back what they held.\<close>

definition restore :: "bank_manager \<Rightarrow> int \<Rightarrow> bank_descriptor \<Rightarrow> int list \<Rightarrow> bank_manager \<Rightarrow> bank_manager" where
  "restore old i b rows m =
     foldl (\<lambda>m r. set_row (set_count m r (count_of old r)) r (row_of old r)) (put_bank m i b) rows"

definition reserve_in_bank_batch_atomic ::
  "bank_manager \<Rightarrow> int \<Rightarrow> reservation list \<Rightarrow> bool \<Rightarrow> bank_location list result \<times> bank_manager" where
  "reserve_in_bank_batch_atomic m i requests reset =
     (case bind_r (require (dm_enabled m) (RuntimeError ''reserve_in_bank_batch_atomic requires double-bank mode'')) (\<lambda>_.
           bind_r (require_bank m i) (\<lambda>b.
           bind_r (check_reservations m b {} requests) (\<lambda>_.
           bind_r (require (sum_list (map (\<lambda>q. fst (snd q)) requests) \<le> (if reset then bk_num_blocks b else remaining_blocks b))
                     (RuntimeError ''Bank capacity exceeded'')) (\<lambda>_. Inr b)))) of
        Inl e \<Rightarrow> (Inl e, m)
      | Inr b \<Rightarrow>
          (case (if reset then map_sum id snd (reset_bank m i) else Inr m) of
             Inl e \<Rightarrow> (Inl e, restore m i b (map fst requests) m)
           | Inr m1 \<Rightarrow>
               (case reserve_all m1 i requests of
                  (Inl e, m2) \<Rightarrow> (Inl e, restore m i b (map fst requests) m2)
                | (Inr ls, m2) \<Rightarrow> (Inr ls, m2))))"

section \<open>Bank roles\<close>

text \<open>\<open>str(bank.batch_id)\<close>\<close>

definition str_batch :: "string option \<Rightarrow> string" where
  "str_batch b = (case b of None \<Rightarrow> ''None'' | Some s \<Rightarrow> s)"

text \<open>\<open>not bank.request_ranges\<close>: the keys of the dict are rows of the table, so it is enough to look at those.\<close>

definition no_ranges :: "bank_manager \<Rightarrow> bank_descriptor \<Rightarrow> bool" where
  "no_ranges m b \<longleftrightarrow> list_all (\<lambda>s. bk_request_ranges b (int s) = None) [0..<length (dm_counts m)]"

definition discard_empty_prepared_bank :: "bank_manager \<Rightarrow> int \<Rightarrow> int \<Rightarrow> string \<Rightarrow> bank_manager result" where
  "discard_empty_prepared_bank m i epoch batch =
     bind_r (require_bank m i) (\<lambda>b.
     if i \<noteq> dm_standby_bank_id m \<or> bk_role b \<noteq> PREPARED \<or> bk_epoch b \<noteq> epoch \<or> str_batch (bk_batch_id b) \<noteq> batch
        \<or> \<not> no_ranges m b
     then Inl (RuntimeError ''discard requires exact empty prepared standby Bank'')
     else Inr (put_bank m i (b\<lparr>bk_alloc_ptr := 0, bk_role := STANDBY, bk_batch_id := None, bk_ready_event := None\<rparr>)))"

definition swap_active_standby :: "bank_manager \<Rightarrow> ((bank_descriptor \<times> bank_descriptor) \<times> bank_manager) result" where
  "swap_active_standby m =
     bind_r (require (dm_enabled m) (RuntimeError ''swap_active_standby requires double-bank mode'')) (\<lambda>_.
     bind_r (require_bank m (dm_active_bank_id m)) (\<lambda>a.
     bind_r (require_bank m (dm_standby_bank_id m)) (\<lambda>s.
       let m' = (put_bank (put_bank m (dm_active_bank_id m) (a\<lparr>bk_role := STANDBY\<rparr>)) (dm_standby_bank_id m) (s\<lparr>bk_role := ACTIVE\<rparr>))
                  \<lparr>dm_active_bank_id := dm_standby_bank_id m, dm_standby_bank_id := dm_active_bank_id m\<rparr>
       in Inr ((s\<lparr>bk_role := ACTIVE\<rparr>, a\<lparr>bk_role := STANDBY\<rparr>), m'))))"

definition mark_bank_prepared ::
  "bank_manager \<Rightarrow> int \<Rightarrow> string option \<Rightarrow> ready_event option \<Rightarrow> (bank_descriptor \<times> bank_manager) result" where
  "mark_bank_prepared m i batch ready =
     bind_r (require_bank m i) (\<lambda>b.
       let b' = b\<lparr>bk_role := PREPARED, bk_batch_id := (case batch of None \<Rightarrow> bk_batch_id b | Some s \<Rightarrow> Some s),
                  bk_ready_event := ready\<rparr>
       in Inr (b', put_bank m i b'))"

definition set_bank_location_kv_version ::
  "bank_manager \<Rightarrow> int \<Rightarrow> int \<Rightarrow> int \<Rightarrow> int \<Rightarrow> (bank_location \<times> bank_manager) result" where
  "set_bank_location_kv_version m r i epoch version =
     bind_r (require (dm_enabled m) (RuntimeError ''set_bank_location_kv_version requires double-bank mode'')) (\<lambda>_.
     bind_r (require_bank m i) (\<lambda>b.
     bind_r (checks
       [require (0 \<le> version) (ValueError ''kv_version must be non-negative''),
        require (bk_epoch b = epoch) (RuntimeError ''bank epoch mismatch while setting kv_version'')]) (\<lambda>_.
     case bk_request_ranges b r of
       None \<Rightarrow> Inl (RuntimeError ''request has no bank location'')
     | Some l \<Rightarrow>
         let l' = l\<lparr>bl_kv_version := version\<rparr>
         in Inr (l', put_bank m i (b\<lparr>bk_request_ranges := (bk_request_ranges b)(r \<mapsto> l')\<rparr>)))))"

section \<open>Batches of sequence lengths\<close>

text \<open>The tensors are one-dimensional and integer; the result is (row, blocks, length) for each pair.\<close>

definition normalize_lengths :: "bank_manager \<Rightarrow> int list \<Rightarrow> int list \<Rightarrow> (int \<times> int \<times> int) list result" where
  "normalize_lengths m ids lens =
     bind_r (checks
       [require (length ids = length lens) (ValueError ''seq_ids and target_lens must have the same length''),
        require (distinct ids) (RuntimeError ''duplicate sequence id in batch'')]) (\<lambda>_.
     map_r (\<lambda>(r, len). bind_r (checks
         [require (in_rows m r) (IndexError ''sequence id is out of block table range''),
          require (0 \<le> len) (ValueError ''target logical length must be non-negative'')]) (\<lambda>_.
         Inr (r, (len + (dm_block_size m - 1)) div dm_block_size m, len)))
       (zip ids lens))"

text \<open>The first loop of an allocation splits the batch into new reservations and growth within old ones.\<close>

fun plan_allocation ::
  "bank_manager \<Rightarrow> bank_descriptor \<Rightarrow> (int \<times> int \<times> int) list \<Rightarrow>
     ((int \<times> int \<times> int) list \<times> (int \<times> int \<times> int \<times> bank_location) list) result" where
  "plan_allocation m b [] = Inr ([], [])"
| "plan_allocation m b ((r, n, len) # rest) =
     (if n \<le> count_of m r then plan_allocation m b rest
      else case bk_request_ranges b r of
        None \<Rightarrow> bind_r (plan_allocation m b rest) (\<lambda>(fresh, grown). Inr ((r, n, len) # fresh, grown))
      | Some l \<Rightarrow>
          bind_r (validate_bank_location m l) (\<lambda>_.
          bind_r (require (n \<le> bl_num_blocks l) (RuntimeError ''Bank reservation capacity exceeded'')) (\<lambda>_.
          bind_r (plan_allocation m b rest) (\<lambda>(fresh, grown). Inr (fresh, (r, n, len, l) # grown)))))"

fun reserve_fresh :: "bank_manager \<Rightarrow> int \<Rightarrow> (int \<times> int \<times> int) list \<Rightarrow> int list result \<times> bank_manager" where
  "reserve_fresh m i [] = (Inr [], m)"
| "reserve_fresh m i (q # rest) =
     (case reserve_in_bank m i (fst q) (fst (snd q)) (Some (snd (snd q))) 0 None of
        (Inl e, m') \<Rightarrow> (Inl e, m')
      | (Inr l, m') \<Rightarrow> (case reserve_fresh m' i rest of
           (Inl e, m'') \<Rightarrow> (Inl e, m'')
         | (Inr blocks, m'') \<Rightarrow>
             (Inr ([first_physical_block l..first_physical_block l + fst (snd q) - 1] @ blocks), m'')))"

definition put_range :: "bank_manager \<Rightarrow> int \<Rightarrow> int \<Rightarrow> bank_location \<Rightarrow> bank_manager" where
  "put_range m i r l = (case dm_banks m i of
      None \<Rightarrow> m
    | Some b \<Rightarrow> put_bank m i (b\<lparr>bk_request_ranges := (bk_request_ranges b)(r \<mapsto> l)\<rparr>))"

fun grow_ranges ::
  "bank_manager \<Rightarrow> int \<Rightarrow> (int \<times> int \<times> int \<times> bank_location) list \<Rightarrow> int list result \<times> bank_manager" where
  "grow_ranges m i [] = (Inr [], m)"
| "grow_ranges m i (q # rest) =
     (let r = fst q; n = fst (snd q); current = count_of m r;
          l = (snd (snd (snd q)))\<lparr>bl_logical_kv_len := fst (snd (snd q))\<rparr>;
          m' = put_range m i r l
      in case set_valid_blocks m' r l n of
           Inl e \<Rightarrow> (Inl e, m')
         | Inr m'' \<Rightarrow> (case grow_ranges m'' i rest of
             (Inl e, m3) \<Rightarrow> (Inl e, m3)
           | (Inr blocks, m3) \<Rightarrow>
               (Inr ([first_physical_block l + current..first_physical_block l + n - 1] @ blocks), m3)))"

definition allocate_from_active_bank ::
  "bank_manager \<Rightarrow> (int \<times> int \<times> int) list \<Rightarrow> int list result \<times> bank_manager" where
  "allocate_from_active_bank m items =
     (let i = dm_active_bank_id m in
      case bind_r (require_bank m i) (\<lambda>b.
           bind_r (plan_allocation m b items) (\<lambda>(fresh, grown).
           bind_r (require (sum_list (map (\<lambda>q. fst (snd q)) fresh) \<le> remaining_blocks b) (RuntimeError ''Bank capacity exceeded'')) (\<lambda>_.
             Inr (b, fresh, grown)))) of
        Inl e \<Rightarrow> (Inl e, m)
      | Inr (b, fresh, grown) \<Rightarrow>
          (case reserve_fresh m i fresh of
             (Inl e, m1) \<Rightarrow> (Inl e, restore m i b (map fst items) m1)
           | (Inr blocks, m1) \<Rightarrow> (case grow_ranges m1 i grown of
               (Inl e, m2) \<Rightarrow> (Inl e, restore m i b (map fst items) m2)
             | (Inr blocks', m2) \<Rightarrow> (Inr (blocks @ blocks'), m2))))"

definition allocate_bank_blocks :: "bank_manager \<Rightarrow> int list \<Rightarrow> int list \<Rightarrow> int list result \<times> bank_manager" where
  "allocate_bank_blocks m ids lens =
     (case normalize_lengths m ids lens of Inl e \<Rightarrow> (Inl e, m) | Inr items \<Rightarrow> allocate_from_active_bank m items)"

text \<open>Cropping plans the whole batch before it changes anything.\<close>

definition plan_crop :: "bank_manager \<Rightarrow> int \<times> int \<times> int \<Rightarrow> (int \<times> int \<times> int \<times> (int \<times> bank_location) option) result" where
  "plan_crop m q = (case q of (r, n, len) \<Rightarrow>
     bind_r (require (n \<le> count_of m r) (RuntimeError ''Cannot crop seq up'')) (\<lambda>_.
     case bank_for_request m r of
       None \<Rightarrow> Inr (r, n, len, None)
     | Some (i, l) \<Rightarrow>
         bind_r (validate_bank_location m l) (\<lambda>_.
         bind_r (require (n \<le> bl_num_blocks l) (RuntimeError ''crop target exceeds reservation capacity'')) (\<lambda>_.
         Inr (r, n, len, Some (i, l))))))"

definition apply_crop :: "bank_manager \<Rightarrow> int \<times> int \<times> int \<times> (int \<times> bank_location) option \<Rightarrow> bank_manager" where
  "apply_crop m q = (case q of (r, n, len, found) \<Rightarrow>
     let m' = set_count m r n
     in case found of
          None \<Rightarrow> m'
        | Some (i, l) \<Rightarrow> put_range m' i r (l\<lparr>bl_logical_kv_len := len, bl_kv_version := bl_kv_version l + 1\<rparr>))"

definition crop_bank_blocks :: "bank_manager \<Rightarrow> int list \<Rightarrow> int list \<Rightarrow> bank_manager result" where
  "crop_bank_blocks m ids lens =
     bind_r (normalize_lengths m ids lens) (\<lambda>items.
     bind_r (map_r (plan_crop m) items) (\<lambda>plans. Inr (foldl apply_crop m plans)))"

section \<open>Releases\<close>

definition drop_range :: "bank_manager \<Rightarrow> int \<Rightarrow> int \<Rightarrow> bank_manager" where
  "drop_range m i r = (case dm_banks m i of
      None \<Rightarrow> m
    | Some b \<Rightarrow> put_bank m i (b\<lparr>bk_request_ranges := (bk_request_ranges b)(r := None)\<rparr>))"

fun free_bank_blocks :: "bank_manager \<Rightarrow> nat list \<Rightarrow> unit result \<times> bank_manager" where
  "free_bank_blocks m [] = (Inr (), m)"
| "free_bank_blocks m (s # rest) =
     (if length (dm_counts m) \<le> s then (Inl (IndexError ''index out of range''), m)
      else let m' = set_count m (int s) 0
           in free_bank_blocks (case bank_for_request m' (int s) of None \<Rightarrow> m' | Some (i, _) \<Rightarrow> drop_range m' i (int s)) rest)"

definition get_allocated_block_ids :: "bank_manager \<Rightarrow> int \<Rightarrow> int list result" where
  "get_allocated_block_ids m r =
     bind_r (require (in_rows m r) (IndexError ''seq_id is out of block table range'')) (\<lambda>_.
     Inr (take (nat (count_of m r)) (row_of m r)))"

definition gather_bank_blocks_and_free :: "bank_manager \<Rightarrow> nat list \<Rightarrow> int list result \<times> bank_manager" where
  "gather_bank_blocks_and_free m ids =
     (case map_r (\<lambda>s. get_allocated_block_ids m (int s)) ids of
        Inl e \<Rightarrow> (Inl e, m)
      | Inr blocks \<Rightarrow> (case free_bank_blocks m ids of
          (Inl e, m') \<Rightarrow> (Inl e, m') | (Inr _, m') \<Rightarrow> (Inr (concat blocks), m')))"

text \<open>One exact release: bank, epoch, row, start, capacity and batch id.\<close>

type_synonym bank_release = "int \<times> int \<times> int \<times> int \<times> int \<times> string option"

fun check_bank_releases :: "bank_manager \<Rightarrow> (int \<times> int) set \<Rightarrow> bank_release list \<Rightarrow> unit result" where
  "check_bank_releases m seen [] = Inr ()"
| "check_bank_releases m seen ((i, epoch, r, start, n, batch) # rest) =
     bind_r (checks
       [require (in_rows m r) (IndexError ''release row is out of block table range''),
        require (0 \<le> n) (ValueError ''release capacity must be non-negative''),
        require ((i, r) \<notin> seen) (RuntimeError ''duplicate exact bank release row'')]) (\<lambda>_.
     bind_r (require_bank m i) (\<lambda>b.
     case bk_request_ranges b r of
       None \<Rightarrow> Inl (RuntimeError ''exact bank release range is not live'')
     | Some l \<Rightarrow>
         bind_r (checks
           [require (bk_epoch b = epoch \<and> bl_bank_epoch l = epoch) (RuntimeError ''exact bank release epoch mismatch''),
            require (bl_request_start_block l = start) (RuntimeError ''exact bank release start mismatch''),
            require (bl_num_blocks l = n) (RuntimeError ''exact bank release capacity mismatch''),
            require (case batch of None \<Rightarrow> True | Some s \<Rightarrow> str_batch (bk_batch_id b) = s)
              (RuntimeError ''exact bank release batch_id mismatch'')]) (\<lambda>_.
         check_bank_releases m (insert (i, r) seen) rest)))"

definition apply_bank_release :: "bank_manager \<Rightarrow> bank_release \<Rightarrow> bank_manager" where
  "apply_bank_release m q = (case q of (i, _, r, _) \<Rightarrow>
     case Option.bind (dm_banks m i) (\<lambda>b. bk_request_ranges b r) of
       None \<Rightarrow> m
     | Some l \<Rightarrow>
         let m' = drop_range m i r; current = count_of m r
         in if current \<le> bl_num_blocks l \<and> 0 < current \<and> row_of m r ! 0 = first_physical_block l
            then set_count m' r 0 else m')"

definition release_bank_ranges_exact_batch :: "bank_manager \<Rightarrow> bank_release list \<Rightarrow> bool \<Rightarrow> bank_manager result" where
  "release_bank_ranges_exact_batch m releases do_apply =
     bind_r (require (dm_enabled m) (RuntimeError ''release_bank_ranges_exact_batch requires double-bank mode'')) (\<lambda>_.
     bind_r (check_bank_releases m {} releases) (\<lambda>_.
     Inr (if do_apply then foldl apply_bank_release m releases else m)))"

end
