(* ===== verification/BankSafety.thy ===== *)
theory BankSafety
  imports BankBlocks
begin

text \<open>
  What the double-bank block manager guarantees: the invariant of banks, ranges and table rows and its preservation
  by every operation; live ranges never overlap, rows never show each other's blocks, and batches are all or
  nothing.
\<close>

section \<open>Histories\<close>

datatype bank_op =
    OpReserve int int int "int option" int "string option"
  | OpReserveBatch int "reservation list" bool
  | OpReset int
  | OpDiscard int int string
  | OpSwap
  | OpMark int "string option" "ready_event option"
  | OpAllocate "int list" "int list"
  | OpCrop "int list" "int list"
  | OpSetVersion int int int int
  | OpFree "nat list"
  | OpGather "nat list"
  | OpRelease "bank_release list" bool

definition after :: "bank_manager \<Rightarrow> bank_manager result \<Rightarrow> bank_manager" where
  "after m res = (case res of Inl _ \<Rightarrow> m | Inr m' \<Rightarrow> m')"

fun bank_step :: "bank_manager \<Rightarrow> bank_op \<Rightarrow> bank_manager" where
  "bank_step m (OpReserve i r n len version batch) = snd (reserve_in_bank m i r n len version batch)"
| "bank_step m (OpReserveBatch i requests reset) = snd (reserve_in_bank_batch_atomic m i requests reset)"
| "bank_step m (OpReset i) = after m (map_sum id snd (reset_bank m i))"
| "bank_step m (OpDiscard i epoch batch) = after m (discard_empty_prepared_bank m i epoch batch)"
| "bank_step m OpSwap = after m (map_sum id snd (swap_active_standby m))"
| "bank_step m (OpMark i batch ready) = after m (map_sum id snd (mark_bank_prepared m i batch ready))"
| "bank_step m (OpAllocate ids lens) = snd (allocate_bank_blocks m ids lens)"
| "bank_step m (OpCrop ids lens) = after m (crop_bank_blocks m ids lens)"
| "bank_step m (OpSetVersion r i epoch version) = after m (map_sum id snd (set_bank_location_kv_version m r i epoch version))"
| "bank_step m (OpFree ids) = snd (free_bank_blocks m ids)"
| "bank_step m (OpGather ids) = snd (gather_bank_blocks_and_free m ids)"
| "bank_step m (OpRelease releases do_apply) = after m (release_bank_ranges_exact_batch m releases do_apply)"

section \<open>Invariant\<close>

definition range_ok :: "nat \<Rightarrow> nat \<Rightarrow> bank_descriptor \<Rightarrow> int \<Rightarrow> bank_location \<Rightarrow> bool" where
  "range_ok w rows b r l \<longleftrightarrow> bl_bank_id l = bk_bank_id b \<and> bl_bank_epoch l = bk_epoch b \<and> bl_bank_base_block l = bk_base_block b
     \<and> 0 \<le> bl_request_start_block l \<and> 0 \<le> bl_num_blocks l \<and> bl_request_start_block l + bl_num_blocks l \<le> bk_alloc_ptr b
     \<and> bl_num_blocks l \<le> int w \<and> bl_request_id l = Some r \<and> 0 \<le> r \<and> r < int rows"

definition apart :: "bank_location \<Rightarrow> bank_location \<Rightarrow> bool" where
  "apart l l' \<longleftrightarrow> end_physical_block l \<le> first_physical_block l' \<or> end_physical_block l' \<le> first_physical_block l"

definition bank_ok :: "int \<Rightarrow> nat \<Rightarrow> nat \<Rightarrow> int \<Rightarrow> bank_descriptor \<Rightarrow> bool" where
  "bank_ok k w rows i b \<longleftrightarrow> bk_bank_id b = i \<and> bk_base_block b = i * k \<and> bk_num_blocks b = k
     \<and> 0 \<le> bk_alloc_ptr b \<and> bk_alloc_ptr b \<le> k
     \<and> (\<forall>r l. bk_request_ranges b r = Some l \<longrightarrow> range_ok w rows b r l)
     \<and> (\<forall>r s l l'. bk_request_ranges b r = Some l \<longrightarrow> bk_request_ranges b s = Some l' \<longrightarrow> r \<noteq> s \<longrightarrow> apart l l')"

definition table_ok :: "bank_manager \<Rightarrow> bool" where
  "table_ok m \<longleftrightarrow> length (dm_table m) = length (dm_counts m) \<and> (\<forall>row \<in> set (dm_table m). length row = dm_max_blocks_per_seq m)
     \<and> (\<forall>c \<in> set (dm_counts m). 0 \<le> c \<and> c \<le> int (dm_max_blocks_per_seq m))"

abbreviation ok_bank :: "bank_manager \<Rightarrow> int \<Rightarrow> bank_descriptor \<Rightarrow> bool" where
  "ok_bank m i b \<equiv> bank_ok (dm_num_blocks m div 2) (dm_max_blocks_per_seq m) (length (dm_counts m)) i b"

definition banks_inv :: "bank_manager \<Rightarrow> bool" where
  "banks_inv m \<longleftrightarrow> dm_enabled m \<and> 0 < dm_block_size m \<and> 0 < dm_num_blocks m div 2 \<and> dom (dm_banks m) = {0, 1}
     \<and> (\<forall>i b. dm_banks m i = Some b \<longrightarrow> ok_bank m i b)
     \<and> table_ok m \<and> {dm_active_bank_id m, dm_standby_bank_id m} = {0, 1}"

text \<open>A row of the table is backed by a live range: its valid prefix is the beginning of the range.\<close>

definition visible :: "bank_manager \<Rightarrow> int \<Rightarrow> int list" where
  "visible m r = take (nat (count_of m r)) (row_of m r)"

definition geometry :: "bank_location \<Rightarrow> int \<times> int" where
  "geometry l = (first_physical_block l, bl_num_blocks l)"

definition range_at :: "bank_manager \<Rightarrow> int \<Rightarrow> int \<Rightarrow> (int \<times> int) option" where
  "range_at m i r = map_option geometry (Option.bind (dm_banks m i) (\<lambda>b. bk_request_ranges b r))"

definition backed_by :: "bank_manager \<Rightarrow> int \<Rightarrow> int \<Rightarrow> bool" where
  "backed_by m i r \<longleftrightarrow> (\<exists>f n. range_at m i r = Some (f, n) \<and> count_of m r \<le> n
     \<and> visible m r = [f..f + count_of m r - 1])"

definition backed :: "bank_manager \<Rightarrow> int \<Rightarrow> bool" where
  "backed m r \<longleftrightarrow> count_of m r = 0 \<or> (\<exists>i. backed_by m i r)"

definition all_backed :: "bank_manager \<Rightarrow> bool" where
  "all_backed m \<longleftrightarrow> (\<forall>r. in_rows m r \<longrightarrow> backed m r)"

section \<open>Primitive updates\<close>

lemma put_bank_simps [simp]:
  "dm_banks (put_bank m i b) = (dm_banks m)(i \<mapsto> b)" "dm_counts (put_bank m i b) = dm_counts m"
  "dm_table (put_bank m i b) = dm_table m" "dm_enabled (put_bank m i b) = dm_enabled m"
  "dm_num_blocks (put_bank m i b) = dm_num_blocks m" "dm_block_size (put_bank m i b) = dm_block_size m"
  "dm_max_blocks_per_seq (put_bank m i b) = dm_max_blocks_per_seq m"
  "dm_active_bank_id (put_bank m i b) = dm_active_bank_id m" "dm_standby_bank_id (put_bank m i b) = dm_standby_bank_id m"
  "count_of (put_bank m i b) r = count_of m r" "row_of (put_bank m i b) r = row_of m r"
  "visible (put_bank m i b) r = visible m r"
  "in_rows (put_bank m i b) r = in_rows m r" "table_ok (put_bank m i b) = table_ok m"
  by (simp_all add: put_bank_def count_of_def row_of_def in_rows_def visible_def table_ok_def)

lemma set_count_simps [simp]:
  "dm_banks (set_count m r n) = dm_banks m" "length (dm_counts (set_count m r n)) = length (dm_counts m)"
  "dm_table (set_count m r n) = dm_table m" "dm_enabled (set_count m r n) = dm_enabled m"
  "dm_num_blocks (set_count m r n) = dm_num_blocks m" "dm_block_size (set_count m r n) = dm_block_size m"
  "dm_max_blocks_per_seq (set_count m r n) = dm_max_blocks_per_seq m"
  "dm_active_bank_id (set_count m r n) = dm_active_bank_id m" "dm_standby_bank_id (set_count m r n) = dm_standby_bank_id m"
  "row_of (set_count m r n) s = row_of m s" "in_rows (set_count m r n) s = in_rows m s"
  by (simp_all add: set_count_def row_of_def in_rows_def)

lemma set_row_simps [simp]:
  "dm_banks (set_row m r row) = dm_banks m" "dm_counts (set_row m r row) = dm_counts m"
  "length (dm_table (set_row m r row)) = length (dm_table m)" "dm_enabled (set_row m r row) = dm_enabled m"
  "dm_num_blocks (set_row m r row) = dm_num_blocks m" "dm_block_size (set_row m r row) = dm_block_size m"
  "dm_max_blocks_per_seq (set_row m r row) = dm_max_blocks_per_seq m"
  "dm_active_bank_id (set_row m r row) = dm_active_bank_id m" "dm_standby_bank_id (set_row m r row) = dm_standby_bank_id m"
  "count_of (set_row m r row) s = count_of m s" "in_rows (set_row m r row) s = in_rows m s"
  by (simp_all add: set_row_def count_of_def in_rows_def)

lemma count_of_set_count:
  "in_rows m r \<Longrightarrow> in_rows m s \<Longrightarrow> count_of (set_count m r n) s = (if s = r then n else count_of m s)"
  by (auto simp: count_of_def set_count_def in_rows_def nth_list_update)

lemma row_of_set_row:
  "table_ok m \<Longrightarrow> in_rows m r \<Longrightarrow> in_rows m s \<Longrightarrow> row_of (set_row m r row) s = (if s = r then row else row_of m s)"
  by (auto simp: row_of_def set_row_def in_rows_def nth_list_update table_ok_def)

lemma table_ok_set_count:
  "table_ok m \<Longrightarrow> 0 \<le> n \<Longrightarrow> n \<le> int (dm_max_blocks_per_seq m) \<Longrightarrow> table_ok (set_count m r n)"
  unfolding table_ok_def by (auto simp: set_count_def dest!: subsetD [OF set_update_subset_insert])

lemma table_ok_set_row: "table_ok m \<Longrightarrow> length row = dm_max_blocks_per_seq m \<Longrightarrow> table_ok (set_row m r row)"
  unfolding table_ok_def by (auto simp: set_row_def dest!: subsetD [OF set_update_subset_insert])

lemma count_bounds: "table_ok m \<Longrightarrow> in_rows m r \<Longrightarrow> 0 \<le> count_of m r \<and> count_of m r \<le> int (dm_max_blocks_per_seq m)"
  by (simp add: table_ok_def in_rows_def count_of_def all_set_conv_all_nth nat_less_iff)

lemma length_row: "table_ok m \<Longrightarrow> in_rows m r \<Longrightarrow> length (row_of m r) = dm_max_blocks_per_seq m"
  by (simp add: table_ok_def in_rows_def row_of_def all_set_conv_all_nth nat_less_iff)

lemma banks_invD:
  assumes "banks_inv m"
  shows "dm_enabled m" "table_ok m" "dm_banks m i = Some b \<Longrightarrow> ok_bank m i b" "dm_banks m i = Some b \<Longrightarrow> i = 0 \<or> i = 1"
    "0 < dm_block_size m"
  using assms unfolding banks_inv_def by (auto simp: dom_def set_eq_iff)

lemma banks_size:
  assumes "banks_inv m"
  shows "0 < dm_num_blocks m div 2" "0 \<le> dm_num_blocks m" "2 * (dm_num_blocks m div 2) \<le> dm_num_blocks m"
  using assms unfolding banks_inv_def by linarith+

lemma banks_inv_put_bank:
  "banks_inv m \<Longrightarrow> dm_banks m i \<noteq> None \<Longrightarrow> ok_bank m i b \<Longrightarrow> banks_inv (put_bank m i b)"
  unfolding banks_inv_def by auto

lemma banks_inv_set_count:
  "banks_inv m \<Longrightarrow> 0 \<le> n \<Longrightarrow> n \<le> int (dm_max_blocks_per_seq m) \<Longrightarrow> banks_inv (set_count m r n)"
  unfolding banks_inv_def by (simp add: table_ok_set_count)

lemma banks_inv_set_row: "banks_inv m \<Longrightarrow> length row = dm_max_blocks_per_seq m \<Longrightarrow> banks_inv (set_row m r row)"
  unfolding banks_inv_def by (simp add: table_ok_set_row)


section \<open>Updates that keep the invariant\<close>

definition keeps :: "bank_manager \<Rightarrow> bank_manager \<Rightarrow> bool" where
  "keeps m m' \<longleftrightarrow> (banks_inv m \<longrightarrow> banks_inv m' \<and> length (dm_counts m') = length (dm_counts m) \<and> (all_backed m \<longrightarrow> all_backed m'))"

lemma keeps_refl [simp]: "keeps m m"
  by (simp add: keeps_def)

lemma keeps_trans: "keeps m m' \<Longrightarrow> keeps m' m'' \<Longrightarrow> keeps m m''"
  by (simp add: keeps_def)

lemma keepsI:
  assumes "banks_inv m \<Longrightarrow> banks_inv m'" "length (dm_counts m') = length (dm_counts m)"
    and "\<And>r. banks_inv m \<Longrightarrow> in_rows m r \<Longrightarrow> backed m r \<Longrightarrow> backed m' r"
  shows "keeps m m'"
  using assms unfolding keeps_def all_backed_def in_rows_def by auto

lemma range_at_simps [simp]:
  "range_at (put_bank m i b) j r = (if j = i then map_option geometry (bk_request_ranges b r) else range_at m j r)"
  "range_at (set_count m s n) j r = range_at m j r" "range_at (set_row m s row) j r = range_at m j r"
  by (simp_all add: range_at_def)

lemma backed_cong:
  "count_of m' r = count_of m r \<Longrightarrow> visible m' r = visible m r \<Longrightarrow> (\<And>i. range_at m' i r = range_at m i r) \<Longrightarrow> backed m' r = backed m r"
  by (simp add: backed_def backed_by_def)

lemma take_upto: "0 \<le> n \<Longrightarrow> n \<le> c \<Longrightarrow> take (nat n) [f..f + c - 1] = [f..f + n - 1]"
  by (rule nth_equalityI) auto

lemma visible_set_count:
  "in_rows m r \<Longrightarrow> in_rows m s \<Longrightarrow> visible (set_count m r n) s = (if s = r then take (nat n) (row_of m r) else visible m s)"
  by (simp add: visible_def count_of_set_count)

lemma keeps_set_count:
  assumes "in_rows m r" "0 \<le> n" "n \<le> count_of m r"
  shows "keeps m (set_count m r n)"
proof (rule keepsI)
  assume inv: "banks_inv m"
  have "n \<le> int (dm_max_blocks_per_seq m)" using count_bounds [OF banks_invD(2) [OF inv] assms(1)] assms(3) by linarith
  then show "banks_inv (set_count m r n)" using inv assms(2) by (rule banks_inv_set_count [rotated -1])
next
  fix s
  assume s: "in_rows m s" "backed m s"
  show "backed (set_count m r n) s"
  proof (cases "s = r \<and> n \<noteq> 0")
    case True
    with assms s obtain i f k where k: "range_at m i r = Some (f, k)" "count_of m r \<le> k" "visible m r = [f..f + count_of m r - 1]"
      unfolding backed_def backed_by_def by fastforce
    have "take (nat n) (row_of m r) = take (nat n) (visible m r)" using assms by (simp add: visible_def min_def nat_mono)
    then have "take (nat n) (row_of m r) = [f..f + n - 1]" using k(3) take_upto assms(2,3) by metis
    then have "backed_by (set_count m r n) i r"
      using k assms by (simp add: backed_by_def visible_set_count count_of_set_count)
    then show ?thesis using True by (auto simp: backed_def)
  next
    case False
    then have "s \<noteq> r \<or> n = 0" by blast
    then show ?thesis
    proof
      assume "s \<noteq> r"
      then have "backed (set_count m r n) s = backed m s"
        by (intro backed_cong) (simp_all add: visible_set_count count_of_set_count assms s)
      with s show ?thesis by simp
    next
      assume "n = 0"
      with s assms show ?thesis
        by (cases "s = r") (auto simp: backed_def backed_by_def visible_set_count count_of_set_count)
    qed
  qed
qed simp

definition same_place :: "bank_location \<Rightarrow> bank_location \<Rightarrow> bool" where
  "same_place l l0 \<longleftrightarrow> bl_bank_id l = bl_bank_id l0 \<and> bl_bank_epoch l = bl_bank_epoch l0
     \<and> bl_bank_base_block l = bl_bank_base_block l0 \<and> bl_request_start_block l = bl_request_start_block l0
     \<and> bl_num_blocks l = bl_num_blocks l0 \<and> bl_request_id l = bl_request_id l0"

lemma same_place_simps [simp]:
  "same_place l l" "same_place (l\<lparr>bl_logical_kv_len := len\<rparr>) l0 = same_place l l0"
  "same_place (l\<lparr>bl_kv_version := v\<rparr>) l0 = same_place l l0"
  by (simp_all add: same_place_def)

lemma same_placeD:
  assumes "same_place l l0"
  shows "geometry l = geometry l0" "range_ok w rows b r l = range_ok w rows b r l0" "apart l l' = apart l0 l'" "apart l' l = apart l' l0"
  using assms by (simp_all add: same_place_def geometry_def range_ok_def apart_def first_physical_block_def end_physical_block_def)

lemma apart_sym: "apart l l' = apart l' l"
  by (auto simp: apart_def)

definition holds :: "bank_manager \<Rightarrow> int \<Rightarrow> int \<Rightarrow> bank_location \<Rightarrow> bool" where
  "holds m i r l \<longleftrightarrow> (\<exists>b l0. dm_banks m i = Some b \<and> bk_request_ranges b r = Some l0 \<and> same_place l l0)"

lemma holds_range_at: "holds m i r l \<Longrightarrow> range_at m i r = Some (geometry l)"
  by (auto simp: holds_def range_at_def dest: same_placeD(1))

lemma holds_in_rows:
  assumes "banks_inv m" "holds m i r l"
  shows "in_rows m r" "bl_bank_id l = i" "0 \<le> bl_num_blocks l" "bl_num_blocks l \<le> int (dm_max_blocks_per_seq m)"
proof -
  obtain b l0 where b: "dm_banks m i = Some b" "bk_request_ranges b r = Some l0" "same_place l l0" using assms(2) by (auto simp: holds_def)
  then have "range_ok (dm_max_blocks_per_seq m) (length (dm_counts m)) b r l0" "bk_bank_id b = i"
    using banks_invD(3) [OF assms(1)] by (auto simp: bank_ok_def)
  then show "in_rows m r" "bl_bank_id l = i" "0 \<le> bl_num_blocks l" "bl_num_blocks l \<le> int (dm_max_blocks_per_seq m)"
    using b(3) by (simp_all add: range_ok_def in_rows_def same_place_def)
qed

lemma holds_validates:
  assumes "banks_inv m" "holds m i r l"
  shows "validate_bank_location m l = Inr ()"
proof -
  obtain b l0 where b: "dm_banks m i = Some b" "bk_request_ranges b r = Some l0" "same_place l l0" using assms(2) by (auto simp: holds_def)
  have k: "ok_bank m i b" using banks_invD(3) [OF assms(1) b(1)] .
  then have "range_ok (dm_max_blocks_per_seq m) (length (dm_counts m)) b r l"
    using b(2) same_placeD(2) [OF b(3)] by (simp add: bank_ok_def)
  then show ?thesis
    using k b(1) holds_in_rows(2) [OF assms] banks_invD(1) [OF assms(1)]
    by (simp add: validate_bank_location_def require_bank_def range_ok_def bank_ok_def result_simps)
qed

lemma range_ok_update [simp]:
  "range_ok w rows (b\<lparr>bk_request_ranges := rs\<rparr>) r l = range_ok w rows b r l"
  "range_ok w rows (b\<lparr>bk_batch_id := x\<rparr>) r l = range_ok w rows b r l"
  "range_ok w rows (b\<lparr>bk_role := y\<rparr>) r l = range_ok w rows b r l"
  "range_ok w rows (b\<lparr>bk_ready_event := z\<rparr>) r l = range_ok w rows b r l"
  by (simp_all add: range_ok_def)

lemma bank_ok_replace:
  assumes "bank_ok k w rows i b" "bk_request_ranges b r = Some l0" "same_place l l0"
  shows "bank_ok k w rows i (b\<lparr>bk_request_ranges := (bk_request_ranges b)(r \<mapsto> l)\<rparr>)"
  using assms same_placeD(2-4) [OF assms(3)]
  by (auto simp: bank_ok_def split: if_splits)


lemma put_range_simps [simp]:
  "dm_counts (put_range m i r l) = dm_counts m" "in_rows (put_range m i r l) s = in_rows m s"
  "count_of (put_range m i r l) s = count_of m s" "visible (put_range m i r l) s = visible m s"
  "row_of (put_range m i r l) s = row_of m s"
  "dm_active_bank_id (put_range m i r l) = dm_active_bank_id m"
  by (simp_all add: put_range_def split: option.splits)

lemma put_range_range_at:
  "holds m i r l \<Longrightarrow> range_at (put_range m i r l) j s = range_at m j s"
  by (auto simp: holds_def put_range_def range_at_def dest: same_placeD(1))

lemma keeps_put_range:
  assumes "holds m i r l"
  shows "keeps m (put_range m i r l)"
proof (rule keepsI)
  obtain b l0 where b: "dm_banks m i = Some b" "bk_request_ranges b r = Some l0" "same_place l l0" using assms by (auto simp: holds_def)
  assume inv: "banks_inv m"
  have "ok_bank m i (b\<lparr>bk_request_ranges := (bk_request_ranges b)(r \<mapsto> l)\<rparr>)"
    by (rule bank_ok_replace [OF banks_invD(3) [OF inv b(1)] b(2,3)])
  then show "banks_inv (put_range m i r l)" using banks_inv_put_bank [OF inv] b(1) by (simp add: put_range_def)
next
  show "backed (put_range m i r l) s" if "backed m s" for s
    using that backed_cong [of "put_range m i r l" s m] put_range_range_at [OF assms] by simp
qed simp

lemma holds_put_range: "holds m i r l \<Longrightarrow> holds m j s l' \<Longrightarrow> holds (put_range m i r l) j s l'"
  by (auto simp: holds_def put_range_def same_place_def)

lemma holds_put_range_new: "holds m i r l \<Longrightarrow> holds (put_range m i r l) i r l"
  by (auto simp: holds_def put_range_def)

lemma holds_set [simp]: "holds (set_count m s n) i r l = holds m i r l" "holds (set_row m s row) i r l = holds m i r l"
  by (simp_all add: holds_def)

text \<open>Writing the first blocks of a live range into the row of its request.\<close>

definition write_row :: "bank_manager \<Rightarrow> int \<Rightarrow> bank_location \<Rightarrow> int \<Rightarrow> bank_manager" where
  "write_row m r l n = (if n = 0 then set_count m r 0
     else set_count (set_row m r ([first_physical_block l..first_physical_block l + n - 1] @ drop (nat n) (row_of m r))) r n)"

lemma write_row_simps [simp]:
  "length (dm_counts (write_row m r l n)) = length (dm_counts m)" "dm_banks (write_row m r l n) = dm_banks m"
  "in_rows (write_row m r l n) s = in_rows m s" "holds (write_row m r l n) i s l' = holds m i s l'"
  "range_at (write_row m r l n) i s = range_at m i s" "dm_active_bank_id (write_row m r l n) = dm_active_bank_id m"
  "dm_max_blocks_per_seq (write_row m r l n) = dm_max_blocks_per_seq m"
  by (simp_all add: write_row_def)

lemma set_valid_blocks_decided:
  assumes "banks_inv m" "holds m i r l"
  shows "set_valid_blocks m r l n =
    (if n = 0 then Inr (set_count m r 0)
     else if n \<le> bl_num_blocks l then Inr (write_row m r l n)
     else Inl (RuntimeError ''valid blocks cannot exceed reservation capacity''))"
proof -
  have w: "bl_num_blocks l \<le> int (dm_max_blocks_per_seq m)" by (rule holds_in_rows(4) [OF assms])
  show ?thesis
  proof (cases "n = 0")
    case True
    then show ?thesis by (simp add: set_valid_blocks_def holds_validates [OF assms])
  next
    case False
    with w show ?thesis by (auto simp: set_valid_blocks_def holds_validates [OF assms] write_row_def Let_def checks.simps)
  qed
qed

lemma write_row_row:
  assumes "banks_inv m" "holds m i r l" "0 \<le> n" "n \<le> bl_num_blocks l" "in_rows m s"
  shows "count_of (write_row m r l n) s = (if s = r then n else count_of m s)"
    "visible (write_row m r l n) s = (if s = r then [first_physical_block l..first_physical_block l + n - 1] else visible m s)"
proof -
  have r: "in_rows m r" by (rule holds_in_rows(1) [OF assms(1,2)])
  note t = banks_invD(2) [OF assms(1)]
  show c: "count_of (write_row m r l n) s = (if s = r then n else count_of m s)"
    using r assms(5) by (auto simp: write_row_def count_of_set_count)
  show "visible (write_row m r l n) s = (if s = r then [first_physical_block l..first_physical_block l + n - 1] else visible m s)"
    using r assms(3,5) c row_of_set_row [OF t r assms(5)] by (auto simp: visible_def write_row_def split: if_splits)
qed

lemma keeps_write_row:
  assumes "holds m i r l" "0 \<le> n" "n \<le> bl_num_blocks l"
  shows "keeps m (write_row m r l n)"
proof (rule keepsI)
  assume inv: "banks_inv m"
  note h = holds_in_rows [OF inv assms(1)]
  have "length ([first_physical_block l..first_physical_block l + n - 1] @ drop (nat n) (row_of m r)) = dm_max_blocks_per_seq m"
    using length_row [OF banks_invD(2) [OF inv] h(1)] h(4) assms(2,3) by simp
  then show "banks_inv (write_row m r l n)"
    using h assms(2,3) by (auto simp: write_row_def intro!: banks_inv_set_count banks_inv_set_row inv)
  fix s
  assume s: "in_rows m s" "backed m s"
  show "backed (write_row m r l n) s"
  proof (cases "s = r")
    case True
    have "backed_by (write_row m r l n) i r"
      using write_row_row [OF inv assms h(1)] holds_range_at [OF assms(1)] assms(3)
      by (auto simp: backed_by_def geometry_def)
    then show ?thesis using True by (auto simp: backed_def)
  next
    case False
    then have "backed (write_row m r l n) s = backed m s"
      using write_row_row [OF inv assms s(1)] by (intro backed_cong) simp_all
    with s show ?thesis by simp
  qed
qed simp


section \<open>Reserving\<close>

definition placed :: "bank_manager \<Rightarrow> bank_descriptor \<Rightarrow> int \<Rightarrow> int \<Rightarrow> int option \<Rightarrow> int \<Rightarrow> bank_location" where
  "placed m b r n len version = \<lparr>bl_worker_id = dm_worker_id m, bl_device_id = dm_device_id m, bl_model_kind = dm_model_kind m,
     bl_bank_id = bk_bank_id b, bl_bank_epoch = bk_epoch b, bl_bank_base_block = bk_base_block b,
     bl_request_start_block = bk_alloc_ptr b, bl_num_blocks = n,
     bl_logical_kv_len = (case len of Some l \<Rightarrow> l | None \<Rightarrow> n * dm_block_size m), bl_kv_version = version, bl_request_id = Some r\<rparr>"

lemma placed_simps [simp]:
  "bl_bank_id (placed m b r n len version) = bk_bank_id b" "bl_num_blocks (placed m b r n len version) = n"
  "bl_request_start_block (placed m b r n len version) = bk_alloc_ptr b" "bl_bank_base_block (placed m b r n len version) = bk_base_block b"
  by (simp_all add: placed_def)

definition bumped :: "bank_descriptor \<Rightarrow> int \<Rightarrow> int \<Rightarrow> bank_location \<Rightarrow> string option \<Rightarrow> bank_descriptor" where
  "bumped b r n l batch = b\<lparr>bk_alloc_ptr := bk_alloc_ptr b + n,
     bk_batch_id := (case batch of None \<Rightarrow> bk_batch_id b | Some s \<Rightarrow> Some s), bk_request_ranges := (bk_request_ranges b)(r \<mapsto> l)\<rparr>"

lemma bumped_simps [simp]:
  "bk_bank_id (bumped b r n l batch) = bk_bank_id b" "bk_base_block (bumped b r n l batch) = bk_base_block b"
  "bk_num_blocks (bumped b r n l batch) = bk_num_blocks b" "bk_epoch (bumped b r n l batch) = bk_epoch b"
  "bk_alloc_ptr (bumped b r n l batch) = bk_alloc_ptr b + n"
  "bk_request_ranges (bumped b r n l batch) = (bk_request_ranges b)(r \<mapsto> l)"
  by (simp_all add: bumped_def)

definition reservable :: "bank_manager \<Rightarrow> bank_descriptor \<Rightarrow> int \<Rightarrow> int \<Rightarrow> int option \<Rightarrow> int \<Rightarrow> bool" where
  "reservable m b r n len version \<longleftrightarrow> in_rows m r \<and> 0 \<le> n \<and> n \<le> int (dm_max_blocks_per_seq m)
     \<and> (case len of None \<Rightarrow> True | Some l \<Rightarrow> 0 \<le> l) \<and> 0 \<le> version \<and> bk_request_ranges b r = None \<and> n \<le> remaining_blocks b"

lemma bank_ok_bumped:
  assumes "ok_bank m i b" "reservable m b r n len version"
  shows "ok_bank m i (bumped b r n (placed m b r n len version) batch)"
proof -
  let ?l = "placed m b r n len version" and ?b = "bumped b r n (placed m b r n len version) batch"
  have new: "range_ok (dm_max_blocks_per_seq m) (length (dm_counts m)) ?b r ?l"
    using assms by (simp add: range_ok_def placed_def reservable_def bank_ok_def in_rows_def)
  have old: "range_ok (dm_max_blocks_per_seq m) (length (dm_counts m)) ?b s l" "apart l ?l" "apart ?l l"
    if "bk_request_ranges b s = Some l" for s l
  proof -
    have "range_ok (dm_max_blocks_per_seq m) (length (dm_counts m)) b s l" using that assms(1) by (simp add: bank_ok_def)
    then show "range_ok (dm_max_blocks_per_seq m) (length (dm_counts m)) ?b s l" "apart l ?l" "apart ?l l"
      using assms(2) by (simp_all add: range_ok_def apart_def end_physical_block_def first_physical_block_def placed_def reservable_def)
  qed
  show ?thesis
    using assms new old by (auto simp: bank_ok_def reservable_def remaining_blocks_def)
qed

lemma keeps_bumped:
  assumes "dm_banks m i = Some b" "reservable m b r n len version"
  shows "keeps m (put_bank m i (bumped b r n (placed m b r n len version) batch))"
proof (rule keepsI)
  assume inv: "banks_inv m"
  show "banks_inv (put_bank m i (bumped b r n (placed m b r n len version) batch))"
    using banks_inv_put_bank [OF inv _ bank_ok_bumped [OF banks_invD(3) [OF inv assms(1)] assms(2)]] assms(1) by simp
next
  fix s
  assume "backed m s"
  moreover have "range_at (put_bank m i (bumped b r n (placed m b r n len version) batch)) j s = Some x" if "range_at m j s = Some x" for j x
    using that assms by (auto simp: range_at_def reservable_def)
  ultimately show "backed (put_bank m i (bumped b r n (placed m b r n len version) batch)) s"
    unfolding backed_def backed_by_def put_bank_simps by blast
qed simp

text \<open>Under the invariant \<open>reserve_in_bank\<close> is decided by its guards and changes nothing when it raises.\<close>

lemma reserve_in_bank_decided:
  assumes inv: "banks_inv m" and b: "dm_banks m i = Some b"
  shows "if (case len of None \<Rightarrow> True | Some l \<Rightarrow> 0 \<le> l) \<and> reservable m b r n len version
    then reserve_in_bank m i r n len version batch =
      (Inr (placed m b r n len version), write_row (put_bank m i (bumped b r n (placed m b r n len version) batch)) r (placed m b r n len version) n)
    else \<exists>e. reserve_in_bank m i r n len version batch = (Inl e, m)"
proof -
  let ?l = "placed m b r n len version" and ?m = "put_bank m i (bumped b r n (placed m b r n len version) batch)"
  have en: "dm_enabled m" "0 < dm_block_size m" using banks_invD [OF inv] by blast+
  define len' where "len' = (case len of Some l \<Rightarrow> l | None \<Rightarrow> n * dm_block_size m)"
  have nonneg: "0 \<le> n \<Longrightarrow> 0 \<le> len' \<longleftrightarrow> (case len of None \<Rightarrow> True | Some l \<Rightarrow> 0 \<le> l)"
    using en(2) by (auto simp: len'_def split: option.splits)
  define g where "g = checks
     [require (in_rows m r) (IndexError ''request_id is out of block table row range''),
      require (0 \<le> n) (ValueError ''num_blocks must be non-negative''),
      require (n \<le> int (dm_max_blocks_per_seq m)) (ValueError ''num_blocks exceeds block table row capacity''),
      require (0 \<le> len') (ValueError ''logical_kv_len must be non-negative''),
      require (0 \<le> version) (ValueError ''kv_version must be non-negative''),
      require (bk_request_ranges b r = None) (RuntimeError ''request_id already has a range''),
      require (n \<le> remaining_blocks b) (RuntimeError ''Bank capacity exceeded'')]"
  have g: "g = Inr () \<longleftrightarrow> reservable m b r n len version"
    using nonneg by (auto simp: g_def reservable_def)
  have eq: "reserve_in_bank m i r n len version batch =
    (case g of Inl e \<Rightarrow> (Inl e, m) | Inr _ \<Rightarrow> (case fill_block_table ?m r ?l of Inl e \<Rightarrow> (Inl e, ?m) | Inr m'' \<Rightarrow> (Inr ?l, m'')))"
    unfolding reserve_in_bank_def g_def len'_def
    by (simp add: b require_bank_def en(1) Let_def placed_def bumped_def bind_r_def split: sum.split)
  show ?thesis
  proof (cases "reservable m b r n len version")
    case True
    have inv': "banks_inv ?m" using keeps_bumped [OF b True, of batch] inv by (simp add: keeps_def)
    have h: "holds ?m i r ?l" by (auto simp: holds_def)
    have "set_valid_blocks ?m r ?l n = Inr (write_row ?m r ?l n)"
      by (simp add: set_valid_blocks_decided [OF inv' h] write_row_def)
    then have "fill_block_table ?m r ?l = Inr (write_row ?m r ?l n)"
      by (simp add: fill_block_table_def holds_validates [OF inv' h])
    then have "reserve_in_bank m i r n len version batch = (Inr ?l, write_row ?m r ?l n)"
      using g True by (simp add: eq)
    then show ?thesis using True by (simp add: reservable_def)
  next
    case False
    with g obtain e where "g = Inl e" by (cases g) auto
    then have "reserve_in_bank m i r n len version batch = (Inl e, m)" by (simp add: eq)
    with False show ?thesis by simp
  qed
qed

lemma reserve_in_bank_unknown: "dm_banks m i = None \<Longrightarrow> \<exists>e. reserve_in_bank m i r n len version batch = (Inl e, m)"
  by (cases "dm_enabled m") (auto simp: reserve_in_bank_def require_bank_def)

lemma reserve_in_bank_cases:
  assumes "banks_inv m" "reserve_in_bank m i r n len version batch = (res, m')"
  obtains (refused) e where "res = Inl e" "m' = m"
  | (reserved) b where "dm_banks m i = Some b" "reservable m b r n len version" "res = Inr (placed m b r n len version)"
      "m' = write_row (put_bank m i (bumped b r n (placed m b r n len version) batch)) r (placed m b r n len version) n"
proof (cases "dm_banks m i")
  case None
  then show ?thesis using reserve_in_bank_unknown [OF None] assms(2) refused by (metis prod.inject)
next
  case (Some b)
  then show ?thesis using reserve_in_bank_decided [OF assms(1) Some, of len r n version batch] assms(2) refused reserved
    by (metis prod.inject)
qed

lemma reserved_state:
  assumes "banks_inv m" "dm_banks m i = Some b" "reservable m b r n len version"
  defines "l \<equiv> placed m b r n len version"
  shows "keeps m (write_row (put_bank m i (bumped b r n l batch)) r l n)"
    "holds (write_row (put_bank m i (bumped b r n l batch)) r l n) i r l"
proof -
  have h: "holds (put_bank m i (bumped b r n l batch)) i r l" by (auto simp: holds_def l_def)
  have n: "0 \<le> n" "n \<le> bl_num_blocks l" using assms(3) by (simp_all add: reservable_def l_def placed_def)
  have "keeps m (put_bank m i (bumped b r n l batch))" unfolding l_def by (rule keeps_bumped [OF assms(2,3)])
  then show "keeps m (write_row (put_bank m i (bumped b r n l batch)) r l n)" using keeps_write_row [OF h n] by (rule keeps_trans)
  show "holds (write_row (put_bank m i (bumped b r n l batch)) r l n) i r l" using h by simp
qed

lemma keeps_reserve: "reserve_in_bank m i r n len version batch = (res, m') \<Longrightarrow> keeps m m'"
proof (cases "banks_inv m")
  case True
  assume "reserve_in_bank m i r n len version batch = (res, m')"
  with True show ?thesis by (cases rule: reserve_in_bank_cases) (auto dest: reserved_state(1) [OF True])
qed (simp add: keeps_def)


section \<open>Rolling back\<close>

text \<open>The second state differs from the first in bank \<open>i\<close> and in the rows \<open>R\<close> at most.\<close>

definition touches_only :: "int \<Rightarrow> int set \<Rightarrow> bank_manager \<Rightarrow> bank_manager \<Rightarrow> bool" where
  "touches_only i R m m' \<longleftrightarrow> (\<forall>j. j \<noteq> i \<longrightarrow> dm_banks m' j = dm_banks m j)
     \<and> length (dm_counts m') = length (dm_counts m) \<and> length (dm_table m') = length (dm_table m)
     \<and> (\<forall>s. int s \<notin> R \<longrightarrow> dm_counts m' ! s = dm_counts m ! s \<and> dm_table m' ! s = dm_table m ! s)
     \<and> m'\<lparr>dm_banks := dm_banks m, dm_counts := dm_counts m, dm_table := dm_table m\<rparr> = m"

lemma touches_only_refl [simp]: "touches_only i R m m"
  by (simp add: touches_only_def)

lemma touches_only_trans:
  assumes "touches_only i R m m'" "touches_only i R m' m''"
  shows "touches_only i R m m''"
proof -
  have "m''\<lparr>dm_banks := dm_banks m, dm_counts := dm_counts m, dm_table := dm_table m\<rparr>
      = (m''\<lparr>dm_banks := dm_banks m', dm_counts := dm_counts m', dm_table := dm_table m'\<rparr>)
          \<lparr>dm_banks := dm_banks m, dm_counts := dm_counts m, dm_table := dm_table m\<rparr>" by simp
  also have "\<dots> = m'\<lparr>dm_banks := dm_banks m, dm_counts := dm_counts m, dm_table := dm_table m\<rparr>"
    using assms(2) by (simp add: touches_only_def)
  also have "\<dots> = m" using assms(1) by (simp add: touches_only_def)
  finally show ?thesis using assms by (simp add: touches_only_def)
qed

lemma touches_only_mono: "touches_only i R m m' \<Longrightarrow> R \<subseteq> S \<Longrightarrow> touches_only i S m m'"
  by (auto simp: touches_only_def)

lemma touches_put_bank [simp]: "touches_only i R m (put_bank m i b)"
  by (simp add: touches_only_def put_bank_def)

lemma touches_put_range [simp]: "touches_only i R m (put_range m i r l)"
  by (simp add: put_range_def split: option.split)

lemma touches_write_row: "in_rows m r \<Longrightarrow> r \<in> R \<Longrightarrow> touches_only i R m (write_row m r l n)"
proof -
  assume r: "in_rows m r" "r \<in> R"
  then have "nat r \<noteq> s" if "int s \<notin> R" for s using that by (auto simp: in_rows_def)
  then show ?thesis by (simp add: touches_only_def write_row_def set_count_def set_row_def)
qed

lemma foldl_restore:
  assumes "length (dm_counts m') = length (dm_counts m)" "length (dm_table m') = length (dm_table m)"
    and "\<forall>s. int s \<notin> R \<longrightarrow> dm_counts m' ! s = dm_counts m ! s \<and> dm_table m' ! s = dm_table m ! s"
    and "m'\<lparr>dm_counts := dm_counts m, dm_table := dm_table m\<rparr> = m" "R \<subseteq> set rows" "\<forall>r \<in> set rows. in_rows m r" "table_ok m"
  shows "foldl (\<lambda>x r. set_row (set_count x r (count_of m r)) r (row_of m r)) m' rows = m"
  using assms
proof (induction rows arbitrary: m' R)
  case Nil
  then have "dm_counts m' = dm_counts m" "dm_table m' = dm_table m" by (auto intro: nth_equalityI)
  then have "m'\<lparr>dm_counts := dm_counts m, dm_table := dm_table m\<rparr> = m'"
    by (metis bank_manager.surjective bank_manager.update_convs(9) bank_manager.update_convs(10))
  then show ?case using Nil.prems(4) by simp
next
  case (Cons r rows)
  let ?m = "set_row (set_count m' r (count_of m r)) r (row_of m r)"
  have r: "0 \<le> r" "nat r < length (dm_counts m)" "nat r < length (dm_table m)"
    using Cons.prems(6,7) by (auto simp: in_rows_def table_ok_def)
  have "?m\<lparr>dm_counts := dm_counts m, dm_table := dm_table m\<rparr> = m" using Cons.prems(4) by (simp add: set_row_def set_count_def)
  moreover have "\<forall>s. int s \<notin> R - {r} \<longrightarrow> dm_counts ?m ! s = dm_counts m ! s \<and> dm_table ?m ! s = dm_table m ! s"
  proof (intro allI impI)
    fix s
    assume "int s \<notin> R - {r}"
    then show "dm_counts ?m ! s = dm_counts m ! s \<and> dm_table ?m ! s = dm_table m ! s"
      using Cons.prems(1-3) r by (cases "s = nat r") (auto simp: set_row_def set_count_def count_of_def row_of_def)
  qed
  moreover have "R - {r} \<subseteq> set rows" using Cons.prems(5) by auto
  ultimately have "foldl (\<lambda>x r. set_row (set_count x r (count_of m r)) r (row_of m r)) ?m rows = m"
    using Cons.IH [of ?m "R - {r}"] Cons.prems(1,2,6,7) by simp
  then show ?case by simp
qed

lemma restore_undoes:
  assumes t: "touches_only i (set rows) m m'" and b: "dm_banks m i = Some b" and "table_ok m" "\<forall>r \<in> set rows. in_rows m r"
  shows "restore m i b rows m' = m"
  unfolding restore_def
proof (rule foldl_restore [of _ _ "set rows"])
  have "(dm_banks m')(i \<mapsto> b) = dm_banks m"
    using t b by (auto simp: touches_only_def fun_eq_iff)
  then show "(put_bank m' i b)\<lparr>dm_counts := dm_counts m, dm_table := dm_table m\<rparr> = m"
    using t by (simp add: put_bank_def touches_only_def)
qed (use assms in \<open>auto simp: touches_only_def\<close>)

section \<open>Batches of reservations\<close>

lemma in_rows_length: "length (dm_counts m') = length (dm_counts m) \<Longrightarrow> in_rows m' r = in_rows m r"
  by (simp add: in_rows_def)

lemma check_reservations_ok:
  "check_reservations m b seen reqs = Inr () \<Longrightarrow>
     distinct (map fst reqs) \<and> set (map fst reqs) \<inter> seen = {} \<and> (\<forall>r \<in> set (map fst reqs). in_rows m r)"
  by (induction m b seen reqs rule: check_reservations.induct) (auto simp: result_simps checks.simps)

lemma reserve_all_touches:
  assumes "reserve_all m i reqs = (res, m')" "banks_inv m" "set (map fst reqs) \<subseteq> R"
  shows "touches_only i R m m' \<and> keeps m m'"
  using assms
proof (induction reqs arbitrary: m m' res)
  case (Cons q reqs)
  obtain r n len version batch where q: "q = (r, n, len, version, batch)" by (cases q) auto
  obtain r1 m1 where one: "reserve_in_bank m i r n len version batch = (r1, m1)" by fastforce
  from Cons.prems(2) one have first: "touches_only i R m m1 \<and> keeps m m1"
  proof (cases rule: reserve_in_bank_cases)
    case (reserved b)
    have "touches_only i R (put_bank m i (bumped b r n (placed m b r n len version) batch)) m1"
      using reserved(2,4) Cons.prems(3) q by (auto intro!: touches_write_row simp: reservable_def)
    then show ?thesis using keeps_reserve [OF one] touches_only_trans [OF touches_put_bank] by blast
  qed simp
  then have inv: "banks_inv m1" using Cons.prems(2) by (simp add: keeps_def)
  show ?case
  proof (cases r1)
    case (Inl e)
    then show ?thesis using Cons.prems(1) one first q by simp
  next
    case (Inr l)
    obtain r2 m2 where rest: "reserve_all m1 i reqs = (r2, m2)" by fastforce
    have "m' = m2" using Cons.prems(1) one Inr rest q by (auto split: sum.splits)
    with Cons.IH [OF rest inv] Cons.prems(3) first show ?thesis
      by (auto intro: touches_only_trans keeps_trans)
  qed
qed simp


lemma touches_visible:
  assumes "touches_only i R m m'" "0 \<le> s" "s \<notin> R"
  shows "count_of m' s = count_of m s" "visible m' s = visible m s"
proof -
  have "int (nat s) \<notin> R" using assms(2,3) by simp
  then show "count_of m' s = count_of m s" "visible m' s = visible m s"
    using assms(1) by (simp_all add: touches_only_def visible_def count_of_def row_of_def)
qed

lemma reserve_keeps_holds:
  assumes "banks_inv m" "reserve_in_bank m i r n len version batch = (res, m')" "holds m j s l"
  shows "holds m' j s l"
  using assms(1,2)
proof (cases rule: reserve_in_bank_cases)
  case (reserved b)
  then show ?thesis using assms(3) by (auto simp: holds_def reservable_def)
qed (use assms in simp)

lemma reserve_all_keeps_holds:
  assumes "reserve_all m i reqs = (res, m')" "banks_inv m" "holds m j s l"
  shows "holds m' j s l"
  using assms
proof (induction reqs arbitrary: m res)
  case (Cons q reqs)
  obtain r1 m1 where one: "reserve_in_bank m i (fst q) (fst (snd q)) (fst (snd (snd q))) (fst (snd (snd (snd q)))) (snd (snd (snd (snd q)))) = (r1, m1)"
    by fastforce
  have "banks_inv m1" using keeps_reserve [OF one] Cons.prems(2) by (simp add: keeps_def)
  moreover have "holds m1 j s l" by (rule reserve_keeps_holds [OF Cons.prems(2) one Cons.prems(3)])
  ultimately show ?case using Cons.IH [of m1] Cons.prems(1) one by (cases r1) (auto split: prod.splits sum.splits)
qed simp

text \<open>A batch that returns has laid its ranges out one after another from the bump pointer.\<close>

definition laid_out :: "bank_manager \<Rightarrow> int \<Rightarrow> int \<Rightarrow> reservation list \<Rightarrow> bank_location list \<Rightarrow> bool" where
  "laid_out m i ptr reqs ls \<longleftrightarrow> map bl_request_id ls = map (\<lambda>q. Some (fst q)) reqs \<and> map bl_num_blocks ls = map (\<lambda>q. fst (snd q)) reqs
     \<and> (\<forall>k < length ls. bl_request_start_block (ls ! k) = ptr + sum_list (map (\<lambda>q. fst (snd q)) (take k reqs)))
     \<and> (\<forall>l \<in> set ls. holds m i (the (bl_request_id l)) l
          \<and> visible m (the (bl_request_id l)) = [first_physical_block l..end_physical_block l - 1])"

lemma laid_out_Cons:
  assumes "laid_out m i (ptr + n) reqs ls" "bl_request_id l = Some r" "bl_num_blocks l = n" "bl_request_start_block l = ptr"
    and "holds m i r l" "visible m r = [first_physical_block l..end_physical_block l - 1]"
  shows "laid_out m i ptr ((r, n, len, version, batch) # reqs) (l # ls)"
  using assms unfolding laid_out_def by (auto simp: nth_Cons' algebra_simps take_Cons' split: nat.splits)

lemma reserve_all_layout:
  assumes "reserve_all m i reqs = (Inr ls, m')" "banks_inv m" "dm_banks m i = Some b" "distinct (map fst reqs)"
  shows "laid_out m' i (bk_alloc_ptr b) reqs ls"
  using assms
proof (induction reqs arbitrary: m b ls)
  case (Cons q reqs)
  obtain r n len version batch where q: "q = (r, n, len, version, batch)" by (cases q) auto
  obtain r1 m1 where one: "reserve_in_bank m i r n len version batch = (r1, m1)" by fastforce
  obtain l r2 m2 where r1: "r1 = Inr l" and rest: "reserve_all m1 i reqs = (r2, m2)"
    using Cons.prems(1) one q by (cases r1) (auto split: prod.splits)
  then obtain ls2 where ls: "r2 = Inr ls2" "ls = l # ls2" "m' = m2" using Cons.prems(1) one q by (auto split: sum.splits)
  have rest': "reserve_all m1 i reqs = (Inr ls2, m')" using rest ls by simp
  from Cons.prems(2) one show ?case
  proof (cases rule: reserve_in_bank_cases)
    case (reserved b')
    then have b: "b' = b" "l = placed m b r n len version" using Cons.prems(3) r1 by auto
    note res = reserved(2) [unfolded b] and m1 = reserved(4) [unfolded b]
    have keep: "keeps m m1" and h1: "holds m1 i r l"
      unfolding m1 b using reserved_state [OF Cons.prems(2,3) res, of batch] by simp_all
    then have inv1: "banks_inv m1" using Cons.prems(2) by (simp add: keeps_def)
    have b1: "dm_banks m1 i = Some (bumped b r n l batch)" by (simp add: m1 b)
    from Cons.IH [OF rest' inv1 b1] Cons.prems(4) have tail: "laid_out m' i (bk_alloc_ptr b + n) reqs ls2" by simp
    have rows: "in_rows m r" "r \<notin> set (map fst reqs)" using res Cons.prems(4) q by (simp_all add: reservable_def)
    have inv0: "banks_inv (put_bank m i (bumped b r n l batch))" and h0: "holds (put_bank m i (bumped b r n l batch)) i r l"
      using keeps_bumped [OF Cons.prems(3) res, of batch] Cons.prems(2) by (auto simp: keeps_def b holds_def)
    have "visible m1 r = [first_physical_block l..end_physical_block l - 1]"
      using write_row_row(2) [OF inv0 h0, of n r] rows(1) res by (simp add: m1 b reservable_def end_physical_block_def)
    moreover have "touches_only i (set (map fst reqs)) m1 m'" using reserve_all_touches [OF rest' inv1] by blast
    ultimately have "visible m' r = [first_physical_block l..end_physical_block l - 1]"
      using touches_visible(2) rows by (metis in_rows_def)
    then have "laid_out m' i (bk_alloc_ptr b) ((r, n, len, version, batch) # reqs) (l # ls2)"
      using tail reserve_all_keeps_holds [OF rest' inv1 h1]
      by (intro laid_out_Cons) (simp_all add: b, simp add: placed_def)
    then show ?thesis by (simp add: q ls)
  qed (use r1 in simp)
qed (simp add: laid_out_def)


section \<open>Allocation from the active bank\<close>

lemma reserve_fresh_state:
  "map_prod (map_sum id (\<lambda>_. ())) id (reserve_fresh m i qs) =
   map_prod (map_sum id (\<lambda>_. ())) id (reserve_all m i (map (\<lambda>q. (fst q, fst (snd q), Some (snd (snd q)), 0, None)) qs))"
proof (induction qs arbitrary: m)
  case (Cons q qs)
  obtain r1 m1 where one: "reserve_in_bank m i (fst q) (fst (snd q)) (Some (snd (snd q))) 0 None = (r1, m1)" by fastforce
  from Cons.IH [of m1] one show ?case
    by (cases r1; cases "reserve_fresh m1 i qs";
        cases "reserve_all m1 i (map (\<lambda>q. (fst q, fst (snd q), Some (snd (snd q)), 0, None)) qs)")
      (auto split: sum.splits)
qed simp

lemma length_visible: "table_ok m \<Longrightarrow> in_rows m r \<Longrightarrow> int (length (visible m r)) = count_of m r"
  using count_bounds [of m r] length_row [of m r] by (simp add: visible_def min_def) linarith

lemma reserve_fresh_effect:
  assumes "reserve_fresh m i qs = (res, m')" "banks_inv m" "set (map fst qs) \<subseteq> R"
  shows "touches_only i R m m'" "keeps m m'" "holds m j s l \<Longrightarrow> holds m' j s l"
    "res = Inr blocks \<Longrightarrow> dm_banks m i \<noteq> None \<Longrightarrow> distinct (map fst qs) \<Longrightarrow> q \<in> set qs \<Longrightarrow> count_of m' (fst q) = fst (snd q)"
proof -
  let ?reqs = "map (\<lambda>q. (fst q, fst (snd q), Some (snd (snd q)), 0, None)) qs :: reservation list"
  obtain r m2 where all: "reserve_all m i ?reqs = (r, m2)" by fastforce
  then have m2: "m2 = m'" and r: "returns res = returns r"
    using reserve_fresh_state [of m i qs] assms(1) by (cases res; cases r; simp)+
  have rows: "map fst ?reqs = map fst qs" by simp
  then have "set (map fst ?reqs) \<subseteq> R" using assms(3) by simp
  from reserve_all_touches [OF all assms(2) this] show t: "touches_only i R m m'" and k: "keeps m m'" by (simp_all add: m2)
  show "holds m j s l \<Longrightarrow> holds m' j s l" using reserve_all_keeps_holds [OF all assms(2)] by (simp add: m2)
  assume "res = Inr blocks" "dm_banks m i \<noteq> None" "distinct (map fst qs)" "q \<in> set qs"
  then obtain ls b where ls: "r = Inr ls" and b: "dm_banks m i = Some b" using r by auto
  have lay: "laid_out m' i (bk_alloc_ptr b) ?reqs ls"
    by (rule reserve_all_layout [OF all [unfolded ls m2] assms(2) b]) (use \<open>distinct (map fst qs)\<close> in \<open>simp add: comp_def\<close>)
  then have inv: "banks_inv m'" using k assms(2) by (simp add: keeps_def)
  obtain k where kq: "k < length qs" "qs ! k = q" using \<open>q \<in> set qs\<close> by (auto simp: in_set_conv_nth)
  have len: "length ls = length qs" using lay by (auto simp: laid_out_def dest: map_eq_imp_length_eq)
  have "map bl_request_id ls ! k = map (\<lambda>q. Some (fst q)) ?reqs ! k" "map bl_num_blocks ls ! k = map (\<lambda>q. fst (snd q)) ?reqs ! k"
    using lay by (simp_all add: laid_out_def)
  then have id: "bl_request_id (ls ! k) = Some (fst q)" "bl_num_blocks (ls ! k) = fst (snd q)" using kq len by simp_all
  then have h: "holds m' i (fst q) (ls ! k)" "visible m' (fst q) = [first_physical_block (ls ! k)..end_physical_block (ls ! k) - 1]"
    using lay kq len unfolding laid_out_def by (metis nth_mem option.sel)+
  note hr = holds_in_rows [OF inv h(1)]
  have "int (length (visible m' (fst q))) = fst (snd q)" using h(2) hr(3) id(2) by (simp add: end_physical_block_def)
  then show "count_of m' (fst q) = fst (snd q)" using length_visible [OF banks_invD(2) [OF inv] hr(1)] by simp
qed

lemma grow_ranges_effect:
  assumes "banks_inv m" "\<forall>q \<in> set qs. holds m i (fst q) (snd (snd (snd q))) \<and> 0 \<le> fst (snd q) \<and> fst (snd q) \<le> bl_num_blocks (snd (snd (snd q)))"
    and "set (map fst qs) \<subseteq> R" "distinct (map fst qs)"
  shows "\<exists>blocks m'. grow_ranges m i qs = (Inr blocks, m') \<and> touches_only i R m m' \<and> keeps m m'
    \<and> (\<forall>q \<in> set qs. count_of m' (fst q) = fst (snd q)) \<and> (\<forall>s. in_rows m s \<longrightarrow> s \<notin> set (map fst qs) \<longrightarrow> count_of m' s = count_of m s)"
  using assms
proof (induction qs arbitrary: m)
  case (Cons q qs)
  obtain r n len l where q: "q = (r, n, len, l)" by (cases q) auto
  define l' m1 m2 where "l' = l\<lparr>bl_logical_kv_len := len\<rparr>" and "m1 = put_range m i r l'" and "m2 = write_row m1 r l' n"
  have h: "holds m i r l'" "0 \<le> n" "n \<le> bl_num_blocks l'" using Cons.prems(2) q by (auto simp: holds_def l'_def)
  have k1: "keeps m m1" unfolding m1_def by (rule keeps_put_range [OF h(1)])
  then have inv1: "banks_inv m1" using Cons.prems(1) by (simp add: keeps_def)
  have h1: "holds m1 i r l'" unfolding m1_def by (rule holds_put_range_new [OF h(1)])
  have k2: "keeps m1 m2" unfolding m2_def by (rule keeps_write_row [OF h1 h(2,3)])
  then have inv2: "banks_inv m2" using inv1 by (simp add: keeps_def)
  have row: "in_rows m r" using holds_in_rows(1) [OF Cons.prems(1) h(1)] .
  have t: "touches_only i R m m2"
    using Cons.prems(3) row q unfolding m1_def m2_def
    by (intro touches_only_trans [OF touches_put_range touches_write_row]) simp_all
  have holds2: "holds m j s x \<Longrightarrow> holds m2 j s x" for j s x
    using holds_put_range [OF h(1)] by (simp add: m1_def m2_def)
  have cnt: "count_of m2 s = (if s = r then n else count_of m s)" if "in_rows m s" for s
    using write_row_row(1) [OF inv1 h1 h(2,3), of s] that by (simp add: m2_def m1_def)
  have step: "set_valid_blocks m1 r l' n = Inr m2"
    by (simp add: set_valid_blocks_decided [OF inv1 h1] h(3) m2_def write_row_def)
  obtain blocks m3 where rest: "grow_ranges m2 i qs = (Inr blocks, m3)" "touches_only i R m2 m3" "keeps m2 m3"
      "\<forall>q \<in> set qs. count_of m3 (fst q) = fst (snd q)" "\<forall>s. in_rows m2 s \<longrightarrow> s \<notin> set (map fst qs) \<longrightarrow> count_of m3 s = count_of m2 s"
    using Cons.IH [OF inv2] Cons.prems(2-4) holds2 by auto
  have rows2: "in_rows m2 s = in_rows m s" for s by (simp add: m2_def m1_def)
  have "grow_ranges m i (q # qs) = (Inr ([first_physical_block l' + count_of m r..first_physical_block l' + n - 1] @ blocks), m3)"
    using step rest(1) by (simp add: q Let_def l'_def m1_def)
  moreover have "touches_only i R m m3" using t rest(2) by (rule touches_only_trans)
  moreover have "keeps m m3" using k1 k2 rest(3) by (blast intro: keeps_trans)
  moreover have "count_of m3 r = n" using rest(5) rows2 row Cons.prems(4) cnt q by simp
  moreover have "count_of m3 s = count_of m s" if "in_rows m s" "s \<notin> set (map fst (q # qs))" for s
    using rest(5) rows2 that cnt q by simp
  ultimately show ?case using rest(4) q by auto
qed simp

lemma plan_allocation_rows:
  assumes "plan_allocation m b items = Inr (fresh, grown)" "distinct (map fst items)"
  shows "set fresh \<subseteq> set items \<and> set (map fst grown) \<subseteq> set (map fst items) \<and> distinct (map fst fresh) \<and> distinct (map fst grown)
    \<and> set (map fst fresh) \<inter> set (map fst grown) = {}"
  using assms
proof (induction items arbitrary: fresh grown)
  case (Cons q items)
  obtain r n len where q: "q = (r, n, len)" by (cases q) auto
  from Cons.prems(1) q consider (skip) "plan_allocation m b items = Inr (fresh, grown)"
    | (fresh) f where "fresh = q # f" "plan_allocation m b items = Inr (f, grown)"
    | (grown) g l where "grown = (r, n, len, l) # g" "plan_allocation m b items = Inr (fresh, g)"
    by (auto simp: result_simps split: if_splits option.splits)
  then show ?case
  proof cases
    case skip
    then show ?thesis using Cons.IH [OF skip] Cons.prems(2) by auto
  next
    case fresh
    have "r \<notin> set (map fst items)" using Cons.prems(2) q by simp
    then show ?thesis using Cons.IH [OF fresh(2)] Cons.prems(2) fresh(1) q by (auto simp: subset_iff image_iff)
  next
    case grown
    have "r \<notin> set (map fst items)" using Cons.prems(2) q by simp
    then show ?thesis using Cons.IH [OF grown(2)] Cons.prems(2) grown(1) q by (auto simp: subset_iff image_iff)
  qed
qed simp

lemma plan_allocation_fits:
  assumes "plan_allocation m b items = Inr (fresh, grown)" "dm_banks m i = Some b"
  shows "\<forall>q \<in> set grown. holds m i (fst q) (snd (snd (snd q))) \<and> count_of m (fst q) < fst (snd q) \<and> fst (snd q) \<le> bl_num_blocks (snd (snd (snd q)))"
    "\<forall>q \<in> set items. fst (snd q) \<le> count_of m (fst q) \<or> q \<in> set fresh \<or> (\<exists>l. (fst q, fst (snd q), snd (snd q), l) \<in> set grown)"
  using assms(1)
proof (induction items arbitrary: fresh grown)
  case (Cons q items)
  obtain r n len where q: "q = (r, n, len)" by (cases q) auto
  have h: "holds m i r l" if "bk_request_ranges b r = Some l" for l using that assms(2) by (auto simp: holds_def)
  { case 1
    then show ?case using Cons.IH(1) q h by (fastforce simp: result_simps split: if_splits option.splits) }
  { case 2
    then show ?case using Cons.IH(2) q by (fastforce simp: result_simps split: if_splits option.splits) }
qed simp_all


lemma normalize_lengths_items:
  assumes "normalize_lengths m ids lens = Inr items" "0 < dm_block_size m"
  shows "distinct (map fst items)" "\<forall>q \<in> set items. in_rows m (fst q) \<and> 0 \<le> fst (snd q) \<and> 0 \<le> snd (snd q)
    \<and> fst (snd q) = (snd (snd q) + (dm_block_size m - 1)) div dm_block_size m"
    "map (\<lambda>q. (fst q, snd (snd q))) items = zip ids lens"
proof -
  have ids: "length ids = length lens" "distinct ids" using assms(1) by (simp_all add: normalize_lengths_def result_simps)
  have all: "list_all2 (\<lambda>p q. fst q = fst p \<and> in_rows m (fst q) \<and> 0 \<le> snd (snd q) \<and> snd (snd q) = snd p
      \<and> fst (snd q) = (snd p + (dm_block_size m - 1)) div dm_block_size m) (zip ids lens) items"
    using assms(1) unfolding normalize_lengths_def
    by (auto simp: result_simps map_r_Inr elim!: list_all2_mono)
  then show "map (\<lambda>q. (fst q, snd (snd q))) items = zip ids lens"
    using ids(1) by (auto simp: list_all2_conv_all_nth intro!: nth_equalityI)
  have "map fst items = map fst (zip ids lens)" using all ids(1) by (auto simp: list_all2_conv_all_nth intro!: nth_equalityI)
  then show "distinct (map fst items)" using ids by simp
  show "\<forall>q \<in> set items. in_rows m (fst q) \<and> 0 \<le> fst (snd q) \<and> 0 \<le> snd (snd q)
    \<and> fst (snd q) = (snd (snd q) + (dm_block_size m - 1)) div dm_block_size m"
  proof
    fix q
    assume "q \<in> set items"
    then obtain k where "k < length items" "q = items ! k" by (auto simp: in_set_conv_nth)
    then show "in_rows m (fst q) \<and> 0 \<le> fst (snd q) \<and> 0 \<le> snd (snd q)
      \<and> fst (snd q) = (snd (snd q) + (dm_block_size m - 1)) div dm_block_size m"
      using all ids(1) assms(2) by (auto simp: list_all2_conv_all_nth pos_imp_zdiv_nonneg_iff)
  qed
qed

lemma allocate_from_active_effect:
  assumes "allocate_from_active_bank m items = (res, m')" "banks_inv m" "distinct (map fst items)"
    and "\<forall>q \<in> set items. in_rows m (fst q) \<and> 0 \<le> fst (snd q)"
  shows "keeps m m' \<and> (case res of Inl e \<Rightarrow> m' = m | Inr blocks \<Rightarrow> \<forall>q \<in> set items. fst (snd q) \<le> count_of m' (fst q))"
proof (cases "dm_banks m (dm_active_bank_id m)")
  case None
  then show ?thesis using assms(1) by (auto simp: allocate_from_active_bank_def require_bank_def Let_def)
next
  case (Some b)
  let ?i = "dm_active_bank_id m" and ?R = "set (map fst items)"
  have rows: "\<forall>r \<in> ?R. in_rows m r" using assms(4) by auto
  note undo = restore_undoes [OF _ Some banks_invD(2) [OF assms(2)] rows]
  show ?thesis
  proof (cases "plan_allocation m b items")
    case (Inl e)
    then show ?thesis using assms(1) Some by (auto simp: allocate_from_active_bank_def require_bank_def Let_def)
  next
    case (Inr p)
    then obtain fresh grown where plan: "plan_allocation m b items = Inr (fresh, grown)" by (cases p) auto
    note prows = plan_allocation_rows [OF plan assms(3)] and fits = plan_allocation_fits [OF plan Some]
    obtain r1 m1 where f: "reserve_fresh m ?i fresh = (r1, m1)" by fastforce
    have sub: "set (map fst fresh) \<subseteq> ?R" using prows by auto
    note fr = reserve_fresh_effect [OF f assms(2)]
    have inv1: "banks_inv m1" using fr(2) [OF sub] assms(2) by (simp add: keeps_def)
    have same: "in_rows m1 s = in_rows m s" for s using fr(2) [OF sub] assms(2) by (intro in_rows_length) (simp add: keeps_def)
    have nonneg: "0 \<le> fst (snd q)" if "q \<in> set grown" for q
    proof -
      have "holds m ?i (fst q) (snd (snd (snd q)))" "count_of m (fst q) < fst (snd q)" using fits(1) that by blast+
      then show ?thesis using count_bounds [OF banks_invD(2) [OF assms(2)]] holds_in_rows(1) [OF assms(2)] by (metis dual_order.trans less_imp_le)
    qed
    have "\<forall>q \<in> set grown. holds m1 ?i (fst q) (snd (snd (snd q))) \<and> 0 \<le> fst (snd q) \<and> fst (snd q) \<le> bl_num_blocks (snd (snd (snd q)))"
      using fits(1) fr(3) [OF sub] nonneg by blast
    from grow_ranges_effect [OF inv1 this, of ?R] prows obtain blocks' m2 where
      g: "grow_ranges m1 ?i grown = (Inr blocks', m2)" "touches_only ?i ?R m1 m2" "keeps m1 m2"
        "\<forall>q \<in> set grown. count_of m2 (fst q) = fst (snd q)" "\<forall>s. in_rows m1 s \<longrightarrow> s \<notin> set (map fst grown) \<longrightarrow> count_of m2 s = count_of m1 s"
      by blast
    show ?thesis
    proof (cases "sum_list (map (\<lambda>q. fst (snd q)) fresh) \<le> remaining_blocks b")
      case False
      then show ?thesis using assms(1) Some plan by (auto simp: allocate_from_active_bank_def require_bank_def Let_def)
    next
      case True
      show ?thesis
      proof (cases r1)
        case (Inl e)
        then have "res = Inl e" "m' = restore m ?i b (map fst items) m1"
          using assms(1) Some plan True f by (auto simp: allocate_from_active_bank_def require_bank_def Let_def)
        then show ?thesis using undo [of m1] fr(1) [OF sub] by simp
      next
        case (Inr blocks)
        then have m': "m' = m2" "res = Inr (blocks @ blocks')"
          using assms(1) Some plan True f g(1) by (auto simp: allocate_from_active_bank_def require_bank_def Let_def)
        have "fst (snd q) \<le> count_of m2 (fst q)" if q: "q \<in> set items" for q
        proof -
          have cover: "fst (snd q) \<le> count_of m (fst q) \<or> q \<in> set fresh \<or> (\<exists>l. (fst q, fst (snd q), snd (snd q), l) \<in> set grown)"
            using fits(2) q by blast
          have row: "in_rows m (fst q)" "in_rows m1 (fst q)" using assms(4) q same by auto
          show ?thesis
          proof (cases "fst q \<in> set (map fst grown)")
            case True
            then obtain q' where q': "q' \<in> set grown" "fst q' = fst q" by auto
            then have "count_of m (fst q) < count_of m2 (fst q)" using fits(1) g(4) by metis
            moreover have "q \<notin> set fresh" using True prows by auto
            moreover have "count_of m2 (fst q) = fst (snd q)" if "(fst q, fst (snd q), snd (snd q), l) \<in> set grown" for l
              using bspec [OF g(4) that] by simp
            ultimately show ?thesis using cover by force
          next
            case False
            then have c2: "count_of m2 (fst q) = count_of m1 (fst q)" and ng: "\<nexists>l. (fst q, fst (snd q), snd (snd q), l) \<in> set grown"
              using g(5) row by force+
            show ?thesis
            proof (cases "fst q \<in> set (map fst fresh)")
              case True
              then obtain q' where "q' \<in> set fresh" "fst q' = fst q" by auto
              moreover from this have "q' = q" using q assms(3) prows by (metis distinct_map inj_onD subsetD)
              ultimately have "count_of m1 (fst q) = fst (snd q)" using fr(4) [OF sub Inr _ _ ] Some prows by simp
              then show ?thesis using c2 by simp
            next
              case False
              then have "count_of m1 (fst q) = count_of m (fst q)" "q \<notin> set fresh"
                using touches_visible(1) [OF fr(1) [OF subset_refl]] row by (auto simp: in_rows_def)
              then show ?thesis using cover ng c2 by simp
            qed
          qed
        qed
        then show ?thesis using m' keeps_trans [OF fr(2) [OF sub] g(3)] by simp
      qed
    qed
  qed
qed


section \<open>The other operations keep the invariant\<close>

lemma drop_range_simps [simp]:
  "in_rows (drop_range m i r) s = in_rows m s" "count_of (drop_range m i r) s = count_of m s"
  "visible (drop_range m i r) s = visible m s" "length (dm_counts (drop_range m i r)) = length (dm_counts m)"
  "range_at (drop_range m i r) j s = (if j = i \<and> s = r then None else range_at m j s)"
  by (simp_all add: drop_range_def range_at_def split: option.splits)

lemma set_count_drop_range: "set_count (drop_range m i r) r n = drop_range (set_count m r n) i r"
  by (simp add: drop_range_def put_bank_def set_count_def split: option.split)

lemma bank_ok_drop: "bank_ok k w rows i b \<Longrightarrow> bank_ok k w rows i (b\<lparr>bk_request_ranges := (bk_request_ranges b)(r := None)\<rparr>)"
  by (auto simp: bank_ok_def split: if_splits)

lemma keeps_drop_range:
  assumes "count_of m r = 0 \<or> \<not> backed_by m i r"
  shows "keeps m (drop_range m i r)"
proof (rule keepsI)
  assume inv: "banks_inv m"
  show "banks_inv (drop_range m i r)"
    using banks_inv_put_bank [OF inv _ bank_ok_drop [OF banks_invD(3) [OF inv]]] inv
    by (simp add: drop_range_def split: option.split)
next
  fix s
  assume s: "backed m s"
  show "backed (drop_range m i r) s"
  proof (cases "s = r")
    case True
    then have "count_of m r = 0 \<or> (\<exists>j. j \<noteq> i \<and> backed_by m j r)" using s assms by (auto simp: backed_def)
    then show ?thesis using True by (auto simp: backed_def backed_by_def)
  next
    case False
    then have "backed (drop_range m i r) s = backed m s" by (intro backed_cong) simp_all
    with s show ?thesis by simp
  qed
qed simp

lemma keeps_free_bank_blocks: "free_bank_blocks m ids = (res, m') \<Longrightarrow> keeps m m'"
proof (induction m ids rule: free_bank_blocks.induct)
  case (2 m s rest)
  show ?case
  proof (cases "length (dm_counts m) \<le> s")
    case False
    define m1 where "m1 = set_count m (int s) 0"
    define m2 where "m2 = (case bank_for_request m1 (int s) of None \<Rightarrow> m1 | Some (i, _) \<Rightarrow> drop_range m1 i (int s))"
    have row: "in_rows m (int s)" using False by (simp add: in_rows_def)
    have "keeps m m1"
    proof (cases "banks_inv m")
      case True
      then show ?thesis unfolding m1_def using row count_bounds [OF banks_invD(2) [OF True] row] by (intro keeps_set_count) simp_all
    qed (simp add: keeps_def)
    moreover have "keeps m1 m2"
      using row by (auto simp: m2_def m1_def count_of_set_count split: option.split intro!: keeps_drop_range)
    moreover have "keeps m2 m'" using 2 False unfolding m1_def m2_def by (simp add: Let_def)
    ultimately show ?thesis by (blast intro: keeps_trans)
  qed (use 2 in simp)
qed simp

lemma bank_for_request_holds: "bank_for_request m r = Some (i, l) \<Longrightarrow> holds m i r l"
  by (auto simp: bank_for_request_def Let_def holds_def split: option.splits Option.bind_splits)

lemma plan_crop_spec:
  assumes "plan_crop m q = Inr p"
  shows "fst p = fst q" "fst (snd p) = fst (snd q)" "fst (snd p) \<le> count_of m (fst p)"
    "snd (snd (snd p)) = Some (i, l) \<Longrightarrow> holds m i (fst p) l"
  using assms by (auto simp: plan_crop_def result_simps split: prod.splits option.splits intro: bank_for_request_holds)

lemma keeps_apply_crops:
  assumes "banks_inv m" "distinct (map fst plans)"
    and "\<forall>p \<in> set plans. in_rows m (fst p) \<and> 0 \<le> fst (snd p) \<and> fst (snd p) \<le> count_of m (fst p)
      \<and> (\<forall>i l. snd (snd (snd p)) = Some (i, l) \<longrightarrow> holds m i (fst p) l)"
  shows "keeps m (foldl apply_crop m plans)
    \<and> (\<forall>s. in_rows m s \<longrightarrow> s \<notin> set (map fst plans) \<longrightarrow> count_of (foldl apply_crop m plans) s = count_of m s)
    \<and> (\<forall>p \<in> set plans. count_of (foldl apply_crop m plans) (fst p) = fst (snd p))"
  using assms
proof (induction plans arbitrary: m)
  case (Cons p plans)
  obtain r n len found where p: "p = (r, n, len, found)" by (cases p) auto
  have row: "in_rows m r" and n: "0 \<le> n" "n \<le> count_of m r" and h: "found = Some (i, l) \<Longrightarrow> holds m i r l" for i l
    using Cons.prems(3) p by auto
  let ?m = "apply_crop m p"
  have cnt: "count_of ?m s = (if s = r then n else count_of m s)" if "in_rows m s" for s
    using that row by (auto simp: p apply_crop_def Let_def count_of_set_count split: option.split)
  have rows: "in_rows ?m s = in_rows m s" for s by (auto simp: p apply_crop_def Let_def split: option.split)
  have k: "keeps m ?m"
  proof (cases found)
    case None
    then show ?thesis using keeps_set_count [OF row n] by (simp add: p apply_crop_def)
  next
    case (Some x)
    obtain i l where x: "x = (i, l)" by (cases x)
    let ?l = "l\<lparr>bl_logical_kv_len := len, bl_kv_version := bl_kv_version l + 1\<rparr>"
    have "holds (set_count m r n) i r ?l" using h [of i l] Some x by (auto simp: holds_def)
    from keeps_trans [OF keeps_set_count [OF row n] keeps_put_range [OF this]] show ?thesis
      using Some x by (simp add: p apply_crop_def)
  qed
  then have inv: "banks_inv ?m" using Cons.prems(1) by (simp add: keeps_def)
  have "holds ?m i s x" if "holds m i s x" for i s x
  proof (cases found)
    case None
    then show ?thesis using that by (simp add: p apply_crop_def)
  next
    case (Some y)
    obtain j l where y: "y = (j, l)" by (cases y)
    have "holds (set_count m r n) j r (l\<lparr>bl_logical_kv_len := len, bl_kv_version := bl_kv_version l + 1\<rparr>)"
      using h [of j l] Some y by (auto simp: holds_def)
    from holds_put_range [OF this] that show ?thesis using Some y by (simp add: p apply_crop_def)
  qed
  then have "\<forall>q \<in> set plans. in_rows ?m (fst q) \<and> 0 \<le> fst (snd q) \<and> fst (snd q) \<le> count_of ?m (fst q)
      \<and> (\<forall>i l. snd (snd (snd q)) = Some (i, l) \<longrightarrow> holds ?m i (fst q) l)"
    using Cons.prems(2,3) rows cnt p by auto
  then have rest: "keeps ?m (foldl apply_crop ?m plans)
    \<and> (\<forall>s. in_rows ?m s \<longrightarrow> s \<notin> set (map fst plans) \<longrightarrow> count_of (foldl apply_crop ?m plans) s = count_of ?m s)
    \<and> (\<forall>p \<in> set plans. count_of (foldl apply_crop ?m plans) (fst p) = fst (snd p))"
    using Cons.IH [OF inv] Cons.prems(2) by simp
  then show ?case using keeps_trans [OF k] cnt rows row Cons.prems(2) p by auto
qed simp


lemma keeps_apply_bank_release:
  assumes "in_rows m r" "q = (i, epoch, r, start, n, batch)"
  shows "keeps m (apply_bank_release m q)"
proof (cases "banks_inv m")
  case True
  note c = count_bounds [OF banks_invD(2) [OF True] assms(1)]
  have zero: "keeps m (drop_range (set_count m r 0) i r)"
    using keeps_trans [OF keeps_set_count [OF assms(1)] keeps_drop_range] c assms(1) by (simp add: count_of_set_count)
  show ?thesis
  proof (cases "range_at m i r")
    case None
    then show ?thesis by (simp add: assms(2) apply_bank_release_def range_at_def)
  next
    case (Some g)
    then obtain l where l: "Option.bind (dm_banks m i) (\<lambda>b. bk_request_ranges b r) = Some l" "g = geometry l" by (auto simp: range_at_def)
    let ?hit = "count_of m r \<le> bl_num_blocks l \<and> 0 < count_of m r \<and> row_of m r ! 0 = first_physical_block l"
    have "count_of m r = 0 \<or> \<not> backed_by m i r" if "\<not> ?hit"
    proof (rule ccontr)
      assume "\<not> (count_of m r = 0 \<or> \<not> backed_by m i r)"
      then have b: "0 < count_of m r" "count_of m r \<le> bl_num_blocks l"
        "visible m r = [first_physical_block l..first_physical_block l + count_of m r - 1]"
        using c Some l(2) by (auto simp: backed_by_def geometry_def)
      then have "visible m r ! 0 = first_physical_block l" by (simp add: upto.simps [of "first_physical_block l"])
      then have "row_of m r ! 0 = first_physical_block l" using b(1) by (simp add: visible_def)
      with b that show False by simp
    qed
    then have "keeps m (if ?hit then drop_range (set_count m r 0) i r else drop_range m i r)"
      using zero keeps_drop_range by auto
    moreover have "apply_bank_release m q = (if ?hit then drop_range (set_count m r 0) i r else drop_range m i r)"
      by (simp add: assms(2) apply_bank_release_def l(1) Let_def set_count_drop_range)
    ultimately show ?thesis by simp
  qed
qed (simp add: keeps_def)

lemma apply_bank_release_rows [simp]: "in_rows (apply_bank_release m q) s = in_rows m s"
  by (auto simp: apply_bank_release_def Let_def split: prod.split option.split)

lemma keeps_apply_bank_releases:
  "\<forall>q \<in> set qs. in_rows m (fst (snd (snd q))) \<Longrightarrow> keeps m (foldl apply_bank_release m qs)"
proof (induction qs arbitrary: m)
  case (Cons q qs)
  have "keeps m (apply_bank_release m q)" using Cons.prems keeps_apply_bank_release [of m "fst (snd (snd q))" q] by (cases q) auto
  with Cons show ?case by (auto intro: keeps_trans)
qed simp

lemma check_bank_releases_rows: "check_bank_releases m seen qs = Inr () \<Longrightarrow> \<forall>q \<in> set qs. in_rows m (fst (snd (snd q)))"
  by (induction m seen qs rule: check_bank_releases.induct) (auto simp: result_simps checks.simps split: option.splits)

lemma keeps_role:
  assumes "dm_banks m i = Some b" "ok_bank m i b \<Longrightarrow> ok_bank m i b'" "bk_request_ranges b' = bk_request_ranges b"
  shows "keeps m (put_bank m i b')"
proof (rule keepsI)
  assume inv: "banks_inv m"
  show "banks_inv (put_bank m i b')" using banks_inv_put_bank [OF inv] assms(1,2) banks_invD(3) [OF inv assms(1)] by simp
next
  fix s
  assume "backed m s"
  moreover have "range_at (put_bank m i b') j s = range_at m j s" for j using assms(1,3) by (simp add: range_at_def)
  ultimately show "backed (put_bank m i b') s" using backed_cong [of "put_bank m i b'" s m] by simp
qed simp

lemma no_ranges_iff:
  assumes "banks_inv m" "dm_banks m i = Some b"
  shows "no_ranges m b \<longleftrightarrow> bk_request_ranges b = Map.empty"
proof -
  have "r = int (nat r) \<and> nat r < length (dm_counts m)" if "bk_request_ranges b r = Some l" for r l
  proof -
    have "range_ok (dm_max_blocks_per_seq m) (length (dm_counts m)) b r l" using banks_invD(3) [OF assms] that by (simp add: bank_ok_def)
    then show ?thesis by (simp add: range_ok_def nat_less_iff)
  qed
  note key = this
  have "bk_request_ranges b r = None" if "no_ranges m b" for r
  proof (rule ccontr)
    assume "bk_request_ranges b r \<noteq> None"
    then obtain l where l: "bk_request_ranges b r = Some l" by blast
    have r: "int (nat r) = r" "nat r < length (dm_counts m)" using key [OF l] by linarith+
    have "nat r \<in> set [0..<length (dm_counts m)]" using r(2) by simp
    then have "bk_request_ranges b (int (nat r)) = None" using that unfolding no_ranges_def list_all_iff by blast
    then show False unfolding r(1) using l by simp
  qed
  then show ?thesis by (auto simp: no_ranges_def list_all_iff)
qed

lemma keeps_discard: "discard_empty_prepared_bank m i epoch batch = Inr m' \<Longrightarrow> keeps m m'"
proof (cases "banks_inv m")
  case True
  assume "discard_empty_prepared_bank m i epoch batch = Inr m'"
  then obtain b where b: "dm_banks m i = Some b" "no_ranges m b"
      "m' = put_bank m i (b\<lparr>bk_alloc_ptr := 0, bk_role := STANDBY, bk_batch_id := None, bk_ready_event := None\<rparr>)"
    by (auto simp: discard_empty_prepared_bank_def require_bank_def result_simps split: option.splits if_splits)
  then have "bk_request_ranges b = Map.empty" using no_ranges_iff [OF True] by blast
  moreover note banks_size [OF True]
  ultimately show ?thesis unfolding b(3) by (intro keeps_role [OF b(1)]) (simp_all add: bank_ok_def)
qed (simp add: keeps_def)

lemma keeps_mark: "mark_bank_prepared m i batch ready = Inr (b, m') \<Longrightarrow> keeps m m'"
  by (auto simp: mark_bank_prepared_def require_bank_def result_simps Let_def bank_ok_def split: option.splits intro!: keeps_role)

lemma keeps_set_version: "set_bank_location_kv_version m r i epoch version = Inr (l, m') \<Longrightarrow> keeps m m'"
proof -
  assume "set_bank_location_kv_version m r i epoch version = Inr (l, m')"
  then obtain b l0 where "dm_banks m i = Some b" "bk_request_ranges b r = Some l0" "l = l0\<lparr>bl_kv_version := version\<rparr>"
      "m' = put_bank m i (b\<lparr>bk_request_ranges := (bk_request_ranges b)(r \<mapsto> l)\<rparr>)"
    by (auto simp: set_bank_location_kv_version_def require_bank_def result_simps Let_def split: option.splits)
  then have "holds m i r l" "m' = put_range m i r l" by (auto simp: holds_def put_range_def)
  then show ?thesis using keeps_put_range by simp
qed

lemma keeps_swap: "swap_active_standby m = Inr (ds, m') \<Longrightarrow> keeps m m'"
proof -
  assume "swap_active_standby m = Inr (ds, m')"
  then obtain a s where banks: "dm_banks m (dm_active_bank_id m) = Some a" "dm_banks m (dm_standby_bank_id m) = Some s"
    and m': "m' = (put_bank (put_bank m (dm_active_bank_id m) (a\<lparr>bk_role := STANDBY\<rparr>)) (dm_standby_bank_id m) (s\<lparr>bk_role := ACTIVE\<rparr>))
                  \<lparr>dm_active_bank_id := dm_standby_bank_id m, dm_standby_bank_id := dm_active_bank_id m\<rparr>"
    by (auto simp: swap_active_standby_def require_bank_def result_simps Let_def split: option.splits)
  let ?m1 = "put_bank m (dm_active_bank_id m) (a\<lparr>bk_role := STANDBY\<rparr>)"
  let ?m2 = "put_bank ?m1 (dm_standby_bank_id m) (s\<lparr>bk_role := ACTIVE\<rparr>)"
  have k1: "keeps m ?m1" by (rule keeps_role [OF banks(1)]) (simp_all add: bank_ok_def)
  have "keeps ?m1 ?m2"
  proof (rule keeps_role)
    let ?s = "if dm_standby_bank_id m = dm_active_bank_id m then a\<lparr>bk_role := STANDBY\<rparr> else s"
    show "dm_banks ?m1 (dm_standby_bank_id m) = Some ?s" using banks(2) by simp
    show "bk_request_ranges (s\<lparr>bk_role := ACTIVE\<rparr>) = bk_request_ranges ?s" using banks by auto
    show "ok_bank ?m1 (dm_standby_bank_id m) ?s \<Longrightarrow> ok_bank ?m1 (dm_standby_bank_id m) (s\<lparr>bk_role := ACTIVE\<rparr>)"
      using banks by (auto simp: bank_ok_def split: if_splits)
  qed
  with k1 have k: "keeps m ?m2" by (rule keeps_trans)
  show ?thesis
  proof (rule keepsI)
    assume "banks_inv m"
    with k have "banks_inv ?m2" by (simp add: keeps_def)
    then show "banks_inv m'" unfolding m' banks_inv_def table_ok_def by (auto simp: insert_commute)
  next
    fix r
    assume r: "banks_inv m" "in_rows m r" "backed m r"
    have "range_at m' j r = range_at m j r" for j using banks m' by (auto simp: range_at_def)
    moreover have "count_of m' r = count_of m r" "visible m' r = visible m r" by (simp_all add: m' count_of_def visible_def row_of_def put_bank_def)
    ultimately show "backed m' r" using r(3) backed_cong by metis
  qed (simp add: m')
qed


lemma crop_effect:
  assumes "crop_bank_blocks m ids lens = Inr m'" "banks_inv m"
  shows "keeps m m'" "\<forall>(s, len) \<in> set (zip ids lens). count_of m' s = (len + (dm_block_size m - 1)) div dm_block_size m"
proof -
  obtain items plans where n: "normalize_lengths m ids lens = Inr items" and p: "list_all2 (\<lambda>q p. plan_crop m q = Inr p) items plans"
    and m': "m' = foldl apply_crop m plans"
    using assms(1) by (auto simp: crop_bank_blocks_def result_simps map_r_Inr)
  note items = normalize_lengths_items [OF n banks_invD(5) [OF assms(2)]]
  have len: "length items = length plans" using p by (rule list_all2_lengthD)
  have nth: "plan_crop m (items ! k) = Inr (plans ! k)" if "k < length plans" for k using p that len by (simp add: list_all2_conv_all_nth)
  have "fst (plans ! k) = fst (items ! k)" if "k < length plans" for k using plan_crop_spec(1) [OF nth [OF that]] .
  then have fsts: "map fst plans = map fst items" using len by (simp add: list_eq_iff_nth_eq)
  have each: "in_rows m (fst p) \<and> 0 \<le> fst (snd p) \<and> fst (snd p) \<le> count_of m (fst p)
      \<and> (\<forall>i l. snd (snd (snd p)) = Some (i, l) \<longrightarrow> holds m i (fst p) l)" if mem: "p \<in> set plans" for p
  proof -
    obtain k where k: "k < length plans" "p = plans ! k" using mem by (auto simp: in_set_conv_nth)
    have "items ! k \<in> set items" using k len by simp
    then show ?thesis using plan_crop_spec [OF nth [OF k(1)]] items(2) k(2) by auto
  qed
  have "distinct (map fst plans)" using items(1) fsts by simp
  from keeps_apply_crops [OF assms(2) this] each
  have eff: "keeps m m'" "\<forall>p \<in> set plans. count_of m' (fst p) = fst (snd p)" by (simp_all add: m')
  show "keeps m m'" by (rule eff(1))
  show "\<forall>(s, len) \<in> set (zip ids lens). count_of m' s = (len + (dm_block_size m - 1)) div dm_block_size m"
  proof (clarify)
    fix s len
    assume "(s, len) \<in> set (zip ids lens)"
    then obtain q where q: "q \<in> set items" "fst q = s" "snd (snd q) = len" by (auto simp flip: items(3))
    then obtain k where k: "k < length plans" "items ! k = q" using len by (metis in_set_conv_nth)
    then have "count_of m' (fst (plans ! k)) = fst (snd (plans ! k))" using eff(2) by simp
    then show "count_of m' s = (len + (dm_block_size m - 1)) div dm_block_size m"
      using plan_crop_spec(1,2) [OF nth [OF k(1)]] q k items(2) by auto
  qed
qed

text \<open>A reset is safe when no row still shows blocks of the bank alone.\<close>

definition reset_safe :: "bank_manager \<Rightarrow> int \<Rightarrow> bool" where
  "reset_safe m i \<longleftrightarrow> (\<forall>r. in_rows m r \<longrightarrow> range_at m i r \<noteq> None \<longrightarrow> count_of m r = 0 \<or> (\<exists>j. j \<noteq> i \<and> backed_by m j r))"

lemma reset_bank_effect:
  assumes "reset_bank m i = Inr (b', m')" "banks_inv m"
  shows "banks_inv m'" "touches_only i R m m'" "reset_safe m i \<Longrightarrow> all_backed m \<Longrightarrow> all_backed m'"
    "length (dm_counts m') = length (dm_counts m)" "dm_banks m' i = Some b'" "bk_alloc_ptr b' = 0"
proof -
  obtain b where b: "dm_banks m i = Some b"
    and new: "b' = b\<lparr>bk_alloc_ptr := 0, bk_epoch := bk_epoch b + 1, bk_role := (if bk_role b = PREPARED then STANDBY else bk_role b),
                  bk_batch_id := None, bk_request_ranges := Map.empty, bk_ready_event := None\<rparr>"
    and m': "m' = put_bank m i b'"
    using assms(1) by (auto simp: reset_bank_def require_bank_def result_simps Let_def split: option.splits)
  have b': "bk_alloc_ptr b' = 0" "bk_request_ranges b' = Map.empty" "ok_bank m i b \<Longrightarrow> ok_bank m i b'"
    by (auto simp: new bank_ok_def)
  show "banks_inv m'" using banks_inv_put_bank [OF assms(2)] b b'(3) banks_invD(3) [OF assms(2) b] by (simp add: m')
  show "touches_only i R m m'" "length (dm_counts m') = length (dm_counts m)" "dm_banks m' i = Some b'" "bk_alloc_ptr b' = 0"
    by (simp_all add: m' b'(1))
  assume safe: "reset_safe m i" "all_backed m"
  have "backed m' r" if r: "in_rows m r" for r
  proof -
    have "count_of m r = 0 \<or> (\<exists>j. j \<noteq> i \<and> backed_by m j r)"
    proof (cases "\<exists>j. j \<noteq> i \<and> backed_by m j r")
      case False
      then have "count_of m r = 0 \<or> range_at m i r \<noteq> None" using safe(2) r by (force simp: all_backed_def backed_def backed_by_def)
      then show ?thesis using safe(1) r False unfolding reset_safe_def by blast
    qed simp
    then show ?thesis by (auto simp: backed_def backed_by_def m')
  qed
  then show "all_backed m'" by (simp add: all_backed_def m')
qed

lemma reserve_batch_effect:
  assumes "reserve_in_bank_batch_atomic m i requests reset = (res, m')" "banks_inv m"
  shows "banks_inv m' \<and> (all_backed m \<and> (reset \<longrightarrow> reset_safe m i) \<longrightarrow> all_backed m')
    \<and> (case res of Inl e \<Rightarrow> m' = m
       | Inr ls \<Rightarrow> laid_out m' i (if reset then 0 else bk_alloc_ptr (the (dm_banks m i))) requests ls)"
proof (cases "bind_r (require (dm_enabled m) (RuntimeError ''reserve_in_bank_batch_atomic requires double-bank mode'')) (\<lambda>_.
           bind_r (require_bank m i) (\<lambda>b.
           bind_r (check_reservations m b {} requests) (\<lambda>_.
           bind_r (require (sum_list (map (\<lambda>q. fst (snd q)) requests) \<le> (if reset then bk_num_blocks b else remaining_blocks b))
                     (RuntimeError ''Bank capacity exceeded'')) (\<lambda>_. Inr b))))")
  case (Inl e)
  then show ?thesis using assms by (auto simp: reserve_in_bank_batch_atomic_def)
next
  case (Inr b)
  then have b: "dm_banks m i = Some b" and ok: "check_reservations m b {} requests = Inr ()"
    by (auto simp: result_simps require_bank_def split: option.splits)
  note chk = check_reservations_ok [OF ok]
  let ?R = "set (map fst requests)"
  obtain m1 where m1: "(if reset then map_sum id snd (reset_bank m i) else Inr m) = Inr m1"
      "banks_inv m1" "touches_only i ?R m m1" "length (dm_counts m1) = length (dm_counts m)"
      "all_backed m \<and> (reset \<longrightarrow> reset_safe m i) \<longrightarrow> all_backed m1"
      "\<exists>b1. dm_banks m1 i = Some b1 \<and> bk_alloc_ptr b1 = (if reset then 0 else bk_alloc_ptr b)"
  proof (cases reset)
    case True
    obtain b' m1 where r: "reset_bank m i = Inr (b', m1)"
      using b banks_invD(1) [OF assms(2)] by (simp add: reset_bank_def require_bank_def Let_def)
    show ?thesis by (rule that [of m1]) (use reset_bank_effect [OF r assms(2)] True r in auto)
  next
    case False
    show ?thesis by (rule that [of m]) (use False assms(2) b in auto)
  qed
  obtain r2 m2 where all: "reserve_all m1 i requests = (r2, m2)" by fastforce
  from reserve_all_touches [OF all m1(2) subset_refl] have t2: "touches_only i ?R m1 m2" and k2: "keeps m1 m2" by blast+
  note t = touches_only_trans [OF m1(3) t2]
  have whole: "reserve_in_bank_batch_atomic m i requests reset =
      (case reserve_all m1 i requests of (Inl e, m2) \<Rightarrow> (Inl e, restore m i b (map fst requests) m2) | (Inr ls, m2) \<Rightarrow> (Inr ls, m2))"
    by (simp only: reserve_in_bank_batch_atomic_def Inr m1(1) sum.case)
  show ?thesis
  proof (cases r2)
    case (Inl e)
    then have "m' = restore m i b (map fst requests) m2" "res = Inl e" using whole all assms(1) by auto
    moreover have "restore m i b (map fst requests) m2 = m"
      using restore_undoes [OF t b banks_invD(2) [OF assms(2)]] chk by blast
    ultimately show ?thesis using assms(2) by simp
  next
    case (Inr ls)
    then have m': "m' = m2" "res = Inr ls" using whole all assms(1) by auto
    obtain b1 where b1: "dm_banks m1 i = Some b1" "bk_alloc_ptr b1 = (if reset then 0 else bk_alloc_ptr b)" using m1(6) by blast
    have "laid_out m2 i (bk_alloc_ptr b1) requests ls"
      using reserve_all_layout [OF all [unfolded Inr] m1(2) b1(1)] chk by blast
    then show ?thesis using m' b1(2) b k2 m1(2,5) by (auto simp: keeps_def)
  qed
qed


section \<open>Every operation keeps the invariant\<close>

definition op_safe :: "bank_manager \<Rightarrow> bank_op \<Rightarrow> bool" where
  "op_safe m op = (case op of OpReset i \<Rightarrow> reset_safe m i | OpReserveBatch i requests reset \<Rightarrow> reset \<longrightarrow> reset_safe m i | _ \<Rightarrow> True)"

lemma allocate_effect:
  assumes "allocate_bank_blocks m ids lens = (res, m')" "banks_inv m"
  shows "keeps m m' \<and> (case res of Inl e \<Rightarrow> m' = m
    | Inr blocks \<Rightarrow> \<forall>(s, len) \<in> set (zip ids lens). (len + (dm_block_size m - 1)) div dm_block_size m \<le> count_of m' s)"
proof (cases "normalize_lengths m ids lens")
  case (Inr items)
  note it = normalize_lengths_items [OF Inr banks_invD(5) [OF assms(2)]]
  have "allocate_from_active_bank m items = (res, m')" using assms(1) Inr by (simp add: allocate_bank_blocks_def)
  from allocate_from_active_effect [OF this assms(2) it(1)] it(2)
  have "keeps m m' \<and> (case res of Inl e \<Rightarrow> m' = m | Inr blocks \<Rightarrow> \<forall>q \<in> set items. fst (snd q) \<le> count_of m' (fst q))" by blast
  then show ?thesis using it(2) by (auto simp flip: it(3) split: sum.splits)
qed (use assms(1) in \<open>auto simp: allocate_bank_blocks_def\<close>)

lemma bank_step_keeps:
  assumes "banks_inv m"
  shows "banks_inv (bank_step m op) \<and> (op_safe m op \<and> all_backed m \<longrightarrow> all_backed (bank_step m op))"
proof -
  have easy: ?thesis if "keeps m (bank_step m op)" using that assms by (simp add: keeps_def)
  show ?thesis
  proof (cases op)
    case (OpReserve i r n len version batch)
    show ?thesis by (rule easy) (use OpReserve keeps_reserve [OF surjective_pairing] in simp)
  next
    case (OpReserveBatch i requests reset)
    show ?thesis using reserve_batch_effect [OF surjective_pairing assms, of i requests reset] by (simp add: OpReserveBatch op_safe_def)
  next
    case (OpReset i)
    show ?thesis
    proof (cases "reset_bank m i")
      case (Inr p)
      then show ?thesis using reset_bank_effect [of m i "fst p" "snd p"] assms by (simp add: OpReset after_def op_safe_def)
    qed (simp add: OpReset after_def assms)
  next
    case (OpDiscard i epoch batch)
    show ?thesis by (rule easy) (auto simp: OpDiscard after_def split: sum.split dest: keeps_discard)
  next
    case OpSwap
    show ?thesis by (rule easy) (auto simp: OpSwap after_def map_sum_def split: sum.split dest: keeps_swap)
  next
    case (OpMark i batch ready)
    show ?thesis by (rule easy) (auto simp: OpMark after_def map_sum_def split: sum.split dest: keeps_mark)
  next
    case (OpAllocate ids lens)
    show ?thesis by (rule easy) (use OpAllocate allocate_effect [OF surjective_pairing assms] in simp)
  next
    case (OpCrop ids lens)
    show ?thesis by (rule easy) (use crop_effect(1) assms in \<open>auto simp: OpCrop after_def split: sum.split\<close>)
  next
    case (OpSetVersion r i epoch version)
    show ?thesis by (rule easy) (auto simp: OpSetVersion after_def map_sum_def split: sum.split dest: keeps_set_version)
  next
    case (OpFree ids)
    show ?thesis by (rule easy) (use OpFree keeps_free_bank_blocks [OF surjective_pairing] in simp)
  next
    case (OpGather ids)
    have "keeps m (snd (gather_bank_blocks_and_free m ids))"
      using keeps_free_bank_blocks [of m ids] by (auto simp: gather_bank_blocks_and_free_def split: sum.split prod.split)
    then show ?thesis using easy OpGather by simp
  next
    case (OpRelease releases do_apply)
    show ?thesis
      by (rule easy) (auto simp: OpRelease after_def release_bank_ranges_exact_batch_def result_simps split: sum.split
        dest!: check_bank_releases_rows keeps_apply_bank_releases)
  qed
qed

lemma bank_history_inv: "banks_inv m \<Longrightarrow> banks_inv (foldl bank_step m ops)"
  by (induction ops arbitrary: m) (simp_all add: bank_step_keeps)

text \<open>Histories in which every reset is safe when it happens.\<close>

inductive bank_reach :: "bank_manager \<Rightarrow> bank_manager \<Rightarrow> bool" where
  bank_start: "bank_reach m m"
| bank_next: "bank_reach m m' \<Longrightarrow> op_safe m' op \<Longrightarrow> bank_reach m (bank_step m' op)"

lemma bank_reach_inv: "bank_reach m m' \<Longrightarrow> banks_inv m \<Longrightarrow> all_backed m \<Longrightarrow> banks_inv m' \<and> all_backed m'"
  by (induction rule: bank_reach.induct) (auto dest: bank_step_keeps)

lemma bank_reach_run: "bank_reach m m' \<Longrightarrow> \<forall>op \<in> set ops. \<forall>x. op_safe x op \<Longrightarrow> bank_reach m (foldl bank_step m' ops)"
  by (induction ops arbitrary: m') (auto intro: bank_next)

lemma new_bank_manager_inv:
  assumes "new_bank_manager num_blocks max_seqs w table block_size True worker device kind = Inr m"
    and "length table = max_seqs" "\<forall>row \<in> set table. length row = w" "0 < block_size"
  shows "banks_inv m" "all_backed m"
proof -
  let ?size = "num_blocks div 2"
  have size: "0 < ?size" and m: "dm_banks m = [0 \<mapsto> fresh_bank 0 0 ?size ACTIVE, 1 \<mapsto> fresh_bank 1 ?size ?size STANDBY]"
      "dm_counts m = replicate max_seqs 0" "dm_table m = table" "dm_enabled m" "dm_num_blocks m = num_blocks"
      "dm_block_size m = block_size" "dm_max_blocks_per_seq m = w" "dm_active_bank_id m = 0" "dm_standby_bank_id m = 1"
    using assms(1) by (auto simp: new_bank_manager_def init_double_banks_def Let_def split: if_splits)
  have bank: "bank_ok ?size w max_seqs 0 (fresh_bank 0 0 ?size ACTIVE)" "bank_ok ?size w max_seqs 1 (fresh_bank 1 ?size ?size STANDBY)"
    using size by (simp_all add: bank_ok_def fresh_bank_def)
  show "banks_inv m"
    using size bank assms(2-4) by (auto simp: banks_inv_def m table_ok_def)
  show "all_backed m" by (simp add: all_backed_def backed_def in_rows_def count_of_def m nat_less_iff)
qed

lemma ranges_apart:
  assumes "banks_inv m" "range_at m i r = Some (f, n)" "range_at m j s = Some (f', n')" "(i, r) \<noteq> (j, s)"
  shows "0 \<le> f \<and> f + n \<le> dm_num_blocks m \<and> (f + n \<le> f' \<or> f' + n' \<le> f)"
proof -
  obtain b l b' l' where b: "dm_banks m i = Some b" "bk_request_ranges b r = Some l" "(f, n) = geometry l"
      and b': "dm_banks m j = Some b'" "bk_request_ranges b' s = Some l'" "(f', n') = geometry l'"
    using assms(2,3) by (auto simp: range_at_def bind_eq_Some_conv)
  note k = banks_invD(3) [OF assms(1) b(1)] banks_invD(3) [OF assms(1) b'(1)]
  let ?size = "dm_num_blocks m div 2"
  have in_bank: "i * ?size \<le> f" "f + n \<le> i * ?size + ?size" "j * ?size \<le> f'" "f' + n' \<le> j * ?size + ?size"
    using k b b' unfolding bank_ok_def range_ok_def geometry_def first_physical_block_def by fastforce+
  have ij: "i = 0 \<or> i = 1" "j = 0 \<or> j = 1" using banks_invD(4) [OF assms(1)] b(1) b'(1) by blast+
  have "f + n \<le> f' \<or> f' + n' \<le> f"
  proof (cases "i = j")
    case True
    then have "apart l l'" using assms(4) b b' k by (auto simp: bank_ok_def)
    then show ?thesis using b(3) b'(3) by (simp add: apart_def geometry_def end_physical_block_def)
  qed (use ij in_bank in auto)
  moreover have "0 \<le> f \<and> f + n \<le> dm_num_blocks m" using in_bank(1,2) ij(1) banks_size [OF assms(1)] by auto
  ultimately show ?thesis by blast
qed

section \<open>Properties\<close>

text \<open>In every history of the double-bank operations, resets and swaps in any order included, the ranges of
  two live reservations never overlap, in whichever banks they lie, and no range leaves the memory.\<close>

theorem bank_reservations_disjoint:
  assumes "new_bank_manager num_blocks max_seqs w table block_size True worker device kind = Inr m0"
    and "length table = max_seqs" "\<forall>row \<in> set table. length row = w" "0 < block_size" "m = foldl bank_step m0 ops"
    and "dm_banks m i = Some b" "bk_request_ranges b r = Some l" "dm_banks m j = Some b'" "bk_request_ranges b' s = Some l'"
    and "(i, r) \<noteq> (j, s)"
  shows "0 \<le> first_physical_block l \<and> end_physical_block l \<le> dm_num_blocks m
     \<and> (end_physical_block l \<le> first_physical_block l' \<or> end_physical_block l' \<le> first_physical_block l)"
  using ranges_apart [of m i r "first_physical_block l" "bl_num_blocks l" j s "first_physical_block l'" "bl_num_blocks l'"]
    bank_history_inv [OF new_bank_manager_inv(1) [OF assms(1-4)], of ops] assms(5-10)
  by (simp add: range_at_def geometry_def end_physical_block_def)

definition demo_banks :: bank_manager where
  "demo_banks = projr (new_bank_manager 12 3 3 [[0, 0, 0], [0, 0, 0], [0, 0, 0]] 4 True ''w'' ''cuda:0'' ''target'')"

definition demo_reserved :: bank_manager where
  "demo_reserved = foldl bank_step demo_banks [OpReserve 0 0 2 None 0 None, OpReserve 0 1 1 None 0 None, OpSwap, OpAllocate [1] [9]]"

lemma demo_banks_new: "new_bank_manager 12 3 3 [[0, 0, 0], [0, 0, 0], [0, 0, 0]] 4 True ''w'' ''cuda:0'' ''target'' = Inr demo_banks"
  by (simp add: demo_banks_def new_bank_manager_def init_double_banks_def Let_def)

theorem bank_reservations_disjoint_witness:
  "\<exists>b b' l l'. dm_banks demo_reserved 0 = Some b \<and> bk_request_ranges b 1 = Some l
     \<and> dm_banks demo_reserved 1 = Some b' \<and> bk_request_ranges b' 1 = Some l'
     \<and> (end_physical_block l \<le> first_physical_block l' \<or> end_physical_block l' \<le> first_physical_block l)"
proof -
  have "case dm_banks demo_reserved 0 of None \<Rightarrow> False | Some b \<Rightarrow> bk_request_ranges b 1 \<noteq> None"
    "case dm_banks demo_reserved 1 of None \<Rightarrow> False | Some b \<Rightarrow> bk_request_ranges b 1 \<noteq> None"
    by code_simp+
  then obtain b b' l l' where h: "dm_banks demo_reserved 0 = Some b" "bk_request_ranges b 1 = Some l"
      "dm_banks demo_reserved 1 = Some b'" "bk_request_ranges b' 1 = Some l'"
    by (auto split: option.splits)
  have "(0 :: int, 1 :: int) \<noteq> (1, 1)" by simp
  from bank_reservations_disjoint [OF demo_banks_new _ _ _ demo_reserved_def h this] h show ?thesis by auto
qed

text \<open>C39: the attention kernel never reads one block for two sequences: in every history in which a bank is only
  reset once no row shows its blocks any more, the blocks \<open>get_allocated_block_ids\<close> returns for two rows
  are disjoint, and each row shows the beginning of a range it holds.\<close>

theorem visible_rows_never_share:
  assumes "new_bank_manager num_blocks max_seqs w table block_size True worker device kind = Inr m0"
    and "length table = max_seqs" "\<forall>row \<in> set table. length row = w" "0 < block_size" "bank_reach m0 m"
    and "get_allocated_block_ids m r = Inr bs" "get_allocated_block_ids m s = Inr cs" "r \<noteq> s"
  shows "set bs \<inter> set cs = {}
     \<and> (bs \<noteq> [] \<longrightarrow> (\<exists>i b l. dm_banks m i = Some b \<and> bk_request_ranges b r = Some l \<and> int (length bs) \<le> bl_num_blocks l
          \<and> bs = [first_physical_block l..first_physical_block l + int (length bs) - 1]))"
proof -
  note new = new_bank_manager_inv [OF assms(1-4)]
  have inv: "banks_inv m" and shown: "all_backed m" using bank_reach_inv [OF assms(5) new] by blast+
  have rows: "in_rows m r" "in_rows m s" and bs: "bs = visible m r" "cs = visible m s"
    using assms(6,7) by (auto simp: get_allocated_block_ids_def visible_def result_simps)
  have form: "visible m x = [] \<or> (\<exists>i f n. range_at m i x = Some (f, n) \<and> count_of m x \<le> n \<and> visible m x = [f..f + count_of m x - 1])"
    if "in_rows m x" for x
    using shown that by (auto simp: all_backed_def backed_def backed_by_def visible_def)
  have "set (visible m r) \<inter> set (visible m s) = {}"
  proof (cases "visible m r = [] \<or> visible m s = []")
    case False
    then obtain i f n j f' n' where "range_at m i r = Some (f, n)" "count_of m r \<le> n" "visible m r = [f..f + count_of m r - 1]"
        "range_at m j s = Some (f', n')" "count_of m s \<le> n'" "visible m s = [f'..f' + count_of m s - 1]"
      using form rows by blast
    moreover from this have "f + n \<le> f' \<or> f' + n' \<le> f" using ranges_apart [OF inv] assms(8) by blast
    ultimately show ?thesis by auto
  qed auto
  moreover have "\<exists>i b l. dm_banks m i = Some b \<and> bk_request_ranges b r = Some l \<and> int (length bs) \<le> bl_num_blocks l
          \<and> bs = [first_physical_block l..first_physical_block l + int (length bs) - 1]" if ne: "bs \<noteq> []"
  proof -
    have "int (length bs) = count_of m r" using length_visible [OF banks_invD(2) [OF inv] rows(1)] bs by simp
    moreover obtain i f n where f: "range_at m i r = Some (f, n)" "count_of m r \<le> n" "visible m r = [f..f + count_of m r - 1]"
      using form [OF rows(1)] ne bs(1) by blast
    moreover from f(1) obtain b l where "dm_banks m i = Some b" "bk_request_ranges b r = Some l" "f = first_physical_block l" "n = bl_num_blocks l"
      by (auto simp: range_at_def geometry_def bind_eq_Some_conv)
    ultimately show ?thesis unfolding bs(1) by metis
  qed
  ultimately show ?thesis unfolding bs by blast
qed

theorem visible_rows_never_share_witness:
  "\<exists>bs cs. get_allocated_block_ids demo_reserved 0 = Inr bs \<and> get_allocated_block_ids demo_reserved 1 = Inr cs \<and> set bs \<inter> set cs = {}"
proof -
  have reach: "bank_reach demo_banks demo_reserved"
    unfolding demo_reserved_def by (rule bank_reach_run [OF bank_start]) (simp add: op_safe_def)
  have "case get_allocated_block_ids demo_reserved 0 of Inl _ \<Rightarrow> False | Inr _ \<Rightarrow> True"
    "case get_allocated_block_ids demo_reserved 1 of Inl _ \<Rightarrow> False | Inr _ \<Rightarrow> True" by code_simp+
  then obtain bs cs where h: "get_allocated_block_ids demo_reserved 0 = Inr bs" "get_allocated_block_ids demo_reserved 1 = Inr cs"
    by (auto split: sum.splits)
  have "set bs \<inter> set cs = {}"
    by (rule conjunct1 [OF visible_rows_never_share [OF demo_banks_new _ _ _ reach h]]) simp_all
  then show ?thesis using h by blast
qed

text \<open>C40: batch operations are all or nothing. A reservation batch or an allocation that raises, at whatever point,
  leaves the manager exactly as it was; a batch that returns has laid its ranges out one after another from
  the bump pointer (from 0 after a reset) and filled the rows of the table; an allocation that returns gives
  every sequence the blocks its length needs.\<close>

theorem bank_batches_all_or_nothing:
  assumes "new_bank_manager num_blocks max_seqs w table block_size True worker device kind = Inr m0"
    and "length table = max_seqs" "\<forall>row \<in> set table. length row = w" "0 < block_size" "m = foldl bank_step m0 ops"
  shows "(case reserve_in_bank_batch_atomic m i requests reset of
       (Inl e, m') \<Rightarrow> m' = m
     | (Inr ls, m') \<Rightarrow> laid_out m' i (if reset then 0 else bk_alloc_ptr (the (dm_banks m i))) requests ls)
   \<and> (case allocate_bank_blocks m ids lens of
       (Inl e, m') \<Rightarrow> m' = m
     | (Inr blocks, m') \<Rightarrow> \<forall>(s, len) \<in> set (zip ids lens). (len + (dm_block_size m - 1)) div dm_block_size m \<le> count_of m' s)"
proof -
  have inv: "banks_inv m" using bank_history_inv [OF new_bank_manager_inv(1) [OF assms(1-4)]] assms(5) by simp
  have "case fst (reserve_in_bank_batch_atomic m i requests reset) of
       Inl e \<Rightarrow> snd (reserve_in_bank_batch_atomic m i requests reset) = m
     | Inr ls \<Rightarrow> laid_out (snd (reserve_in_bank_batch_atomic m i requests reset)) i (if reset then 0 else bk_alloc_ptr (the (dm_banks m i))) requests ls"
    using reserve_batch_effect [OF surjective_pairing inv] by blast
  moreover have "case fst (allocate_bank_blocks m ids lens) of Inl e \<Rightarrow> snd (allocate_bank_blocks m ids lens) = m
    | Inr blocks \<Rightarrow> \<forall>(s, len) \<in> set (zip ids lens). (len + (dm_block_size m - 1)) div dm_block_size m \<le> count_of (snd (allocate_bank_blocks m ids lens)) s"
    using allocate_effect [OF surjective_pairing inv] by blast
  ultimately show ?thesis by (simp add: case_prod_beta)
qed

text \<open>A batch whose second sequence does not fit in a row of the table: the first reservation is rolled back.\<close>

theorem bank_batches_all_or_nothing_witness:
  "snd (allocate_bank_blocks demo_reserved [2, 0] [4, 17]) = demo_reserved"
proof -
  have "case fst (allocate_bank_blocks demo_reserved [2, 0] [4, 17]) of Inl _ \<Rightarrow> True | Inr _ \<Rightarrow> False" by code_simp
  then obtain e m' where a: "allocate_bank_blocks demo_reserved [2, 0] [4, 17] = (Inl e, m')"
    by (cases "allocate_bank_blocks demo_reserved [2, 0] [4, 17]") (auto split: sum.splits)
  from bank_batches_all_or_nothing [OF demo_banks_new _ _ _ demo_reserved_def, where i = 0 and requests = "[]" and reset = False and ids = "[2, 0]" and lens = "[4, 17]"] a
  show ?thesis by simp
qed


text \<open>
  Crops look for a request in bank 0 before bank 1, whichever bank is active. Here request 1 kept a range of one block in
  bank 0 and has three blocks in bank 1, active since the swap: cropping it to two blocks is refused because
  the retired range is too small, and cropping it to one block rewrites the length and version of the retired
  range while the active one keeps the old ones.
\<close>

theorem crop_updates_retired_bank:
  "dm_active_bank_id demo_reserved = 1"
  "crop_bank_blocks demo_reserved [1] [5] = Inl (RuntimeError ''crop target exceeds reservation capacity'')"
  "case crop_bank_blocks demo_reserved [1] [3] of Inl _ \<Rightarrow> False | Inr m \<Rightarrow>
     map_option (\<lambda>l. (bl_logical_kv_len l, bl_kv_version l)) (Option.bind (dm_banks m 0) (\<lambda>b. bk_request_ranges b 1)) = Some (3, 1)
     \<and> map_option (\<lambda>l. (bl_logical_kv_len l, bl_kv_version l)) (Option.bind (dm_banks m 1) (\<lambda>b. bk_request_ranges b 1)) = Some (9, 0)"
proof -
  have "case crop_bank_blocks demo_reserved [1] [5] of Inl e \<Rightarrow> e = RuntimeError ''crop target exceeds reservation capacity'' | Inr _ \<Rightarrow> False"
    by code_simp
  then show "crop_bank_blocks demo_reserved [1] [5] = Inl (RuntimeError ''crop target exceeds reservation capacity'')"
    by (simp split: sum.splits)
qed code_simp+

end
