(* ===== verification/SharedArenas.thy ===== *)
theory SharedArenas
  imports AppendArenas
begin

text \<open>
  \<open>data/shared_arenas.py\<close>: the token and configuration arenas in shared memory. The writer publishes its head after
  every write and a reader refuses a handle that reaches beyond what is published; output regions are
  reserved by the engine and filled by the Target that owns the request. All attachments of an arena see the
  same bytes, so the arena is one value.
\<close>

record shared_arena =
  sa_arena :: append_arena
  sa_published :: nat
  sa_writer :: bool

definition open_shared_arena :: "int \<Rightarrow> int \<Rightarrow> bool \<Rightarrow> shared_arena result" where
  "open_shared_arena capacity_bytes generation writer =
     bind_r (open_arena capacity_bytes generation) (\<lambda>a. Inr \<lparr>sa_arena = a, sa_published = 0, sa_writer = writer\<rparr>)"

definition before_write :: "shared_arena \<Rightarrow> unit result" where
  "before_write s = require (sa_writer s) (RuntimeError ''read-only payload attachment'')"

definition commit :: "shared_arena \<Rightarrow> append_arena \<Rightarrow> shared_arena" where
  "commit s a = s\<lparr>sa_arena := a, sa_published := aa_head a\<rparr>"

definition validate_shared :: "(string \<Rightarrow> py_error) \<Rightarrow> shared_arena \<Rightarrow> arena_handle \<Rightarrow> unit result" where
  "validate_shared err s h =
     bind_r (validate_handle err (sa_arena s) h) (\<lambda>_.
     require (h_offset h + h_length h \<le> int (sa_published s)) (ValueError ''payload handle exceeds published extent''))"

definition shared_write_batches :: "shared_arena \<Rightarrow> int list list \<Rightarrow> (arena_handle list \<times> shared_arena) result" where
  "shared_write_batches s batches =
     bind_r (before_write s) (\<lambda>_.
     bind_r (write_token_batches (sa_arena s) batches) (\<lambda>(hs, a). Inr (hs, commit s a)))"

definition shared_write_tokens :: "shared_arena \<Rightarrow> int list \<Rightarrow> (arena_handle \<times> shared_arena) result" where
  "shared_write_tokens s tokens = bind_r (shared_write_batches s [tokens]) (\<lambda>(hs, s'). Inr (hd hs, s'))"

definition reserve_output :: "shared_arena \<Rightarrow> int \<Rightarrow> (arena_handle \<times> shared_arena) result" where
  "reserve_output s max_tokens = bind_r (before_write s) (\<lambda>_. shared_write_tokens s (replicate (nat max_tokens) 0))"

definition shared_read_tokens :: "shared_arena \<Rightarrow> arena_handle \<Rightarrow> int list result" where
  "shared_read_tokens s h =
     bind_r (validate_shared TokenArenaError s h) (\<lambda>_.
     if h_length h mod 4 \<noteq> 0 then Inl (TokenArenaError ''token arena handle length must be a multiple of 4'')
     else Inr (read_u32s (nat (h_offset h)) (nat (h_length h div 4)) (aa_bytes (sa_arena s))))"

text \<open>\<open>t.to_bytes(4, 'little')\<close> raises for a token that does not fit.\<close>

definition output_bytes :: "int list \<Rightarrow> bytes result" where
  "output_bytes tokens = bind_r
     (checks (map (\<lambda>t. require (0 \<le> t \<and> t < 4294967296) (OverflowError ''int too big to convert'')) tokens))
     (\<lambda>_. Inr (u32_bytes tokens))"

definition append_reserved ::
  "shared_arena \<Rightarrow> arena_handle \<Rightarrow> int \<Rightarrow> int list \<Rightarrow> (arena_handle \<times> shared_arena) result" where
  "append_reserved s reservation count tokens =
     bind_r (validate_shared TokenArenaError s reservation) (\<lambda>_.
     if count < 0 \<or> (count + int (length tokens)) * 4 > h_length reservation
     then Inl (ValueError ''output reservation exhausted'')
     else bind_r (output_bytes tokens) (\<lambda>raw.
       let a = sa_arena s; a' = a\<lparr>aa_bytes := overwrite (nat (h_offset reservation + 4 * count)) raw (aa_bytes a)\<rparr>
       in bind_r (mk_handle (h_offset reservation) ((count + int (length tokens)) * 4) (h_generation reservation)) (\<lambda>h.
          Inr (h, s\<lparr>sa_arena := a'\<rparr>))))"

definition append_output ::
  "shared_arena \<Rightarrow> arena_handle \<Rightarrow> int \<Rightarrow> int list \<Rightarrow> (arena_handle \<times> shared_arena) result" where
  "append_output s reservation count tokens =
     bind_r (before_write s) (\<lambda>_.
     bind_r (validate_shared TokenArenaError s reservation) (\<lambda>_.
     if count < 0 \<or> (count + int (length tokens)) * 4 > h_length reservation
     then Inl (ValueError ''output reservation exhausted'')
     else bind_r (output_bytes tokens) (\<lambda>raw.
       let a = sa_arena s; a' = a\<lparr>aa_bytes := overwrite (nat (h_offset reservation + count * 4)) raw (aa_bytes a)\<rparr>
       in bind_r (mk_handle (h_offset reservation) ((count + int (length tokens)) * 4) (aa_generation a)) (\<lambda>h.
          Inr (h, s\<lparr>sa_arena := a'\<rparr>)))))"

definition shared_write_config :: "shared_arena \<Rightarrow> draft_generation_config \<Rightarrow> (arena_handle \<times> shared_arena) result" where
  "shared_write_config s c =
     bind_r (before_write s) (\<lambda>_. bind_r (write_config (sa_arena s) c) (\<lambda>(h, a). Inr (h, commit s a)))"

text \<open>The retirement barrier: every attachment advances its generation, the owner publishes an empty arena.\<close>

definition recycle_shared :: "shared_arena \<Rightarrow> int \<Rightarrow> shared_arena result" where
  "recycle_shared s stride =
     (let a = sa_arena s; generation = aa_generation a + stride
      in bind_r (check_id ARENA_GENERATION generation) (\<lambda>_.
         let a' = a\<lparr>aa_generation := generation, aa_head := 0\<rparr>
         in Inr (if sa_writer s then commit s a' else s\<lparr>sa_arena := a'\<rparr>)))"

section \<open>Facts\<close>

definition shared_ok :: "shared_arena \<Rightarrow> bool" where
  "shared_ok s \<longleftrightarrow> arena_inv (sa_arena s) \<and> sa_writer s \<and> sa_published s = aa_head (sa_arena s)"

abbreviation shared_head :: "shared_arena \<Rightarrow> int" where
  "shared_head s \<equiv> int (aa_head (sa_arena s))"

abbreviation shared_capacity :: "shared_arena \<Rightarrow> int" where
  "shared_capacity s \<equiv> int (length (aa_bytes (sa_arena s)))"

lemma commit_simps [simp]:
  "sa_arena (commit s a) = a" "sa_published (commit s a) = aa_head a" "sa_writer (commit s a) = sa_writer s"
  by (simp_all add: commit_def)

lemma write_batches_one: "arena_inv a \<Longrightarrow> tokens_valid ts \<Longrightarrow> aa_head a + length ts * 4 \<le> length (aa_bytes a) \<Longrightarrow>
    write_token_batches a [ts] = bind_r (write_tokens a ts) (\<lambda>(h, a'). Inr ([h], a'))"
proof -
  assume a: "arena_inv a" "tokens_valid ts" "aa_head a + length ts * 4 \<le> length (aa_bytes a)"
  have "write_token_batches a [ts] = token_batch_loop a [ts]"
    using a by (auto simp: write_token_batches_def tokens_valid_def arena_inv_def)
  then show ?thesis using token_batch_loop_each [of a "[ts]"] a by simp
qed

lemma shared_write_tokens_fits:
  assumes "shared_ok s" "tokens_valid ts" "shared_head s + 4 * int (length ts) \<le> shared_capacity s"
  shows "\<exists>h a'. write_tokens (sa_arena s) ts = Inr (h, a') \<and> shared_write_tokens s ts = Inr (h, commit s a')"
proof -
  have fits: "aa_head (sa_arena s) + length ts * 4 \<le> length (aa_bytes (sa_arena s))" using assms(3) by linarith
  have inv: "arena_inv (sa_arena s)" "sa_writer s" using assms(1) by (simp_all add: shared_ok_def)
  obtain h a' where w: "write_tokens (sa_arena s) ts = Inr (h, a')" using write_tokens_eq(2) [OF inv(1) assms(2) fits] by auto
  then show ?thesis
    using write_batches_one [OF inv(1) assms(2) fits] inv(2)
    by (simp add: shared_write_tokens_def shared_write_batches_def before_write_def)
qed

lemma shared_write_tokens_effect:
  assumes "shared_ok s" "write_tokens (sa_arena s) ts = Inr (h, a')"
  shows "shared_ok (commit s a')" "shared_head (commit s a') = shared_head s + 4 * int (length ts)"
    "shared_capacity (commit s a') = shared_capacity s" "h_offset h = shared_head s" "h_length h = 4 * int (length ts)"
    "h_generation h = aa_generation (sa_arena s)" "aa_generation a' = aa_generation (sa_arena s)"
    "aa_bytes a' = overwrite (aa_head (sa_arena s)) (u32_bytes ts) (aa_bytes (sa_arena s))"
    "aa_head (sa_arena s) + 4 * length ts \<le> length (aa_bytes (sa_arena s))"
proof -
  note f = write_tokens_Inr [OF assms(2)]
  have inv: "arena_inv (sa_arena s)" using assms(1) by (simp add: shared_ok_def)
  have "arena_inv a'" using token_store.wr_ok [OF inv f(1) assms(2)] .
  then show "shared_ok (commit s a')" using assms(1) by (simp add: shared_ok_def)
  show "shared_head (commit s a') = shared_head s + 4 * int (length ts)"
    "shared_capacity (commit s a') = shared_capacity s" "h_offset h = shared_head s" "h_length h = 4 * int (length ts)"
    "h_generation h = aa_generation (sa_arena s)" "aa_generation a' = aa_generation (sa_arena s)"
    "aa_bytes a' = overwrite (aa_head (sa_arena s)) (u32_bytes ts) (aa_bytes (sa_arena s))"
    "aa_head (sa_arena s) + 4 * length ts \<le> length (aa_bytes (sa_arena s))"
    using f(2-4) by simp_all
qed

lemma shared_write_tokens_Inr:
  assumes "shared_ok s" "tokens_valid ts" "shared_write_tokens s ts = Inr (h, s')"
  obtains a' where "write_tokens (sa_arena s) ts = Inr (h, a')" "s' = commit s a'"
proof -
  have "returns (write_token_batches (sa_arena s) [ts])"
    using assms(3) by (auto simp: shared_write_tokens_def shared_write_batches_def bind_r_eq_Inr)
  then have "aa_head (sa_arena s) + length ts * 4 \<le> length (aa_bytes (sa_arena s))"
    by (auto simp: write_token_batches_def bind_r_eq_Inr split: if_splits)
  then have "shared_head s + 4 * int (length ts) \<le> shared_capacity s" by linarith
  from shared_write_tokens_fits [OF assms(1,2) this] assms(3) that show ?thesis by auto
qed

lemma shared_read_live:
  assumes "shared_ok s" "handle_live (sa_arena s) h"
  shows "shared_read_tokens s h = read_tokens (sa_arena s) h"
proof -
  have "arena_inv (sa_arena s)" "h_offset h + h_length h \<le> int (sa_published s)"
    using assms by (simp_all add: shared_ok_def handle_live_def end_offset_def)
  moreover from this have "validate_handle TokenArenaError (sa_arena s) h = Inr ()"
    using validate_handle_live assms(2) by blast
  ultimately show ?thesis
    by (simp add: shared_read_tokens_def read_tokens_def validate_shared_def)
qed

interpretation shared_store: payload_store shared_ok tokens_valid "\<lambda>s. handle_live (sa_arena s)" shared_write_tokens shared_read_tokens
proof
  fix s ts h s'
  assume ok: "shared_ok s" and ts: "tokens_valid ts" and w: "shared_write_tokens s ts = Inr (h, s')"
  obtain a' where a': "write_tokens (sa_arena s) ts = Inr (h, a')" "s' = commit s a'"
    using shared_write_tokens_Inr [OF ok ts w] .
  have inv: "arena_inv (sa_arena s)" using ok by (simp add: shared_ok_def)
  note st = token_store.wr_ok [OF inv _ a'(1)] token_store.wr_live [OF inv _ a'(1)] token_store.wr_reads [OF inv _ a'(1)]
    token_store.wr_keeps [OF inv _ a'(1)]
  show ok': "shared_ok s'" using shared_write_tokens_effect(1) [OF ok a'(1)] by (simp add: a'(2))
  show live: "handle_live (sa_arena s') h" using st(2) ts by (simp add: a'(2) tokens_valid_def)
  show "shared_read_tokens s' h = Inr ts"
    using shared_read_live [OF ok' live] st(3) ts by (simp add: a'(2) tokens_valid_def)
  show "handle_live (sa_arena s') g \<and> shared_read_tokens s' g = shared_read_tokens s g" if g: "handle_live (sa_arena s) g" for g
  proof -
    have l: "handle_live (sa_arena s') g" and "read_tokens a' g = read_tokens (sa_arena s) g"
      using st(4) [OF _ g] ts by (simp_all add: a'(2) tokens_valid_def)
    then show ?thesis using shared_read_live [OF ok' l] shared_read_live [OF ok g] by (simp add: a'(2))
  qed
qed

lemma shared_write_config_fits:
  assumes "shared_ok s" "check_config c = Inr ()" "shared_head s + 16 + 4 * int (length (gc_stop_token_ids c)) \<le> shared_capacity s"
  shows "\<exists>h s'. shared_write_config s c = Inr (h, s') \<and> shared_ok s' \<and> shared_capacity s' = shared_capacity s
    \<and> shared_head s' = shared_head s + 16 + 4 * int (length (gc_stop_token_ids c))
    \<and> aa_generation (sa_arena s') = aa_generation (sa_arena s)"
proof -
  let ?a = "sa_arena s"
  have inv: "arena_inv ?a" "sa_writer s" "sa_published s = aa_head ?a" using assms(1) by (simp_all add: shared_ok_def)
  have stops: "int (length (gc_stop_token_ids c)) < 4294967296"
    using assms(3) inv(1) by (simp add: arena_inv_def)
  have eos: "0 \<le> (case gc_eos_token_id c of None \<Rightarrow> invalid U32 | Some t \<Rightarrow> t)
      \<and> (case gc_eos_token_id c of None \<Rightarrow> invalid U32 | Some t \<Rightarrow> t) < 4294967296"
  proof (cases "gc_eos_token_id c")
    case (Some t)
    then have "is_valid U32 t" using assms(2) by (simp add: check_config_def)
    then show ?thesis using Some by simp
  qed (simp add: domain_defs U32_def)
  obtain raw where raw: "config_bytes c = Inr raw"
    using assms(2) stops eos by (auto simp: config_bytes_def check_config_def wire_simps bind_r_eq_Inr)
  have len: "length raw = 16 + 4 * length (gc_stop_token_ids c)"
    using config_bytes_Inr [OF raw] by (simp add: config_fields_def)
  have fits: "aa_head ?a + length raw \<le> length (aa_bytes ?a)" using assms(3) len by linarith
  let ?h = "\<lparr>h_offset = int (aa_head ?a), h_length = int (length raw), h_generation = aa_generation ?a\<rparr>"
  have "mk_handle (int (aa_head ?a)) (int (length raw)) (aa_generation ?a) = Inr ?h"
    using inv(1) fits by (simp add: mk_handle_Inr handle_ok_iff arena_inv_def)
  then have "shared_write_config s c = Inr (?h, commit s (appended raw ?a))"
    using raw fits inv(2) by (simp add: shared_write_config_def before_write_def write_config_def appended_def)
  moreover have "arena_inv (appended raw ?a)" using appended_facts(1) [OF inv(1) fits refl] .
  ultimately show ?thesis using inv fits len by (auto simp: shared_ok_def)
qed

lemma shared_capacity_bound: "shared_ok s \<Longrightarrow> shared_capacity s < 4294967295"
  by (simp add: shared_ok_def arena_inv_def)

end
