(* ===== verification/Completion.thy ===== *)
theory Completion
  imports AppendArenas
begin

text \<open>
  \<open>workers/completion.py\<close>: the arena of work completions. The engine reserves an offset for every WORK it sends, the
  worker that runs it writes the record there once and raises a flag with a release store, and the engine
  polls the flag. The flag is the 8-byte word at the offset; the record follows it.
\<close>

unbundle bit_operations_syntax

section \<open>Records\<close>

datatype outcome = EXECUTED | SKIPPED_FINISHED | SKIPPED_SHUTDOWN

fun outcome_int :: "outcome \<Rightarrow> int" where
  "outcome_int EXECUTED = 1"
| "outcome_int SKIPPED_FINISHED = 2"
| "outcome_int SKIPPED_SHUTDOWN = 3"

definition outcome_of_int :: "int \<Rightarrow> outcome result" where
  "outcome_of_int v = (if v = 1 then Inr EXECUTED else if v = 2 then Inr SKIPPED_FINISHED
     else if v = 3 then Inr SKIPPED_SHUTDOWN else Inl (ValueError ''not a valid Outcome''))"

record member_completion =
  mc_slot :: int
  mc_epoch :: int
  mc_round_id :: int
  mc_outcome :: outcome

record work_completion =
  wc_worker_generation :: int
  wc_work_seq :: int
  wc_bank_epoch :: int
  wc_physical_done_ns :: int
  wc_bank_id :: int
  wc_members :: "member_completion list"

definition completion_bytes :: "int \<Rightarrow> int" where
  "completion_bytes count = (8 + 40 + count * 24 + 7) AND NOT 7"

definition cohort_completion_budget :: "int list \<Rightarrow> int" where
  "cohort_completion_budget max_new_tokens = sum_list (map (\<lambda>n. (2 * n + 4) * completion_bytes 1) max_new_tokens)"

section \<open>The arena\<close>

record completion_arena =
  cp_bytes :: bytes
  cp_next_offset :: int

definition new_completion_arena :: "nat \<Rightarrow> completion_arena" where
  "new_completion_arena capacity = \<lparr>cp_bytes = replicate capacity 0, cp_next_offset = 0\<rparr>"

abbreviation segment_size :: "completion_arena \<Rightarrow> int" where
  "segment_size s \<equiv> int (length (cp_bytes s))"

definition reserve_completion :: "completion_arena \<Rightarrow> int \<Rightarrow> int option \<times> completion_arena" where
  "reserve_completion s count =
     (let need = completion_bytes count in
      if count \<le> 0 \<or> cp_next_offset s + need > segment_size s then (None, s)
      else (Some (cp_next_offset s), s\<lparr>cp_next_offset := cp_next_offset s + need\<rparr>))"

definition check_range :: "completion_arena \<Rightarrow> int \<Rightarrow> int \<Rightarrow> unit result" where
  "check_range s offset len =
     require (\<not> (offset < 0 \<or> offset mod 8 \<noteq> 0 \<or> offset + len > segment_size s)) (ValueError ''completion range outside arena'')"

text \<open>\<open>sd_load\<close> and \<open>sd_store\<close> of the word at an offset.\<close>

definition load_word :: "completion_arena \<Rightarrow> int \<Rightarrow> int" where
  "load_word s offset = le_int (subbuf (nat offset) 8 (cp_bytes s))"

definition store_word :: "completion_arena \<Rightarrow> int \<Rightarrow> int \<Rightarrow> completion_arena" where
  "store_word s offset v = s\<lparr>cp_bytes := overwrite (nat offset) (le_bytes 8 v) (cp_bytes s)\<rparr>"

definition member_bytes :: "member_completion \<Rightarrow> bytes result" where
  "member_bytes m = concat_r [pack_uint 4 (mc_slot m), pack_uint 8 (mc_epoch m), pack_uint 8 (mc_round_id m),
     pack_uint 4 (outcome_int (mc_outcome m))]"

definition record_bytes :: "work_completion \<Rightarrow> bytes result" where
  "record_bytes r = concat_r
     ([pack_uint 8 (wc_worker_generation r), pack_uint 8 (wc_work_seq r), pack_uint 8 (wc_bank_epoch r),
       pack_uint 8 (wc_physical_done_ns r), pack_uint 4 (wc_bank_id r), pack_uint 4 (int (length (wc_members r)))]
      @ map member_bytes (wc_members r))"

text \<open>\<open>publish\<close> up to the flag: the checks, the packing and the copy of the record.\<close>

definition stage_completion :: "completion_arena \<Rightarrow> int \<Rightarrow> work_completion \<Rightarrow> completion_arena result" where
  "stage_completion s offset r =
     bind_r (check_range s offset (completion_bytes (int (length (wc_members r))))) (\<lambda>_.
     bind_r (require (load_word s offset = 0) (RuntimeError ''completion overwrite'')) (\<lambda>_.
     bind_r (record_bytes r) (\<lambda>raw.
       Inr (s\<lparr>cp_bytes := overwrite (nat (offset + 8)) raw (cp_bytes s)\<rparr>))))"

definition publish_completion :: "completion_arena \<Rightarrow> int \<Rightarrow> work_completion \<Rightarrow> completion_arena result" where
  "publish_completion s offset r = bind_r (stage_completion s offset r) (\<lambda>s'. Inr (store_word s' offset 1))"

definition field_at :: "completion_arena \<Rightarrow> int \<Rightarrow> nat \<Rightarrow> int" where
  "field_at s pos n = le_int (subbuf (nat pos) n (cp_bytes s))"

definition read_member :: "completion_arena \<Rightarrow> int \<Rightarrow> member_completion result" where
  "read_member s pos = bind_r (outcome_of_int (field_at s (pos + 20) 4)) (\<lambda>o'.
     Inr \<lparr>mc_slot = field_at s pos 4, mc_epoch = field_at s (pos + 4) 8, mc_round_id = field_at s (pos + 12) 8, mc_outcome = o'\<rparr>)"

definition read_completion :: "completion_arena \<Rightarrow> int \<Rightarrow> work_completion option result" where
  "read_completion s offset =
     bind_r (check_range s offset (8 + 40)) (\<lambda>_.
     if load_word s offset = 0 then Inr None
     else let pos = offset + 8; count = field_at s (pos + 36) 4
       in bind_r (check_range s offset (completion_bytes count)) (\<lambda>_.
          bind_r (map_r (\<lambda>i. read_member s (pos + 40 + int i * 24)) [0..<nat count]) (\<lambda>members.
          Inr (Some \<lparr>wc_worker_generation = field_at s pos 8, wc_work_seq = field_at s (pos + 8) 8,
                    wc_bank_epoch = field_at s (pos + 16) 8, wc_physical_done_ns = field_at s (pos + 24) 8,
                    wc_bank_id = field_at s (pos + 32) 4, wc_members = members\<rparr>))))"

section \<open>Sizes\<close>

lemma and_not_7: "(x :: int) AND NOT 7 = x div 8 * 8"
proof -
  have "x AND NOT (mask 3) = push_bit 3 (drop_bit 3 x)" by (rule bit_eqI) (auto simp: bit_simps)
  then show ?thesis by (simp add: mask_eq_exp_minus_1 push_bit_eq_mult drop_bit_eq_div)
qed

lemma completion_bytes_eq: "completion_bytes count = 48 + 24 * count"
  unfolding completion_bytes_def and_not_7 by presburger

lemma outcome_roundtrip [simp]: "outcome_of_int (outcome_int o') = Inr o'"
  by (cases o') (simp_all add: outcome_of_int_def)


section \<open>Reading a record back\<close>

lemma field_of:
  assumes "subbuf (nat p) m (cp_bytes s) = pre @ le_bytes n v @ post" "0 \<le> v" "v < 256 ^ n" "length pre + n \<le> m" "0 \<le> p"
  shows "field_at s (p + int (length pre)) n = v"
proof -
  have "subbuf (length pre) n (subbuf (nat p) m (cp_bytes s)) = le_bytes n v" unfolding assms(1) by (simp add: subbuf_def)
  then have "subbuf (nat p + length pre) n (cp_bytes s) = le_bytes n v" using assms(4) by (simp add: subbuf_inside)
  then show ?thesis using assms(2,3,5) by (simp add: field_at_def nat_add_distrib)
qed

lemma member_bytes_Inr:
  assumes "member_bytes m = Inr bs"
  shows "bs = le_bytes 4 (mc_slot m) @ le_bytes 8 (mc_epoch m) @ le_bytes 8 (mc_round_id m) @ le_bytes 4 (outcome_int (mc_outcome m))"
    "0 \<le> mc_slot m \<and> mc_slot m < 256 ^ 4" "0 \<le> mc_epoch m \<and> mc_epoch m < 256 ^ 8" "0 \<le> mc_round_id m \<and> mc_round_id m < 256 ^ 8"
    "length bs = 24"
  using assms by (auto simp: member_bytes_def bind_r_eq_Inr wire_simps)

lemma read_member_back:
  assumes "member_bytes m = Inr bs" "subbuf (nat p) 24 (cp_bytes s) = bs" "0 \<le> p"
  shows "read_member s p = Inr m"
proof -
  let ?o = "outcome_int (mc_outcome m)"
  note b = member_bytes_Inr [OF assms(1)]
  have sb: "subbuf (nat p) 24 (cp_bytes s) = le_bytes 4 (mc_slot m) @ le_bytes 8 (mc_epoch m) @ le_bytes 8 (mc_round_id m) @ le_bytes 4 ?o"
    using assms(2) b(1) by simp
  have "0 \<le> ?o \<and> ?o < 256 ^ 4" by (cases "mc_outcome m") simp_all
  then have "field_at s (p + 20) 4 = ?o"
    using field_of [of p 24 s "le_bytes 4 (mc_slot m) @ le_bytes 8 (mc_epoch m) @ le_bytes 8 (mc_round_id m)" 4 ?o "[]"] sb assms(3) by simp
  moreover have "field_at s p 4 = mc_slot m" using field_of [of p 24 s "[]" 4 "mc_slot m"] sb b(2) assms(3) by simp
  moreover have "field_at s (p + 4) 8 = mc_epoch m"
    using field_of [of p 24 s "le_bytes 4 (mc_slot m)" 8 "mc_epoch m"] sb b(3) assms(3) by simp
  moreover have "field_at s (p + 12) 8 = mc_round_id m"
    using field_of [of p 24 s "le_bytes 4 (mc_slot m) @ le_bytes 8 (mc_epoch m)" 8 "mc_round_id m"] sb b(4) assms(3) by simp
  ultimately show ?thesis by (simp add: read_member_def)
qed

lemma chunk_at: "\<forall>b \<in> set bs. length b = 24 \<Longrightarrow> k < length bs \<Longrightarrow> subbuf (24 * k) 24 (concat bs) = bs ! k"
proof (induction bs arbitrary: k)
  case (Cons b bs)
  then show ?case by (cases k) (auto simp: subbuf_def)
qed simp

lemma length_chunks: "\<forall>b \<in> set bs. length b = 24 \<Longrightarrow> length (concat bs) = 24 * length bs"
  by (induction bs) auto

lemma concat_r_append: "concat_r (xs @ ys) = Inr bs \<longleftrightarrow> (\<exists>b b'. concat_r xs = Inr b \<and> concat_r ys = Inr b' \<and> bs = b @ b')"
  by (induction xs arbitrary: bs) (auto simp: bind_r_eq_Inr)

lemma concat_r_map: "concat_r (map f xs) = Inr bs \<longleftrightarrow> (\<exists>cs. list_all2 (\<lambda>x c. f x = Inr c) xs cs \<and> bs = concat cs)"
proof (induction xs arbitrary: bs)
  case (Cons x xs)
  have "concat_r (map f (x # xs)) = Inr bs \<longleftrightarrow> (\<exists>c cs. f x = Inr c \<and> list_all2 (\<lambda>x c. f x = Inr c) xs cs \<and> bs = c @ concat cs)"
    using Cons.IH by (auto simp: bind_r_eq_Inr)
  also have "\<dots> \<longleftrightarrow> (\<exists>cs. list_all2 (\<lambda>x c. f x = Inr c) (x # xs) cs \<and> bs = concat cs)"
    unfolding list_all2_Cons1 by (metis concat.simps(2))
  finally show ?case .
qed auto

lemma chunk_lengths: "list_all2 (\<lambda>m c. member_bytes m = Inr c) ms cs \<Longrightarrow> \<forall>c \<in> set cs. length c = 24"
  by (induction rule: list_all2_induct) (auto dest: member_bytes_Inr(5))

lemma record_bytes_Inr:
  assumes "record_bytes r = Inr raw"
  obtains cs where "list_all2 (\<lambda>m c. member_bytes m = Inr c) (wc_members r) cs"
    "raw = le_bytes 8 (wc_worker_generation r) @ le_bytes 8 (wc_work_seq r) @ le_bytes 8 (wc_bank_epoch r)
      @ le_bytes 8 (wc_physical_done_ns r) @ le_bytes 4 (wc_bank_id r) @ le_bytes 4 (int (length (wc_members r))) @ concat cs"
    "\<forall>v \<in> {wc_worker_generation r, wc_work_seq r, wc_bank_epoch r, wc_physical_done_ns r}. 0 \<le> v \<and> v < 256 ^ 8"
    "0 \<le> wc_bank_id r" "wc_bank_id r < 256 ^ 4" "int (length (wc_members r)) < 256 ^ 4"
  using assms by (auto simp: record_bytes_def concat_r_append concat_r_map wire_simps bind_r_eq_Inr)

definition stored :: "completion_arena \<Rightarrow> int \<Rightarrow> work_completion \<Rightarrow> bool" where
  "stored s offset r \<longleftrightarrow> (\<exists>raw. record_bytes r = Inr raw \<and> subbuf (nat (offset + 8)) (length raw) (cp_bytes s) = raw)"

lemma record_length:
  assumes "record_bytes r = Inr raw"
  shows "length raw = 40 + 24 * length (wc_members r)"
proof -
  obtain cs where cs: "list_all2 (\<lambda>m c. member_bytes m = Inr c) (wc_members r) cs"
    "raw = le_bytes 8 (wc_worker_generation r) @ le_bytes 8 (wc_work_seq r) @ le_bytes 8 (wc_bank_epoch r)
      @ le_bytes 8 (wc_physical_done_ns r) @ le_bytes 4 (wc_bank_id r) @ le_bytes 4 (int (length (wc_members r))) @ concat cs"
    using assms by (rule record_bytes_Inr)
  have "\<forall>c \<in> set cs. length c = 24" using chunk_lengths [OF cs(1)] .
  then show ?thesis using cs by (simp add: length_chunks list_all2_lengthD)
qed

lemma stored_reads:
  assumes "stored s offset r" "load_word s offset \<noteq> 0" "check_range s offset (completion_bytes (int (length (wc_members r)))) = Inr ()"
  shows "read_completion s offset = Inr (Some r)"
proof -
  obtain raw where raw: "record_bytes r = Inr raw" "subbuf (nat (offset + 8)) (length raw) (cp_bytes s) = raw"
    using assms(1) by (auto simp: stored_def)
  obtain cs where cs: "list_all2 (\<lambda>m c. member_bytes m = Inr c) (wc_members r) cs"
    "raw = le_bytes 8 (wc_worker_generation r) @ le_bytes 8 (wc_work_seq r) @ le_bytes 8 (wc_bank_epoch r)
      @ le_bytes 8 (wc_physical_done_ns r) @ le_bytes 4 (wc_bank_id r) @ le_bytes 4 (int (length (wc_members r))) @ concat cs"
    "\<forall>v \<in> {wc_worker_generation r, wc_work_seq r, wc_bank_epoch r, wc_physical_done_ns r}. 0 \<le> v \<and> v < 256 ^ 8"
    "0 \<le> wc_bank_id r" "wc_bank_id r < 256 ^ 4" "int (length (wc_members r)) < 256 ^ 4"
    using raw(1) by (rule record_bytes_Inr)
  let ?p = "offset + 8" and ?n = "length (wc_members r)"
  have off: "0 \<le> offset" "check_range s offset (8 + 40) = Inr ()"
    using assms(3) by (auto simp: check_range_def completion_bytes_eq)
  note len = record_length [OF raw(1)]
  have f: "field_at s (?p + int (length pre)) n = v"
    if "raw = pre @ le_bytes n v @ post" "0 \<le> v" "v < 256 ^ n" for pre n v post
    using field_of [of ?p "length raw" s pre n v post] that raw(2) off(1) by simp
  have f0: "field_at s ?p 8 = wc_worker_generation r" using f [of "[]" 8 "wc_worker_generation r"] cs(2,3) by simp
  have f1: "field_at s (?p + 8) 8 = wc_work_seq r"
    using f [of "le_bytes 8 (wc_worker_generation r)" 8 "wc_work_seq r"] cs(2,3) by simp
  have f2: "field_at s (?p + 16) 8 = wc_bank_epoch r"
    using f [of "le_bytes 8 (wc_worker_generation r) @ le_bytes 8 (wc_work_seq r)" 8 "wc_bank_epoch r"] cs(2,3) by simp
  have f3: "field_at s (?p + 24) 8 = wc_physical_done_ns r"
    using f [of "le_bytes 8 (wc_worker_generation r) @ le_bytes 8 (wc_work_seq r) @ le_bytes 8 (wc_bank_epoch r)" 8 "wc_physical_done_ns r"] cs(2,3) by simp
  have f4: "field_at s (?p + 32) 4 = wc_bank_id r"
    using f [of "le_bytes 8 (wc_worker_generation r) @ le_bytes 8 (wc_work_seq r) @ le_bytes 8 (wc_bank_epoch r) @ le_bytes 8 (wc_physical_done_ns r)" 4 "wc_bank_id r"] cs(2,4,5) by simp
  have f5: "field_at s (?p + 36) 4 = int ?n"
    using f [of "le_bytes 8 (wc_worker_generation r) @ le_bytes 8 (wc_work_seq r) @ le_bytes 8 (wc_bank_epoch r) @ le_bytes 8 (wc_physical_done_ns r) @ le_bytes 4 (wc_bank_id r)" 4 "int ?n"] cs(2,6) by simp
  note chunks = chunk_lengths [OF cs(1)]
  have ncs: "length cs = ?n" using cs(1) by (simp add: list_all2_lengthD)
  have member: "read_member s (?p + 40 + int k * 24) = Inr (wc_members r ! k)" if k: "k < ?n" for k
  proof (rule read_member_back)
    show "member_bytes (wc_members r ! k) = Inr (cs ! k)" using cs(1) k by (simp add: list_all2_conv_all_nth)
    have "drop 40 raw = concat cs" by (simp add: cs(2))
    then have "drop (40 + 24 * k) raw = drop (24 * k) (concat cs)" by (metis add.commute drop_drop)
    then have "subbuf (40 + 24 * k) 24 raw = cs ! k" using chunk_at [OF chunks, of k] k ncs by (simp add: subbuf_def)
    moreover have "subbuf (40 + 24 * k) 24 (subbuf (nat ?p) (length raw) (cp_bytes s)) = subbuf (nat ?p + (40 + 24 * k)) 24 (cp_bytes s)"
      by (rule subbuf_inside) (use k len in simp)
    moreover have "nat (?p + 40 + int k * 24) = nat ?p + (40 + 24 * k)" using off(1) by linarith
    ultimately show "subbuf (nat (?p + 40 + int k * 24)) 24 (cp_bytes s) = cs ! k" using raw(2) by simp
    show "0 \<le> ?p + 40 + int k * 24" using off(1) by simp
  qed
  have members: "map_r (\<lambda>i. read_member s (?p + 40 + int i * 24)) [0..<?n] = Inr (wc_members r)"
    unfolding map_r_Inr using member by (simp add: list_all2_conv_all_nth)
  show ?thesis
    unfolding read_completion_def off(2) bind_r_simps Let_def f0 f1 f2 f3 f4 f5 nat_int members
    using assms(2,3) by simp
qed


section \<open>Histories\<close>

text \<open>What the worker that owns an offset has done there so far.\<close>

datatype status = Waiting | Staged work_completion | Published work_completion

type_synonym completion_state = "completion_arena \<times> (int \<rightharpoonup> int \<times> status)"

text \<open>The engine reserves; the worker of a WORK stages a record with the members of its WORK and then raises the
  flag. Other steps, the polls of the engine among them, may come in between.\<close>

datatype completion_op = Reserve int | Stage int work_completion | Raise int

fun completion_step :: "completion_state \<Rightarrow> completion_op \<Rightarrow> completion_state" where
  "completion_step (s, log) (Reserve count) = (case reserve_completion s count of
      (None, s') \<Rightarrow> (s', log) | (Some offset, s') \<Rightarrow> (s', log(offset \<mapsto> (count, Waiting))))"
| "completion_step (s, log) (Stage offset r) = (case log offset of
      None \<Rightarrow> (s, log)
    | Some (count, st) \<Rightarrow> if int (length (wc_members r)) \<noteq> count then (s, log)
        else (case stage_completion s offset r of Inl e \<Rightarrow> (s, log) | Inr s' \<Rightarrow> (s', log(offset \<mapsto> (count, Staged r)))))"
| "completion_step (s, log) (Raise offset) = (case log offset of
      Some (count, Staged r) \<Rightarrow> (store_word s offset 1, log(offset \<mapsto> (count, Published r))) | _ \<Rightarrow> (s, log))"

definition entry_ok :: "completion_arena \<Rightarrow> int \<Rightarrow> int \<times> status \<Rightarrow> bool" where
  "entry_ok s offset e \<longleftrightarrow> 0 < fst e \<and> 0 \<le> offset \<and> offset mod 8 = 0 \<and> offset + completion_bytes (fst e) \<le> cp_next_offset s
     \<and> (case snd e of
          Waiting \<Rightarrow> load_word s offset = 0
        | Staged r \<Rightarrow> load_word s offset = 0 \<and> stored s offset r \<and> int (length (wc_members r)) = fst e
        | Published r \<Rightarrow> load_word s offset = 1 \<and> stored s offset r \<and> int (length (wc_members r)) = fst e)"

definition completion_inv :: "completion_state \<Rightarrow> bool" where
  "completion_inv x \<longleftrightarrow> (case x of (s, log) \<Rightarrow>
     0 \<le> cp_next_offset s \<and> cp_next_offset s mod 8 = 0 \<and> cp_next_offset s \<le> segment_size s
     \<and> (\<forall>i. nat (cp_next_offset s) \<le> i \<longrightarrow> i < length (cp_bytes s) \<longrightarrow> cp_bytes s ! i = 0)
     \<and> (\<forall>offset e. log offset = Some e \<longrightarrow> entry_ok s offset e)
     \<and> (\<forall>o1 o2 e1 e2. log o1 = Some e1 \<longrightarrow> log o2 = Some e2 \<longrightarrow> o1 < o2 \<longrightarrow> o1 + completion_bytes (fst e1) \<le> o2))"

text \<open>Bytes written inside one reservation leave the entries of the others alone.\<close>

definition rewritten :: "completion_arena \<Rightarrow> int \<Rightarrow> bytes \<Rightarrow> completion_arena" where
  "rewritten s pos raw = s\<lparr>cp_bytes := overwrite (nat pos) raw (cp_bytes s)\<rparr>"

lemma entry_apart:
  assumes "entry_ok s offset e" "pos + int (length raw) \<le> offset \<or> offset + completion_bytes (fst e) \<le> pos" "0 \<le> pos"
    and "pos + int (length raw) \<le> segment_size s"
  shows "entry_ok (rewritten s pos raw) offset e"
proof -
  have away: "subbuf p n (overwrite (nat pos) raw (cp_bytes s)) = subbuf p n (cp_bytes s)"
    if "int p + int n \<le> pos \<or> pos + int (length raw) \<le> int p" for p n
    by (rule subbuf_overwrite_disjoint) (use that assms(3,4) in linarith)+
  have "0 < fst e" "0 \<le> offset" using assms(1) by (simp_all add: entry_ok_def)
  then have word: "load_word (rewritten s pos raw) offset = load_word s offset"
  proof -
    have "int (nat offset) + int 8 \<le> pos \<or> pos + int (length raw) \<le> int (nat offset)"
      using assms(2) \<open>0 < fst e\<close> \<open>0 \<le> offset\<close> by (auto simp: completion_bytes_eq)
    from away [OF this] show ?thesis by (simp add: load_word_def rewritten_def)
  qed
  have st: "stored (rewritten s pos raw) offset r" if st: "stored s offset r" "int (length (wc_members r)) = fst e" for r
  proof -
    obtain rw where rw: "record_bytes r = Inr rw" "subbuf (nat (offset + 8)) (length rw) (cp_bytes s) = rw"
      using st(1) by (auto simp: stored_def)
    have "subbuf (nat (offset + 8)) (length rw) (overwrite (nat pos) raw (cp_bytes s)) = subbuf (nat (offset + 8)) (length rw) (cp_bytes s)"
      by (rule away) (use assms(2) st(2) record_length [OF rw(1)] \<open>0 \<le> offset\<close> in \<open>auto simp: completion_bytes_eq\<close>)
    then show ?thesis using rw by (auto simp: stored_def rewritten_def)
  qed
  show ?thesis using assms(1) word st by (auto simp: entry_ok_def rewritten_def split: status.splits)
qed

lemma completion_invD:
  assumes "completion_inv (s, log)" "log offset = Some e"
  shows "entry_ok s offset e" "log o2 = Some e2 \<Longrightarrow> offset < o2 \<Longrightarrow> offset + completion_bytes (fst e) \<le> o2"
    "log o2 = Some e2 \<Longrightarrow> o2 < offset \<Longrightarrow> o2 + completion_bytes (fst e2) \<le> offset"
    "0 \<le> cp_next_offset s" "cp_next_offset s \<le> segment_size s"
  using assms unfolding completion_inv_def prod.case by blast+

lemma rewritten_inv:
  assumes inv: "completion_inv (s, log)" and e: "log offset = Some e" and fst: "fst e' = fst e"
    and pos: "offset \<le> pos" "pos + int (length raw) \<le> offset + completion_bytes (fst e)"
    and ok: "entry_ok (rewritten s pos raw) offset e'"
  shows "completion_inv (rewritten s pos raw, log(offset \<mapsto> e'))"
proof -
  note d = completion_invD [OF inv e]
  then have bound: "0 \<le> pos" "pos + int (length raw) \<le> cp_next_offset s" "cp_next_offset s \<le> segment_size s"
    using pos by (auto simp: entry_ok_def)
  have seg: "segment_size (rewritten s pos raw) = segment_size s" using bound by (simp add: rewritten_def)
  have tail: "cp_bytes (rewritten s pos raw) ! i = 0" if "nat (cp_next_offset s) \<le> i" "i < length (cp_bytes s)" for i
  proof -
    have "cp_bytes (rewritten s pos raw) ! i = cp_bytes s ! i"
      using bound that by (auto simp: rewritten_def overwrite_def nth_append not_less)
    then show ?thesis using inv that by (simp add: completion_inv_def)
  qed
  have others: "entry_ok (rewritten s pos raw) o2 e2" if "log o2 = Some e2" "o2 \<noteq> offset" for o2 e2
  proof (rule entry_apart)
    show "entry_ok s o2 e2" by (rule completion_invD(1) [OF inv that(1)])
    show "pos + int (length raw) \<le> o2 \<or> o2 + completion_bytes (fst e2) \<le> pos"
    proof (cases "o2 < offset")
      case True
      then have "o2 + completion_bytes (fst e2) \<le> offset" by (rule d(3) [OF that(1)])
      with pos show ?thesis by simp
    next
      case False
      then have "offset + completion_bytes (fst e) \<le> o2" using d(2) [OF that(1)] that(2) by simp
      with pos show ?thesis by simp
    qed
    show "0 \<le> pos" "pos + int (length raw) \<le> segment_size s" using bound by simp_all
  qed
  have next': "cp_next_offset (rewritten s pos raw) = cp_next_offset s" by (simp add: rewritten_def)
  have order: "o1 + completion_bytes (fst e1) \<le> o2"
    if h: "(log(offset \<mapsto> e')) o1 = Some e1" "(log(offset \<mapsto> e')) o2 = Some e2" "o1 < o2" for o1 o2 e1 e2
  proof -
    obtain d1 where d1: "log o1 = Some d1" "fst d1 = fst e1" using h(1) e fst by (cases "o1 = offset") simp_all
    obtain d2 where d2: "log o2 = Some d2" using h(2) e by (cases "o2 = offset") simp_all
    show ?thesis using completion_invD(2) [OF inv d1(1) d2 h(3)] d1(2) by simp
  qed
  have entries: "entry_ok (rewritten s pos raw) o1 e1" if "(log(offset \<mapsto> e')) o1 = Some e1" for o1 e1
    using that ok others by (auto split: if_splits)
  have tail': "\<forall>i. nat (cp_next_offset (rewritten s pos raw)) \<le> i \<longrightarrow> i < length (cp_bytes (rewritten s pos raw))
      \<longrightarrow> cp_bytes (rewritten s pos raw) ! i = 0"
    using tail seg next' by simp
  have num: "0 \<le> cp_next_offset (rewritten s pos raw)" "cp_next_offset (rewritten s pos raw) mod 8 = 0"
      "cp_next_offset (rewritten s pos raw) \<le> segment_size (rewritten s pos raw)"
    using inv next' seg by (simp_all add: completion_inv_def)
  show ?thesis unfolding completion_inv_def prod.case using num tail' entries order by blast
qed


lemma reserve_completion_inv:
  assumes inv: "completion_inv (s, log)" and r: "reserve_completion s count = (Some offset, s')"
  shows "completion_inv (s', log(offset \<mapsto> (count, Waiting)))" "log offset = None"
proof -
  have s': "s' = s\<lparr>cp_next_offset := cp_next_offset s + completion_bytes count\<rparr>" and off: "offset = cp_next_offset s"
    and fits: "0 < count" "cp_next_offset s + completion_bytes count \<le> segment_size s"
    using r by (auto simp: reserve_completion_def Let_def split: if_splits)
  have base: "0 \<le> cp_next_offset s" "cp_next_offset s mod 8 = 0"
    and tail: "\<forall>i. nat (cp_next_offset s) \<le> i \<longrightarrow> i < length (cp_bytes s) \<longrightarrow> cp_bytes s ! i = 0"
    using inv by (simp_all add: completion_inv_def)
  have size: "48 < completion_bytes count" "(offset + completion_bytes count) mod 8 = 0"
    using fits(1) base off unfolding completion_bytes_eq by presburger+
  have below: "o2 + completion_bytes (fst e2) \<le> offset" "o2 < offset" if "log o2 = Some e2" for o2 e2
  proof -
    have "entry_ok s o2 e2" by (rule completion_invD(1) [OF inv that])
    then show "o2 + completion_bytes (fst e2) \<le> offset" "o2 < offset" by (auto simp: entry_ok_def off completion_bytes_eq)
  qed
  then show fresh: "log offset = None" by (metis less_irrefl not_None_eq)
  have room: "nat offset + 8 \<le> length (cp_bytes s)" using fits size(1) off base(1) by linarith
  have "subbuf (nat offset) 8 (cp_bytes s) = replicate 8 0"
  proof (rule nth_equalityI)
    fix i
    assume "i < length (subbuf (nat offset) 8 (cp_bytes s))"
    then have "i < 8" using room by simp
    then show "subbuf (nat offset) 8 (cp_bytes s) ! i = replicate 8 0 ! i"
      using tail room off by (simp add: subbuf_def)
  qed (use room in simp)
  then have "load_word s offset = 0" by (simp add: load_word_def numeral_eq_Suc)
  then have new: "entry_ok s' offset (count, Waiting)"
    using fits base off by (simp add: entry_ok_def s' load_word_def)
  have old: "entry_ok s' o2 e2" if "log o2 = Some e2" for o2 e2
    using completion_invD(1) [OF inv that] size(1)
    by (auto simp: entry_ok_def s' load_word_def stored_def split: status.splits)
  have order: "o1 + completion_bytes (fst e1) \<le> o2"
    if h: "(log(offset \<mapsto> (count, Waiting))) o1 = Some e1" "(log(offset \<mapsto> (count, Waiting))) o2 = Some e2" "o1 < o2" for o1 o2 e1 e2
  proof (cases "o1 = offset")
    case True
    then have "log o2 = Some e2" using h by simp
    with below [OF this] True h(3) show ?thesis by simp
  next
    case False
    then have o1: "log o1 = Some e1" using h(1) by simp
    then show ?thesis using below(1) [OF o1] completion_invD(2) [OF inv o1] h(2,3) by (cases "o2 = offset") simp_all
  qed
  have entries: "entry_ok s' o1 e1" if "(log(offset \<mapsto> (count, Waiting))) o1 = Some e1" for o1 e1
    using that new old by (auto split: if_splits)
  have tail': "\<forall>i. nat (cp_next_offset s') \<le> i \<longrightarrow> i < length (cp_bytes s') \<longrightarrow> cp_bytes s' ! i = 0"
    using tail size(1) by (auto simp: s')
  have num: "0 \<le> cp_next_offset s'" "cp_next_offset s' mod 8 = 0" "cp_next_offset s' \<le> segment_size s'"
    using base size fits off by (simp_all add: s')
  show "completion_inv (s', log(offset \<mapsto> (count, Waiting)))"
    unfolding completion_inv_def prod.case using num tail' entries order by blast
qed

lemma stage_completion_Inr:
  assumes "stage_completion s offset r = Inr s'"
  obtains raw where "record_bytes r = Inr raw" "s' = rewritten s (offset + 8) raw" "load_word s offset = 0"
    "check_range s offset (completion_bytes (int (length (wc_members r)))) = Inr ()"
  using assms by (auto simp: stage_completion_def bind_r_eq_Inr rewritten_def)

lemma completion_step_inv: "completion_inv x \<Longrightarrow> completion_inv (completion_step x op)"
proof (induction x op rule: completion_step.induct)
  case (1 s log count)
  show ?case
  proof (cases "fst (reserve_completion s count)")
    case None
    then have "reserve_completion s count = (None, s)" by (auto simp: reserve_completion_def Let_def split: if_splits)
    with 1 show ?thesis by simp
  next
    case (Some offset)
    then have r: "reserve_completion s count = (Some offset, snd (reserve_completion s count))" by (metis surjective_pairing)
    show ?thesis using reserve_completion_inv(1) [OF 1 r] by (subst completion_step.simps, subst r) simp
  qed
next
  case (2 s log offset r)
  show ?case
  proof (cases "\<exists>count st s'. log offset = Some (count, st) \<and> int (length (wc_members r)) = count \<and> stage_completion s offset r = Inr s'")
    case True
    then obtain count st s' where e: "log offset = Some (count, st)" and c: "int (length (wc_members r)) = count"
      and st: "stage_completion s offset r = Inr s'" by blast
    obtain raw where raw: "record_bytes r = Inr raw" "s' = rewritten s (offset + 8) raw" "load_word s offset = 0"
      using st by (rule stage_completion_Inr)
    note ok = completion_invD(1) [OF 2 e] and b = completion_invD(4,5) [OF 2 e]
    have len: "length raw = 40 + 24 * length (wc_members r)" by (rule record_length [OF raw(1)])
    have fits: "offset + 8 + int (length raw) \<le> offset + completion_bytes (fst (count, st))"
      using len c by (simp add: completion_bytes_eq)
    have room: "nat (offset + 8) + length raw \<le> length (cp_bytes s)"
    proof -
      have "0 \<le> offset" "offset + completion_bytes count \<le> segment_size s" using ok b(2) by (simp_all add: entry_ok_def)
      then show ?thesis using fits by simp
    qed
    have "load_word s' offset = load_word s offset"
    proof -
      have "subbuf (nat offset) 8 (overwrite (nat (offset + 8)) raw (cp_bytes s)) = subbuf (nat offset) 8 (cp_bytes s)"
        by (rule subbuf_overwrite_disjoint) (use ok room in \<open>auto simp: entry_ok_def\<close>)
      then show ?thesis by (simp add: load_word_def raw(2) rewritten_def)
    qed
    moreover have "stored s' offset r"
      using raw(1) room by (auto simp: stored_def raw(2) rewritten_def)
    ultimately have new: "entry_ok (rewritten s (offset + 8) raw) offset (count, Staged r)"
      using ok c raw(2,3) by (simp add: entry_ok_def) (simp add: rewritten_def)
    have "completion_inv (rewritten s (offset + 8) raw, log(offset \<mapsto> (count, Staged r)))"
      by (rule rewritten_inv [OF 2 e _ _ _ new]) (use fits in simp_all)
    then show ?thesis using e c st raw(2) by simp
  next
    case False
    then have "completion_step (s, log) (Stage offset r) = (s, log)" by (auto split: option.split sum.split)
    with 2 show ?thesis by simp
  qed
next
  case (3 s log offset)
  show ?case
  proof (cases "\<exists>count r. log offset = Some (count, Staged r)")
    case True
    then obtain count r where e: "log offset = Some (count, Staged r)" by blast
    note ok = completion_invD(1) [OF 3 e] and b = completion_invD(4,5) [OF 3 e]
    have rw: "store_word s offset 1 = rewritten s offset (le_bytes 8 1)" by (simp add: store_word_def rewritten_def)
    have pos: "0 \<le> offset" "0 < count" "offset + completion_bytes count \<le> cp_next_offset s" "stored s offset r"
      "int (length (wc_members r)) = count" "offset mod 8 = 0"
      using ok by (simp_all add: entry_ok_def)
    have room: "nat offset + 8 \<le> length (cp_bytes s)" using pos b by (simp add: completion_bytes_eq)
    have "load_word (store_word s offset 1) offset = 1" using room by (simp add: load_word_def store_word_def)
    moreover have "stored (store_word s offset 1) offset r"
    proof -
      obtain raw where raw: "record_bytes r = Inr raw" "subbuf (nat (offset + 8)) (length raw) (cp_bytes s) = raw"
        using pos(4) by (auto simp: stored_def)
      have "subbuf (nat (offset + 8)) (length raw) (overwrite (nat offset) (le_bytes 8 1) (cp_bytes s)) = raw"
        using raw(2) room pos(1) by (subst subbuf_overwrite_disjoint) auto
      then show ?thesis using raw(1) by (auto simp: stored_def store_word_def)
    qed
    ultimately have new: "entry_ok (rewritten s offset (le_bytes 8 1)) offset (count, Published r)"
      using pos unfolding rw by (simp add: entry_ok_def) (simp add: rewritten_def)
    have "completion_inv (rewritten s offset (le_bytes 8 1), log(offset \<mapsto> (count, Published r)))"
      by (rule rewritten_inv [OF 3 e _ _ _ new]) (use pos(2) in \<open>simp_all add: completion_bytes_eq\<close>)
    then show ?thesis using e by (simp add: rw)
  next
    case False
    then have "completion_step (s, log) (Raise offset) = (s, log)" by (auto split: option.split status.split)
    with 3 show ?thesis by simp
  qed
qed


definition completion_run :: "completion_state \<Rightarrow> completion_op list \<Rightarrow> completion_state" where
  "completion_run = foldl completion_step"

lemma completion_run_inv: "completion_inv x \<Longrightarrow> completion_inv (completion_run x ops)"
  unfolding completion_run_def by (induction ops arbitrary: x) (simp_all add: completion_step_inv)

lemma new_completion_inv: "completion_inv (new_completion_arena capacity, Map.empty)"
  by (simp add: completion_inv_def new_completion_arena_def)

lemma published_kept:
  assumes "completion_inv x" "snd x offset = Some (count, Published r)"
  shows "snd (completion_step x op) offset = Some (count, Published r)"
  using assms
proof (induction x op rule: completion_step.induct)
  case (1 s log n)
  have "log o' = None" if "reserve_completion s n = (Some o', s')" for o' s'
    using reserve_completion_inv(2) [OF 1(1) that] .
  with 1(2) show ?case by (auto split: prod.split option.split)
next
  case (2 s log o' q)
  then have "load_word s offset = 1" using completion_invD(1) [OF 2(1)] by (force simp: entry_ok_def)
  then have "\<exists>e. stage_completion s offset q = Inl e"
    by (auto simp: stage_completion_def bind_r_def require_def split: sum.split)
  with 2(2) show ?case by (auto split: option.split sum.split)
next
  case (3 s log o')
  then show ?case by (auto split: option.split status.split)
qed

lemma published_run_kept:
  "completion_inv x \<Longrightarrow> snd x offset = Some (count, Published r) \<Longrightarrow> snd (completion_run x ops) offset = Some (count, Published r)"
  unfolding completion_run_def
proof (induction ops arbitrary: x)
  case (Cons op ops)
  then show ?case using completion_step_inv published_kept by simp
qed simp

section \<open>Properties\<close>

text \<open>C20: completions are delivered exactly: in every history of reservations, staged records and raised flags, of all
  workers in any interleaving, polling a reserved offset never fails and gives nothing until the flag of that
  offset is raised, and the whole record of its worker from then on, whatever happens after.\<close>

theorem completions_delivered:
  assumes "completion_run (new_completion_arena capacity, Map.empty) ops = (s, log)" "log offset = Some (count, st)"
    and "completion_run (s, log) later = (s', log')"
  shows "read_completion s offset = Inr (case st of Published r \<Rightarrow> Some r | _ \<Rightarrow> None)
     \<and> (\<forall>r. st = Published r \<longrightarrow> read_completion s' offset = Inr (Some r))"
proof -
  have reads: "read_completion t offset = Inr (case st of Published r \<Rightarrow> Some r | _ \<Rightarrow> None)"
    if inv: "completion_inv (t, l)" and e: "l offset = Some (count, st)" for t l st
  proof -
    note d = completion_invD [OF inv e]
    have range: "check_range t offset n = Inr ()" if "n \<le> completion_bytes count" for n
      using d(1,5) that by (simp add: check_range_def entry_ok_def)
    have "0 < count" using d(1) by (simp add: entry_ok_def)
    then have small: "check_range t offset (8 + 40) = Inr ()" by (intro range) (simp add: completion_bytes_eq)
    show ?thesis
    proof (cases st)
      case (Published r)
      then have "stored t offset r" "load_word t offset \<noteq> 0" "int (length (wc_members r)) = count" using d(1) by (simp_all add: entry_ok_def)
      then show ?thesis using stored_reads [of t offset r] range Published by simp
    qed (use d(1) small in \<open>simp_all add: entry_ok_def read_completion_def\<close>)
  qed
  have inv: "completion_inv (s, log)" using completion_run_inv [OF new_completion_inv, of capacity ops] assms(1) by simp
  have inv': "completion_inv (s', log')" using completion_run_inv [OF inv, of later] assms(3) by simp
  have "log' offset = Some (count, Published r)" if "st = Published r" for r
    using published_run_kept [OF inv, of offset count r later] assms(2,3) that by simp
  then show ?thesis using reads [OF inv assms(2)] reads [OF inv'] by force
qed

definition demo_completion :: "int \<Rightarrow> work_completion" where
  "demo_completion seq = \<lparr>wc_worker_generation = 1, wc_work_seq = seq, wc_bank_epoch = 4, wc_physical_done_ns = 77, wc_bank_id = 0,
     wc_members = [\<lparr>mc_slot = 3, mc_epoch = 1, mc_round_id = 2, mc_outcome = EXECUTED\<rparr>]\<rparr>"

theorem completions_delivered_witness:
  "read_completion (fst (completion_run (new_completion_arena 200, Map.empty)
     [Reserve 1, Reserve 1, Stage 72 (demo_completion 8), Stage 0 (demo_completion 7), Raise 0])) 0 = Inr (Some (demo_completion 7))"
proof -
  let ?ops = "[Reserve 1, Reserve 1, Stage 72 (demo_completion 8), Stage 0 (demo_completion 7), Raise 0]"
  have "snd (completion_run (new_completion_arena 200, Map.empty) ?ops) 0 = Some (1, Published (demo_completion 7))" by code_simp
  then obtain s log where r: "completion_run (new_completion_arena 200, Map.empty) ?ops = (s, log)"
      and p: "log 0 = Some (1, Published (demo_completion 7))"
    by (metis surjective_pairing)
  have "completion_run (s, log) [] = (s, log)" by (simp add: completion_run_def)
  from completions_delivered [OF r p this] show ?thesis unfolding r by simp
qed



end
