(* ===== verification/Admission.thy ===== *)
theory Admission
  imports SharedArenas HostAllocator DraftContracts Completion "HOL-Library.AList"
begin

text \<open>
  \<open>engine/admission.py\<close> and \<open>engine/request_registry.py\<close>: the worst-case budget of a session, the registry of
  requests and the admission of a request into the arenas and host allocators, with the part of
  \<open>engine/recycling.py\<close> that returns a drained cohort. The rows the registry hands to the table writers are
  recorded in a log. Methods that can fail half-way return the state beside the outcome.
\<close>

section \<open>Workers and budgets\<close>

datatype worker_role = DRAFT | TARGET

record worker_spec =
  ws_worker_id :: int
  ws_role :: worker_role
  ws_generation :: int
  ws_max_batch_size :: int
  ws_max_batch_tokens :: int
  ws_prefill_max_batch_tokens :: int
  ws_verify_max_batch_tokens :: int
  ws_bank_blocks :: int
  ws_bank_rows :: int
  ws_block_size :: int
  ws_draft_banked :: bool

definition check_worker_spec :: "worker_spec \<Rightarrow> unit result" where
  "check_worker_spec w = require (0 \<le> ws_worker_id w
     \<and> (\<forall>v \<in> set [ws_generation w, ws_max_batch_size w, ws_max_batch_tokens w, ws_prefill_max_batch_tokens w,
                   ws_verify_max_batch_tokens w, ws_bank_blocks w, ws_bank_rows w, ws_block_size w]. 0 < v))
     (ValueError ''invalid Worker capacities/identity'')"

record admission_cost =
  ac_engine_tokens :: int
  ac_config_bytes :: int
  ac_proposals :: int
  ac_host_blocks :: int
  ac_snapshots :: int
  ac_draft_host_blocks :: int
  ac_completions :: int

definition no_cost :: admission_cost where
  "no_cost = \<lparr>ac_engine_tokens = 0, ac_config_bytes = 0, ac_proposals = 0, ac_host_blocks = 0, ac_snapshots = 0,
     ac_draft_host_blocks = 0, ac_completions = 0\<rparr>"

definition add_cost :: "admission_cost \<Rightarrow> admission_cost \<Rightarrow> admission_cost" where
  "add_cost a b = \<lparr>ac_engine_tokens = ac_engine_tokens a + ac_engine_tokens b, ac_config_bytes = ac_config_bytes a + ac_config_bytes b,
     ac_proposals = ac_proposals a + ac_proposals b, ac_host_blocks = ac_host_blocks a + ac_host_blocks b,
     ac_snapshots = ac_snapshots a + ac_snapshots b, ac_draft_host_blocks = ac_draft_host_blocks a + ac_draft_host_blocks b,
     ac_completions = ac_completions a + ac_completions b\<rparr>"

text \<open>The size of a snapshot record, \<open>DraftSnapshot.byte_size\<close>, and the cost of one request.\<close>

definition snapshot_byte_size :: int where
  "snapshot_byte_size = 16 + 120 + 4 * 16"

definition request_cost :: "worker_spec list \<Rightarrow> int \<Rightarrow> draft_generation_config \<Rightarrow> int \<Rightarrow> admission_cost" where
  "request_cost specs prompt_count config host_blocks =
     (let rounds = gc_max_new_tokens config; depth = gc_proposal_depth config;
          banked = \<exists>w \<in> set specs. ws_draft_banked w
      in \<lparr>ac_engine_tokens = 4 * (prompt_count + rounds), ac_config_bytes = 16 + 4 * int (length (gc_stop_token_ids config)),
          ac_proposals = (rounds + 1) * (8 + 4 * depth), ac_host_blocks = host_blocks,
          ac_snapshots = (if banked then (rounds + 1) * snapshot_byte_size else 0),
          ac_draft_host_blocks = (if banked then host_blocks else 0), ac_completions = cohort_completion_budget [rounds]\<rparr>)"

section \<open>The registry\<close>

datatype lifecycle = FREE | ACTIVE | FINISHED | CANCELLED

record request_input =
  ri_slot :: int
  ri_epoch :: int
  ri_arrival_seq :: int
  ri_prompt_count :: int
  ri_max_new_tokens :: int
  ri_proposal_depth :: int
  ri_prompt :: arena_handle
  ri_config :: arena_handle
  ri_output :: arena_handle
  ri_output_count :: int
  ri_host :: hostkv_handle
  ri_capacity_blocks :: int
  ri_admitted_ns :: int
  ri_ready_ns :: int

record request_record =
  rr_request_id :: string
  rr_input :: request_input
  rr_config :: draft_generation_config
  rr_reservation :: arena_handle
  rr_lifecycle :: lifecycle
  rr_current_round :: int
  rr_output_chunks :: "int list list"

definition record_output :: "request_record \<Rightarrow> int list" where
  "record_output r = concat (rr_output_chunks r)"

text \<open>The calls the registry makes on the table writers, with their arguments.\<close>

datatype published_row =
    PublishActive int request_record
  | PublishLifecycle int int int lifecycle
  | PublishHostKV int host_kv_extent
  | PublishDraftHostKV int int draft_host_allocation

record registry =
  rg_specs :: "worker_spec list"
  rg_slots :: int
  rg_tokens :: shared_arena
  rg_configs :: shared_arena
  rg_proposal_capacities :: "int list"
  rg_snapshot_capacities :: "int list"
  rg_completions :: "completion_arena option"
  rg_draft_layout_id :: int
  rg_records :: "(int \<times> request_record) list"
  rg_identities :: "(string \<times> int) list"
  rg_allocator :: host_allocator
  rg_draft_allocator :: host_allocator
  rg_publish_seq :: int
  rg_epoch :: int
  rg_arrival :: int
  rg_used :: admission_cost
  rg_published :: "published_row list"

definition new_registry ::
  "worker_spec list \<Rightarrow> int \<Rightarrow> shared_arena \<Rightarrow> shared_arena \<Rightarrow> int list \<Rightarrow> int list \<Rightarrow> completion_arena option \<Rightarrow> int \<Rightarrow>
     host_arena \<Rightarrow> host_arena \<Rightarrow> registry" where
  "new_registry specs slots tokens configs proposals snapshots completions layout host draft_host =
     \<lparr>rg_specs = specs, rg_slots = slots, rg_tokens = tokens, rg_configs = configs, rg_proposal_capacities = proposals,
      rg_snapshot_capacities = snapshots, rg_completions = completions, rg_draft_layout_id = layout, rg_records = [],
      rg_identities = [], rg_allocator = init_host_allocator host, rg_draft_allocator = init_host_allocator draft_host,
      rg_publish_seq = 0, rg_epoch = 1, rg_arrival = 0, rg_used = no_cost, rg_published = []\<rparr>"

section \<open>The budget check\<close>

definition min_r :: "int list \<Rightarrow> int result" where
  "min_r xs = (if xs = [] then Inl (ValueError ''min() arg is an empty sequence'') else Inr (Min (set xs)))"

definition total_blocks :: "host_allocator \<Rightarrow> int" where
  "total_blocks h = ad_total_blocks (ha_descriptor (hl_arena h))"

text \<open>The limits in the order of the code, each with what is used and what the request costs.\<close>

definition budget_limits :: "registry \<Rightarrow> admission_cost \<Rightarrow> (int \<times> int \<times> int) list result" where
  "budget_limits g cost =
     bind_r (min_r (rg_proposal_capacities g)) (\<lambda>proposals.
     bind_r (min_r (rg_snapshot_capacities g)) (\<lambda>snapshots.
     let u = rg_used g in
     Inr ([(ac_engine_tokens u, ac_engine_tokens cost, shared_capacity (rg_tokens g)),
           (ac_config_bytes u, ac_config_bytes cost, shared_capacity (rg_configs g)),
           (ac_proposals u, ac_proposals cost, proposals),
           (ac_host_blocks u, ac_host_blocks cost, total_blocks (rg_allocator g)),
           (ac_snapshots u, ac_snapshots cost, snapshots),
           (ac_draft_host_blocks u, ac_draft_host_blocks cost, total_blocks (rg_draft_allocator g))]
          @ (case rg_completions g of None \<Rightarrow> []
             | Some c \<Rightarrow> [(ac_completions u, ac_completions cost, segment_size c)]))))"

definition check_budget :: "registry \<Rightarrow> int \<Rightarrow> draft_generation_config \<Rightarrow> int \<Rightarrow> admission_cost result" where
  "check_budget g prompt_count config host_blocks =
     (let cost = request_cost (rg_specs g) prompt_count config host_blocks in
      bind_r (budget_limits g cost) (\<lambda>limits.
      bind_r (checks (map (\<lambda>(used, need, capacity). require (used + need \<le> capacity)
                (AdmissionCapacityError ''cohort budget exhausted; drain completed work then retry'')) limits)) (\<lambda>_.
      Inr cost)))"

section \<open>Admission\<close>

definition capacity_for :: "registry \<Rightarrow> int list \<Rightarrow> draft_generation_config \<Rightarrow> int" where
  "capacity_for g prompt config =
     (let block_size = ws_block_size (hd (rg_specs g))
      in (int (length prompt) + gc_max_new_tokens config + block_size - 1) div block_size)"

definition targets_of :: "worker_spec list \<Rightarrow> worker_spec list" where
  "targets_of specs = filter (\<lambda>w. ws_role w = TARGET) specs"

definition drafts_of :: "worker_spec list \<Rightarrow> worker_spec list" where
  "drafts_of specs = filter (\<lambda>w. ws_role w = DRAFT) specs"

text \<open>The checks of \<open>admit\<close> before anything is written.\<close>

definition admission_checks :: "registry \<Rightarrow> string \<Rightarrow> int list \<Rightarrow> draft_generation_config \<Rightarrow> admission_cost result" where
  "admission_checks g request_id prompt config =
     (let n = int (length prompt); capacity = capacity_for g prompt config;
          targets = targets_of (rg_specs g); drafts = drafts_of (rg_specs g)
      in bind_r (checks
        [require (map_of (rg_identities g) request_id = None) (AdmissionRejected ''duplicate request id''),
         require (int (length (rg_records g)) < rg_slots g)
           (AdmissionCapacityError ''admission slot capacity exhausted; wait for cohort retirement and retry''),
         require (prompt \<noteq> [] \<and> (\<forall>t \<in> set prompt. 0 \<le> t \<and> t < 4294967295))
           (AdmissionRejected ''prompt must contain valid unsigned token ids''),
         require (\<exists>w \<in> set targets. capacity \<le> ws_bank_blocks w \<and> n \<le> ws_prefill_max_batch_tokens w)
           (AdmissionRejected ''request cannot fit any Target''),
         require (\<exists>w \<in> set targets. gc_proposal_depth config + 1 \<le> ws_verify_max_batch_tokens w)
           (AdmissionRejected ''request verify step cannot fit any Target''),
         require (\<exists>w \<in> set drafts. n + gc_proposal_depth config + 1 \<le> ws_max_batch_tokens w
                    \<and> (\<not> ws_draft_banked w \<or> capacity \<le> ws_bank_blocks w))
           (AdmissionRejected ''request cannot fit any Draft'')]) (\<lambda>_.
         check_budget g n config capacity))"

definition publish_record :: "registry \<Rightarrow> request_record \<Rightarrow> registry" where
  "publish_record g r = g\<lparr>rg_publish_seq := rg_publish_seq g + 1,
     rg_published := rg_published g @ [PublishActive (rg_publish_seq g) r]\<rparr>"

text \<open>The payload writes of \<open>admit\<close>, in order: prompt, configuration, output region and host extent.\<close>

definition write_payloads :: "registry \<Rightarrow> int \<Rightarrow> int list \<Rightarrow> draft_generation_config \<Rightarrow> int \<Rightarrow>
    (arena_handle \<times> arena_handle \<times> arena_handle \<times> host_kv_extent) result \<times> registry" where
  "write_payloads g slot prompt config capacity =
     (case shared_write_tokens (rg_tokens g) prompt of
        Inl e \<Rightarrow> (Inl e, g)
      | Inr (prompt_handle, t1) \<Rightarrow>
          let g1 = g\<lparr>rg_tokens := t1\<rparr> in
          (case shared_write_config (rg_configs g1) config of
             Inl e \<Rightarrow> (Inl e, g1)
           | Inr (config_handle, c1) \<Rightarrow>
               let g2 = g1\<lparr>rg_configs := c1\<rparr> in
               (case reserve_output (rg_tokens g2) (gc_max_new_tokens config) of
                  Inl e \<Rightarrow> (Inl e, g2)
                | Inr (output, t2) \<Rightarrow>
                    let g3 = g2\<lparr>rg_tokens := t2\<rparr> in
                    (case host_allocate (rg_allocator g3) slot (rg_epoch g3) capacity of
                       Inl e \<Rightarrow> (Inl e, g3)
                     | Inr (extent, h) \<Rightarrow> (Inr (prompt_handle, config_handle, output, extent), g3\<lparr>rg_allocator := h\<rparr>)))))"

text \<open>The mirror allocation for Draft workers with banks.\<close>

definition allocate_draft :: "registry \<Rightarrow> int \<Rightarrow> int \<Rightarrow> unit result \<times> registry" where
  "allocate_draft g slot capacity =
     (if \<not> (\<exists>w \<in> set (drafts_of (rg_specs g)). ws_draft_banked w) then (Inr (), g)
      else case host_allocate (rg_draft_allocator g) slot (rg_epoch g) capacity of
        Inl e \<Rightarrow> (Inl e, g)
      | Inr (d, h) \<Rightarrow>
          let g1 = g\<lparr>rg_draft_allocator := h\<rparr>;
              x = \<lparr>dha_arena_id = 1, dha_arena_generation = ad_descriptor_generation (ha_descriptor (hl_arena h)),
                   dha_layout_id = rg_draft_layout_id g, dha_host_slot_generation = hx_host_slot_generation d,
                   dha_writer_lease_generation = hx_writer_lease_generation d, dha_offset_blocks = extent_offset d,
                   dha_host_slot = hx_host_slot d, dha_capacity_blocks = capacity, dha_block_size = ws_block_size (hd (rg_specs g))\<rparr>
          in (case check_draft_host_allocation x of
                Inl e \<Rightarrow> (Inl e, g1)
              | Inr _ \<Rightarrow> (Inr (), g1\<lparr>rg_published := rg_published g1 @ [PublishDraftHostKV slot (rg_epoch g) x]\<rparr>)))"

definition admit :: "registry \<Rightarrow> string \<Rightarrow> int list \<Rightarrow> draft_generation_config \<Rightarrow> int \<Rightarrow> int result \<times> registry" where
  "admit g request_id prompt config now =
     (case admission_checks g request_id prompt config of
        Inl e \<Rightarrow> (Inl e, g)
      | Inr cost \<Rightarrow>
          let slot = int (length (rg_records g)); capacity = capacity_for g prompt config in
          (case write_payloads g slot prompt config capacity of
             (Inl e, g1) \<Rightarrow> (Inl e, g1)
           | (Inr (prompt_handle, config_handle, output, extent), g1) \<Rightarrow>
               (case mk_handle (h_offset output) 0 (h_generation output) of
                  Inl e \<Rightarrow> (Inl e, g1)
                | Inr no_output \<Rightarrow>
                    let input = \<lparr>ri_slot = slot, ri_epoch = rg_epoch g1, ri_arrival_seq = rg_arrival g1,
                          ri_prompt_count = int (length prompt), ri_max_new_tokens = gc_max_new_tokens config,
                          ri_proposal_depth = gc_proposal_depth config, ri_prompt = prompt_handle, ri_config = config_handle,
                          ri_output = no_output, ri_output_count = 0, ri_host = hx_arena extent, ri_capacity_blocks = capacity,
                          ri_admitted_ns = now, ri_ready_ns = 0\<rparr>;
                        r = \<lparr>rr_request_id = request_id, rr_input = input, rr_config = config, rr_reservation = output,
                             rr_lifecycle = ACTIVE, rr_current_round = -1, rr_output_chunks = []\<rparr>;
                        g2 = g1\<lparr>rg_records := rg_records g1 @ [(slot, r)], rg_identities := rg_identities g1 @ [(request_id, slot)]\<rparr>;
                        g3 = publish_record g2 r;
                        g4 = g3\<lparr>rg_published := rg_published g3 @ [PublishHostKV slot extent]\<rparr>
                    in (case allocate_draft g4 slot capacity of
                          (Inl e, g5) \<Rightarrow> (Inl e, g5)
                        | (Inr _, g5) \<Rightarrow>
                            (Inr slot, g5\<lparr>rg_arrival := rg_arrival g5 + 1, rg_used := add_cost (rg_used g5) cost\<rparr>)))))"

text \<open>\<open>Engine.admit\<close>: a refusal is passed on, any other exception poisons the engine.\<close>

definition is_refusal :: "py_error \<Rightarrow> bool" where
  "is_refusal e = (case e of AdmissionRejected _ \<Rightarrow> True | AdmissionCapacityError _ \<Rightarrow> True | _ \<Rightarrow> False)"

definition engine_admit :: "bool \<Rightarrow> registry \<Rightarrow> string \<Rightarrow> int list \<Rightarrow> draft_generation_config \<Rightarrow> int \<Rightarrow> int result \<times> registry \<times> bool" where
  "engine_admit busy g request_id prompt config now =
     (if busy then (Inl (AdmissionCapacityError ''retirement in progress; poll/drain then retry''), g, False)
      else case admit g request_id prompt config now of
        (Inl e, g') \<Rightarrow> (Inl e, g', \<not> is_refusal e)
      | (Inr slot, g') \<Rightarrow> (Inr slot, g', False))"

definition cancel :: "registry \<Rightarrow> string \<Rightarrow> registry result" where
  "cancel g request_id =
     (case map_of (rg_identities g) request_id of
        None \<Rightarrow> Inl (KeyError ''request id'')
      | Some slot \<Rightarrow> (case map_of (rg_records g) slot of
          None \<Rightarrow> Inl (KeyError ''slot'')
        | Some r \<Rightarrow>
            if rr_lifecycle r \<noteq> ACTIVE then Inr g
            else Inr (g\<lparr>rg_records := AList.update slot (r\<lparr>rr_lifecycle := CANCELLED\<rparr>) (rg_records g),
                        rg_publish_seq := rg_publish_seq g + 1,
                        rg_published := rg_published g @ [PublishLifecycle (ri_slot (rr_input r)) (rg_publish_seq g)
                          (ri_epoch (rr_input r)) CANCELLED]\<rparr>)))"

section \<open>Retiring a cohort\<close>

text \<open>The loop over the records: the pins in shared memory must be clear, then both host extents go back.\<close>

fun recycle_records :: "(int \<Rightarrow> bool) \<Rightarrow> registry \<Rightarrow> (int \<times> request_record) list \<Rightarrow> unit result \<times> registry" where
  "recycle_records pinned g [] = (Inr (), g)"
| "recycle_records pinned g ((slot, r) # rest) =
     (if pinned slot then (Inl (RuntimeError ''retirement with live HostKV pin''), g)
      else case host_recycle (rg_allocator g) slot (ri_epoch (rr_input r)) True of
        Inl e \<Rightarrow> (Inl e, g)
      | Inr h \<Rightarrow>
          let g1 = g\<lparr>rg_allocator := h\<rparr> in
          if \<not> (\<exists>w \<in> set (rg_specs g). ws_draft_banked w) then recycle_records pinned g1 rest
          else (case host_recycle (rg_draft_allocator g1) slot (ri_epoch (rr_input r)) True of
              Inl e \<Rightarrow> (Inl e, g1)
            | Inr d \<Rightarrow> recycle_records pinned (g1\<lparr>rg_draft_allocator := d\<rparr>) rest))"

text \<open>\<open>recycle_payloads\<close> for the arenas of the engine; there is one engine token arena, so the stride is 2.\<close>

definition recycle_payloads :: "registry \<Rightarrow> unit result \<times> registry" where
  "recycle_payloads g =
     (let g0 = g\<lparr>rg_completions := map_option (\<lambda>c. new_completion_arena (length (cp_bytes c))) (rg_completions g)\<rparr> in
      case recycle_shared (rg_tokens g0) 2 of
        Inl e \<Rightarrow> (Inl e, g0)
      | Inr t \<Rightarrow>
          let g1 = g0\<lparr>rg_tokens := t\<rparr> in
          (case recycle_shared (rg_configs g1) 2 of
             Inl e \<Rightarrow> (Inl e, g1) | Inr c \<Rightarrow> (Inr (), g1\<lparr>rg_configs := c\<rparr>)))"

definition recycle_cohort :: "(int \<Rightarrow> bool) \<Rightarrow> registry \<Rightarrow> unit result \<times> registry" where
  "recycle_cohort pinned g =
     (case next_id REQUEST_EPOCH (rg_epoch g) of
        Inl e \<Rightarrow> (Inl e, g)
      | Inr epoch \<Rightarrow>
          (case recycle_records pinned g (rg_records g) of
             (Inl e, g1) \<Rightarrow> (Inl e, g1)
           | (Inr _, g1) \<Rightarrow> (case recycle_payloads g1 of
               (Inl e, g2) \<Rightarrow> (Inl e, g2)
             | (Inr _, g2) \<Rightarrow>
                 (Inr (), g2\<lparr>rg_specs := map (\<lambda>w. w\<lparr>ws_generation := ws_generation w + 1\<rparr>) (rg_specs g2),
                             rg_records := [], rg_identities := [], rg_epoch := epoch, rg_used := no_cost, rg_published := []\<rparr>))))"

end
