(* ===== verification/AdmissionSafety.thy ===== *)
theory AdmissionSafety
  imports Admission
begin

text \<open>
  What admission promises: the budget check is enough for every write that follows it, so a request is either
  refused with the registry unchanged or admitted completely. The host allocators of a cohort are stacks, because
  extents go back only when the whole cohort retires.
\<close>

section \<open>The host allocators of a cohort\<close>

text \<open>\<open>n\<close> requests have taken the first \<open>used\<close> blocks.\<close>

definition stacked :: "host_allocator \<Rightarrow> int \<Rightarrow> int \<Rightarrow> bool" where
  "stacked h n used \<longleftrightarrow> host_inv h \<and> 0 \<le> used \<and> used \<le> total_blocks h
     \<and> hl_free h = (if used = total_blocks h then [] else [(used, total_blocks h - used)])
     \<and> (\<forall>s. hl_allocations h s \<noteq> None \<longleftrightarrow> 0 \<le> s \<and> s < n)"

definition host_sized :: "host_arena \<Rightarrow> bool" where
  "host_sized a \<longleftrightarrow> is_valid ARENA_OFFSET (ad_total_blocks (ha_descriptor a))
     \<and> is_valid ARENA_GENERATION (ad_descriptor_generation (ha_descriptor a))"

lemma stacked_init: "arena_ok a \<Longrightarrow> stacked (init_host_allocator a) 0 0"
  using arena_ok_facts(2) [of a] init_host_inv [of a] by (simp add: stacked_def total_blocks_def init_host_allocator_def)

lemma stacked_idle:
  assumes "host_inv h" "hl_allocations h = Map.empty"
  shows "stacked h 0 0"
proof -
  have "0 < total_blocks h" using assms(1) arena_ok_facts(2) by (simp add: host_inv_def total_blocks_def)
  then show ?thesis using idle_free [OF assms] assms by (simp add: stacked_def total_blocks_def)
qed

lemma stacked_allocate:
  assumes st: "stacked h n used" and a: "host_sized (hl_arena h)"
    and cap: "0 < cap" "is_valid ARENA_LENGTH cap" "used + cap \<le> total_blocks h"
    and id: "is_valid REQUEST_SLOT n" "is_valid REQUEST_EPOCH epoch"
  obtains x h' where "host_allocate h n epoch cap = Inr (x, h')" "stacked h' (n + 1) (used + cap)" "hl_arena h' = hl_arena h"
    "hx_host_slot x = n" "extent_offset x = used" "is_valid U64 (hx_host_slot_generation x)"
    "is_valid U64 (hx_writer_lease_generation x)"
proof -
  let ?free = "if cap < total_blocks h - used then [(used + cap, total_blocks h - used - cap)] else []"
  let ?g = "slot_generation h n"
  have inv: "host_inv h" and none: "hl_allocations h n = None" and used: "0 \<le> used"
    and dom: "\<forall>s. hl_allocations h s \<noteq> None \<longleftrightarrow> 0 \<le> s \<and> s < n"
    using st by (auto simp: stacked_def)
  have fit: "take_fit cap (hl_free h) = Some (used, ?free)" using st cap by (simp add: stacked_def)
  have g: "is_valid U64 ?g" by (rule slot_generation_valid [OF inv])
  have "returns (make_extent (hl_arena h) n epoch n ?g ?g used cap)"
    by (rule make_extent_returns) (use a cap id used g in \<open>auto simp: host_sized_def total_blocks_def simp del: valid_U64 valid_U32\<close>)
  then obtain x where x: "make_extent (hl_arena h) n epoch n ?g ?g used cap = Inr x" by auto
  let ?h = "h\<lparr>hl_free := ?free, hl_allocations := (hl_allocations h)(n \<mapsto> \<lparr>al_extent = x, al_readers = 0, al_writing = False\<rparr>)\<rparr>"
  have al: "host_allocate h n epoch cap = Inr (x, ?h)" using none cap(1) fit x by (simp add: host_allocate_def Let_def)
  have "0 \<le> n" using id(1) by simp
  then have "hl_allocations ?h s \<noteq> None \<longleftrightarrow> 0 \<le> s \<and> s < n + 1" for s using dom by auto
  then have "stacked ?h (n + 1) (used + cap)"
    using host_allocate_inv [OF inv al] cap used by (simp add: stacked_def total_blocks_def)
  moreover have "hx_host_slot x = n" "hx_writer_lease_generation x = ?g"
    using x by (auto simp: make_extent_def bind_r_eq_Inr Let_def)
  moreover have "extent_offset x = used" "hx_host_slot_generation x = ?g" using make_extent_Inr [OF x] by simp_all
  ultimately show ?thesis using that [OF al] g by simp
qed

section \<open>The invariant of the registry\<close>

definition banked :: "registry \<Rightarrow> bool" where
  "banked g \<longleftrightarrow> (\<exists>w \<in> set (rg_specs g). ws_draft_banked w)"

text \<open>What the session is built with.\<close>

definition session_shape :: "registry \<Rightarrow> bool" where
  "session_shape g \<longleftrightarrow> rg_specs g \<noteq> [] \<and> 0 < ws_block_size (hd (rg_specs g)) \<and> is_valid U64 (ws_block_size (hd (rg_specs g)))
     \<and> (\<forall>w \<in> set (rg_specs g). ws_draft_banked w \<longrightarrow> ws_role w = DRAFT)
     \<and> rg_proposal_capacities g \<noteq> [] \<and> rg_snapshot_capacities g \<noteq> [] \<and> is_valid U64 (rg_draft_layout_id g)
     \<and> rg_slots g \<le> max_value U32
     \<and> host_sized (hl_arena (rg_allocator g)) \<and> host_sized (hl_arena (rg_draft_allocator g))"

definition record_count :: "registry \<Rightarrow> int" where
  "record_count g = int (length (rg_records g))"

definition registry_inv :: "registry \<Rightarrow> bool" where
  "registry_inv g \<longleftrightarrow> session_shape g \<and> shared_ok (rg_tokens g) \<and> shared_ok (rg_configs g)
     \<and> shared_head (rg_tokens g) = ac_engine_tokens (rg_used g) \<and> shared_head (rg_configs g) = ac_config_bytes (rg_used g)
     \<and> stacked (rg_allocator g) (record_count g) (ac_host_blocks (rg_used g))
     \<and> stacked (rg_draft_allocator g) (if banked g then record_count g else 0) (ac_draft_host_blocks (rg_used g))
     \<and> map fst (rg_records g) = map int [0..<length (rg_records g)]
     \<and> (\<forall>i \<in> set (rg_identities g). 0 \<le> snd i \<and> snd i < record_count g)
     \<and> record_count g \<le> rg_slots g \<and> is_valid U64 (rg_epoch g)"


section \<open>The checks\<close>

lemma checks_Inl: "checks cs = Inl e \<Longrightarrow> Inl e \<in> set cs"
  by (induction cs) (auto simp: checks.simps(2) bind_r_def split: sum.splits)

lemma min_r_nonempty: "xs \<noteq> [] \<Longrightarrow> min_r xs = Inr (Min (set xs))"
  by (simp add: min_r_def)

text \<open>What the budget guarantees about the arenas and the allocators.\<close>

definition within_budget :: "registry \<Rightarrow> admission_cost \<Rightarrow> bool" where
  "within_budget g cost \<longleftrightarrow> ac_engine_tokens (rg_used g) + ac_engine_tokens cost \<le> shared_capacity (rg_tokens g)
     \<and> ac_config_bytes (rg_used g) + ac_config_bytes cost \<le> shared_capacity (rg_configs g)
     \<and> ac_host_blocks (rg_used g) + ac_host_blocks cost \<le> total_blocks (rg_allocator g)
     \<and> ac_draft_host_blocks (rg_used g) + ac_draft_host_blocks cost \<le> total_blocks (rg_draft_allocator g)"

lemma check_budget_Inr:
  assumes "check_budget g n c cap = Inr cost"
  shows "cost = request_cost (rg_specs g) n c cap" "within_budget g cost"
  using assms by (auto simp: check_budget_def budget_limits_def Let_def bind_r_eq_Inr within_budget_def split: option.splits)

lemma check_budget_Inl:
  assumes "check_budget g n c cap = Inl e" "rg_proposal_capacities g \<noteq> []" "rg_snapshot_capacities g \<noteq> []"
  shows "is_refusal e"
proof -
  obtain limits where "budget_limits g (request_cost (rg_specs g) n c cap) = Inr limits"
    using assms(2,3) by (simp add: budget_limits_def min_r_nonempty Let_def)
  then have "checks (map (\<lambda>(used, need, capacity). require (used + need \<le> capacity)
      (AdmissionCapacityError ''cohort budget exhausted; drain completed work then retry'')) limits) = Inl e"
    using assms(1) by (auto simp: check_budget_def Let_def bind_r_def split: sum.splits)
  from checks_Inl [OF this] show ?thesis by (auto simp: require_def is_refusal_def split: if_splits)
qed

lemma admission_checks_Inl:
  assumes "admission_checks g request_id prompt c = Inl e" "session_shape g"
  shows "is_refusal e"
proof (cases "check_budget g (int (length prompt)) c (capacity_for g prompt c)")
  case (Inl e')
  then have "is_refusal e'" using check_budget_Inl assms(2) by (simp add: session_shape_def)
  then show ?thesis using assms(1) Inl
    by (auto simp: admission_checks_def Let_def checks.simps(2) require_def is_refusal_def split: if_splits)
next
  case (Inr cost)
  then show ?thesis using assms(1)
    by (auto simp: admission_checks_def Let_def checks.simps(2) require_def is_refusal_def split: if_splits)
qed

lemma admission_checks_Inr:
  assumes "admission_checks g request_id prompt c = Inr cost"
  shows "map_of (rg_identities g) request_id = None" "record_count g < rg_slots g" "prompt \<noteq> []" "tokens_valid prompt"
    "cost = request_cost (rg_specs g) (int (length prompt)) c (capacity_for g prompt c)" "within_budget g cost"
  using assms check_budget_Inr [of g "int (length prompt)" c "capacity_for g prompt c" cost]
  by (auto simp: admission_checks_def Let_def bind_r_eq_Inr record_count_def tokens_valid_def)

lemma capacity_bounds:
  assumes "session_shape g" "prompt \<noteq> []" "0 < gc_max_new_tokens c"
  shows "0 < capacity_for g prompt c" "capacity_for g prompt c \<le> int (length prompt) + gc_max_new_tokens c"
proof -
  let ?b = "ws_block_size (hd (rg_specs g))" and ?n = "int (length prompt) + gc_max_new_tokens c"
  have b: "0 < ?b" using assms(1) by (simp add: session_shape_def)
  have n: "0 < ?n" using assms(3) by simp
  have "?b \<le> ?n + ?b - 1" using n by simp
  then have "1 \<le> (?n + ?b - 1) div ?b" using b by (metis div_self less_irrefl zdiv_mono1)
  then show "0 < capacity_for g prompt c" by (simp add: capacity_for_def Let_def)
  have "?n + ?b - 1 \<le> ?n * ?b"
  proof -
    have "0 \<le> (?n - 1) * (?b - 1)" using n b by (intro mult_nonneg_nonneg) simp_all
    then show ?thesis by (simp add: algebra_simps)
  qed
  then have "(?n + ?b - 1) div ?b \<le> ?n" using b by (metis nonzero_mult_div_cancel_right less_irrefl zdiv_mono1)
  then show "capacity_for g prompt c \<le> ?n" by (simp add: capacity_for_def Let_def)
qed

section \<open>Admission\<close>

lemma request_cost_sel:
  "ac_engine_tokens (request_cost specs n c cap) = 4 * (n + gc_max_new_tokens c)"
  "ac_config_bytes (request_cost specs n c cap) = 16 + 4 * int (length (gc_stop_token_ids c))"
  "ac_host_blocks (request_cost specs n c cap) = cap"
  "ac_draft_host_blocks (request_cost specs n c cap) = (if \<exists>w \<in> set specs. ws_draft_banked w then cap else 0)"
  by (simp_all add: request_cost_def Let_def)

text \<open>Two token writes that fit together both succeed; the first stays readable.\<close>

lemma token_writes_fit:
  assumes ok: "shared_ok s" and ts: "tokens_valid ts" and m: "0 \<le> m"
    and fits: "shared_head s + 4 * (int (length ts) + m) \<le> shared_capacity s"
  obtains h s1 h' s2 where "shared_write_tokens s ts = Inr (h, s1)" "reserve_output s1 m = Inr (h', s2)" "shared_ok s2"
    "shared_head s2 = shared_head s + 4 * (int (length ts) + m)" "shared_read_tokens s2 h = Inr ts" "h_length h' = 4 * m"
    "handle_live (sa_arena s2) h'"
    "\<forall>g. handle_live (sa_arena s) g \<longrightarrow> handle_live (sa_arena s2) g \<and> shared_read_tokens s2 g = shared_read_tokens s g"
proof -
  have "shared_head s + 4 * int (length ts) \<le> shared_capacity s" using fits m by (simp add: algebra_simps)
  from shared_write_tokens_fits [OF ok ts this] obtain h a1
    where w: "write_tokens (sa_arena s) ts = Inr (h, a1)" "shared_write_tokens s ts = Inr (h, commit s a1)" by blast
  note e = shared_write_tokens_effect [OF ok w(1)] and st = shared_store.wr_live [OF ok ts w(2)] shared_store.wr_reads [OF ok ts w(2)]
    shared_store.wr_keeps [OF ok ts w(2)]
  let ?z = "replicate (nat m) (0 :: int)"
  have z: "tokens_valid ?z" by (simp add: tokens_valid_def)
  have "shared_head (commit s a1) + 4 * int (length ?z) \<le> shared_capacity (commit s a1)"
    using e(2,3) fits m by simp
  from shared_write_tokens_fits [OF e(1) z this] obtain h' a2
    where w': "write_tokens (sa_arena (commit s a1)) ?z = Inr (h', a2)"
      "shared_write_tokens (commit s a1) ?z = Inr (h', commit (commit s a1) a2)" by blast
  note e' = shared_write_tokens_effect [OF e(1) w'(1)] and st' = shared_store.wr_live [OF e(1) z w'(2)]
    shared_store.wr_keeps [OF e(1) z w'(2)]
  have r: "reserve_output (commit s a1) m = Inr (h', commit (commit s a1) a2)"
    using w'(2) e(1) by (simp add: reserve_output_def before_write_def shared_ok_def)
  show ?thesis
    by (rule that [OF w(2) r e'(1)]) (use e e' st st' m in \<open>simp_all\<close>)
qed

text \<open>The four payload writes succeed within the budget.\<close>

lemma write_payloads_fits:
  assumes inv: "registry_inv g" and c: "check_config c = Inr ()" and p: "prompt \<noteq> []" "tokens_valid prompt"
    and room: "record_count g < rg_slots g"
    and cost: "cost = request_cost (rg_specs g) (int (length prompt)) c (capacity_for g prompt c)" and fits: "within_budget g cost"
  obtains ph ch out x t cs h where
    "write_payloads g (record_count g) prompt c (capacity_for g prompt c)
       = (Inr (ph, ch, out, x), g\<lparr>rg_tokens := t, rg_configs := cs, rg_allocator := h\<rparr>)"
    "shared_ok t" "shared_head t = shared_head (rg_tokens g) + ac_engine_tokens cost" "shared_read_tokens t ph = Inr prompt"
    "h_length out = 4 * gc_max_new_tokens c" "handle_live (sa_arena t) out"
    "\<forall>i. handle_live (sa_arena (rg_tokens g)) i \<longrightarrow> shared_read_tokens t i = shared_read_tokens (rg_tokens g) i"
    "shared_ok cs" "shared_head cs = shared_head (rg_configs g) + ac_config_bytes cost"
    "stacked h (record_count g + 1) (ac_host_blocks (rg_used g) + ac_host_blocks cost)"
    "hl_arena h = hl_arena (rg_allocator g)"
proof -
  let ?m = "gc_max_new_tokens c" and ?cap = "capacity_for g prompt c"
  have m: "0 < ?m" "0 \<le> ?m" using c by (simp_all add: check_config_def)
  have sh: "session_shape g" and ok: "shared_ok (rg_tokens g)" "shared_ok (rg_configs g)" using inv by (simp_all add: registry_inv_def)
  note heads = inv [unfolded registry_inv_def] and b = fits [unfolded within_budget_def cost request_cost_sel]
  have tf: "shared_head (rg_tokens g) + 4 * (int (length prompt) + ?m) \<le> shared_capacity (rg_tokens g)" using heads b by simp
  obtain ph t1 out t2 where t: "shared_write_tokens (rg_tokens g) prompt = Inr (ph, t1)" "reserve_output t1 ?m = Inr (out, t2)"
    "shared_ok t2" "shared_head t2 = shared_head (rg_tokens g) + 4 * (int (length prompt) + ?m)" "shared_read_tokens t2 ph = Inr prompt"
    "h_length out = 4 * ?m" "handle_live (sa_arena t2) out"
    "\<forall>i. handle_live (sa_arena (rg_tokens g)) i \<longrightarrow> handle_live (sa_arena t2) i \<and> shared_read_tokens t2 i = shared_read_tokens (rg_tokens g) i"
    using token_writes_fit [OF ok(1) p(2) m(2) tf] by metis
  have "shared_head (rg_configs g) + 16 + 4 * int (length (gc_stop_token_ids c)) \<le> shared_capacity (rg_configs g)"
    using heads b by simp
  from shared_write_config_fits [OF ok(2) c this] obtain ch cs where cs: "shared_write_config (rg_configs g) c = Inr (ch, cs)"
    "shared_ok cs" "shared_head cs = shared_head (rg_configs g) + 16 + 4 * int (length (gc_stop_token_ids c))" by blast
  note cap = capacity_bounds [OF sh p(1) m(1)]
  have len: "is_valid ARENA_LENGTH ?cap" using cap tf shared_capacity_bound [OF ok(1)] by simp
  have slot: "is_valid REQUEST_SLOT (record_count g)"
    using room sh by (simp add: session_shape_def record_count_def domain_defs)
  have ep: "is_valid REQUEST_EPOCH (rg_epoch g)" and st: "stacked (rg_allocator g) (record_count g) (ac_host_blocks (rg_used g))"
    using heads by blast+
  have hs: "host_sized (hl_arena (rg_allocator g))" using sh by (simp add: session_shape_def)
  have hf: "ac_host_blocks (rg_used g) + ?cap \<le> total_blocks (rg_allocator g)" using b by blast
  from stacked_allocate [OF st hs cap(1) len hf slot ep] obtain x h
    where h: "host_allocate (rg_allocator g) (record_count g) (rg_epoch g) ?cap = Inr (x, h)"
      "stacked h (record_count g + 1) (ac_host_blocks (rg_used g) + ?cap)" "hl_arena h = hl_arena (rg_allocator g)" by blast
  have "write_payloads g (record_count g) prompt c ?cap
      = (Inr (ph, ch, out, x), g\<lparr>rg_tokens := t2, rg_configs := cs, rg_allocator := h\<rparr>)"
    using t(1,2) cs(1) h(1) by (simp add: write_payloads_def Let_def)
  then show ?thesis
    by (rule that) (use t cs h cost in \<open>simp_all add: request_cost_sel\<close>)
qed

text \<open>The mirror allocation succeeds too.\<close>

lemma allocate_draft_fits:
  assumes sh: "session_shape g" and st: "stacked (rg_draft_allocator g) (if banked g then n else 0) used"
    and cap: "0 < cap" "is_valid ARENA_LENGTH cap" "used + (if banked g then cap else 0) \<le> total_blocks (rg_draft_allocator g)"
    and id: "is_valid REQUEST_SLOT n" "is_valid REQUEST_EPOCH (rg_epoch g)"
  obtains h rows where "allocate_draft g n cap = (Inr (), g\<lparr>rg_draft_allocator := h, rg_published := rows\<rparr>)"
    "stacked h (if banked g then n + 1 else 0) (used + (if banked g then cap else 0))"
    "hl_arena h = hl_arena (rg_draft_allocator g)"
proof (cases "banked g")
  case False
  then have "allocate_draft g n cap = (Inr (), g)" by (auto simp: allocate_draft_def banked_def drafts_of_def)
  then show ?thesis using that [of "rg_published g" "rg_draft_allocator g"] st False by simp
next
  case True
  then have some: "\<exists>w \<in> set (drafts_of (rg_specs g)). ws_draft_banked w" using sh by (auto simp: banked_def drafts_of_def session_shape_def)
  have hs: "host_sized (hl_arena (rg_draft_allocator g))" using sh by (simp add: session_shape_def)
  have st': "stacked (rg_draft_allocator g) n used" "used + cap \<le> total_blocks (rg_draft_allocator g)" using st cap(3) True by simp_all
  from stacked_allocate [OF st'(1) hs cap(1,2) st'(2) id] obtain x h
    where h: "host_allocate (rg_draft_allocator g) n (rg_epoch g) cap = Inr (x, h)" "stacked h (n + 1) (used + cap)"
      "hl_arena h = hl_arena (rg_draft_allocator g)" "hx_host_slot x = n" "extent_offset x = used"
      "is_valid U64 (hx_host_slot_generation x)" "is_valid U64 (hx_writer_lease_generation x)" by blast
  let ?x = "\<lparr>dha_arena_id = 1, dha_arena_generation = ad_descriptor_generation (ha_descriptor (hl_arena h)),
    dha_layout_id = rg_draft_layout_id g, dha_host_slot_generation = hx_host_slot_generation x,
    dha_writer_lease_generation = hx_writer_lease_generation x, dha_offset_blocks = extent_offset x,
    dha_host_slot = hx_host_slot x, dha_capacity_blocks = cap, dha_block_size = ws_block_size (hd (rg_specs g))\<rparr>"
  have "0 \<le> used" "used \<le> total_blocks (rg_draft_allocator g)" using st'(1) by (simp_all add: stacked_def)
  then have off: "is_valid U64 used" using hs by (simp add: host_sized_def total_blocks_def)
  have "is_valid ARENA_GENERATION (ad_descriptor_generation (ha_descriptor (hl_arena h)))" using hs h(3) by (simp add: host_sized_def)
  then have "check_draft_host_allocation ?x = Inr ()"
    using sh cap id(1) h(4-7) off by (simp add: check_draft_host_allocation_def session_shape_def del: valid_U64 valid_U32) simp
  then have "allocate_draft g n cap = (Inr (), g\<lparr>rg_draft_allocator := h,
      rg_published := rg_published g @ [PublishDraftHostKV n (rg_epoch g) ?x]\<rparr>)"
    using some h(1) by (simp add: allocate_draft_def Let_def)
  then show ?thesis using that h(2,3) True by simp
qed

text \<open>What an accepted request is recorded with.\<close>

definition admitted_as :: "registry \<Rightarrow> registry \<Rightarrow> string \<Rightarrow> int list \<Rightarrow> draft_generation_config \<Rightarrow> request_record \<Rightarrow> bool" where
  "admitted_as g g' request_id prompt c r \<longleftrightarrow>
     rg_records g' = rg_records g @ [(record_count g, r)] \<and> rg_identities g' = rg_identities g @ [(request_id, record_count g)]
     \<and> rr_request_id r = request_id \<and> rr_lifecycle r = ACTIVE \<and> rr_config r = c
     \<and> shared_read_tokens (rg_tokens g') (ri_prompt (rr_input r)) = Inr prompt
     \<and> handle_live (sa_arena (rg_tokens g')) (rr_reservation r) \<and> h_length (rr_reservation r) = 4 * gc_max_new_tokens c
     \<and> (\<forall>h. handle_live (sa_arena (rg_tokens g)) h \<longrightarrow> shared_read_tokens (rg_tokens g') h = shared_read_tokens (rg_tokens g) h)"

lemma admit_complete:
  assumes inv: "registry_inv g" and c: "check_config c = Inr ()" and ch: "admission_checks g request_id prompt c = Inr cost"
  obtains g' r where "admit g request_id prompt c now = (Inr (record_count g), g')" "registry_inv g'"
    "admitted_as g g' request_id prompt c r"
proof -
  note k = admission_checks_Inr [OF ch]
  let ?n = "record_count g" and ?cap = "capacity_for g prompt c"
  obtain ph cfg out x t cs h where w: "write_payloads g ?n prompt c ?cap
       = (Inr (ph, cfg, out, x), g\<lparr>rg_tokens := t, rg_configs := cs, rg_allocator := h\<rparr>)"
    and e: "shared_ok t" "shared_head t = shared_head (rg_tokens g) + ac_engine_tokens cost" "shared_read_tokens t ph = Inr prompt"
    "h_length out = 4 * gc_max_new_tokens c" "handle_live (sa_arena t) out"
    "\<forall>i. handle_live (sa_arena (rg_tokens g)) i \<longrightarrow> shared_read_tokens t i = shared_read_tokens (rg_tokens g) i"
    "shared_ok cs" "shared_head cs = shared_head (rg_configs g) + ac_config_bytes cost"
    "stacked h (?n + 1) (ac_host_blocks (rg_used g) + ac_host_blocks cost)" "hl_arena h = hl_arena (rg_allocator g)"
    by (rule write_payloads_fits [OF inv c k(3,4,2,5,6)])
  let ?no = "\<lparr>h_offset = h_offset out, h_length = 0, h_generation = h_generation out\<rparr>"
  have mk: "mk_handle (h_offset out) 0 (h_generation out) = Inr ?no"
    using e(5) by (simp add: mk_handle_Inr handle_live_def handle_ok_iff)
  let ?r = "\<lparr>rr_request_id = request_id,
    rr_input = \<lparr>ri_slot = ?n, ri_epoch = rg_epoch g, ri_arrival_seq = rg_arrival g, ri_prompt_count = int (length prompt),
      ri_max_new_tokens = gc_max_new_tokens c, ri_proposal_depth = gc_proposal_depth c, ri_prompt = ph, ri_config = cfg,
      ri_output = ?no, ri_output_count = 0, ri_host = hx_arena x, ri_capacity_blocks = ?cap, ri_admitted_ns = now, ri_ready_ns = 0\<rparr>,
    rr_config = c, rr_reservation = out, rr_lifecycle = ACTIVE, rr_current_round = -1, rr_output_chunks = []\<rparr>"
  let ?g4 = "g\<lparr>rg_tokens := t, rg_configs := cs, rg_allocator := h, rg_records := rg_records g @ [(?n, ?r)],
    rg_identities := rg_identities g @ [(request_id, ?n)], rg_publish_seq := rg_publish_seq g + 1,
    rg_published := rg_published g @ [PublishActive (rg_publish_seq g) ?r, PublishHostKV ?n x]\<rparr>"
  have sh: "session_shape g" and ep: "is_valid U64 (rg_epoch g)" using inv by (simp_all add: registry_inv_def)
  have sh4: "session_shape ?g4" using sh e(10) by (simp add: session_shape_def)
  have b4: "banked ?g4 = banked g" by (simp add: banked_def)
  have m: "0 < gc_max_new_tokens c" using c by (simp add: check_config_def)
  note cap = capacity_bounds [OF sh k(3) m]
  have "4 * (int (length prompt) + gc_max_new_tokens c) \<le> shared_capacity (rg_tokens g)"
    using inv k(6) by (simp add: registry_inv_def within_budget_def k(5) request_cost_sel)
  then have len: "is_valid ARENA_LENGTH ?cap" using cap inv shared_capacity_bound [of "rg_tokens g"] by (simp add: registry_inv_def)
  have slot: "is_valid REQUEST_SLOT ?n" using k(2) sh by (simp add: session_shape_def record_count_def domain_defs)
  have cd: "ac_draft_host_blocks cost = (if banked g then ?cap else 0)" by (simp add: k(5) request_cost_sel banked_def)
  have fd: "ac_draft_host_blocks (rg_used g) + (if banked ?g4 then ?cap else 0) \<le> total_blocks (rg_draft_allocator ?g4)"
    using k(6) by (simp add: within_budget_def cd b4 cong: if_cong)
  have sd: "stacked (rg_draft_allocator ?g4) (if banked ?g4 then ?n else 0) (ac_draft_host_blocks (rg_used g))"
    using inv by (simp add: registry_inv_def b4)
  have ep4: "is_valid REQUEST_EPOCH (rg_epoch ?g4)" using ep by simp
  obtain d rows where d: "allocate_draft ?g4 ?n ?cap = (Inr (), ?g4\<lparr>rg_draft_allocator := d, rg_published := rows\<rparr>)"
    "stacked d (if banked g then ?n + 1 else 0) (ac_draft_host_blocks (rg_used g) + ac_draft_host_blocks cost)"
    "hl_arena d = hl_arena (rg_draft_allocator g)"
    by (rule allocate_draft_fits [OF sh4 sd cap(1) len fd slot ep4]) (simp add: b4 cd)
  let ?g' = "?g4\<lparr>rg_draft_allocator := d, rg_published := rows, rg_arrival := rg_arrival g + 1, rg_used := add_cost (rg_used g) cost\<rparr>"
  have ad: "admit g request_id prompt c now = (Inr ?n, ?g')"
    using ch w mk d(1) by (simp add: admit_def Let_def record_count_def publish_record_def)
  have "admitted_as g ?g' request_id prompt c ?r" using e by (simp add: admitted_as_def)
  moreover have "registry_inv ?g'"
  proof -
    have n: "int (length (rg_records g)) = ?n" "record_count ?g' = ?n + 1" by (simp_all add: record_count_def)
    have b: "banked ?g' = banked g" by (simp add: banked_def)
    have "session_shape ?g'" using sh4 d(3) by (simp add: session_shape_def)
    moreover have "map fst (rg_records ?g') = map int [0..<length (rg_records ?g')]"
      using inv by (simp add: registry_inv_def record_count_def)
    moreover have "\<forall>i \<in> set (rg_identities ?g'). 0 \<le> snd i \<and> snd i < record_count ?g'"
      using inv by (fastforce simp: registry_inv_def record_count_def)
    moreover have "record_count ?g' \<le> rg_slots ?g'" using k(2) n by simp
    ultimately show ?thesis using inv e d(2) n b ep unfolding registry_inv_def by (simp add: add_cost_def cong: if_cong)
  qed
  ultimately show ?thesis using that ad by blast
qed

section \<open>Cancelling and retiring\<close>

lemma cancel_inv:
  assumes inv: "registry_inv g" and ca: "cancel g request_id = Inr g'"
  shows "registry_inv g'"
proof -
  obtain slot r where r: "map_of (rg_identities g) request_id = Some slot" "map_of (rg_records g) slot = Some r"
    using ca by (auto simp: cancel_def split: option.splits)
  let ?rs = "AList.update slot (r\<lparr>rr_lifecycle := CANCELLED\<rparr>) (rg_records g)"
  have "slot \<in> set (map fst (rg_records g))" using map_of_SomeD [OF r(2)] by force
  then have keys: "map fst ?rs = map fst (rg_records g)" using update_keys [of slot _ "rg_records g"] by simp
  then have len: "length ?rs = length (rg_records g)" by (metis length_map)
  show ?thesis
  proof (cases "rr_lifecycle r = ACTIVE")
    case True
    then obtain q p where g': "g' = g\<lparr>rg_records := ?rs, rg_publish_seq := q, rg_published := p\<rparr>"
      using ca r by (auto simp: cancel_def)
    have "record_count g' = record_count g" "banked g' = banked g" "session_shape g' = session_shape g"
      "map fst (rg_records g') = map fst (rg_records g)" "length (rg_records g') = length (rg_records g)"
      by (simp_all add: g' record_count_def banked_def session_shape_def keys len)
    then show ?thesis using inv unfolding registry_inv_def by (simp only:) (simp add: g')
  qed (use ca r inv in \<open>simp add: cancel_def\<close>)
qed

text \<open>A completed loop over the records has taken every one of them out of both allocators.\<close>

definition without :: "host_allocator \<Rightarrow> host_allocator \<Rightarrow> int set \<Rightarrow> bool" where
  "without h h' S \<longleftrightarrow> host_inv h' \<and> hl_arena h' = hl_arena h
     \<and> (\<forall>s. hl_allocations h' s = (if s \<in> S then None else hl_allocations h s))"

lemma without_recycle:
  assumes "host_inv h" "host_recycle h slot epoch q = Inr h'"
  shows "without h h' {slot}"
proof -
  obtain al where "h' = h\<lparr>hl_generations := (hl_generations h)(slot \<mapsto> advance_id U64 1 (hx_host_slot_generation (al_extent al))),
            hl_allocations := (hl_allocations h)(slot := None), hl_free := merge_runs (hl_free h @ [al_run al])\<rparr>"
    using assms(2) by (rule host_recycle_Inr)
  then show ?thesis using host_recycle_inv [OF assms] by (simp add: without_def)
qed

lemma without_refl: "host_inv h \<Longrightarrow> without h h {}"
  by (simp add: without_def)

lemma without_trans: "without h h1 S \<Longrightarrow> without h1 h2 T \<Longrightarrow> without h h2 (S \<union> T)"
  by (auto simp: without_def)

lemma recycle_records_Inr:
  assumes "recycle_records pinned g rs = (Inr (), g')" "host_inv (rg_allocator g)" "host_inv (rg_draft_allocator g)"
  shows "g' = g\<lparr>rg_allocator := rg_allocator g', rg_draft_allocator := rg_draft_allocator g'\<rparr>
    \<and> without (rg_allocator g) (rg_allocator g') (set (map fst rs))
    \<and> without (rg_draft_allocator g) (rg_draft_allocator g') (if banked g then set (map fst rs) else {})"
  using assms
proof (induction pinned g rs rule: recycle_records.induct)
  case (1 pinned g)
  then show ?case by (simp add: without_refl)
next
  case (2 pinned g slot r rest)
  from 2(3) obtain h where p: "\<not> pinned slot" and h: "host_recycle (rg_allocator g) slot (ri_epoch (rr_input r)) True = Inr h"
    by (auto split: if_splits sum.splits)
  let ?g = "g\<lparr>rg_allocator := h\<rparr>"
  have w: "without (rg_allocator g) h {slot}" using without_recycle [OF 2(4) h] .
  have inv: "host_inv h" using w by (simp add: without_def)
  show ?case
  proof (cases "banked g")
    case False
    then have run: "recycle_records pinned ?g rest = (Inr (), g')" using 2(3) p h by (auto simp: banked_def Let_def split: if_splits sum.splits)
    have IH: "g' = ?g\<lparr>rg_allocator := rg_allocator g', rg_draft_allocator := rg_draft_allocator g'\<rparr>"
      "without h (rg_allocator g') (set (map fst rest))" "without (rg_draft_allocator g) (rg_draft_allocator g') {}"
      using 2(1) [OF p h refl _ run] inv 2(5) False by (auto simp: banked_def)
    have "without (rg_allocator g) (rg_allocator g') ({slot} \<union> set (map fst rest))" using without_trans [OF w IH(2)] .
    then show ?thesis using IH False by simp
  next
    case True
    then obtain d where d: "host_recycle (rg_draft_allocator g) slot (ri_epoch (rr_input r)) True = Inr d"
      and run: "recycle_records pinned (?g\<lparr>rg_draft_allocator := d\<rparr>) rest = (Inr (), g')"
      using 2(3) p h by (auto simp: banked_def Let_def split: if_splits sum.splits)
    have v: "without (rg_draft_allocator g) d {slot}" using without_recycle [OF 2(5) d] .
    have IH: "g' = ?g\<lparr>rg_draft_allocator := d, rg_allocator := rg_allocator g', rg_draft_allocator := rg_draft_allocator g'\<rparr>"
      "without h (rg_allocator g') (set (map fst rest))" "without d (rg_draft_allocator g') (set (map fst rest))"
      using 2(2) [OF p h refl _ _ run] inv v d True by (auto simp: banked_def without_def)
    have "without (rg_allocator g) (rg_allocator g') ({slot} \<union> set (map fst rest))"
      "without (rg_draft_allocator g) (rg_draft_allocator g') ({slot} \<union> set (map fst rest))"
      using without_trans [OF w IH(2)] without_trans [OF v IH(3)] .
    then show ?thesis using IH True by simp
  qed
qed

lemma recycle_shared_ok:
  "recycle_shared s k = Inr s' \<Longrightarrow> shared_ok s \<Longrightarrow> shared_ok s' \<and> shared_head s' = 0"
  by (auto simp: recycle_shared_def Let_def bind_r_eq_Inr shared_ok_def arena_inv_def split: if_splits)

lemma stacked_without:
  assumes "stacked h n used" "without h h' S" "{s. 0 \<le> s \<and> s < n} \<subseteq> S"
  shows "stacked h' 0 0"
proof (rule stacked_idle)
  show "host_inv h'" using assms(2) by (simp add: without_def)
  have "hl_allocations h' s = None" for s using assms by (auto simp: without_def stacked_def)
  then show "hl_allocations h' = Map.empty" by (simp add: fun_eq_iff)
qed

lemma recycle_cohort_inv:
  assumes inv: "registry_inv g" and rc: "recycle_cohort pinned g = (Inr (), g')"
  shows "registry_inv g'"
proof -
  let ?gen = "\<lambda>w. w\<lparr>ws_generation := ws_generation w + 1\<rparr>"
  obtain ep g1 g2 where ep: "next_id REQUEST_EPOCH (rg_epoch g) = Inr ep" and rr: "recycle_records pinned g (rg_records g) = (Inr (), g1)"
    and rp: "recycle_payloads g1 = (Inr (), g2)"
    and g': "g' = g2\<lparr>rg_specs := map ?gen (rg_specs g2), rg_records := [], rg_identities := [], rg_epoch := ep,
                     rg_used := no_cost, rg_published := []\<rparr>"
    using rc by (auto simp: recycle_cohort_def split: sum.splits prod.splits)
  have st: "stacked (rg_allocator g) (record_count g) (ac_host_blocks (rg_used g))"
    "stacked (rg_draft_allocator g) (if banked g then record_count g else 0) (ac_draft_host_blocks (rg_used g))"
    and keys: "map fst (rg_records g) = map int [0..<length (rg_records g)]"
    and sh: "session_shape g" and tk: "shared_ok (rg_tokens g)" "shared_ok (rg_configs g)"
    using inv unfolding registry_inv_def by blast+
  have hi: "host_inv (rg_allocator g)" "host_inv (rg_draft_allocator g)" using st by (simp_all add: stacked_def)
  note w = recycle_records_Inr [OF rr hi]
  have all: "{s. 0 \<le> s \<and> s < record_count g} \<subseteq> set (map fst (rg_records g))"
  proof
    fix s :: int
    assume "s \<in> {s. 0 \<le> s \<and> s < record_count g}"
    then have "s = int (nat s)" "nat s \<in> set [0..<length (rg_records g)]" by (auto simp: record_count_def)
    then show "s \<in> set (map fst (rg_records g))" unfolding keys by (metis image_eqI list.set_map)
  qed
  have h1: "stacked (rg_allocator g1) 0 0" using stacked_without [OF st(1)] w all by blast
  have d1: "stacked (rg_draft_allocator g1) 0 0"
    using stacked_without [OF st(2), of "rg_draft_allocator g1" "if banked g then set (map fst (rg_records g)) else {}"] w all by auto
  have ar: "hl_arena (rg_allocator g1) = hl_arena (rg_allocator g)" "hl_arena (rg_draft_allocator g1) = hl_arena (rg_draft_allocator g)"
    using w by (simp_all add: without_def)
  have g1: "rg_tokens g1 = rg_tokens g" "rg_configs g1 = rg_configs g" "rg_specs g1 = rg_specs g" "rg_slots g1 = rg_slots g"
    "rg_proposal_capacities g1 = rg_proposal_capacities g" "rg_snapshot_capacities g1 = rg_snapshot_capacities g"
    "rg_draft_layout_id g1 = rg_draft_layout_id g"
    by (subst conjunct1 [OF w], simp)+
  obtain t c k where t: "recycle_shared (rg_tokens g) 2 = Inr t" "recycle_shared (rg_configs g) 2 = Inr c"
    and g2: "g2 = g1\<lparr>rg_completions := k, rg_tokens := t, rg_configs := c\<rparr>"
    using rp by (auto simp: recycle_payloads_def Let_def g1 split: sum.splits)
  have ok: "shared_ok t" "shared_head t = 0" "shared_ok c" "shared_head c = 0"
    using recycle_shared_ok t tk by blast+
  have "session_shape g'"
    using sh ar by (auto simp: session_shape_def g' g2 g1 hd_map)
  moreover have "is_valid U64 ep" 
    using ep inv next_id_advance [of U64 "rg_epoch g"] advance_valid unfolding registry_inv_def by auto
  moreover have "0 \<le> rg_slots g" using inv by (simp add: registry_inv_def record_count_def)
  ultimately show ?thesis
    using ok h1 d1 unfolding registry_inv_def g' g2 by (simp add: record_count_def no_cost_def g1)
qed

section \<open>Histories\<close>

text \<open>A session: requests are admitted and cancelled, and now and then the drained cohort retires.\<close>

inductive session :: "registry \<Rightarrow> registry \<Rightarrow> bool" for g0 where
  start: "session g0 g0"
| admission: "session g0 g \<Longrightarrow> check_config c = Inr () \<Longrightarrow> session g0 (snd (admit g request_id prompt c now))"
| cancellation: "session g0 g \<Longrightarrow> cancel g request_id = Inr g' \<Longrightarrow> session g0 g'"
| retirement: "session g0 g \<Longrightarrow> recycle_cohort pinned g = (Inr (), g') \<Longrightarrow> session g0 g'"

lemma admit_inv:
  assumes "registry_inv g" "check_config c = Inr ()"
  shows "registry_inv (snd (admit g request_id prompt c now))"
proof (cases "admission_checks g request_id prompt c")
  case (Inl e)
  then show ?thesis using assms by (simp add: admit_def)
next
  case (Inr cost)
  from admit_complete [OF assms Inr, of now] show ?thesis by (metis snd_conv)
qed

lemma session_inv: "session g0 g \<Longrightarrow> registry_inv g0 \<Longrightarrow> registry_inv g"
  by (induction rule: session.induct) (auto intro: admit_inv cancel_inv recycle_cohort_inv)

text \<open>A session as the engine builds it: Workers that pass their checks, empty arenas, fresh allocators.\<close>

definition fresh_registry :: "registry \<Rightarrow> bool" where
  "fresh_registry g \<longleftrightarrow> (\<exists>specs slots tc cc gen t c proposals snapshots completions layout host draft_host.
     g = new_registry specs slots t c proposals snapshots completions layout host draft_host
     \<and> open_shared_arena tc gen True = Inr t \<and> open_shared_arena cc gen True = Inr c
     \<and> arena_ok host \<and> arena_ok draft_host \<and> 0 \<le> slots \<and> session_shape g)"

lemma fresh_arena: "open_shared_arena n gen True = Inr s \<Longrightarrow> shared_ok s \<and> shared_head s = 0"
  by (auto simp: open_shared_arena_def open_arena_def bind_r_eq_Inr shared_ok_def arena_inv_def)

lemma fresh_inv: "fresh_registry g \<Longrightarrow> registry_inv g"
  unfolding fresh_registry_def registry_inv_def using fresh_arena stacked_init
  by (auto simp: new_registry_def no_cost_def record_count_def)

text \<open>C19: admission is all or nothing: in every history of admissions, cancellations and retirements a request that
  reaches the engine is either refused, with the registry, the arenas and the allocators untouched and the
  engine still usable, or recorded under the next slot with its prompt readable from the arena, an output region
  for all its new tokens, and every handle given out before reading what it read.\<close>

theorem admission_all_or_nothing:
  assumes "fresh_registry g0" "session g0 g" "check_config c = Inr ()"
  shows "case engine_admit busy g request_id prompt c now of
      (Inl e, g', poisoned) \<Rightarrow> g' = g \<and> \<not> poisoned \<and> is_refusal e
    | (Inr slot, g', poisoned) \<Rightarrow> slot = record_count g \<and> \<not> poisoned \<and> (\<exists>r. admitted_as g g' request_id prompt c r)"
proof (cases busy)
  case True
  then show ?thesis by (simp add: engine_admit_def is_refusal_def)
next
  case False
  have inv: "registry_inv g" using session_inv [OF assms(2) fresh_inv [OF assms(1)]] .
  then have sh: "session_shape g" by (simp add: registry_inv_def)
  show ?thesis
  proof (cases "admission_checks g request_id prompt c")
    case (Inl e)
    then show ?thesis using False admission_checks_Inl [OF Inl sh] by (simp add: engine_admit_def admit_def)
  next
    case (Inr cost)
    obtain g' r where "admit g request_id prompt c now = (Inr (record_count g), g')" "admitted_as g g' request_id prompt c r"
      using admit_complete [OF inv assms(3) Inr] by metis
    then show ?thesis using False by (auto simp: engine_admit_def)
  qed
qed

text \<open>A small session with one Draft and one Target Worker.\<close>

definition demo_worker :: "int \<Rightarrow> worker_role \<Rightarrow> bool \<Rightarrow> worker_spec" where
  "demo_worker wid role dbank = \<lparr>ws_worker_id = wid, ws_role = role, ws_generation = 1, ws_max_batch_size = 4, ws_max_batch_tokens = 64,
     ws_prefill_max_batch_tokens = 64, ws_verify_max_batch_tokens = 64, ws_bank_blocks = 8, ws_bank_rows = 4, ws_block_size = 4,
     ws_draft_banked = dbank\<rparr>"

definition demo_shared :: shared_arena where
  "demo_shared = \<lparr>sa_arena = \<lparr>aa_bytes = replicate 64 0, aa_generation = 1, aa_head = 0\<rparr>, sa_published = 0, sa_writer = True\<rparr>"

definition demo_registry :: registry where
  "demo_registry = new_registry [demo_worker 0 DRAFT True, demo_worker 1 TARGET False] 4 demo_shared demo_shared [512] [2048] None 3
     demo_arena demo_arena"

definition demo_config :: draft_generation_config where
  "demo_config = \<lparr>gc_max_new_tokens = 2, gc_proposal_depth = 1, gc_stop_token_ids = [], gc_eos_token_id = None\<rparr>"

lemma demo_registry_fresh: "fresh_registry demo_registry"
proof -
  have "open_shared_arena 64 1 True = Inr demo_shared" by code_simp
  moreover have "session_shape demo_registry"
    by (simp add: session_shape_def demo_registry_def new_registry_def demo_worker_def init_host_allocator_def demo_arena_def host_sized_def
        domain_defs)
  ultimately show ?thesis unfolding fresh_registry_def demo_registry_def using demo_arena_ok by (intro exI) force
qed

theorem admission_all_or_nothing_witness:
  "(case engine_admit False (snd (admit demo_registry ''a'' [5, 6] demo_config 0)) ''b'' [7] demo_config 1 of
      (Inl e, g', poisoned) \<Rightarrow> False
    | (Inr slot, g', poisoned) \<Rightarrow> slot = 1 \<and> \<not> poisoned
        \<and> (\<exists>r. admitted_as (snd (admit demo_registry ''a'' [5, 6] demo_config 0)) g' ''b'' [7] demo_config r))"
proof -
  let ?g = "snd (admit demo_registry ''a'' [5, 6] demo_config 0)"
  have c: "check_config demo_config = Inr ()" by code_simp
  have s: "session demo_registry ?g" by (rule session.admission [OF session.start c])
  have "returns (fst (engine_admit False ?g ''b'' [7] demo_config 1))" unfolding returns_def by code_simp
  moreover have "record_count ?g = 1" by code_simp
  ultimately show ?thesis
    using admission_all_or_nothing [OF demo_registry_fresh s c, where busy = False and request_id = "''b''" and prompt = "[7]" and now = 1] by (auto split: sum.splits prod.splits)
qed

end
