(* ===== verification/TableLayout.thy ===== *)
theory TableLayout
  imports StateChange Handles
begin

text \<open>
  \<open>table/layout_types.py\<close>, \<open>table/layout.py\<close> and \<open>table/draft_layout.py\<close>: the binary layout of the observation
  tables. The offsets of the fields are computed from their types; the layouts are the 17 blocks of the table ABI.
  The descriptions of the fields are documentation and are left out.
\<close>

section \<open>Scalar types and fields\<close>

definition abi_version :: nat where
  "abi_version = 6"

definition cache_line_bytes :: nat where
  "cache_line_bytes = 64"

datatype scalar_type = SU8 | SU32 | SI32 | SU64 | SENUM32 | SRESULT32 | SHANDLE

fun scalar_size :: "scalar_type \<Rightarrow> nat" where
  "scalar_size SU8 = 1"
| "scalar_size SU32 = 4"
| "scalar_size SI32 = 4"
| "scalar_size SU64 = 8"
| "scalar_size SENUM32 = 4"
| "scalar_size SRESULT32 = 4"
| "scalar_size SHANDLE = 16"

fun scalar_alignment :: "scalar_type \<Rightarrow> nat" where
  "scalar_alignment SU8 = 1"
| "scalar_alignment SU64 = 8"
| "scalar_alignment SHANDLE = 8"
| "scalar_alignment t = 4"

fun scalar_signed :: "scalar_type \<Rightarrow> bool" where
  "scalar_signed SI32 = True"
| "scalar_signed t = False"

definition align_up :: "nat \<Rightarrow> nat \<Rightarrow> nat" where
  "align_up offset alignment = (let remainder = offset mod alignment in if remainder = 0 then offset else offset + alignment - remainder)"

record field_def =
  fd_name :: string
  fd_type :: scalar_type
  fd_owner :: string
  fd_hot :: bool
  fd_required :: bool

definition field :: "string \<Rightarrow> scalar_type \<Rightarrow> string \<Rightarrow> bool \<Rightarrow> bool \<Rightarrow> field_def" where
  "field name typ owner hot required = \<lparr>fd_name = name, fd_type = typ, fd_owner = owner, fd_hot = hot, fd_required = required\<rparr>"

definition publish_seq_field :: "string \<Rightarrow> field_def" where
  "publish_seq_field owner = field ''publish_seq'' SU64 owner True True"

record field_layout =
  fl_field :: field_def
  fl_offset :: nat

definition fl_size :: "field_layout \<Rightarrow> nat" where
  "fl_size f = scalar_size (fd_type (fl_field f))"

record struct_layout =
  sl_name :: string
  sl_owner :: string
  sl_version :: nat
  sl_fields :: "field_def list"
  sl_row_alignment :: nat
  sl_multi_writer :: bool

definition sl_alignment :: "struct_layout \<Rightarrow> nat" where
  "sl_alignment l = Max (set (map (\<lambda>f. scalar_alignment (fd_type f)) (sl_fields l)))"

fun place_fields :: "nat \<Rightarrow> field_def list \<Rightarrow> field_layout list" where
  "place_fields offset [] = []"
| "place_fields offset (f # fs) =
     (let at = align_up offset (scalar_alignment (fd_type f))
      in \<lparr>fl_field = f, fl_offset = at\<rparr> # place_fields (at + scalar_size (fd_type f)) fs)"

definition field_layouts :: "struct_layout \<Rightarrow> field_layout list" where
  "field_layouts l = place_fields 0 (sl_fields l)"

definition sl_size :: "struct_layout \<Rightarrow> nat" where
  "sl_size l = (if field_layouts l = [] then 0
     else align_up (fl_offset (last (field_layouts l)) + fl_size (last (field_layouts l))) (sl_alignment l))"

definition row_stride :: "struct_layout \<Rightarrow> nat" where
  "row_stride l = align_up (sl_size l) (sl_row_alignment l)"

definition hot_prefix_size :: "struct_layout \<Rightarrow> nat" where
  "hot_prefix_size l = (let hot = filter (\<lambda>f. fd_hot (fl_field f)) (field_layouts l)
     in if hot = [] then 0 else fl_offset (last hot) + fl_size (last hot))"

definition field_offset :: "struct_layout \<Rightarrow> string \<Rightarrow> nat result" where
  "field_offset l name = (case find (\<lambda>f. fd_name (fl_field f) = name) (field_layouts l) of
     None \<Rightarrow> Inl (KeyError name) | Some f \<Rightarrow> Inr (fl_offset f))"

definition field_named :: "struct_layout \<Rightarrow> string \<Rightarrow> field_def result" where
  "field_named l name = (case find (\<lambda>f. fd_name f = name) (sl_fields l) of
     None \<Rightarrow> Inl (KeyError name) | Some f \<Rightarrow> Inr f)"

section \<open>The blocks\<close>

definition ENGINE_BLOCK :: struct_layout where
  "ENGINE_BLOCK = \<lparr>sl_name = ''EngineBlock'', sl_owner = ''engine'', sl_version = abi_version, sl_fields = [
     publish_seq_field ''engine'',
     field ''request_epoch'' SU64 ''engine'' True True,
     field ''current_round_id'' SU64 ''engine'' True True,
     field ''arrival_seq'' SU64 ''engine'' True True,
     field ''lifecycle'' SENUM32 ''engine'' True True,
     field ''prompt_token_count'' SU32 ''engine'' False True,
     field ''max_new_tokens'' SU32 ''engine'' False True,
     field ''spec_token_limit'' SU32 ''engine'' False True,
     field ''input_tokens_handle'' SHANDLE ''engine'' False True,
     field ''generation_config_handle'' SHANDLE ''engine'' False True,
     field ''classified_result_ticket'' SU64 ''engine'' False True],
     sl_row_alignment = 8, sl_multi_writer = False\<rparr>"

definition DISPATCH_BASE :: struct_layout where
  "DISPATCH_BASE = \<lparr>sl_name = ''DispatchBlock'', sl_owner = ''dispatcher'', sl_version = abi_version, sl_fields = [
     publish_seq_field ''dispatcher'',
     field ''draft_issue_seq'' SU64 ''dispatcher'' True True,
     field ''draft_worker_generation'' SU64 ''dispatcher'' True True,
     field ''draft_round_id'' SU64 ''dispatcher'' True True,
     field ''target_prepare_seq'' SU64 ''dispatcher'' True True,
     field ''planned_target_generation'' SU64 ''dispatcher'' True True,
     field ''planned_bank_epoch'' SU64 ''dispatcher'' True True,
     field ''target_run_seq'' SU64 ''dispatcher'' True True,
     field ''target_round_id'' SU64 ''dispatcher'' True True,
     field ''draft_worker_id'' SU32 ''dispatcher'' True True,
     field ''planned_target_id'' SU32 ''dispatcher'' True True,
     field ''planned_bank_id'' SU8 ''dispatcher'' True True],
     sl_row_alignment = 8, sl_multi_writer = False\<rparr>"

definition DRAFT_WORKER_BASE :: struct_layout where
  "DRAFT_WORKER_BASE = \<lparr>sl_name = ''DraftWorkerBlock'', sl_owner = ''draft_worker'', sl_version = abi_version, sl_fields = [
     publish_seq_field ''draft_worker'',
     field ''request_epoch'' SU64 ''draft_worker'' True True,
     field ''round_id'' SU64 ''draft_worker'' True True,
     field ''observed_issue_seq'' SU64 ''draft_worker'' True True,
     field ''worker_generation'' SU64 ''draft_worker'' True True,
     field ''worker_id'' SU32 ''draft_worker'' True True,
     field ''status'' SENUM32 ''draft_worker'' True True,
     field ''result_code'' SRESULT32 ''draft_worker'' True True,
     field ''compute_start_ns'' SU64 ''draft_worker'' False True,
     field ''compute_end_ns'' SU64 ''draft_worker'' False True,
     field ''proposal_token_count'' SU32 ''draft_worker'' False True,
     field ''proposal_handle'' SHANDLE ''draft_worker'' False True,
     field ''draft_state_handle'' SHANDLE ''draft_worker'' False True],
     sl_row_alignment = cache_line_bytes, sl_multi_writer = True\<rparr>"

definition TARGET_COMPUTE_BLOCK :: struct_layout where
  "TARGET_COMPUTE_BLOCK = \<lparr>sl_name = ''TargetComputeBlock'', sl_owner = ''target_compute_lane'', sl_version = abi_version, sl_fields = [
     publish_seq_field ''target_compute_lane'',
     field ''request_epoch'' SU64 ''target_compute_lane'' True True,
     field ''round_id'' SU64 ''target_compute_lane'' True True,
     field ''observed_run_seq'' SU64 ''target_compute_lane'' True True,
     field ''target_generation'' SU64 ''target_compute_lane'' True True,
     field ''bank_epoch'' SU64 ''target_compute_lane'' True True,
     field ''target_kv_version'' SU64 ''target_compute_lane'' True True,
     field ''target_id'' SU32 ''target_compute_lane'' True True,
     field ''status'' SENUM32 ''target_compute_lane'' True True,
     field ''result_code'' SRESULT32 ''target_compute_lane'' True True,
     field ''bank_id'' SU8 ''target_compute_lane'' True True,
     field ''compute_start_ns'' SU64 ''target_compute_lane'' False True,
     field ''compute_end_ns'' SU64 ''target_compute_lane'' False True,
     field ''output_count'' SU32 ''target_compute_lane'' False True,
     field ''output_finished'' SU8 ''target_compute_lane'' False True,
     field ''output_handle'' SHANDLE ''target_compute_lane'' False True,
     field ''accepted_draft_count'' SU32 ''target_compute_lane'' False True,
     field ''committed_delta_count'' SU32 ''target_compute_lane'' False True,
     field ''last_committed_token'' SU32 ''target_compute_lane'' False True,
     field ''logical_kv_len'' SU32 ''target_compute_lane'' False True,
     field ''dirty_begin_block'' SU32 ''target_compute_lane'' False True,
     field ''dirty_block_count'' SU32 ''target_compute_lane'' False True,
     field ''committed_delta_handle'' SHANDLE ''target_compute_lane'' False True],
     sl_row_alignment = cache_line_bytes, sl_multi_writer = True\<rparr>"

definition D2H_BLOCK :: struct_layout where
  "D2H_BLOCK = \<lparr>sl_name = ''D2HBlock'', sl_owner = ''target_copy_lane'', sl_version = abi_version, sl_fields = [
     publish_seq_field ''target_copy_lane'',
     field ''request_epoch'' SU64 ''target_copy_lane'' True True,
     field ''round_id'' SU64 ''target_copy_lane'' True True,
     field ''d2h_op_seq'' SU64 ''target_copy_lane'' True True,
     field ''target_generation'' SU64 ''target_copy_lane'' True True,
     field ''source_bank_epoch'' SU64 ''target_copy_lane'' True True,
     field ''host_slot_generation'' SU64 ''target_copy_lane'' True True,
     field ''writer_version'' SU64 ''target_copy_lane'' True True,
     field ''ready_version'' SU64 ''target_copy_lane'' True True,
     field ''target_id'' SU32 ''target_copy_lane'' True True,
     field ''status'' SENUM32 ''target_copy_lane'' True True,
     field ''result_code'' SRESULT32 ''target_copy_lane'' True True,
     field ''source_bank_id'' SU8 ''target_copy_lane'' True True,
     field ''committed_blocks'' SU32 ''target_copy_lane'' False True,
     field ''logical_kv_len'' SU32 ''target_copy_lane'' False True,
     field ''copy_start_time_ns'' SU64 ''target_copy_lane'' False True,
     field ''copy_bytes'' SU64 ''target_copy_lane'' False True],
     sl_row_alignment = cache_line_bytes, sl_multi_writer = True\<rparr>"

definition H2D_BLOCK :: struct_layout where
  "H2D_BLOCK = \<lparr>sl_name = ''H2DBlock'', sl_owner = ''target_copy_lane'', sl_version = abi_version, sl_fields = [
     publish_seq_field ''target_copy_lane'',
     field ''request_epoch'' SU64 ''target_copy_lane'' True True,
     field ''round_id'' SU64 ''target_copy_lane'' True True,
     field ''observed_prepare_seq'' SU64 ''target_copy_lane'' True True,
     field ''target_generation'' SU64 ''target_copy_lane'' True True,
     field ''source_host_version'' SU64 ''target_copy_lane'' True True,
     field ''destination_bank_epoch'' SU64 ''target_copy_lane'' True True,
     field ''gpu_ready_version'' SU64 ''target_copy_lane'' True True,
     field ''target_id'' SU32 ''target_copy_lane'' True True,
     field ''status'' SENUM32 ''target_copy_lane'' True True,
     field ''result_code'' SRESULT32 ''target_copy_lane'' True True,
     field ''destination_bank_id'' SU8 ''target_copy_lane'' True True,
     field ''copied_blocks'' SU32 ''target_copy_lane'' False True,
     field ''copy_start_time_ns'' SU64 ''target_copy_lane'' False True,
     field ''copy_bytes'' SU64 ''target_copy_lane'' False True],
     sl_row_alignment = cache_line_bytes, sl_multi_writer = True\<rparr>"

definition HOSTKV_ALLOCATION_BLOCK :: struct_layout where
  "HOSTKV_ALLOCATION_BLOCK = \<lparr>sl_name = ''HostKVAllocationBlock'', sl_owner = ''engine_hostkv_allocator'', sl_version = abi_version, sl_fields = [
     publish_seq_field ''engine_hostkv_allocator'',
     field ''request_epoch'' SU64 ''engine_hostkv_allocator'' True True,
     field ''host_slot_generation'' SU64 ''engine_hostkv_allocator'' True True,
     field ''writer_lease_generation'' SU64 ''engine_hostkv_allocator'' True True,
     field ''host_slot'' SU32 ''engine_hostkv_allocator'' True True,
     field ''capacity_blocks'' SU32 ''engine_hostkv_allocator'' False True,
     field ''offset_blocks'' SU64 ''engine_hostkv_allocator'' False True],
     sl_row_alignment = 8, sl_multi_writer = False\<rparr>"

definition WORKER_COMMON_BLOCK :: struct_layout where
  "WORKER_COMMON_BLOCK = \<lparr>sl_name = ''WorkerCommonBlock'', sl_owner = ''worker'', sl_version = abi_version, sl_fields = [
     publish_seq_field ''worker'',
     field ''worker_id'' SU32 ''worker'' True True,
     field ''role'' SENUM32 ''worker'' True True,
     field ''worker_generation'' SU64 ''worker'' True True,
     field ''status'' SENUM32 ''worker'' True True,
     field ''command_consumer_seq'' SU64 ''worker'' True False,
     field ''max_batch_size'' SU32 ''worker'' False True,
     field ''max_batch_tokens'' SU32 ''worker'' False True],
     sl_row_alignment = 8, sl_multi_writer = False\<rparr>"

definition DRAFT_RUNTIME_BLOCK :: struct_layout where
  "DRAFT_RUNTIME_BLOCK = \<lparr>sl_name = ''DraftRuntimeBlock'', sl_owner = ''draft_worker'', sl_version = abi_version, sl_fields = [
     publish_seq_field ''draft_worker'',
     field ''current_batch_seq'' SU64 ''draft_worker'' True True,
     field ''compute_status'' SENUM32 ''draft_worker'' True True,
     field ''compute_start_time_ns'' SU64 ''draft_worker'' True True,
     field ''batch_request_count'' SU32 ''draft_worker'' True True,
     field ''batch_token_count'' SU32 ''draft_worker'' True True],
     sl_row_alignment = 8, sl_multi_writer = False\<rparr>"

definition TARGET_COMPUTE_RUNTIME_BLOCK :: struct_layout where
  "TARGET_COMPUTE_RUNTIME_BLOCK = \<lparr>sl_name = ''TargetComputeRuntimeBlock'', sl_owner = ''target_compute_lane'', sl_version = abi_version, sl_fields = [
     publish_seq_field ''target_compute_lane'',
     field ''compute_batch_seq'' SU64 ''target_compute_lane'' True True,
     field ''compute_status'' SENUM32 ''target_compute_lane'' True True,
     field ''compute_start_time_ns'' SU64 ''target_compute_lane'' True True,
     field ''compute_request_count'' SU32 ''target_compute_lane'' True True,
     field ''compute_token_count'' SU32 ''target_compute_lane'' True True],
     sl_row_alignment = 8, sl_multi_writer = False\<rparr>"

definition TARGET_COPY_RUNTIME_BLOCK :: struct_layout where
  "TARGET_COPY_RUNTIME_BLOCK = \<lparr>sl_name = ''TargetCopyRuntimeBlock'', sl_owner = ''target_copy_lane'', sl_version = abi_version, sl_fields = [
     publish_seq_field ''target_copy_lane'',
     field ''copy_op_seq'' SU64 ''target_copy_lane'' True True,
     field ''copy_status'' SENUM32 ''target_copy_lane'' True True,
     field ''copy_start_time_ns'' SU64 ''target_copy_lane'' True True,
     field ''copy_bytes'' SU64 ''target_copy_lane'' True True],
     sl_row_alignment = 8, sl_multi_writer = False\<rparr>"

definition BANK_BLOCK :: struct_layout where
  "BANK_BLOCK = \<lparr>sl_name = ''BankBlock'', sl_owner = ''target_copy_lane'', sl_version = abi_version, sl_fields = [
     publish_seq_field ''target_copy_lane'',
     field ''bank_id'' SU8 ''target_copy_lane'' True True,
     field ''bank_epoch'' SU64 ''target_copy_lane'' True True,
     field ''role'' SENUM32 ''target_copy_lane'' True True,
     field ''state'' SENUM32 ''target_copy_lane'' True True,
     field ''batch_seq'' SU64 ''target_copy_lane'' True True,
     field ''capacity_blocks'' SU32 ''target_copy_lane'' False True,
     field ''alloc_ptr_blocks'' SU32 ''target_copy_lane'' False True,
     field ''capacity_rows'' SU32 ''target_copy_lane'' False True,
     field ''alloc_rows'' SU32 ''target_copy_lane'' False True],
     sl_row_alignment = 8, sl_multi_writer = False\<rparr>"

text \<open>The Draft migration blocks are written as lists of names and types.\<close>

definition fields :: "string \<Rightarrow> (string \<times> scalar_type) list \<Rightarrow> bool \<Rightarrow> field_def list" where
  "fields owner specs hot = map (\<lambda>(name, typ). field name typ owner hot True) specs"

definition block :: "string \<Rightarrow> string \<Rightarrow> (string \<times> scalar_type) list \<Rightarrow> bool \<Rightarrow> struct_layout" where
  "block name owner specs multi = \<lparr>sl_name = name, sl_owner = owner, sl_version = abi_version,
     sl_fields = publish_seq_field owner # fields owner specs True,
     sl_row_alignment = (if multi then cache_line_bytes else 8), sl_multi_writer = multi\<rparr>"

definition DISPATCH_FIELDS :: "field_def list" where
  "DISPATCH_FIELDS = fields ''dispatcher''
     ([(''request_epoch'', SU64), (''draft_owner_epoch'', SU64), (''draft_prepare_seq'', SU64),
     (''planned_draft_id'', SU32), (''planned_draft_generation'', SU64), (''planned_draft_bank_id'', SU8),
     (''planned_draft_bank_epoch'', SU64), (''draft_prepared_batch_seq'', SU64),
     (''draft_source_snapshot_version'', SU64), (''draft_snapshot_round_id'', SU64), (''draft_snapshot_handle'',
     SHANDLE), (''draft_next_owner_epoch'', SU64), (''draft_run_bank_id'', SU8), (''draft_run_bank_epoch'', SU64),
     (''draft_run_batch_seq'', SU64)]) True"

definition COMPUTE_FIELDS :: "field_def list" where
  "COMPUTE_FIELDS = fields ''draft_worker''
     ([(''owner_epoch'', SU64), (''snapshot_version'', SU64), (''logical_kv_len'', SU32), (''valid_blocks'', SU32),
     (''bank_id'', SU8), (''bank_epoch'', SU64), (''batch_seq'', SU64), (''dirty_begin_block'', SU32),
     (''dirty_block_count'', SU32)]) False"

definition ALLOCATION_SPECS :: "(string \<times> scalar_type) list" where
  "ALLOCATION_SPECS =
     [(''arena_id'', SU32), (''arena_generation'', SU32), (''layout_id'', SU64), (''host_slot_generation'', SU64),
     (''writer_lease_generation'', SU64), (''offset_blocks'', SU64), (''host_slot'', SU32), (''capacity_blocks'',
     SU32), (''block_size'', SU64)]"

definition DRAFT_HOSTKV_BLOCK :: struct_layout where
  "DRAFT_HOSTKV_BLOCK = block ''DraftHostKVAllocationBlock'' ''engine_draft_hostkv_allocator''
     ([(''request_epoch'', SU64)] @ ALLOCATION_SPECS) False"

definition COPY_COMMON :: "(string \<times> scalar_type) list" where
  "COPY_COMMON =
     [(''request_epoch'', SU64), (''snapshot_round_id'', SU64), (''snapshot_version'', SU64), (''snapshot_handle'',
     SHANDLE), (''logical_kv_len'', SU32), (''status'', SENUM32), (''result_code'', SRESULT32)]"

definition COPY_COLD :: "(string \<times> scalar_type) list" where
  "COPY_COLD =
     [(''copy_start_time_ns'', SU64), (''copy_bytes'', SU64)]"

definition with_fields :: "struct_layout \<Rightarrow> field_def list \<Rightarrow> struct_layout" where
  "with_fields l fs = l\<lparr>sl_fields := sl_fields l @ fs\<rparr>"

definition DRAFT_D2H_BLOCK :: struct_layout where
  "DRAFT_D2H_BLOCK = with_fields (block ''DraftD2HBlock'' ''draft_source_copy_lane''
     (COPY_COMMON @ [(''source_worker_id'', SU32), (''source_worker_generation'', SU64), (''source_op_seq'', SU64),
     (''owner_epoch'', SU64), (''source_bank_id'', SU8), (''source_bank_epoch'', SU64), (''source_batch_seq'',
     SU64), (''ready_version'', SU64), (''valid_blocks'', SU32)] @ ALLOCATION_SPECS) True)
     (fields ''draft_source_copy_lane'' COPY_COLD False)"

definition DRAFT_H2D_BLOCK :: struct_layout where
  "DRAFT_H2D_BLOCK = with_fields (block ''DraftH2DBlock'' ''draft_destination_copy_lane''
     (COPY_COMMON @ [(''next_round_id'', SU64), (''observed_prepare_seq'', SU64), (''destination_worker_id'', SU32),
     (''destination_worker_generation'', SU64), (''next_owner_epoch'', SU64), (''destination_bank_id'', SU8),
     (''destination_bank_epoch'', SU64), (''prepared_batch_seq'', SU64), (''gpu_ready_version'', SU64),
     (''copied_blocks'', SU32), (''local_row'', SU32)] @ ALLOCATION_SPECS) True)
     (fields ''draft_destination_copy_lane'' COPY_COLD False)"

definition owned_by_draft :: "struct_layout \<Rightarrow> string \<Rightarrow> struct_layout" where
  "owned_by_draft l name = l\<lparr>sl_name := name, sl_owner := ''draft_worker'',
     sl_fields := map (\<lambda>f. f\<lparr>fd_owner := ''draft_worker''\<rparr>) (sl_fields l)\<rparr>"

definition DISPATCH_BLOCK :: struct_layout where
  "DISPATCH_BLOCK = with_fields DISPATCH_BASE DISPATCH_FIELDS"

definition DRAFT_WORKER_BLOCK :: struct_layout where
  "DRAFT_WORKER_BLOCK = with_fields DRAFT_WORKER_BASE COMPUTE_FIELDS"

definition DRAFT_COPY_RUNTIME_BLOCK :: struct_layout where
  "DRAFT_COPY_RUNTIME_BLOCK = owned_by_draft TARGET_COPY_RUNTIME_BLOCK ''DraftCopyRuntimeBlock''"

definition DRAFT_BANK_BLOCK :: struct_layout where
  "DRAFT_BANK_BLOCK = owned_by_draft BANK_BLOCK ''DraftBankBlock''"

fun layout_of :: "block_kind \<Rightarrow> struct_layout" where
  "layout_of REQUEST_ENGINE = ENGINE_BLOCK"
| "layout_of REQUEST_DISPATCH = DISPATCH_BLOCK"
| "layout_of REQUEST_DRAFT = DRAFT_WORKER_BLOCK"
| "layout_of REQUEST_TARGET_COMPUTE = TARGET_COMPUTE_BLOCK"
| "layout_of REQUEST_D2H = D2H_BLOCK"
| "layout_of REQUEST_H2D = H2D_BLOCK"
| "layout_of REQUEST_HOSTKV = HOSTKV_ALLOCATION_BLOCK"
| "layout_of REQUEST_DRAFT_HOSTKV = DRAFT_HOSTKV_BLOCK"
| "layout_of REQUEST_DRAFT_D2H = DRAFT_D2H_BLOCK"
| "layout_of REQUEST_DRAFT_H2D = DRAFT_H2D_BLOCK"
| "layout_of WORKER_COMMON = WORKER_COMMON_BLOCK"
| "layout_of WORKER_DRAFT_RUNTIME = DRAFT_RUNTIME_BLOCK"
| "layout_of WORKER_TARGET_COMPUTE_RUNTIME = TARGET_COMPUTE_RUNTIME_BLOCK"
| "layout_of WORKER_TARGET_COPY_RUNTIME = TARGET_COPY_RUNTIME_BLOCK"
| "layout_of WORKER_BANK = BANK_BLOCK"
| "layout_of WORKER_DRAFT_COPY_RUNTIME = DRAFT_COPY_RUNTIME_BLOCK"
| "layout_of WORKER_DRAFT_BANK = DRAFT_BANK_BLOCK"

definition request_kinds :: "block_kind list" where
  "request_kinds = [REQUEST_ENGINE, REQUEST_DISPATCH, REQUEST_DRAFT, REQUEST_TARGET_COMPUTE, REQUEST_D2H, REQUEST_H2D,
     REQUEST_HOSTKV, REQUEST_DRAFT_HOSTKV, REQUEST_DRAFT_D2H, REQUEST_DRAFT_H2D]"

definition worker_kinds :: "block_kind list" where
  "worker_kinds = [WORKER_COMMON, WORKER_DRAFT_RUNTIME, WORKER_TARGET_COMPUTE_RUNTIME, WORKER_TARGET_COPY_RUNTIME, WORKER_BANK,
     WORKER_DRAFT_COPY_RUNTIME, WORKER_DRAFT_BANK]"

definition request_row_size_bytes :: nat where
  "request_row_size_bytes = sum_list (map (\<lambda>k. sl_size (layout_of k)) request_kinds)"

definition physical_request_row_size_bytes :: nat where
  "physical_request_row_size_bytes = sum_list (map (\<lambda>k. row_stride (layout_of k)) request_kinds)"

definition active_request_table_bytes :: "int \<Rightarrow> int result" where
  "active_request_table_bytes n =
     bind_r (require (0 \<le> n) (ValueError ''active_requests must be non-negative'')) (\<lambda>_.
       Inr (int physical_request_row_size_bytes * n))"

section \<open>Every layout is a layout\<close>

lemma align_up_facts:
  assumes "0 < a"
  shows "n \<le> align_up n a" "align_up n a mod a = 0" "align_up n a < n + a"
proof -
  have le: "n mod a \<le> n" "n mod a < a" using assms by simp_all
  have "(n + a - n mod a) mod a = 0"
  proof -
    have "n + a - n mod a = a + (n - n mod a)" using le by simp
    also have "n - n mod a = a * (n div a)" by (simp add: minus_mod_eq_mult_div)
    finally show ?thesis by simp
  qed
  moreover have "n \<le> n + a - n mod a" "0 < n mod a \<Longrightarrow> n + a - n mod a < n + a" using le(2) by linarith+
  ultimately show "n \<le> align_up n a" "align_up n a mod a = 0" "align_up n a < n + a"
    using assms by (simp_all add: align_up_def Let_def)
qed

lemma scalar_facts [simp]: "0 < scalar_alignment t" "0 < scalar_size t"
  by (cases t; simp)+

lemma place_fields_facts:
  assumes "f \<in> set (place_fields n fs)"
  shows "n \<le> fl_offset f" "fl_offset f mod scalar_alignment (fd_type (fl_field f)) = 0"
  using assms
proof (induction fs arbitrary: n)
  case (Cons g gs)
  have up: "m \<le> align_up m (scalar_alignment (fd_type g))" for m by (simp add: align_up_facts)
  { case 1
    then show ?case using up [of n] Cons.IH(1) [of "align_up n (scalar_alignment (fd_type g)) + scalar_size (fd_type g)"]
      by (auto simp: Let_def) }
  { case 2 with Cons.IH(2) show ?case by (auto simp: Let_def align_up_facts) }
qed simp_all

definition before :: "field_layout \<Rightarrow> field_layout \<Rightarrow> bool" where
  "before f g \<longleftrightarrow> fl_offset f + fl_size f \<le> fl_offset g"

lemma place_fields_sorted: "sorted_wrt before (place_fields n fs)"
  by (induction fs arbitrary: n) (auto simp: Let_def before_def fl_size_def dest: place_fields_facts(1))

lemma place_fields_names [simp]: "map fl_field (place_fields n fs) = fs"
  by (induction fs arbitrary: n) (simp_all add: Let_def)

lemma place_fields_Nil [simp]: "place_fields n fs = [] \<longleftrightarrow> fs = []"
  by (cases fs) (simp_all add: Let_def)

lemma sorted_before_last:
  assumes "sorted_wrt before fs" "f \<in> set fs"
  shows "fl_offset f + fl_size f \<le> fl_offset (last fs) + fl_size (last fs)"
proof (cases fs rule: rev_cases)
  case (snoc gs g)
  then show ?thesis using assms by (auto simp: sorted_wrt_append before_def)
qed (use assms in simp)

lemma alignment_pos: "sl_fields l \<noteq> [] \<Longrightarrow> 0 < sl_alignment l"
  by (simp add: sl_alignment_def Max_gr_iff) (metis list.set_intros(1) neq_Nil_conv)

lemma field_inside:
  assumes "f \<in> set (field_layouts l)" "0 < sl_row_alignment l"
  shows "fl_offset f + fl_size f \<le> sl_size l" "sl_size l \<le> row_stride l"
proof -
  have ne: "sl_fields l \<noteq> []" using assms(1) by (auto simp: field_layouts_def)
  have "fl_offset f + fl_size f \<le> fl_offset (last (field_layouts l)) + fl_size (last (field_layouts l))"
    using sorted_before_last place_fields_sorted assms(1) unfolding field_layouts_def by blast
  also have "\<dots> \<le> sl_size l" using align_up_facts(1) [OF alignment_pos [OF ne]] ne by (simp add: sl_size_def field_layouts_def)
  finally show "fl_offset f + fl_size f \<le> sl_size l" .
  show "sl_size l \<le> row_stride l" using align_up_facts(1) assms(2) by (simp add: row_stride_def)
qed

text \<open>What the tables rely on: the sequence comes first, the names are distinct, the fields are aligned, lie inside the
  payload and do not overlap, and a row is a whole number of its alignment.\<close>

definition layout_ok :: "struct_layout \<Rightarrow> bool" where
  "layout_ok l \<longleftrightarrow> sl_row_alignment l \<in> {8, 64} \<and> distinct (map fd_name (sl_fields l))
     \<and> (\<exists>owner fs. sl_fields l = publish_seq_field owner # fs) \<and> (\<forall>f \<in> set (sl_fields l). fd_owner f = sl_owner l)"

lemmas layout_defs = ENGINE_BLOCK_def DISPATCH_BLOCK_def DISPATCH_BASE_def DISPATCH_FIELDS_def DRAFT_WORKER_BLOCK_def
  DRAFT_WORKER_BASE_def COMPUTE_FIELDS_def TARGET_COMPUTE_BLOCK_def D2H_BLOCK_def H2D_BLOCK_def HOSTKV_ALLOCATION_BLOCK_def
  DRAFT_HOSTKV_BLOCK_def DRAFT_D2H_BLOCK_def DRAFT_H2D_BLOCK_def WORKER_COMMON_BLOCK_def DRAFT_RUNTIME_BLOCK_def
  TARGET_COMPUTE_RUNTIME_BLOCK_def TARGET_COPY_RUNTIME_BLOCK_def BANK_BLOCK_def DRAFT_COPY_RUNTIME_BLOCK_def DRAFT_BANK_BLOCK_def
  COPY_COMMON_def COPY_COLD_def ALLOCATION_SPECS_def with_fields_def owned_by_draft_def block_def fields_def

lemma layout_ok_all: "layout_ok (layout_of k)"
  by (cases k) (simp_all add: layout_ok_def layout_defs field_def publish_seq_field_def cache_line_bytes_def)

text \<open>C12: the memory layout of every one of the 17 blocks is sound: the publication sequence is the first 8 bytes, field
  names are unique, every field is aligned for its type and inside the row, fields are laid out one after the
  other without overlap, and rows keep the alignment of the block.\<close>

theorem table_layouts_sound:
  "map (fd_name \<circ> fl_field) (take 1 (field_layouts (layout_of k))) = [''publish_seq'']
   \<and> map fl_offset (take 1 (field_layouts (layout_of k))) = [0]
   \<and> distinct (map (fd_name \<circ> fl_field) (field_layouts (layout_of k)))
   \<and> list_all (\<lambda>f. fl_offset f mod scalar_alignment (fd_type (fl_field f)) = 0 \<and> fl_offset f + fl_size f \<le> row_stride (layout_of k))
       (field_layouts (layout_of k))
   \<and> sorted_wrt before (field_layouts (layout_of k)) \<and> row_stride (layout_of k) mod sl_row_alignment (layout_of k) = 0"
proof -
  let ?l = "layout_of k"
  have ok: "layout_ok ?l" by (rule layout_ok_all)
  then obtain owner fs where fs: "sl_fields ?l = publish_seq_field owner # fs" by (auto simp: layout_ok_def)
  have al: "0 < sl_row_alignment ?l" using ok by (auto simp: layout_ok_def)
  have "distinct (map (fd_name \<circ> fl_field) (field_layouts ?l))"
    using ok by (simp add: layout_ok_def field_layouts_def flip: map_map)
  moreover have "list_all (\<lambda>f. fl_offset f mod scalar_alignment (fd_type (fl_field f)) = 0 \<and> fl_offset f + fl_size f \<le> row_stride ?l)
      (field_layouts ?l)"
    using field_inside [OF _ al] place_fields_facts(2) unfolding list_all_iff field_layouts_def by (metis le_trans)
  moreover have "row_stride ?l mod sl_row_alignment ?l = 0" using align_up_facts(2) [OF al] by (simp add: row_stride_def)
  moreover have "sorted_wrt before (field_layouts ?l)" unfolding field_layouts_def by (rule place_fields_sorted)
  moreover have "take 1 (field_layouts ?l) = [\<lparr>fl_field = publish_seq_field owner, fl_offset = 0\<rparr>]"
    by (simp add: field_layouts_def fs Let_def align_up_def)
  moreover have "fd_name (publish_seq_field owner) = ''publish_seq''" by (simp add: publish_seq_field_def field_def)
  ultimately show ?thesis by simp
qed

end
