(* ===== verification/TableStorage.thy ===== *)
theory TableStorage
  imports TableLayout Wire
begin

text \<open>
  \<open>table/storage.py\<close>: the rows of the observation tables, each published by its owner with a sequence that is invalid
  while the row changes. A reader looks at memory that may change between any two of its accesses, so the
  reading functions take the memory as a function of the access number; a write is the list of its stores.
  The maps from names to fields that the code builds once per partition are computed when they are used.
\<close>

section \<open>Values\<close>

datatype field_value = VInt int | VHandle arena_handle

definition unsigned_maximum :: "nat \<Rightarrow> int" where
  "unsigned_maximum n = (if n = 1 then max_valid U8 else if n = 4 then max_valid U32 else max_valid U64)"

definition encode_scalar :: "field_def \<Rightarrow> field_value \<Rightarrow> bytes result" where
  "encode_scalar f v =
     (case v of
        VHandle h \<Rightarrow> if fd_type f = SHANDLE
          then Inr (le_bytes 8 (h_offset h) @ le_bytes 4 (h_length h) @ le_bytes 4 (h_generation h))
          else Inl (TypeError ''must be an int'')
      | VInt x \<Rightarrow>
          if fd_type f = SHANDLE then Inl (TypeError ''must be an ArenaHandle'')
          else if fd_type f = SI32 then
            bind_r (require (- 2147483648 \<le> x \<and> x \<le> 2147483647) (ValueError ''out of range'')) (\<lambda>_. Inr (le_bytes 4 (x mod 4294967296)))
          else
            bind_r (require (0 \<le> x \<and> x \<le> unsigned_maximum (scalar_size (fd_type f))) (ValueError ''out of range'')) (\<lambda>_.
              Inr (le_bytes (scalar_size (fd_type f)) x)))"

definition decode_scalar :: "scalar_type \<Rightarrow> bytes \<Rightarrow> field_value result" where
  "decode_scalar t raw =
     (if t = SHANDLE then
        bind_r (mk_handle (le_int (subbuf 0 8 raw)) (le_int (subbuf 8 4 raw)) (le_int (subbuf 12 4 raw))) (\<lambda>h. Inr (VHandle h))
      else let x = le_int raw
        in Inr (VInt (if scalar_signed t \<and> 2 * x \<ge> 256 ^ scalar_size t then x - 256 ^ scalar_size t else x)))"

section \<open>Partitions\<close>

record table_partition =
  tp_layout :: struct_layout
  tp_kind :: block_kind
  tp_capacity :: int
  tp_bytes :: bytes

text \<open>The ring and the doorbell every partition of a table shares.\<close>

record notifier =
  nt_ring :: "state_change_ring option"
  nt_bell :: "int option"

definition row_base :: "struct_layout \<Rightarrow> int \<Rightarrow> nat" where
  "row_base l row = nat row * row_stride l"

definition new_partition :: "struct_layout \<Rightarrow> block_kind \<Rightarrow> int \<Rightarrow> table_partition result" where
  "new_partition l kind capacity = bind_r (validate REQUEST_SLOT capacity) (\<lambda>_.
     Inr \<lparr>tp_layout = l, tp_kind = kind, tp_capacity = capacity,
          tp_bytes = concat (replicate (nat capacity) (le_bytes 8 (invalid U64) @ replicate (row_stride l - 8) 0))\<rparr>)"

definition validate_row :: "table_partition \<Rightarrow> int \<Rightarrow> unit result" where
  "validate_row p row = bind_r (validate REQUEST_SLOT row) (\<lambda>_. require (row < tp_capacity p) (IndexError ''row outside capacity''))"

definition marker_of :: "struct_layout \<Rightarrow> bytes \<Rightarrow> int \<Rightarrow> int" where
  "marker_of l buf row = le_int (subbuf (row_base l row) 8 buf)"

definition read_publish_seq :: "table_partition \<Rightarrow> int \<Rightarrow> int result" where
  "read_publish_seq p row = bind_r (validate_row p row) (\<lambda>_. Inr (marker_of (tp_layout p) (tp_bytes p) row))"

definition publish_sequences :: "table_partition \<Rightarrow> int list" where
  "publish_sequences p = map (\<lambda>row. marker_of (tp_layout p) (tp_bytes p) (int row)) [0..<nat (tp_capacity p)]"

section \<open>Publishing\<close>

type_synonym store = "nat \<times> bytes"

definition apply_store :: "store \<Rightarrow> bytes \<Rightarrow> bytes" where
  "apply_store s buf = overwrite (fst s) (snd s) buf"

definition encode_field :: "struct_layout \<Rightarrow> string \<times> field_value \<Rightarrow> store result" where
  "encode_field l fv =
     bind_r (require (fst fv \<noteq> ''publish_seq'') (TableProtocolError ''publish_seq is controlled by the publication protocol'')) (\<lambda>_.
     case find (\<lambda>f. fd_name (fl_field f) = fst fv) (field_layouts l) of
       None \<Rightarrow> Inl (KeyError ''has no field'')
     | Some f \<Rightarrow> bind_r (encode_scalar (fl_field f) (snd fv)) (\<lambda>raw. Inr (fl_offset f, raw)))"

text \<open>The stores of \<open>_publish_encoded\<close>, in order: the row is invalid until the last one.\<close>

definition publication_stores :: "struct_layout \<Rightarrow> int \<Rightarrow> int \<Rightarrow> store list \<Rightarrow> store list" where
  "publication_stores l row publish_seq encoded =
     [(row_base l row, le_bytes 8 (invalid U64))] @ map (\<lambda>(offset, raw). (row_base l row + offset, raw)) encoded
     @ [(row_base l row, le_bytes 8 publish_seq)]"

definition notify :: "block_kind \<Rightarrow> int \<Rightarrow> int \<Rightarrow> notifier \<Rightarrow> notifier result" where
  "notify kind row publish_seq n =
     bind_r (case nt_ring n of None \<Rightarrow> Inr n
        | Some r \<Rightarrow> bind_r (checks [check_id REQUEST_SLOT row, check_id U64 publish_seq]) (\<lambda>_.
            Inr (n\<lparr>nt_ring := Some (snd (push \<lparr>sc_block_kind = kind, sc_row = row, sc_publish_seq = publish_seq\<rparr> r))\<rparr>))) (\<lambda>n'.
     case nt_bell n' of None \<Rightarrow> Inr n' | Some g \<Rightarrow> bind_r (bell_ring g) (\<lambda>g'. Inr (n'\<lparr>nt_bell := Some g'\<rparr>)))"

definition publish_encoded :: "table_partition \<Rightarrow> notifier \<Rightarrow> int \<Rightarrow> int \<Rightarrow> store list \<Rightarrow> (table_partition \<times> notifier) result" where
  "publish_encoded p n row publish_seq encoded =
     (let p' = p\<lparr>tp_bytes := fold apply_store (publication_stores (tp_layout p) row publish_seq encoded) (tp_bytes p)\<rparr>
      in bind_r (notify (tp_kind p) row publish_seq n) (\<lambda>n'. Inr (p', n')))"

definition publish ::
  "table_partition \<Rightarrow> notifier \<Rightarrow> int \<Rightarrow> int \<Rightarrow> (string \<times> field_value) list \<Rightarrow> (table_partition \<times> notifier) result" where
  "publish p n row publish_seq fvs =
     bind_r (checks [validate_row p row, check_id OP_SEQ publish_seq]) (\<lambda>_.
     bind_r (map_r (encode_field (tp_layout p)) fvs) (\<lambda>encoded.
     bind_r (read_publish_seq p row) (\<lambda>current.
     bind_r (if current = invalid U64 then Inr True else is_newer OP_SEQ publish_seq current) (\<lambda>newer.
     bind_r (require newer (TableProtocolError ''publish_seq must increase monotonically'')) (\<lambda>_.
       publish_encoded p n row publish_seq encoded)))))"

section \<open>Stable reads\<close>

record block_snapshot =
  bs_kind :: block_kind
  bs_row :: int
  bs_publish_seq :: int
  bs_fields :: "(string \<times> field_value) list"

definition snapshot_get :: "block_snapshot \<Rightarrow> string \<Rightarrow> field_value result" where
  "snapshot_get s name = (case map_of (bs_fields s) name of None \<Rightarrow> Inl (KeyError name) | Some v \<Rightarrow> Inr v)"

definition payload_fields :: "struct_layout \<Rightarrow> field_layout list" where
  "payload_fields l = filter (\<lambda>f. fd_name (fl_field f) \<noteq> ''publish_seq'') (field_layouts l)"

definition decode_field :: "bytes \<Rightarrow> field_layout \<Rightarrow> (string \<times> field_value) result" where
  "decode_field payload f = bind_r (decode_scalar (fd_type (fl_field f)) (subbuf (fl_offset f - 8) (fl_size f) payload)) (\<lambda>v.
     Inr (fd_name (fl_field f), v))"

definition selected_fields :: "struct_layout \<Rightarrow> bool \<Rightarrow> string list option \<Rightarrow> field_layout list result" where
  "selected_fields l include_cold names =
     (case names of
        None \<Rightarrow> Inr (filter (\<lambda>f. include_cold \<or> fd_hot (fl_field f)) (payload_fields l))
      | Some ns \<Rightarrow> map_r (\<lambda>name. case find (\<lambda>f. fd_name (fl_field f) = name) (payload_fields l) of
            None \<Rightarrow> Inl (KeyError name) | Some f \<Rightarrow> Inr f) ns)"

definition decode_payload :: "struct_layout \<Rightarrow> bytes \<Rightarrow> bool \<Rightarrow> string list option \<Rightarrow> (string \<times> field_value) list result" where
  "decode_payload l payload include_cold names =
     bind_r (selected_fields l include_cold names) (\<lambda>fs. map_r (decode_field payload) fs)"

text \<open>Byte \<open>i\<close> of the copy is access \<open>t + i\<close> of the memory.\<close>

definition copy_payload :: "struct_layout \<Rightarrow> (nat \<Rightarrow> bytes) \<Rightarrow> nat \<Rightarrow> int \<Rightarrow> bytes" where
  "copy_payload l mem t row = map (\<lambda>i. mem (t + i) ! (row_base l row + 8 + i)) [0..<sl_size l - 8]"

fun stable_loop :: "struct_layout \<Rightarrow> (nat \<Rightarrow> bytes) \<Rightarrow> int \<Rightarrow> nat \<Rightarrow> nat \<Rightarrow> (int \<times> bytes) option" where
  "stable_loop l mem row t 0 = None"
| "stable_loop l mem row t (Suc n) =
     (let seq_a = marker_of l (mem t) row in
      if seq_a = invalid U64 then stable_loop l mem row (t + 1) n
      else let payload = copy_payload l mem (t + 1) row; seq_b = marker_of l (mem (t + 1 + length payload)) row
        in if seq_a = seq_b \<and> seq_b \<noteq> invalid U64 then Some (seq_b, payload)
           else stable_loop l mem row (t + 2 + length payload) n)"

definition read_stable ::
  "table_partition \<Rightarrow> (nat \<Rightarrow> bytes) \<Rightarrow> int \<Rightarrow> bool \<Rightarrow> int \<Rightarrow> string list option \<Rightarrow> block_snapshot result" where
  "read_stable p mem row include_cold max_retries names =
     bind_r (checks [validate_row p row, require (0 < max_retries) (ValueError ''max_retries must be positive'')]) (\<lambda>_.
     case stable_loop (tp_layout p) mem row 0 (nat max_retries) of
       None \<Rightarrow> Inl (StableReadConflict ''changed during stable read'')
     | Some (seq, payload) \<Rightarrow> bind_r (decode_payload (tp_layout p) payload include_cold names) (\<lambda>fs.
         Inr \<lparr>bs_kind = tp_kind p, bs_row = row, bs_publish_seq = seq, bs_fields = fs\<rparr>))"

text \<open>A read while nobody writes, with the default number of attempts.\<close>

definition read_row :: "table_partition \<Rightarrow> int \<Rightarrow> bool \<Rightarrow> block_snapshot result" where
  "read_row p row include_cold = read_stable p (\<lambda>_. tp_bytes p) row include_cold 16 None"

section \<open>Tables\<close>

record sched_table =
  tb_partitions :: "(block_kind \<times> table_partition) list"
  tb_notifier :: notifier
  tb_bank_rows :: int

definition build_partitions :: "(block_kind \<times> int) list \<Rightarrow> (block_kind \<times> table_partition) list result" where
  "build_partitions kinds = map_r (\<lambda>(k, capacity). bind_r (new_partition (layout_of k) k capacity) (\<lambda>p. Inr (k, p))) kinds"

definition request_table :: "int \<Rightarrow> notifier \<Rightarrow> sched_table result" where
  "request_table max_active n =
     bind_r (checks [check_id REQUEST_SLOT max_active, require (0 < max_active) (ValueError ''max_active_requests must be positive'')]) (\<lambda>_.
     bind_r (build_partitions (map (\<lambda>k. (k, max_active)) request_kinds)) (\<lambda>ps.
       Inr \<lparr>tb_partitions = ps, tb_notifier = n, tb_bank_rows = 0\<rparr>))"

definition worker_registry :: "int \<Rightarrow> int \<Rightarrow> notifier \<Rightarrow> sched_table result" where
  "worker_registry max_workers bank_rows n =
     bind_r (checks [check_id REQUEST_SLOT max_workers, require (0 < max_workers) (ValueError ''max_workers must be positive''),
                     require (0 < bank_rows) (ValueError ''bank_rows_per_worker must be positive'')]) (\<lambda>_.
     bind_r (build_partitions (map (\<lambda>k. (k, if k \<in> {WORKER_BANK, WORKER_DRAFT_BANK} then max_workers * bank_rows else max_workers))
               worker_kinds)) (\<lambda>ps.
       Inr \<lparr>tb_partitions = ps, tb_notifier = n, tb_bank_rows = bank_rows\<rparr>))"

definition partition_of :: "sched_table \<Rightarrow> block_kind \<Rightarrow> table_partition result" where
  "partition_of t k = (case map_of (tb_partitions t) k of None \<Rightarrow> Inl (KeyError ''is not a block of this table'') | Some p \<Rightarrow> Inr p)"

fun put_partition :: "block_kind \<Rightarrow> table_partition \<Rightarrow> (block_kind \<times> table_partition) list \<Rightarrow> (block_kind \<times> table_partition) list" where
  "put_partition k p [] = []"
| "put_partition k p ((k', p') # ps) = (if k' = k then (k, p) # ps else (k', p') # put_partition k p ps)"

definition publish_owned ::
  "sched_table \<Rightarrow> string \<Rightarrow> block_kind \<Rightarrow> int \<Rightarrow> int \<Rightarrow> (string \<times> field_value) list \<Rightarrow> sched_table result" where
  "publish_owned t owner k row publish_seq fvs =
     bind_r (partition_of t k) (\<lambda>p.
     bind_r (require (sl_owner (tp_layout p) = owner) (TableProtocolError ''cannot publish a block owned by another'')) (\<lambda>_.
     bind_r (publish p (tb_notifier t) row publish_seq fvs) (\<lambda>(p', n').
       Inr (t\<lparr>tb_partitions := put_partition k p' (tb_partitions t), tb_notifier := n'\<rparr>))))"

section \<open>Reading a table\<close>

text \<open>How the writers read a row of a table: nobody else writes that row in between.\<close>

definition t_read :: "sched_table \<Rightarrow> block_kind \<Rightarrow> int \<Rightarrow> bool \<Rightarrow> block_snapshot result" where
  "t_read t k row include_cold = bind_r (partition_of t k) (\<lambda>p. read_row p row include_cold)"

definition t_read_names :: "sched_table \<Rightarrow> block_kind \<Rightarrow> int \<Rightarrow> string list \<Rightarrow> block_snapshot result" where
  "t_read_names t k row names = bind_r (partition_of t k) (\<lambda>p. read_stable p (\<lambda>_. tp_bytes p) row True 16 (Some names))"

definition t_publish_seq :: "sched_table \<Rightarrow> block_kind \<Rightarrow> int \<Rightarrow> int result" where
  "t_publish_seq t k row = bind_r (partition_of t k) (\<lambda>p. read_publish_seq p row)"

end
