(* ===== verification/TableSeqlock.thy ===== *)
theory TableSeqlock
  imports TableStorage
begin

text \<open>
  Readers of a table row run while its owner publishes, in another thread or process. The owner's publications are a
  list of stores; an access of the reader sees the memory after some number of them, and later accesses see
  no fewer. Stores to other rows may come in between. The stores of a publication may be cut into single
  bytes; only the 8 bytes of the sequence are stored at once.
\<close>

definition payload_store :: "struct_layout \<Rightarrow> store \<Rightarrow> bool" where
  "payload_store l s \<longleftrightarrow> 8 \<le> fst s \<and> fst s + length (snd s) \<le> row_stride l"

type_synonym publication = "int \<times> store list"

definition publication_ok :: "struct_layout \<Rightarrow> publication \<Rightarrow> bool" where
  "publication_ok l pub \<longleftrightarrow> is_valid U64 (fst pub) \<and> (\<forall>s \<in> set (snd pub). payload_store l s)"

definition stores_of :: "struct_layout \<Rightarrow> int \<Rightarrow> publication list \<Rightarrow> store list" where
  "stores_of l row pubs = concat (map (\<lambda>(seq, encoded). publication_stores l row seq encoded) pubs)"

text \<open>The memory after the first \<open>k\<close> stores.\<close>

definition memory_after :: "bytes \<Rightarrow> store list \<Rightarrow> nat \<Rightarrow> bytes" where
  "memory_after buf stores k = fold apply_store (take k stores) buf"

definition row_bytes :: "struct_layout \<Rightarrow> int \<Rightarrow> bytes \<Rightarrow> bytes" where
  "row_bytes l row buf = subbuf (row_base l row) (row_stride l) buf"

definition row_inside :: "struct_layout \<Rightarrow> int \<Rightarrow> bytes \<Rightarrow> bool" where
  "row_inside l row buf \<longleftrightarrow> 8 \<le> row_stride l \<and> row_base l row + row_stride l \<le> length buf"

section \<open>One publication\<close>

lemma stores_of_simps [simp]:
  "stores_of l row [] = []"
  "stores_of l row ((seq, encoded) # pubs) = publication_stores l row seq encoded @ stores_of l row pubs"
  by (simp_all add: stores_of_def)

lemma length_publication_stores [simp]: "length (publication_stores l row seq encoded) = Suc (Suc (length encoded))"
  by (simp add: publication_stores_def)

lemma marker_store: "row_inside l row buf \<Longrightarrow> 0 \<le> v \<Longrightarrow> v < 18446744073709551616 \<Longrightarrow>
    marker_of l (apply_store (row_base l row, le_bytes 8 v) buf) row = v"
  by (simp add: marker_of_def apply_store_def row_inside_def)

lemma payload_store_keeps:
  assumes "row_inside l row buf" "payload_store l s"
  shows "marker_of l (apply_store (row_base l row + fst s, snd s) buf) row = marker_of l buf row"
    "length (apply_store (row_base l row + fst s, snd s) buf) = length buf"
proof -
  have "row_base l row + 8 \<le> row_base l row + fst s" "row_base l row + fst s + length (snd s) \<le> length buf"
    using assms by (simp_all add: payload_store_def row_inside_def)
  then show "marker_of l (apply_store (row_base l row + fst s, snd s) buf) row = marker_of l buf row"
    "length (apply_store (row_base l row + fst s, snd s) buf) = length buf"
    using subbuf_overwrite_before [of "row_base l row" 8 "row_base l row + fst s" buf "snd s"]
    by (simp_all add: marker_of_def apply_store_def)
qed

lemma payload_stores_keep:
  assumes "row_inside l row buf" "\<forall>s \<in> set ss. payload_store l s"
  shows "marker_of l (fold apply_store (map (\<lambda>(offset, raw). (row_base l row + offset, raw)) ss) buf) row = marker_of l buf row
    \<and> length (fold apply_store (map (\<lambda>(offset, raw). (row_base l row + offset, raw)) ss) buf) = length buf"
  using assms
proof (induction ss arbitrary: buf)
  case (Cons s ss)
  have s: "payload_store l s" using Cons.prems(2) by simp
  let ?buf = "apply_store (row_base l row + fst s, snd s) buf"
  have "row_inside l row ?buf" using payload_store_keeps(2) [OF Cons.prems(1) s] Cons.prems(1) by (simp add: row_inside_def)
  from Cons.IH [OF this] Cons.prems(2) payload_store_keeps [OF Cons.prems(1) s]
  show ?case by (simp add: case_prod_unfold)
qed simp

lemma invalid_U64 [simp]: "invalid U64 = 18446744073709551615"
  by (simp add: domain_defs U64_def)

text \<open>Inside a publication the row is invalid, after it the row has its sequence.\<close>

lemma publication_marker:
  assumes "row_inside l row buf" "publication_ok l (seq, encoded)" "0 < k" "k \<le> Suc (Suc (length encoded))"
  shows "marker_of l (memory_after buf (publication_stores l row seq encoded) k) row
      = (if k = Suc (Suc (length encoded)) then seq else invalid U64)
    \<and> length (memory_after buf (publication_stores l row seq encoded) k) = length buf"
proof -
  let ?st = "map (\<lambda>(offset, raw). (row_base l row + offset, raw))"
  let ?b1 = "apply_store (row_base l row, le_bytes 8 (invalid U64)) buf"
  have l1: "length ?b1 = length buf" using assms(1) by (simp add: apply_store_def row_inside_def)
  have i1: "row_inside l row ?b1" using assms(1) l1 by (simp add: row_inside_def)
  have m1: "marker_of l ?b1 row = invalid U64" using marker_store [OF assms(1)] by simp
  have ok: "\<forall>s \<in> set (take j encoded). payload_store l s" for j
    using assms(2) by (auto simp: publication_ok_def dest: in_set_takeD)
  have part: "marker_of l (fold apply_store (?st (take j encoded)) ?b1) row = invalid U64
      \<and> length (fold apply_store (?st (take j encoded)) ?b1) = length buf" for j
    using payload_stores_keep [OF i1 ok] m1 l1 by simp
  show ?thesis
  proof (cases "k = Suc (Suc (length encoded))")
    case True
    let ?b2 = "fold apply_store (?st encoded) ?b1"
    have "length ?b2 = length buf" using part [of "length encoded"] by simp
    then have i2: "row_inside l row ?b2" using assms(1) by (simp add: row_inside_def)
    have "memory_after buf (publication_stores l row seq encoded) k = apply_store (row_base l row, le_bytes 8 seq) ?b2"
      by (simp add: True memory_after_def publication_stores_def)
    moreover have "0 \<le> seq" "seq < 18446744073709551616" using assms(2) by (simp_all add: publication_ok_def)
    ultimately show ?thesis using marker_store [OF i2] True \<open>length ?b2 = length buf\<close> assms(1)
      by (simp add: apply_store_def row_inside_def)
  next
    case False
    then obtain j where j: "k = Suc j" "j \<le> length encoded" using assms(3,4) by (cases k) auto
    then have "memory_after buf (publication_stores l row seq encoded) k = fold apply_store (?st (take j encoded)) ?b1"
      by (simp add: memory_after_def publication_stores_def take_map)
    then show ?thesis using part [of j] False by simp
  qed
qed

section \<open>A history of publications\<close>

lemma memory_after_append:
  "memory_after buf (xs @ ys) k = (if k \<le> length xs then memory_after buf xs k
     else memory_after (memory_after buf xs (length xs)) ys (k - length xs))"
  by (simp add: memory_after_def)

lemma stores_inside:
  assumes "row_inside l row buf" "\<forall>pub \<in> set pubs. publication_ok l pub" "s \<in> set (stores_of l row pubs)"
  shows "fst s + length (snd s) \<le> length buf"
proof -
  obtain pub where pub: "pub \<in> set pubs" "s \<in> set (publication_stores l row (fst pub) (snd pub))"
    using assms(3) by (auto simp: stores_of_def)
  then have "publication_ok l pub" using assms(2) by blast
  then show ?thesis using pub(2) assms(1) by (auto simp: publication_stores_def publication_ok_def payload_store_def row_inside_def)
qed

lemma fold_stores_length:
  "\<forall>s \<in> set ss. fst s + length (snd s) \<le> length buf \<Longrightarrow> length (fold apply_store ss buf) = length buf"
proof (induction ss arbitrary: buf)
  case (Cons s ss)
  then have "length (apply_store s buf) = length buf" by (simp add: apply_store_def)
  with Cons show ?case by simp
qed simp

lemma memory_after_length:
  assumes "row_inside l row buf" "\<forall>pub \<in> set pubs. publication_ok l pub"
  shows "length (memory_after buf (stores_of l row pubs) k) = length buf"
  unfolding memory_after_def using stores_inside [OF assms] by (intro fold_stores_length) (blast dest: in_set_takeD)

text \<open>A row that looks valid is between two publications and has the sequence of the one before.\<close>

lemma valid_marker_boundary:
  assumes "row_inside l row buf" "\<forall>pub \<in> set pubs. publication_ok l pub" "k \<le> length (stores_of l row pubs)"
    and "marker_of l (memory_after buf (stores_of l row pubs) k) row \<noteq> invalid U64"
  shows "\<exists>j \<le> length pubs. k = length (stores_of l row (take j pubs))
    \<and> marker_of l (memory_after buf (stores_of l row pubs) k) row = (marker_of l buf row # map fst pubs) ! j"
  using assms
proof (induction pubs arbitrary: buf k)
  case Nil
  then show ?case by (simp add: memory_after_def)
next
  case (Cons pub pubs)
  obtain seq encoded where pub: "pub = (seq, encoded)" by (cases pub)
  let ?xs = "publication_stores l row seq encoded" and ?m = "Suc (Suc (length encoded))"
  have ok: "publication_ok l (seq, encoded)" using Cons.prems(2) pub by simp
  show ?case
  proof (cases "k < ?m")
    case True
    have "memory_after buf (stores_of l row (pub # pubs)) k = memory_after buf ?xs k"
      using True by (simp add: pub memory_after_append)
    then have "k = 0" using Cons.prems(4) publication_marker [OF Cons.prems(1) ok, of k] True by (cases "k = 0") auto
    then show ?thesis by (intro exI [of _ 0]) (simp add: memory_after_def)
  next
    case False
    let ?b = "memory_after buf ?xs ?m"
    have b: "marker_of l ?b row = seq" "length ?b = length buf" using publication_marker [OF Cons.prems(1) ok, of ?m] by simp_all
    have split: "memory_after buf (stores_of l row (pub # pubs)) k = memory_after ?b (stores_of l row pubs) (k - ?m)"
      using False by (auto simp: pub memory_after_append) (simp add: memory_after_def)
    have "row_inside l row ?b" using Cons.prems(1) b(2) by (simp add: row_inside_def)
    moreover have "k - ?m \<le> length (stores_of l row pubs)" using Cons.prems(3) by (simp add: pub)
    ultimately obtain j where j: "j \<le> length pubs" "k - ?m = length (stores_of l row (take j pubs))"
      "marker_of l (memory_after ?b (stores_of l row pubs) (k - ?m)) row = (seq # map fst pubs) ! j"
      using Cons.IH [of ?b "k - ?m"] Cons.prems(2,4) b(1) unfolding split by auto
    show ?thesis
    proof (intro exI [of _ "Suc j"] conjI)
      show "k = length (stores_of l row (take (Suc j) (pub # pubs)))" using j(2) False by (simp add: pub)
    qed (use j split pub in auto)
  qed
qed

lemma same_sequence_same_place:
  assumes "row_inside l row buf" "\<forall>pub \<in> set pubs. publication_ok l pub" "distinct (marker_of l buf row # map fst pubs)"
    and "k \<le> length (stores_of l row pubs)" "k' \<le> length (stores_of l row pubs)"
    and "marker_of l (memory_after buf (stores_of l row pubs) k) row = seq"
    and "marker_of l (memory_after buf (stores_of l row pubs) k') row = seq" and "seq \<noteq> invalid U64"
  shows "k = k'"
proof -
  obtain j where j: "j \<le> length pubs" "k = length (stores_of l row (take j pubs))" "seq = (marker_of l buf row # map fst pubs) ! j"
    using valid_marker_boundary [OF assms(1,2,4)] assms(6,8) by auto
  obtain j' where j': "j' \<le> length pubs" "k' = length (stores_of l row (take j' pubs))" "seq = (marker_of l buf row # map fst pubs) ! j'"
    using valid_marker_boundary [OF assms(1,2,5)] assms(7,8) by auto
  have "j = j'" using nth_eq_iff_index_eq [OF assms(3), of j j'] j j' by simp
  then show ?thesis using j j' by simp
qed

section \<open>Concurrent readers\<close>

text \<open>Access \<open>t\<close> of the reader finds in this row what the owner had stored when it had made \<open>seen t\<close> stores.\<close>

definition concurrent ::
  "struct_layout \<Rightarrow> int \<Rightarrow> bytes \<Rightarrow> publication list \<Rightarrow> (nat \<Rightarrow> nat) \<Rightarrow> (nat \<Rightarrow> bytes) \<Rightarrow> bool" where
  "concurrent l row buf pubs seen mem \<longleftrightarrow> (\<forall>s t. s \<le> t \<longrightarrow> seen s \<le> seen t)
     \<and> (\<forall>t. seen t \<le> length (stores_of l row pubs) \<and> length (mem t) = length buf
          \<and> row_bytes l row (mem t) = row_bytes l row (memory_after buf (stores_of l row pubs) (seen t)))"

lemma row_bytes_marker:
  assumes "row_bytes l row buf = row_bytes l row buf'" "8 \<le> row_stride l"
  shows "marker_of l buf row = marker_of l buf' row"
proof -
  have "subbuf (row_base l row) 8 b = subbuf 0 8 (row_bytes l row b)" for b
    using assms(2) by (simp add: row_bytes_def subbuf_def min_absorb1)
  then show ?thesis by (simp add: marker_of_def assms(1))
qed

lemma row_bytes_nth:
  assumes "row_bytes l row buf = row_bytes l row buf'" "row_inside l row buf" "row_inside l row buf'" "i < row_stride l"
  shows "buf ! (row_base l row + i) = buf' ! (row_base l row + i)"
proof -
  have "b ! (row_base l row + i) = row_bytes l row b ! i" if "row_inside l row b" for b
    using that assms(4) by (simp add: row_bytes_def subbuf_def row_inside_def)
  then show ?thesis using assms by metis
qed

lemma stable_loop_Some:
  "stable_loop l mem row t n = Some (seq, payload) \<Longrightarrow> \<exists>u. seq \<noteq> invalid U64 \<and> marker_of l (mem u) row = seq
     \<and> payload = copy_payload l mem (u + 1) row \<and> marker_of l (mem (u + 1 + length payload)) row = seq"
proof (induction l mem row t n rule: stable_loop.induct)
  case (2 l mem row t n)
  let ?p = "copy_payload l mem (t + 1) row" and ?m = "\<lambda>u. marker_of l (mem u) row"
  note IH1 = 2(1) and IH2 = 2(2) and prems = 2(3)
  consider "?m t = invalid U64" | "?m t \<noteq> invalid U64" "?m t \<noteq> ?m (t + 1 + length ?p)"
    | "?m t \<noteq> invalid U64" "?m t = ?m (t + 1 + length ?p)" by blast
  then show ?case
  proof cases
    case 1
    then show ?thesis using IH1 [OF refl 1] prems by simp
  next
    case 2
    then show ?thesis using IH2 [OF refl 2(1) refl refl] prems by (auto simp: Let_def)
  next
    case 3
    then show ?thesis using prems by (auto simp: Let_def intro!: exI [of _ t])
  qed
qed simp

text \<open>C5: a reader never sees a torn row: however the accesses of a stable read fall between the stores of the row's
  owner, a read that succeeds returns exactly what the row held after one complete publication (or before the
  first), with the sequence of that publication, and one no older than what was stored when the read
  began. The sequences used by the owner must be different ones.\<close>

theorem stable_reads_never_torn:
  assumes "layout_ok (tp_layout p)" "row_inside (tp_layout p) row buf" "\<forall>pub \<in> set pubs. publication_ok (tp_layout p) pub"
    and "distinct (marker_of (tp_layout p) buf row # map fst pubs)" "concurrent (tp_layout p) row buf pubs seen mem"
    and "read_stable p mem row include_cold max_retries names = Inr snap"
  shows "\<exists>j \<le> length pubs. bs_publish_seq snap = (marker_of (tp_layout p) buf row # map fst pubs) ! j
     \<and> seen 0 \<le> length (stores_of (tp_layout p) row (take j pubs))
     \<and> read_stable p (\<lambda>_. memory_after buf (stores_of (tp_layout p) row pubs) (length (stores_of (tp_layout p) row (take j pubs))))
         row include_cold 1 names = Inr snap"
proof -
  let ?l = "tp_layout p"
  let ?mem = "\<lambda>k. memory_after buf (stores_of ?l row pubs) k"
  note con = assms(5) [unfolded concurrent_def]
  obtain seq payload fs where loop: "stable_loop ?l mem row 0 (nat max_retries) = Some (seq, payload)"
    and dec: "decode_payload ?l payload include_cold names = Inr fs"
    and snap: "snap = \<lparr>bs_kind = tp_kind p, bs_row = row, bs_publish_seq = seq, bs_fields = fs\<rparr>" and row: "validate_row p row = Inr ()"
    using assms(6) by (auto simp: read_stable_def bind_r_eq_Inr split: option.splits)
  obtain u where u: "seq \<noteq> invalid U64" "marker_of ?l (mem u) row = seq" "payload = copy_payload ?l mem (u + 1) row"
    "marker_of ?l (mem (u + 1 + length payload)) row = seq"
    using stable_loop_Some [OF loop] by blast
  let ?v = "u + 1 + length payload" and ?k = "seen u"
  have stride: "8 \<le> row_stride ?l" using assms(2) by (simp add: row_inside_def)
  have mk: "marker_of ?l (mem t) row = marker_of ?l (?mem (seen t)) row" for t
    using con stride by (intro row_bytes_marker) auto
  have same: "seen u = seen ?v"
    using same_sequence_same_place [OF assms(2,3,4), of "seen u" "seen ?v" seq] con u mk by auto
  have at: "seen t = ?k" if "u \<le> t" "t \<le> ?v" for t
    using con same that by (metis le_antisym)
  have inside: "row_inside ?l row (mem t)" "row_inside ?l row (?mem k)" for t k
    using assms(2) con memory_after_length [OF assms(2,3)] by (simp_all add: row_inside_def)
  have al: "0 < sl_row_alignment ?l" and size_le: "sl_size ?l \<le> row_stride ?l"
    using assms(1) align_up_facts(1) by (auto simp: layout_ok_def row_stride_def)
  have pay: "payload = copy_payload ?l (\<lambda>_. ?mem ?k) 1 row"
  proof -
    have "mem (u + 1 + i) ! (row_base ?l row + 8 + i) = ?mem ?k ! (row_base ?l row + 8 + i)" if i: "i < sl_size ?l - 8" for i
    proof -
      have "seen (u + 1 + i) = ?k" using i u(3) by (intro at) (simp_all add: copy_payload_def)
      then have "row_bytes ?l row (mem (u + 1 + i)) = row_bytes ?l row (?mem ?k)" using con by metis
      from row_bytes_nth [OF this inside, of "8 + i"] i size_le show ?thesis by (simp add: add.assoc)
    qed
    then show ?thesis unfolding u(3) copy_payload_def by (intro map_cong) simp_all
  qed
  have mk': "marker_of ?l (?mem ?k) row = seq" using mk [of u] u(2) by simp
  obtain j where j: "j \<le> length pubs" "?k = length (stores_of ?l row (take j pubs))" "seq = (marker_of ?l buf row # map fst pubs) ! j"
    using valid_marker_boundary [OF assms(2,3), of ?k] con mk' u(1) by auto
  have "stable_loop ?l (\<lambda>_. ?mem ?k) row 0 1 = Some (seq, payload)"
    using mk' u(1) pay by (simp add: Let_def)
  then have "read_stable p (\<lambda>_. ?mem ?k) row include_cold 1 names = Inr snap"
    using row dec snap by (simp add: read_stable_def)
  moreover have "seen 0 \<le> ?k" using con by blast
  ultimately show ?thesis using j snap by (intro exI [of _ j]) simp
qed

definition demo_partition :: table_partition where
  "demo_partition = \<lparr>tp_layout = layout_of WORKER_TARGET_COPY_RUNTIME, tp_kind = WORKER_TARGET_COPY_RUNTIME, tp_capacity = 1,
     tp_bytes = replicate 8 255 @ replicate 32 0\<rparr>"

definition demo_publications :: "publication list" where
  "demo_publications = [(0, [(8, le_bytes 8 7)]), (1, [(8, le_bytes 8 9)])]"

definition demo_seen :: "nat \<Rightarrow> nat" where
  "demo_seen t = (if t = 0 then 3 else 6)"

definition demo_memory :: "nat \<Rightarrow> bytes" where
  "demo_memory t = memory_after (tp_bytes demo_partition) (stores_of (tp_layout demo_partition) 0 demo_publications) (demo_seen t)"

lemma demo_layout:
  "row_stride (tp_layout demo_partition) = 40" "sl_size (tp_layout demo_partition) = 40"
  by (code_simp, code_simp)

theorem stable_reads_never_torn_witness:
  "case read_stable demo_partition demo_memory 0 True 2 (Some [''copy_op_seq'']) of Inl e \<Rightarrow> False
   | Inr snap \<Rightarrow> snapshot_get snap ''copy_op_seq'' = Inr (VInt 9) \<and> (\<exists>j \<le> 2. bs_publish_seq snap = [invalid U64, 0, 1] ! j)"
proof -
  let ?l = "tp_layout demo_partition" and ?buf = "tp_bytes demo_partition"
  have m: "marker_of ?l ?buf 0 = invalid U64" by code_simp
  have len: "length ?buf = 40" by (simp add: demo_partition_def)
  have inside: "row_inside ?l 0 ?buf" by (simp add: row_inside_def demo_layout len row_base_def)
  have ok: "\<forall>pub \<in> set demo_publications. publication_ok ?l pub"
    by (simp add: demo_publications_def publication_ok_def payload_store_def demo_layout)
  have con: "concurrent ?l 0 ?buf demo_publications demo_seen demo_memory"
    using memory_after_length [OF inside ok]
    by (auto simp: concurrent_def demo_memory_def demo_seen_def demo_publications_def)
  have lay: "layout_ok ?l" unfolding demo_partition_def by (simp only: table_partition.simps layout_ok_all)
  have d: "distinct (marker_of ?l ?buf 0 # map fst demo_publications)" by (simp add: m demo_publications_def)
  have "case read_stable demo_partition demo_memory 0 True 2 (Some [''copy_op_seq'']) of Inl e \<Rightarrow> False
      | Inr snap \<Rightarrow> snapshot_get snap ''copy_op_seq'' = Inr (VInt 9)" by code_simp
  then obtain snap where snap: "read_stable demo_partition demo_memory 0 True 2 (Some [''copy_op_seq'']) = Inr snap"
    "snapshot_get snap ''copy_op_seq'' = Inr (VInt 9)" by (auto split: sum.splits)
  from stable_reads_never_torn [OF lay inside ok d con snap(1)] obtain j where "j \<le> length demo_publications"
    "bs_publish_seq snap = (marker_of ?l ?buf 0 # map fst demo_publications) ! j" by blast
  then have "j \<le> 2 \<and> bs_publish_seq snap = [invalid U64, 0, 1] ! j" unfolding m by (simp add: demo_publications_def)
  then show ?thesis using snap by auto
qed

end
