(* ===== verification/TableFacts.thy ===== *)
theory TableFacts
  imports TableSeqlock
begin

text \<open>
  What a publication leaves behind: a row reads back what was published into it, keeps the fields the publication
  does not name, and no other row changes.
\<close>

section \<open>Scalars\<close>

definition value_ok :: "field_value \<Rightarrow> bool" where
  "value_ok v = (case v of VInt x \<Rightarrow> True | VHandle h \<Rightarrow> handle_ok h)"

lemma encode_scalar_decodes:
  assumes "encode_scalar f v = Inr raw" "value_ok v"
  shows "length raw = scalar_size (fd_type f) \<and> decode_scalar (fd_type f) raw = Inr v"
proof (cases v)
  case (VHandle h)
  then have f: "fd_type f = SHANDLE" and raw: "raw = le_bytes 8 (h_offset h) @ le_bytes 4 (h_length h) @ le_bytes 4 (h_generation h)"
    using assms(1) by (auto simp: encode_scalar_def split: if_splits)
  have h: "handle_ok h" using assms(2) VHandle by (simp add: value_ok_def)
  then have b: "0 \<le> h_offset h" "h_offset h < 256 ^ 8" "0 \<le> h_length h" "h_length h < 256 ^ 4" "0 \<le> h_generation h" "h_generation h < 256 ^ 4"
    by (simp_all add: handle_ok_iff)
  have "subbuf 0 8 raw = le_bytes 8 (h_offset h)" "subbuf 8 4 raw = le_bytes 4 (h_length h)" "subbuf 12 4 raw = le_bytes 4 (h_generation h)"
    by (simp_all add: raw subbuf_def)
  then have "decode_scalar SHANDLE raw = bind_r (mk_handle (h_offset h) (h_length h) (h_generation h)) (\<lambda>h. Inr (VHandle h))"
    using b by (simp add: decode_scalar_def del: power_numeral)
  then show ?thesis using h f raw VHandle by (simp add: mk_handle_def Let_def)
next
  case (VInt x)
  then have nh: "fd_type f \<noteq> SHANDLE" using assms(1) by (auto simp: encode_scalar_def)
  show ?thesis
  proof (cases "fd_type f = SI32")
    case True
    then have x: "- 2147483648 \<le> x" "x \<le> 2147483647" and raw: "raw = le_bytes 4 (x mod 4294967296)"
      using assms(1) VInt by (auto simp: encode_scalar_def bind_r_eq_Inr)
    have "le_int raw = x mod 4294967296" unfolding raw by (rule le_int_le_bytes) simp_all
    moreover have "x mod 4294967296 = (if x < 0 then x + 4294967296 else x)"
    proof (cases "x < 0")
      case True
      have "x mod 4294967296 = (x + 4294967296) mod 4294967296" by simp
      also have "\<dots> = x + 4294967296" by (rule mod_pos_pos_trivial) (use x True in simp_all)
      finally show ?thesis using True by simp
    qed (use x in simp)
    ultimately show ?thesis using True VInt x raw by (simp add: decode_scalar_def Let_def)
  next
    case False
    then have x: "0 \<le> x" "x \<le> unsigned_maximum (scalar_size (fd_type f))" and raw: "raw = le_bytes (scalar_size (fd_type f)) x"
      using assms(1) VInt nh by (auto simp: encode_scalar_def bind_r_eq_Inr)
    have "x < 256 ^ scalar_size (fd_type f)" using x nh False
      by (cases "fd_type f") (simp_all add: unsigned_maximum_def domain_defs U8_def U32_def U64_def)
    then have "le_int raw = x" unfolding raw using x(1) by (rule le_int_le_bytes [rotated])
    moreover have "\<not> scalar_signed (fd_type f)" using False by (cases "fd_type f") simp_all
    ultimately show ?thesis using VInt raw nh by (simp add: decode_scalar_def Let_def)
  qed
qed

section \<open>Fields of a row\<close>

lemma layout_fields_apart:
  assumes "f \<in> set (field_layouts l)" "g \<in> set (field_layouts l)" "f \<noteq> g"
  shows "before f g \<or> before g f"
proof -
  have "sorted_wrt before fs \<Longrightarrow> f \<in> set fs \<Longrightarrow> g \<in> set fs \<Longrightarrow> f \<noteq> g \<Longrightarrow> before f g \<or> before g f" for fs
    by (induction fs) auto
  then show ?thesis using place_fields_sorted assms unfolding field_layouts_def by blast
qed

lemma layout_head:
  assumes "layout_ok l"
  obtains owner fs where "field_layouts l = \<lparr>fl_field = publish_seq_field owner, fl_offset = 0\<rparr> # fs"
    "payload_fields l = fs" "\<forall>f \<in> set fs. 8 \<le> fl_offset f" "distinct (map (fd_name \<circ> fl_field) (field_layouts l))"
proof -
  obtain owner rest where r: "sl_fields l = publish_seq_field owner # rest" using assms by (auto simp: layout_ok_def)
  let ?h = "\<lparr>fl_field = publish_seq_field owner, fl_offset = 0\<rparr>" and ?fs = "place_fields 8 rest"
  have fl: "field_layouts l = ?h # ?fs"
    by (simp add: field_layouts_def r Let_def align_up_def publish_seq_field_def field_def)
  have d: "distinct (map (fd_name \<circ> fl_field) (field_layouts l))"
    using assms by (simp add: layout_ok_def field_layouts_def flip: map_map)
  then have "\<forall>f \<in> set ?fs. fd_name (fl_field f) \<noteq> ''publish_seq''"
    unfolding fl by (force simp: publish_seq_field_def field_def)
  then have "payload_fields l = ?fs" using d by (simp add: payload_fields_def fl publish_seq_field_def field_def)
  moreover have "\<forall>f \<in> set ?fs. 8 \<le> fl_offset f" using place_fields_facts(1) by blast
  ultimately show ?thesis using that fl d by blast
qed

definition field_bytes :: "struct_layout \<Rightarrow> bytes \<Rightarrow> int \<Rightarrow> field_layout \<Rightarrow> bytes" where
  "field_bytes l buf row f = subbuf (row_base l row + fl_offset f) (fl_size f) buf"

lemma copy_payload_static:
  assumes "row_inside l row buf" "sl_size l \<le> row_stride l" "8 \<le> sl_size l"
  shows "copy_payload l (\<lambda>_. buf) t row = subbuf (row_base l row + 8) (sl_size l - 8) buf"
  using assms by (intro nth_equalityI) (simp_all add: copy_payload_def subbuf_def row_inside_def)

lemma payload_field_bytes:
  assumes "row_inside l row buf" "layout_ok l" "f \<in> set (payload_fields l)"
  shows "subbuf (fl_offset f - 8) (fl_size f) (copy_payload l (\<lambda>_. buf) t row) = field_bytes l buf row f"
proof -
  obtain owner fs where fs: "field_layouts l = \<lparr>fl_field = publish_seq_field owner, fl_offset = 0\<rparr> # fs"
    "payload_fields l = fs" "\<forall>f \<in> set fs. 8 \<le> fl_offset f" using layout_head [OF assms(2)] .
  then have f: "f \<in> set (field_layouts l)" "8 \<le> fl_offset f" using assms(3) by auto
  have al: "0 < sl_row_alignment l" using assms(2) by (auto simp: layout_ok_def)
  have in1: "fl_offset f + fl_size f \<le> sl_size l" and in2: "sl_size l \<le> row_stride l" using field_inside [OF f(1) al] .
  have s8: "8 \<le> sl_size l" using in1 f(2) by simp
  have "subbuf (fl_offset f - 8) (fl_size f) (subbuf (row_base l row + 8) (sl_size l - 8) buf)
      = subbuf (row_base l row + 8 + (fl_offset f - 8)) (fl_size f) buf"
    using in1 f(2) by (simp add: subbuf_def drop_take min_absorb1 add.commute)
  then show ?thesis using copy_payload_static [OF assms(1) in2 s8] f(2) by (simp add: field_bytes_def)
qed

section \<open>Well-formed partitions\<close>

definition fields_decode :: "table_partition \<Rightarrow> int \<Rightarrow> bool" where
  "fields_decode p row \<longleftrightarrow> (\<forall>f \<in> set (payload_fields (tp_layout p)).
     returns (decode_scalar (fd_type (fl_field f)) (field_bytes (tp_layout p) (tp_bytes p) row f)))"

definition row_ok :: "table_partition \<Rightarrow> int \<Rightarrow> bool" where
  "row_ok p row \<longleftrightarrow> 0 \<le> row \<and> row < tp_capacity p"

definition partition_ok :: "table_partition \<Rightarrow> bool" where
  "partition_ok p \<longleftrightarrow> layout_ok (tp_layout p) \<and> is_valid U32 (tp_capacity p)
     \<and> length (tp_bytes p) = nat (tp_capacity p) * row_stride (tp_layout p)
     \<and> (\<forall>row. row_ok p row \<longrightarrow> fields_decode p row)"

lemma layout_sizes:
  assumes "layout_ok l"
  shows "8 \<le> sl_size l" "sl_size l \<le> row_stride l" "8 \<le> row_stride l"
proof -
  obtain owner fs where fs: "field_layouts l = \<lparr>fl_field = publish_seq_field owner, fl_offset = 0\<rparr> # fs"
    using layout_head [OF assms] .
  have al: "0 < sl_row_alignment l" using assms by (auto simp: layout_ok_def)
  show "8 \<le> sl_size l" using field_inside(1) [OF _ al, of "\<lparr>fl_field = publish_seq_field owner, fl_offset = 0\<rparr>"] fs
    by (simp add: fl_size_def publish_seq_field_def field_def)
  moreover show "sl_size l \<le> row_stride l" using align_up_facts(1) [OF al] by (simp add: row_stride_def)
  ultimately show "8 \<le> row_stride l" by simp
qed

lemma partition_row_inside:
  assumes "partition_ok p" "row_ok p row"
  shows "row_inside (tp_layout p) row (tp_bytes p)"
proof -
  have "nat row + 1 \<le> nat (tp_capacity p)" using assms(2) unfolding row_ok_def by linarith
  then have "(nat row + 1) * row_stride (tp_layout p) \<le> nat (tp_capacity p) * row_stride (tp_layout p)" by (rule mult_le_mono1)
  then show ?thesis using assms(1) layout_sizes(3) by (simp add: row_inside_def row_base_def partition_ok_def)
qed

lemma validate_row_ok: "partition_ok p \<Longrightarrow> validate_row p row = Inr () \<longleftrightarrow> row_ok p row"
  by (auto simp: validate_row_def row_ok_def partition_ok_def bind_r_eq_Inr)

section \<open>Reading a quiet row\<close>

text \<open>A row that was never written cannot be read; any other row reads as the values of its bytes.\<close>

definition field_in :: "table_partition \<Rightarrow> int \<Rightarrow> field_layout \<Rightarrow> field_value" where
  "field_in p row f = (case decode_scalar (fd_type (fl_field f)) (field_bytes (tp_layout p) (tp_bytes p) row f) of
     Inl e \<Rightarrow> VInt 0 | Inr v \<Rightarrow> v)"

definition row_marker :: "table_partition \<Rightarrow> int \<Rightarrow> int" where
  "row_marker p row = marker_of (tp_layout p) (tp_bytes p) row"

definition snapshot_of :: "table_partition \<Rightarrow> int \<Rightarrow> field_layout list \<Rightarrow> block_snapshot" where
  "snapshot_of p row fs = \<lparr>bs_kind = tp_kind p, bs_row = row, bs_publish_seq = row_marker p row,
     bs_fields = map (\<lambda>f. (fd_name (fl_field f), field_in p row f)) fs\<rparr>"

lemma stable_loop_invalid: "marker_of l buf row = invalid U64 \<Longrightarrow> stable_loop l (\<lambda>_. buf) row t n = None"
  by (induction n arbitrary: t) simp_all

lemma stable_loop_static:
  "0 < n \<Longrightarrow> stable_loop l (\<lambda>_. buf) row t n = (if marker_of l buf row = invalid U64 then None
     else Some (marker_of l buf row, copy_payload l (\<lambda>_. buf) (t + 1) row))"
  by (cases n) (simp_all add: Let_def stable_loop_invalid)

lemma read_static:
  assumes "partition_ok p" "row_ok p row" "0 < retries" "selected_fields (tp_layout p) include_cold names = Inr fs"
    and "set fs \<subseteq> set (payload_fields (tp_layout p))"
  shows "read_stable p (\<lambda>_. tp_bytes p) row include_cold retries names =
    (if row_marker p row = invalid U64 then Inl (StableReadConflict ''changed during stable read'')
     else Inr (snapshot_of p row fs))"
proof -
  let ?l = "tp_layout p" and ?pay = "copy_payload (tp_layout p) (\<lambda>_. tp_bytes p) (0 + 1) row"
  have lay: "layout_ok ?l" and dec: "fields_decode p row" using assms(1,2) by (auto simp: partition_ok_def)
  have "decode_field ?pay f = Inr (fd_name (fl_field f), field_in p row f)" if "f \<in> set fs" for f
  proof -
    have f: "f \<in> set (payload_fields ?l)" using that assms(5) by blast
    have "subbuf (fl_offset f - 8) (fl_size f) ?pay = field_bytes ?l (tp_bytes p) row f"
      using payload_field_bytes [OF partition_row_inside [OF assms(1,2)] lay f] .
    then show ?thesis using dec f by (auto simp: decode_field_def field_in_def fields_decode_def)
  qed
  then have "map_r (decode_field ?pay) fs = Inr (map (\<lambda>f. (fd_name (fl_field f), field_in p row f)) fs)"
    by (simp add: map_r_Inr list_all2_map2 list.rel_refl_strong)
  moreover have "validate_row p row = Inr ()" using validate_row_ok assms(1,2) by blast
  ultimately show ?thesis using assms(3,4)
    by (simp add: read_stable_def stable_loop_static row_marker_def decode_payload_def snapshot_of_def)
qed

lemma read_row_eq:
  assumes "partition_ok p" "row_ok p row"
  shows "read_row p row include_cold = (if row_marker p row = invalid U64 then Inl (StableReadConflict ''changed during stable read'')
     else Inr (snapshot_of p row (filter (\<lambda>f. include_cold \<or> fd_hot (fl_field f)) (payload_fields (tp_layout p)))))"
  unfolding read_row_def by (rule read_static [OF assms]) (auto simp: selected_fields_def)

lemma snapshot_get_field:
  assumes "layout_ok (tp_layout p)" "f \<in> set fs" "set fs \<subseteq> set (payload_fields (tp_layout p))"
  shows "snapshot_get (snapshot_of p row fs) (fd_name (fl_field f)) = Inr (field_in p row f)"
proof -
  obtain owner rest where r: "payload_fields (tp_layout p) = rest" "field_layouts (tp_layout p) = \<lparr>fl_field = publish_seq_field owner, fl_offset = 0\<rparr> # rest"
    "distinct (map (fd_name \<circ> fl_field) (field_layouts (tp_layout p)))" using layout_head [OF assms(1)] by metis
  have inj: "g = f" if "g \<in> set fs" "fd_name (fl_field g) = fd_name (fl_field f)" for g
  proof -
    have "inj_on (fd_name \<circ> fl_field) (set (field_layouts (tp_layout p)))" using r(3) by (simp add: distinct_map)
    moreover have "g \<in> set (field_layouts (tp_layout p))" "f \<in> set (field_layouts (tp_layout p))" using assms that r(1,2) by auto
    ultimately show ?thesis using that(2) by (auto simp: inj_on_def)
  qed
  have "map_of (map (\<lambda>f. (fd_name (fl_field f), field_in p row f)) fs) (fd_name (fl_field f)) = Some (field_in p row f)"
    using assms(2) inj by (induction fs) (auto split: if_splits, metis+)
  then show ?thesis by (simp add: snapshot_get_def snapshot_of_def)
qed

section \<open>Publishing\<close>

definition clear_of :: "nat \<Rightarrow> nat \<Rightarrow> store \<Rightarrow> bool" where
  "clear_of pos n s \<longleftrightarrow> fst s + length (snd s) \<le> pos \<or> pos + n \<le> fst s"

lemma list_all2_right: "list_all2 P xs ys \<Longrightarrow> y \<in> set ys \<Longrightarrow> \<exists>x \<in> set xs. P x y"
  by (induction rule: list_all2_induct) auto

lemma list_all2_left: "list_all2 P xs ys \<Longrightarrow> x \<in> set xs \<Longrightarrow> \<exists>y. P x y"
  by (induction rule: list_all2_induct) auto

lemma fold_clear:
  assumes "\<forall>s \<in> set ss. clear_of pos n s \<and> fst s + length (snd s) \<le> length buf"
  shows "subbuf pos n (fold apply_store ss buf) = subbuf pos n buf"
  using assms
proof (induction ss arbitrary: buf)
  case (Cons s ss)
  then have "length (apply_store s buf) = length buf" "subbuf pos n (apply_store s buf) = subbuf pos n buf"
    by (auto simp: apply_store_def clear_of_def intro!: subbuf_overwrite_disjoint)
  with Cons show ?case by simp
qed simp

lemma fold_hit:
  assumes "\<forall>s \<in> set (ss @ (pos, raw) # ts). fst s + length (snd s) \<le> length buf" "\<forall>s \<in> set ts. clear_of pos (length raw) s"
  shows "subbuf pos (length raw) (fold apply_store (ss @ (pos, raw) # ts) buf) = raw"
proof -
  let ?b = "fold apply_store ss buf"
  have len: "length ?b = length buf" using assms(1) by (intro fold_stores_length) auto
  have "length (apply_store (pos, raw) ?b) = length buf" using assms(1) len by (simp add: apply_store_def)
  then have "subbuf pos (length raw) (fold apply_store ts (apply_store (pos, raw) ?b)) = subbuf pos (length raw) (apply_store (pos, raw) ?b)"
    using assms by (intro fold_clear) auto
  also have "\<dots> = raw" using assms(1) len by (simp add: apply_store_def)
  finally show ?thesis by simp
qed

definition names_field :: "struct_layout \<Rightarrow> string \<times> field_value \<Rightarrow> store \<Rightarrow> field_layout \<Rightarrow> bool" where
  "names_field l fv s f \<longleftrightarrow> f \<in> set (payload_fields l) \<and> fd_name (fl_field f) = fst fv \<and> fst s = fl_offset f
     \<and> encode_scalar (fl_field f) (snd fv) = Inr (snd s)"

lemma encode_field_names:
  assumes "encode_field l fv = Inr s"
  shows "\<exists>f. names_field l fv s f"
proof -
  obtain f where "find (\<lambda>f. fd_name (fl_field f) = fst fv) (field_layouts l) = Some f" "fst fv \<noteq> ''publish_seq''"
    "encode_scalar (fl_field f) (snd fv) = Inr (snd s)" "fst s = fl_offset f"
    using assms by (auto simp: encode_field_def bind_r_eq_Inr split: option.splits)
  moreover from this(1) have "f \<in> set (field_layouts l)" "fd_name (fl_field f) = fst fv"
    by (auto simp: find_Some_iff)
  ultimately have "names_field l fv s f" by (simp add: names_field_def payload_fields_def)
  then show ?thesis ..
qed

lemma names_field_store:
  assumes "layout_ok l" "names_field l fv s f" "value_ok (snd fv)"
  shows "length (snd s) = fl_size f" "payload_store l s" "decode_scalar (fd_type (fl_field f)) (snd s) = Inr (snd fv)"
proof -
  have enc: "encode_scalar (fl_field f) (snd fv) = Inr (snd s)" and f: "f \<in> set (payload_fields l)" "fst s = fl_offset f"
    using assms(2) by (simp_all add: names_field_def)
  show len: "length (snd s) = fl_size f" and "decode_scalar (fd_type (fl_field f)) (snd s) = Inr (snd fv)"
    using encode_scalar_decodes [OF enc assms(3)] by (simp_all add: fl_size_def)
  have al: "0 < sl_row_alignment l" using assms(1) by (auto simp: layout_ok_def)
  have "f \<in> set (field_layouts l)" "8 \<le> fl_offset f" using layout_head [OF assms(1)] f(1) by (metis list.set_intros(2))+
  then show "payload_store l s" using field_inside [OF _ al, of f] len f(2) by (simp add: payload_store_def)
qed

lemma encoded_stores_ok:
  assumes "layout_ok l" "list_all2 (\<lambda>fv s. encode_field l fv = Inr s) fvs encoded" "\<forall>fv \<in> set fvs. value_ok (snd fv)"
  shows "\<forall>s \<in> set encoded. payload_store l s"
proof
  fix s
  assume "s \<in> set encoded"
  then obtain fv where "fv \<in> set fvs" "encode_field l fv = Inr s" using list_all2_right [OF assms(2)] by blast
  then show "payload_store l s" using encode_field_names names_field_store(2) [OF assms(1)] assms(3) by blast
qed

lemma publish_Inr:
  assumes "publish p n row seq fvs = Inr (p', n')"
  obtains encoded where "validate_row p row = Inr ()" "is_valid U64 seq" "list_all2 (\<lambda>fv s. encode_field (tp_layout p) fv = Inr s) fvs encoded"
    "row_marker p row = invalid U64 \<or> newer_id OP_SEQ seq (row_marker p row)"
    "p' = p\<lparr>tp_bytes := fold apply_store (publication_stores (tp_layout p) row seq encoded) (tp_bytes p)\<rparr>"
  using assms unfolding publish_def
  by (auto simp: bind_r_eq_Inr map_r_Inr publish_encoded_def Let_def read_publish_seq_def row_marker_def newer_id_def
      simp del: valid_U64 split: if_splits)

text \<open>The range of one field after all stores of a publication.\<close>

lemma published_field:
  assumes lay: "layout_ok l" and inside: "row_inside l row buf" and enc: "list_all2 (\<lambda>fv s. encode_field l fv = Inr s) fvs encoded"
    and vs: "\<forall>fv \<in> set fvs. value_ok (snd fv)" and d: "distinct (map fst fvs)" and f: "f \<in> set (payload_fields l)"
    and v: "is_valid U64 seq"
  shows "case map_of fvs (fd_name (fl_field f)) of
      None \<Rightarrow> field_bytes l (fold apply_store (publication_stores l row seq encoded) buf) row f = field_bytes l buf row f
    | Some x \<Rightarrow> decode_scalar (fd_type (fl_field f)) (field_bytes l (fold apply_store (publication_stores l row seq encoded) buf) row f) = Inr x"
proof -
  let ?B = "row_base l row" and ?new = "fold apply_store (publication_stores l row seq encoded) buf"
  let ?st = "map (\<lambda>(offset, raw). (?B + offset, raw))"
  obtain owner rest where r: "payload_fields l = rest" "field_layouts l = \<lparr>fl_field = publish_seq_field owner, fl_offset = 0\<rparr> # rest"
    "\<forall>f \<in> set rest. 8 \<le> fl_offset f" "distinct (map (fd_name \<circ> fl_field) (field_layouts l))" using layout_head [OF lay] by metis
  have f8: "8 \<le> fl_offset f" using r f by blast
  have ok: "\<forall>s \<in> set encoded. payload_store l s" by (rule encoded_stores_ok [OF lay enc vs])
  have in_all: "fst s + length (snd s) \<le> length buf" if "s \<in> set (publication_stores l row seq encoded)" for s
    using stores_inside [OF inside, of "[(seq, encoded)]" s] that ok v by (simp add: publication_ok_def)
  have other: "clear_of (?B + fl_offset f) (fl_size f) (?B + fst s, snd s)"
    if "encode_field l fv = Inr s" "fst fv \<noteq> fd_name (fl_field f)" "value_ok (snd fv)" for fv s
  proof -
    note named = encode_field_names [OF that(1)]
    obtain g where g: "names_field l fv s g" using named by blast
    then have "g \<noteq> f" "g \<in> set (field_layouts l)" "f \<in> set (field_layouts l)" using that(2) f r(1,2) by (auto simp: names_field_def)
    then have "before g f \<or> before f g" using layout_fields_apart by blast
    then show ?thesis using names_field_store(1) [OF lay g that(3)] g by (auto simp: clear_of_def before_def names_field_def)
  qed
  have ends: "clear_of (?B + fl_offset f) (fl_size f) (?B, le_bytes 8 x)" for x using f8 by (simp add: clear_of_def)
  have pub: "publication_stores l row seq encoded = (?B, le_bytes 8 (invalid U64)) # ?st encoded @ [(?B, le_bytes 8 seq)]"
    by (simp add: publication_stores_def)
  show ?thesis
  proof (cases "map_of fvs (fd_name (fl_field f))")
    case None
    have "clear_of (?B + fl_offset f) (fl_size f) s" if "s \<in> set (publication_stores l row seq encoded)" for s
    proof (cases "s \<in> set (?st encoded)")
      case True
      then obtain e where e: "e \<in> set encoded" "s = (?B + fst e, snd e)" by auto
      then obtain fv where "fv \<in> set fvs" "encode_field l fv = Inr e" using list_all2_right [OF enc] by blast
      then show ?thesis using other [of fv e] None vs e(2) by (metis map_of_eq_None_iff image_eqI)
    qed (use that ends pub in auto)
    then have "field_bytes l ?new row f = field_bytes l buf row f"
      unfolding field_bytes_def using in_all by (intro fold_clear) blast
    then show ?thesis using None by simp
  next
    case (Some x)
    then have "(fd_name (fl_field f), x) \<in> set fvs" by (rule map_of_SomeD)
    then obtain as bs where fvs: "fvs = as @ (fd_name (fl_field f), x) # bs" by (metis split_list)
    then obtain es e fs where ee: "encoded = es @ e # fs" "encode_field l (fd_name (fl_field f), x) = Inr e"
      "list_all2 (\<lambda>fv s. encode_field l fv = Inr s) bs fs"
      using enc by (auto simp: list_all2_append1 list_all2_Cons1)
    obtain g where g: "names_field l (fd_name (fl_field f), x) e g" using encode_field_names [OF ee(2)] by blast
    have "inj_on (fd_name \<circ> fl_field) (set (field_layouts l))" using r(4) by (simp add: distinct_map)
    then have "g = f" using g f r(1,2) by (auto simp: names_field_def inj_on_def)
    have x: "value_ok x" using vs fvs by simp
    note s = names_field_store [OF lay g] and gf = \<open>g = f\<close>
    have len: "length (snd e) = fl_size f" using s(1) x gf by simp
    have "clear_of (?B + fl_offset f) (length (snd e)) t" if "t \<in> set (?st fs @ [(?B, le_bytes 8 seq)])" for t
    proof (cases "t \<in> set (?st fs)")
      case True
      then obtain b where b: "b \<in> set fs" "t = (?B + fst b, snd b)" by auto
      then obtain fv where "fv \<in> set bs" "encode_field l fv = Inr b" using list_all2_right [OF ee(3)] by blast
      moreover from this have "fst fv \<noteq> fd_name (fl_field f)" using d fvs by (auto simp: rev_image_eqI)
      ultimately show ?thesis using other [of fv b] vs fvs b(2) len by simp
    qed (use that ends len in auto)
    moreover have "publication_stores l row seq encoded = ((?B, le_bytes 8 (invalid U64)) # ?st es) @ (?B + fl_offset f, snd e)
        # (?st fs @ [(?B, le_bytes 8 seq)])"
      using pub ee(1) g gf by (auto simp: names_field_def case_prod_unfold)
    ultimately have "subbuf (?B + fl_offset f) (length (snd e)) ?new = snd e"
      using fold_hit [of "(?B, le_bytes 8 (invalid U64)) # ?st es" "?B + fl_offset f" "snd e" "?st fs @ [(?B, le_bytes 8 seq)]" buf]
        in_all by metis
    then have "field_bytes l ?new row f = snd e" using len by (simp add: field_bytes_def)
    then show ?thesis using s(3) x gf Some by simp
  qed
qed

section \<open>What a publication changes\<close>

definition row_values :: "table_partition \<Rightarrow> int \<Rightarrow> string \<rightharpoonup> field_value" where
  "row_values p row = map_of (map (\<lambda>f. (fd_name (fl_field f), field_in p row f)) (payload_fields (tp_layout p)))"

lemma distinct_names: "layout_ok l \<Longrightarrow> distinct (map (fd_name \<circ> fl_field) (payload_fields l))"
  by (elim layout_head) auto

lemma row_values_field:
  assumes "layout_ok (tp_layout p)" "f \<in> set (payload_fields (tp_layout p))"
  shows "row_values p row (fd_name (fl_field f)) = Some (field_in p row f)"
  unfolding row_values_def using assms distinct_names [OF assms(1)]
  by (intro map_of_is_SomeI) (auto simp: comp_def)

lemma row_values_none: "name \<notin> (fd_name \<circ> fl_field) ` set (payload_fields (tp_layout p)) \<Longrightarrow> row_values p row name = None"
  by (force simp: row_values_def map_of_eq_None_iff)

lemma other_row_bytes:
  assumes "partition_ok p" "row_ok p r" "row_ok p row" "r \<noteq> row" "i + n \<le> row_stride (tp_layout p)"
    and "\<forall>s \<in> set ss. row_base (tp_layout p) row \<le> fst s \<and> fst s + length (snd s) \<le> row_base (tp_layout p) row + row_stride (tp_layout p)"
  shows "subbuf (row_base (tp_layout p) r + i) n (fold apply_store ss (tp_bytes p)) = subbuf (row_base (tp_layout p) r + i) n (tp_bytes p)"
proof (rule fold_clear, rule ballI)
  fix s
  assume s: "s \<in> set ss"
  let ?w = "row_stride (tp_layout p)"
  have inside: "row_base (tp_layout p) row + ?w \<le> length (tp_bytes p)"
    using partition_row_inside [OF assms(1,3)] by (simp add: row_inside_def)
  have "nat r < nat row \<or> nat row < nat r" using assms(2-4) by (auto simp: row_ok_def)
  then have "row_base (tp_layout p) r + ?w \<le> row_base (tp_layout p) row \<or> row_base (tp_layout p) row + ?w \<le> row_base (tp_layout p) r"
    by (elim disjE) (auto simp: row_base_def Suc_le_eq [symmetric] dest: mult_le_mono1 [of "Suc _" _ ?w])
  then show "clear_of (row_base (tp_layout p) r + i) n s \<and> fst s + length (snd s) \<le> length (tp_bytes p)"
    using assms(5,6) s inside by (force simp: clear_of_def)
qed

lemma publish_effect:
  assumes pk: "partition_ok p" and pub: "publish p n row seq fvs = Inr (p', n')" and d: "distinct (map fst fvs)"
    and vs: "list_all (value_ok \<circ> snd) fvs"
  shows "partition_ok p'" "row_ok p row" "is_valid U64 seq" "tp_layout p' = tp_layout p" "tp_kind p' = tp_kind p" "tp_capacity p' = tp_capacity p"
    "row_marker p' row = seq" "row_values p' row = row_values p row ++ map_of fvs"
    "\<And>r. row_ok p r \<Longrightarrow> r \<noteq> row \<Longrightarrow> row_marker p' r = row_marker p r \<and> (\<forall>f \<in> set (payload_fields (tp_layout p)). field_in p' r f = field_in p r f)"
proof -
  let ?l = "tp_layout p" and ?buf = "tp_bytes p"
  obtain encoded where e: "validate_row p row = Inr ()" "is_valid U64 seq" "list_all2 (\<lambda>fv s. encode_field ?l fv = Inr s) fvs encoded"
    and p': "p' = p\<lparr>tp_bytes := fold apply_store (publication_stores ?l row seq encoded) ?buf\<rparr>" using publish_Inr [OF pub] by metis
  let ?ss = "publication_stores ?l row seq encoded"
  have lay: "layout_ok ?l" using pk by (simp add: partition_ok_def)
  show row: "row_ok p row" using e(1) validate_row_ok [OF pk] by blast
  show "is_valid U64 seq" by (rule e(2))
  show sel: "tp_layout p' = ?l" "tp_kind p' = tp_kind p" "tp_capacity p' = tp_capacity p" by (simp_all add: p')
  have bytes': "tp_bytes p' = fold apply_store ?ss ?buf" by (simp add: p')
  have inside: "row_inside ?l row ?buf" by (rule partition_row_inside [OF pk row])
  have vs': "\<forall>fv \<in> set fvs. value_ok (snd fv)" using vs by (simp add: list_all_iff)
  have ok: "\<forall>s \<in> set encoded. payload_store ?l s" by (rule encoded_stores_ok [OF lay e(3) vs'])
  have pok: "publication_ok ?l (seq, encoded)" using ok e(2) by (simp add: publication_ok_def)
  have rng: "\<forall>s \<in> set ?ss. row_base ?l row \<le> fst s \<and> fst s + length (snd s) \<le> row_base ?l row + row_stride ?l"
    using ok layout_sizes(3) [OF lay] by (auto simp: publication_stores_def payload_store_def)
  have len: "length (tp_bytes p') = length ?buf"
    using rng inside by (simp add: p') (intro fold_stores_length, fastforce simp: row_inside_def)
  show "row_marker p' row = seq"
    using publication_marker [OF inside pok, of "Suc (Suc (length encoded))"] by (simp add: row_marker_def p' memory_after_def)
  have hit: "case map_of fvs (fd_name (fl_field f)) of None \<Rightarrow> field_bytes ?l (tp_bytes p') row f = field_bytes ?l ?buf row f
    | Some x \<Rightarrow> decode_scalar (fd_type (fl_field f)) (field_bytes ?l (tp_bytes p') row f) = Inr x" if "f \<in> set (payload_fields ?l)" for f
    unfolding bytes' by (rule published_field [OF lay inside e(3) vs' d that e(2)])
  have far: "field_bytes ?l (tp_bytes p') r f = field_bytes ?l ?buf r f" if "row_ok p r" "r \<noteq> row" "f \<in> set (payload_fields ?l)" for r f
  proof -
    have "0 < sl_row_alignment ?l" "f \<in> set (field_layouts ?l)" using lay that(3) by (auto simp: layout_ok_def payload_fields_def)
    then have "fl_offset f + fl_size f \<le> row_stride ?l" using field_inside [of f ?l] by linarith
    then show ?thesis unfolding field_bytes_def p' by simp (rule other_row_bytes [OF pk that(1) row that(2) _ rng])
  qed
  have "fields_decode p' r" if "row_ok p' r" for r
  proof -
    have r: "row_ok p r" using that by (simp add: row_ok_def p')
    then have old: "fields_decode p r" using pk by (simp add: partition_ok_def)
    have "returns (decode_scalar (fd_type (fl_field f)) (field_bytes ?l (tp_bytes p') r f))" if f: "f \<in> set (payload_fields ?l)" for f
      using hit [OF f] far [OF r _ f] old f by (cases "r = row") (auto simp: fields_decode_def returns_iff split: option.splits)
    then show ?thesis by (simp add: fields_decode_def sel)
  qed
  then show "partition_ok p'" using pk len by (simp add: partition_ok_def sel)
  have "row_values p' row name = (row_values p row ++ map_of fvs) name" for name
  proof (cases "name \<in> (fd_name \<circ> fl_field) ` set (payload_fields ?l)")
    case True
    then obtain f where f: "f \<in> set (payload_fields ?l)" "name = fd_name (fl_field f)" by auto
    have "row_values p' row name = Some (field_in p' row f)" using row_values_field [of p' f] lay f by (simp add: sel)
    moreover have "row_values p row name = Some (field_in p row f)" using row_values_field [of p f] lay f by simp
    ultimately show ?thesis using hit [OF f(1)] f(2) by (auto simp: map_add_def field_in_def sel split: option.splits)
  next
    case False
    have "map_of fvs name = None"
    proof (rule ccontr)
      assume "map_of fvs name \<noteq> None"
      then obtain x where "map_of fvs name = Some x" by blast
      then have "(name, x) \<in> set fvs" by (rule map_of_SomeD)
      then obtain s where "encode_field ?l (name, x) = Inr s" using list_all2_left [OF e(3)] by blast
      then obtain f where "names_field ?l (name, x) s f" using encode_field_names by blast
      then show False using False by (auto simp: names_field_def)
    qed
    then show ?thesis using False row_values_none [of name p'] row_values_none [of name p] by (simp add: sel map_add_def)
  qed
  then show "row_values p' row = row_values p row ++ map_of fvs" by blast
  show "row_marker p' r = row_marker p r \<and> (\<forall>f \<in> set (payload_fields ?l). field_in p' r f = field_in p r f)"
    if "row_ok p r" "r \<noteq> row" for r
    using other_row_bytes [OF pk that(1) row that(2) _ rng, of 0 8] far [OF that] layout_sizes(3) [OF lay]
    by (simp add: row_marker_def marker_of_def p' field_in_def)
qed

end
