(* ===== verification/TableCells.thy ===== *)
theory TableCells
  imports TableFacts
begin

text \<open>
  The abstract table: a map from a block and a row to the publication sequence and the values of the row. Every
  publication into the bytes is one update of that map, and a read returns its value.
\<close>

section \<open>Fresh partitions\<close>

lemma subbuf_concat:
  "length xs = w \<Longrightarrow> i + n \<le> w \<Longrightarrow> r < m \<Longrightarrow> subbuf (r * w + i) n (concat (replicate m xs)) = subbuf i n xs"
proof (induction m arbitrary: r)
  case (Suc m)
  show ?case
  proof (cases r)
    case 0
    then show ?thesis using Suc.prems by (simp add: subbuf_def)
  next
    case (Suc q)
    then have "subbuf (q * w + i) n (concat (replicate m xs)) = subbuf i n xs" using Suc.prems Suc.IH by simp
    then show ?thesis using Suc Suc.prems(1) by (simp add: subbuf_def add.assoc)
  qed
qed simp

lemma decode_zeros: "returns (decode_scalar t (replicate n 0))"
proof -
  have le0: "le_int (replicate k (0::byte)) = 0" for k by (induction k) simp_all
  have sub: "subbuf i k (replicate n (0::byte)) = replicate (min k (n - i)) 0" for i k by (simp add: subbuf_def take_replicate)
  show ?thesis by (simp add: decode_scalar_def le0 sub mk_handle_def Let_def returns_iff bind_r_eq_Inr handle_ok_iff)
qed

lemma new_partition_ok:
  assumes "layout_ok l" "new_partition l k capacity = Inr p"
  shows "partition_ok p" "tp_layout p = l" "tp_kind p = k" "tp_capacity p = capacity" "row_ok p row \<Longrightarrow> row_marker p row = invalid U64"
proof -
  let ?w = "row_stride l"
  let ?row = "le_bytes 8 (invalid U64) @ replicate (?w - 8) 0"
  have cap: "is_valid U32 capacity" and p: "p = \<lparr>tp_layout = l, tp_kind = k, tp_capacity = capacity, tp_bytes = concat (replicate (nat capacity) ?row)\<rparr>"
    using assms(2) by (auto simp: new_partition_def bind_r_eq_Inr)
  have w: "8 \<le> ?w" by (rule layout_sizes(3) [OF assms(1)])
  have len: "length ?row = ?w" using w by simp
  have bytes: "subbuf (row_base l r + i) n (tp_bytes p) = subbuf i n ?row" if "row_ok p r" "i + n \<le> ?w" for r i n
    using subbuf_concat [OF len that(2), of "nat r" "nat capacity"] that(1) by (simp add: p row_base_def row_ok_def)
  show "tp_layout p = l" "tp_kind p = k" "tp_capacity p = capacity" by (simp_all add: p)
  show "row_marker p row = invalid U64" if "row_ok p row"
    using bytes [OF that, of 0 8] w by (simp add: row_marker_def marker_of_def p subbuf_def)
  have "fields_decode p r" if r: "row_ok p r" for r
    unfolding fields_decode_def
  proof
    fix f
    assume "f \<in> set (payload_fields (tp_layout p))"
    then have f: "f \<in> set (payload_fields l)" by (simp add: p)
    have o: "8 \<le> fl_offset f" using layout_head [OF assms(1)] f by metis
    have "0 < sl_row_alignment l" "f \<in> set (field_layouts l)" using assms(1) f by (auto simp: layout_ok_def payload_fields_def)
    then have "fl_offset f + fl_size f \<le> ?w" using field_inside [of f l] by linarith
    then have "field_bytes l (tp_bytes p) r f = replicate (fl_size f) 0"
      using bytes [OF r, of "fl_offset f" "fl_size f"] o by (simp add: field_bytes_def subbuf_def drop_append take_replicate)
    then show "returns (decode_scalar (fd_type (fl_field f)) (field_bytes (tp_layout p) (tp_bytes p) r f))"
      using decode_zeros [of "fd_type (fl_field f)" "fl_size f"] by (simp add: p)
  qed
  moreover have "length (tp_bytes p) = nat capacity * ?w" using len by (simp add: p length_concat sum_list_replicate)
  ultimately show "partition_ok p" using assms(1) cap by (simp add: partition_ok_def p)
qed

section \<open>Tables\<close>

definition table_ok :: "sched_table \<Rightarrow> bool" where
  "table_ok t \<longleftrightarrow> distinct (map fst (tb_partitions t))
     \<and> (\<forall>(k, p) \<in> set (tb_partitions t). partition_ok p \<and> tp_kind p = k \<and> tp_layout p = layout_of k)"

lemma partition_of_ok: "table_ok t \<Longrightarrow> partition_of t k = Inr p \<Longrightarrow> partition_ok p \<and> tp_kind p = k \<and> tp_layout p = layout_of k"
  by (auto simp: table_ok_def partition_of_def split: option.splits dest!: map_of_SomeD)

lemma put_partition_keys [simp]: "map fst (put_partition k p ps) = map fst ps"
  by (induction ps) auto

lemma map_of_put_partition: "k \<in> fst ` set ps \<Longrightarrow> map_of (put_partition k p ps) = (map_of ps)(k \<mapsto> p)"
proof (induction ps)
  case (Cons a ps)
  show ?case
  proof (cases "fst a = k")
    case False
    then have "map_of (put_partition k p ps) = (map_of ps)(k \<mapsto> p)" using Cons by auto
    then show ?thesis using False by (cases a) (auto simp: fun_upd_twist)
  qed (cases a, auto)
qed simp

lemma table_ok_iff: "table_ok t \<longleftrightarrow> distinct (map fst (tb_partitions t))
    \<and> (\<forall>k p. map_of (tb_partitions t) k = Some p \<longrightarrow> partition_ok p \<and> tp_kind p = k \<and> tp_layout p = layout_of k)"
  unfolding table_ok_def by (auto dest: map_of_SomeD simp: map_of_eq_Some_iff)

lemma build_partitions_ok:
  assumes "build_partitions ks = Inr ps" "distinct (map fst ks)"
  shows "map fst ps = map fst ks \<and> (\<forall>(k, p) \<in> set ps. partition_ok p \<and> tp_kind p = k \<and> tp_layout p = layout_of k
     \<and> (k, tp_capacity p) \<in> set ks \<and> (\<forall>row. row_ok p row \<longrightarrow> row_marker p row = invalid U64))"
proof -
  have "list_all2 (\<lambda>(k, c) kp. bind_r (new_partition (layout_of k) k c) (\<lambda>p. Inr (k, p)) = Inr kp) ks ps"
    using assms(1) by (simp add: build_partitions_def map_r_Inr case_prod_unfold)
  then show ?thesis
  proof (induction rule: list_all2_induct)
    case (Cons kc ks kp ps)
    obtain k c p where "kc = (k, c)" "kp = (k, p)" "new_partition (layout_of k) k c = Inr p"
      using Cons(1) by (auto simp: bind_r_eq_Inr split: prod.splits)
    then show ?case using new_partition_ok [OF layout_ok_all, of k k c p] Cons.IH by auto
  qed simp
qed

section \<open>The abstract table\<close>

type_synonym cell = "int \<times> (string \<rightharpoonup> field_value)"

definition cells :: "sched_table \<Rightarrow> block_kind \<times> int \<rightharpoonup> cell" where
  "cells t = (\<lambda>(k, row). case map_of (tb_partitions t) k of None \<Rightarrow> None
     | Some p \<Rightarrow> if row_ok p row then Some (row_marker p row, row_values p row) else None)"

definition cell_update :: "int \<Rightarrow> (string \<times> field_value) list \<Rightarrow> cell \<Rightarrow> cell" where
  "cell_update seq fvs c = (seq, snd c ++ map_of fvs)"

lemma cells_Some:
  "cells t (k, row) = Some c \<longleftrightarrow> (\<exists>p. map_of (tb_partitions t) k = Some p \<and> row_ok p row \<and> c = (row_marker p row, row_values p row))"
  by (auto simp: cells_def split: option.splits)

lemma partition_of_iff: "partition_of t k = Inr p \<longleftrightarrow> map_of (tb_partitions t) k = Some p"
  by (simp add: partition_of_def split: option.splits)

definition fields_ok :: "(string \<times> field_value) list \<Rightarrow> bool" where
  "fields_ok fvs \<longleftrightarrow> distinct (map fst fvs) \<and> list_all (value_ok \<circ> snd) fvs"

lemma publish_owned_cells:
  assumes ok: "table_ok t" and pub: "publish_owned t owner k row seq fvs = Inr t'" and f: "fields_ok fvs"
  shows "table_ok t'" "owner = sl_owner (layout_of k)" "is_valid U64 seq" "tb_bank_rows t' = tb_bank_rows t"
    "\<exists>c. cells t (k, row) = Some c \<and> cells t' = (cells t)((k, row) \<mapsto> cell_update seq fvs c)"
proof -
  obtain p p' n' where p: "map_of (tb_partitions t) k = Some p" "sl_owner (tp_layout p) = owner"
    "publish p (tb_notifier t) row seq fvs = Inr (p', n')"
    and t': "t' = t\<lparr>tb_partitions := put_partition k p' (tb_partitions t), tb_notifier := n'\<rparr>"
    using pub by (auto simp: publish_owned_def bind_r_eq_Inr partition_of_iff)
  have pok: "partition_ok p" "tp_kind p = k" "tp_layout p = layout_of k" using ok p(1) by (auto simp: table_ok_iff)
  have d: "distinct (map fst fvs)" "list_all (value_ok \<circ> snd) fvs" using f by (simp_all add: fields_ok_def)
  note e = publish_effect [OF pok(1) p(3) d]
  show "owner = sl_owner (layout_of k)" "is_valid U64 seq" "tb_bank_rows t' = tb_bank_rows t" using p(2) pok(3) e(3) by (simp_all add: t')
  have "k \<in> fst ` set (tb_partitions t)" using p(1) by (rule map_of_SomeD [THEN image_eqI [rotated]]) simp
  then have m: "map_of (tb_partitions t') = (map_of (tb_partitions t))(k \<mapsto> p')" by (simp add: t' map_of_put_partition)
  show "table_ok t'" using ok e(1,4,5) pok unfolding table_ok_iff m by (auto simp: t')
  have same: "row_values p' r = row_values p r" if "row_ok p r" "r \<noteq> row" for r
    using e(9) [OF that] by (simp add: row_values_def e(4) cong: map_cong)
  have rows: "row_ok p' r = row_ok p r" for r by (simp add: row_ok_def e(6))
  have "cells t (k, row) = Some (row_marker p row, row_values p row)" using p(1) e(2) by (simp add: cells_Some)
  moreover have "cells t' kr = ((cells t)((k, row) \<mapsto> cell_update seq fvs (row_marker p row, row_values p row))) kr" for kr
    using e(2,7,8) e(9) [of "snd kr"] same [of "snd kr"] p(1)
    by (cases kr) (auto simp: cells_def m rows cell_update_def)
  ultimately show "\<exists>c. cells t (k, row) = Some c \<and> cells t' = (cells t)((k, row) \<mapsto> cell_update seq fvs c)" by blast
qed

definition read_refines :: "block_snapshot \<Rightarrow> block_kind \<Rightarrow> int \<Rightarrow> cell \<Rightarrow> bool" where
  "read_refines s k row c \<longleftrightarrow> bs_kind s = k \<and> bs_row s = row \<and> bs_publish_seq s = fst c \<and> map_of (bs_fields s) = snd c"

lemma t_read_cells:
  assumes "table_ok t" "cells t (k, row) = Some c"
  shows "if fst c = invalid U64 then t_read t k row True = Inl (StableReadConflict ''changed during stable read'')
    else \<exists>s. t_read t k row True = Inr s \<and> read_refines s k row c"
proof -
  obtain p where p: "map_of (tb_partitions t) k = Some p" "row_ok p row" "c = (row_marker p row, row_values p row)"
    using assms(2) by (auto simp: cells_Some)
  have pk: "partition_ok p" "tp_kind p = k" using assms(1) p(1) by (auto simp: table_ok_iff)
  show ?thesis using read_row_eq [OF pk(1) p(2), of True] p pk(2)
    by (simp add: t_read_def partition_of_def snapshot_of_def read_refines_def row_values_def)
qed

text \<open>What a successful read says about the table, whichever fields it decodes.\<close>

definition agrees :: "sched_table \<Rightarrow> block_kind \<Rightarrow> int \<Rightarrow> block_snapshot \<Rightarrow> bool" where
  "agrees t k row s \<longleftrightarrow> (\<exists>c. cells t (k, row) = Some c \<and> fst c \<noteq> invalid U64 \<and> bs_publish_seq s = fst c
     \<and> (\<forall>name v. snapshot_get s name = Inr v \<longrightarrow> snd c name = Some v))"

lemma snapshot_agrees:
  assumes "table_ok t" "map_of (tb_partitions t) k = Some p" "row_ok p row" "row_marker p row \<noteq> invalid U64"
    "set fs \<subseteq> set (payload_fields (tp_layout p))"
  shows "agrees t k row (snapshot_of p row fs)"
proof -
  have lay: "layout_ok (tp_layout p)" using assms(1,2) unfolding table_ok_iff partition_ok_def by blast
  have "row_values p row name = Some v" if "snapshot_get (snapshot_of p row fs) name = Inr v" for name v
  proof -
    have "map_of (map (\<lambda>f. (fd_name (fl_field f), field_in p row f)) fs) name = Some v"
      using that by (simp add: snapshot_get_def snapshot_of_def split: option.splits)
    then obtain f where "f \<in> set fs" "name = fd_name (fl_field f)" "v = field_in p row f" by (auto dest!: map_of_SomeD)
    then show ?thesis using row_values_field [OF lay] assms(5) by blast
  qed
  then show ?thesis using assms(2-4) by (auto simp: agrees_def cells_Some snapshot_of_def)
qed

lemma t_read_agrees:
  assumes "table_ok t" "t_read t k row include_cold = Inr s"
  shows "agrees t k row s"
proof -
  obtain p where p: "map_of (tb_partitions t) k = Some p" "read_row p row include_cold = Inr s"
    using assms(2) by (auto simp: t_read_def bind_r_eq_Inr partition_of_iff)
  have pk: "partition_ok p" using assms(1) p(1) by (auto simp: table_ok_iff)
  have row: "row_ok p row" using p(2) validate_row_ok [OF pk] by (auto simp: read_row_def read_stable_def bind_r_eq_Inr)
  show ?thesis using p(2) read_row_eq [OF pk row] snapshot_agrees [OF assms(1) p(1) row] by (auto split: if_splits)
qed

lemma t_read_names_agrees:
  assumes "table_ok t" "t_read_names t k row names = Inr s"
  shows "agrees t k row s"
proof -
  obtain p where p: "map_of (tb_partitions t) k = Some p" "read_stable p (\<lambda>_. tp_bytes p) row True 16 (Some names) = Inr s"
    using assms(2) by (auto simp: t_read_names_def bind_r_eq_Inr partition_of_iff)
  have pk: "partition_ok p" using assms(1) p(1) by (auto simp: table_ok_iff)
  have row: "row_ok p row" using p(2) validate_row_ok [OF pk] by (auto simp: read_stable_def bind_r_eq_Inr)
  obtain fs where fs: "selected_fields (tp_layout p) True (Some names) = Inr fs"
    using p(2) by (auto simp: read_stable_def decode_payload_def bind_r_eq_Inr split: option.splits prod.splits)
  have "list_all2 (\<lambda>name f. find (\<lambda>f. fd_name (fl_field f) = name) (payload_fields (tp_layout p)) = Some f) names fs"
    using fs by (auto simp: selected_fields_def map_r_Inr split: option.splits elim!: list_all2_mono)
  then have sub: "set fs \<subseteq> set (payload_fields (tp_layout p))" by (induction rule: list_all2_induct) (auto simp: find_Some_iff)
  show ?thesis using p(2) read_static [OF pk row _ fs sub, of 16] snapshot_agrees [OF assms(1) p(1) row _ sub]
    by (auto split: if_splits)
qed

lemma fresh_table:
  assumes "build_partitions ks = Inr ps" "distinct (map fst ks)" "tb_partitions t = ps"
  shows "table_ok t" "cells t (k, row) = Some c \<Longrightarrow> fst c = invalid U64"
    "map_of ks k = Some n \<Longrightarrow> 0 \<le> row \<Longrightarrow> row < n \<Longrightarrow> \<exists>c. cells t (k, row) = Some c"
proof -
  note b = build_partitions_ok [OF assms(1,2)]
  show "table_ok t" using b assms(2,3) by (auto simp: table_ok_def)
  show "fst c = invalid U64" if "cells t (k, row) = Some c" using that b assms(3) by (auto simp: cells_Some dest!: map_of_SomeD)
  assume k: "map_of ks k = Some n" and row: "0 \<le> row" "row < n"
  have n: "(k, n) \<in> set ks" using k by (rule map_of_SomeD)
  then have "k \<in> set (map fst ps)" using b by force
  then obtain p where p: "map_of ps k = Some p" by (metis map_of_eq_None_iff not_None_eq set_map)
  then have "(k, tp_capacity p) \<in> set ks" using b by (auto dest: map_of_SomeD)
  then have "tp_capacity p = n" using n by (rule eq_key_imp_eq_value [OF assms(2)])
  then show "\<exists>c. cells t (k, row) = Some c" using p row assms(3) by (auto simp: cells_Some row_ok_def)
qed

lemma map_of_const: "k \<in> set ks \<Longrightarrow> map_of (map (\<lambda>k. (k, m)) ks) k = Some m"
  by (induction ks) auto

lemma request_table_fresh:
  assumes "request_table m n = Inr t"
  shows "table_ok t" "cells t (k, row) = Some c \<Longrightarrow> fst c = invalid U64"
    "k \<in> set request_kinds \<Longrightarrow> 0 \<le> row \<Longrightarrow> row < m \<Longrightarrow> \<exists>c. cells t (k, row) = Some c"
proof -
  obtain ps where ps: "build_partitions (map (\<lambda>k. (k, m)) request_kinds) = Inr ps" "tb_partitions t = ps"
    using assms by (auto simp: request_table_def bind_r_eq_Inr)
  have d: "distinct (map fst (map (\<lambda>k. (k, m)) request_kinds))" by (simp add: request_kinds_def)
  note f = fresh_table [OF ps(1) d ps(2)]
  show "table_ok t" "cells t (k, row) = Some c \<Longrightarrow> fst c = invalid U64" by (rule f(1), rule f(2))
  show "\<exists>c. cells t (k, row) = Some c" if "k \<in> set request_kinds" "0 \<le> row" "row < m"
    using f(3) [OF map_of_const [OF that(1)] that(2,3)] .
qed

lemma map_r_returns: "\<forall>x \<in> set xs. returns (f x) \<Longrightarrow> returns (map_r f xs)"
  by (induction xs) auto

lemma request_table_returns:
  assumes "is_valid U32 m" "0 < m"
  shows "\<exists>t. request_table m n = Inr t \<and> tb_notifier t = n \<and> tb_bank_rows t = 0"
proof -
  have "returns (build_partitions (map (\<lambda>k. (k, m)) request_kinds))"
    unfolding build_partitions_def using assms(1) by (intro map_r_returns) (auto simp: new_partition_def)
  then show ?thesis using assms by (auto simp: request_table_def)
qed

text \<open>A publication that is refused was refused for one of these reasons.\<close>

lemma publish_owned_returns:
  assumes "table_ok t" "cells t (k, row) = Some c" "owner = sl_owner (layout_of k)" "is_valid U64 seq"
    and "fst c = invalid U64 \<or> newer_id OP_SEQ seq (fst c)" "\<forall>fv \<in> set fvs. returns (encode_field (layout_of k) fv)"
    and "returns (notify k row seq (tb_notifier t))"
  shows "\<exists>t'. publish_owned t owner k row seq fvs = Inr t'"
proof -
  obtain p where p: "map_of (tb_partitions t) k = Some p" "row_ok p row" "fst c = row_marker p row"
    using assms(2) by (auto simp: cells_Some)
  have pk: "partition_ok p" "tp_kind p = k" "tp_layout p = layout_of k" using assms(1) p(1) by (auto simp: table_ok_iff)
  obtain encoded where "map_r (encode_field (layout_of k)) fvs = Inr encoded" using map_r_returns [OF assms(6)] by auto
  moreover have "validate_row p row = Inr ()" using validate_row_ok pk(1) p(2) by blast
  moreover have "check_id OP_SEQ seq = Inr ()" using assms(4) by simp
  moreover obtain n' where "notify k row seq (tb_notifier t) = Inr n'" using assms(7) by auto
  moreover have "marker_of (layout_of k) (tp_bytes p) row = invalid U64 \<or> is_newer OP_SEQ seq (marker_of (layout_of k) (tp_bytes p) row) = Inr True"
    using assms(5) p(3) pk(3) by (simp add: newer_id_def row_marker_def)
  ultimately have "\<exists>r. publish p (tb_notifier t) row seq fvs = Inr r"
    by (auto simp: publish_def read_publish_seq_def publish_encoded_def Let_def pk(2,3))
  then show ?thesis using p(1) assms(3) pk(3) by (auto simp: publish_owned_def partition_of_def)
qed

text \<open>C10: the bytes of the tables refine an abstract map from blocks and rows to a sequence and named values: a publication
  by the owner of a block updates exactly one cell, keeping the fields it does not name, nothing else in the table
  changes, and a read of the row returns the new cell; nobody but the owner of a block can publish into it.\<close>

theorem publications_refine_cells:
  assumes "table_ok t" "publish_owned t owner k row seq fvs = Inr t'" "fields_ok fvs"
  shows "table_ok t' \<and> owner = sl_owner (layout_of k)
    \<and> (\<exists>c s. cells t (k, row) = Some c \<and> cells t' = (cells t)((k, row) \<mapsto> cell_update seq fvs c)
        \<and> t_read t' k row True = Inr s \<and> read_refines s k row (cell_update seq fvs c))"
proof -
  note e = publish_owned_cells [OF assms]
  obtain c where c: "cells t (k, row) = Some c" "cells t' = (cells t)((k, row) \<mapsto> cell_update seq fvs c)" using e(5) by blast
  have valid: "fst (cell_update seq fvs c) \<noteq> invalid U64" using e(3) by (simp add: cell_update_def)
  have "cells t' (k, row) = Some (cell_update seq fvs c)" using c(2) by simp
  then obtain s where "t_read t' k row True = Inr s" "read_refines s k row (cell_update seq fvs c)"
    using t_read_cells [OF e(1)] valid by meson
  then show ?thesis using e(1,2) c by blast
qed

theorem publications_refine_cells_witness:
  "\<exists>t t' c s. request_table 1 \<lparr>nt_ring = None, nt_bell = None\<rparr> = Inr t
     \<and> publish_owned t ''engine_hostkv_allocator'' REQUEST_HOSTKV 0 5 [(''host_slot'', VInt 3)] = Inr t'
     \<and> cells t' = (cells t)((REQUEST_HOSTKV, 0) \<mapsto> cell_update 5 [(''host_slot'', VInt 3)] c)
     \<and> t_read t' REQUEST_HOSTKV 0 True = Inr s \<and> bs_publish_seq s = 5"
proof -
  let ?fvs = "[(''host_slot'', VInt 3)]" and ?n = "\<lparr>nt_ring = None, nt_bell = None\<rparr> :: notifier"
  obtain t where t: "request_table 1 ?n = Inr t" "tb_notifier t = ?n" using request_table_returns [of 1 ?n] by auto
  note fresh = request_table_fresh [OF t(1)]
  obtain c where c: "cells t (REQUEST_HOSTKV, 0) = Some c" using fresh(3) [of REQUEST_HOSTKV 0] by (auto simp: request_kinds_def)
  have owner: "''engine_hostkv_allocator'' = sl_owner (layout_of REQUEST_HOSTKV)" by code_simp
  have enc: "\<forall>fv \<in> set ?fvs. returns (encode_field (layout_of REQUEST_HOSTKV) fv)" by code_simp
  have "\<exists>t'. publish_owned t ''engine_hostkv_allocator'' REQUEST_HOSTKV 0 5 ?fvs = Inr t'"
    by (rule publish_owned_returns [OF fresh(1) c owner _ _ enc]) (use fresh(2) [OF c] in \<open>simp_all add: t(2) notify_def\<close>)
  then obtain t' where t': "publish_owned t ''engine_hostkv_allocator'' REQUEST_HOSTKV 0 5 ?fvs = Inr t'" by blast
  have "fields_ok ?fvs" by (simp add: fields_ok_def value_ok_def)
  then show ?thesis using publications_refine_cells [OF fresh(1) t'] t(1) t' by (auto simp: read_refines_def cell_update_def)
qed

end
