(* ===== verification/TableWriters.thy ===== *)
theory TableWriters
  imports TableStorage DraftProtocol
begin

text \<open>
  \<open>table/writers.py\<close>, \<open>table/copy_writers.py\<close> and \<open>table/draft_registry.py\<close>: the typed writers of the observation
  tables. Each one joins the rows that authorize it, compares their fences with the fact it was handed and only
  then publishes into the block it owns. A method that raises leaves the table as it was.
\<close>

section \<open>Enumerations\<close>

definition enum_value :: "int list \<Rightarrow> int \<Rightarrow> int result" where
  "enum_value members v = bind_r (require (v \<in> set members) (ValueError ''is not valid for the enumeration'')) (\<lambda>_. Inr v)"

definition lifecycle_values :: "int list" where "lifecycle_values = [0, 1, 2, 3]"
definition draft_status_values :: "int list" where "draft_status_values = [0, 1, 2, 3]"
definition target_status_values :: "int list" where "target_status_values = [0, 1, 2, 3]"
definition d2h_status_values :: "int list" where "d2h_status_values = [0, 1, 2, 3]"
definition h2d_status_values :: "int list" where "h2d_status_values = [0, 1, 2, 3, 4]"
definition bank_role_values :: "int list" where "bank_role_values = [1, 2]"
definition bank_state_values :: "int list" where "bank_state_values = [0, 1, 2, 3, 4]"
definition worker_role_values :: "int list" where "worker_role_values = [1, 2]"
definition worker_status_values :: "int list" where "worker_status_values = [0, 1, 2, 3]"
definition compute_status_values :: "int list" where "compute_status_values = [0, 1]"
definition copy_status_values :: "int list" where "copy_status_values = [0, 1, 2]"
definition result_code_values :: "int list" where "result_code_values = [0, 1, 2, 3, 4, 5, 6, 7, 8, 9, 255]"

section \<open>Reading a fence\<close>

definition expect_field :: "block_snapshot \<Rightarrow> string \<times> field_value \<Rightarrow> unit result" where
  "expect_field s fv = bind_r (snapshot_get s (fst fv)) (\<lambda>x. require (x = snd fv) (TableProtocolError (fst fv)))"

definition expect_fields :: "block_snapshot \<Rightarrow> (string \<times> field_value) list \<Rightarrow> unit result" where
  "expect_fields s fvs = checks (map (expect_field s) fvs)"

definition expect_epoch :: "sched_table \<Rightarrow> int \<Rightarrow> int \<Rightarrow> unit result" where
  "expect_epoch t slot request_epoch =
     bind_r (t_read t REQUEST_ENGINE slot False) (\<lambda>engine. expect_fields engine [(''request_epoch'', VInt request_epoch)])"

text \<open>\<open>next_publish_seq\<close>: the sequence after the one in the row, or 0 in a row never written.\<close>

definition next_seq :: "sched_table \<Rightarrow> block_kind \<Rightarrow> int \<Rightarrow> int result" where
  "next_seq t k slot = bind_r (t_publish_seq t k slot) (\<lambda>current. if current = invalid U64 then Inr 0 else next_id OP_SEQ current)"

section \<open>Engine and allocator\<close>

definition or_null :: "arena_handle option \<Rightarrow> field_value" where
  "or_null h = VHandle (case h of None \<Rightarrow> null_handle | Some x \<Rightarrow> x)"

definition publish_active ::
  "sched_table \<Rightarrow> int \<Rightarrow> int \<Rightarrow> int \<Rightarrow> int \<Rightarrow> int \<Rightarrow> int \<Rightarrow> int \<Rightarrow> int \<Rightarrow> arena_handle option \<Rightarrow> arena_handle option \<Rightarrow> int \<Rightarrow> int \<Rightarrow>
     sched_table result" where
  "publish_active t slot publish_seq request_epoch current_round_id arrival_seq prompt_token_count max_new_tokens spec_token_limit
       input_tokens generation_config lifecycle classified =
     bind_r (enum_value lifecycle_values lifecycle) (\<lambda>life.
     publish_owned t ''engine'' REQUEST_ENGINE slot publish_seq
       [(''request_epoch'', VInt request_epoch), (''current_round_id'', VInt current_round_id),
        (''classified_result_ticket'', VInt classified), (''arrival_seq'', VInt arrival_seq), (''lifecycle'', VInt life),
        (''prompt_token_count'', VInt prompt_token_count), (''max_new_tokens'', VInt max_new_tokens),
        (''spec_token_limit'', VInt spec_token_limit), (''input_tokens_handle'', or_null input_tokens),
        (''generation_config_handle'', or_null generation_config)])"

definition publish_lifecycle :: "sched_table \<Rightarrow> int \<Rightarrow> int \<Rightarrow> int \<Rightarrow> int \<Rightarrow> sched_table result" where
  "publish_lifecycle t slot publish_seq request_epoch lifecycle =
     bind_r (expect_epoch t slot request_epoch) (\<lambda>_.
     bind_r (enum_value lifecycle_values lifecycle) (\<lambda>life.
     publish_owned t ''engine'' REQUEST_ENGINE slot publish_seq
       [(''request_epoch'', VInt request_epoch), (''lifecycle'', VInt life)]))"

definition publish_allocation ::
  "sched_table \<Rightarrow> int \<Rightarrow> int \<Rightarrow> int \<Rightarrow> int \<Rightarrow> int \<Rightarrow> int \<Rightarrow> int \<Rightarrow> int \<Rightarrow> sched_table result" where
  "publish_allocation t slot publish_seq request_epoch host_slot_generation writer_lease_generation host_slot capacity_blocks offset_blocks =
     bind_r (expect_epoch t slot request_epoch) (\<lambda>_.
     publish_owned t ''engine_hostkv_allocator'' REQUEST_HOSTKV slot publish_seq
       [(''request_epoch'', VInt request_epoch), (''host_slot_generation'', VInt host_slot_generation),
        (''writer_lease_generation'', VInt writer_lease_generation), (''host_slot'', VInt host_slot),
        (''capacity_blocks'', VInt capacity_blocks), (''offset_blocks'', VInt offset_blocks)])"

section \<open>Dispatcher\<close>

text \<open>The first publication for a new lifetime of a slot clears every field it does not set.\<close>

definition default_value :: "field_def \<Rightarrow> field_value" where
  "default_value f = (if fd_type f = SHANDLE then VHandle null_handle else VInt 0)"

definition reset_dispatch_fields :: "sched_table \<Rightarrow> int \<Rightarrow> (string \<times> field_value) list \<Rightarrow> (string \<times> field_value) list result" where
  "reset_dispatch_fields t slot fvs =
     bind_r (partition_of t REQUEST_DISPATCH) (\<lambda>p.
     bind_r (read_publish_seq p slot) (\<lambda>seq.
     if seq = invalid U64 then Inr fvs
     else bind_r (read_row p slot True) (\<lambda>old.
       bind_r (snapshot_get old ''request_epoch'') (\<lambda>before.
       case map_of fvs ''request_epoch'' of
         None \<Rightarrow> Inl (KeyError ''request_epoch'')
       | Some epoch \<Rightarrow>
           if before \<noteq> epoch
           then Inr (map (\<lambda>f. (fd_name f, case map_of fvs (fd_name f) of None \<Rightarrow> default_value f | Some v \<Rightarrow> v))
                  (filter (\<lambda>f. fd_name f \<noteq> ''publish_seq'') (sl_fields (tp_layout p))))
           else Inr fvs))))"

definition publish_dispatcher :: "sched_table \<Rightarrow> int \<Rightarrow> int \<Rightarrow> (string \<times> field_value) list \<Rightarrow> sched_table result" where
  "publish_dispatcher t row publish_seq fvs =
     bind_r (reset_dispatch_fields t row fvs) (\<lambda>fvs'. publish_owned t ''dispatcher'' REQUEST_DISPATCH row publish_seq fvs')"

definition publish_dispatch ::
  "sched_table \<Rightarrow> int \<Rightarrow> int \<Rightarrow> int \<Rightarrow> int \<Rightarrow> int \<Rightarrow> int \<Rightarrow> int \<Rightarrow> int \<Rightarrow> int \<Rightarrow> int \<Rightarrow> int \<Rightarrow> int \<Rightarrow> int \<Rightarrow> int \<Rightarrow> sched_table result" where
  "publish_dispatch t slot publish_seq request_epoch draft_issue_seq draft_worker_generation draft_round_id target_prepare_seq
       planned_target_generation planned_bank_epoch target_run_seq target_round_id draft_worker_id planned_target_id planned_bank_id =
     bind_r (validate BANK_ID planned_bank_id) (\<lambda>_.
     bind_r (expect_epoch t slot request_epoch) (\<lambda>_.
     publish_dispatcher t slot publish_seq
       [(''request_epoch'', VInt request_epoch), (''draft_issue_seq'', VInt draft_issue_seq),
        (''draft_worker_generation'', VInt draft_worker_generation), (''draft_round_id'', VInt draft_round_id),
        (''target_prepare_seq'', VInt target_prepare_seq), (''planned_target_generation'', VInt planned_target_generation),
        (''planned_bank_epoch'', VInt planned_bank_epoch), (''target_run_seq'', VInt target_run_seq),
        (''target_round_id'', VInt target_round_id), (''draft_worker_id'', VInt draft_worker_id),
        (''planned_target_id'', VInt planned_target_id), (''planned_bank_id'', VInt planned_bank_id)]))"

text \<open>The bank of an initial Draft batch is its identity, epoch and batch sequence.\<close>

definition publish_draft_command_sent ::
  "sched_table \<Rightarrow> int \<Rightarrow> int \<Rightarrow> int \<Rightarrow> int \<Rightarrow> int \<Rightarrow> int \<Rightarrow> int \<Rightarrow> (int \<times> int \<times> int) option \<Rightarrow> sched_table result" where
  "publish_draft_command_sent t slot publish_seq request_epoch draft_issue_seq draft_worker_generation draft_round_id draft_worker_id bank =
     bind_r (expect_epoch t slot request_epoch) (\<lambda>_.
     publish_dispatcher t slot publish_seq
       ([(''request_epoch'', VInt request_epoch), (''draft_issue_seq'', VInt draft_issue_seq),
         (''draft_worker_generation'', VInt draft_worker_generation), (''draft_round_id'', VInt draft_round_id),
         (''draft_worker_id'', VInt draft_worker_id)]
        @ (case bank of None \<Rightarrow> []
           | Some (bank_id, bank_epoch, batch_seq) \<Rightarrow>
               [(''draft_owner_epoch'', VInt 0), (''draft_source_snapshot_version'', VInt 0), (''draft_run_bank_id'', VInt bank_id),
                (''draft_run_bank_epoch'', VInt bank_epoch), (''draft_run_batch_seq'', VInt batch_seq)])))"

definition publish_prepare_command_sent ::
  "sched_table \<Rightarrow> int \<Rightarrow> int \<Rightarrow> int \<Rightarrow> int \<Rightarrow> int \<Rightarrow> int \<Rightarrow> int \<Rightarrow> int \<Rightarrow> sched_table result" where
  "publish_prepare_command_sent t slot publish_seq request_epoch target_prepare_seq planned_target_generation planned_bank_epoch
       planned_target_id planned_bank_id =
     bind_r (validate BANK_ID planned_bank_id) (\<lambda>_.
     bind_r (expect_epoch t slot request_epoch) (\<lambda>_.
     publish_dispatcher t slot publish_seq
       [(''request_epoch'', VInt request_epoch), (''target_prepare_seq'', VInt target_prepare_seq),
        (''planned_target_generation'', VInt planned_target_generation), (''planned_bank_epoch'', VInt planned_bank_epoch),
        (''planned_target_id'', VInt planned_target_id), (''planned_bank_id'', VInt planned_bank_id)]))"

definition publish_run_command_sent ::
  "sched_table \<Rightarrow> int \<Rightarrow> int \<Rightarrow> int \<Rightarrow> int \<Rightarrow> int \<Rightarrow> int \<Rightarrow> int \<Rightarrow> int \<Rightarrow> int \<Rightarrow> sched_table result" where
  "publish_run_command_sent t slot publish_seq request_epoch target_run_seq target_round_id planned_target_generation planned_bank_epoch
       planned_target_id planned_bank_id =
     bind_r (validate BANK_ID planned_bank_id) (\<lambda>_.
     bind_r (expect_epoch t slot request_epoch) (\<lambda>_.
     publish_dispatcher t slot publish_seq
       [(''request_epoch'', VInt request_epoch), (''target_run_seq'', VInt target_run_seq), (''target_round_id'', VInt target_round_id),
        (''planned_target_generation'', VInt planned_target_generation), (''planned_bank_epoch'', VInt planned_bank_epoch),
        (''planned_target_id'', VInt planned_target_id), (''planned_bank_id'', VInt planned_bank_id)]))"

section \<open>Draft and Target results\<close>

definition fence_slot :: "operation_fence \<Rightarrow> int" where "fence_slot f = rf_slot (of_request f)"
definition fence_epoch :: "operation_fence \<Rightarrow> int" where "fence_epoch f = rf_epoch (of_request f)"

definition draft_fence :: "sched_table \<Rightarrow> operation_fence \<Rightarrow> unit result" where
  "draft_fence t f =
     bind_r (t_read t REQUEST_ENGINE (fence_slot f) False) (\<lambda>engine.
     bind_r (t_read t REQUEST_DISPATCH (fence_slot f) False) (\<lambda>dispatch.
     bind_r (expect_fields engine [(''request_epoch'', VInt (fence_epoch f))]) (\<lambda>_.
     expect_fields dispatch
       [(''draft_owner_epoch'', VInt 0), (''draft_round_id'', VInt (of_round_id f)), (''draft_issue_seq'', VInt (of_op_seq f)),
        (''draft_worker_id'', VInt (of_worker_id f)), (''draft_worker_generation'', VInt (of_worker_generation f))])))"

definition draft_fact :: "operation_fence \<Rightarrow> int \<Rightarrow> int \<Rightarrow> int \<Rightarrow> arena_handle option \<Rightarrow> arena_handle option \<Rightarrow> (string \<times> field_value) list" where
  "draft_fact f status result_code count proposal state =
     [(''request_epoch'', VInt (fence_epoch f)), (''round_id'', VInt (of_round_id f)), (''observed_issue_seq'', VInt (of_op_seq f)),
      (''worker_generation'', VInt (of_worker_generation f)), (''worker_id'', VInt (of_worker_id f)), (''status'', VInt status),
      (''result_code'', VInt result_code), (''proposal_token_count'', VInt count), (''proposal_handle'', or_null proposal),
      (''draft_state_handle'', or_null state)]"

definition publish_in_draft :: "sched_table \<Rightarrow> operation_fence \<Rightarrow> int \<Rightarrow> int \<Rightarrow> sched_table result" where
  "publish_in_draft t f publish_seq result_code =
     bind_r (draft_fence t f) (\<lambda>_.
     bind_r (enum_value draft_status_values 1) (\<lambda>status.
     bind_r (enum_value result_code_values result_code) (\<lambda>code.
     publish_owned t ''draft_worker'' REQUEST_DRAFT (fence_slot f) publish_seq (draft_fact f status code 0 None None))))"

definition publish_ready_target ::
  "sched_table \<Rightarrow> operation_fence \<Rightarrow> int \<Rightarrow> int \<Rightarrow> arena_handle option \<Rightarrow> arena_handle option \<Rightarrow> int \<Rightarrow> sched_table result" where
  "publish_ready_target t f publish_seq proposal_token_count proposal state result_code =
     bind_r (draft_fence t f) (\<lambda>_.
     bind_r (enum_value draft_status_values 2) (\<lambda>status.
     bind_r (enum_value result_code_values result_code) (\<lambda>code.
     publish_owned t ''draft_worker'' REQUEST_DRAFT (fence_slot f) publish_seq
       (draft_fact f status code proposal_token_count proposal state))))"

definition target_fence :: "sched_table \<Rightarrow> operation_fence \<Rightarrow> int \<Rightarrow> int \<Rightarrow> unit result" where
  "target_fence t f bank_id bank_epoch =
     bind_r (validate BANK_ID bank_id) (\<lambda>_.
     bind_r (t_read t REQUEST_ENGINE (fence_slot f) False) (\<lambda>engine.
     bind_r (t_read t REQUEST_DISPATCH (fence_slot f) False) (\<lambda>dispatch.
     bind_r (expect_fields engine [(''request_epoch'', VInt (fence_epoch f))]) (\<lambda>_.
     expect_fields dispatch
       [(''target_round_id'', VInt (of_round_id f)), (''target_run_seq'', VInt (of_op_seq f)),
        (''planned_target_id'', VInt (of_worker_id f)), (''planned_target_generation'', VInt (of_worker_generation f)),
        (''planned_bank_id'', VInt bank_id), (''planned_bank_epoch'', VInt bank_epoch)]))))"

text \<open>The optional arguments of \<open>publish_ready_draft\<close> keep the names of the code, the older ones last.\<close>

record target_result =
  tr_accepted_draft_count :: "int option"
  tr_committed_delta_count :: "int option"
  tr_last_committed_token :: "int option"
  tr_committed_delta_handle :: "arena_handle option"
  tr_accepted_token_count :: "int option"
  tr_sampled_token :: "int option"
  tr_accepted_tokens_handle :: "arena_handle option"
  tr_logical_kv_len :: int
  tr_dirty_begin_block :: int
  tr_dirty_block_count :: int

definition or_else :: "'a option \<Rightarrow> 'a option \<Rightarrow> 'a option" where
  "or_else a b = (case a of None \<Rightarrow> b | Some x \<Rightarrow> Some x)"

definition publish_ready_draft ::
  "sched_table \<Rightarrow> operation_fence \<Rightarrow> int \<Rightarrow> int \<Rightarrow> int \<Rightarrow> int \<Rightarrow> target_result \<Rightarrow> int \<Rightarrow> sched_table result" where
  "publish_ready_draft t f publish_seq bank_id bank_epoch target_kv_version r result_code =
     bind_r (target_fence t f bank_id bank_epoch) (\<lambda>_.
     let accepted = (case or_else (tr_accepted_draft_count r) (tr_accepted_token_count r) of None \<Rightarrow> 0 | Some n \<Rightarrow> n);
         committed = (case tr_committed_delta_count r of None \<Rightarrow> accepted | Some n \<Rightarrow> n)
     in case or_else (tr_last_committed_token r) (tr_sampled_token r) of
          None \<Rightarrow> Inl (TypeError ''last_committed_token is required'')
        | Some token \<Rightarrow>
            bind_r (enum_value target_status_values 2) (\<lambda>status.
            bind_r (enum_value result_code_values result_code) (\<lambda>code.
            publish_owned t ''target_compute_lane'' REQUEST_TARGET_COMPUTE (fence_slot f) publish_seq
              [(''request_epoch'', VInt (fence_epoch f)), (''round_id'', VInt (of_round_id f)), (''observed_run_seq'', VInt (of_op_seq f)),
               (''target_generation'', VInt (of_worker_generation f)), (''bank_epoch'', VInt bank_epoch),
               (''target_kv_version'', VInt target_kv_version), (''target_id'', VInt (of_worker_id f)), (''status'', VInt status),
               (''result_code'', VInt code), (''bank_id'', VInt bank_id), (''accepted_draft_count'', VInt accepted),
               (''committed_delta_count'', VInt committed), (''last_committed_token'', VInt token),
               (''logical_kv_len'', VInt (tr_logical_kv_len r)), (''dirty_begin_block'', VInt (tr_dirty_begin_block r)),
               (''dirty_block_count'', VInt (tr_dirty_block_count r)),
               (''committed_delta_handle'', or_null (or_else (tr_committed_delta_handle r) (tr_accepted_tokens_handle r)))])))"

section \<open>Target copies\<close>

definition completed_target_fence :: "sched_table \<Rightarrow> operation_fence \<Rightarrow> int \<Rightarrow> int \<Rightarrow> unit result" where
  "completed_target_fence t f bank_id bank_epoch =
     bind_r (validate BANK_ID bank_id) (\<lambda>_.
     bind_r (t_read_names t REQUEST_ENGINE (fence_slot f) [''request_epoch'']) (\<lambda>engine.
     bind_r (t_read_names t REQUEST_TARGET_COMPUTE (fence_slot f)
       [''request_epoch'', ''round_id'', ''observed_run_seq'', ''target_id'', ''target_generation'', ''bank_id'', ''bank_epoch'']) (\<lambda>target.
     bind_r (expect_fields engine [(''request_epoch'', VInt (fence_epoch f))]) (\<lambda>_.
     expect_fields target
       [(''request_epoch'', VInt (fence_epoch f)), (''round_id'', VInt (of_round_id f)), (''observed_run_seq'', VInt (of_op_seq f)),
        (''target_id'', VInt (of_worker_id f)), (''target_generation'', VInt (of_worker_generation f)), (''bank_id'', VInt bank_id),
        (''bank_epoch'', VInt bank_epoch)]))))"

definition prepare_fence :: "sched_table \<Rightarrow> operation_fence \<Rightarrow> int \<Rightarrow> int \<Rightarrow> unit result" where
  "prepare_fence t f bank_id bank_epoch =
     bind_r (validate BANK_ID bank_id) (\<lambda>_.
     bind_r (t_read_names t REQUEST_DISPATCH (fence_slot f)
       [''target_prepare_seq'', ''planned_target_id'', ''planned_target_generation'', ''planned_bank_id'', ''planned_bank_epoch'']) (\<lambda>dispatch.
     expect_fields dispatch
       [(''target_prepare_seq'', VInt (of_op_seq f)), (''planned_target_id'', VInt (of_worker_id f)),
        (''planned_target_generation'', VInt (of_worker_generation f)), (''planned_bank_id'', VInt bank_id),
        (''planned_bank_epoch'', VInt bank_epoch)]))"

definition publish_d2h_started ::
  "sched_table \<Rightarrow> operation_fence \<Rightarrow> int \<Rightarrow> int \<Rightarrow> int \<Rightarrow> int \<Rightarrow> int \<Rightarrow> int \<Rightarrow> int \<Rightarrow> sched_table result" where
  "publish_d2h_started t f publish_seq source_bank_id source_bank_epoch host_slot_generation writer_version copy_start copy_bytes =
     bind_r (completed_target_fence t f source_bank_id source_bank_epoch) (\<lambda>_.
     publish_owned t ''target_copy_lane'' REQUEST_D2H (fence_slot f) publish_seq
       [(''request_epoch'', VInt (fence_epoch f)), (''round_id'', VInt (of_round_id f)), (''d2h_op_seq'', VInt (of_op_seq f)),
        (''target_id'', VInt (of_worker_id f)), (''target_generation'', VInt (of_worker_generation f)),
        (''source_bank_id'', VInt source_bank_id), (''source_bank_epoch'', VInt source_bank_epoch),
        (''host_slot_generation'', VInt host_slot_generation), (''writer_version'', VInt writer_version), (''status'', VInt 1),
        (''result_code'', VInt 0), (''copy_start_time_ns'', VInt copy_start), (''copy_bytes'', VInt copy_bytes)])"

definition publish_h2d_wait ::
  "sched_table \<Rightarrow> operation_fence \<Rightarrow> int \<Rightarrow> int \<Rightarrow> int \<Rightarrow> int \<Rightarrow> int \<Rightarrow> int \<Rightarrow> int \<Rightarrow> sched_table result" where
  "publish_h2d_wait t f publish_seq destination_bank_id destination_bank_epoch source_host_version status copy_start copy_bytes =
     bind_r (require (status \<in> {1, 2}) (ValueError ''H2D wait publication requires WAIT_HOST or IN_H2D'')) (\<lambda>_.
     bind_r (prepare_fence t f destination_bank_id destination_bank_epoch) (\<lambda>_.
     publish_owned t ''target_copy_lane'' REQUEST_H2D (fence_slot f) publish_seq
       [(''request_epoch'', VInt (fence_epoch f)), (''round_id'', VInt (of_round_id f)), (''observed_prepare_seq'', VInt (of_op_seq f)),
        (''target_id'', VInt (of_worker_id f)), (''target_generation'', VInt (of_worker_generation f)),
        (''source_host_version'', VInt source_host_version), (''destination_bank_id'', VInt destination_bank_id),
        (''destination_bank_epoch'', VInt destination_bank_epoch), (''status'', VInt status), (''result_code'', VInt 0),
        (''copy_start_time_ns'', VInt copy_start), (''copy_bytes'', VInt copy_bytes)]))"

definition publish_host_ready ::
  "sched_table \<Rightarrow> operation_fence \<Rightarrow> int \<Rightarrow> int \<Rightarrow> int \<Rightarrow> int \<Rightarrow> int \<Rightarrow> int \<Rightarrow> int \<Rightarrow> int \<Rightarrow> int \<Rightarrow> sched_table result" where
  "publish_host_ready t f publish_seq source_bank_id source_bank_epoch host_slot_generation writer_version ready_version committed_blocks
       logical_kv_len result_code =
     bind_r (validate BANK_ID source_bank_id) (\<lambda>_.
     bind_r (completed_target_fence t f source_bank_id source_bank_epoch) (\<lambda>_.
     bind_r (t_read t REQUEST_HOSTKV (fence_slot f) False) (\<lambda>hostkv.
     bind_r (expect_fields hostkv
       [(''request_epoch'', VInt (fence_epoch f)), (''host_slot_generation'', VInt host_slot_generation),
        (''writer_lease_generation'', VInt writer_version)]) (\<lambda>_.
     bind_r (enum_value d2h_status_values 2) (\<lambda>status.
     bind_r (enum_value result_code_values result_code) (\<lambda>code.
     publish_owned t ''target_copy_lane'' REQUEST_D2H (fence_slot f) publish_seq
       [(''request_epoch'', VInt (fence_epoch f)), (''round_id'', VInt (of_round_id f)), (''d2h_op_seq'', VInt (of_op_seq f)),
        (''target_generation'', VInt (of_worker_generation f)), (''source_bank_epoch'', VInt source_bank_epoch),
        (''host_slot_generation'', VInt host_slot_generation), (''writer_version'', VInt writer_version),
        (''ready_version'', VInt ready_version), (''target_id'', VInt (of_worker_id f)), (''status'', VInt status),
        (''result_code'', VInt code), (''source_bank_id'', VInt source_bank_id), (''committed_blocks'', VInt committed_blocks),
        (''logical_kv_len'', VInt logical_kv_len)]))))))"

text \<open>The copy that a GPU_READY fact reads: the HostKV version of the D2H copy, in the slot the allocator still leases.\<close>

definition ready_source :: "sched_table \<Rightarrow> operation_fence \<Rightarrow> int \<Rightarrow> unit result" where
  "ready_source t f source_host_version =
     bind_r (t_read t REQUEST_ENGINE (fence_slot f) False) (\<lambda>engine.
     bind_r (t_read t REQUEST_D2H (fence_slot f) False) (\<lambda>d2h.
     bind_r (t_read t REQUEST_HOSTKV (fence_slot f) False) (\<lambda>hostkv.
     bind_r (checks
       [expect_fields engine [(''request_epoch'', VInt (fence_epoch f))],
        expect_fields d2h [(''request_epoch'', VInt (fence_epoch f)), (''status'', VInt 2), (''result_code'', VInt 0),
                           (''ready_version'', VInt source_host_version)],
        expect_fields hostkv [(''request_epoch'', VInt (fence_epoch f))]]) (\<lambda>_.
     bind_r (snapshot_get hostkv ''host_slot_generation'') (\<lambda>generation.
     bind_r (expect_fields d2h [(''host_slot_generation'', generation)]) (\<lambda>_.
     bind_r (snapshot_get hostkv ''writer_lease_generation'') (\<lambda>lease.
       expect_fields d2h [(''writer_version'', lease)])))))))"

definition publish_gpu_ready ::
  "sched_table \<Rightarrow> operation_fence \<Rightarrow> int \<Rightarrow> int \<Rightarrow> int \<Rightarrow> int \<Rightarrow> int \<Rightarrow> int \<Rightarrow> int \<Rightarrow> sched_table result" where
  "publish_gpu_ready t f publish_seq destination_bank_id destination_bank_epoch source_host_version gpu_ready_version copied_blocks result_code =
     bind_r (validate BANK_ID destination_bank_id) (\<lambda>_.
     bind_r (prepare_fence t f destination_bank_id destination_bank_epoch) (\<lambda>_.
     bind_r (ready_source t f source_host_version) (\<lambda>_.
     bind_r (enum_value h2d_status_values 3) (\<lambda>status.
     bind_r (enum_value result_code_values result_code) (\<lambda>code.
     publish_owned t ''target_copy_lane'' REQUEST_H2D (fence_slot f) publish_seq
       [(''request_epoch'', VInt (fence_epoch f)), (''round_id'', VInt (of_round_id f)), (''observed_prepare_seq'', VInt (of_op_seq f)),
        (''target_generation'', VInt (of_worker_generation f)), (''source_host_version'', VInt source_host_version),
        (''destination_bank_epoch'', VInt destination_bank_epoch), (''gpu_ready_version'', VInt gpu_ready_version),
        (''target_id'', VInt (of_worker_id f)), (''status'', VInt status), (''result_code'', VInt code),
        (''destination_bank_id'', VInt destination_bank_id), (''copied_blocks'', VInt copied_blocks)])))))"

section \<open>Workers\<close>

definition expect_worker :: "sched_table \<Rightarrow> int \<Rightarrow> int \<Rightarrow> int \<Rightarrow> unit result" where
  "expect_worker t worker_row role worker_generation =
     bind_r (t_read t WORKER_COMMON worker_row False) (\<lambda>common.
     bind_r (enum_value worker_role_values role) (\<lambda>r.
     expect_fields common [(''role'', VInt r), (''worker_generation'', VInt worker_generation)]))"

definition publish_common ::
  "sched_table \<Rightarrow> int \<Rightarrow> int \<Rightarrow> int \<Rightarrow> int \<Rightarrow> int \<Rightarrow> int \<Rightarrow> int \<Rightarrow> int \<Rightarrow> int \<Rightarrow> sched_table result" where
  "publish_common t worker_row publish_seq worker_id role worker_generation status command_consumer_seq max_batch_size max_batch_tokens =
     bind_r (enum_value worker_role_values role) (\<lambda>r.
     bind_r (enum_value worker_status_values status) (\<lambda>s.
     publish_owned t ''worker'' WORKER_COMMON worker_row publish_seq
       [(''worker_id'', VInt worker_id), (''role'', VInt r), (''worker_generation'', VInt worker_generation), (''status'', VInt s),
        (''command_consumer_seq'', VInt command_consumer_seq), (''max_batch_size'', VInt max_batch_size),
        (''max_batch_tokens'', VInt max_batch_tokens)]))"

definition publish_draft_runtime ::
  "sched_table \<Rightarrow> int \<Rightarrow> int \<Rightarrow> int \<Rightarrow> int \<Rightarrow> int \<Rightarrow> int \<Rightarrow> int \<Rightarrow> int \<Rightarrow> sched_table result" where
  "publish_draft_runtime t worker_row publish_seq worker_generation current_batch_seq compute_status compute_start request_count token_count =
     bind_r (expect_worker t worker_row 1 worker_generation) (\<lambda>_.
     bind_r (enum_value compute_status_values compute_status) (\<lambda>s.
     publish_owned t ''draft_worker'' WORKER_DRAFT_RUNTIME worker_row publish_seq
       [(''current_batch_seq'', VInt current_batch_seq), (''compute_status'', VInt s), (''compute_start_time_ns'', VInt compute_start),
        (''batch_request_count'', VInt request_count), (''batch_token_count'', VInt token_count)]))"

definition publish_target_compute_runtime ::
  "sched_table \<Rightarrow> int \<Rightarrow> int \<Rightarrow> int \<Rightarrow> int \<Rightarrow> int \<Rightarrow> int \<Rightarrow> int \<Rightarrow> int \<Rightarrow> sched_table result" where
  "publish_target_compute_runtime t worker_row publish_seq worker_generation batch_seq compute_status compute_start request_count token_count =
     bind_r (expect_worker t worker_row 2 worker_generation) (\<lambda>_.
     bind_r (enum_value compute_status_values compute_status) (\<lambda>s.
     publish_owned t ''target_compute_lane'' WORKER_TARGET_COMPUTE_RUNTIME worker_row publish_seq
       [(''compute_batch_seq'', VInt batch_seq), (''compute_status'', VInt s), (''compute_start_time_ns'', VInt compute_start),
        (''compute_request_count'', VInt request_count), (''compute_token_count'', VInt token_count)]))"

definition publish_target_copy_runtime ::
  "sched_table \<Rightarrow> int \<Rightarrow> int \<Rightarrow> int \<Rightarrow> int \<Rightarrow> int \<Rightarrow> int \<Rightarrow> int \<Rightarrow> sched_table result" where
  "publish_target_copy_runtime t worker_row publish_seq worker_generation copy_op_seq copy_status copy_start copy_bytes =
     bind_r (expect_worker t worker_row 2 worker_generation) (\<lambda>_.
     bind_r (enum_value copy_status_values copy_status) (\<lambda>s.
     publish_owned t ''target_copy_lane'' WORKER_TARGET_COPY_RUNTIME worker_row publish_seq
       [(''copy_op_seq'', VInt copy_op_seq), (''copy_status'', VInt s), (''copy_start_time_ns'', VInt copy_start),
        (''copy_bytes'', VInt copy_bytes)]))"

record bank_fact =
  bf_bank_id :: int
  bf_bank_epoch :: int
  bf_role :: int
  bf_state :: int
  bf_batch_seq :: int
  bf_capacity_blocks :: int
  bf_alloc_ptr_blocks :: int
  bf_capacity_rows :: int
  bf_alloc_rows :: int

definition bank_values :: "bank_fact \<Rightarrow> int \<Rightarrow> int \<Rightarrow> (string \<times> field_value) list" where
  "bank_values b role state =
     [(''bank_id'', VInt (bf_bank_id b)), (''bank_epoch'', VInt (bf_bank_epoch b)), (''role'', VInt role), (''state'', VInt state),
      (''batch_seq'', VInt (bf_batch_seq b)), (''capacity_blocks'', VInt (bf_capacity_blocks b)),
      (''alloc_ptr_blocks'', VInt (bf_alloc_ptr_blocks b)), (''capacity_rows'', VInt (bf_capacity_rows b)),
      (''alloc_rows'', VInt (bf_alloc_rows b))]"

definition publish_bank :: "sched_table \<Rightarrow> int \<Rightarrow> int \<Rightarrow> int \<Rightarrow> int \<Rightarrow> bank_fact \<Rightarrow> sched_table result" where
  "publish_bank t worker_row bank_index publish_seq worker_generation b =
     bind_r (expect_worker t worker_row 2 worker_generation) (\<lambda>_.
     bind_r (checks [check_id BANK_ID bank_index, check_id BANK_ID (bf_bank_id b),
       require (bank_index < tb_bank_rows t) (TableProtocolError ''bank_index outside worker bank segment''),
       require (bf_bank_id b = bank_index) (TableProtocolError ''bank_id must match fixed bank_index'')]) (\<lambda>_.
     bind_r (enum_value bank_role_values (bf_role b)) (\<lambda>role.
     bind_r (enum_value bank_state_values (bf_state b)) (\<lambda>state.
     publish_owned t ''target_copy_lane'' WORKER_BANK (worker_row * tb_bank_rows t + bank_index) publish_seq
       (bank_values b role state)))))"

text \<open>\<open>publish\<close> of \<open>table/draft_fences.py\<close>: the owner of the block, the next sequence of the row.\<close>

definition publish_next :: "sched_table \<Rightarrow> block_kind \<Rightarrow> int \<Rightarrow> (string \<times> field_value) list \<Rightarrow> sched_table result" where
  "publish_next t k slot fvs =
     bind_r (partition_of t k) (\<lambda>p.
     bind_r (next_seq t k slot) (\<lambda>seq.
     publish_owned t (sl_owner (tp_layout p)) k slot seq fvs))"

definition expect_draft_worker :: "sched_table \<Rightarrow> int \<Rightarrow> int \<Rightarrow> unit result" where
  "expect_draft_worker t row generation =
     bind_r (t_read t WORKER_COMMON row True) (\<lambda>common.
     expect_fields common [(''role'', VInt 1), (''worker_generation'', VInt generation)])"

definition publish_draft_copy_runtime :: "sched_table \<Rightarrow> int \<Rightarrow> int \<Rightarrow> int \<Rightarrow> int \<Rightarrow> int \<Rightarrow> int \<Rightarrow> sched_table result" where
  "publish_draft_copy_runtime t worker_row worker_generation copy_op_seq copy_status copy_start copy_bytes =
     bind_r (expect_draft_worker t worker_row worker_generation) (\<lambda>_.
     bind_r (enum_value copy_status_values copy_status) (\<lambda>s.
     publish_next t WORKER_DRAFT_COPY_RUNTIME worker_row
       [(''copy_op_seq'', VInt copy_op_seq), (''copy_status'', VInt s), (''copy_start_time_ns'', VInt copy_start),
        (''copy_bytes'', VInt copy_bytes)]))"

definition publish_draft_bank :: "sched_table \<Rightarrow> int \<Rightarrow> int \<Rightarrow> bank_fact \<Rightarrow> sched_table result" where
  "publish_draft_bank t worker_row worker_generation b =
     bind_r (expect_draft_worker t worker_row worker_generation) (\<lambda>_.
     bind_r (checks
       [check_bank_id (bf_bank_id b), check_id U64 (bf_bank_epoch b), check_id U64 (bf_batch_seq b),
        check_id U32 (bf_capacity_blocks b), check_id U32 (bf_alloc_ptr_blocks b), check_id U32 (bf_capacity_rows b),
        check_id U32 (bf_alloc_rows b),
        require (bf_alloc_rows b \<le> bf_capacity_rows b \<and> bf_alloc_ptr_blocks b \<le> bf_capacity_blocks b)
          (ValueError ''Draft Bank allocation exceeds capacity'')]) (\<lambda>_.
     bind_r (enum_value bank_role_values (bf_role b)) (\<lambda>role.
     bind_r (enum_value bank_state_values (bf_state b)) (\<lambda>state.
     publish_next t WORKER_DRAFT_BANK (worker_row * tb_bank_rows t + bf_bank_id b) (bank_values b role state)))))"

end
