(* ===== verification/WriterFacts.thy ===== *)
theory WriterFacts
  imports TableCells TableWriters
begin

text \<open>
  What the typed writers of the tables guarantee: a fact appears only while the rows it was joined with still
  carry its fence, and its publication changes nothing but the row of its owner.
\<close>

section \<open>Joins\<close>

definition shows_fields :: "sched_table \<Rightarrow> block_kind \<Rightarrow> int \<Rightarrow> (string \<times> field_value) list \<Rightarrow> bool" where
  "shows_fields t k row fvs \<longleftrightarrow> (case cells t (k, row) of None \<Rightarrow> False
     | Some c \<Rightarrow> fst c \<noteq> invalid U64 \<and> list_all (\<lambda>fv. snd c (fst fv) = Some (snd fv)) fvs)"

definition one_cell :: "sched_table \<Rightarrow> sched_table \<Rightarrow> block_kind \<Rightarrow> int \<Rightarrow> bool" where
  "one_cell t t' k row \<longleftrightarrow> (\<exists>c. cells t' = (cells t)((k, row) \<mapsto> c))"

lemma expect_fields_shows:
  assumes "agrees t k row s" "expect_fields s fvs = Inr ()"
  shows "shows_fields t k row fvs"
proof -
  have "\<forall>fv \<in> set fvs. snapshot_get s (fst fv) = Inr (snd fv)"
    using assms(2) by (auto simp: expect_fields_def expect_field_def bind_r_eq_Inr)
  then show ?thesis using assms(1) by (auto simp: agrees_def shows_fields_def list_all_iff)
qed

lemma read_shows:
  "table_ok t \<Longrightarrow> t_read t k row include_cold = Inr s \<Longrightarrow> expect_fields s fvs = Inr () \<Longrightarrow> shows_fields t k row fvs"
  "table_ok t \<Longrightarrow> t_read_names t k row names = Inr s \<Longrightarrow> expect_fields s fvs = Inr () \<Longrightarrow> shows_fields t k row fvs"
  by (blast intro: expect_fields_shows t_read_agrees t_read_names_agrees)+

lemma shows_append: "shows_fields t k row (xs @ ys) \<longleftrightarrow> shows_fields t k row xs \<and> shows_fields t k row ys"
  by (auto simp: shows_fields_def split: option.splits)

lemma one_cell_shows: "one_cell t t' k row \<Longrightarrow> (k', r) \<noteq> (k, row) \<Longrightarrow> shows_fields t' k' r fvs = shows_fields t k' r fvs"
  by (auto simp: one_cell_def shows_fields_def)

lemma published_shows:
  assumes "table_ok t" "publish_owned t owner k row seq fvs = Inr t'" "fields_ok fvs"
  shows "table_ok t' \<and> one_cell t t' k row \<and> shows_fields t' k row fvs"
proof -
  obtain c where c: "cells t' = (cells t)((k, row) \<mapsto> cell_update seq fvs c)" using publish_owned_cells(5) [OF assms] by blast
  have "list_all (\<lambda>fv. (snd c ++ map_of fvs) (fst fv) = Some (snd fv)) fvs"
    using assms(3) by (auto simp: fields_ok_def list_all_iff map_add_def)
  then show ?thesis using c publish_owned_cells(1,3) [OF assms] by (auto simp: one_cell_def shows_fields_def cell_update_def)
qed

section \<open>Facts of the workers\<close>

definition handles_ok :: "arena_handle option list \<Rightarrow> bool" where
  "handles_ok hs \<longleftrightarrow> list_all (\<lambda>h. case h of None \<Rightarrow> True | Some x \<Rightarrow> handle_ok x) hs"

lemma or_null_ok [simp]: "value_ok (or_null h) \<longleftrightarrow> handles_ok [h]"
  by (simp add: or_null_def value_ok_def handles_ok_def split: option.splits)

lemma value_ok_int [simp]: "value_ok (VInt x)" by (simp add: value_ok_def)

text \<open>The writers of the facts about one operation, with the block and the fence of the fact.\<close>

inductive publishes_fact :: "sched_table \<Rightarrow> block_kind \<Rightarrow> operation_fence \<Rightarrow> sched_table \<Rightarrow> bool" for t where
  in_draft: "publish_in_draft t f seq code = Inr t' \<Longrightarrow> publishes_fact t REQUEST_DRAFT f t'"
| ready_target: "publish_ready_target t f seq count proposal state code = Inr t' \<Longrightarrow> handles_ok [proposal, state]
    \<Longrightarrow> publishes_fact t REQUEST_DRAFT f t'"
| ready_draft: "publish_ready_draft t f seq bank bank_epoch version r code = Inr t'
    \<Longrightarrow> handles_ok [tr_committed_delta_handle r, tr_accepted_tokens_handle r] \<Longrightarrow> publishes_fact t REQUEST_TARGET_COMPUTE f t'"
| d2h_started: "publish_d2h_started t f seq bank bank_epoch gen writer start n = Inr t' \<Longrightarrow> publishes_fact t REQUEST_D2H f t'"
| host_ready: "publish_host_ready t f seq bank bank_epoch gen writer ready blocks kv_len code = Inr t' \<Longrightarrow> publishes_fact t REQUEST_D2H f t'"
| gpu_ready: "publish_gpu_ready t f seq bank bank_epoch version gpu copied code = Inr t' \<Longrightarrow> publishes_fact t REQUEST_H2D f t'"

lemma draft_fence_shows:
  assumes "table_ok t" "draft_fence t f = Inr ()"
  shows "shows_fields t REQUEST_ENGINE (fence_slot f) [(''request_epoch'', VInt (fence_epoch f))]"
    "shows_fields t REQUEST_DISPATCH (fence_slot f) [(''draft_owner_epoch'', VInt 0), (''draft_round_id'', VInt (of_round_id f)),
       (''draft_issue_seq'', VInt (of_op_seq f)), (''draft_worker_id'', VInt (of_worker_id f)),
       (''draft_worker_generation'', VInt (of_worker_generation f))]"
  using assms(2) by (auto simp: draft_fence_def bind_r_eq_Inr intro: read_shows [OF assms(1)])

lemma target_fence_shows:
  assumes "table_ok t" "target_fence t f bank_id bank_epoch = Inr ()"
  shows "shows_fields t REQUEST_ENGINE (fence_slot f) [(''request_epoch'', VInt (fence_epoch f))]"
    "shows_fields t REQUEST_DISPATCH (fence_slot f) [(''target_round_id'', VInt (of_round_id f)), (''target_run_seq'', VInt (of_op_seq f)),
       (''planned_target_id'', VInt (of_worker_id f)), (''planned_target_generation'', VInt (of_worker_generation f)),
       (''planned_bank_id'', VInt bank_id), (''planned_bank_epoch'', VInt bank_epoch)]"
  using assms(2) by (auto simp: target_fence_def bind_r_eq_Inr intro: read_shows [OF assms(1)])

lemma completed_target_fence_shows:
  assumes "table_ok t" "completed_target_fence t f bank_id bank_epoch = Inr ()"
  shows "shows_fields t REQUEST_ENGINE (fence_slot f) [(''request_epoch'', VInt (fence_epoch f))]"
    "shows_fields t REQUEST_TARGET_COMPUTE (fence_slot f) [(''request_epoch'', VInt (fence_epoch f)), (''round_id'', VInt (of_round_id f)),
       (''observed_run_seq'', VInt (of_op_seq f)), (''target_id'', VInt (of_worker_id f)), (''target_generation'', VInt (of_worker_generation f)),
       (''bank_id'', VInt bank_id), (''bank_epoch'', VInt bank_epoch)]"
  using assms(2) by (auto simp: completed_target_fence_def bind_r_eq_Inr intro: read_shows [OF assms(1)])

lemma agrees_get: "agrees t k row s \<Longrightarrow> snapshot_get s name = Inr v \<Longrightarrow> shows_fields t k row [(name, v)]"
  by (auto simp: agrees_def shows_fields_def)

lemma ready_source_shows:
  assumes ok: "table_ok t" and "ready_source t f version = Inr ()"
  shows "shows_fields t REQUEST_ENGINE (fence_slot f) [(''request_epoch'', VInt (fence_epoch f))]"
    "\<exists>generation lease. shows_fields t REQUEST_D2H (fence_slot f) [(''request_epoch'', VInt (fence_epoch f)), (''status'', VInt 2),
          (''result_code'', VInt 0), (''ready_version'', VInt version), (''host_slot_generation'', generation), (''writer_version'', lease)]
       \<and> shows_fields t REQUEST_HOSTKV (fence_slot f) [(''request_epoch'', VInt (fence_epoch f)), (''host_slot_generation'', generation),
          (''writer_lease_generation'', lease)]"
proof -
  obtain engine d2h hostkv generation lease where
    e: "t_read t REQUEST_ENGINE (fence_slot f) False = Inr engine" "expect_fields engine [(''request_epoch'', VInt (fence_epoch f))] = Inr ()"
    and d: "t_read t REQUEST_D2H (fence_slot f) False = Inr d2h"
      "expect_fields d2h [(''request_epoch'', VInt (fence_epoch f)), (''status'', VInt 2), (''result_code'', VInt 0),
                           (''ready_version'', VInt version)] = Inr ()"
      "expect_fields d2h [(''host_slot_generation'', generation)] = Inr ()" "expect_fields d2h [(''writer_version'', lease)] = Inr ()"
    and h: "t_read t REQUEST_HOSTKV (fence_slot f) False = Inr hostkv" "expect_fields hostkv [(''request_epoch'', VInt (fence_epoch f))] = Inr ()"
      "snapshot_get hostkv ''host_slot_generation'' = Inr generation" "snapshot_get hostkv ''writer_lease_generation'' = Inr lease"
    using assms(2) unfolding ready_source_def bind_r_eq_Inr checks_ok by auto
  show "shows_fields t REQUEST_ENGINE (fence_slot f) [(''request_epoch'', VInt (fence_epoch f))]" by (rule read_shows(1) [OF ok e])
  note k = t_read_agrees [OF ok h(1)]
  have "shows_fields t REQUEST_D2H (fence_slot f) ([(''request_epoch'', VInt (fence_epoch f)), (''status'', VInt 2),
          (''result_code'', VInt 0), (''ready_version'', VInt version)] @ [(''host_slot_generation'', generation)] @ [(''writer_version'', lease)])"
    unfolding shows_append using read_shows(1) [OF ok d(1)] d(2-4) by blast
  moreover have "shows_fields t REQUEST_HOSTKV (fence_slot f) ([(''request_epoch'', VInt (fence_epoch f))] @ [(''host_slot_generation'', generation)]
          @ [(''writer_lease_generation'', lease)])"
    unfolding shows_append using read_shows(1) [OF ok h(1,2)] agrees_get [OF k h(3)] agrees_get [OF k h(4)] by blast
  ultimately show "\<exists>generation lease. shows_fields t REQUEST_D2H (fence_slot f) [(''request_epoch'', VInt (fence_epoch f)), (''status'', VInt 2),
          (''result_code'', VInt 0), (''ready_version'', VInt version), (''host_slot_generation'', generation), (''writer_version'', lease)]
       \<and> shows_fields t REQUEST_HOSTKV (fence_slot f) [(''request_epoch'', VInt (fence_epoch f)), (''host_slot_generation'', generation),
          (''writer_lease_generation'', lease)]" unfolding append.simps by blast
qed

lemma prepare_fence_shows:
  assumes "table_ok t" "prepare_fence t f bank_id bank_epoch = Inr ()"
  shows "shows_fields t REQUEST_DISPATCH (fence_slot f) [(''target_prepare_seq'', VInt (of_op_seq f)), (''planned_target_id'', VInt (of_worker_id f)),
       (''planned_target_generation'', VInt (of_worker_generation f)), (''planned_bank_id'', VInt bank_id),
       (''planned_bank_epoch'', VInt bank_epoch)]"
  using assms(2) by (auto simp: prepare_fence_def bind_r_eq_Inr intro: read_shows [OF assms(1)])

text \<open>The row that authorizes a fact about an operation, and what it must carry.\<close>

fun authority :: "block_kind \<Rightarrow> operation_fence \<Rightarrow> block_kind \<times> (string \<times> field_value) list" where
  "authority REQUEST_DRAFT f = (REQUEST_DISPATCH, [(''draft_round_id'', VInt (of_round_id f)), (''draft_issue_seq'', VInt (of_op_seq f)),
     (''draft_worker_id'', VInt (of_worker_id f)), (''draft_worker_generation'', VInt (of_worker_generation f))])"
| "authority REQUEST_TARGET_COMPUTE f = (REQUEST_DISPATCH, [(''target_round_id'', VInt (of_round_id f)), (''target_run_seq'', VInt (of_op_seq f)),
     (''planned_target_id'', VInt (of_worker_id f)), (''planned_target_generation'', VInt (of_worker_generation f))])"
| "authority REQUEST_D2H f = (REQUEST_TARGET_COMPUTE, [(''request_epoch'', VInt (fence_epoch f)), (''round_id'', VInt (of_round_id f)),
     (''observed_run_seq'', VInt (of_op_seq f)), (''target_id'', VInt (of_worker_id f)), (''target_generation'', VInt (of_worker_generation f))])"
| "authority REQUEST_H2D f = (REQUEST_DISPATCH, [(''target_prepare_seq'', VInt (of_op_seq f)), (''planned_target_id'', VInt (of_worker_id f)),
     (''planned_target_generation'', VInt (of_worker_generation f))])"
| "authority k f = (k, [])"

lemma shows_Cons: "shows_fields t k row (fv # fvs) \<longleftrightarrow> shows_fields t k row [fv] \<and> shows_fields t k row fvs"
  using shows_append [of t k row "[fv]" fvs] by simp

definition fact_ok :: "sched_table \<Rightarrow> block_kind \<Rightarrow> operation_fence \<Rightarrow> sched_table \<Rightarrow> bool" where
  "fact_ok t k f t' \<longleftrightarrow> table_ok t' \<and> one_cell t t' k (fence_slot f)
     \<and> shows_fields t' k (fence_slot f) [(''request_epoch'', VInt (fence_epoch f)), (''round_id'', VInt (of_round_id f))]
     \<and> shows_fields t' REQUEST_ENGINE (fence_slot f) [(''request_epoch'', VInt (fence_epoch f))]
     \<and> shows_fields t' (fst (authority k f)) (fence_slot f) (snd (authority k f))"

lemma fact_okI:
  assumes "table_ok t" "publish_owned t owner k (fence_slot f) seq
      ((''request_epoch'', VInt (fence_epoch f)) # (''round_id'', VInt (of_round_id f)) # fvs) = Inr t'"
    and "fields_ok ((''request_epoch'', VInt (fence_epoch f)) # (''round_id'', VInt (of_round_id f)) # fvs)"
    and "shows_fields t REQUEST_ENGINE (fence_slot f) [(''request_epoch'', VInt (fence_epoch f))]"
    and "shows_fields t (fst (authority k f)) (fence_slot f) (snd (authority k f))" "k \<noteq> REQUEST_ENGINE" "fst (authority k f) \<noteq> k"
  shows "fact_ok t k f t'"
proof -
  let ?two = "[(''request_epoch'', VInt (fence_epoch f)), (''round_id'', VInt (of_round_id f))]"
  have p: "table_ok t'" "one_cell t t' k (fence_slot f)" "shows_fields t' k (fence_slot f) (?two @ fvs)"
    using published_shows [OF assms(1-3)] by simp_all
  have "shows_fields t' k' (fence_slot f) xs = shows_fields t k' (fence_slot f) xs" if "k' \<noteq> k" for k' xs
    by (rule one_cell_shows [OF p(2)]) (simp add: that)
  then show ?thesis using p assms(4-7) unfolding fact_ok_def shows_append by metis
qed

lemmas fact_intro_simps = bind_r_eq_Inr fields_ok_def handles_ok_def

lemma publishes_fact_ok:
  assumes "table_ok t" "publishes_fact t k f t'"
  shows "fact_ok t k f t'"
  using assms(2)
proof cases
  case (in_draft seq code)
  then show ?thesis using draft_fence_shows [OF assms(1), of f]
    by (auto simp: publish_in_draft_def draft_fact_def fact_intro_simps shows_Cons [of _ _ _ _ "_ # _"] intro!: fact_okI [OF assms(1)])
next
  case (ready_target seq count proposal state code)
  then show ?thesis using draft_fence_shows [OF assms(1), of f]
    by (auto simp: publish_ready_target_def draft_fact_def fact_intro_simps shows_Cons [of _ _ _ _ "_ # _"] intro!: fact_okI [OF assms(1)])
next
  case (ready_draft seq bank bank_epoch version r code)
  have h: "handles_ok [or_else (tr_committed_delta_handle r) (tr_accepted_tokens_handle r)]"
    using ready_draft(3) by (simp add: handles_ok_def or_else_def split: option.splits)
  obtain token where "or_else (tr_last_committed_token r) (tr_sampled_token r) = Some token"
    using ready_draft(2) by (cases "or_else (tr_last_committed_token r) (tr_sampled_token r)") (auto simp: publish_ready_draft_def bind_r_eq_Inr Let_def)
  then show ?thesis using ready_draft(1,2) target_fence_shows [OF assms(1), of f bank bank_epoch] h
    by (auto simp: publish_ready_draft_def bind_r_eq_Inr fields_ok_def Let_def shows_Cons [of _ _ _ _ "_ # _"] intro!: fact_okI [OF assms(1)])
next
  case (d2h_started seq bank bank_epoch gen writer start n)
  then show ?thesis using completed_target_fence_shows [OF assms(1), of f bank bank_epoch]
    by (auto simp: publish_d2h_started_def fact_intro_simps shows_Cons [of _ _ _ _ "_ # _"] intro!: fact_okI [OF assms(1)])
next
  case (host_ready seq bank bank_epoch gen writer ready blocks kv_len code)
  then show ?thesis using completed_target_fence_shows [OF assms(1), of f bank bank_epoch]
    by (auto simp: publish_host_ready_def fact_intro_simps shows_Cons [of _ _ _ _ "_ # _"] intro!: fact_okI [OF assms(1)])
next
  case (gpu_ready seq bank bank_epoch version gpu copied code)
  then show ?thesis using prepare_fence_shows [OF assms(1), of f bank bank_epoch] ready_source_shows(1) [OF assms(1), of f version]
    by (auto simp: publish_gpu_ready_def fact_intro_simps shows_Cons [of _ _ _ _ "_ # _"] intro!: fact_okI [OF assms(1)])
qed

section \<open>Properties\<close>


text \<open>A demonstration run: the Engine opens slot 0 with epoch 3, the dispatcher issues a Draft round, the worker answers.\<close>

lemma read_expect:
  assumes "table_ok t" "shows_fields t k row fvs"
    and "list_all (\<lambda>fv. \<exists>f \<in> set (payload_fields (layout_of k)). fd_name (fl_field f) = fst fv \<and> (b \<or> fd_hot (fl_field f))) fvs"
  shows "\<exists>s. t_read t k row b = Inr s \<and> expect_fields s fvs = Inr ()"
proof -
  obtain p where p: "map_of (tb_partitions t) k = Some p" "row_ok p row" "row_marker p row \<noteq> invalid U64"
    and v: "list_all (\<lambda>fv. row_values p row (fst fv) = Some (snd fv)) fvs"
    using assms(2) by (auto simp: shows_fields_def cells_Some split: option.splits)
  have "partition_ok p" "tp_layout p = layout_of k" using assms(1) p(1) by (auto simp: table_ok_iff)
  then have pk: "partition_ok p" "tp_layout p = layout_of k" "layout_ok (tp_layout p)" by (simp_all add: layout_ok_all)
  let ?fs = "filter (\<lambda>f. b \<or> fd_hot (fl_field f)) (payload_fields (tp_layout p))"
  have r: "t_read t k row b = Inr (snapshot_of p row ?fs)"
    using read_row_eq [OF pk(1) p(2), of b] p by (simp add: t_read_def partition_of_def)
  have "snapshot_get (snapshot_of p row ?fs) (fst fv) = Inr (snd fv)" if fv: "fv \<in> set fvs" for fv
  proof -
    obtain f where f: "f \<in> set (payload_fields (tp_layout p))" "fd_name (fl_field f) = fst fv" "b \<or> fd_hot (fl_field f)"
      using assms(3) fv pk(2) by (auto simp: list_all_iff)
    have "row_values p row (fst fv) = Some (snd fv)" using v fv by (auto simp: list_all_iff)
    then have "field_in p row f = snd fv" using row_values_field [OF pk(3) f(1)] f(2) by simp
    then show ?thesis using snapshot_get_field [OF pk(3), of f ?fs row] f by auto
  qed
  then show ?thesis using r by (auto simp: expect_fields_def expect_field_def)
qed

definition quiet :: notifier where
  "quiet = \<lparr>nt_ring = None, nt_bell = None\<rparr>"

lemma publish_fresh:
  assumes "table_ok t" "tb_notifier t = quiet" "cells t (k, row) = Some c" "fst c = invalid U64" "fields_ok fvs"
    and "\<forall>fv \<in> set fvs. returns (encode_field (layout_of k) fv)"
  shows "\<exists>t'. publish_owned t (sl_owner (layout_of k)) k row 0 fvs = Inr t' \<and> table_ok t' \<and> tb_notifier t' = quiet
     \<and> one_cell t t' k row \<and> shows_fields t' k row fvs"
proof -
  have n: "notify k' r s (tb_notifier t) = Inr quiet" for k' r s by (simp add: notify_def assms(2) quiet_def)
  have "\<exists>t'. publish_owned t (sl_owner (layout_of k)) k row 0 fvs = Inr t'"
    by (rule publish_owned_returns [OF assms(1,3) _ _ _ assms(6)]) (simp_all add: assms(4) n)
  then obtain t' where t': "publish_owned t (sl_owner (layout_of k)) k row 0 fvs = Inr t'" by blast
  then have "tb_notifier t' = quiet"
    by (auto simp: publish_owned_def publish_def publish_encoded_def Let_def bind_r_eq_Inr n split: if_splits)
  then show ?thesis using published_shows [OF assms(1) t' assms(5)] t' by blast
qed

lemma one_cell_other: "one_cell t t' k row \<Longrightarrow> (k', r) \<noteq> (k, row) \<Longrightarrow> cells t' (k', r) = cells t (k', r)"
  by (auto simp: one_cell_def)

definition demo_fence :: operation_fence where
  "demo_fence = \<lparr>of_request = \<lparr>rf_slot = 0, rf_epoch = 3\<rparr>, of_round_id = 1, of_op_seq = 5, of_worker_id = 2, of_worker_generation = 4\<rparr>"

definition demo_issue :: "(string \<times> field_value) list" where
  "demo_issue = [(''draft_owner_epoch'', VInt 0), (''draft_round_id'', VInt 1), (''draft_issue_seq'', VInt 5),
     (''draft_worker_id'', VInt 2), (''draft_worker_generation'', VInt 4)]"

text \<open>A table in which the given rows were published, and no other row of slot 0.\<close>

lemma demo_rows:
  assumes "list_all (\<lambda>(k, fvs). k \<in> set request_kinds \<and> fields_ok fvs \<and> list_all (\<lambda>fv. returns (encode_field (layout_of k) fv)) fvs) rows"
    and "distinct (map fst rows)"
  shows "\<exists>t. table_ok t \<and> tb_notifier t = quiet \<and> (\<forall>(k, fvs) \<in> set rows. shows_fields t k 0 fvs)
     \<and> (\<forall>k \<in> set request_kinds - fst ` set rows. \<exists>c. cells t (k, 0) = Some c \<and> fst c = invalid U64)"
  using assms
proof (induction rows)
  case Nil
  obtain t where t: "request_table 1 quiet = Inr t" "tb_notifier t = quiet" using request_table_returns [of 1 quiet] by auto
  have "\<exists>c. cells t (k, 0) = Some c \<and> fst c = invalid U64" if "k \<in> set request_kinds" for k
    using request_table_fresh(2) [OF t(1), of k 0] request_table_fresh(3) [OF t(1) that, of 0] by auto
  then show ?case using request_table_fresh(1) [OF t(1)] t(2) by auto
next
  case (Cons kf rows)
  obtain k fvs where kf: "kf = (k, fvs)" by (cases kf)
  obtain t where t: "table_ok t" "tb_notifier t = quiet" "\<forall>(k, fvs) \<in> set rows. shows_fields t k 0 fvs"
    "\<forall>k \<in> set request_kinds - fst ` set rows. \<exists>c. cells t (k, 0) = Some c \<and> fst c = invalid U64" using Cons by auto
  have k: "k \<in> set request_kinds - fst ` set rows" "fields_ok fvs" "\<forall>fv \<in> set fvs. returns (encode_field (layout_of k) fv)"
    using Cons.prems kf by (auto simp: list_all_iff)
  then obtain c where c: "cells t (k, 0) = Some c" "fst c = invalid U64" using t(4) by blast
  obtain t' where t': "table_ok t'" "tb_notifier t' = quiet" "one_cell t t' k 0" "shows_fields t' k 0 fvs"
    using publish_fresh [OF t(1,2) c k(2,3)] by blast
  have "shows_fields t' k' 0 fvs'" if "(k', fvs') \<in> set rows" for k' fvs'
  proof -
    have "k' \<noteq> k" using that k(1) by force
    then show ?thesis using one_cell_shows [OF t'(3), of k' 0] t(3) that by auto
  qed
  moreover have "\<exists>c. cells t' (k', 0) = Some c \<and> fst c = invalid U64" if "k' \<in> set request_kinds - fst ` set (kf # rows)" for k'
    using one_cell_other [OF t'(3), of k' 0] t(4) that kf by auto
  ultimately have "\<forall>(k, fvs) \<in> set (kf # rows). shows_fields t' k 0 fvs"
    "\<forall>k \<in> set request_kinds - fst ` set (kf # rows). \<exists>c. cells t' (k, 0) = Some c \<and> fst c = invalid U64"
    using t'(4) kf by auto
  then show ?case using t' by blast
qed


end
