(* ===== verification/DraftTable.thy ===== *)
theory DraftTable
  imports TableWriters ProtocolCodec
begin

text \<open>
  The Draft side of the request table: the joins of \<open>table/draft_fences.py\<close>, the transition guard of
  \<open>table/draft_copy_transitions.py\<close>, the writers of \<open>table/draft_writers.py\<close> with the fixed WAIT fields of
  \<open>table/draft_wait.py\<close>, the prepared commits of \<open>table/prepared.py\<close> and the dispatch contract of
  \<open>table/draft_dispatch.py\<close>. A keyword dictionary is the list of its entries.
\<close>

section \<open>Joins\<close>

type_synonym fields = "(string \<times> field_value) list"

definition expect_read :: "sched_table \<Rightarrow> block_kind \<Rightarrow> int \<Rightarrow> fields \<Rightarrow> unit result" where
  "expect_read t k slot fvs = bind_r (t_read_names t k slot (map fst fvs)) (\<lambda>s. expect_fields s fvs)"

definition truthy :: "field_value \<Rightarrow> bool" where
  "truthy v = (case v of VInt x \<Rightarrow> x \<noteq> 0 | VHandle h \<Rightarrow> True)"

definition has_draft_dispatch :: "block_snapshot \<Rightarrow> bool result" where
  "has_draft_dispatch row = bind_r (map_r (snapshot_get row)
     [''draft_issue_seq'', ''draft_round_id'', ''draft_worker_id'', ''draft_worker_generation'', ''draft_run_bank_epoch'',
      ''draft_run_batch_seq'']) (\<lambda>vs. Inr (list_ex truthy vs))"

definition validate_initial_dispatch :: "sched_table \<Rightarrow> draft_batch_command \<Rightarrow> new_request_data \<Rightarrow> unit result" where
  "validate_initial_dispatch t c r =
     (case db_bank c of
        None \<Rightarrow> Inl (TableProtocolError ''request is not an initial Draft Bank member'')
      | Some bank \<Rightarrow>
          bind_r (require (r \<in> set (db_new_requests c)) (TableProtocolError ''request is not an initial Draft Bank member'')) (\<lambda>_.
          bind_r (expect_read t REQUEST_ENGINE (nr_request_slot r) [(''request_epoch'', VInt (nr_request_epoch r))]) (\<lambda>_.
          expect_read t REQUEST_DISPATCH (nr_request_slot r)
            [(''request_epoch'', VInt (nr_request_epoch r)), (''draft_issue_seq'', VInt (nr_op_seq r)),
             (''draft_round_id'', VInt (nr_round_id r)), (''draft_worker_id'', VInt (db_worker_id c)),
             (''draft_worker_generation'', VInt (db_worker_generation c)), (''draft_owner_epoch'', VInt 0),
             (''draft_source_snapshot_version'', VInt 0), (''draft_run_bank_id'', VInt (ib_bank_id bank)),
             (''draft_run_bank_epoch'', VInt (ib_bank_epoch bank)), (''draft_run_batch_seq'', VInt (ib_batch_seq bank))])))"

definition allocation_values :: "draft_host_allocation \<Rightarrow> fields" where
  "allocation_values a =
     [(''arena_id'', VInt (dha_arena_id a)), (''arena_generation'', VInt (dha_arena_generation a)), (''layout_id'', VInt (dha_layout_id a)),
      (''host_slot_generation'', VInt (dha_host_slot_generation a)), (''writer_lease_generation'', VInt (dha_writer_lease_generation a)),
      (''offset_blocks'', VInt (dha_offset_blocks a)), (''host_slot'', VInt (dha_host_slot a)),
      (''capacity_blocks'', VInt (dha_capacity_blocks a)), (''block_size'', VInt (dha_block_size a))]"

definition validate_allocation :: "sched_table \<Rightarrow> draft_snapshot_identity \<Rightarrow> unit result" where
  "validate_allocation t i =
     bind_r (expect_read t REQUEST_ENGINE (dsi_request_slot i) [(''request_epoch'', VInt (dsi_request_epoch i))]) (\<lambda>_.
     expect_read t REQUEST_DRAFT_HOSTKV (dsi_request_slot i)
       ((''request_epoch'', VInt (dsi_request_epoch i)) # allocation_values (dsi_allocation i)))"

text \<open>The keyword arguments after the handle extend the joined fields.\<close>

definition validate_source :: "sched_table \<Rightarrow> draft_snapshot_identity \<Rightarrow> arena_handle \<Rightarrow> fields \<Rightarrow> unit result" where
  "validate_source t i handle fvs =
     bind_r (validate_allocation t i) (\<lambda>_.
     expect_read t REQUEST_DRAFT (dsi_request_slot i)
       ([(''request_epoch'', VInt (dsi_request_epoch i)), (''round_id'', VInt (dsi_round_id i)), (''observed_issue_seq'', VInt (dsi_op_seq i)),
         (''worker_id'', VInt (dsi_worker_id i)), (''worker_generation'', VInt (dsi_worker_generation i)),
         (''owner_epoch'', VInt (dsi_owner_epoch i)), (''snapshot_version'', VInt (dsi_snapshot_version i)),
         (''logical_kv_len'', VInt (dsi_logical_kv_len i)), (''valid_blocks'', VInt (dsi_valid_blocks i)),
         (''draft_state_handle'', VHandle handle), (''status'', VInt 2), (''result_code'', VInt 0)] @ fvs))"

definition prepare_values :: "prepare_draft_bank_command \<Rightarrow> draft_prepare_request \<Rightarrow> fields" where
  "prepare_values c row =
     [(''request_epoch'', VInt (prepare_epoch row)), (''draft_prepare_seq'', VInt (dp_prepare_seq row)),
      (''planned_draft_id'', VInt (pd_worker_id c)), (''planned_draft_generation'', VInt (pd_worker_generation c)),
      (''planned_draft_bank_id'', VInt (pd_standby_bank_id c)), (''planned_draft_bank_epoch'', VInt (pd_next_bank_epoch c)),
      (''draft_prepared_batch_seq'', VInt (pd_batch_seq c)),
      (''draft_source_snapshot_version'', VInt (dsi_snapshot_version (dp_source row))),
      (''draft_snapshot_round_id'', VInt (dsi_round_id (dp_source row))), (''draft_snapshot_handle'', VHandle (dp_snapshot_handle row)),
      (''draft_next_owner_epoch'', VInt (dp_next_owner_epoch row))]"

definition host_ready_source :: "sched_table \<Rightarrow> draft_snapshot_identity \<Rightarrow> arena_handle \<Rightarrow> unit result" where
  "host_ready_source t i handle = expect_read t REQUEST_DRAFT_D2H (dsi_request_slot i)
     ([(''request_epoch'', VInt (dsi_request_epoch i)), (''snapshot_round_id'', VInt (dsi_round_id i)),
       (''snapshot_version'', VInt (dsi_snapshot_version i)), (''ready_version'', VInt (dsi_snapshot_version i)),
       (''snapshot_handle'', VHandle handle), (''source_worker_id'', VInt (dsi_worker_id i)),
       (''source_worker_generation'', VInt (dsi_worker_generation i)), (''owner_epoch'', VInt (dsi_owner_epoch i)),
       (''source_op_seq'', VInt (dsi_op_seq i)), (''valid_blocks'', VInt (dsi_valid_blocks i)),
       (''logical_kv_len'', VInt (dsi_logical_kv_len i)), (''status'', VInt 2), (''result_code'', VInt 0)]
      @ allocation_values (dsi_allocation i))"

definition validate_prepare_dispatch :: "sched_table \<Rightarrow> prepare_draft_bank_command \<Rightarrow> draft_prepare_request \<Rightarrow> unit result" where
  "validate_prepare_dispatch t c row = expect_read t REQUEST_DISPATCH (prepare_slot row)
     (prepare_values c row @
      [(''draft_owner_epoch'', VInt (dsi_owner_epoch (dp_source row))), (''draft_worker_id'', VInt (dsi_worker_id (dp_source row))),
       (''draft_worker_generation'', VInt (dsi_worker_generation (dp_source row)))])"

definition validate_prepare :: "sched_table \<Rightarrow> prepare_draft_bank_command \<Rightarrow> draft_prepare_request \<Rightarrow> bool \<Rightarrow> unit result" where
  "validate_prepare t c row host_ready =
     bind_r (validate_allocation t (dp_source row)) (\<lambda>_.
     bind_r (validate_prepare_dispatch t c row) (\<lambda>_.
     if host_ready then host_ready_source t (dp_source row) (dp_snapshot_handle row) else Inr ()))"

definition validate_host_ready :: "sched_table \<Rightarrow> draft_snapshot_identity \<Rightarrow> arena_handle \<Rightarrow> unit result" where
  "validate_host_ready t i handle = bind_r (validate_allocation t i) (\<lambda>_. host_ready_source t i handle)"

definition h2d_values :: "prepare_draft_bank_command \<Rightarrow> draft_prepare_request \<Rightarrow> fields" where
  "h2d_values c row =
     [(''request_epoch'', VInt (prepare_epoch row)), (''snapshot_round_id'', VInt (dsi_round_id (dp_source row))),
      (''snapshot_version'', VInt (dsi_snapshot_version (dp_source row))), (''snapshot_handle'', VHandle (dp_snapshot_handle row)),
      (''logical_kv_len'', VInt (dsi_logical_kv_len (dp_source row))), (''next_round_id'', VInt (dp_next_round_id row)),
      (''observed_prepare_seq'', VInt (dp_prepare_seq row)), (''destination_worker_id'', VInt (pd_worker_id c)),
      (''destination_worker_generation'', VInt (pd_worker_generation c)), (''next_owner_epoch'', VInt (dp_next_owner_epoch row)),
      (''destination_bank_id'', VInt (pd_standby_bank_id c)), (''destination_bank_epoch'', VInt (pd_next_bank_epoch c)),
      (''prepared_batch_seq'', VInt (pd_batch_seq c))] @ allocation_values (dsi_allocation (dp_source row))"

definition validate_run_dispatch :: "sched_table \<Rightarrow> run_draft_batch_command \<Rightarrow> draft_run_request \<Rightarrow> unit result" where
  "validate_run_dispatch t c row =
     bind_r (expect_read t REQUEST_ENGINE (dr_request_slot row) [(''request_epoch'', VInt (dr_request_epoch row))]) (\<lambda>_.
     expect_read t REQUEST_DISPATCH (dr_request_slot row)
       [(''request_epoch'', VInt (dr_request_epoch row)), (''draft_issue_seq'', VInt (dr_run_seq row)),
        (''draft_round_id'', VInt (dr_round_id row)), (''draft_worker_id'', VInt (rb_worker_id c)),
        (''draft_worker_generation'', VInt (rb_worker_generation c)), (''draft_owner_epoch'', VInt (dr_owner_epoch row)),
        (''draft_run_bank_id'', VInt (rb_active_bank_id c)), (''draft_run_bank_epoch'', VInt (rb_active_bank_epoch c)),
        (''draft_run_batch_seq'', VInt (rb_expected_batch_seq c)), (''draft_source_snapshot_version'', VInt (dr_snapshot_version row))])"

section \<open>Copy transitions\<close>

datatype copy_direction = CopyD2H | CopyH2D

definition value_int :: "field_value \<Rightarrow> int result" where
  "value_int v = (case v of VInt x \<Rightarrow> Inr x | VHandle h \<Rightarrow> Inl (TypeError ''must be an int''))"

definition lookup_field :: "fields \<Rightarrow> string \<Rightarrow> field_value result" where
  "lookup_field fvs name = (case map_of fvs name of None \<Rightarrow> Inl (KeyError name) | Some v \<Rightarrow> Inr v)"

text \<open>The loop over the operation's key: the first difference decides whether the fact starts a new operation.\<close>

fun new_operation :: "block_snapshot \<Rightarrow> fields \<Rightarrow> string list \<Rightarrow> bool result" where
  "new_operation old fvs [] = Inr False"
| "new_operation old fvs (name # names) =
     bind_r (snapshot_get old name) (\<lambda>before.
     bind_r (lookup_field fvs name) (\<lambda>after.
     if before = after then new_operation old fvs names
     else bind_r (value_int after) (\<lambda>a. bind_r (value_int before) (\<lambda>b.
       bind_r (is_newer U64 a b) (\<lambda>newer.
       bind_r (require newer (TableProtocolError ''stale Draft copy operation'')) (\<lambda>_. Inr True))))))"

definition copy_key :: "copy_direction \<Rightarrow> string list" where
  "copy_key d = [''request_epoch'', (case d of CopyD2H \<Rightarrow> ''snapshot_version'' | CopyH2D \<Rightarrow> ''observed_prepare_seq'')]"

definition mutable_fields :: "string list" where
  "mutable_fields = [''status'', ''result_code'', ''copy_start_time_ns'', ''copy_bytes'', ''ready_version'', ''gpu_ready_version'',
     ''copied_blocks'', ''local_row'']"

definition check_same_identity :: "block_snapshot \<Rightarrow> fields \<Rightarrow> unit result" where
  "check_same_identity old fvs = checks (map (\<lambda>fv. if fst fv \<in> set mutable_fields then Inr ()
     else bind_r (snapshot_get old (fst fv)) (\<lambda>previous.
       require (previous = snd fv) (TableProtocolError ''Draft copy identity changed within operation''))) fvs)"

fun allowed_next :: "copy_direction \<Rightarrow> int \<Rightarrow> int list" where
  "allowed_next CopyD2H s = (if s = 1 then [2] else [])"
| "allowed_next CopyH2D s = (if s = 1 then [2, 3] else if s = 2 then [3] else [])"

definition check_copy_step :: "copy_direction \<Rightarrow> block_snapshot \<Rightarrow> fields \<Rightarrow> unit result" where
  "check_copy_step d old fvs =
     bind_r (if d = CopyH2D then bind_r (snapshot_get old ''status'') (\<lambda>s.
          if s = VInt 2 then bind_r (snapshot_get old ''local_row'') (\<lambda>r. bind_r (lookup_field fvs ''local_row'') (\<lambda>r'.
            require (r = r') (TableProtocolError ''Draft H2D row changed during copy'')))
          else Inr ()) else Inr ()) (\<lambda>_.
     bind_r (lookup_field fvs ''status'') (\<lambda>status.
     bind_r (snapshot_get old ''status'') (\<lambda>before.
     bind_r (value_int before) (\<lambda>b. require (status \<in> VInt ` set (allowed_next d b))
       (TableProtocolError ''duplicate or regressing Draft copy fact'')))))"

definition validate_copy_transition :: "sched_table \<Rightarrow> block_kind \<Rightarrow> int \<Rightarrow> fields \<Rightarrow> copy_direction \<Rightarrow> fields result" where
  "validate_copy_transition t k slot fvs d =
     bind_r (t_publish_seq t k slot) (\<lambda>seq.
     if seq = invalid U64 then Inr fvs
     else bind_r (t_read t k slot True) (\<lambda>old.
       bind_r (new_operation old fvs (copy_key d)) (\<lambda>fresh.
       if fresh then Inr fvs
       else bind_r (check_same_identity old fvs) (\<lambda>_.
         bind_r (check_copy_step d old fvs) (\<lambda>_.
           Inr (filter (\<lambda>fv. fst fv \<in> set mutable_fields) fvs))))))"

end
