(* ===== verification/DraftWriters.thy ===== *)
theory DraftWriters
  imports DraftTable "HOL-Library.AList"
begin

text \<open>
  \<open>table/draft_writers.py\<close>, \<open>table/draft_wait.py\<close>, \<open>table/prepared.py\<close> and \<open>table/draft_dispatch.py\<close>: the writers of
  the Draft allocation, compute and copy facts, the commits prepared for a whole batch, and the dispatch
  contract that moves the owner of a request only with a run.
\<close>

section \<open>Allocation and compute\<close>

definition publish_draft_allocation :: "sched_table \<Rightarrow> int \<Rightarrow> int \<Rightarrow> draft_host_allocation \<Rightarrow> sched_table result" where
  "publish_draft_allocation t slot epoch a =
     bind_r (expect_read t REQUEST_ENGINE slot [(''request_epoch'', VInt epoch)]) (\<lambda>_.
     publish_next t REQUEST_DRAFT_HOSTKV slot ((''request_epoch'', VInt epoch) # allocation_values a))"

definition running_values ::
  "int \<Rightarrow> int \<Rightarrow> int \<Rightarrow> int \<Rightarrow> int \<Rightarrow> int \<Rightarrow> int \<Rightarrow> int \<Rightarrow> int \<Rightarrow> int \<Rightarrow> fields" where
  "running_values epoch round issue_seq worker generation owner version bank bank_epoch batch_seq =
     [(''request_epoch'', VInt epoch), (''round_id'', VInt round), (''observed_issue_seq'', VInt issue_seq), (''worker_id'', VInt worker),
      (''worker_generation'', VInt generation), (''owner_epoch'', VInt owner), (''snapshot_version'', VInt version),
      (''logical_kv_len'', VInt 0), (''valid_blocks'', VInt 0), (''draft_state_handle'', VHandle null_handle),
      (''proposal_handle'', VHandle null_handle), (''proposal_token_count'', VInt 0), (''bank_id'', VInt bank),
      (''bank_epoch'', VInt bank_epoch), (''batch_seq'', VInt batch_seq), (''dirty_begin_block'', VInt 0),
      (''dirty_block_count'', VInt 0), (''status'', VInt 1), (''result_code'', VInt 0)]"

definition publish_initial_running :: "sched_table \<Rightarrow> draft_batch_command \<Rightarrow> new_request_data \<Rightarrow> sched_table result" where
  "publish_initial_running t c r =
     bind_r (validate_initial_dispatch t c r) (\<lambda>_.
     let bank = the (db_bank c) in
     publish_next t REQUEST_DRAFT (nr_request_slot r)
       (running_values (nr_request_epoch r) (nr_round_id r) (nr_op_seq r) (db_worker_id c) (db_worker_generation c) 0 1
          (ib_bank_id bank) (ib_bank_epoch bank) (ib_batch_seq bank)))"

definition publish_running :: "sched_table \<Rightarrow> run_draft_batch_command \<Rightarrow> draft_run_request \<Rightarrow> sched_table result" where
  "publish_running t c r =
     bind_r (require (r \<in> set (rb_requests c)) (ValueError ''compute request is not a run member'')) (\<lambda>_.
     bind_r (validate_run_dispatch t c r) (\<lambda>_.
     bind_r (next_id U64 (dr_snapshot_version r)) (\<lambda>version.
     publish_next t REQUEST_DRAFT (dr_request_slot r)
       (running_values (dr_request_epoch r) (dr_round_id r) (dr_run_seq r) (rb_worker_id c) (rb_worker_generation c) (dr_owner_epoch r)
          version (rb_active_bank_id c) (rb_active_bank_epoch c) (rb_expected_batch_seq c)))))"

definition publish_draft_ready ::
  "sched_table \<Rightarrow> draft_snapshot \<Rightarrow> arena_handle \<Rightarrow> int \<Rightarrow> int \<Rightarrow> int \<Rightarrow> int \<Rightarrow> int \<Rightarrow> sched_table result" where
  "publish_draft_ready t snapshot handle bank_id bank_epoch batch_seq dirty_begin dirty_count =
     bind_r (checks [check_bank_id bank_id, check_id U64 bank_epoch, check_id U64 batch_seq, check_id U32 dirty_begin,
       check_id U32 dirty_count, require_snapshot_handle handle]) (\<lambda>_.
     let i = ds_identity snapshot in
     bind_r (validate_allocation t i) (\<lambda>_.
     bind_r (t_read t REQUEST_DISPATCH (dsi_request_slot i) True) (\<lambda>dispatch.
     bind_r (expect_fields dispatch
       [(''request_epoch'', VInt (dsi_request_epoch i)), (''draft_issue_seq'', VInt (dsi_op_seq i)), (''draft_round_id'', VInt (dsi_round_id i)),
        (''draft_worker_id'', VInt (dsi_worker_id i)), (''draft_worker_generation'', VInt (dsi_worker_generation i)),
        (''draft_owner_epoch'', VInt (dsi_owner_epoch i)), (''draft_run_bank_id'', VInt bank_id),
        (''draft_run_bank_epoch'', VInt bank_epoch), (''draft_run_batch_seq'', VInt batch_seq)]) (\<lambda>_.
     bind_r (snapshot_get dispatch ''draft_source_snapshot_version'') (\<lambda>source.
     bind_r (value_int source) (\<lambda>s. bind_r (next_id U64 s) (\<lambda>version.
     bind_r (checks
       [require (dsi_snapshot_version i = version) (ValueError ''compute snapshot version must advance dispatched source version''),
        require (dirty_begin + dirty_count = dsi_valid_blocks i) (ValueError ''dirty range must cover the actual KV tail'')]) (\<lambda>_.
     publish_next t REQUEST_DRAFT (dsi_request_slot i)
       [(''request_epoch'', VInt (dsi_request_epoch i)), (''round_id'', VInt (dsi_round_id i)), (''observed_issue_seq'', VInt (dsi_op_seq i)),
        (''worker_id'', VInt (dsi_worker_id i)), (''worker_generation'', VInt (dsi_worker_generation i)),
        (''owner_epoch'', VInt (dsi_owner_epoch i)), (''snapshot_version'', VInt (dsi_snapshot_version i)),
        (''logical_kv_len'', VInt (dsi_logical_kv_len i)), (''valid_blocks'', VInt (dsi_valid_blocks i)),
        (''draft_state_handle'', VHandle handle), (''proposal_handle'', VHandle (ds_proposal_handle snapshot)),
        (''proposal_token_count'', VInt (ds_proposal_count snapshot)), (''bank_id'', VInt bank_id), (''bank_epoch'', VInt bank_epoch),
        (''batch_seq'', VInt batch_seq), (''dirty_begin_block'', VInt dirty_begin), (''dirty_block_count'', VInt dirty_count),
        (''status'', VInt 2), (''result_code'', VInt 0)]))))))))"

section \<open>Copies\<close>

definition d2h_values :: "draft_snapshot_identity \<Rightarrow> arena_handle \<Rightarrow> int \<Rightarrow> int \<Rightarrow> int \<Rightarrow> int \<Rightarrow> int \<Rightarrow> int \<Rightarrow> fields" where
  "d2h_values i handle bank_id bank_epoch batch_seq status start bytes =
     [(''request_epoch'', VInt (dsi_request_epoch i)), (''snapshot_round_id'', VInt (dsi_round_id i)),
      (''snapshot_version'', VInt (dsi_snapshot_version i)), (''snapshot_handle'', VHandle handle),
      (''logical_kv_len'', VInt (dsi_logical_kv_len i)), (''valid_blocks'', VInt (dsi_valid_blocks i)),
      (''source_worker_id'', VInt (dsi_worker_id i)), (''source_worker_generation'', VInt (dsi_worker_generation i)),
      (''source_op_seq'', VInt (dsi_op_seq i)), (''owner_epoch'', VInt (dsi_owner_epoch i)), (''source_bank_id'', VInt bank_id),
      (''source_bank_epoch'', VInt bank_epoch), (''source_batch_seq'', VInt batch_seq),
      (''ready_version'', VInt (if status = 2 then dsi_snapshot_version i else 0)), (''status'', VInt status), (''result_code'', VInt 0),
      (''copy_start_time_ns'', VInt start), (''copy_bytes'', VInt bytes)] @ allocation_values (dsi_allocation i)"

definition publish_d2h ::
  "sched_table \<Rightarrow> draft_snapshot_identity \<Rightarrow> arena_handle \<Rightarrow> int \<Rightarrow> int \<Rightarrow> int \<Rightarrow> int \<Rightarrow> int \<Rightarrow> int \<Rightarrow> sched_table result" where
  "publish_d2h t i handle bank_id bank_epoch batch_seq status start bytes =
     bind_r (enum_value d2h_status_values status) (\<lambda>s.
     bind_r (require (s \<in> {1, 2}) (ValueError ''expected IN_D2H or HOST_READY'')) (\<lambda>_.
     bind_r (validate_source t i handle []) (\<lambda>_.
     bind_r (expect_read t REQUEST_DRAFT (dsi_request_slot i)
       [(''bank_id'', VInt bank_id), (''bank_epoch'', VInt bank_epoch), (''batch_seq'', VInt batch_seq)]) (\<lambda>_.
     bind_r (validate_copy_transition t REQUEST_DRAFT_D2H (dsi_request_slot i)
       (d2h_values i handle bank_id bank_epoch batch_seq s start bytes) CopyD2H) (\<lambda>fvs.
     publish_next t REQUEST_DRAFT_D2H (dsi_request_slot i) fvs)))))"

definition h2d_fact :: "prepare_draft_bank_command \<Rightarrow> draft_prepare_request \<Rightarrow> int \<Rightarrow> int \<Rightarrow> int \<Rightarrow> int \<Rightarrow> fields" where
  "h2d_fact c r status local_row start bytes = h2d_values c r @
     [(''status'', VInt status), (''result_code'', VInt 0), (''local_row'', VInt local_row),
      (''gpu_ready_version'', VInt (if status = 3 then dsi_snapshot_version (dp_source r) else 0)),
      (''copied_blocks'', VInt (if status = 3 then dsi_valid_blocks (dp_source r) else 0)),
      (''copy_start_time_ns'', VInt start), (''copy_bytes'', VInt bytes)]"

definition publish_h2d ::
  "sched_table \<Rightarrow> prepare_draft_bank_command \<Rightarrow> draft_prepare_request \<Rightarrow> int \<Rightarrow> int \<Rightarrow> int \<Rightarrow> int \<Rightarrow> sched_table result" where
  "publish_h2d t c r status local_row start bytes =
     bind_r (require (r \<in> set (pd_requests c)) (ValueError ''H2D request is not a prepared member'')) (\<lambda>_.
     bind_r (enum_value h2d_status_values status) (\<lambda>s.
     bind_r (require (s \<in> {1, 2, 3}) (ValueError ''invalid Draft H2D status'')) (\<lambda>_.
     bind_r (validate U32 local_row) (\<lambda>_.
     bind_r (validate_prepare t c r (s \<noteq> 1)) (\<lambda>_.
     bind_r (validate_copy_transition t REQUEST_DRAFT_H2D (prepare_slot r) (h2d_fact c r s local_row start bytes) CopyH2D) (\<lambda>fvs.
     publish_next t REQUEST_DRAFT_H2D (prepare_slot r) fvs))))))"

section \<open>Prepared commits\<close>

text \<open>A prepared row: the slot, the sequence it must still have, the sequence it gets and the encoded fields.\<close>

record prepared_row =
  pv_slot :: int
  pv_expected :: int
  pv_seq :: int
  pv_encoded :: "store list"

definition seq_after :: "int \<Rightarrow> int result" where
  "seq_after current = (if current = invalid U64 then Inr 0 else next_id OP_SEQ current)"

definition capture_row :: "table_partition \<Rightarrow> (int \<rightharpoonup> int) option \<Rightarrow> bool \<Rightarrow> int \<times> fields \<Rightarrow> prepared_row result" where
  "capture_row p expected initial u =
     bind_r (case expected of
         None \<Rightarrow> read_publish_seq p (fst u)
       | Some m \<Rightarrow> (case m (fst u) of None \<Rightarrow> Inl (KeyError ''slot'') | Some s \<Rightarrow> Inr s)) (\<lambda>current.
     bind_r (require (current \<noteq> invalid U64 \<or> initial) (TableProtocolError ''prepared commit requires an authorized row'')) (\<lambda>_.
     bind_r (map_r (encode_field (tp_layout p)) (snd u)) (\<lambda>encoded.
     bind_r (seq_after current) (\<lambda>seq.
       Inr \<lparr>pv_slot = fst u, pv_expected = current, pv_seq = seq, pv_encoded = encoded\<rparr>))))"

definition capture_rows ::
  "sched_table \<Rightarrow> block_kind \<Rightarrow> (int \<times> fields) list \<Rightarrow> (int \<rightharpoonup> int) option \<Rightarrow> bool \<Rightarrow> prepared_row list result" where
  "capture_rows t k updates expected initial =
     bind_r (partition_of t k) (\<lambda>p.
     bind_r (map_r (capture_row p expected initial) updates) (\<lambda>rows.
     bind_r (require (length (remdups (map pv_slot rows)) = length rows) (TableProtocolError ''prepared commit has duplicate rows'')) (\<lambda>_.
       Inr rows)))"

definition check_prepared :: "table_partition \<Rightarrow> prepared_row \<Rightarrow> unit result" where
  "check_prepared p r = bind_r (read_publish_seq p (pv_slot r)) (\<lambda>current.
     require (current = pv_expected r) (TableProtocolError ''stale or duplicate prepared publication''))"

fun commit_stores :: "table_partition \<Rightarrow> notifier \<Rightarrow> prepared_row list \<Rightarrow> (table_partition \<times> notifier) result" where
  "commit_stores p n [] = Inr (p, n)"
| "commit_stores p n (r # rs) = bind_r (publish_encoded p n (pv_slot r) (pv_seq r) (pv_encoded r)) (\<lambda>(p', n'). commit_stores p' n' rs)"

definition commit_rows :: "sched_table \<Rightarrow> block_kind \<Rightarrow> prepared_row list \<Rightarrow> (sched_table \<times> (int \<times> int) list) result" where
  "commit_rows t k rows =
     bind_r (partition_of t k) (\<lambda>p.
     bind_r (checks (map (check_prepared p) rows)) (\<lambda>_.
     bind_r (commit_stores p (tb_notifier t) rows) (\<lambda>(p', n').
       Inr (t\<lparr>tb_partitions := put_partition k p' (tb_partitions t), tb_notifier := n'\<rparr>, map (\<lambda>r. (pv_slot r, pv_seq r)) rows))))"

section \<open>WAIT\<close>

definition wait_row_seq :: "table_partition \<Rightarrow> draft_prepare_request \<Rightarrow> int result" where
  "wait_row_seq p r =
     bind_r (read_publish_seq p (prepare_slot r)) (\<lambda>seq.
     if seq = invalid U64 then Inr seq
     else bind_r (read_stable p (\<lambda>_. tp_bytes p) (prepare_slot r) True 16 (Some [''request_epoch'', ''observed_prepare_seq''])) (\<lambda>old.
       bind_r (new_operation old [(''request_epoch'', VInt (prepare_epoch r)), (''observed_prepare_seq'', VInt (dp_prepare_seq r))]
           [''request_epoch'', ''observed_prepare_seq'']) (\<lambda>fresh.
       bind_r (require fresh (TableProtocolError ''duplicate or regressing Draft copy fact'')) (\<lambda>_. Inr (bs_publish_seq old)))))"

fun wait_sequences :: "sched_table \<Rightarrow> table_partition \<Rightarrow> prepare_draft_bank_command \<Rightarrow> bool \<Rightarrow> draft_prepare_request list \<Rightarrow> (int \<times> int) list result" where
  "wait_sequences t p c dispatch_validated [] = Inr []"
| "wait_sequences t p c dispatch_validated (r # rs) =
     bind_r (if dispatch_validated then Inr () else validate_prepare_dispatch t c r) (\<lambda>_.
     bind_r (wait_row_seq p r) (\<lambda>seq.
     bind_r (wait_sequences t p c dispatch_validated rs) (\<lambda>rest. Inr ((prepare_slot r, seq) # rest))))"

definition validate_wait_batch :: "sched_table \<Rightarrow> prepare_draft_bank_command \<Rightarrow> bool \<Rightarrow> (int \<times> int) list result" where
  "validate_wait_batch t c dispatch_validated =
     bind_r (partition_of t REQUEST_DRAFT_H2D) (\<lambda>p. wait_sequences t p c dispatch_validated (pd_requests c))"

text \<open>The fixed WAIT fields in the order of \<open>_FIELDS\<close>; the zeros of the encoder are the fields of a WAIT fact.\<close>

definition wait_values :: "prepare_draft_bank_command \<Rightarrow> draft_prepare_request \<Rightarrow> fields" where
  "wait_values c r = h2d_values c r @
     [(''status'', VInt 1), (''result_code'', VInt 0), (''local_row'', VInt 0), (''gpu_ready_version'', VInt 0),
      (''copied_blocks'', VInt 0), (''copy_start_time_ns'', VInt 0), (''copy_bytes'', VInt 0)]"

text \<open>\<open>struct.pack\<close> of one field: unlike the typed encoder it takes every value of the width.\<close>

definition pack_value :: "field_def \<Rightarrow> field_value \<Rightarrow> bytes result" where
  "pack_value f v = (case v of
       VHandle h \<Rightarrow> concat_r [pack_uint 8 (h_offset h), pack_uint 4 (h_length h), pack_uint 4 (h_generation h)]
     | VInt x \<Rightarrow> if scalar_signed (fd_type f)
         then bind_r (require (- 2147483648 \<le> x \<and> x \<le> 2147483647) (StructError ''format requires a 32-bit value'')) (\<lambda>_. Inr (le_bytes 4 (x mod 4294967296)))
         else pack_uint (scalar_size (fd_type f)) x)"

definition wait_store :: "struct_layout \<Rightarrow> string \<times> field_value \<Rightarrow> store result" where
  "wait_store l fv = (case find (\<lambda>f. fd_name (fl_field f) = fst fv) (field_layouts l) of
       None \<Rightarrow> Inl (KeyError (fst fv))
     | Some f \<Rightarrow> bind_r (pack_value (fl_field f) (snd fv)) (\<lambda>raw. Inr (fl_offset f, raw)))"

definition wait_capture_row :: "table_partition \<Rightarrow> (int \<times> int) list \<Rightarrow> prepare_draft_bank_command \<Rightarrow> draft_prepare_request \<Rightarrow> prepared_row result" where
  "wait_capture_row p sequences c r =
     bind_r (map_r (wait_store (tp_layout p)) (wait_values c r)) (\<lambda>encoded.
     bind_r (case map_of (rev sequences) (prepare_slot r) of None \<Rightarrow> Inl (KeyError ''slot'') | Some s \<Rightarrow> Inr s) (\<lambda>old.
     bind_r (seq_after old) (\<lambda>seq. Inr \<lparr>pv_slot = prepare_slot r, pv_expected = old, pv_seq = seq, pv_encoded = encoded\<rparr>)))"

definition publish_wait_batch :: "sched_table \<Rightarrow> prepare_draft_bank_command \<Rightarrow> bool \<Rightarrow> (sched_table \<times> (int \<times> int) list) result" where
  "publish_wait_batch t c dispatch_validated =
     bind_r (validate_wait_batch t c dispatch_validated) (\<lambda>sequences.
     bind_r (partition_of t REQUEST_DRAFT_H2D) (\<lambda>p.
     bind_r (map_r (wait_capture_row p sequences c) (pd_requests c)) (\<lambda>rows. commit_rows t REQUEST_DRAFT_H2D rows)))"

section \<open>The dispatch contract\<close>

text \<open>At most one frozen next batch per destination worker.\<close>

type_synonym pending_prepares = "(int \<times> prepare_draft_bank_command) list"

definition occupied_slots :: "pending_prepares \<Rightarrow> int set" where
  "occupied_slots pend = \<Union> (set (map (\<lambda>(w, c). set (map prepare_slot (pd_requests c))) pend))"

definition preflight_prepare_row :: "sched_table \<Rightarrow> pending_prepares \<Rightarrow> draft_prepare_request \<Rightarrow> unit result" where
  "preflight_prepare_row t pend row =
     bind_r (require (prepare_slot row \<notin> occupied_slots pend) (TableProtocolError ''request already has an outstanding Draft prepare'')) (\<lambda>_.
     bind_r (validate_source t (dp_source row) (dp_snapshot_handle row) []) (\<lambda>_.
     bind_r (t_read t REQUEST_DISPATCH (prepare_slot row) True) (\<lambda>dispatch.
     bind_r (expect_fields dispatch
       [(''request_epoch'', VInt (prepare_epoch row)), (''draft_owner_epoch'', VInt (dsi_owner_epoch (dp_source row))),
        (''draft_worker_id'', VInt (dsi_worker_id (dp_source row))),
        (''draft_worker_generation'', VInt (dsi_worker_generation (dp_source row))),
        (''draft_round_id'', VInt (dsi_round_id (dp_source row))), (''draft_issue_seq'', VInt (dsi_op_seq (dp_source row)))]) (\<lambda>_.
     bind_r (snapshot_get dispatch ''draft_prepare_seq'') (\<lambda>v. bind_r (value_int v) (\<lambda>old.
     bind_r (is_newer OP_SEQ (dp_prepare_seq row) old) (\<lambda>newer.
       require newer (TableProtocolError ''stale Draft prepare sequence''))))))))"

definition preflight_run_row ::
  "sched_table \<Rightarrow> prepare_draft_bank_command \<Rightarrow> draft_prepare_request \<Rightarrow> draft_run_request \<Rightarrow> unit result" where
  "preflight_run_row t c p r =
     bind_r (validate_prepare t c p False) (\<lambda>_.
     bind_r (validate_host_ready t (dp_source p) (dp_snapshot_handle p)) (\<lambda>_.
     bind_r (t_read t REQUEST_DRAFT_H2D (dr_request_slot r) True) (\<lambda>h2d.
     bind_r (expect_fields h2d (h2d_values c p @
       [(''status'', VInt 3), (''result_code'', VInt 0), (''gpu_ready_version'', VInt (dsi_snapshot_version (dp_source p))),
        (''copied_blocks'', VInt (dsi_valid_blocks (dp_source p)))])) (\<lambda>_.
     bind_r (t_read t REQUEST_DISPATCH (dr_request_slot r) True) (\<lambda>dispatch.
     bind_r (expect_fields dispatch
       [(''draft_owner_epoch'', VInt (dsi_owner_epoch (dp_source p))), (''draft_worker_id'', VInt (dsi_worker_id (dp_source p))),
        (''draft_worker_generation'', VInt (dsi_worker_generation (dp_source p))), (''draft_issue_seq'', VInt (dsi_op_seq (dp_source p)))]) (\<lambda>_.
     bind_r (t_read t REQUEST_TARGET_COMPUTE (dr_request_slot r) True) (\<lambda>target.
     bind_r (snapshot_get dispatch ''target_run_seq'') (\<lambda>run_seq.
     expect_fields target
       [(''request_epoch'', VInt (dr_request_epoch r)), (''round_id'', VInt (dsi_round_id (dp_source p))),
        (''observed_run_seq'', run_seq), (''committed_delta_handle'', VHandle (dr_token_delta_handle r)), (''status'', VInt 2),
        (''result_code'', VInt 0)]))))))))"

fun preflight :: "sched_table \<Rightarrow> pending_prepares \<Rightarrow> draft_command \<Rightarrow> unit result" where
  "preflight t pend (PrepareDraft c) =
     bind_r (require (map_of pend (pd_worker_id c) = None) (TableProtocolError ''unconsumed Draft prepare cannot be overwritten'')) (\<lambda>_.
     checks (map (preflight_prepare_row t pend) (pd_requests c)))"
| "preflight t pend (RunDraft c) =
     (case map_of pend (rb_worker_id c) of
        None \<Rightarrow> Inl (TableProtocolError ''Draft run has no frozen prepare'')
      | Some prepare \<Rightarrow>
          bind_r (validate_prepared_run prepare c) (\<lambda>_.
          checks (map (\<lambda>(p, r). preflight_run_row t prepare p r) (zip (pd_requests prepare) (rb_requests c)))))"

definition run_values :: "run_draft_batch_command \<Rightarrow> draft_run_request \<Rightarrow> fields" where
  "run_values c row =
     [(''request_epoch'', VInt (dr_request_epoch row)), (''draft_issue_seq'', VInt (dr_run_seq row)), (''draft_round_id'', VInt (dr_round_id row)),
      (''draft_worker_id'', VInt (rb_worker_id c)), (''draft_worker_generation'', VInt (rb_worker_generation c)),
      (''draft_owner_epoch'', VInt (dr_owner_epoch row)), (''draft_run_bank_id'', VInt (rb_active_bank_id c)),
      (''draft_run_bank_epoch'', VInt (rb_active_bank_epoch c)), (''draft_run_batch_seq'', VInt (rb_expected_batch_seq c))]"

fun publish_each :: "sched_table \<Rightarrow> (int \<times> fields) list \<Rightarrow> sched_table result" where
  "publish_each t [] = Inr t"
| "publish_each t ((slot, fvs) # us) = bind_r (publish_next t REQUEST_DISPATCH slot fvs) (\<lambda>t'. publish_each t' us)"

fun sent :: "sched_table \<Rightarrow> pending_prepares \<Rightarrow> draft_command \<Rightarrow> (sched_table \<times> pending_prepares) result" where
  "sent t pend (PrepareDraft c) =
     bind_r (publish_each t (map (\<lambda>row. (prepare_slot row, prepare_values c row)) (pd_requests c))) (\<lambda>t'.
       Inr (t', AList.update (pd_worker_id c) c pend))"
| "sent t pend (RunDraft c) =
     bind_r (publish_each t (map (\<lambda>row. (dr_request_slot row, run_values c row)) (rb_requests c))) (\<lambda>t'.
     bind_r (require (map_of pend (rb_worker_id c) \<noteq> None) (KeyError ''worker_id'')) (\<lambda>_.
       Inr (t', AList.delete (rb_worker_id c) pend)))"

end
