(* ===== verification/DraftFacts.thy ===== *)
theory DraftFacts
  imports WriterFacts DraftWriters
begin

text \<open>
  What the Draft writers guarantee: the copies of one operation go through their states once and keep their
  identity, and the owner of a request moves exactly with a run that was prepared for it.
\<close>

section \<open>Publications by the owner\<close>

lemma publish_next_cells:
  assumes "table_ok t" "publish_next t k slot fvs = Inr t'" "fields_ok fvs"
  shows "table_ok t' \<and> (\<exists>c seq. cells t (k, slot) = Some c \<and> is_valid U64 seq \<and> cells t' = (cells t)((k, slot) \<mapsto> cell_update seq fvs c))"
proof -
  obtain owner seq where "publish_owned t owner k slot seq fvs = Inr t'"
    using assms(2) by (auto simp: publish_next_def bind_r_eq_Inr)
  note e = publish_owned_cells [OF assms(1) this assms(3)]
  show ?thesis using e(1,3,5) by blast
qed

lemma allocation_names: "distinct (map fst (allocation_values a))" "list_all (value_ok \<circ> snd) (allocation_values a)"
  "fst ` set (allocation_values a) \<subseteq> {''arena_id'', ''arena_generation'', ''layout_id'', ''host_slot_generation'', ''writer_lease_generation'',
     ''offset_blocks'', ''host_slot'', ''capacity_blocks'', ''block_size''}"
  by (simp_all add: allocation_values_def)

lemma value_ok_handle [simp]: "value_ok (VHandle h) \<longleftrightarrow> handle_ok h" by (simp add: value_ok_def)

lemma d2h_fields_ok: "handle_ok h \<Longrightarrow> fields_ok (d2h_values i h b e s st start n)"
  by (simp add: fields_ok_def d2h_values_def allocation_values_def)

lemma h2d_fields_ok: "handle_ok (dp_snapshot_handle r) \<Longrightarrow> fields_ok (h2d_fact c r st row start n)"
  by (simp add: fields_ok_def h2d_fact_def h2d_values_def allocation_values_def)

section \<open>Copies\<close>

fun copy_block :: "copy_direction \<Rightarrow> block_kind" where
  "copy_block CopyD2H = REQUEST_DRAFT_D2H"
| "copy_block CopyH2D = REQUEST_DRAFT_H2D"

definition newer_field :: "string \<Rightarrow> cell \<Rightarrow> cell \<Rightarrow> bool" where
  "newer_field n old new \<longleftrightarrow> (case (snd old n, snd new n) of (Some (VInt b), Some (VInt a)) \<Rightarrow> newer_id U64 a b | _ \<Rightarrow> False)"

definition op_key :: "copy_direction \<Rightarrow> cell \<Rightarrow> field_value option list" where
  "op_key d c = map (snd c) (copy_key d)"

definition newer_operation :: "copy_direction \<Rightarrow> cell \<Rightarrow> cell \<Rightarrow> bool" where
  "newer_operation d old new \<longleftrightarrow> newer_field (copy_key d ! 0) old new
     \<or> snd new (copy_key d ! 0) = snd old (copy_key d ! 0) \<and> newer_field (copy_key d ! 1) old new"

definition status_of :: "cell \<Rightarrow> int" where
  "status_of c = (case snd c ''status'' of Some (VInt s) \<Rightarrow> s | _ \<Rightarrow> -1)"

definition copy_advances :: "copy_direction \<Rightarrow> cell \<Rightarrow> cell \<Rightarrow> bool" where
  "copy_advances d old new \<longleftrightarrow> (\<forall>n. n \<in> set mutable_fields \<or> snd new n = snd old n) \<and> status_of new \<in> set (allowed_next d (status_of old))
     \<and> (d = CopyH2D \<and> status_of old = 2 \<longrightarrow> snd new ''local_row'' = snd old ''local_row'')"

definition copy_moves :: "copy_direction \<Rightarrow> cell \<Rightarrow> cell \<Rightarrow> bool" where
  "copy_moves d old new \<longleftrightarrow> newer_operation d old new \<or> copy_advances d old new"

lemma new_operation_Inr:
  assumes "new_operation old fvs [e, v] = Inr fresh" "\<And>n x. snapshot_get old n = Inr x \<Longrightarrow> snd c n = Some x"
    and "snd c' = snd c ++ map_of fvs"
  shows "if fresh then newer_field e c c' \<or> snd c' e = snd c e \<and> newer_field v c c'
    else map_of fvs e = snd c e \<and> map_of fvs v = snd c v"
proof -
  obtain x y where e: "snapshot_get old e = Inr x" "map_of fvs e = Some y"
    using assms(1) by (auto simp: bind_r_eq_Inr lookup_field_def split: option.splits)
  have ce: "snd c e = Some x" "snd c' e = Some y" using assms(2) [OF e(1)] e(2) assms(3) by simp_all
  show ?thesis
  proof (cases "x = y")
    case False
    then obtain a b where "y = VInt a" "x = VInt b" "is_newer U64 a b = Inr True" "fresh"
      using assms(1) e by (auto simp: bind_r_eq_Inr lookup_field_def value_int_def split: field_value.splits)
    then show ?thesis using ce by (simp add: newer_field_def newer_id_def)
  next
    case True
    obtain x' y' where v: "snapshot_get old v = Inr x'" "map_of fvs v = Some y'"
      using assms(1) e True by (auto simp: bind_r_eq_Inr lookup_field_def split: option.splits)
    have cv: "snd c v = Some x'" "snd c' v = Some y'" using assms(2) [OF v(1)] v(2) assms(3) by simp_all
    show ?thesis
    proof (cases "x' = y'")
      case False
      then obtain a b where "y' = VInt a" "x' = VInt b" "is_newer U64 a b = Inr True" "fresh"
        using assms(1) e v True by (auto simp: bind_r_eq_Inr lookup_field_def value_int_def split: field_value.splits)
      then show ?thesis using ce cv True by (simp add: newer_field_def newer_id_def)
    next
      case same: True
      then have "\<not> fresh" using assms(1) e v True by (auto simp: bind_r_eq_Inr lookup_field_def)
      then show ?thesis using e v ce cv True same by simp
    qed
  qed
qed

lemma copy_transition_cells:
  assumes ok: "table_ok t" and v: "validate_copy_transition t (copy_block d) slot fvs d = Inr fvs'" and f: "fields_ok fvs"
    and pub: "publish_next t (copy_block d) slot fvs' = Inr t'" and key: "copy_key d = [e, w]"
  shows "table_ok t' \<and> (\<exists>c c'. cells t (copy_block d, slot) = Some c \<and> cells t' = (cells t)((copy_block d, slot) \<mapsto> c')
     \<and> fst c' \<noteq> invalid U64 \<and> (fst c = invalid U64 \<or> copy_moves d c c'))"
proof -
  have sub: "fvs' = fvs \<or> fvs' = filter (\<lambda>fv. fst fv \<in> set mutable_fields) fvs"
    using v by (auto simp: validate_copy_transition_def bind_r_eq_Inr split: if_splits)
  then have f': "fields_ok fvs'" using f
    by (auto simp: fields_ok_def list_all_iff distinct_map_filter)
  obtain c seq where c: "cells t (copy_block d, slot) = Some c" "is_valid U64 seq"
    "cells t' = (cells t)((copy_block d, slot) \<mapsto> cell_update seq fvs' c)" and ok': "table_ok t'"
    using publish_next_cells [OF ok pub f'] by blast
  let ?c' = "cell_update seq fvs' c"
  have new: "fst ?c' \<noteq> invalid U64" "snd ?c' = snd c ++ map_of fvs'" using c(2) by (simp_all add: cell_update_def)
  have "copy_moves d c ?c'" if valid: "fst c \<noteq> invalid U64"
  proof -
    obtain p where p: "map_of (tb_partitions t) (copy_block d) = Some p" "row_ok p slot" "c = (row_marker p slot, row_values p slot)"
      using c(1) by (auto simp: cells_Some)
    have "t_publish_seq t (copy_block d) slot = Inr (fst c)" if "t_publish_seq t (copy_block d) slot = Inr s" for s
      using that p by (auto simp: t_publish_seq_def partition_of_def read_publish_seq_def row_marker_def bind_r_eq_Inr)
    then obtain old fresh where old: "t_read t (copy_block d) slot True = Inr old" "new_operation old fvs (copy_key d) = Inr fresh"
      and rest: "if fresh then fvs' = fvs else check_same_identity old fvs = Inr () \<and> check_copy_step d old fvs = Inr ()
         \<and> fvs' = filter (\<lambda>fv. fst fv \<in> set mutable_fields) fvs"
      using v valid by (auto simp: validate_copy_transition_def bind_r_eq_Inr split: if_splits)
    have get: "snd c n = Some x" if "snapshot_get old n = Inr x" for n x
      using t_read_agrees [OF ok old(1)] c(1) that by (auto simp: agrees_def)
    show ?thesis
    proof (cases fresh)
      case True
      then show ?thesis using new_operation_Inr [OF old(2) [unfolded key] get, of ?c'] rest new(2)
        by (simp add: copy_moves_def newer_operation_def key)
    next
      case False
      then have r: "check_same_identity old fvs = Inr ()" "check_copy_step d old fvs = Inr ()"
        "fvs' = filter (\<lambda>fv. fst fv \<in> set mutable_fields) fvs" using rest by simp_all
      have "n \<in> set mutable_fields \<or> snd ?c' n = snd c n" for n
      proof (cases "n \<in> set mutable_fields")
        case False
        then have "map_of fvs' n = None" by (auto simp: r(3) map_of_eq_None_iff)
        then show ?thesis unfolding new(2) by (simp add: map_add_def)
      qed simp
      moreover obtain st bf s where st: "lookup_field fvs ''status'' = Inr st" "snapshot_get old ''status'' = Inr bf" "value_int bf = Inr s"
        "st \<in> VInt ` set (allowed_next d s)" using r(2) unfolding check_copy_step_def bind_r_eq_Inr by (auto simp: require_simps)
      then obtain s' where s: "snapshot_get old ''status'' = Inr (VInt s)" "map_of fvs ''status'' = Some (VInt s')"
        "s' \<in> set (allowed_next d s)"
        by (cases bf) (auto simp: value_int_def lookup_field_def split: option.splits)
      moreover have "d = CopyH2D \<and> s = 2 \<longrightarrow> snd ?c' ''local_row'' = snd c ''local_row''"
      proof
        assume "d = CopyH2D \<and> s = 2"
        then obtain x where x: "snapshot_get old ''local_row'' = Inr x" "map_of fvs ''local_row'' = Some x"
          using r(2) s(1) by (auto simp: check_copy_step_def bind_r_eq_Inr lookup_field_def split: option.splits)
        then have "map_of fvs' n = Some y \<Longrightarrow> n = ''local_row'' \<Longrightarrow> y = x" for n y
          using f by (auto simp: r(3) fields_ok_def dest!: map_of_SomeD intro: eq_key_imp_eq_value)
        then show "snd ?c' ''local_row'' = snd c ''local_row''"
          using get [OF x(1)] unfolding new(2) by (auto simp: map_add_def split: option.splits)
      qed
      moreover have "map_of fvs' ''status'' = Some (VInt s')"
      proof -
        have "(''status'', VInt s') \<in> set fvs'" using s(2) by (auto simp: r(3) mutable_fields_def dest: map_of_SomeD)
        then show ?thesis using f' by (simp add: fields_ok_def)
      qed
      ultimately show ?thesis using get [OF s(1)] new(2)
        by (auto simp: copy_moves_def copy_advances_def status_of_def)
    qed
  qed
  then show ?thesis using ok' c new(1) by blast
qed

section \<open>Histories of one copy row\<close>

inductive copy_fact :: "sched_table \<Rightarrow> copy_direction \<Rightarrow> int \<Rightarrow> sched_table \<Rightarrow> bool" for t where
  d2h: "publish_d2h t i h bank bank_epoch batch_seq status start n = Inr t' \<Longrightarrow> handle_ok h
    \<Longrightarrow> copy_fact t CopyD2H (dsi_request_slot i) t'"
| h2d: "publish_h2d t c r status local_row start n = Inr t' \<Longrightarrow> handle_ok (dp_snapshot_handle r)
    \<Longrightarrow> copy_fact t CopyH2D (prepare_slot r) t'"

lemma copy_fact_cells:
  assumes "table_ok t" "copy_fact t d slot t'"
  shows "table_ok t' \<and> (\<exists>c c'. cells t (copy_block d, slot) = Some c \<and> cells t' = (cells t)((copy_block d, slot) \<mapsto> c')
     \<and> fst c' \<noteq> invalid U64 \<and> (fst c = invalid U64 \<or> copy_moves d c c'))"
  using assms(2)
proof cases
  case (d2h i h bank bank_epoch batch_seq status start n)
  then obtain s fvs' where v: "validate_copy_transition t (copy_block d) slot (d2h_values i h bank bank_epoch batch_seq s start n) d = Inr fvs'"
    and p: "publish_next t (copy_block d) slot fvs' = Inr t'" by (auto simp: publish_d2h_def bind_r_eq_Inr)
  show ?thesis by (rule copy_transition_cells [OF assms(1) v d2h_fields_ok p]) (simp_all add: copy_key_def d2h)
next
  case (h2d c r status local_row start n)
  then obtain s fvs' where v: "validate_copy_transition t (copy_block d) slot (h2d_fact c r s local_row start n) d = Inr fvs'"
    and p: "publish_next t (copy_block d) slot fvs' = Inr t'" by (auto simp: publish_h2d_def bind_r_eq_Inr)
  show ?thesis by (rule copy_transition_cells [OF assms(1) v h2d_fields_ok p]) (simp_all add: copy_key_def h2d)
qed

text \<open>A run of the table as one copy row sees it: facts published into the row, and any step that leaves the row alone.\<close>

inductive copy_run :: "copy_direction \<Rightarrow> int \<Rightarrow> sched_table \<Rightarrow> cell list \<Rightarrow> sched_table \<Rightarrow> bool" for d slot t where
  start: "copy_run d slot t [] t"
| fact: "copy_run d slot t log t1 \<Longrightarrow> copy_fact t1 d slot t2 \<Longrightarrow> cells t2 (copy_block d, slot) = Some c \<Longrightarrow> copy_run d slot t (log @ [c]) t2"
| other: "copy_run d slot t log t1 \<Longrightarrow> table_ok t2 \<Longrightarrow> cells t2 (copy_block d, slot) = cells t1 (copy_block d, slot)
    \<Longrightarrow> copy_run d slot t log t2"

lemma successively_snoc: "successively P (xs @ [x]) \<longleftrightarrow> successively P xs \<and> (xs = [] \<or> P (last xs) x)"
  by (induction xs rule: induct_list012) auto

lemma copy_run_log:
  assumes "copy_run d slot t log t'" "table_ok t"
  shows "table_ok t' \<and> successively (copy_moves d) log
    \<and> (log = [] \<or> cells t' (copy_block d, slot) = Some (last log) \<and> fst (last log) \<noteq> invalid U64)"
  using assms
proof (induction rule: copy_run.induct)
  case (fact log t1 t2 c)
  then have ok: "table_ok t1" by blast
  obtain c1 c2 where "cells t1 (copy_block d, slot) = Some c1" "cells t2 = (cells t1)((copy_block d, slot) \<mapsto> c2)" "fst c2 \<noteq> invalid U64"
    "fst c1 = invalid U64 \<or> copy_moves d c1 c2" "table_ok t2" using copy_fact_cells [OF ok fact.hyps(2)] by blast
  then show ?case using fact by (auto simp: successively_snoc)
qed auto

text \<open>The states left for one operation, as a number that every further fact of the operation lowers.\<close>

fun copy_rank :: "copy_direction \<Rightarrow> int \<Rightarrow> nat" where
  "copy_rank CopyD2H s = (if s = 1 then 1 else 0)"
| "copy_rank CopyH2D s = (if s = 1 then 2 else if s = 2 then 1 else 0)"

lemma newer_field_differs: "newer_field n old new \<Longrightarrow> snd new n \<noteq> snd old n"
  by (auto simp: newer_field_def newer_id_def is_newer_def distance_def bind_r_eq_Inr split: option.splits field_value.splits)

lemma same_operation_advances:
  assumes "copy_moves d old new" "op_key d new = op_key d old"
  shows "copy_advances d old new" "copy_rank d (status_of new) < copy_rank d (status_of old)"
proof -
  have "\<not> newer_operation d old new" using assms(2) by (cases d) (auto simp: newer_operation_def op_key_def copy_key_def dest: newer_field_differs)
  then show a: "copy_advances d old new" using assms(1) by (simp add: copy_moves_def)
  then show "copy_rank d (status_of new) < copy_rank d (status_of old)"
    by (cases d) (auto simp: copy_advances_def split: if_splits)
qed

lemma same_operation_length:
  "successively (copy_moves d) cs \<Longrightarrow> list_all (\<lambda>c. op_key d c = k) cs \<Longrightarrow> cs = [] \<or> length cs \<le> Suc (copy_rank d (status_of (hd cs)))"
proof (induction cs rule: induct_list012)
  case (3 x y zs)
  then have "copy_rank d (status_of y) < copy_rank d (status_of x)" using same_operation_advances(2) [of d x y] by simp
  then show ?case using 3 by simp
qed simp_all


section \<open>A demonstration copy\<close>

lemma names_expect:
  assumes "table_ok t" "shows_fields t k row fvs"
    and "list_all (\<lambda>fv. find (\<lambda>f. fd_name (fl_field f) = fst fv) (payload_fields (layout_of k)) \<noteq> None) fvs"
  shows "expect_read t k row fvs = Inr ()"
proof -
  obtain p where p: "map_of (tb_partitions t) k = Some p" "row_ok p row" "row_marker p row \<noteq> invalid U64"
    and v: "list_all (\<lambda>fv. row_values p row (fst fv) = Some (snd fv)) fvs"
    using assms(2) by (auto simp: shows_fields_def cells_Some split: option.splits)
  have "partition_ok p" "tp_layout p = layout_of k" using assms(1) p(1) by (auto simp: table_ok_iff)
  then have pk: "partition_ok p" "tp_layout p = layout_of k" "layout_ok (tp_layout p)" by (simp_all add: layout_ok_all)
  have "\<exists>f. find (\<lambda>f. fd_name (fl_field f) = fst fv) (payload_fields (tp_layout p)) = Some f
      \<and> f \<in> set (payload_fields (tp_layout p)) \<and> fd_name (fl_field f) = fst fv" if "fv \<in> set fvs" for fv
  proof -
    have "find (\<lambda>f. fd_name (fl_field f) = fst fv) (payload_fields (tp_layout p)) \<noteq> None"
      using assms(3) that pk(2) by (simp add: list_all_iff)
    then obtain f where "find (\<lambda>f. fd_name (fl_field f) = fst fv) (payload_fields (tp_layout p)) = Some f" by blast
    moreover from this have "f \<in> set (payload_fields (tp_layout p))" "fd_name (fl_field f) = fst fv" by (auto simp: find_Some_iff)
    ultimately show ?thesis by blast
  qed
  then obtain pick where pick: "\<And>fv. fv \<in> set fvs \<Longrightarrow> find (\<lambda>f. fd_name (fl_field f) = fst fv) (payload_fields (tp_layout p)) = Some (pick fv)
      \<and> pick fv \<in> set (payload_fields (tp_layout p)) \<and> fd_name (fl_field (pick fv)) = fst fv" by metis
  let ?fs = "map pick fvs"
  have sel: "selected_fields (tp_layout p) True (Some (map fst fvs)) = Inr ?fs"
    unfolding selected_fields_def option.case map_r_Inr list_all2_map1 list_all2_map2
    by (rule list.rel_refl_strong) (simp add: pick)
  have sub: "set ?fs \<subseteq> set (payload_fields (tp_layout p))" using pick by auto
  have r: "t_read_names t k row (map fst fvs) = Inr (snapshot_of p row ?fs)"
    using read_static [OF pk(1) p(2) _ sel sub, of 16] p by (simp add: t_read_names_def partition_of_def)
  have "snapshot_get (snapshot_of p row ?fs) (fst fv) = Inr (snd fv)" if fv: "fv \<in> set fvs" for fv
  proof -
    have "row_values p row (fst fv) = Some (snd fv)" using v fv by (auto simp: list_all_iff)
    then have "field_in p row (pick fv) = snd fv" using row_values_field [OF pk(3), of "pick fv" row] pick [OF fv] by simp
    then show ?thesis using snapshot_get_field [OF pk(3), of "pick fv" ?fs row] pick [OF fv] sub fv by auto
  qed
  then show ?thesis using r by (auto simp: expect_read_def expect_fields_def expect_field_def)
qed

definition demo_allocation :: draft_host_allocation where
  "demo_allocation = \<lparr>dha_arena_id = 1, dha_arena_generation = 1, dha_layout_id = 9, dha_host_slot_generation = 2,
     dha_writer_lease_generation = 6, dha_offset_blocks = 0, dha_host_slot = 0, dha_capacity_blocks = 4, dha_block_size = 16\<rparr>"

definition demo_identity :: draft_snapshot_identity where
  "demo_identity = \<lparr>dsi_request_slot = 0, dsi_request_epoch = 3, dsi_round_id = 1, dsi_op_seq = 5, dsi_worker_id = 2,
     dsi_worker_generation = 4, dsi_owner_epoch = 0, dsi_snapshot_version = 7, dsi_logical_kv_len = 20, dsi_valid_blocks = 2,
     dsi_allocation = demo_allocation\<rparr>"

definition demo_handle :: arena_handle where
  "demo_handle = \<lparr>h_offset = 64, h_length = 200, h_generation = 1\<rparr>"

definition demo_host_row :: fields where
  "demo_host_row = (''request_epoch'', VInt 3) # allocation_values demo_allocation"

definition demo_source_row :: fields where
  "demo_source_row =
     [(''request_epoch'', VInt 3), (''round_id'', VInt 1), (''observed_issue_seq'', VInt 5), (''worker_id'', VInt 2),
      (''worker_generation'', VInt 4), (''owner_epoch'', VInt 0), (''snapshot_version'', VInt 7), (''logical_kv_len'', VInt 20),
      (''valid_blocks'', VInt 2), (''draft_state_handle'', VHandle demo_handle), (''status'', VInt 2), (''result_code'', VInt 0)]"

definition demo_bank_row :: fields where
  "demo_bank_row = [(''bank_id'', VInt 1), (''bank_epoch'', VInt 1), (''batch_seq'', VInt 1)]"

definition demo_rows_of_source :: "(block_kind \<times> fields) list" where
  "demo_rows_of_source = [(REQUEST_ENGINE, [(''request_epoch'', VInt 3)]), (REQUEST_DRAFT_HOSTKV, demo_host_row),
     (REQUEST_DRAFT, demo_source_row @ demo_bank_row)]"

definition demo_copy_values :: fields where
  "demo_copy_values = d2h_values demo_identity demo_handle 1 1 1 1 10 4096"

lemma demo_source_table:
  "\<exists>t. table_ok t \<and> tb_notifier t = quiet \<and> shows_fields t REQUEST_ENGINE 0 [(''request_epoch'', VInt 3)]
     \<and> shows_fields t REQUEST_DRAFT_HOSTKV 0 demo_host_row \<and> shows_fields t REQUEST_DRAFT 0 demo_source_row
     \<and> shows_fields t REQUEST_DRAFT 0 demo_bank_row \<and> (\<exists>c. cells t (REQUEST_DRAFT_D2H, 0) = Some c \<and> fst c = invalid U64)"
proof -
  have e: "list_all (\<lambda>(k, fvs). list_all (\<lambda>fv. returns (encode_field (layout_of k) fv)) fvs) demo_rows_of_source" by code_simp
  have f: "list_all (\<lambda>(k, fvs). k \<in> set request_kinds \<and> fields_ok fvs) demo_rows_of_source"
    by (simp add: demo_rows_of_source_def request_kinds_def fields_ok_def demo_host_row_def allocation_values_def demo_source_row_def
        demo_bank_row_def demo_handle_def handle_ok_iff)
  have rows: "list_all (\<lambda>(k, fvs). k \<in> set request_kinds \<and> fields_ok fvs \<and> list_all (\<lambda>fv. returns (encode_field (layout_of k) fv)) fvs)
      demo_rows_of_source" using e f by (auto simp: list_all_iff)
  have "distinct (map fst demo_rows_of_source)" by (simp add: demo_rows_of_source_def)
  with rows show ?thesis using demo_rows [OF rows] by (auto simp: demo_rows_of_source_def shows_append request_kinds_def)
qed


end
