(* ===== verification/DraftOwnership.thy ===== *)
theory DraftOwnership
  imports DraftFacts
begin

text \<open>
  The dispatch contract of Draft migration: a prepare leaves the owner of every request alone, and a run moves it
  only when the copy into the destination is complete and the Target result it continues from is published.
\<close>

section \<open>Batches of publications\<close>

lemma publish_each_cells:
  assumes "publish_each t us = Inr t'" "table_ok t" "list_all (\<lambda>u. fields_ok (snd u)) us"
  shows "table_ok t' \<and> (\<forall>x. x \<in> (\<lambda>u. (REQUEST_DISPATCH, fst u)) ` set us \<or> cells t' x = cells t x)
     \<and> (\<forall>slot n. n \<in> fst ` (\<Union>u \<in> set us. set (snd u)) \<or> map_option (\<lambda>c. snd c n) (cells t' (REQUEST_DISPATCH, slot))
          = map_option (\<lambda>c. snd c n) (cells t (REQUEST_DISPATCH, slot)))
     \<and> (distinct (map fst us) \<longrightarrow> (\<forall>u \<in> set us. shows_fields t' REQUEST_DISPATCH (fst u) (snd u)))"
  using assms
proof (induction t us arbitrary: t' rule: publish_each.induct)
  case (2 t slot fvs us)
  note IH = 2(1) and prems = 2(2,3,4)
  obtain t1 where t1: "publish_next t REQUEST_DISPATCH slot fvs = Inr t1" "publish_each t1 us = Inr t'"
    using prems(1) by (auto simp: bind_r_eq_Inr)
  have f: "fields_ok fvs" "list_all (\<lambda>u. fields_ok (snd u)) us" using prems(3) by simp_all
  obtain c seq where c: "cells t (REQUEST_DISPATCH, slot) = Some c" "is_valid U64 seq"
    "cells t1 = (cells t)((REQUEST_DISPATCH, slot) \<mapsto> cell_update seq fvs c)" and ok: "table_ok t1"
    using publish_next_cells [OF prems(2) t1(1) f(1)] by blast
  note IH' = IH [OF t1(1) t1(2) ok f(2)]
  have names: "n \<in> fst ` set fvs \<or> snd (cell_update seq fvs c) n = snd c n" for n
    by (auto simp: cell_update_def map_add_def map_of_eq_None_iff split: option.splits dest!: map_of_SomeD intro: rev_image_eqI)
  have mine: "shows_fields t1 REQUEST_DISPATCH slot fvs"
    using c f(1) by (auto simp: shows_fields_def cell_update_def fields_ok_def list_all_iff map_add_def)
  have far: "x \<in> (\<lambda>u. (REQUEST_DISPATCH, fst u)) ` set us \<or> cells t' x = cells t1 x" for x using IH' by blast
  have "x \<in> (\<lambda>u. (REQUEST_DISPATCH, fst u)) ` set ((slot, fvs) # us) \<or> cells t' x = cells t x" for x
    using far [of x] c(3) by (cases "x = (REQUEST_DISPATCH, slot)") auto
  moreover have "n \<in> fst ` (\<Union>u \<in> set ((slot, fvs) # us). set (snd u)) \<or> map_option (\<lambda>c. snd c n) (cells t' (REQUEST_DISPATCH, s))
          = map_option (\<lambda>c. snd c n) (cells t (REQUEST_DISPATCH, s))" for s n
  proof -
    have "n \<in> fst ` set fvs \<or> map_option (\<lambda>c. snd c n) (cells t1 (REQUEST_DISPATCH, s)) = map_option (\<lambda>c. snd c n) (cells t (REQUEST_DISPATCH, s))"
      using names [of n] c(1,3) by auto
    moreover have "n \<in> fst ` (\<Union>u \<in> set us. set (snd u)) \<or> map_option (\<lambda>c. snd c n) (cells t' (REQUEST_DISPATCH, s))
        = map_option (\<lambda>c. snd c n) (cells t1 (REQUEST_DISPATCH, s))" using IH' by blast
    moreover have "fst ` (\<Union>u \<in> set ((slot, fvs) # us). set (snd u)) = fst ` set fvs \<union> fst ` (\<Union>u \<in> set us. set (snd u))"
      by (simp add: image_Un)
    ultimately show ?thesis by auto
  qed
  moreover have "\<forall>u \<in> set ((slot, fvs) # us). shows_fields t' REQUEST_DISPATCH (fst u) (snd u)" if "distinct (map fst ((slot, fvs) # us))"
  proof -
    have "(REQUEST_DISPATCH, slot) \<notin> (\<lambda>u. (REQUEST_DISPATCH, fst u)) ` set us" using that by auto
    then have "cells t' (REQUEST_DISPATCH, slot) = cells t1 (REQUEST_DISPATCH, slot)" using far by blast
    then have "shows_fields t' REQUEST_DISPATCH slot fvs" using mine by (simp add: shows_fields_def)
    moreover have "\<forall>u \<in> set us. shows_fields t' REQUEST_DISPATCH (fst u) (snd u)" using IH' that by simp
    ultimately show ?thesis by simp
  qed
  ultimately show ?case using IH' by blast
qed simp

section \<open>The owner of a request\<close>

definition owner_fields :: "string list" where
  "owner_fields = [''draft_owner_epoch'', ''draft_worker_id'', ''draft_worker_generation'', ''draft_round_id'', ''draft_issue_seq'']"

definition owner_of :: "sched_table \<Rightarrow> int \<Rightarrow> field_value option list option" where
  "owner_of t slot = map_option (\<lambda>c. map (snd c) owner_fields) (cells t (REQUEST_DISPATCH, slot))"

lemma prepare_values_ok: "handle_ok (dp_snapshot_handle r) \<Longrightarrow> fields_ok (prepare_values c r)"
  by (simp add: fields_ok_def prepare_values_def)

lemma run_values_ok: "fields_ok (run_values c r)"
  by (simp add: fields_ok_def run_values_def)

definition handles_valid :: "draft_command \<Rightarrow> bool" where
  "handles_valid c = (case c of PrepareDraft p \<Rightarrow> list_all (\<lambda>r. handle_ok (dp_snapshot_handle r)) (pd_requests p)
     | RunDraft r \<Rightarrow> distinct (map dr_request_slot (rb_requests r)))"

lemma prepare_keeps_owner:
  assumes "table_ok t" "sent t pend (PrepareDraft c) = Inr (t', pend')" "handles_valid (PrepareDraft c)"
  shows "table_ok t'" "owner_of t' slot = owner_of t slot" "map_of pend' = (map_of pend)(pd_worker_id c \<mapsto> c)"
proof -
  let ?us = "map (\<lambda>row. (prepare_slot row, prepare_values c row)) (pd_requests c)"
  have p: "publish_each t ?us = Inr t'" "pend' = AList.update (pd_worker_id c) c pend" using assms(2) by (auto simp: bind_r_eq_Inr)
  have f: "list_all (\<lambda>u. fields_ok (snd u)) ?us" using assms(3) by (auto simp: list_all_iff handles_valid_def intro: prepare_values_ok)
  note e = publish_each_cells [OF p(1) assms(1) f]
  show "table_ok t'" using e by blast
  show "map_of pend' = (map_of pend)(pd_worker_id c \<mapsto> c)" by (simp add: p(2) update_conv')
  have "map_option (\<lambda>c. snd c n) (cells t' (REQUEST_DISPATCH, slot)) = map_option (\<lambda>c. snd c n) (cells t (REQUEST_DISPATCH, slot))"
    if "n \<in> set owner_fields" for n
  proof -
    have "n \<notin> fst ` (\<Union>u \<in> set ?us. set (snd u))" using that by (auto simp: owner_fields_def prepare_values_def)
    then show ?thesis using e by blast
  qed
  then show "owner_of t' slot = owner_of t slot"
    unfolding owner_of_def by (cases "cells t' (REQUEST_DISPATCH, slot)"; cases "cells t (REQUEST_DISPATCH, slot)")
      (auto simp: owner_fields_def)
qed

section \<open>A run takes the request over\<close>

lemma expect_read_shows: "table_ok t \<Longrightarrow> expect_read t k row fvs = Inr () \<Longrightarrow> shows_fields t k row fvs"
  by (auto simp: expect_read_def bind_r_eq_Inr intro: read_shows)

definition copy_complete :: "prepare_draft_bank_command \<Rightarrow> draft_prepare_request \<Rightarrow> fields" where
  "copy_complete c p = h2d_values c p @ [(''status'', VInt 3), (''result_code'', VInt 0),
     (''gpu_ready_version'', VInt (dsi_snapshot_version (dp_source p))), (''copied_blocks'', VInt (dsi_valid_blocks (dp_source p)))]"

definition old_owner :: "draft_prepare_request \<Rightarrow> fields" where
  "old_owner p = [(''draft_owner_epoch'', VInt (dsi_owner_epoch (dp_source p))), (''draft_worker_id'', VInt (dsi_worker_id (dp_source p))),
     (''draft_worker_generation'', VInt (dsi_worker_generation (dp_source p))), (''draft_issue_seq'', VInt (dsi_op_seq (dp_source p)))]"

definition new_owner :: "run_draft_batch_command \<Rightarrow> draft_run_request \<Rightarrow> fields" where
  "new_owner c r = [(''draft_owner_epoch'', VInt (dr_owner_epoch r)), (''draft_worker_id'', VInt (rb_worker_id c)),
     (''draft_worker_generation'', VInt (rb_worker_generation c)), (''draft_issue_seq'', VInt (dr_run_seq r))]"

definition continues_result :: "draft_prepare_request \<Rightarrow> draft_run_request \<Rightarrow> fields" where
  "continues_result p r = [(''request_epoch'', VInt (dr_request_epoch r)), (''round_id'', VInt (dsi_round_id (dp_source p))),
     (''committed_delta_handle'', VHandle (dr_token_delta_handle r)), (''status'', VInt 2), (''result_code'', VInt 0)]"

text \<open>What holds of one member of a run, before and after the run was sent.\<close>

definition takes_over ::
  "sched_table \<Rightarrow> sched_table \<Rightarrow> prepare_draft_bank_command \<Rightarrow> run_draft_batch_command \<Rightarrow> draft_prepare_request \<Rightarrow> draft_run_request \<Rightarrow> bool" where
  "takes_over t t' prepare c p r \<longleftrightarrow> member_answers p r
     \<and> shows_fields t REQUEST_DISPATCH (dr_request_slot r) (old_owner p)
     \<and> shows_fields t REQUEST_DRAFT_H2D (dr_request_slot r) (copy_complete prepare p)
     \<and> shows_fields t REQUEST_TARGET_COMPUTE (dr_request_slot r) (continues_result p r)
     \<and> shows_fields t' REQUEST_DISPATCH (dr_request_slot r) (new_owner c r)"

lemma shows_sub: "shows_fields t k row fvs \<Longrightarrow> set fvs' \<subseteq> set fvs \<Longrightarrow> shows_fields t k row fvs'"
  by (fastforce simp: shows_fields_def list_all_iff split: option.splits)

lemma preflight_run_shows:
  assumes "table_ok t" "preflight_run_row t c p r = Inr ()"
  shows "shows_fields t REQUEST_DISPATCH (dr_request_slot r) (old_owner p)"
    "shows_fields t REQUEST_DRAFT_H2D (dr_request_slot r) (copy_complete c p)"
    "shows_fields t REQUEST_TARGET_COMPUTE (dr_request_slot r) (continues_result p r)"
proof -
  obtain h2d dispatch target run_seq where
    h: "t_read t REQUEST_DRAFT_H2D (dr_request_slot r) True = Inr h2d" "expect_fields h2d (copy_complete c p) = Inr ()"
    and d: "t_read t REQUEST_DISPATCH (dr_request_slot r) True = Inr dispatch" "expect_fields dispatch (old_owner p) = Inr ()"
    and g: "t_read t REQUEST_TARGET_COMPUTE (dr_request_slot r) True = Inr target"
      "expect_fields target [(''request_epoch'', VInt (dr_request_epoch r)), (''round_id'', VInt (dsi_round_id (dp_source p))),
        (''observed_run_seq'', run_seq), (''committed_delta_handle'', VHandle (dr_token_delta_handle r)), (''status'', VInt 2),
        (''result_code'', VInt 0)] = Inr ()"
    using assms(2) unfolding preflight_run_row_def bind_r_eq_Inr copy_complete_def old_owner_def by auto
  show "shows_fields t REQUEST_DISPATCH (dr_request_slot r) (old_owner p)" by (rule read_shows(1) [OF assms(1) d])
  show "shows_fields t REQUEST_DRAFT_H2D (dr_request_slot r) (copy_complete c p)" by (rule read_shows(1) [OF assms(1) h])
  show "shows_fields t REQUEST_TARGET_COMPUTE (dr_request_slot r) (continues_result p r)"
    by (rule shows_sub [OF read_shows(1) [OF assms(1) g]]) (auto simp: continues_result_def)
qed

lemma run_takes_over:
  assumes "table_ok t" "preflight t pend (RunDraft c) = Inr ()" "sent t pend (RunDraft c) = Inr (t', pend')"
    and "handles_valid (RunDraft c)" "distinct (map fst pend)"
  shows "table_ok t' \<and> (\<exists>prepare. map_of pend (rb_worker_id c) = Some prepare \<and> answers prepare c
     \<and> list_all2 (takes_over t t' prepare c) (pd_requests prepare) (rb_requests c)) \<and> map_of pend' (rb_worker_id c) = None"
proof -
  let ?us = "map (\<lambda>row. (dr_request_slot row, run_values c row)) (rb_requests c)"
  have p: "publish_each t ?us = Inr t'" "pend' = AList.delete (rb_worker_id c) pend" using assms(3) by (auto simp: bind_r_eq_Inr)
  have f: "list_all (\<lambda>u. fields_ok (snd u)) ?us" by (simp add: list_all_iff run_values_ok)
  have d: "distinct (map fst ?us)" using assms(4) by (simp add: handles_valid_def comp_def)
  note e = publish_each_cells [OF p(1) assms(1) f]
  obtain prepare where prep: "map_of pend (rb_worker_id c) = Some prepare" "validate_prepared_run prepare c = Inr ()"
    "\<forall>x \<in> set (zip (pd_requests prepare) (rb_requests c)). (case x of (p, r) \<Rightarrow> preflight_run_row t prepare p r) = Inr ()"
    using assms(2) by (auto simp: bind_r_eq_Inr split: option.splits)
  have a: "answers prepare c" using prep(2) validate_prepared_run_ok by blast
  then have members: "list_all2 member_answers (pd_requests prepare) (rb_requests c)" by (simp add: answers_def)
  have "takes_over t t' prepare c (pd_requests prepare ! i) (rb_requests c ! i)" if i: "i < length (rb_requests c)" for i
  proof -
    let ?p = "pd_requests prepare ! i" and ?r = "rb_requests c ! i"
    have len: "length (pd_requests prepare) = length (rb_requests c)" using members by (rule list_all2_lengthD)
    have m: "member_answers ?p ?r" using members i by (simp add: list_all2_conv_all_nth)
    have "(?p, ?r) \<in> set (zip (pd_requests prepare) (rb_requests c))" using i len by (auto simp: in_set_zip)
    then have pre: "preflight_run_row t prepare ?p ?r = Inr ()" using prep(3) by force
    have "(dr_request_slot ?r, run_values c ?r) \<in> set ?us" using i by auto
    then have "shows_fields t' REQUEST_DISPATCH (dr_request_slot ?r) (run_values c ?r)" using e d by force
    then have "shows_fields t' REQUEST_DISPATCH (dr_request_slot ?r) (new_owner c ?r)"
      by (rule shows_sub) (auto simp: new_owner_def run_values_def)
    then show ?thesis using m preflight_run_shows [OF assms(1) pre] by (simp add: takes_over_def)
  qed
  then have "list_all2 (takes_over t t' prepare c) (pd_requests prepare) (rb_requests c)"
    using list_all2_lengthD [OF members] by (simp add: list_all2_conv_all_nth)
  moreover have "map_of pend' (rb_worker_id c) = None" by (simp add: p(2) delete_conv')
  ultimately show ?thesis using e prep(1) a by blast
qed

section \<open>Properties\<close>


section \<open>A demonstration prepare\<close>

lemma marker_valid: "row_marker p row \<noteq> invalid U64 \<Longrightarrow> is_valid U64 (row_marker p row)"
  using le_int_bounds [of "subbuf (row_base (tp_layout p) row) 8 (tp_bytes p)"]
    power_increasing [of "length (subbuf (row_base (tp_layout p) row) 8 (tp_bytes p))" 8 "256::int"]
  by (simp add: row_marker_def marker_of_def subbuf_def)

lemma publish_next_returns:
  assumes "table_ok t" "tb_notifier t = quiet" "cells t (k, row) = Some c" "\<forall>fv \<in> set fvs. returns (encode_field (layout_of k) fv)"
  shows "\<exists>t'. publish_next t k row fvs = Inr t'"
proof -
  obtain p where p: "map_of (tb_partitions t) k = Some p" "row_ok p row" "fst c = row_marker p row" using assms(3) by (auto simp: cells_Some)
  then have pk: "partition_ok p" and lay: "tp_layout p = layout_of k" using assms(1) by (auto simp: table_ok_iff)
  have cur: "t_publish_seq t k row = Inr (fst c)"
    using p validate_row_ok [OF pk, THEN iffD2, OF p(2)] by (simp add: t_publish_seq_def partition_of_def read_publish_seq_def row_marker_def)
  obtain seq where seq: "next_seq t k row = Inr seq" "is_valid U64 seq" "fst c = invalid U64 \<or> newer_id OP_SEQ seq (fst c)"
  proof (cases "fst c = invalid U64")
    case True
    then show ?thesis using cur that [of 0] by (simp add: next_seq_def)
  next
    case False
    then have v: "is_valid U64 (fst c)" using marker_valid p(3) by simp
    have "next_id OP_SEQ (fst c) = Inr (advance_id OP_SEQ 1 (fst c))" using v by (intro next_id_advance) simp_all
    moreover have "is_valid U64 (advance_id OP_SEQ 1 (fst c))" unfolding advance_id_def by (rule valid_mod) (simp add: domain_defs U64_def)
    moreover have "newer_id OP_SEQ (advance_id OP_SEQ 1 (fst c)) (fst c)" using v newer_id_advance_iff [of OP_SEQ "fst c" 1] by (simp add: domain_defs U64_def)
    ultimately show ?thesis using cur False that by (simp add: next_seq_def)
  qed
  have n: "returns (notify k row seq (tb_notifier t))" by (simp add: assms(2) notify_def quiet_def)
  obtain t' where "publish_owned t (sl_owner (layout_of k)) k row seq fvs = Inr t'"
    using publish_owned_returns [OF assms(1,3) refl seq(2,3) assms(4) n] by blast
  then show ?thesis using p(1) lay seq(1) by (auto simp: publish_next_def partition_of_def)
qed

definition demo_prepare_row :: draft_prepare_request where
  "demo_prepare_row = \<lparr>dp_source = demo_identity, dp_snapshot_handle = demo_handle, dp_prepare_seq = 8, dp_next_round_id = 2,
     dp_next_owner_epoch = 1, dp_destination_offset_blocks = 0, dp_destination_capacity_blocks = 4, dp_growth_token_budget = 8\<rparr>"

definition demo_prepare :: prepare_draft_bank_command where
  "demo_prepare = \<lparr>pd_worker_id = 9, pd_worker_generation = 1, pd_command_seq = 0, pd_batch_seq = 1, pd_standby_bank_id = 1,
     pd_next_bank_epoch = 1, pd_requests = [demo_prepare_row]\<rparr>"

definition demo_owner_row :: fields where
  "demo_owner_row = [(''request_epoch'', VInt 3), (''draft_owner_epoch'', VInt 0), (''draft_worker_id'', VInt 2),
     (''draft_worker_generation'', VInt 4), (''draft_round_id'', VInt 1), (''draft_issue_seq'', VInt 5)]"

definition demo_dispatch_row :: fields where
  "demo_dispatch_row = demo_owner_row @ [(''draft_prepare_seq'', VInt 6)]"

definition demo_prepare_rows :: "(block_kind \<times> fields) list" where
  "demo_prepare_rows = demo_rows_of_source @ [(REQUEST_DISPATCH, demo_dispatch_row)]"


end
