(* ===== verification/OutputDelivery.thy ===== *)
theory OutputDelivery
  imports Admission TableStorage
begin

text \<open>
  \<open>engine/output_manager.py\<close>: the Engine hands the client the part of the cumulative output it has not seen yet.
  The Target writes the tokens into the range reserved for the request (\<open>append_reserved\<close>) and publishes how many
  there are; the row of a request may be replaced before the Engine reads it, so one result can carry the tokens
  of several rounds. The record objects of the queue are the records of the registry, named by their slot.
\<close>

section \<open>The manager\<close>

record output_manager =
  om_registry :: registry
  om_defer_delivery :: bool
  om_pending :: "(int \<times> string \<times> int list \<times> lifecycle) list"
  om_delivered :: "(string \<times> int list \<times> lifecycle) list"

definition map_record :: "(request_record \<Rightarrow> request_record) \<Rightarrow> int \<Rightarrow> registry \<Rightarrow> registry" where
  "map_record f slot g = (case map_of (rg_records g) slot of None \<Rightarrow> g
     | Some r \<Rightarrow> g\<lparr>rg_records := AList.update slot (f r) (rg_records g)\<rparr>)"

text \<open>One turn of the loop of \<open>flush\<close>; the calls of \<open>on_tokens\<close> are the log of deliveries.\<close>

definition deliver :: "int \<times> string \<times> int list \<times> lifecycle \<Rightarrow> output_manager \<Rightarrow> output_manager" where
  "deliver p m = (case p of (slot, request_id, tokens, life) \<Rightarrow>
     m\<lparr>om_registry := map_record (\<lambda>r. r\<lparr>rr_output_chunks := rr_output_chunks r @ [tokens]\<rparr>) slot (om_registry m),
       om_delivered := om_delivered m @ [(request_id, tokens, life)]\<rparr>)"

definition flush :: "output_manager \<Rightarrow> output_manager" where
  "flush m = (fold deliver (om_pending m) m)\<lparr>om_pending := []\<rparr>"

section \<open>Consuming a row\<close>

text \<open>A missing or mistyped field makes a comparison of the code raise.\<close>

definition need_int :: "block_snapshot \<Rightarrow> string \<Rightarrow> int result" where
  "need_int row name = (case map_of (bs_fields row) name of Some (VInt x) \<Rightarrow> Inr x | _ \<Rightarrow> Inl (TypeError name))"

definition need_handle :: "block_snapshot \<Rightarrow> string \<Rightarrow> arena_handle result" where
  "need_handle row name = (case map_of (bs_fields row) name of Some (VHandle h) \<Rightarrow> Inr h | _ \<Rightarrow> Inl (AttributeError name))"

definition field_truthy :: "block_snapshot \<Rightarrow> string \<Rightarrow> bool" where
  "field_truthy row name \<longleftrightarrow> (case map_of (bs_fields row) name of None \<Rightarrow> False | Some (VInt x) \<Rightarrow> x \<noteq> 0 | Some (VHandle h) \<Rightarrow> True)"

definition ready_draft_row :: "block_snapshot \<Rightarrow> bool" where
  "ready_draft_row row \<longleftrightarrow> bs_kind row = REQUEST_TARGET_COMPUTE \<and> map_of (bs_fields row) ''status'' = Some (VInt 2)"

text \<open>The tokens between what was delivered and the published count.\<close>

definition new_tokens :: "shared_arena \<Rightarrow> arena_handle \<Rightarrow> int \<Rightarrow> int \<Rightarrow> int list result" where
  "new_tokens s prefix cursor count =
     (if count > cursor
      then bind_r (mk_handle (h_offset prefix + 4 * cursor) (4 * (count - cursor)) (h_generation prefix)) (shared_read_tokens s)
      else Inr [])"

definition check_prefix :: "request_record \<Rightarrow> int \<Rightarrow> arena_handle \<Rightarrow> unit result" where
  "check_prefix r count prefix = require
     (\<not> (count < ri_output_count (rr_input r) \<or> count > gc_max_new_tokens (rr_config r)
         \<or> h_offset prefix \<noteq> h_offset (rr_reservation r) \<or> h_generation prefix \<noteq> h_generation (rr_reservation r)
         \<or> h_length prefix \<noteq> 4 * count)) (ValueError ''invalid cumulative output prefix'')"

definition accept_output :: "request_record \<Rightarrow> int \<Rightarrow> arena_handle \<Rightarrow> int \<Rightarrow> bool \<Rightarrow> int \<Rightarrow> request_record" where
  "accept_output r round_id prefix count finished now =
     r\<lparr>rr_current_round := round_id,
       rr_input := (rr_input r)\<lparr>ri_output := prefix, ri_output_count := count, ri_ready_ns := now\<rparr>,
       rr_lifecycle := (if finished then FINISHED else rr_lifecycle r)\<rparr>"

text \<open>\<open>consume_row\<close>: the slot whose record changed, if any. A raise leaves the manager as it was.\<close>

definition consume_row :: "output_manager \<Rightarrow> block_snapshot \<Rightarrow> int \<Rightarrow> (int option \<times> output_manager) result" where
  "consume_row m row now =
     (if \<not> ready_draft_row row then Inr (None, m)
      else case map_of (rg_records (om_registry m)) (bs_row row) of
        None \<Rightarrow> Inl (ValueError ''Target result has stale request identity'')
      | Some r \<Rightarrow>
          bind_r (require (map_of (bs_fields row) ''request_epoch'' = Some (VInt (ri_epoch (rr_input r))))
            (ValueError ''Target result has stale request identity'')) (\<lambda>_.
          bind_r (need_int row ''round_id'') (\<lambda>round_id.
          if round_id \<le> rr_current_round r then Inr (None, m)
          else
            bind_r (need_int row ''output_count'') (\<lambda>count.
            bind_r (need_handle row ''output_handle'') (\<lambda>prefix.
            bind_r (check_prefix r count prefix) (\<lambda>_.
            bind_r (new_tokens (rg_tokens (om_registry m)) prefix (ri_output_count (rr_input r)) count) (\<lambda>accepted.
            if rr_lifecycle r \<noteq> ACTIVE
            then Inr (None, m\<lparr>om_registry := map_record (\<lambda>r. r\<lparr>rr_current_round := round_id\<rparr>) (bs_row row) (om_registry m)\<rparr>)
            else
              let r' = accept_output r round_id prefix count (field_truthy row ''output_finished'') now
              in Inr (Some (bs_row row),
                      m\<lparr>om_registry := map_record (\<lambda>_. r') (bs_row row) (om_registry m),
                        om_pending := om_pending m @ [(bs_row row, rr_request_id r, accepted, rr_lifecycle r')]\<rparr>))))))))"

text \<open>\<open>consume\<close>: the slots that changed, each once, in the order of their first change.\<close>

fun consume_loop :: "output_manager \<Rightarrow> (block_snapshot \<times> int) list \<Rightarrow> int list \<Rightarrow> int list result \<times> output_manager" where
  "consume_loop m [] changed = (Inr changed, m)"
| "consume_loop m ((row, now) # rows) changed =
     (case consume_row m row now of
        Inl e \<Rightarrow> (Inl e, m)
      | Inr (None, m') \<Rightarrow> consume_loop m' rows changed
      | Inr (Some slot, m') \<Rightarrow> consume_loop m' rows (if slot \<in> set changed then changed else changed @ [slot]))"

definition consume :: "output_manager \<Rightarrow> (block_snapshot \<times> int) list \<Rightarrow> int list result \<times> output_manager" where
  "consume m rows =
     (case consume_loop m rows [] of
        (Inl e, m') \<Rightarrow> (Inl e, m')
      | (Inr changed, m') \<Rightarrow> (Inr changed, if om_defer_delivery m' then m' else flush m'))"

end
