(* ===== verification/OutputSafety.thy ===== *)
theory OutputSafety
  imports OutputDelivery AdmissionSafety
begin

text \<open>
  The client receives exactly the tokens the Targets wrote for its request, in order and once, whatever results
  the Engine skipped, and nothing after the delivery that finished the request.
\<close>

section \<open>Tokens in the reserved range\<close>

lemma length_read_u32s [simp]: "length (read_u32s pos n buf) = n"
  by (induction n arbitrary: pos) simp_all

lemma read_u32s_append: "read_u32s pos (m + n) buf = read_u32s pos m buf @ read_u32s (pos + 4 * m) n buf"
  by (induction m arbitrary: pos) (simp_all add: add.assoc)

lemma read_u32s_before:
  assumes "pos + 4 * n \<le> p" "p + length raw \<le> length buf"
  shows "read_u32s pos n (overwrite p raw buf) = read_u32s pos n buf"
  using assms
proof (induction n arbitrary: pos)
  case (Suc n)
  then show ?case by (simp add: subbuf_overwrite_before)
qed simp

lemma read_u32s_written:
  assumes "list_all (\<lambda>t. 0 \<le> t \<and> t < 4294967296) ts" "pos + 4 * length ts \<le> length buf"
  shows "read_u32s pos (length ts) (overwrite pos (u32_bytes ts) buf) = ts"
  using assms
proof (induction ts arbitrary: pos buf)
  case (Cons t ts)
  have "overwrite pos (u32_bytes (t # ts)) buf = overwrite (pos + 4) (u32_bytes ts) (overwrite pos (le_bytes 4 t) buf)"
    using Cons.prems(2) overwrite_overwrite [of pos "le_bytes 4 t" "u32_bytes ts" buf] by simp
  moreover have "subbuf pos 4 (overwrite (pos + 4) (u32_bytes ts) (overwrite pos (le_bytes 4 t) buf)) = le_bytes 4 t"
    using Cons.prems(2) by (simp add: subbuf_overwrite_before)
  ultimately show ?case using Cons by simp
qed simp

text \<open>The range reserved for a request holds the stream of its tokens.\<close>

definition stored :: "shared_arena \<Rightarrow> arena_handle \<Rightarrow> int list \<Rightarrow> bool" where
  "stored s R st \<longleftrightarrow> 4 * int (length st) \<le> h_length R \<and> end_offset R \<le> int (length (aa_bytes (sa_arena s))) \<and> 0 \<le> h_offset R
     \<and> read_u32s (nat (h_offset R)) (length st) (aa_bytes (sa_arena s)) = st"

lemma append_reserved_stored:
  assumes "append_reserved s R (int (length st)) ts = Inr (h, s')" "stored s R st"
  shows "stored s' R (st @ ts)" "h = \<lparr>h_offset = h_offset R, h_length = 4 * int (length (st @ ts)), h_generation = h_generation R\<rparr>"
proof -
  let ?buf = "aa_bytes (sa_arena s)" and ?o = "nat (h_offset R)"
  have t: "list_all (\<lambda>t. 0 \<le> t \<and> t < 4294967296) ts" and fit: "4 * int (length (st @ ts)) \<le> h_length R"
    and h: "mk_handle (h_offset R) ((int (length st) + int (length ts)) * 4) (h_generation R) = Inr h"
    and s': "aa_bytes (sa_arena s') = overwrite (nat (h_offset R + 4 * int (length st))) (u32_bytes ts) ?buf"
    using assms(1) by (auto simp: append_reserved_def output_bytes_def Let_def bind_r_eq_Inr list_all_iff split: if_splits)
  show "h = \<lparr>h_offset = h_offset R, h_length = 4 * int (length (st @ ts)), h_generation = h_generation R\<rparr>"
    using h by (simp add: mk_handle_Inr)
  have o: "nat (h_offset R + 4 * int (length st)) = ?o + 4 * length st" using assms(2) by (simp add: stored_def nat_add_distrib)
  have len: "?o + 4 * length st + 4 * length ts \<le> length ?buf"
  proof -
    have "int ?o = h_offset R" "h_offset R + h_length R \<le> int (length ?buf)" using assms(2) by (simp_all add: stored_def end_offset_def)
    moreover have "4 * int (length st) + 4 * int (length ts) \<le> h_length R" using fit by simp
    ultimately show ?thesis by linarith
  qed
  have "read_u32s ?o (length st) (aa_bytes (sa_arena s')) = st"
    using assms(2) len unfolding s' o by (subst read_u32s_before) (simp_all add: stored_def)
  moreover have "read_u32s (?o + 4 * length st) (length ts) (aa_bytes (sa_arena s')) = ts"
    unfolding s' o by (rule read_u32s_written [OF t len])
  ultimately have "read_u32s ?o (length (st @ ts)) (aa_bytes (sa_arena s')) = st @ ts" by (simp add: read_u32s_append)
  moreover have "length (aa_bytes (sa_arena s')) = length ?buf" unfolding s' o using len by simp
  ultimately show "stored s' R (st @ ts)" using assms(2) fit by (simp add: stored_def)
qed

lemma new_tokens_stored:
  assumes "stored s R st" "0 \<le> cursor" "cursor \<le> int (length st)" "h_offset prefix = h_offset R"
    and "new_tokens s prefix cursor count = Inr ts" "cursor \<le> count" "count \<le> int (length st)"
  shows "take (nat cursor) st @ ts = take (nat count) st"
proof (cases "count > cursor")
  case True
  let ?buf = "aa_bytes (sa_arena s)" and ?o = "nat (h_offset R)" and ?n = "nat count - nat cursor" and ?m = "length st - nat count"
  have ts: "ts = read_u32s (nat (h_offset R + 4 * cursor)) (nat (count - cursor)) ?buf"
    using assms(4,5) True by (auto simp: new_tokens_def bind_r_eq_Inr mk_handle_Inr shared_read_tokens_def split: if_splits)
  have "nat (h_offset R + 4 * cursor) = ?o + 4 * nat cursor" using assms(1,2) by (simp add: stored_def nat_add_distrib nat_mult_distrib)
  moreover have "nat (count - cursor) = ?n" using assms(2) by simp
  ultimately have t: "ts = read_u32s (?o + 4 * nat cursor) ?n ?buf" using ts by simp
  have n: "nat cursor + ?n = nat count" using True assms(2) by simp
  have whole: "read_u32s ?o (nat cursor + ?n) ?buf = read_u32s ?o (nat cursor) ?buf @ ts" unfolding t by (rule read_u32s_append)
  have "st = read_u32s ?o (nat count + ?m) ?buf" using assms(1,7) by (simp add: stored_def nat_le_iff)
  also have "\<dots> = read_u32s ?o (nat count) ?buf @ read_u32s (?o + 4 * nat count) ?m ?buf" by (rule read_u32s_append)
  finally have st: "take (nat count) st = read_u32s ?o (nat count) ?buf"
    by (metis append_eq_conv_conj length_read_u32s)
  then have "take (nat count) st = read_u32s ?o (nat cursor) ?buf @ ts" using whole n by simp
  moreover from this have "take (nat cursor) (take (nat count) st) = read_u32s ?o (nat cursor) ?buf" by simp
  then have "take (nat cursor) st = read_u32s ?o (nat cursor) ?buf" using True by (simp add: min_absorb1)
  ultimately show ?thesis by simp
next
  case False
  then show ?thesis using assms(5,6) by (simp add: new_tokens_def)
qed

section \<open>Deliveries of one request\<close>

type_synonym delivery = "string \<times> int list \<times> lifecycle"

text \<open>What was delivered and what waits to be, in order.\<close>

definition all_deliveries :: "output_manager \<Rightarrow> delivery list" where
  "all_deliveries m = om_delivered m @ map snd (om_pending m)"

definition deliveries_of :: "output_manager \<Rightarrow> string \<Rightarrow> delivery list" where
  "deliveries_of m request_id = filter (\<lambda>d. fst d = request_id) (all_deliveries m)"

definition delivered_tokens :: "output_manager \<Rightarrow> string \<Rightarrow> int list" where
  "delivered_tokens m request_id = concat (map (\<lambda>d. fst (snd d)) (deliveries_of m request_id))"

definition record_at :: "output_manager \<Rightarrow> int \<Rightarrow> request_record option" where
  "record_at m slot = map_of (rg_records (om_registry m)) slot"

lemma map_record_sel [simp]:
  "map_of (rg_records (map_record f slot g)) = (map_of (rg_records g))(slot := map_option f (map_of (rg_records g) slot))"
  "rg_tokens (map_record f slot g) = rg_tokens g"
  by (auto simp: map_record_def update_conv' split: option.splits)

definition shape :: "request_record \<Rightarrow> string \<times> request_input \<times> draft_generation_config \<times> arena_handle \<times> lifecycle \<times> int" where
  "shape r = (rr_request_id r, rr_input r, rr_config r, rr_reservation r, rr_lifecycle r, rr_current_round r)"

lemma fold_deliver:
  "om_delivered (fold deliver ps m) = om_delivered m @ map snd ps \<and> om_pending (fold deliver ps m) = om_pending m
     \<and> rg_tokens (om_registry (fold deliver ps m)) = rg_tokens (om_registry m)
     \<and> map_option shape (record_at (fold deliver ps m) slot) = map_option shape (record_at m slot)"
proof (induction ps arbitrary: m)
  case (Cons p ps)
  obtain s i ts l where p: "p = (s, i, ts, l)" by (cases p)
  have "map_option shape (record_at (deliver p m) slot) = map_option shape (record_at m slot)"
    by (auto simp: p deliver_def record_at_def shape_def map_option_case split: option.splits)
  then show ?case using Cons.IH [of "deliver p m"] by (simp add: p deliver_def)
qed simp

lemma flush_facts:
  "all_deliveries (flush m) = all_deliveries m" "rg_tokens (om_registry (flush m)) = rg_tokens (om_registry m)"
  "map_option shape (record_at (flush m) slot) = map_option shape (record_at m slot)"
  using fold_deliver [of "om_pending m" m slot] by (simp_all add: flush_def all_deliveries_def record_at_def)

text \<open>The invariant: the request in \<open>slot\<close>, with the reservation \<open>R\<close>, got a prefix of the stream.\<close>

definition output_inv :: "int \<Rightarrow> string \<Rightarrow> arena_handle \<Rightarrow> int list \<Rightarrow> output_manager \<Rightarrow> bool" where
  "output_inv slot rid R st m \<longleftrightarrow> (\<exists>input config life round. map_option shape (record_at m slot) = Some (rid, input, config, R, life, round)
     \<and> 0 \<le> ri_output_count input \<and> ri_output_count input \<le> int (length st)
     \<and> delivered_tokens m rid = take (nat (ri_output_count input)) st
     \<and> list_all (\<lambda>d. snd (snd d) = ACTIVE) (butlast (deliveries_of m rid))
     \<and> (life = ACTIVE \<longrightarrow> list_all (\<lambda>d. snd (snd d) = ACTIVE) (deliveries_of m rid)))
   \<and> stored (rg_tokens (om_registry m)) R st
   \<and> (\<forall>s. s \<noteq> slot \<longrightarrow> map_option rr_request_id (record_at m s) \<noteq> Some rid)"

lemma shape_id: "map_option shape x = map_option shape y \<Longrightarrow> map_option rr_request_id x = map_option rr_request_id y"
  by (cases x; cases y) (auto simp: shape_def)

lemma output_inv_same:
  assumes "output_inv slot rid R st m" "all_deliveries m' = all_deliveries m" "rg_tokens (om_registry m') = rg_tokens (om_registry m)"
    and "\<And>s. map_option shape (record_at m' s) = map_option shape (record_at m s)"
  shows "output_inv slot rid R st m'"
proof -
  have "deliveries_of m' rid = deliveries_of m rid" using assms(2) by (simp add: deliveries_of_def)
  moreover have "map_option rr_request_id (record_at m' s) = map_option rr_request_id (record_at m s)" for s
    by (rule shape_id) (rule assms(4))
  ultimately show ?thesis using assms(1) by (simp add: output_inv_def delivered_tokens_def assms(3,4))
qed

text \<open>A row a Target published: its count and handle name a prefix of the stream, the row may be an old one.\<close>

definition names_prefix :: "block_snapshot \<Rightarrow> arena_handle \<Rightarrow> int list \<Rightarrow> bool" where
  "names_prefix row R st \<longleftrightarrow> (case (need_int row ''output_count'', need_handle row ''output_handle'') of
     (Inr n, Inr h) \<Rightarrow> n \<le> int (length st) \<and> h_offset h = h_offset R | _ \<Rightarrow> False)"

lemma consume_row_cases:
  assumes "consume_row m row now = Inr (res, m')"
  obtains (same) "m' = m" "res = None"
    | (round) r round_id where "record_at m (bs_row row) = Some r" "res = None"
        "m' = m\<lparr>om_registry := map_record (\<lambda>r. r\<lparr>rr_current_round := round_id\<rparr>) (bs_row row) (om_registry m)\<rparr>" "rr_lifecycle r \<noteq> ACTIVE"
    | (accept) r round_id count prefix accepted finished where "record_at m (bs_row row) = Some r" "ready_draft_row row"
        "need_int row ''output_count'' = Inr count" "need_handle row ''output_handle'' = Inr prefix"
        "new_tokens (rg_tokens (om_registry m)) prefix (ri_output_count (rr_input r)) count = Inr accepted"
        "ri_output_count (rr_input r) \<le> count" "rr_lifecycle r = ACTIVE"
        "m' = m\<lparr>om_registry := map_record (\<lambda>_. accept_output r round_id prefix count finished now) (bs_row row) (om_registry m),
           om_pending := om_pending m @ [(bs_row row, rr_request_id r, accepted, rr_lifecycle (accept_output r round_id prefix count finished now))]\<rparr>"
proof (cases "ready_draft_row row")
  case False
  then show ?thesis using assms same by (simp add: consume_row_def)
next
  case True
  then obtain r where r: "map_of (rg_records (om_registry m)) (bs_row row) = Some r"
    using assms by (auto simp: consume_row_def split: option.splits)
  then obtain round_id where k: "need_int row ''round_id'' = Inr round_id"
    using assms True by (auto simp: consume_row_def bind_r_eq_Inr)
  show ?thesis
  proof (cases "round_id \<le> rr_current_round r")
    case le: True
    then show ?thesis using assms True r k same by (auto simp: consume_row_def bind_r_eq_Inr)
  next
    case False
    then obtain count prefix accepted where f: "need_int row ''output_count'' = Inr count" "need_handle row ''output_handle'' = Inr prefix"
      "check_prefix r count prefix = Inr ()" "new_tokens (rg_tokens (om_registry m)) prefix (ri_output_count (rr_input r)) count = Inr accepted"
      using assms True r k by (auto simp: consume_row_def bind_r_eq_Inr)
    have c: "ri_output_count (rr_input r) \<le> count" using f(3) by (simp add: check_prefix_def not_less)
    show ?thesis
    proof (cases "rr_lifecycle r = ACTIVE")
      case inactive: False
      then show ?thesis using assms True r k f False round [of r round_id] by (auto simp: consume_row_def bind_r_eq_Inr record_at_def)
    next
      case active: True
      then show ?thesis using assms True r k f c False accept [of r count prefix accepted round_id "field_truthy row ''output_finished''"]
        by (auto simp: consume_row_def bind_r_eq_Inr record_at_def Let_def)
    qed
  qed
qed

lemma record_at_update [simp]:
  "record_at (m\<lparr>om_registry := map_record f slot (om_registry m)\<rparr>) s = (if s = slot then map_option f (record_at m slot) else record_at m s)"
  "record_at (m\<lparr>om_registry := g, om_pending := ps\<rparr>) s = map_of (rg_records g) s"
  by (simp_all add: record_at_def)

lemma consume_row_inv:
  assumes inv: "output_inv slot rid R st m" and c: "consume_row m row now = Inr (res, m')"
    and row: "bs_row row = slot \<Longrightarrow> ready_draft_row row \<Longrightarrow> names_prefix row R st"
  shows "output_inv slot rid R st m'"
proof -
  obtain input config life round where v: "map_option shape (record_at m slot) = Some (rid, input, config, R, life, round)"
    "0 \<le> ri_output_count input" "ri_output_count input \<le> int (length st)" "delivered_tokens m rid = take (nat (ri_output_count input)) st"
    "list_all (\<lambda>d. snd (snd d) = ACTIVE) (butlast (deliveries_of m rid))"
    "life = ACTIVE \<longrightarrow> list_all (\<lambda>d. snd (snd d) = ACTIVE) (deliveries_of m rid)"
    and st: "stored (rg_tokens (om_registry m)) R st" and ids: "\<And>s. s \<noteq> slot \<Longrightarrow> map_option rr_request_id (record_at m s) \<noteq> Some rid"
    using inv unfolding output_inv_def by blast
  from c show ?thesis
  proof (cases rule: consume_row_cases)
    case same
    then show ?thesis using inv by simp
  next
    case (round r round_id)
    have d: "deliveries_of m' rid = deliveries_of m rid" "delivered_tokens m' rid = delivered_tokens m rid"
      by (simp_all add: round(3) deliveries_of_def delivered_tokens_def all_deliveries_def)
    have "\<exists>round. map_option shape (record_at m' slot) = Some (rid, input, config, R, life, round)"
      using v(1) by (auto simp: round(3) shape_def)
    moreover have "map_option rr_request_id (record_at m' s) \<noteq> Some rid" if "s \<noteq> slot" for s
      using ids [OF that] ids [of "bs_row row"] that by (auto simp: round(3) option.map_comp comp_def)
    moreover have "rg_tokens (om_registry m') = rg_tokens (om_registry m)" by (simp add: round(3))
    ultimately show ?thesis using v st unfolding output_inv_def d by metis
  next
    case (accept r round_id count prefix accepted finished)
    let ?r' = "accept_output r round_id prefix count finished now"
    have rec: "record_at m' s = (if s = bs_row row then Some ?r' else record_at m s)" for s
      using accept(1) by (simp add: accept(8) record_at_def)
    have tok: "rg_tokens (om_registry m') = rg_tokens (om_registry m)" by (simp add: accept(8))
    have all: "all_deliveries m' = all_deliveries m @ [(rr_request_id r, accepted, rr_lifecycle ?r')]"
      by (simp add: accept(8) all_deliveries_def)
    have other: "map_option rr_request_id (record_at m' s) \<noteq> Some rid" if "s \<noteq> slot" for s
      using ids [OF that] accept(1) by (auto simp: rec accept_output_def)
    show ?thesis
    proof (cases "bs_row row = slot")
      case True
      then have r: "rr_request_id r = rid" "rr_input r = input" "rr_config r = config" "rr_reservation r = R" "rr_lifecycle r = life"
        using v(1) accept(1) by (auto simp: shape_def)
      have ns: "count \<le> int (length st)" "h_offset prefix = h_offset R"
        using row [OF True accept(2)] accept(3,4) by (auto simp: names_prefix_def)
      have acc: "take (nat (ri_output_count input)) st @ accepted = take (nat count) st"
        using new_tokens_stored [OF st v(2,3) ns(2)] accept(5,6) ns(1) by (simp add: r)
      have del: "deliveries_of m' rid = deliveries_of m rid @ [(rid, accepted, rr_lifecycle ?r')]"
        by (simp add: deliveries_of_def all r(1))
      have "delivered_tokens m' rid = delivered_tokens m rid @ accepted" by (simp add: delivered_tokens_def del)
      then have toks: "delivered_tokens m' rid = take (nat count) st" using acc v(4) by simp
      have act: "list_all (\<lambda>d. snd (snd d) = ACTIVE) (deliveries_of m rid)" using v(6) r(5) accept(7) by simp
      have "map_option shape (record_at m' slot) = Some (rid, rr_input ?r', config, R, rr_lifecycle ?r', round_id)"
        using True r by (simp add: rec shape_def accept_output_def)
      moreover have "ri_output_count (rr_input ?r') = count" by (simp add: accept_output_def)
      moreover have "0 \<le> count" using v(2) accept(6) r(2) by simp
      ultimately show ?thesis using toks act other st ns(1) by (auto simp: output_inv_def tok del)
    next
      case False
      then have "rr_request_id r \<noteq> rid" using ids [of "bs_row row"] accept(1) by auto
      then have d: "deliveries_of m' rid = deliveries_of m rid" by (simp add: deliveries_of_def all)
      have "record_at m' slot = record_at m slot" using False by (simp add: rec)
      then show ?thesis using v st other unfolding output_inv_def d tok delivered_tokens_def by auto
    qed
  qed
qed

lemma consume_inv:
  assumes "output_inv slot rid R st m" "\<forall>(row, now) \<in> set rows. bs_row row = slot \<and> ready_draft_row row \<longrightarrow> names_prefix row R st"
  shows "output_inv slot rid R st (snd (consume m rows))"
proof -
  have loop: "output_inv slot rid R st (snd (consume_loop m rows changed))" for changed
    using assms
  proof (induction m rows changed rule: consume_loop.induct)
    case (2 m row now rows changed)
    show ?case
    proof (cases "consume_row m row now")
      case (Inr p)
      obtain res m' where p: "p = (res, m')" by (cases p)
      have "output_inv slot rid R st m'" using consume_row_inv [OF 2(3), of row now res m'] Inr p 2(4) by auto
      then show ?thesis using 2 Inr p by (cases res) auto
    qed (use 2 in simp)
  qed simp
  obtain res m' where l: "consume_loop m rows [] = (res, m')" by fastforce
  have "output_inv slot rid R st (flush m')" if "output_inv slot rid R st m'"
    using that by (rule output_inv_same) (rule flush_facts)+
  then show ?thesis using loop [of "[]"] l by (auto simp: consume_def split: sum.splits)
qed

section \<open>Histories\<close>

definition with_tokens :: "shared_arena \<Rightarrow> output_manager \<Rightarrow> output_manager" where
  "with_tokens s m = m\<lparr>om_registry := (om_registry m)\<lparr>rg_tokens := s\<rparr>\<rparr>"

definition initial_request :: "int \<Rightarrow> string \<Rightarrow> arena_handle \<Rightarrow> output_manager \<Rightarrow> bool" where
  "initial_request slot rid R m \<longleftrightarrow> (case record_at m slot of None \<Rightarrow> False
     | Some r \<Rightarrow> rr_request_id r = rid \<and> rr_reservation r = R \<and> ri_output_count (rr_input r) = 0)
   \<and> deliveries_of m rid = [] \<and> stored (rg_tokens (om_registry m)) R []
   \<and> (\<forall>s. s \<noteq> slot \<longrightarrow> map_option rr_request_id (record_at m s) \<noteq> Some rid)"

text \<open>A run of the Engine and the Targets as one request sees it: a Target appends to the reserved range, the Engine
  consumes any published rows, old ones included, the client cancels some request, and other steps that leave the
  record, the range and the deliveries of the request alone.\<close>

inductive output_run :: "int \<Rightarrow> string \<Rightarrow> arena_handle \<Rightarrow> output_manager \<Rightarrow> int list \<Rightarrow> bool" for slot rid R where
  initial: "initial_request slot rid R m \<Longrightarrow> output_run slot rid R m []"
| append: "output_run slot rid R m st \<Longrightarrow> append_reserved (rg_tokens (om_registry m)) R (int (length st)) ts = Inr (h, s')
    \<Longrightarrow> output_run slot rid R (with_tokens s' m) (st @ ts)"
| consumed: "output_run slot rid R m st \<Longrightarrow> \<forall>(row, now) \<in> set rows. bs_row row = slot \<and> ready_draft_row row \<longrightarrow> names_prefix row R st
    \<Longrightarrow> output_run slot rid R (snd (consume m rows)) st"
| cancelled: "output_run slot rid R m st \<Longrightarrow> cancel (om_registry m) i = Inr g \<Longrightarrow> output_run slot rid R (m\<lparr>om_registry := g\<rparr>) st"
| other: "output_run slot rid R m st \<Longrightarrow> record_at m' slot = record_at m slot \<Longrightarrow> all_deliveries m' = all_deliveries m
    \<Longrightarrow> (stored (rg_tokens (om_registry m)) R st \<Longrightarrow> stored (rg_tokens (om_registry m')) R st)
    \<Longrightarrow> (\<And>s. s \<noteq> slot \<Longrightarrow> map_option rr_request_id (record_at m' s) \<noteq> Some rid) \<Longrightarrow> output_run slot rid R m' st"

lemma output_inv_append:
  assumes "output_inv slot rid R st m" "stored s' R (st @ ts)"
  shows "output_inv slot rid R (st @ ts) (with_tokens s' m)"
proof -
  have "record_at (with_tokens s' m) = record_at m" "deliveries_of (with_tokens s' m) = deliveries_of m" "rg_tokens (om_registry (with_tokens s' m)) = s'"
    by (auto simp: record_at_def deliveries_of_def all_deliveries_def with_tokens_def)
  then show ?thesis using assms unfolding output_inv_def delivered_tokens_def by fastforce
qed

lemma output_inv_cancel:
  assumes inv: "output_inv slot rid R st m" and c: "cancel (om_registry m) i = Inr g"
  shows "output_inv slot rid R st (m\<lparr>om_registry := g\<rparr>)"
proof -
  let ?m = "m\<lparr>om_registry := g\<rparr>"
  have d: "deliveries_of ?m = deliveries_of m" "delivered_tokens ?m = delivered_tokens m"
    by (auto simp: deliveries_of_def all_deliveries_def delivered_tokens_def)
  have tok: "rg_tokens g = rg_tokens (om_registry m)" using c by (auto simp: cancel_def split: option.splits if_splits)
  have "record_at ?m s = record_at m s \<or> record_at ?m s = map_option (rr_lifecycle_update (\<lambda>_. CANCELLED)) (record_at m s)"
    (is "?P s") for s
    using c by (auto simp: cancel_def record_at_def update_conv' split: option.splits if_splits)
  then have step: "?P s" for s .
  have rec: "map_option rr_request_id (record_at ?m s) = map_option rr_request_id (record_at m s)
      \<and> (map_option shape (record_at ?m s) = map_option shape (record_at m s)
         \<or> map_option shape (record_at ?m s) = map_option (\<lambda>(i, input, config, R, life, round). (i, input, config, R, CANCELLED, round))
             (map_option shape (record_at m s)))" for s
    using step [of s] by (cases "record_at m s") (elim disjE; simp add: shape_def)+
  obtain input config life round where v: "map_option shape (record_at m slot) = Some (rid, input, config, R, life, round)"
    using inv unfolding output_inv_def by blast
  have "map_option shape (record_at ?m slot) = Some (rid, input, config, R, life, round)
      \<or> map_option shape (record_at ?m slot) = Some (rid, input, config, R, CANCELLED, round)" using rec [of slot] v by auto
  moreover have "map_option rr_request_id (record_at ?m s) \<noteq> Some rid" if "s \<noteq> slot" for s
    using rec [of s] inv that by (auto simp: output_inv_def)
  ultimately show ?thesis using inv v unfolding output_inv_def d by (auto simp: tok)
qed

lemma output_run_inv: "output_run slot rid R m st \<Longrightarrow> output_inv slot rid R st m"
proof (induction rule: output_run.induct)
  case (initial m)
  then show ?case by (auto simp: initial_request_def output_inv_def delivered_tokens_def shape_def split: option.splits)
next
  case (append m st ts h s')
  then have "stored (rg_tokens (om_registry m)) R st" by (simp add: output_inv_def)
  then show ?case using append append_reserved_stored(1) output_inv_append by blast
next
  case (consumed m st rows)
  then show ?case using consume_inv by blast
next
  case (cancelled m st i g)
  then show ?case using output_inv_cancel by blast
next
  case (other m st m')
  then show ?case unfolding output_inv_def deliveries_of_def delivered_tokens_def by metis
qed

section \<open>Properties\<close>

text \<open>C7: in every run of the Engine and the Targets, whatever rows the Engine skips or reads late, the client has been given
  exactly the first tokens the Targets wrote for its request, as many as the request counts: in order, none lost,
  none twice, and none after the delivery that finished the request.\<close>

theorem output_delivered_once:
  assumes "output_run slot rid R m st"
  shows "\<exists>r. record_at m slot = Some r \<and> rr_request_id r = rid
     \<and> delivered_tokens m rid = take (nat (ri_output_count (rr_input r))) st \<and> ri_output_count (rr_input r) \<le> int (length st)
     \<and> list_all (\<lambda>d. snd (snd d) = ACTIVE) (butlast (deliveries_of m rid))"
proof -
  obtain input config life round where "map_option shape (record_at m slot) = Some (rid, input, config, R, life, round)"
    "ri_output_count input \<le> int (length st)" "delivered_tokens m rid = take (nat (ri_output_count input)) st"
    "list_all (\<lambda>d. snd (snd d) = ACTIVE) (butlast (deliveries_of m rid))"
    using output_run_inv [OF assms] unfolding output_inv_def by blast
  then show ?thesis by (auto simp: shape_def)
qed

text \<open>A result the Engine accepts is delivered completely.\<close>

lemma accepted_output_delivered:
  assumes "output_inv (bs_row row) rid R st m" "consume_row m row now = Inr (Some slot, m')" "names_prefix row R st"
  shows "\<exists>n. need_int row ''output_count'' = Inr n \<and> delivered_tokens m' rid = take (nat n) st"
proof -
  have inv: "output_inv (bs_row row) rid R st m'" using consume_row_inv [OF assms(1,2)] assms(3) by blast
  from assms(2) show ?thesis
  proof (cases rule: consume_row_cases)
    case (accept r round_id count prefix accepted finished)
    have "record_at m' (bs_row row) = Some (accept_output r round_id prefix count finished now)"
      using accept(1) by (simp add: accept(8) record_at_def)
    then have "ri_output_count (rr_input (the (record_at m' (bs_row row)))) = count" by (simp add: accept_output_def)
    then show ?thesis using inv accept(3) unfolding output_inv_def by (auto simp: shape_def)
  qed simp_all
qed

text \<open>A demonstration run: the Target writes one token, the Engine reads it, the Target writes the last one.\<close>

definition demo_manager :: output_manager where
  "demo_manager = \<lparr>om_registry = snd (admit demo_registry ''a'' [5, 6] demo_config 0), om_defer_delivery = False, om_pending = [], om_delivered = []\<rparr>"

definition demo_reservation :: arena_handle where
  "demo_reservation = \<lparr>h_offset = 8, h_length = 8, h_generation = 1\<rparr>"

definition target_writes :: "int list \<Rightarrow> int list \<Rightarrow> output_manager \<Rightarrow> output_manager" where
  "target_writes st ts m = (case append_reserved (rg_tokens (om_registry m)) demo_reservation (int (length st)) ts of
     Inl e \<Rightarrow> m | Inr (h, s) \<Rightarrow> with_tokens s m)"

definition demo_result :: "int \<Rightarrow> int \<Rightarrow> int \<Rightarrow> block_snapshot" where
  "demo_result round count finished = \<lparr>bs_kind = REQUEST_TARGET_COMPUTE, bs_row = 0, bs_publish_seq = round,
     bs_fields = [(''status'', VInt 2), (''request_epoch'', VInt 1), (''round_id'', VInt round), (''output_count'', VInt count),
       (''output_handle'', VHandle \<lparr>h_offset = 8, h_length = 4 * count, h_generation = 1\<rparr>), (''output_finished'', VInt finished)]\<rparr>"

definition demo_first :: output_manager where
  "demo_first = target_writes [] [7] demo_manager"

definition demo_second :: output_manager where
  "demo_second = snd (consume demo_first [(demo_result 0 1 0, 5)])"

definition demo_third :: output_manager where
  "demo_third = target_writes [7] [9] demo_second"

definition demo_last :: output_manager where
  "demo_last = snd (consume demo_third [(demo_result 1 2 1, 6)])"

lemma target_writes_run:
  assumes "output_run slot rid demo_reservation m st" "returns (append_reserved (rg_tokens (om_registry m)) demo_reservation (int (length st)) ts)"
  shows "output_run slot rid demo_reservation (target_writes st ts m) (st @ ts)"
  using assms(2) output_run.append [OF assms(1)] by (auto simp: target_writes_def)

theorem output_delivered_once_witness:
  "output_run 0 ''a'' demo_reservation demo_last [7, 9] \<and> (\<exists>r. record_at demo_last 0 = Some r \<and> ri_output_count (rr_input r) = 2
     \<and> rr_lifecycle r = FINISHED) \<and> delivered_tokens demo_last ''a'' = [7, 9]"
proof -
  have "map fst (rg_records (om_registry demo_manager)) = [0]" by code_simp
  then have keys: "map_of (rg_records (om_registry demo_manager)) s = None" if "s \<noteq> 0" for s
    using that by (simp add: map_of_eq_None_iff flip: set_map)
  have r: "case record_at demo_manager 0 of None \<Rightarrow> False
     | Some r \<Rightarrow> rr_request_id r = ''a'' \<and> rr_reservation r = demo_reservation \<and> ri_output_count (rr_input r) = 0" by code_simp
  have "deliveries_of demo_manager ''a'' = []" "stored (rg_tokens (om_registry demo_manager)) demo_reservation []" by (code_simp, code_simp)
  then have i: "output_run 0 ''a'' demo_reservation demo_manager []"
    using r keys by (intro output_run.initial) (simp add: initial_request_def record_at_def)
  have "returns (append_reserved (rg_tokens (om_registry demo_manager)) demo_reservation 0 [7])" unfolding returns_def by code_simp
  then have a: "output_run 0 ''a'' demo_reservation demo_first [7]" using target_writes_run [OF i, of "[7]"] by (simp add: demo_first_def)
  have "names_prefix (demo_result 0 1 0) demo_reservation [7]" by code_simp
  then have b: "output_run 0 ''a'' demo_reservation demo_second [7]" using output_run.consumed [OF a, of "[(demo_result 0 1 0, 5)]"]
    by (simp add: demo_second_def)
  have "returns (append_reserved (rg_tokens (om_registry demo_second)) demo_reservation 1 [9])" unfolding returns_def by code_simp
  then have c: "output_run 0 ''a'' demo_reservation demo_third [7, 9]" using target_writes_run [OF b, of "[9]"] by (simp add: demo_third_def)
  have "names_prefix (demo_result 1 2 1) demo_reservation [7, 9]" by code_simp
  then have d: "output_run 0 ''a'' demo_reservation demo_last [7, 9]" using output_run.consumed [OF c, of "[(demo_result 1 2 1, 6)]"]
    by (simp add: demo_last_def)
  have "case record_at demo_last 0 of None \<Rightarrow> False | Some r \<Rightarrow> ri_output_count (rr_input r) = 2 \<and> rr_lifecycle r = FINISHED" by code_simp
  then obtain r where r: "record_at demo_last 0 = Some r" "ri_output_count (rr_input r) = 2" "rr_lifecycle r = FINISHED"
    by (auto split: option.splits)
  then show ?thesis using output_delivered_once [OF d] d by simp
qed

end
