(* ===== verification/WorkLedger.thy ===== *)
theory WorkLedger
  imports TableStorage WorkWire Admission "HOL-Library.AList"
begin

text \<open>
  \<open>engine/work_ledger.py\<close>: the WORKs the Engine has sent and not seen retired, the authorization every result row is
  checked against, and the credit of each worker. Record objects are shared by three dictionaries, so they live in
  a store and the dictionaries hold their position. A row view is the dictionary of the rows the Engine has read;
  the fields it reads are integers by the layout of their blocks. The forecasts \<open>worker_free\<close> and \<open>copy_free\<close>
  compute in floating point and are left out.
\<close>

section \<open>State\<close>

record ledger_record =
  lr_work :: work
  lr_applied :: "int set"
  lr_completion :: "work_completion option"
  lr_compute_done :: bool
  lr_physical_done :: bool

type_synonym authorization = "nat \<times> row_work"
type_synonym work_key = "int \<times> int \<times> int"
type_synonym request_key = "bool \<times> int \<times> int"
type_synonym auth_index = "request_key \<times> int \<times> int"
type_synonym row_view = "block_kind \<times> int \<Rightarrow> block_snapshot option"

datatype schedule_event = ComputeDone | PhysicalDone | Credit

record work_ledger =
  wl_store :: "ledger_record list"
  wl_sequences :: "(int \<times> int) list"
  wl_records :: "(work_key \<times> nat) list"
  wl_request_index :: "(auth_index \<times> authorization) list"
  wl_by_request :: "(request_key \<times> ((int \<times> int) \<times> authorization) list) list"
  wl_by_worker :: "(int \<times> (int \<times> nat) list) list"
  wl_bank_epochs :: "((int \<times> int) \<times> int) list"
  wl_rows :: row_view
  wl_direct_imports :: bool
  wl_max_outstanding :: "(int \<times> int) list"
  wl_completed :: "work_completion list"
  wl_events :: "(schedule_event \<times> work) list"

definition new_ledger :: "worker_spec list \<Rightarrow> work_ledger" where
  "new_ledger specs =
     \<lparr>wl_store = [], wl_sequences = fold (\<lambda>w. AList.update (ws_worker_id w) 1) specs [], wl_records = [], wl_request_index = [],
      wl_by_request = [], wl_by_worker = fold (\<lambda>w. AList.update (ws_worker_id w) []) specs [],
      wl_bank_epochs = fold (\<lambda>w. AList.update (ws_worker_id w, 1) 0 \<circ> AList.update (ws_worker_id w, 0) 0) specs [],
      wl_rows = (\<lambda>_. None), wl_direct_imports = False, wl_max_outstanding = [], wl_completed = [], wl_events = []\<rparr>"

definition record_of :: "work_ledger \<Rightarrow> nat \<Rightarrow> ledger_record" where
  "record_of l i = wl_store l ! i"

definition map_record_at :: "(ledger_record \<Rightarrow> ledger_record) \<Rightarrow> nat \<Rightarrow> work_ledger \<Rightarrow> work_ledger" where
  "map_record_at f i l = l\<lparr>wl_store := (wl_store l)[i := f (record_of l i)]\<rparr>"

definition work_key_of :: "work \<Rightarrow> work_key" where
  "work_key_of w = (wk_worker_id w, wk_worker_generation w, wk_work_seq w)"

definition is_draft_work :: "work \<Rightarrow> bool" where
  "is_draft_work w = is_draft_kind (wk_operation w)"

definition index_of :: "bool \<Rightarrow> row_work \<Rightarrow> auth_index" where
  "index_of draft r = ((draft, rw_slot r, rw_epoch r), rw_round_id r, rw_run_seq r)"

definition view_value :: "block_snapshot option \<Rightarrow> string \<Rightarrow> field_value option" where
  "view_value row name = (case row of None \<Rightarrow> None | Some s \<Rightarrow> map_of (bs_fields s) name)"

definition view_int :: "int \<Rightarrow> block_snapshot option \<Rightarrow> string \<Rightarrow> int" where
  "view_int otherwise row name = (case view_value row name of Some (VInt x) \<Rightarrow> x | _ \<Rightarrow> otherwise)"

definition nested_put :: "'a \<Rightarrow> 'b \<Rightarrow> 'c \<Rightarrow> ('a \<times> ('b \<times> 'c) list) list \<Rightarrow> ('a \<times> ('b \<times> 'c) list) list" where
  "nested_put g k x m = AList.update g (AList.update k x (case map_of m g of None \<Rightarrow> [] | Some inner \<Rightarrow> inner)) m"

section \<open>Sending\<close>

definition add_authorization :: "auth_index \<Rightarrow> authorization \<Rightarrow> work_ledger \<Rightarrow> work_ledger" where
  "add_authorization ix c l = l\<lparr>wl_request_index := AList.update ix c (wl_request_index l),
     wl_by_request := nested_put (fst ix) (snd ix) c (wl_by_request l)\<rparr>"

fun authorize_rows :: "nat \<Rightarrow> bool \<Rightarrow> row_work list \<Rightarrow> work_ledger \<Rightarrow> unit result \<times> work_ledger" where
  "authorize_rows i draft [] l = (Inr (), l)"
| "authorize_rows i draft (r # rs) l =
     (if map_of (wl_request_index l) (index_of draft r) \<noteq> None then (Inl (ValueError ''duplicate request authorization''), l)
      else authorize_rows i draft rs (add_authorization (index_of draft r) (i, r) l))"

definition worker_works :: "work_ledger \<Rightarrow> int \<Rightarrow> nat list" where
  "worker_works l worker = (case map_of (wl_by_worker l) worker of None \<Rightarrow> [] | Some m \<Rightarrow> map snd m)"

definition register_work :: "nat \<Rightarrow> work \<Rightarrow> work_ledger \<Rightarrow> work_ledger" where
  "register_work i w l =
     (let by_worker = nested_put (wk_worker_id w) (wk_work_seq w) i (wl_by_worker l);
          n = int (length (the (map_of by_worker (wk_worker_id w))));
          most = (case map_of (wl_max_outstanding l) (wk_worker_id w) of None \<Rightarrow> 0 | Some x \<Rightarrow> x)
      in l\<lparr>wl_records := AList.update (work_key_of w) i (wl_records l), wl_by_worker := by_worker,
           wl_sequences := AList.update (wk_worker_id w) (wk_work_seq w + 1) (wl_sequences l),
           wl_bank_epochs := AList.update (wk_worker_id w, wk_bank_id w) (wk_bank_epoch w) (wl_bank_epochs l),
           wl_max_outstanding := AList.update (wk_worker_id w) (max n most) (wl_max_outstanding l)\<rparr>)"

definition new_record :: "work \<Rightarrow> ledger_record" where
  "new_record w = \<lparr>lr_work = w, lr_applied = {}, lr_completion = None, lr_compute_done = False, lr_physical_done = False\<rparr>"

definition ledger_sent :: "work_ledger \<Rightarrow> work \<Rightarrow> unit result \<times> work_ledger" where
  "ledger_sent l w =
     (if map_of (wl_records l) (work_key_of w) \<noteq> None then (Inl (ValueError ''duplicate WORK identity''), l)
      else let i = length (wl_store l) in
        case authorize_rows i (is_draft_work w) (wk_rows w) (l\<lparr>wl_store := wl_store l @ [new_record w]\<rparr>) of
          (Inl e, l') \<Rightarrow> (Inl e, l')
        | (Inr u, l') \<Rightarrow> (Inr (), register_work i w l'))"

section \<open>Completions\<close>

definition schedule_changes :: "nat \<Rightarrow> bool \<Rightarrow> bool \<Rightarrow> work_ledger \<Rightarrow> work_ledger" where
  "schedule_changes i compute physical l =
     (let r = record_of l i in
      l\<lparr>wl_events := wl_events l @ (if \<not> compute \<and> lr_compute_done r then [(ComputeDone, lr_work r)] else [])
          @ (if \<not> physical \<and> lr_physical_done r then [(PhysicalDone, lr_work r)] else [])\<rparr>)"

definition completion_matches :: "work \<Rightarrow> work_completion \<Rightarrow> unit result" where
  "completion_matches w c =
     checks [require (wc_worker_generation c = wk_worker_generation w \<and> wc_work_seq c = wk_work_seq w \<and> wc_bank_id c = wk_bank_id w
               \<and> wc_bank_epoch c = wk_bank_epoch w) (ValueError ''completion identity mismatch''),
             require (map (\<lambda>m. (mc_slot m, mc_epoch m, mc_round_id m)) (wc_members c)
               = map (\<lambda>r. (rw_slot r, rw_epoch r, rw_round_id r)) (wk_rows w)) (ValueError ''completion members mismatch'')]"

definition observe_record :: "completion_arena \<Rightarrow> nat \<Rightarrow> work_ledger \<Rightarrow> (bool \<times> work_ledger) result" where
  "observe_record arena i l =
     (let r = record_of l i in
      if lr_completion r \<noteq> None then Inr (False, l)
      else bind_r (read_completion arena (wk_completion_offset (lr_work r))) (\<lambda>found.
        case found of
          None \<Rightarrow> Inr (False, l)
        | Some c \<Rightarrow> bind_r (completion_matches (lr_work r) c) (\<lambda>_.
            Inr (True, schedule_changes i (lr_compute_done r) (lr_physical_done r)
              (map_record_at (\<lambda>r. r\<lparr>lr_completion := Some c, lr_compute_done := True, lr_physical_done := True\<rparr>) i l)))))"

fun observe_loop :: "completion_arena \<Rightarrow> nat list \<Rightarrow> bool \<Rightarrow> work_ledger \<Rightarrow> bool result \<times> work_ledger" where
  "observe_loop arena [] changed l = (Inr changed, l)"
| "observe_loop arena (i # is) changed l =
     (case observe_record arena i l of
        Inl e \<Rightarrow> (Inl e, l)
      | Inr (c, l') \<Rightarrow> observe_loop arena is (c \<or> changed) l')"

definition observe_completions :: "work_ledger \<Rightarrow> completion_arena \<Rightarrow> bool result \<times> work_ledger" where
  "observe_completions l arena = observe_loop arena (map snd (wl_records l)) False l"

section \<open>Results\<close>

text \<open>The verdict on a row: accept it, discard it, or accept it as the result of an authorization.\<close>

datatype verdict = Accept | Discard | Authorized authorization

definition authorization_for ::
  "work_ledger \<Rightarrow> bool \<Rightarrow> int \<Rightarrow> field_value option \<Rightarrow> field_value option \<Rightarrow> field_value option \<Rightarrow> authorization option" where
  "authorization_for l draft slot epoch round_id run =
     (case (epoch, round_id, run) of
        (Some (VInt e), Some (VInt r), Some (VInt n)) \<Rightarrow> map_of (wl_request_index l) ((draft, slot, e), r, n)
      | _ \<Rightarrow> None)"

definition row_shows :: "block_snapshot option \<Rightarrow> (string \<times> int) list \<Rightarrow> bool" where
  "row_shows row expected \<longleftrightarrow> list_all (\<lambda>(name, x). view_value row name = Some (VInt x)) expected"

definition validate_result :: "work_ledger \<Rightarrow> bool \<Rightarrow> block_snapshot \<Rightarrow> authorization \<Rightarrow> unit result" where
  "validate_result l draft row c =
     (let w = lr_work (record_of l (fst c)); s = Some row in
      checks
       [require (row_shows s [(if draft then ''worker_id'' else ''target_id'', wk_worker_id w),
            (if draft then ''worker_generation'' else ''target_generation'', wk_worker_generation w),
            (''bank_id'', wk_bank_id w), (''bank_epoch'', wk_bank_epoch w)]) (ValueError ''result WORK fence mismatch''),
        require (row_shows s [(''result_code'', 0)]) (ValueError ''failed WORK result''),
        require (draft \<longrightarrow> view_value s ''batch_seq'' = Some (VInt (wk_work_seq w))
            \<and> view_value s ''owner_epoch'' = map_option VInt (rw_owner_epoch (snd c))) (ValueError ''Draft result ownership fence mismatch'')])"

datatype copy_side = Exported | Imported

fun copy_kind :: "block_kind \<Rightarrow> (bool \<times> copy_side) option" where
  "copy_kind REQUEST_H2D = Some (False, Imported)"
| "copy_kind REQUEST_D2H = Some (False, Exported)"
| "copy_kind REQUEST_DRAFT_H2D = Some (True, Imported)"
| "copy_kind REQUEST_DRAFT_D2H = Some (True, Exported)"
| "copy_kind _ = None"

text \<open>The names of the fields of a copy row: round, run, worker, generation, bank and bank epoch.\<close>

fun copy_fields :: "bool \<Rightarrow> copy_side \<Rightarrow> string list" where
  "copy_fields True Imported = [''next_round_id'', ''observed_prepare_seq'', ''destination_worker_id'', ''destination_worker_generation'',
     ''destination_bank_id'', ''destination_bank_epoch'']"
| "copy_fields True Exported = [''snapshot_round_id'', ''source_op_seq'', ''source_worker_id'', ''source_worker_generation'',
     ''source_bank_id'', ''source_bank_epoch'']"
| "copy_fields False Imported = [''round_id'', ''observed_prepare_seq'', ''target_id'', ''target_generation'',
     ''destination_bank_id'', ''destination_bank_epoch'']"
| "copy_fields False Exported = [''round_id'', ''d2h_op_seq'', ''target_id'', ''target_generation'', ''source_bank_id'', ''source_bank_epoch'']"

definition work_place :: "work \<Rightarrow> field_value option list" where
  "work_place w = map (Some \<circ> VInt) [wk_worker_id w, wk_worker_generation w, wk_bank_id w, wk_bank_epoch w]"

definition result_place :: "bool \<Rightarrow> block_snapshot option \<Rightarrow> field_value option list" where
  "result_place draft result = map (view_value result)
     [if draft then ''worker_id'' else ''target_id'', if draft then ''worker_generation'' else ''target_generation'', ''bank_id'', ''bank_epoch'']"

definition check_copy :: "bool \<Rightarrow> copy_side \<Rightarrow> block_snapshot \<Rightarrow> block_snapshot option \<Rightarrow> bool \<Rightarrow> field_value option list \<Rightarrow> unit result" where
  "check_copy draft side row result same_round place =
     checks
      [require (map (view_value (Some row)) (drop 2 (copy_fields draft side)) = place) (ValueError ''copy WORK fence mismatch''),
       require (side = Exported \<and> same_round \<longrightarrow>
           view_value (Some row) ''ready_version'' = view_value result (if draft then ''snapshot_version'' else ''target_kv_version''))
         (ValueError ''HostKV/result ticket mismatch''),
       require (row_shows (Some row) [(''result_code'', 0)]) (ValueError ''failed copy fact'')]"

definition validate_copy :: "work_ledger \<Rightarrow> block_snapshot \<Rightarrow> verdict result" where
  "validate_copy l row =
     (case copy_kind (bs_kind row) of
        None \<Rightarrow> Inr Accept
      | Some (draft, side) \<Rightarrow>
          if view_value (Some row) ''status'' \<noteq> Some (VInt (if side = Imported then 3 else 2)) then Inr Accept
          else
            let epoch = view_value (Some row) ''request_epoch''; round_id = view_value (Some row) (copy_fields draft side ! 0);
                run = view_value (Some row) (copy_fields draft side ! 1);
                result = wl_rows l (if draft then REQUEST_DRAFT else REQUEST_TARGET_COMPUTE, bs_row row);
                same_round = (view_value result ''request_epoch'' = epoch \<and> view_value result ''round_id'' = round_id)
            in case authorization_for l draft (bs_row row) epoch round_id run of
                 None \<Rightarrow> if \<not> same_round then Inr Discard
                   else bind_r (check_copy draft side row result same_round (result_place draft result)) (\<lambda>_. Inr Accept)
               | Some c \<Rightarrow>
                   bind_r (require (case rw_source (snd c) of None \<Rightarrow> True
                       | Some source \<Rightarrow> side = Imported \<longrightarrow> view_value (Some row) ''gpu_ready_version'' = Some (VInt (td_expected_ticket source)))
                     (ValueError ''copy dependency ticket mismatch'')) (\<lambda>_.
                   bind_r (check_copy draft side row result same_round (work_place (lr_work (record_of l (fst c))))) (\<lambda>_. Inr Accept)))"

definition validate_fact :: "work_ledger \<Rightarrow> block_snapshot \<Rightarrow> verdict result" where
  "validate_fact l row =
     (if bs_kind row \<notin> {REQUEST_DRAFT, REQUEST_TARGET_COMPUTE} then validate_copy l row
      else if view_value (Some row) ''status'' \<noteq> Some (VInt 2) then Inr Accept
      else let draft = (bs_kind row = REQUEST_DRAFT) in
        case authorization_for l draft (bs_row row) (view_value (Some row) ''request_epoch'') (view_value (Some row) ''round_id'')
            (view_value (Some row) (if draft then ''observed_issue_seq'' else ''observed_run_seq'')) of
          None \<Rightarrow> Inl (ValueError ''result has no WORK authorization'')
        | Some c \<Rightarrow> bind_r (validate_result l draft row c) (\<lambda>_. Inr (Authorized c)))"

definition mark_applied :: "int \<Rightarrow> nat \<Rightarrow> work_ledger \<Rightarrow> work_ledger" where
  "mark_applied slot i l = map_record_at (\<lambda>r. r\<lparr>lr_applied := insert slot (lr_applied r)\<rparr>) i l"

definition superseded :: "int \<Rightarrow> ((int \<times> int) \<times> authorization) list \<Rightarrow> nat list" where
  "superseded round_id members = map (fst \<circ> snd) (filter (\<lambda>((r, n), c). r \<le> round_id) members)"

definition result_applied :: "work_ledger \<Rightarrow> authorization \<Rightarrow> block_snapshot option \<Rightarrow> unit result \<times> work_ledger" where
  "result_applied l c previous =
     (let member = snd c; slot = rw_slot member; l' = mark_applied slot (fst c) l; draft = is_draft_work (lr_work (record_of l (fst c)))
      in if rw_round_id member > view_int (if draft then 0 else - 1) previous ''round_id'' + 1
         then case map_of (wl_by_request l') (draft, slot, rw_epoch member) of
             None \<Rightarrow> (Inl (KeyError ''by_request''), l')
           | Some members \<Rightarrow> (Inr (), fold (mark_applied slot) (superseded (rw_round_id member) members) l')
         else (Inr (), l'))"

section \<open>Retiring\<close>

definition compute_ended :: "row_view \<Rightarrow> work \<Rightarrow> bool" where
  "compute_ended rows w \<longleftrightarrow>
     (let draft = is_draft_work w;
          bank = rows (if draft then WORKER_DRAFT_BANK else WORKER_BANK, wk_worker_id w * 2 + wk_bank_id w);
          epoch = view_int (- 1) bank ''bank_epoch'';
          runtime = rows (if draft then WORKER_DRAFT_RUNTIME else WORKER_TARGET_COMPUTE_RUNTIME, wk_worker_id w)
      in (row_shows runtime [(if draft then ''current_batch_seq'' else ''compute_batch_seq'', wk_work_seq w), (''compute_status'', 0)]
            \<and> view_int 0 runtime ''compute_start_time_ns'' \<noteq> 0)
         \<or> epoch > wk_bank_epoch w \<or> (epoch = wk_bank_epoch w \<and> (row_shows bank [(''state'', 0)] \<or> row_shows bank [(''state'', 1)])))"

definition result_pending :: "ledger_record \<Rightarrow> work_completion \<Rightarrow> bool" where
  "result_pending r c \<longleftrightarrow> list_ex (\<lambda>m. mc_outcome m = EXECUTED \<and> mc_slot m \<notin> lr_applied r) (wc_members c)"

fun revoke_rows :: "bool \<Rightarrow> row_work list \<Rightarrow> work_ledger \<Rightarrow> unit result \<times> work_ledger" where
  "revoke_rows draft [] l = (Inr (), l)"
| "revoke_rows draft (r # rs) l =
     (let ix = index_of draft r; l1 = l\<lparr>wl_request_index := AList.delete ix (wl_request_index l)\<rparr> in
      if map_of (wl_request_index l) ix = None then (Inl (KeyError ''request_index''), l)
      else case map_of (wl_by_request l) (fst ix) of
          None \<Rightarrow> (Inl (KeyError ''by_request''), l1)
        | Some members \<Rightarrow>
            if map_of members (snd ix) = None then (Inl (KeyError ''members''), l1)
            else let rest = AList.delete (snd ix) members in
              revoke_rows draft rs (l1\<lparr>wl_by_request := (if rest = [] then AList.delete (fst ix) (wl_by_request l)
                 else AList.update (fst ix) rest (wl_by_request l))\<rparr>))"

definition retire :: "work_key \<Rightarrow> ledger_record \<Rightarrow> work_completion \<Rightarrow> work_ledger \<Rightarrow> unit result \<times> work_ledger" where
  "retire key r c l =
     (let w = lr_work r in
      case revoke_rows (is_draft_work w) (wk_rows w) l of
        (Inl e, l') \<Rightarrow> (Inl e, l')
      | (Inr u, l') \<Rightarrow>
          let l'' = l'\<lparr>wl_completed := wl_completed l' @ [c], wl_records := AList.delete key (wl_records l')\<rparr> in
          case map_of (wl_by_worker l'') (wk_worker_id w) of
            None \<Rightarrow> (Inl (KeyError ''by_worker''), l'')
          | Some works \<Rightarrow>
              if map_of works (wk_work_seq w) = None then (Inl (KeyError ''work_seq''), l'')
              else (Inr (), l''\<lparr>wl_by_worker := AList.update (wk_worker_id w) (AList.delete (wk_work_seq w) works) (wl_by_worker l''),
                                 wl_events := wl_events l'' @ [(Credit, w)]\<rparr>))"

definition refresh_compute :: "nat \<Rightarrow> work_ledger \<Rightarrow> work_ledger" where
  "refresh_compute i l =
     (let r = record_of l i in
      schedule_changes i (lr_compute_done r) (lr_physical_done r)
        (map_record_at (\<lambda>r. r\<lparr>lr_compute_done := (lr_compute_done r \<or> compute_ended (wl_rows l) (lr_work r))\<rparr>) i l))"

definition refresh_record :: "work_key \<Rightarrow> work_ledger \<Rightarrow> bool result \<times> work_ledger" where
  "refresh_record key l =
     (case map_of (wl_records l) key of
        None \<Rightarrow> (Inr False, l)
      | Some i \<Rightarrow>
          let l' = refresh_compute i l; changed = (lr_compute_done (record_of l' i) \<noteq> lr_compute_done (record_of l i)); r = record_of l' i in
          case lr_completion r of
            None \<Rightarrow> (Inr changed, l')
          | Some c \<Rightarrow>
              if result_pending r c then (Inr changed, l')
              else case retire key r c l' of (Inl e, l'') \<Rightarrow> (Inl e, l'') | (Inr u, l'') \<Rightarrow> (Inr True, l''))"

fun refresh_loop :: "work_key list \<Rightarrow> bool \<Rightarrow> work_ledger \<Rightarrow> bool result \<times> work_ledger" where
  "refresh_loop [] changed l = (Inr changed, l)"
| "refresh_loop (key # keys) changed l =
     (case refresh_record key l of
        (Inl e, l') \<Rightarrow> (Inl e, l')
      | (Inr c, l') \<Rightarrow> refresh_loop keys (changed \<or> c) l')"

definition refresh :: "work_ledger \<Rightarrow> row_view \<Rightarrow> bool result \<times> work_ledger" where
  "refresh l rows = refresh_loop (map fst (wl_records l)) False (l\<lparr>wl_rows := rows\<rparr>)"

section \<open>Capacity\<close>

definition reserved_works :: "work_ledger \<Rightarrow> int \<Rightarrow> int \<Rightarrow> ledger_record list" where
  "reserved_works l worker bank = filter (\<lambda>r. wk_bank_id (lr_work r) = bank \<and> \<not> lr_physical_done r)
     (map (record_of l) (worker_works l worker))"

definition bank_open :: "bool \<Rightarrow> ledger_record list \<Rightarrow> block_snapshot option \<Rightarrow> bool" where
  "bank_open pending owners bank \<longleftrightarrow>
     (if pending then (case owners of [r] \<Rightarrow> lr_compute_done r | _ \<Rightarrow> False) else owners = [] \<and> row_shows bank [(''state'', 0)])"

definition bank_rows_left :: "work_ledger \<Rightarrow> worker_spec \<Rightarrow> int \<Rightarrow> int" where
  "bank_rows_left l worker bank =
     (let others = map (\<lambda>r. int (length (wk_rows (lr_work r)))) (reserved_works l (ws_worker_id worker) (1 - bank));
          used = foldr max others 0
      in min (ws_max_batch_size worker) (ws_bank_rows worker - used))"

definition offered_bank :: "work_ledger \<Rightarrow> worker_spec \<Rightarrow> int \<Rightarrow> block_snapshot option \<Rightarrow> (string \<times> field_value) list result" where
  "offered_bank l worker bank row =
     (case row of
        None \<Rightarrow> Inl (TypeError ''no bank row'')
      | Some s \<Rightarrow>
          (case map_of (wl_bank_epochs l) (ws_worker_id worker, bank) of
             None \<Rightarrow> Inl (KeyError ''bank_epochs'')
           | Some sent_epoch \<Rightarrow>
               (case view_value row ''bank_epoch'' of
                  Some (VInt e) \<Rightarrow> Inr (AList.update ''bank_epoch'' (VInt (max e sent_epoch)) (bs_fields s))
                | _ \<Rightarrow> Inl (TypeError ''bank_epoch''))))"

fun find_bank :: "work_ledger \<Rightarrow> row_view \<Rightarrow> worker_spec \<Rightarrow> (bool \<times> int) list \<Rightarrow> ((string \<times> field_value) list \<times> int) option result" where
  "find_bank l view worker [] = Inr None"
| "find_bank l view worker ((pending, bank) # places) =
     (let row = view (if ws_role worker = DRAFT then WORKER_DRAFT_BANK else WORKER_BANK, ws_worker_id worker * 2 + bank);
          rows = bank_rows_left l worker bank
      in if \<not> bank_open pending (reserved_works l (ws_worker_id worker) bank) row \<or> rows \<le> 0 then find_bank l view worker places
         else bind_r (offered_bank l worker bank row) (\<lambda>vs. Inr (Some (vs, rows))))"

definition capacity :: "work_ledger \<Rightarrow> row_view \<Rightarrow> worker_spec \<Rightarrow> ((string \<times> field_value) list \<times> int) option result" where
  "capacity l view worker =
     (if length (worker_works l (ws_worker_id worker)) \<ge> 4 then Inr None
      else find_bank l view worker ([(False, 0), (False, 1)] @ (if wl_direct_imports l then [(True, 0), (True, 1)] else [])))"

end
