(* ===== verification/LedgerFacts.thy ===== *)
theory LedgerFacts
  imports WorkLedger
begin

text \<open>
  What the WORK ledger guarantees. Its nested dictionaries are views of a flat list of authorizations (and of the
  outstanding WORKs), kept in the order of sending, so every lookup a retirement makes succeeds.
\<close>

section \<open>Nested dictionaries\<close>

definition outer :: "('a \<times> ('b \<times> 'c) list) list \<Rightarrow> 'a \<Rightarrow> ('b \<times> 'c) list" where
  "outer m g = (case map_of m g of None \<Rightarrow> [] | Some inner \<Rightarrow> inner)"

definition group :: "'a \<Rightarrow> (('a \<times> 'b) \<times> 'c) list \<Rightarrow> ('b \<times> 'c) list" where
  "group g flat = map (\<lambda>(ix, c). (snd ix, c)) (filter (\<lambda>(ix, c). fst ix = g) flat)"

definition nests :: "('a \<times> ('b \<times> 'c) list) list \<Rightarrow> (('a \<times> 'b) \<times> 'c) list \<Rightarrow> bool" where
  "nests m flat \<longleftrightarrow> (\<forall>g. outer m g = group g flat)"

lemma update_fresh: "k \<notin> fst ` set xs \<Longrightarrow> AList.update k v xs = xs @ [(k, v)]"
  by (induction xs) auto

lemma delete_filter: "AList.delete k xs = filter (\<lambda>kv. fst kv \<noteq> k) xs"
  by (induction xs) auto

lemma outer_update: "outer (AList.update g v m) g' = (if g' = g then v else outer m g')"
  by (simp add: outer_def update_conv')

lemma outer_delete: "outer (AList.delete g m) g' = (if g' = g then [] else outer m g')"
  by (simp add: outer_def delete_conv')

lemma group_append: "group g (xs @ [(ix, c)]) = group g xs @ (if fst ix = g then [(snd ix, c)] else [])"
  by (simp add: group_def)

lemma group_fresh: "ix \<notin> fst ` set xs \<Longrightarrow> snd ix \<notin> fst ` set (group (fst ix) xs)"
  by (force simp: group_def)

lemma group_delete: "group g (AList.delete ix xs) = (if g = fst ix then AList.delete (snd ix) (group g xs) else group g xs)"
  unfolding delete_filter group_def by (induction xs) auto

lemma group_member: "map_of (group g xs) k \<noteq> None \<longleftrightarrow> (g, k) \<in> fst ` set xs"
  unfolding map_of_eq_None_iff group_def by force

lemma nests_put:
  assumes "nests m flat" "ix \<notin> fst ` set flat"
  shows "nests (nested_put (fst ix) (snd ix) c m) (flat @ [(ix, c)])"
proof -
  have "nested_put (fst ix) (snd ix) c m = AList.update (fst ix) (AList.update (snd ix) c (outer m (fst ix))) m"
    by (simp add: nested_put_def outer_def)
  also have "AList.update (snd ix) c (outer m (fst ix)) = group (fst ix) (flat @ [(ix, c)])"
    using assms update_fresh [OF group_fresh [OF assms(2)]] by (simp add: nests_def group_append)
  finally show ?thesis using assms(1) by (simp add: nests_def outer_update group_append)
qed

lemma nests_get:
  assumes "nests m flat" "ix \<in> fst ` set flat"
  shows "\<exists>inner. map_of m (fst ix) = Some inner \<and> inner = group (fst ix) flat \<and> map_of inner (snd ix) \<noteq> None"
proof -
  have member: "map_of (group (fst ix) flat) (snd ix) \<noteq> None" using assms(2) unfolding group_member by simp
  have "outer m (fst ix) = group (fst ix) flat" using assms(1) by (simp add: nests_def)
  then show ?thesis
  proof (cases "map_of m (fst ix)")
    case None
    then show ?thesis using member \<open>outer m (fst ix) = _\<close> by (metis map_of.simps(1) option.case(1) outer_def)
  next
    case (Some inner)
    then have "inner = group (fst ix) flat" using \<open>outer m (fst ix) = _\<close> by (metis option.case(2) outer_def)
    then show ?thesis using Some member by blast
  qed
qed

lemma nests_delete:
  assumes "nests m flat" "rest = AList.delete (snd ix) (group (fst ix) flat)"
  shows "nests (AList.update (fst ix) rest m) (AList.delete ix flat)"
    and "rest = [] \<Longrightarrow> nests (AList.delete (fst ix) m) (AList.delete ix flat)"
  using assms by (auto simp: nests_def outer_update outer_delete group_delete)

section \<open>Authorizations\<close>

definition entries :: "work_ledger \<Rightarrow> nat \<Rightarrow> (auth_index \<times> authorization) list" where
  "entries l i = map (\<lambda>r. (index_of (is_draft_work (lr_work (record_of l i))) r, (i, r))) (wk_rows (lr_work (record_of l i)))"

definition outstanding :: "work_ledger \<Rightarrow> nat list" where
  "outstanding l = map snd (wl_records l)"

definition seq_key :: "work_key \<Rightarrow> int \<times> int" where
  "seq_key k = (fst k, snd (snd k))"

definition worker_flat :: "(work_key \<times> nat) list \<Rightarrow> ((int \<times> int) \<times> nat) list" where
  "worker_flat rs = map (\<lambda>ki. (seq_key (fst ki), snd ki)) rs"

definition index_ok :: "work_ledger \<Rightarrow> bool" where
  "index_ok l \<longleftrightarrow> distinct (map fst (wl_request_index l)) \<and> nests (wl_by_request l) (wl_request_index l)"

definition ledger_inv :: "work_ledger \<Rightarrow> bool" where
  "ledger_inv l \<longleftrightarrow> index_ok l \<and> wl_request_index l = concat (map (entries l) (outstanding l))
     \<and> list_all (\<lambda>(k, i). i < length (wl_store l) \<and> k = work_key_of (lr_work (record_of l i))) (wl_records l)
     \<and> distinct (outstanding l) \<and> distinct (map fst (worker_flat (wl_records l)))
     \<and> nests (wl_by_worker l) (worker_flat (wl_records l))
     \<and> list_all (\<lambda>((w, g, s), i). \<exists>n. map_of (wl_sequences l) w = Some n \<and> s < n) (wl_records l)"

lemma authorize_rows_ok:
  assumes "index_ok l" "authorize_rows i draft rs l = (Inr u, l')"
  shows "index_ok l' \<and> wl_request_index l' = wl_request_index l @ map (\<lambda>r. (index_of draft r, (i, r))) rs
    \<and> (\<exists>m. l' = l\<lparr>wl_request_index := wl_request_index l', wl_by_request := m\<rparr>)"
  using assms
proof (induction rs arbitrary: l)
  case Nil
  then have "l' = l" by simp
  moreover have "l = l\<lparr>wl_request_index := wl_request_index l, wl_by_request := wl_by_request l\<rparr>" by simp
  ultimately show ?case using Nil(1) by (metis append_Nil2 list.simps(8))
next
  case (Cons r rs)
  let ?ix = "index_of draft r" and ?l = "add_authorization (index_of draft r) (i, r) l"
  have fresh: "?ix \<notin> fst ` set (wl_request_index l)" and rest: "authorize_rows i draft rs ?l = (Inr u, l')"
    using Cons.prems(2) by (auto simp: map_of_eq_None_iff split: if_splits)
  have idx: "wl_request_index ?l = wl_request_index l @ [(?ix, (i, r))]"
    using update_fresh [OF fresh] by (simp add: add_authorization_def)
  have "nests (wl_by_request ?l) (wl_request_index ?l)"
    using nests_put [OF _ fresh, of "wl_by_request l"] Cons.prems(1) unfolding idx by (simp add: index_ok_def add_authorization_def)
  moreover have "distinct (map fst (wl_request_index ?l))" using Cons.prems(1) fresh unfolding idx by (simp add: index_ok_def)
  ultimately have "index_ok ?l" by (simp add: index_ok_def)
  from Cons.IH [OF this rest] show ?case using idx by (auto simp: add_authorization_def)
qed

lemma revoke_rows_ok:
  assumes "index_ok l" "set (map (index_of draft) rs) \<subseteq> fst ` set (wl_request_index l)" "distinct (map (index_of draft) rs)"
  shows "\<exists>l'. revoke_rows draft rs l = (Inr (), l') \<and> index_ok l'
    \<and> wl_request_index l' = filter (\<lambda>e. fst e \<notin> set (map (index_of draft) rs)) (wl_request_index l)
    \<and> (\<exists>m. l' = l\<lparr>wl_request_index := wl_request_index l', wl_by_request := m\<rparr>)"
  using assms
proof (induction rs arbitrary: l)
  case Nil
  have "l = l\<lparr>wl_request_index := wl_request_index l, wl_by_request := wl_by_request l\<rparr>" by simp
  then have "\<exists>m. l = l\<lparr>wl_request_index := wl_request_index l, wl_by_request := m\<rparr>" by metis
  then show ?case using Nil(1) by simp
next
  case (Cons r rs)
  let ?ix = "index_of draft r"
  let ?flat = "wl_request_index l"
  have ix: "?ix \<in> fst ` set ?flat" using Cons.prems(2) by auto
  have nests: "nests (wl_by_request l) ?flat" and dist: "distinct (map fst ?flat)" using Cons.prems(1) by (simp_all add: index_ok_def)
  obtain inner where inner: "map_of (wl_by_request l) (fst ?ix) = Some inner" "inner = group (fst ?ix) ?flat" "map_of inner (snd ?ix) \<noteq> None"
    using nests_get [OF nests ix] by blast
  define rest where "rest = AList.delete (snd ?ix) inner"
  define m where "m = (if rest = [] then AList.delete (fst ?ix) (wl_by_request l) else AList.update (fst ?ix) rest (wl_by_request l))"
  let ?l = "l\<lparr>wl_request_index := AList.delete ?ix ?flat, wl_by_request := m\<rparr>"
  have step: "revoke_rows draft (r # rs) l = revoke_rows draft rs ?l"
    using ix inner by (simp add: Let_def map_of_eq_None_iff rest_def m_def)
  have "nests m (AList.delete ?ix ?flat)" using nests_delete [OF nests, of rest ?ix] by (simp add: m_def rest_def inner(2))
  moreover have "distinct (map fst (AList.delete ?ix ?flat))" using dist by (simp add: delete_filter distinct_map_filter)
  ultimately have ok: "index_ok ?l" by (simp add: index_ok_def)
  have sub: "set (map (index_of draft) rs) \<subseteq> fst ` set (wl_request_index ?l)"
    using Cons.prems(2,3) by (force simp: delete_filter)
  have dist_rs: "distinct (map (index_of draft) rs)" using Cons.prems(3) by simp
  obtain l' where l': "revoke_rows draft rs ?l = (Inr (), l')" "index_ok l'"
    "wl_request_index l' = filter (\<lambda>e. fst e \<notin> set (map (index_of draft) rs)) (wl_request_index ?l)"
    "\<exists>m. l' = ?l\<lparr>wl_request_index := wl_request_index l', wl_by_request := m\<rparr>"
    using Cons.IH [OF ok sub dist_rs] by blast
  have "wl_request_index l' = filter (\<lambda>e. fst e \<notin> set (map (index_of draft) (r # rs))) ?flat"
    using l'(3) by (simp add: delete_filter conj_commute)
  moreover have "\<exists>m. l' = l\<lparr>wl_request_index := wl_request_index l', wl_by_request := m\<rparr>" using l'(4) by auto
  ultimately show ?case using l'(1,2) step by metis
qed

section \<open>The invariant\<close>

text \<open>The part of the state the invariant looks at.\<close>

definition shape :: "work_ledger \<Rightarrow> _" where
  "shape l = (map lr_work (wl_store l), wl_records l, wl_request_index l, wl_by_request l, wl_by_worker l, wl_sequences l)"

lemma work_at: "map lr_work (wl_store l') = map lr_work (wl_store l) \<Longrightarrow> i < length (wl_store l) \<Longrightarrow> lr_work (record_of l' i) = lr_work (record_of l i)"
  unfolding record_of_def by (metis length_map nth_map)

lemma entries_at: "lr_work (record_of l' i) = lr_work (record_of l i) \<Longrightarrow> entries l' i = entries l i"
  by (simp add: entries_def)

lemma outstanding_bound: "ledger_inv l \<Longrightarrow> i \<in> set (outstanding l) \<Longrightarrow> i < length (wl_store l)"
  by (fastforce simp: ledger_inv_def outstanding_def list_all_iff)

lemma shape_inv:
  assumes "ledger_inv l" "shape l' = shape l"
  shows "ledger_inv l'"
proof -
  have eqs: "map lr_work (wl_store l') = map lr_work (wl_store l)" "wl_records l' = wl_records l" "wl_request_index l' = wl_request_index l"
    "wl_by_request l' = wl_by_request l" "wl_by_worker l' = wl_by_worker l" "wl_sequences l' = wl_sequences l"
    using assms(2) by (simp_all add: shape_def)
  have len: "length (wl_store l') = length (wl_store l)" using eqs(1) by (metis length_map)
  have works: "lr_work (record_of l' i) = lr_work (record_of l i)" if "i < length (wl_store l)" for i using work_at [OF eqs(1) that] .
  have outs: "outstanding l' = outstanding l" by (simp add: outstanding_def eqs)
  have "concat (map (entries l') (outstanding l)) = concat (map (entries l) (outstanding l))"
    using works outstanding_bound [OF assms(1)] entries_at by (metis (no_types, lifting) map_cong)
  moreover have "list_all (\<lambda>(k, i). i < length (wl_store l) \<and> k = work_key_of (lr_work (record_of l' i))) (wl_records l)"
    using assms(1) works by (auto simp: ledger_inv_def list_all_iff)
  ultimately show ?thesis using assms(1) unfolding ledger_inv_def index_ok_def outs eqs len by (elim conjE) simp
qed

lemma distinct_entries:
  assumes "distinct (map fst (concat (map f is)))" "i \<in> set is"
  shows "distinct (map fst (f i))" and "j \<in> set is \<Longrightarrow> j \<noteq> i \<Longrightarrow> fst ` set (f j) \<inter> fst ` set (f i) = {}"
  using assms by (induction "is") auto

lemma remove_entries:
  assumes "distinct (map fst (concat (map f is)))" "i \<in> set is"
  shows "filter (\<lambda>e. fst e \<notin> fst ` set (f i)) (concat (map f is)) = concat (map f (filter (\<lambda>j. j \<noteq> i) is))"
proof -
  have "filter (\<lambda>e. fst e \<notin> fst ` set (f i)) (f j) = (if j = i then [] else f j)" if "j \<in> set is" for j
  proof (cases "j = i")
    case True
    then show ?thesis by (simp add: filter_False)
  next
    case False
    have "fst ` set (f j) \<inter> fst ` set (f i) = {}" using distinct_entries(2) [OF assms that False] .
    then have "\<forall>e \<in> set (f j). fst e \<notin> fst ` set (f i)" by blast
    then show ?thesis using False by simp
  qed
  then have "filter (\<lambda>e. fst e \<notin> fst ` set (f i)) (concat (map f is)) = concat (map (\<lambda>j. if j = i then [] else f j) is)"
    by (simp add: filter_concat cong: map_cong)
  also have "\<dots> = concat (map f (filter (\<lambda>j. j \<noteq> i) is))" by (induction "is") auto
  finally show ?thesis .
qed

lemma entries_keys: "fst ` set (entries l i) = set (map (index_of (is_draft_work (lr_work (record_of l i)))) (wk_rows (lr_work (record_of l i))))"
  by (simp add: entries_def image_image)

lemma worker_flat_keys: "map fst (worker_flat rs) = map seq_key (map fst rs)"
  by (simp add: worker_flat_def)

lemma worker_flat_delete:
  assumes "distinct (map fst (worker_flat rs))" "k \<in> fst ` set rs"
  shows "worker_flat (AList.delete k rs) = AList.delete (seq_key k) (worker_flat rs)"
proof -
  have inj: "inj_on seq_key (set (map fst rs))" using assms(1) unfolding worker_flat_keys distinct_map [of _ "map fst rs"] by blast
  have "fst ki \<noteq> k \<longleftrightarrow> seq_key (fst ki) \<noteq> seq_key k" if "ki \<in> set rs" for ki
    using inj_onD [OF inj, of "fst ki" k] assms(2) that by auto
  then have "filter (\<lambda>ki. fst ki \<noteq> k) rs = filter (\<lambda>ki. seq_key (fst ki) \<noteq> seq_key k) rs" by (intro filter_cong) simp_all
  then show ?thesis by (simp add: delete_filter worker_flat_def filter_map comp_def)
qed

section \<open>The operations\<close>

lemma nested_put_keys: "map_of (nested_put g k x m) g \<noteq> None"
  by (simp add: nested_put_def update_conv')

lemma sent_inv:
  assumes "ledger_inv l" "ledger_sent l w = (Inr u, l')" "map_of (wl_sequences l) (wk_worker_id w) = Some (wk_work_seq w)"
  shows "ledger_inv l' \<and> wl_store l' = wl_store l @ [new_record w] \<and> outstanding l' = outstanding l @ [length (wl_store l)]
    \<and> wl_completed l' = wl_completed l \<and> wl_sequences l' = AList.update (wk_worker_id w) (wk_work_seq w + 1) (wl_sequences l)"
proof -
  let ?i = "length (wl_store l)" and ?l1 = "l\<lparr>wl_store := wl_store l @ [new_record w]\<rparr>" and ?d = "is_draft_work w"
  have inv: "index_ok l" "wl_request_index l = concat (map (entries l) (outstanding l))" "distinct (outstanding l)"
    "list_all (\<lambda>(k, i). i < ?i \<and> k = work_key_of (lr_work (record_of l i))) (wl_records l)"
    "distinct (map fst (worker_flat (wl_records l)))" "nests (wl_by_worker l) (worker_flat (wl_records l))"
    "list_all (\<lambda>((w, g, s), i). \<exists>n. map_of (wl_sequences l) w = Some n \<and> s < n) (wl_records l)"
    using assms(1) by (simp_all only: ledger_inv_def)
  obtain l2 where new: "map_of (wl_records l) (work_key_of w) = None" and auth: "authorize_rows ?i ?d (wk_rows w) ?l1 = (Inr (), l2)"
    and l': "l' = register_work ?i w l2"
    using assms(2) by (auto simp: ledger_sent_def Let_def split: if_splits prod.splits sum.splits)
  have "index_ok ?l1" using inv(1) by (simp add: index_ok_def)
  note a = authorize_rows_ok [OF this auth]
  obtain m where l2: "l2 = ?l1\<lparr>wl_request_index := wl_request_index l2, wl_by_request := m\<rparr>" using a by blast
  have keep: "wl_store l2 = wl_store l @ [new_record w]" "wl_records l2 = wl_records l" "wl_by_worker l2 = wl_by_worker l"
    "wl_sequences l2 = wl_sequences l" "wl_completed l2 = wl_completed l"
    by (subst l2, simp)+
  have fresh_key: "work_key_of w \<notin> fst ` set (wl_records l)" using new by (simp add: map_of_eq_None_iff)
  have recs: "wl_records l' = wl_records l @ [(work_key_of w, ?i)]"
    using update_fresh [OF fresh_key] by (simp add: l' register_work_def Let_def keep)
  have rest: "wl_store l' = wl_store l @ [new_record w]" "wl_request_index l' = wl_request_index l2" "wl_by_request l' = wl_by_request l2"
    "wl_by_worker l' = nested_put (wk_worker_id w) (wk_work_seq w) ?i (wl_by_worker l)"
    "wl_sequences l' = AList.update (wk_worker_id w) (wk_work_seq w + 1) (wl_sequences l)" "wl_completed l' = wl_completed l"
    by (simp_all add: l' register_work_def Let_def keep)
  have outs: "outstanding l' = outstanding l @ [?i]" by (simp add: outstanding_def recs)
  have old: "record_of l' i = record_of l i" if "i < ?i" for i using that by (simp add: record_of_def rest(1) nth_append)
  have mine: "record_of l' ?i = new_record w" by (simp add: record_of_def rest(1))
  have bound: "i < ?i" if "i \<in> set (outstanding l)" for i using outstanding_bound [OF assms(1) that] .
  have "concat (map (entries l') (outstanding l)) = wl_request_index l"
    unfolding inv(2) by (intro arg_cong [where f = concat] map_cong refl entries_at) (simp add: old bound)
  then have idx: "wl_request_index l' = concat (map (entries l') (outstanding l'))"
    using a by (simp add: rest(2) outs) (simp add: entries_def mine new_record_def)
  have ok: "index_ok l'" using a unfolding index_ok_def rest(2,3) by blast
  have key: "work_key_of w = (wk_worker_id w, wk_worker_generation w, wk_work_seq w)" by (simp add: work_key_of_def)
  have flat: "worker_flat (wl_records l') = worker_flat (wl_records l) @ [((wk_worker_id w, wk_work_seq w), ?i)]"
    by (simp add: worker_flat_def seq_key_def recs key)
  have fresh: "(wk_worker_id w, wk_work_seq w) \<notin> fst ` set (worker_flat (wl_records l))"
    using inv(7) assms(3) by (fastforce simp: worker_flat_def seq_key_def list_all_iff)
  have nests: "nests (wl_by_worker l') (worker_flat (wl_records l'))"
    using nests_put [OF inv(6) fresh, of ?i] by (simp add: flat rest(4))
  have seqs: "list_all (\<lambda>((w, g, s), i). \<exists>n. map_of (wl_sequences l') w = Some n \<and> s < n) (wl_records l')"
  proof -
    have "list_all (\<lambda>((v, g, s), i). \<exists>n. map_of (wl_sequences l') v = Some n \<and> s < n) (wl_records l)"
      unfolding rest(5) update_conv' using inv(7) assms(3) by (fastforce simp: list_all_iff)
    then show ?thesis by (simp add: recs key) (simp add: rest(5) update_conv')
  qed
  have "list_all (\<lambda>(k, i). i < length (wl_store l') \<and> k = work_key_of (lr_work (record_of l' i))) (wl_records l')"
    using inv(4) old by (auto simp: recs list_all_iff rest(1) mine new_record_def)
  moreover have "distinct (outstanding l')" using inv(3) bound by (auto simp: outs)
  moreover have "distinct (map fst (worker_flat (wl_records l')))" using inv(5) fresh by (simp add: flat)
  ultimately show ?thesis using ok idx nests seqs outs rest(1,5,6) unfolding ledger_inv_def by blast
qed

lemma records_keys:
  assumes "ledger_inv l" "(key, i) \<in> set (wl_records l)"
  shows "key = work_key_of (lr_work (record_of l i))" "i < length (wl_store l)" "map_of (wl_records l) key = Some i"
    and "AList.delete key (wl_records l) = filter (\<lambda>ki. snd ki \<noteq> i) (wl_records l)"
proof -
  have inv: "list_all (\<lambda>(k, i). i < length (wl_store l) \<and> k = work_key_of (lr_work (record_of l i))) (wl_records l)"
    "distinct (map snd (wl_records l))" "distinct (map seq_key (map fst (wl_records l)))"
    using assms(1) by (simp_all only: ledger_inv_def outstanding_def worker_flat_keys)
  show "key = work_key_of (lr_work (record_of l i))" "i < length (wl_store l)" using inv(1) assms(2) by (auto simp: list_all_iff)
  have keys: "distinct (map fst (wl_records l))" using inv(3) distinct_map [of seq_key "map fst (wl_records l)"] by blast
  then show "map_of (wl_records l) key = Some i" using assms(2) by simp
  have "fst ki \<noteq> key \<longleftrightarrow> snd ki \<noteq> i" if "ki \<in> set (wl_records l)" for ki
    using keys inv(2) assms(2) that by (metis distinct_map fst_conv inj_onD snd_conv)
  then show "AList.delete key (wl_records l) = filter (\<lambda>ki. snd ki \<noteq> i) (wl_records l)"
    unfolding delete_filter by (intro filter_cong) simp_all
qed

lemma retire_ok:
  assumes "ledger_inv l" "(key, i) \<in> set (wl_records l)"
  shows "\<exists>l'. retire key (record_of l i) c l = (Inr (), l') \<and> ledger_inv l' \<and> outstanding l' = filter (\<lambda>j. j \<noteq> i) (outstanding l)
    \<and> wl_completed l' = wl_completed l @ [c] \<and> wl_store l' = wl_store l \<and> wl_sequences l' = wl_sequences l"
proof -
  let ?w = "lr_work (record_of l i)" and ?outs = "outstanding l"
  let ?ixs = "map (index_of (is_draft_work ?w)) (wk_rows ?w)"
  have inv: "index_ok l" "wl_request_index l = concat (map (entries l) ?outs)" "distinct ?outs"
    "list_all (\<lambda>(k, i). i < length (wl_store l) \<and> k = work_key_of (lr_work (record_of l i))) (wl_records l)"
    "distinct (map fst (worker_flat (wl_records l)))" "nests (wl_by_worker l) (worker_flat (wl_records l))"
    "list_all (\<lambda>((w, g, s), i). \<exists>n. map_of (wl_sequences l) w = Some n \<and> s < n) (wl_records l)"
    using assms(1) by (simp_all only: ledger_inv_def)
  note rk = records_keys [OF assms]
  have i: "i \<in> set ?outs" using assms(2) by (force simp: outstanding_def)
  have dist: "distinct (map fst (concat (map (entries l) ?outs)))" using inv(1) unfolding index_ok_def inv(2) by blast
  have keys: "set ?ixs = fst ` set (entries l i)" by (simp add: entries_keys)
  have "set ?ixs \<subseteq> fst ` set (wl_request_index l)" unfolding keys inv(2) using i by force
  moreover have "distinct ?ixs" using distinct_entries(1) [OF dist i] by (simp add: entries_def comp_def)
  ultimately obtain l1 m where l1: "revoke_rows (is_draft_work ?w) (wk_rows ?w) l = (Inr (), l1)" "index_ok l1"
    "wl_request_index l1 = filter (\<lambda>e. fst e \<notin> set ?ixs) (wl_request_index l)"
    "l1 = l\<lparr>wl_request_index := wl_request_index l1, wl_by_request := m\<rparr>"
    using revoke_rows_ok [OF inv(1), of "is_draft_work ?w" "wk_rows ?w"] by blast
  have keep: "wl_records l1 = wl_records l" "wl_store l1 = wl_store l" "wl_by_worker l1 = wl_by_worker l" "wl_sequences l1 = wl_sequences l"
    "wl_completed l1 = wl_completed l" "wl_events l1 = wl_events l"
    by (subst l1(4), simp)+
  have sk: "seq_key key = (wk_worker_id ?w, wk_work_seq ?w)" by (simp add: rk(1) seq_key_def work_key_of_def)
  have "seq_key key \<in> fst ` set (worker_flat (wl_records l))" using assms(2) by (force simp: worker_flat_def)
  from nests_get [OF inv(6) this]
  obtain works where works: "map_of (wl_by_worker l) (wk_worker_id ?w) = Some works" "map_of works (wk_work_seq ?w) \<noteq> None"
    "works = group (wk_worker_id ?w) (worker_flat (wl_records l))"
    unfolding sk fst_conv snd_conv by blast
  define l' where "l' = l1\<lparr>wl_completed := wl_completed l @ [c], wl_records := AList.delete key (wl_records l),
      wl_by_worker := AList.update (wk_worker_id ?w) (AList.delete (wk_work_seq ?w) works) (wl_by_worker l),
      wl_events := wl_events l @ [(Credit, ?w)]\<rparr>"
  have ret: "retire key (record_of l i) c l = (Inr (), l')" using l1(1) works(1,2) by (auto simp: retire_def Let_def l'_def keep)
  have fields: "wl_store l' = wl_store l" "wl_completed l' = wl_completed l @ [c]" "wl_sequences l' = wl_sequences l"
    "wl_request_index l' = wl_request_index l1" "wl_by_request l' = wl_by_request l1"
    "wl_records l' = filter (\<lambda>ki. snd ki \<noteq> i) (wl_records l)"
    "wl_by_worker l' = AList.update (wk_worker_id ?w) (AList.delete (wk_work_seq ?w) works) (wl_by_worker l)"
    by (simp_all add: l'_def keep rk(4))
  have recs: "record_of l' j = record_of l j" for j by (simp add: record_of_def fields)
  have outs: "outstanding l' = filter (\<lambda>j. j \<noteq> i) ?outs" by (simp add: outstanding_def fields(6) filter_map comp_def)
  have ents: "entries l' = entries l" by (rule ext) (rule entries_at, rule arg_cong [OF recs])
  have "wl_request_index l' = filter (\<lambda>e. fst e \<notin> fst ` set (entries l i)) (wl_request_index l)"
    by (simp only: fields(4) l1(3) keys)
  also have "\<dots> = concat (map (entries l) (filter (\<lambda>j. j \<noteq> i) ?outs))"
    by (simp only: inv(2) remove_entries [OF dist i])
  finally have "wl_request_index l' = concat (map (entries l') (outstanding l'))" by (simp only: outs ents)
  moreover have "index_ok l'" using l1(2) unfolding index_ok_def fields(4,5) .
  moreover have flat: "worker_flat (wl_records l') = AList.delete (seq_key key) (worker_flat (wl_records l))"
    unfolding fields(6) rk(4) [symmetric] by (rule worker_flat_delete [OF inv(5)]) (use assms(2) in force)
  moreover have "nests (wl_by_worker l') (worker_flat (wl_records l'))"
    using nests_delete(1) [OF inv(6), of "AList.delete (wk_work_seq ?w) works" "seq_key key"]
    by (simp add: sk fields(7) works(3) flat)
  moreover have "distinct (map fst (worker_flat (wl_records l')))"
    unfolding flat using inv(5) by (simp add: delete_filter distinct_map_filter)
  moreover have "list_all (\<lambda>(k, i). i < length (wl_store l') \<and> k = work_key_of (lr_work (record_of l' i))) (wl_records l')"
    "list_all (\<lambda>((w, g, s), i). \<exists>n. map_of (wl_sequences l') w = Some n \<and> s < n) (wl_records l')"
    using inv(4,7) unfolding fields(1,3,6) recs list_all_iff by simp_all
  moreover have "distinct (outstanding l')" using inv(3) by (simp add: outs)
  ultimately have "ledger_inv l'" unfolding ledger_inv_def by blast
  then show ?thesis using ret outs fields(1,2,3) by blast
qed

end
