(* ===== verification/LedgerSafety.thy ===== *)
theory LedgerSafety
  imports LedgerFacts "HOL-Library.Multiset"
begin

text \<open>
  Histories of the WORK ledger: the Engine sends WORKs with the next sequence of their worker, observes completions,
  applies the results it has validated and refreshes from the rows it has read. Every WORK retires once, after its
  own completion and the results of its members; its authorizations live exactly as long as it is outstanding.
\<close>

section \<open>Records only grow\<close>

definition grows :: "ledger_record \<Rightarrow> ledger_record \<Rightarrow> bool" where
  "grows r r' \<longleftrightarrow> lr_work r' = lr_work r \<and> lr_applied r \<subseteq> lr_applied r' \<and> (lr_completion r \<noteq> None \<longrightarrow> lr_completion r' = lr_completion r)"

definition evolves :: "work_ledger \<Rightarrow> work_ledger \<Rightarrow> bool" where
  "evolves l l' \<longleftrightarrow> shape l' = shape l \<and> wl_completed l' = wl_completed l \<and> (\<forall>i < length (wl_store l). grows (record_of l i) (record_of l' i))"

lemma evolves_same: "shape l' = shape l \<Longrightarrow> wl_completed l' = wl_completed l \<Longrightarrow> wl_store l' = wl_store l \<Longrightarrow> evolves l l'"
  by (simp add: evolves_def grows_def record_of_def)

lemma shape_length: "shape l' = shape l \<Longrightarrow> length (wl_store l') = length (wl_store l)"
  unfolding shape_def by (metis length_map prod.inject)

lemma shape_outstanding: "shape l' = shape l \<Longrightarrow> outstanding l' = outstanding l"
  by (simp add: shape_def outstanding_def)

lemma evolves_trans: "evolves l l' \<Longrightarrow> evolves l' l'' \<Longrightarrow> evolves l l''"
  using shape_length [of l' l] unfolding evolves_def grows_def by (metis subset_trans)

lemma record_at_map: "i < length (wl_store l) \<Longrightarrow> record_of (map_record_at f j l) i = (if i = j then f (record_of l i) else record_of l i)"
  by (simp add: map_record_at_def record_of_def nth_list_update)

lemma evolves_map_record:
  assumes "\<And>r. lr_work (f r) = lr_work r" "grows (record_of l j) (f (record_of l j))"
  shows "evolves l (map_record_at f j l)"
proof -
  have "map lr_work ((wl_store l)[j := f (record_of l j)]) = map lr_work (wl_store l)"
  proof (cases "j < length (wl_store l)")
    case True
    then have "(map lr_work (wl_store l))[j := lr_work (record_of l j)] = map lr_work (wl_store l)"
      by (metis list_update_id nth_map record_of_def)
    then show ?thesis by (simp add: map_update assms(1))
  qed (simp add: list_update_beyond)
  then have "shape (map_record_at f j l) = shape l" by (simp add: shape_def map_record_at_def)
  then show ?thesis using assms(2) record_at_map [of _ l f j] by (simp add: evolves_def grows_def) (simp add: map_record_at_def)
qed

lemma evolves_schedule: "evolves l (schedule_changes i c p l)"
  by (rule evolves_same) (simp_all add: schedule_changes_def shape_def Let_def)

lemma record_schedule [simp]: "record_of (schedule_changes i c p l) j = record_of l j"
  by (simp add: schedule_changes_def record_of_def Let_def)

section \<open>What a record may claim\<close>

text \<open>A result for the request of slot \<open>slot\<close> in WORK \<open>i\<close> has been applied, of the same round or a later one.\<close>

definition answered :: "work list \<Rightarrow> authorization list \<Rightarrow> nat \<Rightarrow> int \<Rightarrow> bool" where
  "answered ws log i slot \<longleftrightarrow> (\<exists>row \<in> set (wk_rows (ws ! i)). rw_slot row = slot \<and> (\<exists>(j, m) \<in> set log.
     is_draft_work (ws ! j) = is_draft_work (ws ! i) \<and> rw_slot m = slot \<and> rw_epoch m = rw_epoch row \<and> rw_round_id row \<le> rw_round_id m))"

definition record_good :: "work list \<Rightarrow> authorization list \<Rightarrow> nat \<Rightarrow> ledger_record \<Rightarrow> bool" where
  "record_good ws log i r \<longleftrightarrow> (\<forall>c. lr_completion r = Some c \<longrightarrow> completion_matches (lr_work r) c = Inr ())
     \<and> (\<forall>slot \<in> lr_applied r. answered ws log i slot)"

definition retired :: "work_ledger \<Rightarrow> nat list" where
  "retired l = filter (\<lambda>i. i \<notin> set (outstanding l)) [0..<length (wl_store l)]"

definition finished_record :: "ledger_record \<Rightarrow> bool" where
  "finished_record r \<longleftrightarrow> (case lr_completion r of None \<Rightarrow> False | Some c \<Rightarrow> \<not> result_pending r c)"

definition completion_of :: "work_ledger \<Rightarrow> nat \<Rightarrow> work_completion" where
  "completion_of l i = the (lr_completion (record_of l i))"

definition history_inv :: "work_ledger \<Rightarrow> work list \<Rightarrow> authorization list \<Rightarrow> bool" where
  "history_inv l ws log \<longleftrightarrow> ledger_inv l \<and> map lr_work (wl_store l) = ws
     \<and> (\<forall>i < length (wl_store l). record_good ws log i (record_of l i))
     \<and> list_all (\<lambda>i. finished_record (record_of l i)) (retired l)
     \<and> mset (wl_completed l) = mset (map (completion_of l) (retired l))
     \<and> list_all (\<lambda>c. fst c < length ws) log
     \<and> distinct (map (\<lambda>w. (wk_worker_id w, wk_work_seq w)) ws)
     \<and> list_all (\<lambda>w. \<exists>n. map_of (wl_sequences l) (wk_worker_id w) = Some n \<and> wk_work_seq w < n) ws"

lemma answered_more: "answered ws log i slot \<Longrightarrow> set log \<subseteq> set log' \<Longrightarrow> answered ws log' i slot"
  unfolding answered_def by blast

lemma grows_finished: "grows r r' \<Longrightarrow> finished_record r \<Longrightarrow> finished_record r' \<and> lr_completion r' = lr_completion r"
  by (auto simp: grows_def finished_record_def result_pending_def list_ex_iff split: option.splits)

lemma evolves_history:
  assumes "history_inv l ws log" "evolves l l'" "list_all (\<lambda>c. fst c < length ws) log'" "\<And>i. i < length (wl_store l) \<Longrightarrow> record_good ws log' i (record_of l' i)"
  shows "history_inv l' ws log'"
proof -
  have sh: "shape l' = shape l" and comp: "wl_completed l' = wl_completed l" using assms(2) by (simp_all add: evolves_def)
  have len: "length (wl_store l') = length (wl_store l)" by (rule shape_length [OF sh])
  have ret: "retired l' = retired l" by (simp add: retired_def shape_outstanding [OF sh] len)
  have fin: "finished_record (record_of l' i) \<and> lr_completion (record_of l' i) = lr_completion (record_of l i)" if "i \<in> set (retired l)" for i
  proof -
    have "i < length (wl_store l)" using that by (simp add: retired_def)
    then show ?thesis using grows_finished [of "record_of l i" "record_of l' i"] assms(1,2) that
      by (simp add: evolves_def history_inv_def list_all_iff)
  qed
  have "map (completion_of l') (retired l) = map (completion_of l) (retired l)" using fin by (simp add: completion_of_def)
  moreover have "map lr_work (wl_store l') = map lr_work (wl_store l)" "wl_sequences l' = wl_sequences l" using sh by (simp_all add: shape_def)
  moreover have "ledger_inv l'" using shape_inv [OF _ sh] assms(1) by (simp add: history_inv_def)
  ultimately show ?thesis using assms(1,3,4) fin unfolding history_inv_def ret comp len list_all_iff by metis
qed

lemma history_records: "history_inv l ws log \<Longrightarrow> i < length (wl_store l) \<Longrightarrow> record_good ws log i (record_of l i)"
  by (simp add: history_inv_def)

lemma history_works:
  assumes "history_inv l ws log"
  shows "length ws = length (wl_store l)" and "i < length ws \<Longrightarrow> lr_work (record_of l i) = ws ! i"
  using assms by (auto simp: history_inv_def record_of_def)

lemma history_outstanding: "history_inv l ws log \<Longrightarrow> i \<in> set (outstanding l) \<Longrightarrow> i < length (wl_store l)"
  by (simp add: history_inv_def outstanding_bound)

lemma history_logged: "history_inv l ws log \<Longrightarrow> list_all (\<lambda>c. fst c < length ws) log"
  by (simp add: history_inv_def)

section \<open>Completions and results\<close>

lemma observe_record_history:
  assumes "history_inv l ws log" "observe_record arena i l = Inr (b, l')"
  shows "history_inv l' ws log \<and> length (wl_store l') = length (wl_store l)"
proof (cases "l' = l")
  case True
  then show ?thesis using assms(1) by simp
next
  case False
  let ?f = "\<lambda>c r. r\<lparr>lr_completion := Some c, lr_compute_done := True, lr_physical_done := True\<rparr>"
  obtain c where c: "lr_completion (record_of l i) = None" "completion_matches (lr_work (record_of l i)) c = Inr ()"
    and l': "l' = schedule_changes i (lr_compute_done (record_of l i)) (lr_physical_done (record_of l i)) (map_record_at (?f c) i l)"
    using assms(2) False by (auto simp: observe_record_def Let_def bind_r_eq_Inr split: if_splits option.splits)
  have "evolves l (map_record_at (?f c) i l)" by (rule evolves_map_record) (simp_all add: grows_def c(1))
  then have ev: "evolves l l'" unfolding l' by (rule evolves_trans) (rule evolves_schedule)
  have "record_good ws log j (record_of l' j)" if "j < length (wl_store l)" for j
    using history_records [OF assms(1) that] c(2) that by (cases "j = i") (simp_all add: l' record_at_map record_good_def)
  from evolves_history [OF assms(1) ev history_logged [OF assms(1)] this] show ?thesis
    using ev shape_length [of l' l] by (simp add: evolves_def)
qed

lemma observe_history:
  assumes "history_inv l ws log" "observe_loop arena is changed l = (out, l')"
  shows "history_inv l' ws log"
  using assms
proof (induction "is" arbitrary: l changed)
  case (Cons i js)
  show ?case
  proof (cases "observe_record arena i l")
    case (Inl e)
    then show ?thesis using Cons.prems by simp
  next
    case (Inr r)
    obtain b l1 where "r = (b, l1)" by (cases r)
    then show ?thesis using observe_record_history [OF Cons.prems(1)] Cons.IH [of l1 "b \<or> changed"] Cons.prems(2) Inr by simp
  qed
qed simp

lemma index_member:
  "ledger_inv l \<Longrightarrow> (ix, (i, m)) \<in> set (wl_request_index l) \<longleftrightarrow> i \<in> set (outstanding l)
     \<and> m \<in> set (wk_rows (lr_work (record_of l i))) \<and> ix = index_of (is_draft_work (lr_work (record_of l i))) m"
  unfolding ledger_inv_def entries_def by (elim conjE) auto

lemma mark_history:
  assumes "history_inv l ws log" "i < length (wl_store l)" "answered ws log i slot"
  shows "history_inv (mark_applied slot i l) ws log \<and> shape (mark_applied slot i l) = shape l"
proof -
  let ?f = "\<lambda>r. r\<lparr>lr_applied := insert slot (lr_applied r)\<rparr>"
  have ev: "evolves l (mark_applied slot i l)" unfolding mark_applied_def by (rule evolves_map_record) (auto simp: grows_def)
  have "record_good ws log j (record_of (mark_applied slot i l) j)" if "j < length (wl_store l)" for j
    using history_records [OF assms(1) that] assms(3) that by (cases "j = i") (simp_all add: mark_applied_def record_at_map record_good_def)
  from evolves_history [OF assms(1) ev history_logged [OF assms(1)] this] show ?thesis using ev by (simp add: evolves_def)
qed

lemma marks_history:
  assumes "history_inv l ws log" "\<forall>i \<in> set is. i < length (wl_store l) \<and> answered ws log i slot"
  shows "history_inv (fold (mark_applied slot) is l) ws log"
  using assms
proof (induction "is" arbitrary: l)
  case (Cons i js)
  then have m: "history_inv (mark_applied slot i l) ws log" "shape (mark_applied slot i l) = shape l" using mark_history by auto
  then show ?case using Cons.IH [OF m(1)] Cons.prems(2) shape_length [OF m(2)] by simp
qed simp

lemma validated_authorization:
  assumes "validate_fact l row = Inr (Authorized c)"
  shows "\<exists>ix. map_of (wl_request_index l) ix = Some c"
proof -
  have copy: "validate_copy l row \<noteq> Inr (Authorized c)" by (auto simp: validate_copy_def Let_def bind_r_eq_Inr split: option.splits if_splits)
  obtain e r n d where "authorization_for l d (bs_row row) e r n = Some c"
    using assms copy by (auto simp: validate_fact_def Let_def bind_r_eq_Inr split: if_splits option.splits)
  then show ?thesis by (auto simp: authorization_for_def split: option.splits field_value.splits) blast
qed

lemma history_log:
  assumes "history_inv l ws log" "i < length ws"
  shows "history_inv l ws ((i, m) # log)"
proof -
  have "record_good ws ((i, m) # log) j (record_of l j)" if "j < length (wl_store l)" for j
    using history_records [OF assms(1) that] answered_more [of ws log j _ "(i, m) # log"] by (auto simp: record_good_def)
  moreover have "list_all (\<lambda>c. fst c < length ws) ((i, m) # log)" using assms by (simp add: history_inv_def)
  ultimately show ?thesis using assms(1) unfolding history_inv_def by blast
qed

lemma result_history:
  assumes "history_inv l ws log" "validate_fact l row = Inr (Authorized c)" "result_applied l c previous = (out, l')"
  shows "out = Inr () \<and> history_inv l' ws (c # log)"
proof -
  obtain i m where c: "c = (i, m)" by (cases c)
  have inv: "ledger_inv l" using assms(1) by (simp add: history_inv_def)
  obtain ix where "map_of (wl_request_index l) ix = Some c" using validated_authorization [OF assms(2)] by blast
  then have mem: "(ix, (i, m)) \<in> set (wl_request_index l)" using c map_of_SomeD by metis
  let ?d = "is_draft_work (lr_work (record_of l i))" and ?slot = "rw_slot m"
  have i: "i \<in> set (outstanding l)" and m: "m \<in> set (wk_rows (lr_work (record_of l i)))" and ix: "ix = index_of ?d m"
    using mem index_member [OF inv] by blast+
  have il: "i < length (wl_store l)" using outstanding_bound [OF inv i] .
  have iw: "lr_work (record_of l i) = ws ! i" "i < length ws" using history_works [OF assms(1)] il by simp_all
  have log: "history_inv l ws (c # log)" unfolding c by (rule history_log [OF assms(1) iw(2)])
  have "answered ws (c # log) i ?slot" using m iw(1) unfolding answered_def c by force
  note mine = mark_history [OF log il this]
  let ?l = "mark_applied ?slot i l"
  have same: "shape ?l = shape l" using mine by blast
  have by_request: "wl_by_request ?l = wl_by_request l" using same by (simp add: shape_def)
  have len: "length (wl_store ?l) = length (wl_store l)" by (rule shape_length [OF same])
  obtain members where members: "map_of (wl_by_request l) (fst ix) = Some members" "members = group (fst ix) (wl_request_index l)"
  proof -
    have "ix \<in> fst ` set (wl_request_index l)" using mem by force
    moreover have "nests (wl_by_request l) (wl_request_index l)" using inv unfolding ledger_inv_def index_ok_def by blast
    ultimately show ?thesis using nests_get that by blast
  qed
  have "j < length (wl_store ?l) \<and> answered ws (c # log) j ?slot" if "j \<in> set (superseded (rw_round_id m) members)" for j
  proof -
    note member = that
    obtain e where e: "e \<in> set members" "fst (fst e) \<le> rw_round_id m" "fst (snd e) = j"
      using member by (force simp: superseded_def)
    obtain jx d where jx: "(jx, d) \<in> set (wl_request_index l)" "fst jx = fst ix" "e = (snd jx, d)"
      using e(1) unfolding members(2) group_def by auto
    then obtain n where j: "(jx, (j, n)) \<in> set (wl_request_index l)" "fst jx = fst ix" "fst (snd jx) \<le> rw_round_id m"
      using e(2,3) by (metis fst_conv prod.collapse snd_conv)
    then have o: "j \<in> set (outstanding l)" "n \<in> set (wk_rows (lr_work (record_of l j)))"
      "jx = index_of (is_draft_work (lr_work (record_of l j))) n" using index_member [OF inv] by blast+
    have jl: "j < length (wl_store l)" using outstanding_bound [OF inv o(1)] .
    have jw: "lr_work (record_of l j) = ws ! j" using history_works [OF assms(1)] jl by simp
    have "rw_slot n = ?slot" "is_draft_work (ws ! i) = is_draft_work (ws ! j)" "rw_epoch m = rw_epoch n" "rw_round_id n \<le> rw_round_id m"
      using j(2,3) unfolding o(3) ix jw iw(1) by (simp_all add: index_of_def)
    then have "answered ws (c # log) j ?slot" using o(2) unfolding jw answered_def c by force
    then show ?thesis using jl len by simp
  qed
  then have all: "history_inv (fold (mark_applied ?slot) (superseded (rw_round_id m) members) ?l) ws (c # log)"
    using marks_history [of ?l ws "c # log"] mine by blast
  have "fst ix = (?d, ?slot, rw_epoch m)" by (simp add: ix index_of_def)
  then have found: "map_of (wl_by_request ?l) (?d, ?slot, rw_epoch m) = Some members" using members(1) by_request by metis
  have "result_applied l c previous = (Inr (), ?l) \<or>
      result_applied l c previous = (Inr (), fold (mark_applied ?slot) (superseded (rw_round_id m) members) ?l)"
    unfolding result_applied_def c Let_def fst_conv snd_conv found by simp
  then show ?thesis using assms(3) all mine by auto
qed

section \<open>Refreshing and sending\<close>

lemma refresh_compute_history:
  assumes "history_inv l ws log"
  shows "history_inv (refresh_compute i l) ws log \<and> shape (refresh_compute i l) = shape l"
proof -
  let ?f = "\<lambda>r. r\<lparr>lr_compute_done := (lr_compute_done r \<or> compute_ended (wl_rows l) (lr_work r))\<rparr>"
  have "evolves l (map_record_at ?f i l)" by (rule evolves_map_record) (simp_all add: grows_def)
  then have ev: "evolves l (refresh_compute i l)"
    unfolding refresh_compute_def Let_def by (rule evolves_trans) (rule evolves_schedule)
  have "record_good ws log j (record_of (refresh_compute i l) j)" if "j < length (wl_store l)" for j
    using history_records [OF assms that] that
    by (cases "j = i") (simp_all add: refresh_compute_def Let_def record_at_map record_good_def)
  from evolves_history [OF assms ev history_logged [OF assms] this] show ?thesis using ev by (simp add: evolves_def)
qed

lemma retired_add:
  assumes "outstanding l' = filter (\<lambda>j. j \<noteq> i) (outstanding l)" "wl_store l' = wl_store l" "i \<in> set (outstanding l)" "i < length (wl_store l)"
  shows "mset (retired l') = add_mset i (mset (retired l))"
proof -
  have "distinct (retired l')" "distinct (i # retired l)" using assms(3) by (simp_all add: retired_def)
  moreover have "set (retired l') = set (i # retired l)" using assms by (auto simp: retired_def)
  ultimately have "mset (retired l') = mset (i # retired l)" using set_eq_iff_mset_eq_distinct by blast
  then show ?thesis by simp
qed

lemma retire_history:
  assumes "history_inv l ws log" "(key, i) \<in> set (wl_records l)" "lr_completion (record_of l i) = Some c" "\<not> result_pending (record_of l i) c"
  shows "\<exists>l'. retire key (record_of l i) c l = (Inr (), l') \<and> history_inv l' ws log"
proof -
  have inv: "ledger_inv l" using assms(1) by (simp add: history_inv_def)
  obtain l' where l': "retire key (record_of l i) c l = (Inr (), l')" "ledger_inv l'"
    "outstanding l' = filter (\<lambda>j. j \<noteq> i) (outstanding l)" "wl_completed l' = wl_completed l @ [c]" "wl_store l' = wl_store l"
    "wl_sequences l' = wl_sequences l"
    using retire_ok [OF inv assms(2)] by blast
  have i: "i \<in> set (outstanding l)" using assms(2) by (force simp: outstanding_def)
  have recs: "record_of l' = record_of l" by (rule ext) (simp add: record_of_def l'(5))
  note more = retired_add [OF l'(3,5) i history_outstanding [OF assms(1) i]]
  then have set: "set (retired l') = insert i (set (retired l))" by (metis set_mset_add_mset_insert set_mset_mset)
  have "finished_record (record_of l i)" using assms(3,4) by (simp add: finished_record_def)
  then have "list_all (\<lambda>j. finished_record (record_of l' j)) (retired l')"
    using assms(1) unfolding recs list_all_iff set history_inv_def by blast
  moreover have "mset (wl_completed l') = mset (map (completion_of l') (retired l'))"
  proof -
    have same: "completion_of l' = completion_of l" by (rule ext) (simp add: completion_of_def recs)
    have "completion_of l i = c" using assms(3) by (simp add: completion_of_def)
    moreover have "mset (wl_completed l) = mset (map (completion_of l) (retired l))" using assms(1) unfolding history_inv_def by blast
    ultimately show ?thesis using more by (simp add: same l'(4))
  qed
  moreover have "\<forall>i < length (wl_store l'). record_good ws log i (record_of l' i)" "map lr_work (wl_store l') = ws"
    using assms(1) unfolding recs l'(5) history_inv_def by blast+
  moreover have "list_all (\<lambda>w. \<exists>n. map_of (wl_sequences l') (wk_worker_id w) = Some n \<and> wk_work_seq w < n) ws"
    "distinct (map (\<lambda>w. (wk_worker_id w, wk_work_seq w)) ws)" "list_all (\<lambda>c. fst c < length ws) log"
    using assms(1) unfolding l'(6) history_inv_def by blast+
  ultimately have "history_inv l' ws log" using l'(2) unfolding history_inv_def by blast
  then show ?thesis using l'(1) by blast
qed

lemma refresh_record_history:
  assumes "history_inv l ws log"
  shows "\<exists>b l'. refresh_record key l = (Inr b, l') \<and> history_inv l' ws log"
proof (cases "map_of (wl_records l) key")
  case None
  then show ?thesis using assms by (auto simp: refresh_record_def)
next
  case (Some i)
  let ?l = "refresh_compute i l"
  have h: "history_inv ?l ws log" and sh: "shape ?l = shape l" using refresh_compute_history [OF assms] by blast+
  have mem: "(key, i) \<in> set (wl_records ?l)" using Some sh by (simp add: shape_def map_of_SomeD)
  show ?thesis
  proof (cases "lr_completion (record_of ?l i)")
    case None
    then show ?thesis using Some h by (simp add: refresh_record_def Let_def)
  next
    case fin: (Some c)
    show ?thesis
    proof (cases "result_pending (record_of ?l i) c")
      case True
      then show ?thesis using Some fin h by (simp add: refresh_record_def Let_def)
    next
      case False
      obtain l' where "retire key (record_of ?l i) c ?l = (Inr (), l')" "history_inv l' ws log"
        using retire_history [OF h mem fin False] by blast
      then show ?thesis using Some fin False by (auto simp: refresh_record_def Let_def)
    qed
  qed
qed

lemma refresh_loop_history:
  "history_inv l ws log \<Longrightarrow> \<exists>b l'. refresh_loop keys changed l = (Inr b, l') \<and> history_inv l' ws log"
proof (induction keys arbitrary: l changed)
  case (Cons key keys)
  obtain b l1 where "refresh_record key l = (Inr b, l1)" "history_inv l1 ws log" using refresh_record_history [OF Cons.prems] by blast
  then show ?case using Cons.IH [of l1 "changed \<or> b"] by simp
qed simp

lemma quiet_history:
  assumes "history_inv l ws log" "shape l' = shape l" "wl_completed l' = wl_completed l" "wl_store l' = wl_store l"
  shows "history_inv l' ws log"
proof -
  have "record_of l' = record_of l" by (rule ext) (simp add: record_of_def assms(4))
  then show ?thesis
    using evolves_history [OF assms(1) evolves_same [OF assms(2-4)] history_logged [OF assms(1)]] history_records [OF assms(1)] by simp
qed

lemma refresh_history:
  assumes "history_inv l ws log"
  shows "\<exists>b l'. refresh l rows = (Inr b, l') \<and> history_inv l' ws log"
proof -
  have "history_inv (l\<lparr>wl_rows := rows\<rparr>) ws log" by (rule quiet_history [OF assms]) (simp_all add: shape_def)
  then show ?thesis unfolding refresh_def by (rule refresh_loop_history)
qed

lemma answered_send:
  assumes "i < length ws" "list_all (\<lambda>c. fst c < length ws) log" "answered ws log i slot"
  shows "answered (ws @ [w]) log i slot"
proof -
  have same: "(ws @ [w]) ! j = ws ! j" if "j < length ws" for j using that by (simp add: nth_append)
  obtain row j m where "row \<in> set (wk_rows (ws ! i))" "rw_slot row = slot" "(j, m) \<in> set log"
    "is_draft_work (ws ! j) = is_draft_work (ws ! i)" "rw_slot m = slot" "rw_epoch m = rw_epoch row" "rw_round_id row \<le> rw_round_id m"
    using assms(3) unfolding answered_def by blast
  moreover have "(ws @ [w]) ! j = ws ! j" using assms(2) \<open>(j, m) \<in> set log\<close> same by (auto simp: list_all_iff)
  ultimately show ?thesis unfolding answered_def same [OF assms(1)] by (intro bexI [of _ row] conjI bexI [of _ "(j, m)"]) auto
qed

lemma sent_history:
  assumes "history_inv l ws log" "ledger_sent l w = (Inr u, l')" "map_of (wl_sequences l) (wk_worker_id w) = Some (wk_work_seq w)"
  shows "history_inv l' (ws @ [w]) log"
proof -
  have inv: "ledger_inv l" using assms(1) by (simp add: history_inv_def)
  note s = sent_inv [OF inv assms(2,3)]
  have old: "record_of l' i = record_of l i" if "i < length (wl_store l)" for i using s that by (simp add: record_of_def nth_append)
  have new: "record_of l' (length (wl_store l)) = new_record w" using s by (simp add: record_of_def)
  have len: "length ws = length (wl_store l)" using history_works [OF assms(1)] by simp
  have ret: "retired l' = retired l" using s by (auto simp: retired_def intro: filter_cong)
  have below: "i < length (wl_store l)" if "i \<in> set (retired l)" for i using that by (simp add: retired_def)
  have "record_good (ws @ [w]) log i (record_of l' i)" if "i < length (wl_store l')" for i
  proof (cases "i < length (wl_store l)")
    case True
    then show ?thesis using history_records [OF assms(1) True] old [OF True] answered_send [OF _ history_logged [OF assms(1)]] len
      by (auto simp: record_good_def)
  next
    case False
    then have "i = length (wl_store l)" using that s by simp
    then show ?thesis using new by (simp add: record_good_def new_record_def)
  qed
  moreover have "list_all (\<lambda>i. finished_record (record_of l' i)) (retired l')"
    using assms(1) old below by (auto simp: ret history_inv_def list_all_iff)
  moreover have "map (completion_of l') (retired l') = map (completion_of l) (retired l)"
    using old below by (simp add: ret completion_of_def)
  moreover have "list_all (\<lambda>v. \<exists>n. map_of (wl_sequences l) (wk_worker_id v) = Some n \<and> wk_work_seq v < n) ws"
    "distinct (map (\<lambda>w. (wk_worker_id w, wk_work_seq w)) ws)" "list_all (\<lambda>c. fst c < length ws) log"
    "mset (wl_completed l) = mset (map (completion_of l) (retired l))" "map lr_work (wl_store l) = ws"
    using assms(1) unfolding history_inv_def by blast+
  note a = this
  moreover have "list_all (\<lambda>v. \<exists>n. map_of (wl_sequences l') (wk_worker_id v) = Some n \<and> wk_work_seq v < n) (ws @ [w])"
    using a(1) assms(3) s by (fastforce simp: list_all_iff update_conv')
  moreover have "distinct (map (\<lambda>w. (wk_worker_id w, wk_work_seq w)) (ws @ [w]))"
    using a(1,2) assms(3) by (fastforce simp: list_all_iff)
  moreover have "list_all (\<lambda>c. fst c < length (ws @ [w])) log" using a(3) by (auto simp: list_all_iff)
  ultimately show ?thesis using s unfolding history_inv_def by (simp add: new_record_def)
qed

section \<open>Histories\<close>

text \<open>The Engine numbers a WORK with the next sequence of its worker; \<open>Work\<close> checks itself when it is built. \<open>log\<close> is the
  list of results it has applied, each right after it was validated.\<close>

inductive ledger_run :: "worker_spec list \<Rightarrow> work_ledger \<Rightarrow> work list \<Rightarrow> authorization list \<Rightarrow> bool" for specs where
  fresh: "ledger_run specs (new_ledger specs) [] []"
| send: "ledger_run specs l ws log \<Longrightarrow> check_work w = Inr () \<Longrightarrow> map_of (wl_sequences l) (wk_worker_id w) = Some (wk_work_seq w)
    \<Longrightarrow> ledger_sent l w = (Inr (), l') \<Longrightarrow> ledger_run specs l' (ws @ [w]) log"
| observe: "ledger_run specs l ws log \<Longrightarrow> observe_completions l arena = (out, l') \<Longrightarrow> ledger_run specs l' ws log"
| result: "ledger_run specs l ws log \<Longrightarrow> validate_fact l row = Inr (Authorized c) \<Longrightarrow> result_applied l c previous = (out, l')
    \<Longrightarrow> ledger_run specs l' ws (c # log)"
| refreshed: "ledger_run specs l ws log \<Longrightarrow> refresh l rows = (out, l') \<Longrightarrow> ledger_run specs l' ws log"
| mode: "ledger_run specs l ws log \<Longrightarrow> ledger_run specs (l\<lparr>wl_direct_imports := b\<rparr>) ws log"
| events: "ledger_run specs l ws log \<Longrightarrow> ledger_run specs (l\<lparr>wl_events := drop n (wl_events l)\<rparr>) ws log"

lemma fold_update_empty: "outer (fold (\<lambda>w. AList.update (ws_worker_id w) []) specs m) g = (if g \<in> ws_worker_id ` set specs then [] else outer m g)"
  by (induction specs arbitrary: m) (auto simp: outer_update)

lemma fresh_history: "history_inv (new_ledger specs) [] []"
proof -
  have "outer (fold (\<lambda>w. AList.update (ws_worker_id w) []) specs ([] :: (int \<times> (int \<times> nat) list) list)) g = []" for g
    unfolding fold_update_empty by (simp add: outer_def)
  then have "nests (wl_by_worker (new_ledger specs)) []" by (simp add: nests_def group_def new_ledger_def)
  moreover have "nests ([] :: (request_key \<times> ((int \<times> int) \<times> authorization) list) list) []" by (simp add: nests_def group_def outer_def)
  ultimately show ?thesis
    by (simp add: history_inv_def ledger_inv_def index_ok_def outstanding_def worker_flat_def retired_def) (simp add: new_ledger_def)
qed

lemma ledger_run_history: "ledger_run specs l ws log \<Longrightarrow> history_inv l ws log"
proof (induction rule: ledger_run.induct)
  case fresh
  show ?case by (rule fresh_history)
next
  case (send l ws log w l')
  then show ?case using sent_history by blast
next
  case (observe l ws log arena out l')
  then show ?case using observe_history by (simp add: observe_completions_def)
next
  case (result l ws log row c previous out l')
  then show ?case using result_history by blast
next
  case (refreshed l ws log rows out l')
  then show ?case using refresh_history [OF refreshed(3), of rows] by auto
next
  case (mode l ws log b)
  show ?case by (rule quiet_history [OF mode(2)]) (simp_all add: shape_def)
next
  case (events l ws log n)
  show ?case by (rule quiet_history [OF events(2)]) (simp_all add: shape_def)
qed

lemma ledger_run_checked: "ledger_run specs l ws log \<Longrightarrow> list_all (\<lambda>w. check_work w = Inr ()) ws"
  by (induction rule: ledger_run.induct) simp_all

definition executed :: "work_completion \<Rightarrow> row_work \<Rightarrow> bool" where
  "executed c r \<longleftrightarrow> (\<exists>m \<in> set (wc_members c). mc_outcome m = EXECUTED \<and> mc_slot m = rw_slot r)"

definition row_answered :: "work list \<Rightarrow> authorization list \<Rightarrow> work \<Rightarrow> row_work \<Rightarrow> bool" where
  "row_answered ws log w r \<longleftrightarrow> list_ex (\<lambda>(j, m). is_draft_work (ws ! j) = is_draft_work w \<and> rw_slot m = rw_slot r \<and> rw_epoch m = rw_epoch r
     \<and> rw_round_id r \<le> rw_round_id m) log"

definition retired_properly :: "work_ledger \<Rightarrow> work list \<Rightarrow> authorization list \<Rightarrow> nat \<Rightarrow> bool" where
  "retired_properly l ws log i \<longleftrightarrow> lr_completion (record_of l i) \<noteq> None \<and> completion_matches (ws ! i) (completion_of l i) = Inr ()
     \<and> list_all (\<lambda>r. executed (completion_of l i) r \<longrightarrow> row_answered ws log (ws ! i) r) (wk_rows (ws ! i))"

lemma checked_slots:
  assumes "check_work w = Inr ()" "r \<in> set (wk_rows w)" "row \<in> set (wk_rows w)" "rw_slot r = rw_slot row"
  shows "r = row"
proof -
  have "length (remdups (map rw_slot (wk_rows w))) = length (map rw_slot (wk_rows w))" using assms(1) by (simp add: check_work_def)
  then have "distinct (map rw_slot (wk_rows w))" by (metis length_remdups_card_conv card_distinct)
  then show ?thesis using assms(2-4) by (metis distinct_map inj_onD)
qed

lemma retired_properly_history:
  assumes "history_inv l ws log" "list_all (\<lambda>w. check_work w = Inr ()) ws" "i \<in> set (retired l)"
  shows "retired_properly l ws log i"
proof -
  have i: "i < length (wl_store l)" using assms(3) by (simp add: retired_def)
  have iw: "lr_work (record_of l i) = ws ! i" "i < length ws" using history_works [OF assms(1)] i by simp_all
  have good: "record_good ws log i (record_of l i)" by (rule history_records [OF assms(1) i])
  have "finished_record (record_of l i)" using assms(1,3) by (simp add: history_inv_def list_all_iff)
  then obtain c where c: "lr_completion (record_of l i) = Some c" "\<not> result_pending (record_of l i) c"
    by (auto simp: finished_record_def split: option.splits)
  have comp: "completion_of l i = c" using c(1) by (simp add: completion_of_def)
  have "row_answered ws log (ws ! i) r" if r: "r \<in> set (wk_rows (ws ! i))" "executed c r" for r
  proof -
    have "rw_slot r \<in> lr_applied (record_of l i)" using r(2) c(2) by (auto simp: executed_def result_pending_def list_ex_iff)
    then have "answered ws log i (rw_slot r)" using good by (simp add: record_good_def)
    then obtain row j m where row: "row \<in> set (wk_rows (ws ! i))" "rw_slot row = rw_slot r" "(j, m) \<in> set log"
      "is_draft_work (ws ! j) = is_draft_work (ws ! i)" "rw_slot m = rw_slot r" "rw_epoch m = rw_epoch row" "rw_round_id row \<le> rw_round_id m"
      unfolding answered_def by blast
    have "check_work (ws ! i) = Inr ()" using assms(2) iw(2) by (simp add: list_all_iff)
    then have "row = r" using checked_slots row(1,2) r(1) by blast
    then show ?thesis using row(3-7) unfolding row_answered_def list_ex_iff by (intro bexI [of _ "(j, m)"]) auto
  qed
  then show ?thesis using good c(1) iw(1) by (simp add: retired_properly_def record_good_def comp list_all_iff)
qed

section \<open>A demonstration run\<close>

definition demo_spec :: worker_spec where
  "demo_spec = \<lparr>ws_worker_id = 5, ws_role = TARGET, ws_generation = 1, ws_max_batch_size = 8, ws_max_batch_tokens = 64,
     ws_prefill_max_batch_tokens = 64, ws_verify_max_batch_tokens = 64, ws_bank_blocks = 16, ws_bank_rows = 4, ws_block_size = 16,
     ws_draft_banked = False\<rparr>"

definition demo_row :: row_work where
  "demo_row = \<lparr>rw_slot = 3, rw_epoch = 1, rw_round_id = 2, rw_run_seq = 9, rw_destination_offset = 0, rw_capacity_blocks = 2, rw_host_offset = 0,
     rw_host_capacity = 2, rw_host_arena = 0, rw_host_generation = 1, rw_host_slot = 0, rw_writer_generation = 1, rw_prompt = null_handle,
     rw_config = null_handle, rw_output = null_handle, rw_token_budget = 1, rw_max_new_tokens = 4, rw_prompt_count = 2, rw_source = None,
     rw_predecessor = None, rw_classified = None, rw_owner_epoch = None, rw_layout_id = None\<rparr>"

definition demo_work :: work where
  "demo_work = \<lparr>wk_worker_id = 5, wk_worker_generation = 1, wk_work_seq = 1, wk_operation = TARGET_PREFILL, wk_bank_id = 0, wk_bank_epoch = 4,
     wk_completion_offset = 0, wk_result_bytes = 64, wk_rows = [demo_row]\<rparr>"

definition demo_arena :: completion_arena where
  "demo_arena = (case publish_completion (new_completion_arena 80) 0
     \<lparr>wc_worker_generation = 1, wc_work_seq = 1, wc_bank_epoch = 4, wc_physical_done_ns = 77, wc_bank_id = 0,
      wc_members = [\<lparr>mc_slot = 3, mc_epoch = 1, mc_round_id = 2, mc_outcome = EXECUTED\<rparr>]\<rparr> of Inl e \<Rightarrow> new_completion_arena 0 | Inr a \<Rightarrow> a)"

definition demo_fact :: block_snapshot where
  "demo_fact = \<lparr>bs_kind = REQUEST_TARGET_COMPUTE, bs_row = 3, bs_publish_seq = 0, bs_fields =
     [(''status'', VInt 2), (''request_epoch'', VInt 1), (''round_id'', VInt 2), (''observed_run_seq'', VInt 9), (''target_id'', VInt 5),
      (''target_generation'', VInt 1), (''bank_id'', VInt 0), (''bank_epoch'', VInt 4), (''result_code'', VInt 0)]\<rparr>"

definition demo_sent :: work_ledger where "demo_sent = snd (ledger_sent (new_ledger [demo_spec]) demo_work)"
definition demo_observed :: work_ledger where "demo_observed = snd (observe_completions demo_sent demo_arena)"
definition demo_waiting :: work_ledger where "demo_waiting = snd (refresh demo_observed (\<lambda>_. None))"
definition demo_applied :: work_ledger where "demo_applied = snd (result_applied demo_waiting (0, demo_row) None)"
definition demo_retired :: work_ledger where "demo_retired = snd (refresh demo_applied (\<lambda>_. None))"

lemma demo_sent_run: "ledger_run [demo_spec] demo_sent [demo_work] []"
proof -
  have "fst (ledger_sent (new_ledger [demo_spec]) demo_work) = Inr ()" by code_simp
  then have sent: "ledger_sent (new_ledger [demo_spec]) demo_work = (Inr (), demo_sent)" by (simp add: demo_sent_def prod_eq_iff)
  have "check_work demo_work = Inr ()" "map_of (wl_sequences (new_ledger [demo_spec])) (wk_worker_id demo_work) = Some (wk_work_seq demo_work)"
    by code_simp+
  from ledger_run.send [OF ledger_run.fresh this sent] show ?thesis by simp
qed

lemma demo_observed_run: "ledger_run [demo_spec] demo_observed [demo_work] []"
  by (rule ledger_run.observe [OF demo_sent_run, of demo_arena "fst (observe_completions demo_sent demo_arena)"])
    (simp add: demo_observed_def)

lemma demo_waiting_run: "ledger_run [demo_spec] demo_waiting [demo_work] []"
  by (rule ledger_run.refreshed [OF demo_observed_run, of "\<lambda>_. None" "fst (refresh demo_observed (\<lambda>_. None))"])
    (simp add: demo_waiting_def)

lemma demo_validated: "validate_fact demo_waiting demo_fact = Inr (Authorized (0, demo_row))"
  by code_simp

lemma demo_retired_run: "ledger_run [demo_spec] demo_retired [demo_work] [(0, demo_row)]"
proof -
  have "ledger_run [demo_spec] demo_applied [demo_work] [(0, demo_row)]"
    by (rule ledger_run.result [OF demo_waiting_run demo_validated, of None "fst (result_applied demo_waiting (0, demo_row) None)"])
      (simp add: demo_applied_def)
  then show ?thesis
    by (rule ledger_run.refreshed [of _ _ _ _ "\<lambda>_. None" "fst (refresh demo_applied (\<lambda>_. None))"]) (simp add: demo_retired_def)
qed

section \<open>Properties\<close>

text \<open>C14: in every history a result is authorized exactly while its WORK is outstanding: the index holds one entry for each row
  of each outstanding WORK and nothing else. No refresh and no application of a validated result ever fails.\<close>

theorem work_authorizations_exact:
  assumes "ledger_run specs l ws log"
  shows "(map_of (wl_request_index l) ix = Some (i, r) \<longleftrightarrow>
      i \<in> set (outstanding l) \<and> r \<in> set (wk_rows (ws ! i)) \<and> ix = index_of (is_draft_work (ws ! i)) r)
    \<and> (\<exists>changed l'. refresh l rows = (Inr changed, l'))
    \<and> (validate_fact l row = Inr (Authorized c) \<longrightarrow> fst (result_applied l c previous) = Inr ())"
proof -
  have h: "history_inv l ws log" by (rule ledger_run_history [OF assms])
  then have inv: "ledger_inv l" by (simp add: history_inv_def)
  have "distinct (map fst (wl_request_index l))" using inv unfolding ledger_inv_def index_ok_def by blast
  then have "map_of (wl_request_index l) ix = Some (i, r) \<longleftrightarrow> (ix, (i, r)) \<in> set (wl_request_index l)" by simp
  moreover have "lr_work (record_of l i) = ws ! i" if "i \<in> set (outstanding l)"
    using history_works [OF h] outstanding_bound [OF inv that] by simp
  ultimately have "map_of (wl_request_index l) ix = Some (i, r) \<longleftrightarrow>
      i \<in> set (outstanding l) \<and> r \<in> set (wk_rows (ws ! i)) \<and> ix = index_of (is_draft_work (ws ! i)) r"
    using index_member [OF inv, of ix i r] by auto
  moreover have "\<exists>changed l'. refresh l rows = (Inr changed, l')" using refresh_history [OF h] by blast
  moreover have "validate_fact l row = Inr (Authorized c) \<longrightarrow> fst (result_applied l c previous) = Inr ()"
    using result_history [OF h, of row c previous] by (metis prod.collapse)
  ultimately show ?thesis by blast
qed

theorem work_authorizations_exact_witness:
  "outstanding demo_waiting = [0] \<and> map_of (wl_request_index demo_waiting) ((False, 3, 1), 2, 9) = Some (0, demo_row)
   \<and> fst (result_applied demo_waiting (0, demo_row) None) = Inr ()"
proof -
  have out: "outstanding demo_waiting = [0]" by code_simp
  have "((False, 3, 1), 2, 9) = index_of (is_draft_work ([demo_work] ! 0)) demo_row \<and> demo_row \<in> set (wk_rows ([demo_work] ! 0))"
    by (simp add: index_of_def demo_row_def demo_work_def is_draft_work_def is_draft_kind_def)
  then show ?thesis using work_authorizations_exact [OF demo_waiting_run, of "((False, 3, 1), 2, 9)" 0 demo_row _ demo_fact "(0, demo_row)" None] out demo_validated by auto
qed

text \<open>C13: every WORK retires exactly once: the WORKs sent are numbered without repetition, each is outstanding or retired, the
  completions reported are those of the retired ones, one each. A retired WORK has a completion with its own identity
  and members, and for every member that executed a result of that round or a later one has been applied.\<close>

theorem works_retire_once:
  assumes "ledger_run specs l ws log"
  shows "map lr_work (wl_store l) = ws \<and> distinct (map (\<lambda>w. (wk_worker_id w, wk_work_seq w)) ws)
    \<and> mset (outstanding l @ retired l) = mset [0..<length ws]
    \<and> mset (wl_completed l) = mset (map (completion_of l) (retired l)) \<and> list_all (retired_properly l ws log) (retired l)"
proof -
  have h: "history_inv l ws log" by (rule ledger_run_history [OF assms])
  have len: "length ws = length (wl_store l)" by (rule history_works [OF h])
  have "distinct (outstanding l @ retired l)" using h by (auto simp: retired_def history_inv_def ledger_inv_def)
  moreover have "set (outstanding l @ retired l) = set [0..<length ws]" using history_outstanding [OF h] by (auto simp: retired_def len)
  ultimately have "mset (outstanding l @ retired l) = mset [0..<length ws]" using set_eq_iff_mset_eq_distinct distinct_upt by blast
  moreover have "list_all (retired_properly l ws log) (retired l)"
    using retired_properly_history [OF h ledger_run_checked [OF assms]] by (simp add: list_all_iff)
  ultimately show ?thesis using h unfolding history_inv_def by blast
qed

theorem works_retire_once_witness:
  "retired demo_retired = [0] \<and> mset (wl_completed demo_retired) = mset (map (completion_of demo_retired) (retired demo_retired))
   \<and> retired_properly demo_retired [demo_work] [(0, demo_row)] 0"
proof -
  have "retired demo_retired = [0]" by code_simp
  then show ?thesis using works_retire_once [OF demo_retired_run] by auto
qed

lemma foldr_max: "x \<in> set xs \<Longrightarrow> (x :: int) \<le> foldr max xs 0"
  by (induction xs) auto

definition bank_free_for :: "work_ledger \<Rightarrow> row_view \<Rightarrow> worker_spec \<Rightarrow> int \<Rightarrow> bool" where
  "bank_free_for l view worker bank \<longleftrightarrow>
     (reserved_works l (ws_worker_id worker) bank = []
        \<and> row_shows (view (if ws_role worker = DRAFT then WORKER_DRAFT_BANK else WORKER_BANK, ws_worker_id worker * 2 + bank)) [(''state'', 0)])
     \<or> (wl_direct_imports l \<and> (\<exists>r. reserved_works l (ws_worker_id worker) bank = [r] \<and> lr_compute_done r))"

lemma find_bank_offer:
  assumes "find_bank l view worker places = Inr (Some (vs, rows))"
  shows "\<exists>(pending, bank) \<in> set places. bank_open pending (reserved_works l (ws_worker_id worker) bank)
      (view (if ws_role worker = DRAFT then WORKER_DRAFT_BANK else WORKER_BANK, ws_worker_id worker * 2 + bank))
    \<and> 0 < rows \<and> rows = bank_rows_left l worker bank"
  using assms by (induction places rule: find_bank.induct) (auto simp: Let_def bind_r_eq_Inr split: if_splits)

lemma capacity_offer:
  assumes "capacity l view worker = Inr (Some (vs, rows))"
  shows "length (worker_works l (ws_worker_id worker)) < 4 \<and> 0 < rows \<and> rows \<le> ws_max_batch_size worker
    \<and> (\<exists>bank \<in> {0, 1}. bank_free_for l view worker bank \<and> list_all (\<lambda>r. rows + int (length (wk_rows (lr_work r))) \<le> ws_bank_rows worker)
         (reserved_works l (ws_worker_id worker) (1 - bank)))"
proof -
  have few: "length (worker_works l (ws_worker_id worker)) < 4" and "find_bank l view worker
      ([(False, 0), (False, 1)] @ (if wl_direct_imports l then [(True, 0), (True, 1)] else [])) = Inr (Some (vs, rows))"
    using assms by (auto simp: capacity_def split: if_splits)
  from find_bank_offer [OF this(2)] obtain pending bank where
    place: "(pending, bank) \<in> set ([(False, 0), (False, 1)] @ (if wl_direct_imports l then [(True, 0), (True, 1)] else []))"
    and open_bank: "bank_open pending (reserved_works l (ws_worker_id worker) bank)
      (view (if ws_role worker = DRAFT then WORKER_DRAFT_BANK else WORKER_BANK, ws_worker_id worker * 2 + bank))"
    and rows: "0 < rows" "rows = bank_rows_left l worker bank" by blast
  have bank: "bank \<in> {0, 1}" "pending \<longrightarrow> wl_direct_imports l" using place by (auto split: if_splits)
  have "bank_free_for l view worker bank"
    using open_bank bank(2) by (cases pending) (auto simp: bank_open_def bank_free_for_def split: list.splits)
  moreover have "rows + int (length (wk_rows (lr_work r))) \<le> ws_bank_rows worker"
    if "r \<in> set (reserved_works l (ws_worker_id worker) (1 - bank))" for r
    using foldr_max [of "int (length (wk_rows (lr_work r)))" "map (\<lambda>r. int (length (wk_rows (lr_work r)))) (reserved_works l (ws_worker_id worker) (1 - bank))"]
      that rows(2) by (auto simp: bank_rows_left_def Let_def)
  moreover have "rows \<le> ws_max_batch_size worker" using rows(2) by (simp add: bank_rows_left_def Let_def)
  ultimately show ?thesis using few rows(1) bank(1) by (auto simp: list_all_iff)
qed

lemma worker_works_sent:
  assumes "history_inv l ws log" "ledger_sent l w = (Inr u, l')" "map_of (wl_sequences l) (wk_worker_id w) = Some (wk_work_seq w)"
  shows "worker_works l' (wk_worker_id w) = worker_works l (wk_worker_id w) @ [length (wl_store l)]"
proof -
  have inv: "ledger_inv l" "ledger_inv l'" using assms(1) sent_history [OF assms] by (simp_all add: history_inv_def)
  have works: "worker_works m v = map snd (group v (worker_flat (wl_records m)))" if "ledger_inv m" for m v
  proof -
    have "outer (wl_by_worker m) v = group v (worker_flat (wl_records m))" using that unfolding ledger_inv_def nests_def by blast
    then show ?thesis by (cases "map_of (wl_by_worker m) v") (auto simp: worker_works_def outer_def)
  qed
  have s: "outstanding l' = outstanding l @ [length (wl_store l)]" using sent_inv [OF inv(1) assms(2,3)] by blast
  have "map_of (wl_records l) (work_key_of w) = None" using assms(2) by (auto simp: ledger_sent_def split: if_splits)
  then have fresh: "work_key_of w \<notin> fst ` set (wl_records l)" by (simp add: map_of_eq_None_iff)
  obtain l2 where l2: "authorize_rows (length (wl_store l)) (is_draft_work w) (wk_rows w) (l\<lparr>wl_store := wl_store l @ [new_record w]\<rparr>) = (Inr (), l2)"
    and l': "l' = register_work (length (wl_store l)) w l2"
    using assms(2) by (auto simp: ledger_sent_def Let_def split: if_splits prod.splits sum.splits)
  have "index_ok (l\<lparr>wl_store := wl_store l @ [new_record w]\<rparr>)" 
    using inv(1) unfolding ledger_inv_def index_ok_def by (elim conjE) simp
  from authorize_rows_ok [OF this l2] obtain m where
    e: "l2 = l\<lparr>wl_store := wl_store l @ [new_record w]\<rparr>\<lparr>wl_request_index := wl_request_index l2, wl_by_request := m\<rparr>" by blast
  have "wl_records l2 = wl_records l" by (subst e) simp
  then have "wl_records l' = wl_records l @ [(work_key_of w, length (wl_store l))]"
    using update_fresh [OF fresh] by (simp add: l' register_work_def Let_def)
  then show ?thesis by (simp add: works [OF inv(1)] works [OF inv(2)] worker_flat_def group_def seq_key_def work_key_of_def)
qed


definition demo_bank_view :: row_view where
  "demo_bank_view k = (if snd k \<in> {10, 11} then Some \<lparr>bs_kind = WORKER_BANK, bs_row = snd k, bs_publish_seq = 0,
     bs_fields = [(''bank_id'', VInt (snd k - 10)), (''bank_epoch'', VInt 3), (''state'', VInt 0)]\<rparr> else None)"


end
