(* ===== verification/TableReader.thy ===== *)
theory TableReader
  imports TableStorage "HOL-Library.AList"
begin

text \<open>
  \<open>table/reader.py\<close>: the incremental reader of the observation tables. It drains the hint rings, reads the rows that
  were hinted, and scans the tables when a ring overflowed. Owners publish while it runs, so what an access of a row
  returns depends on the access: a row source gives the sequence and the snapshot a row shows to the priority reads,
  to the hinted reads and to the scan, each of which looks at a row at most once. Only a conflicting read is retried;
  any other exception ends the Engine, and the reader with it.
\<close>

section \<open>State\<close>

type_synonym row_key = "block_kind \<times> int"

datatype access = PriorityAccess | HintAccess | ScanAccess

record row_source =
  rs_seq :: "access \<Rightarrow> row_key \<Rightarrow> int result"
  rs_read :: "access \<Rightarrow> row_key \<Rightarrow> block_snapshot result"

record table_reader =
  tr_partitions :: "(block_kind \<times> int) list"
  tr_rings :: "state_change_ring list"
  tr_seen :: "(row_key \<times> int) list"
  tr_views :: "(row_key \<times> block_snapshot) list"
  tr_pending :: "(row_key \<times> state_change_entry) list"
  tr_max_entries :: "int option"
  tr_ignored :: "block_kind list"
  tr_priority :: "row_key list"
  tr_ring_cursor :: nat
  tr_scan :: "row_key list"
  tr_rescan :: bool

record update_batch =
  ub_views :: "block_snapshot list"
  ub_overflow_recovered :: bool
  ub_scanned_rows :: nat

definition table_partitions :: "sched_table option \<Rightarrow> (block_kind \<times> int) list" where
  "table_partitions t = (case t of None \<Rightarrow> [] | Some t \<Rightarrow> map (\<lambda>(k, p). (k, tp_capacity p)) (tb_partitions t))"

definition new_table_reader :: "sched_table option \<Rightarrow> sched_table option \<Rightarrow> state_change_ring list \<Rightarrow> table_reader result" where
  "new_table_reader requests workers rings =
     bind_r (require (requests \<noteq> None \<or> workers \<noteq> None) (ValueError ''at least one table is required'')) (\<lambda>_.
       Inr \<lparr>tr_partitions = table_partitions requests @ table_partitions workers, tr_rings = rings, tr_seen = [], tr_views = [], tr_pending = [],
            tr_max_entries = None, tr_ignored = [], tr_priority = [], tr_ring_cursor = 0, tr_scan = [], tr_rescan = False\<rparr>)"

definition engine_ignored_kinds :: "block_kind list" where
  "engine_ignored_kinds = [REQUEST_ENGINE, REQUEST_DISPATCH, REQUEST_H2D, REQUEST_DRAFT_H2D]"

text \<open>A table nobody writes while the reader runs.\<close>

definition quiet_source :: "sched_table \<Rightarrow> row_source" where
  "quiet_source t = \<lparr>rs_seq = \<lambda>_ key. t_publish_seq t (fst key) (snd key), rs_read = \<lambda>_ key. t_read t (fst key) (snd key) True\<rparr>"

definition check_partition :: "table_reader \<Rightarrow> block_kind \<Rightarrow> unit result" where
  "check_partition tr k = require (map_of (tr_partitions tr) k \<noteq> None) (KeyError ''block_kind'')"

section \<open>Hints\<close>

definition entry_key :: "state_change_entry \<Rightarrow> row_key" where
  "entry_key e = (sc_block_kind e, sc_row e)"

type_synonym hints = "(row_key \<times> state_change_entry) list"

definition merge_hint :: "block_kind list \<Rightarrow> state_change_entry \<Rightarrow> hints \<Rightarrow> hints result" where
  "merge_hint ignored e merged =
     (if sc_block_kind e \<in> set ignored then Inr merged
      else case map_of merged (entry_key e) of
          None \<Rightarrow> Inr (AList.update (entry_key e) e merged)
        | Some previous \<Rightarrow> bind_r (is_newer OP_SEQ (sc_publish_seq e) (sc_publish_seq previous)) (\<lambda>newer.
            Inr (if newer then AList.update (entry_key e) e merged else merged)))"

fun merge_hints :: "block_kind list \<Rightarrow> state_change_entry list \<Rightarrow> hints \<Rightarrow> hints result" where
  "merge_hints ignored [] merged = Inr merged"
| "merge_hints ignored (e # es) merged = bind_r (merge_hint ignored e merged) (merge_hints ignored es)"

definition is_conflict :: "py_error \<Rightarrow> bool" where
  "is_conflict e \<longleftrightarrow> (case e of StableReadConflict m \<Rightarrow> True | _ \<Rightarrow> False)"

text \<open>\<open>_read_entry\<close>: a hint that is not newer than the row's last view costs no read.\<close>

definition read_entry :: "row_source \<Rightarrow> table_reader \<Rightarrow> state_change_entry \<Rightarrow> block_snapshot result" where
  "read_entry src tr e =
     (let fresh_read = bind_r (check_partition tr (sc_block_kind e)) (\<lambda>_. rs_read src HintAccess (entry_key e)) in
      case map_of (tr_seen tr) (entry_key e) of
        None \<Rightarrow> fresh_read
      | Some seen \<Rightarrow> bind_r (is_newer OP_SEQ (sc_publish_seq e) seen) (\<lambda>newer.
          if newer then fresh_read
          else case map_of (tr_views tr) (entry_key e) of None \<Rightarrow> Inl (KeyError ''views'') | Some view \<Rightarrow> Inr view))"

text \<open>A view that shows another sequence than the last one is retained and reported.\<close>

definition view_key :: "block_snapshot \<Rightarrow> row_key" where
  "view_key view = (bs_kind view, bs_row view)"

type_synonym changes = "(row_key \<times> block_snapshot) list"

definition retain :: "block_snapshot \<Rightarrow> table_reader \<times> changes \<Rightarrow> table_reader \<times> changes" where
  "retain view = (\<lambda>(tr, changed).
     if map_of (tr_seen tr) (view_key view) = Some (bs_publish_seq view) then (tr, changed)
     else (tr\<lparr>tr_seen := AList.update (view_key view) (bs_publish_seq view) (tr_seen tr),
              tr_views := AList.update (view_key view) view (tr_views tr)\<rparr>, AList.update (view_key view) view changed))"

section \<open>The unbounded poll\<close>

fun drain_rings :: "block_kind list \<Rightarrow> state_change_ring list \<Rightarrow> hints \<Rightarrow> (state_change_ring list \<times> hints \<times> bool) result" where
  "drain_rings ignored [] merged = Inr ([], merged, False)"
| "drain_rings ignored (r # rs) merged =
     bind_r (drain None r) (\<lambda>(batch, r').
     bind_r (merge_hints ignored (sb_entries batch) merged) (\<lambda>merged'.
     bind_r (drain_rings ignored rs merged') (\<lambda>(rs', merged'', overflowed).
       Inr (r' # rs', merged'', sb_overflowed batch \<or> overflowed))))"

fun read_hinted :: "row_source \<Rightarrow> table_reader \<Rightarrow> state_change_entry list \<Rightarrow> block_snapshot list \<Rightarrow> hints \<Rightarrow> (block_snapshot list \<times> hints) result" where
  "read_hinted src tr [] changed pend = Inr (changed, pend)"
| "read_hinted src tr (e # es) changed pend =
     (case read_entry src tr e of
        Inr view \<Rightarrow> read_hinted src tr es (changed @ [view]) pend
      | Inl err \<Rightarrow> if is_conflict err then read_hinted src tr es changed (AList.update (entry_key e) e pend) else Inl err)"

definition scan_keys :: "table_reader \<Rightarrow> row_key list" where
  "scan_keys tr = concat (map (\<lambda>(k, n). map (\<lambda>row. (k, int row)) [0..<nat n]) (filter (\<lambda>(k, n). k \<notin> set (tr_ignored tr)) (tr_partitions tr)))"

definition hint_of :: "row_key \<Rightarrow> int \<Rightarrow> state_change_entry result" where
  "hint_of key seq = bind_r (checks [check_id REQUEST_SLOT (snd key), check_id U64 seq]) (\<lambda>_.
     Inr \<lparr>sc_block_kind = fst key, sc_row = snd key, sc_publish_seq = seq\<rparr>)"

fun scan_rows :: "row_source \<Rightarrow> table_reader \<Rightarrow> row_key list \<Rightarrow> block_snapshot list \<Rightarrow> hints \<Rightarrow> (block_snapshot list \<times> hints) result" where
  "scan_rows src tr [] changed pend = Inr (changed, pend)"
| "scan_rows src tr (key # keys) changed pend =
     bind_r (rs_seq src ScanAccess key) (\<lambda>seq.
     if seq = invalid U64 \<or> map_of (tr_seen tr) key = Some seq then scan_rows src tr keys changed pend
     else case rs_read src ScanAccess key of
         Inr view \<Rightarrow> scan_rows src tr keys (changed @ [view]) pend
       | Inl err \<Rightarrow> if is_conflict err
           then bind_r (hint_of key seq) (\<lambda>e. scan_rows src tr keys changed (AList.update key e pend))
           else Inl err)"

text \<open>Hints whose row was not recovered by the scan are kept.\<close>

definition keep_hints :: "row_key set \<Rightarrow> hints \<Rightarrow> hints \<Rightarrow> hints" where
  "keep_hints recovered merged pend = foldl (\<lambda>p (key, e). if key \<in> recovered \<or> map_of p key \<noteq> None then p else AList.update key e p) pend merged"

definition poll_all :: "row_source \<Rightarrow> table_reader \<Rightarrow> (update_batch \<times> table_reader) result" where
  "poll_all src tr =
     bind_r (drain_rings (tr_ignored tr) (tr_rings tr) (tr_pending tr)) (\<lambda>(rings, merged, overflowed).
     let tr' = tr\<lparr>tr_rings := rings, tr_pending := []\<rparr> in
     bind_r (if overflowed
         then bind_r (scan_rows src tr' (scan_keys tr') [] []) (\<lambda>(changed, pend).
           Inr (changed, keep_hints (set (map view_key changed)) merged pend, length (scan_keys tr')))
         else bind_r (read_hinted src tr' (map snd merged) [] []) (\<lambda>(changed, pend). Inr (changed, pend, 0))) (\<lambda>(changed, pend, scanned).
     case fold retain changed (tr'\<lparr>tr_pending := pend\<rparr>, []) of (tr'', final) \<Rightarrow>
       Inr (\<lparr>ub_views = map snd final, ub_overflow_recovered = overflowed, ub_scanned_rows = scanned\<rparr>, tr'')))"

section \<open>The bounded poll\<close>

text \<open>The rings from the cursor on, each with its share of what is left of the budget.\<close>

fun drain_shares :: "nat \<Rightarrow> nat \<Rightarrow> int \<Rightarrow> table_reader \<Rightarrow> bool \<Rightarrow> (table_reader \<times> bool) result" where
  "drain_shares 0 offset remaining tr overflowed = Inr (tr, overflowed)"
| "drain_shares (Suc n) offset remaining tr overflowed =
     (let i = (tr_ring_cursor tr + offset) mod length (tr_rings tr); share = remaining div (int n + 1) in
      bind_r (drain (Some share) (tr_rings tr ! i)) (\<lambda>(batch, r').
      bind_r (merge_hints (tr_ignored tr) (sb_entries batch) (tr_pending tr)) (\<lambda>pend.
        drain_shares n (offset + 1) (remaining - int (length (sb_entries batch)))
          (tr\<lparr>tr_rings := (tr_rings tr)[i := r'], tr_pending := pend\<rparr>) (overflowed \<or> sb_overflowed batch))))"

definition start_scan :: "bool \<Rightarrow> table_reader \<Rightarrow> table_reader" where
  "start_scan overflowed tr =
     (let rescan = (tr_rescan tr \<or> overflowed) in
      if tr_scan tr = [] \<and> rescan
      then tr\<lparr>tr_scan := map (\<lambda>(k, n). (k, 0)) (filter (\<lambda>(k, n). k \<notin> set (tr_ignored tr)) (tr_partitions tr)), tr_rescan := False\<rparr>
      else tr\<lparr>tr_rescan := rescan\<rparr>)"

fun read_priority :: "row_source \<Rightarrow> row_key list \<Rightarrow> table_reader \<times> changes \<Rightarrow> (table_reader \<times> changes) result" where
  "read_priority src [] s = Inr s"
| "read_priority src (key # keys) s =
     bind_r (check_partition (fst s) (fst key)) (\<lambda>_.
     bind_r (rs_seq src PriorityAccess key) (\<lambda>seq.
     if seq = invalid U64 \<or> map_of (tr_seen (fst s)) key = Some seq then read_priority src keys s
     else case rs_read src PriorityAccess key of
         Inr view \<Rightarrow> read_priority src keys (retain view s)
       | Inl err \<Rightarrow> if is_conflict err then read_priority src keys s else Inl err))"

definition drop_hint :: "row_key \<Rightarrow> table_reader \<Rightarrow> table_reader" where
  "drop_hint key tr = tr\<lparr>tr_pending := AList.delete key (tr_pending tr)\<rparr>"

definition put_hint :: "row_key \<Rightarrow> state_change_entry \<Rightarrow> table_reader \<Rightarrow> table_reader" where
  "put_hint key e tr = tr\<lparr>tr_pending := AList.update key e (tr_pending tr)\<rparr>"

fun read_pending :: "row_source \<Rightarrow> (row_key \<times> state_change_entry) list \<Rightarrow> table_reader \<times> changes \<Rightarrow> (table_reader \<times> changes) result" where
  "read_pending src [] s = Inr s"
| "read_pending src ((key, e) # hs) s =
     (let s' = (drop_hint key (fst s), snd s) in
      case read_entry src (fst s') e of
        Inr view \<Rightarrow> read_pending src hs (retain view s')
      | Inl err \<Rightarrow> if is_conflict err then read_pending src hs (put_hint key e (fst s'), snd s') else Inl err)"

definition capacity_rows :: "table_reader \<Rightarrow> block_kind \<Rightarrow> int" where
  "capacity_rows tr k = (case map_of (tr_partitions tr) k of None \<Rightarrow> 0 | Some n \<Rightarrow> n)"

text \<open>\<open>n\<close> rows of the scan at most; each turn replaces its first row by the next one of the partition.\<close>

definition next_scan :: "table_reader \<Rightarrow> row_key list" where
  "next_scan tr = (case tr_scan tr of [] \<Rightarrow> []
     | (k, row) # rest \<Rightarrow> if row + 1 < capacity_rows tr k then (k, row + 1) # rest else rest)"

fun scan_some :: "row_source \<Rightarrow> nat \<Rightarrow> table_reader \<times> changes \<Rightarrow> (nat \<times> table_reader \<times> changes) result" where
  "scan_some src 0 s = Inr (0, s)"
| "scan_some src (Suc n) s =
     (case tr_scan (fst s) of
        [] \<Rightarrow> Inr (0, s)
      | key # rest \<Rightarrow>
          let advance = (\<lambda>s. (fst s)\<lparr>tr_scan := next_scan (fst s)\<rparr>) in
          bind_r (rs_seq src ScanAccess key) (\<lambda>seq.
          bind_r (if seq = invalid U64 \<or> map_of (tr_seen (fst s)) key = Some seq then Inr s
              else case rs_read src ScanAccess key of
                  Inr view \<Rightarrow> Inr (retain view s)
                | Inl err \<Rightarrow> if is_conflict err then bind_r (hint_of key seq) (\<lambda>e. Inr (put_hint key e (fst s), snd s)) else Inl err) (\<lambda>s'.
          bind_r (scan_some src n (advance s', snd s')) (\<lambda>(scanned, s''). Inr (scanned + 1, s'')))))"

definition poll_bounded :: "row_source \<Rightarrow> int \<Rightarrow> table_reader \<Rightarrow> (update_batch \<times> table_reader) result" where
  "poll_bounded src budget tr =
     bind_r (require (0 < budget) (ValueError ''observation budget must be positive'')) (\<lambda>_.
     bind_r (drain_shares (length (tr_rings tr)) 0 budget tr False) (\<lambda>(tr1, overflowed).
     let tr2 = start_scan overflowed (if tr_rings tr = [] then tr1
           else tr1\<lparr>tr_ring_cursor := (tr_ring_cursor tr1 + 1) mod length (tr_rings tr1)\<rparr>) in
     bind_r (read_priority src (tr_priority tr2) (tr2, [])) (\<lambda>s1.
     let hint_budget = (if tr_scan (fst s1) = [] then budget else budget div 2);
         hinted = take (nat hint_budget) (tr_pending (fst s1)) in
     bind_r (read_pending src hinted s1) (\<lambda>s2.
     bind_r (scan_some src (nat (budget - int (length hinted))) s2) (\<lambda>(scanned, s3).
       Inr (\<lparr>ub_views = map snd (snd s3), ub_overflow_recovered = (overflowed \<or> scanned > 0), ub_scanned_rows = scanned\<rparr>, fst s3))))))"

definition poll :: "row_source \<Rightarrow> table_reader \<Rightarrow> (update_batch \<times> table_reader) result" where
  "poll src tr = (case tr_max_entries tr of None \<Rightarrow> poll_all src tr | Some budget \<Rightarrow> poll_bounded src budget tr)"

section \<open>The other operations\<close>

definition reader_has_pending :: "table_reader \<Rightarrow> bool" where
  "reader_has_pending tr \<longleftrightarrow> tr_pending tr \<noteq> [] \<or> tr_scan tr \<noteq> [] \<or> tr_rescan tr \<or> list_ex has_pending (tr_rings tr)"

definition reset_pending :: "table_reader \<Rightarrow> table_reader result" where
  "reset_pending tr = bind_r (map_r (drain None) (tr_rings tr)) (\<lambda>drained.
     Inr (tr\<lparr>tr_pending := [], tr_scan := [], tr_rescan := False, tr_rings := map snd drained\<rparr>))"

definition reset_requests :: "block_kind list \<Rightarrow> table_reader \<Rightarrow> table_reader" where
  "reset_requests kinds tr =
     (let keep = (\<lambda>kv. fst (fst kv) \<notin> set kinds) in
      tr\<lparr>tr_seen := filter keep (tr_seen tr), tr_views := filter (\<lambda>kv. fst (fst kv) \<notin> set kinds) (tr_views tr),
         tr_pending := filter (\<lambda>kv. fst (fst kv) \<notin> set kinds) (tr_pending tr)\<rparr>)"

definition cached_view :: "table_reader \<Rightarrow> row_key \<Rightarrow> block_snapshot option" where
  "cached_view tr key = map_of (tr_views tr) key"

end
