(* ===== verification/ReaderFacts.thy ===== *)
theory ReaderFacts
  imports TableReader
begin

text \<open>
  The steps of the incremental reader, one lemma each: what it remembers stays true of the tables, and a row whose
  current sequence it has not seen stays covered by a hint, an overflow flag, the scan or a rescan request.
\<close>

text \<open>Rows are pairs, and the properties of all rows are used as they stand.\<close>

declare split_paired_All [simp del] split_paired_Ex [simp del]

section \<open>Sequences without wrap-around\<close>

text \<open>Below \<open>2 ^ 63\<close> publications of a row the circular order of sequences is the order of integers.\<close>

definition seq_limit :: int where "seq_limit = 9223372036854775807"

definition limits :: "(row_key \<Rightarrow> int) \<Rightarrow> bool" where
  "limits L \<longleftrightarrow> (\<forall>key. L key \<le> seq_limit)"

lemma newer_small:
  assumes "0 \<le> a" "a \<le> seq_limit" "0 \<le> b" "b \<le> seq_limit"
  shows "is_newer OP_SEQ a b = Inr (b < a)"
proof -
  have "(a - b) mod 18446744073709551615 = (if b \<le> a then a - b else a - b + 18446744073709551615)"
  proof (cases "b \<le> a")
    case False
    have "(a - b) mod 18446744073709551615 = (a - b + 18446744073709551615) mod 18446744073709551615" by simp
    also have "\<dots> = a - b + 18446744073709551615" using False assms unfolding seq_limit_def by (intro mod_pos_pos_trivial) auto
    finally show ?thesis using False by simp
  qed (use assms in \<open>simp add: seq_limit_def\<close>)
  then show ?thesis using assms
    by (auto simp: is_newer_def distance_def validate_def domain_defs U64_def seq_limit_def)
qed

section \<open>What the reader remembers\<close>

definition hint_ok :: "(row_key \<Rightarrow> int) \<Rightarrow> state_change_entry \<Rightarrow> bool" where
  "hint_ok L e \<longleftrightarrow> 0 \<le> sc_publish_seq e \<and> sc_publish_seq e \<le> L (entry_key e)"

definition hints_ok :: "(row_key \<Rightarrow> int) \<Rightarrow> hints \<Rightarrow> bool" where
  "hints_ok L h \<longleftrightarrow> distinct (map fst h) \<and> list_all (\<lambda>(key, e). entry_key e = key \<and> hint_ok L e) h"

definition ring_ok :: "(row_key \<Rightarrow> int) \<Rightarrow> state_change_ring \<Rightarrow> bool" where
  "ring_ok L r \<longleftrightarrow> ring_wf (sr_ring r) \<and> list_all (hint_ok L) (ring_items (sr_ring r))"

definition seen_ok :: "(row_key \<Rightarrow> int) \<Rightarrow> table_reader \<Rightarrow> bool" where
  "seen_ok L tr \<longleftrightarrow> (\<forall>key s. map_of (tr_seen tr) key = Some s \<longrightarrow> 0 \<le> s \<and> s \<le> L key
     \<and> (\<exists>v. map_of (tr_views tr) key = Some v \<and> view_key v = key \<and> bs_publish_seq v = s))"

definition reader_ok :: "(row_key \<Rightarrow> int) \<Rightarrow> table_reader \<Rightarrow> bool" where
  "reader_ok L tr \<longleftrightarrow> seen_ok L tr \<and> hints_ok L (tr_pending tr) \<and> list_all (ring_ok L) (tr_rings tr)"

definition view_ok :: "(row_key \<Rightarrow> int) \<Rightarrow> row_key \<Rightarrow> block_snapshot \<Rightarrow> bool" where
  "view_ok L key v \<longleftrightarrow> view_key v = key \<and> 0 \<le> bs_publish_seq v \<and> bs_publish_seq v \<le> L key"

definition source_ok :: "(row_key \<Rightarrow> int) \<Rightarrow> row_source \<Rightarrow> bool" where
  "source_ok L src \<longleftrightarrow> (\<forall>a key v. rs_read src a key = Inr v \<longrightarrow> view_ok L key v)
     \<and> (\<forall>a key s. rs_seq src a key = Inr s \<longrightarrow> s = invalid U64 \<or> 0 \<le> s \<and> s \<le> L key)"

definition row_known :: "table_reader \<Rightarrow> row_key \<Rightarrow> bool" where
  "row_known tr key \<longleftrightarrow> distinct (map fst (tr_partitions tr)) \<and> fst key \<notin> set (tr_ignored tr)
     \<and> (\<exists>n. map_of (tr_partitions tr) (fst key) = Some n \<and> 0 \<le> snd key \<and> snd key < n)"

text \<open>A row nobody publishes while the reader runs.\<close>

definition stable_row :: "(row_key \<Rightarrow> int) \<Rightarrow> row_source \<Rightarrow> row_key \<Rightarrow> bool" where
  "stable_row L src key \<longleftrightarrow> L key \<noteq> invalid U64 \<and> 0 \<le> L key
     \<and> (\<forall>a. rs_seq src a key = Inr (L key) \<and> (\<exists>v. rs_read src a key = Inr v \<and> view_ok L key v \<and> bs_publish_seq v = L key))"

section \<open>Coverage\<close>

definition seen_now :: "(row_key \<Rightarrow> int) \<Rightarrow> table_reader \<Rightarrow> row_key \<Rightarrow> bool" where
  "seen_now L tr key \<longleftrightarrow> map_of (tr_seen tr) key = Some (L key)"

definition hinted :: "(row_key \<Rightarrow> int) \<Rightarrow> hints \<Rightarrow> row_key \<Rightarrow> bool" where
  "hinted L h key \<longleftrightarrow> (\<exists>e. map_of h key = Some e \<and> sc_publish_seq e = L key)"

definition ring_covers :: "(row_key \<Rightarrow> int) \<Rightarrow> row_key \<Rightarrow> state_change_ring \<Rightarrow> bool" where
  "ring_covers L key r \<longleftrightarrow> sr_overflowed r \<or> (\<exists>e \<in> set (ring_items (sr_ring r)). entry_key e = key \<and> sc_publish_seq e = L key)"

definition scan_covers :: "table_reader \<Rightarrow> row_key \<Rightarrow> bool" where
  "scan_covers tr key \<longleftrightarrow> tr_rescan tr \<or> (\<exists>row \<le> snd key. (fst key, row) \<in> set (tr_scan tr))"

definition covered :: "(row_key \<Rightarrow> int) \<Rightarrow> table_reader \<Rightarrow> row_key \<Rightarrow> bool" where
  "covered L tr key \<longleftrightarrow> seen_now L tr key \<or> hinted L (tr_pending tr) key \<or> scan_covers tr key \<or> list_ex (ring_covers L key) (tr_rings tr)"

section \<open>Merging hints\<close>

lemma hints_ok_update:
  assumes "hints_ok L h" "hint_ok L e" "entry_key e = key"
  shows "hints_ok L (AList.update key e h)"
proof -
  have "\<forall>kv \<in> set (AList.update key e h). kv = (key, e) \<or> kv \<in> set h" by (induction h) auto
  then show ?thesis using assms by (fastforce simp: hints_ok_def list_all_iff distinct_update)
qed

lemma hints_ok_get: "hints_ok L h \<Longrightarrow> map_of h key = Some e \<Longrightarrow> entry_key e = key \<and> hint_ok L e"
  by (fastforce simp: hints_ok_def list_all_iff dest: map_of_SomeD)

lemma merge_hint_ok:
  assumes "limits L" "hints_ok L h" "hint_ok L e"
  shows "\<exists>h'. merge_hint ignored e h = Inr h' \<and> hints_ok L h'
    \<and> (\<forall>key. fst key \<notin> set ignored \<longrightarrow> hinted L h key \<or> entry_key e = key \<and> sc_publish_seq e = L key \<longrightarrow> hinted L h' key)"
proof (cases "sc_block_kind e \<in> set ignored \<or> map_of h (entry_key e) = None")
  case True
  then show ?thesis using assms hints_ok_update [OF assms(2,3) refl]
    by (auto simp: merge_hint_def hinted_def update_conv' entry_key_def split: if_splits)
next
  case False
  then obtain p where p: "map_of h (entry_key e) = Some p" "sc_block_kind e \<notin> set ignored" by blast
  have pe: "entry_key p = entry_key e" "hint_ok L p" using hints_ok_get [OF assms(2) p(1)] by simp_all
  have "L (entry_key e) \<le> seq_limit" using assms(1) by (simp add: limits_def)
  then have newer: "is_newer OP_SEQ (sc_publish_seq e) (sc_publish_seq p) = Inr (sc_publish_seq p < sc_publish_seq e)"
    using assms(3) pe unfolding hint_ok_def by (intro newer_small) auto
  show ?thesis
  proof (cases "sc_publish_seq p < sc_publish_seq e")
    case True
    then show ?thesis using p newer hints_ok_update [OF assms(2,3) refl] assms(3) pe
      by (auto simp: merge_hint_def hinted_def update_conv' hint_ok_def)
  next
    case False
    then show ?thesis using p newer assms(2,3) pe by (auto simp: merge_hint_def hinted_def hint_ok_def)
  qed
qed

lemma merge_hints_ok:
  assumes "limits L" "hints_ok L h" "list_all (hint_ok L) es"
  shows "\<exists>h'. merge_hints ignored es h = Inr h' \<and> hints_ok L h'
    \<and> (\<forall>key. fst key \<notin> set ignored \<longrightarrow> hinted L h key \<or> (\<exists>e \<in> set es. entry_key e = key \<and> sc_publish_seq e = L key) \<longrightarrow> hinted L h' key)"
  using assms(2,3)
proof (induction es arbitrary: h)
  case (Cons e es)
  obtain h1 where h1: "merge_hint ignored e h = Inr h1" "hints_ok L h1"
    "\<forall>key. fst key \<notin> set ignored \<longrightarrow> hinted L h key \<or> entry_key e = key \<and> sc_publish_seq e = L key \<longrightarrow> hinted L h1 key"
    using merge_hint_ok [OF assms(1) Cons.prems(1)] Cons.prems(2) by fastforce
  obtain h2 where h2: "merge_hints ignored es h1 = Inr h2" "hints_ok L h2"
    "\<forall>key. fst key \<notin> set ignored \<longrightarrow> hinted L h1 key \<or> (\<exists>e \<in> set es. entry_key e = key \<and> sc_publish_seq e = L key) \<longrightarrow> hinted L h2 key"
    using Cons.IH [OF h1(2)] Cons.prems(2) by fastforce
  have "merge_hints ignored (e # es) h = Inr h2" using h1(1) h2(1) by simp
  moreover have "hinted L h2 key" if "fst key \<notin> set ignored"
    "hinted L h key \<or> (\<exists>x \<in> set (e # es). entry_key x = key \<and> sc_publish_seq x = L key)" for key
    using that h1(3) h2(3) by auto
  ultimately show ?case using h2(2) by blast
qed auto

section \<open>Draining\<close>

definition emptied :: "state_change_ring \<Rightarrow> bool" where
  "emptied r \<longleftrightarrow> ring_items (sr_ring r) = [] \<and> \<not> sr_overflowed r"

lemma drain_some:
  assumes "ring_wf (sr_ring r)" "n = (case m of None \<Rightarrow> rg_size (sr_ring r) | Some k \<Rightarrow> min (rg_size (sr_ring r)) (nat k))"
    and "case m of None \<Rightarrow> True | Some k \<Rightarrow> 0 \<le> k"
  shows "\<exists>r'. drain m r = Inr (\<lparr>sb_entries = take n (ring_items (sr_ring r)), sb_overflowed = sr_overflowed r\<rparr>, r')
     \<and> ring_wf (sr_ring r') \<and> ring_items (sr_ring r') = drop n (ring_items (sr_ring r)) \<and> \<not> sr_overflowed r'"
proof -
  have "n \<le> rg_size (sr_ring r)" using assms(2) by (simp split: option.splits)
  from drain_loop_wf [OF assms(1) this] obtain q where q: "drain_loop n (sr_ring r) = Inr (take n (ring_items (sr_ring r)), q)"
    "ring_wf q" "ring_items q = drop n (ring_items (sr_ring r))" by blast
  have "drain m r = Inr (\<lparr>sb_entries = take n (ring_items (sr_ring r)), sb_overflowed = sr_overflowed r\<rparr>, r\<lparr>sr_ring := q, sr_overflowed := False\<rparr>)"
    using q(1) assms(2,3) by (cases m) (simp_all add: drain_def)
  then show ?thesis using q(2,3) by simp
qed

lemma drain_ok:
  assumes "limits L" "ring_ok L r" "hints_ok L h" "case m of None \<Rightarrow> True | Some k \<Rightarrow> 0 \<le> k"
  shows "\<exists>b r' h'. drain m r = Inr (b, r') \<and> merge_hints ignored (sb_entries b) h = Inr h' \<and> ring_ok L r' \<and> hints_ok L h'
    \<and> (case m of None \<Rightarrow> emptied r' | Some k \<Rightarrow> int (length (sb_entries b)) \<le> k)
    \<and> (\<forall>key. fst key \<notin> set ignored \<longrightarrow> hinted L h key \<or> ring_covers L key r \<longrightarrow> hinted L h' key \<or> ring_covers L key r' \<or> sb_overflowed b)"
proof -
  define n where "n = (case m of None \<Rightarrow> rg_size (sr_ring r) | Some k \<Rightarrow> min (rg_size (sr_ring r)) (nat k))"
  have wf: "ring_wf (sr_ring r)" and items: "list_all (hint_ok L) (ring_items (sr_ring r))" using assms(2) by (simp_all add: ring_ok_def)
  obtain r' where d: "drain m r = Inr (\<lparr>sb_entries = take n (ring_items (sr_ring r)), sb_overflowed = sr_overflowed r\<rparr>, r')"
    "ring_wf (sr_ring r')" "ring_items (sr_ring r') = drop n (ring_items (sr_ring r))" "\<not> sr_overflowed r'"
    using drain_some [OF wf n_def assms(4)] by blast
  have "list_all (hint_ok L) (take n (ring_items (sr_ring r)))" using items by (meson in_set_takeD list_all_iff)
  from merge_hints_ok [OF assms(1,3) this, of ignored]
  obtain h' where h': "merge_hints ignored (take n (ring_items (sr_ring r))) h = Inr h'" "hints_ok L h'"
    "\<forall>key. fst key \<notin> set ignored \<longrightarrow> hinted L h key
       \<or> (\<exists>e \<in> set (take n (ring_items (sr_ring r))). entry_key e = key \<and> sc_publish_seq e = L key) \<longrightarrow> hinted L h' key" by blast
  have ok: "ring_ok L r'" using d(2,3) items by (simp add: ring_ok_def) (meson in_set_dropD list_all_iff)
  have "case m of None \<Rightarrow> emptied r' | Some k \<Rightarrow> int (length (take n (ring_items (sr_ring r)))) \<le> k"
    using ring_wf_size [OF wf] d(3,4) assms(4) by (cases m) (simp_all add: emptied_def n_def)
  moreover have "hinted L h' key \<or> ring_covers L key r' \<or> sr_overflowed r"
    if "fst key \<notin> set ignored" "hinted L h key \<or> ring_covers L key r" for key
  proof -
    have "hinted L h key \<or> sr_overflowed r \<or> (\<exists>e \<in> set (take n (ring_items (sr_ring r))). entry_key e = key \<and> sc_publish_seq e = L key)
        \<or> (\<exists>e \<in> set (drop n (ring_items (sr_ring r))). entry_key e = key \<and> sc_publish_seq e = L key)"
      using that(2) unfolding ring_covers_def by (metis Un_iff append_take_drop_id set_append)
    then show ?thesis using h'(3) that(1) d(3) by (auto simp: ring_covers_def)
  qed
  ultimately show ?thesis using d(1) h'(1,2) ok
    by (intro exI [of _ "\<lparr>sb_entries = take n (ring_items (sr_ring r)), sb_overflowed = sr_overflowed r\<rparr>"] exI [of _ r'] exI [of _ h'])
      (auto split: option.splits)
qed

lemma drain_rings_ok:
  assumes "limits L" "list_all (ring_ok L) rs" "hints_ok L h"
  shows "\<exists>rs' h' ov. drain_rings ignored rs h = Inr (rs', h', ov) \<and> list_all (ring_ok L) rs' \<and> list_all emptied rs' \<and> hints_ok L h'
    \<and> (\<forall>key. fst key \<notin> set ignored \<longrightarrow> hinted L h key \<or> list_ex (ring_covers L key) rs \<longrightarrow> hinted L h' key \<or> ov)"
  using assms(2,3)
proof (induction rs arbitrary: h)
  case (Cons r rs)
  obtain b r' h1 where d: "drain None r = Inr (b, r')" "merge_hints ignored (sb_entries b) h = Inr h1" "ring_ok L r'" "hints_ok L h1" "emptied r'"
    "\<forall>key. fst key \<notin> set ignored \<longrightarrow> hinted L h key \<or> ring_covers L key r \<longrightarrow> hinted L h1 key \<or> ring_covers L key r' \<or> sb_overflowed b"
    using drain_ok [OF assms(1), of r h None ignored] Cons.prems by auto
  obtain rs' h2 ov where i: "drain_rings ignored rs h1 = Inr (rs', h2, ov)" "list_all (ring_ok L) rs'" "list_all emptied rs'" "hints_ok L h2"
    "\<forall>key. fst key \<notin> set ignored \<longrightarrow> hinted L h1 key \<or> list_ex (ring_covers L key) rs \<longrightarrow> hinted L h2 key \<or> ov"
    using Cons.IH [OF _ d(4)] Cons.prems(1) by auto
  have "\<not> ring_covers L key r'" for key using d(5) by (simp add: emptied_def ring_covers_def)
  then have "hinted L h2 key \<or> sb_overflowed b \<or> ov"
    if "fst key \<notin> set ignored" "hinted L h key \<or> list_ex (ring_covers L key) (r # rs)" for key
    using that d(6) i(5) by auto
  then show ?case using d i by auto
qed auto

section \<open>Reading a row\<close>

lemma read_entry_ok:
  assumes "limits L" "seen_ok L tr" "source_ok L src" "hint_ok L e" "read_entry src tr e = Inr v"
  shows "view_ok L (entry_key e) v"
proof (cases "read_entry src tr e = bind_r (check_partition tr (sc_block_kind e)) (\<lambda>_. rs_read src HintAccess (entry_key e))")
  case True
  then have "bind_r (check_partition tr (sc_block_kind e)) (\<lambda>_. rs_read src HintAccess (entry_key e)) = Inr v" using assms(5) by metis
  then have "rs_read src HintAccess (entry_key e) = Inr v" by (auto simp: bind_r_eq_Inr)
  then show ?thesis using assms(3) unfolding source_ok_def by blast
next
  case False
  then obtain s where s: "map_of (tr_seen tr) (entry_key e) = Some s" by (cases "map_of (tr_seen tr) (entry_key e)") (simp_all add: read_entry_def Let_def)
  then have "0 \<le> s \<and> s \<le> L (entry_key e) \<and> (\<exists>v. map_of (tr_views tr) (entry_key e) = Some v \<and> view_key v = entry_key e \<and> bs_publish_seq v = s)"
    using assms(2) unfolding seen_ok_def by blast
  then show ?thesis using assms(3,5) s by (auto simp: read_entry_def Let_def bind_r_eq_Inr source_ok_def view_ok_def split: if_splits)
qed

lemma read_entry_stable:
  assumes "limits L" "seen_ok L tr" "stable_row L src key" "row_known tr key" "hint_ok L e" "entry_key e = key"
  shows "\<exists>v. read_entry src tr e = Inr v \<and> view_ok L key v
    \<and> (bs_publish_seq v = L key \<or> (map_of (tr_seen tr) key = Some (bs_publish_seq v) \<and> sc_publish_seq e \<le> bs_publish_seq v))"
proof -
  obtain v where v: "rs_read src HintAccess key = Inr v" "view_ok L key v" "bs_publish_seq v = L key" using assms(3) unfolding stable_row_def by blast
  have part: "check_partition tr (sc_block_kind e) = Inr ()" using assms(4,6) by (auto simp: check_partition_def row_known_def entry_key_def)
  show ?thesis
  proof (cases "map_of (tr_seen tr) key")
    case None
    then show ?thesis using v part assms(6) by (simp add: read_entry_def Let_def)
  next
    case (Some s)
    then obtain old where old: "0 \<le> s" "s \<le> L key" "map_of (tr_views tr) key = Some old" "view_key old = key" "bs_publish_seq old = s"
      using assms(2) unfolding seen_ok_def by blast
    have "L key \<le> seq_limit" using assms(1) unfolding limits_def by blast
    then have newer: "is_newer OP_SEQ (sc_publish_seq e) s = Inr (s < sc_publish_seq e)"
      using assms(5,6) old(1,2) unfolding hint_ok_def by (intro newer_small) auto
    show ?thesis
    proof (cases "s < sc_publish_seq e")
      case True
      then show ?thesis using Some newer v part assms(6) by (simp add: read_entry_def Let_def)
    next
      case False
      then show ?thesis using Some newer old assms(6) by (simp add: read_entry_def Let_def view_ok_def)
    qed
  qed
qed

lemma retain_fields:
  "tr_pending (fst (retain v s)) = tr_pending (fst s)" "tr_rings (fst (retain v s)) = tr_rings (fst s)" "tr_scan (fst (retain v s)) = tr_scan (fst s)"
  "tr_rescan (fst (retain v s)) = tr_rescan (fst s)" "tr_partitions (fst (retain v s)) = tr_partitions (fst s)"
  "tr_ignored (fst (retain v s)) = tr_ignored (fst s)" "tr_priority (fst (retain v s)) = tr_priority (fst s)"
  "tr_ring_cursor (fst (retain v s)) = tr_ring_cursor (fst s)"
  by (simp_all add: retain_def split: prod.splits)

lemma retain_seen: "map_of (tr_seen (fst (retain v s))) key = (if key = view_key v then Some (bs_publish_seq v) else map_of (tr_seen (fst s)) key)"
  by (auto simp: retain_def update_conv' split: prod.splits)

lemma retain_seen_ok:
  assumes "seen_ok L (fst s)" "view_ok L (view_key v) v"
  shows "seen_ok L (fst (retain v s))"
proof -
  have "map_of (tr_views (fst (retain v s))) key = map_of (tr_views (fst s)) key" if "key \<noteq> view_key v" for key
    using that by (simp add: retain_def update_conv' split: prod.splits)
  moreover have "map_of (tr_views (fst (retain v s))) (view_key v) = Some v
      \<or> (map_of (tr_seen (fst s)) (view_key v) = Some (bs_publish_seq v) \<and> retain v s = s)"
    by (cases s) (simp add: retain_def update_conv')
  ultimately show ?thesis using assms unfolding seen_ok_def retain_seen view_ok_def by (metis option.inject)
qed

lemma retain_ok: "reader_ok L (fst s) \<Longrightarrow> view_ok L (view_key v) v \<Longrightarrow> reader_ok L (fst (retain v s))"
  using retain_seen_ok [of L s v] by (simp add: reader_ok_def retain_fields)

section \<open>Reading many rows\<close>

text \<open>The fields that the reads of a poll leave alone.\<close>

definition frame :: "table_reader \<Rightarrow> _" where
  "frame tr = (tr_partitions tr, tr_ignored tr, tr_rings tr, tr_rescan tr)"

lemma frame_known: "frame tr' = frame tr \<Longrightarrow> row_known tr' key \<longleftrightarrow> row_known tr key"
  by (simp add: frame_def row_known_def)

lemma frame_retain [simp]: "frame (fst (retain v s)) = frame (fst s)"
  by (simp add: frame_def retain_fields)

lemma frame_hints [simp]: "frame (drop_hint key tr) = frame tr" "frame (put_hint key e tr) = frame tr"
  by (simp_all add: frame_def drop_hint_def put_hint_def)

lemma hint_step_fields [simp]:
  "tr_seen (drop_hint key tr) = tr_seen tr" "tr_views (drop_hint key tr) = tr_views tr" "tr_scan (drop_hint key tr) = tr_scan tr"
  "tr_seen (put_hint key e tr) = tr_seen tr" "tr_views (put_hint key e tr) = tr_views tr" "tr_scan (put_hint key e tr) = tr_scan tr"
  "tr_rings (drop_hint key tr) = tr_rings tr" "tr_rings (put_hint key e tr) = tr_rings tr"
  "tr_pending (drop_hint key tr) = AList.delete key (tr_pending tr)" "tr_pending (put_hint key e tr) = AList.update key e (tr_pending tr)"
  by (simp_all add: drop_hint_def put_hint_def)

lemma hints_ok_delete: "hints_ok L h \<Longrightarrow> hints_ok L (AList.delete key h)"
proof (induction h)
  case (Cons kv h)
  have "set (AList.delete key h) \<subseteq> set h" by (induction h) auto
  then show ?case using Cons by (auto simp: hints_ok_def list_all_iff)
qed simp

lemma drop_hint_ok: "reader_ok L tr \<Longrightarrow> reader_ok L (drop_hint key tr)"
  using hints_ok_delete by (simp add: reader_ok_def seen_ok_def)

lemma put_hint_ok: "reader_ok L tr \<Longrightarrow> hint_ok L e \<Longrightarrow> entry_key e = key \<Longrightarrow> reader_ok L (put_hint key e tr)"
  using hints_ok_update by (simp add: reader_ok_def seen_ok_def)

text \<open>How much a step keeps for a stable row: once seen it stays seen, and otherwise its hint stays.\<close>

definition keeps_row :: "(row_key \<Rightarrow> int) \<Rightarrow> row_key \<Rightarrow> table_reader \<Rightarrow> table_reader \<Rightarrow> bool" where
  "keeps_row L key tr tr' \<longleftrightarrow> (seen_now L tr key \<longrightarrow> seen_now L tr' key)
     \<and> (hinted L (tr_pending tr) key \<longrightarrow> hinted L (tr_pending tr') key \<or> seen_now L tr' key)"

lemma keeps_row_trans: "keeps_row L key a b \<Longrightarrow> keeps_row L key b c \<Longrightarrow> keeps_row L key a c"
  unfolding keeps_row_def by blast

lemma keeps_row_retain:
  assumes "view_ok L (view_key v) v" "view_key v = key \<longrightarrow> bs_publish_seq v = L key \<or> map_of (tr_seen (fst s)) key = Some (bs_publish_seq v)"
  shows "keeps_row L key (fst s) (fst (retain v s))"
  using assms by (auto simp: keeps_row_def seen_now_def retain_seen retain_fields)

lemma read_pending_Cons:
  assumes "read_pending src ((key, e) # hs) s = Inr s'"
  obtains (conflict) err where "read_entry src (drop_hint key (fst s)) e = Inl err"
      "read_pending src hs (put_hint key e (drop_hint key (fst s)), snd s) = Inr s'"
    | (view) v where "read_entry src (drop_hint key (fst s)) e = Inr v" "read_pending src hs (retain v (drop_hint key (fst s), snd s)) = Inr s'"
  using assms by (auto simp: Let_def split: sum.splits if_splits)

definition listed :: "(row_key \<Rightarrow> int) \<Rightarrow> hints \<Rightarrow> bool" where
  "listed L hs \<longleftrightarrow> list_all (\<lambda>(key, e). entry_key e = key \<and> hint_ok L e) hs"

lemma read_pending_ok:
  assumes "limits L" "source_ok L src" "listed L hs" "reader_ok L (fst s)" "read_pending src hs s = Inr s'"
  shows "reader_ok L (fst s') \<and> frame (fst s') = frame (fst s) \<and> tr_scan (fst s') = tr_scan (fst s)"
  using assms(3-5)
proof (induction hs arbitrary: s)
  case (Cons h hs)
  obtain key e where h: "h = (key, e)" by (cases h)
  have ke: "entry_key e = key" "hint_ok L e" "listed L hs" using Cons.prems(1) by (simp_all add: listed_def h)
  have ok: "reader_ok L (drop_hint key (fst s))" using drop_hint_ok Cons.prems(2) by simp
  from Cons.prems(3) [unfolded h] show ?case
  proof (cases rule: read_pending_Cons)
    case (conflict err)
    then show ?thesis using Cons.IH [OF ke(3) _ conflict(2)] put_hint_ok [OF ok ke(2,1)] by simp
  next
    case (view v)
    have "view_ok L key v" using read_entry_ok [OF assms(1) _ assms(2) ke(2) view(1)] ok ke(1) by (simp add: reader_ok_def)
    then have "reader_ok L (fst (retain v (drop_hint key (fst s), snd s)))" by (intro retain_ok) (simp_all add: ok view_ok_def)
    then show ?thesis using Cons.IH [OF ke(3) _ view(2)] by (simp add: retain_fields)
  qed
qed simp

lemma hinted_update: "hinted L (AList.update k e h) key \<longleftrightarrow> (if k = key then sc_publish_seq e = L key else hinted L h key)"
  by (simp add: hinted_def update_conv')

lemma hinted_delete: "hinted L (AList.delete k h) key \<longleftrightarrow> k \<noteq> key \<and> hinted L h key"
  by (simp add: hinted_def delete_conv')

text \<open>Reading a hint of the current sequence of a stable row makes it seen.\<close>

lemma read_pending_keeps:
  assumes "limits L" "source_ok L src" "stable_row L src key" "listed L hs" "reader_ok L (fst s)" "row_known (fst s) key"
    and "read_pending src hs s = Inr s'"
  shows "(seen_now L (fst s) key \<longrightarrow> seen_now L (fst s') key)
    \<and> (hinted L (tr_pending (fst s)) key \<and> (\<forall>e. (key, e) \<in> set hs \<longrightarrow> sc_publish_seq e = L key)
        \<longrightarrow> hinted L (tr_pending (fst s')) key \<or> seen_now L (fst s') key)"
  using assms(4-7)
proof (induction hs arbitrary: s)
  case (Cons h hs)
  obtain k e where h: "h = (k, e)" by (cases h)
  have ke: "entry_key e = k" "hint_ok L e" "listed L hs" using Cons.prems(1) by (simp_all add: listed_def h)
  let ?d = "drop_hint k (fst s)"
  have ok: "reader_ok L ?d" and seen: "seen_ok L ?d" using drop_hint_ok Cons.prems(2) by (simp_all add: reader_ok_def)
  have known: "row_known ?d key" using Cons.prems(3) frame_known [of ?d "fst s" key] by simp
  from Cons.prems(4) [unfolded h] show ?case
  proof (cases rule: read_pending_Cons)
    case (conflict err)
    have "k \<noteq> key" using read_entry_stable [OF assms(1) seen assms(3) known ke(2)] conflict(1) ke(1) by auto
    moreover have "row_known (put_hint k e ?d) key" using known frame_known [of "put_hint k e ?d" ?d key] by simp
    ultimately show ?thesis using Cons.IH [OF ke(3) _ _ conflict(2)] put_hint_ok [OF ok ke(2,1)]
      by (auto simp: h seen_now_def hinted_update hinted_delete)
  next
    case (view v)
    have v: "view_ok L k v" using read_entry_ok [OF assms(1) seen assms(2) ke(2) view(1)] ke(1) by simp
    then have ok': "reader_ok L (fst (retain v (?d, snd s)))" by (intro retain_ok) (simp_all add: ok view_ok_def)
    have known': "row_known (fst (retain v (?d, snd s))) key" using known frame_known [of "fst (retain v (?d, snd s))" ?d key] by simp
    note IH = Cons.IH [OF ke(3) ok' known' view(2)]
    show ?thesis
    proof (cases "k = key")
      case False
      then show ?thesis using IH v by (auto simp: h seen_now_def retain_seen retain_fields hinted_delete view_ok_def)
    next
      case True
      have read: "bs_publish_seq v = L key \<or> (map_of (tr_seen (fst s)) key = Some (bs_publish_seq v) \<and> sc_publish_seq e \<le> bs_publish_seq v)"
        using read_entry_stable [OF assms(1) seen assms(3) known ke(2)] view(1) ke(1) True by auto
      have le: "bs_publish_seq v \<le> L key" using v True by (simp add: view_ok_def)
      have now: "seen_now L (fst (retain v (?d, snd s))) key \<longleftrightarrow> bs_publish_seq v = L key"
        using v True by (simp add: seen_now_def retain_seen view_ok_def)
      have go: "bs_publish_seq v = L key \<Longrightarrow> seen_now L (fst s') key" using IH now by blast
      have "seen_now L (fst s) key \<Longrightarrow> bs_publish_seq v = L key" using read by (auto simp: seen_now_def)
      moreover have "sc_publish_seq e = L key \<Longrightarrow> bs_publish_seq v = L key" using read le by auto
      moreover have "(key, e) \<in> set (h # hs)" using h True by simp
      ultimately show ?thesis using go by blast
    qed
  qed
qed simp

lemma stable_read:
  assumes "stable_row L src key"
  shows "rs_seq src a key = Inr (L key)" and "\<exists>v. rs_read src a key = Inr v \<and> view_ok L key v \<and> bs_publish_seq v = L key"
    and "L key \<noteq> invalid U64"
  using assms unfolding stable_row_def by blast+

lemma source_read: "source_ok L src \<Longrightarrow> rs_read src a key = Inr v \<Longrightarrow> view_ok L key v"
  unfolding source_ok_def by blast

text \<open>One access that looks at the sequence first, as the priority reads and the scan do.\<close>

lemma look_retain:
  assumes "source_ok L src" "rs_read src a key' = Inr v" "reader_ok L (fst s)"
  shows "reader_ok L (fst (retain v s)) \<and> (stable_row L src key \<longrightarrow> seen_now L (fst s) key \<or> key' = key \<longrightarrow> seen_now L (fst (retain v s)) key)"
proof -
  have v: "view_ok L key' v" by (rule source_read [OF assms(1,2)])
  then have "reader_ok L (fst (retain v s))" using retain_ok [OF assms(3)] by (simp add: view_ok_def)
  moreover have "bs_publish_seq v = L key" if "stable_row L src key" "key' = key"
    using stable_read(2) [OF that(1), of a] assms(2) that(2) by auto
  ultimately show ?thesis using v by (auto simp: seen_now_def retain_seen view_ok_def)
qed

lemma read_priority_ok:
  assumes "source_ok L src" "reader_ok L (fst s)" "read_priority src keys s = Inr s'"
  shows "reader_ok L (fst s') \<and> frame (fst s') = frame (fst s) \<and> tr_scan (fst s') = tr_scan (fst s) \<and> tr_pending (fst s') = tr_pending (fst s)
    \<and> (\<forall>key. stable_row L src key \<longrightarrow> seen_now L (fst s) key \<longrightarrow> seen_now L (fst s') key)"
  using assms(2,3)
proof (induction keys arbitrary: s)
  case (Cons k keys)
  show ?case
  proof (cases "read_priority src keys s = Inr s'")
    case True
    then show ?thesis using Cons.IH Cons.prems(1) by blast
  next
    case False
    then obtain v where v: "rs_read src PriorityAccess k = Inr v" "read_priority src keys (retain v s) = Inr s'"
      using Cons.prems(2) by (auto simp: bind_r_eq_Inr split: if_splits sum.splits)
    note look = look_retain [OF assms(1) v(1) Cons.prems(1)]
    show ?thesis using Cons.IH [OF _ v(2)] look by (simp add: retain_fields)
  qed
qed simp

definition scan_has :: "table_reader \<Rightarrow> row_key \<Rightarrow> bool" where
  "scan_has tr key \<longleftrightarrow> (\<exists>row \<le> snd key. (fst key, row) \<in> set (tr_scan tr))"

lemma next_scan_has:
  assumes "row_known tr key" "tr_scan tr = k # rest" "scan_has tr key" "k \<noteq> key"
  shows "scan_has (tr\<lparr>tr_scan := next_scan tr\<rparr>) key"
proof -
  obtain row where row: "row \<le> snd key" "(fst key, row) \<in> set (k # rest)" using assms(2,3) by (auto simp: scan_has_def)
  show ?thesis
  proof (cases "(fst key, row) \<in> set rest")
    case True
    then show ?thesis using assms(2) row(1) by (cases k) (auto simp: scan_has_def next_scan_def)
  next
    case False
    then have k: "k = (fst key, row)" using row(2) by simp
    then have "row < snd key" using row(1) assms(4) by (cases key) auto
    moreover have "snd key < capacity_rows tr (fst key)" using assms(1) by (auto simp: row_known_def capacity_rows_def)
    ultimately show ?thesis using assms(2) k by (auto simp: scan_has_def next_scan_def intro!: exI [of _ "row + 1"])
  qed
qed

lemma set_scan [simp]:
  "frame (tr\<lparr>tr_scan := x\<rparr>) = frame tr" "tr_pending (tr\<lparr>tr_scan := x\<rparr>) = tr_pending tr" "seen_now L (tr\<lparr>tr_scan := x\<rparr>) key = seen_now L tr key"
  "reader_ok L (tr\<lparr>tr_scan := x\<rparr>) = reader_ok L tr" "row_known (tr\<lparr>tr_scan := x\<rparr>) key = row_known tr key"
  by (simp_all add: frame_def seen_now_def reader_ok_def seen_ok_def row_known_def)

text \<open>One row of the scan: what it keeps, and that a stable row it looks at is seen.\<close>

definition scan_step_ok :: "(row_key \<Rightarrow> int) \<Rightarrow> row_source \<Rightarrow> row_key \<Rightarrow> table_reader \<Rightarrow> table_reader \<Rightarrow> bool" where
  "scan_step_ok L src k tr tr' \<longleftrightarrow> reader_ok L tr' \<and> frame tr' = frame tr \<and> tr_scan tr' = tr_scan tr
     \<and> (\<forall>key. stable_row L src key \<longrightarrow> (seen_now L tr key \<or> k = key \<longrightarrow> seen_now L tr' key)
         \<and> (hinted L (tr_pending tr) key \<longrightarrow> hinted L (tr_pending tr') key \<or> seen_now L tr' key))"

lemma scan_one_ok:
  assumes "source_ok L src" "reader_ok L (fst s)" "rs_seq src ScanAccess k = Inr seq"
    and "(if seq = invalid U64 \<or> map_of (tr_seen (fst s)) k = Some seq then Inr s
          else case rs_read src ScanAccess k of
              Inr view \<Rightarrow> Inr (retain view s)
            | Inl err \<Rightarrow> if is_conflict err then bind_r (hint_of k seq) (\<lambda>e. Inr (put_hint k e (fst s), snd s)) else Inl err) = Inr s'"
  shows "scan_step_ok L src k (fst s) (fst s')"
proof (cases "seq = invalid U64 \<or> map_of (tr_seen (fst s)) k = Some seq")
  case True
  then have "seen_now L (fst s) key" if "stable_row L src key" "k = key" for key
    using stable_read(1,3) [OF that(1)] assms(3) that(2) by (auto simp: seen_now_def)
  then show ?thesis using True assms(2,4) by (auto simp: scan_step_ok_def)
next
  case False
  show ?thesis
  proof (cases "rs_read src ScanAccess k")
    case (Inr v)
    then have s': "s' = retain v s" using False assms(4) by simp
    show ?thesis using look_retain [OF assms(1) Inr assms(2)] by (auto simp: scan_step_ok_def s' retain_fields)
  next
    case (Inl err)
    then obtain e where e: "hint_of k seq = Inr e" "s' = (put_hint k e (fst s), snd s)"
      using False assms(4) by (auto simp: bind_r_eq_Inr split: if_splits)
    have "seq = invalid U64 \<or> 0 \<le> seq \<and> seq \<le> L k" using assms(1,3) unfolding source_ok_def by blast
    then have he: "hint_ok L e" "entry_key e = k" using e(1) False by (auto simp: hint_of_def hint_ok_def entry_key_def bind_r_eq_Inr)
    have "k \<noteq> key" if "stable_row L src key" for key using stable_read(2) [OF that, of ScanAccess] Inl by auto
    then show ?thesis using put_hint_ok [OF assms(2) he] by (auto simp: scan_step_ok_def e(2) seen_now_def hinted_update)
  qed
qed

lemma scan_some_ok:
  assumes "source_ok L src" "reader_ok L (fst s)" "scan_some src n s = Inr (scanned, s')"
  shows "reader_ok L (fst s') \<and> frame (fst s') = frame (fst s)
    \<and> (\<forall>key. stable_row L src key \<longrightarrow> row_known (fst s) key \<longrightarrow> (seen_now L (fst s) key \<longrightarrow> seen_now L (fst s') key)
         \<and> (hinted L (tr_pending (fst s)) key \<longrightarrow> hinted L (tr_pending (fst s')) key \<or> seen_now L (fst s') key)
         \<and> (scan_has (fst s) key \<longrightarrow> scan_has (fst s') key \<or> seen_now L (fst s') key))"
  using assms(2,3)
proof (induction n arbitrary: s scanned)
  case (Suc n)
  show ?case
  proof (cases "tr_scan (fst s)")
    case Nil
    then show ?thesis using Suc.prems by simp
  next
    case (Cons k rest)
    obtain seq s1 m where seq: "rs_seq src ScanAccess k = Inr seq"
      and s1: "(if seq = invalid U64 \<or> map_of (tr_seen (fst s)) k = Some seq then Inr s
          else case rs_read src ScanAccess k of
              Inr view \<Rightarrow> Inr (retain view s)
            | Inl err \<Rightarrow> if is_conflict err then bind_r (hint_of k seq) (\<lambda>e. Inr (put_hint k e (fst s), snd s)) else Inl err) = Inr s1"
      and rest: "scan_some src n ((fst s1)\<lparr>tr_scan := next_scan (fst s1)\<rparr>, snd s1) = Inr (m, s')"
      using Suc.prems(2) Cons by (auto simp: bind_r_eq_Inr Let_def simp del: bind_r_simps)
    have step: "scan_step_ok L src k (fst s) (fst s1)" by (rule scan_one_ok [OF assms(1) Suc.prems(1) seq s1])
    have ok: "reader_ok L (fst s1)" "frame (fst s1) = frame (fst s)" "tr_scan (fst s1) = k # rest" using step Cons by (simp_all add: scan_step_ok_def)
    have IH: "reader_ok L (fst s') \<and> frame (fst s') = frame (fst s1)
      \<and> (\<forall>key. stable_row L src key \<longrightarrow> row_known (fst s1) key \<longrightarrow> (seen_now L (fst s1) key \<longrightarrow> seen_now L (fst s') key)
         \<and> (hinted L (tr_pending (fst s1)) key \<longrightarrow> hinted L (tr_pending (fst s')) key \<or> seen_now L (fst s') key)
         \<and> (scan_has ((fst s1)\<lparr>tr_scan := next_scan (fst s1)\<rparr>) key \<longrightarrow> scan_has (fst s') key \<or> seen_now L (fst s') key))"
      using Suc.IH [OF _ rest] ok(1) by simp
    have scan: "seen_now L (fst s1) key \<or> scan_has ((fst s1)\<lparr>tr_scan := next_scan (fst s1)\<rparr>) key"
      if "stable_row L src key" "row_known (fst s) key" "scan_has (fst s) key" for key
    proof (cases "k = key")
      case True
      then show ?thesis using step that(1) by (simp add: scan_step_ok_def)
    next
      case False
      have "scan_has (fst s1) key" using that(3) ok(3) Cons by (simp add: scan_has_def)
      then show ?thesis using next_scan_has [OF _ ok(3) _ False] frame_known [OF ok(2)] that(2) by blast
    qed
    have known: "row_known (fst s1) key \<longleftrightarrow> row_known (fst s) key" for key by (rule frame_known [OF ok(2)])
    show ?thesis using IH step scan unfolding scan_step_ok_def known by metis
  qed
qed simp

section \<open>The bounded poll\<close>

definition ringed :: "(row_key \<Rightarrow> int) \<Rightarrow> table_reader \<Rightarrow> row_key \<Rightarrow> bool" where
  "ringed L tr key \<longleftrightarrow> list_ex (ring_covers L key) (tr_rings tr)"

lemma covered_iff: "covered L tr key \<longleftrightarrow> seen_now L tr key \<or> hinted L (tr_pending tr) key \<or> tr_rescan tr \<or> scan_has tr key \<or> ringed L tr key"
  by (auto simp: covered_def scan_covers_def scan_has_def ringed_def)

lemma list_ex_update:
  assumes "i < length xs"
  shows "list_ex P (xs[i := x]) \<longleftrightarrow> P x \<or> (\<exists>j < length xs. j \<noteq> i \<and> P (xs ! j))"
  using assms unfolding list_ex_length by (metis length_list_update nth_list_update)

definition drained :: "table_reader \<Rightarrow> table_reader \<Rightarrow> bool" where
  "drained tr tr' \<longleftrightarrow> (\<exists>rs h. tr' = tr\<lparr>tr_rings := rs, tr_pending := h\<rparr> \<and> length rs = length (tr_rings tr))"

lemma drain_shares_ok:
  assumes "limits L" "reader_ok L tr" "0 \<le> remaining" "tr_rings tr \<noteq> [] \<or> n = 0" "drain_shares n offset remaining tr ov = Inr (tr', ov')"
  shows "reader_ok L tr' \<and> drained tr tr' \<and> (ov \<longrightarrow> ov') \<and> (\<forall>key. fst key \<notin> set (tr_ignored tr) \<longrightarrow>
      hinted L (tr_pending tr) key \<or> ringed L tr key \<longrightarrow> hinted L (tr_pending tr') key \<or> ringed L tr' key \<or> ov')"
  using assms(2-5)
proof (induction n arbitrary: offset remaining tr ov)
  case 0
  have "tr = tr\<lparr>tr_rings := tr_rings tr, tr_pending := tr_pending tr\<rparr>" by simp
  then have "drained tr tr" unfolding drained_def by blast
  then show ?case using 0 by auto
next
  case (Suc n)
  let ?i = "(tr_ring_cursor tr + offset) mod length (tr_rings tr)" and ?share = "remaining div (int n + 1)"
  have i: "?i < length (tr_rings tr)" using Suc.prems(3) by (simp add: mod_less_divisor)
  have ring: "ring_ok L (tr_rings tr ! ?i)" using Suc.prems(1) i by (simp add: reader_ok_def list_all_length)
  have share: "0 \<le> ?share" "?share \<le> remaining" using Suc.prems(2) zdiv_mono2 [of remaining 1 "int n + 1"] by (simp_all add: pos_imp_zdiv_nonneg_iff)
  obtain b r' h' where d: "drain (Some ?share) (tr_rings tr ! ?i) = Inr (b, r')" "merge_hints (tr_ignored tr) (sb_entries b) (tr_pending tr) = Inr h'"
    "ring_ok L r'" "hints_ok L h'" "int (length (sb_entries b)) \<le> ?share"
    "\<forall>key. fst key \<notin> set (tr_ignored tr) \<longrightarrow> hinted L (tr_pending tr) key \<or> ring_covers L key (tr_rings tr ! ?i)
       \<longrightarrow> hinted L h' key \<or> ring_covers L key r' \<or> sb_overflowed b"
    using drain_ok [OF assms(1) ring, of "tr_pending tr" "Some ?share" "tr_ignored tr"] Suc.prems(1) share(1) by (auto simp: reader_ok_def)
  let ?tr = "tr\<lparr>tr_rings := (tr_rings tr)[?i := r'], tr_pending := h'\<rparr>"
  have rest: "drain_shares n (offset + 1) (remaining - int (length (sb_entries b))) ?tr (ov \<or> sb_overflowed b) = Inr (tr', ov')"
    using Suc.prems(4) d(1,2) by (simp add: Let_def)
  have rings: "list_all (ring_ok L) ((tr_rings tr)[?i := r'])"
    using Suc.prems(1) d(3) by (auto simp: reader_ok_def list_all_iff dest!: subsetD [OF set_update_subset_insert])
  have ok: "reader_ok L ?tr" using Suc.prems(1) d(4) rings by (simp add: reader_ok_def seen_ok_def)
  have "0 \<le> remaining - int (length (sb_entries b))" using d(5) share(2) by simp
  from Suc.IH [OF ok this _ rest] Suc.prems(3)
  have IH: "reader_ok L tr'" "drained ?tr tr'" "ov \<or> sb_overflowed b \<longrightarrow> ov'" "\<forall>key. fst key \<notin> set (tr_ignored tr) \<longrightarrow>
      hinted L h' key \<or> ringed L ?tr key \<longrightarrow> hinted L (tr_pending tr') key \<or> ringed L tr' key \<or> ov'" by auto
  have step: "hinted L h' key \<or> ringed L ?tr key \<or> sb_overflowed b"
    if key: "fst key \<notin> set (tr_ignored tr)" "hinted L (tr_pending tr) key \<or> ringed L tr key" for key
  proof -
    have "ringed L ?tr key \<longleftrightarrow> ring_covers L key r' \<or> (\<exists>j < length (tr_rings tr). j \<noteq> ?i \<and> ring_covers L key (tr_rings tr ! j))"
      using list_ex_update [OF i] by (simp add: ringed_def)
    moreover have "hinted L (tr_pending tr) key \<or> (\<exists>j < length (tr_rings tr). ring_covers L key (tr_rings tr ! j))"
      using key(2) by (auto simp: ringed_def list_ex_length)
    ultimately show ?thesis using d(6) key(1) by metis
  qed
  have "drained tr tr'" using IH(2) by (auto simp: drained_def)
  then show ?case using IH step by blast
qed

lemma drained_fields:
  assumes "drained tr tr'"
  shows "tr_partitions tr' = tr_partitions tr" "tr_ignored tr' = tr_ignored tr" "tr_rescan tr' = tr_rescan tr" "tr_scan tr' = tr_scan tr"
    "tr_seen tr' = tr_seen tr" "length (tr_rings tr') = length (tr_rings tr)"
  using assms by (auto simp: drained_def)

lemma start_scan_ok:
  assumes "reader_ok L tr"
  shows "reader_ok L (start_scan ov tr)" "row_known (start_scan ov tr) key \<longleftrightarrow> row_known tr key"
    and "row_known tr key \<Longrightarrow> covered L tr key \<or> ov \<Longrightarrow> covered L (start_scan ov tr) key"
proof -
  show "reader_ok L (start_scan ov tr)" "row_known (start_scan ov tr) key \<longleftrightarrow> row_known tr key"
    using assms by (simp_all add: start_scan_def Let_def reader_ok_def seen_ok_def row_known_def)
  assume known: "row_known tr key" and cov: "covered L tr key \<or> ov"
  have keep: "seen_now L (start_scan ov tr) key = seen_now L tr key" "tr_pending (start_scan ov tr) = tr_pending tr"
    "ringed L (start_scan ov tr) key = ringed L tr key"
    by (simp_all add: start_scan_def Let_def seen_now_def ringed_def)
  show "covered L (start_scan ov tr) key"
  proof (cases "tr_scan tr = [] \<and> (tr_rescan tr \<or> ov)")
    case True
    obtain n where "map_of (tr_partitions tr) (fst key) = Some n" "fst key \<notin> set (tr_ignored tr)" "0 \<le> snd key"
      using known by (auto simp: row_known_def)
    then have "(fst key, 0) \<in> set (tr_scan (start_scan ov tr))" using True by (force simp: start_scan_def Let_def dest: map_of_SomeD)
    then have "scan_has (start_scan ov tr) key" using \<open>0 \<le> snd key\<close> by (auto simp: scan_has_def)
    then show ?thesis by (simp add: covered_iff)
  next
    case False
    then have "tr_scan (start_scan ov tr) = tr_scan tr" "tr_rescan (start_scan ov tr) = (tr_rescan tr \<or> ov)"
      by (auto simp: start_scan_def Let_def)
    then show ?thesis using cov keep by (auto simp: covered_iff scan_has_def)
  qed
qed

lemma ringed_frame: "frame tr' = frame tr \<Longrightarrow> ringed L tr' key = ringed L tr key" "frame tr' = frame tr \<Longrightarrow> tr_rescan tr' = tr_rescan tr"
  by (simp_all add: frame_def ringed_def)

lemma poll_bounded_ok:
  assumes "limits L" "source_ok L src" "reader_ok L tr" "poll_bounded src budget tr = Inr (batch, tr')"
  shows "reader_ok L tr' \<and> (\<forall>key. row_known tr' key \<longleftrightarrow> row_known tr key)
    \<and> (\<forall>key. stable_row L src key \<longrightarrow> row_known tr key \<longrightarrow> covered L tr key \<longrightarrow> covered L tr' key)"
proof -
  obtain tr1 ov s1 s2 s3 scanned where budget: "0 < budget"
    and d: "drain_shares (length (tr_rings tr)) 0 budget tr False = Inr (tr1, ov)"
    and p: "read_priority src (tr_priority (start_scan ov (if tr_rings tr = [] then tr1 else tr1\<lparr>tr_ring_cursor := (tr_ring_cursor tr1 + 1) mod length (tr_rings tr1)\<rparr>)))
      (start_scan ov (if tr_rings tr = [] then tr1 else tr1\<lparr>tr_ring_cursor := (tr_ring_cursor tr1 + 1) mod length (tr_rings tr1)\<rparr>), []) = Inr s1"
    and h: "read_pending src (take (nat (if tr_scan (fst s1) = [] then budget else budget div 2)) (tr_pending (fst s1))) s1 = Inr s2"
    and c: "scan_some src (nat (budget - int (length (take (nat (if tr_scan (fst s1) = [] then budget else budget div 2)) (tr_pending (fst s1)))))) s2 = Inr (scanned, s3)"
    and tr': "tr' = fst s3"
    using assms(4) unfolding poll_bounded_def Let_def by (auto simp: bind_r_eq_Inr split: prod.splits)
  let ?tr1 = "if tr_rings tr = [] then tr1 else tr1\<lparr>tr_ring_cursor := (tr_ring_cursor tr1 + 1) mod length (tr_rings tr1)\<rparr>"
  let ?tr2 = "start_scan ov ?tr1"
  have "0 \<le> budget" "tr_rings tr \<noteq> [] \<or> length (tr_rings tr) = 0" using budget by auto
  note drain = drain_shares_ok [OF assms(1,3) this d]
  have eq1: "reader_ok L ?tr1 = reader_ok L tr1" "row_known ?tr1 key = row_known tr1 key" "covered L ?tr1 key = covered L tr1 key" for key
    by (simp_all add: reader_ok_def seen_ok_def row_known_def covered_def seen_now_def scan_covers_def)
  note fields = drained_fields [of tr tr1]
  have known1: "row_known tr1 key \<longleftrightarrow> row_known tr key" for key using drain fields by (simp add: row_known_def)
  have cov1: "covered L tr1 key \<or> ov" if "row_known tr key" "covered L tr key" for key
  proof -
    have "fst key \<notin> set (tr_ignored tr)" using that(1) by (simp add: row_known_def)
    then have "hinted L (tr_pending tr) key \<or> ringed L tr key \<longrightarrow> hinted L (tr_pending tr1) key \<or> ringed L tr1 key \<or> ov" using drain by blast
    moreover have "seen_now L tr1 key = seen_now L tr key" "scan_has tr1 key = scan_has tr key" "tr_rescan tr1 = tr_rescan tr"
      using drain fields by (simp_all add: seen_now_def scan_has_def)
    ultimately show ?thesis using that(2) unfolding covered_iff by blast
  qed
  have ok1: "reader_ok L ?tr1" using drain eq1(1) by blast
  note start = start_scan_ok [OF ok1]
  note prio = read_priority_ok [OF assms(2) _ p, unfolded fst_conv, OF start(1)]
  have ok_s1: "reader_ok L (fst s1)" using prio by blast
  let ?hs = "take (nat (if tr_scan (fst s1) = [] then budget else budget div 2)) (tr_pending (fst s1))"
  have pend: "hints_ok L (tr_pending (fst s1))" using ok_s1 by (simp add: reader_ok_def)
  then have listed: "listed L ?hs" unfolding listed_def hints_ok_def list_all_iff by (meson in_set_takeD)
  note hint = read_pending_ok [OF assms(1,2) listed ok_s1 h]
  have ok_s2: "reader_ok L (fst s2)" using hint by blast
  note scan = scan_some_ok [OF assms(2) ok_s2 c]
  have known2: "row_known ?tr2 key \<longleftrightarrow> row_known tr key" for key using known1 start(2) eq1(2) by blast
  have known3: "row_known (fst s1) key \<longleftrightarrow> row_known tr key" for key using prio frame_known [of "fst s1" ?tr2 key] known2 by blast
  have known4: "row_known (fst s2) key \<longleftrightarrow> row_known tr key" for key using hint frame_known [of "fst s2" "fst s1" key] known3 by blast
  have known5: "row_known tr' key \<longleftrightarrow> row_known tr key" for key using scan frame_known [of "fst s3" "fst s2" key] known4 tr' by blast
  have "covered L tr' key" if key: "stable_row L src key" "row_known tr key" "covered L tr key" for key
  proof -
    have known_s1: "row_known (fst s1) key" and known_s2: "row_known (fst s2) key" using key(2) known3 known4 by blast+
    have "covered L ?tr2 key" using start(3) [where key = key and ov = ov] cov1 [OF key(2,3)] known1 key(2) eq1 by blast
    then have c1: "covered L (fst s1) key"
      using prio key(1) ringed_frame(1) [of "fst s1" ?tr2 L key] ringed_frame(2) [of "fst s1" ?tr2] unfolding covered_iff scan_has_def by metis
    have exact: "sc_publish_seq e = L key" if "hinted L (tr_pending (fst s1)) key" "(key, e) \<in> set ?hs" for e
    proof -
      have "(key, e) \<in> set (tr_pending (fst s1))" using that(2) by (meson in_set_takeD)
      then have "map_of (tr_pending (fst s1)) key = Some e" using pend by (simp add: hints_ok_def)
      then show ?thesis using that(1) by (simp add: hinted_def)
    qed
    have c2: "covered L (fst s2) key"
      using read_pending_keeps [OF assms(1,2) key(1) listed ok_s1 known_s1 h] exact hint c1 ringed_frame(1) [of "fst s2" "fst s1" L key] ringed_frame(2) [of "fst s2" "fst s1"]
      unfolding covered_iff scan_has_def by metis
    show ?thesis
      using scan key(1) known_s2 c2 ringed_frame(1) [of "fst s3" "fst s2" L key] ringed_frame(2) [of "fst s3" "fst s2"] unfolding covered_iff tr' by metis
  qed
  then show ?thesis using scan tr' known5 by blast
qed

end
