(* ===== verification/ReaderSafety.thy ===== *)
theory ReaderSafety
  imports ReaderFacts
begin

text \<open>
  The reader against its owners: the unbounded poll keeps what the bounded one keeps, and in every history of
  publications, notifications and polls no update of a row is lost.
\<close>

section \<open>The unbounded poll\<close>

lemma fold_retain_ok:
  assumes "reader_ok L (fst s)" "list_all (\<lambda>v. view_ok L (view_key v) v) vs" "\<forall>v \<in> set vs. view_key v = key \<longrightarrow> bs_publish_seq v = q"
  shows "reader_ok L (fst (fold retain vs s)) \<and> frame (fst (fold retain vs s)) = frame (fst s)
    \<and> tr_pending (fst (fold retain vs s)) = tr_pending (fst s) \<and> tr_scan (fst (fold retain vs s)) = tr_scan (fst s)
    \<and> map_of (tr_seen (fst (fold retain vs s))) key = (if \<exists>v \<in> set vs. view_key v = key then Some q else map_of (tr_seen (fst s)) key)"
  using assms
proof (induction vs arbitrary: s)
  case (Cons v vs)
  have "reader_ok L (fst (retain v s))" using retain_ok Cons.prems by simp
  from Cons.IH [OF this] Cons.prems(2,3) show ?case by (auto simp: retain_fields retain_seen)
qed simp

lemma read_hinted_ok:
  assumes "limits L" "source_ok L src" "seen_ok L tr" "list_all (hint_ok L) es" "distinct (map entry_key es)" "hints_ok L pend"
    and "read_hinted src tr es changed pend = Inr (changed', pend')"
  shows "\<exists>new. changed' = changed @ new \<and> list_all (\<lambda>v. view_ok L (view_key v) v) new \<and> hints_ok L pend'
    \<and> distinct (map view_key new) \<and> set (map view_key new) \<subseteq> set (map entry_key es)
    \<and> (\<forall>key e. stable_row L src key \<longrightarrow> row_known tr key \<longrightarrow> e \<in> set es \<longrightarrow> entry_key e = key \<longrightarrow> (\<exists>v \<in> set new. view_key v = key
        \<and> (bs_publish_seq v = L key \<or> map_of (tr_seen tr) key = Some (bs_publish_seq v) \<and> sc_publish_seq e \<le> bs_publish_seq v)))"
  using assms(4-7)
proof (induction es arbitrary: changed pend)
  case (Cons e es)
  have e: "hint_ok L e" "entry_key e \<notin> set (map entry_key es)" "list_all (hint_ok L) es" "distinct (map entry_key es)" using Cons.prems(1,2) by simp_all
  show ?case
  proof (cases "read_entry src tr e")
    case (Inl err)
    then have rest: "read_hinted src tr es changed (AList.update (entry_key e) e pend) = Inr (changed', pend')"
      using Cons.prems(4) by (simp split: if_splits)
    have "entry_key e \<noteq> key" if "stable_row L src key" "row_known tr key" for key
      using read_entry_stable [OF assms(1,3) that e(1)] Inl by auto
    moreover have "hints_ok L (AList.update (entry_key e) e pend)" using hints_ok_update [OF Cons.prems(3) e(1)] by simp
    ultimately show ?thesis using Cons.IH [OF e(3,4) _ rest] by fastforce
  next
    case (Inr v)
    then have rest: "read_hinted src tr es (changed @ [v]) pend = Inr (changed', pend')" using Cons.prems(4) by simp
    have v: "view_ok L (entry_key e) v" by (rule read_entry_ok [OF assms(1,3,2) e(1) Inr])
    then have vk: "view_key v = entry_key e" by (simp add: view_ok_def)
    obtain new where new: "changed' = (changed @ [v]) @ new" "list_all (\<lambda>v. view_ok L (view_key v) v) new" "hints_ok L pend'"
      "distinct (map view_key new)" "set (map view_key new) \<subseteq> set (map entry_key es)"
      "\<forall>key e. stable_row L src key \<longrightarrow> row_known tr key \<longrightarrow> e \<in> set es \<longrightarrow> entry_key e = key \<longrightarrow> (\<exists>v \<in> set new. view_key v = key
        \<and> (bs_publish_seq v = L key \<or> map_of (tr_seen tr) key = Some (bs_publish_seq v) \<and> sc_publish_seq e \<le> bs_publish_seq v))"
      using Cons.IH [OF e(3,4) Cons.prems(3) rest] by blast
    have head: "bs_publish_seq v = L key \<or> map_of (tr_seen tr) key = Some (bs_publish_seq v) \<and> sc_publish_seq e \<le> bs_publish_seq v"
      if "stable_row L src key" "row_known tr key" "entry_key e = key" for key
      using read_entry_stable [OF assms(1,3) that(1,2) e(1) that(3)] Inr by auto
    have "\<exists>w \<in> set (v # new). view_key w = key
        \<and> (bs_publish_seq w = L key \<or> map_of (tr_seen tr) key = Some (bs_publish_seq w) \<and> sc_publish_seq x \<le> bs_publish_seq w)"
      if "stable_row L src key" "row_known tr key" "x \<in> set (e # es)" "entry_key x = key" for key x
    proof (cases "x = e")
      case True
      then show ?thesis using head [OF that(1,2)] that(4) vk by simp
    next
      case False
      have x: "x \<in> set es" using False that(3) by simp
      note at = that(1,2,4)
      obtain w where "w \<in> set new" "view_key w = key
        \<and> (bs_publish_seq w = L key \<or> map_of (tr_seen tr) key = Some (bs_publish_seq w) \<and> sc_publish_seq x \<le> bs_publish_seq w)"
        using new(6) at x by blast
      then show ?thesis by (intro bexI [of _ w]) simp_all
    qed
    moreover have "distinct (map view_key (v # new))" using new(4,5) e(2) vk by auto
    moreover have "set (map view_key (v # new)) \<subseteq> set (map entry_key (e # es))" using new(5) vk by auto
    ultimately show ?thesis using new(1-3) v vk by (intro exI [of _ "v # new"]) simp
  qed
qed simp

lemma scan_rows_ok:
  assumes "source_ok L src" "hints_ok L pend" "scan_rows src tr keys changed pend = Inr (changed', pend')"
  shows "\<exists>new. changed' = changed @ new \<and> list_all (\<lambda>v. view_ok L (view_key v) v) new \<and> hints_ok L pend'
    \<and> (\<forall>key. stable_row L src key \<longrightarrow> (\<forall>v \<in> set new. view_key v = key \<longrightarrow> bs_publish_seq v = L key)
        \<and> (key \<in> set keys \<longrightarrow> seen_now L tr key \<or> (\<exists>v \<in> set new. view_key v = key)))"
  using assms(2,3)
proof (induction keys arbitrary: changed pend)
  case (Cons k keys)
  obtain seq where seq: "rs_seq src ScanAccess k = Inr seq" using Cons.prems(2) by (auto simp: bind_r_eq_Inr)
  then have at: "seq = L key" if "stable_row L src key" "k = key" for key using stable_read(1) [OF that(1)] that(2) by simp
  show ?case
  proof (cases "seq = invalid U64 \<or> map_of (tr_seen tr) k = Some seq")
    case True
    then have "seen_now L tr key" if "stable_row L src key" "k = key" for key
      using at [OF that] stable_read(3) [OF that(1)] that(2) by (auto simp: seen_now_def)
    moreover have "scan_rows src tr keys changed pend = Inr (changed', pend')" using True seq Cons.prems(2) by simp
    ultimately show ?thesis using Cons.IH [OF Cons.prems(1)] by fastforce
  next
    case skip: False
    show ?thesis
    proof (cases "rs_read src ScanAccess k")
      case (Inl err)
      then obtain e where e: "hint_of k seq = Inr e" "scan_rows src tr keys changed (AList.update k e pend) = Inr (changed', pend')"
        using skip seq Cons.prems(2) by (auto simp: bind_r_eq_Inr split: if_splits)
      have "0 \<le> seq \<and> seq \<le> L k" using assms(1) seq skip unfolding source_ok_def by blast
      then have "hint_ok L e" "entry_key e = k" using e(1) by (auto simp: hint_of_def hint_ok_def entry_key_def bind_r_eq_Inr)
      then have "hints_ok L (AList.update k e pend)" using hints_ok_update [OF Cons.prems(1)] by simp
      moreover have "k \<noteq> key" if "stable_row L src key" for key using stable_read(2) [OF that, of ScanAccess] Inl by auto
      ultimately show ?thesis using Cons.IH [OF _ e(2)] by fastforce
    next
      case (Inr v)
      then have rest: "scan_rows src tr keys (changed @ [v]) pend = Inr (changed', pend')" using skip seq Cons.prems(2) by simp
      have v: "view_ok L k v" by (rule source_read [OF assms(1) Inr])
      then have vk: "view_key v = k" by (simp add: view_ok_def)
      have vs: "bs_publish_seq v = L key" if "stable_row L src key" "k = key" for key
        using stable_read(2) [OF that(1), of ScanAccess] Inr that(2) by auto
      obtain new where new: "changed' = (changed @ [v]) @ new" "list_all (\<lambda>v. view_ok L (view_key v) v) new" "hints_ok L pend'"
        "\<forall>key. stable_row L src key \<longrightarrow> (\<forall>v \<in> set new. view_key v = key \<longrightarrow> bs_publish_seq v = L key)
          \<and> (key \<in> set keys \<longrightarrow> seen_now L tr key \<or> (\<exists>v \<in> set new. view_key v = key))"
        using Cons.IH [OF Cons.prems(1) rest] by blast
      then show ?thesis using v vk vs by (intro exI [of _ "v # new"]) auto
    qed
  qed
qed simp

lemma keep_hints_ok:
  assumes "hints_ok L merged" "hints_ok L pend"
  shows "hints_ok L (keep_hints recovered merged pend)"
proof -
  have "list_all (\<lambda>(key, e). entry_key e = key \<and> hint_ok L e) merged" using assms(1) by (simp add: hints_ok_def)
  then show ?thesis using assms(2) unfolding keep_hints_def
  proof (induction merged arbitrary: pend)
    case (Cons kv merged)
    then show ?case using hints_ok_update [of L pend "snd kv" "fst kv"] by (cases kv) auto
  qed simp
qed

lemma scan_keys_known: "row_known tr key \<Longrightarrow> key \<in> set (scan_keys tr)"
  by (cases key) (force simp: row_known_def scan_keys_def dest!: map_of_SomeD intro!: bexI [of _ "(fst key, _)"] image_eqI [of _ _ "nat (snd key)"])

lemma poll_all_ok:
  assumes "limits L" "source_ok L src" "reader_ok L tr" "poll_all src tr = Inr (batch, tr')"
  shows "reader_ok L tr' \<and> (\<forall>key. row_known tr' key \<longleftrightarrow> row_known tr key)
    \<and> (\<forall>key. stable_row L src key \<longrightarrow> row_known tr key \<longrightarrow> covered L tr key \<longrightarrow> covered L tr' key)"
proof -
  obtain rings merged ov where d: "drain_rings (tr_ignored tr) (tr_rings tr) (tr_pending tr) = Inr (rings, merged, ov)"
    using assms(4) by (auto simp: poll_all_def bind_r_eq_Inr)
  have ok: "seen_ok L tr" "hints_ok L (tr_pending tr)" "list_all (ring_ok L) (tr_rings tr)" using assms(3) by (simp_all add: reader_ok_def)
  have r: "list_all (ring_ok L) rings" "hints_ok L merged"
    "\<forall>key. fst key \<notin> set (tr_ignored tr) \<longrightarrow> hinted L (tr_pending tr) key \<or> list_ex (ring_covers L key) (tr_rings tr) \<longrightarrow> hinted L merged key \<or> ov"
    using drain_rings_ok [OF assms(1) ok(3,2), of "tr_ignored tr"] d by auto
  let ?tr = "tr\<lparr>tr_rings := rings, tr_pending := []\<rparr>"
  have seen: "seen_ok L ?tr" using ok(1) by (simp add: seen_ok_def)
  have known: "row_known ?tr key \<longleftrightarrow> row_known tr key" for key by (simp add: row_known_def)
  obtain changed pend scanned where body: "(if ov then bind_r (scan_rows src ?tr (scan_keys ?tr) [] []) (\<lambda>(changed, pend).
        Inr (changed, keep_hints (set (map view_key changed)) merged pend, length (scan_keys ?tr)))
      else bind_r (read_hinted src ?tr (map snd merged) [] []) (\<lambda>(changed, pend). Inr (changed, pend, 0))) = Inr (changed, pend, scanned)"
    and fin: "(case fold retain changed (?tr\<lparr>tr_pending := pend\<rparr>, []) of (tr'', final) \<Rightarrow>
       Inr (\<lparr>ub_views = map snd final, ub_overflow_recovered = ov, ub_scanned_rows = scanned\<rparr>, tr'')) = (Inr (batch, tr') :: (update_batch \<times> table_reader) result)"
    using assms(4) [unfolded poll_all_def d Let_def bind_r_simps prod.case, unfolded bind_r_eq_Inr [of "if ov then _ else _"]]
    by (elim exE conjE, rename_tac x, case_tac x rule: prod_cases3) (simp only: prod.case)
  have p: "tr' = fst (fold retain changed (?tr\<lparr>tr_pending := pend\<rparr>, []))" using fin by (auto split: prod.splits)
  have c: "if ov then \<exists>q. scan_rows src ?tr (scan_keys ?tr) [] [] = Inr (changed, q) \<and> pend = keep_hints (set (map view_key changed)) merged q
      else read_hinted src ?tr (map snd merged) [] [] = Inr (changed, pend)"
    using body by (auto simp: bind_r_eq_Inr split: if_splits)
  have none: "hints_ok L []" by (simp add: hints_ok_def)
  have "list_all (\<lambda>v. view_ok L (view_key v) v) changed \<and> hints_ok L pend
    \<and> (\<forall>key. stable_row L src key \<longrightarrow> row_known tr key \<longrightarrow> (\<exists>q. (\<forall>v \<in> set changed. view_key v = key \<longrightarrow> bs_publish_seq v = q)
        \<and> (q = L key \<or> map_of (tr_seen tr) key = Some q)
        \<and> (ov \<or> hinted L merged key \<longrightarrow> seen_now L tr key \<or> q = L key \<and> (\<exists>v \<in> set changed. view_key v = key))))"
  proof (cases ov)
    case True
    then obtain q where q: "scan_rows src ?tr (scan_keys ?tr) [] [] = Inr (changed, q)" "pend = keep_hints (set (map view_key changed)) merged q"
      using c by auto
    note scan = scan_rows_ok [OF assms(2) none q(1), simplified]
    have sn: "seen_now L ?tr key = seen_now L tr key" for key by (simp add: seen_now_def)
    have all: "(\<forall>v \<in> set changed. view_key v = key \<longrightarrow> bs_publish_seq v = L key) \<and> (seen_now L tr key \<or> (\<exists>v \<in> set changed. view_key v = key))"
      if "stable_row L src key" "row_known tr key" for key
    proof -
      have "key \<in> set (scan_keys ?tr)" using scan_keys_known [of ?tr key] that(2) known by blast
      then show ?thesis using scan that(1) unfolding sn [symmetric] by blast
    qed
    have "hints_ok L pend" using scan keep_hints_ok [OF r(2)] q(2) by blast
    moreover have "list_all (\<lambda>v. view_ok L (view_key v) v) changed" using scan by blast
    ultimately show ?thesis using all by blast
  next
    case False
    then have q: "read_hinted src ?tr (map snd merged) [] [] = Inr (changed, pend)" using c by simp
    have keys: "map entry_key (map snd merged) = map fst merged" "list_all (hint_ok L) (map snd merged)"
      using r(2) by (auto simp: hints_ok_def list_all_iff)
    have "distinct (map entry_key (map snd merged))" unfolding keys(1) using r(2) by (simp add: hints_ok_def)
    note read = read_hinted_ok [OF assms(1,2) seen keys(2) this none q, simplified, unfolded known]
    have one: "v = w" if "v \<in> set changed" "w \<in> set changed" "view_key v = view_key w" for v w
      using read that by (meson distinct_map inj_onD)
    have "\<exists>q. (\<forall>v \<in> set changed. view_key v = key \<longrightarrow> bs_publish_seq v = q) \<and> (q = L key \<or> map_of (tr_seen tr) key = Some q)
        \<and> (hinted L merged key \<longrightarrow> seen_now L tr key \<or> q = L key \<and> (\<exists>v \<in> set changed. view_key v = key))"
      if key: "stable_row L src key" "row_known tr key" for key
    proof (cases "\<exists>e \<in> snd ` set merged. entry_key e = key")
      case True
      then obtain e where e: "e \<in> snd ` set merged" "entry_key e = key" by blast
      then obtain v where v: "v \<in> set changed" "view_key v = key"
        "bs_publish_seq v = L key \<or> map_of (tr_seen tr) key = Some (bs_publish_seq v) \<and> sc_publish_seq e \<le> bs_publish_seq v"
        using read key e by blast
      have "sc_publish_seq e = L key" if "hinted L merged key"
      proof -
        obtain k where k: "(k, e) \<in> set merged" using e(1) by auto
        then have "k = key" using r(2) e(2) by (auto simp: hints_ok_def list_all_iff)
        then have "map_of merged key = Some e" using k r(2) by (simp add: hints_ok_def)
        then show ?thesis using that by (simp add: hinted_def)
      qed
      moreover have "bs_publish_seq v \<le> L key" using read v(1,2) by (auto simp: list_all_iff view_ok_def)
      ultimately show ?thesis using v one by (intro exI [of _ "bs_publish_seq v"]) (auto simp: seen_now_def)
    next
      case False
      then have "\<not> hinted L merged key" using r(2) by (force simp: hinted_def hints_ok_def list_all_iff dest!: map_of_SomeD)
      moreover have "view_key v \<noteq> key" if "v \<in> set changed" for v
        using read False that keys(1) by (metis (no_types, lifting) image_eqI image_set list.set_map subsetD imageE)
      ultimately show ?thesis by (intro exI [of _ "L key"]) blast
    qed
    moreover have "list_all (\<lambda>v. view_ok L (view_key v) v) changed" "hints_ok L pend" using read by blast+
    ultimately show ?thesis using False by blast
  qed
  note main = this
  have ok0: "reader_ok L (fst (?tr\<lparr>tr_pending := pend\<rparr>, []))" using main ok(1) r(1) by (simp add: reader_ok_def seen_ok_def)
  have "covered L tr' key" if key: "stable_row L src key" "row_known tr key" "covered L tr key" for key
  proof -
    obtain q where q: "\<forall>v \<in> set changed. view_key v = key \<longrightarrow> bs_publish_seq v = q" "q = L key \<or> map_of (tr_seen tr) key = Some q"
      "ov \<or> hinted L merged key \<longrightarrow> seen_now L tr key \<or> q = L key \<and> (\<exists>v \<in> set changed. view_key v = key)" using main key(1,2) by blast
    note fold = fold_retain_ok [OF ok0 conjunct1 [OF main] q(1), folded p]
    have "seen_now L tr' key" if "seen_now L tr key" using fold q(2) that by (auto simp: seen_now_def)
    moreover have "seen_now L tr' key" if "q = L key" "\<exists>v \<in> set changed. view_key v = key" using fold that by (auto simp: seen_now_def)
    moreover have "scan_has tr' key = scan_has tr key" "tr_rescan tr' = tr_rescan tr" using fold by (auto simp: scan_has_def frame_def)
    moreover have "fst key \<notin> set (tr_ignored tr)" using key(2) by (simp add: row_known_def)
    ultimately show ?thesis using q(3) r(3) key(3) unfolding covered_iff ringed_def by metis
  qed
  moreover have "reader_ok L tr' \<and> (\<forall>key. row_known tr' key \<longleftrightarrow> row_known tr key)"
  proof -
    have "infinite (UNIV :: row_key set)" by (simp add: finite_prod infinite_UNIV_int)
    then obtain k where "k \<notin> view_key ` set changed" using ex_new_if_finite [of "view_key ` set changed"] by blast
    then have "\<forall>v \<in> set changed. view_key v = k \<longrightarrow> bs_publish_seq v = 0" by blast
    from fold_retain_ok [OF ok0 conjunct1 [OF main] this] have "reader_ok L tr'" "frame tr' = frame (?tr\<lparr>tr_pending := pend\<rparr>)"
      unfolding p by simp_all
    moreover from this(2) have "row_known tr' key \<longleftrightarrow> row_known tr key" for key
      by (simp add: frame_def row_known_def)
    ultimately show ?thesis by blast
  qed
  ultimately show ?thesis by blast
qed

lemma poll_ok:
  assumes "limits L" "source_ok L src" "reader_ok L tr" "poll src tr = Inr (batch, tr')"
  shows "reader_ok L tr' \<and> (\<forall>key. row_known tr' key \<longleftrightarrow> row_known tr key)
    \<and> (\<forall>key. stable_row L src key \<longrightarrow> row_known tr key \<longrightarrow> covered L tr key \<longrightarrow> covered L tr' key)"
  using assms poll_all_ok [OF assms(1-3)] poll_bounded_ok [OF assms(1-3)] by (auto simp: poll_def split: option.splits)

section \<open>Owners and the reader\<close>

text \<open>
  An owner invalidates the marker of a row, writes it, commits the next sequence and then pushes a hint to its ring, so
  a hint is in flight between the commit and the push. Publications may run while the reader polls; a push
  that lands before the poll drains its ring comes before the poll, any other after it. Between cohorts the owners are stopped
  and the rows of the request kinds start over.
\<close>

record watch =
  wt_reader :: table_reader
  wt_last :: "row_key \<Rightarrow> int"
  wt_marker :: "row_key \<Rightarrow> int"
  wt_flight :: "(nat \<times> state_change_entry) list"

definition row_hint :: "row_key \<Rightarrow> int \<Rightarrow> state_change_entry" where
  "row_hint key seq = \<lparr>sc_block_kind = fst key, sc_row = snd key, sc_publish_seq = seq\<rparr>"

inductive owner_run :: "watch \<Rightarrow> watch \<Rightarrow> bool" where
  owner_none: "owner_run w w"
| owner_begin: "owner_run w w' \<Longrightarrow> owner_run w (w'\<lparr>wt_marker := (wt_marker w')(key := invalid U64)\<rparr>)"
| owner_commit: "owner_run w w' \<Longrightarrow> 0 \<le> seq \<Longrightarrow> wt_last w' key < seq \<Longrightarrow> seq \<le> seq_limit
    \<Longrightarrow> owner_run w (w'\<lparr>wt_last := (wt_last w')(key := seq), wt_marker := (wt_marker w')(key := seq),
                        wt_flight := wt_flight w' @ [(i, row_hint key seq)]\<rparr>)"

text \<open>What the reader may see of the rows while the owners go from \<open>w\<close> to \<open>w'\<close>.\<close>

definition untouched :: "watch \<Rightarrow> watch \<Rightarrow> row_key \<Rightarrow> bool" where
  "untouched w w' key \<longleftrightarrow> wt_last w' key = wt_last w key \<and> wt_marker w' key = wt_marker w key \<and> wt_marker w key \<noteq> invalid U64"

definition shows_rows :: "watch \<Rightarrow> watch \<Rightarrow> row_source \<Rightarrow> bool" where
  "shows_rows w w' src \<longleftrightarrow> source_ok (wt_last w') src \<and> (\<forall>key. untouched w w' key \<longrightarrow> stable_row (wt_last w') src key)"

inductive watch_run :: "block_kind list \<Rightarrow> watch \<Rightarrow> bool" for kinds where
  watch_start: "new_table_reader requests workers rings = Inr tr \<Longrightarrow> \<forall>r \<in> set rings. \<exists>c. new_state_change_ring c = Inr r
    \<Longrightarrow> watch_run kinds \<lparr>wt_reader = tr\<lparr>tr_max_entries := budget, tr_ignored := ignored, tr_priority := priority\<rparr>,
                         wt_last = \<lambda>_. -1, wt_marker = \<lambda>_. invalid U64, wt_flight = []\<rparr>"
| watch_owners: "watch_run kinds w \<Longrightarrow> owner_run w w' \<Longrightarrow> watch_run kinds w'"
| watch_notify: "watch_run kinds w \<Longrightarrow> wt_flight w = xs @ (i, e) # ys \<Longrightarrow> i < length (tr_rings (wt_reader w))
    \<Longrightarrow> push e (tr_rings (wt_reader w) ! i) = (outcome, r')
    \<Longrightarrow> watch_run kinds (w\<lparr>wt_flight := xs @ ys, wt_reader := (wt_reader w)\<lparr>tr_rings := (tr_rings (wt_reader w))[i := r']\<rparr>\<rparr>)"
| watch_poll: "watch_run kinds w \<Longrightarrow> owner_run w w' \<Longrightarrow> shows_rows w w' src \<Longrightarrow> poll src (wt_reader w) = Inr (batch, tr')
    \<Longrightarrow> watch_run kinds (w'\<lparr>wt_reader := tr'\<rparr>)"
| watch_retire: "watch_run kinds w \<Longrightarrow> wt_flight w = [] \<Longrightarrow> reset_pending (reset_requests kinds (wt_reader w)) = Inr tr'
    \<Longrightarrow> watch_run kinds (w\<lparr>wt_reader := tr', wt_last := \<lambda>key. if fst key \<in> set kinds then -1 else wt_last w key,
                            wt_marker := \<lambda>key. if fst key \<in> set kinds then invalid U64 else wt_marker w key\<rparr>)"

section \<open>The invariant\<close>

definition flying :: "watch \<Rightarrow> row_key \<Rightarrow> bool" where
  "flying w key \<longleftrightarrow> (\<exists>(i, e) \<in> set (wt_flight w). entry_key e = key \<and> sc_publish_seq e = wt_last w key)"

definition rows_ok :: "watch \<Rightarrow> bool" where
  "rows_ok w \<longleftrightarrow> limits (wt_last w) \<and> reader_ok (wt_last w) (wt_reader w)
     \<and> (\<forall>(i, e) \<in> set (wt_flight w). hint_ok (wt_last w) e)
     \<and> (\<forall>key. wt_marker w key = invalid U64 \<or> wt_marker w key = wt_last w key \<and> 0 \<le> wt_last w key)"

definition watched :: "block_kind list \<Rightarrow> watch \<Rightarrow> bool" where
  "watched kinds w \<longleftrightarrow> (\<forall>key. fst key \<in> set kinds \<longrightarrow> row_known (wt_reader w) key \<longrightarrow> wt_marker w key \<noteq> invalid U64
     \<longrightarrow> flying w key \<or> covered (wt_last w) (wt_reader w) key)"

lemma row_hint_key [simp]: "entry_key (row_hint key seq) = key" "sc_publish_seq (row_hint key seq) = seq"
  by (simp_all add: row_hint_def entry_key_def)

lemma covered_cong: "L' key = L key \<Longrightarrow> covered L' tr key = covered L tr key"
proof -
  assume "L' key = L key"
  then have "ring_covers L' key = ring_covers L key" by (intro ext) (simp add: ring_covers_def)
  then show ?thesis using \<open>L' key = L key\<close> by (simp add: covered_def seen_now_def hinted_def)
qed

lemma hint_ok_mono: "hint_ok L e \<Longrightarrow> \<forall>key. L key \<le> L' key \<Longrightarrow> hint_ok L' e"
  unfolding hint_ok_def by (meson order_trans)

lemma reader_ok_mono:
  assumes "reader_ok L tr" "\<forall>key. L key \<le> L' key"
  shows "reader_ok L' tr"
proof -
  have e: "hint_ok L e \<Longrightarrow> hint_ok L' e" for e by (rule hint_ok_mono [OF _ assms(2)])
  have "seen_ok L' tr" using assms unfolding reader_ok_def seen_ok_def by (meson order_trans)
  moreover have "hints_ok L' (tr_pending tr)" using assms(1) e by (auto simp: reader_ok_def hints_ok_def list_all_iff)
  moreover have "list_all (ring_ok L') (tr_rings tr)" using assms(1) e by (auto simp: reader_ok_def ring_ok_def list_all_iff)
  ultimately show ?thesis by (simp add: reader_ok_def)
qed

lemma owner_run_ok:
  assumes "owner_run w w'" "rows_ok w"
  shows "rows_ok w' \<and> wt_reader w' = wt_reader w
    \<and> (\<forall>key. wt_marker w' key = invalid U64 \<or> flying w' key \<or> (untouched w w' key \<and> (flying w key \<longrightarrow> flying w' key)))"
  using assms
proof (induction rule: owner_run.induct)
  case (owner_none w)
  then show ?case by (auto simp: untouched_def)
next
  case (owner_begin w w' key)
  then show ?case by (auto simp: rows_ok_def untouched_def flying_def)
next
  case (owner_commit w w' seq key i)
  let ?w = "w'\<lparr>wt_last := (wt_last w')(key := seq), wt_marker := (wt_marker w')(key := seq), wt_flight := wt_flight w' @ [(i, row_hint key seq)]\<rparr>"
  have ok: "rows_ok w'" using owner_commit by blast
  have le: "\<forall>k. wt_last w' k \<le> ((wt_last w')(key := seq)) k" using owner_commit.hyps(3) by simp
  have "reader_ok ((wt_last w')(key := seq)) (wt_reader w')" using reader_ok_mono [OF _ le] ok unfolding rows_ok_def by blast
  moreover have "\<forall>(i, e) \<in> set (wt_flight w'). hint_ok ((wt_last w')(key := seq)) e"
  proof safe
    fix j e
    assume "(j, e) \<in> set (wt_flight w')"
    then have "hint_ok (wt_last w') e" using ok by (auto simp: rows_ok_def)
    then show "hint_ok ((wt_last w')(key := seq)) e" by (rule hint_ok_mono [OF _ le])
  qed
  moreover have "hint_ok ((wt_last w')(key := seq)) (row_hint key seq)" using owner_commit.hyps(2) by (simp add: hint_ok_def)
  moreover have "limits ((wt_last w')(key := seq))" using ok owner_commit.hyps(4) by (simp add: rows_ok_def limits_def)
  ultimately have "rows_ok ?w" using ok owner_commit.hyps(2) by (auto simp: rows_ok_def)
  moreover have "flying ?w key" by (simp add: flying_def)
  moreover have "wt_marker ?w k = invalid U64 \<or> flying ?w k \<or> (untouched w ?w k \<and> (flying w k \<longrightarrow> flying ?w k))" for k
  proof (cases "k = key")
    case False
    then have "flying ?w k = flying w' k" "untouched w ?w k = untouched w w' k" "wt_marker ?w k = wt_marker w' k"
      by (auto simp: flying_def untouched_def)
    then show ?thesis using owner_commit by metis
  qed (use calculation(2) in simp)
  moreover have "wt_reader ?w = wt_reader w" using owner_commit by simp
  ultimately show ?case by blast
qed

lemma push_ok:
  assumes "ring_ok L r" "hint_ok L e" "push e r = (outcome, r')"
  shows "ring_ok L r' \<and> (\<forall>key. ring_covers L key r \<or> entry_key e = key \<and> sc_publish_seq e = L key \<longrightarrow> ring_covers L key r')"
proof (cases "rg_size (sr_ring r) = ring_capacity (sr_ring r)")
  case True
  then show ?thesis using assms by (auto simp: push_def ring_ok_def ring_covers_def)
next
  case False
  then have "rg_size (sr_ring r) < ring_capacity (sr_ring r)" using assms(1) ring_wf_size [of "sr_ring r"] by (simp add: ring_ok_def)
  then have "ring_wf (ring_put e (sr_ring r))" "ring_items (ring_put e (sr_ring r)) = ring_items (sr_ring r) @ [e]"
    using ring_wf_put [of "sr_ring r" e] assms(1) by (simp_all add: ring_ok_def)
  then show ?thesis using False assms by (auto simp: push_def ring_ok_def ring_covers_def)
qed

lemma notify_ok:
  assumes "rows_ok w" "watched kinds w" "wt_flight w = xs @ (i, e) # ys" "i < length (tr_rings (wt_reader w))"
    and "push e (tr_rings (wt_reader w) ! i) = (outcome, r')"
  defines "tr' \<equiv> (wt_reader w)\<lparr>tr_rings := (tr_rings (wt_reader w))[i := r']\<rparr>"
  shows "rows_ok (w\<lparr>wt_flight := xs @ ys, wt_reader := tr'\<rparr>) \<and> watched kinds (w\<lparr>wt_flight := xs @ ys, wt_reader := tr'\<rparr>)"
proof -
  let ?L = "wt_last w" and ?rs = "tr_rings (wt_reader w)"
  have e: "hint_ok ?L e" using assms(1,3) by (simp add: rows_ok_def)
  have rs: "list_all (ring_ok ?L) ?rs" using assms(1) by (simp add: rows_ok_def reader_ok_def)
  then have "ring_ok ?L (?rs ! i)" using assms(4) by (simp add: list_all_length)
  note put = push_ok [OF this e assms(5)]
  have "list_all (ring_ok ?L) (?rs[i := r'])" using rs put by (auto simp: list_all_iff dest!: subsetD [OF set_update_subset_insert])
  then have "reader_ok ?L tr'" using assms(1) by (simp add: rows_ok_def reader_ok_def seen_ok_def tr'_def)
  then have ok: "rows_ok (w\<lparr>wt_flight := xs @ ys, wt_reader := tr'\<rparr>)" using assms(1,3) by (auto simp: rows_ok_def)
  have rings: "ringed ?L tr' key" if cov: "ringed ?L (wt_reader w) key \<or> entry_key e = key \<and> sc_publish_seq e = ?L key" for key
  proof -
    have "ringed ?L tr' key \<longleftrightarrow> ring_covers ?L key r' \<or> (\<exists>j < length ?rs. j \<noteq> i \<and> ring_covers ?L key (?rs ! j))"
      using list_ex_update [OF assms(4)] by (simp add: ringed_def tr'_def)
    moreover have "ringed ?L (wt_reader w) key \<longleftrightarrow> (\<exists>j < length ?rs. ring_covers ?L key (?rs ! j))" by (simp add: ringed_def list_ex_length)
    ultimately show ?thesis using put cov by metis
  qed
  let ?w = "w\<lparr>wt_flight := xs @ ys, wt_reader := tr'\<rparr>"
  have "covered ?L tr' key \<or> flying ?w key"
    if "flying w key \<or> covered ?L (wt_reader w) key" for key
  proof -
    have "seen_now ?L tr' key = seen_now ?L (wt_reader w) key" "hinted ?L (tr_pending tr') key = hinted ?L (tr_pending (wt_reader w)) key"
      "tr_rescan tr' = tr_rescan (wt_reader w)" "scan_has tr' key = scan_has (wt_reader w) key"
      by (simp_all add: tr'_def seen_now_def scan_has_def)
    then show ?thesis using that rings [of key] assms(3) unfolding covered_iff flying_def by fastforce
  qed
  moreover have "row_known tr' key = row_known (wt_reader w) key" for key by (simp add: tr'_def row_known_def)
  moreover have "wt_reader ?w = tr'" "wt_last ?w = ?L" "wt_marker ?w = wt_marker w" by simp_all
  ultimately have "watched kinds ?w" using assms(2) unfolding watched_def by metis
  then show ?thesis using ok by blast
qed

lemma owners_watched:
  assumes "rows_ok w" "watched kinds w" "owner_run w w'"
  shows "watched kinds w'"
proof -
  have "flying w' key \<or> covered (wt_last w') (wt_reader w') key"
    if key: "fst key \<in> set kinds" "row_known (wt_reader w') key" "wt_marker w' key \<noteq> invalid U64" for key
  proof -
    have "flying w' key \<or> untouched w w' key \<and> (flying w key \<longrightarrow> flying w' key)" "wt_reader w' = wt_reader w"
      using owner_run_ok [OF assms(3,1)] key(3) by blast+
    moreover have "flying w key \<or> covered (wt_last w) (wt_reader w) key" if "untouched w w' key"
      using assms(2) key that calculation(2) unfolding watched_def untouched_def by metis
    moreover have "covered (wt_last w') (wt_reader w) key = covered (wt_last w) (wt_reader w) key" if "untouched w w' key"
      using that by (intro covered_cong) (simp add: untouched_def)
    ultimately show ?thesis by metis
  qed
  then show ?thesis unfolding watched_def by blast
qed

lemma poll_watched:
  assumes "rows_ok w" "watched kinds w" "owner_run w w'" "shows_rows w w' src" "poll src (wt_reader w) = Inr (batch, tr')"
  shows "rows_ok (w'\<lparr>wt_reader := tr'\<rparr>) \<and> watched kinds (w'\<lparr>wt_reader := tr'\<rparr>)"
proof -
  note run = owner_run_ok [OF assms(3,1)]
  have ok': "limits (wt_last w')" "reader_ok (wt_last w') (wt_reader w)" using run by (auto simp: rows_ok_def)
  have src: "source_ok (wt_last w') src" "\<And>key. untouched w w' key \<Longrightarrow> stable_row (wt_last w') src key"
    using assms(4) by (auto simp: shows_rows_def)
  note poll = poll_ok [OF ok'(1) src(1) ok'(2) assms(5)]
  have "rows_ok (w'\<lparr>wt_reader := tr'\<rparr>)" using run poll by (simp add: rows_ok_def)
  moreover have "flying w' key \<or> covered (wt_last w') tr' key"
    if key: "fst key \<in> set kinds" "row_known tr' key" "wt_marker w' key \<noteq> invalid U64" for key
  proof -
    have known: "row_known (wt_reader w) key" using key(2) poll by blast
    have "wt_reader w' = wt_reader w" using run by blast
    then have "flying w' key \<or> covered (wt_last w') (wt_reader w) key"
      using owners_watched [OF assms(1-3)] key known unfolding watched_def by metis
    moreover have "flying w' key \<or> untouched w w' key" using run key(3) by blast
    ultimately show ?thesis using poll known src(2) by blast
  qed
  ultimately show ?thesis by (simp add: watched_def flying_def)
qed

lemma reset_drained:
  assumes "list_all (ring_ok L) rs" "map_r (drain None) rs = Inr ds"
  shows "list_all (ring_ok L') (map snd ds) \<and> list_all emptied (map snd ds)"
  using assms
proof (induction rs arbitrary: ds)
  case (Cons r rs)
  obtain d ds' where d: "drain None r = Inr d" "map_r (drain None) rs = Inr ds'" "ds = d # ds'"
    using Cons.prems(2) by (auto simp: bind_r_eq_Inr)
  have wf: "ring_wf (sr_ring r)" using Cons.prems(1) by (simp add: ring_ok_def)
  obtain r' where "d = (\<lparr>sb_entries = take (rg_size (sr_ring r)) (ring_items (sr_ring r)), sb_overflowed = sr_overflowed r\<rparr>, r')"
    "ring_wf (sr_ring r')" "ring_items (sr_ring r') = drop (rg_size (sr_ring r)) (ring_items (sr_ring r))" "\<not> sr_overflowed r'"
    using drain_some [OF wf refl, of None] d(1) by auto
  then have "ring_ok L' (snd d)" "emptied (snd d)" using ring_wf_size [OF wf] by (simp_all add: ring_ok_def emptied_def)
  then show ?case using Cons.IH [OF _ d(2)] Cons.prems(1) d(3) by simp
qed simp

lemma map_of_keep: "map_of (filter (\<lambda>kv. fst (fst kv) \<notin> set kinds) xs) key = (if fst key \<in> set kinds then None else map_of xs key)"
  by (induction xs) auto

lemma retire_watched:
  assumes "rows_ok w" "wt_flight w = []" "reset_pending (reset_requests kinds (wt_reader w)) = Inr tr'"
  defines "w' \<equiv> w\<lparr>wt_reader := tr', wt_last := \<lambda>key. if fst key \<in> set kinds then -1 else wt_last w key,
      wt_marker := \<lambda>key. if fst key \<in> set kinds then invalid U64 else wt_marker w key\<rparr>"
  shows "rows_ok w' \<and> watched kinds w'"
proof -
  let ?tr = "wt_reader w"
  obtain ds where ds: "map_r (drain None) (tr_rings ?tr) = Inr ds"
    and tr': "tr' = (reset_requests kinds ?tr)\<lparr>tr_pending := [], tr_scan := [], tr_rescan := False, tr_rings := map snd ds\<rparr>"
    using assms(3) by (auto simp: reset_pending_def reset_requests_def bind_r_eq_Inr)
  have "list_all (ring_ok (wt_last w)) (tr_rings ?tr)" using assms(1) by (simp add: rows_ok_def reader_ok_def)
  then have rings: "list_all (ring_ok (wt_last w')) (map snd ds)" using reset_drained [OF _ ds] by blast
  have seen: "seen_ok (wt_last w) ?tr" using assms(1) by (simp add: rows_ok_def reader_ok_def)
  have "seen_ok (wt_last w') tr'" unfolding seen_ok_def
  proof (intro allI impI)
    fix key s
    assume s: "map_of (tr_seen tr') key = Some s"
    then have key: "fst key \<notin> set kinds" "map_of (tr_seen ?tr) key = Some s"
      by (auto simp: tr' reset_requests_def Let_def map_of_keep split: if_splits)
    then show "0 \<le> s \<and> s \<le> wt_last w' key \<and> (\<exists>v. map_of (tr_views tr') key = Some v \<and> view_key v = key \<and> bs_publish_seq v = s)"
      using seen by (auto simp: seen_ok_def w'_def tr' reset_requests_def Let_def map_of_keep)
  qed
  then have "reader_ok (wt_last w') (wt_reader w')" using rings by (simp add: reader_ok_def w'_def tr' hints_ok_def)
  moreover have "limits (wt_last w')" using assms(1) by (auto simp: rows_ok_def limits_def w'_def seq_limit_def)
  ultimately have "rows_ok w'" using assms(1,2) by (auto simp: rows_ok_def w'_def)
  then show ?thesis by (auto simp: watched_def w'_def)
qed

lemma start_watched:
  assumes "new_table_reader requests workers rings = Inr tr" "\<forall>r \<in> set rings. \<exists>c. new_state_change_ring c = Inr r"
    and "w = \<lparr>wt_reader = tr\<lparr>tr_max_entries := budget, tr_ignored := ignored, tr_priority := priority\<rparr>,
              wt_last = \<lambda>_. -1, wt_marker = \<lambda>_. invalid U64, wt_flight = []\<rparr>"
  shows "rows_ok w \<and> watched kinds w"
proof -
  have "ring_ok L r" if r: "r \<in> set rings" for L r
  proof -
    obtain c where "new_state_change_ring c = Inr r" using assms(2) r by blast
    then have "0 < nat c" "sr_ring r = new_ring (nat c)" by (auto simp: new_state_change_ring_def bind_r_eq_Inr)
    then show ?thesis by (simp add: ring_ok_def ring_wf_new)
  qed
  moreover have "tr_rings tr = rings" "tr_seen tr = []" "tr_pending tr = []"
    using assms(1) by (auto simp: new_table_reader_def bind_r_eq_Inr)
  ultimately have "reader_ok (wt_last w) (wt_reader w)"
    by (simp add: assms(3) reader_ok_def seen_ok_def hints_ok_def list_all_iff)
  then show ?thesis by (simp add: assms(3) rows_ok_def watched_def limits_def seq_limit_def)
qed

lemma watch_inv: "watch_run kinds w \<Longrightarrow> rows_ok w \<and> watched kinds w"
proof (induction rule: watch_run.induct)
  case (watch_start requests workers rings tr budget ignored priority)
  then show ?case using start_watched by blast
next
  case (watch_owners w w')
  then show ?case using owner_run_ok owners_watched by blast
next
  case (watch_notify w xs i e ys outcome r')
  then show ?case using notify_ok by blast
next
  case (watch_poll w w' src batch tr')
  then show ?case using poll_watched by blast
next
  case (watch_retire w tr')
  then show ?case using retire_watched by blast
qed

text \<open>C6: No update of a row is lost. In every history of publications, notifications, bounded or unbounded polls and
  cohort retirements, whatever hints the rings refused and whatever rows were being written when the reader looked at them:
  once the reader reports nothing pending, its cached view of every request row whose marker is valid and whose
  hint is not still on its way shows the sequence that row now has.\<close>

theorem no_update_lost:
  assumes "watch_run kinds w" "row_known (wt_reader w) key" "fst key \<in> set kinds" "\<not> reader_has_pending (wt_reader w)"
    and "wt_marker w key \<noteq> invalid U64" "\<not> flying w key"
  shows "\<exists>v. cached_view (wt_reader w) key = Some v \<and> view_key v = key \<and> bs_publish_seq v = wt_marker w key"
proof -
  let ?tr = "wt_reader w"
  have inv: "rows_ok w" "watched kinds w" using watch_inv [OF assms(1)] by blast+
  have "covered (wt_last w) ?tr key" using inv(2) assms(2,3,5,6) unfolding watched_def by blast
  moreover have "\<not> ring_covers (wt_last w) key r" if "r \<in> set (tr_rings ?tr)" for r
  proof -
    have "ring_wf (sr_ring r)" using inv(1) that by (auto simp: rows_ok_def reader_ok_def list_all_iff ring_ok_def)
    then show ?thesis using assms(4) that ring_wf_size [of "sr_ring r"]
      by (auto simp: reader_has_pending_def has_pending_def list_ex_iff ring_covers_def)
  qed
  ultimately have "seen_now (wt_last w) ?tr key"
    using assms(4) unfolding covered_iff by (auto simp: reader_has_pending_def hinted_def scan_has_def ringed_def list_ex_iff)
  moreover have "wt_marker w key = wt_last w key" using inv(1) assms(5) by (auto simp: rows_ok_def)
  ultimately show ?thesis using inv(1) by (auto simp: rows_ok_def reader_ok_def seen_ok_def seen_now_def cached_view_def)
qed

text \<open>A ring of one entry: the second update is refused, and the scan finds it.\<close>

definition example_key :: row_key where
  "example_key = (REQUEST_DRAFT, 0)"

definition example_rows :: row_source where
  "example_rows = \<lparr>rs_seq = \<lambda>_ key. if key = example_key then Inr 1 else Inr (invalid U64),
     rs_read = \<lambda>_ key. if key = example_key then Inr \<lparr>bs_kind = fst key, bs_row = snd key, bs_publish_seq = 1, bs_fields = []\<rparr>
                       else Inl (StableReadConflict ''never published'')\<rparr>"

definition example_watch :: "state_change_ring \<Rightarrow> (nat \<times> state_change_entry) list \<Rightarrow> int \<Rightarrow> watch" where
  "example_watch r flight seq = \<lparr>wt_reader = \<lparr>tr_partitions = [(REQUEST_DRAFT, 1)], tr_rings = [r], tr_seen = [], tr_views = [], tr_pending = [],
      tr_max_entries = Some 128, tr_ignored = engine_ignored_kinds, tr_priority = [], tr_ring_cursor = 0, tr_scan = [], tr_rescan = False\<rparr>,
     wt_last = (\<lambda>_. -1)(example_key := seq), wt_marker = (\<lambda>_. invalid U64)(example_key := if seq < 0 then invalid U64 else seq), wt_flight = flight\<rparr>"

definition example_ring :: "state_change_entry list \<Rightarrow> bool \<Rightarrow> state_change_ring" where
  "example_ring es ov = \<lparr>sr_ring = fold ring_put es (new_ring 1), sr_overflowed = ov\<rparr>"

lemma example_start: "watch_run [REQUEST_DRAFT] (example_watch (example_ring [] False) [] (-1))"
proof -
  let ?t = "\<lparr>tb_partitions = [(REQUEST_DRAFT, \<lparr>tp_layout = layout_of REQUEST_DRAFT, tp_kind = REQUEST_DRAFT, tp_capacity = 1, tp_bytes = []\<rparr>)],
      tb_notifier = \<lparr>nt_ring = None, nt_bell = None\<rparr>, tb_bank_rows = 0\<rparr>"
  have r: "new_state_change_ring 1 = Inr (example_ring [] False)" by (simp add: new_state_change_ring_def example_ring_def)
  obtain tr where tr: "new_table_reader (Some ?t) None [example_ring [] False] = Inr tr"
    "tr\<lparr>tr_max_entries := Some 128, tr_ignored := engine_ignored_kinds, tr_priority := []\<rparr> = wt_reader (example_watch (example_ring [] False) [] (-1))"
    by (simp add: new_table_reader_def table_partitions_def example_watch_def)
  have "watch_run [REQUEST_DRAFT] \<lparr>wt_reader = tr\<lparr>tr_max_entries := Some 128, tr_ignored := engine_ignored_kinds, tr_priority := []\<rparr>,
      wt_last = \<lambda>_. -1, wt_marker = \<lambda>_. invalid U64, wt_flight = []\<rparr>"
    by (rule watch_start [OF tr(1)]) (use r in auto)
  then show ?thesis unfolding tr(2) by (simp add: example_watch_def fun_upd_idem)
qed

lemma example_commit: "seq < n \<Longrightarrow> 0 \<le> n \<Longrightarrow> n \<le> seq_limit \<Longrightarrow> watch_run [REQUEST_DRAFT] (example_watch r [] seq)
    \<Longrightarrow> watch_run [REQUEST_DRAFT] (example_watch r [(0, row_hint example_key n)] n)"
  by (drule watch_owners [OF _ owner_commit [OF owner_none, where key = example_key and seq = n and i = 0]]) (simp_all add: example_watch_def)

lemma example_notify: "push e r = (b, r') \<Longrightarrow> watch_run [REQUEST_DRAFT] (example_watch r [(0, e)] n) \<Longrightarrow> watch_run [REQUEST_DRAFT] (example_watch r' [] n)"
  by (drule watch_notify [where xs = "[]" and ys = "[]" and i = 0 and e = e]) (simp_all add: example_watch_def)

lemma example_run: "watch_run [REQUEST_DRAFT] (example_watch (example_ring [row_hint example_key 0] True) [] 1)"
proof -
  have "watch_run [REQUEST_DRAFT] (example_watch (example_ring [] False) [(0, row_hint example_key 0)] 0)"
    by (rule example_commit [OF _ _ _ example_start]) (simp_all add: seq_limit_def)
  then have "watch_run [REQUEST_DRAFT] (example_watch (example_ring [row_hint example_key 0] False) [] 0)"
    by (rule example_notify [rotated]) (simp add: push_def example_ring_def)
  then have "watch_run [REQUEST_DRAFT] (example_watch (example_ring [row_hint example_key 0] False) [(0, row_hint example_key 1)] 1)"
    by (intro example_commit) (simp_all add: seq_limit_def)
  then show ?thesis by (rule example_notify [rotated]) (simp add: push_def example_ring_def)
qed

definition example_result :: "table_reader \<Rightarrow> bool" where
  "example_result tr \<longleftrightarrow> tr_seen tr = [(example_key, 1)] \<and> \<not> reader_has_pending tr \<and> tr_partitions tr = [(REQUEST_DRAFT, 1)]
     \<and> tr_ignored tr = engine_ignored_kinds"

lemma example_poll: "case poll example_rows (wt_reader (example_watch (example_ring [row_hint example_key 0] True) [] 1)) of
    Inl e \<Rightarrow> False | Inr (batch, tr') \<Rightarrow> example_result tr'"
  by code_simp

lemma invalid_U64_value: "invalid U64 = 18446744073709551615"
  by code_simp

lemma example_shows: "shows_rows (example_watch r [] 1) (example_watch r [] 1) example_rows"
proof -
  let ?L = "wt_last (example_watch r [] 1)"
  have "source_ok ?L example_rows"
    by (auto simp: source_ok_def example_rows_def view_ok_def view_key_def example_watch_def split: if_splits)
  moreover have "stable_row ?L example_rows example_key"
    by (simp add: stable_row_def example_rows_def view_ok_def view_key_def example_watch_def invalid_U64_value)
  moreover have "untouched (example_watch r [] 1) (example_watch r [] 1) key \<longleftrightarrow> key = example_key" for key
    by (simp add: untouched_def example_watch_def invalid_U64_value)
  ultimately show ?thesis by (simp add: shows_rows_def)
qed

theorem no_update_lost_witness:
  "\<exists>w. watch_run [REQUEST_DRAFT] w \<and> wt_marker w example_key = 1
     \<and> (\<exists>v. cached_view (wt_reader w) example_key = Some v \<and> view_key v = example_key \<and> bs_publish_seq v = wt_marker w example_key)"
proof -
  let ?w = "example_watch (example_ring [row_hint example_key 0] True) [] 1"
  obtain batch tr' where p: "poll example_rows (wt_reader ?w) = Inr (batch, tr')" "example_result tr'"
    using example_poll by (auto split: sum.splits)
  let ?w' = "?w\<lparr>wt_reader := tr'\<rparr>"
  have "watch_run [REQUEST_DRAFT] ?w'" by (rule watch_poll [OF example_run owner_none example_shows p(1)])
  moreover have "row_known (wt_reader ?w') example_key" using p(2) by (simp add: example_result_def row_known_def engine_ignored_kinds_def example_key_def)
  moreover have "\<not> reader_has_pending (wt_reader ?w')" using p(2) by (simp add: example_result_def)
  moreover have "wt_marker ?w' example_key = 1" "wt_marker ?w' example_key \<noteq> invalid U64" "\<not> flying ?w' example_key"
    by (simp_all add: example_watch_def invalid_U64_value flying_def)
  ultimately show ?thesis using no_update_lost [of "[REQUEST_DRAFT]" ?w' example_key] by (auto simp: example_key_def)
qed

end
