(* ===== verification/WorkerBanks.thy ===== *)
theory WorkerBanks
  imports WorkWire
begin

text \<open>
  \<open>workers/banks.py\<close>: the physical rows and the two Banks of a worker. A layout gives a WORK rows of the block table and
  a range of blocks inside its Bank; the rows come from a set both Banks share.
\<close>

section \<open>State\<close>

datatype phase = PHASE_FREE | FILLING | PHASE_READY | COMPUTING | EXPORTING

record bank_layout =
  bl_bank_id :: int
  bl_bank_epoch :: int
  bl_rows :: "int list"
  bl_offsets :: "int list"
  bl_capacities :: "int list"

text \<open>\<open>current\<close> and \<open>pending\<close> hold the record of a WORK, which the model names by its sequence.\<close>

record phys_bank =
  pb_bank_id :: int
  pb_epoch :: int
  pb_phase :: phase
  pb_current :: "int option"
  pb_pending :: "int option"
  pb_layout :: "bank_layout option"
  pb_observation_seq :: int

definition new_bank :: "int \<Rightarrow> phys_bank" where
  "new_bank bank_id = \<lparr>pb_bank_id = bank_id, pb_epoch = 0, pb_phase = PHASE_FREE, pb_current = None, pb_pending = None,
     pb_layout = None, pb_observation_seq = 0\<rparr>"

text \<open>The set of free rows is a list without duplicates.\<close>

record phys_banks =
  bn_capacity_rows :: int
  bn_blocks_per_bank :: int
  bn_free_rows :: "int list"
  bn_bank0 :: phys_bank
  bn_bank1 :: phys_bank

definition new_banks :: "int \<Rightarrow> int \<Rightarrow> phys_banks result" where
  "new_banks blocks_per_bank capacity_rows =
     bind_r (require (0 < min blocks_per_bank capacity_rows) (ValueError ''positive physical capacities required'')) (\<lambda>_.
       Inr \<lparr>bn_capacity_rows = capacity_rows, bn_blocks_per_bank = blocks_per_bank, bn_free_rows = map int [0..<nat capacity_rows],
            bn_bank0 = new_bank 0, bn_bank1 = new_bank 1\<rparr>)"

text \<open>A WORK names Bank 0 or 1; it could not be decoded otherwise.\<close>

definition bank_at :: "phys_banks \<Rightarrow> int \<Rightarrow> phys_bank" where
  "bank_at bs i = (if i = 0 then bn_bank0 bs else bn_bank1 bs)"

definition set_bank :: "int \<Rightarrow> phys_bank \<Rightarrow> phys_banks \<Rightarrow> phys_banks" where
  "set_bank i b bs = (if i = 0 then bs\<lparr>bn_bank0 := b\<rparr> else bs\<lparr>bn_bank1 := b\<rparr>)"

lemma bank_at_set: "bank_at (set_bank i b bs) j = (if (i = 0) = (j = 0) then b else bank_at bs j)"
  by (simp add: bank_at_def set_bank_def)

lemma set_bank_fields [simp]:
  "bn_capacity_rows (set_bank i b bs) = bn_capacity_rows bs" "bn_blocks_per_bank (set_bank i b bs) = bn_blocks_per_bank bs"
  "bn_free_rows (set_bank i b bs) = bn_free_rows bs" "bank_at (bs\<lparr>bn_free_rows := rows\<rparr>) j = bank_at bs j"
  by (simp_all add: set_bank_def bank_at_def)

section \<open>Operations\<close>

definition work_blocks :: "work \<Rightarrow> int" where
  "work_blocks w = sum_list (map rw_capacity_blocks (wk_rows w))"

definition layout_for :: "phys_banks \<Rightarrow> work \<Rightarrow> bank_layout" where
  "layout_for bs w =
     \<lparr>bl_bank_id = wk_bank_id w, bl_bank_epoch = wk_bank_epoch w,
      bl_rows = take (length (wk_rows w)) (sort (bn_free_rows bs)),
      bl_offsets = map (\<lambda>r. wk_bank_id w * bn_blocks_per_bank bs + rw_destination_offset r) (wk_rows w),
      bl_capacities = map rw_capacity_blocks (wk_rows w)\<rparr>"

definition bank_allocate :: "work \<Rightarrow> phys_banks \<Rightarrow> (bank_layout option \<times> phys_banks) result" where
  "bank_allocate w bs =
     (let bank = bank_at bs (wk_bank_id w) in
      bind_r (require (pb_layout bank = None) (RuntimeError ''Bank still physically owned'')) (\<lambda>_.
      bind_r (require (work_blocks w \<le> bn_blocks_per_bank bs) (ValueError ''WORK exceeds physical Bank'')) (\<lambda>_.
      if length (bn_free_rows bs) < length (wk_rows w) then Inr (None, bs)
      else bind_r (require (pb_epoch bank < wk_bank_epoch w) (ValueError ''Bank epoch must advance'')) (\<lambda>_.
        let layout = layout_for bs w in
        Inr (Some layout, set_bank (wk_bank_id w)
          (bank\<lparr>pb_layout := Some layout, pb_epoch := wk_bank_epoch w, pb_phase := FILLING, pb_observation_seq := pb_observation_seq bank + 1\<rparr>)
          (bs\<lparr>bn_free_rows := drop (length (wk_rows w)) (sort (bn_free_rows bs))\<rparr>))))))"

text \<open>A layout is the one object its allocation made: its epoch tells it from every other.\<close>

definition bank_release_layout :: "bank_layout \<Rightarrow> phys_banks \<Rightarrow> phys_banks result" where
  "bank_release_layout layout bs =
     (let bank = bank_at bs (bl_bank_id layout) in
      bind_r (require (pb_layout bank = Some layout) (RuntimeError ''release must name the owned layout'')) (\<lambda>_.
        Inr (set_bank (bl_bank_id layout)
          (bank\<lparr>pb_layout := None, pb_phase := PHASE_FREE, pb_observation_seq := pb_observation_seq bank + 1\<rparr>)
          (bs\<lparr>bn_free_rows := bn_free_rows bs @ filter (\<lambda>r. r \<notin> set (bn_free_rows bs)) (bl_rows layout)\<rparr>))))"

section \<open>Rows belong to one layout\<close>

definition held_rows :: "phys_banks \<Rightarrow> int \<Rightarrow> int list" where
  "held_rows bs i = (case pb_layout (bank_at bs i) of None \<Rightarrow> [] | Some l \<Rightarrow> bl_rows l)"

text \<open>Every row of the block table is free or belongs to one layout.\<close>

definition rows_split :: "phys_banks \<Rightarrow> bool" where
  "rows_split bs \<longleftrightarrow> distinct (bn_free_rows bs @ held_rows bs 0 @ held_rows bs 1)
     \<and> set (bn_free_rows bs @ held_rows bs 0 @ held_rows bs 1) = {0..<bn_capacity_rows bs}"

definition layout_fits :: "phys_banks \<Rightarrow> int \<Rightarrow> bool" where
  "layout_fits bs i \<longleftrightarrow> (case pb_layout (bank_at bs i) of None \<Rightarrow> pb_phase (bank_at bs i) = PHASE_FREE
     | Some l \<Rightarrow> bl_bank_id l = i \<and> bl_bank_epoch l = pb_epoch (bank_at bs i) \<and> pb_phase (bank_at bs i) \<noteq> PHASE_FREE)"

lemma layout_fits_set:
  "layout_fits (set_bank i b bs) j \<longleftrightarrow> (if (i = 0) = (j = 0) then (case pb_layout b of None \<Rightarrow> pb_phase b = PHASE_FREE
     | Some l \<Rightarrow> bl_bank_id l = j \<and> bl_bank_epoch l = pb_epoch b \<and> pb_phase b \<noteq> PHASE_FREE) else layout_fits bs j)"
  unfolding layout_fits_def bank_at_set by (cases "(i = 0) = (j = 0)") simp_all

lemma layout_fits_rows [simp]: "layout_fits (bs\<lparr>bn_free_rows := rows\<rparr>) i = layout_fits bs i"
  unfolding layout_fits_def set_bank_fields by (rule refl)

definition banks_ok :: "phys_banks \<Rightarrow> bool" where
  "banks_ok bs \<longleftrightarrow> rows_split bs \<and> layout_fits bs 0 \<and> layout_fits bs 1 \<and> 0 < bn_blocks_per_bank bs
     \<and> pb_bank_id (bank_at bs 0) = 0 \<and> pb_bank_id (bank_at bs 1) = 1"

lemma new_banks_ok:
  assumes "new_banks blocks rows = Inr bs"
  shows "banks_ok bs"
proof -
  have "0 < rows" "0 < blocks" and bs: "bs = \<lparr>bn_capacity_rows = rows, bn_blocks_per_bank = blocks, bn_free_rows = map int [0..<nat rows],
      bn_bank0 = new_bank 0, bn_bank1 = new_bank 1\<rparr>" using assms by (auto simp: new_banks_def bind_r_eq_Inr)
  then have "set (map int [0..<nat rows]) = {0..<rows}" by (simp add: image_int_atLeastLessThan)
  then show ?thesis using \<open>0 < blocks\<close>
    by (simp add: bs banks_ok_def rows_split_def layout_fits_def held_rows_def bank_at_def new_bank_def distinct_map)
qed

lemma layouts_differ: "banks_ok bs \<Longrightarrow> set (held_rows bs 0) \<inter> set (held_rows bs 1) = {}"
  by (simp add: banks_ok_def rows_split_def)

lemma bank_allocate_ok:
  assumes "bank_allocate w bs = Inr (l, bs')" "banks_ok bs" "wk_bank_id w = 0 \<or> wk_bank_id w = 1"
  shows "banks_ok bs'"
proof (cases l)
  case None
  then show ?thesis using assms(1,2) by (auto simp: bank_allocate_def Let_def bind_r_eq_Inr split: if_splits)
next
  case (Some layout)
  let ?b = "wk_bank_id w" and ?n = "length (wk_rows w)"
  let ?f = "sort (bn_free_rows bs)"
  have none: "pb_layout (bank_at bs ?b) = None" and layout: "layout = layout_for bs w"
    and bs': "bs' = set_bank ?b ((bank_at bs ?b)\<lparr>pb_layout := Some layout, pb_epoch := wk_bank_epoch w, pb_phase := FILLING,
        pb_observation_seq := pb_observation_seq (bank_at bs ?b) + 1\<rparr>) (bs\<lparr>bn_free_rows := drop ?n ?f\<rparr>)"
    using assms(1) Some by (auto simp: bank_allocate_def Let_def bind_r_eq_Inr split: if_splits)
  have split: "set ?f = set (take ?n ?f) \<union> set (drop ?n ?f)" "distinct ?f \<Longrightarrow> set (take ?n ?f) \<inter> set (drop ?n ?f) = {}"
    by (metis append_take_drop_id set_append) (metis append_take_drop_id distinct_append)
  have dist: "distinct (bn_free_rows bs)" using assms(2) by (simp add: banks_ok_def rows_split_def)
  have "distinct (take ?n ?f)" "distinct (drop ?n ?f)" using dist by simp_all
  moreover have "set (bn_free_rows bs) = set (take ?n ?f) \<union> set (drop ?n ?f)" "set (take ?n ?f) \<inter> set (drop ?n ?f) = {}"
    using split dist by simp_all
  ultimately have "rows_split bs'"
    using assms(2,3) none layout
    by (elim disjE) (auto simp: banks_ok_def rows_split_def held_rows_def bs' bank_at_set layout_for_def)
  moreover have "layout_fits bs' 0" "layout_fits bs' 1"
    using assms(2,3) layout by (auto simp: banks_ok_def layout_fits_set bs' layout_for_def)
  ultimately show ?thesis using assms(2,3) by (auto simp: banks_ok_def bs' bank_at_set)
qed

lemma bank_release_ok:
  assumes "bank_release_layout l bs = Inr bs'" "banks_ok bs" "bl_bank_id l = 0 \<or> bl_bank_id l = 1"
  shows "banks_ok bs' \<and> set (bl_rows l) \<subseteq> set (bn_free_rows bs')"
proof -
  let ?b = "bl_bank_id l"
  have own: "pb_layout (bank_at bs ?b) = Some l"
    and bs': "bs' = set_bank ?b ((bank_at bs ?b)\<lparr>pb_layout := None, pb_phase := PHASE_FREE,
        pb_observation_seq := pb_observation_seq (bank_at bs ?b) + 1\<rparr>)
      (bs\<lparr>bn_free_rows := bn_free_rows bs @ filter (\<lambda>r. r \<notin> set (bn_free_rows bs)) (bl_rows l)\<rparr>)"
    using assms(1) by (auto simp: bank_release_layout_def Let_def bind_r_eq_Inr)
  have "rows_split bs'" using assms(2,3) own by (elim disjE) (auto simp: banks_ok_def rows_split_def held_rows_def bs' bank_at_set)
  moreover have "layout_fits bs' 0" "layout_fits bs' 1" using assms(2,3) by (auto simp: banks_ok_def layout_fits_set bs')
  ultimately show ?thesis using assms(2,3) by (auto simp: banks_ok_def bs' bank_at_set)
qed

end
