(* ===== verification/WorkerRuntime.thy ===== *)
theory WorkerRuntime
  imports WorkerBanks Completion TableStorage "HOL-Library.AList"
begin

text \<open>
  \<open>workers/runtime.py\<close>: the single owner of the WORKs, Banks and jobs of a worker. A record of a WORK is mutated
  by many callers, so records are kept by sequence and everything else names them by it. The input compiler of the worker
  (\<open>role\<close>) and the results of its jobs are parameters: a job that was submitted ends at some later time with a value or an
  exception, in any order. A step that raises leaves the worker failed, and nothing but its replacement follows; the half
  changed records of a failed worker are left out, and so are profiling facts and receipts, which nothing here reads.
\<close>

section \<open>State\<close>

datatype job_kind = IMPORT_INPUT | COMPILE | METADATA | JOB_H2D | COMPUTE | JOB_D2H

type_synonym snapshot_fields = "(string \<times> field_value) list"

type_synonym captured = "(string \<times> snapshot_fields) list"

text \<open>The fields of a prepared row the runtime reads; a Target row has no suffix and a Draft row no prompt.\<close>

record plan_row =
  pr_index :: nat
  pr_prompt :: "int list"
  pr_proposal :: "int list"
  pr_suffix :: "int list"

record compute_plan =
  cp_rows :: "plan_row list"

record compute_result =
  cr_executed_rows :: "nat list"
  cr_exports :: bool

datatype 'v job_value = Inputs 'v | Planned compute_plan | Written 'v | Copied | Computed compute_result

record 'v work_state =
  st_spec :: work
  st_captured :: "captured list"
  st_outcomes :: "outcome option list"
  st_jobs :: "job_kind list"
  st_layout :: "bank_layout option"
  st_import_inputs :: "'v option"
  st_plan :: "compute_plan option"
  st_prepared_rows :: "(nat \<times> plan_row) list"
  st_prepared_template :: "compute_plan option"
  st_metadata :: "'v option"
  st_imported :: bool
  st_result :: "compute_result option"
  st_physical_done :: bool

text \<open>\<open>role\<close>: its input compiler may run in this process (\<open>inline\<close>) and prepare rows one by one (\<open>incremental\<close>).\<close>

record 'v worker_role =
  ro_inline :: bool
  ro_incremental :: bool
  ro_max_batch_tokens :: int
  ro_direct_imports :: bool
  ro_compile_import :: "work \<Rightarrow> captured list \<Rightarrow> bank_layout \<Rightarrow> nat list \<Rightarrow> 'v result"
  ro_compile_compute :: "work \<Rightarrow> captured list \<Rightarrow> bank_layout \<Rightarrow> nat list \<Rightarrow> compute_plan result"
  ro_copies :: "'v \<Rightarrow> 'v \<Rightarrow> bool"

record 'v worker_runtime =
  rt_banks :: phys_banks
  rt_records :: "(int \<times> 'v work_state) list"
  rt_compute :: "int option"
  rt_done :: "(int \<times> job_kind \<times> 'v job_value result) list"
  rt_shutting_down :: bool
  rt_draining :: bool
  rt_failed :: "py_error option"

definition new_runtime :: "phys_banks \<Rightarrow> 'v worker_runtime" where
  "new_runtime banks = \<lparr>rt_banks = banks, rt_records = [], rt_compute = None, rt_done = [], rt_shutting_down = False,
     rt_draining = False, rt_failed = None\<rparr>"

definition max_outstanding :: nat where "max_outstanding = 4"

definition new_state :: "work \<Rightarrow> 'v work_state" where
  "new_state w = \<lparr>st_spec = w, st_captured = replicate (length (wk_rows w)) [], st_outcomes = replicate (length (wk_rows w)) None,
     st_jobs = [], st_layout = None, st_import_inputs = None, st_plan = None, st_prepared_rows = [], st_prepared_template = None,
     st_metadata = None, st_imported = False, st_result = None, st_physical_done = False\<rparr>"

definition state_of :: "'v worker_runtime \<Rightarrow> int \<Rightarrow> 'v work_state result" where
  "state_of rt seq = (case map_of (rt_records rt) seq of None \<Rightarrow> Inl (KeyError ''records'') | Some st \<Rightarrow> Inr st)"

definition upd_state :: "int \<Rightarrow> ('v work_state \<Rightarrow> 'v work_state) \<Rightarrow> 'v worker_runtime \<Rightarrow> 'v worker_runtime" where
  "upd_state seq f rt = rt\<lparr>rt_records := map (\<lambda>(k, st). (k, if k = seq then f st else st)) (rt_records rt)\<rparr>"

definition set_phase :: "int \<Rightarrow> phase \<Rightarrow> 'v worker_runtime \<Rightarrow> 'v worker_runtime" where
  "set_phase i ph rt = rt\<lparr>rt_banks := set_bank i ((bank_at (rt_banks rt) i)\<lparr>pb_phase := ph\<rparr>) (rt_banks rt)\<rparr>"

section \<open>Taking WORK and facts\<close>

definition rt_accept :: "work \<Rightarrow> 'v worker_runtime \<Rightarrow> (bool \<times> 'v worker_runtime) result" where
  "rt_accept w rt =
     bind_r (require (rt_failed rt = None) (RuntimeError ''worker failed; restart requires a new cohort'')) (\<lambda>_.
     bind_r (require (int (length (wk_rows w)) \<le> bn_capacity_rows (rt_banks rt)) (ValueError ''WORK exceeds total physical row capacity'')) (\<lambda>_.
     if rt_draining rt \<or> max_outstanding \<le> length (rt_records rt) then Inr (False, rt)
     else bind_r (require (map_of (rt_records rt) (wk_work_seq w) = None) (ValueError ''duplicate WORK'')) (\<lambda>_.
       let bank = bank_at (rt_banks rt) (wk_bank_id w) in
       if pb_current bank \<noteq> None \<and> pb_pending bank \<noteq> None then Inr (False, rt)
       else bind_r (require (work_blocks w \<le> bn_blocks_per_bank (rt_banks rt)) (ValueError ''WORK exceeds Bank capacity'')) (\<lambda>_.
         let bank' = (if pb_current bank = None then bank\<lparr>pb_current := Some (wk_work_seq w)\<rparr> else bank\<lparr>pb_pending := Some (wk_work_seq w)\<rparr>) in
         Inr (True, rt\<lparr>rt_records := rt_records rt @ [(wk_work_seq w, new_state w)],
                       rt_banks := set_bank (wk_bank_id w) bank' (rt_banks rt)\<rparr>)))))"

record input_event =
  ev_index :: int
  ev_name :: string
  ev_selector :: selector
  ev_snapshot :: snapshot_fields

definition input_names :: "string list" where
  "input_names = [''source'', ''predecessor'', ''classified'']"

definition dep_named :: "row_work \<Rightarrow> string \<Rightarrow> table_dependency option" where
  "dep_named r name = (if name = ''source'' then rw_source r else if name = ''predecessor'' then rw_predecessor r else rw_classified r)"

definition is_skipped :: "outcome option \<Rightarrow> bool" where
  "is_skipped x \<longleftrightarrow> x = Some SKIPPED_FINISHED \<or> x = Some SKIPPED_SHUTDOWN"

definition says_finished :: "snapshot_fields \<Rightarrow> bool" where
  "says_finished s \<longleftrightarrow> map_of s ''lifecycle'' = Some (VInt 2)"

definition capture :: "input_event \<Rightarrow> 'v work_state \<Rightarrow> 'v work_state" where
  "capture e st =
     (let i = nat (ev_index e);
          st' = st\<lparr>st_captured := (st_captured st)[i := AList.update (ev_name e) (ev_snapshot e) (st_captured st ! i)]\<rparr> in
      if ev_name e = ''classified'' \<and> says_finished (ev_snapshot e)
      then st'\<lparr>st_outcomes := (st_outcomes st')[i := Some SKIPPED_FINISHED]\<rparr> else st')"

definition receive_input :: "int \<Rightarrow> input_event \<Rightarrow> 'v worker_runtime \<Rightarrow> 'v worker_runtime result" where
  "receive_input seq e rt =
     bind_r (state_of rt seq) (\<lambda>st.
     bind_r (require (0 \<le> ev_index e \<and> ev_index e < int (length (wk_rows (st_spec st))) \<and> ev_name e \<in> set input_names)
       (ValueError ''input fact member/type mismatch'')) (\<lambda>_.
     bind_r (require (map_option td_selector (dep_named (wk_rows (st_spec st) ! nat (ev_index e)) (ev_name e)) = Some (ev_selector e))
       (ValueError ''input fact selector mismatch'')) (\<lambda>_.
     if is_skipped (st_outcomes st ! nat (ev_index e)) then Inr rt
     else bind_r (require (\<not> st_physical_done st \<and> map_of (st_captured st ! nat (ev_index e)) (ev_name e) = None)
         (ValueError ''duplicate or expired input fact'')) (\<lambda>_.
       Inr (upd_state seq (capture e) rt)))))"

definition receive_inputs :: "int \<Rightarrow> int \<Rightarrow> int \<Rightarrow> input_event list \<Rightarrow> 'v worker_runtime \<Rightarrow> 'v worker_runtime result" where
  "receive_inputs seq worker_id generation events rt =
     bind_r (require (case map_of (rt_records rt) seq of None \<Rightarrow> False
         | Some st \<Rightarrow> (worker_id, generation) = (wk_worker_id (st_spec st), wk_worker_generation (st_spec st)))
       (ValueError ''input facts for unknown WORK/generation or retired record'')) (\<lambda>_.
     iter_r (receive_input seq) events rt)"

section \<open>Jobs and their results\<close>

definition submit_job :: "int \<Rightarrow> job_kind \<Rightarrow> 'v worker_runtime \<Rightarrow> 'v worker_runtime" where
  "submit_job seq k = upd_state seq (\<lambda>st. st\<lparr>st_jobs := st_jobs st @ [k]\<rparr>)"

definition release_work :: "int \<Rightarrow> 'v worker_runtime \<Rightarrow> 'v worker_runtime result" where
  "release_work seq rt =
     bind_r (state_of rt seq) (\<lambda>st.
     bind_r (require (st_jobs st = []) (RuntimeError ''physical retirement while jobs reference WORK'')) (\<lambda>_.
     bind_r (case st_layout st of None \<Rightarrow> Inr (rt_banks rt) | Some l \<Rightarrow> bank_release_layout l (rt_banks rt)) (\<lambda>banks.
       let i = wk_bank_id (st_spec st); bank = bank_at banks i in
       Inr (upd_state seq (\<lambda>st. st\<lparr>st_physical_done := True\<rparr>)
         (rt\<lparr>rt_banks := set_bank i (bank\<lparr>pb_current := pb_pending bank, pb_pending := None\<rparr>) banks\<rparr>)))))"

definition finish_work :: "'v worker_role \<Rightarrow> int \<Rightarrow> 'v worker_runtime \<Rightarrow> 'v worker_runtime result" where
  "finish_work role seq rt = (if ro_direct_imports role then Inr (submit_job seq JOB_D2H rt) else release_work seq rt)"

definition live_rows :: "'v work_state \<Rightarrow> nat list" where
  "live_rows st = filter (\<lambda>i. st_outcomes st ! i = None) [0..<length (st_outcomes st)]"

fun apply_job :: "'v worker_role \<Rightarrow> int \<Rightarrow> job_kind \<Rightarrow> 'v job_value \<Rightarrow> 'v worker_runtime \<Rightarrow> 'v worker_runtime result" where
  "apply_job role seq IMPORT_INPUT (Inputs v) rt = Inr (upd_state seq (\<lambda>st. st\<lparr>st_import_inputs := Some v\<rparr>) rt)"
| "apply_job role seq COMPILE (Planned p) rt = Inr (upd_state seq (\<lambda>st. st\<lparr>st_plan := Some p\<rparr>) rt)"
| "apply_job role seq METADATA (Written v) rt = Inr (upd_state seq (\<lambda>st. st\<lparr>st_metadata := Some v\<rparr>) rt)"
| "apply_job role seq JOB_H2D Copied rt = bind_r (state_of rt seq) (\<lambda>st.
     Inr (set_phase (wk_bank_id (st_spec st)) PHASE_READY (upd_state seq (\<lambda>st. st\<lparr>st_imported := True\<rparr>) rt)))"
| "apply_job role seq COMPUTE (Computed r) rt = bind_r (state_of rt seq) (\<lambda>st.
     bind_r (require (cr_executed_rows r = live_rows st) (RuntimeError ''backend result does not cover the live WORK members'')) (\<lambda>_.
     let rt' = upd_state seq (\<lambda>st. st\<lparr>st_result := Some r,
             st_outcomes := map (\<lambda>x. if x = None then Some EXECUTED else x) (st_outcomes st)\<rparr>) (rt\<lparr>rt_compute := None\<rparr>) in
     if cr_exports r then Inr (set_phase (wk_bank_id (st_spec st)) EXPORTING (submit_job seq JOB_D2H rt'))
     else finish_work role seq rt'))"
| "apply_job role seq JOB_D2H Copied rt = release_work seq rt"
| "apply_job role seq k v rt = Inl (AttributeError ''value of another job'')"

definition handle_done :: "'v worker_role \<Rightarrow> int \<times> job_kind \<times> 'v job_value result \<Rightarrow> 'v worker_runtime \<Rightarrow> 'v worker_runtime result" where
  "handle_done role = (\<lambda>(seq, k, outcome) rt.
     bind_r (state_of rt seq) (\<lambda>st.
     bind_r (require (k \<in> set (st_jobs st)) (KeyError ''jobs'')) (\<lambda>_.
     bind_r outcome (\<lambda>v. apply_job role seq k v (upd_state seq (\<lambda>st. st\<lparr>st_jobs := remove1 k (st_jobs st)\<rparr>) rt)))))"

section \<open>Advancing a Bank\<close>

definition inputs_ready :: "'v work_state \<Rightarrow> string list \<Rightarrow> bool" where
  "inputs_ready st names \<longleftrightarrow> list_all (\<lambda>i. st_outcomes st ! i = Some SKIPPED_FINISHED
     \<or> list_all (\<lambda>name. dep_named (wk_rows (st_spec st) ! i) name = None \<or> map_of (st_captured st ! i) name \<noteq> None) names)
       [0..<length (wk_rows (st_spec st))]"

definition layout_names :: "work \<Rightarrow> string list" where
  "layout_names w = (if list_ex (\<lambda>r. rw_source r \<noteq> None) (wk_rows w) then [''source''] else [''predecessor'', ''classified''])"

definition take_receipt :: "'v worker_role \<Rightarrow> (int \<Rightarrow> int \<Rightarrow> bool) \<Rightarrow> int \<Rightarrow> int \<Rightarrow> 'v worker_runtime \<Rightarrow> 'v worker_runtime" where
  "take_receipt role receipts i seq rt =
     (if ro_direct_imports role \<and> receipts i seq then upd_state seq (\<lambda>st. st\<lparr>st_imported := True\<rparr>) rt else rt)"

text \<open>\<open>None\<close>: the layout has to wait.\<close>

definition allocate_layout :: "int \<Rightarrow> 'v worker_runtime \<Rightarrow> (bool \<times> 'v worker_runtime) option result" where
  "allocate_layout seq rt =
     bind_r (state_of rt seq) (\<lambda>st.
     if st_layout st \<noteq> None then Inr (Some (False, rt))
     else if \<not> inputs_ready st (layout_names (st_spec st)) then Inr None
     else bind_r (bank_allocate (st_spec st) (rt_banks rt)) (\<lambda>(layout, banks).
       case layout of None \<Rightarrow> Inr None
       | Some l \<Rightarrow> Inr (Some (True, upd_state seq (\<lambda>st. st\<lparr>st_layout := Some l\<rparr>) (rt\<lparr>rt_banks := banks\<rparr>)))))"

definition import_phase :: "'v worker_role \<Rightarrow> int \<Rightarrow> 'v worker_runtime \<Rightarrow> (bool \<times> 'v worker_runtime) result" where
  "import_phase role seq rt =
     bind_r (state_of rt seq) (\<lambda>st.
     case st_layout st of None \<Rightarrow> Inl (AttributeError ''layout'')
     | Some layout \<Rightarrow>
       if st_import_inputs st = None \<and> IMPORT_INPUT \<notin> set (st_jobs st) \<and> inputs_ready st [''source''] then
         if ro_inline role
         then bind_r (ro_compile_import role (st_spec st) (st_captured st) layout (live_rows st)) (\<lambda>v.
              bind_r (apply_job role seq IMPORT_INPUT (Inputs v) rt) (\<lambda>rt'. Inr (True, rt')))
         else Inr (True, submit_job seq IMPORT_INPUT rt)
       else Inr (False, rt))"

text \<open>The members whose inputs have all arrived and that are not prepared yet.\<close>

definition ready_members :: "'v work_state \<Rightarrow> nat list" where
  "ready_members st = filter (\<lambda>i. map_of (st_prepared_rows st) i = None
     \<and> list_all (\<lambda>name. dep_named (wk_rows (st_spec st) ! i) name = None \<or> map_of (st_captured st ! i) name \<noteq> None) input_names) (live_rows st)"

definition plan_tokens :: "work \<Rightarrow> plan_row list \<Rightarrow> int" where
  "plan_tokens w rows = (if is_draft_kind (wk_operation w) then sum_list (map (\<lambda>r. int (length (pr_suffix r))) rows)
     else sum_list (map (\<lambda>r. if pr_prompt r \<noteq> [] then int (length (pr_prompt r)) else int (length (pr_proposal r)) + 1) rows))"

text \<open>\<open>ready\<close> names no member that is prepared and none twice, so no descriptor is prepared twice.\<close>

definition prepare_rows :: "'v worker_role \<Rightarrow> int \<Rightarrow> nat list \<Rightarrow> 'v worker_runtime \<Rightarrow> 'v worker_runtime result" where
  "prepare_rows role seq ready rt =
     bind_r (state_of rt seq) (\<lambda>st.
     case st_layout st of None \<Rightarrow> Inl (AttributeError ''layout'')
     | Some layout \<Rightarrow>
       if ready = [] then Inr rt
       else bind_r (ro_compile_compute role (st_spec st) (st_captured st) layout ready) (\<lambda>part.
         bind_r (require (map pr_index (cp_rows part) = ready) (RuntimeError ''partial plan does not cover ready members'')) (\<lambda>_.
         Inr (upd_state seq (\<lambda>st. st\<lparr>st_prepared_template := Some part,
           st_prepared_rows := st_prepared_rows st @ map (\<lambda>r. (pr_index r, r)) (cp_rows part)\<rparr>) rt))))"

definition complete_plan :: "'v worker_role \<Rightarrow> int \<Rightarrow> nat list \<Rightarrow> 'v worker_runtime \<Rightarrow> 'v worker_runtime result" where
  "complete_plan role seq live rt =
     bind_r (state_of rt seq) (\<lambda>st.
     case st_prepared_template st of None \<Rightarrow> Inl (TypeError ''replace of None'')
     | Some part \<Rightarrow>
       bind_r (map_r (\<lambda>i. case map_of (st_prepared_rows st) i of None \<Rightarrow> Inl (KeyError ''prepared_rows'') | Some r \<Rightarrow> Inr r) live) (\<lambda>rows.
       bind_r (require (plan_tokens (st_spec st) rows \<le> ro_max_batch_tokens role) (ValueError ''WORK exceeds model token capacity'')) (\<lambda>_.
         apply_job role seq COMPILE (Planned (part\<lparr>cp_rows := rows\<rparr>)) rt)))"

definition compile_phase :: "'v worker_role \<Rightarrow> int \<Rightarrow> 'v worker_runtime \<Rightarrow> (bool \<times> 'v worker_runtime) result" where
  "compile_phase role seq rt =
     bind_r (state_of rt seq) (\<lambda>st.
     case st_layout st of None \<Rightarrow> Inl (AttributeError ''layout'')
     | Some layout \<Rightarrow>
       if st_plan st = None \<and> COMPILE \<notin> set (st_jobs st) then
         let live = live_rows st in
         if ro_inline role \<and> ro_incremental role then
           let ready = ready_members st;
               complete = list_all (\<lambda>i. map_of (st_prepared_rows st) i \<noteq> None \<or> i \<in> set ready) live in
           if ready \<noteq> [] \<or> complete then
             bind_r (prepare_rows role seq ready rt) (\<lambda>rt1.
             bind_r (if complete then complete_plan role seq live rt1 else Inr rt1) (\<lambda>rt2. Inr (True, rt2)))
           else Inr (False, rt)
         else if inputs_ready st input_names then
           if ro_inline role
           then bind_r (ro_compile_compute role (st_spec st) (st_captured st) layout live) (\<lambda>p.
                bind_r (apply_job role seq COMPILE (Planned p) rt) (\<lambda>rt'. Inr (True, rt')))
           else Inr (True, submit_job seq COMPILE rt)
         else Inr (False, rt)
       else Inr (False, rt))"

definition metadata_phase :: "int \<Rightarrow> 'v worker_runtime \<Rightarrow> (bool \<times> 'v worker_runtime) result" where
  "metadata_phase seq rt =
     bind_r (state_of rt seq) (\<lambda>st.
     if st_import_inputs st \<noteq> None \<and> st_metadata st = None \<and> METADATA \<notin> set (st_jobs st)
     then Inr (True, submit_job seq METADATA rt) else Inr (False, rt))"

definition copy_phase :: "'v worker_role \<Rightarrow> int \<Rightarrow> int \<Rightarrow> 'v worker_runtime \<Rightarrow> (bool \<times> 'v worker_runtime) result" where
  "copy_phase role i seq rt =
     bind_r (state_of rt seq) (\<lambda>st.
     if ro_direct_imports role then
       Inr (False, if pb_phase (bank_at (rt_banks rt) i) = FILLING \<and> st_imported st \<and> st_metadata st \<noteq> None
                   then set_phase i PHASE_READY rt else rt)
     else (case (st_metadata st, st_import_inputs st) of
         (Some m, Some inputs) \<Rightarrow>
           if \<not> st_imported st \<and> JOB_H2D \<notin> set (st_jobs st) then
             Inr (True, if ro_copies role inputs m then submit_job seq JOB_H2D rt
                        else set_phase i PHASE_READY (upd_state seq (\<lambda>st. st\<lparr>st_imported := True\<rparr>) rt))
           else Inr (False, rt)
       | _ \<Rightarrow> Inr (False, rt)))"

definition advance_bank :: "'v worker_role \<Rightarrow> (int \<Rightarrow> int \<Rightarrow> bool) \<Rightarrow> int \<Rightarrow> 'v worker_runtime \<Rightarrow> (bool \<times> 'v worker_runtime) result" where
  "advance_bank role receipts i rt0 =
     (case pb_current (bank_at (rt_banks rt0) i) of None \<Rightarrow> Inr (False, rt0)
      | Some seq \<Rightarrow>
        let rt = take_receipt role receipts i seq rt0 in
        bind_r (state_of rt seq) (\<lambda>st.
        if list_all is_skipped (st_outcomes st) then
          if st_jobs st = [] \<and> (ro_direct_imports role \<longrightarrow> st_imported st)
          then bind_r (finish_work role seq rt) (\<lambda>rt'. Inr (True, rt'))
          else Inr (False, rt)
        else
          bind_r (allocate_layout seq rt) (\<lambda>allocated.
          case allocated of None \<Rightarrow> Inr (False, rt)
          | Some (c1, rt1) \<Rightarrow>
            bind_r (import_phase role seq rt1) (\<lambda>(c2, rt2).
            bind_r (compile_phase role seq rt2) (\<lambda>(c3, rt3).
            bind_r (metadata_phase seq rt3) (\<lambda>(c4, rt4).
            bind_r (copy_phase role i seq rt4) (\<lambda>(c5, rt5). Inr (c1 \<or> c2 \<or> c3 \<or> c4 \<or> c5, rt5))))))))"

section \<open>Computing\<close>

definition eligible :: "'v worker_runtime \<Rightarrow> int \<Rightarrow> bool" where
  "eligible rt i \<longleftrightarrow> (case pb_current (bank_at (rt_banks rt) i) of None \<Rightarrow> False
     | Some seq \<Rightarrow> (case map_of (rt_records rt) seq of None \<Rightarrow> False
         | Some st \<Rightarrow> pb_phase (bank_at (rt_banks rt) i) = PHASE_READY \<and> st_plan st \<noteq> None \<and> st_jobs st = []
             \<and> list_ex (\<lambda>x. x = None) (st_outcomes st)))"

definition current_seq :: "'v worker_runtime \<Rightarrow> int \<Rightarrow> int" where
  "current_seq rt i = (case pb_current (bank_at (rt_banks rt) i) of None \<Rightarrow> 0 | Some seq \<Rightarrow> seq)"

definition dispatch_compute :: "'v worker_runtime \<Rightarrow> bool \<times> 'v worker_runtime" where
  "dispatch_compute rt =
     (if rt_compute rt \<noteq> None then (False, rt)
      else case filter (eligible rt) [0, 1] of
          [] \<Rightarrow> (False, rt)
        | b # bs \<Rightarrow>
            let i = fold (\<lambda>j best. if current_seq rt j < current_seq rt best then j else best) bs b; seq = current_seq rt i in
            (True, submit_job seq COMPUTE (set_phase i COMPUTING (rt\<lparr>rt_compute := Some seq\<rparr>))))"

section \<open>One turn\<close>

fun handle_all :: "'v worker_role \<Rightarrow> nat \<Rightarrow> 'v worker_runtime \<Rightarrow> (bool \<times> 'v worker_runtime) result" where
  "handle_all role 0 rt = Inr (False, rt)"
| "handle_all role (Suc n) rt = (case rt_done rt of
       [] \<Rightarrow> Inr (False, rt)
     | d # ds \<Rightarrow> bind_r (handle_done role d (rt\<lparr>rt_done := ds\<rparr>)) (\<lambda>rt'.
         bind_r (handle_all role n rt') (\<lambda>(_, rt''). Inr (True, rt''))))"

text \<open>The Bank of the older WORK goes first; a Bank without one goes last.\<close>

definition bank_order :: "'v worker_runtime \<Rightarrow> int list" where
  "bank_order rt = (case (pb_current (bank_at (rt_banks rt) 0), pb_current (bank_at (rt_banks rt) 1)) of
       (None, Some b) \<Rightarrow> [1, 0]
     | (Some a, Some b) \<Rightarrow> if b < a then [1, 0] else [0, 1]
     | _ \<Rightarrow> [0, 1])"

fun advance_all :: "'v worker_role \<Rightarrow> (int \<Rightarrow> int \<Rightarrow> bool) \<Rightarrow> int list \<Rightarrow> 'v worker_runtime \<Rightarrow> (bool \<times> 'v worker_runtime) result" where
  "advance_all role receipts [] rt = Inr (False, rt)"
| "advance_all role receipts (i # is) rt =
     bind_r (advance_bank role receipts i rt) (\<lambda>(c1, rt1).
     case dispatch_compute rt1 of (c2, rt2) \<Rightarrow>
     bind_r (advance_all role receipts is rt2) (\<lambda>(c3, rt3). Inr (c1 \<or> c2 \<or> c3, rt3)))"

definition step_body :: "'v worker_role \<Rightarrow> (int \<Rightarrow> int \<Rightarrow> bool) \<Rightarrow> nat \<Rightarrow> 'v worker_runtime \<Rightarrow> (bool \<times> 'v worker_runtime) result" where
  "step_body role receipts budget rt =
     bind_r (handle_all role budget rt) (\<lambda>(c1, rt1).
     bind_r (advance_all role receipts (bank_order rt1) rt1) (\<lambda>(c2, rt2). Inr (c1 \<or> c2, rt2)))"

definition rt_step :: "'v worker_role \<Rightarrow> (int \<Rightarrow> int \<Rightarrow> bool) \<Rightarrow> nat \<Rightarrow> 'v worker_runtime \<Rightarrow> bool result \<times> 'v worker_runtime" where
  "rt_step role receipts budget rt =
     (if rt_failed rt \<noteq> None then (Inl (RuntimeError ''worker failed; no further progress permitted''), rt)
      else case step_body role receipts budget rt of
          Inl e \<Rightarrow> (Inl e, rt\<lparr>rt_failed := Some e\<rparr>)
        | Inr (changed, rt') \<Rightarrow> (Inr changed, rt'))"

section \<open>The other operations\<close>

definition publication_retired :: "int \<Rightarrow> 'v worker_runtime \<Rightarrow> 'v worker_runtime result" where
  "publication_retired seq rt =
     bind_r (state_of rt seq) (\<lambda>st.
     bind_r (require (st_physical_done st) (RuntimeError ''result storage retired before physical completion'')) (\<lambda>_.
       Inr (rt\<lparr>rt_records := AList.delete seq (rt_records rt)\<rparr>)))"

definition drain_runtime :: "'v worker_runtime \<Rightarrow> 'v worker_runtime" where
  "drain_runtime rt = rt\<lparr>rt_draining := True\<rparr>"

definition shutdown_state :: "'v worker_runtime \<Rightarrow> int \<Rightarrow> 'v work_state \<Rightarrow> 'v work_state" where
  "shutdown_state rt seq st =
     (if st_physical_done st \<or> rt_compute rt = Some seq \<or> st_result st \<noteq> None then st
      else st\<lparr>st_outcomes := map (\<lambda>x. if x = None then Some SKIPPED_SHUTDOWN else x) (st_outcomes st)\<rparr>)"

definition shutdown_runtime :: "'v worker_runtime \<Rightarrow> 'v worker_runtime" where
  "shutdown_runtime rt = rt\<lparr>rt_draining := True, rt_shutting_down := True,
     rt_records := map (\<lambda>(seq, st). (seq, shutdown_state rt seq st)) (rt_records rt)\<rparr>"

definition rt_quiescent :: "'v worker_runtime \<Rightarrow> bool" where
  "rt_quiescent rt \<longleftrightarrow> rt_draining rt \<and> rt_records rt = []"

definition recycle_runtime :: "'v worker_runtime \<Rightarrow> 'v worker_runtime result" where
  "recycle_runtime rt =
     bind_r (require (\<not> rt_shutting_down rt) (RuntimeError ''shutdown is terminal; cannot recycle'')) (\<lambda>_.
     bind_r (require (rt_quiescent rt) (RuntimeError ''recycle requires physical and publication barrier'')) (\<lambda>_.
       Inr (rt\<lparr>rt_draining := False\<rparr>)))"

end
