(* ===== verification/RuntimeFacts.thy ===== *)
theory RuntimeFacts
  imports WorkerRuntime
begin

text \<open>
  The invariant of the worker runtime and its preservation, operation by operation: which record owns which Bank, what a
  record may hold at each point of its life, and which jobs refer to it.
\<close>

section \<open>Records\<close>

definition arrived :: "'v work_state \<Rightarrow> nat \<Rightarrow> bool" where
  "arrived st i \<longleftrightarrow> list_all (\<lambda>name. dep_named (wk_rows (st_spec st) ! i) name = None \<or> map_of (st_captured st ! i) name \<noteq> None) input_names"

text \<open>A plan covers exactly the members that are live, and every input of theirs has arrived.\<close>

definition covers :: "'v work_state \<Rightarrow> compute_plan \<Rightarrow> bool" where
  "covers st p \<longleftrightarrow> map pr_index (cp_rows p) = live_rows st \<and> list_all (arrived st) (live_rows st)"

definition shape_ok :: "int \<Rightarrow> 'v work_state \<Rightarrow> bool" where
  "shape_ok seq st \<longleftrightarrow> wk_work_seq (st_spec st) = seq \<and> check_work (st_spec st) = Inr () \<and> length (st_captured st) = length (wk_rows (st_spec st))
     \<and> length (st_outcomes st) = length (wk_rows (st_spec st)) \<and> distinct (st_jobs st)"

definition stages_ok :: "'v work_state \<Rightarrow> bool" where
  "stages_ok st \<longleftrightarrow> (st_import_inputs st \<noteq> None \<longrightarrow> st_layout st \<noteq> None) \<and> (st_metadata st \<noteq> None \<longrightarrow> st_import_inputs st \<noteq> None)
     \<and> (\<forall>k \<in> set (st_jobs st). k \<noteq> JOB_D2H \<longrightarrow> st_layout st \<noteq> None) \<and> (JOB_H2D \<in> set (st_jobs st) \<longrightarrow> st_metadata st \<noteq> None)
     \<and> (METADATA \<in> set (st_jobs st) \<longrightarrow> st_import_inputs st \<noteq> None)"

definition members_ok :: "'v work_state \<Rightarrow> bool" where
  "members_ok st \<longleftrightarrow> (\<forall>i < length (st_outcomes st). st_outcomes st ! i = Some EXECUTED \<longrightarrow> arrived st i)
     \<and> (\<forall>i. map_of (st_prepared_rows st) i \<noteq> None \<longrightarrow> i < length (st_outcomes st) \<and> arrived st i)
     \<and> (\<forall>(i, r) \<in> set (st_prepared_rows st). pr_index r = i)
     \<and> (COMPILE \<in> set (st_jobs st) \<longrightarrow> list_all (arrived st) (live_rows st))
     \<and> (\<forall>p. st_plan st = Some p \<longrightarrow> live_rows st \<noteq> [] \<longrightarrow> covers st p)"

definition ends_ok :: "'v work_state \<Rightarrow> bool" where
  "ends_ok st \<longleftrightarrow> (st_physical_done st \<longrightarrow> st_jobs st = []) \<and> (st_result st \<noteq> None \<or> st_physical_done st \<or> JOB_D2H \<in> set (st_jobs st) \<longrightarrow> live_rows st = [])
     \<and> ((\<exists>i < length (st_outcomes st). st_outcomes st ! i = Some EXECUTED) \<longrightarrow> st_result st \<noteq> None)"

definition state_ok :: "int \<Rightarrow> 'v work_state \<Rightarrow> bool" where
  "state_ok seq st \<longleftrightarrow> shape_ok seq st \<and> stages_ok st \<and> members_ok st \<and> ends_ok st"

definition untouched_work :: "'v work_state \<Rightarrow> bool" where
  "untouched_work st \<longleftrightarrow> st_jobs st = [] \<and> st_layout st = None \<and> st_plan st = None \<and> st_prepared_rows st = [] \<and> st_prepared_template st = None
     \<and> st_import_inputs st = None \<and> st_metadata st = None \<and> st_result st = None \<and> \<not> st_imported st \<and> \<not> st_physical_done st"

section \<open>Banks\<close>

definition laid_out :: "phys_banks \<Rightarrow> work \<Rightarrow> bank_layout \<Rightarrow> bool" where
  "laid_out bs w l \<longleftrightarrow> bl_bank_id l = wk_bank_id w
     \<and> bl_offsets l = map (\<lambda>r. wk_bank_id w * bn_blocks_per_bank bs + rw_destination_offset r) (wk_rows w)
     \<and> bl_capacities l = map rw_capacity_blocks (wk_rows w) \<and> length (bl_rows l) = length (wk_rows w) \<and> work_blocks w \<le> bn_blocks_per_bank bs"

definition current_ok :: "(int \<Rightarrow> 'v work_state option) \<Rightarrow> phys_banks \<Rightarrow> int \<Rightarrow> bool" where
  "current_ok f bs i \<longleftrightarrow> (case pb_current (bank_at bs i) of None \<Rightarrow> pb_pending (bank_at bs i) = None \<and> pb_layout (bank_at bs i) = None
     | Some seq \<Rightarrow> \<exists>st. f seq = Some st \<and> wk_bank_id (st_spec st) = i \<and> \<not> st_physical_done st \<and> st_layout st = pb_layout (bank_at bs i)
         \<and> (\<forall>l. st_layout st = Some l \<longrightarrow> laid_out bs (st_spec st) l)
         \<and> (pb_phase (bank_at bs i) = PHASE_READY \<longrightarrow> st_imported st \<and> st_metadata st \<noteq> None))"

definition pending_ok :: "(int \<Rightarrow> 'v work_state option) \<Rightarrow> phys_banks \<Rightarrow> int \<Rightarrow> bool" where
  "pending_ok f bs i \<longleftrightarrow> (case pb_pending (bank_at bs i) of None \<Rightarrow> True
     | Some seq \<Rightarrow> pb_current (bank_at bs i) \<noteq> Some seq \<and> (\<exists>st. f seq = Some st \<and> wk_bank_id (st_spec st) = i \<and> untouched_work st))"

definition compute_ok :: "(int \<Rightarrow> 'v work_state option) \<Rightarrow> phys_banks \<Rightarrow> int option \<Rightarrow> bool" where
  "compute_ok f bs c \<longleftrightarrow> (\<forall>seq st. f seq = Some st \<longrightarrow> (COMPUTE \<in> set (st_jobs st) \<longleftrightarrow> c = Some seq))
     \<and> (case c of None \<Rightarrow> True | Some seq \<Rightarrow> \<exists>st. f seq = Some st \<and> pb_current (bank_at bs (wk_bank_id (st_spec st))) = Some seq
         \<and> pb_phase (bank_at bs (wk_bank_id (st_spec st))) = COMPUTING \<and> st_jobs st = [COMPUTE] \<and> st_imported st \<and> st_metadata st \<noteq> None
         \<and> st_plan st \<noteq> None \<and> live_rows st \<noteq> [])"

definition job_result_ok :: "'v work_state \<Rightarrow> job_kind \<Rightarrow> 'v job_value result \<Rightarrow> bool" where
  "job_result_ok st k outcome \<longleftrightarrow> (\<forall>p. k = COMPILE \<longrightarrow> outcome = Inr (Planned p) \<longrightarrow> live_rows st \<noteq> [] \<longrightarrow> map pr_index (cp_rows p) = live_rows st)"

definition done_ok :: "(int \<Rightarrow> 'v work_state option) \<Rightarrow> (int \<times> job_kind \<times> 'v job_value result) list \<Rightarrow> bool" where
  "done_ok f ds \<longleftrightarrow> distinct (map (\<lambda>(seq, k, _). (seq, k)) ds)
     \<and> (\<forall>(seq, k, outcome) \<in> set ds. \<exists>st. f seq = Some st \<and> k \<in> set (st_jobs st) \<and> job_result_ok st k outcome)"

definition owned :: "phys_banks \<Rightarrow> int \<Rightarrow> 'v work_state \<Rightarrow> bool" where
  "owned bs seq st \<longleftrightarrow> st_physical_done st \<or> Some seq = pb_current (bank_at bs (wk_bank_id (st_spec st)))
     \<or> Some seq = pb_pending (bank_at bs (wk_bank_id (st_spec st)))"

definition rt_view :: "(int \<Rightarrow> 'v work_state option) \<Rightarrow> phys_banks \<Rightarrow> int option \<Rightarrow> (int \<times> job_kind \<times> 'v job_value result) list \<Rightarrow> bool" where
  "rt_view f bs c ds \<longleftrightarrow> banks_ok bs \<and> (\<forall>seq st. f seq = Some st \<longrightarrow> state_ok seq st \<and> owned bs seq st)
     \<and> (\<forall>i \<in> {0, 1}. current_ok f bs i \<and> pending_ok f bs i) \<and> compute_ok f bs c \<and> done_ok f ds"

definition rt_ok :: "'v worker_runtime \<Rightarrow> bool" where
  "rt_ok rt \<longleftrightarrow> distinct (map fst (rt_records rt)) \<and> rt_view (map_of (rt_records rt)) (rt_banks rt) (rt_compute rt) (rt_done rt)"

section \<open>Reading and updating records\<close>

lemma map_of_upd: "map_of (rt_records (upd_state seq f rt)) k = (if k = seq then map_option f (map_of (rt_records rt) k) else map_of (rt_records rt) k)"
proof -
  have "map_of (map (\<lambda>(k, st). (k, if k = seq then f st else st)) xs) k = (if k = seq then map_option f (map_of xs k) else map_of xs k)" for xs
    by (induction xs) auto
  then show ?thesis by (simp add: upd_state_def)
qed

lemma upd_fields [simp]:
  "rt_banks (upd_state seq f rt) = rt_banks rt" "rt_compute (upd_state seq f rt) = rt_compute rt" "rt_done (upd_state seq f rt) = rt_done rt"
  "rt_failed (upd_state seq f rt) = rt_failed rt" "rt_draining (upd_state seq f rt) = rt_draining rt"
  "map fst (rt_records (upd_state seq f rt)) = map fst (rt_records rt)" "length (rt_records (upd_state seq f rt)) = length (rt_records rt)"
  by (simp_all add: upd_state_def case_prod_beta comp_def)

lemma state_of_Inr: "state_of rt seq = Inr st \<longleftrightarrow> map_of (rt_records rt) seq = Some st"
  by (simp add: state_of_def split: option.splits)

lemma map_of_upd_fun: "map_of (rt_records rt) seq = Some st \<Longrightarrow> map_of (rt_records (upd_state seq f rt)) = (map_of (rt_records rt))(seq \<mapsto> f st)"
  by (rule ext) (simp add: map_of_upd)

lemma work_bank: "check_work w = Inr () \<Longrightarrow> wk_bank_id w = 0 \<or> wk_bank_id w = 1"
  by (auto simp: check_work_def bind_r_eq_Inr)

text \<open>A record that keeps its place, its jobs and what the Bank knows of it.\<close>

definition same_place :: "'v work_state \<Rightarrow> 'v work_state \<Rightarrow> bool" where
  "same_place st st' \<longleftrightarrow> st_spec st' = st_spec st \<and> st_physical_done st' = st_physical_done st \<and> st_layout st' = st_layout st
     \<and> (st_imported st \<longrightarrow> st_imported st') \<and> (st_metadata st \<noteq> None \<longrightarrow> st_metadata st' \<noteq> None)"

lemma current_ok_upd:
  assumes "current_ok f bs i" "f seq = Some st" "same_place st st'"
  shows "current_ok (f(seq \<mapsto> st')) bs i"
  using assms by (auto simp: current_ok_def same_place_def split: option.splits)

lemma pending_ok_upd:
  assumes "pending_ok f bs i" "f seq = Some st" "st_spec st' = st_spec st" "untouched_work st \<Longrightarrow> untouched_work st' \<or> pb_pending (bank_at bs i) \<noteq> Some seq"
  shows "pending_ok (f(seq \<mapsto> st')) bs i"
  using assms by (auto simp: pending_ok_def split: option.splits)

lemma not_pending:
  assumes "rt_view f bs c ds" "i \<in> {0, 1}" "pb_current (bank_at bs i) = Some seq" "j \<in> {0, 1}"
  shows "pb_pending (bank_at bs j) \<noteq> Some seq"
proof
  assume pend: "pb_pending (bank_at bs j) = Some seq"
  obtain st where "f seq = Some st" "wk_bank_id (st_spec st) = i" using assms(1-3) unfolding rt_view_def current_ok_def by fastforce
  moreover obtain st' where "f seq = Some st'" "wk_bank_id (st_spec st') = j" "pb_current (bank_at bs j) \<noteq> Some seq"
    using assms(1,4) pend unfolding rt_view_def pending_ok_def by fastforce
  ultimately show False using assms(3) by simp
qed

text \<open>The record of a Bank that moves on.\<close>

lemma view_upd:
  assumes "rt_view f bs c ds" "f seq = Some st" "same_place st st'" "state_ok seq st'"
    and "untouched_work st \<longrightarrow> untouched_work st' \<or> (\<exists>i \<in> {0, 1}. pb_current (bank_at bs i) = Some seq)"
    and "COMPUTE \<in> set (st_jobs st') \<longleftrightarrow> COMPUTE \<in> set (st_jobs st)"
    and "c = Some seq \<longrightarrow> st_jobs st' = st_jobs st \<and> st_plan st' = st_plan st \<and> live_rows st' = live_rows st"
    and "\<forall>k outcome. (seq, k, outcome) \<in> set ds \<longrightarrow> k \<in> set (st_jobs st') \<and> job_result_ok st' k outcome"
  shows "rt_view (f(seq \<mapsto> st')) bs c ds"
proof -
  have place: "st_spec st' = st_spec st" "st_physical_done st' = st_physical_done st" using assms(3) by (simp_all add: same_place_def)
  have all: "state_ok s x \<and> owned bs s x" if "(f(seq \<mapsto> st')) s = Some x" for s x
    using that assms(1,2,4) place by (auto simp: rt_view_def owned_def split: if_splits)
  have slots: "current_ok (f(seq \<mapsto> st')) bs i \<and> pending_ok (f(seq \<mapsto> st')) bs i" if i: "i \<in> {0, 1}" for i
  proof -
    have "current_ok f bs i" "pending_ok f bs i" using assms(1) i unfolding rt_view_def by blast+
    then show ?thesis using current_ok_upd [where f = f and bs = bs and i = i, OF _ assms(2,3)]
        pending_ok_upd [where f = f and bs = bs and i = i, OF _ assms(2) place(1)] not_pending [OF assms(1) _ _ i] assms(5) by blast
  qed
  have "compute_ok (f(seq \<mapsto> st')) bs c"
    using assms(1,2,3,6,7) place by (auto simp: rt_view_def compute_ok_def same_place_def split: option.splits)
  moreover have "done_ok (f(seq \<mapsto> st')) ds" using assms(1,2,8) unfolding rt_view_def done_ok_def by fastforce
  ultimately show ?thesis using assms(1) all slots unfolding rt_view_def by blast
qed

section \<open>One record\<close>

lemma live_simps [simp]:
  "live_rows (st\<lparr>st_jobs := a\<rparr>) = live_rows st" "live_rows (st\<lparr>st_layout := b\<rparr>) = live_rows st" "live_rows (st\<lparr>st_import_inputs := c\<rparr>) = live_rows st"
  "live_rows (st\<lparr>st_plan := d\<rparr>) = live_rows st" "live_rows (st\<lparr>st_prepared_rows := e\<rparr>) = live_rows st" "live_rows (st\<lparr>st_metadata := g\<rparr>) = live_rows st"
  "live_rows (st\<lparr>st_prepared_template := h\<rparr>) = live_rows st" "live_rows (st\<lparr>st_imported := j\<rparr>) = live_rows st" "live_rows (st\<lparr>st_captured := k\<rparr>) = live_rows st"
  "live_rows (st\<lparr>st_physical_done := l\<rparr>) = live_rows st" "live_rows (st\<lparr>st_result := m\<rparr>) = live_rows st"
  by (simp_all add: live_rows_def)

lemma arrived_simps [simp]:
  "arrived (st\<lparr>st_jobs := a\<rparr>) = arrived st" "arrived (st\<lparr>st_layout := b\<rparr>) = arrived st" "arrived (st\<lparr>st_import_inputs := c\<rparr>) = arrived st"
  "arrived (st\<lparr>st_plan := d\<rparr>) = arrived st" "arrived (st\<lparr>st_prepared_rows := e\<rparr>) = arrived st" "arrived (st\<lparr>st_metadata := g\<rparr>) = arrived st"
  "arrived (st\<lparr>st_prepared_template := h\<rparr>) = arrived st" "arrived (st\<lparr>st_imported := j\<rparr>) = arrived st" "arrived (st\<lparr>st_outcomes := k\<rparr>) = arrived st"
  "arrived (st\<lparr>st_physical_done := l\<rparr>) = arrived st" "arrived (st\<lparr>st_result := m\<rparr>) = arrived st"
  by (simp_all add: arrived_def fun_eq_iff)

lemma covers_simps [simp]:
  "covers (st\<lparr>st_jobs := a\<rparr>) = covers st" "covers (st\<lparr>st_layout := b\<rparr>) = covers st" "covers (st\<lparr>st_import_inputs := c\<rparr>) = covers st"
  "covers (st\<lparr>st_plan := d\<rparr>) = covers st" "covers (st\<lparr>st_prepared_rows := e\<rparr>) = covers st" "covers (st\<lparr>st_metadata := g\<rparr>) = covers st"
  "covers (st\<lparr>st_prepared_template := h\<rparr>) = covers st" "covers (st\<lparr>st_imported := j\<rparr>) = covers st"
  "covers (st\<lparr>st_physical_done := l\<rparr>) = covers st" "covers (st\<lparr>st_result := m\<rparr>) = covers st"
  by (simp_all add: covers_def fun_eq_iff)

lemma shape_ok_frame [simp]:
  "shape_ok seq (st\<lparr>st_layout := b\<rparr>) = shape_ok seq st" "shape_ok seq (st\<lparr>st_import_inputs := c\<rparr>) = shape_ok seq st"
  "shape_ok seq (st\<lparr>st_plan := d\<rparr>) = shape_ok seq st" "shape_ok seq (st\<lparr>st_prepared_rows := e\<rparr>) = shape_ok seq st"
  "shape_ok seq (st\<lparr>st_metadata := g\<rparr>) = shape_ok seq st" "shape_ok seq (st\<lparr>st_prepared_template := h\<rparr>) = shape_ok seq st"
  "shape_ok seq (st\<lparr>st_imported := j\<rparr>) = shape_ok seq st" "shape_ok seq (st\<lparr>st_result := m\<rparr>) = shape_ok seq st"
  "shape_ok seq (st\<lparr>st_physical_done := l\<rparr>) = shape_ok seq st"
  by (simp_all add: shape_ok_def)

lemma stages_ok_frame [simp]:
  "stages_ok (st\<lparr>st_plan := d\<rparr>) = stages_ok st" "stages_ok (st\<lparr>st_prepared_rows := e\<rparr>) = stages_ok st"
  "stages_ok (st\<lparr>st_prepared_template := h\<rparr>) = stages_ok st" "stages_ok (st\<lparr>st_imported := j\<rparr>) = stages_ok st"
  "stages_ok (st\<lparr>st_result := m\<rparr>) = stages_ok st" "stages_ok (st\<lparr>st_physical_done := l\<rparr>) = stages_ok st"
  "stages_ok (st\<lparr>st_captured := k\<rparr>) = stages_ok st" "stages_ok (st\<lparr>st_outcomes := n\<rparr>) = stages_ok st"
  by (simp_all add: stages_ok_def)

lemma members_ok_frame [simp]:
  "members_ok (st\<lparr>st_layout := b\<rparr>) = members_ok st" "members_ok (st\<lparr>st_import_inputs := c\<rparr>) = members_ok st"
  "members_ok (st\<lparr>st_metadata := g\<rparr>) = members_ok st" "members_ok (st\<lparr>st_prepared_template := h\<rparr>) = members_ok st"
  "members_ok (st\<lparr>st_imported := j\<rparr>) = members_ok st" "members_ok (st\<lparr>st_result := m\<rparr>) = members_ok st"
  "members_ok (st\<lparr>st_physical_done := l\<rparr>) = members_ok st"
  by (simp_all add: members_ok_def)

lemma ends_ok_frame [simp]:
  "ends_ok (st\<lparr>st_layout := b\<rparr>) = ends_ok st" "ends_ok (st\<lparr>st_import_inputs := c\<rparr>) = ends_ok st"
  "ends_ok (st\<lparr>st_plan := d\<rparr>) = ends_ok st" "ends_ok (st\<lparr>st_prepared_rows := e\<rparr>) = ends_ok st"
  "ends_ok (st\<lparr>st_metadata := g\<rparr>) = ends_ok st" "ends_ok (st\<lparr>st_prepared_template := h\<rparr>) = ends_ok st"
  "ends_ok (st\<lparr>st_imported := j\<rparr>) = ends_ok st" "ends_ok (st\<lparr>st_captured := k\<rparr>) = ends_ok st"
  by (simp_all add: ends_ok_def)

lemma state_parts: "state_ok seq st \<longleftrightarrow> shape_ok seq st \<and> stages_ok st \<and> members_ok st \<and> ends_ok st"
  by (fact state_ok_def)

lemma state_length: "state_ok seq st \<Longrightarrow> length (st_outcomes st) = length (wk_rows (st_spec st))"
  by (simp add: state_ok_def shape_ok_def)

lemma live_iff: "i \<in> set (live_rows st) \<longleftrightarrow> i < length (st_outcomes st) \<and> st_outcomes st ! i = None"
  by (auto simp: live_rows_def)

lemma live_empty: "live_rows st = [] \<longleftrightarrow> None \<notin> set (st_outcomes st)"
  by (auto simp: live_rows_def filter_empty_conv in_set_conv_nth)

lemma ready_arrived:
  assumes "inputs_ready st input_names" "state_ok seq st"
  shows "list_all (arrived st) (live_rows st)"
  unfolding list_all_iff
proof
  fix i
  assume "i \<in> set (live_rows st)"
  then have "i < length (wk_rows (st_spec st))" "st_outcomes st ! i = None" using state_length [OF assms(2)] by (auto simp: live_iff)
  then show "arrived st i" using assms(1) unfolding inputs_ready_def arrived_def list_all_iff by (metis atLeastLessThan_iff le0 option.distinct(1) set_upt)
qed

text \<open>Adding a job or a value.\<close>

lemma state_ok_job:
  assumes "state_ok seq st" "k \<notin> set (st_jobs st)" "st_layout st \<noteq> None \<or> k = JOB_D2H" "\<not> st_physical_done st"
    and "k = COMPILE \<Longrightarrow> list_all (arrived st) (live_rows st)" "k = JOB_H2D \<Longrightarrow> st_metadata st \<noteq> None"
    and "k = METADATA \<Longrightarrow> st_import_inputs st \<noteq> None" "k = JOB_D2H \<Longrightarrow> live_rows st = []"
  shows "state_ok seq (st\<lparr>st_jobs := st_jobs st @ [k]\<rparr>)"
proof -
  note ok = assms(1) [unfolded state_ok_def]
  have "shape_ok seq (st\<lparr>st_jobs := st_jobs st @ [k]\<rparr>)" using ok assms(2) by (simp add: shape_ok_def)
  moreover have "stages_ok (st\<lparr>st_jobs := st_jobs st @ [k]\<rparr>)" using ok assms(3,6,7) by (auto simp: stages_ok_def)
  moreover have "members_ok (st\<lparr>st_jobs := st_jobs st @ [k]\<rparr>)" using ok assms(5) unfolding members_ok_def by (simp; blast)
  moreover have "ends_ok (st\<lparr>st_jobs := st_jobs st @ [k]\<rparr>)" using ok assms(4,8) unfolding ends_ok_def by (simp; blast)
  ultimately show ?thesis by (simp add: state_ok_def)
qed

lemma state_ok_import: "state_ok seq st \<Longrightarrow> st_layout st \<noteq> None \<Longrightarrow> state_ok seq (st\<lparr>st_import_inputs := Some v\<rparr>)"
  by (simp add: state_ok_def stages_ok_def)

lemma state_ok_plan: "state_ok seq st \<Longrightarrow> covers st p \<or> live_rows st = [] \<Longrightarrow> state_ok seq (st\<lparr>st_plan := Some p\<rparr>)"
  by (auto simp: state_ok_def members_ok_def)

lemma state_ok_metadata: "state_ok seq st \<Longrightarrow> st_import_inputs st \<noteq> None \<Longrightarrow> state_ok seq (st\<lparr>st_metadata := Some v\<rparr>)"
  by (simp add: state_ok_def stages_ok_def)

lemma state_ok_imported: "state_ok seq st \<Longrightarrow> state_ok seq (st\<lparr>st_imported := True\<rparr>)"
  by (simp add: state_ok_def)

lemma state_ok_unjob:
  assumes "state_ok seq st"
  shows "state_ok seq (st\<lparr>st_jobs := remove1 k (st_jobs st)\<rparr>)"
proof -
  note ok = assms [unfolded state_ok_def]
  have d: "distinct (st_jobs st)" using ok by (simp add: shape_ok_def)
  have "shape_ok seq (st\<lparr>st_jobs := remove1 k (st_jobs st)\<rparr>)" using ok by (simp add: shape_ok_def)
  moreover have "stages_ok (st\<lparr>st_jobs := remove1 k (st_jobs st)\<rparr>)" using ok d by (auto simp: stages_ok_def)
  moreover have "members_ok (st\<lparr>st_jobs := remove1 k (st_jobs st)\<rparr>)" using ok d unfolding members_ok_def by simp
  moreover have "ends_ok (st\<lparr>st_jobs := remove1 k (st_jobs st)\<rparr>)" using ok d unfolding ends_ok_def by simp
  ultimately show ?thesis by (simp add: state_ok_def)
qed

section \<open>The record at the head of a Bank\<close>

definition heads :: "'v worker_runtime \<Rightarrow> int \<Rightarrow> int \<Rightarrow> 'v work_state \<Rightarrow> bool" where
  "heads rt i seq st \<longleftrightarrow> i \<in> {0, 1} \<and> pb_current (bank_at (rt_banks rt) i) = Some seq \<and> map_of (rt_records rt) seq = Some st"

lemma heads_facts:
  assumes "rt_ok rt" "heads rt i seq st"
  shows "state_ok seq st" "wk_bank_id (st_spec st) = i" "\<not> st_physical_done st" "st_layout st = pb_layout (bank_at (rt_banks rt) i)"
    "st_layout st = Some l \<Longrightarrow> laid_out (rt_banks rt) (st_spec st) l"
    "rt_compute rt = Some seq \<Longrightarrow> st_jobs st = [COMPUTE] \<and> st_plan st \<noteq> None \<and> st_metadata st \<noteq> None \<and> st_imported st \<and> live_rows st \<noteq> []
       \<and> pb_phase (bank_at (rt_banks rt) i) = COMPUTING"
    "COMPUTE \<in> set (st_jobs st) \<longleftrightarrow> rt_compute rt = Some seq" "state_of rt seq = Inr st"
proof -
  have v: "rt_view (map_of (rt_records rt)) (rt_banks rt) (rt_compute rt) (rt_done rt)" using assms(1) by (simp add: rt_ok_def)
  have h: "i \<in> {0, 1}" "pb_current (bank_at (rt_banks rt) i) = Some seq" "map_of (rt_records rt) seq = Some st" using assms(2) by (simp_all add: heads_def)
  show "state_ok seq st" using v h unfolding rt_view_def by blast
  have "current_ok (map_of (rt_records rt)) (rt_banks rt) i" using v h(1) unfolding rt_view_def by blast
  then show *: "wk_bank_id (st_spec st) = i" "\<not> st_physical_done st" "st_layout st = pb_layout (bank_at (rt_banks rt) i)"
    "st_layout st = Some l \<Longrightarrow> laid_out (rt_banks rt) (st_spec st) l" using h by (auto simp: current_ok_def)
  have c: "compute_ok (map_of (rt_records rt)) (rt_banks rt) (rt_compute rt)" using v unfolding rt_view_def by blast
  then show "COMPUTE \<in> set (st_jobs st) \<longleftrightarrow> rt_compute rt = Some seq" using h unfolding compute_ok_def by blast
  show "rt_compute rt = Some seq \<Longrightarrow> st_jobs st = [COMPUTE] \<and> st_plan st \<noteq> None \<and> st_metadata st \<noteq> None \<and> st_imported st \<and> live_rows st \<noteq> []
       \<and> pb_phase (bank_at (rt_banks rt) i) = COMPUTING" using c h *(1) by (auto simp: compute_ok_def)
  show "state_of rt seq = Inr st" using h by (simp add: state_of_Inr)
qed

lemma head_upd:
  assumes "rt_ok rt" "heads rt i seq st" "same_place st (g st)" "state_ok seq (g st)" "live_rows (g st) = live_rows st"
    and "set (st_jobs st) \<subseteq> set (st_jobs (g st))" "COMPUTE \<in> set (st_jobs (g st)) \<longleftrightarrow> COMPUTE \<in> set (st_jobs st)"
    and "rt_compute rt = Some seq \<Longrightarrow> st_jobs (g st) = st_jobs st \<and> st_plan (g st) = st_plan st"
  shows "rt_ok (upd_state seq g rt) \<and> heads (upd_state seq g rt) i seq (g st)"
proof -
  let ?f = "map_of (rt_records rt)"
  have v: "rt_view ?f (rt_banks rt) (rt_compute rt) (rt_done rt)" "distinct (map fst (rt_records rt))" using assms(1) by (simp_all add: rt_ok_def)
  have h: "i \<in> {0, 1}" "pb_current (bank_at (rt_banks rt) i) = Some seq" "?f seq = Some st" using assms(2) by (simp_all add: heads_def)
  have "done_ok ?f (rt_done rt)" using v(1) unfolding rt_view_def by blast
  then have jobs: "k \<in> set (st_jobs (g st)) \<and> job_result_ok (g st) k outcome" if "(seq, k, outcome) \<in> set (rt_done rt)" for k outcome
    using that h(3) assms(5,6) by (fastforce simp: done_ok_def job_result_ok_def)
  have "rt_view (?f(seq \<mapsto> g st)) (rt_banks rt) (rt_compute rt) (rt_done rt)"
    by (rule view_upd [OF v(1) h(3) assms(3,4)]) (use h assms(5-8) jobs in blast)+
  then show ?thesis using v(2) h map_of_upd_fun [OF h(3), of g] by (auto simp: rt_ok_def heads_def)
qed

lemma head_submit:
  assumes "rt_ok rt" "heads rt i seq st" "k \<noteq> COMPUTE" "k \<notin> set (st_jobs st)" "rt_compute rt \<noteq> Some seq"
    and "st_layout st \<noteq> None \<or> k = JOB_D2H" "k = COMPILE \<Longrightarrow> list_all (arrived st) (live_rows st)" "k = JOB_H2D \<Longrightarrow> st_metadata st \<noteq> None"
    and "k = METADATA \<Longrightarrow> st_import_inputs st \<noteq> None" "k = JOB_D2H \<Longrightarrow> live_rows st = []"
  shows "rt_ok (submit_job seq k rt) \<and> heads (submit_job seq k rt) i seq (st\<lparr>st_jobs := st_jobs st @ [k]\<rparr>)"
  unfolding submit_job_def
  by (rule head_upd [OF assms(1,2)])
    (use assms(3-) heads_facts [OF assms(1,2)] state_ok_job [of seq st k] in \<open>simp_all add: same_place_def subset_insertI\<close>)

section \<open>A record moves together with its Bank\<close>

definition computing_ok :: "phys_banks \<Rightarrow> int \<Rightarrow> 'v work_state \<Rightarrow> bool" where
  "computing_ok bs i st \<longleftrightarrow> pb_phase (bank_at bs i) = COMPUTING \<and> st_jobs st = [COMPUTE] \<and> st_imported st \<and> st_metadata st \<noteq> None
     \<and> st_plan st \<noteq> None \<and> live_rows st \<noteq> []"

definition slot_ok :: "phys_banks \<Rightarrow> int \<Rightarrow> 'v work_state \<Rightarrow> bool" where
  "slot_ok bs i st \<longleftrightarrow> \<not> st_physical_done st \<and> st_layout st = pb_layout (bank_at bs i) \<and> (\<forall>l. st_layout st = Some l \<longrightarrow> laid_out bs (st_spec st) l)
     \<and> (pb_phase (bank_at bs i) = PHASE_READY \<longrightarrow> st_imported st \<and> st_metadata st \<noteq> None)"

definition bank_moves :: "phys_banks \<Rightarrow> phys_banks \<Rightarrow> int \<Rightarrow> bool" where
  "bank_moves bs bs' i \<longleftrightarrow> banks_ok bs' \<and> bn_blocks_per_bank bs' = bn_blocks_per_bank bs \<and> bn_capacity_rows bs' = bn_capacity_rows bs
     \<and> (\<forall>j \<in> {0, 1}. j \<noteq> i \<longrightarrow> bank_at bs' j = bank_at bs j) \<and> pb_current (bank_at bs' i) = pb_current (bank_at bs i)
     \<and> pb_pending (bank_at bs' i) = pb_pending (bank_at bs i)"

lemma bank_moves_slots:
  assumes "bank_moves bs bs' i" "j \<in> {0, 1}"
  shows "pb_current (bank_at bs' j) = pb_current (bank_at bs j)" "pb_pending (bank_at bs' j) = pb_pending (bank_at bs j)"
  using assms unfolding bank_moves_def by metis+

lemma laid_out_cong: "bn_blocks_per_bank bs' = bn_blocks_per_bank bs \<Longrightarrow> laid_out bs' w l = laid_out bs w l"
  by (simp add: laid_out_def)

lemma current_unique:
  assumes "rt_view f bs c ds" "i \<in> {0, 1}" "j \<in> {0, 1}" "pb_current (bank_at bs i) = Some seq" "pb_current (bank_at bs j) = Some seq"
  shows "i = j"
proof -
  have "current_ok f bs i" "current_ok f bs j" using assms(1-3) unfolding rt_view_def by blast+
  then show ?thesis using assms(4,5) by (auto simp: current_ok_def)
qed

lemma head_step:
  assumes v: "rt_view f bs c ds" and i: "i \<in> {0, 1}" and cur: "pb_current (bank_at bs i) = Some seq" and st: "f seq = Some st"
    and spec: "st_spec st' = st_spec st" and ok: "state_ok seq st'" and moves: "bank_moves bs bs' i" and slot: "slot_ok bs' i st'"
    and comp: "COMPUTE \<in> set (st_jobs st') \<longleftrightarrow> c' = Some seq" "c' = Some seq \<longrightarrow> computing_ok bs' i st' \<and> (c = None \<or> c = Some seq)"
      "c' \<noteq> Some seq \<longrightarrow> c' = c \<or> c = Some seq \<and> c' = None"
    and ends: "distinct (map (\<lambda>(seq, k, _). (seq, k)) ds')" "\<forall>d \<in> set ds'. fst d \<noteq> seq \<longrightarrow> d \<in> set ds"
      "\<forall>k outcome. (seq, k, outcome) \<in> set ds' \<longrightarrow> k \<in> set (st_jobs st') \<and> job_result_ok st' k outcome"
  shows "rt_view (f(seq \<mapsto> st')) bs' c' ds'"
proof -
  have cok: "current_ok f bs j" "pending_ok f bs j" if "j \<in> {0, 1}" for j using v that unfolding rt_view_def by blast+
  have home: "wk_bank_id (st_spec st) = i" using cok(1) [OF i] cur st by (auto simp: current_ok_def)
  note slots = bank_moves_slots [OF moves]
  have bank01: "wk_bank_id (st_spec x) \<in> {0, 1}" if "f s = Some x" for s x
    using v that work_bank unfolding rt_view_def state_ok_def shape_ok_def by blast
  have all: "state_ok s x \<and> owned bs' s x" if "(f(seq \<mapsto> st')) s = Some x" for s x
  proof (cases "s = seq")
    case True
    then show ?thesis using that ok spec home cur slots(1) [OF i] by (auto simp: owned_def)
  next
    case False
    then have fs: "f s = Some x" using that by simp
    then have "state_ok s x" "owned bs s x" using v unfolding rt_view_def by blast+
    then show ?thesis using slots [OF bank01 [OF fs]] by (simp add: owned_def)
  qed
  have "current_ok (f(seq \<mapsto> st')) bs' j" if j: "j \<in> {0, 1}" for j
  proof (cases "j = i")
    case True
    then show ?thesis using slot spec home cur slots(1) [OF i] by (simp add: current_ok_def slot_ok_def)
  next
    case False
    then have "bank_at bs' j = bank_at bs j" "bn_blocks_per_bank bs' = bn_blocks_per_bank bs" using moves j by (auto simp: bank_moves_def)
    moreover have "pb_current (bank_at bs j) \<noteq> Some seq" using current_unique [OF v i j cur] False by blast
    ultimately show ?thesis using cok(1) [OF j] laid_out_cong [of bs' bs] by (simp add: current_ok_def split: option.splits)
  qed
  moreover have "pending_ok (f(seq \<mapsto> st')) bs' j" if j: "j \<in> {0, 1}" for j
  proof -
    have "pb_pending (bank_at bs j) \<noteq> Some seq" by (rule not_pending [OF v i cur j])
    then show ?thesis using cok(2) [OF j] slots [OF j] by (simp add: pending_ok_def split: option.splits)
  qed
  moreover have "compute_ok (f(seq \<mapsto> st')) bs' c'"
  proof -
    have co: "compute_ok f bs c" using v unfolding rt_view_def by blast
    have jobs: "COMPUTE \<in> set (st_jobs x) \<longleftrightarrow> c' = Some s" if "(f(seq \<mapsto> st')) s = Some x" for s x
    proof (cases "s = seq")
      case True
      then show ?thesis using that comp(1) by simp
    next
      case False
      then have "COMPUTE \<in> set (st_jobs x) \<longleftrightarrow> c = Some s" using that co by (simp add: compute_ok_def)
      then show ?thesis using False comp(2,3) by auto
    qed
    have "case c' of None \<Rightarrow> True | Some s \<Rightarrow> \<exists>x. (f(seq \<mapsto> st')) s = Some x \<and> pb_current (bank_at bs' (wk_bank_id (st_spec x))) = Some s
         \<and> pb_phase (bank_at bs' (wk_bank_id (st_spec x))) = COMPUTING \<and> st_jobs x = [COMPUTE] \<and> st_imported x \<and> st_metadata x \<noteq> None
         \<and> st_plan x \<noteq> None \<and> live_rows x \<noteq> []"
    proof (cases "c' = Some seq")
      case True
      then show ?thesis using comp(2) spec home cur slots(1) [OF i] by (simp add: computing_ok_def)
    next
      case False
      show ?thesis
      proof (cases c')
        case (Some s)
        then have "c = Some s" "s \<noteq> seq" using comp(3) False by auto
        then obtain x where x: "f s = Some x" "pb_current (bank_at bs (wk_bank_id (st_spec x))) = Some s"
          "pb_phase (bank_at bs (wk_bank_id (st_spec x))) = COMPUTING \<and> st_jobs x = [COMPUTE] \<and> st_imported x \<and> st_metadata x \<noteq> None
           \<and> st_plan x \<noteq> None \<and> live_rows x \<noteq> []" using co by (auto simp: compute_ok_def)
        then have "wk_bank_id (st_spec x) \<noteq> i" using cur \<open>s \<noteq> seq\<close> by auto
        then have "bank_at bs' (wk_bank_id (st_spec x)) = bank_at bs (wk_bank_id (st_spec x))" using moves bank01 [OF x(1)] unfolding bank_moves_def by blast
        then show ?thesis using x \<open>s \<noteq> seq\<close> Some by simp
      qed simp
    qed
    then show ?thesis using jobs unfolding compute_ok_def by blast
  qed
  moreover have "done_ok (f(seq \<mapsto> st')) ds'"
  proof -
    have "done_ok f ds" using v unfolding rt_view_def by blast
    then have "\<exists>x. (f(seq \<mapsto> st')) s = Some x \<and> k \<in> set (st_jobs x) \<and> job_result_ok x k outcome" if "(s, k, outcome) \<in> set ds'" for s k outcome
      using that ends(2,3) by (cases "s = seq") (fastforce simp: done_ok_def)+
    then show ?thesis using ends(1) unfolding done_ok_def by blast
  qed
  ultimately show ?thesis using all moves unfolding rt_view_def bank_moves_def by blast
qed

text \<open>The same on a runtime.\<close>

lemma head_rt:
  assumes "rt_ok rt" "heads rt i seq st" "rt_records rt' = rt_records (upd_state seq g rt)" "st_spec (g st) = st_spec st" "state_ok seq (g st)"
    and "bank_moves (rt_banks rt) (rt_banks rt') i" "slot_ok (rt_banks rt') i (g st)"
    and "COMPUTE \<in> set (st_jobs (g st)) \<longleftrightarrow> rt_compute rt' = Some seq"
    and "rt_compute rt' = Some seq \<longrightarrow> computing_ok (rt_banks rt') i (g st) \<and> (rt_compute rt = None \<or> rt_compute rt = Some seq)"
    and "rt_compute rt' \<noteq> Some seq \<longrightarrow> rt_compute rt' = rt_compute rt \<or> rt_compute rt = Some seq \<and> rt_compute rt' = None"
    and "rt_done rt' = rt_done rt" "set (st_jobs st) \<subseteq> set (st_jobs (g st)) \<or> (\<forall>k outcome. (seq, k, outcome) \<notin> set (rt_done rt))"
    and "live_rows (g st) = live_rows st \<or> live_rows (g st) = []"
  shows "rt_ok rt' \<and> heads rt' i seq (g st)"
proof -
  let ?f = "map_of (rt_records rt)"
  have v: "rt_view ?f (rt_banks rt) (rt_compute rt) (rt_done rt)" "distinct (map fst (rt_records rt))" using assms(1) by (simp_all add: rt_ok_def)
  have h: "i \<in> {0, 1}" "pb_current (bank_at (rt_banks rt) i) = Some seq" "?f seq = Some st" using assms(2) by (simp_all add: heads_def)
  have f': "map_of (rt_records rt') = ?f(seq \<mapsto> g st)" using map_of_upd_fun [OF h(3), of g] assms(3) by simp
  have d: "done_ok ?f (rt_done rt)" using v(1) unfolding rt_view_def by blast
  then have "distinct (map (\<lambda>(seq, k, _). (seq, k)) (rt_done rt'))" using assms(11) by (simp add: done_ok_def)
  moreover have "\<forall>k outcome. (seq, k, outcome) \<in> set (rt_done rt') \<longrightarrow> k \<in> set (st_jobs (g st)) \<and> job_result_ok (g st) k outcome"
    using d h(3) assms(11-13) by (fastforce simp: done_ok_def job_result_ok_def)
  ultimately have "rt_view (?f(seq \<mapsto> g st)) (rt_banks rt') (rt_compute rt') (rt_done rt')"
    by (intro head_step [OF v(1) h assms(4-10)]) (use assms(11) in auto)
  moreover have "distinct (map fst (rt_records rt'))" using v(2) assms(3) by simp
  moreover have "pb_current (bank_at (rt_banks rt') i) = Some seq" using bank_moves_slots [OF assms(6) h(1)] h(2) by simp
  ultimately show ?thesis using f' h(1) by (simp add: rt_ok_def heads_def)
qed

lemma bank_moves_refl: "rt_ok rt \<Longrightarrow> bank_moves (rt_banks rt) (rt_banks rt) i"
  by (simp add: bank_moves_def rt_ok_def rt_view_def)

lemma heads_slot: "rt_ok rt \<Longrightarrow> heads rt i seq st \<Longrightarrow> slot_ok (rt_banks rt) i st"
  unfolding slot_ok_def using heads_facts [of rt i seq st]
  by (auto simp: rt_ok_def rt_view_def current_ok_def heads_def)

lemma phase_moves:
  assumes "rt_ok rt" "i \<in> {0, 1}" "ph \<noteq> PHASE_FREE" "pb_layout (bank_at (rt_banks rt) i) \<noteq> None"
  shows "bank_moves (rt_banks rt) (rt_banks (set_phase i ph rt)) i"
proof -
  have ok: "banks_ok (rt_banks rt)" using assms(1) by (simp add: rt_ok_def rt_view_def)
  obtain l where l: "pb_layout (bank_at (rt_banks rt) i) = Some l" using assms(4) by blast
  have "layout_fits (rt_banks rt) i" using ok assms(2) by (auto simp: banks_ok_def)
  then have "bl_bank_id l = i \<and> bl_bank_epoch l = pb_epoch (bank_at (rt_banks rt) i)" by (simp add: layout_fits_def l)
  then have "banks_ok (rt_banks (set_phase i ph rt))"
    using ok assms(2,3) l by (auto simp: banks_ok_def set_phase_def layout_fits_set rows_split_def held_rows_def bank_at_set)
  then show ?thesis using assms(2) by (auto simp: bank_moves_def set_phase_def bank_at_set)
qed

section \<open>The phases of a turn\<close>

definition at_head :: "'v worker_runtime \<Rightarrow> int \<Rightarrow> int \<Rightarrow> bool" where
  "at_head rt i seq \<longleftrightarrow> rt_ok rt \<and> (\<exists>st. heads rt i seq st)"

lemma take_receipt_ok:
  assumes "rt_ok rt" "heads rt i seq st"
  shows "at_head (take_receipt role receipts i seq rt) i seq"
proof -
  have "rt_ok (upd_state seq (\<lambda>st. st\<lparr>st_imported := True\<rparr>) rt) \<and> heads (upd_state seq (\<lambda>st. st\<lparr>st_imported := True\<rparr>) rt) i seq (st\<lparr>st_imported := True\<rparr>)"
    by (rule head_upd [OF assms]) (simp_all add: same_place_def state_ok_imported heads_facts(1) [OF assms])
  then show ?thesis using assms by (auto simp: take_receipt_def at_head_def)
qed

lemma allocate_layout_ok:
  assumes "rt_ok rt" "heads rt i seq st" "allocate_layout seq rt = Inr (Some (c, rt'))"
  shows "\<exists>st'. rt_ok rt' \<and> heads rt' i seq st' \<and> st_layout st' \<noteq> None"
proof (cases "st_layout st")
  case (Some l)
  then show ?thesis using assms heads_facts(8) [OF assms(1,2)] by (auto simp: allocate_layout_def)
next
  case None
  obtain l banks where a: "bank_allocate (st_spec st) (rt_banks rt) = Inr (Some l, banks)"
    and rt': "rt' = upd_state seq (\<lambda>st. st\<lparr>st_layout := Some l\<rparr>) (rt\<lparr>rt_banks := banks\<rparr>)"
    using assms(3) None heads_facts(8) [OF assms(1,2)] by (auto simp: allocate_layout_def bind_r_eq_Inr split: if_splits option.splits)
  note hf = heads_facts [OF assms(1,2)]
  have i: "i \<in> {0, 1}" using assms(2) by (simp add: heads_def)
  have l: "l = layout_for (rt_banks rt) (st_spec st)" "work_blocks (st_spec st) \<le> bn_blocks_per_bank (rt_banks rt)"
      "length (wk_rows (st_spec st)) \<le> length (bn_free_rows (rt_banks rt))"
    and banks: "banks = set_bank i ((bank_at (rt_banks rt) i)\<lparr>pb_layout := Some l, pb_epoch := wk_bank_epoch (st_spec st), pb_phase := FILLING,
        pb_observation_seq := pb_observation_seq (bank_at (rt_banks rt) i) + 1\<rparr>)
      ((rt_banks rt)\<lparr>bn_free_rows := drop (length (wk_rows (st_spec st))) (sort (bn_free_rows (rt_banks rt)))\<rparr>)"
    using a hf(2) by (auto simp: bank_allocate_def Let_def bind_r_eq_Inr split: if_splits)
  have "banks_ok (rt_banks rt)" using assms(1) by (simp add: rt_ok_def rt_view_def)
  then have ok: "banks_ok banks" using bank_allocate_ok [OF a] i hf(2) by auto
  have moves: "bank_moves (rt_banks rt) banks i" using ok i by (auto simp: bank_moves_def banks bank_at_set)
  let ?g = "\<lambda>st. st\<lparr>st_layout := Some l\<rparr>"
  have "state_ok seq (?g st)" using hf(1) by (simp add: state_ok_def stages_ok_def)
  moreover have "slot_ok banks i (?g st)" using l hf(2,3) i
    by (auto simp: slot_ok_def banks bank_at_set laid_out_def layout_for_def)
  moreover have "rt_compute rt \<noteq> Some seq" using hf(1,6) None by (auto simp: state_ok_def stages_ok_def)
  moreover have "rt_records rt' = rt_records (upd_state seq ?g rt)" by (simp add: rt' upd_state_def)
  ultimately have "rt_ok rt' \<and> heads rt' i seq (?g st)"
    using moves hf(7) by (intro head_rt [OF assms(1,2)]) (simp_all add: rt')
  then show ?thesis by (intro exI [of _ "?g st"]) simp
qed

lemma head_value:
  assumes "rt_ok rt" "heads rt i seq st" "same_place st (g st)" "state_ok seq (g st)" "live_rows (g st) = live_rows st" "st_jobs (g st) = st_jobs st"
    and "rt_compute rt = Some seq \<Longrightarrow> st_plan (g st) = st_plan st"
  shows "rt_ok (upd_state seq g rt) \<and> heads (upd_state seq g rt) i seq (g st)"
  using assms(3-7) by (intro head_upd [OF assms(1,2)]) simp_all

lemma import_phase_ok:
  assumes "rt_ok rt" "heads rt i seq st" "st_layout st \<noteq> None" "import_phase role seq rt = Inr (c, rt')"
  shows "\<exists>st'. rt_ok rt' \<and> heads rt' i seq st' \<and> st_layout st' \<noteq> None"
proof -
  note hf = heads_facts [OF assms(1,2)]
  obtain l where l: "st_layout st = Some l" using assms(3) by blast
  show ?thesis
  proof (cases "st_import_inputs st = None \<and> IMPORT_INPUT \<notin> set (st_jobs st) \<and> inputs_ready st [''source'']")
    case False
    then have "rt' = rt" using assms(4) hf(8) l by (auto simp: import_phase_def split: if_splits)
    then show ?thesis using assms(1-3) by blast
  next
    case True
    then have nc: "rt_compute rt \<noteq> Some seq" using hf(1,6) by (auto simp: state_ok_def stages_ok_def)
    show ?thesis
    proof (cases "ro_inline role")
      case True
      then obtain v where "rt' = upd_state seq (\<lambda>st. st\<lparr>st_import_inputs := Some v\<rparr>) rt"
        using assms(4) hf(8) l \<open>st_import_inputs st = None \<and> _\<close> by (auto simp: import_phase_def bind_r_eq_Inr)
      moreover have "rt_ok (upd_state seq (\<lambda>st. st\<lparr>st_import_inputs := Some v\<rparr>) rt)
          \<and> heads (upd_state seq (\<lambda>st. st\<lparr>st_import_inputs := Some v\<rparr>) rt) i seq (st\<lparr>st_import_inputs := Some v\<rparr>)"
        using state_ok_import [OF hf(1) assms(3)] by (intro head_value [OF assms(1,2)]) (simp_all add: same_place_def)
      ultimately show ?thesis using assms(3) by (intro exI [of _ "st\<lparr>st_import_inputs := Some v\<rparr>"]) simp
    next
      case False
      then have "rt' = submit_job seq IMPORT_INPUT rt" using assms(4) hf(8) l True by (simp add: import_phase_def)
      moreover have "rt_ok (submit_job seq IMPORT_INPUT rt) \<and> heads (submit_job seq IMPORT_INPUT rt) i seq (st\<lparr>st_jobs := st_jobs st @ [IMPORT_INPUT]\<rparr>)"
        using True nc assms(3) by (intro head_submit [OF assms(1,2)]) simp_all
      ultimately show ?thesis using assms(3) by (intro exI [of _ "st\<lparr>st_jobs := st_jobs st @ [IMPORT_INPUT]\<rparr>"]) simp
    qed
  qed
qed

lemma metadata_phase_ok:
  assumes "rt_ok rt" "heads rt i seq st" "st_layout st \<noteq> None" "metadata_phase seq rt = Inr (c, rt')"
  shows "\<exists>st'. rt_ok rt' \<and> heads rt' i seq st' \<and> st_layout st' \<noteq> None"
proof -
  note hf = heads_facts [OF assms(1,2)]
  show ?thesis
  proof (cases "st_import_inputs st \<noteq> None \<and> st_metadata st = None \<and> METADATA \<notin> set (st_jobs st)")
    case False
    then have "rt' = rt" using assms(4) hf(8) by (auto simp: metadata_phase_def)
    then show ?thesis using assms(1-3) by blast
  next
    case True
    then have "rt_compute rt \<noteq> Some seq" using hf(6) by auto
    then have "rt_ok (submit_job seq METADATA rt) \<and> heads (submit_job seq METADATA rt) i seq (st\<lparr>st_jobs := st_jobs st @ [METADATA]\<rparr>)"
      using True assms(3) by (intro head_submit [OF assms(1,2)]) simp_all
    moreover have "rt' = submit_job seq METADATA rt" using assms(4) hf(8) True by (auto simp: metadata_phase_def)
    ultimately show ?thesis using assms(3) by (intro exI [of _ "st\<lparr>st_jobs := st_jobs st @ [METADATA]\<rparr>"]) simp
  qed
qed

text \<open>A Bank whose record is imported and has its metadata becomes ready, unless it is computing.\<close>

lemma ready_ok:
  assumes "rt_ok rt" "heads rt i seq st" "st_layout st \<noteq> None" "st_metadata st \<noteq> None" "rt_compute rt \<noteq> Some seq"
  defines "rt' \<equiv> set_phase i PHASE_READY (upd_state seq (\<lambda>st. st\<lparr>st_imported := True\<rparr>) rt)"
  shows "rt_ok rt' \<and> heads rt' i seq (st\<lparr>st_imported := True\<rparr>)"
proof -
  note hf = heads_facts [OF assms(1,2)]
  have i: "i \<in> {0, 1}" using assms(2) by (simp add: heads_def)
  have same: "rt_banks rt' = rt_banks (set_phase i PHASE_READY rt)" by (simp add: rt'_def set_phase_def)
  have moves: "bank_moves (rt_banks rt) (rt_banks rt') i" using phase_moves [OF assms(1) i, of PHASE_READY] assms(3) hf(4) unfolding same by simp
  have "slot_ok (rt_banks rt') i (st\<lparr>st_imported := True\<rparr>)"
    using heads_slot [OF assms(1,2)] assms(4) laid_out_cong [of "rt_banks rt'" "rt_banks rt"] moves
    by (auto simp: slot_ok_def bank_moves_def rt'_def set_phase_def bank_at_set)
  then show ?thesis using moves hf(7) assms(5) state_ok_imported [OF hf(1)]
    by (intro head_rt [OF assms(1,2)]) (simp_all add: rt'_def set_phase_def)
qed

lemma copy_phase_ok:
  assumes "rt_ok rt" "heads rt i seq st" "st_layout st \<noteq> None" "copy_phase role i seq rt = Inr (c, rt')"
  shows "at_head rt' i seq"
proof -
  note hf = heads_facts [OF assms(1,2)]
  have ready: "at_head (set_phase i PHASE_READY (upd_state seq (\<lambda>st. st\<lparr>st_imported := True\<rparr>) rt)) i seq"
    if "st_metadata st \<noteq> None" "rt_compute rt \<noteq> Some seq"
    using ready_ok [OF assms(1-3) that] by (auto simp: at_head_def)
  have here: "at_head rt i seq" using assms(1,2) by (auto simp: at_head_def)
  show ?thesis
  proof (cases "ro_direct_imports role")
    case True
    have "upd_state seq (\<lambda>st. st\<lparr>st_imported := True\<rparr>) rt = rt" if "st_imported st"
    proof -
      have "(\<lambda>(k, x). (k, if k = seq then x\<lparr>st_imported := True\<rparr> else x)) kv = kv" if "kv \<in> set (rt_records rt)" for kv
      proof -
        have "distinct (map fst (rt_records rt))" using assms(1) by (simp add: rt_ok_def)
        then have "map_of (rt_records rt) (fst kv) = Some (snd kv)" using that by (simp add: map_of_is_SomeI)
        then have "fst kv = seq \<Longrightarrow> snd kv = st" using assms(2) by (simp add: heads_def)
        then show ?thesis using \<open>st_imported st\<close> by (cases kv) auto
      qed
      then have "map (\<lambda>(k, x). (k, if k = seq then x\<lparr>st_imported := True\<rparr> else x)) (rt_records rt) = rt_records rt" by (rule map_idI)
      then show ?thesis by (simp add: upd_state_def)
    qed
    moreover have "rt_compute rt \<noteq> Some seq" if "pb_phase (bank_at (rt_banks rt) i) = FILLING" using hf(6) that by auto
    ultimately show ?thesis using assms(4) True hf(8) ready here by (auto simp: copy_phase_def split: if_splits)
  next
    case False
    have "at_head (submit_job seq JOB_H2D rt) i seq" if "st_metadata st \<noteq> None" "\<not> st_imported st" "JOB_H2D \<notin> set (st_jobs st)"
    proof -
      have "rt_compute rt \<noteq> Some seq" using hf(6) that(2) by auto
      then have "rt_ok (submit_job seq JOB_H2D rt) \<and> heads (submit_job seq JOB_H2D rt) i seq (st\<lparr>st_jobs := st_jobs st @ [JOB_H2D]\<rparr>)"
        using that assms(3) by (intro head_submit [OF assms(1,2)]) simp_all
      then show ?thesis by (auto simp: at_head_def)
    qed
    moreover have "rt_compute rt \<noteq> Some seq" if "\<not> st_imported st" using hf(6) that by auto
    ultimately show ?thesis using assms(4) False hf(8) ready here by (auto simp: copy_phase_def split: if_splits option.splits)
  qed
qed

text \<open>The input compiler plans exactly the members it is given.\<close>

definition role_plans :: "'v worker_role \<Rightarrow> bool" where
  "role_plans role \<longleftrightarrow> (\<forall>w c l members p. ro_compile_compute role w c l members = Inr p \<longrightarrow> map pr_index (cp_rows p) = members)"

lemma ready_members_iff: "j \<in> set (ready_members st) \<longleftrightarrow> j \<in> set (live_rows st) \<and> map_of (st_prepared_rows st) j = None \<and> arrived st j"
  by (auto simp: ready_members_def arrived_def)

lemma prepared_state_ok:
  assumes "state_ok seq st" "map pr_index rows = ready" "\<forall>j \<in> set ready. j \<in> set (live_rows st) \<and> arrived st j"
  shows "state_ok seq (st\<lparr>st_prepared_template := t, st_prepared_rows := st_prepared_rows st @ map (\<lambda>r. (pr_index r, r)) rows\<rparr>)"
proof -
  have "members_ok st" using assms(1) by (simp add: state_ok_def)
  moreover have "j < length (st_outcomes st) \<and> arrived st j" if "map_of (map (\<lambda>r. (pr_index r, r)) rows) j \<noteq> None" for j
  proof -
    have "j \<in> set (map pr_index rows)" using that by (auto simp: map_of_eq_None_iff image_iff)
    then show ?thesis using assms(2,3) live_iff by blast
  qed
  ultimately have "members_ok (st\<lparr>st_prepared_rows := st_prepared_rows st @ map (\<lambda>r. (pr_index r, r)) rows\<rparr>)"
    unfolding members_ok_def by (auto simp: map_add_def split: option.splits)
  then have "members_ok (st\<lparr>st_prepared_template := t, st_prepared_rows := st_prepared_rows st @ map (\<lambda>r. (pr_index r, r)) rows\<rparr>)"
    by (simp add: members_ok_def)
  then show ?thesis using assms(1) by (simp add: state_ok_def)
qed

lemma prepare_rows_ok:
  assumes "rt_ok rt" "heads rt i seq st" "rt_compute rt \<noteq> Some seq" "st_layout st \<noteq> None" "st_plan st = None"
    and "prepare_rows role seq (ready_members st) rt = Inr rt'"
  shows "\<exists>st'. rt_ok rt' \<and> heads rt' i seq st' \<and> st_layout st' \<noteq> None \<and> live_rows st' = live_rows st \<and> st_plan st' = None
    \<and> rt_compute rt' = rt_compute rt"
proof -
  note hf = heads_facts [OF assms(1,2)]
  obtain l where l: "st_layout st = Some l" using assms(4) by blast
  show ?thesis
  proof (cases "ready_members st = []")
    case True
    then have "rt' = rt" using assms(6) hf(8) l by (simp add: prepare_rows_def)
    then show ?thesis using assms(1-5) by blast
  next
    case False
    then obtain part where part: "map pr_index (cp_rows part) = ready_members st"
      and rt': "rt' = upd_state seq (\<lambda>st. st\<lparr>st_prepared_template := Some part,
           st_prepared_rows := st_prepared_rows st @ map (\<lambda>r. (pr_index r, r)) (cp_rows part)\<rparr>) rt"
      using assms(6) hf(8) l by (auto simp: prepare_rows_def bind_r_eq_Inr)
    let ?g = "\<lambda>st. st\<lparr>st_prepared_template := Some part, st_prepared_rows := st_prepared_rows st @ map (\<lambda>r. (pr_index r, r)) (cp_rows part)\<rparr>"
    have "state_ok seq (?g st)" by (rule prepared_state_ok [OF hf(1) part]) (simp add: ready_members_iff)
    then have "rt_ok (upd_state seq ?g rt) \<and> heads (upd_state seq ?g rt) i seq (?g st)"
      by (intro head_value [OF assms(1,2)]) (simp_all add: same_place_def)
    then show ?thesis using assms(4,5) unfolding rt' by (intro exI [of _ "?g st"]) simp
  qed
qed

lemma head_plan:
  assumes "rt_ok rt" "heads rt i seq st" "rt_compute rt \<noteq> Some seq" "covers st p \<or> live_rows st = []" "st_layout st \<noteq> None"
  shows "\<exists>st'. rt_ok (upd_state seq (\<lambda>st. st\<lparr>st_plan := Some p\<rparr>) rt) \<and> heads (upd_state seq (\<lambda>st. st\<lparr>st_plan := Some p\<rparr>) rt) i seq st'
     \<and> st_layout st' \<noteq> None"
proof -
  have "rt_ok (upd_state seq (\<lambda>st. st\<lparr>st_plan := Some p\<rparr>) rt)
      \<and> heads (upd_state seq (\<lambda>st. st\<lparr>st_plan := Some p\<rparr>) rt) i seq (st\<lparr>st_plan := Some p\<rparr>)"
    using assms(3,4) state_ok_plan [OF heads_facts(1) [OF assms(1,2)]] by (intro head_value [OF assms(1,2)]) (simp_all add: same_place_def)
  then show ?thesis using assms(5) by (intro exI [of _ "st\<lparr>st_plan := Some p\<rparr>"]) simp
qed

lemma complete_plan_ok:
  assumes "rt_ok rt" "heads rt i seq st" "rt_compute rt \<noteq> Some seq" "st_layout st \<noteq> None" "complete_plan role seq (live_rows st) rt = Inr rt'"
  shows "\<exists>st'. rt_ok rt' \<and> heads rt' i seq st' \<and> st_layout st' \<noteq> None"
proof -
  note hf = heads_facts [OF assms(1,2)]
  obtain part rows where rows: "map_r (\<lambda>i. case map_of (st_prepared_rows st) i of None \<Rightarrow> Inl (KeyError ''prepared_rows'') | Some r \<Rightarrow> Inr r)
      (live_rows st) = Inr rows"
    and rt': "rt' = upd_state seq (\<lambda>st. st\<lparr>st_plan := Some (part\<lparr>cp_rows := rows\<rparr>)\<rparr>) rt"
    using assms(5) hf(8) by (auto simp: complete_plan_def bind_r_eq_Inr split: option.splits)
  have m: "members_ok st" using hf(1) by (simp add: state_ok_def)
  have "list_all2 (\<lambda>j r. map_of (st_prepared_rows st) j = Some r) (live_rows st) rows"
    using rows by (simp add: map_r_Inr list_all2_mono split: option.splits) (auto elim!: list_all2_mono split: option.splits)
  then have each: "length rows = length (live_rows st)" "\<forall>n < length rows. map_of (st_prepared_rows st) (live_rows st ! n) = Some (rows ! n)"
    by (auto simp: list_all2_conv_all_nth)
  have "map pr_index rows = live_rows st"
    using each m unfolding members_ok_def by (intro nth_equalityI) (auto dest!: map_of_SomeD)
  moreover have "list_all (arrived st) (live_rows st)"
    unfolding list_all_length using each m unfolding members_ok_def by (metis option.distinct(1))
  ultimately have "covers st (part\<lparr>cp_rows := rows\<rparr>)" by (simp add: covers_def)
  then show ?thesis using head_plan [OF assms(1-3) _ assms(4)] unfolding rt' by blast
qed

lemma compile_phase_ok:
  assumes "rt_ok rt" "heads rt i seq st" "st_layout st \<noteq> None" "role_plans role" "compile_phase role seq rt = Inr (c, rt')"
  shows "\<exists>st'. rt_ok rt' \<and> heads rt' i seq st' \<and> st_layout st' \<noteq> None"
proof -
  note hf = heads_facts [OF assms(1,2)]
  obtain l where l: "st_layout st = Some l" using assms(3) by blast
  have stay: ?thesis if "rt' = rt" using that assms(1-3) by blast
  show ?thesis
  proof (cases "st_plan st = None \<and> COMPILE \<notin> set (st_jobs st)")
    case False
    then show ?thesis using assms(5) hf(8) l by (intro stay) (auto simp: compile_phase_def split: if_splits)
  next
    case True
    then have nc: "rt_compute rt \<noteq> Some seq" using hf(6) by auto
    let ?ready = "ready_members st" and ?live = "live_rows st"
    let ?complete = "list_all (\<lambda>i. map_of (st_prepared_rows st) i \<noteq> None \<or> i \<in> set ?ready) ?live"
    show ?thesis
    proof (cases "ro_inline role \<and> ro_incremental role")
      case inc: True
      show ?thesis
      proof (cases "?ready \<noteq> [] \<or> ?complete")
        case False
        then have "rt' = rt" using assms(5) hf(8) l True inc by (simp add: compile_phase_def Let_def)
        then show ?thesis by (rule stay)
      next
        case go: True
        then obtain rt1 where p: "prepare_rows role seq ?ready rt = Inr rt1"
          and rest: "(if ?complete then complete_plan role seq ?live rt1 else Inr rt1) = Inr rt'"
          using assms(5) hf(8) l True inc by (simp add: compile_phase_def Let_def bind_r_eq_Inr) blast
        obtain st1 where st1: "rt_ok rt1" "heads rt1 i seq st1" "st_layout st1 \<noteq> None" "live_rows st1 = ?live" "rt_compute rt1 \<noteq> Some seq"
          using prepare_rows_ok [OF assms(1,2) nc assms(3) _ p] True nc by auto
        show ?thesis
        proof (cases ?complete)
          case True
          then show ?thesis using rest complete_plan_ok [OF st1(1,2,5,3)] st1(4) by simp
        next
          case False
          then have "rt' = rt1" using rest by simp
          then show ?thesis using st1 by blast
        qed
      qed
    next
      case ninc: False
      show ?thesis
      proof (cases "inputs_ready st input_names")
        case False
        then have "rt' = rt" using assms(5) hf(8) l True ninc by (auto simp: compile_phase_def Let_def)
        then show ?thesis by (rule stay)
      next
        case ready: True
        note arr = ready_arrived [OF ready hf(1)]
        show ?thesis
        proof (cases "ro_inline role")
          case inl: True
          then obtain p where p: "ro_compile_compute role (st_spec st) (st_captured st) l ?live = Inr p"
            and rt': "rt' = upd_state seq (\<lambda>st. st\<lparr>st_plan := Some p\<rparr>) rt"
            using assms(5) hf(8) l True ninc ready by (auto simp: compile_phase_def Let_def bind_r_eq_Inr)
          have "covers st p" using p assms(4) arr unfolding role_plans_def covers_def by blast
          then show ?thesis using head_plan [OF assms(1,2) nc _ assms(3)] unfolding rt' by blast
        next
          case False
          then have rt': "rt' = submit_job seq COMPILE rt" using assms(5) hf(8) l True ninc ready by (simp add: compile_phase_def Let_def)
          have "rt_ok (submit_job seq COMPILE rt) \<and> heads (submit_job seq COMPILE rt) i seq (st\<lparr>st_jobs := st_jobs st @ [COMPILE]\<rparr>)"
            using True nc assms(3) arr by (intro head_submit [OF assms(1,2)]) simp_all
          then show ?thesis using assms(3) unfolding rt' by (intro exI [of _ "st\<lparr>st_jobs := st_jobs st @ [COMPILE]\<rparr>"]) simp
        qed
      qed
    qed
  qed
qed

section \<open>Release\<close>

lemma released_banks:
  assumes "banks_ok bs" "i \<in> {0, 1}" "pb_layout (bank_at bs i) = lo"
    and "(case lo of None \<Rightarrow> Inr bs | Some l \<Rightarrow> bank_release_layout l bs) = Inr bs'" "\<And>l. lo = Some l \<Longrightarrow> bl_bank_id l = i"
  shows "bank_moves bs bs' i \<and> pb_layout (bank_at bs' i) = None \<and> pb_phase (bank_at bs' i) = PHASE_FREE"
proof (cases lo)
  case None
  then have "bs' = bs" "layout_fits bs i" using assms(1,2,4) by (auto simp: banks_ok_def)
  then show ?thesis using assms(1,3) None by (simp add: bank_moves_def layout_fits_def)
next
  case (Some l)
  then have r: "bank_release_layout l bs = Inr bs'" "bl_bank_id l = i" using assms(4,5) by simp_all
  then have "bl_bank_id l = 0 \<or> bl_bank_id l = 1" using assms(2) by auto
  then have "banks_ok bs'" using bank_release_ok [OF r(1) assms(1)] by blast
  then show ?thesis using r assms(2) by (auto simp: bank_moves_def bank_release_layout_def Let_def bind_r_eq_Inr bank_at_set)
qed

definition next_head :: "int \<Rightarrow> phys_banks \<Rightarrow> phys_banks" where
  "next_head i bs = set_bank i ((bank_at bs i)\<lparr>pb_current := pb_pending (bank_at bs i), pb_pending := None\<rparr>) bs"

lemma next_head_simps:
  "i \<in> {0, 1} \<Longrightarrow> j \<in> {0, 1} \<Longrightarrow> pb_layout (bank_at (next_head i bs) j) = pb_layout (bank_at bs j)"
  "i \<in> {0, 1} \<Longrightarrow> j \<in> {0, 1} \<Longrightarrow> pb_phase (bank_at (next_head i bs) j) = pb_phase (bank_at bs j)"
  "i \<in> {0, 1} \<Longrightarrow> j \<in> {0, 1} \<Longrightarrow> pb_current (bank_at (next_head i bs) j) = (if j = i then pb_pending (bank_at bs j) else pb_current (bank_at bs j))"
  "i \<in> {0, 1} \<Longrightarrow> j \<in> {0, 1} \<Longrightarrow> pb_pending (bank_at (next_head i bs) j) = (if j = i then None else pb_pending (bank_at bs j))"
  by (auto simp: next_head_def bank_at_set)

lemma next_head_laid: "laid_out (next_head i bs) w l = laid_out bs w l"
  by (simp add: next_head_def laid_out_def)

lemma next_head_ok:
  assumes "banks_ok bs" "i \<in> {0, 1}"
  shows "banks_ok (next_head i bs)"
proof -
  have "layout_fits (next_head i bs) j = layout_fits bs j" if "j \<in> {0, 1}" for j
    using assms(2) that unfolding next_head_def layout_fits_set by (cases "pb_layout (bank_at bs j)") (auto simp: layout_fits_def)
  then show ?thesis using assms by (auto simp: banks_ok_def next_head_def rows_split_def held_rows_def bank_at_set)
qed

lemma release_work_ok:
  assumes "rt_ok rt" "heads rt i seq st" "live_rows st = []" "rt_compute rt \<noteq> Some seq" "release_work seq rt = Inr rt'"
  shows "rt_ok rt'"
proof -
  let ?f = "map_of (rt_records rt)" and ?bs = "rt_banks rt" and ?st = "st\<lparr>st_physical_done := True\<rparr>"
  note hf = heads_facts [OF assms(1,2)]
  have v: "rt_view ?f ?bs (rt_compute rt) (rt_done rt)" "distinct (map fst (rt_records rt))" using assms(1) by (simp_all add: rt_ok_def)
  have h: "i \<in> {0, 1}" "pb_current (bank_at ?bs i) = Some seq" "?f seq = Some st" using assms(2) by (simp_all add: heads_def)
  obtain bs1 where jobs: "st_jobs st = []" and rel: "(case st_layout st of None \<Rightarrow> Inr ?bs | Some l \<Rightarrow> bank_release_layout l ?bs) = Inr bs1"
    and rt': "rt' = upd_state seq (\<lambda>st. st\<lparr>st_physical_done := True\<rparr>) (rt\<lparr>rt_banks := next_head i bs1\<rparr>)"
    using assms(5) hf(2,8) by (auto simp: release_work_def bind_r_eq_Inr Let_def next_head_def)
  have free: "bank_moves ?bs bs1 i" "pb_layout (bank_at bs1 i) = None" "pb_phase (bank_at bs1 i) = PHASE_FREE"
    using released_banks [OF _ h(1) hf(4) [symmetric] rel] v(1) hf(2,5) by (auto simp: rt_view_def laid_out_def)
  note slots = bank_moves_slots [OF free(1)] and nh = next_head_simps [OF h(1)]
  have other: "bank_at bs1 j = bank_at ?bs j" if "j \<in> {0, 1}" "j \<noteq> i" for j using free(1) that unfolding bank_moves_def by blast
  let ?bs' = "next_head i bs1"
  have bank01: "wk_bank_id (st_spec x) \<in> {0, 1}" if "?f s = Some x" for s x
    using v(1) that work_bank unfolding rt_view_def state_ok_def shape_ok_def by blast
  have cok: "current_ok ?f ?bs j" "pending_ok ?f ?bs j" if "j \<in> {0, 1}" for j using v(1) that unfolding rt_view_def by blast+
  have all: "state_ok s x \<and> owned ?bs' s x" if s: "(?f(seq \<mapsto> ?st)) s = Some x" for s x
  proof (cases "s = seq")
    case True
    then show ?thesis using s hf(1) jobs assms(3) by (auto simp: state_ok_def ends_ok_def owned_def)
  next
    case False
    then have fs: "?f s = Some x" using s by simp
    then have "state_ok s x" "owned ?bs s x" using v(1) unfolding rt_view_def by blast+
    then show ?thesis using nh(3,4) [OF bank01 [OF fs]] slots [OF bank01 [OF fs]] h(2) False by (auto simp: owned_def)
  qed
  have "current_ok (?f(seq \<mapsto> ?st)) ?bs' j \<and> pending_ok (?f(seq \<mapsto> ?st)) ?bs' j" if j: "j \<in> {0, 1}" for j
  proof (cases "j = i")
    case True
    have "pb_pending (bank_at ?bs i) \<noteq> Some seq" by (rule not_pending [OF v(1) h(1,2,1)])
    then show ?thesis using cok(2) [OF h(1)] free(2,3) nh [OF h(1)] slots [OF h(1)] True
      by (auto simp: current_ok_def pending_ok_def untouched_work_def split: option.splits)
  next
    case False
    have "pb_current (bank_at ?bs j) \<noteq> Some seq" using current_unique [OF v(1) h(1) j h(2)] False by blast
    moreover have "pb_pending (bank_at ?bs j) \<noteq> Some seq" by (rule not_pending [OF v(1) h(1,2) j])
    moreover have "laid_out ?bs' w l = laid_out ?bs w l" for w l
      using free(1) laid_out_cong [of bs1 ?bs w l] by (simp add: bank_moves_def next_head_laid)
    ultimately show ?thesis using cok [OF j] nh [OF j] other [OF j False] False
      by (simp add: current_ok_def pending_ok_def split: option.splits)
  qed
  moreover have "compute_ok (?f(seq \<mapsto> ?st)) ?bs' (rt_compute rt)"
  proof -
    have co: "compute_ok ?f ?bs (rt_compute rt)" using v(1) unfolding rt_view_def by blast
    have "pb_current (bank_at ?bs' (wk_bank_id (st_spec x))) = Some s \<and> pb_phase (bank_at ?bs' (wk_bank_id (st_spec x))) = COMPUTING"
      if x: "?f s = Some x" "s \<noteq> seq" "pb_current (bank_at ?bs (wk_bank_id (st_spec x))) = Some s"
        "pb_phase (bank_at ?bs (wk_bank_id (st_spec x))) = COMPUTING" for s x
    proof -
      have "wk_bank_id (st_spec x) \<noteq> i" using x(2,3) h(2) by auto
      then show ?thesis using nh [OF bank01 [OF x(1)]] other [OF bank01 [OF x(1)]] x(3,4) by simp
    qed
    then show ?thesis using co jobs h(3) assms(4) by (auto simp: compute_ok_def split: option.splits)
  qed
  moreover have "done_ok (?f(seq \<mapsto> ?st)) (rt_done rt)"
  proof -
    have d: "done_ok ?f (rt_done rt)" using v(1) unfolding rt_view_def by blast
    then have "s \<noteq> seq" if "(s, k, outcome) \<in> set (rt_done rt)" for s k outcome using that h(3) jobs by (fastforce simp: done_ok_def)
    then show ?thesis using d unfolding done_ok_def by fastforce
  qed
  moreover have "banks_ok ?bs'" using free(1) h(1) next_head_ok by (simp add: bank_moves_def)
  ultimately have "rt_view (?f(seq \<mapsto> ?st)) ?bs' (rt_compute rt) (rt_done rt)" using all unfolding rt_view_def by blast
  moreover have "map_of (rt_records rt') = ?f(seq \<mapsto> ?st)" using map_of_upd_fun [of "rt\<lparr>rt_banks := ?bs'\<rparr>" seq st] h(3) by (simp add: rt')
  ultimately show ?thesis using v(2) by (simp add: rt_ok_def rt')
qed

lemma finish_work_ok:
  assumes "rt_ok rt" "heads rt i seq st" "st_jobs st = []" "live_rows st = []" "rt_compute rt \<noteq> Some seq" "finish_work role seq rt = Inr rt'"
  shows "rt_ok rt'"
proof (cases "ro_direct_imports role")
  case True
  have "rt_ok (submit_job seq JOB_D2H rt)" using assms(3-5) head_submit [OF assms(1,2), of JOB_D2H] by simp
  then show ?thesis using assms(6) True by (auto simp: finish_work_def)
next
  case False
  then show ?thesis using release_work_ok [OF assms(1,2,4,5)] assms(6) by (simp add: finish_work_def)
qed

section \<open>Compute\<close>

lemma set_phase_ok:
  assumes "rt_ok rt" "heads rt i seq st" "ph \<noteq> PHASE_FREE" "ph \<noteq> PHASE_READY" "st_layout st \<noteq> None" "rt_compute rt \<noteq> Some seq"
  shows "rt_ok (set_phase i ph rt)"
proof -
  note hf = heads_facts [OF assms(1,2)]
  have i: "i \<in> {0, 1}" using assms(2) by (simp add: heads_def)
  have moves: "bank_moves (rt_banks rt) (rt_banks (set_phase i ph rt)) i" using phase_moves [OF assms(1) i assms(3)] assms(5) hf(4) by simp
  have "slot_ok (rt_banks (set_phase i ph rt)) i st"
    using heads_slot [OF assms(1,2)] assms(4) laid_out_cong [of "rt_banks (set_phase i ph rt)" "rt_banks rt"] moves
    by (auto simp: slot_ok_def bank_moves_def set_phase_def bank_at_set)
  moreover have "rt_records (set_phase i ph rt) = rt_records (upd_state seq (\<lambda>x. x) rt)" by (simp add: set_phase_def upd_state_def)
  ultimately show ?thesis using moves hf(1,7) assms(6)
    using head_rt [OF assms(1,2), of "set_phase i ph rt" "\<lambda>x. x"] by (simp add: set_phase_def)
qed

lemma dispatch_compute_ok:
  assumes "rt_ok rt"
  shows "rt_ok (snd (dispatch_compute rt))"
proof (cases "rt_compute rt \<noteq> None \<or> filter (eligible rt) [0, 1] = []")
  case True
  then have "snd (dispatch_compute rt) = rt" unfolding dispatch_compute_def
    by (cases "filter (eligible rt) [0, 1]") (auto simp del: filter.simps)
  then show ?thesis using assms by simp
next
  case False
  obtain i where i: "eligible rt i" "i \<in> {0, 1}"
    and d: "snd (dispatch_compute rt) = submit_job (current_seq rt i) COMPUTE (set_phase i COMPUTING (rt\<lparr>rt_compute := Some (current_seq rt i)\<rparr>))"
  proof -
    have "filter (eligible rt) [0, 1] = [0] \<and> eligible rt 0 \<or> filter (eligible rt) [0, 1] = [1] \<and> eligible rt 1
        \<or> filter (eligible rt) [0, 1] = [0, 1] \<and> eligible rt 0 \<and> eligible rt 1" using False by (auto split: if_splits)
    then show ?thesis using False that [of 0] that [of 1]
      by (cases "current_seq rt 1 < current_seq rt 0"; elim disjE) (simp_all add: dispatch_compute_def Let_def)
  qed
  let ?seq = "current_seq rt i" and ?g = "\<lambda>st. st\<lparr>st_jobs := st_jobs st @ [COMPUTE]\<rparr>"
  obtain st where h: "heads rt i ?seq st" and e: "pb_phase (bank_at (rt_banks rt) i) = PHASE_READY" "st_plan st \<noteq> None" "st_jobs st = []"
    "list_ex (\<lambda>x. x = None) (st_outcomes st)"
    using i by (auto simp: eligible_def heads_def current_seq_def split: option.splits)
  note hf = heads_facts [OF assms h]
  have slot: "slot_ok (rt_banks rt) i st" by (rule heads_slot [OF assms h])
  then have m: "st_metadata st \<noteq> None" "st_imported st" using e(1) by (simp_all add: slot_ok_def)
  then have lay: "st_layout st \<noteq> None" using hf(1) by (auto simp: state_ok_def stages_ok_def)
  have live: "live_rows st \<noteq> []" using e(4) by (auto simp: live_empty list_ex_iff)
  let ?rt = "submit_job ?seq COMPUTE (set_phase i COMPUTING (rt\<lparr>rt_compute := Some ?seq\<rparr>))"
  have same: "rt_banks ?rt = rt_banks (set_phase i COMPUTING rt)" by (simp add: submit_job_def set_phase_def)
  have moves: "bank_moves (rt_banks rt) (rt_banks ?rt) i"
    using phase_moves [OF assms i(2), of COMPUTING] lay hf(4) unfolding same by simp
  have "slot_ok (rt_banks ?rt) i (?g st)" unfolding same
    using slot laid_out_cong [of "rt_banks (set_phase i COMPUTING rt)" "rt_banks rt"] moves
    by (auto simp: slot_ok_def bank_moves_def set_phase_def bank_at_set)
  moreover have "computing_ok (rt_banks ?rt) i (?g st)" unfolding same using e m live by (simp add: computing_ok_def set_phase_def bank_at_set)
  moreover have "state_ok ?seq (?g st)" using lay hf(3) e(3) by (intro state_ok_job [OF hf(1)]) simp_all
  moreover have "rt_records ?rt = rt_records (upd_state ?seq ?g rt)" by (simp add: submit_job_def set_phase_def upd_state_def)
  ultimately have "rt_ok ?rt" using moves False e(3)
    using head_rt [OF assms h, of ?rt ?g] by (simp add: submit_job_def set_phase_def)
  then show ?thesis by (simp add: d)
qed

section \<open>Results of jobs\<close>

text \<open>The record a delivered result belongs to heads its Bank.\<close>

lemma done_head:
  assumes "rt_ok rt" "rt_done rt = (seq, k, outcome) # ds"
  shows "\<exists>st. heads rt (wk_bank_id (st_spec st)) seq st \<and> k \<in> set (st_jobs st) \<and> job_result_ok st k outcome"
proof -
  have v: "rt_view (map_of (rt_records rt)) (rt_banks rt) (rt_compute rt) (rt_done rt)" using assms(1) by (simp add: rt_ok_def)
  then have "done_ok (map_of (rt_records rt)) (rt_done rt)" unfolding rt_view_def by blast
  then obtain st where st: "map_of (rt_records rt) seq = Some st" "k \<in> set (st_jobs st)" "job_result_ok st k outcome"
    unfolding done_ok_def assms(2) by fastforce
  have ok: "state_ok seq st" "owned (rt_banks rt) seq st" using v st(1) unfolding rt_view_def by blast+
  have i: "wk_bank_id (st_spec st) \<in> {0, 1}" using ok(1) work_bank unfolding state_ok_def shape_ok_def by blast
  then have "pending_ok (map_of (rt_records rt)) (rt_banks rt) (wk_bank_id (st_spec st))" using v unfolding rt_view_def by blast
  then have "pb_pending (bank_at (rt_banks rt) (wk_bank_id (st_spec st))) \<noteq> Some seq" using st(1,2) by (auto simp: pending_ok_def untouched_work_def)
  moreover have "\<not> st_physical_done st" using ok(1) st(2) by (auto simp: state_ok_def ends_ok_def)
  ultimately have "pb_current (bank_at (rt_banks rt) (wk_bank_id (st_spec st))) = Some seq" using ok(2) by (auto simp: owned_def)
  then show ?thesis using st i by (auto simp: heads_def)
qed

lemma unjob_ok:
  assumes "rt_ok rt" "rt_done rt = (seq, k, outcome) # ds" "heads rt i seq st" "k \<in> set (st_jobs st)" "k \<noteq> COMPUTE"
  defines "rt' \<equiv> upd_state seq (\<lambda>st. st\<lparr>st_jobs := remove1 k (st_jobs st)\<rparr>) (rt\<lparr>rt_done := ds\<rparr>)"
  shows "rt_ok rt' \<and> heads rt' i seq (st\<lparr>st_jobs := remove1 k (st_jobs st)\<rparr>) \<and> rt_compute rt' \<noteq> Some seq"
proof -
  let ?f = "map_of (rt_records rt)" and ?st = "st\<lparr>st_jobs := remove1 k (st_jobs st)\<rparr>"
  note hf = heads_facts [OF assms(1,3)]
  have v: "rt_view ?f (rt_banks rt) (rt_compute rt) (rt_done rt)" "distinct (map fst (rt_records rt))" using assms(1) by (simp_all add: rt_ok_def)
  have h: "i \<in> {0, 1}" "pb_current (bank_at (rt_banks rt) i) = Some seq" "?f seq = Some st" using assms(3) by (simp_all add: heads_def)
  have nc: "rt_compute rt \<noteq> Some seq" using hf(6) assms(4,5) by auto
  have dj: "distinct (st_jobs st)" using hf(1) by (simp add: state_ok_def shape_ok_def)
  have d: "done_ok ?f ((seq, k, outcome) # ds)" using v(1) assms(2) unfolding rt_view_def by simp
  then have keys: "distinct (map (\<lambda>(seq, k, _). (seq, k)) ds)" "\<forall>o'. (seq, k, o') \<notin> set ds" by (force simp: done_ok_def)+
  have "\<forall>k' o'. (seq, k', o') \<in> set ds \<longrightarrow> k' \<in> set (st_jobs ?st) \<and> job_result_ok ?st k' o'"
    using d h(3) keys(2) dj by (fastforce simp: done_ok_def job_result_ok_def)
  moreover have "slot_ok (rt_banks rt) i ?st" using heads_slot [OF assms(1,3)] by (simp add: slot_ok_def)
  ultimately have "rt_view (?f(seq \<mapsto> ?st)) (rt_banks rt) (rt_compute rt) ds"
    using nc hf(7) keys(1) dj assms(2)
    by (intro head_step [OF v(1) h _ state_ok_unjob [OF hf(1)] bank_moves_refl [OF assms(1)]]) auto
  moreover have "map_of (rt_records rt') = ?f(seq \<mapsto> ?st)"
    using map_of_upd_fun [of "rt\<lparr>rt_done := ds\<rparr>" seq st] h(3) by (simp add: rt'_def)
  ultimately show ?thesis using v(2) h nc by (simp add: rt_ok_def heads_def rt'_def)
qed

text \<open>The result of a compute job: the executed members get their outcome.\<close>

lemma computed_ok:
  assumes "rt_ok rt" "rt_done rt = (seq, COMPUTE, outcome) # ds" "heads rt i seq st" "COMPUTE \<in> set (st_jobs st)"
    and g_def: "g = (\<lambda>st. st\<lparr>st_jobs := remove1 COMPUTE (st_jobs st), st_result := Some r,
             st_outcomes := map (\<lambda>x. if x = None then Some EXECUTED else x) (st_outcomes st)\<rparr>)"
  defines "rt' \<equiv> upd_state seq g (rt\<lparr>rt_done := ds, rt_compute := None\<rparr>)"
  shows "rt_ok rt' \<and> heads rt' i seq (g st) \<and> st_jobs (g st) = [] \<and> live_rows (g st) = [] \<and> st_layout (g st) \<noteq> None"
proof -
  let ?f = "map_of (rt_records rt)"
  note hf = heads_facts [OF assms(1,3)]
  have v: "rt_view ?f (rt_banks rt) (rt_compute rt) (rt_done rt)" "distinct (map fst (rt_records rt))" using assms(1) by (simp_all add: rt_ok_def)
  have h: "i \<in> {0, 1}" "pb_current (bank_at (rt_banks rt) i) = Some seq" "?f seq = Some st" using assms(3) by (simp_all add: heads_def)
  have c: "rt_compute rt = Some seq" using hf(7) assms(4) by blast
  have jobs: "st_jobs st = [COMPUTE]" "st_plan st \<noteq> None" "live_rows st \<noteq> []" "st_metadata st \<noteq> None"
    and ph: "pb_phase (bank_at (rt_banks rt) i) = COMPUTING" using hf(6) [OF c] by simp_all
  have g: "st_jobs (g st) = []" "live_rows (g st) = []" "st_spec (g st) = st_spec st" "st_layout (g st) = st_layout st"
    by (auto simp: g_def jobs live_rows_def)
  have lay: "st_layout st \<noteq> None" using hf(1) jobs(4) by (auto simp: state_ok_def stages_ok_def)
  have m: "members_ok st" and sh: "shape_ok seq st" and sg: "stages_ok st" using hf(1) by (simp_all add: state_ok_def)
  have arr: "arrived (g st) = arrived st" by (simp add: g_def arrived_def fun_eq_iff)
  have live: "list_all (arrived st) (live_rows st)" using m jobs(2,3) by (auto simp: members_ok_def covers_def)
  have "members_ok (g st)"
  proof -
    have "arrived st j" if "j < length (st_outcomes st)" "st_outcomes (g st) ! j = Some EXECUTED" for j
    proof (cases "st_outcomes st ! j = None")
      case True
      then have "j \<in> set (live_rows st)" using that(1) by (simp add: live_iff)
      then show ?thesis using live by (simp add: list_all_iff)
    next
      case False
      then have "st_outcomes st ! j = Some EXECUTED" using that by (auto simp: g_def split: if_splits)
      then show ?thesis using m that(1) by (simp add: members_ok_def)
    qed
    then show ?thesis using m g(1,2) arr by (auto simp: members_ok_def g_def)
  qed
  moreover have "shape_ok seq (g st)" using sh by (simp add: shape_ok_def g_def jobs)
  moreover have "stages_ok (g st)" using sg by (simp add: stages_ok_def g_def jobs)
  moreover have "ends_ok (g st)" using g(1,2) hf(3) by (simp add: ends_ok_def) (simp add: g_def)
  ultimately have ok: "state_ok seq (g st)" by (simp add: state_ok_def)
  have d: "done_ok ?f ((seq, COMPUTE, outcome) # ds)" using v(1) assms(2) unfolding rt_view_def by simp
  then have keys: "distinct (map (\<lambda>(seq, k, _). (seq, k)) ds)" "\<forall>k o'. (seq, k, o') \<notin> set ds"
    using h(3) jobs(1) by (force simp: done_ok_def)+
  have "slot_ok (rt_banks rt) i (g st)" using heads_slot [OF assms(1,3)] by (simp add: slot_ok_def g_def)
  then have "rt_view (?f(seq \<mapsto> g st)) (rt_banks rt) None ds"
    using g keys c assms(2) by (intro head_step [OF v(1) h g(3) ok bank_moves_refl [OF assms(1)]]) auto
  moreover have "map_of (rt_records rt') = ?f(seq \<mapsto> g st)"
    using map_of_upd_fun [of "rt\<lparr>rt_done := ds, rt_compute := None\<rparr>" seq st g] h(3) by (simp add: rt'_def)
  ultimately show ?thesis using v(2) h g lay by (simp add: rt_ok_def heads_def rt'_def)
qed

lemma upd_twice: "upd_state seq f (upd_state seq g rt) = upd_state seq (f \<circ> g) rt"
  by (simp add: upd_state_def comp_def case_prod_beta)

lemma handle_done_ok:
  assumes "rt_ok rt" "rt_done rt = d # ds" "handle_done role d (rt\<lparr>rt_done := ds\<rparr>) = Inr rt'"
  shows "rt_ok rt'"
proof -
  obtain seq k outcome where d: "d = (seq, k, outcome)" by (cases d) auto
  note dn = assms(2) [unfolded d]
  obtain st where h: "heads rt (wk_bank_id (st_spec st)) seq st" and k: "k \<in> set (st_jobs st)" and res: "job_result_ok st k outcome"
    using done_head [OF assms(1) dn] by blast
  let ?i = "wk_bank_id (st_spec st)" and ?rt = "upd_state seq (\<lambda>st. st\<lparr>st_jobs := remove1 k (st_jobs st)\<rparr>) (rt\<lparr>rt_done := ds\<rparr>)"
  note hf = heads_facts [OF assms(1) h]
  obtain v where v: "outcome = Inr v" and a: "apply_job role seq k v ?rt = Inr rt'"
    using assms(3) by (auto simp: handle_done_def d bind_r_eq_Inr)
  have s: "stages_ok st" "members_ok st" "ends_ok st" using hf(1) by (simp_all add: state_ok_def)
  show ?thesis
  proof (cases "k = COMPUTE")
    case True
    then obtain r where r: "v = Computed r" using a by (cases v) auto
    define g :: "'a work_state \<Rightarrow> 'a work_state" where "g = (\<lambda>st. st\<lparr>st_jobs := remove1 COMPUTE (st_jobs st), st_result := Some r,
             st_outcomes := map (\<lambda>x. if x = None then Some EXECUTED else x) (st_outcomes st)\<rparr>)"
    let ?rt2 = "upd_state seq g (rt\<lparr>rt_done := ds, rt_compute := None\<rparr>)"
    have two: "rt_ok ?rt2" "heads ?rt2 ?i seq (g st)" "st_jobs (g st) = []" "live_rows (g st) = []" "st_layout (g st) \<noteq> None"
      using computed_ok [OF assms(1) _ h _ g_def, of outcome ds] dn k True by auto
    have "upd_state seq (\<lambda>st. st\<lparr>st_result := Some r, st_outcomes := map (\<lambda>x. if x = None then Some EXECUTED else x) (st_outcomes st)\<rparr>)
        (?rt\<lparr>rt_compute := None\<rparr>) = ?rt2"
      using True by (simp add: upd_state_def g_def comp_def case_prod_beta cong: if_cong)
    moreover have "map_of (rt_records ?rt) seq = Some (st\<lparr>st_jobs := remove1 k (st_jobs st)\<rparr>)" using h by (simp add: map_of_upd heads_def)
    ultimately have fin: "(if cr_exports r then Inr (set_phase ?i EXPORTING (submit_job seq JOB_D2H ?rt2)) else finish_work role seq ?rt2) = Inr rt'"
      using a True r by (auto simp: bind_r_eq_Inr Let_def state_of_Inr split: if_splits)
    show ?thesis
    proof (cases "cr_exports r")
      case False
      then show ?thesis using fin finish_work_ok [OF two(1-4)] by simp
    next
      case True
      have sub: "rt_ok (submit_job seq JOB_D2H ?rt2)" "heads (submit_job seq JOB_D2H ?rt2) ?i seq (g st\<lparr>st_jobs := st_jobs (g st) @ [JOB_D2H]\<rparr>)"
        using head_submit [OF two(1,2), of JOB_D2H] two(3,4) by simp_all
      have "rt_ok (set_phase ?i EXPORTING (submit_job seq JOB_D2H ?rt2))"
        using set_phase_ok [OF sub, of EXPORTING] two(5) by (simp add: submit_job_def)
      then show ?thesis using fin True by simp
    qed
  next
    case False
    let ?st = "st\<lparr>st_jobs := remove1 k (st_jobs st)\<rparr>"
    have one: "rt_ok ?rt" "heads ?rt ?i seq ?st" "rt_compute ?rt \<noteq> Some seq" using unjob_ok [OF assms(1) dn h k False] by simp_all
    have lay: "k \<noteq> JOB_D2H \<Longrightarrow> st_layout ?st \<noteq> None" using s(1) k by (auto simp: stages_ok_def)
    show ?thesis
    proof (cases k)
      case IMPORT_INPUT
      then obtain x where x: "v = Inputs x" using a by (cases v) auto
      have "state_ok seq (?st\<lparr>st_import_inputs := Some x\<rparr>)" using lay IMPORT_INPUT by (intro state_ok_import heads_facts(1) [OF one(1,2)]) simp
      then show ?thesis using a x IMPORT_INPUT head_value [OF one(1,2), of "\<lambda>st. st\<lparr>st_import_inputs := Some x\<rparr>"] by (simp add: same_place_def)
    next
      case COMPILE
      then obtain p where p: "v = Planned p" using a by (cases v) auto
      have "covers ?st p \<or> live_rows ?st = []" using s(2) k res COMPILE v p by (auto simp: members_ok_def job_result_ok_def covers_def)
      then show ?thesis using a p COMPILE head_plan [OF one, of p] lay by auto
    next
      case METADATA
      then obtain x where x: "v = Written x" using a by (cases v) auto
      have "st_import_inputs st \<noteq> None" using s(1) k METADATA by (auto simp: stages_ok_def)
      then have "state_ok seq (?st\<lparr>st_metadata := Some x\<rparr>)" by (intro state_ok_metadata heads_facts(1) [OF one(1,2)]) simp
      then show ?thesis using a x METADATA head_value [OF one(1,2), of "\<lambda>st. st\<lparr>st_metadata := Some x\<rparr>"] by (simp add: same_place_def)
    next
      case JOB_H2D
      then have "v = Copied" using a by (cases v) auto
      moreover have "st_metadata ?st \<noteq> None" using s(1) k JOB_H2D by (auto simp: stages_ok_def)
      ultimately show ?thesis using a JOB_H2D ready_ok [OF one(1,2) lay _ one(3)] one(2)
        by (auto simp: bind_r_eq_Inr state_of_Inr heads_def)
    next
      case COMPUTE
      then show ?thesis using False by simp
    next
      case JOB_D2H
      then have "v = Copied" using a by (cases v) auto
      moreover have "live_rows ?st = []" using s(3) k JOB_D2H by (simp add: ends_ok_def)
      ultimately show ?thesis using a JOB_D2H release_work_ok [OF one(1,2) _ one(3)] by simp
    qed
  qed
qed

lemma handle_all_ok: "rt_ok rt \<Longrightarrow> handle_all role n rt = Inr (c, rt') \<Longrightarrow> rt_ok rt'"
proof (induction n arbitrary: rt c rt')
  case (Suc n)
  show ?case
  proof (cases "rt_done rt")
    case Nil
    then show ?thesis using Suc.prems by simp
  next
    case (Cons d ds)
    then obtain rt1 c1 where "handle_done role d (rt\<lparr>rt_done := ds\<rparr>) = Inr rt1" "handle_all role n rt1 = Inr (c1, rt')"
      using Suc.prems(2) by (auto simp: bind_r_eq_Inr)
    then show ?thesis using Suc.IH handle_done_ok [OF Suc.prems(1) Cons] by blast
  qed
qed simp

end
