(* ===== verification/RuntimeSafety.thy ===== *)
theory RuntimeSafety
  imports RuntimeFacts
begin

text \<open>
  Every history of a worker runtime keeps its invariant. From it: a compute job has every input of every member it runs, the two
  Banks never share rows or blocks, and a WORK leaves its Bank with one outcome for each member.
\<close>

section \<open>The operations keep the invariant\<close>

lemma advance_bank_ok:
  assumes "rt_ok rt" "i \<in> {0, 1}" "role_plans role" "advance_bank role receipts i rt = Inr (c, rt')"
  shows "rt_ok rt'"
proof (cases "pb_current (bank_at (rt_banks rt) i)")
  case None
  then show ?thesis using assms(1,4) by (simp add: advance_bank_def)
next
  case (Some seq)
  have "current_ok (map_of (rt_records rt)) (rt_banks rt) i" using assms(1,2) unfolding rt_ok_def rt_view_def by blast
  then obtain st0 where st0: "heads rt i seq st0" using Some assms(2) by (auto simp: current_ok_def heads_def)
  let ?rt = "take_receipt role receipts i seq rt"
  obtain st where ok: "rt_ok ?rt" and h: "heads ?rt i seq st" using take_receipt_ok [OF assms(1) st0, of role receipts] by (auto simp: at_head_def)
  note hf = heads_facts [OF ok h]
  show ?thesis
  proof (cases "list_all is_skipped (st_outcomes st)")
    case True
    show ?thesis
    proof (cases "st_jobs st = [] \<and> (ro_direct_imports role \<longrightarrow> st_imported st)")
      case False
      then show ?thesis using assms(4) Some True hf(8) ok by (auto simp: advance_bank_def Let_def)
    next
      case fin: True
      have "live_rows st = []" using True by (auto simp: live_empty list_all_iff is_skipped_def)
      moreover have "rt_compute ?rt \<noteq> Some seq" using hf(7) fin by auto
      moreover have "finish_work role seq ?rt = Inr rt'" using assms(4) Some True fin hf(8) by (auto simp: advance_bank_def Let_def bind_r_eq_Inr)
      ultimately show ?thesis using finish_work_ok [OF ok h] fin by blast
    qed
  next
    case False
    then obtain allocated where al: "allocate_layout seq ?rt = Inr allocated"
      and rest: "(case allocated of None \<Rightarrow> Inr (False, ?rt)
          | Some (c1, rt1) \<Rightarrow>
            bind_r (import_phase role seq rt1) (\<lambda>(c2, rt2).
            bind_r (compile_phase role seq rt2) (\<lambda>(c3, rt3).
            bind_r (metadata_phase seq rt3) (\<lambda>(c4, rt4).
            bind_r (copy_phase role i seq rt4) (\<lambda>(c5, rt5). Inr (c1 \<or> c2 \<or> c3 \<or> c4 \<or> c5, rt5)))))) = Inr (c, rt')"
      using assms(4) Some hf(8) by (auto simp: advance_bank_def Let_def bind_r_eq_Inr)
    show ?thesis
    proof (cases allocated)
      case None
      then show ?thesis using rest ok by simp
    next
      case (Some a)
      obtain c1 rt1 where a: "a = (c1, rt1)" by (cases a)
      obtain c2 rt2 where p1: "import_phase role seq rt1 = Inr (c2, rt2)" using rest Some a by (auto simp: bind_r_eq_Inr)
      obtain c3 rt3 where p2: "compile_phase role seq rt2 = Inr (c3, rt3)" using rest Some a p1 by (auto simp: bind_r_eq_Inr)
      obtain c4 rt4 where p3: "metadata_phase seq rt3 = Inr (c4, rt4)" using rest Some a p1 p2 by (auto simp: bind_r_eq_Inr)
      obtain c5 where p4: "copy_phase role i seq rt4 = Inr (c5, rt')" using rest Some a p1 p2 p3 by (auto simp: bind_r_eq_Inr)
      note p = p1 p2 p3 p4
      obtain s1 where "rt_ok rt1" "heads rt1 i seq s1" "st_layout s1 \<noteq> None" using allocate_layout_ok [OF ok h] al Some a by blast
      then obtain s2 where "rt_ok rt2" "heads rt2 i seq s2" "st_layout s2 \<noteq> None" using import_phase_ok p(1) by blast
      then obtain s3 where "rt_ok rt3" "heads rt3 i seq s3" "st_layout s3 \<noteq> None" using compile_phase_ok [OF _ _ _ assms(3) p(2)] by blast
      then obtain s4 where "rt_ok rt4" "heads rt4 i seq s4" "st_layout s4 \<noteq> None" using metadata_phase_ok p(3) by blast
      then show ?thesis using copy_phase_ok p(4) unfolding at_head_def by blast
    qed
  qed
qed

lemma advance_all_ok:
  "rt_ok rt \<Longrightarrow> set is \<subseteq> {0, 1} \<Longrightarrow> role_plans role \<Longrightarrow> advance_all role receipts is rt = Inr (c, rt') \<Longrightarrow> rt_ok rt'"
proof (induction "is" arbitrary: rt c rt')
  case (Cons i "is")
  obtain c1 rt1 where a: "advance_bank role receipts i rt = Inr (c1, rt1)" using Cons.prems(4) by (auto simp: bind_r_eq_Inr)
  obtain c2 rt2 where d: "dispatch_compute rt1 = (c2, rt2)" by (cases "dispatch_compute rt1")
  obtain c3 where rest: "advance_all role receipts is (snd (dispatch_compute rt1)) = Inr (c3, rt')"
    using Cons.prems(4) a d by (auto simp: bind_r_eq_Inr)
  have "rt_ok rt1" using advance_bank_ok [OF Cons.prems(1) _ Cons.prems(3) a] Cons.prems(2) by auto
  then show ?case using Cons.IH [OF dispatch_compute_ok _ Cons.prems(3) rest] Cons.prems(2) by simp
qed simp

lemma step_ok:
  assumes "rt_ok rt" "role_plans role" "rt_step role receipts budget rt = (outcome, rt')"
  shows "rt_ok rt'"
proof (cases "rt_failed rt \<noteq> None")
  case True
  then show ?thesis using assms by (simp add: rt_step_def)
next
  case False
  show ?thesis
  proof (cases "step_body role receipts budget rt")
    case (Inl e)
    then show ?thesis using assms False by (auto simp: rt_step_def rt_ok_def)
  next
    case (Inr x)
    then obtain c1 rt1 c2 where "handle_all role budget rt = Inr (c1, rt1)" "advance_all role receipts (bank_order rt1) rt1 = Inr (c2, rt')"
      using assms(3) False by (auto simp: rt_step_def step_body_def bind_r_eq_Inr)
    moreover have "set (bank_order rt1) \<subseteq> {0, 1}" by (auto simp: bank_order_def split: option.splits)
    ultimately show ?thesis using advance_all_ok [OF handle_all_ok [OF assms(1)] _ assms(2)] by blast
  qed
qed

lemma new_state_ok: "check_work w = Inr () \<Longrightarrow> state_ok (wk_work_seq w) (new_state w) \<and> untouched_work (new_state w)"
  by (simp add: state_ok_def shape_ok_def stages_ok_def members_ok_def ends_ok_def new_state_def untouched_work_def)

lemma accept_ok:
  assumes "rt_ok rt" "check_work w = Inr ()" "rt_accept w rt = Inr (taken, rt')"
  shows "rt_ok rt'"
proof (cases taken)
  case False
  then show ?thesis using assms(1,3) by (auto simp: rt_accept_def bind_r_eq_Inr Let_def split: if_splits)
next
  case True
  let ?i = "wk_bank_id w" and ?seq = "wk_work_seq w" and ?f = "map_of (rt_records rt)" and ?bs = "rt_banks rt"
  let ?b = "bank_at ?bs ?i"
  define b' where "b' = (if pb_current ?b = None then ?b\<lparr>pb_current := Some ?seq\<rparr> else ?b\<lparr>pb_pending := Some ?seq\<rparr>)"
  have new: "?f ?seq = None" "pb_current ?b = None \<or> pb_pending ?b = None"
    and rt': "rt' = rt\<lparr>rt_records := rt_records rt @ [(?seq, new_state w)], rt_banks := set_bank ?i b' ?bs\<rparr>"
    using assms(3) True by (auto simp: rt_accept_def bind_r_eq_Inr Let_def b'_def split: if_splits)
  have i: "?i \<in> {0, 1}" using work_bank [OF assms(2)] by blast
  have v: "rt_view ?f ?bs (rt_compute rt) (rt_done rt)" "distinct (map fst (rt_records rt))" using assms(1) by (simp_all add: rt_ok_def)
  let ?bs' = "set_bank ?i b' ?bs"
  have at: "bank_at ?bs' j = (if j = ?i then b' else bank_at ?bs j)" if "j \<in> {0, 1}" for j using i that by (auto simp: bank_at_set)
  have cok: "current_ok ?f ?bs j" "pending_ok ?f ?bs j" if "j \<in> {0, 1}" for j using v(1) that unfolding rt_view_def by blast+
  have f': "map_of (rt_records rt') = ?f(?seq \<mapsto> new_state w)" using new(1) by (auto simp: rt' map_add_def fun_eq_iff split: option.splits)
  have free: "pb_phase ?b = PHASE_FREE" if "pb_layout ?b = None"
  proof -
    have "layout_fits ?bs ?i" using v(1) i by (auto simp: rt_view_def banks_ok_def)
    then show ?thesis using that by (simp add: layout_fits_def)
  qed
  have b': "pb_layout b' = pb_layout ?b" "pb_phase b' = pb_phase ?b" "pb_epoch b' = pb_epoch ?b" "pb_bank_id b' = pb_bank_id ?b" by (simp_all add: b'_def)
  have banks: "banks_ok ?bs'"
  proof -
    have "layout_fits ?bs' j = layout_fits ?bs j" if j: "j \<in> {0, 1}" for j
      unfolding layout_fits_def at [OF j] by (cases "j = ?i"; cases "pb_layout (bank_at ?bs j)") (simp_all add: b')
    then show ?thesis using v(1) at b' by (auto simp: rt_view_def banks_ok_def rows_split_def held_rows_def)
  qed
  have laid: "laid_out ?bs' x l = laid_out ?bs x l" for x l by (simp add: laid_out_def)
  have other: "s \<noteq> ?seq" if "?f s = Some x" for s x using that new(1) by auto
  have all: "state_ok s x \<and> owned ?bs' s x" if s: "(?f(?seq \<mapsto> new_state w)) s = Some x" for s x
  proof (cases "s = ?seq")
    case True
    then show ?thesis using s new_state_ok [OF assms(2)] at [OF i] by (auto simp: owned_def b'_def new_state_def)
  next
    case False
    then have fs: "?f s = Some x" using s by simp
    then have ok: "state_ok s x" "owned ?bs s x" using v(1) unfolding rt_view_def by blast+
    then have j: "wk_bank_id (st_spec x) \<in> {0, 1}" using work_bank unfolding state_ok_def shape_ok_def by blast
    have "owned ?bs' s x"
    proof (cases "wk_bank_id (st_spec x) = ?i")
      case False
      then show ?thesis using ok(2) at [OF j] by (simp add: owned_def)
    next
      case True
      show ?thesis
      proof (cases "pb_current ?b")
        case None
        then have "pb_pending ?b = None" using cok(1) [OF i] by (simp add: current_ok_def)
        then show ?thesis using ok(2) True None by (simp add: owned_def)
      next
        case (Some c)
        then have "pb_pending ?b = None" using new(2) by simp
        then show ?thesis using ok(2) at [OF j] True Some by (auto simp: owned_def b'_def)
      qed
    qed
    then show ?thesis using ok(1) by blast
  qed
  have "current_ok (?f(?seq \<mapsto> new_state w)) ?bs' j \<and> pending_ok (?f(?seq \<mapsto> new_state w)) ?bs' j" if j: "j \<in> {0, 1}" for j
  proof (cases "j = ?i")
    case False
    have "pb_current (bank_at ?bs j) \<noteq> Some ?seq" "pb_pending (bank_at ?bs j) \<noteq> Some ?seq"
      using cok [OF j] new(1) by (auto simp: current_ok_def pending_ok_def split: option.splits)
    then show ?thesis using cok [OF j] at [OF j] False laid by (simp add: current_ok_def pending_ok_def split: option.splits)
  next
    case True
    show ?thesis
    proof (cases "pb_current ?b")
      case None
      then have "pb_pending ?b = None" "pb_layout ?b = None" using cok(1) [OF i] by (simp_all add: current_ok_def)
      then show ?thesis using True at [OF j] None free
        by (simp add: current_ok_def pending_ok_def b'_def new_state_def)
    next
      case (Some s)
      then have "s \<noteq> ?seq" "pb_pending ?b = None" using cok(1) [OF i] new by (auto simp: current_ok_def)
      moreover have "untouched_work (new_state w :: 'a work_state)" "st_spec (new_state w :: 'a work_state) = w"
        using new_state_ok [OF assms(2)] by (auto simp: new_state_def)
      ultimately show ?thesis using True at [OF j] Some cok(1) [OF i] laid by (simp add: current_ok_def pending_ok_def b'_def)
    qed
  qed
  moreover have "compute_ok (?f(?seq \<mapsto> new_state w)) ?bs' (rt_compute rt)"
  proof -
    have co: "compute_ok ?f ?bs (rt_compute rt)" using v(1) unfolding rt_view_def by blast
    have "pb_current (bank_at ?bs' (wk_bank_id (st_spec x))) = Some s \<and> pb_phase (bank_at ?bs' (wk_bank_id (st_spec x))) = COMPUTING"
      if x: "?f s = Some x" "pb_current (bank_at ?bs (wk_bank_id (st_spec x))) = Some s"
        "pb_phase (bank_at ?bs (wk_bank_id (st_spec x))) = COMPUTING" for s x
    proof -
      have "wk_bank_id (st_spec x) \<in> {0, 1}" using v(1) x(1) work_bank unfolding rt_view_def state_ok_def shape_ok_def by blast
      then show ?thesis using at x b' by (auto simp: b'_def)
    qed
    moreover have "rt_compute rt \<noteq> Some ?seq" using co new(1) by (auto simp: compute_ok_def)
    ultimately show ?thesis using co other by (auto simp: compute_ok_def new_state_def split: option.splits)
  qed
  moreover have "done_ok (?f(?seq \<mapsto> new_state w)) (rt_done rt)"
  proof -
    have "done_ok ?f (rt_done rt)" using v(1) unfolding rt_view_def by blast
    then show ?thesis using other unfolding done_ok_def by fastforce
  qed
  ultimately have "rt_view (?f(?seq \<mapsto> new_state w)) ?bs' (rt_compute rt) (rt_done rt)" using all banks unfolding rt_view_def by blast
  moreover have "distinct (map fst (rt_records rt'))" using v(2) new(1) by (auto simp: rt' map_of_eq_None_iff)
  ultimately show ?thesis using f' by (simp add: rt_ok_def rt')
qed

section \<open>Input facts\<close>

lemma arrived_capture:
  assumes "arrived st j"
  shows "arrived (capture e st) j"
proof -
  have "map_of (st_captured (capture e st) ! j) name \<noteq> None" if "map_of (st_captured st ! j) name \<noteq> None" for name
    using that by (cases "j = nat (ev_index e)"; cases "nat (ev_index e) < length (st_captured st)")
      (auto simp: capture_def Let_def update_conv' list_update_beyond)
  moreover have "st_spec (capture e st) = st_spec st" by (simp add: capture_def Let_def)
  ultimately show ?thesis using assms by (auto simp: arrived_def list_all_iff)
qed

lemma capture_fields [simp]:
  "st_spec (capture e st) = st_spec st" "st_jobs (capture e st) = st_jobs st" "st_layout (capture e st) = st_layout st" "st_plan (capture e st) = st_plan st"
  "st_import_inputs (capture e st) = st_import_inputs st" "st_metadata (capture e st) = st_metadata st" "st_imported (capture e st) = st_imported st"
  "st_result (capture e st) = st_result st" "st_physical_done (capture e st) = st_physical_done st" "st_prepared_rows (capture e st) = st_prepared_rows st"
  "st_prepared_template (capture e st) = st_prepared_template st" "length (st_captured (capture e st)) = length (st_captured st)"
  "length (st_outcomes (capture e st)) = length (st_outcomes st)"
  by (simp_all add: capture_def Let_def)

lemma capture_outcome:
  "st_outcomes (capture e st) = st_outcomes st \<or> st_outcomes (capture e st) = (st_outcomes st)[nat (ev_index e) := Some SKIPPED_FINISHED]"
  by (simp add: capture_def Let_def)

lemma receive_input_ok:
  assumes "rt_ok rt" "receive_input seq e rt = Inr rt'"
  shows "rt_ok rt'"
proof -
  let ?f = "map_of (rt_records rt)" and ?i = "nat (ev_index e)"
  obtain st where st: "?f seq = Some st" and ix: "?i < length (wk_rows (st_spec st))" "ev_name e \<in> set input_names"
    and dep: "dep_named (wk_rows (st_spec st) ! ?i) (ev_name e) \<noteq> None"
    and how: "is_skipped (st_outcomes st ! ?i) \<and> rt' = rt \<or> \<not> is_skipped (st_outcomes st ! ?i) \<and> \<not> st_physical_done st
      \<and> map_of (st_captured st ! ?i) (ev_name e) = None \<and> rt' = upd_state seq (capture e) rt"
    using assms(2) by (auto simp: receive_input_def bind_r_eq_Inr state_of_Inr split: if_splits)
  show ?thesis
  proof (cases "is_skipped (st_outcomes st ! ?i)")
    case True
    then show ?thesis using how assms(1) by simp
  next
    case False
    then have new: "map_of (st_captured st ! ?i) (ev_name e) = None" and rt': "rt' = upd_state seq (capture e) rt" using how by simp_all
    have v: "rt_view ?f (rt_banks rt) (rt_compute rt) (rt_done rt)" "distinct (map fst (rt_records rt))" using assms(1) by (simp_all add: rt_ok_def)
    have ok: "state_ok seq st" using v(1) st unfolding rt_view_def by blast
    have sh: "shape_ok seq st" and m: "members_ok st" and ends: "ends_ok st" using ok by (simp_all add: state_ok_def)
    have len: "?i < length (st_outcomes st)" using sh ix(1) by (simp add: shape_ok_def)
    have missing: "\<not> arrived st ?i" using new dep ix(2) by (auto simp: arrived_def list_all_iff)
    then have "st_outcomes st ! ?i \<noteq> Some EXECUTED" using m len by (auto simp: members_ok_def)
    then have "st_outcomes st ! ?i = None" using False by (cases "st_outcomes st ! ?i") (auto simp: is_skipped_def intro: outcome.exhaust)
    then have live: "?i \<in> set (live_rows st)" using len by (simp add: live_iff)
    have nocompile: "COMPILE \<notin> set (st_jobs st)" using m live missing by (auto simp: members_ok_def list_all_iff)
    have noplan: "st_plan st = None"
    proof (rule ccontr)
      assume "st_plan st \<noteq> None"
      then obtain p where "st_plan st = Some p" by blast
      then have "covers st p" using m live by (auto simp: members_ok_def)
      then show False using live missing by (auto simp: covers_def list_all_iff)
    qed
    have keeps: "st_outcomes (capture e st) ! j = Some EXECUTED \<Longrightarrow> st_outcomes st ! j = Some EXECUTED" if "j < length (st_outcomes st)" for j
      using capture_outcome [of e st] that len by (auto simp: nth_list_update split: if_splits)
    have "members_ok (capture e st)" using m nocompile noplan keeps arrived_capture
      unfolding members_ok_def by (simp; blast)
    moreover have "ends_ok (capture e st)" using ends live keeps by (auto simp: ends_ok_def)
    moreover have "shape_ok seq (capture e st)" using sh by (simp add: shape_ok_def)
    moreover have "stages_ok (capture e st)" using ok by (simp add: state_ok_def stages_ok_def)
    ultimately have ok': "state_ok seq (capture e st)" by (simp add: state_ok_def)
    have d: "done_ok ?f (rt_done rt)" and co: "compute_ok ?f (rt_banks rt) (rt_compute rt)" using v(1) unfolding rt_view_def by blast+
    have "rt_compute rt \<noteq> Some seq" using co noplan st by (auto simp: compute_ok_def)
    moreover have "k \<in> set (st_jobs (capture e st)) \<and> job_result_ok (capture e st) k outcome" if "(seq, k, outcome) \<in> set (rt_done rt)" for k outcome
      using d that st nocompile by (fastforce simp: done_ok_def job_result_ok_def)
    ultimately have "rt_view (?f(seq \<mapsto> capture e st)) (rt_banks rt) (rt_compute rt) (rt_done rt)"
      using ok' by (intro view_upd [OF v(1) st]) (simp_all add: same_place_def untouched_work_def)
    then show ?thesis using v(2) map_of_upd_fun [OF st, of "capture e"] by (simp add: rt_ok_def rt')
  qed
qed

lemma receive_inputs_ok:
  assumes "rt_ok rt" "receive_inputs seq worker generation events rt = Inr rt'"
  shows "rt_ok rt'"
proof -
  have "iter_r (receive_input seq) events rt = Inr rt'" using assms(2) by (simp add: receive_inputs_def bind_r_eq_Inr)
  then show ?thesis using assms(1)
  proof (induction events arbitrary: rt)
    case (Cons e events)
    then obtain rt1 where "receive_input seq e rt = Inr rt1" "iter_r (receive_input seq) events rt1 = Inr rt'" by (auto simp: bind_r_eq_Inr)
    then show ?case using Cons receive_input_ok by blast
  qed simp
qed

section \<open>Retirement, shutdown and finished jobs\<close>

lemma delete_map: "map_of (AList.delete k xs) = (map_of xs)(k := None)"
  by (rule ext) (simp add: delete_conv')

lemma retired_ok:
  assumes "rt_ok rt" "publication_retired seq rt = Inr rt'"
  shows "rt_ok rt'"
proof -
  let ?f = "map_of (rt_records rt)"
  obtain st where st: "?f seq = Some st" "st_physical_done st" and rt': "rt' = rt\<lparr>rt_records := AList.delete seq (rt_records rt)\<rparr>"
    using assms(2) by (auto simp: publication_retired_def bind_r_eq_Inr state_of_Inr)
  have v: "rt_view ?f (rt_banks rt) (rt_compute rt) (rt_done rt)" "distinct (map fst (rt_records rt))" using assms(1) by (simp_all add: rt_ok_def)
  have "state_ok seq st" using v(1) st(1) unfolding rt_view_def by blast
  then have jobs: "st_jobs st = []" using st(2) by (simp add: state_ok_def ends_ok_def)
  have "current_ok (?f(seq := None)) (rt_banks rt) i \<and> pending_ok (?f(seq := None)) (rt_banks rt) i" if "i \<in> {0, 1}" for i
  proof -
    have "current_ok ?f (rt_banks rt) i" "pending_ok ?f (rt_banks rt) i" using v(1) that unfolding rt_view_def by blast+
    then show ?thesis using st by (auto simp: current_ok_def pending_ok_def untouched_work_def split: option.splits)
  qed
  moreover have "compute_ok (?f(seq := None)) (rt_banks rt) (rt_compute rt)"
    using v(1) st(1) jobs by (auto simp: rt_view_def compute_ok_def split: option.splits)
  moreover have "done_ok (?f(seq := None)) (rt_done rt)"
  proof -
    have d: "done_ok ?f (rt_done rt)" using v(1) unfolding rt_view_def by blast
    then have "s \<noteq> seq" if "(s, k, outcome) \<in> set (rt_done rt)" for s k outcome using that st(1) jobs by (fastforce simp: done_ok_def)
    then show ?thesis using d unfolding done_ok_def by fastforce
  qed
  ultimately have "rt_view (?f(seq := None)) (rt_banks rt) (rt_compute rt) (rt_done rt)" using v(1) by (auto simp: rt_view_def split: if_splits)
  then show ?thesis using v(2) by (simp add: rt_ok_def rt' delete_map distinct_delete)
qed

lemma shutdown_fields:
  "st_spec (shutdown_state rt seq st) = st_spec st" "st_jobs (shutdown_state rt seq st) = st_jobs st" "st_layout (shutdown_state rt seq st) = st_layout st"
  "st_plan (shutdown_state rt seq st) = st_plan st" "st_import_inputs (shutdown_state rt seq st) = st_import_inputs st"
  "st_metadata (shutdown_state rt seq st) = st_metadata st" "st_imported (shutdown_state rt seq st) = st_imported st"
  "st_result (shutdown_state rt seq st) = st_result st" "st_physical_done (shutdown_state rt seq st) = st_physical_done st"
  "st_prepared_rows (shutdown_state rt seq st) = st_prepared_rows st" "st_prepared_template (shutdown_state rt seq st) = st_prepared_template st"
  "st_captured (shutdown_state rt seq st) = st_captured st" "length (st_outcomes (shutdown_state rt seq st)) = length (st_outcomes st)"
  "arrived (shutdown_state rt seq st) = arrived st"
  by (simp_all add: shutdown_state_def arrived_def fun_eq_iff)

lemma shutdown_live: "shutdown_state rt seq st = st \<or> live_rows (shutdown_state rt seq st) = []"
  by (auto simp: shutdown_state_def live_rows_def)

lemma shutdown_executed: "i < length (st_outcomes st) \<Longrightarrow> st_outcomes (shutdown_state rt seq st) ! i = Some EXECUTED \<longleftrightarrow> st_outcomes st ! i = Some EXECUTED"
  by (simp add: shutdown_state_def)

lemma shutdown_state_ok:
  assumes "state_ok seq st"
  shows "state_ok seq (shutdown_state rt seq st)"
proof (cases "shutdown_state rt seq st = st")
  case False
  then have live: "live_rows (shutdown_state rt seq st) = []" using shutdown_live by blast
  have "members_ok st" "ends_ok st" using assms by (simp_all add: state_ok_def)
  then have "members_ok (shutdown_state rt seq st)" "ends_ok (shutdown_state rt seq st)"
    using live shutdown_executed [of _ st rt seq] by (auto simp: members_ok_def ends_ok_def shutdown_fields)
  then show ?thesis using assms by (simp add: state_ok_def shape_ok_def stages_ok_def shutdown_fields)
qed (use assms in simp)

lemma shutdown_ok:
  assumes "rt_ok rt"
  shows "rt_ok (shutdown_runtime rt)"
proof -
  let ?f = "map_of (rt_records rt)" and ?g = "\<lambda>s. map_option (shutdown_state rt s) (map_of (rt_records rt) s)"
  have v: "rt_view ?f (rt_banks rt) (rt_compute rt) (rt_done rt)" "distinct (map fst (rt_records rt))" using assms by (simp_all add: rt_ok_def)
  have get: "map_of (map (\<lambda>(s, st). (s, shutdown_state rt s st)) xs) s = map_option (shutdown_state rt s) (map_of xs s)" for xs s by (induction xs) auto
  have "current_ok ?g (rt_banks rt) i \<and> pending_ok ?g (rt_banks rt) i" if "i \<in> {0, 1}" for i
  proof -
    have "current_ok ?f (rt_banks rt) i" "pending_ok ?f (rt_banks rt) i" using v(1) that unfolding rt_view_def by blast+
    then show ?thesis by (auto simp: current_ok_def pending_ok_def untouched_work_def shutdown_fields split: option.splits)
  qed
  moreover have "compute_ok ?g (rt_banks rt) (rt_compute rt)"
  proof -
    have "shutdown_state rt s st = st" if "rt_compute rt = Some s" for s st using that by (simp add: shutdown_state_def)
    moreover have "compute_ok ?f (rt_banks rt) (rt_compute rt)" using v(1) unfolding rt_view_def by blast
    ultimately show ?thesis by (auto simp: compute_ok_def shutdown_fields split: option.splits)
  qed
  moreover have "done_ok ?g (rt_done rt)"
  proof -
    have d: "done_ok ?f (rt_done rt)" using v(1) unfolding rt_view_def by blast
    have "job_result_ok (shutdown_state rt s st) k outcome" if "job_result_ok st k outcome" for s st k and outcome :: "'a job_value result"
      using that shutdown_live [of rt s st] by (auto simp: job_result_ok_def)
    then show ?thesis using d unfolding done_ok_def by (fastforce simp: shutdown_fields)
  qed
  moreover have "state_ok s x \<and> owned (rt_banks rt) s x" if g: "?g s = Some x" for s x
  proof -
    obtain y where y: "?f s = Some y" "x = shutdown_state rt s y" using g by blast
    then have "state_ok s y" "owned (rt_banks rt) s y" using v(1) unfolding rt_view_def by blast+
    then show ?thesis using shutdown_state_ok y(2) by (simp add: owned_def shutdown_fields)
  qed
  ultimately have "rt_view ?g (rt_banks rt) (rt_compute rt) (rt_done rt)" using v(1) unfolding rt_view_def by blast
  moreover have "map_of (rt_records (shutdown_runtime rt)) = ?g" by (rule ext) (simp add: shutdown_runtime_def get)
  moreover have "distinct (map fst (rt_records (shutdown_runtime rt)))" using v(2) by (simp add: shutdown_runtime_def case_prod_beta comp_def)
  moreover have "rt_banks (shutdown_runtime rt) = rt_banks rt" "rt_compute (shutdown_runtime rt) = rt_compute rt" "rt_done (shutdown_runtime rt) = rt_done rt"
    by (simp_all add: shutdown_runtime_def)
  ultimately show ?thesis unfolding rt_ok_def by simp
qed

section \<open>Histories\<close>

text \<open>
  A job that was submitted ends once, at any later time, with an exception or a value. A compile job plans the members that were
  live when it was submitted, which are those live now unless the worker was shut down meanwhile.
\<close>

definition job_ends :: "'v worker_runtime \<Rightarrow> int \<Rightarrow> job_kind \<Rightarrow> 'v job_value result \<Rightarrow> bool" where
  "job_ends rt seq k outcome \<longleftrightarrow> (\<exists>st. map_of (rt_records rt) seq = Some st \<and> k \<in> set (st_jobs st) \<and> job_result_ok st k outcome)
     \<and> (seq, k) \<notin> set (map (\<lambda>(seq, k, _). (seq, k)) (rt_done rt))"

inductive runtime_run :: "'v worker_role \<Rightarrow> 'v worker_runtime \<Rightarrow> bool" for role where
  run_start: "new_banks blocks rows = Inr banks \<Longrightarrow> runtime_run role (new_runtime banks)"
| run_accept: "runtime_run role rt \<Longrightarrow> check_work w = Inr () \<Longrightarrow> rt_accept w rt = Inr (taken, rt') \<Longrightarrow> runtime_run role rt'"
| run_inputs: "runtime_run role rt \<Longrightarrow> receive_inputs seq worker generation events rt = Inr rt' \<Longrightarrow> runtime_run role rt'"
| run_job_ends: "runtime_run role rt \<Longrightarrow> job_ends rt seq k outcome \<Longrightarrow> runtime_run role (rt\<lparr>rt_done := rt_done rt @ [(seq, k, outcome)]\<rparr>)"
| run_step: "runtime_run role rt \<Longrightarrow> rt_step role receipts budget rt = (outcome, rt') \<Longrightarrow> runtime_run role rt'"
| run_retired: "runtime_run role rt \<Longrightarrow> publication_retired seq rt = Inr rt' \<Longrightarrow> runtime_run role rt'"
| run_drain: "runtime_run role rt \<Longrightarrow> runtime_run role (drain_runtime rt)"
| run_shutdown: "runtime_run role rt \<Longrightarrow> runtime_run role (shutdown_runtime rt)"
| run_recycle: "runtime_run role rt \<Longrightarrow> recycle_runtime rt = Inr rt' \<Longrightarrow> runtime_run role rt'"

lemma start_ok:
  assumes "new_banks blocks rows = Inr banks"
  shows "rt_ok (new_runtime banks)"
proof -
  have "pb_current (bank_at banks i) = None \<and> pb_pending (bank_at banks i) = None \<and> pb_layout (bank_at banks i) = None" for i
    using assms by (auto simp: new_banks_def bind_r_eq_Inr bank_at_def new_bank_def)
  then show ?thesis using new_banks_ok [OF assms]
    by (simp add: rt_ok_def new_runtime_def rt_view_def current_ok_def pending_ok_def compute_ok_def done_ok_def)
qed

lemma job_ends_ok:
  assumes "rt_ok rt" "job_ends rt seq k outcome"
  shows "rt_ok (rt\<lparr>rt_done := rt_done rt @ [(seq, k, outcome)]\<rparr>)"
  using assms unfolding rt_ok_def rt_view_def job_ends_def done_ok_def by auto

lemma runtime_inv:
  assumes "runtime_run role rt" "role_plans role"
  shows "rt_ok rt"
  using assms(1)
proof (induction rule: runtime_run.induct)
  case (run_start blocks rows banks)
  then show ?case by (rule start_ok)
next
  case (run_accept rt w taken rt')
  then show ?case using accept_ok by blast
next
  case (run_inputs rt seq worker generation events rt')
  then show ?case using receive_inputs_ok by blast
next
  case (run_job_ends rt seq k outcome)
  then show ?case using job_ends_ok by blast
next
  case (run_step rt receipts budget outcome rt')
  then show ?case using step_ok assms(2) by blast
next
  case (run_retired rt seq rt')
  then show ?case using retired_ok by blast
next
  case (run_drain rt)
  then show ?case by (simp add: drain_runtime_def rt_ok_def)
next
  case (run_shutdown rt)
  then show ?case using shutdown_ok by blast
next
  case (run_recycle rt rt')
  then show ?case by (auto simp: recycle_runtime_def bind_r_eq_Inr rt_ok_def)
qed

section \<open>What the invariant gives\<close>

definition inputs_complete :: "'v work_state \<Rightarrow> nat \<Rightarrow> bool" where
  "inputs_complete st i \<longleftrightarrow> (\<forall>name \<in> set input_names. dep_named (wk_rows (st_spec st) ! i) name = None \<or> map_of (st_captured st ! i) name \<noteq> None)"

text \<open>C16: A compute job waits for everything it reads. In every history of a worker, while a WORK computes, it is the only one, its
  Bank is the one it heads and nothing else runs for it, its rows are laid out, its KV prefix is imported and its metadata written,
  the plan that was submitted covers exactly the members without an outcome, and each of these has received every input it names.\<close>

theorem compute_waits_for_inputs:
  assumes "runtime_run role rt" "role_plans role" "rt_compute rt = Some seq"
  shows "\<exists>st p. map_of (rt_records rt) seq = Some st \<and> pb_current (bank_at (rt_banks rt) (wk_bank_id (st_spec st))) = Some seq
     \<and> pb_phase (bank_at (rt_banks rt) (wk_bank_id (st_spec st))) = COMPUTING \<and> st_jobs st = [COMPUTE]
     \<and> st_layout st \<noteq> None \<and> st_imported st \<and> st_metadata st \<noteq> None
     \<and> st_plan st = Some p \<and> live_rows st \<noteq> [] \<and> map pr_index (cp_rows p) = live_rows st \<and> list_all (inputs_complete st) (live_rows st)"
proof -
  have ok: "rt_ok rt" by (rule runtime_inv [OF assms(1,2)])
  obtain st where st: "map_of (rt_records rt) seq = Some st" "pb_current (bank_at (rt_banks rt) (wk_bank_id (st_spec st))) = Some seq"
    "pb_phase (bank_at (rt_banks rt) (wk_bank_id (st_spec st))) = COMPUTING" "st_jobs st = [COMPUTE]" "st_imported st" "st_metadata st \<noteq> None"
    "st_plan st \<noteq> None" "live_rows st \<noteq> []"
    using ok assms(3) unfolding rt_ok_def rt_view_def compute_ok_def by auto
  have "state_ok seq st" using ok st(1) unfolding rt_ok_def rt_view_def by blast
  then have m: "members_ok st" and s: "stages_ok st" by (simp_all add: state_ok_def)
  obtain p where p: "st_plan st = Some p" using st(7) by blast
  then have "covers st p" using m st(8) by (simp add: members_ok_def)
  then have "map pr_index (cp_rows p) = live_rows st" "list_all (inputs_complete st) (live_rows st)"
    by (auto simp: covers_def arrived_def inputs_complete_def list_all_iff)
  moreover have "st_layout st \<noteq> None" using s st(6) by (simp add: stages_ok_def)
  ultimately show ?thesis using st p by blast
qed


lemma offsets_apart:
  assumes "check_work w = Inr ()" "a < b" "b < length (wk_rows w)"
  shows "rw_destination_offset (wk_rows w ! a) + rw_capacity_blocks (wk_rows w ! a) \<le> rw_destination_offset (wk_rows w ! b)"
proof -
  have rows: "check_work_rows (wk_operation w) 0 (wk_rows w) = Inr ()" using assms(1) by (simp add: check_work_def)
  have pos: "0 \<le> rw_capacity_blocks r" if r: "r \<in> set (wk_rows w)" for r
  proof -
    obtain n where "n < length (wk_rows w)" "wk_rows w ! n = r" using r by (auto simp: in_set_conv_nth)
    then show ?thesis using check_work_row_meaning [OF check_work_rows_layout [OF rows, THEN conjunct2]] by force
  qed
  have "take b (wk_rows w) = take a (wk_rows w) @ wk_rows w ! a # drop (Suc a) (take b (wk_rows w))"
    using id_take_nth_drop [of a "take b (wk_rows w)"] assms(2,3) by (simp add: min_absorb1)
  then have "sum_list (map rw_capacity_blocks (take b (wk_rows w))) = sum_list (map rw_capacity_blocks (take a (wk_rows w)))
      + (rw_capacity_blocks (wk_rows w ! a) + sum_list (map rw_capacity_blocks (drop (Suc a) (take b (wk_rows w)))))"
    by (metis (no_types, lifting) list.simps(9) map_append sum_list.Cons sum_list_append)
  moreover have "0 \<le> sum_list (map rw_capacity_blocks (drop (Suc a) (take b (wk_rows w))))"
    using pos by (intro sum_list_nonneg) (auto dest!: in_set_dropD in_set_takeD)
  ultimately show ?thesis
    using check_work_rows_layout [OF rows, of a] check_work_rows_layout [OF rows, of b] assms(2,3) by simp
qed

lemma offsets_inside:
  assumes "check_work w = Inr ()" "a < length (wk_rows w)"
  shows "0 \<le> rw_destination_offset (wk_rows w ! a) \<and> rw_destination_offset (wk_rows w ! a) + rw_capacity_blocks (wk_rows w ! a) \<le> work_blocks w"
proof -
  have rows: "check_work_rows (wk_operation w) 0 (wk_rows w) = Inr ()" using assms(1) by (simp add: check_work_def)
  have pos: "0 \<le> rw_capacity_blocks r" if r: "r \<in> set (wk_rows w)" for r
  proof -
    obtain n where "n < length (wk_rows w)" "wk_rows w ! n = r" using r by (auto simp: in_set_conv_nth)
    then show ?thesis using check_work_row_meaning [OF check_work_rows_layout [OF rows, THEN conjunct2]] by force
  qed
  have "wk_rows w = take a (wk_rows w) @ wk_rows w ! a # drop (Suc a) (wk_rows w)" by (rule id_take_nth_drop [OF assms(2)])
  then have "work_blocks w = sum_list (map rw_capacity_blocks (take a (wk_rows w)))
      + (rw_capacity_blocks (wk_rows w ! a) + sum_list (map rw_capacity_blocks (drop (Suc a) (wk_rows w))))"
    unfolding work_blocks_def by (metis (no_types, lifting) list.simps(9) map_append sum_list.Cons sum_list_append)
  moreover have "0 \<le> sum_list (map rw_capacity_blocks (drop (Suc a) (wk_rows w)))" "0 \<le> sum_list (map rw_capacity_blocks (take a (wk_rows w)))"
    using pos by (intro sum_list_nonneg; auto dest!: in_set_dropD in_set_takeD)+
  ultimately show ?thesis using check_work_rows_layout [OF rows assms(2)] by simp
qed

text \<open>The layout of a Bank is that of the WORK at its head.\<close>

lemma layout_of_bank:
  assumes "rt_ok rt" "i \<in> {0, 1}" "pb_layout (bank_at (rt_banks rt) i) = Some l"
  obtains w where "check_work w = Inr ()" "wk_bank_id w = i" "laid_out (rt_banks rt) w l"
proof -
  have "current_ok (map_of (rt_records rt)) (rt_banks rt) i" using assms(1,2) unfolding rt_ok_def rt_view_def by blast
  then obtain seq st where st: "map_of (rt_records rt) seq = Some st" "wk_bank_id (st_spec st) = i" "laid_out (rt_banks rt) (st_spec st) l"
    using assms(3) by (auto simp: current_ok_def split: option.splits)
  moreover have "check_work (st_spec st) = Inr ()" using assms(1) st(1) unfolding rt_ok_def rt_view_def state_ok_def shape_ok_def by blast
  ultimately show ?thesis using that by blast
qed

lemma member_blocks:
  assumes "check_work w = Inr ()" "laid_out bs w l" "a < length (bl_rows l)"
  shows "wk_bank_id w * bn_blocks_per_bank bs \<le> bl_offsets l ! a
    \<and> bl_offsets l ! a + bl_capacities l ! a \<le> (wk_bank_id w + 1) * bn_blocks_per_bank bs"
proof -
  have "a < length (wk_rows w)" "work_blocks w \<le> bn_blocks_per_bank bs" using assms(2,3) by (simp_all add: laid_out_def)
  then show ?thesis using offsets_inside [OF assms(1), of a] assms(2) by (simp add: laid_out_def algebra_simps)
qed

lemma members_apart:
  assumes "check_work w = Inr ()" "laid_out bs w l" "a < b" "b < length (bl_rows l)"
  shows "bl_offsets l ! a + bl_capacities l ! a \<le> bl_offsets l ! b"
  using offsets_apart [OF assms(1,3)] assms(2-4) by (simp add: laid_out_def)

text \<open>C18: Physical memory has one owner. In every history of a worker, two members of the WORKs that hold its two Banks, or of the
  same WORK, have different rows of the block table and ranges of blocks that do not overlap.\<close>

theorem bank_memory_exclusive:
  assumes "runtime_run role rt" "role_plans role" "{i, j} \<subseteq> {0, 1}"
    and "pb_layout (bank_at (rt_banks rt) i) = Some l" "pb_layout (bank_at (rt_banks rt) j) = Some m"
    and "a < length (bl_rows l)" "b < length (bl_rows m)" "(i, a) \<noteq> (j, b)"
  shows "bl_rows l ! a \<noteq> bl_rows m ! b \<and> (bl_offsets l ! a + bl_capacities l ! a \<le> bl_offsets m ! b
     \<or> bl_offsets m ! b + bl_capacities m ! b \<le> bl_offsets l ! a)"
proof -
  let ?bs = "rt_banks rt"
  have ok: "rt_ok rt" by (rule runtime_inv [OF assms(1,2)])
  then have rows: "distinct (held_rows ?bs 0 @ held_rows ?bs 1)" by (simp add: rt_ok_def rt_view_def banks_ok_def rows_split_def)
  have held: "held_rows ?bs i = bl_rows l" "held_rows ?bs j = bl_rows m" using assms(4,5) by (simp_all add: held_rows_def)
  obtain w where w: "check_work w = Inr ()" "wk_bank_id w = i" "laid_out ?bs w l" using layout_of_bank [OF ok _ assms(4)] assms(3) by blast
  obtain v where v: "check_work v = Inr ()" "wk_bank_id v = j" "laid_out ?bs v m" using layout_of_bank [OF ok _ assms(5)] assms(3) by blast
  show ?thesis
  proof (cases "i = j")
    case True
    then have same: "m = l" "a \<noteq> b" using assms(4,5,8) by auto
    have "distinct (bl_rows l)" using rows held assms(3) by auto
    then have "bl_rows l ! a \<noteq> bl_rows l ! b" using same assms(6,7) by (simp add: nth_eq_iff_index_eq)
    moreover have "bl_offsets l ! a + bl_capacities l ! a \<le> bl_offsets l ! b \<or> bl_offsets l ! b + bl_capacities l ! b \<le> bl_offsets l ! a"
      using members_apart [OF w(1,3)] same assms(6,7) by (metis nat_neq_iff)
    ultimately show ?thesis using same by simp
  next
    case False
    have "set (bl_rows l) \<inter> set (bl_rows m) = {}" using rows held assms(3) False by auto
    then have "bl_rows l ! a \<noteq> bl_rows m ! b" using assms(6,7) by (metis disjoint_iff nth_mem)
    moreover have "i = 0 \<and> j = 1 \<or> i = 1 \<and> j = 0" using assms(3) False by auto
    ultimately show ?thesis using member_blocks [OF w(1,3) assms(6)] member_blocks [OF v(1,3) assms(7)] w(2) v(2) by auto
  qed
qed

section \<open>A run\<close>

text \<open>A Draft worker with a WORK of two members in Bank 0 and one of a single member in Bank 1. Every fact arrives, both WORKs
  are laid out and planned, and when the metadata of the first is written it computes.\<close>

definition member_example :: "int \<Rightarrow> int \<Rightarrow> row_work" where
  "member_example slot offset = row_work_example\<lparr>rw_slot := slot, rw_destination_offset := offset, rw_source := None,
     rw_predecessor := Some ((dependency_example DELTA)\<lparr>td_slot := slot\<rparr>), rw_classified := Some ((dependency_example CLASSIFIED)\<lparr>td_slot := slot\<rparr>)\<rparr>"

definition pair_example :: work where
  "pair_example = work_example\<lparr>wk_operation := DRAFT_INITIAL, wk_bank_id := 0, wk_rows := [member_example 4 0, member_example 5 3]\<rparr>"

definition single_example :: work where
  "single_example = work_example\<lparr>wk_operation := DRAFT_INITIAL, wk_work_seq := 12, wk_rows := [member_example 6 0]\<rparr>"

definition role_example :: "nat worker_role" where
  "role_example = \<lparr>ro_inline = True, ro_incremental = True, ro_max_batch_tokens = 100, ro_direct_imports = False,
     ro_compile_import = \<lambda>_ _ _ _. Inr 0,
     ro_compile_compute = \<lambda>_ _ _ members. Inr \<lparr>cp_rows = map (\<lambda>i. \<lparr>pr_index = i, pr_prompt = [], pr_proposal = [], pr_suffix = [7, 8]\<rparr>) members\<rparr>,
     ro_copies = \<lambda>_ _. False\<rparr>"

definition fact_example :: "int \<Rightarrow> string \<Rightarrow> input_event" where
  "fact_example i name = \<lparr>ev_index = i, ev_name = name, ev_selector = (if name = ''predecessor'' then DELTA else CLASSIFIED),
     ev_snapshot = [(''lifecycle'', VInt 1)]\<rparr>"

definition begun_example :: "nat worker_runtime" where
  "begun_example = new_runtime (projr (new_banks 8 4))"

definition taken_example :: "nat worker_runtime" where
  "taken_example = snd (projr (rt_accept pair_example begun_example))"

definition both_example :: "nat worker_runtime" where
  "both_example = snd (projr (rt_accept single_example taken_example))"

definition fed_example :: "nat worker_runtime" where
  "fed_example = projr (receive_inputs 11 2 3 (map (fact_example 0) [''predecessor'', ''classified''] @ map (fact_example 1) [''classified'', ''predecessor'']) both_example)"

definition ready_example :: "nat worker_runtime" where
  "ready_example = projr (receive_inputs 12 2 3 (map (fact_example 0) [''predecessor'', ''classified'']) fed_example)"

definition laid_example :: "nat worker_runtime" where
  "laid_example = snd (rt_step role_example (\<lambda>_ _. False) 8 ready_example)"

definition written_example :: "nat worker_runtime" where
  "written_example = laid_example\<lparr>rt_done := rt_done laid_example @ [(11, METADATA, Inr (Written 0))]\<rparr>"

definition computing_example :: "nat worker_runtime" where
  "computing_example = snd (rt_step role_example (\<lambda>_ _. False) 8 written_example)"

lemma role_example_plans: "role_plans role_example"
  by (auto simp: role_plans_def role_example_def comp_def)

lemma example_runs: "runtime_run role_example laid_example" "runtime_run role_example computing_example"
proof -
  have "runtime_run role_example begun_example"
  proof -
    have "new_banks 8 4 = Inr (projr (new_banks 8 4))" by code_simp
    then show ?thesis unfolding begun_example_def by (rule run_start)
  qed
  moreover have "check_work pair_example = Inr ()" "rt_accept pair_example begun_example = Inr (True, taken_example)" by code_simp+
  moreover have "check_work single_example = Inr ()" "rt_accept single_example taken_example = Inr (True, both_example)" by code_simp+
  ultimately have "runtime_run role_example both_example" by (meson run_accept)
  moreover have "receive_inputs 11 2 3 (map (fact_example 0) [''predecessor'', ''classified''] @ map (fact_example 1) [''classified'', ''predecessor'']) both_example
      = Inr fed_example"
    "receive_inputs 12 2 3 (map (fact_example 0) [''predecessor'', ''classified'']) fed_example = Inr ready_example" by code_simp+
  ultimately have "runtime_run role_example ready_example" by (meson run_inputs)
  then have laid: "runtime_run role_example laid_example" unfolding laid_example_def by (rule run_step [OF _ prod.collapse [symmetric]])
  have "\<exists>st. map_of (rt_records laid_example) 11 = Some st \<and> METADATA \<in> set (st_jobs st)"
  proof -
    have "map_of (rt_records laid_example) 11 = Some (the (map_of (rt_records laid_example) 11))"
      "METADATA \<in> set (st_jobs (the (map_of (rt_records laid_example) 11)))" by code_simp+
    then show ?thesis by blast
  qed
  moreover have "rt_done laid_example = []" by code_simp
  ultimately have "job_ends laid_example 11 METADATA (Inr (Written 0))" by (auto simp: job_ends_def job_result_ok_def)
  then have "runtime_run role_example written_example" unfolding written_example_def by (rule run_job_ends [OF laid])
  then show "runtime_run role_example computing_example" unfolding computing_example_def by (rule run_step [OF _ prod.collapse [symmetric]])
  show "runtime_run role_example laid_example" by (rule laid)
qed

theorem compute_waits_for_inputs_witness:
  "\<exists>st. map_of (rt_records computing_example) 11 = Some st \<and> live_rows st \<noteq> [] \<and> list_all (inputs_complete st) (live_rows st)"
proof -
  have "rt_compute computing_example = Some 11" by code_simp
  from compute_waits_for_inputs [OF example_runs(2) role_example_plans this] show ?thesis by blast
qed


theorem bank_memory_exclusive_witness:
  "bl_rows (the (pb_layout (bank_at (rt_banks laid_example) 0))) ! 1 \<noteq> bl_rows (the (pb_layout (bank_at (rt_banks laid_example) 1))) ! 0"
proof -
  have "pb_layout (bank_at (rt_banks laid_example) 0) = Some (the (pb_layout (bank_at (rt_banks laid_example) 0)))"
    "pb_layout (bank_at (rt_banks laid_example) 1) = Some (the (pb_layout (bank_at (rt_banks laid_example) 1)))" by code_simp+
  moreover have "1 < length (bl_rows (the (pb_layout (bank_at (rt_banks laid_example) 0))))"
    "0 < length (bl_rows (the (pb_layout (bank_at (rt_banks laid_example) 1))))" by code_simp+
  ultimately show ?thesis using bank_memory_exclusive [OF example_runs(1) role_example_plans, of 0 1 _ _ 1 0] by simp
qed

end
