(* ===== verification/Spec2Isabelle.thy ===== *)
theory Spec2Isabelle
  imports CommandPlane CommandCacheSafety StateChange WorkWire DraftProtocol Speculative HostAllocator ProposalArena SwiftScheduler BitmapBlocks BankSafety AdmissionSafety TableSeqlock DraftOwnership OutputSafety LedgerSafety ReaderSafety RuntimeSafety
begin

text \<open>
  NebulaSD serves language models with disaggregated speculative decoding: an Engine process admits requests and
  plans work, Draft workers propose tokens, Target workers verify them, and the KV cache of a request moves between
  workers through host memory. The code lives in \<open>src/nebulasd/src/nebulasd/\<close> (control plane) and
  \<open>src/swiftLLM/swiftllm/\<close> (model server). This development models the parts of both that decide who may do what and
  when: identities and their fences, the payload arenas and wire formats, the command path, the shared observation
  tables, admission, work completions, output delivery, HostKV allocation, the KV block managers, the request
  scheduler and the acceptance of drafts. All theories are written against the Python sources.

  Parts and theories (each theory opens with what it holds; paths are below the two directories above):

  Identities and bytes. \<open>Prelude\<close>: exceptions as values of \<open>py_error\<close>, the error monad, little-endian integers, slices and
  overwriting of byte buffers. \<open>Ids\<close>: \<open>core/ids.py\<close>, circular order of sequences, request and operation fences.
  \<open>Handles\<close>: \<open>core/handles.py\<close>. \<open>Wire\<close>: the scalar encoders and \<open>_PayloadReader\<close> of \<open>ipc/protocol.py\<close>; the locale
  \<open>codec\<close> states what a field's encoder owes its reader, and is interpreted for every row of the protocol.

  Commands. \<open>CommandArena\<close> (\<open>ipc/command_arena.py\<close>), \<open>ArrayRing\<close> and \<open>CommandRing\<close> (\<open>ipc/command_ring.py\<close>),
  \<open>ProtocolRows\<close>, \<open>DraftContracts\<close>, \<open>DraftProtocol\<close>, \<open>ProtocolCodec\<close>, \<open>ProtocolRoundtrip\<close> (\<open>ipc/protocol.py\<close>,
  \<open>ipc/draft_protocol.py\<close>, \<open>core/draft_contracts.py\<close>), \<open>CommandCache\<close> and \<open>CommandCacheSafety\<close> (\<open>WorkerCommandCache\<close>),
  \<open>CommandPlane\<close> (the transmission of \<open>scheduler/commands.py\<close> composed with arena, ring, codec and worker),
  \<open>WorkWire\<close> (\<open>workers/work.py\<close>). The dispatcher encodes a command into the arena and publishes a header in the ring;
  the worker consumes the header, reads and decodes the payload, applies it to its cache and releases the arena.

  Payload arenas. \<open>AppendArenas\<close> (\<open>data/token_arena.py\<close>, \<open>data/generation_config_arena.py\<close>), \<open>ProposalArena\<close>
  (\<open>data/proposal_arena.py\<close>), \<open>SharedArenas\<close> (\<open>data/shared_arenas.py\<close>), \<open>Completion\<close> (\<open>workers/completion.py\<close>). Locales
  \<open>payload_store\<close> state the contract of a store whose live handles read back their payloads.

  Observation tables. \<open>TableLayout\<close> (\<open>table/layout_types.py\<close>, \<open>layout.py\<close>, \<open>draft_layout.py\<close>) places the fields of the
  17 blocks. \<open>TableStorage\<close> (\<open>table/storage.py\<close>) publishes and reads rows; \<open>StateChange\<close> (\<open>ipc/state_change_ring.py\<close>,
  \<open>ipc/doorbell.py\<close>) carries the hints. \<open>TableSeqlock\<close>: readers running against a writer. \<open>TableFacts\<close>, \<open>TableCells\<close>: what
  a publication leaves behind, and the refinement of the bytes by a map from block and row to values.
  \<open>TableWriters\<close> (\<open>table/writers.py\<close>, \<open>copy_writers.py\<close>, \<open>draft_registry.py\<close>), \<open>DraftTable\<close>, \<open>DraftWriters\<close>
  (\<open>table/draft_fences.py\<close>, \<open>draft_copy_transitions.py\<close>, \<open>draft_writers.py\<close>, \<open>prepared.py\<close>, \<open>draft_wait.py\<close>,
  \<open>draft_dispatch.py\<close>): the typed writers, which join the rows that authorize a fact before they publish it.
  \<open>WriterFacts\<close>, \<open>DraftFacts\<close>, \<open>DraftOwnership\<close>: what those joins guarantee. \<open>TableReader\<close>, \<open>ReaderFacts\<close>, \<open>ReaderSafety\<close>
  (\<open>table/reader.py\<close>): the Engine's incremental view of the tables, which polls the rows the hints name and scans all rows
  after a hint was lost.

  Engine. \<open>Admission\<close>, \<open>AdmissionSafety\<close> (\<open>engine/admission.py\<close>, \<open>engine/request_registry.py\<close>, cohort retirement in
  \<open>engine/recycling.py\<close>), \<open>OutputDelivery\<close>, \<open>OutputSafety\<close> (\<open>engine/output_manager.py\<close>), \<open>WorkLedger\<close>,
  \<open>LedgerFacts\<close>, \<open>LedgerSafety\<close> (\<open>engine/work_ledger.py\<close>: which WORKs are outstanding, which facts may change a request, the
  credit of a worker), \<open>HostArena\<close>, \<open>HostAllocator\<close> (\<open>kv/arena.py\<close>, \<open>kv/host_allocator.py\<close>).

  Workers. \<open>WorkerBanks\<close> (\<open>workers/banks.py\<close>), \<open>WorkerRuntime\<close> (\<open>workers/runtime.py\<close>): the single owner of the WORKs, Banks and
  jobs of a worker, turn by turn; a job ends at any later time with a value or an exception. \<open>RuntimeFacts\<close>: its invariant,
  operation by operation. \<open>RuntimeSafety\<close>: every history keeps it. A step that raises leaves a worker that refuses every further
  step; the half changed records of such a worker are not modelled.

  Model server. \<open>Speculative\<close> (\<open>swiftllm/speculative.py\<close>), \<open>SwiftBatch\<close>, \<open>SwiftScheduler\<close> (\<open>server/structs.py\<close>,
  \<open>backend_local.py\<close>, \<open>server/scheduler.py\<close>, the output step of \<open>server/engine.py\<close>), \<open>BitmapBlocks\<close>, \<open>BankBlocks\<close>,
  \<open>BankSafety\<close> (\<open>worker/block_manager.py\<close> and its kernels).

  Conventions. A class is a record of its attributes, an operation a function from the old state to the new one and
  the result. An operation that may raise returns \<open>py_error + 'a\<close>; the error constructors carry the names of the Python
  exceptions and shortened messages. When an operation returns an error and no state, the code leaves its state as
  it was; an operation that can raise after it changed something returns the state beside the outcome. Integers are
  typed, so the TypeErrors of the validators are not reachable in the model, except where a field may be an integer
  or a handle. Python integers are \<open>int\<close>; what is stored in a fixed width goes through little-endian bytes, where the
  wrap-around and the range checks are written out. A lock makes an operation one step; where the code is lock free
  (a stable read against a publication, the ready word of a completion) the stores are steps of their own and a
  reader sees any number of them. Dictionaries are association lists in insertion order, since the code iterates over
  them. Loops of the code that may retry take the code's own bound as fuel (16 attempts of a stable read); every other
  loop is structural or has a measure. Clocks and generated identifiers are arguments.

  Groups of results. Histories: for every stateful component an inductive relation lists the operations a caller may
  perform in any order, and an invariant is proved by induction over it. Wire formats: each encoder is read back by
  its reader, field by field through \<open>codec\<close>. Safety of composition: commands arrive in order and intact, a Target or
  Draft run executes what was prepared last, a reader of a table never sees a torn row, a fact in a table carries the
  fence of the row that authorized it, a request changes its owner only with a complete copy, the client receives each
  token once. Resources: blocks are partitioned between free and owned, banks and rows never overlap, budgets suffice.
  Errors: refused operations change nothing.

  Not modelled. Tensors, CUDA copies, NUMA placement and page registration (\<open>kv/transfer.py\<close>, \<open>kv/cuda_*.py\<close>,
  \<open>swiftllm/worker/model.py\<close>, layers and kernels): floating point on the device. ctypes bridges to the C++ library
  (\<open>ipc/native*.py\<close>, \<open>table/native_*.py\<close>, \<open>scheduler/native_*.py\<close>): code that is not Python. Scheduler policies
  (\<open>scheduler/\<close>): placement by floating-point cost tables. Process start-up, supervision, the HTTP front end, traces and
  reports: I/O without state another component reads. The SwiftLLM facades and sessions and the worker executors (\<open>workers/*/backend.py\<close>,
  \<open>server/starsd_*.py\<close>, \<open>server/target_worker.py\<close>) drive the GPU model with futures and device buffers; what they decide about rows and
  banks rests on the block managers, which are modelled. The Engine's turn loop calls the components above in sequence and
  waits on clocks and processes; it has no state of its own that they do not hold.
\<close>

end
